(* ===== verification/Prelude.thy ===== *)
theory Prelude
  imports Main "HOL-Library.AList" "HOL-Library.Word"
begin

text \<open>
  Shared vocabulary of the development: the machine integers of the C++ sources, the model of
  \<open>std::unordered_map\<close> as an association list, the locale \<open>keyed_store\<close> that states what a
  client may expect of a keyed container, and generic lemmas on lists and association lists.

  \<^item> \<open>uint8_t\<close> .. \<open>uint64_t\<close> are words of that width: \<open>+\<close> and \<open>-\<close> wrap as in C++.
  \<^item> \<open>int32_t\<close> world coordinates are 32-bit words read with \<open>sint\<close>; \<open>int32_t\<close> amounts
    (energy, fluid, heat) are \<^typ>\<open>int\<close>, because signed overflow is undefined in C++ and every
    execution that has a meaning stays in range.
  \<^item> \<open>std::unordered_map<K, V>\<close> is an association list. Its order is the iteration order, which
    the C++ standard leaves open; statements quantify over all lists, hence over all orders.
\<close>

section \<open>Machine integers\<close>

type_synonym u8 = "8 word"
type_synonym u16 = "16 word"
type_synonym u32 = "32 word"
type_synonym u64 = "64 word"
type_synonym i32 = "32 word"

section \<open>Unordered maps\<close>

type_synonym ('k, 'v) umap = "('k \<times> 'v) list"

abbreviation um_find :: "('k, 'v) umap \<Rightarrow> 'k \<Rightarrow> 'v option" where
  "um_find \<equiv> map_of"

abbreviation um_put :: "'k \<Rightarrow> 'v \<Rightarrow> ('k, 'v) umap \<Rightarrow> ('k, 'v) umap" where
  "um_put \<equiv> AList.update"

abbreviation um_erase :: "'k \<Rightarrow> ('k, 'v) umap \<Rightarrow> ('k, 'v) umap" where
  "um_erase \<equiv> AList.delete"

definition um_emplace :: "'k \<Rightarrow> 'v \<Rightarrow> ('k, 'v) umap \<Rightarrow> ('k, 'v) umap" where
  "um_emplace k v m = (if um_find m k = None then um_put k v m else m)"

definition um_contains :: "('k, 'v) umap \<Rightarrow> 'k \<Rightarrow> bool" where
  "um_contains m k \<longleftrightarrow> um_find m k \<noteq> None"

definition um_wf :: "('k, 'v) umap \<Rightarrow> bool" where
  "um_wf m \<longleftrightarrow> distinct (map fst m)"

text \<open>The erase-while-iterating loop \<open>it = cond ? m.erase(it) : ++it\<close>.\<close>

definition um_erase_if :: "('k \<Rightarrow> 'v \<Rightarrow> bool) \<Rightarrow> ('k, 'v) umap \<Rightarrow> ('k, 'v) umap" where
  "um_erase_if p m = filter (\<lambda>(k, v). \<not> p k v) m"

named_theorems um_simps "lookup laws of the unordered-map model"

lemma um_find_put [um_simps]: "um_find (um_put k v m) = (um_find m)(k \<mapsto> v)"
  by (rule update_conv')

lemma um_find_erase [um_simps]: "um_find (um_erase k m) = (um_find m)(k := None)"
  by (rule delete_conv')

lemma um_find_emplace [um_simps]:
  "um_find (um_emplace k v m) = (if um_find m k = None then (um_find m)(k \<mapsto> v) else um_find m)"
  by (simp add: um_emplace_def um_simps)

lemma um_contains_iff [um_simps]: "um_contains m k \<longleftrightarrow> k \<in> fst ` set m"
  by (simp add: um_contains_def map_of_eq_None_iff)

lemma um_wf_Nil [simp]: "um_wf []"
  by (simp add: um_wf_def)

lemma um_wf_Cons [simp]: "um_wf ((k, v) # m) \<longleftrightarrow> k \<notin> fst ` set m \<and> um_wf m"
  by (auto simp: um_wf_def)

lemma um_wf_put [simp, intro]: "um_wf m \<Longrightarrow> um_wf (um_put k v m)"
  by (simp add: um_wf_def distinct_update)

lemma um_wf_erase [simp, intro]: "um_wf m \<Longrightarrow> um_wf (um_erase k m)"
  by (simp add: um_wf_def distinct_delete)

lemma um_wf_emplace [simp, intro]: "um_wf m \<Longrightarrow> um_wf (um_emplace k v m)"
  by (simp add: um_emplace_def)

lemma um_wf_filter [simp, intro]: "um_wf m \<Longrightarrow> um_wf (filter p m)"
  by (simp add: um_wf_def distinct_map_filter)

lemma um_wf_erase_if [simp, intro]: "um_wf m \<Longrightarrow> um_wf (um_erase_if p m)"
  by (simp add: um_erase_if_def)

lemma um_find_erase_if [um_simps]:
  assumes "um_wf m"
  shows "um_find (um_erase_if p m) k =
    (case um_find m k of None \<Rightarrow> None | Some v \<Rightarrow> if p k v then None else Some v)"
  using assms
proof (induction m)
  case Nil
  then show ?case by (simp add: um_erase_if_def)
next
  case (Cons a m)
  obtain k' v' where a: "a = (k', v')" by (cases a)
  have none: "k' \<notin> fst ` set m" using Cons.prems a by simp
  then have "um_find m k' = None" by (simp add: map_of_eq_None_iff)
  with Cons a show ?case
    by (auto simp: um_erase_if_def split: option.splits)
qed

lemma um_wf_map_values [simp]: "um_wf (map (\<lambda>(k, v). (k, f k v)) m) \<longleftrightarrow> um_wf m"
  by (simp add: um_wf_def case_prod_beta o_def)

lemma um_find_map_values [um_simps]:
  "um_find (map (\<lambda>(k, v). (k, f k v)) m) k = map_option (f k) (um_find m k)"
  by (induction m) auto

lemma um_find_in_set: "um_wf m \<Longrightarrow> (k, v) \<in> set m \<longleftrightarrow> um_find m k = Some v"
  by (auto simp: um_wf_def dest: map_of_SomeD)

lemma um_put_length_absent:
  "um_find m k = None \<Longrightarrow> length (um_put k v m) = Suc (length m)"
  by (induction m) (auto split: if_splits)

lemma um_put_length_present:
  "um_find m k \<noteq> None \<Longrightarrow> length (um_put k v m) = length m"
  by (induction m) (auto split: if_splits)

lemma um_put_set: "set (um_put k v m) \<subseteq> insert (k, v) (set m)"
  by (induction m) auto

lemma um_erase_set: "set (um_erase k m) \<subseteq> set m"
  by (simp add: AList.delete_eq)

section \<open>Arrays and vectors\<close>

text \<open>\<open>xs[i]\<close> of a C++ array or vector: out of range is undefined behaviour, \<open>None\<close>.\<close>

definition nth_opt :: "'a list \<Rightarrow> nat \<Rightarrow> 'a option" where
  "nth_opt xs i = (if i < length xs then Some (xs ! i) else None)"

lemma nth_opt_in [simp]: "i < length xs \<Longrightarrow> nth_opt xs i = Some (xs ! i)"
  by (simp add: nth_opt_def)

lemma nth_opt_eq_Some: "nth_opt xs i = Some x \<longleftrightarrow> i < length xs \<and> xs ! i = x"
  by (simp add: nth_opt_def)

text \<open>The linear search \<open>for (j = 0; j < n; ++j) if (xs[j] == x) { found = j; break; }\<close>.\<close>

fun index_of :: "'a \<Rightarrow> 'a list \<Rightarrow> nat option" where
  "index_of x [] = None"
| "index_of x (y # ys) = (if y = x then Some 0 else map_option Suc (index_of x ys))"

lemma index_of_Some: "index_of x xs = Some i \<Longrightarrow> i < length xs \<and> xs ! i = x"
  by (induction xs arbitrary: i) (auto split: if_splits)

lemma index_of_None: "index_of x xs = None \<longleftrightarrow> x \<notin> set xs"
  by (induction xs) auto

lemma index_of_obtain:
  assumes "x \<in> set xs"
  obtains i where "index_of x xs = Some i" "i < length xs" "xs ! i = x"
  using assms index_of_None[of x xs] index_of_Some[of x xs] by (cases "index_of x xs") auto

section \<open>Keyed containers as an interface\<close>

text \<open>
  What a client relies on: after an admitted \<open>put\<close> the key is found with the new value and all
  other keys are as before; \<open>erase\<close> removes exactly its key. \<open>admits\<close> is the provider's
  side condition on \<open>put\<close> (a bounded table refuses a new key when it is full).
\<close>

locale keyed_store =
  fixes find :: "'s \<Rightarrow> 'k \<Rightarrow> 'v option"
    and put :: "'k \<Rightarrow> 'v \<Rightarrow> 's \<Rightarrow> 's"
    and erase :: "'k \<Rightarrow> 's \<Rightarrow> 's"
    and admits :: "'s \<Rightarrow> 'k \<Rightarrow> bool"
    and inv :: "'s \<Rightarrow> bool"
  assumes find_put: "inv s \<Longrightarrow> admits s k \<Longrightarrow> find (put k v s) = (find s)(k \<mapsto> v)"
    and find_erase: "inv s \<Longrightarrow> find (erase k s) = (find s)(k := None)"
    and inv_put: "inv s \<Longrightarrow> admits s k \<Longrightarrow> inv (put k v s)"
    and inv_erase: "inv s \<Longrightarrow> inv (erase k s)"

datatype ('k, 'v) store_op = Put 'k 'v | Erase 'k

fun map_run :: "('k, 'v) store_op list \<Rightarrow> ('k \<Rightarrow> 'v option) \<Rightarrow> ('k \<Rightarrow> 'v option)" where
  "map_run [] m = m"
| "map_run (Put k v # ops) m = map_run ops (m(k \<mapsto> v))"
| "map_run (Erase k # ops) m = map_run ops (m(k := None))"

fun store_run :: "('k \<Rightarrow> 'v \<Rightarrow> 's \<Rightarrow> 's) \<Rightarrow> ('k \<Rightarrow> 's \<Rightarrow> 's) \<Rightarrow> ('k, 'v) store_op list \<Rightarrow> 's \<Rightarrow> 's"
where
  "store_run put erase [] s = s"
| "store_run put erase (Put k v # ops) s = store_run put erase ops (put k v s)"
| "store_run put erase (Erase k # ops) s = store_run put erase ops (erase k s)"

fun store_admits ::
  "('s \<Rightarrow> 'k \<Rightarrow> bool) \<Rightarrow> ('k \<Rightarrow> 'v \<Rightarrow> 's \<Rightarrow> 's) \<Rightarrow> ('k \<Rightarrow> 's \<Rightarrow> 's) \<Rightarrow> ('k, 'v) store_op list \<Rightarrow> 's \<Rightarrow> bool"
where
  "store_admits adm put erase [] s = True"
| "store_admits adm put erase (Put k v # ops) s =
     (adm s k \<and> store_admits adm put erase ops (put k v s))"
| "store_admits adm put erase (Erase k # ops) s = store_admits adm put erase ops (erase k s)"

context keyed_store begin

lemma run_inv: "inv s \<Longrightarrow> store_admits admits put erase ops s \<Longrightarrow> inv (store_run put erase ops s)"
proof (induction ops arbitrary: s)
  case (Cons op ops)
  then show ?case
    by (cases op) (auto simp: inv_put inv_erase)
qed simp

lemma run_refines_map:
  "inv s \<Longrightarrow> store_admits admits put erase ops s \<Longrightarrow>
   find (store_run put erase ops s) = map_run ops (find s)"
proof (induction ops arbitrary: s)
  case (Cons op ops)
  then show ?case
    by (cases op) (auto simp: find_put find_erase inv_put inv_erase simp del: fun_upd_apply)
qed simp

lemma put_then_erase: "inv s \<Longrightarrow> admits s k \<Longrightarrow> find (erase k (put k v s)) = (find s)(k := None)"
  by (simp add: find_put find_erase inv_put)

lemma put_last_wins:
  "inv s \<Longrightarrow> admits s k \<Longrightarrow> admits (put k v s) k \<Longrightarrow> find (put k w (put k v s)) = (find s)(k \<mapsto> w)"
  by (simp add: find_put inv_put)

end

interpretation um: keyed_store um_find um_put um_erase "\<lambda>_ _. True" um_wf
  by unfold_locales (auto simp: um_simps)

end
