(* ===== verification/Coords.thy ===== *)
theory Coords
  imports Prelude
begin

text \<open>
  World and chunk coordinates and the 64-bit keys the services index them by:
  \<open>MakeChunkKey\<close>, \<open>MakeBlockPosKey\<close> and \<open>ChunkKeyToCoord\<close> of
  \<open>src/engine/registry/coords/Coords.h\<close>, \<open>pipePosKey\<close> of the pipe network and
  \<open>CableGraph::packPos\<close> of the cable graph. The lemmas say on which coordinates the keys
  are injective and invertible, and where \<open>packPos\<close> is not.
\<close>

unbundle bit_operations_syntax

record chunk_coord =
  ccx :: i32
  ccy :: i32
  ccz :: i32

definition CHUNK_KEY_BIAS :: u64 where
  "CHUNK_KEY_BIAS = push_bit 20 1"

definition MakeChunkKey :: "chunk_coord \<Rightarrow> u64" where
  "MakeChunkKey c =
     (let x = scast (ccx c) + CHUNK_KEY_BIAS;
          y = scast (ccy c) + CHUNK_KEY_BIAS;
          z = scast (ccz c) + CHUNK_KEY_BIAS
      in push_bit 42 x OR push_bit 21 y OR z)"

definition MakeBlockPosKey :: "i32 \<Rightarrow> i32 \<Rightarrow> i32 \<Rightarrow> u64" where
  "MakeBlockPosKey x y z =
     (let ux = scast x + CHUNK_KEY_BIAS;
          uy = scast y + CHUNK_KEY_BIAS;
          uz = scast z + CHUNK_KEY_BIAS
      in push_bit 42 ux OR push_bit 21 uy OR uz)"

definition ChunkKeyToCoord :: "u64 \<Rightarrow> chunk_coord" where
  "ChunkKeyToCoord key =
     \<lparr>ccx = ucast ((drop_bit 42 key AND 0x1FFFFF) - CHUNK_KEY_BIAS),
      ccy = ucast ((drop_bit 21 key AND 0x1FFFFF) - CHUNK_KEY_BIAS),
      ccz = ucast ((key AND 0x1FFFFF) - CHUNK_KEY_BIAS)\<rparr>"

definition pipePosKey :: "i32 \<Rightarrow> i32 \<Rightarrow> i32 \<Rightarrow> u64" where
  "pipePosKey x y z =
     push_bit 42 (scast x) OR push_bit 20 (scast y AND 0xFFFFF) OR (scast z AND 0xFFFFF)"

definition packPos :: "i32 \<Rightarrow> i32 \<Rightarrow> i32 \<Rightarrow> u64" where
  "packPos x y z = push_bit 42 (ucast x) OR push_bit 21 (ucast y) OR ucast z"

text \<open>A coordinate inside the range the biased keys are made for: \<open>\<plusminus>2^20\<close>.\<close>

definition in_key_range :: "i32 \<Rightarrow> bool" where
  "in_key_range a \<longleftrightarrow> - (2 ^ 20) \<le> sint a \<and> sint a < 2 ^ 20"

section \<open>The pipe-network key\<close>

lemma mask20: "(0xFFFFF :: u64) = mask 20"
  by (simp add: mask_eq_exp_minus_1)

lemma mask21: "(0x1FFFFF :: u64) = mask 21"
  by (simp add: mask_eq_exp_minus_1)

lemma bit_pipePosKey:
  "bit (pipePosKey x y z) n \<longleftrightarrow>
     (if n < 20 then bit z n
      else if n < 40 then bit y (n - 20)
      else if n < 42 then False
      else n < 64 \<and> bit x (n - 42))"
  by (auto simp: pipePosKey_def mask20 bit_simps)

lemma pipePosKey_field_bits:
  assumes "pipePosKey x y z = pipePosKey x' y' z'"
  shows "n < 22 \<Longrightarrow> bit x n = bit x' n"
    and "n < 20 \<Longrightarrow> bit y n = bit y' n"
    and "n < 20 \<Longrightarrow> bit z n = bit z' n"
proof -
  have b: "bit (pipePosKey x y z) m = bit (pipePosKey x' y' z') m" for m
    by (simp add: assms)
  show "n < 22 \<Longrightarrow> bit x n = bit x' n" using b[of "n + 42"] by (simp add: bit_pipePosKey)
  show "n < 20 \<Longrightarrow> bit y n = bit y' n" using b[of "n + 20"] by (simp add: bit_pipePosKey)
  show "n < 20 \<Longrightarrow> bit z n = bit z' n" using b[of n] by (simp add: bit_pipePosKey)
qed

lemma take_bit_eq_bits:
  fixes a b :: "'a::len word"
  shows "take_bit m a = take_bit m b \<longleftrightarrow> (\<forall>n < m. bit a n = bit b n)"
  by (auto simp: bit_eq_iff bit_take_bit_iff dest: bit_imp_le_length)

text \<open>Two block positions get the same pipe-network key exactly when x agrees in its low
  22 bits and y and z agree in their low 20 bits; so the key is injective on every box that is
  at most 2^22 by 2^20 by 2^20 blocks, negative coordinates included.\<close>

theorem pipePosKey_eq_iff:
  "pipePosKey x y z = pipePosKey x' y' z' \<longleftrightarrow>
   take_bit 22 x = take_bit 22 x' \<and> take_bit 20 y = take_bit 20 y' \<and> take_bit 20 z = take_bit 20 z'"
  (is "?key \<longleftrightarrow> ?fields")
proof
  assume ?key
  from pipePosKey_field_bits[OF this] show ?fields by (simp add: take_bit_eq_bits)
next
  assume ?fields
  then have "\<And>n. n < 22 \<Longrightarrow> bit x n = bit x' n" "\<And>n. n < 20 \<Longrightarrow> bit y n = bit y' n"
    "\<And>n. n < 20 \<Longrightarrow> bit z n = bit z' n"
    by (simp_all add: take_bit_eq_bits)
  then show ?key by (intro bit_eqI) (auto simp: bit_pipePosKey)
qed

section \<open>The biased chunk key\<close>

lemma sint_biased:
  assumes "in_key_range a"
  shows "uint (scast a + CHUNK_KEY_BIAS) = sint a + 2 ^ 20"
proof -
  have "(scast a :: u64) = word_of_int (sint a)"
    by (rule scast_eq)
  then have "scast a + CHUNK_KEY_BIAS = (word_of_int (sint a + 2 ^ 20) :: u64)"
    by (simp add: CHUNK_KEY_BIAS_def)
  then have "uint (scast a + CHUNK_KEY_BIAS) = (sint a + 2 ^ 20) mod 2 ^ 64"
    by (simp only: uint_word_of_int len_num0 len_bit0 len_num1 numeral_class.numeral.numeral_Bit0) simp
  also have "\<dots> = sint a + 2 ^ 20"
    using assms by (auto simp: in_key_range_def intro!: mod_pos_pos_trivial)
  finally show ?thesis .
qed

lemma biased_bits:
  assumes "in_key_range a" and "bit (scast a + CHUNK_KEY_BIAS :: u64) n"
  shows "n < 21"
proof -
  have "uint (scast a + CHUNK_KEY_BIAS) < 2 ^ 21"
    using sint_biased[OF assms(1)] assms(1) by (simp add: in_key_range_def)
  then have "take_bit 21 (uint (scast a + CHUNK_KEY_BIAS)) = uint (scast a + CHUNK_KEY_BIAS)"
    by (simp add: take_bit_int_eq_self)
  moreover have "bit (uint (scast a + CHUNK_KEY_BIAS)) n"
    using assms(2) bit_imp_le_length[OF assms(2)] by (simp add: bit_uint_iff)
  ultimately show ?thesis
    by (metis bit_take_bit_iff)
qed

lemma unbias: "ucast (scast a :: u64) = (a :: i32)"
  by (rule bit_word_eqI) (simp add: bit_simps)

definition key_fields :: "u64 \<Rightarrow> u64 \<Rightarrow> u64 \<Rightarrow> u64" where
  "key_fields x y z = push_bit 42 x OR push_bit 21 y OR z"

lemma key_fields_split:
  assumes "\<And>n. bit x n \<Longrightarrow> n < 21" "\<And>n. bit y n \<Longrightarrow> n < 21" "\<And>n. bit z n \<Longrightarrow> n < 21"
  shows "drop_bit 42 (key_fields x y z) AND 0x1FFFFF = x"
    and "drop_bit 21 (key_fields x y z) AND 0x1FFFFF = y"
    and "key_fields x y z AND 0x1FFFFF = z"
  unfolding mask21 key_fields_def
  by (rule bit_eqI; auto simp: bit_simps dest: assms)+

text \<open>A chunk coordinate within \<open>\<plusminus>2^20\<close> survives the packing into its 64-bit map key
  and back, sign included.\<close>

theorem ChunkKeyToCoord_MakeChunkKey:
  assumes "in_key_range (ccx c)" "in_key_range (ccy c)" "in_key_range (ccz c)"
  shows "ChunkKeyToCoord (MakeChunkKey c) = c"
proof -
  note split = key_fields_split[OF biased_bits[OF assms(1)] biased_bits[OF assms(2)]
      biased_bits[OF assms(3)]]
  have "MakeChunkKey c = key_fields (scast (ccx c) + CHUNK_KEY_BIAS)
      (scast (ccy c) + CHUNK_KEY_BIAS) (scast (ccz c) + CHUNK_KEY_BIAS)"
    by (simp add: MakeChunkKey_def key_fields_def)
  then show ?thesis
    by (simp add: ChunkKeyToCoord_def split unbias)
qed

theorem ChunkKeyToCoord_MakeChunkKey_witness:
  "ChunkKeyToCoord (MakeChunkKey \<lparr>ccx = - 7, ccy = 0, ccz = 1000000\<rparr>) = \<lparr>ccx = - 7, ccy = 0, ccz = 1000000\<rparr>"
  by (rule ChunkKeyToCoord_MakeChunkKey) (simp_all add: in_key_range_def)

section \<open>The cable-graph key\<close>

lemma packPos_collision: "packPos x 0 (- 1) = packPos x 1 (- 1)"
proof -
  have "(ucast (- 1 :: i32) :: u64) = mask 32"
    by (rule bit_word_eqI) (simp add: bit_simps)
  moreover have "push_bit 21 1 OR mask 32 = (mask 32 :: u64)"
    by (rule bit_word_eqI) (auto simp only: bit_or_iff bit_push_bit_iff bit_mask_iff bit_1_iff)
  ultimately show ?thesis by (simp add: packPos_def or.assoc)
qed

end
