(* ===== verification/OpenHashMap.thy ===== *)
theory OpenHashMap
  imports Prelude
begin

text \<open>
  The open-addressed table \<open>OpenHashMap<Key, Value, Capacity, SentinelKey>\<close> of
  \<open>src/engine/registry/OpenHashMap.h\<close>: linear probing from a Knuth multiplicative hash, and
  deletion by backward shift. The template parameters are arguments: \<open>c\<close> with
  \<open>Capacity = 2^c\<close>, \<open>sent\<close> for the sentinel key and \<open>v0\<close> for the value-initialised \<open>Value{}\<close>.
  A pointer into the table is the index of its slot, the null pointer is \<open>None\<close>. The bounded
  \<open>for\<close> loops carry the number of iterations left. The lemmas lead to the second
  interpretation of \<open>keyed_store\<close>: every sequence of admitted operations behaves as on a map.
\<close>

unbundle bit_operations_syntax

record ('k, 'v) ohm =
  ohm_size :: int
  ohm_entries :: "('k \<times> 'v) list"

section \<open>The operations\<close>

definition ohm_hash :: "nat \<Rightarrow> 'k::len word \<Rightarrow> nat" where
  "ohm_hash c key =
     (let k = (ucast key :: u32) * 2654435761
      in unat (drop_bit (32 - c) k) AND (2 ^ c - 1))"

definition ohm_next :: "nat \<Rightarrow> nat \<Rightarrow> nat" where
  "ohm_next c idx = (idx + 1) AND (2 ^ c - 1)"

definition ohm_new :: "nat \<Rightarrow> 'k \<Rightarrow> 'v \<Rightarrow> ('k, 'v) ohm" where
  "ohm_new c sent v0 = \<lparr>ohm_size = 0, ohm_entries = replicate (2 ^ c) (sent, v0)\<rparr>"

primrec ohm_insert_loop ::
  "nat \<Rightarrow> nat \<Rightarrow> 'k \<Rightarrow> nat \<Rightarrow> 'k \<Rightarrow> 'v \<Rightarrow> ('k, 'v) ohm \<Rightarrow> (('k, 'v) ohm \<times> nat) option"
where
  "ohm_insert_loop 0 c sent idx key value t = None"
| "ohm_insert_loop (Suc i) c sent idx key value t =
     (let k = fst (ohm_entries t ! idx) in
      if k = sent \<or> k = key
      then Some (\<lparr>ohm_size = (if k = sent then ohm_size t + 1 else ohm_size t),
                  ohm_entries = (ohm_entries t)[idx := (key, value)]\<rparr>, idx)
      else ohm_insert_loop i c sent (ohm_next c idx) key value t)"

definition ohm_insert ::
  "nat \<Rightarrow> 'k::len word \<Rightarrow> 'k word \<Rightarrow> 'v \<Rightarrow> ('k word, 'v) ohm \<Rightarrow> (('k word, 'v) ohm \<times> nat) option"
where
  "ohm_insert c sent key value t =
     (if key = sent then None
      else ohm_insert_loop (2 ^ c) c sent (ohm_hash c key) key value t)"

primrec ohm_find_loop :: "nat \<Rightarrow> nat \<Rightarrow> 'k \<Rightarrow> nat \<Rightarrow> 'k \<Rightarrow> ('k \<times> 'v) list \<Rightarrow> 'v option" where
  "ohm_find_loop 0 c sent idx key E = None"
| "ohm_find_loop (Suc i) c sent idx key E =
     (if fst (E ! idx) = key then Some (snd (E ! idx))
      else if fst (E ! idx) = sent then None
      else ohm_find_loop i c sent (ohm_next c idx) key E)"

definition ohm_find :: "nat \<Rightarrow> 'k::len word \<Rightarrow> ('k word, 'v) ohm \<Rightarrow> 'k word \<Rightarrow> 'v option" where
  "ohm_find c sent t key =
     (if key = sent then None
      else ohm_find_loop (2 ^ c) c sent (ohm_hash c key) key (ohm_entries t))"

text \<open>The backward-shift loop of \<open>erase\<close>: \<open>hole\<close> is the empty slot, \<open>nx\<close> the slot scanned next.\<close>

primrec ohm_shift ::
  "nat \<Rightarrow> nat \<Rightarrow> 'k::len word \<Rightarrow> 'v \<Rightarrow> nat \<Rightarrow> nat \<Rightarrow> ('k word \<times> 'v) list \<Rightarrow> ('k word \<times> 'v) list"
where
  "ohm_shift 0 c sent v0 hole nx E = E"
| "ohm_shift (Suc f) c sent v0 hole nx E =
     (if fst (E ! nx) = sent then E
      else
        let ideal = ohm_hash c (fst (E ! nx));
            on_path = (if ideal \<le> nx then ideal \<le> hole \<and> hole \<le> nx
                       else hole \<ge> ideal \<or> hole \<le> nx)
        in if on_path
           then ohm_shift f c sent v0 nx (ohm_next c nx) (E[hole := E ! nx, nx := (sent, v0)])
           else ohm_shift f c sent v0 hole (ohm_next c nx) E)"

primrec ohm_erase_loop ::
  "nat \<Rightarrow> nat \<Rightarrow> 'k::len word \<Rightarrow> 'v \<Rightarrow> nat \<Rightarrow> 'k word \<Rightarrow> ('k word, 'v) ohm \<Rightarrow>
   ('k word, 'v) ohm \<times> bool"
where
  "ohm_erase_loop 0 c sent v0 idx key t = (t, False)"
| "ohm_erase_loop (Suc i) c sent v0 idx key t =
     (if fst (ohm_entries t ! idx) = key
      then (\<lparr>ohm_size = ohm_size t - 1,
             ohm_entries = ohm_shift (2 ^ c - 1) c sent v0 idx (ohm_next c idx)
                             ((ohm_entries t)[idx := (sent, v0)])\<rparr>, True)
      else ohm_erase_loop i c sent v0 (ohm_next c idx) key t)"

definition ohm_erase ::
  "nat \<Rightarrow> 'k::len word \<Rightarrow> 'v \<Rightarrow> 'k word \<Rightarrow> ('k word, 'v) ohm \<Rightarrow> ('k word, 'v) ohm \<times> bool"
where
  "ohm_erase c sent v0 key t =
     (if key = sent then (t, False)
      else ohm_erase_loop (2 ^ c) c sent v0 (ohm_hash c key) key t)"

definition ohm_for_each :: "'k \<Rightarrow> ('k, 'v) ohm \<Rightarrow> ('k \<times> 'v) list" where
  "ohm_for_each sent t = filter (\<lambda>e. fst e \<noteq> sent) (ohm_entries t)"

definition ohm_clear :: "'k \<Rightarrow> 'v \<Rightarrow> ('k, 'v) ohm \<Rightarrow> ('k, 'v) ohm" where
  "ohm_clear sent v0 t =
     \<lparr>ohm_size = 0, ohm_entries = map (\<lambda>_. (sent, v0)) (ohm_entries t)\<rparr>"

section \<open>Cyclic distance\<close>

definition cyc :: "nat \<Rightarrow> nat \<Rightarrow> nat \<Rightarrow> nat" where
  "cyc n a b = (if a \<le> b then b - a else b + n - a)"

lemma and_mask_nat: "(x :: nat) AND (2 ^ c - Suc 0) = x mod 2 ^ c"
  by (metis One_nat_def mask_eq_exp_minus_1 take_bit_eq_mask take_bit_eq_mod)

lemma ohm_hash_less [simp]: "ohm_hash c k < 2 ^ c"
  by (simp add: ohm_hash_def Let_def and_mask_nat)

lemma ohm_next_eq: "i < 2 ^ c \<Longrightarrow> ohm_next c i = (if i + 1 = 2 ^ c then 0 else i + 1)"
  by (auto simp: ohm_next_def and_mask_nat)

lemma ohm_next_less [simp]: "ohm_next c i < 2 ^ c"
  by (simp add: ohm_next_def and_mask_nat)

lemma cyc_less: "a < n \<Longrightarrow> b < n \<Longrightarrow> cyc n a b < n"
  by (auto simp: cyc_def)

lemma cyc_self [simp]: "cyc n a a = 0"
  by (simp add: cyc_def)

lemma cyc_inj: "a < n \<Longrightarrow> b < n \<Longrightarrow> b' < n \<Longrightarrow> cyc n a b = cyc n a b' \<Longrightarrow> b = b'"
  by (auto simp: cyc_def split: if_splits)

lemma cyc_next:
  assumes "a < 2 ^ c" "i < 2 ^ c" "cyc (2 ^ c) a i + 1 < 2 ^ c"
  shows "cyc (2 ^ c) a (ohm_next c i) = cyc (2 ^ c) a i + 1"
  using assms by (auto simp: cyc_def ohm_next_eq split: if_splits)

text \<open>The test of the code is the comparison of two cyclic distances.\<close>

lemma on_path_iff:
  assumes "ideal < n" "hole < n" "nx < n"
  shows "(if ideal \<le> nx then ideal \<le> hole \<and> hole \<le> nx else hole \<ge> ideal \<or> hole \<le> nx)
    \<longleftrightarrow> cyc n ideal hole \<le> cyc n ideal nx"
  using assms by (auto simp: cyc_def)

text \<open>If a path from \<open>a\<close> to \<open>i\<close> passes \<open>j\<close>, it passes every slot between \<open>j\<close> and \<open>i\<close>.\<close>

lemma cyc_add:
  assumes "a < n" "j < n" "m < n"
  shows "cyc n a m = (if cyc n a j + cyc n j m < n then cyc n a j + cyc n j m
    else cyc n a j + cyc n j m - n)"
  using assms by (cases "a \<le> j"; cases "j \<le> m"; cases "a \<le> m"; simp add: cyc_def; linarith?)

lemma cyc_between:
  assumes "a < n" "j < n" "m < n" "i < n"
    and "cyc n a j < cyc n a i" and "cyc n j m < cyc n j i"
  shows "cyc n a m < cyc n a i"
  using cyc_add[OF assms(1,2,3)] cyc_add[OF assms(1,2,4)] assms(5,6)
    cyc_less[OF assms(2,3)] cyc_less[OF assms(2,4)] by (auto split: if_splits)

lemma cyc_from:
  assumes "s < n" "j < n" "m < n"
  shows "cyc n j m = (if cyc n s j \<le> cyc n s m then cyc n s m - cyc n s j
    else cyc n s m + n - cyc n s j)"
  using assms by (cases "s \<le> j"; cases "j \<le> m"; cases "s \<le> m"; simp add: cyc_def; linarith?)

lemma path_contains:
  assumes "a < n" "s < n" "i < n" "j < n" "m < n"
    and "cyc n a j < cyc n a i" and "cyc n s j < cyc n s m" and "cyc n s m < cyc n s i"
  shows "cyc n a m < cyc n a i"
proof (rule cyc_between[OF assms(1,4,5,3,6)])
  show "cyc n j m < cyc n j i"
    using assms(7,8) cyc_from[OF assms(2,4,5)] cyc_from[OF assms(2,4,3)] by simp
qed

lemma path_contains_wrap:
  assumes "a < n" "s < n" "i < n" "j < n" "m < n"
    and "cyc n a j < cyc n a i" and "cyc n s i < cyc n s j"
    and "cyc n s j < cyc n s m \<or> cyc n s m < cyc n s i"
  shows "cyc n a m < cyc n a i"
proof (rule cyc_between[OF assms(1,4,5,3,6)])
  show "cyc n j m < cyc n j i"
    using assms(7,8) cyc_from[OF assms(2,4,5)] cyc_from[OF assms(2,4,3)]
      cyc_less[OF assms(2,5)] cyc_less[OF assms(2,4)] by (auto split: if_splits)
qed

section \<open>The table invariant\<close>

definition occ :: "'k \<Rightarrow> ('k \<times> 'v) list \<Rightarrow> nat \<Rightarrow> bool" where
  "occ sent E i \<longleftrightarrow> fst (E ! i) \<noteq> sent"

definition on_way :: "nat \<Rightarrow> ('k::len word \<times> 'v) list \<Rightarrow> nat \<Rightarrow> nat \<Rightarrow> bool" where
  "on_way c E j i \<longleftrightarrow>
     cyc (2 ^ c) (ohm_hash c (fst (E ! i))) j < cyc (2 ^ c) (ohm_hash c (fst (E ! i))) i"

definition keys_unique :: "nat \<Rightarrow> 'k \<Rightarrow> ('k \<times> 'v) list \<Rightarrow> bool" where
  "keys_unique c sent E \<longleftrightarrow>
     (\<forall>i < 2 ^ c. \<forall>j < 2 ^ c. occ sent E i \<longrightarrow> fst (E ! i) = fst (E ! j) \<longrightarrow> i = j)"

definition probes_ok :: "nat \<Rightarrow> 'k::len word \<Rightarrow> ('k word \<times> 'v) list \<Rightarrow> bool" where
  "probes_ok c sent E \<longleftrightarrow>
     (\<forall>i < 2 ^ c. \<forall>j < 2 ^ c. occ sent E i \<longrightarrow> on_way c E j i \<longrightarrow> occ sent E j)"

definition uncrossed :: "nat \<Rightarrow> 'k::len word \<Rightarrow> nat \<Rightarrow> ('k word \<times> 'v) list \<Rightarrow> bool" where
  "uncrossed c sent e E \<longleftrightarrow> (\<forall>i < 2 ^ c. occ sent E i \<longrightarrow> \<not> on_way c E e i)"

definition ents :: "'k \<Rightarrow> ('k \<times> 'v) list \<Rightarrow> ('k \<times> 'v) set" where
  "ents sent E = {x \<in> set E. fst x \<noteq> sent}"

text \<open>The table is well formed: no key twice, no gap on the probe path of an entry, the size field
  counts the entries, and some slot lies on no entry's path (an empty slot, or, in a full table,
  the slot filled last; without it \<open>erase\<close> on a full table could break a path).\<close>

definition ohm_ok :: "nat \<Rightarrow> 'k::len word \<Rightarrow> ('k word, 'v) ohm \<Rightarrow> bool" where
  "ohm_ok c sent t \<longleftrightarrow>
     length (ohm_entries t) = 2 ^ c \<and> keys_unique c sent (ohm_entries t) \<and>
     probes_ok c sent (ohm_entries t) \<and> (\<exists>e < 2 ^ c. uncrossed c sent e (ohm_entries t)) \<and>
     ohm_size t = int (card (ents sent (ohm_entries t)))"

section \<open>Backward shift\<close>

definition shift_inv ::
  "nat \<Rightarrow> 'k::len word \<Rightarrow> nat \<Rightarrow> nat \<Rightarrow> nat \<Rightarrow> nat \<Rightarrow> ('k word \<times> 'v) list \<Rightarrow> bool"
where
  "shift_inv c sent s e hole no E \<longleftrightarrow>
     length E = 2 ^ c \<and> s < 2 ^ c \<and> e < 2 ^ c \<and> hole < 2 ^ c \<and> \<not> occ sent E hole \<and>
     keys_unique c sent E \<and> uncrossed c sent e E \<and>
     cyc (2 ^ c) s hole \<le> cyc (2 ^ c) s e \<and> cyc (2 ^ c) s hole < no \<and>
     (\<forall>i < 2 ^ c. \<forall>j < 2 ^ c. occ sent E i \<longrightarrow> on_way c E j i \<longrightarrow>
        occ sent E j \<or> (j = hole \<and> no \<le> cyc (2 ^ c) s i))"

lemma shift_inv_final:
  assumes "shift_inv c sent s e hole (2 ^ c) E"
  shows "probes_ok c sent E"
  unfolding probes_ok_def
proof (intro allI impI)
  fix i j
  assume i: "i < 2 ^ c" and j: "j < 2 ^ c" and o: "occ sent E i" and w: "on_way c E j i"
  have "occ sent E j \<or> (j = hole \<and> 2 ^ c \<le> cyc (2 ^ c) s i)" and s: "s < 2 ^ c"
    using assms i j o w unfolding shift_inv_def by blast+
  then show "occ sent E j" using cyc_less[OF s i] by auto
qed

lemma shift_inv_stop:
  assumes inv: "shift_inv c sent s e hole no E" and nx: "nx < 2 ^ c" "cyc (2 ^ c) s nx = no"
    and empty: "\<not> occ sent E nx"
  shows "probes_ok c sent E"
  unfolding probes_ok_def
proof (intro allI impI)
  fix i j
  assume i: "i < 2 ^ c" and j: "j < 2 ^ c" and o: "occ sent E i" and w: "on_way c E j i"
  have "occ sent E j \<or> (j = hole \<and> no \<le> cyc (2 ^ c) s i)"
    using inv i j o w by (auto simp: shift_inv_def)
  moreover have False if "j = hole" "no \<le> cyc (2 ^ c) s i"
  proof -
    have "s < 2 ^ c" and before: "cyc (2 ^ c) s hole < no" using inv by (auto simp: shift_inv_def)
    have "i \<noteq> nx" using o empty by auto
    then have "cyc (2 ^ c) s nx < cyc (2 ^ c) s i"
      using that nx i \<open>s < 2 ^ c\<close> cyc_inj[of s "2 ^ c" i nx] by fastforce
    then have "on_way c E nx i"
      unfolding on_way_def
      using path_contains[of _ "2 ^ c" s i j nx] w that(1) before nx i j \<open>s < 2 ^ c\<close>
      by (auto simp: on_way_def)
    then have "occ sent E nx \<or> nx = hole"
      using inv i nx(1) o by (auto simp: shift_inv_def)
    then show False using empty before nx(2) by auto
  qed
  ultimately show "occ sent E j" by blast
qed

lemma shift_inv_skip:
  assumes inv: "shift_inv c sent s e hole no E" and nx: "nx < 2 ^ c" "cyc (2 ^ c) s nx = no"
    and off: "\<not> on_way c E hole nx"
  shows "shift_inv c sent s e hole (Suc no) E"
proof -
  have later: "Suc no \<le> cyc (2 ^ c) s i" if "i < 2 ^ c" "no \<le> cyc (2 ^ c) s i" "i \<noteq> nx" for i
    using that nx inv cyc_inj[of s "2 ^ c" i nx] by (fastforce simp: shift_inv_def)
  have "occ sent E j \<or> (j = hole \<and> Suc no \<le> cyc (2 ^ c) s i)"
    if "i < 2 ^ c" "j < 2 ^ c" "occ sent E i" "on_way c E j i" for i j
  proof -
    have "occ sent E j \<or> (j = hole \<and> no \<le> cyc (2 ^ c) s i)"
      using inv that unfolding shift_inv_def by blast
    then show ?thesis using that off later[of i] by blast
  qed
  then show ?thesis using inv unfolding shift_inv_def by (simp add: less_SucI)
qed

lemma shift_move_nth:
  assumes "length E = 2 ^ c" "hole < 2 ^ c" "nx < 2 ^ c" "hole \<noteq> nx" "i < 2 ^ c"
  shows "E[hole := E ! nx, nx := x] ! i = (if i = nx then x else if i = hole then E ! nx else E ! i)"
  using assms by (auto simp: nth_list_update)

lemma shift_inv_move:
  assumes inv: "shift_inv c sent s e hole no E" and nx: "nx < 2 ^ c" "cyc (2 ^ c) s nx = no"
    and occ: "occ sent E nx" and on: "on_way c E hole nx"
  shows "shift_inv c sent s e nx (Suc no) (E[hole := E ! nx, nx := (sent, v0)])"
    (is "shift_inv c sent s e nx (Suc no) ?E")
proof -
  have len: "length E = 2 ^ c" and s: "s < 2 ^ c" and e: "e < 2 ^ c" and hole: "hole < 2 ^ c"
    and he: "cyc (2 ^ c) s hole \<le> cyc (2 ^ c) s e" and hn: "cyc (2 ^ c) s hole < no"
    and u: "keys_unique c sent E" and uc: "uncrossed c sent e E" and nocc: "\<not> occ sent E hole"
    using inv by (auto simp: shift_inv_def)
  have ne: "hole \<noteq> nx" using occ nocc by auto
  note nth = shift_move_nth[OF len hole nx(1) ne, where x = "(sent, v0)"]
  have e_far: "no \<le> cyc (2 ^ c) s e"
  proof (rule ccontr)
    assume "\<not> ?thesis"
    then have "on_way c E e nx"
      using path_contains[of _ "2 ^ c" s nx hole e] on he s e hole nx cyc_inj[OF s e hole]
      by (cases "cyc (2 ^ c) s hole = cyc (2 ^ c) s e") (auto simp: on_way_def)
    then show False using uc occ nx(1) by (auto simp: uncrossed_def)
  qed
  have occ': "occ sent ?E i \<longleftrightarrow> i \<noteq> nx \<and> (i = hole \<or> occ sent E i)" if "i < 2 ^ c" for i
    using nth[OF that] occ by (auto simp: occ_def)
  have way_hole: "on_way c E j nx" if "on_way c ?E j hole" for j
    using that on nth[OF hole] ne by (auto simp: on_way_def)
  have way_else: "on_way c ?E j i = on_way c E j i" if "i < 2 ^ c" "i \<noteq> nx" "i \<noteq> hole" for i j
    using nth[OF that(1)] that by (auto simp: on_way_def)
  have "uncrossed c sent e ?E"
    using uc occ' way_hole way_else occ nx(1) unfolding uncrossed_def by metis
  moreover have "keys_unique c sent ?E"
    using u nth occ' nx(1) hole occ unfolding keys_unique_def occ_def
    by (smt (verit, ccfv_threshold))
  moreover have "occ sent ?E j \<or> (j = nx \<and> Suc no \<le> cyc (2 ^ c) s i)"
    if i: "i < 2 ^ c" and j: "j < 2 ^ c" and o: "occ sent ?E i" and w: "on_way c ?E j i" for i j
  proof (cases "i = hole")
    case True
    then have "on_way c E j nx" and "j \<noteq> hole" and "j \<noteq> nx"
      using way_hole w on ne nth[OF hole] by (auto simp: on_way_def)
    then have "occ sent E j"
      using inv nx(1) j occ unfolding shift_inv_def by blast
    then show ?thesis using occ'[OF j] \<open>j \<noteq> nx\<close> by simp
  next
    case False
    then have oi: "occ sent E i" "i \<noteq> nx" using occ'[OF i] o by auto
    then have wi: "on_way c E j i" using way_else[OF i] False w by simp
    then have *: "occ sent E j \<or> (j = hole \<and> no \<le> cyc (2 ^ c) s i)"
      using inv i j oi unfolding shift_inv_def by blast
    have "Suc no \<le> cyc (2 ^ c) s i" if "j = nx"
    proof (rule ccontr)
      assume "\<not> ?thesis"
      then have lt: "cyc (2 ^ c) s i < cyc (2 ^ c) s nx"
        using oi(2) nx cyc_inj[OF s i nx(1)] by fastforce
      have "\<not> on_way c E e i" using uc i oi by (auto simp: uncrossed_def)
      then have "\<not> cyc (2 ^ c) s nx < cyc (2 ^ c) s e"
        using path_contains_wrap[OF ohm_hash_less s i nx(1) e _ lt] wi
        unfolding on_way_def that by blast
      then have "cyc (2 ^ c) s e = cyc (2 ^ c) s nx" using e_far nx(2) by linarith
      then have "e = nx" by (rule cyc_inj[OF s e nx(1)])
      then show False using \<open>\<not> on_way c E e i\<close> wi that by simp
    qed
    then show ?thesis using * occ'[OF j] by auto
  qed
  moreover have "\<not> occ sent ?E nx" using occ'[OF nx(1)] by simp
  moreover have "length ?E = 2 ^ c" using len by simp
  moreover have "cyc (2 ^ c) s nx \<le> cyc (2 ^ c) s e" "cyc (2 ^ c) s nx < Suc no"
    using nx e_far by simp_all
  ultimately show ?thesis
    using s e nx(1) unfolding shift_inv_def by blast
qed

lemma in_ents_iff:
  "length E = 2 ^ c \<Longrightarrow> (k, v) \<in> ents sent E \<longleftrightarrow> k \<noteq> sent \<and> (\<exists>i < 2 ^ c. E ! i = (k, v))"
  by (auto simp: ents_def in_set_conv_nth)

lemma ents_move:
  assumes "length E = 2 ^ c" "hole < 2 ^ c" "nx < 2 ^ c" "hole \<noteq> nx" "\<not> occ sent E hole"
  shows "ents sent (E[hole := E ! nx, nx := (sent, v0)]) = ents sent E"
proof -
  note nth = shift_move_nth[OF assms(1-4), where x = "(sent, v0)"]
  have "(k, v) \<in> ents sent (E[hole := E ! nx, nx := (sent, v0)]) \<longleftrightarrow> (k, v) \<in> ents sent E" for k v
  proof (cases "k = sent")
    case False
    have "(\<exists>i < 2 ^ c. E[hole := E ! nx, nx := (sent, v0)] ! i = (k, v)) \<longleftrightarrow> (\<exists>i < 2 ^ c. E ! i = (k, v))"
      using nth assms False unfolding occ_def by (metis fst_conv)
    then show ?thesis using assms(1) by (simp add: in_ents_iff[where c = c])
  qed (simp add: ents_def)
  then show ?thesis by auto
qed

lemma ohm_shift_correct:
  assumes "shift_inv c sent s e hole no E" "f + no = 2 ^ c" "nx < 2 ^ c"
    "f \<noteq> 0 \<Longrightarrow> cyc (2 ^ c) s nx = no"
  shows "length (ohm_shift f c sent v0 hole nx E) = 2 ^ c \<and>
    keys_unique c sent (ohm_shift f c sent v0 hole nx E) \<and>
    probes_ok c sent (ohm_shift f c sent v0 hole nx E) \<and>
    uncrossed c sent e (ohm_shift f c sent v0 hole nx E) \<and>
    ents sent (ohm_shift f c sent v0 hole nx E) = ents sent E"
  using assms
proof (induction f arbitrary: hole nx no E)
  case 0
  then show ?case using shift_inv_final[of c sent s e hole E] by (simp add: shift_inv_def)
next
  case (Suc f)
  have nx: "nx < 2 ^ c" "cyc (2 ^ c) s nx = no" using Suc.prems by auto
  have base: "length E = 2 ^ c" "hole < 2 ^ c" "s < 2 ^ c" "\<not> occ sent E hole"
    using Suc.prems(1) by (auto simp: shift_inv_def)
  have step: "f \<noteq> 0 \<Longrightarrow> cyc (2 ^ c) s (ohm_next c nx) = Suc no"
    using cyc_next[OF base(3) nx(1)] nx(2) Suc.prems(2) by simp
  show ?case
  proof (cases "occ sent E nx")
    case False
    then show ?thesis
      using shift_inv_stop[OF Suc.prems(1) nx] Suc.prems(1)
      by (auto simp: shift_inv_def occ_def)
  next
    case True
    then have ne: "hole \<noteq> nx" using base by auto
    define ideal where "ideal = ohm_hash c (fst (E ! nx))"
    have "cyc (2 ^ c) ideal hole \<noteq> cyc (2 ^ c) ideal nx"
      using cyc_inj[of ideal "2 ^ c" hole nx] ne base nx by (auto simp: ideal_def)
    then have strict: "cyc (2 ^ c) ideal hole \<le> cyc (2 ^ c) ideal nx \<longleftrightarrow> on_way c E hole nx"
      by (simp add: on_way_def ideal_def order_less_le)
    have "ideal < 2 ^ c" by (simp add: ideal_def)
    note path = on_path_iff[OF this base(2) nx(1), unfolded strict, unfolded ideal_def]
    have eq: "ohm_shift (Suc f) c sent v0 hole nx E =
      (if on_way c E hole nx
       then ohm_shift f c sent v0 nx (ohm_next c nx) (E[hole := E ! nx, nx := (sent, v0)])
       else ohm_shift f c sent v0 hole (ohm_next c nx) E)"
      using True unfolding occ_def ohm_shift.simps Let_def path by simp
    show ?thesis
    proof (cases "on_way c E hole nx")
      case on: True
      have "shift_inv c sent s e nx (Suc no) (E[hole := E ! nx, nx := (sent, v0)])"
        by (rule shift_inv_move[OF Suc.prems(1) nx True on])
      from Suc.IH[OF this _ ohm_next_less step] show ?thesis
        unfolding eq using on Suc.prems(2) ents_move[OF base(1,2) nx(1) ne base(4)] by simp
    next
      case off: False
      from Suc.IH[OF shift_inv_skip[OF Suc.prems(1) nx off] _ ohm_next_less step] show ?thesis
        unfolding eq using off Suc.prems(2) by simp
    qed
  qed
qed


section \<open>Probing\<close>

definition walk :: "nat \<Rightarrow> nat \<Rightarrow> nat \<Rightarrow> nat" where
  "walk c h m = (h + m) mod 2 ^ c"

lemma walk_0: "h < 2 ^ c \<Longrightarrow> walk c h 0 = h"
  by (simp add: walk_def)

lemma walk_less [simp]: "walk c h m < 2 ^ c"
  by (simp add: walk_def)

lemma walk_next: "ohm_next c (walk c h m) = walk c h (Suc m)"
  by (simp add: ohm_next_def walk_def and_mask_nat mod_Suc_eq)

lemma walk_cyc: "h < 2 ^ c \<Longrightarrow> i < 2 ^ c \<Longrightarrow> walk c h (cyc (2 ^ c) h i) = i"
  by (auto simp: walk_def cyc_def)

lemma walk_eq:
  "h < 2 ^ c \<Longrightarrow> m < 2 ^ c \<Longrightarrow> walk c h m = (if h + m < 2 ^ c then h + m else h + m - 2 ^ c)"
  by (auto simp: walk_def le_mod_geq)

lemma cyc_walk: "h < 2 ^ c \<Longrightarrow> m < 2 ^ c \<Longrightarrow> cyc (2 ^ c) h (walk c h m) = m"
  using walk_eq[of h c m] by (auto simp: cyc_def)

lemma ohm_find_loop_hit:
  assumes "d + i = 2 ^ c" "d \<le> m" "m < 2 ^ c" "fst (E ! walk c h m) = key"
    "\<And>m'. d \<le> m' \<Longrightarrow> m' < m \<Longrightarrow> fst (E ! walk c h m') \<noteq> sent \<and> fst (E ! walk c h m') \<noteq> key"
  shows "ohm_find_loop i c sent (walk c h d) key E = Some (snd (E ! walk c h m))"
  using assms
proof (induction i arbitrary: d)
  case (Suc i)
  show ?case
  proof (cases "d = m")
    case False
    then have "ohm_find_loop i c sent (walk c h (Suc d)) key E = Some (snd (E ! walk c h m))"
      using Suc.prems by (intro Suc.IH) auto
    then show ?thesis using Suc.prems(5)[of d] Suc.prems(2) False by (simp add: walk_next)
  qed (use Suc.prems in simp)
qed simp

lemma ohm_find_loop_miss:
  assumes "\<And>j. j < 2 ^ c \<Longrightarrow> fst (E ! j) \<noteq> key" "idx < 2 ^ c"
  shows "ohm_find_loop i c sent idx key E = None"
  using assms(2) by (induction i arbitrary: idx) (auto simp: assms(1))

lemma ohm_insert_loop_hit:
  assumes "d + i = 2 ^ c" "d \<le> m" "m < 2 ^ c"
    "fst (ohm_entries t ! walk c h m) = sent \<or> fst (ohm_entries t ! walk c h m) = key"
    "\<And>m'. d \<le> m' \<Longrightarrow> m' < m \<Longrightarrow>
      fst (ohm_entries t ! walk c h m') \<noteq> sent \<and> fst (ohm_entries t ! walk c h m') \<noteq> key"
  shows "ohm_insert_loop i c sent (walk c h d) key v t =
    Some (\<lparr>ohm_size = (if fst (ohm_entries t ! walk c h m) = sent then ohm_size t + 1 else ohm_size t),
           ohm_entries = (ohm_entries t)[walk c h m := (key, v)]\<rparr>, walk c h m)"
  using assms
proof (induction i arbitrary: d)
  case (Suc i)
  show ?case
  proof (cases "d = m")
    case True
    then show ?thesis using Suc.prems by (auto simp: Let_def)
  next
    case False
    then have "ohm_insert_loop i c sent (walk c h (Suc d)) key v t =
      Some (\<lparr>ohm_size = (if fst (ohm_entries t ! walk c h m) = sent then ohm_size t + 1 else ohm_size t),
           ohm_entries = (ohm_entries t)[walk c h m := (key, v)]\<rparr>, walk c h m)"
      using Suc.prems by (intro Suc.IH) auto
    then show ?thesis using Suc.prems(5)[of d] Suc.prems(2) False by (simp add: walk_next Let_def)
  qed
qed simp

lemma ohm_insert_loop_full:
  assumes "\<And>j. j < 2 ^ c \<Longrightarrow> fst (ohm_entries t ! j) \<noteq> key \<and> fst (ohm_entries t ! j) \<noteq> sent"
    "idx < 2 ^ c"
  shows "ohm_insert_loop i c sent idx key v t = None"
  using assms(2) by (induction i arbitrary: idx) (auto simp: assms(1) Let_def)

lemma ohm_erase_loop_hit:
  assumes "d + i = 2 ^ c" "d \<le> m" "m < 2 ^ c" "fst (ohm_entries t ! walk c h m) = key"
    "\<And>m'. d \<le> m' \<Longrightarrow> m' < m \<Longrightarrow> fst (ohm_entries t ! walk c h m') \<noteq> key"
  shows "ohm_erase_loop i c sent v0 (walk c h d) key t =
    (\<lparr>ohm_size = ohm_size t - 1,
      ohm_entries = ohm_shift (2 ^ c - 1) c sent v0 (walk c h m) (ohm_next c (walk c h m))
                      ((ohm_entries t)[walk c h m := (sent, v0)])\<rparr>, True)"
  using assms
proof (induction i arbitrary: d)
  case (Suc i)
  show ?case
  proof (cases "d = m")
    case False
    then have "ohm_erase_loop i c sent v0 (walk c h (Suc d)) key t = 
      (\<lparr>ohm_size = ohm_size t - 1,
      ohm_entries = ohm_shift (2 ^ c - 1) c sent v0 (walk c h m) (ohm_next c (walk c h m))
                      ((ohm_entries t)[walk c h m := (sent, v0)])\<rparr>, True)"
      using Suc.prems by (intro Suc.IH) auto
    then show ?thesis using Suc.prems(5)[of d] Suc.prems(2) False by (simp add: walk_next)
  qed (use Suc.prems in simp)
qed simp

lemma ohm_erase_loop_miss:
  assumes "\<And>j. j < 2 ^ c \<Longrightarrow> fst (ohm_entries t ! j) \<noteq> key" "idx < 2 ^ c"
  shows "ohm_erase_loop i c sent v0 idx key t = (t, False)"
  using assms(2) by (induction i arbitrary: idx) (auto simp: assms(1))

section \<open>Lookup, insertion and deletion on well-formed tables\<close>

lemma ohm_okD:
  assumes "ohm_ok c sent t"
  shows "length (ohm_entries t) = 2 ^ c" "keys_unique c sent (ohm_entries t)"
    "probes_ok c sent (ohm_entries t)"
    "ohm_size t = int (card (ents sent (ohm_entries t)))"
  using assms by (auto simp: ohm_ok_def)

text \<open>An entry is the first match on the probe sequence of its key.\<close>

lemma probe_prefix:
  assumes ok: "ohm_ok c sent t" and i: "i < 2 ^ c" "fst (ohm_entries t ! i) = key" and "key \<noteq> sent"
    and m': "m' < cyc (2 ^ c) (ohm_hash c key) i"
  shows "fst (ohm_entries t ! walk c (ohm_hash c key) m') \<noteq> sent \<and>
    fst (ohm_entries t ! walk c (ohm_hash c key) m') \<noteq> key"
proof -
  let ?j = "walk c (ohm_hash c key) m'"
  have lt: "m' < 2 ^ c" using m' cyc_less[OF ohm_hash_less i(1), of key] by linarith
  then have cj: "cyc (2 ^ c) (ohm_hash c key) ?j = m'" by (simp add: cyc_walk)
  then have way: "on_way c (ohm_entries t) ?j i" using m' i by (simp add: on_way_def)
  have o: "occ sent (ohm_entries t) i" using i assms(4) by (simp add: occ_def)
  then have "occ sent (ohm_entries t) ?j"
    using ohm_okD(3)[OF ok] i(1) way by (auto simp: probes_ok_def)
  moreover have "fst (ohm_entries t ! ?j) \<noteq> key"
  proof
    assume "fst (ohm_entries t ! ?j) = key"
    then have "i = ?j" using ohm_okD(2)[OF ok] i o by (auto simp: keys_unique_def)
    then show False using cj m' by simp
  qed
  ultimately show ?thesis by (simp add: occ_def)
qed

lemma ohm_find_iff:
  assumes ok: "ohm_ok c sent t"
  shows "ohm_find c sent t key = Some v \<longleftrightarrow> (key, v) \<in> ents sent (ohm_entries t)"
proof (cases "key \<noteq> sent \<and> (\<exists>i < 2 ^ c. fst (ohm_entries t ! i) = key)")
  case True
  then obtain i where i: "i < 2 ^ c" "fst (ohm_entries t ! i) = key" and ks: "key \<noteq> sent" by auto
  let ?h = "ohm_hash c key"
  have "ohm_find_loop (2 ^ c) c sent (walk c ?h 0) key (ohm_entries t) =
      Some (snd (ohm_entries t ! walk c ?h (cyc (2 ^ c) ?h i)))"
    using probe_prefix[OF ok i ks] i
    by (intro ohm_find_loop_hit) (auto simp: walk_cyc cyc_less)
  then have "ohm_find c sent t key = Some (snd (ohm_entries t ! i))"
    using ks i by (simp add: ohm_find_def walk_0 walk_cyc)
  moreover have "(key, v) \<in> ents sent (ohm_entries t) \<longleftrightarrow> v = snd (ohm_entries t ! i)"
    using ohm_okD(1,2)[OF ok] i ks
    by (auto simp: in_ents_iff[where c = c] keys_unique_def occ_def prod_eq_iff)
  ultimately show ?thesis by auto
next
  case False
  then have "(key, v) \<notin> ents sent (ohm_entries t)"
    using ohm_okD(1)[OF ok] by (auto simp: in_ents_iff[where c = c])
  moreover have "ohm_find c sent t key = None"
    using False ohm_find_loop_miss[of c "ohm_entries t" key] by (auto simp: ohm_find_def)
  ultimately show ?thesis by simp
qed


lemma keys_uniqueD:
  "keys_unique c sent E \<Longrightarrow> i < 2 ^ c \<Longrightarrow> j < 2 ^ c \<Longrightarrow> fst (E ! i) = k \<Longrightarrow> fst (E ! j) = k \<Longrightarrow>
   k \<noteq> sent \<Longrightarrow> i = j"
  by (auto simp: keys_unique_def occ_def)

lemma key_absent:
  assumes "length E = 2 ^ c" "\<And>j. j < 2 ^ c \<Longrightarrow> fst (E ! j) \<noteq> k"
  shows "(k, w) \<notin> set E"
  using assms by (metis fst_conv in_set_conv_nth)

lemma ents_unique:
  assumes "length E = 2 ^ c" "keys_unique c sent E" "i < 2 ^ c" "fst (E ! i) \<noteq> sent"
  shows "(fst (E ! i), w) \<in> ents sent E \<longleftrightarrow> w = snd (E ! i)"
proof
  assume "(fst (E ! i), w) \<in> ents sent E"
  then obtain j where j: "j < 2 ^ c" "E ! j = (fst (E ! i), w)"
    using assms(1) by (auto simp: in_ents_iff[where c = c])
  then have "i = j" using keys_uniqueD[OF assms(2,3) j(1) refl] assms(4) by (metis fst_conv)
  then show "w = snd (E ! i)" using j by (metis snd_conv)
next
  assume "w = snd (E ! i)"
  then have "E ! i = (fst (E ! i), w)" by simp
  then show "(fst (E ! i), w) \<in> ents sent E"
    using assms(1,3,4) in_ents_iff by metis
qed

text \<open>Writing \<open>(key, v)\<close> at the slot the insertion loop stops at keeps the table well formed.\<close>

lemma ohm_put_present:
  fixes v
  assumes ok: "ohm_ok c sent t" and i: "i < 2 ^ c" "fst (ohm_entries t ! i) = key" and "key \<noteq> sent"
  defines "t' \<equiv> \<lparr>ohm_size = ohm_size t, ohm_entries = (ohm_entries t)[i := (key, v)]\<rparr>"
  shows "ohm_ok c sent t' \<and> ents sent (ohm_entries t') =
    insert (key, v) {e \<in> ents sent (ohm_entries t). fst e \<noteq> key}"
proof -
  let ?E = "ohm_entries t"
  note len = ohm_okD(1)[OF ok] and u = ohm_okD(2)[OF ok] and pr = ohm_okD(3)[OF ok]
  obtain e where e: "e < 2 ^ c" "uncrossed c sent e ?E" using ok by (auto simp: ohm_ok_def)
  have keys: "fst (?E[i := (key, v)] ! j) = fst (?E ! j)" for j
    using i len by (cases "j = i") auto
  have same: "occ sent (?E[i := (key, v)]) = occ sent ?E" "on_way c (?E[i := (key, v)]) = on_way c ?E"
    by (auto simp: occ_def on_way_def keys fun_eq_iff)
  have "(k, w) \<in> ents sent (?E[i := (key, v)]) \<longleftrightarrow>
      (k, w) \<in> insert (key, v) {e \<in> ents sent ?E. fst e \<noteq> key}" for k w
  proof -
    have "(\<exists>j < 2 ^ c. ?E[i := (key, v)] ! j = (k, w)) \<longleftrightarrow>
        (k = key \<and> w = v) \<or> (k \<noteq> key \<and> (\<exists>j < 2 ^ c. ?E ! j = (k, w)))" if "k \<noteq> sent"
    proof (cases "k = key")
      case True
      have "j = i" if "j < 2 ^ c" "?E[i := (key, v)] ! j = (key, w)" for j
        using keys[of j] that keys_uniqueD[OF u i(1) that(1) i(2) _ assms(4)] by simp
      moreover have "?E[i := (key, v)] ! i = (key, v)" using len i by simp
      ultimately have "(\<exists>j < 2 ^ c. ?E[i := (key, v)] ! j = (key, w)) \<longleftrightarrow> w = v"
        using i(1) by (metis prod.inject)
      then show ?thesis using True by simp
    next
      case False
      have "?E[i := (key, v)] ! j = (k, w) \<longleftrightarrow> ?E ! j = (k, w)" if "j < 2 ^ c" for j
        using len i False that by (cases "j = i") auto
      then show ?thesis using False by auto
    qed
    then show ?thesis using len assms(4) by (auto simp: in_ents_iff[where c = c])
  qed
  then have ents: "ents sent (?E[i := (key, v)]) = insert (key, v) {e \<in> ents sent ?E. fst e \<noteq> key}"
    by (metis (no_types, lifting) surj_pair subset_antisym subsetI)
  have old: "(key, w) \<in> ents sent ?E \<longleftrightarrow> w = snd (?E ! i)" for w
    using ents_unique[OF len u i(1), of w] i(2) assms(4) by simp
  have "x \<in> {e \<in> ents sent ?E. fst e \<noteq> key} \<longleftrightarrow> x \<in> ents sent ?E - {(key, snd (?E ! i))}" for x
    by (cases x) (auto simp: old)
  then have "{e \<in> ents sent ?E. fst e \<noteq> key} = ents sent ?E - {(key, snd (?E ! i))}"
    by blast
  moreover have "(key, snd (?E ! i)) \<in> ents sent ?E"
    by (simp add: old)
  moreover have fin: "finite (ents sent ?E)" by (simp add: ents_def)
  ultimately have "Suc (card {e \<in> ents sent ?E. fst e \<noteq> key}) = card (ents sent ?E)"
    by (simp only: card_Suc_Diff1)
  then have "card (ents sent (?E[i := (key, v)])) = card (ents sent ?E)"
    unfolding ents using fin card_insert_disjoint[of "{e \<in> ents sent ?E. fst e \<noteq> key}" "(key, v)"]
    by simp
  moreover have "keys_unique c sent (?E[i := (key, v)])"
    using u by (simp only: keys_unique_def same keys)
  moreover have "probes_ok c sent (?E[i := (key, v)])"
    using pr by (simp only: probes_ok_def same)
  moreover have "uncrossed c sent e (?E[i := (key, v)])"
    using e(2) by (simp only: uncrossed_def same)
  moreover have "ohm_size t = int (card (ents sent ?E))" by (rule ohm_okD(4)[OF ok])
  ultimately show ?thesis
    using e(1) len ents unfolding ohm_ok_def t'_def ohm.simps length_list_update by metis
qed

lemma ohm_put_absent:
  fixes v
  assumes ok: "ohm_ok c sent t" and i: "i < 2 ^ c" "fst (ohm_entries t ! i) = sent" and "key \<noteq> sent"
    and absent: "\<And>j. j < 2 ^ c \<Longrightarrow> fst (ohm_entries t ! j) \<noteq> key"
    and path: "\<And>j. j < 2 ^ c \<Longrightarrow> cyc (2 ^ c) (ohm_hash c key) j < cyc (2 ^ c) (ohm_hash c key) i \<Longrightarrow>
      fst (ohm_entries t ! j) \<noteq> sent"
  defines "t' \<equiv> \<lparr>ohm_size = ohm_size t + 1, ohm_entries = (ohm_entries t)[i := (key, v)]\<rparr>"
  shows "ohm_ok c sent t' \<and> ents sent (ohm_entries t') = insert (key, v) (ents sent (ohm_entries t))"
proof -
  let ?E = "ohm_entries t" and ?E' = "(ohm_entries t)[i := (key, v)]"
  note len = ohm_okD(1)[OF ok] and u = ohm_okD(2)[OF ok] and pr = ohm_okD(3)[OF ok]
  have nth: "?E' ! j = (if j = i then (key, v) else ?E ! j)" if "j < 2 ^ c" for j
    using len that by (simp add: nth_list_update)
  have occ': "occ sent ?E' j \<longleftrightarrow> j = i \<or> occ sent ?E j" if "j < 2 ^ c" for j
    using nth[OF that] assms(4) by (simp add: occ_def)
  have way: "on_way c ?E' j k = on_way c ?E j k" if "k < 2 ^ c" "k \<noteq> i" for j k
    using nth[OF that(1)] that by (simp add: on_way_def)
  have "(k, w) \<in> ents sent ?E' \<longleftrightarrow> (k, w) \<in> insert (key, v) (ents sent ?E)" for k w
  proof (cases "k = sent")
    case False
    have "(\<exists>j < 2 ^ c. ?E' ! j = (k, w)) \<longleftrightarrow> (k, w) = (key, v) \<or> (\<exists>j < 2 ^ c. ?E ! j = (k, w))"
      using nth i(1) i(2) False by (metis fst_conv)
    then show ?thesis using len False by (simp add: in_ents_iff[where c = c])
  qed (use assms(4) in \<open>simp add: ents_def\<close>)
  then have ents: "ents sent ?E' = insert (key, v) (ents sent ?E)" by auto
  have "(key, v) \<notin> ents sent ?E"
    using key_absent[OF len absent] by (simp add: ents_def)
  then have card: "card (ents sent ?E') = Suc (card (ents sent ?E))"
    unfolding ents by (simp add: ents_def)
  have "uncrossed c sent i ?E'"
    unfolding uncrossed_def
  proof (intro allI impI)
    fix k assume k: "k < 2 ^ c" "occ sent ?E' k"
    show "\<not> on_way c ?E' i k"
    proof (cases "k = i")
      case False
      then have "occ sent ?E k" using occ'[OF k(1)] k(2) by blast
      then have "on_way c ?E i k \<Longrightarrow> occ sent ?E i"
        using pr k(1) i(1) unfolding probes_ok_def by blast
      then show ?thesis using way[OF k(1) False] i(2) unfolding occ_def by blast
    qed (simp add: on_way_def)
  qed
  moreover have "probes_ok c sent ?E'"
    unfolding probes_ok_def
  proof (intro allI impI)
    fix k j assume kj: "k < 2 ^ c" "j < 2 ^ c" "occ sent ?E' k" "on_way c ?E' j k"
    show "occ sent ?E' j"
    proof (cases "k = i")
      case True
      then have "cyc (2 ^ c) (ohm_hash c key) j < cyc (2 ^ c) (ohm_hash c key) i"
        using kj(4) nth[OF i(1)] by (simp add: on_way_def)
      then show ?thesis using path[OF kj(2)] occ'[OF kj(2)] by (simp add: occ_def)
    next
      case False
      then have "occ sent ?E k" using occ'[OF kj(1)] kj(3) by blast
      then have "occ sent ?E j"
        using pr kj(1,2,4) way[OF kj(1) False] unfolding probes_ok_def by blast
      then show ?thesis using occ'[OF kj(2)] by blast
    qed
  qed
  moreover have "keys_unique c sent ?E'"
    unfolding keys_unique_def
  proof (intro allI impI)
    fix k j assume kj: "k < 2 ^ c" "j < 2 ^ c" "occ sent ?E' k" "fst (?E' ! k) = fst (?E' ! j)"
    show "k = j"
      using kj nth[OF kj(1)] nth[OF kj(2)] absent[OF kj(1)] absent[OF kj(2)] u occ'[OF kj(1)]
      by (cases "k = i"; cases "j = i") (auto simp: keys_unique_def)
  qed
  ultimately show ?thesis
    using len ohm_okD(4)[OF ok] i(1) ents card unfolding ohm_ok_def t'_def by auto
qed

text \<open>A table with fewer entries than slots has an empty slot.\<close>

lemma ohm_room:
  assumes ok: "ohm_ok c sent t" and "ohm_size t < 2 ^ c"
  shows "\<exists>i < 2 ^ c. fst (ohm_entries t ! i) = sent"
proof (rule ccontr)
  assume none: "\<not> ?thesis"
  let ?E = "ohm_entries t"
  note len = ohm_okD(1)[OF ok] and u = ohm_okD(2)[OF ok]
  have "distinct ?E"
    unfolding distinct_conv_nth using u len none by (metis keys_uniqueD)
  then have "card (set ?E) = 2 ^ c" using len by (simp add: distinct_card)
  moreover have "ents sent ?E = set ?E"
    using key_absent[OF len, of sent] none by (auto simp: ents_def)
  ultimately show False using assms(2) ohm_okD(4)[OF ok] by simp
qed

theorem ohm_insert_correct:
  assumes ok: "ohm_ok c sent t" and "key \<noteq> sent"
    and room: "ohm_size t < 2 ^ c \<or> ohm_find c sent t key \<noteq> None"
  shows "\<exists>t' i. ohm_insert c sent key v t = Some (t', i) \<and> ohm_ok c sent t' \<and>
    ohm_entries t' ! i = (key, v) \<and>
    ents sent (ohm_entries t') = insert (key, v) {e \<in> ents sent (ohm_entries t). fst e \<noteq> key}"
proof -
  let ?E = "ohm_entries t" and ?h = "ohm_hash c key"
  note len = ohm_okD(1)[OF ok]
  show ?thesis
  proof (cases "\<exists>i < 2 ^ c. fst (?E ! i) = key")
    case True
    then obtain i where i: "i < 2 ^ c" "fst (?E ! i) = key" by auto
    have "ohm_insert_loop (2 ^ c) c sent (walk c ?h 0) key v t =
      Some (\<lparr>ohm_size = (if fst (?E ! walk c ?h (cyc (2 ^ c) ?h i)) = sent then ohm_size t + 1 else ohm_size t),
             ohm_entries = ?E[walk c ?h (cyc (2 ^ c) ?h i) := (key, v)]\<rparr>, walk c ?h (cyc (2 ^ c) ?h i))"
      using probe_prefix[OF ok i assms(2)] i by (intro ohm_insert_loop_hit) (auto simp: walk_cyc cyc_less)
    then have "ohm_insert c sent key v t = Some (\<lparr>ohm_size = ohm_size t, ohm_entries = ?E[i := (key, v)]\<rparr>, i)"
      using i assms(2) by (simp add: ohm_insert_def walk_0 walk_cyc)
    then show ?thesis using ohm_put_present[OF ok i assms(2), of v] i len by simp
  next
    case False
    then have absent: "\<And>j. j < 2 ^ c \<Longrightarrow> fst (?E ! j) \<noteq> key" by blast
    then have no_ents: "{e \<in> ents sent ?E. fst e \<noteq> key} = ents sent ?E"
      using key_absent[OF len, of key] by (auto simp: ents_def)
    have "ohm_find c sent t key = None"
      using absent assms(2) ohm_find_loop_miss[of c ?E key] by (simp add: ohm_find_def)
    then obtain i0 where i0: "i0 < 2 ^ c" "fst (?E ! i0) = sent"
      using ohm_room[OF ok] room by auto
    define m where "m = (LEAST m. m < 2 ^ c \<and> fst (?E ! walk c ?h m) = sent)"
    have ex: "cyc (2 ^ c) ?h i0 < 2 ^ c \<and> fst (?E ! walk c ?h (cyc (2 ^ c) ?h i0)) = sent"
      using i0 by (simp add: walk_cyc cyc_less)
    have m: "m < 2 ^ c" "fst (?E ! walk c ?h m) = sent"
      using LeastI[of "\<lambda>m. m < 2 ^ c \<and> fst (?E ! walk c ?h m) = sent", OF ex]
      unfolding m_def by auto
    have before: "fst (?E ! walk c ?h m') \<noteq> sent" if "m' < m" for m'
      using not_less_Least[of m' "\<lambda>m. m < 2 ^ c \<and> fst (?E ! walk c ?h m) = sent"] that m(1)
      unfolding m_def[symmetric] by auto
    have "ohm_insert_loop (2 ^ c) c sent (walk c ?h 0) key v t =
      Some (\<lparr>ohm_size = (if fst (?E ! walk c ?h m) = sent then ohm_size t + 1 else ohm_size t),
             ohm_entries = ?E[walk c ?h m := (key, v)]\<rparr>, walk c ?h m)"
      using before m absent by (intro ohm_insert_loop_hit) auto
    then have ins: "ohm_insert c sent key v t =
      Some (\<lparr>ohm_size = ohm_size t + 1, ohm_entries = ?E[walk c ?h m := (key, v)]\<rparr>, walk c ?h m)"
      using m assms(2) by (simp add: ohm_insert_def walk_0)
    have path: "fst (?E ! j) \<noteq> sent"
      if "j < 2 ^ c" "cyc (2 ^ c) ?h j < cyc (2 ^ c) ?h (walk c ?h m)" for j
      using before[of "cyc (2 ^ c) ?h j"] that m(1) by (simp add: cyc_walk walk_cyc)
    show ?thesis
      using ins ohm_put_absent[OF ok walk_less m(2) assms(2) absent path, of v] len no_ents by simp
  qed
qed

theorem ohm_insert_full:
  assumes ok: "ohm_ok c sent t" and "ohm_size t = 2 ^ c" and "ohm_find c sent t key = None"
  shows "ohm_insert c sent key v t = None"
proof (cases "key = sent")
  case False
  let ?E = "ohm_entries t"
  note len = ohm_okD(1)[OF ok]
  have "ents sent ?E \<subseteq> set ?E" and "card (set ?E) \<le> 2 ^ c"
    using card_length[of ?E] len by (auto simp: ents_def)
  then have "ents sent ?E = set ?E"
    using ohm_okD(4)[OF ok] assms(2) by (intro card_subset_eq) (auto intro: le_antisym card_mono)
  then have "?E ! j \<in> ents sent ?E" if "j < 2 ^ c" for j
    using that len by simp
  then have "fst (?E ! j) \<noteq> sent" if "j < 2 ^ c" for j
    using that by (simp add: ents_def)
  moreover have "fst (?E ! j) \<noteq> key" if "j < 2 ^ c" for j
  proof
    assume "fst (?E ! j) = key"
    then have "(key, snd (?E ! j)) \<in> ents sent ?E"
      using that len False nth_mem[of j ?E] unfolding ents_def
      by (metis (mono_tags, lifting) fst_conv mem_Collect_eq prod.collapse)
    then have "ohm_find c sent t key = Some (snd (?E ! j))" by (simp only: ohm_find_iff[OF ok])
    then show False using assms(3) by simp
  qed
  ultimately show ?thesis
    using ohm_insert_loop_full[of c t key sent] False by (simp add: ohm_insert_def)
qed (simp add: ohm_insert_def)


theorem ohm_erase_absent:
  assumes "ohm_ok c sent t" "ohm_find c sent t key = None"
  shows "ohm_erase c sent v0 key t = (t, False)"
proof (cases "key = sent")
  case False
  have "fst (ohm_entries t ! j) \<noteq> key" if "j < 2 ^ c" for j
  proof
    assume "fst (ohm_entries t ! j) = key"
    then have "(key, snd (ohm_entries t ! j)) \<in> ents sent (ohm_entries t)"
      using that ohm_okD(1)[OF assms(1)] False nth_mem[of j "ohm_entries t"] unfolding ents_def
      by (metis (mono_tags, lifting) fst_conv mem_Collect_eq prod.collapse)
    then have "ohm_find c sent t key = Some (snd (ohm_entries t ! j))"
      by (simp only: ohm_find_iff[OF assms(1)])
    then show False using assms(2) by simp
  qed
  then show ?thesis
    using ohm_erase_loop_miss[of c t key] False by (simp add: ohm_erase_def)
qed (simp add: ohm_erase_def)

lemma clear_slot:
  fixes v0
  assumes ok: "ohm_ok c sent t" and i: "i < 2 ^ c" "fst (ohm_entries t ! i) = key" and "key \<noteq> sent"
  defines "E' \<equiv> (ohm_entries t)[i := (sent, v0)]"
  shows "\<exists>e. shift_inv c sent i e i 1 E'"
    and "ents sent E' = {e \<in> ents sent (ohm_entries t). fst e \<noteq> key}"
    and "int (card (ents sent E')) = ohm_size t - 1"
proof -
  let ?E = "ohm_entries t"
  note len = ohm_okD(1)[OF ok] and u = ohm_okD(2)[OF ok] and pr = ohm_okD(3)[OF ok]
  obtain e where e: "e < 2 ^ c" "uncrossed c sent e ?E" using ok by (auto simp: ohm_ok_def)
  have nth: "E' ! j = (if j = i then (sent, v0) else ?E ! j)" if "j < 2 ^ c" for j
    using len that by (simp add: nth_list_update E'_def)
  have occ': "occ sent E' j \<longleftrightarrow> j \<noteq> i \<and> occ sent ?E j" if "j < 2 ^ c" for j
    using nth[OF that] by (simp add: occ_def)
  have way: "on_way c E' j k = on_way c ?E j k" if "k < 2 ^ c" "k \<noteq> i" for j k
    using nth[OF that(1)] that by (simp add: on_way_def)
  have "uncrossed c sent e E'"
    using e(2) occ' way unfolding uncrossed_def by blast
  moreover have "keys_unique c sent E'"
    unfolding keys_unique_def
  proof (intro allI impI)
    fix k j assume kj: "k < 2 ^ c" "j < 2 ^ c" "occ sent E' k" "fst (E' ! k) = fst (E' ! j)"
    then have "j \<noteq> i" "k \<noteq> i" using nth[OF kj(1)] nth[OF kj(2)] by (auto simp: occ_def)
    then show "k = j"
      using kj nth[OF kj(1)] nth[OF kj(2)] u unfolding keys_unique_def occ_def by simp
  qed
  moreover have "occ sent E' j \<or> (j = i \<and> 1 \<le> cyc (2 ^ c) i k)"
    if kj: "k < 2 ^ c" "j < 2 ^ c" "occ sent E' k" "on_way c E' j k" for k j
  proof -
    have k: "k \<noteq> i" "occ sent ?E k" using occ'[OF kj(1)] kj(3) by auto
    have "occ sent ?E j"
      using pr kj(1,2,4) k way[OF kj(1) k(1)] unfolding probes_ok_def by blast
    moreover have "1 \<le> cyc (2 ^ c) i k"
      using k(1) i(1) kj(1) by (auto simp: cyc_def)
    ultimately show ?thesis using occ'[OF kj(2)] by blast
  qed
  moreover have "\<not> occ sent E' i" using occ'[OF i(1)] by simp
  moreover have "length E' = 2 ^ c" using len by (simp add: E'_def)
  ultimately show "\<exists>e. shift_inv c sent i e i 1 E'"
    using i(1) e(1) unfolding shift_inv_def cyc_self by (intro exI[of _ e]) simp
  have old: "(key, w) \<in> ents sent ?E \<longleftrightarrow> w = snd (?E ! i)" for w
    using ents_unique[OF len u i(1), of w] i(2) assms(4) by simp
  have "(k, w) \<in> ents sent E' \<longleftrightarrow> (k, w) \<in> {e \<in> ents sent ?E. fst e \<noteq> key}" for k w
  proof (cases "k = sent")
    case False
    have "(\<exists>j < 2 ^ c. E' ! j = (k, w)) \<longleftrightarrow> k \<noteq> key \<and> (\<exists>j < 2 ^ c. ?E ! j = (k, w))"
      using nth i False keys_uniqueD[OF u i(1) _ i(2) _ assms(4)] by (metis fst_conv)
    then show ?thesis
      using len \<open>length E' = 2 ^ c\<close> False by (simp add: in_ents_iff[where c = c]) blast
  qed (simp add: ents_def)
  then show ents: "ents sent E' = {e \<in> ents sent ?E. fst e \<noteq> key}"
    by (metis (no_types, lifting) surj_pair subset_antisym subsetI)
  have "x \<in> {e \<in> ents sent ?E. fst e \<noteq> key} \<longleftrightarrow> x \<in> ents sent ?E - {(key, snd (?E ! i))}" for x
    by (cases x) (auto simp: old)
  then have "{e \<in> ents sent ?E. fst e \<noteq> key} = ents sent ?E - {(key, snd (?E ! i))}"
    by blast
  moreover have "(key, snd (?E ! i)) \<in> ents sent ?E" by (simp add: old)
  moreover have "finite (ents sent ?E)" by (simp add: ents_def)
  ultimately have "Suc (card (ents sent E')) = card (ents sent ?E)"
    unfolding ents by (simp only: card_Suc_Diff1)
  then show "int (card (ents sent E')) = ohm_size t - 1"
    using ohm_okD(4)[OF ok] by linarith
qed

theorem ohm_erase_correct:
  assumes ok: "ohm_ok c sent t" and found: "ohm_find c sent t key = Some v"
  shows "\<exists>t'. ohm_erase c sent v0 key t = (t', True) \<and> ohm_ok c sent t' \<and>
    ents sent (ohm_entries t') = {e \<in> ents sent (ohm_entries t). fst e \<noteq> key}"
proof -
  let ?E = "ohm_entries t" and ?h = "ohm_hash c key"
  note len = ohm_okD(1)[OF ok]
  have "(key, v) \<in> ents sent ?E" using found ohm_find_iff[OF ok] by simp
  then obtain i where i: "i < 2 ^ c" "?E ! i = (key, v)" and ks: "key \<noteq> sent"
    using in_ents_iff[OF len] by metis
  then have fi: "fst (?E ! i) = key" by simp
  let ?S = "ohm_shift (2 ^ c - 1) c sent v0 i (ohm_next c i) (?E[i := (sent, v0)])"
  have "ohm_erase_loop (2 ^ c) c sent v0 (walk c ?h 0) key t =
      (\<lparr>ohm_size = ohm_size t - 1,
        ohm_entries = ohm_shift (2 ^ c - 1) c sent v0 (walk c ?h (cyc (2 ^ c) ?h i))
          (ohm_next c (walk c ?h (cyc (2 ^ c) ?h i))) (?E[walk c ?h (cyc (2 ^ c) ?h i) := (sent, v0)])\<rparr>, True)"
    using probe_prefix[OF ok i(1) fi ks] i by (intro ohm_erase_loop_hit) (auto simp: walk_cyc cyc_less)
  then have res: "ohm_erase c sent v0 key t = (\<lparr>ohm_size = ohm_size t - 1, ohm_entries = ?S\<rparr>, True)"
    using i ks by (simp add: ohm_erase_def walk_0 walk_cyc)
  obtain e where inv: "shift_inv c sent i e i 1 (?E[i := (sent, v0)])"
    using clear_slot(1)[OF ok i(1) fi ks] by blast
  have start: "cyc (2 ^ c) i (ohm_next c i) = 1" if "(2 :: nat) ^ c - 1 \<noteq> 0"
  proof -
    have "1 < (2 :: nat) ^ c" using that by simp
    then show ?thesis using cyc_next[of i c i] i(1) by simp
  qed
  have "(2 :: nat) ^ c - 1 + 1 = 2 ^ c" by simp
  from ohm_shift_correct[OF inv this ohm_next_less start, of v0]
  have S: "length ?S = 2 ^ c" "keys_unique c sent ?S" "probes_ok c sent ?S" "uncrossed c sent e ?S"
    "ents sent ?S = ents sent (?E[i := (sent, v0)])"
    by blast+
  have "e < 2 ^ c" using inv by (simp add: shift_inv_def)
  then show ?thesis
    using res S clear_slot(2,3)[OF ok i(1) fi ks, of v0] unfolding ohm_ok_def by auto
qed


section \<open>The table as a keyed store\<close>

definition ohm_put :: "nat \<Rightarrow> 'k::len word \<Rightarrow> 'k word \<Rightarrow> 'v \<Rightarrow> ('k word, 'v) ohm \<Rightarrow> ('k word, 'v) ohm" where
  "ohm_put c sent key v t = (case ohm_insert c sent key v t of None \<Rightarrow> t | Some (t', _) \<Rightarrow> t')"

definition ohm_remove :: "nat \<Rightarrow> 'k::len word \<Rightarrow> 'v \<Rightarrow> 'k word \<Rightarrow> ('k word, 'v) ohm \<Rightarrow> ('k word, 'v) ohm" where
  "ohm_remove c sent v0 key t = fst (ohm_erase c sent v0 key t)"

definition ohm_admits :: "nat \<Rightarrow> 'k::len word \<Rightarrow> ('k word, 'v) ohm \<Rightarrow> 'k word \<Rightarrow> bool" where
  "ohm_admits c sent t key \<longleftrightarrow>
     key \<noteq> sent \<and> (ohm_size t < 2 ^ c \<or> ohm_find c sent t key \<noteq> None)"

lemma option_eqI: "(\<And>v. a = Some v \<longleftrightarrow> b = Some v) \<Longrightarrow> a = b"
  by (cases a) (force, metis)

lemma ohm_put_laws:
  assumes "ohm_ok c sent t" "ohm_admits c sent t key"
  shows "ohm_ok c sent (ohm_put c sent key v t)"
    and "ohm_find c sent (ohm_put c sent key v t) = (ohm_find c sent t)(key \<mapsto> v)"
proof -
  obtain t' i where t': "ohm_insert c sent key v t = Some (t', i)" "ohm_ok c sent t'"
    "ents sent (ohm_entries t') = insert (key, v) {e \<in> ents sent (ohm_entries t). fst e \<noteq> key}"
    using ohm_insert_correct[OF assms(1), of key v] assms(2) by (auto simp: ohm_admits_def)
  then show "ohm_ok c sent (ohm_put c sent key v t)" by (simp add: ohm_put_def)
  have "ohm_find c sent t' k = ((ohm_find c sent t)(key \<mapsto> v)) k" for k
    using ohm_find_iff[OF t'(2)] ohm_find_iff[OF assms(1)] t'(3) by (intro option_eqI) auto
  then show "ohm_find c sent (ohm_put c sent key v t) = (ohm_find c sent t)(key \<mapsto> v)"
    using t'(1) by (simp add: ohm_put_def fun_eq_iff)
qed

lemma ohm_remove_laws:
  assumes "ohm_ok c sent t"
  shows "ohm_ok c sent (ohm_remove c sent v0 key t)"
    and "ohm_find c sent (ohm_remove c sent v0 key t) = (ohm_find c sent t)(key := None)"
proof -
  have "ohm_ok c sent (ohm_remove c sent v0 key t) \<and>
    ohm_find c sent (ohm_remove c sent v0 key t) = (ohm_find c sent t)(key := None)"
  proof (cases "ohm_find c sent t key")
    case None
    then show ?thesis using ohm_erase_absent[OF assms None, of v0] assms
      by (auto simp: ohm_remove_def fun_eq_iff)
  next
    case (Some v)
    obtain t' where t': "ohm_erase c sent v0 key t = (t', True)" "ohm_ok c sent t'"
      "ents sent (ohm_entries t') = {e \<in> ents sent (ohm_entries t). fst e \<noteq> key}"
      using ohm_erase_correct[OF assms Some, of v0] by blast
    have "ohm_find c sent t' k = ((ohm_find c sent t)(key := None)) k" for k
      using ohm_find_iff[OF t'(2)] ohm_find_iff[OF assms(1)] t'(3) by (intro option_eqI) auto
    then show ?thesis using t'(1,2) by (simp add: ohm_remove_def fun_eq_iff)
  qed
  then show "ohm_ok c sent (ohm_remove c sent v0 key t)"
    "ohm_find c sent (ohm_remove c sent v0 key t) = (ohm_find c sent t)(key := None)" by auto
qed

interpretation oh: keyed_store "ohm_find c sent" "ohm_put c sent" "ohm_remove c sent v0"
    "ohm_admits c sent" "ohm_ok c sent" for c sent v0
  by unfold_locales (auto simp: ohm_put_laws ohm_remove_laws simp del: fun_upd_apply)

lemma ohm_new_ok: "ohm_ok c sent (ohm_new c sent v0)"
  by (auto simp: ohm_ok_def ohm_new_def keys_unique_def probes_ok_def uncrossed_def occ_def ents_def
      intro!: exI[of _ 0])

lemma ohm_new_empty: "ohm_find c sent (ohm_new c sent v0) = (\<lambda>_. None)"
proof
  fix k
  show "ohm_find c sent (ohm_new c sent v0) k = None"
    using ohm_find_iff[OF ohm_new_ok, of c sent v0 k] by (cases "ohm_find c sent (ohm_new c sent v0) k")
      (auto simp: ohm_new_def ents_def)
qed

lemma ohm_clear_ok: "length (ohm_entries t) = 2 ^ c \<Longrightarrow> ohm_clear sent v0 t = ohm_new c sent v0"
  by (simp add: ohm_clear_def ohm_new_def map_replicate_const)

text \<open>C1: from an empty table, any sequence of inserts (of keys other than the sentinel, while a slot
  is free or the key is present) and erases, in any order and up to a completely full table, leaves
  \<open>find\<close> answering exactly as a finite map that went through the same sequence; in particular the
  backward shift of \<open>erase\<close> loses no entry.\<close>

theorem ohm_refines_map:
  assumes "store_admits (ohm_admits c sent) (ohm_put c sent) (ohm_remove c sent v0) ops
             (ohm_new c sent v0)"
  shows "ohm_find c sent (store_run (ohm_put c sent) (ohm_remove c sent v0) ops (ohm_new c sent v0)) =
    map_run ops (\<lambda>_. None)"
  using oh.run_refines_map[OF ohm_new_ok assms] unfolding ohm_new_empty .

theorem ohm_refines_map_witness:
  "ohm_find 2 (0xFFFF :: u16)
     (store_run (ohm_put 2 0xFFFF) (ohm_remove 2 0xFFFF (0 :: nat))
        [Put 3 10, Put 8 11, Put 5 12, Put 4 13, Erase 3, Put 8 14] (ohm_new 2 0xFFFF 0)) =
   map_run [Put 3 10, Put 8 11, Put 5 12, Put 4 13, Erase 3, Put 8 14] (\<lambda>_. None)"
  by (rule ohm_refines_map) code_simp

end
