(* ===== verification/SectionCodec.thy ===== *)
theory SectionCodec
  imports Prelude
begin

text \<open>
  The byte-level helpers of \<open>src/apps/chunk_store/Storage/SectionCodec.{h,cpp}\<close>: the little-endian
  writers (a \<open>std::vector<uint8_t>&\<close> is the list it holds, returned extended), the bounds-checked
  \<open>Reader\<close> (the bytes and the position; a read that returns \<open>false\<close> is \<open>None\<close>), the \<open>BitReader\<close>,
  and the local indices of a section. The locale \<open>wire_codec\<close> is the contract between a writer and
  the reader of the same field: what was written is read back and the position moves past it.
\<close>

unbundle bit_operations_syntax

section \<open>Section geometry\<close>

definition SEC_SZ :: nat where "SEC_SZ = 16"
definition SEC_VOL :: nat where "SEC_VOL = SEC_SZ * SEC_SZ * SEC_SZ"
definition SEC_CNT :: nat where "SEC_CNT = 8"
definition MAGIC :: u32 where "MAGIC = 0x4B484347"

definition sectionOrigin :: "nat \<Rightarrow> nat \<Rightarrow> nat" where
  "sectionOrigin sec axis = (drop_bit axis sec AND 1) * SEC_SZ"

definition localIndex :: "nat \<Rightarrow> nat \<Rightarrow> nat \<Rightarrow> nat" where
  "localIndex lx ly lz = push_bit 8 ly OR push_bit 4 lz OR lx"

definition chunkIndex :: "nat \<Rightarrow> nat \<Rightarrow> nat \<Rightarrow> nat" where
  "chunkIndex x y z = push_bit 10 y OR push_bit 5 z OR x"

section \<open>Writers\<close>

definition writeU8 :: "u8 list \<Rightarrow> u8 \<Rightarrow> u8 list" where
  "writeU8 buf v = buf @ [v]"

definition writeU16 :: "u8 list \<Rightarrow> u16 \<Rightarrow> u8 list" where
  "writeU16 buf v = buf @ [ucast (v AND 0xFF), ucast (drop_bit 8 v AND 0xFF)]"

definition writeU32 :: "u8 list \<Rightarrow> u32 \<Rightarrow> u8 list" where
  "writeU32 buf v = buf @ [ucast (v AND 0xFF), ucast (drop_bit 8 v AND 0xFF),
     ucast (drop_bit 16 v AND 0xFF), ucast (drop_bit 24 v AND 0xFF)]"

section \<open>Reader\<close>

record reader =
  rdata :: "u8 list"
  rpos :: nat

definition readU8 :: "reader \<Rightarrow> (u8 \<times> reader) option" where
  "readU8 r =
     (if rpos r + 1 > length (rdata r) then None
      else Some (rdata r ! rpos r, r\<lparr>rpos := rpos r + 1\<rparr>))"

definition readU16 :: "reader \<Rightarrow> (u16 \<times> reader) option" where
  "readU16 r =
     (if rpos r + 2 > length (rdata r) then None
      else Some (ucast (rdata r ! rpos r) OR push_bit 8 (ucast (rdata r ! (rpos r + 1))),
                 r\<lparr>rpos := rpos r + 2\<rparr>))"

definition readU32 :: "reader \<Rightarrow> (u32 \<times> reader) option" where
  "readU32 r =
     (if rpos r + 4 > length (rdata r) then None
      else Some (ucast (rdata r ! rpos r) OR push_bit 8 (ucast (rdata r ! (rpos r + 1))) OR
                 push_bit 16 (ucast (rdata r ! (rpos r + 2))) OR push_bit 24 (ucast (rdata r ! (rpos r + 3))),
                 r\<lparr>rpos := rpos r + 4\<rparr>))"

definition reader_skip :: "nat \<Rightarrow> reader \<Rightarrow> reader option" where
  "reader_skip n r =
     (if rpos r + n > length (rdata r) then None else Some (r\<lparr>rpos := rpos r + n\<rparr>))"

section \<open>The writer/reader contract\<close>

text \<open>The bytes of the reader that are still unread.\<close>

definition unread :: "reader \<Rightarrow> u8 list" where
  "unread r = drop (rpos r) (rdata r)"

definition advance :: "nat \<Rightarrow> reader \<Rightarrow> reader" where
  "advance n r = r\<lparr>rpos := rpos r + n\<rparr>"

lemma advance_0 [simp]: "advance 0 r = r"
  by (simp add: advance_def)

lemma advance_advance [simp]: "advance m (advance n r) = advance (n + m) r"
  by (simp add: advance_def add.assoc)

lemma unread_advance: "unread r = xs @ rest \<Longrightarrow> unread (advance (length xs) r) = rest"
  by (metis advance_def append_eq_conv_conj drop_drop reader.select_convs(1,2) reader.surjective
      reader.update_convs(2) unread_def add.commute)

locale wire_codec =
  fixes enc :: "'a \<Rightarrow> u8 list"
    and dec :: "reader \<Rightarrow> ('a \<times> reader) option"
    and ok :: "'a \<Rightarrow> bool"
  assumes dec_enc: "ok x \<Longrightarrow> unread r = enc x @ rest \<Longrightarrow> dec r = Some (x, advance (length (enc x)) r)"

text \<open>A counted loop \<open>for (i = 0; i < n; ++i) if (!read(..)) return false;\<close> over a reader.\<close>

primrec read_many :: "(reader \<Rightarrow> ('a \<times> reader) option) \<Rightarrow> nat \<Rightarrow> reader \<Rightarrow> ('a list \<times> reader) option" where
  "read_many dec 0 r = Some ([], r)"
| "read_many dec (Suc n) r =
     (case dec r of None \<Rightarrow> None
      | Some (x, r') \<Rightarrow>
          (case read_many dec n r' of None \<Rightarrow> None | Some (xs, r'') \<Rightarrow> Some (x # xs, r'')))"

context wire_codec begin

lemma read_many_enc:
  "\<forall>x \<in> set xs. ok x \<Longrightarrow> unread r = concat (map enc xs) @ rest \<Longrightarrow>
   read_many dec (length xs) r = Some (xs, advance (length (concat (map enc xs))) r)"
proof (induction xs arbitrary: r)
  case (Cons x xs)
  have u: "unread r = enc x @ (concat (map enc xs) @ rest)" using Cons.prems(2) by simp
  have "dec r = Some (x, advance (length (enc x)) r)"
    using dec_enc[OF _ u] Cons.prems(1) by simp
  moreover have "read_many dec (length xs) (advance (length (enc x)) r) =
      Some (xs, advance (length (concat (map enc xs))) (advance (length (enc x)) r))"
    using Cons.IH[of "advance (length (enc x)) r"] Cons.prems(1) unread_advance[OF u] by simp
  ultimately show ?case by simp
qed simp

lemma enc_inj:
  assumes "ok x" "ok y" "enc x = enc y"
  shows "x = y"
proof -
  have u: "unread \<lparr>rdata = enc x, rpos = 0\<rparr> = enc z @ []" if "enc x = enc z" for z
    using that by (simp add: unread_def)
  show ?thesis
    using dec_enc[OF assms(1) u[OF refl]] dec_enc[OF assms(2) u[OF assms(3)]] by simp
qed

end

lemma unread_nth:
  assumes "unread r = xs @ rest" "i < length xs"
  shows "rpos r + i < length (rdata r)" "rdata r ! (rpos r + i) = xs ! i"
proof -
  have "length (unread r) = length xs + length rest" using assms(1) by simp
  then show lt: "rpos r + i < length (rdata r)" using assms(2) by (simp add: unread_def)
  have "unread r ! i = rdata r ! (rpos r + i)" using lt by (simp add: unread_def)
  then show "rdata r ! (rpos r + i) = xs ! i" using assms by (simp add: nth_append)
qed

lemma low_byte_16: "(ucast (v AND 0xFF) :: u8) = ucast (v :: u16)"
proof -
  have m: "(0xFF :: u16) = mask 8" by (simp add: mask_eq_exp_minus_1)
  show ?thesis unfolding m by (rule bit_word_eqI) (auto simp: bit_simps)
qed

lemma low_byte_32: "(ucast (v AND 0xFF) :: u8) = ucast (v :: u32)"
proof -
  have m: "(0xFF :: u32) = mask 8" by (simp add: mask_eq_exp_minus_1)
  show ?thesis unfolding m by (rule bit_word_eqI) (auto simp: bit_simps)
qed

lemma word_bytes_16: "ucast (ucast v :: u8) OR push_bit 8 (ucast (ucast (drop_bit 8 v) :: u8)) = (v :: u16)"
  by (rule bit_word_eqI) (auto simp: bit_simps)

lemma word_bytes_32:
  "ucast (ucast v :: u8) OR push_bit 8 (ucast (ucast (drop_bit 8 v) :: u8)) OR
   push_bit 16 (ucast (ucast (drop_bit 16 v) :: u8)) OR
   push_bit 24 (ucast (ucast (drop_bit 24 v) :: u8)) = (v :: u32)"
proof (rule bit_word_eqI)
  fix n :: nat assume "n < LENGTH(32)"
  then consider "n < 8" | "8 \<le> n" "n < 16" | "16 \<le> n" "n < 24" | "24 \<le> n" "n < 32"
    by fastforce
  then show "bit ((ucast (ucast v :: u8) :: u32) OR push_bit 8 (ucast (ucast (drop_bit 8 v) :: u8)) OR
     push_bit 16 (ucast (ucast (drop_bit 16 v) :: u8)) OR
     push_bit 24 (ucast (ucast (drop_bit 24 v) :: u8))) n = bit (v :: u32) n"
    by cases (auto simp: bit_simps)
qed

interpretation wu8: wire_codec "writeU8 []" readU8 "\<lambda>_. True"
proof unfold_locales
  fix v r rest assume "unread r = writeU8 [] v @ rest"
  then have u: "unread r = [v] @ rest" by (simp add: writeU8_def)
  show "readU8 r = Some (v, advance (length (writeU8 [] v)) r)"
    using unread_nth[OF u, of 0] by (simp add: readU8_def writeU8_def advance_def)
qed

interpretation wu16: wire_codec "writeU16 []" readU16 "\<lambda>_. True"
proof unfold_locales
  fix v r rest assume "unread r = writeU16 [] v @ rest"
  then have u: "unread r = [ucast (v AND 0xFF), ucast (drop_bit 8 v AND 0xFF)] @ rest"
    by (simp add: writeU16_def)
  show "readU16 r = Some (v, advance (length (writeU16 [] v)) r)"
    using unread_nth[OF u, of 0] unread_nth[OF u, of 1] word_bytes_16[of v]
    by (simp add: low_byte_16 readU16_def writeU16_def advance_def)
qed

interpretation wu32: wire_codec "writeU32 []" readU32 "\<lambda>_. True"
proof unfold_locales
  fix v r rest assume "unread r = writeU32 [] v @ rest"
  then have u: "unread r = [ucast (v AND 0xFF), ucast (drop_bit 8 v AND 0xFF),
     ucast (drop_bit 16 v AND 0xFF), ucast (drop_bit 24 v AND 0xFF)] @ rest"
    by (simp add: writeU32_def)
  show "readU32 r = Some (v, advance (length (writeU32 [] v)) r)"
    using unread_nth[OF u, of 0] unread_nth[OF u, of 1] unread_nth[OF u, of 2] unread_nth[OF u, of 3]
      word_bytes_32[of v]
    by (simp add: low_byte_32 readU32_def writeU32_def advance_def)
qed

lemma write_append:
  "writeU8 buf v = buf @ writeU8 [] v" "writeU16 buf w = buf @ writeU16 [] w"
  "writeU32 buf x = buf @ writeU32 [] x"
  by (simp_all add: writeU8_def writeU16_def writeU32_def)


section \<open>Bit streams\<close>

record bit_reader =
  brdata :: "u8 list"
  bit_pos :: nat

text \<open>\<open>BitReader::read\<close>; a byte outside the data or a shift by 32 or more is undefined (\<open>None\<close>).\<close>

primrec br_read_loop :: "nat \<Rightarrow> nat \<Rightarrow> u32 \<Rightarrow> bit_reader \<Rightarrow> (u32 \<times> bit_reader) option" where
  "br_read_loop 0 i val br = Some (val, br)"
| "br_read_loop (Suc left) i val br =
     (case nth_opt (brdata br) (bit_pos br div 8) of
        None \<Rightarrow> None
      | Some b \<Rightarrow>
          if i \<ge> 32 then None
          else br_read_loop left (Suc i)
                 (if drop_bit (bit_pos br mod 8) b AND 1 \<noteq> 0 then val OR push_bit i 1 else val)
                 (br\<lparr>bit_pos := bit_pos br + 1\<rparr>))"

definition br_read :: "nat \<Rightarrow> bit_reader \<Rightarrow> (u32 \<times> bit_reader) option" where
  "br_read bits br = br_read_loop bits 0 0 br"

text \<open>The bit packer inlined in \<open>MutableSection::encodeToWire\<close>: bytes written, the byte being
  assembled and its next bit.\<close>

primrec pack_index :: "nat \<Rightarrow> u16 \<Rightarrow> u8 list \<times> u8 \<times> nat \<Rightarrow> u8 list \<times> u8 \<times> nat" where
  "pack_index 0 idx st = st"
| "pack_index (Suc b) idx st =
     (case st of (out, byte, bit_idx) \<Rightarrow>
        let byte' = byte OR push_bit bit_idx (ucast (idx AND 1))
        in pack_index b (drop_bit 1 idx)
             (if bit_idx + 1 = 8 then (out @ [byte'], 0, 0) else (out, byte', bit_idx + 1)))"

definition pack_indices :: "nat \<Rightarrow> u16 list \<Rightarrow> u8 list" where
  "pack_indices bpi idxs =
     (case fold (pack_index bpi) idxs ([], 0, 0) of (out, byte, bit_idx) \<Rightarrow>
        if bit_idx \<noteq> 0 then out @ [byte] else out)"

text \<open>Bit \<open>n\<close> of a byte sequence.\<close>

definition stream_bit :: "u8 list \<Rightarrow> nat \<Rightarrow> bool" where
  "stream_bit data n = bit (data ! (n div 8)) (n mod 8)"

lemma test_bit_and_1: "drop_bit k (b :: 'a::len word) AND 1 \<noteq> 0 \<longleftrightarrow> bit b k"
  by (simp add: bit_iff_odd_drop_bit and_one_eq odd_iff_mod_2_eq_one)

lemma br_read_loop_correct:
  assumes "bit_pos br + left \<le> 8 * length (brdata br)" "i + left \<le> 32"
  shows "\<exists>w. br_read_loop left i val br = Some (w, br\<lparr>bit_pos := bit_pos br + left\<rparr>) \<and>
    (\<forall>n. bit w n \<longleftrightarrow> bit val n \<or> (i \<le> n \<and> n < i + left \<and> stream_bit (brdata br) (bit_pos br + (n - i))))"
  using assms
proof (induction left arbitrary: i val br)
  case (Suc left)
  let ?br = "br\<lparr>bit_pos := bit_pos br + 1\<rparr>"
  let ?t = "stream_bit (brdata br) (bit_pos br)"
  let ?val = "if ?t then val OR push_bit i 1 else val"
  have in_range: "bit_pos br div 8 < length (brdata br)" using Suc.prems(1) by linarith
  have "br_read_loop (Suc left) i val br = br_read_loop left (Suc i) ?val ?br"
    using in_range Suc.prems(2) by (simp add: test_bit_and_1 stream_bit_def)
  moreover obtain w where w: "br_read_loop left (Suc i) ?val ?br = Some (w, ?br\<lparr>bit_pos := bit_pos ?br + left\<rparr>)"
    "\<And>n. bit w n \<longleftrightarrow> bit ?val n \<or> (Suc i \<le> n \<and> n < Suc i + left \<and>
       stream_bit (brdata ?br) (bit_pos ?br + (n - Suc i)))"
    using Suc.IH[of ?br "Suc i" ?val] Suc.prems by auto
  moreover have "bit w n \<longleftrightarrow> bit val n \<or> (i \<le> n \<and> n < i + Suc left \<and> stream_bit (brdata br) (bit_pos br + (n - i)))" for n
  proof (cases "n = i")
    case True
    then show ?thesis using w(2)[of n] Suc.prems(2) by (auto simp: bit_simps)
  next
    case False
    then have "bit ?val n = bit val n" by (auto simp: bit_simps bit_1_iff)
    moreover have "bit_pos br + (n - i) = bit_pos ?br + (n - Suc i)" if "Suc i \<le> n" using that by simp
    ultimately show ?thesis using w(2)[of n] False by auto
  qed
  ultimately show ?case by auto
qed auto

lemma br_read_correct:
  assumes "bit_pos br + bits \<le> 8 * length (brdata br)" "bits \<le> 32"
  shows "\<exists>w. br_read bits br = Some (w, br\<lparr>bit_pos := bit_pos br + bits\<rparr>) \<and>
    (\<forall>n. bit w n \<longleftrightarrow> n < bits \<and> stream_bit (brdata br) (bit_pos br + n))"
  using br_read_loop_correct[of br bits 0 0] assms unfolding br_read_def by simp

definition packed_ok :: "u8 list \<times> u8 \<times> nat \<Rightarrow> bool" where
  "packed_ok st \<longleftrightarrow> (case st of (out, byte, k) \<Rightarrow> k < 8 \<and> (\<forall>n. bit byte n \<longrightarrow> n < k))"

definition packed_len :: "u8 list \<times> u8 \<times> nat \<Rightarrow> nat" where
  "packed_len st = (case st of (out, byte, k) \<Rightarrow> 8 * length out + k)"

definition packed_bit :: "u8 list \<times> u8 \<times> nat \<Rightarrow> nat \<Rightarrow> bool" where
  "packed_bit st n = (case st of (out, byte, k) \<Rightarrow>
     if n < 8 * length out then stream_bit out n else bit byte (n - 8 * length out))"

lemma stream_bit_append:
  "n < 8 * length xs \<Longrightarrow> stream_bit (xs @ ys) n = stream_bit xs n"
  "\<not> n < 8 * length xs \<Longrightarrow> stream_bit (xs @ ys) n = stream_bit ys (n - 8 * length xs)"
proof -
  show "n < 8 * length xs \<Longrightarrow> stream_bit (xs @ ys) n = stream_bit xs n"
    by (auto simp: stream_bit_def nth_append)
  assume "\<not> n < 8 * length xs"
  then obtain m where "n = 8 * length xs + m" by (metis le_iff_add not_less)
  then show "stream_bit (xs @ ys) n = stream_bit ys (n - 8 * length xs)"
    by (simp add: stream_bit_def nth_append)
qed

lemma pack_bit_step:
  fixes idx :: u16
  assumes "packed_ok (out, byte, k)"
  defines "byte' \<equiv> byte OR push_bit k (ucast (idx AND 1))"
  defines "st' \<equiv> if k + 1 = 8 then (out @ [byte'], 0, 0) else (out, byte', k + 1)"
  shows "packed_ok st'" "packed_len st' = packed_len (out, byte, k) + 1"
    "n < packed_len (out, byte, k) \<Longrightarrow> packed_bit st' n = packed_bit (out, byte, k) n"
    "packed_bit st' (packed_len (out, byte, k)) = bit idx 0"
proof -
  have k: "k < 8" and zero: "\<And>n. bit byte n \<Longrightarrow> n < k" using assms(1) by (auto simp: packed_ok_def)
  have bits: "bit byte' n \<longleftrightarrow> bit byte n \<or> (n = k \<and> bit idx 0)" for n
    using k by (auto simp: byte'_def bit_simps bit_1_iff)
  show "packed_ok st'" using k zero bits by (auto simp: st'_def packed_ok_def less_Suc_eq)
  show "packed_len st' = packed_len (out, byte, k) + 1" by (auto simp: st'_def packed_len_def)
  have one: "stream_bit [byte'] m = bit byte' m" if "m < 8" for m
    using that by (simp add: stream_bit_def)
  have pb: "packed_bit st' n = (if n < 8 * length out then stream_bit out n else bit byte' (n - 8 * length out))"
    if "n < 8 * length out + k + 1" for n
    using that k one[of "n - 8 * length out"]
    by (auto simp: st'_def packed_bit_def stream_bit_append)
  show "packed_bit st' n = packed_bit (out, byte, k) n" if "n < packed_len (out, byte, k)"
    using that pb[of n] bits by (auto simp: packed_len_def packed_bit_def)
  show "packed_bit st' (packed_len (out, byte, k)) = bit idx 0"
    using pb[of "8 * length out + k"] bits[of k] zero[of k] by (auto simp: packed_len_def)
qed

lemma pack_index_correct:
  assumes "packed_ok st"
  shows "packed_ok (pack_index b idx st) \<and> packed_len (pack_index b idx st) = packed_len st + b \<and>
    (\<forall>n < packed_len st. packed_bit (pack_index b idx st) n = packed_bit st n) \<and>
    (\<forall>i < b. packed_bit (pack_index b idx st) (packed_len st + i) = bit idx i)"
  using assms
proof (induction b arbitrary: idx st)
  case (Suc b)
  obtain out byte k where st: "st = (out, byte, k)" by (cases st)
  define st' where "st' = (let byte' = byte OR push_bit k (ucast (idx AND (1 :: u16)))
      in if k + 1 = 8 then (out @ [byte'], 0, 0) else (out, byte', k + 1))"
  have step: "pack_index (Suc b) idx st = pack_index b (drop_bit 1 idx) st'"
    by (simp add: st st'_def Let_def)
  note s = pack_bit_step[OF Suc.prems[unfolded st], where idx = idx, folded st'_def[unfolded Let_def]]
  note IH = Suc.IH[OF s(1), of "drop_bit 1 idx"]
  have "packed_bit (pack_index (Suc b) idx st) (packed_len st + i) = bit idx i" if "i < Suc b" for i
  proof (cases i)
    case 0
    then show ?thesis using IH s(2,4) step by (simp add: st)
  next
    case (Suc j)
    then have "packed_bit (pack_index b (drop_bit 1 idx) st') (packed_len st' + j) = bit (drop_bit 1 idx) j"
      using IH that by simp
    then show ?thesis using s(2) Suc step by (simp add: st bit_simps)
  qed
  then show ?case using IH s step by (simp add: st)
qed simp

lemma pack_fold_correct:
  assumes "packed_ok st"
  shows "packed_ok (fold (pack_index b) idxs st) \<and>
    packed_len (fold (pack_index b) idxs st) = packed_len st + length idxs * b \<and>
    (\<forall>n < packed_len st. packed_bit (fold (pack_index b) idxs st) n = packed_bit st n) \<and>
    (\<forall>j < length idxs. \<forall>i < b. packed_bit (fold (pack_index b) idxs st) (packed_len st + j * b + i) = bit (idxs ! j) i)"
  using assms
proof (induction idxs arbitrary: st)
  case (Cons x xs)
  note s = pack_index_correct[OF Cons.prems, of b x]
  have "packed_ok (pack_index b x st)" using s by blast
  note IH = Cons.IH[OF this]
  have "packed_bit (fold (pack_index b) (x # xs) st) (packed_len st + j * b + i) = bit ((x # xs) ! j) i"
    if "j < length (x # xs)" "i < b" for j i
  proof (cases j)
    case 0
    then show ?thesis using IH s that(2) by simp
  next
    case (Suc m)
    then have "packed_bit (fold (pack_index b) xs (pack_index b x st)) (packed_len (pack_index b x st) + m * b + i) = bit (xs ! m) i"
      using IH that by simp
    then show ?thesis using s Suc by (simp add: algebra_simps)
  qed
  then show ?case using IH s by (simp add: algebra_simps)
qed simp

lemma pack_indices_correct:
  assumes "8 dvd length idxs * b"
  shows "8 * length (pack_indices b idxs) = length idxs * b"
    and "j < length idxs \<Longrightarrow> i < b \<Longrightarrow> stream_bit (pack_indices b idxs) (j * b + i) = bit (idxs ! j) i"
proof -
  obtain out byte k where st: "fold (pack_index b) idxs ([], 0, 0) = (out, byte, k)"
    by (cases "fold (pack_index b) idxs ([], 0, 0)")
  have "packed_ok ([], 0, 0)" by (simp add: packed_ok_def)
  note c = pack_fold_correct[OF this, of b idxs]
  have k: "k < 8" "8 * length out + k = length idxs * b"
    using c by (auto simp: st packed_ok_def packed_len_def)
  then have "8 dvd k" using assms by (metis dvd_add_right_iff dvd_triv_left)
  then have k0: "k = 0" using k(1) by (auto dest: dvd_imp_le)
  have p: "pack_indices b idxs = out" using st k0 by (simp add: pack_indices_def)
  show "8 * length (pack_indices b idxs) = length idxs * b" using k k0 p by simp
  show "stream_bit (pack_indices b idxs) (j * b + i) = bit (idxs ! j) i" if "j < length idxs" "i < b"
  proof -
    have "packed_bit (out, byte, k) (j * b + i) = bit (idxs ! j) i"
      using c that by (simp add: st packed_len_def)
    moreover have "j * b + i < 8 * length out"
    proof -
      have "j * b + i < Suc j * b" using that(2) by simp
      also have "\<dots> \<le> length idxs * b" using that(1) by (intro mult_le_mono1) simp
      finally show ?thesis using k k0 by simp
    qed
    ultimately show ?thesis by (simp add: p packed_bit_def)
  qed
qed

end
