(* ===== verification/SparseMap.thy ===== *)
theory SparseMap
  imports SectionCodec
begin

text \<open>
  The sparse per-block attributes of a section (\<open>meta_entries\<close>/\<open>meta_flat\<close> and
  \<open>mb_entries\<close>/\<open>mb_flat\<close> of \<open>src/apps/chunk_store/Storage/cache/MutableSection.{h,cpp}\<close>): a vector of
  (local index, value) pairs sorted by index, replaced by a flat array of 4096 values once it
  grows past \<open>SPARSE_THRESHOLD\<close>. The code writes the same five functions twice, for 8-bit meta and
  for 32-bit multiblock ids; here they are one polymorphic group, instantiated in the theory
  MutableSection. The value 0 means "no entry". The lemmas show that both representations are the
  same map from local index to value, and that it survives the wire format.
\<close>

record 'v sparse =
  sp_entries :: "(u16 \<times> 'v) list"
  sp_flat :: "'v list option"

definition SPARSE_THRESHOLD :: nat where "SPARSE_THRESHOLD = 256"

definition sp_empty :: "'v sparse" where
  "sp_empty = \<lparr>sp_entries = [], sp_flat = None\<rparr>"

text \<open>\<open>std::lower_bound\<close> on the sorted vector: the position of the first key not below \<open>li\<close>.\<close>

definition lower_bound :: "(u16 \<times> 'v) list \<Rightarrow> u16 \<Rightarrow> nat" where
  "lower_bound es li = length (takeWhile (\<lambda>p. fst p < li) es)"

definition key_at :: "(u16 \<times> 'v) list \<Rightarrow> nat \<Rightarrow> nat \<Rightarrow> bool" where
  "key_at es it li \<longleftrightarrow> it < length es \<and> unat (fst (es ! it)) = li"

definition sp_get :: "nat \<Rightarrow> 'v::len word sparse \<Rightarrow> 'v word option" where
  "sp_get li s =
     (case sp_flat s of
        Some f \<Rightarrow> nth_opt f li
      | None \<Rightarrow>
          if sp_entries s = [] then Some 0
          else
            let it = lower_bound (sp_entries s) (of_nat li)
            in if key_at (sp_entries s) it li then Some (snd (sp_entries s ! it)) else Some 0)"

definition sp_remove :: "nat \<Rightarrow> 'v::len word sparse \<Rightarrow> 'v word sparse" where
  "sp_remove li s =
     (case sp_flat s of
        Some f \<Rightarrow> s\<lparr>sp_flat := Some (f[li := 0])\<rparr>
      | None \<Rightarrow>
          let it = lower_bound (sp_entries s) (of_nat li)
          in if key_at (sp_entries s) it li
             then s\<lparr>sp_entries := take it (sp_entries s) @ drop (Suc it) (sp_entries s)\<rparr> else s)"

definition sp_flatten :: "'v::len word sparse \<Rightarrow> 'v word sparse" where
  "sp_flatten s =
     \<lparr>sp_entries = [],
      sp_flat = Some (fold (\<lambda>(li, v) f. f[unat li := v]) (sp_entries s) (replicate SEC_VOL 0))\<rparr>"

definition sp_set :: "nat \<Rightarrow> 'v::len word \<Rightarrow> 'v word sparse \<Rightarrow> 'v word sparse" where
  "sp_set li v s =
     (if v = 0 then sp_remove li s
      else
        (case sp_flat s of
           Some f \<Rightarrow> s\<lparr>sp_flat := Some (f[li := v])\<rparr>
         | None \<Rightarrow>
             let es = sp_entries s; it = lower_bound es (of_nat li)
             in if key_at es it li
                then s\<lparr>sp_entries := es[it := (fst (es ! it), v)]\<rparr>
                else
                  let s' = s\<lparr>sp_entries := take it es @ (of_nat li, v) # drop it es\<rparr>
                  in if length (sp_entries s') > SPARSE_THRESHOLD then sp_flatten s' else s'))"

text \<open>The (index, value) pairs \<open>writeMetaMbToWire\<close> writes.\<close>

definition sp_wire :: "'v::len word sparse \<Rightarrow> (u16 \<times> 'v word) list" where
  "sp_wire s =
     (case sp_flat s of
        Some f \<Rightarrow> map (\<lambda>i. (of_nat i, f ! i)) (filter (\<lambda>i. f ! i \<noteq> 0) [0..<SEC_VOL])
      | None \<Rightarrow> sp_entries s)"

section \<open>Both representations are one map\<close>

definition sp_ok :: "'v::len word sparse \<Rightarrow> bool" where
  "sp_ok s \<longleftrightarrow>
     (case sp_flat s of
        Some f \<Rightarrow> length f = SEC_VOL
      | None \<Rightarrow> sorted_wrt (<) (map fst (sp_entries s)) \<and>
          (\<forall>(li, v) \<in> set (sp_entries s). unat li < SEC_VOL \<and> v \<noteq> 0) \<and>
          length (sp_entries s) \<le> SPARSE_THRESHOLD)"

definition sp_map :: "'v::len word sparse \<Rightarrow> nat \<Rightarrow> 'v word" where
  "sp_map s li =
     (case sp_flat s of
        Some f \<Rightarrow> f ! li
      | None \<Rightarrow> (case map_of (sp_entries s) (of_nat li) of None \<Rightarrow> 0 | Some v \<Rightarrow> v))"

lemma SEC_VOL_eq [simp]: "SEC_VOL = 4096"
  by (simp add: SEC_VOL_def SEC_SZ_def)

lemma of_nat_u16 [simp]: "li < 4096 \<Longrightarrow> unat (of_nat li :: u16) = li"
  by (simp add: unat_of_nat)

lemma of_nat_u16_eq: "li < 4096 \<Longrightarrow> lj < 4096 \<Longrightarrow> (of_nat li :: u16) = of_nat lj \<longleftrightarrow> li = lj"
  by (metis of_nat_u16)

lemma u16_eq_of_nat: "lj < 4096 \<Longrightarrow> (li :: u16) = of_nat lj \<longleftrightarrow> unat li = lj"
  by (simp add: word_unat_eq_iff)

lemma sorted_wrt_less_distinct: "sorted_wrt (<) (xs :: 'a::linorder list) \<Longrightarrow> distinct xs"
  by (metis strict_sorted_iff)

lemma lower_bound_split:
  fixes es :: "(u16 \<times> 'v) list"
  assumes "sorted_wrt (<) (map fst es)"
  shows "lower_bound es k \<le> length es"
    and "\<And>p. p \<in> set (take (lower_bound es k) es) \<Longrightarrow> fst p < k"
    and "\<And>p. p \<in> set (drop (lower_bound es k) es) \<Longrightarrow> k \<le> fst p"
proof -
  show "lower_bound es k \<le> length es" by (simp add: lower_bound_def length_takeWhile_le)
  show "\<And>p. p \<in> set (take (lower_bound es k) es) \<Longrightarrow> fst p < k"
    by (simp add: lower_bound_def takeWhile_eq_take[symmetric]) (auto dest: set_takeWhileD)
  fix p assume p: "p \<in> set (drop (lower_bound es k) es)"
  have d: "drop (lower_bound es k) es = dropWhile (\<lambda>p. fst p < k) es"
    by (simp add: lower_bound_def dropWhile_eq_drop)
  show "k \<le> fst p"
  proof (cases "dropWhile (\<lambda>p. fst p < k) es")
    case Nil
    then have "p \<in> {}" using p unfolding d by (metis empty_set)
    then show ?thesis by simp
  next
    case (Cons q qs)
    then have q: "\<not> fst q < k" using hd_dropWhile[of "\<lambda>p. fst p < k" es] by simp
    have "sorted_wrt (<) (map fst (drop (lower_bound es k) es))"
      using assms by (simp add: sorted_wrt_drop drop_map[symmetric])
    then have "p = q \<or> fst q < fst p" using p d Cons by auto
    then show ?thesis using q by auto
  qed
qed

lemma map_of_middle:
  "k \<notin> fst ` set xs \<Longrightarrow> map_of (xs @ (k, v) # ys) j = (if j = k then Some v else map_of (xs @ ys) j)"
  by (induction xs) auto

lemma map_of_append_absent: "k \<notin> fst ` set xs \<Longrightarrow> k \<notin> fst ` set ys \<Longrightarrow> map_of (xs @ ys) k = None"
  by (auto simp: map_of_eq_None_iff)

lemma map_of_append_none: "k \<notin> fst ` set xs \<Longrightarrow> map_of (xs @ ys) k = map_of ys k"
  by (simp add: map_add_def map_of_eq_None_iff[symmetric])

text \<open>Where \<open>lower_bound\<close> points: at the entry of the key, or where it would be inserted.\<close>

lemma lower_bound_cases:
  fixes es :: "(u16 \<times> 'v) list"
  assumes "sorted_wrt (<) (map fst es)" "li < 4096"
  defines "k \<equiv> of_nat li :: u16" and "it \<equiv> lower_bound es (of_nat li)"
  obtains (found) xs v ys where "es = xs @ (k, v) # ys" "it = length xs" "key_at es it li"
      "\<forall>p \<in> set xs. fst p < k" "\<forall>p \<in> set ys. k < fst p" "map_of es k = Some v"
  | (absent) xs ys where "es = xs @ ys" "it = length xs" "\<not> key_at es it li"
      "\<forall>p \<in> set xs. fst p < k" "\<forall>p \<in> set ys. k < fst p" "map_of es k = None"
proof -
  note lb = lower_bound_split[OF assms(1), where k = k]
  define xs where "xs = take it es"
  define ys where "ys = drop it es"
  have es: "es = xs @ ys" and it: "it = length xs" "it \<le> length es"
    using lb(1) by (auto simp: xs_def ys_def it_def k_def)
  have xs: "\<forall>p \<in> set xs. fst p < k" and ys: "\<forall>p \<in> set ys. k \<le> fst p"
    using lb by (auto simp: xs_def ys_def it_def k_def)
  have kx: "k \<notin> fst ` set xs" using xs by auto
  have k: "unat k = li" using assms(2) by (simp add: k_def)
  show thesis
  proof (cases "key_at es it li")
    case True
    then have nz: "ys \<noteq> []" and f: "unat (fst (es ! it)) = li"
      using es it by (auto simp: key_at_def)
    then obtain q qs where q: "ys = q # qs" by (cases ys) auto
    then have "fst q = k" using f es it k by (metis nth_append_length word_unat_eq_iff)
    then obtain v where v: "q = (k, v)" by (cases q) auto
    have "\<forall>p \<in> set qs. k < fst p"
      using assms(1) es q v by (auto simp: sorted_wrt_append)
    moreover have "map_of es k = Some v"
      using map_of_middle[OF kx] es q v by simp
    ultimately show thesis using found es q v it True xs by blast
  next
    case False
    have "\<forall>p \<in> set ys. k < fst p"
    proof
      fix p assume p: "p \<in> set ys"
      obtain q qs where q: "ys = q # qs" using p by (cases ys) auto
      have "unat (fst q) \<noteq> li" using False es it q by (auto simp: key_at_def nth_append)
      then have "fst q \<noteq> k" using k by auto
      moreover have "k \<le> fst q" using ys q by simp
      moreover have "p = q \<or> fst q < fst p"
        using assms(1) es q p by (auto simp: sorted_wrt_append)
      ultimately show "k < fst p" by auto
    qed
    moreover from this have "map_of es k = None"
      using map_of_append_none[OF kx, of ys] es by (auto simp: map_of_eq_None_iff)
    ultimately show thesis using absent es it False xs by blast
  qed
qed

lemma sp_get_map:
  assumes "sp_ok s" "li < 4096"
  shows "sp_get li s = Some (sp_map s li)"
proof (cases "sp_flat s")
  case (Some f)
  then show ?thesis using assms by (simp add: sp_get_def sp_map_def sp_ok_def)
next
  case None
  then have "sorted_wrt (<) (map fst (sp_entries s))" using assms by (simp add: sp_ok_def)
  then show ?thesis using assms(2)
    by (cases rule: lower_bound_cases)
      (auto simp: None sp_get_def sp_map_def Let_def simp del: map_of_append)
qed


lemma sp_remove_map:
  assumes "sp_ok s" "li < 4096"
  shows "sp_ok (sp_remove li s)"
    and "lj < 4096 \<Longrightarrow> sp_map (sp_remove li s) lj = (if lj = li then 0 else sp_map s lj)"
proof -
  have "sp_ok (sp_remove li s) \<and>
    (\<forall>lj < 4096. sp_map (sp_remove li s) lj = (if lj = li then 0 else sp_map s lj))"
  proof (cases "sp_flat s")
    case (Some f)
    then show ?thesis using assms
      by (auto simp: sp_remove_def sp_map_def sp_ok_def nth_list_update)
  next
    case None
    then have sorted: "sorted_wrt (<) (map fst (sp_entries s))" using assms by (simp add: sp_ok_def)
    from sorted assms(2) show ?thesis
    proof (cases rule: lower_bound_cases)
      case (found xs v ys)
      have r: "sp_remove li s = s\<lparr>sp_entries := xs @ ys\<rparr>"
        using found by (simp add: sp_remove_def None Let_def)
      have "sp_ok (sp_remove li s)"
        using assms(1) found(1) by (auto simp: r sp_ok_def None sorted_wrt_append)
      moreover have "map_of (xs @ ys) (of_nat lj) =
          (if lj = li then None else map_of (sp_entries s) (of_nat lj))" if "lj < 4096" for lj
      proof -
        have "of_nat li \<notin> fst ` set xs" "of_nat li \<notin> fst ` set ys" using found(4,5) by auto
        then show ?thesis
          using that assms(2) map_of_append_absent[of "of_nat li :: u16" xs ys]
          by (simp add: found(1) map_of_middle of_nat_u16_eq del: map_of_append)
      qed
      ultimately show ?thesis by (auto simp: sp_map_def r None simp del: map_of_append)
    next
      case (absent xs ys)
      then have r: "sp_remove li s = s" by (simp add: sp_remove_def None Let_def)
      show ?thesis using assms(1) absent(6) by (auto simp: r sp_map_def None)
    qed
  qed
  then show "sp_ok (sp_remove li s)"
    "lj < 4096 \<Longrightarrow> sp_map (sp_remove li s) lj = (if lj = li then 0 else sp_map s lj)" by auto
qed

lemma fold_list_update:
  assumes "distinct (map fst es)" "\<forall>(li, v) \<in> set es. unat li < length f" "lj < length f" "lj < 4096"
    "length f \<le> 4096"
  shows "length (fold (\<lambda>(li, v) f. f[unat li := v]) es f) = length f \<and>
    fold (\<lambda>(li, v) f. f[unat li := v]) es f ! lj =
      (case map_of es (of_nat lj :: u16) of None \<Rightarrow> f ! lj | Some v \<Rightarrow> v)"
  using assms
proof (induction es arbitrary: f)
  case (Cons e es)
  obtain li v where e: "e = (li, v)" by (cases e)
  have li: "unat li < length f" using Cons.prems(2) e by simp
  have eq: "li = of_nat lj \<longleftrightarrow> unat li = lj"
    by (rule u16_eq_of_nat[OF Cons.prems(4)])
  have none: "map_of es li = None"
    using Cons.prems(1) e by (auto simp: map_of_eq_None_iff)
  show ?case
    using Cons.IH[of "f[unat li := v]"] Cons.prems e li none eq
    by (auto simp: nth_list_update split: option.splits)
qed simp

lemma sp_flatten_map:
  fixes s :: "'v::len word sparse"
  assumes "sorted_wrt (<) (map fst (sp_entries s))" "\<forall>(li, v) \<in> set (sp_entries s). unat li < SEC_VOL"
    and "sp_flat s = None"
  shows "sp_ok (sp_flatten s)" and "lj < 4096 \<Longrightarrow> sp_map (sp_flatten s) lj = sp_map s lj"
proof -
  let ?f = "replicate SEC_VOL (0 :: 'v word)"
  have d: "distinct (map fst (sp_entries s))" using assms(1) by (rule sorted_wrt_less_distinct)
  have *: "length (fold (\<lambda>(li, v) f. f[unat li := v]) (sp_entries s) ?f) = length ?f \<and>
    fold (\<lambda>(li, v) f. f[unat li := v]) (sp_entries s) ?f ! lj =
      (case map_of (sp_entries s) (of_nat lj :: u16) of None \<Rightarrow> ?f ! lj | Some v \<Rightarrow> v)" if "lj < 4096" for lj
    using that d assms(2) by (intro fold_list_update) auto
  show "sp_ok (sp_flatten s)" using *[of 0] by (simp add: sp_ok_def sp_flatten_def)
  show "sp_map (sp_flatten s) lj = sp_map s lj" if "lj < 4096"
    using *[OF that] that assms(3) by (simp add: sp_map_def sp_flatten_def cong: option.case_cong)
qed

lemma sp_set_map:
  assumes "sp_ok s" "li < 4096"
  shows "sp_ok (sp_set li v s)"
    and "lj < 4096 \<Longrightarrow> sp_map (sp_set li v s) lj = (if lj = li then v else sp_map s lj)"
proof -
  have "sp_ok (sp_set li v s) \<and>
    (\<forall>lj < 4096. sp_map (sp_set li v s) lj = (if lj = li then v else sp_map s lj))"
  proof (cases "v = 0")
    case True
    then show ?thesis using sp_remove_map[OF assms] by (simp add: sp_set_def)
  next
    case nz: False
    show ?thesis
    proof (cases "sp_flat s")
      case (Some f)
      then show ?thesis using assms nz
        by (auto simp: sp_set_def sp_map_def sp_ok_def nth_list_update)
    next
      case None
      let ?k = "of_nat li :: u16"
      have sorted: "sorted_wrt (<) (map fst (sp_entries s))" using assms None by (simp add: sp_ok_def)
      from sorted assms(2) show ?thesis
      proof (cases rule: lower_bound_cases)
        case (found xs w ys)
        have r: "sp_set li v s = s\<lparr>sp_entries := xs @ (?k, v) # ys\<rparr>"
          using found nz by (simp add: sp_set_def None Let_def)
        have "sp_ok (sp_set li v s)"
          using assms found(1) nz by (auto simp: r sp_ok_def None sorted_wrt_append)
        moreover have "map_of (xs @ (?k, v) # ys) (of_nat lj) =
            (if lj = li then Some v else map_of (sp_entries s) (of_nat lj))" if "lj < 4096" for lj
        proof -
          have "?k \<notin> fst ` set xs" using found(4) by auto
          then show ?thesis
            using that assms(2) by (simp add: found(1) map_of_middle of_nat_u16_eq del: map_of_append)
        qed
        ultimately show ?thesis by (auto simp: sp_map_def r None simp del: map_of_append)
      next
        case (absent xs ys)
        let ?s = "s\<lparr>sp_entries := xs @ (?k, v) # ys\<rparr>"
        have r: "sp_set li v s = (if length (sp_entries ?s) > SPARSE_THRESHOLD then sp_flatten ?s else ?s)"
          using absent nz by (simp add: sp_set_def None Let_def)
        have so: "sorted_wrt (<) (map fst (sp_entries ?s))"
          using sorted absent(1,4,5) by (auto simp: sorted_wrt_append intro: less_trans)
        have ran: "\<forall>(li, v) \<in> set (sp_entries ?s). unat li < SEC_VOL"
          using assms absent(1) by (auto simp: sp_ok_def None)
        have m: "map_of (xs @ (?k, v) # ys) (of_nat lj) =
            (if lj = li then Some v else map_of (sp_entries s) (of_nat lj))" if "lj < 4096" for lj
        proof -
          have "?k \<notin> fst ` set xs" using absent(4) by auto
          then show ?thesis
            using that assms(2) by (simp add: absent(1) map_of_middle of_nat_u16_eq del: map_of_append)
        qed
        then have val: "sp_map ?s lj = (if lj = li then v else sp_map s lj)" if "lj < 4096" for lj
          using that by (simp add: sp_map_def None del: map_of_append)
        have "sp_ok ?s" if "\<not> length (sp_entries ?s) > SPARSE_THRESHOLD"
          using that so assms absent(1) nz by (auto simp: sp_ok_def None)
        then show ?thesis
          using sp_flatten_map[OF so ran] val None by (auto simp: r)
      qed
    qed
  qed
  then show "sp_ok (sp_set li v s)"
    "lj < 4096 \<Longrightarrow> sp_map (sp_set li v s) lj = (if lj = li then v else sp_map s lj)" by auto
qed

lemma sp_empty_map: "sp_ok sp_empty" "sp_map sp_empty li = 0"
  by (simp_all add: sp_ok_def sp_map_def sp_empty_def)

section \<open>The wire pairs\<close>

text \<open>What the decoder does with the pairs it read: keep those in range, then set them in order.\<close>

definition sp_load :: "(u16 \<times> 'v::len word) list \<Rightarrow> 'v word sparse \<Rightarrow> 'v word sparse" where
  "sp_load es s = fold (\<lambda>(li, v) s. sp_set (unat li) v s) (filter (\<lambda>(li, _). unat li < SEC_VOL) es) s"

lemma sp_fold_set:
  fixes es :: "(u16 \<times> 'v::len word) list"
  assumes "sp_ok s" "distinct (map fst es)" "\<forall>(li, v) \<in> set es. unat li < 4096"
  shows "sp_ok (fold (\<lambda>(li, v) s. sp_set (unat li) v s) es s) \<and>
    (\<forall>lj < 4096. sp_map (fold (\<lambda>(li, v) s. sp_set (unat li) v s) es s) lj =
      (case map_of es (of_nat lj) of None \<Rightarrow> sp_map s lj | Some v \<Rightarrow> v))"
  using assms
proof (induction es arbitrary: s)
  case (Cons e es)
  obtain li v where e: "e = (li, v)" by (cases e)
  have li: "unat li < 4096" using Cons.prems(3) e by simp
  have eq: "li = of_nat lj \<longleftrightarrow> lj = unat li" if "lj < 4096" for lj
    using u16_eq_of_nat[OF that, of li] by (simp only: eq_commute[of lj])
  have none: "map_of es li = None"
    using Cons.prems(2) e by (auto simp: map_of_eq_None_iff)
  note one = sp_set_map[OF Cons.prems(1) li, where v = v]
  have IH: "sp_ok (fold (\<lambda>(li, v) s. sp_set (unat li) v s) es (sp_set (unat li) v s)) \<and>
    (\<forall>lj < 4096. sp_map (fold (\<lambda>(li, v) s. sp_set (unat li) v s) es (sp_set (unat li) v s)) lj =
      (case map_of es (of_nat lj) of None \<Rightarrow> sp_map (sp_set (unat li) v s) lj | Some v \<Rightarrow> v))"
    by (rule Cons.IH[OF one(1)]) (use Cons.prems in simp_all)
  have "(case map_of es (of_nat lj) of None \<Rightarrow> sp_map (sp_set (unat li) v s) lj | Some v \<Rightarrow> v) =
      (case map_of (e # es) (of_nat lj) of None \<Rightarrow> sp_map s lj | Some v \<Rightarrow> v)" if "lj < 4096" for lj
  proof (cases "lj = unat li")
    case True
    then have "of_nat lj = li" by simp
    then show ?thesis using one(2)[OF that] True none by (simp add: e)
  next
    case False
    then have "li \<noteq> of_nat lj" using eq[OF that] by blast
    then show ?thesis using one(2)[OF that] False by (simp add: e split: option.splits)
  qed
  then show ?case using IH by (simp add: e)
qed simp

lemma sp_wire_flat:
  assumes "length f = 4096"
  defines "es \<equiv> map (\<lambda>i. (of_nat i :: u16, f ! i)) (filter (\<lambda>i. f ! i \<noteq> (0 :: 'v::len word)) [0..<4096])"
  shows "distinct (map fst es)" "\<forall>(li, v) \<in> set es. unat li < 4096" "length es \<le> 4096"
    "lj < 4096 \<Longrightarrow> map_of es (of_nat lj) = (if f ! lj = 0 then None else Some (f ! lj))"
proof -
  note es = es_def
  have inj: "inj_on (\<lambda>i. of_nat i :: u16) {0..<4096}"
    by (auto intro!: inj_onI simp: of_nat_u16_eq)
  show "distinct (map fst es)"
    unfolding es map_map distinct_map o_def fst_conv
    by (intro conjI distinct_filter distinct_upt inj_on_subset[OF inj]) auto
  then have d: "distinct (map fst es)" .
  show "\<forall>(li, v) \<in> set es. unat li < 4096" by (auto simp: es simp del: upt_conv_Cons)
  have "length es \<le> length [0..<4096 :: nat]"
    unfolding es length_map by (rule length_filter_le)
  then show "length es \<le> 4096" by (simp only: length_upt diff_zero)
  assume lj: "lj < 4096"
  have "map_of es (of_nat lj) = None" if "f ! lj = 0"
    using that lj by (auto simp: es map_of_eq_None_iff of_nat_u16_eq)
  moreover have "map_of es (of_nat lj) = Some (f ! lj)" if "f ! lj \<noteq> 0"
    using that lj d by (auto simp: es intro!: map_of_is_SomeI)
  ultimately show "map_of es (of_nat lj) = (if f ! lj = 0 then None else Some (f ! lj))" by simp
qed

lemma sp_wire_props:
  assumes "sp_ok s"
  shows "distinct (map fst (sp_wire s))" "\<forall>(li, v) \<in> set (sp_wire s). unat li < 4096"
    "length (sp_wire s) \<le> 4096"
    "lj < 4096 \<Longrightarrow> (case map_of (sp_wire s) (of_nat lj) of None \<Rightarrow> 0 | Some v \<Rightarrow> v) = sp_map s lj"
proof -
  have "distinct (map fst (sp_wire s)) \<and> (\<forall>(li, v) \<in> set (sp_wire s). unat li < 4096) \<and>
    length (sp_wire s) \<le> 4096 \<and>
    (lj < 4096 \<longrightarrow> (case map_of (sp_wire s) (of_nat lj) of None \<Rightarrow> 0 | Some v \<Rightarrow> v) = sp_map s lj)"
  proof (cases "sp_flat s")
    case (Some f)
    then have "length f = 4096" using assms by (simp add: sp_ok_def)
    from sp_wire_flat[OF this] show ?thesis
      by (simp add: sp_wire_def sp_map_def Some)
  next
    case None
    then show ?thesis
      using assms sorted_wrt_less_distinct[of "map fst (sp_entries s)"]
      by (auto simp: sp_ok_def sp_wire_def sp_map_def SPARSE_THRESHOLD_def)
  qed
  then show "distinct (map fst (sp_wire s))" "\<forall>(li, v) \<in> set (sp_wire s). unat li < 4096"
    "length (sp_wire s) \<le> 4096"
    "lj < 4096 \<Longrightarrow> (case map_of (sp_wire s) (of_nat lj) of None \<Rightarrow> 0 | Some v \<Rightarrow> v) = sp_map s lj"
    by blast+
qed

text \<open>Loading the wire pairs of a map into an empty one gives the same map.\<close>

lemma sp_load_wire:
  assumes "sp_ok s"
  shows "sp_ok (sp_load (sp_wire s) sp_empty)"
    and "lj < 4096 \<Longrightarrow> sp_map (sp_load (sp_wire s) sp_empty) lj = sp_map s lj"
proof -
  note w = sp_wire_props[OF assms]
  have f: "filter (\<lambda>(li, _). unat li < SEC_VOL) (sp_wire s) = sp_wire s"
    using w(2) by (auto intro!: filter_True)
  note * = sp_fold_set[OF sp_empty_map(1) w(1,2)]
  show "sp_ok (sp_load (sp_wire s) sp_empty)" using * by (simp only: sp_load_def f)
  show "sp_map (sp_load (sp_wire s) sp_empty) lj = sp_map s lj" if "lj < 4096"
    using * that w(4)[OF that] by (simp only: sp_load_def f sp_empty_map(2))
qed

end
