(* ===== verification/MutableSection.thy ===== *)
theory MutableSection
  imports SparseMap
begin

text \<open>
  \<open>MutableSection\<close> of \<open>src/apps/chunk_store/Storage/cache/MutableSection.{h,cpp}\<close>: 16 x 16 x 16 blocks
  in one of four representations (all air, 4-bit palette indices, 8-bit palette indices, one
  16-bit id per block), with the promotions and demotions between them, and its wire format.
  \<open>None\<close> is undefined behaviour in the C++ (a null pointer or an array read out of range); the
  theorems show that well-formed sections never reach it. The flat array's \<open>indices_bytes\<close> is the
  length of \<open>indices\<close>. Move construction, assignment and the destructor only transfer or free the
  buffers and have no counterpart on values.
\<close>

unbundle bit_operations_syntax

datatype section_type = AIR | BITPACK4 | FLAT | OVERFLOW

record flat_data =
  palette :: "u16 list"
  indices :: "u8 list"
  pal_size :: nat

record ms =
  sec_type :: section_type
  flat :: "flat_data option"
  overflow :: "u16 list option"
  meta :: "u8 sparse"
  mb :: "u32 sparse"

definition ms_new :: ms where
  "ms_new = \<lparr>sec_type = AIR, flat = None, overflow = None, meta = sp_empty, mb = sp_empty\<rparr>"

definition ms_clear :: "ms \<Rightarrow> ms" where
  "ms_clear s = s\<lparr>flat := None, overflow := None, meta := sp_empty, mb := sp_empty, sec_type := AIR\<rparr>"

section \<open>Reading a block\<close>

definition read_index :: "section_type \<Rightarrow> u8 list \<Rightarrow> nat \<Rightarrow> nat option" where
  "read_index ty ind li =
     (let bpi = (if ty = BITPACK4 then 4 else 8);
          msk = (if ty = BITPACK4 then 0xF else 0xFF :: u32);
          shift = li * bpi;
          byte = drop_bit 3 shift;
          bit = shift AND 7
      in Option.bind (nth_opt ind byte) (\<lambda>b0.
         Option.bind (nth_opt ind (byte + 1)) (\<lambda>b1.
           let raw = drop_bit bit (ucast b0) OR push_bit (8 - bit) (ucast b1)
           in Some (unat (raw AND msk)))))"

definition getBlock :: "ms \<Rightarrow> nat \<Rightarrow> u16 option" where
  "getBlock s li =
     (case sec_type s of
        AIR \<Rightarrow> Some 0
      | OVERFLOW \<Rightarrow> Option.bind (overflow s) (\<lambda>blks. nth_opt blks li)
      | ty \<Rightarrow> Option.bind (flat s) (\<lambda>f.
                Option.bind (read_index ty (indices f) li) (\<lambda>i. nth_opt (palette f) i)))"

section \<open>Writing a block\<close>

definition writeBitpacked :: "nat \<Rightarrow> u16 \<Rightarrow> nat \<Rightarrow> u8 list \<Rightarrow> u8 list option" where
  "writeBitpacked li idx bpi ind =
     (let shift = li * bpi;
          byte = drop_bit 3 shift;
          bit = shift AND 7;
          msk = push_bit bit (push_bit bpi 1 - 1) :: u32
      in Option.bind (nth_opt ind byte) (\<lambda>b0.
         let ind' = ind[byte := ucast ((ucast b0 AND NOT msk) OR (push_bit bit (ucast idx) AND msk))]
         in if bit + bpi > 8
            then Option.bind (nth_opt ind' (byte + 1)) (\<lambda>b1.
                   Some (ind'[byte + 1 := ucast ((ucast b1 AND NOT (drop_bit 8 msk)) OR
                                (drop_bit (8 - bit) (ucast idx) AND drop_bit 8 msk))]))
            else Some ind'))"

text \<open>Collecting distinct ids: \<open>fromBlocks\<close> and \<open>checkOverflowDemote\<close> skip air, \<open>promoteToFlatOrOverflow\<close>
  does not; all stop once the list exceeds 256 entries.\<close>

fun collect_unique :: "bool \<Rightarrow> u16 list \<Rightarrow> u16 list \<Rightarrow> u16 list" where
  "collect_unique skip_air [] unique = unique"
| "collect_unique skip_air (b # bs) unique =
     (if skip_air \<and> b = 0 then collect_unique skip_air bs unique
      else if b \<in> set unique then collect_unique skip_air bs unique
      else if length (unique @ [b]) > 256 then unique @ [b]
      else collect_unique skip_air bs (unique @ [b]))"

definition pal_index :: "u16 list \<Rightarrow> u16 \<Rightarrow> nat" where
  "pal_index pal bid = (case index_of bid pal of None \<Rightarrow> 0 | Some j \<Rightarrow> j)"

text \<open>The byte-per-block index array built from a palette (the cast to \<open>uint8_t\<close> truncates).\<close>

definition flat_indices :: "u16 list \<Rightarrow> u16 list \<Rightarrow> u8 list" where
  "flat_indices pal blocks = map (\<lambda>bid. of_nat (pal_index pal bid)) blocks @ [0]"

definition promoteToFlatOrOverflow :: "u16 \<Rightarrow> ms \<Rightarrow> ms option" where
  "promoteToFlatOrOverflow new_id s =
     Option.bind (those (map (getBlock s) [0..<SEC_VOL])) (\<lambda>blocks.
       let unique = collect_unique False blocks [new_id]
       in if length unique \<le> 256
          then let pal = 0 # filter (\<lambda>u. u \<noteq> 0) unique
               in Some (s\<lparr>sec_type := FLAT,
                          flat := Some \<lparr>palette = pal, indices = flat_indices pal blocks,
                                        pal_size = length pal\<rparr>\<rparr>)
          else Some (s\<lparr>flat := None, sec_type := OVERFLOW, overflow := Some blocks\<rparr>))"

definition checkOverflowDemote :: "ms \<Rightarrow> ms option" where
  "checkOverflowDemote s =
     Option.bind (overflow s) (\<lambda>blocks.
       let unique = collect_unique True blocks [0]
       in if length unique > 256 then Some s
          else Some (s\<lparr>overflow := None, sec_type := FLAT,
                       flat := Some \<lparr>palette = unique, indices = flat_indices unique blocks,
                                     pal_size = length unique\<rparr>\<rparr>))"

text \<open>\<open>setBlock\<close> calls itself after a promotion.\<close>

partial_function (option) setBlock :: "nat \<Rightarrow> u16 \<Rightarrow> ms \<Rightarrow> ms option" where
  "setBlock li bid s =
     (case sec_type s of
        AIR \<Rightarrow>
          if bid = 0 then Some s
          else Option.bind (writeBitpacked li 1 4 (replicate (SEC_VOL * 4 div 8 + 1) 0)) (\<lambda>ind.
                 Some (s\<lparr>sec_type := BITPACK4,
                         flat := Some \<lparr>palette = [0, bid], indices = ind, pal_size = 2\<rparr>\<rparr>))
      | OVERFLOW \<Rightarrow>
          Option.bind (overflow s) (\<lambda>blks.
          Option.bind (nth_opt blks li) (\<lambda>old.
            let s' = s\<lparr>overflow := Some (blks[li := bid])\<rparr>
            in if old \<noteq> bid then checkOverflowDemote s' else Some s'))
      | ty \<Rightarrow>
          Option.bind (flat s) (\<lambda>f.
            let bpi = (if ty = BITPACK4 then 4 else 8);
                max_pal = (if ty = BITPACK4 then 16 else 256)
            in (case index_of bid (take (pal_size f) (palette f)) of
                  Some pal_idx \<Rightarrow>
                    Option.bind (writeBitpacked li (of_nat pal_idx) bpi (indices f)) (\<lambda>ind.
                      Some (s\<lparr>flat := Some (f\<lparr>indices := ind\<rparr>)\<rparr>))
                | None \<Rightarrow>
                    if pal_size f \<ge> max_pal
                    then Option.bind (promoteToFlatOrOverflow bid s) (\<lambda>s'. setBlock li bid s')
                    else Option.bind (writeBitpacked li (of_nat (pal_size f)) bpi (indices f)) (\<lambda>ind.
                           Some (s\<lparr>flat := Some \<lparr>palette = palette f @ [bid], indices = ind,
                                                 pal_size = pal_size f + 1\<rparr>\<rparr>)))))"

section \<open>Bulk write\<close>

fun write_all :: "nat \<Rightarrow> u16 list \<Rightarrow> nat \<Rightarrow> u16 list \<Rightarrow> u8 list \<Rightarrow> u8 list option" where
  "write_all li pal bpi [] ind = Some ind"
| "write_all li pal bpi (b # bs) ind =
     Option.bind (writeBitpacked li (of_nat (pal_index pal b)) bpi ind) (write_all (Suc li) pal bpi bs)"

definition fromBlocks :: "u16 list \<Rightarrow> ms \<Rightarrow> ms option" where
  "fromBlocks blocks s =
     (let s = ms_clear s;
          unique = collect_unique True blocks [0]
      in if length unique = 1 then Some (s\<lparr>sec_type := AIR\<rparr>)
         else if length unique \<le> 16 then
           Option.bind (write_all 0 unique 4 blocks (replicate ((SEC_VOL * 4 + 7) div 8 + 1) 0)) (\<lambda>ind.
             Some (s\<lparr>sec_type := BITPACK4,
                     flat := Some \<lparr>palette = unique, indices = ind, pal_size = length unique\<rparr>\<rparr>))
         else if length unique \<le> 256 then
           Some (s\<lparr>sec_type := FLAT,
                   flat := Some \<lparr>palette = unique, indices = flat_indices unique blocks,
                                 pal_size = length unique\<rparr>\<rparr>)
         else Some (s\<lparr>sec_type := OVERFLOW, overflow := Some blocks\<rparr>))"

section \<open>Meta and multiblock attributes\<close>

definition getMeta :: "ms \<Rightarrow> nat \<Rightarrow> u8 option" where "getMeta s li = sp_get li (meta s)"
definition setMeta :: "nat \<Rightarrow> u8 \<Rightarrow> ms \<Rightarrow> ms" where "setMeta li m s = s\<lparr>meta := sp_set li m (meta s)\<rparr>"
definition getMultiblock :: "ms \<Rightarrow> nat \<Rightarrow> u32 option" where "getMultiblock s li = sp_get li (mb s)"
definition setMultiblock :: "nat \<Rightarrow> u32 \<Rightarrow> ms \<Rightarrow> ms" where "setMultiblock li m s = s\<lparr>mb := sp_set li m (mb s)\<rparr>"

section \<open>Wire format\<close>

definition writeMeta :: "u8 list \<Rightarrow> u16 \<times> u8 \<Rightarrow> u8 list" where
  "writeMeta buf e = writeU8 (writeU16 buf (fst e)) (snd e)"

definition writeMb :: "u8 list \<Rightarrow> u16 \<times> u32 \<Rightarrow> u8 list" where
  "writeMb buf e = writeU32 (writeU16 buf (fst e)) (snd e)"

definition writeMetaMbToWire :: "ms \<Rightarrow> u8 list \<Rightarrow> u8 list" where
  "writeMetaMbToWire s buf =
     (let metas = sp_wire (meta s); mbs = sp_wire (mb s);
          buf = foldl writeMeta (writeU16 buf (of_nat (length metas))) metas
      in foldl writeMb (writeU16 buf (of_nat (length mbs))) mbs)"

text \<open>The palette of an overflow section: no limit, and the search skips entry 0 (air).\<close>

fun collect_palette :: "u16 list \<Rightarrow> u16 list \<Rightarrow> u16 list" where
  "collect_palette [] pal = pal"
| "collect_palette (b # bs) pal =
     (if b = 0 then collect_palette bs pal
      else if b \<in> set (tl pal) then collect_palette bs pal
      else collect_palette bs (pal @ [b]))"

definition overflow_index :: "u16 list \<Rightarrow> u16 \<Rightarrow> u16" where
  "overflow_index pal bid =
     (if bid = 0 then 0
      else (case index_of bid (tl pal) of None \<Rightarrow> 0 | Some j \<Rightarrow> of_nat (Suc j)))"

text \<open>\<open>while (tmp > 0) { ++bpi; tmp >>= 1; }\<close>\<close>

fun bit_width :: "nat \<Rightarrow> nat" where
  "bit_width n = (if n = 0 then 0 else Suc (bit_width (n div 2)))"

declare bit_width.simps [simp del]

definition write_palette :: "u8 list \<Rightarrow> u16 list \<Rightarrow> u8 list" where
  "write_palette buf pal = foldl writeU16 (writeU16 buf (of_nat (length pal))) pal"

definition encodeToWire :: "ms \<Rightarrow> u8 list \<Rightarrow> u8 list option" where
  "encodeToWire s buf =
     (case sec_type s of
        AIR \<Rightarrow> Some (writeMetaMbToWire s (writeU8 (writeU16 (writeU16 buf 1) 0) 0))
      | OVERFLOW \<Rightarrow>
          Option.bind (overflow s) (\<lambda>blks.
            let pal = collect_palette blks [0];
                bpi_val = (if length pal > 1 then bit_width (length pal - 1) else 0);
                buf = writeU8 (write_palette buf pal) (of_nat bpi_val);
                buf = (if bpi_val > 0 then buf @ pack_indices bpi_val (map (overflow_index pal) blks) else buf)
            in Some (writeMetaMbToWire s buf))
      | ty \<Rightarrow>
          Option.bind (flat s) (\<lambda>f.
            let bpi = (if ty = BITPACK4 then 4 else 8);
                wire_bytes = (if ty = BITPACK4 then (SEC_VOL * 4 + 7) div 8 else SEC_VOL);
                buf = writeU8 (write_palette buf (take (pal_size f) (palette f))) bpi
            in if pal_size f \<le> length (palette f) \<and> wire_bytes \<le> length (indices f)
               then Some (writeMetaMbToWire s (buf @ take wire_bytes (indices f)))
               else None))"

definition readMeta :: "reader \<Rightarrow> ((u16 \<times> u8) \<times> reader) option" where
  "readMeta r = Option.bind (readU16 r) (\<lambda>(li, r). Option.bind (readU8 r) (\<lambda>(m, r). Some ((li, m), r)))"

definition readMb :: "reader \<Rightarrow> ((u16 \<times> u32) \<times> reader) option" where
  "readMb r = Option.bind (readU16 r) (\<lambda>(li, r). Option.bind (readU32 r) (\<lambda>(m, r). Some ((li, m), r)))"

text \<open>The loop of the overflow branch: one index of \<open>bpi\<close> bits per block.\<close>

fun read_overflow :: "nat \<Rightarrow> nat \<Rightarrow> u16 list \<Rightarrow> bit_reader \<Rightarrow> u16 list option" where
  "read_overflow 0 bpi pal br = Some []"
| "read_overflow (Suc n) bpi pal br =
     Option.bind (br_read bpi br) (\<lambda>(idx, br').
       if unat idx \<ge> length pal then None
       else Option.bind (read_overflow n bpi pal br') (\<lambda>rest. Some (pal ! unat idx # rest)))"

text \<open>The block part of \<open>fromWire\<close>, after the palette and the index width were read. \<open>None\<close> is the
  returned \<open>false\<close>; the callers discard the section then.\<close>

definition read_blocks :: "u16 list \<Rightarrow> u8 \<Rightarrow> reader \<Rightarrow> (ms \<times> reader) option" where
  "read_blocks pal bpi r =
     (let packed = (SEC_VOL * 4 + 7) div 8 in
      if length pal \<le> 16 \<and> bpi = 4 then
        (if rpos r + packed > length (rdata r) then None
         else Some (ms_new\<lparr>sec_type := BITPACK4,
                flat := Some \<lparr>palette = pal, indices = take packed (drop (rpos r) (rdata r)) @ [0],
                              pal_size = length pal\<rparr>\<rparr>, r\<lparr>rpos := rpos r + packed\<rparr>))
      else if length pal \<le> 256 \<and> bpi = 8 then
        (if rpos r + SEC_VOL > length (rdata r) then None
         else Some (ms_new\<lparr>sec_type := FLAT,
                flat := Some \<lparr>palette = pal, indices = take SEC_VOL (drop (rpos r) (rdata r)) @ [0],
                              pal_size = length pal\<rparr>\<rparr>, r\<lparr>rpos := rpos r + SEC_VOL\<rparr>))
      else if bpi = 0 then
        Some (ms_new\<lparr>sec_type := BITPACK4,
                flat := Some \<lparr>palette = pal, indices = replicate (packed + 1) 0,
                              pal_size = length pal\<rparr>\<rparr>, r)
      else
        let total_bytes = (SEC_VOL * unat bpi + 7) div 8
        in if rpos r + total_bytes > length (rdata r) then None
           else Option.bind (read_overflow SEC_VOL (unat bpi) pal \<lparr>brdata = drop (rpos r) (rdata r), bit_pos = 0\<rparr>)
                  (\<lambda>blks. Some (ms_new\<lparr>sec_type := OVERFLOW, overflow := Some blks\<rparr>,
                             r\<lparr>rpos := rpos r + total_bytes\<rparr>)))"

definition fromWire :: "reader \<Rightarrow> (ms \<times> reader) option" where
  "fromWire r =
     Option.bind (readU16 r) (\<lambda>(psz, r).
     if psz = 0 then None else
     Option.bind (read_many readU16 (unat psz) r) (\<lambda>(pal, r).
     Option.bind (readU8 r) (\<lambda>(bpi, r).
     if psz = 1 \<and> pal ! 0 = 0 \<and> bpi = 0 then
       Option.bind (readU16 r) (\<lambda>(mc, r).
       Option.bind (reader_skip (unat mc * 3) r) (\<lambda>r.
       Option.bind (readU16 r) (\<lambda>(mbc, r).
       Option.bind (reader_skip (unat mbc * 6) r) (\<lambda>r. Some (ms_new, r)))))
     else
       Option.bind (read_blocks pal bpi r) (\<lambda>(s, r).
       Option.bind (readU16 r) (\<lambda>(mc, r).
       Option.bind (read_many readMeta (unat mc) r) (\<lambda>(wire_meta, r).
       Option.bind (readU16 r) (\<lambda>(mbc, r).
       Option.bind (read_many readMb (unat mbc) r) (\<lambda>(wire_mb, r).
         Some (s\<lparr>meta := sp_load wire_meta (meta s), mb := sp_load wire_mb (mb s)\<rparr>, r)))))))))"


section \<open>Packed indices\<close>

definition nibble :: "u8 list \<Rightarrow> nat \<Rightarrow> nat" where
  "nibble ind li = unat (drop_bit (4 * (li mod 2)) (ind ! (li div 2)) AND 0xF)"

lemma nat_and_7: "(n :: nat) AND 7 = n mod 8"
  using take_bit_eq_mask[of 3 n] take_bit_eq_mod[of 3 n] by (simp add: mask_eq_exp_minus_1)

lemma nat_drop_3: "drop_bit 3 (n :: nat) = n div 8"
  by (simp add: drop_bit_eq_div)

lemma mask_lits: "(0xF :: u8) = mask 4" "(0xF :: u32) = mask 4" "(0xFF :: u32) = mask 8"
  by (simp_all add: mask_eq_exp_minus_1)

lemma position_4: "li * 4 div 8 = li div (2 :: nat)" "li * 4 mod 8 = 4 * (li mod (2 :: nat))"
proof -
  have "li * 4 div (2 * 4) = li div (2 :: nat)" by (rule div_mult_mult2) simp
  then show "li * 4 div 8 = li div (2 :: nat)" by simp
  have "li * 4 mod (2 * 4) = li mod 2 * (4 :: nat)" by (rule mult_mod_left[symmetric])
  then show "li * 4 mod 8 = 4 * (li mod (2 :: nat))" by simp
qed

lemma unat_ucast_widen: "unat (ucast (w :: u8) :: u32) = unat w"
proof -
  have "unat w < 2 ^ 8" using unsigned_less[of w] by simp
  then show ?thesis by (simp add: unsigned_ucast_eq take_bit_nat_eq_self_iff)
qed

lemma read_index_4:
  assumes "length ind = 2049" "li < 4096"
  shows "read_index BITPACK4 ind li = Some (nibble ind li)"
proof -
  have "li div 2 < 2048" using assms(2) by (simp add: less_mult_imp_div_less)
  then have b: "nth_opt ind (li div 2) = Some (ind ! (li div 2))"
    "nth_opt ind (li div 2 + 1) = Some (ind ! (li div 2 + 1))"
    using assms(1) by simp_all
  let ?k = "4 * (li mod 2)"
  have "((drop_bit ?k (ucast (ind ! (li div 2))) OR push_bit (8 - ?k) (ucast (ind ! (li div 2 + 1)))) AND mask 4 :: u32)
      = ucast (drop_bit ?k (ind ! (li div 2)) AND mask 4 :: u8)" (is "?l = ?r")
  proof (rule bit_word_eqI)
    fix n :: nat
    have "?k = 0 \<or> ?k = 4" by auto
    then show "bit ?l n = bit ?r n" by (elim disjE) (auto simp: bit_simps)
  qed
  then show ?thesis
    unfolding read_index_def nibble_def nat_and_7 nat_drop_3 Let_def mask_lits
    by (simp only: position_4 b unat_ucast_widen Option.bind.simps simp_thms if_True)
qed

lemma read_index_8:
  assumes "length ind = 4097" "li < 4096"
  shows "read_index FLAT ind li = Some (unat (ind ! li))"
proof -
  have b: "nth_opt ind li = Some (ind ! li)" "nth_opt ind (li + 1) = Some (ind ! (li + 1))"
    using assms by simp_all
  have "((ucast (ind ! li) OR push_bit 8 (ucast (ind ! (li + 1)))) AND mask 8 :: u32) = ucast (ind ! li)"
    by (rule bit_word_eqI) (auto simp: bit_simps dest: bit_imp_le_length)
  then show ?thesis
    unfolding read_index_def nat_and_7 nat_drop_3 Let_def mask_lits using b
    by (simp add: unat_ucast_widen)
qed

lemma writeBitpacked_8:
  assumes "length ind = 4097" "li < 4096"
  shows "writeBitpacked li idx 8 ind = Some (ind[li := ucast idx])"
proof -
  have m: "push_bit 8 1 - 1 = (mask 8 :: u32)" by (simp add: mask_eq_exp_minus_1)
  have "(ucast (((ucast (ind ! li) :: u32) AND NOT (mask 8)) OR (ucast idx AND mask 8)) :: u8) = ucast idx"
    by (rule bit_word_eqI) (auto simp: bit_simps)
  then show ?thesis
    unfolding writeBitpacked_def nat_and_7 nat_drop_3 Let_def m using assms by simp
qed

lemma packed_byte_bits:
  assumes "k = 0 \<or> k = 4" "n < 8"
  shows "bit (ucast (((ucast b :: u32) AND NOT (push_bit k (mask 4))) OR (push_bit k (ucast (i :: u16)) AND push_bit k (mask 4))) :: u8) n
    \<longleftrightarrow> (if k \<le> n \<and> n < k + 4 then bit i (n - k) else bit (b :: u8) n)"
  using assms by (elim disjE) (auto simp: bit_simps)

lemma writeBitpacked_4:
  assumes "length ind = 2049" "li < 4096"
  obtains ind' where "writeBitpacked li idx 4 ind = Some ind'" "length ind' = 2049"
    "\<And>lj. lj < 4096 \<Longrightarrow> nibble ind' lj = (if lj = li then unat (idx AND 0xF) else nibble ind lj)"
proof -
  let ?k = "4 * (li mod 2)" and ?b = "ind ! (li div 2)"
  define b' where "b' = (ucast (((ucast ?b :: u32) AND NOT (push_bit ?k (mask 4))) OR
    (push_bit ?k (ucast idx) AND push_bit ?k (mask 4))) :: u8)"
  have m: "push_bit 4 1 - 1 = (mask 4 :: u32)" by (simp add: mask_eq_exp_minus_1)
  have lt: "li div 2 < 2048" using assms(2) by (simp add: less_mult_imp_div_less)
  have k7: "\<not> 4 * (li mod 2) + 4 > 8" by (simp add: not_less) linarith?
  have "writeBitpacked li idx 4 ind = Some (ind[li div 2 := b'])"
    unfolding writeBitpacked_def nat_and_7 nat_drop_3 Let_def m position_4 b'_def
    using assms lt k7 by simp
  moreover have "nibble (ind[li div 2 := b']) lj = (if lj = li then unat (idx AND 0xF) else nibble ind lj)"
    if "lj < 4096" for lj
  proof (cases "lj div 2 = li div 2")
    case False
    then have "lj \<noteq> li" by auto
    then show ?thesis using False by (simp add: nibble_def)
  next
    case True
    have k: "?k = 0 \<or> ?k = 4" by auto
    have m16: "(0xF :: u16) = mask 4" by (simp add: mask_eq_exp_minus_1)
    have nb: "nibble (ind[li div 2 := b']) lj = unat (drop_bit (4 * (lj mod 2)) b' AND mask 4)"
      using True lt assms(1) by (simp add: nibble_def mask_lits)
    have bits: "bit b' n \<longleftrightarrow> (if ?k \<le> n \<and> n < ?k + 4 then bit idx (n - ?k) else bit ?b n)" if "n < 8" for n
      unfolding b'_def by (rule packed_byte_bits[OF k that])
    show ?thesis
    proof (cases "lj = li")
      case same: True
      have "drop_bit ?k b' AND mask 4 = ucast (idx AND mask 4)" (is "?l = ?r")
      proof (rule bit_word_eqI)
        fix n :: nat assume "n < LENGTH(8)"
        show "bit ?l n = bit ?r n"
          using k bits[of "?k + n"] by (auto simp: bit_simps)
      qed
      moreover have "unat (ucast (idx AND mask 4) :: u8) = unat (idx AND mask 4)"
      proof -
        have "idx AND mask 4 = take_bit 4 idx" by (simp add: take_bit_eq_mask)
        then have "unat (idx AND mask 4) < 2 ^ 4" using take_bit_nat_less_exp[of 4 "unat idx"] by (simp add: unsigned_take_bit_eq)
        then show ?thesis by (simp add: unsigned_ucast_eq take_bit_nat_eq_self_iff)
      qed
      ultimately show ?thesis using same nb by (simp add: m16)
    next
      case other: False
      then have par: "lj mod 2 \<noteq> li mod 2" using True by (metis div_mult_mod_eq)
      have "drop_bit (4 * (lj mod 2)) b' AND mask 4 = drop_bit (4 * (lj mod 2)) ?b AND mask 4" (is "?l = ?r")
      proof (rule bit_word_eqI)
        fix n :: nat assume "n < LENGTH(8)"
        have "(lj mod 2 = 0 \<and> li mod 2 = 1) \<or> (lj mod 2 = 1 \<and> li mod 2 = 0)" using par by auto
        then show "bit ?l n = bit ?r n"
          using bits[of "4 * (lj mod 2) + n"] bits[of "4 + n"] bits[of n]
          by (elim disjE conjE) (auto simp: bit_simps dest: bit_imp_le_length)
      qed
      then show ?thesis using nb other True by (simp add: nibble_def mask_lits)
    qed
  qed
  ultimately show thesis using that assms(1) by simp
qed

end
