(* ===== verification/SectionBlocks.thy ===== *)
theory SectionBlocks
  imports MutableSection
begin

text \<open>
  What \<open>MutableSection\<close> promises of its blocks: on a well-formed section \<open>getBlock\<close> never leaves its
  arrays, \<open>setBlock\<close> changes exactly the addressed block whatever representation it starts from and
  ends in (with the one exception stated here), and \<open>fromBlocks\<close> stores what it is given. The
  abstraction is the function \<open>blk\<close> from local index to block id.
\<close>

section \<open>Well-formed sections and the blocks they hold\<close>

definition index_at :: "section_type \<Rightarrow> u8 list \<Rightarrow> nat \<Rightarrow> nat" where
  "index_at ty ind li = (if ty = BITPACK4 then nibble ind li else unat (ind ! li))"

definition pal_cap :: "section_type \<Rightarrow> nat" where
  "pal_cap ty = (if ty = BITPACK4 then 16 else 256)"

definition flat_ok :: "section_type \<Rightarrow> flat_data \<Rightarrow> bool" where
  "flat_ok ty f \<longleftrightarrow>
     pal_size f = length (palette f) \<and> length (palette f) \<le> pal_cap ty \<and>
     length (indices f) = (if ty = BITPACK4 then 2049 else 4097) \<and>
     (\<forall>li < 4096. index_at ty (indices f) li < length (palette f))"

definition ms_wf :: "ms \<Rightarrow> bool" where
  "ms_wf s \<longleftrightarrow>
     (case sec_type s of
        AIR \<Rightarrow> True
      | OVERFLOW \<Rightarrow> (case overflow s of None \<Rightarrow> False | Some blks \<Rightarrow> length blks = 4096)
      | ty \<Rightarrow> (case flat s of None \<Rightarrow> False | Some f \<Rightarrow> flat_ok ty f))"

text \<open>An overflow section that the code leaves behind has more than 256 kinds (counting air).\<close>

definition many_kinds :: "ms \<Rightarrow> bool" where
  "many_kinds s \<longleftrightarrow>
     (sec_type s = OVERFLOW \<longrightarrow> 256 < card (insert 0 (set (the (overflow s)))))"

definition ms_ok :: "ms \<Rightarrow> bool" where
  "ms_ok s \<longleftrightarrow> ms_wf s \<and> many_kinds s \<and> sp_ok (meta s) \<and> sp_ok (mb s)"

definition blk :: "ms \<Rightarrow> nat \<Rightarrow> u16" where
  "blk s li =
     (case sec_type s of
        AIR \<Rightarrow> 0
      | OVERFLOW \<Rightarrow> the (overflow s) ! li
      | ty \<Rightarrow> palette (the (flat s)) ! index_at ty (indices (the (flat s))) li)"

lemma read_index_flat:
  assumes "flat_ok ty f" "ty = BITPACK4 \<or> ty = FLAT" "li < 4096"
  shows "read_index ty (indices f) li = Some (index_at ty (indices f) li)"
  using assms read_index_4[of "indices f" li] read_index_8[of "indices f" li]
  by (auto simp: flat_ok_def index_at_def)

lemma getBlock_blk:
  assumes "ms_wf s" "li < 4096"
  shows "getBlock s li = Some (blk s li)"
  using assms read_index_flat[of "sec_type s" "the (flat s)" li]
  by (cases "sec_type s") (auto simp: ms_wf_def getBlock_def blk_def flat_ok_def split: option.splits)

lemma write_index:
  assumes len: "length ind = (if ty = BITPACK4 then 2049 else 4097)" and ty: "ty = BITPACK4 \<or> ty = FLAT"
    and li: "li < 4096" and idx: "idx < pal_cap ty"
  obtains ind' where "writeBitpacked li (of_nat idx) (if ty = BITPACK4 then 4 else 8) ind = Some ind'"
    "length ind' = length ind"
    "\<And>lj. lj < 4096 \<Longrightarrow> index_at ty ind' lj = (if lj = li then idx else index_at ty ind lj)"
proof (cases "ty = BITPACK4")
  case True
  obtain ind' where *: "writeBitpacked li (of_nat idx) 4 ind = Some ind'" "length ind' = 2049"
    "\<And>lj. lj < 4096 \<Longrightarrow> nibble ind' lj = (if lj = li then unat (of_nat idx AND 0xF :: u16) else nibble ind lj)"
    using writeBitpacked_4[of ind li "of_nat idx"] len li True by auto
  have m: "(0xF :: u16) = mask 4" by (simp add: mask_eq_exp_minus_1)
  have "(of_nat idx AND 0xF :: u16) = take_bit 4 (of_nat idx)" by (simp add: m take_bit_eq_mask)
  then have "unat (of_nat idx AND 0xF :: u16) = idx"
    using idx True by (simp add: unsigned_take_bit_eq pal_cap_def unat_of_nat take_bit_nat_eq_self_iff)
  then show thesis using that * len True by (simp add: index_at_def)
next
  case False
  then have "ty = FLAT" using ty by simp
  have "writeBitpacked li (of_nat idx) 8 ind = Some (ind[li := ucast (of_nat idx :: u16)])"
    using writeBitpacked_8[of ind li] len li False by simp
  moreover have "unat (ucast (of_nat idx :: u16) :: u8) = idx"
    using idx False by (simp add: unsigned_ucast_eq unat_of_nat take_bit_nat_eq_self_iff pal_cap_def)
  ultimately show thesis
    using that[of "ind[li := ucast (of_nat idx :: u16)]"] len li False
    by (simp add: index_at_def nth_list_update)
qed

section \<open>Palettes\<close>

definition wanted :: "bool \<Rightarrow> u16 list \<Rightarrow> u16 set" where
  "wanted skip bs = {b \<in> set bs. \<not> (skip \<and> b = 0)}"

lemma wanted_simps [simp]:
  "wanted skip [] = {}"
  "wanted skip (b # bs) = (if skip \<and> b = 0 then wanted skip bs else insert b (wanted skip bs))"
  by (auto simp: wanted_def)

lemma collect_unique_invariant:
  assumes "distinct u" "length u \<le> 256"
  shows "let r = collect_unique skip bs u in
    distinct r \<and> set u \<subseteq> set r \<and> set r \<subseteq> set u \<union> wanted skip bs \<and> length r \<le> 257 \<and>
    (length r \<le> 256 \<longrightarrow> wanted skip bs \<subseteq> set r)"
  using assms
proof (induction skip bs u rule: collect_unique.induct)
  case (2 skip b bs u)
  show ?case
  proof (cases "(skip \<and> b = 0) \<or> b \<in> set u")
    case True
    then have eq: "collect_unique skip (b # bs) u = collect_unique skip bs u" by auto
    show ?thesis
    proof (cases "skip \<and> b = 0")
      case True
      then show ?thesis using "2.IH"(1)[OF True] "2.prems" unfolding eq Let_def by simp
    next
      case False
      then have "b \<in> set u" using \<open>(skip \<and> b = 0) \<or> b \<in> set u\<close> by blast
      then show ?thesis
        using "2.IH"(2)[OF False] "2.prems" False unfolding eq Let_def by auto
    qed
  next
    case False
    then have k: "\<not> (skip \<and> b = 0)" "b \<notin> set u" by auto
    show ?thesis
    proof (cases "length (u @ [b]) > 256")
      case True
      then have eq: "collect_unique skip (b # bs) u = u @ [b]"
        using k by (auto simp del: length_append)
      show ?thesis using True k "2.prems" unfolding eq Let_def by auto
    next
      case len: False
      then have eq: "collect_unique skip (b # bs) u = collect_unique skip bs (u @ [b])"
        using k by (auto simp del: length_append)
      have "distinct (u @ [b])" "length (u @ [b]) \<le> 256" using k "2.prems" len by auto
      from "2.IH"(3)[OF k len this] show ?thesis using k unfolding eq Let_def by auto
    qed
  qed
qed simp

lemma collect_unique_props:
  assumes "distinct u" "length u \<le> 256"
  shows "distinct (collect_unique skip bs u)"
    and "set u \<subseteq> set (collect_unique skip bs u)"
    and "set (collect_unique skip bs u) \<subseteq> set u \<union> wanted skip bs"
    and "length (collect_unique skip bs u) \<le> 256 \<Longrightarrow>
      set (collect_unique skip bs u) = set u \<union> wanted skip bs"
    and "length (collect_unique skip bs u) \<le> 257"
  using collect_unique_invariant[OF assms, of skip bs] unfolding Let_def by blast+

lemma collect_unique_kinds:
  assumes "length (collect_unique skip bs [0]) > 256"
  shows "256 < card (insert 0 (set bs))"
proof -
  let ?r = "collect_unique skip bs [0]"
  have "set ?r \<subseteq> insert 0 (set bs)"
    using collect_unique_props(3)[of "[0]" skip bs] by (auto simp: wanted_def)
  then have "card (set ?r) \<le> card (insert 0 (set bs))" by (intro card_mono) auto
  moreover have "card (set ?r) = length ?r"
    by (rule distinct_card) (simp add: collect_unique_props(1))
  ultimately show ?thesis using assms by simp
qed

lemma collect_unique_hd: "u \<noteq> [] \<Longrightarrow> collect_unique skip bs u \<noteq> [] \<and> hd (collect_unique skip bs u) = hd u"
  by (induction skip bs u rule: collect_unique.induct) auto

lemma pal_index_mem: "b \<in> set pal \<Longrightarrow> pal_index pal b < length pal \<and> pal ! pal_index pal b = b"
  by (erule index_of_obtain) (simp add: pal_index_def)

lemma flat_indices_at:
  assumes "length blocks = 4096" "li < 4096" "blocks ! li \<in> set pal" "length pal \<le> 256"
  shows "index_at FLAT (flat_indices pal blocks) li = pal_index pal (blocks ! li)"
proof -
  have "flat_indices pal blocks ! li = of_nat (pal_index pal (blocks ! li))"
    using assms by (simp add: flat_indices_def nth_append)
  moreover have "pal_index pal (blocks ! li) < 256"
    using pal_index_mem[OF assms(3)] assms(4) by linarith
  ultimately show ?thesis by (simp add: index_at_def unat_of_nat)
qed

text \<open>A byte-per-block section built over a palette that covers the blocks holds those blocks.\<close>

lemma flat_section:
  assumes "length blocks = 4096" "set blocks \<subseteq> set pal" "length pal \<le> 256"
  defines "f \<equiv> \<lparr>palette = pal, indices = flat_indices pal blocks, pal_size = length pal\<rparr>"
  shows "flat_ok FLAT f" and "li < 4096 \<Longrightarrow> pal ! index_at FLAT (indices f) li = blocks ! li"
proof -
  have at: "index_at FLAT (indices f) li = pal_index pal (blocks ! li) \<and> blocks ! li \<in> set pal"
    if "li < 4096" for li
  proof -
    have "blocks ! li \<in> set pal" using assms(1,2) that nth_mem[of li blocks] by auto
    then show ?thesis using flat_indices_at[OF assms(1) that _ assms(3)] by (simp add: f_def)
  qed
  show "flat_ok FLAT f"
    using assms(1,3) at pal_index_mem[of _ pal]
    by (auto simp: flat_ok_def f_def pal_cap_def flat_indices_def)
  show "pal ! index_at FLAT (indices f) li = blocks ! li" if "li < 4096"
    using at[OF that] pal_index_mem[of "blocks ! li" pal] by simp
qed

lemma ms_wf_flat:
  assumes "flat_ok ty f" "ty = BITPACK4 \<or> ty = FLAT" "sec_type s = ty" "flat s = Some f"
  shows "ms_wf s" "blk s li = palette f ! index_at ty (indices f) li"
  using assms by (auto simp: ms_wf_def blk_def)

section \<open>Promotion and demotion\<close>

definition blocks_of :: "ms \<Rightarrow> u16 list" where
  "blocks_of s = map (blk s) [0..<SEC_VOL]"

lemma blocks_of_simps [simp]: "length (blocks_of s) = 4096" "li < 4096 \<Longrightarrow> blocks_of s ! li = blk s li"
  unfolding blocks_of_def SEC_VOL_eq by (simp_all only: length_map length_upt nth_map nth_upt diff_zero add_0)

lemma those_map_Some: "(\<And>x. x \<in> set xs \<Longrightarrow> f x = Some (g x)) \<Longrightarrow> those (map f xs) = Some (map g xs)"
  by (induction xs) auto

lemma those_blocks: "ms_wf s \<Longrightarrow> those (map (getBlock s) [0..<SEC_VOL]) = Some (blocks_of s)"
  unfolding blocks_of_def by (rule those_map_Some) (simp add: getBlock_blk)

text \<open>The one situation in which a promotion loses blocks: a byte-per-block section without any air,
  whose blocks and the new id are exactly 256 kinds; with air the rebuilt palette has 257 entries.\<close>

definition promotion_safe :: "ms \<Rightarrow> u16 \<Rightarrow> bool" where
  "promotion_safe s bid \<longleftrightarrow>
     \<not> (sec_type s = FLAT \<and> 0 \<notin> set (bid # blocks_of s) \<and> card (set (bid # blocks_of s)) = 256)"

definition same_attrs :: "ms \<Rightarrow> ms \<Rightarrow> bool" where
  "same_attrs s t \<longleftrightarrow> meta s = meta t \<and> mb s = mb t"

lemma nibble_lt_16: "nibble ind li < 16"
proof -
  have "drop_bit k b AND 0xF = take_bit 4 (drop_bit k b)" for k and b :: u8
    by (simp add: take_bit_eq_mask mask_lits)
  then show ?thesis
    using take_bit_nat_less_exp[of 4] by (simp add: nibble_def unsigned_take_bit_eq)
qed

lemma promote_correct:
  assumes wf: "ms_wf s" and ty: "sec_type s = BITPACK4 \<or> sec_type s = FLAT" and safe: "promotion_safe s bid"
  obtains s' where "promoteToFlatOrOverflow bid s = Some s'" "ms_wf s'" "same_attrs s' s"
    "\<And>li. li < 4096 \<Longrightarrow> blk s' li = blk s li"
    "sec_type s' = OVERFLOW \<or> (sec_type s' = FLAT \<and> bid \<in> set (palette (the (flat s'))))"
proof -
  let ?B = "blocks_of s"
  define u where "u = collect_unique False ?B [bid]"
  note props = collect_unique_props[of "[bid]" False ?B, folded u_def, simplified, unfolded wanted_def, simplified]
  show thesis
  proof (cases "length u \<le> 256")
    case True
    define pal where "pal = 0 # filter (\<lambda>x. x \<noteq> 0) u"
    have su: "set u = set (bid # ?B)" using props(4) True by auto
    have len: "length pal \<le> 256"
    proof (cases "0 \<in> set u")
      case True
      then have "length (filter (\<lambda>x. x \<noteq> 0) u) < length u"
        by (intro length_filter_less[of 0]) auto
      then show ?thesis using \<open>length u \<le> 256\<close> by (simp add: pal_def)
    next
      case False
      then have "filter (\<lambda>x. x \<noteq> 0) u = u" by (auto intro!: filter_True)
      moreover have "length u \<noteq> 256"
      proof
        assume l: "length u = 256"
        then have "card (set (bid # ?B)) = 256" using su distinct_card[OF props(1)] by simp
        then have "sec_type s = BITPACK4" using safe False su ty by (auto simp: promotion_safe_def)
        have "set ?B \<subseteq> set (palette (the (flat s)))"
          using wf \<open>sec_type s = BITPACK4\<close>
          by (auto simp: blocks_of_def blk_def ms_wf_def flat_ok_def simp del: upt_rec_numeral split: option.splits)
        then have "card (set ?B) \<le> card (set (palette (the (flat s))))" by (intro card_mono) auto
        also have "\<dots> \<le> length (palette (the (flat s)))" by (rule card_length)
        also have "\<dots> \<le> 16"
          using wf \<open>sec_type s = BITPACK4\<close> by (auto simp: ms_wf_def flat_ok_def pal_cap_def split: option.splits)
        finally have "card (set (bid # ?B)) \<le> 17" by (simp add: card_insert_if)
        then show False using \<open>card (set (bid # ?B)) = 256\<close> by simp
      qed
      ultimately show ?thesis using \<open>length u \<le> 256\<close> by (simp add: pal_def)
    qed
    have cover: "set ?B \<subseteq> set pal" using su by (auto simp: pal_def)
    let ?f = "\<lparr>palette = pal, indices = flat_indices pal ?B, pal_size = length pal\<rparr>"
    let ?s = "s\<lparr>sec_type := FLAT, flat := Some ?f\<rparr>"
    note fs = flat_section[of ?B pal, OF _ cover len, simplified]
    have "promoteToFlatOrOverflow bid s = Some ?s"
      using those_blocks[OF wf] True by (simp add: promoteToFlatOrOverflow_def u_def pal_def Let_def)
    moreover have "ms_wf ?s" using fs(1) by (simp add: ms_wf_def)
    moreover have "blk ?s li = blk s li" if "li < 4096" for li using fs(2)[OF that] that by (simp add: blk_def)
    moreover have "bid \<in> set pal" using su by (auto simp: pal_def)
    ultimately show thesis using that[of ?s] by (simp add: same_attrs_def)
  next
    case False
    let ?s = "s\<lparr>flat := None, sec_type := OVERFLOW, overflow := Some ?B\<rparr>"
    have "promoteToFlatOrOverflow bid s = Some ?s"
      using those_blocks[OF wf] False by (simp add: promoteToFlatOrOverflow_def u_def Let_def)
    moreover have "ms_wf ?s" by (simp add: ms_wf_def)
    moreover have "blk ?s li = blk s li" if "li < 4096" for li using that by (simp add: blk_def)
    ultimately show thesis using that[of ?s] by (simp add: same_attrs_def)
  qed
qed

lemma demote_correct:
  assumes "sec_type s = OVERFLOW" "overflow s = Some blks" "length blks = 4096"
  obtains s' where "checkOverflowDemote s = Some s'" "ms_wf s'" "same_attrs s' s" "many_kinds s'"
    "\<And>li. li < 4096 \<Longrightarrow> blk s' li = blks ! li"
proof -
  define u where "u = collect_unique True blks [0]"
  note props = collect_unique_props[of "[0]" True blks, folded u_def, simplified, unfolded wanted_def, simplified]
  show thesis
  proof (cases "length u > 256")
    case True
    have "many_kinds s"
      using collect_unique_kinds[of True blks] True assms(1,2) by (simp add: many_kinds_def u_def)
    then show thesis
      using that[of s] True assms by (simp add: checkOverflowDemote_def u_def ms_wf_def blk_def same_attrs_def Let_def)
  next
    case False
    then have cover: "set blks \<subseteq> set u" and len: "length u \<le> 256" using props(4) by auto
    let ?f = "\<lparr>palette = u, indices = flat_indices u blks, pal_size = length u\<rparr>"
    let ?s = "s\<lparr>overflow := None, sec_type := FLAT, flat := Some ?f\<rparr>"
    note fs = flat_section[OF assms(3) cover len]
    have "checkOverflowDemote s = Some ?s"
      using False assms by (simp add: checkOverflowDemote_def u_def Let_def)
    moreover have "ms_wf ?s" using fs(1) by (simp add: ms_wf_def)
    moreover have "blk ?s li = blks ! li" if "li < 4096" for li using fs(2)[OF that] by (simp add: blk_def)
    ultimately show thesis using that[of ?s] by (simp add: same_attrs_def many_kinds_def)
  qed
qed


section \<open>Setting a block\<close>

lemma setBlock_known:
  assumes "flat_ok ty f" "ty = BITPACK4 \<or> ty = FLAT" "sec_type s = ty" "flat s = Some f"
    and "index_of bid (palette f) = Some i" "li < 4096"
  obtains s' where "setBlock li bid s = Some s'" "ms_wf s'" "same_attrs s' s" "many_kinds s'"
    "\<And>lj. lj < 4096 \<Longrightarrow> blk s' lj = (if lj = li then bid else blk s lj)"
proof -
  have ps: "pal_size f = length (palette f)" and len: "length (indices f) = (if ty = BITPACK4 then 2049 else 4097)"
    and at: "\<And>lj. lj < 4096 \<Longrightarrow> index_at ty (indices f) lj < length (palette f)"
    and cap: "length (palette f) \<le> pal_cap ty"
    using assms(1) by (auto simp: flat_ok_def)
  have i: "i < length (palette f)" "palette f ! i = bid" using index_of_Some[OF assms(5)] by auto
  then have "i < pal_cap ty" using cap by simp
  from write_index[OF len assms(2,6) this] obtain ind' where ind':
    "writeBitpacked li (of_nat i) (if ty = BITPACK4 then 4 else 8) (indices f) = Some ind'"
    "length ind' = length (indices f)"
    "\<And>lj. lj < 4096 \<Longrightarrow> index_at ty ind' lj = (if lj = li then i else index_at ty (indices f) lj)"
    by blast
  let ?f = "f\<lparr>indices := ind'\<rparr>" and ?s = "s\<lparr>flat := Some (f\<lparr>indices := ind'\<rparr>)\<rparr>"
  have "setBlock li bid s = Some ?s"
    using assms(2-5) ps ind'(1) by (subst setBlock.simps) (auto simp: Let_def)
  moreover have ok: "flat_ok ty ?f" using ps len at cap ind' i by (auto simp: flat_ok_def)
  moreover have "blk ?s lj = (if lj = li then bid else blk s lj)" if "lj < 4096" for lj
    using ms_wf_flat(2)[OF ok assms(2), of ?s] ms_wf_flat(2)[OF assms(1-4)] assms(3) ind'(3)[OF that] i(2)
    by simp
  ultimately show thesis
    using that[of ?s] ms_wf_flat(1)[OF ok assms(2), of ?s] assms(2,3) by (auto simp: same_attrs_def many_kinds_def)
qed

lemma setBlock_append:
  assumes "flat_ok ty f" "ty = BITPACK4 \<or> ty = FLAT" "sec_type s = ty" "flat s = Some f"
    and "index_of bid (palette f) = None" "pal_size f < pal_cap ty" "li < 4096"
  obtains s' where "setBlock li bid s = Some s'" "ms_wf s'" "same_attrs s' s" "many_kinds s'"
    "\<And>lj. lj < 4096 \<Longrightarrow> blk s' lj = (if lj = li then bid else blk s lj)"
proof -
  have ps: "pal_size f = length (palette f)" and len: "length (indices f) = (if ty = BITPACK4 then 2049 else 4097)"
    and at: "\<And>lj. lj < 4096 \<Longrightarrow> index_at ty (indices f) lj < length (palette f)"
    using assms(1) by (auto simp: flat_ok_def)
  from write_index[OF len assms(2,7,6)] obtain ind' where ind':
    "writeBitpacked li (of_nat (pal_size f)) (if ty = BITPACK4 then 4 else 8) (indices f) = Some ind'"
    "length ind' = length (indices f)"
    "\<And>lj. lj < 4096 \<Longrightarrow> index_at ty ind' lj = (if lj = li then pal_size f else index_at ty (indices f) lj)"
    by blast
  let ?f = "\<lparr>palette = palette f @ [bid], indices = ind', pal_size = pal_size f + 1\<rparr>"
  let ?s = "s\<lparr>flat := Some ?f\<rparr>"
  have "setBlock li bid s = Some ?s"
    using assms(2-6) ps ind'(1) by (subst setBlock.simps) (auto simp: Let_def pal_cap_def)
  moreover have ok: "flat_ok ty ?f"
    using ps len at assms(6) ind' by (auto simp: flat_ok_def less_Suc_eq)
  moreover have "blk ?s lj = (if lj = li then bid else blk s lj)" if "lj < 4096" for lj
    using ms_wf_flat(2)[OF ok assms(2), of ?s] ms_wf_flat(2)[OF assms(1-4)] assms(3) ind'(3)[OF that]
      at[OF that] ps by (cases "lj = li") (simp_all add: nth_append)
  ultimately show thesis
    using that[of ?s] ms_wf_flat(1)[OF ok assms(2), of ?s] assms(2,3) by (auto simp: same_attrs_def many_kinds_def)
qed

lemma setBlock_overflow:
  assumes "ms_wf s" "sec_type s = OVERFLOW" "li < 4096" "blk s li \<noteq> bid \<or> many_kinds s"
  obtains s' where "setBlock li bid s = Some s'" "ms_wf s'" "same_attrs s' s" "many_kinds s'"
    "\<And>lj. lj < 4096 \<Longrightarrow> blk s' lj = (if lj = li then bid else blk s lj)"
proof -
  obtain blks where b: "overflow s = Some blks" "length blks = 4096"
    using assms by (auto simp: ms_wf_def split: option.splits)
  let ?s = "s\<lparr>overflow := Some (blks[li := bid])\<rparr>"
  have upd: "blks[li := bid] ! lj = (if lj = li then bid else blk s lj)" if "lj < 4096" for lj
    using that b assms(2) by (simp add: nth_list_update blk_def)
  obtain s' where s': "checkOverflowDemote ?s = Some s'" "ms_wf s'" "same_attrs s' ?s" "many_kinds s'"
    "\<And>lj. lj < 4096 \<Longrightarrow> blk s' lj = blks[li := bid] ! lj"
    using demote_correct[of ?s "blks[li := bid]"] assms(2) b by auto
  have "setBlock li bid s = (if blks ! li \<noteq> bid then checkOverflowDemote ?s else Some ?s)"
    using assms b by (subst setBlock.simps) (simp add: Let_def)
  moreover have "ms_wf ?s" "blk ?s lj = blks[li := bid] ! lj" for lj
    using assms(2) b by (simp_all add: ms_wf_def blk_def)
  ultimately show thesis
    using that[of s'] that[of s] s' upd assms b
    by (cases "blks ! li = bid") (simp_all add: same_attrs_def blk_def list_update_same_conv)
qed

lemma setBlock_air:
  assumes "sec_type s = AIR" "li < 4096"
  obtains s' where "setBlock li bid s = Some s'" "ms_wf s'" "same_attrs s' s" "many_kinds s'"
    "\<And>lj. lj < 4096 \<Longrightarrow> blk s' lj = (if lj = li then bid else blk s lj)"
proof (cases "bid = 0")
  case True
  then have "setBlock li bid s = Some s" using assms(1) by (subst setBlock.simps) simp
  then show thesis using that[of s] assms(1) True
    by (simp add: ms_wf_def blk_def same_attrs_def many_kinds_def)
next
  case False
  let ?z = "replicate 2049 (0 :: u8)"
  have zero: "index_at BITPACK4 ?z lj = 0" if "lj < 4096" for lj
    using that by (simp add: index_at_def nibble_def less_mult_imp_div_less)
  obtain ind' where ind': "writeBitpacked li (of_nat 1) 4 ?z = Some ind'" "length ind' = 2049"
    "\<And>lj. lj < 4096 \<Longrightarrow> index_at BITPACK4 ind' lj = (if lj = li then 1 else index_at BITPACK4 ?z lj)"
    using write_index[of ?z BITPACK4 li 1] assms(2) by (auto simp: pal_cap_def)
  let ?f = "\<lparr>palette = [0, bid], indices = ind', pal_size = 2\<rparr>"
  let ?s = "s\<lparr>sec_type := BITPACK4, flat := Some ?f\<rparr>"
  have "setBlock li bid s = Some ?s"
    using assms False ind'(1) by (subst setBlock.simps) simp
  moreover have ok: "flat_ok BITPACK4 ?f"
    using ind' zero by (auto simp: flat_ok_def pal_cap_def)
  moreover have "blk ?s lj = (if lj = li then bid else blk s lj)" if "lj < 4096" for lj
    using ms_wf_flat(2)[OF ok, of ?s] ind'(3)[OF that] zero[OF that] assms(1) by (simp add: blk_def)
  ultimately show thesis
    using that[of ?s] ms_wf_flat(1)[OF ok, of ?s] by (simp add: same_attrs_def many_kinds_def)
qed

lemma setBlock_blk:
  assumes wf: "ms_wf s" and many: "many_kinds s" and li: "li < 4096" and safe: "promotion_safe s bid"
  obtains s' where "setBlock li bid s = Some s'" "ms_wf s'" "same_attrs s' s" "many_kinds s'"
    "\<And>lj. lj < 4096 \<Longrightarrow> blk s' lj = (if lj = li then bid else blk s lj)"
proof -
  note res = that
  have flat_case: thesis if ty: "sec_type s = BITPACK4 \<or> sec_type s = FLAT"
  proof -
    obtain f where f: "flat s = Some f" "flat_ok (sec_type s) f"
      using wf ty by (auto simp: ms_wf_def split: option.splits)
    show thesis
    proof (cases "index_of bid (palette f)")
      case (Some i)
      show thesis by (rule setBlock_known[OF f(2) ty refl f(1) Some li]) (rule res)
    next
      case None
      show thesis
      proof (cases "pal_size f < pal_cap (sec_type s)")
        case True
        show thesis by (rule setBlock_append[OF f(2) ty refl f(1) None True li]) (rule res)
      next
        case full: False
        obtain s1 where s1: "promoteToFlatOrOverflow bid s = Some s1" "ms_wf s1" "same_attrs s1 s"
          "\<And>li. li < 4096 \<Longrightarrow> blk s1 li = blk s li"
          "sec_type s1 = OVERFLOW \<or> (sec_type s1 = FLAT \<and> bid \<in> set (palette (the (flat s1))))"
          by (rule promote_correct[OF wf ty safe]) (rule that)
        have step: "setBlock li bid s = setBlock li bid s1"
          using ty f full None s1(1) by (subst setBlock.simps) (auto simp: Let_def flat_ok_def pal_cap_def)
        have "\<exists>s'. setBlock li bid s1 = Some s' \<and> ms_wf s' \<and> same_attrs s' s1 \<and> many_kinds s' \<and>
            (\<forall>lj < 4096. blk s' lj = (if lj = li then bid else blk s1 lj))"
        proof (cases "sec_type s1 = OVERFLOW")
          case True
          have "blk s li \<in> set (palette f)"
            using ms_wf_flat(2)[OF f(2) ty refl f(1)] f(2) li by (simp add: flat_ok_def)
          then have "blk s1 li \<noteq> bid" using None s1(4)[OF li] by (auto simp: index_of_None)
          then have "blk s1 li \<noteq> bid \<or> many_kinds s1" ..
          then show ?thesis by (rule setBlock_overflow[OF s1(2) True li]) blast
        next
          case False
          then have ty1: "sec_type s1 = FLAT" and mem: "bid \<in> set (palette (the (flat s1)))" using s1(5) by auto
          obtain f1 where f1: "flat s1 = Some f1" "flat_ok FLAT f1"
            using s1(2) ty1 by (auto simp: ms_wf_def split: option.splits)
          obtain i where i: "index_of bid (palette f1) = Some i"
            using mem f1(1) by (auto elim: index_of_obtain)
          show ?thesis by (rule setBlock_known[OF f1(2) _ ty1 f1(1) i li]) auto
        qed
        then show thesis using res step s1(3,4) by (auto simp: same_attrs_def)
      qed
    qed
  qed
  show thesis
  proof (cases "sec_type s")
    case AIR
    show thesis by (rule setBlock_air[OF AIR li]) (rule res)
  next
    case OVERFLOW
    have "blk s li \<noteq> bid \<or> many_kinds s" using many ..
    then show thesis by (rule setBlock_overflow[OF wf OVERFLOW li]) (rule res)
  qed (rule flat_case, simp)+
qed


text \<open>On a well-formed section \<open>setBlock\<close> succeeds (its recursion after a promotion ends, no array
  is left, no pointer is null), writes the addressed block, changes no other block, meta or
  multiblock entry, and keeps the section well formed, whichever of the four representations it
  starts in and is promoted or demoted to; the only case excluded is the promotion described at
  \<open>promotion_safe\<close>.\<close>

theorem setBlock_correct:
  assumes "ms_ok s" "li < 4096" "promotion_safe s bid"
  shows "\<exists>s'. setBlock li bid s = Some s' \<and> ms_ok s' \<and> meta s' = meta s \<and> mb s' = mb s \<and>
    (\<forall>lj < 4096. getBlock s' lj = (if lj = li then Some bid else getBlock s lj))"
proof -
  have s: "ms_wf s" "many_kinds s" "sp_ok (meta s)" "sp_ok (mb s)" using assms(1) by (auto simp: ms_ok_def)
  show ?thesis
    by (rule setBlock_blk[OF s(1,2) assms(2,3)]) (use s in \<open>auto simp: same_attrs_def getBlock_blk ms_ok_def\<close>)
qed

lemma ms_new_ok: "ms_ok ms_new"
  by (simp add: ms_ok_def ms_wf_def ms_new_def many_kinds_def sp_empty_map)

theorem setBlock_correct_witness:
  "\<exists>s'. setBlock 17 5 ms_new = Some s' \<and> ms_ok s' \<and> meta s' = meta ms_new \<and> mb s' = mb ms_new \<and>
    (\<forall>lj < 4096. getBlock s' lj = (if lj = 17 then Some 5 else getBlock ms_new lj))"
  by (rule setBlock_correct[OF ms_new_ok]) (simp_all add: promotion_safe_def ms_new_def)

section \<open>Bulk write\<close>

lemma write_all_correct:
  assumes "length ind = 2049" "k + length bs = 4096" "set bs \<subseteq> set pal" "length pal \<le> 16"
  shows "\<exists>ind'. write_all k pal 4 bs ind = Some ind' \<and> length ind' = 2049 \<and>
    (\<forall>lj < 4096. nibble ind' lj = (if k \<le> lj then pal_index pal (bs ! (lj - k)) else nibble ind lj))"
  using assms
proof (induction bs arbitrary: k ind)
  case (Cons b bs)
  have "pal_index pal b < 16" using pal_index_mem[of b pal] Cons.prems(3,4) by simp
  then obtain ind1 where ind1: "writeBitpacked k (of_nat (pal_index pal b)) 4 ind = Some ind1"
    "length ind1 = 2049"
    "\<And>lj. lj < 4096 \<Longrightarrow> index_at BITPACK4 ind1 lj = (if lj = k then pal_index pal b else index_at BITPACK4 ind lj)"
    using write_index[of ind BITPACK4 k "pal_index pal b"] Cons.prems(1,2) by (auto simp: pal_cap_def)
  obtain ind' where ind': "write_all (Suc k) pal 4 bs ind1 = Some ind'" "length ind' = 2049"
    "\<forall>lj < 4096. nibble ind' lj = (if Suc k \<le> lj then pal_index pal (bs ! (lj - Suc k)) else nibble ind1 lj)"
    using Cons.IH[of ind1 "Suc k"] Cons.prems ind1(2) by auto
  have "nibble ind' lj = (if k \<le> lj then pal_index pal ((b # bs) ! (lj - k)) else nibble ind lj)"
    if "lj < 4096" for lj
    using ind'(3) that ind1(3)[OF that]
    by (cases "lj = k") (auto simp: index_at_def nth_Cons' Suc_diff_le le_less_Suc_eq not_less_eq_eq)
  then show ?case using ind1(1) ind'(1,2) by auto
qed simp

text \<open>\<open>fromBlocks\<close> on any 4096 block ids gives a well-formed section that reads back exactly those
  ids and has no meta or multiblock entries, whatever the section held before; it chooses the
  representation by the number of kinds.\<close>

theorem fromBlocks_correct:
  assumes "length blocks = 4096"
  shows "\<exists>s'. fromBlocks blocks s = Some s' \<and> ms_ok s' \<and> meta s' = sp_empty \<and> mb s' = sp_empty \<and>
    (\<forall>li < 4096. getBlock s' li = Some (blocks ! li))"
proof -
  define u where "u = collect_unique True blocks [0]"
  note props = collect_unique_props[of "[0]" True blocks, folded u_def, simplified, unfolded wanted_def, simplified]
  note def = fromBlocks_def[of blocks s, folded u_def, unfolded Let_def]
  have fin: "\<exists>s'. fromBlocks blocks s = Some s' \<and> ms_ok s' \<and> meta s' = sp_empty \<and> mb s' = sp_empty \<and>
      (\<forall>li < 4096. getBlock s' li = Some (blocks ! li))"
    if "fromBlocks blocks s = Some t" "ms_wf t" "many_kinds t" "meta t = sp_empty" "mb t = sp_empty"
      "\<And>li. li < 4096 \<Longrightarrow> blk t li = blocks ! li" for t
    using that by (auto simp: getBlock_blk ms_ok_def sp_empty_map)
  show ?thesis
  proof (cases "length u \<le> 256")
    case True
    then have cover: "set blocks \<subseteq> set u" using props(4) by auto
    have mem: "blocks ! li \<in> set u" if "li < 4096" for li using cover assms that nth_mem[of li blocks] by auto
    consider "length u = 1" | "length u \<noteq> 1" "length u \<le> 16" | "16 < length u" by linarith
    then show ?thesis
    proof cases
      case 1
      then obtain x where "u = [x]" by (auto simp: length_Suc_conv)
      then have "set u = {0}" using props(2) by auto
      then have "blocks ! li = 0" if "li < 4096" for li using mem[OF that] by simp
      then show ?thesis using 1
        by (intro fin[of "ms_clear s\<lparr>sec_type := AIR\<rparr>"]) (simp_all add: def ms_wf_def blk_def ms_clear_def many_kinds_def)
    next
      case 2
      let ?z = "replicate 2049 (0 :: u8)"
      obtain ind where ind: "write_all 0 u 4 blocks ?z = Some ind" "length ind = 2049"
        "\<And>lj. lj < 4096 \<Longrightarrow> nibble ind lj = pal_index u (blocks ! lj)"
        using write_all_correct[of ?z 0 blocks u] assms cover 2 by auto
      let ?f = "\<lparr>palette = u, indices = ind, pal_size = length u\<rparr>"
      have ok: "flat_ok BITPACK4 ?f"
        using 2 ind pal_index_mem[OF mem] by (auto simp: flat_ok_def pal_cap_def index_at_def)
      then show ?thesis using 2 ind pal_index_mem[OF mem]
        by (intro fin[of "ms_clear s\<lparr>sec_type := BITPACK4, flat := Some ?f\<rparr>"])
          (simp_all add: def ms_wf_def blk_def ms_clear_def index_at_def many_kinds_def)
    next
      case 3
      let ?f = "\<lparr>palette = u, indices = flat_indices u blocks, pal_size = length u\<rparr>"
      note fs = flat_section[OF assms cover True]
      then show ?thesis using 3 True
        by (intro fin[of "ms_clear s\<lparr>sec_type := FLAT, flat := Some ?f\<rparr>"])
          (simp_all add: def ms_wf_def blk_def ms_clear_def many_kinds_def)
    qed
  next
    case False
    then show ?thesis using assms collect_unique_kinds[of True blocks]
      by (intro fin[of "ms_clear s\<lparr>sec_type := OVERFLOW, overflow := Some blocks\<rparr>"])
        (auto simp: def u_def ms_wf_def blk_def ms_clear_def many_kinds_def)
  qed
qed

theorem fromBlocks_correct_witness:
  "\<exists>s'. fromBlocks (replicate 4096 7) ms_new = Some s' \<and> ms_ok s' \<and> meta s' = sp_empty \<and> mb s' = sp_empty \<and>
    (\<forall>li < 4096. getBlock s' li = Some (replicate 4096 7 ! li))"
  by (rule fromBlocks_correct) simp


section \<open>The promotion that loses blocks\<close>

lemma index_of_distinct:
  assumes "distinct xs" "i < length xs"
  shows "index_of (xs ! i) xs = Some i"
proof -
  obtain j where "index_of (xs ! i) xs = Some j" "j < length xs" "xs ! j = xs ! i"
    using assms(2) nth_mem by (blast elim: index_of_obtain)
  then show ?thesis using assms nth_eq_iff_index_eq by metis
qed

text \<open>When a byte-per-block section holds no air and its blocks together with the new id are
  exactly 256 kinds, \<open>promoteToFlatOrOverflow\<close> builds a palette of 257 entries (air is added in
  front) and the cast of index 256 to \<open>uint8_t\<close> turns the blocks of the last kind into air.\<close>

theorem promote_loses_blocks:
  assumes wf: "ms_wf s" and ty: "sec_type s = FLAT"
    and no_air: "0 \<notin> set (bid # blocks_of s)" and kinds: "card (set (bid # blocks_of s)) = 256"
  shows "\<exists>s' lj. promoteToFlatOrOverflow bid s = Some s' \<and> lj < 4096 \<and>
    getBlock s lj \<noteq> Some 0 \<and> getBlock s' lj = Some 0"
proof -
  let ?B = "blocks_of s"
  define u where "u = collect_unique False ?B [bid]"
  note props = collect_unique_props[of "[bid]" False ?B, folded u_def, simplified, unfolded wanted_def, simplified]
  have sub: "set u \<subseteq> set (bid # ?B)" using props(3) by auto
  have len: "length u \<le> 256"
    using card_mono[OF _ sub] kinds distinct_card[OF props(1)] by simp
  then have su: "set u = set (bid # ?B)" using props(4) by auto
  then have len: "length u = 256" using kinds distinct_card[OF props(1)] by simp
  have hd: "hd u = bid" and ne: "u \<noteq> []" using collect_unique_hd[of "[bid]" False ?B] by (auto simp: u_def)
  define pal where "pal = 0 # u"
  have nz: "filter (\<lambda>x. x \<noteq> 0) u = u" using su no_air by (auto intro!: filter_True)
  let ?s = "s\<lparr>sec_type := FLAT, flat := Some \<lparr>palette = pal, indices = flat_indices pal ?B, pal_size = 257\<rparr>\<rparr>"
  have prom: "promoteToFlatOrOverflow bid s = Some ?s"
    using those_blocks[OF wf] len nz by (simp add: promoteToFlatOrOverflow_def u_def pal_def Let_def)
  have w: "u ! 255 \<noteq> bid"
    using hd hd_conv_nth[OF ne] nth_eq_iff_index_eq[OF props(1), of 255 0] len by simp
  have "u ! 255 \<in> set (bid # ?B)" using su len nth_mem[of 255 u] by simp
  then have "u ! 255 \<in> set ?B" using w by simp
  then obtain lj where lj: "lj < 4096" "?B ! lj = u ! 255" by (auto simp: in_set_conv_nth)
  have "distinct pal" using props(1) su no_air by (auto simp: pal_def)
  then have "index_of (pal ! 256) pal = Some 256" by (rule index_of_distinct) (simp add: pal_def len)
  then have "pal_index pal (?B ! lj) = 256" using lj by (simp add: pal_def pal_index_def)
  then have "flat_indices pal ?B ! lj = 0"
    using lj(1) by (simp add: flat_indices_def nth_append)
  moreover have "read_index FLAT (flat_indices pal ?B) lj = Some (unat (flat_indices pal ?B ! lj))"
    by (rule read_index_8) (simp_all add: flat_indices_def lj(1))
  ultimately have "getBlock ?s lj = Some 0" by (simp add: getBlock_def pal_def)
  moreover have "getBlock s lj \<noteq> Some 0"
  proof -
    have "blk s lj \<in> set ?B" using lj(1) nth_mem[of lj ?B] by simp
    then show ?thesis using no_air getBlock_blk[OF wf lj(1)] by auto
  qed
  ultimately show ?thesis using prom lj(1) by blast
qed

text \<open>A section of 255 kinds laid out periodically.\<close>

definition crowded_section :: ms where
  "crowded_section = ms_new\<lparr>sec_type := FLAT,
     flat := Some \<lparr>palette = map of_nat [0..<256],
                   indices = map (\<lambda>i. of_nat (i mod 255 + 1)) [0..<4096] @ [0], pal_size = 256\<rparr>\<rparr>"

lemma crowded_index:
  assumes "li < 4096"
  shows "index_at FLAT (map (\<lambda>i. of_nat (i mod 255 + 1)) [0..<4096] @ [0]) li = li mod 255 + 1"
proof -
  have l: "length (map (\<lambda>i. of_nat (i mod 255 + 1) :: u8) [0..<4096]) = 4096"
    by (simp only: length_map length_upt diff_zero)
  have "(map (\<lambda>i. of_nat (i mod 255 + 1)) [0..<4096] @ [0 :: u8]) ! li = of_nat (li mod 255 + 1)"
    using assms unfolding nth_append l by (simp only: if_True nth_map length_upt diff_zero nth_upt add_0)
  moreover have "li mod 255 + 1 < 256" using mod_less_divisor[of 255 li] by linarith
  ultimately show ?thesis by (simp only: index_at_def section_type.distinct if_False unat_of_nat) simp
qed

lemma crowded_wf: "ms_wf crowded_section"
proof -
  have "length (map (\<lambda>i. of_nat (i mod 255 + 1)) [0..<4096] @ [0 :: u8]) = 4097"
    by (simp only: length_append length_map length_upt diff_zero list.size)
  moreover have "li mod 255 + 1 < (256 :: nat)" for li using mod_less_divisor[of 255 li] by linarith
  ultimately show ?thesis
    using crowded_index
    by (simp only: ms_wf_def crowded_section_def ms.simps flat_ok_def flat_data.simps section_type.simps
        option.simps length_map length_upt diff_zero pal_cap_def section_type.distinct if_False) simp
qed

lemma crowded_blk: "li < 4096 \<Longrightarrow> blk crowded_section li = of_nat (li mod 255 + 1)"
  using crowded_index[of li]
  by (simp only: blk_def crowded_section_def ms.simps flat_data.simps section_type.simps option.sel
      nth_map length_upt nth_upt) (simp add: nth_map)


lemma crowded_kinds: "set (blocks_of crowded_section) = of_nat ` {1..255}"
proof -
  have "set (blocks_of crowded_section) = blk crowded_section ` {0..<4096}"
    by (simp only: blocks_of_def set_map set_upt SEC_VOL_eq)
  also have "\<dots> = (\<lambda>li. of_nat (li mod 255 + 1)) ` {0..<4096}"
    by (intro image_cong refl) (simp only: crowded_blk atLeastLessThan_iff)
  also have "\<dots> = of_nat ` {1..255}"
  proof -
    have "(\<lambda>li. li mod 255 + 1) ` {0..<4096} = {1..255 :: nat}"
    proof (intro equalityI subsetI)
      fix k :: nat assume k: "k \<in> {1..255}"
      then have "(k - 1) mod 255 + 1 = k" "k - 1 \<in> {0..<4096}" by auto
      then show "k \<in> (\<lambda>li. li mod 255 + 1) ` {0..<4096}" by (metis imageI)
    next
      fix k :: nat assume "k \<in> (\<lambda>li. li mod 255 + 1) ` {0..<4096}"
      then obtain li :: nat where "k = li mod 255 + 1" by auto
      then show "k \<in> {1..255}" using mod_less_divisor[of 255 li] by auto
    qed
    then show ?thesis by (metis image_image)
  qed
  finally show ?thesis .
qed

theorem promote_loses_blocks_witness:
  "\<exists>s' lj. promoteToFlatOrOverflow 1000 crowded_section = Some s' \<and> lj < 4096 \<and>
    getBlock crowded_section lj \<noteq> Some 0 \<and> getBlock s' lj = Some 0"
proof (rule promote_loses_blocks[OF crowded_wf])
  have inj: "inj_on (of_nat :: nat \<Rightarrow> u16) {1..255}" by (auto intro!: inj_onI simp: of_nat_u16_eq)
  have not_in: "of_nat k \<notin> (of_nat ` {1..255} :: u16 set)" if "k = 0 \<or> k = 1000" for k
    using that of_nat_u16_eq[of k] by fastforce
  show "sec_type crowded_section = FLAT" unfolding crowded_section_def by (simp only: ms.simps ms.update_convs ms_new_def)
  show "0 \<notin> set (1000 # blocks_of crowded_section)"
    using not_in[of 0] crowded_kinds by auto
  show "card (set (1000 # blocks_of crowded_section)) = 256"
    using not_in[of 1000] card_image[OF inj] by (simp add: crowded_kinds)
qed

end
