(* ===== verification/SectionWire.thy ===== *)
theory SectionWire
  imports SectionBlocks
begin

text \<open>
  Attributes and wire format of \<open>MutableSection\<close>: \<open>setMeta\<close>/\<open>setMultiblock\<close> are maps, the entry codecs
  of the wire format are instances of \<open>wire_codec\<close>, and \<open>fromWire\<close> reads back what \<open>encodeToWire\<close> wrote,
  in every representation; an all-air section loses its attributes, because the decoder skips them.
\<close>

section \<open>Attributes\<close>

text \<open>Setting the meta value (or the multiblock id) of a block changes that value and no other,
  keeps the section well formed, and leaves all blocks alone, both in the sorted vector and after
  the switch to the flat array.\<close>

theorem setMeta_correct:
  assumes "ms_ok s" "li < 4096" "lj < 4096"
  shows "ms_ok (setMeta li m s) \<and> ms_ok (setMultiblock li k s) \<and>
    getMeta (setMeta li m s) lj = (if lj = li then Some m else getMeta s lj) \<and>
    getMultiblock (setMultiblock li k s) lj = (if lj = li then Some k else getMultiblock s lj) \<and>
    getMultiblock (setMeta li m s) lj = getMultiblock s lj \<and>
    getMeta (setMultiblock li k s) lj = getMeta s lj \<and>
    getBlock (setMeta li m s) lj = getBlock s lj \<and> getBlock (setMultiblock li k s) lj = getBlock s lj"
proof -
  have s: "ms_wf s" "many_kinds s" "sp_ok (meta s)" "sp_ok (mb s)" using assms(1) by (auto simp: ms_ok_def)
  note set = sp_set_map[OF s(3) assms(2), where v = m] sp_set_map[OF s(4) assms(2), where v = k]
  note get = sp_get_map[OF s(3) assms(3)] sp_get_map[OF s(4) assms(3)]
    sp_get_map[OF set(1) assms(3)] sp_get_map[OF set(3) assms(3)]
  show ?thesis
    using s set(1,3) set(2,4)[OF assms(3)] get
    by (simp add: ms_ok_def setMeta_def setMultiblock_def getMeta_def getMultiblock_def getBlock_def
        ms_wf_def many_kinds_def cong: section_type.case_cong option.case_cong)
qed

theorem setMeta_correct_witness:
  "ms_ok (setMeta 3 9 ms_new) \<and> ms_ok (setMultiblock 3 70000 ms_new) \<and>
    getMeta (setMeta 3 9 ms_new) 4 = (if (4 :: nat) = 3 then Some 9 else getMeta ms_new 4) \<and>
    getMultiblock (setMultiblock 3 70000 ms_new) 4 = (if (4 :: nat) = 3 then Some 70000 else getMultiblock ms_new 4) \<and>
    getMultiblock (setMeta 3 9 ms_new) 4 = getMultiblock ms_new 4 \<and>
    getMeta (setMultiblock 3 70000 ms_new) 4 = getMeta ms_new 4 \<and>
    getBlock (setMeta 3 9 ms_new) 4 = getBlock ms_new 4 \<and>
    getBlock (setMultiblock 3 70000 ms_new) 4 = getBlock ms_new 4"
  by (rule setMeta_correct[OF ms_new_ok]) simp_all

section \<open>Entry codecs\<close>

interpretation wmeta: wire_codec "writeMeta []" readMeta "\<lambda>_. True"
proof unfold_locales
  fix e r rest assume u: "unread r = writeMeta [] e @ rest"
  obtain li m where e: "e = (li, m)" by (cases e)
  have w: "writeMeta [] e = writeU16 [] li @ writeU8 [] m" by (simp add: writeMeta_def e writeU8_def writeU16_def)
  have u1: "unread r = writeU16 [] li @ (writeU8 [] m @ rest)" using u w by simp
  have "readU16 r = Some (li, advance (length (writeU16 [] li)) r)" by (rule wu16.dec_enc[OF TrueI u1])
  moreover have "readU8 (advance (length (writeU16 [] li)) r) =
      Some (m, advance (length (writeU8 [] m)) (advance (length (writeU16 [] li)) r))"
    by (rule wu8.dec_enc[OF TrueI unread_advance[OF u1]])
  ultimately have "readMeta r = Some ((li, m), advance (length (writeU8 [] m)) (advance (length (writeU16 [] li)) r))"
    unfolding readMeta_def by (simp only: Option.bind.simps prod.case)
  then show "readMeta r = Some (e, advance (length (writeMeta [] e)) r)"
    unfolding e[symmetric] w length_append advance_advance .
qed

interpretation wmb: wire_codec "writeMb []" readMb "\<lambda>_. True"
proof unfold_locales
  fix e r rest assume u: "unread r = writeMb [] e @ rest"
  obtain li m where e: "e = (li, m)" by (cases e)
  have w: "writeMb [] e = writeU16 [] li @ writeU32 [] m" by (simp add: writeMb_def e writeU32_def writeU16_def)
  have u1: "unread r = writeU16 [] li @ (writeU32 [] m @ rest)" using u w by simp
  have "readU16 r = Some (li, advance (length (writeU16 [] li)) r)" by (rule wu16.dec_enc[OF TrueI u1])
  moreover have "readU32 (advance (length (writeU16 [] li)) r) =
      Some (m, advance (length (writeU32 [] m)) (advance (length (writeU16 [] li)) r))"
    by (rule wu32.dec_enc[OF TrueI unread_advance[OF u1]])
  ultimately have "readMb r = Some ((li, m), advance (length (writeU32 [] m)) (advance (length (writeU16 [] li)) r))"
    unfolding readMb_def by (simp only: Option.bind.simps prod.case)
  then show "readMb r = Some (e, advance (length (writeMb [] e)) r)"
    unfolding e[symmetric] w length_append advance_advance .
qed

lemma foldl_write: "(\<And>buf x. w buf x = buf @ w [] x) \<Longrightarrow> foldl w buf xs = buf @ concat (map (w []) xs)"
proof (induction xs arbitrary: buf)
  case (Cons x xs)
  have "foldl w (w buf x) xs = w buf x @ concat (map (w []) xs)" using Cons by blast
  then show ?case using Cons.prems[of buf x] by simp
qed simp

lemma writeMeta_append: "writeMeta buf e = buf @ writeMeta [] e"
  by (simp add: writeMeta_def writeU8_def writeU16_def)

lemma writeMb_append: "writeMb buf e = buf @ writeMb [] e"
  by (simp add: writeMb_def writeU32_def writeU16_def)

section \<open>Reading the attribute lists\<close>

definition meta_mb_bytes :: "ms \<Rightarrow> u8 list" where
  "meta_mb_bytes s = writeMetaMbToWire s []"

lemma writeMetaMb_eq:
  "writeMetaMbToWire s buf = buf @ writeU16 [] (of_nat (length (sp_wire (meta s)))) @
     concat (map (writeMeta []) (sp_wire (meta s))) @ writeU16 [] (of_nat (length (sp_wire (mb s)))) @
     concat (map (writeMb []) (sp_wire (mb s)))"
  unfolding writeMetaMbToWire_def Let_def
  by (simp add: foldl_write[of writeMeta, OF writeMeta_append] foldl_write[of writeMb, OF writeMb_append]
      write_append(2)[of "_ @ _"] write_append(2)[of buf])

lemma writeMetaMb_append: "writeMetaMbToWire s buf = buf @ meta_mb_bytes s"
  by (simp add: writeMetaMb_eq meta_mb_bytes_def)

definition read_attrs :: "reader \<Rightarrow> ((u16 \<times> u8) list \<times> (u16 \<times> u32) list \<times> reader) option" where
  "read_attrs r =
     Option.bind (readU16 r) (\<lambda>(mc, r). Option.bind (read_many readMeta (unat mc) r) (\<lambda>(ms, r).
     Option.bind (readU16 r) (\<lambda>(mbc, r). Option.bind (read_many readMb (unat mbc) r) (\<lambda>(mbs, r).
       Some (ms, mbs, r)))))"

lemma read_attrs_correct:
  assumes "sp_ok (meta s)" "sp_ok (mb s)" "unread r = meta_mb_bytes s @ rest"
  shows "read_attrs r = Some (sp_wire (meta s), sp_wire (mb s), advance (length (meta_mb_bytes s)) r)"
proof -
  let ?ms = "sp_wire (meta s)" and ?mbs = "sp_wire (mb s)"
  let ?a = "writeU16 [] (of_nat (length ?ms))" and ?b = "concat (map (writeMeta []) ?ms)"
  let ?c = "writeU16 [] (of_nat (length ?mbs))" and ?d = "concat (map (writeMb []) ?mbs)"
  have bytes: "meta_mb_bytes s = ?a @ ?b @ ?c @ ?d" by (simp add: meta_mb_bytes_def writeMetaMb_eq)
  have len: "unat (of_nat (length ?ms) :: u16) = length ?ms" "unat (of_nat (length ?mbs) :: u16) = length ?mbs"
    using sp_wire_props(3)[OF assms(1)] sp_wire_props(3)[OF assms(2)] by (simp_all add: unat_of_nat)
  have u1: "unread r = ?a @ (?b @ ?c @ ?d @ rest)" using assms(3) bytes by simp
  note r1 = wu16.dec_enc[OF TrueI u1]
  have u2: "unread (advance (length ?a) r) = ?b @ (?c @ ?d @ rest)" by (rule unread_advance[OF u1])
  have r2: "read_many readMeta (length ?ms) (advance (length ?a) r) = Some (?ms, advance (length ?b) (advance (length ?a) r))"
    by (rule wmeta.read_many_enc[OF _ u2]) simp
  have u3: "unread (advance (length ?b) (advance (length ?a) r)) = ?c @ (?d @ rest)" by (rule unread_advance[OF u2])
  note r3 = wu16.dec_enc[OF TrueI u3]
  have u4: "unread (advance (length ?c) (advance (length ?b) (advance (length ?a) r))) = ?d @ rest"
    by (rule unread_advance[OF u3])
  have r4: "read_many readMb (length ?mbs) (advance (length ?c) (advance (length ?b) (advance (length ?a) r))) =
      Some (?mbs, advance (length ?d) (advance (length ?c) (advance (length ?b) (advance (length ?a) r))))"
    by (rule wmb.read_many_enc[OF _ u4]) simp
  show ?thesis unfolding read_attrs_def
    by (simp only: r1 r2 r3 r4 len Option.bind.simps prod.case) (simp add: bytes add.assoc)
qed

lemma fromWire_eq:
  "fromWire r =
     Option.bind (readU16 r) (\<lambda>(psz, r).
     if psz = 0 then None else
     Option.bind (read_many readU16 (unat psz) r) (\<lambda>(pal, r).
     Option.bind (readU8 r) (\<lambda>(bpi, r).
     if psz = 1 \<and> pal ! 0 = 0 \<and> bpi = 0 then
       Option.bind (readU16 r) (\<lambda>(mc, r).
       Option.bind (reader_skip (unat mc * 3) r) (\<lambda>r.
       Option.bind (readU16 r) (\<lambda>(mbc, r).
       Option.bind (reader_skip (unat mbc * 6) r) (\<lambda>r. Some (ms_new, r)))))
     else
       Option.bind (read_blocks pal bpi r) (\<lambda>(s, r).
       Option.bind (read_attrs r) (\<lambda>(wire_meta, wire_mb, r).
         Some (s\<lparr>meta := sp_load wire_meta (meta s), mb := sp_load wire_mb (mb s)\<rparr>, r))))))"
  unfolding fromWire_def read_attrs_def Option.bind_assoc split_beta Option.bind.simps fst_conv snd_conv ..


section \<open>The palette\<close>

definition palette_bytes :: "u16 list \<Rightarrow> u8 list" where
  "palette_bytes pal = writeU16 [] (of_nat (length pal)) @ concat (map (writeU16 []) pal)"

lemma writeU16_append: "writeU16 buf v = buf @ writeU16 [] v"
  by (simp add: writeU16_def)

lemma writeU8_append: "writeU8 buf v = buf @ writeU8 [] v"
  by (simp add: writeU8_def)

lemma write_palette_eq: "write_palette buf pal = buf @ palette_bytes pal"
proof -
  have "write_palette buf pal = writeU16 buf (of_nat (length pal)) @ concat (map (writeU16 []) pal)"
    unfolding write_palette_def by (rule foldl_write) (rule writeU16_append)
  also have "\<dots> = buf @ palette_bytes pal"
    unfolding palette_bytes_def append_assoc[symmetric] writeU16_append[symmetric] ..
  finally show ?thesis .
qed

text \<open>Everything up to the block data: the reader has the palette and the index width.\<close>

lemma fromWire_head:
  assumes u: "unread r = palette_bytes pal @ writeU8 [] bpi @ rest"
    and pal: "pal \<noteq> []" "length pal < 2 ^ 16" and not_air: "\<not> (length pal = 1 \<and> hd pal = 0 \<and> bpi = 0)"
  shows "fromWire r = (let r' = advance (length (palette_bytes pal @ writeU8 [] bpi)) r in
    Option.bind (read_blocks pal bpi r') (\<lambda>(s, r).
       Option.bind (read_attrs r) (\<lambda>(wire_meta, wire_mb, r).
         Some (s\<lparr>meta := sp_load wire_meta (meta s), mb := sp_load wire_mb (mb s)\<rparr>, r))))"
    and "unread (advance (length (palette_bytes pal @ writeU8 [] bpi)) r) = rest"
proof -
  let ?a = "writeU16 [] (of_nat (length pal))" and ?b = "concat (map (writeU16 []) pal)" and ?c = "writeU8 [] bpi"
  have len: "unat (of_nat (length pal) :: u16) = length pal" using pal(2) by (simp add: unat_of_nat)
  have psz: "(of_nat (length pal) :: u16) \<noteq> 0" "(of_nat (length pal) :: u16) = 1 \<longleftrightarrow> length pal = 1"
    using len pal(1) by (auto simp: word_unat_eq_iff)
  have u1: "unread r = ?a @ (?b @ ?c @ rest)" using u by (simp add: palette_bytes_def)
  note r1 = wu16.dec_enc[OF TrueI u1]
  have u2: "unread (advance (length ?a) r) = ?b @ (?c @ rest)" by (rule unread_advance[OF u1])
  have r2: "read_many readU16 (length pal) (advance (length ?a) r) = Some (pal, advance (length ?b) (advance (length ?a) r))"
    by (rule wu16.read_many_enc[OF _ u2]) simp
  have u3: "unread (advance (length ?b) (advance (length ?a) r)) = ?c @ rest" by (rule unread_advance[OF u2])
  note r3 = wu8.dec_enc[OF TrueI u3]
  have adv: "advance (length ?c) (advance (length ?b) (advance (length ?a) r)) =
      advance (length (palette_bytes pal @ writeU8 [] bpi)) r"
    by (simp add: palette_bytes_def add.assoc)
  have na: "\<not> ((of_nat (length pal) :: u16) = 1 \<and> pal ! 0 = 0 \<and> bpi = 0)"
    using not_air pal(1) psz(2) by (simp add: hd_conv_nth)
  show "fromWire r = (let r' = advance (length (palette_bytes pal @ writeU8 [] bpi)) r in
    Option.bind (read_blocks pal bpi r') (\<lambda>(s, r).
       Option.bind (read_attrs r) (\<lambda>(wire_meta, wire_mb, r).
         Some (s\<lparr>meta := sp_load wire_meta (meta s), mb := sp_load wire_mb (mb s)\<rparr>, r))))"
    unfolding fromWire_eq r1 Option.bind.simps prod.case len if_not_P[OF psz(1)] r2 r3 if_not_P[OF na] adv Let_def ..
  show "unread (advance (length (palette_bytes pal @ writeU8 [] bpi)) r) = rest"
    using unread_advance[OF u3] by (simp only: adv)
qed

text \<open>The attributes after the block data.\<close>

lemma fromWire_tail:
  assumes u: "unread r = palette_bytes pal @ writeU8 [] bpi @ data @ meta_mb_bytes s @ rest"
    and pal: "pal \<noteq> []" "length pal < 2 ^ 16" and not_air: "\<not> (length pal = 1 \<and> hd pal = 0 \<and> bpi = 0)"
    and attrs: "sp_ok (meta s)" "sp_ok (mb s)"
    and blocks: "\<And>r. unread r = data @ meta_mb_bytes s @ rest \<Longrightarrow>
      read_blocks pal bpi r = Some (t, advance (length data) r)"
    and t: "meta t = sp_empty" "mb t = sp_empty"
  shows "fromWire r = Some (t\<lparr>meta := sp_load (sp_wire (meta s)) sp_empty, mb := sp_load (sp_wire (mb s)) sp_empty\<rparr>,
    advance (length (palette_bytes pal @ writeU8 [] bpi @ data @ meta_mb_bytes s)) r)"
proof -
  note head = fromWire_head[OF u pal not_air]
  let ?r1 = "advance (length (palette_bytes pal @ writeU8 [] bpi)) r"
  have "read_blocks pal bpi ?r1 = Some (t, advance (length data) ?r1)" by (rule blocks[OF head(2)])
  moreover have "read_attrs (advance (length data) ?r1) =
      Some (sp_wire (meta s), sp_wire (mb s), advance (length (meta_mb_bytes s)) (advance (length data) ?r1))"
    by (rule read_attrs_correct[OF attrs unread_advance[OF head(2)]])
  ultimately show ?thesis
    unfolding head(1) Let_def by (simp add: t add.assoc)
qed


section \<open>Block data of the packed representations\<close>

lemma unread_take:
  assumes "unread r = data @ rest"
  shows "rpos r + length data \<le> length (rdata r) \<or> data = []" "take (length data) (drop (rpos r) (rdata r)) = data"
proof -
  have "length (rdata r) - rpos r = length data + length rest"
    using arg_cong[OF assms, of length] by (simp add: unread_def)
  then show "rpos r + length data \<le> length (rdata r) \<or> data = []" by (cases data) simp_all
  show "take (length data) (drop (rpos r) (rdata r)) = data" using assms by (simp add: unread_def)
qed

lemma read_blocks_4:
  assumes "unread r = data @ rest" "length data = 2048" "length pal \<le> 16"
  shows "read_blocks pal 4 r = Some (ms_new\<lparr>sec_type := BITPACK4,
     flat := Some \<lparr>palette = pal, indices = data @ [0], pal_size = length pal\<rparr>\<rparr>, advance (length data) r)"
  using unread_take[OF assms(1)] assms(2,3) by (auto simp: read_blocks_def advance_def)

lemma read_blocks_8:
  assumes "unread r = data @ rest" "length data = 4096" "length pal \<le> 256"
  shows "read_blocks pal 8 r = Some (ms_new\<lparr>sec_type := FLAT,
     flat := Some \<lparr>palette = pal, indices = data @ [0], pal_size = length pal\<rparr>\<rparr>, advance (length data) r)"
  using unread_take[OF assms(1)] assms(2,3) by (auto simp: read_blocks_def advance_def)

lemma index_at_take:
  assumes "li < 4096" "length ind = (if ty = BITPACK4 then 2049 else 4097)"
    "n = (if ty = BITPACK4 then 2048 else 4096)"
  shows "index_at ty (take n ind @ [0]) li = index_at ty ind li"
  using assms by (auto simp: index_at_def nibble_def nth_append less_mult_imp_div_less)

section \<open>Block data of the overflow representation\<close>

lemma collect_palette_props:
  assumes "distinct (0 # us)"
  shows "\<exists>vs. collect_palette bs (0 # us) = 0 # us @ vs \<and> distinct (0 # us @ vs) \<and>
    set (0 # us @ vs) = set (0 # us) \<union> set bs"
  using assms
proof (induction bs arbitrary: us)
  case (Cons b bs)
  show ?case
  proof (cases "b = 0 \<or> b \<in> set us")
    case True
    then have "collect_palette (b # bs) (0 # us) = collect_palette bs (0 # us)" by auto
    then show ?thesis using Cons.IH[OF Cons.prems] True by auto
  next
    case False
    then have eq: "collect_palette (b # bs) (0 # us) = collect_palette bs (0 # (us @ [b]))" by simp
    obtain vs where vs: "collect_palette bs (0 # (us @ [b])) = 0 # (us @ [b]) @ vs"
      "distinct (0 # (us @ [b]) @ vs)" "set (0 # (us @ [b]) @ vs) = set (0 # us @ [b]) \<union> set bs"
      using Cons.IH[of "us @ [b]"] Cons.prems False by auto
    show ?thesis unfolding eq by (intro exI[of _ "b # vs"]) (use vs in auto)
  qed
qed auto

lemma collect_palette_all:
  obtains vs where "collect_palette bs [0] = 0 # vs" "distinct (0 # vs)" "set (0 # vs) = insert 0 (set bs)"
  using collect_palette_props[of "[]" bs] by auto

lemma bit_width_bound: "n < 2 ^ bit_width n"
proof (induction n rule: bit_width.induct)
  case (1 n)
  then show ?case by (cases "n = 0") (auto simp: bit_width.simps[of n])
qed

lemma bit_width_le: "n < 2 ^ k \<Longrightarrow> bit_width n \<le> k"
proof (induction k arbitrary: n)
  case 0
  then show ?case by (simp add: bit_width.simps[of 0])
next
  case (Suc k)
  then show ?case
    by (cases "n = 0") (auto simp: bit_width.simps[of n] bit_width.simps[of 0] less_mult_imp_div_less)
qed

lemma of_nat_u16_le: "n < 2 ^ 16 \<Longrightarrow> unat (of_nat n :: u16) = n"
  by (simp add: unat_of_nat)

lemma overflow_index_at:
  assumes "pal = 0 # vs" "b \<in> set pal" "length pal \<le> 4097"
  shows "unat (overflow_index pal b) < length pal" "pal ! unat (overflow_index pal b) = b"
proof -
  have "unat (overflow_index pal b) < length pal \<and> pal ! unat (overflow_index pal b) = b"
  proof (cases "b = 0")
    case True
    then show ?thesis using assms(1) by (simp add: overflow_index_def)
  next
    case False
    then have "b \<in> set vs" using assms(1,2) by simp
    then obtain j where "index_of b vs = Some j" "j < length vs" "vs ! j = b"
      by (rule index_of_obtain)
    moreover have "unat (of_nat (Suc j) :: u16) = Suc j"
      using \<open>j < length vs\<close> assms(1,3) by (intro of_nat_u16_le) simp
    ultimately show ?thesis using False assms(1) by (simp add: overflow_index_def del: of_nat_Suc)
  qed
  then show "unat (overflow_index pal b) < length pal" "pal ! unat (overflow_index pal b) = b" by auto
qed

lemma read_overflow_correct:
  fixes idxs :: "u16 list"
  assumes "bit_pos br + length idxs * bpi \<le> 8 * length (brdata br)" "bpi \<le> 16"
    and "\<And>j i. j < length idxs \<Longrightarrow> i < bpi \<Longrightarrow> stream_bit (brdata br) (bit_pos br + j * bpi + i) = bit (idxs ! j) i"
    and "\<And>x. x \<in> set idxs \<Longrightarrow> unat x < length pal \<and> unat x < 2 ^ bpi"
  shows "read_overflow (length idxs) bpi pal br = Some (map (\<lambda>x. pal ! unat x) idxs)"
  using assms(1,3,4)
proof (induction idxs arbitrary: br)
  case (Cons x xs)
  let ?br = "br\<lparr>bit_pos := bit_pos br + bpi\<rparr>"
  have room: "bit_pos br + bpi \<le> 8 * length (brdata br)" using Cons.prems(1) by simp
  obtain w where w: "br_read bpi br = Some (w, ?br)" "\<And>n. bit w n \<longleftrightarrow> n < bpi \<and> stream_bit (brdata br) (bit_pos br + n)"
    using br_read_correct[OF room] assms(2) by auto
  have small: "take_bit bpi x = x"
    using Cons.prems(3)[of x] by (simp add: word_unat_eq_iff unsigned_take_bit_eq take_bit_nat_eq_self_iff)
  have "bit w n \<longleftrightarrow> bit x n" for n
    using w(2)[of n] Cons.prems(2)[of 0 n] small bit_take_bit_iff[of bpi x n] by auto
  then have wx: "w = ucast x" by (intro bit_word_eqI) (auto simp: bit_simps dest: bit_imp_le_length)
  have "unat x < 2 ^ 16" using unsigned_less[of x] by simp
  then have ux: "unat w = unat x" by (simp add: wx unsigned_ucast_eq take_bit_nat_eq_self_iff)
  have "read_overflow (length xs) bpi pal ?br = Some (map (\<lambda>x. pal ! unat x) xs)"
  proof (rule Cons.IH)
    show "bit_pos ?br + length xs * bpi \<le> 8 * length (brdata ?br)" using Cons.prems(1) by simp
    show "stream_bit (brdata ?br) (bit_pos ?br + j * bpi + i) = bit (xs ! j) i" if "j < length xs" "i < bpi" for j i
      using Cons.prems(2)[of "Suc j" i] that by (simp add: add.assoc)
  qed (use Cons.prems(3) in auto)
  then show ?case using w(1) Cons.prems(3)[of x] ux by simp
qed simp

lemma read_blocks_overflow:
  assumes u: "unread r = pack_indices bpi idxs @ rest" and len: "length idxs = 4096"
    and bpi: "8 < bpi" "bpi \<le> 16"
    and idx: "\<And>x. x \<in> set idxs \<Longrightarrow> unat x < length pal \<and> unat x < 2 ^ bpi"
  shows "read_blocks pal (of_nat bpi) r = Some (ms_new\<lparr>sec_type := OVERFLOW,
     overflow := Some (map (\<lambda>x. pal ! unat x) idxs)\<rparr>, advance (length (pack_indices bpi idxs)) r)"
proof -
  let ?d = "pack_indices bpi idxs"
  have "8 dvd length idxs * bpi" using len by simp
  note pk = pack_indices_correct[OF this]
  have dlen: "length ?d = 512 * bpi" using pk(1) len by simp
  have un: "unat (of_nat bpi :: u8) = bpi" using bpi by (simp add: unat_of_nat)
  have ne: "(of_nat bpi :: u8) \<noteq> 4" "(of_nat bpi :: u8) \<noteq> 8" "(of_nat bpi :: u8) \<noteq> 0"
    using un bpi by (auto simp: word_unat_eq_iff)
  have tot: "(SEC_VOL * bpi + 7) div 8 = length ?d" by (simp add: dlen)
  have room: "rpos r + length ?d \<le> length (rdata r)" using unread_take(1)[OF u] dlen bpi by auto
  have "read_overflow (length idxs) bpi pal \<lparr>brdata = ?d @ rest, bit_pos = 0\<rparr> = Some (map (\<lambda>x. pal ! unat x) idxs)"
  proof (rule read_overflow_correct)
    show "bit_pos \<lparr>brdata = ?d @ rest, bit_pos = 0\<rparr> + length idxs * bpi \<le> 8 * length (brdata \<lparr>brdata = ?d @ rest, bit_pos = 0\<rparr>)"
      using pk(1) by simp
    fix j i assume ji: "j < length idxs" "i < bpi"
    have "j * bpi + i < Suc j * bpi" using ji(2) by simp
    also have "\<dots> \<le> length idxs * bpi" using ji(1) by (intro mult_le_mono1) simp
    finally have "j * bpi + i < 8 * length ?d" using pk(1) by simp
    then show "stream_bit (brdata \<lparr>brdata = ?d @ rest, bit_pos = 0\<rparr>) (bit_pos \<lparr>brdata = ?d @ rest, bit_pos = 0\<rparr> + j * bpi + i) = bit (idxs ! j) i"
      using pk(2)[OF ji] by (simp add: stream_bit_append)
  qed (use bpi idx in auto)
  then have ro: "read_overflow SEC_VOL bpi pal \<lparr>brdata = drop (rpos r) (rdata r), bit_pos = 0\<rparr> = Some (map (\<lambda>x. pal ! unat x) idxs)"
    using u by (simp add: len unread_def)
  have "\<not> rpos r + length ?d > length (rdata r)" using room by simp
  then show ?thesis
    unfolding read_blocks_def Let_def un tot using ne ro by (simp add: advance_def)
qed


section \<open>Round trip\<close>

text \<open>Two sections hold the same blocks and attributes.\<close>

definition same_content :: "ms \<Rightarrow> ms \<Rightarrow> bool" where
  "same_content s t \<longleftrightarrow>
     (\<forall>li < 4096. getBlock s li = getBlock t li \<and> getMeta s li = getMeta t li \<and>
        getMultiblock s li = getMultiblock t li)"

lemma content_after_load:
  assumes s: "ms_ok s" and t: "ms_wf t" "many_kinds t"
    and blks: "\<And>li. li < 4096 \<Longrightarrow> blk t li = blk s li"
  defines "t' \<equiv> t\<lparr>meta := sp_load (sp_wire (meta s)) sp_empty, mb := sp_load (sp_wire (mb s)) sp_empty\<rparr>"
  shows "ms_ok t' \<and> same_content s t'"
proof -
  have sk: "sp_ok (meta s)" "sp_ok (mb s)" "ms_wf s" using s by (auto simp: ms_ok_def)
  note load = sp_load_wire[OF sk(1)] sp_load_wire[OF sk(2)]
  have same: "sec_type t' = sec_type t" "flat t' = flat t" "overflow t' = overflow t"
    "meta t' = sp_load (sp_wire (meta s)) sp_empty" "mb t' = sp_load (sp_wire (mb s)) sp_empty"
    by (simp_all add: t'_def)
  have wf: "ms_wf t'" "many_kinds t'" using t by (simp_all only: ms_wf_def many_kinds_def same)
  moreover have "blk t' li = blk t li" for li by (simp only: blk_def same)
  ultimately show ?thesis
    using load sk blks by (simp add: ms_ok_def same_content_def getBlock_blk getMeta_def getMultiblock_def same sp_get_map)
qed

lemma encode_flat:
  assumes "sec_type s = BITPACK4 \<or> sec_type s = FLAT" "flat s = Some f" "flat_ok (sec_type s) f"
  defines "n \<equiv> if sec_type s = BITPACK4 then 2048 else 4096"
  defines "bpi \<equiv> if sec_type s = BITPACK4 then 4 else 8"
  shows "encodeToWire s buf = Some (buf @ palette_bytes (palette f) @ writeU8 [] bpi @ take n (indices f) @ meta_mb_bytes s)"
proof -
  have "writeU8 (write_palette buf (palette f)) bpi = buf @ palette_bytes (palette f) @ writeU8 [] bpi"
    by (simp add: write_palette_eq writeU8_def)
  then show ?thesis
    using assms by (auto simp: encodeToWire_def Let_def flat_ok_def writeMetaMb_append[of s "_ @ _"])
qed

lemma wire_flat:
  assumes ok: "ms_ok s" and ty: "sec_type s = BITPACK4 \<or> sec_type s = FLAT"
  obtains w where "\<And>buf. encodeToWire s buf = Some (buf @ w)"
    "\<And>r rest. unread r = w @ rest \<Longrightarrow>
      \<exists>s'. fromWire r = Some (s', advance (length w) r) \<and> ms_ok s' \<and> same_content s s'"
proof -
  define ty' where "ty' = sec_type s"
  obtain f where f: "flat s = Some f" "flat_ok ty' f"
    using ok ty by (auto simp: ms_ok_def ms_wf_def ty'_def split: option.splits)
  define n where "n = (if ty' = BITPACK4 then 2048 else 4096 :: nat)"
  define bpi where "bpi = (if ty' = BITPACK4 then 4 else 8 :: u8)"
  let ?data = "take n (indices f)"
  define w where "w = palette_bytes (palette f) @ writeU8 [] bpi @ ?data @ meta_mb_bytes s"
  have "index_at ty' (indices f) 0 < length (palette f)" using f(2) by (simp add: flat_ok_def)
  then have pal: "palette f \<noteq> []" "length (palette f) \<le> pal_cap ty'"
    using f(2) by (auto simp only: list.size(3) not_less0) (simp add: flat_ok_def)
  have len: "length (indices f) = (if ty' = BITPACK4 then 2049 else 4097)" using f(2) by (simp add: flat_ok_def)
  have dlen: "length ?data = n" using len by (simp add: n_def)
  let ?t = "ms_new\<lparr>sec_type := ty', flat := Some \<lparr>palette = palette f, indices = ?data @ [0], pal_size = length (palette f)\<rparr>\<rparr>"
  have enc: "encodeToWire s buf = Some (buf @ w)" for buf
    using encode_flat[OF ty f(1) f(2)[unfolded ty'_def]] by (simp add: w_def n_def bpi_def ty'_def)
  have fo: "flat_ok ty' \<lparr>palette = palette f, indices = ?data @ [0], pal_size = length (palette f)\<rparr>"
    using f(2) dlen index_at_take[OF _ len n_def] by (auto simp: flat_ok_def n_def)
  have tt: "sec_type ?t = ty'" "flat ?t = Some \<lparr>palette = palette f, indices = ?data @ [0], pal_size = length (palette f)\<rparr>"
    by simp_all
  note wf = ms_wf_flat[OF fo ty[folded ty'_def] tt]
  have blks: "blk ?t li = blk s li" if "li < 4096" for li
    using wf(2) ms_wf_flat(2)[OF f(2) ty[folded ty'_def] _ f(1)] index_at_take[OF that len n_def]
    by (simp add: ty'_def)
  have mk: "many_kinds ?t" using ty by (auto simp: many_kinds_def ty'_def)
  have "\<exists>s'. fromWire r = Some (s', advance (length w) r) \<and> ms_ok s' \<and> same_content s s'"
    if u: "unread r = w @ rest" for r rest
  proof -
    have "fromWire r = Some (?t\<lparr>meta := sp_load (sp_wire (meta s)) sp_empty, mb := sp_load (sp_wire (mb s)) sp_empty\<rparr>,
        advance (length (palette_bytes (palette f) @ writeU8 [] bpi @ ?data @ meta_mb_bytes s)) r)"
    proof (rule fromWire_tail)
      show "unread r = palette_bytes (palette f) @ writeU8 [] bpi @ ?data @ meta_mb_bytes s @ rest"
        using u by (simp add: w_def)
      show "length (palette f) < 2 ^ 16" using pal(2) by (auto simp: pal_cap_def split: if_splits)
      show "\<not> (length (palette f) = 1 \<and> hd (palette f) = 0 \<and> bpi = 0)" by (simp add: bpi_def)
      show "read_blocks (palette f) bpi r = Some (?t, advance (length ?data) r)"
        if "unread r = ?data @ meta_mb_bytes s @ rest" for r
      proof (cases "ty' = BITPACK4")
        case True
        then show ?thesis using read_blocks_4[OF that, of "palette f"] pal(2) dlen
          by (simp add: bpi_def n_def pal_cap_def)
      next
        case False
        then have "ty' = FLAT" using ty by (simp add: ty'_def)
        then show ?thesis using read_blocks_8[OF that, of "palette f"] pal(2) dlen
          by (simp add: bpi_def n_def pal_cap_def)
      qed
    qed (use pal ok in \<open>auto simp: ms_ok_def ms_new_def\<close>)
    then show ?thesis using content_after_load[OF ok wf(1) mk blks] by (auto simp: w_def)
  qed
  then show thesis using that enc by blast
qed

lemma wire_overflow:
  assumes ok: "ms_ok s" and ty: "sec_type s = OVERFLOW"
  obtains w where "\<And>buf. encodeToWire s buf = Some (buf @ w)"
    "\<And>r rest. unread r = w @ rest \<Longrightarrow>
      \<exists>s'. fromWire r = Some (s', advance (length w) r) \<and> ms_ok s' \<and> same_content s s'"
proof -
  obtain blks where b: "overflow s = Some blks" "length blks = 4096" "256 < card (insert 0 (set blks))"
    using ok ty by (auto simp: ms_ok_def ms_wf_def many_kinds_def split: option.splits)
  obtain vs where vs: "collect_palette blks [0] = 0 # vs" "distinct (0 # vs)" "set (0 # vs) = insert 0 (set blks)"
    by (rule collect_palette_all)
  define pal where "pal = 0 # vs"
  have "length pal = card (insert 0 (set blks))" using distinct_card[OF vs(2)] vs(3) by (simp only: pal_def)
  moreover have "card (insert 0 (set blks)) \<le> Suc (card (set blks))" by (simp add: card_insert_if)
  moreover have "card (set blks) \<le> 4096" using card_length[of blks] b(2) by simp
  ultimately have len: "256 < length pal" "length pal \<le> 4097" using b(3) by auto
  define bpi where "bpi = bit_width (length pal - 1)"
  have up: "length pal - 1 < 2 ^ bpi" unfolding bpi_def by (rule bit_width_bound)
  have bpi: "8 < bpi" "bpi \<le> 16"
  proof -
    show "bpi \<le> 16" unfolding bpi_def using len(2) by (intro bit_width_le) simp
    show "8 < bpi"
    proof (rule ccontr)
      assume "\<not> 8 < bpi"
      then have "(2 :: nat) ^ bpi \<le> 2 ^ 8" by (intro power_increasing) auto
      then show False using up len(1) by simp
    qed
  qed
  define idxs where "idxs = map (overflow_index pal) blks"
  define w where "w = palette_bytes pal @ writeU8 [] (of_nat bpi) @ pack_indices bpi idxs @ meta_mb_bytes s"
  have in_pal: "x \<in> set pal" if "x \<in> set blks" for x using vs(3) that by (auto simp: pal_def)
  have idx: "unat x < length pal \<and> unat x < 2 ^ bpi" if "x \<in> set idxs" for x
    using that overflow_index_at(1)[OF pal_def in_pal len(2)] up by (fastforce simp: idxs_def)
  have restored: "map (\<lambda>x. pal ! unat x) idxs = blks"
    using overflow_index_at(2)[OF pal_def in_pal len(2)] by (simp add: idxs_def map_idI)
  let ?t = "ms_new\<lparr>sec_type := OVERFLOW, overflow := Some blks\<rparr>"
  have enc: "encodeToWire s buf = Some (buf @ w)" for buf
  proof -
    have "writeU8 (write_palette buf pal) (of_nat bpi) = buf @ palette_bytes pal @ writeU8 [] (of_nat bpi)"
      by (simp add: write_palette_eq writeU8_def)
    moreover have "bit_width (length pal - Suc 0) = bpi" by (simp add: bpi_def)
    ultimately show ?thesis
      using ty b vs(1) len(1) bpi(1)
      by (simp add: encodeToWire_def Let_def pal_def[symmetric] idxs_def w_def
          writeMetaMb_append[of s "_ @ _"])
  qed
  have wf: "ms_wf ?t" using b(2) by (simp add: ms_wf_def)
  have mk: "many_kinds ?t" using b(3) by (simp add: many_kinds_def)
  have same_blks: "blk ?t li = blk s li" for li using ty b(1) by (simp add: blk_def)
  have "\<exists>s'. fromWire r = Some (s', advance (length w) r) \<and> ms_ok s' \<and> same_content s s'"
    if u: "unread r = w @ rest" for r rest
  proof -
    have "fromWire r = Some (?t\<lparr>meta := sp_load (sp_wire (meta s)) sp_empty, mb := sp_load (sp_wire (mb s)) sp_empty\<rparr>,
        advance (length (palette_bytes pal @ writeU8 [] (of_nat bpi) @ pack_indices bpi idxs @ meta_mb_bytes s)) r)"
    proof (rule fromWire_tail)
      show "unread r = palette_bytes pal @ writeU8 [] (of_nat bpi) @ pack_indices bpi idxs @ meta_mb_bytes s @ rest"
        using u by (simp add: w_def)
      show "length pal < 2 ^ 16" using len(2) by simp
      show "pal \<noteq> []" "\<not> (length pal = 1 \<and> hd pal = 0 \<and> of_nat bpi = (0 :: u8))" using len(1) by auto
      show "read_blocks pal (of_nat bpi) r = Some (?t, advance (length (pack_indices bpi idxs)) r)"
        if "unread r = pack_indices bpi idxs @ meta_mb_bytes s @ rest" for r
        using read_blocks_overflow[OF that _ bpi idx] b(2) by (simp add: restored) (simp add: idxs_def)
    qed (use ok in \<open>auto simp: ms_ok_def ms_new_def\<close>)
    then show ?thesis using content_after_load[OF ok wf mk same_blks] by (auto simp: w_def)
  qed
  then show thesis using that enc by blast
qed

text \<open>The wire format round-trips. Encoding a non-air section appends some bytes to the buffer,
  and decoding those bytes, whatever follows them, succeeds, consumes exactly them, and gives a
  well-formed section with the same blocks, meta values and multiblock ids.\<close>

theorem fromWire_encodeToWire:
  assumes "ms_ok s" "sec_type s \<noteq> AIR"
  shows "\<exists>w. encodeToWire s buf = Some (buf @ w) \<and>
    (\<forall>r rest. unread r = w @ rest \<longrightarrow>
      (\<exists>s'. fromWire r = Some (s', advance (length w) r) \<and> ms_ok s' \<and> same_content s s'))"
proof (cases "sec_type s = OVERFLOW")
  case True
  show ?thesis by (rule wire_overflow[OF assms(1) True]) blast
next
  case False
  then have "sec_type s = BITPACK4 \<or> sec_type s = FLAT" using assms(2) by (cases "sec_type s") auto
  then show ?thesis by (rule wire_flat[OF assms(1)]) blast
qed


definition two_block_section :: ms where
  "two_block_section = ms_new\<lparr>sec_type := BITPACK4,
     flat := Some \<lparr>palette = [0, 9], indices = replicate 2049 0, pal_size = 2\<rparr>,
     meta := \<lparr>sp_entries = [(5, 3)], sp_flat = None\<rparr>\<rparr>"

lemma two_block_ok: "ms_ok two_block_section"
  by (simp add: ms_ok_def ms_wf_def many_kinds_def two_block_section_def ms_new_def flat_ok_def pal_cap_def
      index_at_def nibble_def less_mult_imp_div_less sp_ok_def SPARSE_THRESHOLD_def sp_empty_def)

theorem fromWire_encodeToWire_witness:
  "\<exists>w. encodeToWire two_block_section [1, 2] = Some ([1, 2] @ w) \<and>
    (\<forall>r rest. unread r = w @ rest \<longrightarrow>
      (\<exists>s'. fromWire r = Some (s', advance (length w) r) \<and> ms_ok s' \<and> same_content two_block_section s'))"
  by (rule fromWire_encodeToWire[OF two_block_ok]) (simp add: two_block_section_def)

lemma length_write [simp]:
  "length (writeU8 [] v) = 1" "length (writeU16 [] w) = 2" "length (writeU32 [] x) = 4"
  by (simp_all add: writeU8_def writeU16_def writeU32_def)

lemma length_entries:
  "length (concat (map (writeMeta []) es)) = length es * 3" "length (concat (map (writeMb []) fs)) = length fs * 6"
  by (induction es, simp_all add: writeMeta_def writeU8_def writeU16_def)
    (induction fs, simp_all add: writeMb_def writeU32_def writeU16_def)

lemma unread_fits:
  assumes "unread r = xs @ rest" "rpos r \<le> length (rdata r)"
  shows "rpos r + length xs \<le> length (rdata r)"
proof -
  have "length (rdata r) - rpos r = length xs + length rest"
    using arg_cong[OF assms(1), of length] by (simp add: unread_def)
  then show ?thesis using assms(2) by linarith
qed

lemma skip_unread: "unread r = xs @ rest \<Longrightarrow> length xs = n \<Longrightarrow> rpos r \<le> length (rdata r) \<Longrightarrow>
  reader_skip n r = Some (advance n r)"
  using unread_fits[of r xs rest] by (auto simp: reader_skip_def advance_def)

lemma advance_in_range: "unread r = xs @ rest \<Longrightarrow> rpos r \<le> length (rdata r) \<Longrightarrow>
  rpos (advance (length xs) r) \<le> length (rdata (advance (length xs) r))"
  using unread_fits[of r xs rest] by (simp add: advance_def)

text \<open>An all-air section is written with its attributes, but decoding it skips them: the result is
  the empty section, so a meta value or multiblock id set on an air section does not survive the
  round trip; the bytes are consumed exactly.\<close>

theorem fromWire_air:
  assumes "ms_ok s" "sec_type s = AIR" "encodeToWire s [] = Some w"
    and "unread r = w @ rest" "rpos r \<le> length (rdata r)"
  shows "fromWire r = Some (ms_new, advance (length w) r)"
proof -
  have sk: "sp_ok (meta s)" "sp_ok (mb s)" using assms(1) by (auto simp: ms_ok_def)
  let ?ms = "sp_wire (meta s)" and ?mbs = "sp_wire (mb s)"
  let ?a = "writeU16 [] 1" and ?b = "writeU16 [] 0" and ?c = "writeU8 [] 0"
  let ?d = "writeU16 [] (of_nat (length ?ms))" and ?e = "concat (map (writeMeta []) ?ms)"
  let ?f = "writeU16 [] (of_nat (length ?mbs))" and ?g = "concat (map (writeMb []) ?mbs)"
  have len: "unat (of_nat (length ?ms) :: u16) = length ?ms" "unat (of_nat (length ?mbs) :: u16) = length ?mbs"
    using sp_wire_props(3)[OF sk(1)] sp_wire_props(3)[OF sk(2)] by (simp_all add: unat_of_nat)
  have w: "w = ?a @ ?b @ ?c @ ?d @ ?e @ ?f @ ?g"
    using assms(2,3) by (simp add: encodeToWire_def writeMetaMb_eq writeU16_def writeU8_def)
  have u1: "unread r = ?a @ (?b @ ?c @ ?d @ ?e @ ?f @ ?g @ rest)" using assms(4) w by simp
  note r1 = wu16.dec_enc[OF TrueI u1] and u2 = unread_advance[OF u1] and p2 = advance_in_range[OF u1 assms(5)]
  have "read_many readU16 1 (advance (length ?a) r) = Some ([0], advance (length ?b) (advance (length ?a) r))"
    using wu16.dec_enc[OF TrueI u2] by simp
  note r2 = this and u3 = unread_advance[OF u2] and p3 = advance_in_range[OF u2 p2]
  note r3 = wu8.dec_enc[OF TrueI u3] and u4 = unread_advance[OF u3] and p4 = advance_in_range[OF u3 p3]
  note r4 = wu16.dec_enc[OF TrueI u4] and u5 = unread_advance[OF u4] and p5 = advance_in_range[OF u4 p4]
  note r5 = skip_unread[OF u5 length_entries(1) p5] and u6 = unread_advance[OF u5, unfolded length_entries]
    and p6 = advance_in_range[OF u5 p5, unfolded length_entries]
  note r6 = wu16.dec_enc[OF TrueI u6] and u7 = unread_advance[OF u6] and p7 = advance_in_range[OF u6 p6]
  note r7 = skip_unread[OF u7 length_entries(2) p7]
  have one: "unat (1 :: u16) = 1" "\<not> (1 :: u16) = 0" "(1 :: u16) = 1 \<and> [0 :: u16] ! 0 = 0 \<and> (0 :: u8) = 0" by simp_all
  show ?thesis
    unfolding fromWire_def r1 Option.bind.simps prod.case if_not_P[OF one(2)] one(1) r2 r3 if_P[OF one(3)] r4 len r5 r6 r7
    by (simp add: w length_entries eval_nat_numeral)
qed

theorem fromWire_air_witness:
  "fromWire \<lparr>rdata = [1, 0, 0, 0, 0, 1, 0, 3, 0, 9, 0, 0], rpos = 0\<rparr> =
     Some (ms_new, advance (length [1, 0, 0, 0, 0, 1, 0, 3, 0, 9, 0, 0 :: u8]) \<lparr>rdata = [1, 0, 0, 0, 0, 1, 0, 3, 0, 9, 0, 0], rpos = 0\<rparr>)"
proof (rule fromWire_air)
  let ?s = "setMeta 3 9 ms_new"
  have "ms_ok ?s \<and> sec_type ?s = AIR \<and> encodeToWire ?s [] = Some [1, 0, 0, 0, 0, 1, 0, 3, 0, 9, 0, 0]"
    by (simp add: ms_ok_def ms_wf_def many_kinds_def setMeta_def ms_new_def sp_empty_def sp_set_def lower_bound_def
        key_at_def SPARSE_THRESHOLD_def sp_ok_def encodeToWire_def writeMetaMbToWire_def sp_wire_def writeMeta_def
        writeU8_def writeU16_def)
  then show "ms_ok ?s" "sec_type ?s = AIR" "encodeToWire ?s [] = Some [1, 0, 0, 0, 0, 1, 0, 3, 0, 9, 0, 0]" by auto
qed (simp_all add: unread_def)

end
