(* ===== verification/ItemId.thy ===== *)
theory ItemId
  imports Prelude
begin

text \<open>
  The hierarchical 16-bit item ids of \<open>src/engine/registry/ItemId.h\<close>: \<open>pack\<close> from the textual form
  ("prefix bits, colons, decimal payload"), \<open>category\<close>, \<open>unpack\<close>, the tool helpers and the sub-range
  tests \<open>isPipe\<close>, \<open>isCable\<close>, \<open>isFluid\<close>. A \<open>std::string_view\<close> is a \<^typ>\<open>string\<close>.
\<close>

unbundle bit_operations_syntax

section \<open>Packing\<close>

definition is_digit :: "char \<Rightarrow> bool" where
  "is_digit c \<longleftrightarrow> of_char c \<ge> (48 :: nat) \<and> of_char c \<le> (57 :: nat)"

fun decimal :: "string \<Rightarrow> u16 \<Rightarrow> u16" where
  "decimal [] val = val"
| "decimal (c # s) val = decimal s (if is_digit c then val * 10 + (of_char c - 48) else val)"

fun prefix_bits :: "string \<Rightarrow> u16 \<Rightarrow> nat \<Rightarrow> u16 \<times> nat" where
  "prefix_bits [] prefix plen = (prefix, plen)"
| "prefix_bits (c # s) prefix plen =
     (if c = CHR ''0'' then prefix_bits s (push_bit 1 prefix OR 0) (plen + 1)
      else if c = CHR ''1'' then prefix_bits s (push_bit 1 prefix OR 1) (plen + 1)
      else prefix_bits s prefix plen)"

text \<open>\<open>s.rfind(':')\<close>\<close>

fun rfind_colon :: "string \<Rightarrow> nat option" where
  "rfind_colon [] = None"
| "rfind_colon (c # s) =
     (case rfind_colon s of Some i \<Rightarrow> Some (Suc i) | None \<Rightarrow> if c = CHR '':'' then Some 0 else None)"

definition pack :: "string \<Rightarrow> u16" where
  "pack s =
     (if s = [] then 0
      else (case rfind_colon s of
              None \<Rightarrow> decimal s 0
            | Some last_colon \<Rightarrow>
                (case prefix_bits (take last_colon s) 0 0 of (prefix, plen) \<Rightarrow>
                   if plen > 15 then 0
                   else
                     let payload = decimal (drop (last_colon + 1) s) 0;
                         shift = 16 - plen
                     in ucast (push_bit shift (ucast prefix :: u32) OR ucast payload))))"

section \<open>Categories and sub-ranges\<close>

datatype category = CAT_BASE | CAT_ORES | CAT_MATERIALS | CAT_MACHINES | CAT_INFRA

definition category_of :: "u16 \<Rightarrow> category" where
  "category_of i =
     (if i < pack ''10:0'' then CAT_BASE
      else if i < pack ''110:0'' then CAT_ORES
      else if i < pack ''1110:0'' then CAT_MATERIALS
      else if i < pack ''1111:0'' then CAT_MACHINES
      else CAT_INFRA)"

definition categoryName :: "category \<Rightarrow> string" where
  "categoryName c =
     (case c of CAT_BASE \<Rightarrow> ''BASE'' | CAT_ORES \<Rightarrow> ''ORES'' | CAT_MATERIALS \<Rightarrow> ''MATERIALS''
      | CAT_MACHINES \<Rightarrow> ''MACHINES'' | CAT_INFRA \<Rightarrow> ''INFRA'')"

definition digit_char :: "nat \<Rightarrow> char" where
  "digit_char d = char_of (48 + d)"

text \<open>\<open>std::to_string\<close> of a non-negative number.\<close>

fun to_dec :: "nat \<Rightarrow> string" where
  "to_dec n = (if n < 10 then [digit_char n] else to_dec (n div 10) @ [digit_char (n mod 10)])"

declare to_dec.simps [simp del]

definition unpack :: "u16 \<Rightarrow> string" where
  "unpack i =
     (if i < pack ''10:0'' then ''0:'' @ to_dec (unat (i AND 0x7FFF))
      else if i < pack ''110:0'' then ''10:'' @ to_dec (unat (i - pack ''10:0''))
      else if i < pack ''1110:0'' then ''110:'' @ to_dec (unat (i - pack ''110:0''))
      else if i < pack ''1111:0'' then ''1110:'' @ to_dec (unat (i - pack ''1110:0''))
      else ''1111:'' @ to_dec (unat (i - pack ''1111:0'')))"

definition toolTier :: "u16 \<Rightarrow> nat" where
  "toolTier i =
     (if i < pack ''1111:00:0'' \<or> i \<ge> pack ''1111:01:0'' then 0
      else unat (drop_bit 5 (i - pack ''1111:00:0'') AND 0x1F))"

definition toolType :: "u16 \<Rightarrow> nat" where
  "toolType i =
     (if i < pack ''1111:00:0'' \<or> i \<ge> pack ''1111:01:0'' then 0
      else unat ((i - pack ''1111:00:0'') AND 0x1F))"

definition isPipe :: "u16 \<Rightarrow> bool" where
  "isPipe i \<longleftrightarrow> i \<ge> pack ''1111:10:0'' \<and> i < pack ''1111:11:0''"

definition isCable :: "u16 \<Rightarrow> bool" where
  "isCable i \<longleftrightarrow> i \<ge> pack ''1111:01:0'' \<and> i < pack ''1111:10:0''"

definition isFluid :: "u16 \<Rightarrow> bool" where
  "isFluid i \<longleftrightarrow> i \<ge> pack ''1111:11:0''"

definition BLOCK_ID_FLUID_PIPE :: u16 where "BLOCK_ID_FLUID_PIPE = pack ''1111:10:0''"
definition BLOCK_ID_ITEM_PIPE :: u16 where "BLOCK_ID_ITEM_PIPE = pack ''1111:10:1''"
definition BLOCK_ID_DENSE_ITEM_PIPE :: u16 where "BLOCK_ID_DENSE_ITEM_PIPE = pack ''1111:10:2''"
definition BLOCK_ID_DENSE_FLUID_PIPE :: u16 where "BLOCK_ID_DENSE_FLUID_PIPE = pack ''1111:10:3''"
definition BLOCK_ID_HEAT_PIPE :: u16 where "BLOCK_ID_HEAT_PIPE = pack ''1111:10:4''"

section \<open>Lemmas\<close>

lemma pack_values [simp]:
  "pack ''10:0'' = 0x8000" "pack ''110:0'' = 0xC000" "pack ''1110:0'' = 0xE000" "pack ''1111:0'' = 0xF000"
  "pack ''1111:00:0'' = 0xF000" "pack ''1111:01:0'' = 0xF400" "pack ''1111:10:0'' = 0xF800"
  "pack ''1111:11:0'' = 0xFC00" "pack ''1111:10:1'' = 0xF801" "pack ''1111:10:2'' = 0xF802"
  "pack ''1111:10:3'' = 0xF803" "pack ''1111:10:4'' = 0xF804"
  by code_simp+

text \<open>Every i belongs to exactly one of the sub-ranges of its category: a cable is not a pipe, a
  pipe is not a fluid, the pipe block ids are pipes, and tools, cables, pipes and fluids together
  are exactly the INFRA category.\<close>

theorem infra_partition:
  "(category_of i = CAT_INFRA \<longleftrightarrow>
     (0xF000 \<le> i \<and> i < 0xF400) \<or> isCable i \<or> isPipe i \<or> isFluid i) \<and>
   \<not> (isCable i \<and> isPipe i) \<and> \<not> (isCable i \<and> isFluid i) \<and> \<not> (isPipe i \<and> isFluid i) \<and>
   isPipe BLOCK_ID_FLUID_PIPE \<and> isPipe BLOCK_ID_ITEM_PIPE \<and> isPipe BLOCK_ID_DENSE_ITEM_PIPE \<and>
   isPipe BLOCK_ID_DENSE_FLUID_PIPE \<and> isPipe BLOCK_ID_HEAT_PIPE"
  by (auto simp: category_of_def isCable_def isPipe_def isFluid_def BLOCK_ID_FLUID_PIPE_def
      BLOCK_ID_ITEM_PIPE_def BLOCK_ID_DENSE_ITEM_PIPE_def BLOCK_ID_DENSE_FLUID_PIPE_def BLOCK_ID_HEAT_PIPE_def
      word_le_nat_alt word_less_nat_alt)

lemma digit_char_facts:
  assumes "d < 10"
  shows "of_char (digit_char d) = (of_nat (48 + d) :: u16)" "is_digit (digit_char d)" "digit_char d \<noteq> CHR '':''"
proof -
  have oc: "of_char (digit_char d) = (48 + d :: nat)" using assms by (simp add: digit_char_def)
  then show "is_digit (digit_char d)" using assms by (simp add: is_digit_def)
  have "of_char (digit_char d) = (of_nat (of_char (digit_char d)) :: u16)" by (simp add: of_char_def)
  then show "of_char (digit_char d) = (of_nat (48 + d) :: u16)" by (simp only: oc)
  show "digit_char d \<noteq> CHR '':''"
  proof
    assume "digit_char d = CHR '':''"
    then have "of_char (digit_char d) = (58 :: nat)" by simp
    then show False using oc assms by simp
  qed
qed

lemma decimal_append: "decimal (s @ t) v = decimal t (decimal s v)"
  by (induction s arbitrary: v) auto

lemma decimal_to_dec: "decimal (to_dec n) 0 = of_nat n"
proof (induction n rule: to_dec.induct)
  case (1 n)
  show ?case
  proof (cases "n < 10")
    case True
    then show ?thesis using digit_char_facts(1,2)[OF True] by (simp add: to_dec.simps[of n])
  next
    case False
    have d: "n mod 10 < 10" by simp
    have "decimal (to_dec n) 0 = of_nat (n div 10) * 10 + of_nat (n mod 10)"
      using 1[OF False] digit_char_facts(1,2)[OF d] False by (simp add: to_dec.simps[of n] decimal_append)
    also have "\<dots> = (of_nat (n div 10 * 10 + n mod 10) :: u16)" by (simp only: of_nat_add of_nat_mult of_nat_numeral)
    finally show ?thesis by simp
  qed
qed

lemma to_dec_no_colon: "CHR '':'' \<notin> set (to_dec n)"
proof (induction n rule: to_dec.induct)
  case (1 n)
  then show ?case using digit_char_facts(3)[of n] digit_char_facts(3)[of "n mod 10"]
    by (cases "n < 10") (auto simp: to_dec.simps[of n])
qed

lemma rfind_colon_last: "CHR '':'' \<notin> set t \<Longrightarrow> rfind_colon (p @ CHR '':'' # t) = Some (length p)"
proof (induction p)
  case Nil
  have "rfind_colon t = None" using Nil by (induction t) auto
  then show ?case by simp
qed simp

lemma pack_decimal:
  assumes "prefix_bits p 0 0 = (b, l)" "l \<le> 15"
  shows "pack (p @ CHR '':'' # to_dec n) = ucast (push_bit (16 - l) (ucast b :: u32) OR ucast (of_nat n :: u16))"
  using assms by (simp add: pack_def rfind_colon_last[OF to_dec_no_colon] decimal_to_dec Let_def)

lemma prefix_values:
  "prefix_bits ''0'' 0 0 = (0, 1)" "prefix_bits ''10'' 0 0 = (2, 2)" "prefix_bits ''110'' 0 0 = (6, 3)"
  "prefix_bits ''1110'' 0 0 = (14, 4)" "prefix_bits ''1111'' 0 0 = (15, 4)"
  by code_simp+

text \<open>Putting a prefix back in front of the payload of an id in its range.\<close>

lemma or_payload:
  fixes i b :: u16
  assumes "i = b OR (i - b)"
  shows "ucast (ucast b OR ucast (i - b) :: u32) = i"
proof -
  have "ucast (ucast b OR ucast (i - b) :: u32) = (b OR (i - b))"
    by (rule bit_word_eqI) (simp add: bit_simps)
  then show ?thesis using assms by simp
qed

lemma split_payload:
  fixes i b :: u16
  assumes "b \<le> i" "unat i < unat b + 2 ^ k" "take_bit k b = 0" "k < 16"
  shows "i = b OR (i - b)"
proof -
  have "unat (i - b) = unat i - unat b" using assms(1) by (simp add: unat_sub)
  then have "unat (i - b) < 2 ^ k" using assms(1,2) unfolding word_le_nat_alt by linarith
  then have small: "take_bit k (i - b) = i - b"
    by (simp add: word_unat_eq_iff unsigned_take_bit_eq take_bit_nat_eq_self_iff)
  have "b + (i - b) = b OR (i - b)"
  proof (rule disjunctive_add)
    fix n
    show "\<not> bit b n \<or> \<not> bit (i - b) n"
    proof (cases "n < k")
      case True
      then show ?thesis using bit_take_bit_iff[of k b n] assms(3) by simp
    next
      case False
      then show ?thesis using bit_take_bit_iff[of k "i - b" n] small by simp
    qed
  qed
  then show ?thesis by simp
qed

lemma pack_range:
  assumes "prefix_bits p 0 0 = (q, l)" "l \<le> 15" "push_bit (16 - l) (ucast q :: u32) = ucast b"
    "b \<le> i" "unat i < unat b + 2 ^ (16 - l)" "take_bit (16 - l) b = 0" "0 < l"
  shows "pack (p @ CHR '':'' # to_dec (unat (i - b))) = i"
  using pack_decimal[OF assms(1,2), of "unat (i - b)"] assms(3)
    or_payload[OF split_payload[OF assms(4,5,6)]] assms(7) by simp

text \<open>\<open>unpack\<close> is a right inverse of \<open>pack\<close>: the text it prints for any of the 65536 ids packs
  back to that id.\<close>

theorem pack_unpack: "pack (unpack i) = i"
proof -
  have u: "unat i < 65536" using unsigned_less[of i] by simp
  consider "unat i < 0x8000" | "0x8000 \<le> unat i" "unat i < 0xC000" | "0xC000 \<le> unat i" "unat i < 0xE000"
    | "0xE000 \<le> unat i" "unat i < 0xF000" | "0xF000 \<le> unat i" by linarith
  then show ?thesis
  proof cases
    case 1
    have m: "(0x7FFF :: u16) = mask 15" by (simp add: mask_eq_exp_minus_1)
    have "i AND 0x7FFF = i - 0"
      unfolding m take_bit_eq_mask[symmetric] using 1
      by (simp add: word_unat_eq_iff unsigned_take_bit_eq take_bit_nat_eq_self_iff)
    then show ?thesis
      using pack_range[OF prefix_values(1), of 0 i] 1 by (simp add: unpack_def word_less_nat_alt)
  next
    case 2
    then show ?thesis using pack_range[OF prefix_values(2), of "0x8000" i]
      by (simp add: unpack_def word_less_nat_alt word_le_nat_alt)
  next
    case 3
    then show ?thesis using pack_range[OF prefix_values(3), of "0xC000" i]
      by (simp add: unpack_def word_less_nat_alt word_le_nat_alt)
  next
    case 4
    then show ?thesis using pack_range[OF prefix_values(4), of "0xE000" i]
      by (simp add: unpack_def word_less_nat_alt word_le_nat_alt)
  next
    case 5
    then show ?thesis using pack_range[OF prefix_values(5), of "0xF000" i] u
      by (simp add: unpack_def word_less_nat_alt word_le_nat_alt)
  qed
qed

end
