(* ===== verification/Flood.thy ===== *)
theory Flood
  imports Prelude
begin

text \<open>
  Breadth-first search as the pipe network and the cable graph write it: a queue, a visited set and
  an adjacency map built from the edge table. An edge list stands for the table in its iteration
  order; \<open>adj\<close> is the vector the adjacency map holds for a node (an edge is entered at both ends, so
  a self-loop enters the node twice). The result is the component of the start node: every node that
  can be reached over the edges, each once. The search is total; its measure is the number of
  unvisited end points plus the queue length.
\<close>

fun adj :: "('a \<times> 'a) list \<Rightarrow> 'a \<Rightarrow> 'a list" where
  "adj [] v = []"
| "adj ((a, b) # es) v = (if a = v then [b] else []) @ (if b = v then [a] else []) @ adj es v"

text \<open>The inner loop over the neighbours of the current node.\<close>

fun visit :: "'a list \<Rightarrow> 'a list \<Rightarrow> 'a list \<Rightarrow> 'a list \<times> 'a list" where
  "visit [] visited q = (visited, q)"
| "visit (n # ns) visited q =
     (if n \<in> set visited then visit ns visited q else visit ns (n # visited) (q @ [n]))"

definition ends :: "('a \<times> 'a) list \<Rightarrow> 'a set" where
  "ends es = fst ` set es \<union> snd ` set es"

lemma adj_ends: "set (adj es v) \<subseteq> ends es"
  by (induction es v rule: adj.induct) (auto simp: ends_def)

lemma visit_props:
  assumes "visit ns vis q = (vis', q')"
  shows "\<exists>new. q' = q @ new \<and> set vis' = set vis \<union> set new \<and> distinct new \<and> set new \<inter> set vis = {} \<and>
    set new \<subseteq> set ns \<and> set ns \<subseteq> set vis'"
  using assms
proof (induction ns vis q rule: visit.induct)
  case (2 n ns vis q)
  show ?case
  proof (cases "n \<in> set vis")
    case True
    then have "visit ns vis q = (vis', q')" using "2.prems" by simp
    from "2.IH"(1)[OF True this] obtain new where new: "q' = q @ new" "set vis' = set vis \<union> set new"
      "distinct new" "set new \<inter> set vis = {}" "set new \<subseteq> set ns" "set ns \<subseteq> set vis'" by blast
    then show ?thesis using True by (intro exI[of _ new]) auto
  next
    case False
    then obtain new where new: "q' = (q @ [n]) @ new" "set vis' = set (n # vis) \<union> set new" "distinct new"
      "set new \<inter> set (n # vis) = {}" "set new \<subseteq> set ns" "set ns \<subseteq> set vis'"
      using 2 by auto
    then show ?thesis using False by (intro exI[of _ "n # new"]) auto
  qed
qed auto

function bfs_loop :: "('a \<times> 'a) list \<Rightarrow> 'a list \<Rightarrow> 'a list \<Rightarrow> 'a list \<Rightarrow> 'a list \<times> 'a list" where
  "bfs_loop es [] visited component = (visited, component)"
| "bfs_loop es (current # q) visited component =
     (case visit (adj es current) visited q of
        (visited', q') \<Rightarrow> bfs_loop es q' visited' (component @ [current]))"
  by pat_completeness auto

termination
proof (relation "measure (\<lambda>(es, q, vis, cmp). card (ends es - set vis) + length q)")
  fix es :: "('a \<times> 'a) list" and c q vis and cmp :: "'a list" and vis' q'
  assume "(vis', q') = visit (adj es c) vis q"
  then have "visit (adj es c) vis q = (vis', q')" by simp
  then obtain new where new: "q' = q @ new" "set vis' = set vis \<union> set new" "distinct new"
    "set new \<inter> set vis = {}" "set new \<subseteq> set (adj es c)"
    using visit_props by metis
  have fin: "finite (ends es)" by (simp add: ends_def)
  have sub: "set new \<subseteq> ends es - set vis" using new(4,5) adj_ends[of es c] by auto
  have "ends es - set vis' = (ends es - set vis) - set new" using new(2) by auto
  then have "card (ends es - set vis') = card (ends es - set vis) - card (set new)"
    using sub by (simp add: card_Diff_subset)
  moreover have "card (set new) \<le> card (ends es - set vis)" using sub fin by (intro card_mono) auto
  moreover have "card (set new) = length new" using new(3) by (rule distinct_card)
  ultimately show "((es, q', vis', cmp @ [c]), es, c # q, vis, cmp)
      \<in> measure (\<lambda>(es, q, vis, cmp). card (ends es - set vis) + length q)"
    using new(1) by simp
qed simp

definition bfs :: "('a \<times> 'a) list \<Rightarrow> 'a \<Rightarrow> 'a list \<Rightarrow> 'a list \<times> 'a list" where
  "bfs es start visited = bfs_loop es [start] (start # visited) []"

section \<open>The component is the set of reachable nodes\<close>

definition linked :: "('a \<times> 'a) list \<Rightarrow> 'a \<Rightarrow> 'a \<Rightarrow> bool" where
  "linked es a b \<longleftrightarrow> (a, b) \<in> set es \<or> (b, a) \<in> set es"

definition connected :: "('a \<times> 'a) list \<Rightarrow> 'a \<Rightarrow> 'a \<Rightarrow> bool" where
  "connected es = (linked es)\<^sup>*\<^sup>*"

definition closed_under :: "('a \<times> 'a) list \<Rightarrow> 'a set \<Rightarrow> bool" where
  "closed_under es V \<longleftrightarrow> (\<forall>a \<in> V. \<forall>b. linked es a b \<longrightarrow> b \<in> V)"

lemma set_adj: "b \<in> set (adj es a) \<longleftrightarrow> linked es a b"
  by (induction es a rule: adj.induct) (auto simp: linked_def)

lemma linked_sym: "linked es a b \<Longrightarrow> linked es b a"
  by (auto simp: linked_def)

lemma connected_sym: "connected es a b \<Longrightarrow> connected es b a"
  unfolding connected_def by (induction rule: rtranclp_induct) (auto intro: converse_rtranclp_into_rtranclp linked_sym)

lemma connected_refl [simp]: "connected es a a"
  by (simp add: connected_def)

lemma connected_trans: "connected es a b \<Longrightarrow> connected es b c \<Longrightarrow> connected es a c"
  unfolding connected_def by (rule rtranclp_trans)

lemma closed_connected: "closed_under es V \<Longrightarrow> a \<in> V \<Longrightarrow> connected es a b \<Longrightarrow> b \<in> V"
  unfolding connected_def by (rotate_tac 2, induction rule: rtranclp_induct) (auto simp: closed_under_def)

lemma closed_Un: "closed_under es V \<Longrightarrow> closed_under es W \<Longrightarrow> closed_under es (V \<union> W)"
  by (auto simp: closed_under_def)

lemma closed_component: "closed_under es {b. connected es a b}"
  by (auto simp: closed_under_def connected_def)

text \<open>The loop invariant: \<open>V\<close> is what was visited before the search.\<close>

definition bfs_inv :: "('a \<times> 'a) list \<Rightarrow> 'a \<Rightarrow> 'a set \<Rightarrow> 'a list \<Rightarrow> 'a list \<Rightarrow> 'a list \<Rightarrow> bool" where
  "bfs_inv es start V q vis cmp \<longleftrightarrow>
     distinct (cmp @ q) \<and> set (cmp @ q) = set vis - V \<and> V \<subseteq> set vis \<and> start \<in> set (cmp @ q) \<and>
     (\<forall>a \<in> set (cmp @ q). connected es start a) \<and>
     (\<forall>a \<in> set cmp. \<forall>b. linked es a b \<longrightarrow> b \<in> set vis)"

lemma bfs_inv_step:
  assumes inv: "bfs_inv es start V (c # q) vis cmp" and v: "visit (adj es c) vis q = (vis', q')"
  shows "bfs_inv es start V q' vis' (cmp @ [c])"
proof -
  obtain new where new: "q' = q @ new" "set vis' = set vis \<union> set new" "distinct new"
    "set new \<inter> set vis = {}" "set new \<subseteq> set (adj es c)" "set (adj es c) \<subseteq> set vis'"
    using visit_props[OF v] by metis
  have old: "distinct (cmp @ c # q)" "set (cmp @ c # q) = set vis - V" "V \<subseteq> set vis"
    "start \<in> set (cmp @ c # q)" "\<forall>a \<in> set (cmp @ c # q). connected es start a"
    "\<forall>a \<in> set cmp. \<forall>b. linked es a b \<longrightarrow> b \<in> set vis"
    using inv by (auto simp: bfs_inv_def)
  have "connected es start a" if "a \<in> set new" for a
  proof -
    have "linked es c a" using that new(5) set_adj by fastforce
    moreover have "connected es start c" using old(5) by simp
    ultimately show ?thesis unfolding connected_def by (rule rtranclp.rtrancl_into_rtrancl[rotated])
  qed
  moreover have "distinct ((cmp @ [c]) @ q')" using old(1,2) new(1,3,4) by auto
  moreover have "set ((cmp @ [c]) @ q') = set vis' - V" using old(2,3) new(1,2,4) by auto
  moreover have "b \<in> set vis'" if "a \<in> set (cmp @ [c])" "linked es a b" for a b
    using that old(6) new(2,6) set_adj by fastforce
  moreover have "connected es start a" if "a \<in> set ((cmp @ [c]) @ q')" for a
    using that new(1) old(5) calculation(1) by auto
  moreover have "V \<subseteq> set vis'" "start \<in> set ((cmp @ [c]) @ q')" using old(3,4) new(1,2) by auto
  ultimately show ?thesis unfolding bfs_inv_def by blast
qed

lemma bfs_loop_inv:
  assumes "bfs_inv es start V q vis cmp" "bfs_loop es q vis cmp = (vis', cmp')"
  shows "bfs_inv es start V [] vis' cmp'"
  using assms
proof (induction es q vis cmp rule: bfs_loop.induct)
  case (2 es c q vis cmp)
  obtain vis1 q1 where v: "visit (adj es c) vis q = (vis1, q1)" by force
  then show ?case using 2 bfs_inv_step[OF "2.prems"(1) v] by simp
qed simp

theorem bfs_component:
  assumes "bfs es start vis = (vis', cmp)" "closed_under es (set vis)" "start \<notin> set vis"
  shows "distinct cmp" "set cmp = {b. connected es start b}" "set vis' = set vis \<union> set cmp"
proof -
  have "bfs_inv es start (set vis) [start] (start # vis) []"
    using assms(3) by (auto simp: bfs_inv_def)
  then have inv: "bfs_inv es start (set vis) [] vis' cmp"
    using bfs_loop_inv assms(1) unfolding bfs_def by metis
  then show d: "distinct cmp" and u: "set vis' = set vis \<union> set cmp"
    by (auto simp: bfs_inv_def)
  have start: "start \<in> set cmp" and c: "set cmp = set vis' - set vis"
    and reach: "\<forall>a \<in> set cmp. connected es start a" and next_in: "\<forall>a \<in> set cmp. \<forall>b. linked es a b \<longrightarrow> b \<in> set vis'"
    using inv by (auto simp: bfs_inv_def)
  have "closed_under es (set cmp)"
    unfolding closed_under_def
  proof (intro ballI allI impI)
    fix a b assume ab: "a \<in> set cmp" "linked es a b"
    then have "b \<in> set vis'" using next_in by blast
    moreover have "b \<notin> set vis"
      using ab c assms(2) linked_sym[OF ab(2)] by (auto simp: closed_under_def)
    ultimately show "b \<in> set cmp" using c by simp
  qed
  then show "set cmp = {b. connected es start b}"
    using start reach closed_connected by fastforce
qed

end
