(* ===== verification/PipeTypes.thy ===== *)
theory PipeTypes
  imports Coords ItemId Flood
begin

text \<open>
  The data of \<open>src/apps/pipe_network/PipeNetwork.h\<close> and \<open>src/common/ResourcePort.h\<close>: ports, nodes,
  edges, networks and the state of \<open>PipeNetworkManager\<close>, with the accessors and setters that touch
  one node. The per-domain array of a node is a function of the resource kind. An edge keeps the
  IEEE bit pattern of its \<open>float resistance\<close>, which only the heat solver reads; the node field
  \<open>temperature\<close> belongs to that solver too and is left out with it.
\<close>

section \<open>Ports\<close>

datatype resource_kind = FLUID | EU | HU | RU | ITEM

datatype port_role = ROLE_NONE | SOURCE | SINK

datatype face_policy = ALL_FACES | MASK

record resource_port =
  port_id :: u64
  owner_id :: u64
  port_kind :: resource_kind
  role :: port_role
  px :: i32
  py :: i32
  pz :: i32
  policy :: face_policy
  port_face_mask :: u8
  port_capacity :: int
  port_rate :: int
  epoch :: u64

definition port_valid :: "resource_port \<Rightarrow> bool" where
  "port_valid p \<longleftrightarrow> port_id p \<noteq> 0"

type_synonym port_key = "u64 \<times> resource_kind \<times> u64"

section \<open>Nodes, edges, networks\<close>

record item_slot =
  slot_item :: u16
  slot_count :: u8

record domain_state =
  is_source :: bool
  is_sink :: bool
  rate :: int
  face_mask :: u8

definition domain_default :: domain_state where
  "domain_default = \<lparr>is_source = False, is_sink = False, rate = 0, face_mask = 0\<rparr>"

record pipe_node =
  node_id :: u64
  nx :: i32
  ny :: i32
  nz :: i32
  block_id :: u16
  node_meta :: u8
  energyBuffer :: int
  energyCapacity :: int
  fluidBuffer :: int
  fluidCapacity :: int
  fluidId :: u32
  itemBuffer :: "item_slot list"
  itemCapacity :: u8
  heatStored :: int
  heatCapacity :: int
  side_config :: "u8 list"
  domains :: "resource_kind \<Rightarrow> domain_state"

record pipe_edge =
  edge_id :: u64
  fromNode :: u64
  toNode :: u64
  resistance :: u32

record pipe_net =
  net_id :: u64
  nodeIds :: "u64 list"
  totalEnergy :: int
  totalFluid :: int
  netFluidId :: u32
  isActive :: bool
  itemNodes :: "u64 list"

record fluid_result =
  request_id :: u64
  res_node_id :: u64
  res_fluid_id :: u32
  accepted_amount :: int
  remaining :: int
  blocked :: bool

record fluid_transaction =
  result :: fluid_result
  requested_amount :: int
  expires_at :: u64

record consumed_event =
  sinkNodeId :: u64
  sourceNodeId :: u64
  ev_item :: item_slot
  ex :: i32
  ey :: i32
  ez :: i32

record manager =
  nodes :: "(u64, pipe_node) umap"
  edges :: "(u64, pipe_edge) umap"
  nodeToNetwork :: "(u64, u64) umap"
  networks :: "(u64, pipe_net) umap"
  node_by_pos :: "(u64, u64) umap"
  ports :: "(port_key, resource_port) umap"
  consumedItemEvents :: "consumed_event list"
  fluid_transactions :: "(u64, fluid_transaction) umap"
  fluid_tick :: u64
  nextNodeId :: u64
  nextEdgeId :: u64
  nextNetworkId :: u64

definition kFluidTransactionTtl :: u64 where "kFluidTransactionTtl = 200"

definition manager_new :: manager where
  "manager_new = \<lparr>nodes = [], edges = [], nodeToNetwork = [], networks = [], node_by_pos = [],
     ports = [], consumedItemEvents = [], fluid_transactions = [], fluid_tick = 0,
     nextNodeId = 1, nextEdgeId = 1, nextNetworkId = 1\<rparr>"

section \<open>Face masks\<close>

unbundle bit_operations_syntax

definition pipeFaceOpen :: "u8 \<Rightarrow> nat \<Rightarrow> bool" where
  "pipeFaceOpen m face \<longleftrightarrow> m = 0 \<or> (ucast m AND push_bit face (1 :: u32)) \<noteq> 0"

definition pipeFacesConnected :: "u8 \<Rightarrow> u8 \<Rightarrow> nat \<Rightarrow> bool" where
  "pipeFacesConnected fromMeta toMeta face \<longleftrightarrow>
     pipeFaceOpen fromMeta face \<and> pipeFaceOpen toMeta (face XOR 1)"

section \<open>Updating one node\<close>

text \<open>\<open>auto it = nodes_.find(id); if (it == end) return; it->second.field = ...;\<close>\<close>

definition um_modify :: "'k \<Rightarrow> ('v \<Rightarrow> 'v) \<Rightarrow> ('k, 'v) umap \<Rightarrow> ('k, 'v) umap" where
  "um_modify k f m = (case um_find m k of None \<Rightarrow> m | Some v \<Rightarrow> um_put k (f v) m)"

text \<open>\<open>deltas[id] += d\<close>\<close>

definition um_add :: "'k \<Rightarrow> int \<Rightarrow> ('k, int) umap \<Rightarrow> ('k, int) umap" where
  "um_add k d m = um_put k ((case um_find m k of None \<Rightarrow> 0 | Some v \<Rightarrow> v) + d) m"

definition modify_node :: "u64 \<Rightarrow> (pipe_node \<Rightarrow> pipe_node) \<Rightarrow> manager \<Rightarrow> manager" where
  "modify_node nid f m = m\<lparr>nodes := um_modify nid f (nodes m)\<rparr>"

definition set_roles :: "resource_kind \<Rightarrow> bool \<Rightarrow> bool \<Rightarrow> pipe_node \<Rightarrow> pipe_node" where
  "set_roles k src snk n =
     n\<lparr>domains := (domains n)(k := (domains n k)\<lparr>is_source := src, is_sink := snk\<rparr>)\<rparr>"

definition setNodeMeta :: "u64 \<Rightarrow> u8 \<Rightarrow> manager \<Rightarrow> manager" where
  "setNodeMeta nid mt = modify_node nid (\<lambda>n. n\<lparr>node_meta := mt\<rparr>)"

definition setNodeEnergy :: "u64 \<Rightarrow> int \<Rightarrow> int \<Rightarrow> bool \<Rightarrow> bool \<Rightarrow> manager \<Rightarrow> manager" where
  "setNodeEnergy nid energy cap src snk =
     modify_node nid (\<lambda>n. set_roles EU src snk (n\<lparr>energyBuffer := energy, energyCapacity := cap\<rparr>))"

definition setNodeFluid :: "u64 \<Rightarrow> int \<Rightarrow> int \<Rightarrow> u32 \<Rightarrow> bool \<Rightarrow> bool \<Rightarrow> manager \<Rightarrow> manager" where
  "setNodeFluid nid fluid cap fid src snk =
     modify_node nid (\<lambda>n. set_roles FLUID src snk
       (n\<lparr>fluidBuffer := fluid, fluidCapacity := cap, fluidId := fid\<rparr>))"

definition setNodeItemProps :: "u64 \<Rightarrow> u8 \<Rightarrow> bool \<Rightarrow> bool \<Rightarrow> manager \<Rightarrow> manager" where
  "setNodeItemProps nid cap src snk =
     modify_node nid (\<lambda>n. set_roles ITEM src snk (n\<lparr>itemCapacity := cap\<rparr>))"

definition addNodeItem :: "u64 \<Rightarrow> u16 \<Rightarrow> u8 \<Rightarrow> manager \<Rightarrow> manager" where
  "addNodeItem nid item cnt =
     modify_node nid (\<lambda>n. n\<lparr>itemBuffer := itemBuffer n @ [\<lparr>slot_item = item, slot_count = cnt\<rparr>]\<rparr>)"

definition setNodeHeat :: "u64 \<Rightarrow> int \<Rightarrow> int \<Rightarrow> bool \<Rightarrow> bool \<Rightarrow> manager \<Rightarrow> manager" where
  "setNodeHeat nid heat cap src snk =
     modify_node nid (\<lambda>n. set_roles HU src snk (n\<lparr>heatStored := heat, heatCapacity := cap\<rparr>))"

definition setNodeSideConfig :: "u64 \<Rightarrow> u8 list \<Rightarrow> manager \<Rightarrow> manager" where
  "setNodeSideConfig nid cfg = modify_node nid (\<lambda>n. n\<lparr>side_config := cfg\<rparr>)"

definition nodeDomain :: "u64 \<Rightarrow> resource_kind \<Rightarrow> manager \<Rightarrow> domain_state option" where
  "nodeDomain nid k m = map_option (\<lambda>n. domains n k) (um_find (nodes m) nid)"

definition getNode :: "u64 \<Rightarrow> manager \<Rightarrow> pipe_node option" where
  "getNode nid m = um_find (nodes m) nid"

definition getNetwork :: "u64 \<Rightarrow> manager \<Rightarrow> pipe_net option" where
  "getNetwork nid m = um_find (networks m) nid"

definition getAllNetworks :: "manager \<Rightarrow> pipe_net list" where
  "getAllNetworks m = map snd (networks m)"

definition getItemNetwork :: "u64 \<Rightarrow> manager \<Rightarrow> pipe_net option" where
  "getItemNetwork nid m = Option.bind (um_find (nodeToNetwork m) nid) (um_find (networks m))"

definition findNodeAtPosition :: "i32 \<Rightarrow> i32 \<Rightarrow> i32 \<Rightarrow> manager \<Rightarrow> u64" where
  "findNodeAtPosition x y z m =
     (case um_find (node_by_pos m) (pipePosKey x y z) of None \<Rightarrow> 0 | Some nid \<Rightarrow> nid)"

definition fluidAmount :: "u64 \<Rightarrow> u32 \<Rightarrow> manager \<Rightarrow> int" where
  "fluidAmount nid fid m =
     (case um_find (nodes m) nid of
        None \<Rightarrow> 0
      | Some n \<Rightarrow> if fluidId n \<noteq> 0 \<and> fluidId n \<noteq> fid then 0 else fluidBuffer n)"

definition exportItemBuffers :: "manager \<Rightarrow> (u64, item_slot list) umap" where
  "exportItemBuffers m =
     fold (\<lambda>(nid, n) r. if itemBuffer n \<noteq> [] then um_put nid (itemBuffer n) r else r) (nodes m) []"

definition importItemBuffers :: "(u64, item_slot list) umap \<Rightarrow> manager \<Rightarrow> manager" where
  "importItemBuffers bufs m =
     fold (\<lambda>(nid, items). modify_node nid (\<lambda>n. n\<lparr>itemBuffer := items\<rparr>)) bufs m"

section \<open>Wrench guidance\<close>

datatype wrench_guidance = NOT_A_PIPE | CONNECT_PIPES | CONNECT_TO_MACHINE | CONNECTED

definition face_offsets :: "(i32 \<times> i32 \<times> i32) list" where
  "face_offsets = [(0, -1, 0), (0, 1, 0), (0, 0, -1), (0, 0, 1), (-1, 0, 0), (1, 0, 0)]"

fun wrench_scan ::
  "(u64, u64) umap \<Rightarrow> (u64, u64) umap \<Rightarrow> i32 \<Rightarrow> i32 \<Rightarrow> i32 \<Rightarrow> (i32 \<times> i32 \<times> i32) list \<Rightarrow> bool \<Rightarrow> bool \<Rightarrow> bool \<times> bool"
where
  "wrench_scan pn mn x y z [] pipe mach = (pipe, mach)"
| "wrench_scan pn mn x y z ((dx, dy, dz) # fs) pipe mach =
     (let k = pipePosKey (x + dx) (y + dy) (z + dz) in
      if um_contains pn k then wrench_scan pn mn x y z fs True mach
      else if um_contains mn k then wrench_scan pn mn x y z fs pipe True
      else wrench_scan pn mn x y z fs pipe mach)"

definition evaluatePipeWrench ::
  "(u64, u64) umap \<Rightarrow> (u64, u64) umap \<Rightarrow> i32 \<Rightarrow> i32 \<Rightarrow> i32 \<Rightarrow> wrench_guidance \<times> u64"
where
  "evaluatePipeWrench pn mn x y z =
     (case um_find pn (pipePosKey x y z) of
        None \<Rightarrow> (NOT_A_PIPE, 0)
      | Some nid \<Rightarrow>
          (case wrench_scan pn mn x y z face_offsets False False of
             (pipe, mach) \<Rightarrow>
               (if mach then CONNECTED else if pipe then CONNECT_TO_MACHINE else CONNECT_PIPES, nid)))"

section \<open>Lemmas on the node table\<close>

lemma um_find_modify [um_simps]:
  "um_find (um_modify k f m) j = (if j = k then map_option f (um_find m k) else um_find m j)"
  by (auto simp: um_modify_def um_simps split: option.splits)

lemma um_wf_modify [simp, intro]: "um_wf m \<Longrightarrow> um_wf (um_modify k f m)"
  by (simp add: um_modify_def split: option.splits)

lemma um_modify_keys: "map fst (um_modify k f m) = map fst m"
proof (cases "um_find m k")
  case (Some v)
  then have "k \<in> set (map fst m)" by (metis list.set_map map_of_eq_None_iff option.distinct(1))
  then have "map fst (um_put k (f v) m) = map fst m"
    by (induction m) (auto simp: image_iff)
  then show ?thesis by (simp add: um_modify_def Some)
qed (simp add: um_modify_def)

lemma um_modify_absent: "um_find m k = None \<Longrightarrow> um_modify k f m = m"
  by (simp add: um_modify_def)

lemma um_find_add [um_simps]:
  "um_find (um_add k d m) = (um_find m)(k \<mapsto> (case um_find m k of None \<Rightarrow> 0 | Some v \<Rightarrow> v) + d)"
  by (simp add: um_add_def um_simps)

lemma um_wf_add [simp, intro]: "um_wf m \<Longrightarrow> um_wf (um_add k d m)"
  by (simp add: um_add_def)

text \<open>Summing a quantity over the nodes.\<close>

definition node_sum :: "(pipe_node \<Rightarrow> int) \<Rightarrow> (u64, pipe_node) umap \<Rightarrow> int" where
  "node_sum q m = sum_list (map (\<lambda>(_, n). q n) m)"

lemma node_sum_modify:
  "um_find m k = Some n \<Longrightarrow> node_sum q (um_modify k f m) = node_sum q m - q n + q (f n)"
proof -
  assume k: "um_find m k = Some n"
  have "node_sum q (um_put k (f n) m) = node_sum q m - q n + q (f n)"
    using k by (induction m) (auto simp: node_sum_def split: if_splits)
  then show ?thesis using k by (simp add: um_modify_def)
qed

end
