(* ===== verification/PipeTopology.thy ===== *)
theory PipeTopology
  imports PipeTypes
begin

text \<open>
  Ports, nodes, edges and networks of \<open>PipeNetworkManager\<close>
  (\<open>src/apps/pipe_network/PipeNetwork.cpp\<close>): registration of typed ports and their projection into
  the resource domains of the node at their position, the node and edge tables, and the rebuild of
  the connected components. \<open>Flood\<close> provides the breadth-first search.
\<close>

section \<open>Ports\<close>

text \<open>\<open>projectNodeDomain\<close>: roles are or-ed, rate and mask take the most permissive value.\<close>

definition merge_port :: "resource_kind \<Rightarrow> pipe_node \<Rightarrow> port_key \<times> resource_port \<Rightarrow> domain_state \<Rightarrow> domain_state" where
  "merge_port k n e st =
     (case e of ((owner, kind, pid), p) \<Rightarrow>
        if kind \<noteq> k then st
        else if px p \<noteq> nx n \<or> py p \<noteq> ny n \<or> pz p \<noteq> nz n then st
        else \<lparr>is_source = is_source st \<or> role p = SOURCE, is_sink = is_sink st \<or> role p = SINK,
              rate = max (rate st) (port_rate p), face_mask = face_mask st OR port_face_mask p\<rparr>)"

definition project_state :: "(port_key, resource_port) umap \<Rightarrow> resource_kind \<Rightarrow> pipe_node \<Rightarrow> domain_state" where
  "project_state ps k n = fold (merge_port k n) ps domain_default"

definition projectNodeDomain :: "u64 \<Rightarrow> resource_kind \<Rightarrow> manager \<Rightarrow> manager" where
  "projectNodeDomain nid k m =
     modify_node nid (\<lambda>n. n\<lparr>domains := (domains n)(k := project_state (ports m) k n)\<rparr>) m"

definition registerPort :: "resource_port \<Rightarrow> manager \<Rightarrow> manager \<times> bool" where
  "registerPort p m =
     (if \<not> port_valid p then (m, False)
      else
        let key = (owner_id p, port_kind p, port_id p);
            store = (\<lambda>m. let m = m\<lparr>ports := um_put key p (ports m)\<rparr>
                        in (projectNodeDomain (findNodeAtPosition (px p) (py p) (pz p) m) (port_kind p) m, True))
        in (case um_find (ports m) key of
              None \<Rightarrow> store m
            | Some old \<Rightarrow> if epoch p < epoch old then (m, False) else store m))"

definition removePortEpoch :: "u64 \<Rightarrow> resource_kind \<Rightarrow> u64 \<Rightarrow> u64 \<Rightarrow> manager \<Rightarrow> manager \<times> bool" where
  "removePortEpoch owner k pid ep m =
     (if pid = 0 then (m, False)
      else
        let key = (owner, k, pid)
        in (case um_find (ports m) key of
              None \<Rightarrow> (m, False)
            | Some p \<Rightarrow>
                if epoch p \<noteq> ep then (m, False)
                else
                  let m = m\<lparr>ports := um_erase key (ports m)\<rparr>
                  in (projectNodeDomain (findNodeAtPosition (px p) (py p) (pz p) m) k m, True)))"

definition removePort :: "u64 \<Rightarrow> resource_kind \<Rightarrow> u64 \<Rightarrow> manager \<Rightarrow> manager \<times> bool" where
  "removePort owner k pid m =
     (if pid = 0 then (m, False)
      else
        let key = (owner, k, pid)
        in (case um_find (ports m) key of
              None \<Rightarrow> (m, False)
            | Some p \<Rightarrow>
                let m = m\<lparr>ports := um_erase key (ports m)\<rparr>
                in (projectNodeDomain (findNodeAtPosition (px p) (py p) (pz p) m) k m, True)))"

definition reproject :: "port_key \<times> resource_port \<Rightarrow> manager \<Rightarrow> manager" where
  "reproject e m = (case e of ((_, k, _), p) \<Rightarrow>
     projectNodeDomain (findNodeAtPosition (px p) (py p) (pz p) m) k m)"

definition removePortsForOwner :: "u64 \<Rightarrow> manager \<Rightarrow> manager \<times> nat" where
  "removePortsForOwner owner m =
     (let affected = filter (\<lambda>((ow, _, _), _). ow = owner) (ports m);
          m = m\<lparr>ports := um_erase_if (\<lambda>(ow, _, _) _. ow = owner) (ports m)\<rparr>
      in (fold reproject affected m, length affected))"

definition getPort :: "u64 \<Rightarrow> resource_kind \<Rightarrow> u64 \<Rightarrow> manager \<Rightarrow> resource_port option" where
  "getPort owner k pid m = um_find (ports m) (owner, k, pid)"

definition hasPort :: "u64 \<Rightarrow> resource_kind \<Rightarrow> u64 \<Rightarrow> manager \<Rightarrow> bool" where
  "hasPort owner k pid m \<longleftrightarrow> getPort owner k pid m \<noteq> None"

definition getRegisteredPorts :: "manager \<Rightarrow> resource_port list" where
  "getRegisteredPorts m = map snd (ports m)"

section \<open>Rebuilding the networks\<close>

definition edge_pairs :: "manager \<Rightarrow> (u64 \<times> u64) list" where
  "edge_pairs m = map (\<lambda>(_, e). (fromNode e, toNode e)) (edges m)"

text \<open>The component loop body of \<open>rebuildNetworks\<close> up to the insertion into \<open>networks_\<close>.\<close>

definition fluid_scan :: "(u64, pipe_node) umap \<Rightarrow> u64 \<Rightarrow> u32 \<times> bool \<Rightarrow> u32 \<times> bool" where
  "fluid_scan ns cnid acc =
     (case um_find ns cnid of
        None \<Rightarrow> acc
      | Some n \<Rightarrow>
          (case acc of (firstFluidId, mixed) \<Rightarrow>
             if fluidId n \<noteq> 0
             then (if firstFluidId = 0 then (fluidId n, mixed)
                   else if fluidId n \<noteq> firstFluidId then (firstFluidId, True) else acc)
             else acc))"

definition sum_found :: "(pipe_node \<Rightarrow> int) \<Rightarrow> (u64, pipe_node) umap \<Rightarrow> u64 list \<Rightarrow> int" where
  "sum_found q ns ids = sum_list (map (\<lambda>i. case um_find ns i of None \<Rightarrow> 0 | Some n \<Rightarrow> q n) ids)"

definition make_net :: "(u64, pipe_node) umap \<Rightarrow> u64 \<Rightarrow> u64 list \<Rightarrow> pipe_net" where
  "make_net ns netId component =
     (case fold (fluid_scan ns) component (0, False) of (firstFluidId, mixed) \<Rightarrow>
        \<lparr>net_id = netId, nodeIds = component, totalEnergy = sum_found energyBuffer ns component,
         totalFluid = sum_found fluidBuffer ns component,
         netFluidId = (if mixed then 0 else firstFluidId), isActive = False, itemNodes = []\<rparr>)"

text \<open>The body of \<open>rebuildItemNetworks\<close>; the transfer rate it computes is always 1 and is left out.\<close>

definition make_item_net :: "(u64, pipe_node) umap \<Rightarrow> u64 \<Rightarrow> u64 list \<Rightarrow> pipe_net" where
  "make_item_net ns netId component =
     \<lparr>net_id = netId, nodeIds = component, totalEnergy = sum_found energyBuffer ns component,
      totalFluid = sum_found fluidBuffer ns component, netFluidId = 0, isActive = False,
      itemNodes = filter (\<lambda>c. case um_find ns c of None \<Rightarrow> False | Some n \<Rightarrow> itemCapacity n > 0) component\<rparr>"

record rebuild =
  rb_visited :: "u64 list"
  rb_next :: u64
  rb_n2n :: "(u64, u64) umap"
  rb_nets :: "(u64, pipe_net) umap"

definition rebuild_node ::
  "(u64 \<times> u64) list \<Rightarrow> (u64 \<Rightarrow> u64 list \<Rightarrow> pipe_net) \<Rightarrow> (u64 \<Rightarrow> bool) \<Rightarrow> u64 \<Rightarrow> rebuild \<Rightarrow> rebuild"
where
  "rebuild_node es mk known nid rb =
     (if nid \<in> set (rb_visited rb) then rb
      else
        (case bfs es nid (rb_visited rb) of (visited, component) \<Rightarrow>
           if component = [] then rb\<lparr>rb_visited := visited\<rparr>
           else
             let netId = rb_next rb
             in \<lparr>rb_visited = visited, rb_next = netId + 1,
                 rb_n2n = fold (\<lambda>c. um_put c netId) (filter known component) (rb_n2n rb),
                 rb_nets = um_put netId (mk netId component) (rb_nets rb)\<rparr>))"

definition rebuild_all ::
  "(u64 \<times> u64) list \<Rightarrow> (u64 \<Rightarrow> u64 list \<Rightarrow> pipe_net) \<Rightarrow> (u64 \<Rightarrow> bool) \<Rightarrow> u64 \<Rightarrow> u64 list \<Rightarrow> rebuild"
where
  "rebuild_all es mk known next ids =
     fold (rebuild_node es mk known) ids \<lparr>rb_visited = [], rb_next = next, rb_n2n = [], rb_nets = []\<rparr>"

definition install :: "rebuild \<Rightarrow> manager \<Rightarrow> manager" where
  "install rb m = m\<lparr>nodeToNetwork := rb_n2n rb, networks := rb_nets rb, nextNetworkId := rb_next rb\<rparr>"

definition rebuildNetworks :: "manager \<Rightarrow> manager" where
  "rebuildNetworks m =
     install (rebuild_all (edge_pairs m) (make_net (nodes m)) (um_contains (nodes m)) (nextNetworkId m)
                (map fst (nodes m))) m"

definition rebuildItemNetworks :: "manager \<Rightarrow> manager" where
  "rebuildItemNetworks m =
     install (rebuild_all (edge_pairs m) (make_item_net (nodes m)) (\<lambda>_. True) (nextNetworkId m)
                (map fst (nodes m))) m"

definition discoverNetwork :: "u64 \<Rightarrow> manager \<Rightarrow> u64 list" where
  "discoverNetwork start m =
     (if um_find (nodes m) start = None then [] else snd (bfs (edge_pairs m) start []))"

section \<open>Nodes and edges\<close>

definition all_kinds :: "resource_kind list" where
  "all_kinds = [FLUID, EU, HU, RU, ITEM]"

definition indexNodePosition :: "u64 \<Rightarrow> i32 \<Rightarrow> i32 \<Rightarrow> i32 \<Rightarrow> manager \<Rightarrow> manager" where
  "indexNodePosition nid x y z m =
     fold (projectNodeDomain nid) all_kinds (m\<lparr>node_by_pos := um_put (pipePosKey x y z) nid (node_by_pos m)\<rparr>)"

definition fresh_node :: "u64 \<Rightarrow> i32 \<Rightarrow> i32 \<Rightarrow> i32 \<Rightarrow> u16 \<Rightarrow> pipe_node" where
  "fresh_node nid x y z blockId =
     \<lparr>node_id = nid, nx = x, ny = y, nz = z, block_id = blockId, node_meta = 0, energyBuffer = 0,
      energyCapacity = 0, fluidBuffer = 0,
      fluidCapacity = (if blockId = BLOCK_ID_FLUID_PIPE then 1000
                       else if blockId = BLOCK_ID_DENSE_FLUID_PIPE then 4000 else 0),
      fluidId = 0, itemBuffer = [],
      itemCapacity = (if blockId = BLOCK_ID_ITEM_PIPE then 4
                      else if blockId = BLOCK_ID_DENSE_ITEM_PIPE then 16 else 0),
      heatStored = 0, heatCapacity = (if blockId = BLOCK_ID_HEAT_PIPE then 1000 else 0),
      side_config = replicate 6 0, domains = (\<lambda>_. domain_default)\<rparr>"

text \<open>\<open>while (nodes_.find(nextNodeId_) != end) ++nextNodeId_;\<close> with the number of tries left; one more
  try than there are nodes always finds a free id.\<close>

primrec next_free :: "nat \<Rightarrow> (u64, pipe_node) umap \<Rightarrow> u64 \<Rightarrow> u64 option" where
  "next_free 0 ns i = None"
| "next_free (Suc n) ns i = (if um_find ns i \<noteq> None then next_free n ns (i + 1) else Some i)"

definition place_node :: "u64 \<Rightarrow> i32 \<Rightarrow> i32 \<Rightarrow> i32 \<Rightarrow> u16 \<Rightarrow> manager \<Rightarrow> manager" where
  "place_node nid x y z blockId m =
     rebuildNetworks (indexNodePosition nid x y z
       (m\<lparr>nodes := um_put nid (fresh_node nid x y z blockId) (nodes m)\<rparr>))"

definition addNode :: "i32 \<Rightarrow> i32 \<Rightarrow> i32 \<Rightarrow> u16 \<Rightarrow> manager \<Rightarrow> (manager \<times> u64) option" where
  "addNode x y z blockId m =
     (case next_free (Suc (length (nodes m))) (nodes m) (nextNodeId m) of
        None \<Rightarrow> None
      | Some nid \<Rightarrow> Some (place_node nid x y z blockId (m\<lparr>nextNodeId := nid + 1\<rparr>), nid))"

definition addNodeWithId :: "u64 \<Rightarrow> i32 \<Rightarrow> i32 \<Rightarrow> i32 \<Rightarrow> u16 \<Rightarrow> manager \<Rightarrow> manager \<times> bool" where
  "addNodeWithId nid x y z blockId m =
     (if um_find (nodes m) nid \<noteq> None then (m, False) else (place_node nid x y z blockId m, True))"

definition incident :: "u64 \<Rightarrow> pipe_edge \<Rightarrow> bool" where
  "incident nid e \<longleftrightarrow> fromNode e = nid \<or> toNode e = nid"

definition removeNode :: "u64 \<Rightarrow> manager \<Rightarrow> manager" where
  "removeNode nid m =
     (case um_find (nodes m) nid of
        None \<Rightarrow> m
      | Some n \<Rightarrow>
          let key = pipePosKey (nx n) (ny n) (nz n)
          in rebuildNetworks (m\<lparr>edges := um_erase_if (\<lambda>_. incident nid) (edges m),
               node_by_pos := (if um_find (node_by_pos m) key = Some nid then um_erase key (node_by_pos m)
                               else node_by_pos m),
               nodes := um_erase nid (nodes m)\<rparr>))"

definition joins :: "u64 \<Rightarrow> u64 \<Rightarrow> u64 \<times> pipe_edge \<Rightarrow> bool" where
  "joins a b e \<longleftrightarrow> (fromNode (snd e) = a \<and> toNode (snd e) = b) \<or> (fromNode (snd e) = b \<and> toNode (snd e) = a)"

definition put_edge :: "u64 \<Rightarrow> u64 \<Rightarrow> u32 \<Rightarrow> manager \<Rightarrow> manager" where
  "put_edge a b res m =
     m\<lparr>edges := um_put (nextEdgeId m) \<lparr>edge_id = nextEdgeId m, fromNode = a, toNode = b, resistance = res\<rparr> (edges m),
       nextEdgeId := nextEdgeId m + 1\<rparr>"

definition addEdge :: "u64 \<Rightarrow> u64 \<Rightarrow> u32 \<Rightarrow> manager \<Rightarrow> manager \<times> u64" where
  "addEdge a b res m =
     (if um_find (nodes m) a = None \<or> um_find (nodes m) b = None then (m, 0)
      else (case find (joins a b) (edges m) of
              Some (eid, _) \<Rightarrow> (m, eid)
            | None \<Rightarrow> (rebuildNetworks (put_edge a b res m), nextEdgeId m)))"

definition addEdges_step :: "u32 \<Rightarrow> u64 \<times> u64 \<Rightarrow> manager \<times> nat \<Rightarrow> manager \<times> nat" where
  "addEdges_step res ab st =
     (case ab of (a, b) \<Rightarrow> case st of (m, added) \<Rightarrow>
        if um_find (nodes m) a = None \<or> um_find (nodes m) b = None then (m, added)
        else if find (joins a b) (edges m) \<noteq> None then (m, added)
        else (put_edge a b res m, added + 1))"

definition addEdges :: "(u64 \<times> u64) list \<Rightarrow> u32 \<Rightarrow> manager \<Rightarrow> manager \<times> nat" where
  "addEdges prs res m =
     (case fold (addEdges_step res) prs (m, 0) of
        (m', added) \<Rightarrow> (if added \<noteq> 0 then rebuildNetworks m' else m', added))"

definition removeEdge :: "u64 \<Rightarrow> manager \<Rightarrow> manager" where
  "removeEdge eid m = rebuildNetworks (m\<lparr>edges := um_erase eid (edges m)\<rparr>)"

definition removeEdgesForNode :: "u64 \<Rightarrow> manager \<Rightarrow> manager" where
  "removeEdgesForNode nid m =
     rebuildNetworks (m\<lparr>edges := um_erase_if (\<lambda>_. incident nid) (edges m)\<rparr>)"

end
