(* ===== verification/PipeRebuild.thy ===== *)
theory PipeRebuild
  imports PipeTopology
begin

text \<open>
  What \<open>rebuildNetworks\<close> establishes: the networks of the manager are the connected components of
  its edge graph. \<open>rebuilt\<close> is the loop invariant over the nodes visited so far, \<open>networks_ok\<close> the
  result, and \<open>topo_run\<close> runs any sequence of the operations that change nodes, edges, ports or one
  node's fields from the empty manager.
\<close>

section \<open>The rebuild loop\<close>

definition rebuilt ::
  "(u64 \<times> u64) list \<Rightarrow> (u64 \<Rightarrow> u64 list \<Rightarrow> pipe_net) \<Rightarrow> (u64 \<Rightarrow> bool) \<Rightarrow> u64 \<Rightarrow> u64 list \<Rightarrow> rebuild \<Rightarrow> bool"
where
  "rebuilt es mk known next ids rb \<longleftrightarrow>
     closed_under es (set (rb_visited rb)) \<and> set ids \<subseteq> set (rb_visited rb) \<and>
     (\<forall>b \<in> set (rb_visited rb). \<exists>a \<in> set ids. connected es a b) \<and>
     length (rb_nets rb) \<le> length ids \<and> rb_next rb = next + of_nat (length (rb_nets rb)) \<and>
     (\<forall>k. um_find (rb_nets rb) k \<noteq> None \<longrightarrow> (\<exists>j < length (rb_nets rb). k = next + of_nat j)) \<and>
     (\<forall>b. b \<notin> set (rb_visited rb) \<or> \<not> known b \<longrightarrow> um_find (rb_n2n rb) b = None) \<and>
     (\<forall>b \<in> set (rb_visited rb). known b \<longrightarrow>
        (\<exists>k cmp. um_find (rb_n2n rb) b = Some k \<and> um_find (rb_nets rb) k = Some (mk k cmp) \<and>
           distinct cmp \<and> set cmp = {c. connected es b c})) \<and>
     (\<forall>k net. um_find (rb_nets rb) k = Some net \<longrightarrow>
        (\<exists>b \<in> set ids. \<exists>cmp. net = mk k cmp \<and> distinct cmp \<and> set cmp = {c. connected es b c} \<and>
           (known b \<longrightarrow> um_find (rb_n2n rb) b = Some k))) \<and>
     (\<forall>b c. connected es b c \<longrightarrow> b \<in> set (rb_visited rb) \<longrightarrow> known b \<longrightarrow> known c \<longrightarrow>
        um_find (rb_n2n rb) b = um_find (rb_n2n rb) c)"

lemma um_find_fold_put:
  "um_find (fold (\<lambda>c. um_put c v) ks m) = (\<lambda>k. if k \<in> set ks then Some v else um_find m k)"
  by (induction ks arbitrary: m) (auto simp: um_simps fun_eq_iff)

lemma um_wf_fold_put: "um_wf m \<Longrightarrow> um_wf (fold (\<lambda>c. um_put c v) ks m)"
  by (induction ks arbitrary: m) auto

lemma of_nat_u64_inj: "(of_nat i :: u64) = of_nat j \<Longrightarrow> i < 2 ^ 64 \<Longrightarrow> j < 2 ^ 64 \<Longrightarrow> i = j"
  using word_of_nat_eq_iff[where 'a = 64, of i j] by (simp add: take_bit_nat_eq_self)

lemma component_eq:
  assumes "connected es a b"
  shows "{c. connected es a c} = {c. connected es b c}"
  using connected_trans[OF connected_sym[OF assms]] connected_trans[OF assms] by blast

lemma rebuilt_empty: "rebuilt es mk known next [] \<lparr>rb_visited = [], rb_next = next, rb_n2n = [], rb_nets = []\<rparr>"
  by (simp add: rebuilt_def closed_under_def)

lemma rebuilt_node:
  assumes inv: "rebuilt es mk known next ids rb" and len: "length ids < 2 ^ 64"
  shows "rebuilt es mk known next (ids @ [nid]) (rebuild_node es mk known nid rb)"
proof (cases "nid \<in> set (rb_visited rb)")
  case True
  with inv show ?thesis by (auto simp: rebuild_node_def rebuilt_def)
next
  case new: False
  obtain vis cmp where b: "bfs es nid (rb_visited rb) = (vis, cmp)" by force
  have closed: "closed_under es (set (rb_visited rb))" using inv by (simp add: rebuilt_def)
  note comp = bfs_component[OF b closed new]
  have ne: "cmp \<noteq> []" by (metis comp(2) connected_refl empty_iff list.set(1) mem_Collect_eq)
  define k where "k = rb_next rb"
  define L where "L = length (rb_nets rb)"
  have k: "k = next + of_nat L" and L: "L \<le> length ids" using inv by (auto simp: rebuilt_def k_def L_def)
  have fresh: "um_find (rb_nets rb) k = None"
  proof (rule ccontr)
    assume "um_find (rb_nets rb) k \<noteq> None"
    then obtain j where j: "j < L" "k = next + of_nat j" using inv unfolding rebuilt_def L_def by blast
    then have "(of_nat j :: u64) = of_nat L" using k by simp
    from of_nat_u64_inj[OF this] j(1) L len show False by simp
  qed
  have grown: "length (um_put k (mk k cmp) (rb_nets rb)) = Suc L"
    using um_put_length_absent[OF fresh] by (simp add: L_def)
  define rb' where "rb' = \<lparr>rb_visited = vis, rb_next = k + 1,
      rb_n2n = fold (\<lambda>c. um_put c k) (filter known cmp) (rb_n2n rb),
      rb_nets = um_put k (mk k cmp) (rb_nets rb)\<rparr>"
  have step: "rebuild_node es mk known nid rb = rb'"
    using new ne by (simp add: rebuild_node_def b Let_def rb'_def k_def)
  have closed': "closed_under es (set vis)"
    using closed_Un[OF closed closed_component[of es nid]] comp(2,3) by simp
  have disjoint: "c \<notin> set cmp" if "c \<in> set (rb_visited rb)" for c
  proof
    assume "c \<in> set cmp"
    then have "connected es c nid" using comp(2) connected_sym by fast
    from closed_connected[OF closed that this] new show False by simp
  qed
  have nets': "um_find (rb_nets rb') = (um_find (rb_nets rb))(k \<mapsto> mk k cmp)"
    by (simp add: rb'_def um_simps)
  have n2n': "um_find (rb_n2n rb') c = (if c \<in> set cmp \<and> known c then Some k else um_find (rb_n2n rb) c)" for c
    by (simp add: rb'_def um_find_fold_put)
  have keys: "\<exists>j < Suc L. k' = next + of_nat j" if "um_find (rb_nets rb') k' \<noteq> None" for k'
  proof (cases "k' = k")
    case False
    with that have "um_find (rb_nets rb) k' \<noteq> None" by (simp add: nets')
    then obtain j where "j < L" "k' = next + of_nat j" using inv unfolding rebuilt_def L_def by blast
    then show ?thesis by (intro exI[of _ j]) simp
  qed (use k in auto)
  have absent: "um_find (rb_n2n rb') c = None" if "c \<notin> set vis \<or> \<not> known c" for c
    using that inv comp(3) unfolding rebuilt_def by (auto simp: n2n')
  have present: "\<exists>k' cmp'. um_find (rb_n2n rb') c = Some k' \<and> um_find (rb_nets rb') k' = Some (mk k' cmp') \<and>
      distinct cmp' \<and> set cmp' = {d. connected es c d}" if c: "c \<in> set vis" "known c" for c
  proof (cases "c \<in> set cmp")
    case True
    then have "connected es nid c" using comp(2) by simp
    from component_eq[OF this] show ?thesis
      using True c(2) comp(1,2) by (intro exI[of _ k] exI[of _ cmp]) (simp add: n2n' nets')
  next
    case False
    then have "c \<in> set (rb_visited rb)" using c comp(3) by simp
    then obtain k' cmp' where o: "um_find (rb_n2n rb) c = Some k'" "um_find (rb_nets rb) k' = Some (mk k' cmp')"
      "distinct cmp'" "set cmp' = {d. connected es c d}" using inv c(2) unfolding rebuilt_def by blast
    then have "k' \<noteq> k" using fresh by auto
    then show ?thesis using o False by (intro exI[of _ k'] exI[of _ cmp']) (simp add: n2n' nets')
  qed
  have back_: "\<exists>c \<in> set (ids @ [nid]). \<exists>cmp'. net = mk k' cmp' \<and> distinct cmp' \<and> set cmp' = {d. connected es c d} \<and>
      (known c \<longrightarrow> um_find (rb_n2n rb') c = Some k')" if f: "um_find (rb_nets rb') k' = Some net" for k' net
  proof (cases "k' = k")
    case True
    then have "net = mk k' cmp" using f by (simp add: nets')
    moreover have "nid \<in> set cmp" using comp(2) by simp
    ultimately show ?thesis using True comp(1,2) by (intro bexI[of _ nid] exI[of _ cmp]) (auto simp: n2n')
  next
    case False
    then have "um_find (rb_nets rb) k' = Some net" using f by (simp add: nets')
    then obtain c cmp' where c: "c \<in> set ids" "net = mk k' cmp'" "distinct cmp'" "set cmp' = {d. connected es c d}"
      "known c \<longrightarrow> um_find (rb_n2n rb) c = Some k'" using inv unfolding rebuilt_def by blast
    have "c \<in> set (rb_visited rb)" using c(1) inv by (auto simp: rebuilt_def)
    then show ?thesis using c disjoint by (intro bexI[of _ c] exI[of _ cmp']) (auto simp: n2n')
  qed
  have same: "um_find (rb_n2n rb') b = um_find (rb_n2n rb') c"
    if h: "connected es b c" "b \<in> set vis" "known b" "known c" for b c
  proof (cases "b \<in> set cmp")
    case True
    then have "connected es nid b" using comp(2) by simp
    from connected_trans[OF this h(1)] have "c \<in> set cmp" using comp(2) by simp
    then show ?thesis using True h(3,4) by (simp add: n2n')
  next
    case False
    then have b: "b \<in> set (rb_visited rb)" using h(2) comp(3) by simp
    then have "c \<in> set (rb_visited rb)" using h(1) closed_connected[OF closed] by blast
    then have "c \<notin> set cmp" by (rule disjoint)
    moreover have "um_find (rb_n2n rb) b = um_find (rb_n2n rb) c"
      using inv h b unfolding rebuilt_def by blast
    ultimately show ?thesis using False by (simp add: n2n')
  qed
  have reach: "\<exists>a \<in> set (ids @ [nid]). connected es a b" if b: "b \<in> set vis" for b
  proof (cases "b \<in> set cmp")
    case False
    then have "b \<in> set (rb_visited rb)" using b comp(3) by simp
    then show ?thesis using inv unfolding rebuilt_def by fastforce
  qed (simp add: comp(2))
  have vis: "set (ids @ [nid]) \<subseteq> set (rb_visited rb')"
    using inv comp(2,3) by (auto simp: rebuilt_def rb'_def)
  have visited': "rb_visited rb' = vis" by (simp add: rb'_def)
  have sizes: "length (rb_nets rb') \<le> length (ids @ [nid])"
    "rb_next rb' = next + of_nat (length (rb_nets rb'))" "length (rb_nets rb') = Suc L"
    using grown k L by (simp_all add: rb'_def add.assoc add.commute)
  show ?thesis
    unfolding step rebuilt_def visited'
  proof (intro conjI)
    show "closed_under es (set vis)" by (rule closed')
    show "set (ids @ [nid]) \<subseteq> set vis" using vis by (simp only: visited')
    show "\<forall>b \<in> set vis. \<exists>a \<in> set (ids @ [nid]). connected es a b" using reach by (rule ballI)
    show "length (rb_nets rb') \<le> length (ids @ [nid])" by (rule sizes(1))
    show "rb_next rb' = next + of_nat (length (rb_nets rb'))" by (rule sizes(2))
    show "\<forall>k. um_find (rb_nets rb') k \<noteq> None \<longrightarrow> (\<exists>j < length (rb_nets rb'). k = next + of_nat j)"
      unfolding sizes(3) using keys by (intro allI impI)
    show "\<forall>b. b \<notin> set vis \<or> \<not> known b \<longrightarrow> um_find (rb_n2n rb') b = None"
      using absent by (intro allI impI)
    show "\<forall>b \<in> set vis. known b \<longrightarrow> (\<exists>k cmp. um_find (rb_n2n rb') b = Some k \<and>
        um_find (rb_nets rb') k = Some (mk k cmp) \<and> distinct cmp \<and> set cmp = {c. connected es b c})"
      using present by (intro ballI impI)
    show "\<forall>k net. um_find (rb_nets rb') k = Some net \<longrightarrow> (\<exists>b \<in> set (ids @ [nid]). \<exists>cmp. net = mk k cmp \<and>
        distinct cmp \<and> set cmp = {c. connected es b c} \<and> (known b \<longrightarrow> um_find (rb_n2n rb') b = Some k))"
      using back_ by (intro allI impI)
    show "\<forall>b c. connected es b c \<longrightarrow> b \<in> set vis \<longrightarrow> known b \<longrightarrow> known c \<longrightarrow>
        um_find (rb_n2n rb') b = um_find (rb_n2n rb') c"
      using same by (intro allI impI)
  qed
qed

lemma rebuilt_all:
  assumes "length ids \<le> 2 ^ 64"
  shows "rebuilt es mk known next ids (rebuild_all es mk known next ids)"
  using assms
proof (induction ids rule: rev_induct)
  case Nil
  then show ?case by (simp add: rebuild_all_def rebuilt_empty)
next
  case (snoc i ids)
  then have "rebuilt es mk known next ids (rebuild_all es mk known next ids)" "length ids < 2 ^ 64" by simp_all
  from rebuilt_node[OF this] show ?case by (simp add: rebuild_all_def)
qed

section \<open>Networks are connected components\<close>

definition edges_ok :: "manager \<Rightarrow> bool" where
  "edges_ok m \<longleftrightarrow> (\<forall>(i, e) \<in> set (edges m).
     um_find (nodes m) (fromNode e) \<noteq> None \<and> um_find (nodes m) (toNode e) \<noteq> None)"

definition networks_ok :: "manager \<Rightarrow> bool" where
  "networks_ok m \<longleftrightarrow>
     (\<forall>a. um_find (nodes m) a = None \<longrightarrow> um_find (nodeToNetwork m) a = None) \<and>
     (\<forall>a. um_find (nodes m) a \<noteq> None \<longrightarrow>
        (\<exists>k net. um_find (nodeToNetwork m) a = Some k \<and> um_find (networks m) k = Some net \<and> net_id net = k \<and>
           distinct (nodeIds net) \<and> set (nodeIds net) = {c. connected (edge_pairs m) a c})) \<and>
     (\<forall>k. um_find (networks m) k \<noteq> None \<longrightarrow>
        (\<exists>a. um_find (nodes m) a \<noteq> None \<and> um_find (nodeToNetwork m) a = Some k)) \<and>
     (\<forall>a b. um_find (nodes m) a \<noteq> None \<longrightarrow> um_find (nodes m) b \<noteq> None \<longrightarrow>
        (um_find (nodeToNetwork m) a = um_find (nodeToNetwork m) b \<longleftrightarrow> connected (edge_pairs m) a b))"

lemma um_wf_length_u64:
  fixes ns :: "(u64, 'v) umap"
  assumes "um_wf ns"
  shows "length ns \<le> 2 ^ 64"
proof -
  have "length ns = card (set (map fst ns))"
    using assms distinct_card[of "map fst ns"] by (simp add: um_wf_def)
  also have "\<dots> \<le> card (UNIV :: u64 set)" by (intro card_mono) auto
  finally show ?thesis by (simp add: card_word)
qed

lemma make_net_sel [simp]: "net_id (make_net ns k cmp) = k" "nodeIds (make_net ns k cmp) = cmp"
  by (simp_all add: make_net_def split: prod.splits)

lemma make_item_net_sel [simp]: "net_id (make_item_net ns k cmp) = k" "nodeIds (make_item_net ns k cmp) = cmp"
  by (simp_all add: make_item_net_def)

lemma connected_node:
  assumes "edges_ok m" "um_find (nodes m) a \<noteq> None" "connected (edge_pairs m) a b"
  shows "um_find (nodes m) b \<noteq> None"
proof -
  have "closed_under (edge_pairs m) {c. um_find (nodes m) c \<noteq> None}"
    using assms(1) by (auto simp: closed_under_def linked_def edge_pairs_def edges_ok_def split: prod.splits)
  from closed_connected[OF this _ assms(3)] assms(2) show ?thesis by simp
qed

lemma install_networks_ok:
  assumes wf: "um_wf (nodes m)" and e: "edges_ok m"
    and known: "\<And>a. um_find (nodes m) a \<noteq> None \<Longrightarrow> known a"
    and mk: "\<And>k cmp. net_id (mk k cmp) = k \<and> nodeIds (mk k cmp) = cmp"
  shows "networks_ok (install (rebuild_all (edge_pairs m) mk known next (map fst (nodes m))) m)"
proof -
  define es where "es = edge_pairs m"
  define rb where "rb = rebuild_all es mk known next (map fst (nodes m))"
  have inv: "rebuilt es mk known next (map fst (nodes m)) rb"
    unfolding rb_def using um_wf_length_u64[OF wf] by (intro rebuilt_all) simp
  have ids: "a \<in> set (map fst (nodes m)) \<longleftrightarrow> um_find (nodes m) a \<noteq> None" for a
    by (simp add: map_of_eq_None_iff)
  have "closed_under es (set (rb_visited rb))" "set (map fst (nodes m)) \<subseteq> set (rb_visited rb)"
    using inv by (simp_all add: rebuilt_def)
  then have vis: "a \<in> set (rb_visited rb)" if "um_find (nodes m) a \<noteq> None" for a
    using that ids by blast
  have present: "\<exists>k cmp. um_find (rb_n2n rb) a = Some k \<and> um_find (rb_nets rb) k = Some (mk k cmp) \<and>
      distinct cmp \<and> set cmp = {c. connected es a c}" if "um_find (nodes m) a \<noteq> None" for a
    using inv vis[OF that] known[OF that] unfolding rebuilt_def by blast
  have used: "\<exists>a. um_find (nodes m) a \<noteq> None \<and> um_find (rb_n2n rb) a = Some k"
    if k: "um_find (rb_nets rb) k \<noteq> None" for k
  proof -
    obtain net where "um_find (rb_nets rb) k = Some net" using k by auto
    then obtain b where "b \<in> set (map fst (nodes m))" "known b \<longrightarrow> um_find (rb_n2n rb) b = Some k"
      using inv unfolding rebuilt_def by blast
    then show ?thesis using ids known by blast
  qed
  have same: "um_find (rb_n2n rb) a = um_find (rb_n2n rb) b \<longleftrightarrow> connected es a b"
    if ab: "um_find (nodes m) a \<noteq> None" "um_find (nodes m) b \<noteq> None" for a b
  proof
    assume "connected es a b"
    then show "um_find (rb_n2n rb) a = um_find (rb_n2n rb) b"
      using inv vis[OF ab(1)] known[OF ab(1)] known[OF ab(2)] unfolding rebuilt_def by blast
  next
    assume eq: "um_find (rb_n2n rb) a = um_find (rb_n2n rb) b"
    obtain k cmp where k: "um_find (rb_n2n rb) a = Some k" "um_find (rb_nets rb) k = Some (mk k cmp)"
      "set cmp = {c. connected es a c}" using present[OF ab(1)] by blast
    obtain cmp' where k': "um_find (rb_nets rb) k = Some (mk k cmp')" "set cmp' = {c. connected es b c}"
      using present[OF ab(2)] eq k(1) by auto
    have "cmp = cmp'" using k(2) k'(1) mk by (metis option.inject)
    then have "{c. connected es a c} = {c. connected es b c}" using k(3) k'(2) by simp
    then show "connected es a b" using connected_refl[of es b] by (metis mem_Collect_eq)
  qed
  have "um_find (rb_n2n rb) a = None" if "um_find (nodes m) a = None" for a
  proof -
    have "a \<notin> set (rb_visited rb)"
    proof
      assume "a \<in> set (rb_visited rb)"
      then obtain b where "b \<in> set (map fst (nodes m))" "connected es b a"
        using inv unfolding rebuilt_def by blast
      then show False using connected_node[OF e] that ids unfolding es_def by blast
    qed
    then show ?thesis using inv unfolding rebuilt_def by blast
  qed
  note absent = this
  have nets: "\<exists>k net. um_find (rb_n2n rb) a = Some k \<and> um_find (rb_nets rb) k = Some net \<and> net_id net = k \<and>
      distinct (nodeIds net) \<and> set (nodeIds net) = {c. connected es a c}" if "um_find (nodes m) a \<noteq> None" for a
    using present[OF that] mk by metis
  have sel: "edge_pairs (install rb m) = es" "nodes (install rb m) = nodes m"
    "nodeToNetwork (install rb m) = rb_n2n rb" "networks (install rb m) = rb_nets rb"
    by (simp_all add: install_def edge_pairs_def es_def)
  have "networks_ok (install rb m)"
    unfolding networks_ok_def sel using absent nets used same by (intro conjI allI impI)
  then show ?thesis by (simp add: rb_def es_def)
qed

end
