(* ===== verification/PipePorts.thy ===== *)
theory PipePorts
  imports PipeOps
begin

text \<open>
  What the typed port registry promises. \<open>project_state\<close> is the join of the ports of a kind at a
  node's position; \<open>projected\<close> says that every indexed node carries that join in its domains, and is
  kept by every operation allowed by \<open>port_op\<close> (roles are not overwritten by a setter, a registered
  port does not move). Epochs of a key only grow.
\<close>

section \<open>The projection is the join of the ports at the node\<close>

definition at_node :: "resource_kind \<Rightarrow> pipe_node \<Rightarrow> port_key \<times> resource_port \<Rightarrow> bool" where
  "at_node k n e \<longleftrightarrow> fst (snd (fst e)) = k \<and> px (snd e) = nx n \<and> py (snd e) = ny n \<and> pz (snd e) = nz n"

lemma merge_port_at_node:
  "merge_port k n e st =
     (if at_node k n e
      then \<lparr>is_source = is_source st \<or> role (snd e) = SOURCE, is_sink = is_sink st \<or> role (snd e) = SINK,
            rate = max (rate st) (port_rate (snd e)), face_mask = face_mask st OR port_face_mask (snd e)\<rparr>
      else st)"
  by (auto simp: merge_port_def at_node_def split: prod.splits)

lemma fold_merge_filter: "fold (merge_port k n) ps st = fold (merge_port k n) (filter (at_node k n) ps) st"
  by (induction ps arbitrary: st) (auto simp: merge_port_at_node)

lemma project_state_filter: "project_state ps k n = project_state (filter (at_node k n) ps) k n"
  unfolding project_state_def by (rule fold_merge_filter)

lemma project_state_cong: "filter (at_node k n) ps = filter (at_node k n) ps' \<Longrightarrow> project_state ps k n = project_state ps' k n"
  using project_state_filter by metis

lemma project_state_domains [simp]: "project_state ps k (n\<lparr>domains := d\<rparr>) = project_state ps k n"
  unfolding project_state_def by (rule fold_cong) (auto simp: merge_port_def)

lemma fold_merge_join:
  "is_source (fold (merge_port k n) ps st) \<longleftrightarrow> is_source st \<or> (\<exists>e \<in> set ps. at_node k n e \<and> role (snd e) = SOURCE)"
  "is_sink (fold (merge_port k n) ps st) \<longleftrightarrow> is_sink st \<or> (\<exists>e \<in> set ps. at_node k n e \<and> role (snd e) = SINK)"
  "rate (fold (merge_port k n) ps st) = Max (insert (rate st) ((\<lambda>e. port_rate (snd e)) ` {e \<in> set ps. at_node k n e}))"
  "bit (face_mask (fold (merge_port k n) ps st)) i \<longleftrightarrow>
     bit (face_mask st) i \<or> (\<exists>e \<in> set ps. at_node k n e \<and> bit (port_face_mask (snd e)) i)"
proof (induction ps arbitrary: st)
  case (Cons e ps)
  { case 1 then show ?case using Cons by (auto simp: merge_port_at_node) }
  { case 2 then show ?case using Cons by (auto simp: merge_port_at_node) }
  { case 3
    have fin: "finite ((\<lambda>e. port_rate (snd e)) ` {e \<in> set ps. at_node k n e})" by simp
    have cut: "{e' \<in> set (e # ps). at_node k n e'} =
        (if at_node k n e then insert e {e \<in> set ps. at_node k n e} else {e \<in> set ps. at_node k n e})" by auto
    have Max_swap: "Max (insert (max a b) S) = Max (insert a (insert b S))" if "finite S" for a b :: int and S
      using that by (cases "S = {}") (simp_all add: max.assoc)
    have "rate (merge_port k n e st) = (if at_node k n e then max (rate st) (port_rate (snd e)) else rate st)"
      by (simp add: merge_port_at_node)
    then have "rate (fold (merge_port k n) (e # ps) st) =
        Max (insert (if at_node k n e then max (rate st) (port_rate (snd e)) else rate st)
          ((\<lambda>e. port_rate (snd e)) ` {e \<in> set ps. at_node k n e}))"
      by (simp only: fold_Cons o_apply Cons(3))
    then show ?case unfolding cut using Max_swap[OF fin] by (cases "at_node k n e") simp_all }
  { case 4 then show ?case using Cons(4) by (auto simp: merge_port_at_node bit_or_iff) }
qed simp_all

lemma project_state_join:
  "is_source (project_state ps k n) \<longleftrightarrow> (\<exists>e \<in> set ps. at_node k n e \<and> role (snd e) = SOURCE)"
  "is_sink (project_state ps k n) \<longleftrightarrow> (\<exists>e \<in> set ps. at_node k n e \<and> role (snd e) = SINK)"
  "rate (project_state ps k n) = Max (insert 0 ((\<lambda>e. port_rate (snd e)) ` {e \<in> set ps. at_node k n e}))"
  "bit (face_mask (project_state ps k n)) i \<longleftrightarrow> (\<exists>e \<in> set ps. at_node k n e \<and> bit (port_face_mask (snd e)) i)"
  unfolding project_state_def by (simp_all add: fold_merge_join domain_default_def)

section \<open>The invariant\<close>

definition indexed :: "manager \<Rightarrow> u64 \<Rightarrow> pipe_node \<Rightarrow> bool" where
  "indexed m nid n \<longleftrightarrow> um_find (nodes m) nid = Some n \<and>
     um_find (node_by_pos m) (pipePosKey (nx n) (ny n) (nz n)) = Some nid"

definition keyed :: "manager \<Rightarrow> bool" where
  "keyed m \<longleftrightarrow> um_wf (ports m) \<and> (\<forall>(key, p) \<in> set (ports m). key = (owner_id p, port_kind p, port_id p))"

text \<open>All domains are projected, except those of a kind and position in \<open>todo\<close>.\<close>

definition projected_but :: "(port_key \<times> resource_port) list \<Rightarrow> manager \<Rightarrow> bool" where
  "projected_but todo m \<longleftrightarrow> (\<forall>nid n k. indexed m nid n \<longrightarrow>
     domains n k = project_state (ports m) k n \<or> (\<exists>e \<in> set todo. at_node k n e))"

abbreviation projected :: "manager \<Rightarrow> bool" where
  "projected \<equiv> projected_but []"

lemma reproject_sel [simp]:
  "node_by_pos (reproject e m) = node_by_pos m" "ports (reproject e m) = ports m"
  by (simp_all add: reproject_def projectNodeDomain_def modify_node_def split: prod.splits)

lemma project_sel [simp]:
  "node_by_pos (projectNodeDomain t k m) = node_by_pos m" "ports (projectNodeDomain t k m) = ports m"
  by (simp_all add: projectNodeDomain_def modify_node_def)

lemma indexed_project:
  assumes "indexed (projectNodeDomain t k m) nid n"
  shows "\<exists>n0. indexed m nid n0 \<and> n = (if nid = t then n0\<lparr>domains := (domains n0)(k := project_state (ports m) k n0)\<rparr> else n0)"
  using assms by (auto simp: indexed_def projectNodeDomain_def modify_node_def um_simps split: if_splits)

lemma at_node_domains [simp]: "at_node k (n\<lparr>domains := d\<rparr>) e = at_node k n e"
  by (simp add: at_node_def)

lemma projected_project:
  assumes "projected_but todo m"
  shows "projected_but todo (projectNodeDomain t k m)"
  unfolding projected_but_def project_sel
proof (intro allI impI)
  fix nid n k' assume "indexed (projectNodeDomain t k m) nid n"
  then obtain n0 where n0: "indexed m nid n0"
    "n = (if nid = t then n0\<lparr>domains := (domains n0)(k := project_state (ports m) k n0)\<rparr> else n0)"
    using indexed_project by blast
  have "domains n0 k' = project_state (ports m) k' n0 \<or> (\<exists>e \<in> set todo. at_node k' n0 e)"
    using assms n0(1) unfolding projected_but_def by blast
  then show "domains n k' = project_state (ports m) k' n \<or> (\<exists>e \<in> set todo. at_node k' n e)"
    using n0(2) by (auto split: if_splits)
qed

lemma indexed_found: "indexed m nid n \<Longrightarrow> findNodeAtPosition (nx n) (ny n) (nz n) m = nid"
  by (simp add: indexed_def findNodeAtPosition_def)

text \<open>Projecting the node found at an entry's position discharges that entry.\<close>

lemma projected_reproject:
  assumes "projected_but (e # todo) m"
  shows "projected_but todo (reproject e m)"
  unfolding projected_but_def reproject_sel
proof (intro allI impI)
  obtain ow k pid p where e: "e = ((ow, k, pid), p)" by (metis prod_cases3 surj_pair)
  define t where "t = findNodeAtPosition (px p) (py p) (pz p) m"
  fix nid n k' assume "indexed (reproject e m) nid n"
  then obtain n0 where n0: "indexed m nid n0"
    "n = (if nid = t then n0\<lparr>domains := (domains n0)(k := project_state (ports m) k n0)\<rparr> else n0)"
    using indexed_project by (fastforce simp: reproject_def e t_def)
  have "domains n0 k' = project_state (ports m) k' n0 \<or> (\<exists>e \<in> set todo. at_node k' n0 e) \<or> at_node k' n0 e"
    using assms n0(1) unfolding projected_but_def by fastforce
  moreover have "nid = t \<and> k' = k" if "at_node k' n0 e"
    using that indexed_found[OF n0(1)] by (auto simp: at_node_def e t_def)
  ultimately show "domains n k' = project_state (ports m) k' n \<or> (\<exists>e \<in> set todo. at_node k' n e)"
    using n0(2) by (auto split: if_splits)
qed

lemma projected_reprojects: "projected_but todo m \<Longrightarrow> projected (fold reproject todo m)"
  by (induction todo arbitrary: m) (simp_all add: projected_reproject)

text \<open>Changing the port table leaves every node projected that sees the same ports as before.\<close>

lemma projected_ports:
  assumes "projected m"
    and "\<And>k n. filter (at_node k n) ps \<noteq> filter (at_node k n) (ports m) \<Longrightarrow> \<exists>e \<in> set todo. at_node k n e"
  shows "projected_but todo (m\<lparr>ports := ps\<rparr>)"
  unfolding projected_but_def
proof (intro allI impI)
  fix nid n k assume "indexed (m\<lparr>ports := ps\<rparr>) nid n"
  then have "domains n k = project_state (ports m) k n"
    using assms(1) unfolding projected_but_def indexed_def by fastforce
  then show "domains n k = project_state (ports (m\<lparr>ports := ps\<rparr>)) k n \<or> (\<exists>e \<in> set todo. at_node k n e)"
    using assms(2)[of k n] project_state_cong[of k n ps "ports m"]
    by (cases "filter (at_node k n) ps = filter (at_node k n) (ports m)") simp_all
qed

lemma filter_put_away:
  assumes "\<not> P (key, v)" "\<And>old. (key, old) \<in> set ps \<Longrightarrow> \<not> P (key, old)"
  shows "filter P (um_put key v ps) = filter P ps"
  using assms by (induction ps) auto

lemma filter_erase_away:
  assumes "\<And>old. (key, old) \<in> set ps \<Longrightarrow> \<not> P (key, old)"
  shows "filter P (um_erase key ps) = filter P ps"
  using assms by (induction ps) (auto simp: AList.delete_eq)

section \<open>Operations that keep the projection\<close>

text \<open>A setter of roles overrides the projection, and a port that is registered again under its key
  must keep its position.\<close>

fun port_op :: "topo_op \<Rightarrow> manager \<Rightarrow> bool" where
  "port_op (SetEnergy _ _ _ _ _) m = False"
| "port_op (SetFluid _ _ _ _ _ _) m = False"
| "port_op (SetHeat _ _ _ _ _) m = False"
| "port_op (SetItemProps _ _ _ _) m = False"
| "port_op (RegisterPort p) m =
     (case um_find (ports m) (owner_id p, port_kind p, port_id p) of
        None \<Rightarrow> True
      | Some old \<Rightarrow> px old = px p \<and> py old = py p \<and> pz old = pz p)"
| "port_op _ m = True"

definition ports_ok :: "manager \<Rightarrow> bool" where
  "ports_ok m \<longleftrightarrow> keyed m \<and> projected m"

lemma rebuild_sel [simp]:
  "nodes (rebuildNetworks m) = nodes m" "node_by_pos (rebuildNetworks m) = node_by_pos m"
  "ports (rebuildNetworks m) = ports m"
  by (simp_all add: rebuildNetworks_def install_def)

lemma ports_ok_sel:
  assumes "ports_ok m" "nodes m' = nodes m" "node_by_pos m' = node_by_pos m" "ports m' = ports m"
  shows "ports_ok m'"
  using assms(1) unfolding ports_ok_def keyed_def projected_but_def indexed_def assms(2-4) by assumption

lemma keyed_entry: "keyed m \<Longrightarrow> (key, p) \<in> set (ports m) \<longleftrightarrow> um_find (ports m) key = Some p"
  by (simp add: keyed_def um_find_in_set)

lemma keyed_project: "keyed (projectNodeDomain t k m) = keyed m"
  by (simp add: keyed_def)

lemma keyed_reproject: "keyed (reproject e m) = keyed m"
  by (simp add: keyed_def)

lemma registerPort_ports_ok:
  assumes inv: "ports_ok m" and op: "port_op (RegisterPort p) m"
  shows "ports_ok (fst (registerPort p m))"
proof -
  define key where "key = (owner_id p, port_kind p, port_id p)"
  define m1 where "m1 = m\<lparr>ports := um_put key p (ports m)\<rparr>"
  have keyed: "keyed m" "projected m" using inv by (simp_all add: ports_ok_def)
  have "keyed m1"
    using keyed(1) um_put_set[of key p "ports m"] unfolding keyed_def m1_def key_def by fastforce
  moreover have "projected_but [(key, p)] m1"
    unfolding m1_def
  proof (rule projected_ports[OF keyed(2)])
    fix k n assume differ: "filter (at_node k n) (um_put key p (ports m)) \<noteq> filter (at_node k n) (ports m)"
    have "at_node k n (key, p)"
    proof (rule ccontr)
      assume away: "\<not> at_node k n (key, p)"
      have "\<not> at_node k n (key, old)" if "(key, old) \<in> set (ports m)" for old
      proof -
        have "um_find (ports m) key = Some old" using that keyed_entry[OF keyed(1)] by simp
        then have "px old = px p" "py old = py p" "pz old = pz p" using op by (simp_all add: key_def)
        then show ?thesis using away by (simp add: at_node_def)
      qed
      from filter_put_away[where P = "at_node k n" and key = key and v = p and ps = "ports m", OF away this] differ show False by simp
    qed
    then show "\<exists>e \<in> set [(key, p)]. at_node k n e" by simp
  qed
  ultimately have "ports_ok (reproject (key, p) m1)"
    by (simp add: ports_ok_def keyed_reproject projected_reproject)
  moreover have "fst (registerPort p m) = reproject (key, p) m1 \<or> fst (registerPort p m) = m"
    by (auto simp: registerPort_def reproject_def m1_def key_def Let_def split: option.splits)
  ultimately show ?thesis using inv by metis
qed

lemma erase_ports_ok:
  assumes inv: "ports_ok m" and p: "um_find (ports m) (ow, k, pid) = Some p"
  shows "ports_ok (reproject ((ow, k, pid), p) (m\<lparr>ports := um_erase (ow, k, pid) (ports m)\<rparr>))"
proof -
  let ?key = "(ow, k, pid)" and ?m = "m\<lparr>ports := um_erase (ow, k, pid) (ports m)\<rparr>"
  have keyed: "keyed m" "projected m" using inv by (simp_all add: ports_ok_def)
  have "keyed ?m"
    using keyed(1) um_erase_set[of ?key "ports m"] unfolding keyed_def by auto
  moreover have "projected_but [(?key, p)] ?m"
  proof (rule projected_ports[OF keyed(2)])
    fix k' n assume differ: "filter (at_node k' n) (um_erase ?key (ports m)) \<noteq> filter (at_node k' n) (ports m)"
    have "at_node k' n (?key, p)"
    proof (rule ccontr)
      assume away: "\<not> at_node k' n (?key, p)"
      have "\<not> at_node k' n (?key, old)" if "(?key, old) \<in> set (ports m)" for old
        using that away p keyed_entry[OF keyed(1)] by simp
      from filter_erase_away[where P = "at_node k' n" and key = ?key and ps = "ports m", OF this] differ show False by simp
    qed
    then show "\<exists>e \<in> set [(?key, p)]. at_node k' n e" by simp
  qed
  ultimately show ?thesis
    by (simp add: ports_ok_def keyed_reproject projected_reproject)
qed

lemma removePort_ports_ok: "ports_ok m \<Longrightarrow> ports_ok (fst (removePort ow k pid m))"
  using erase_ports_ok[of m ow k pid]
  by (auto simp: removePort_def reproject_def Let_def split: option.splits)

lemma removePortEpoch_ports_ok: "ports_ok m \<Longrightarrow> ports_ok (fst (removePortEpoch ow k pid ep m))"
  using erase_ports_ok[of m ow k pid]
  by (auto simp: removePortEpoch_def reproject_def Let_def split: option.splits)

lemma keyed_reprojects: "keyed (fold reproject xs m) = keyed m"
  by (induction xs arbitrary: m) (simp_all add: keyed_reproject)

lemma removePortsForOwner_ports_ok:
  assumes "ports_ok m"
  shows "ports_ok (fst (removePortsForOwner ow m))"
proof -
  define affected where "affected = filter (\<lambda>((o', _, _), _). o' = ow) (ports m)"
  define kept where "kept = um_erase_if (\<lambda>(o', _, _) _. o' = ow) (ports m)"
  have keyed: "keyed m" "projected m" using assms by (simp_all add: ports_ok_def)
  have "keyed (m\<lparr>ports := kept\<rparr>)"
    using keyed(1) unfolding keyed_def kept_def by (auto simp: um_erase_if_def)
  moreover have "projected_but affected (m\<lparr>ports := kept\<rparr>)"
  proof (rule projected_ports[OF keyed(2)])
    fix k n assume differ: "filter (at_node k n) kept \<noteq> filter (at_node k n) (ports m)"
    show "\<exists>e \<in> set affected. at_node k n e"
    proof (rule ccontr)
      assume "\<not> ?thesis"
      then have "filter (at_node k n) kept = filter (at_node k n) (ports m)"
        unfolding kept_def um_erase_if_def filter_filter affected_def
        by (intro filter_cong) auto
      then show False using differ by simp
    qed
  qed
  ultimately have "ports_ok (fold reproject affected (m\<lparr>ports := kept\<rparr>))"
    by (simp add: ports_ok_def keyed_reprojects projected_reprojects)
  then show ?thesis by (simp add: removePortsForOwner_def affected_def kept_def Let_def)
qed

lemma fold_project_sel:
  "node_by_pos (fold (projectNodeDomain t) ks m) = node_by_pos m"
  "ports (fold (projectNodeDomain t) ks m) = ports m"
  by (induction ks arbitrary: m) simp_all

lemma fold_project_find:
  "um_find (nodes (fold (projectNodeDomain t) ks m)) nid = map_option (\<lambda>n.
     if nid = t then n\<lparr>domains := \<lambda>k. if k \<in> set ks then project_state (ports m) k n else domains n k\<rparr> else n)
     (um_find (nodes m) nid)"
proof (induction ks arbitrary: m)
  case (Cons k ks)
  have "um_find (nodes (projectNodeDomain t k m)) nid = map_option (\<lambda>n.
      if nid = t then n\<lparr>domains := (domains n)(k := project_state (ports m) k n)\<rparr> else n) (um_find (nodes m) nid)"
    by (simp add: projectNodeDomain_def modify_node_def um_simps option.map_id0[unfolded id_def])
  then show ?case
    by (cases "um_find (nodes m) nid") (auto simp: Cons fun_eq_iff)
next
  case Nil
  show ?case by (cases "um_find (nodes m) nid") simp_all
qed

lemma all_kinds_all: "k \<in> set all_kinds"
  by (cases k) (simp_all add: all_kinds_def)

lemma place_node_ports_ok:
  assumes "ports_ok m"
  shows "ports_ok (place_node nid x y z b m)"
proof -
  define m1 where "m1 = m\<lparr>nodes := um_put nid (fresh_node nid x y z b) (nodes m),
    node_by_pos := um_put (pipePosKey x y z) nid (node_by_pos m)\<rparr>"
  have placed: "indexNodePosition nid x y z (m\<lparr>nodes := um_put nid (fresh_node nid x y z b) (nodes m)\<rparr>) =
      fold (projectNodeDomain nid) all_kinds m1"
    by (simp add: indexNodePosition_def m1_def)
  have "projected (fold (projectNodeDomain nid) all_kinds m1)"
    unfolding projected_but_def
  proof (intro allI impI disjI1)
    fix i n k assume i: "indexed (fold (projectNodeDomain nid) all_kinds m1) i n"
    obtain n0 where n0: "um_find (nodes m1) i = Some n0"
      "n = (if i = nid then n0\<lparr>domains := \<lambda>k. project_state (ports m) k n0\<rparr> else n0)"
      using i by (auto simp: indexed_def fold_project_find all_kinds_all m1_def)
    show "domains n k = project_state (ports (fold (projectNodeDomain nid) all_kinds m1)) k n"
    proof (cases "i = nid")
      case True
      then show ?thesis using n0(2) by (simp add: fold_project_sel m1_def)
    next
      case False
      then have "um_find (nodes m) i = Some n" "n = n0" using n0 by (simp_all add: m1_def um_simps)
      moreover have "um_find (node_by_pos m) (pipePosKey (nx n) (ny n) (nz n)) = Some i"
        using i False by (auto simp: indexed_def fold_project_sel m1_def um_simps split: if_splits)
      ultimately have "indexed m i n" by (simp add: indexed_def)
      then show ?thesis using assms unfolding ports_ok_def projected_but_def
        by (fastforce simp: fold_project_sel m1_def)
    qed
  qed
  moreover have "keyed (fold (projectNodeDomain nid) all_kinds m1)"
    using assms by (simp add: ports_ok_def keyed_def fold_project_sel m1_def)
  ultimately have "ports_ok (fold (projectNodeDomain nid) all_kinds m1)" by (simp add: ports_ok_def)
  then show ?thesis
    unfolding place_node_def placed by (rule ports_ok_sel) simp_all
qed

lemma ports_ok_fewer:
  assumes "ports_ok m" "ports m' = ports m"
    and "\<And>nid n. indexed m' nid n \<Longrightarrow> \<exists>n0. indexed m nid n0 \<and> domains n = domains n0 \<and>
      nx n = nx n0 \<and> ny n = ny n0 \<and> nz n = nz n0"
  shows "ports_ok m'"
proof -
  have "domains n k = project_state (ports m') k n" if i: "indexed m' nid n" for nid n k
  proof -
    obtain n0 where n0: "indexed m nid n0" "domains n = domains n0" "nx n = nx n0" "ny n = ny n0" "nz n = nz n0"
      using assms(3)[OF i] by blast
    have "project_state (ports m) k n = project_state (ports m) k n0"
      unfolding project_state_def by (rule fold_cong) (auto simp: merge_port_def n0)
    then show ?thesis using n0(1,2) assms(1,2) unfolding ports_ok_def projected_but_def by fastforce
  qed
  then show ?thesis using assms(1,2) by (simp add: ports_ok_def keyed_def projected_but_def)
qed

lemma removeNode_ports_ok:
  assumes "ports_ok m"
  shows "ports_ok (removeNode nid m)"
proof (rule ports_ok_fewer[OF assms])
  show "ports (removeNode nid m) = ports m"
    by (simp add: removeNode_def Let_def split: option.splits)
  show "\<exists>n0. indexed m i n0 \<and> domains n = domains n0 \<and> nx n = nx n0 \<and> ny n = ny n0 \<and> nz n = nz n0"
    if "indexed (removeNode nid m) i n" for i n
    using that by (intro exI[of _ n])
      (auto simp: removeNode_def indexed_def Let_def um_simps split: option.splits if_splits)
qed

lemma modify_ports_ok:
  assumes "ports_ok m" "\<And>n. domains (f n) = domains n \<and> nx (f n) = nx n \<and> ny (f n) = ny n \<and> nz (f n) = nz n"
  shows "ports_ok (modify_node nid f m)"
proof (rule ports_ok_fewer[OF assms(1)])
  show "ports (modify_node nid f m) = ports m" by (simp add: modify_node_def)
  fix i n assume "indexed (modify_node nid f m) i n"
  then show "\<exists>n0. indexed m i n0 \<and> domains n = domains n0 \<and> nx n = nx n0 \<and> ny n = ny n0 \<and> nz n = nz n0"
    by (auto simp: indexed_def modify_node_def um_simps assms(2) split: if_splits)
qed

lemma edges_ports_ok:
  assumes "ports_ok m"
  shows "ports_ok (fst (addEdge a b r m))" "ports_ok (removeEdge eid m)" "ports_ok (removeEdgesForNode nid m)"
    "ports_ok (fst (addEdges prs r m))"
proof -
  show "ports_ok (fst (addEdge a b r m))"
    by (rule ports_ok_sel[OF assms]) (simp_all add: addEdge_def put_edge_def split: option.splits)
  show "ports_ok (removeEdge eid m)"
    by (rule ports_ok_sel[OF assms]) (simp_all add: removeEdge_def)
  show "ports_ok (removeEdgesForNode nid m)"
    by (rule ports_ok_sel[OF assms]) (simp_all add: removeEdgesForNode_def)
  have "nodes (fst (fold (addEdges_step r) prs (m, c))) = nodes m \<and>
      node_by_pos (fst (fold (addEdges_step r) prs (m, c))) = node_by_pos m \<and>
      ports (fst (fold (addEdges_step r) prs (m, c))) = ports m" for c
  proof (induction prs arbitrary: m c)
    case (Cons ab prs)
    obtain a b where ab: "ab = (a, b)" by force
    show ?case
      using Cons by (simp add: addEdges_step_def ab put_edge_def)
  qed simp
  from this[of 0] show "ports_ok (fst (addEdges prs r m))"
    by (intro ports_ok_sel[OF assms]) (auto simp: addEdges_def split: prod.splits)
qed

lemma apply_op_ports_ok:
  assumes "ports_ok m" "port_op op m"
  shows "ports_ok (apply_op op m)"
proof (cases op)
  case (AddNode x y z b)
  have "ports_ok (m\<lparr>nextNodeId := i\<rparr>)" for i
    by (rule ports_ok_sel[OF assms(1)]) simp_all
  then show ?thesis
    using assms by (auto simp: AddNode addNode_def intro: place_node_ports_ok split: option.splits)
next
  case (RegisterPort p)
  then show ?thesis using registerPort_ports_ok assms by simp
qed (use assms in \<open>auto simp: shape_setters addNodeWithId_def edges_ports_ok
     intro: place_node_ports_ok removeNode_ports_ok removePort_ports_ok removePortEpoch_ports_ok
       removePortsForOwner_ports_ok modify_ports_ok\<close>)

inductive port_reachable :: "manager \<Rightarrow> bool" where
  init: "port_reachable manager_new"
| step: "port_reachable m \<Longrightarrow> port_op op m \<Longrightarrow> port_reachable (apply_op op m)"

lemma port_reachable_ports_ok: "port_reachable m \<Longrightarrow> ports_ok m"
proof (induction rule: port_reachable.induct)
  case init
  show ?case by (simp add: ports_ok_def keyed_def projected_but_def indexed_def manager_new_def)
qed (rule apply_op_ports_ok)

section \<open>Properties\<close>

text \<open>C5: in every state the manager can reach through its operations, each node belongs to one
  network, the network lists exactly the nodes that can be reached from it over the edges, each
  once, and another node is mapped to the same network if and only if it is connected to it.\<close>

theorem networks_are_components:
  assumes "reachable m" "getNode a m \<noteq> None"
  shows "\<exists>net. getItemNetwork a m = Some net \<and> um_find (nodeToNetwork m) a = Some (net_id net) \<and>
    distinct (nodeIds net) \<and> set (nodeIds net) = {b. connected (edge_pairs m) a b} \<and>
    (\<forall>b. getNode b m \<noteq> None \<longrightarrow>
      (um_find (nodeToNetwork m) b = Some (net_id net) \<longleftrightarrow> connected (edge_pairs m) a b))"
proof -
  have ok: "networks_ok m" using reachable_topo_ok[OF assms(1)] by (simp add: topo_ok_def)
  have node: "um_find (nodes m) a \<noteq> None" using assms(2) by (simp add: getNode_def)
  obtain k net where net: "um_find (nodeToNetwork m) a = Some k" "um_find (networks m) k = Some net" "net_id net = k"
    "distinct (nodeIds net)" "set (nodeIds net) = {c. connected (edge_pairs m) a c}"
    using ok node unfolding networks_ok_def by blast
  have "um_find (nodeToNetwork m) b = Some k \<longleftrightarrow> connected (edge_pairs m) a b" if "getNode b m \<noteq> None" for b
    using ok node that net(1) unfolding networks_ok_def getNode_def by metis
  then show ?thesis using net by (intro exI[of _ net]) (simp add: getItemNetwork_def)
qed

lemma next_free_Some: "next_free k ns i = Some j \<Longrightarrow> um_find ns j = None"
  by (induction k arbitrary: i) (auto split: if_splits)

lemma next_free_None: "next_free k ns i = None \<Longrightarrow> t < k \<Longrightarrow> um_find ns (i + of_nat t) \<noteq> None"
proof (induction k arbitrary: i t)
  case (Suc k)
  then have here: "um_find ns i \<noteq> None" "next_free k ns (i + 1) = None" by (auto split: if_splits)
  show ?case
  proof (cases t)
    case (Suc t')
    then show ?thesis using Suc.IH[OF here(2), of t'] Suc.prems(2) by (simp add: add.assoc)
  qed (use here(1) in simp)
qed simp

lemma next_free_total:
  assumes "length ns < 2 ^ 64"
  shows "next_free (Suc (length ns)) ns i \<noteq> None"
proof
  assume none: "next_free (Suc (length ns)) ns i = None"
  define S where "S = (\<lambda>t. i + of_nat t) ` {..<Suc (length ns)}"
  have "inj_on (\<lambda>t. i + of_nat t :: u64) {..<Suc (length ns)}"
  proof (rule inj_onI)
    fix s t assume "s \<in> {..<Suc (length ns)}" "t \<in> {..<Suc (length ns)}" "i + of_nat s = i + of_nat t"
    then show "s = t" using of_nat_u64_inj[of s t] assms by simp
  qed
  then have "card S = Suc (length ns)" unfolding S_def by (simp add: card_image)
  moreover have "S \<subseteq> fst ` set ns"
    using next_free_None[OF none] by (fastforce simp: S_def map_of_eq_None_iff)
  then have "card S \<le> card (fst ` set ns)" by (intro card_mono) auto
  then have "card S \<le> length ns" using card_image_le[OF finite_set, of fst ns] card_length[of ns] by linarith
  ultimately show False by simp
qed

text \<open>C33: \<open>addNode\<close> returns (its search for a free id ends) in every manager with fewer than 2^64
  nodes; the id was not in use, the new node sits at the given position with the capacities of its
  block, it is found by position, and every other node is as before.\<close>

theorem addNode_fresh:
  assumes "length (nodes m) < 2 ^ 64"
  shows "\<exists>m' nid n. addNode x y z b m = Some (m', nid) \<and> getNode nid m = None \<and> getNode nid m' = Some n \<and>
    n\<lparr>domains := (\<lambda>_. domain_default)\<rparr> = fresh_node nid x y z b \<and> findNodeAtPosition x y z m' = nid \<and>
    (\<forall>j. j \<noteq> nid \<longrightarrow> getNode j m' = getNode j m)"
proof -
  obtain nid where nid: "next_free (Suc (length (nodes m))) (nodes m) (nextNodeId m) = Some nid"
    using next_free_total[OF assms] by blast
  define m1 where "m1 = m\<lparr>nextNodeId := nid + 1, nodes := um_put nid (fresh_node nid x y z b) (nodes m),
    node_by_pos := um_put (pipePosKey x y z) nid (node_by_pos m)\<rparr>"
  have placed: "place_node nid x y z b (m\<lparr>nextNodeId := nid + 1\<rparr>) =
      rebuildNetworks (fold (projectNodeDomain nid) all_kinds m1)"
    by (simp add: place_node_def indexNodePosition_def m1_def)
  define n where "n = (fresh_node nid x y z b)\<lparr>domains := \<lambda>k. project_state (ports m) k (fresh_node nid x y z b)\<rparr>"
  have found: "um_find (nodes (fold (projectNodeDomain nid) all_kinds m1)) j =
      (if j = nid then Some n else um_find (nodes m) j)" for j
    by (cases "um_find (nodes m) j")
      (auto simp: fold_project_find m1_def um_simps all_kinds_all n_def)
  have pos: "um_find (node_by_pos (fold (projectNodeDomain nid) all_kinds m1)) (pipePosKey x y z) = Some nid"
    by (simp add: fold_project_sel m1_def um_simps)
  have "n\<lparr>domains := (\<lambda>_. domain_default)\<rparr> = fresh_node nid x y z b"
    by (simp add: n_def fresh_node_def)
  moreover have "um_find (nodes m) nid = None" by (rule next_free_Some[OF nid])
  ultimately show ?thesis
    by (intro exI[of _ "place_node nid x y z b (m\<lparr>nextNodeId := nid + 1\<rparr>)"] exI[of _ nid] exI[of _ n])
      (simp add: addNode_def nid getNode_def placed found findNodeAtPosition_def pos
         del: next_free.simps)
qed

text \<open>As long as roles are not set by hand and no port moves, the resource domain of a node is the
  join of the registered ports of that kind at the node's position: it is a source (sink) exactly
  when one of them is, its rate is the largest of theirs, its face mask the union.\<close>

theorem domains_join_ports:
  assumes "port_reachable m" "indexed m nid n"
  defines "here \<equiv> \<lambda>k. {p \<in> set (getRegisteredPorts m). port_kind p = k \<and> px p = nx n \<and> py p = ny n \<and> pz p = nz n}"
  shows "(is_source (domains n k) \<longleftrightarrow> (\<exists>p \<in> here k. role p = SOURCE)) \<and>
    (is_sink (domains n k) \<longleftrightarrow> (\<exists>p \<in> here k. role p = SINK)) \<and>
    rate (domains n k) = Max (insert 0 (port_rate ` here k)) \<and>
    (bit (face_mask (domains n k)) i \<longleftrightarrow> (\<exists>p \<in> here k. bit (port_face_mask p) i))"
proof -
  have ok: "keyed m" "projected m" using port_reachable_ports_ok[OF assms(1)] by (simp_all add: ports_ok_def)
  have d: "domains n k = project_state (ports m) k n" using ok(2) assms(2) by (auto simp: projected_but_def)
  have ports: "here k = snd ` {e \<in> set (ports m). at_node k n e}"
    using ok(1) unfolding here_def getRegisteredPorts_def keyed_def at_node_def by force
  show ?thesis
    unfolding d project_state_join ports image_image by (intro conjI) (blast | simp)+
qed

lemma um_put_put: "um_put k v (um_put k w m) = um_put k v m"
  by (induction m) auto

lemma um_modify_twice:
  assumes "\<And>v. f (g v) = g v"
  shows "um_modify k f (um_modify k g m) = um_modify k g m"
  by (cases "um_find m k") (simp_all add: um_modify_def um_simps um_put_put assms)

lemma project_twice: "projectNodeDomain t k (projectNodeDomain t k m) = projectNodeDomain t k m"
  by (simp add: projectNodeDomain_def modify_node_def um_modify_twice)

text \<open>\<open>registerPort\<close> refuses a port without an id and an update older than the registered one,
  without any effect; otherwise the port is the registered one afterwards, no other port changes,
  and a retry with the same data succeeds and changes nothing.\<close>

theorem registerPort_epochs:
  defines "stale \<equiv> \<lambda>p m. \<exists>old. getPort (owner_id p) (port_kind p) (port_id p) m = Some old \<and> epoch p < epoch old"
  shows "registerPort p m =
      (if port_id p = 0 \<or> stale p m then (m, False) else (fst (registerPort p m), True)) \<and>
    (port_id p \<noteq> 0 \<and> \<not> stale p m \<longrightarrow>
       getPort ow k pid (fst (registerPort p m)) =
         (if (ow, k, pid) = (owner_id p, port_kind p, port_id p) then Some p else getPort ow k pid m) \<and>
       registerPort p (fst (registerPort p m)) = (fst (registerPort p m), True))"
proof -
  define key where "key = (owner_id p, port_kind p, port_id p)"
  define m1 where "m1 = reproject (key, p) (m\<lparr>ports := um_put key p (ports m)\<rparr>)"
  have stale: "stale p m \<longleftrightarrow> (\<exists>old. um_find (ports m) key = Some old \<and> epoch p < epoch old)"
    by (simp add: stale_def getPort_def key_def)
  have bad: "registerPort p m = (m, False)" if "port_id p = 0 \<or> stale p m"
    using that stale by (auto simp: registerPort_def port_valid_def key_def Let_def)
  have good: "registerPort p m = (m1, True)" if "port_id p \<noteq> 0" "\<not> stale p m"
    using that stale
    by (auto simp: registerPort_def port_valid_def key_def Let_def m1_def reproject_def split: option.splits)
  have retry: "registerPort p m1 = (reproject (key, p) (m1\<lparr>ports := um_put key p (ports m1)\<rparr>), True)"
    if "port_id p \<noteq> 0"
    using that by (auto simp: registerPort_def port_valid_def key_def Let_def m1_def um_simps reproject_def
        split: option.splits)
  have "ports m1 = um_put key p (ports m)" by (simp add: m1_def)
  then have ports: "um_put key p (ports m1) = ports m1" by (simp add: um_put_put)
  have same: "m1\<lparr>ports := um_put key p (ports m1)\<rparr> = m1" unfolding ports by simp
  have "reproject (key, p) m1 = m1"
  proof -
    have idem: "reproject (key, p) (reproject (key, p) q) = reproject (key, p) q" for q
    proof -
      have "findNodeAtPosition (px p) (py p) (pz p) (projectNodeDomain t k' q) = findNodeAtPosition (px p) (py p) (pz p) q"
        for t k' by (simp add: findNodeAtPosition_def)
      then show ?thesis by (simp add: reproject_def key_def project_twice)
    qed
    show ?thesis unfolding m1_def by (rule idem)
  qed
  then have again: "registerPort p m1 = (m1, True)" if "port_id p \<noteq> 0" using retry[OF that] same by simp
  have get: "getPort ow k pid m1 = (if (ow, k, pid) = key then Some p else getPort ow k pid m)"
    by (simp add: getPort_def m1_def um_simps)
  show ?thesis
  proof (cases "port_id p = 0 \<or> stale p m")
    case True
    then show ?thesis using bad[OF True] by simp
  next
    case False
    then have "registerPort p m = (m1, True)" using good by blast
    then show ?thesis using False again get unfolding key_def by simp
  qed
qed

section \<open>Witnesses and the port that moved\<close>

definition pump_port :: resource_port where
  "pump_port = \<lparr>port_id = 5, owner_id = 9, port_kind = FLUID, role = SOURCE, px = 4, py = 64, pz = - 3,
     policy = ALL_FACES, port_face_mask = 0x3F, port_capacity = 1000, port_rate = 20, epoch = 1\<rparr>"

definition two_pipes :: manager where
  "two_pipes = apply_op (AddEdge 1 2 0) (apply_op (AddNode 5 64 (- 3) BLOCK_ID_FLUID_PIPE)
     (apply_op (AddNode 4 64 (- 3) BLOCK_ID_FLUID_PIPE) manager_new))"

lemma two_pipes_reachable: "reachable two_pipes"
  unfolding two_pipes_def by (intro reachable.intros)

lemma two_pipes_port_reachable: "port_reachable two_pipes"
  unfolding two_pipes_def by (intro port_reachable.intros) simp_all

lemma two_pipes_state:
  "map fst (nodes two_pipes) = [1, 2]" "map (\<lambda>(_, e). (fromNode e, toNode e)) (edges two_pipes) = [(1, 2)]"
  "ports two_pipes = []"
  by code_simp+

theorem networks_are_components_witness:
  "\<exists>net. getItemNetwork 1 two_pipes = Some net \<and> um_find (nodeToNetwork two_pipes) 1 = Some (net_id net) \<and>
    distinct (nodeIds net) \<and> set (nodeIds net) = {b. connected (edge_pairs two_pipes) 1 b} \<and>
    (\<forall>b. getNode b two_pipes \<noteq> None \<longrightarrow>
      (um_find (nodeToNetwork two_pipes) b = Some (net_id net) \<longleftrightarrow> connected (edge_pairs two_pipes) 1 b))"
proof (rule networks_are_components[OF two_pipes_reachable])
  have "1 \<in> set (map fst (nodes two_pipes))" by (simp add: two_pipes_state)
  then show "getNode 1 two_pipes \<noteq> None" by (simp add: getNode_def map_of_eq_None_iff)
qed

theorem addNode_fresh_witness:
  "\<exists>m' nid n. addNode (- 1) 70 2 BLOCK_ID_ITEM_PIPE two_pipes = Some (m', nid) \<and> getNode nid two_pipes = None \<and>
    getNode nid m' = Some n \<and> n\<lparr>domains := (\<lambda>_. domain_default)\<rparr> = fresh_node nid (- 1) 70 2 BLOCK_ID_ITEM_PIPE \<and>
    findNodeAtPosition (- 1) 70 2 m' = nid \<and> (\<forall>j. j \<noteq> nid \<longrightarrow> getNode j m' = getNode j two_pipes)"
proof (rule addNode_fresh)
  have "length (map fst (nodes two_pipes)) = 2" by (simp add: two_pipes_state)
  then show "length (nodes two_pipes) < 2 ^ 64" by simp
qed

definition pumped :: manager where
  "pumped = apply_op (RegisterPort pump_port) two_pipes"

lemma pumped_port_reachable: "port_reachable pumped"
  unfolding pumped_def
  by (rule port_reachable.step[OF two_pipes_port_reachable]) (simp add: two_pipes_state)

lemma pumped_indexed: "\<exists>n. indexed pumped 1 n \<and> nx n = 4"
proof -
  have "(case um_find (nodes pumped) 1 of None \<Rightarrow> False
      | Some n \<Rightarrow> nx n = 4 \<and> um_find (node_by_pos pumped) (pipePosKey (nx n) (ny n) (nz n)) = Some 1)"
    by code_simp
  then show ?thesis by (auto simp: indexed_def split: option.splits)
qed

theorem domains_join_ports_witness:
  "\<exists>n. indexed pumped 1 n \<and> (is_source (domains n FLUID) \<longleftrightarrow>
     (\<exists>p \<in> {p \<in> set (getRegisteredPorts pumped).
       port_kind p = FLUID \<and> px p = nx n \<and> py p = ny n \<and> pz p = nz n}. role p = SOURCE))"
proof -
  obtain n where n: "indexed pumped 1 n" using pumped_indexed by blast
  note join = domains_join_ports[OF pumped_port_reachable n, of FLUID 0]
  show ?thesis by (intro exI[of _ n] conjI n conjunct1[OF join])
qed

theorem registerPort_epochs_witness:
  "registerPort pump_port (fst (registerPort pump_port two_pipes)) = (fst (registerPort pump_port two_pipes), True)"
  using registerPort_epochs[of pump_port two_pipes]
  by (simp add: pump_port_def getPort_def two_pipes_state)

text \<open>A port that is registered again at another position under a newer epoch leaves the node at
  its old position behind: that node still counts as a source although no port is registered at
  its position any more, so \<open>domains_join_ports\<close> fails for such a run.\<close>

theorem moved_port_left_behind:
  "let m = apply_op (RegisterPort (pump_port\<lparr>px := 40, epoch := 2\<rparr>)) pumped in
   map_option (\<lambda>d. (is_source d, rate d)) (nodeDomain 1 FLUID m) = Some (True, 20) \<and>
   findNodeAtPosition 4 64 (- 3) m = 1 \<and>
   filter (\<lambda>p. px p = 4 \<and> py p = 64 \<and> pz p = - 3) (getRegisteredPorts m) = []"
  by code_simp

end
