(* ===== verification/PipeFluid.thy ===== *)
theory PipeFluid
  imports PipePorts
begin

text \<open>
  Fluid in \<open>PipeNetworkManager\<close>: \<open>consumeFluid\<close> with its replay cache, \<open>distributeFluid\<close>,
  \<open>fillFluidPipesFromSources\<close> and \<open>consumeFluidViaPort\<close> of
  \<open>src/apps/pipe_network/PipeNetwork.cpp\<close>. Amounts are integers. The log output of
  \<open>warnCrossKindConsume\<close> has no effect on the state and is left out.
\<close>

section \<open>Retried requests as an interface\<close>

text \<open>
  A server that remembers its answers: \<open>live n s q r\<close> says that in state \<open>s\<close> the answer \<open>r\<close> to the
  request \<open>q\<close> is kept for the next \<open>n\<close> requests. The provider promises that a kept request is answered
  from memory without touching the resources, that an answer ages by one per request, and that an
  admitted request is remembered for \<open>ttl\<close> requests.
\<close>

locale replay_server =
  fixes handle :: "'q \<Rightarrow> 's \<Rightarrow> 's \<times> 'r"
    and resources :: "'s \<Rightarrow> 'e"
    and live :: "nat \<Rightarrow> 's \<Rightarrow> 'q \<Rightarrow> 'r \<Rightarrow> bool"
    and admits :: "'s \<Rightarrow> 'q \<Rightarrow> bool"
    and ttl :: nat
  assumes replay: "live (Suc n) s q r \<Longrightarrow> handle q s = (s', r') \<Longrightarrow> r' = r \<and> resources s' = resources s"
    and ages: "live (Suc n) s q r \<Longrightarrow> live n (fst (handle q' s)) q r"
    and records: "admits s q \<Longrightarrow> live ttl (fst (handle q s)) q (snd (handle q s))"

fun serve :: "('q \<Rightarrow> 's \<Rightarrow> 's \<times> 'r) \<Rightarrow> 'q list \<Rightarrow> 's \<Rightarrow> 's" where
  "serve handle [] s = s"
| "serve handle (q # qs) s = serve handle qs (fst (handle q s))"

context replay_server begin

lemma live_run: "live (length qs + n) s q r \<Longrightarrow> live n (serve handle qs s) q r"
proof (induction qs arbitrary: s)
  case (Cons q' qs)
  then have "live (Suc (length qs + n)) s q r" by simp
  from ages[OF this] show ?case by (simp add: Cons.IH)
qed simp

lemma retry:
  assumes adm: "admits s q" and short: "length qs < ttl" and h: "handle q s = (s1, r)"
  shows "snd (handle q (serve handle qs s1)) = r \<and>
    resources (fst (handle q (serve handle qs s1))) = resources (serve handle qs s1)"
proof -
  have "live ttl s1 q r" using records[OF adm] h by simp
  moreover obtain d where "ttl = length qs + Suc d" using short less_iff_Suc_add by auto
  ultimately have "live (Suc d) (serve handle qs s1) q r" using live_run by metis
  moreover obtain s2 r2 where "handle q (serve handle qs s1) = (s2, r2)" by force
  ultimately show ?thesis using replay by fastforce
qed

end

section \<open>Consuming fluid\<close>

definition rate_cap :: "domain_state \<Rightarrow> int \<Rightarrow> int" where
  "rate_cap d x = (if rate d > 0 then min x (rate d) else x)"

text \<open>\<open>fluidBuffer -= take; if (fluidBuffer == 0) fluidId = 0;\<close>\<close>

definition drain_node :: "int \<Rightarrow> pipe_node \<Rightarrow> pipe_node" where
  "drain_node amount n =
     n\<lparr>fluidBuffer := fluidBuffer n - amount, fluidId := (if fluidBuffer n - amount = 0 then 0 else fluidId n)\<rparr>"

fun drain_pipes ::
  "u32 \<Rightarrow> u64 \<Rightarrow> u64 list \<Rightarrow> (u64, pipe_node) umap \<Rightarrow> int \<Rightarrow> int \<Rightarrow> (u64, pipe_node) umap \<times> int \<times> int"
where
  "drain_pipes fid nodeId [] ns acc rem = (ns, acc, rem)"
| "drain_pipes fid nodeId (nid # ids) ns acc rem =
     (if nid = nodeId then drain_pipes fid nodeId ids ns acc rem
      else if rem = 0 then (ns, acc, rem)
      else (case um_find ns nid of
              None \<Rightarrow> drain_pipes fid nodeId ids ns acc rem
            | Some pn \<Rightarrow>
                if \<not> isPipe (block_id pn) then drain_pipes fid nodeId ids ns acc rem
                else if is_source (domains pn FLUID) then drain_pipes fid nodeId ids ns acc rem
                else if fluidCapacity pn \<le> 0 then drain_pipes fid nodeId ids ns acc rem
                else if fluidId pn \<noteq> 0 \<and> fluidId pn \<noteq> fid then drain_pipes fid nodeId ids ns acc rem
                else
                  let amt = rate_cap (domains pn FLUID) (min rem (fluidBuffer pn))
                  in if amt \<le> 0 then drain_pipes fid nodeId ids ns acc rem
                     else drain_pipes fid nodeId ids (um_modify nid (drain_node amt) ns) (acc + amt) (rem - amt)))"

definition consumeFluidUncached :: "u64 \<Rightarrow> u64 \<Rightarrow> u32 \<Rightarrow> int \<Rightarrow> manager \<Rightarrow> manager \<times> fluid_result" where
  "consumeFluidUncached nodeId rid fid amount m =
     (let res = \<lparr>request_id = rid, res_node_id = nodeId, res_fluid_id = fid, accepted_amount = 0,
                 remaining = 0, blocked = False\<rparr>
      in if amount \<le> 0 \<or> fid = 0
         then (m, res\<lparr>blocked := True, remaining := (if amount > 0 then amount else 0)\<rparr>)
         else (case um_find (nodes m) nodeId of
                 None \<Rightarrow> (m, res\<lparr>blocked := True, remaining := amount\<rparr>)
               | Some node \<Rightarrow>
                   if fluidCapacity node \<le> 0 \<or> \<not> is_sink (domains node FLUID)
                   then (m, res\<lparr>blocked := True, remaining := amount\<rparr>)
                   else if fluidId node \<noteq> 0 \<and> fluidId node \<noteq> fid
                   then (m, res\<lparr>blocked := True, remaining := amount\<rparr>)
                   else
                     let a = rate_cap (domains node FLUID) (min amount (fluidBuffer node));
                         ns = um_modify nodeId (drain_node a) (nodes m)
                     in (case drain_pipes fid nodeId (discoverNetwork nodeId m) ns a (amount - a) of
                           (ns', acc, rem) \<Rightarrow>
                             (m\<lparr>nodes := ns'\<rparr>, res\<lparr>accepted_amount := acc, remaining := rem\<rparr>))))"

definition expireFluidTransactions :: "u64 \<Rightarrow> manager \<Rightarrow> manager" where
  "expireFluidTransactions now m =
     m\<lparr>fluid_transactions := um_erase_if (\<lambda>_ t. expires_at t \<le> now) (fluid_transactions m)\<rparr>"

definition fluidTransactionCount :: "manager \<Rightarrow> nat" where
  "fluidTransactionCount m = length (fluid_transactions m)"

definition fluid_begin :: "manager \<Rightarrow> manager" where
  "fluid_begin m = expireFluidTransactions (fluid_tick m + 1) (m\<lparr>fluid_tick := fluid_tick m + 1\<rparr>)"

definition consumeFluid :: "u64 \<Rightarrow> u64 \<Rightarrow> u32 \<Rightarrow> int \<Rightarrow> manager \<Rightarrow> manager \<times> fluid_result" where
  "consumeFluid nodeId rid fid amount m0 =
     (let m = fluid_begin m0
      in (case (if rid \<noteq> 0 then um_find (fluid_transactions m) rid else None) of
            Some t \<Rightarrow>
              if res_node_id (result t) \<noteq> nodeId \<or> res_fluid_id (result t) \<noteq> fid \<or> requested_amount t \<noteq> amount
              then (m, \<lparr>request_id = rid, res_node_id = nodeId, res_fluid_id = fid, accepted_amount = 0,
                        remaining = (if amount > 0 then amount else 0), blocked = True\<rparr>)
              else (m, result t)
          | None \<Rightarrow>
              (case consumeFluidUncached nodeId rid fid amount m of
                 (m', r) \<Rightarrow>
                   (if rid \<noteq> 0
                    then m'\<lparr>fluid_transactions := um_emplace rid
                           \<lparr>result = r, requested_amount = amount,
                            expires_at = fluid_tick m' + kFluidTransactionTtl\<rparr> (fluid_transactions m')\<rparr>
                    else m', r))))"

definition consumeFluidViaPort :: "u64 \<Rightarrow> u64 \<Rightarrow> u64 \<Rightarrow> u32 \<Rightarrow> int \<Rightarrow> manager \<Rightarrow> manager \<times> fluid_result" where
  "consumeFluidViaPort owner pid rid fid amount m =
     (let refused = \<lparr>request_id = rid, res_node_id = 0, res_fluid_id = fid, accepted_amount = 0,
                      remaining = (if amount > 0 then amount else 0), blocked = True\<rparr>
      in (case getPort owner FLUID pid m of
            None \<Rightarrow> (m, refused)
          | Some p \<Rightarrow>
              if role p \<noteq> SINK then (m, refused)
              else consumeFluid (findNodeAtPosition (px p) (py p) (pz p) m) rid fid amount m))"

section \<open>What a consumption takes\<close>

definition fluids_ok :: "(u64, pipe_node) umap \<Rightarrow> bool" where
  "fluids_ok ns \<longleftrightarrow> (\<forall>(i, n) \<in> set ns. 0 \<le> fluidBuffer n)"

definition eligible :: "u32 \<Rightarrow> pipe_node \<Rightarrow> bool" where
  "eligible fid n \<longleftrightarrow> isPipe (block_id n) \<and> \<not> is_source (domains n FLUID) \<and> fluidCapacity n > 0 \<and>
     (fluidId n = 0 \<or> fluidId n = fid)"

text \<open>What a node would give if the request were large enough.\<close>

definition offer :: "u32 \<Rightarrow> u64 \<Rightarrow> (u64, pipe_node) umap \<Rightarrow> u64 \<Rightarrow> int" where
  "offer fid nodeId ns i =
     (case um_find ns i of
        None \<Rightarrow> 0
      | Some n \<Rightarrow> if i = nodeId \<or> eligible fid n then rate_cap (domains n FLUID) (fluidBuffer n) else 0)"

text \<open>The node \<open>n\<close> may have become \<open>n'\<close>: nothing but its fluid changed, and that only went down.\<close>

definition drained :: "pipe_node \<Rightarrow> pipe_node \<Rightarrow> bool" where
  "drained n n' \<longleftrightarrow> 0 \<le> fluidBuffer n' \<and> fluidBuffer n' \<le> fluidBuffer n \<and>
     n'\<lparr>fluidBuffer := fluidBuffer n, fluidId := fluidId n\<rparr> = n"

lemma fluids_okD: "fluids_ok ns \<Longrightarrow> um_find ns i = Some n \<Longrightarrow> 0 \<le> fluidBuffer n"
  by (auto simp: fluids_ok_def dest: map_of_SomeD)

lemma um_modify_set: "set (um_modify k f m) \<subseteq> set m \<union> {(k, f v) | v. um_find m k = Some v}"
  using um_put_set by (fastforce simp: um_modify_def split: option.splits)

lemma rate_cap_le: "rate_cap d x \<le> x"
  by (simp add: rate_cap_def)

lemma rate_cap_nonneg: "0 \<le> x \<Longrightarrow> 0 \<le> rate_cap d x"
  by (simp add: rate_cap_def)

lemma rate_cap_min: "rate_cap d (min a b) = min a (rate_cap d b)"
  by (simp add: rate_cap_def min.assoc)

lemma fluids_ok_drain:
  assumes "fluids_ok ns" "\<And>n. um_find ns i = Some n \<Longrightarrow> a \<le> fluidBuffer n"
  shows "fluids_ok (um_modify i (drain_node a) ns)"
  using assms um_modify_set[of i "drain_node a" ns] by (fastforce simp: fluids_ok_def drain_node_def)

lemma node_sum_drain:
  "um_find ns i = Some n \<Longrightarrow> node_sum fluidBuffer (um_modify i (drain_node a) ns) = node_sum fluidBuffer ns - a"
  by (simp add: node_sum_modify drain_node_def)

lemma drained_refl: "0 \<le> fluidBuffer n \<Longrightarrow> drained n n"
  by (simp add: drained_def)

lemma drained_drain_node: "0 \<le> a \<Longrightarrow> a \<le> fluidBuffer n \<Longrightarrow> drained n (drain_node a n)"
  by (simp add: drained_def drain_node_def)

lemma offer_modify: "i \<noteq> j \<Longrightarrow> offer fid nodeId (um_modify i f ns) j = offer fid nodeId ns j"
  by (simp add: offer_def um_simps)

lemma offer_nonneg: "fluids_ok ns \<Longrightarrow> 0 \<le> offer fid nodeId ns i"
  by (auto simp: offer_def rate_cap_nonneg fluids_okD split: option.splits)

definition offers :: "u32 \<Rightarrow> u64 \<Rightarrow> (u64, pipe_node) umap \<Rightarrow> u64 list \<Rightarrow> int" where
  "offers fid nodeId ns ids = (\<Sum>i\<leftarrow>ids. if i = nodeId then 0 else offer fid nodeId ns i)"

lemma offers_modify: "i \<notin> set ids \<Longrightarrow> offers fid nodeId (um_modify i f ns) ids = offers fid nodeId ns ids"
  unfolding offers_def by (intro arg_cong[of _ _ sum_list] map_cong) (auto intro!: offer_modify)

lemma offers_nonneg: "fluids_ok ns \<Longrightarrow> 0 \<le> offers fid nodeId ns ids"
  unfolding offers_def by (intro sum_list_nonneg) (auto simp: offer_nonneg)

text \<open>One pass of the loop, in closed form: the node gives \<open>min rem (offer ...)\<close>.\<close>

lemma drain_pipes_step:
  fixes fid nodeId ns nid rem
  assumes ok: "fluids_ok ns" and rem: "0 < rem" and nid: "nid \<noteq> nodeId"
  defines "a \<equiv> min rem (offer fid nodeId ns nid)"
  defines "ns1 \<equiv> (if a = 0 then ns else um_modify nid (drain_node a) ns)"
  shows "drain_pipes fid nodeId (nid # ids) ns acc rem = drain_pipes fid nodeId ids ns1 (acc + a) (rem - a)"
    and "a \<noteq> 0 \<Longrightarrow> \<exists>n. um_find ns nid = Some n \<and> eligible fid n \<and> a \<le> fluidBuffer n"
proof -
  have off: "offer fid nodeId ns nid = (case um_find ns nid of None \<Rightarrow> 0
      | Some n \<Rightarrow> if eligible fid n then rate_cap (domains n FLUID) (fluidBuffer n) else 0)"
    using nid by (simp add: offer_def split: option.split)
  show "drain_pipes fid nodeId (nid # ids) ns acc rem = drain_pipes fid nodeId ids ns1 (acc + a) (rem - a)"
  proof (cases "um_find ns nid")
    case (Some n)
    have nn: "0 \<le> rate_cap (domains n FLUID) (fluidBuffer n)"
      using ok Some by (simp add: fluids_okD rate_cap_nonneg)
    show ?thesis
      using nid rem nn unfolding a_def ns1_def off
      by (auto simp: Some eligible_def rate_cap_min Let_def)
  qed (use nid rem off in \<open>simp add: a_def ns1_def\<close>)
  show "\<exists>n. um_find ns nid = Some n \<and> eligible fid n \<and> a \<le> fluidBuffer n" if "a \<noteq> 0"
    using that rem rate_cap_le unfolding a_def off
    by (auto split: option.splits if_splits intro: min.coboundedI2)
qed

lemma drain_pipes_spec:
  assumes "drain_pipes fid nodeId ids ns acc rem = (ns', acc', rem')" "fluids_ok ns" "0 \<le> rem" "distinct ids"
  shows "fluids_ok ns' \<and> node_sum fluidBuffer ns' + acc' = node_sum fluidBuffer ns + acc \<and>
    acc' = acc + min rem (offers fid nodeId ns ids) \<and> rem' = rem - min rem (offers fid nodeId ns ids) \<and>
    (\<forall>i. um_find ns' i = um_find ns i \<or> (i \<in> set ids \<and> i \<noteq> nodeId \<and> (\<exists>n n'. um_find ns i = Some n \<and>
       um_find ns' i = Some n' \<and> eligible fid n \<and> drained n n')))"
  using assms
proof (induction ids arbitrary: ns acc rem)
  case (Cons nid ids)
  have rest_nonneg: "0 \<le> offers fid nodeId ns ids" using Cons.prems(2) by (rule offers_nonneg)
  show ?case
  proof (cases "nid = nodeId")
    case True
    then have offers: "offers fid nodeId ns (nid # ids) = offers fid nodeId ns ids" by (simp add: offers_def)
    have "drain_pipes fid nodeId ids ns acc rem = (ns', acc', rem')" using Cons.prems(1) True by simp
    from Cons.IH[OF this Cons.prems(2,3)] Cons.prems(4) show ?thesis unfolding offers by auto
  next
    case other: False
    define a where "a = min rem (offer fid nodeId ns nid)"
    define ns1 where "ns1 = (if a = 0 then ns else um_modify nid (drain_node a) ns)"
    have offers: "offers fid nodeId ns (nid # ids) = offer fid nodeId ns nid + offers fid nodeId ns ids"
      using other by (simp add: offers_def)
    have off: "0 \<le> offer fid nodeId ns nid" using Cons.prems(2) by (rule offer_nonneg)
    show ?thesis
    proof (cases "rem = 0")
      case True
      then have "min rem (offers fid nodeId ns (nid # ids)) = 0" using off rest_nonneg unfolding offers by simp
      then show ?thesis using True Cons.prems(1,2) other by auto
    next
      case False
      then have rem: "0 < rem" using Cons.prems(3) by simp
      note step = drain_pipes_step[OF Cons.prems(2) rem other, of fid, folded a_def]
      have a: "0 \<le> a" "a \<le> rem" using rem off by (auto simp: a_def)
      have rec: "drain_pipes fid nodeId ids ns1 (acc + a) (rem - a) = (ns', acc', rem')"
        using Cons.prems(1) step(1)[of ids acc] by (simp only: ns1_def)
      have ok1: "fluids_ok ns1"
        using Cons.prems(2) step(2) by (auto simp: ns1_def intro!: fluids_ok_drain)
      have sum1: "node_sum fluidBuffer ns1 = node_sum fluidBuffer ns - a"
        using step(2) by (auto simp: ns1_def node_sum_drain)
      have offers1: "offers fid nodeId ns1 ids = offers fid nodeId ns ids"
        using Cons.prems(4) by (simp add: ns1_def offers_modify)
      have find1: "um_find ns1 i = um_find ns i" if "i \<noteq> nid" for i
        using that by (simp add: ns1_def um_simps)
      have min_split: "a + min (rem - a) (offers fid nodeId ns ids) = min rem (offers fid nodeId ns (nid # ids))"
        using rem off rest_nonneg unfolding offers a_def by (simp add: min_def)
      have IH: "fluids_ok ns' \<and> node_sum fluidBuffer ns' + acc' = node_sum fluidBuffer ns1 + (acc + a) \<and>
        acc' = acc + a + min (rem - a) (offers fid nodeId ns1 ids) \<and> rem' = rem - a - min (rem - a) (offers fid nodeId ns1 ids) \<and>
        (\<forall>i. um_find ns' i = um_find ns1 i \<or> (i \<in> set ids \<and> i \<noteq> nodeId \<and> (\<exists>n n'. um_find ns1 i = Some n \<and>
           um_find ns' i = Some n' \<and> eligible fid n \<and> drained n n')))"
        by (rule Cons.IH[OF rec ok1]) (use a Cons.prems(4) in auto)
      have "um_find ns' i = um_find ns i \<or> (i \<in> set (nid # ids) \<and> i \<noteq> nodeId \<and> (\<exists>n n'. um_find ns i = Some n \<and>
           um_find ns' i = Some n' \<and> eligible fid n \<and> drained n n'))" for i
      proof (cases "i = nid")
        case True
        then have "um_find ns' i = um_find ns1 i" using IH Cons.prems(4) by auto
        moreover have "um_find ns1 i = um_find ns i \<or> (\<exists>n. um_find ns i = Some n \<and> eligible fid n \<and>
            um_find ns1 i = Some (drain_node a n) \<and> drained n (drain_node a n))"
          using step(2) a(1) True by (auto simp: ns1_def um_simps intro: drained_drain_node)
        ultimately show ?thesis using True other by auto
      next
        case False
        have "um_find ns' i = um_find ns1 i \<or> (i \<in> set ids \<and> i \<noteq> nodeId \<and> (\<exists>n n'. um_find ns1 i = Some n \<and>
            um_find ns' i = Some n' \<and> eligible fid n \<and> drained n n'))" using IH by blast
        then show ?thesis using find1[OF False] by auto
      qed
      then show ?thesis using IH min_split sum1 offers1 by auto
    qed
  qed
qed (auto simp: offers_def)

lemma discoverNetwork_component:
  assumes "um_find (nodes m) start \<noteq> None"
  shows "distinct (discoverNetwork start m) \<and> set (discoverNetwork start m) = {b. connected (edge_pairs m) start b}"
proof -
  obtain vis cmp where b: "bfs (edge_pairs m) start [] = (vis, cmp)" by force
  show ?thesis
    using bfs_component[OF b] assms by (auto simp: discoverNetwork_def b closed_under_def)
qed

text \<open>The amount a request gets: all that the node and the eligible pipes connected to it would give.\<close>

definition obtainable :: "u64 \<Rightarrow> u32 \<Rightarrow> manager \<Rightarrow> int" where
  "obtainable nodeId fid m = offer fid nodeId (nodes m) nodeId + offers fid nodeId (nodes m) (discoverNetwork nodeId m)"

definition can_consume :: "u64 \<Rightarrow> u32 \<Rightarrow> int \<Rightarrow> manager \<Rightarrow> bool" where
  "can_consume nodeId fid amount m \<longleftrightarrow> amount > 0 \<and> fid \<noteq> 0 \<and>
     (case getNode nodeId m of None \<Rightarrow> False
      | Some n \<Rightarrow> fluidCapacity n > 0 \<and> is_sink (domains n FLUID) \<and> (fluidId n = 0 \<or> fluidId n = fid))"

lemma consumeFluidUncached_spec:
  assumes ok: "fluids_ok (nodes m)" and c: "consumeFluidUncached nodeId rid fid amount m = (m', r)"
  shows "accepted_amount r = (if can_consume nodeId fid amount m then min amount (obtainable nodeId fid m) else 0) \<and>
    remaining r = max 0 amount - accepted_amount r \<and> blocked r = (\<not> can_consume nodeId fid amount m) \<and>
    node_sum fluidBuffer (nodes m') + accepted_amount r = node_sum fluidBuffer (nodes m) \<and>
    fluids_ok (nodes m') \<and> m' = m\<lparr>nodes := nodes m'\<rparr> \<and>
    (\<forall>i. um_find (nodes m') i = um_find (nodes m) i \<or> (connected (edge_pairs m) nodeId i \<and>
      (\<exists>n n'. um_find (nodes m) i = Some n \<and> um_find (nodes m') i = Some n' \<and> drained n n' \<and>
         (i = nodeId \<or> eligible fid n))))"
proof (cases "can_consume nodeId fid amount m")
  case False
  then have "m' = m \<and> accepted_amount r = 0 \<and> blocked r \<and> remaining r = max 0 amount"
    using c by (auto simp: consumeFluidUncached_def can_consume_def getNode_def Let_def split: option.splits if_splits)
  then show ?thesis using ok False by simp
next
  case True
  obtain n where n: "um_find (nodes m) nodeId = Some n" "fluidCapacity n > 0" "is_sink (domains n FLUID)"
    "fluidId n = 0 \<or> fluidId n = fid" "amount > 0" "fid \<noteq> 0"
    using True by (auto simp: can_consume_def getNode_def split: option.splits)
  define a where "a = rate_cap (domains n FLUID) (min amount (fluidBuffer n))"
  define ns where "ns = um_modify nodeId (drain_node a) (nodes m)"
  obtain ns' acc rem where d: "drain_pipes fid nodeId (discoverNetwork nodeId m) ns a (amount - a) = (ns', acc, rem)"
    by (metis prod_cases3)
  have r: "m' = m\<lparr>nodes := ns'\<rparr> \<and> accepted_amount r = acc \<and> remaining r = rem \<and> \<not> blocked r"
    using c n d by (auto simp: consumeFluidUncached_def Let_def a_def ns_def)
  have buf: "0 \<le> fluidBuffer n" using ok n(1) by (rule fluids_okD)
  have off: "offer fid nodeId (nodes m) nodeId = rate_cap (domains n FLUID) (fluidBuffer n)"
    by (simp add: offer_def n(1))
  have a_eq: "a = min amount (offer fid nodeId (nodes m) nodeId)" unfolding a_def off by (rule rate_cap_min)
  have a: "0 \<le> a" "a \<le> amount" "a \<le> fluidBuffer n"
    using buf n(5) rate_cap_le[of "domains n FLUID"] rate_cap_nonneg[OF buf, of "domains n FLUID"]
    unfolding a_eq off by (auto intro: min.coboundedI2)
  have ok1: "fluids_ok ns" unfolding ns_def using ok n(1) a(3) by (auto intro: fluids_ok_drain)
  have comp: "distinct (discoverNetwork nodeId m)"
    "set (discoverNetwork nodeId m) = {b. connected (edge_pairs m) nodeId b}"
    using discoverNetwork_component[of m nodeId] n(1) by simp_all
  have others: "offers fid nodeId ns ids = offers fid nodeId (nodes m) ids" for ids
    unfolding offers_def ns_def by (intro arg_cong[of _ _ sum_list] map_cong) (auto intro: offer_modify)
  note spec = drain_pipes_spec[OF d ok1 _ comp(1)]
  have s: "fluids_ok ns'" "node_sum fluidBuffer ns' + acc = node_sum fluidBuffer ns + a"
    "acc = a + min (amount - a) (offers fid nodeId ns (discoverNetwork nodeId m))"
    "rem = amount - a - min (amount - a) (offers fid nodeId ns (discoverNetwork nodeId m))"
    "\<And>i. um_find ns' i = um_find ns i \<or> (i \<in> set (discoverNetwork nodeId m) \<and> i \<noteq> nodeId \<and> (\<exists>n n'. um_find ns i = Some n \<and>
       um_find ns' i = Some n' \<and> eligible fid n \<and> drained n n'))"
    using spec a(2) by auto
  have nonneg: "0 \<le> offer fid nodeId (nodes m) nodeId" "0 \<le> offers fid nodeId (nodes m) (discoverNetwork nodeId m)"
    using ok by (simp_all add: offer_nonneg offers_nonneg)
  have acc: "acc = min amount (obtainable nodeId fid m)"
    using nonneg n(5) unfolding s(3) others obtainable_def a_eq by (simp add: min_def)
  have sum: "node_sum fluidBuffer ns = node_sum fluidBuffer (nodes m) - a"
    unfolding ns_def using n(1) by (rule node_sum_drain)
  have frame: "um_find ns' i = um_find (nodes m) i \<or> (connected (edge_pairs m) nodeId i \<and>
      (\<exists>n n'. um_find (nodes m) i = Some n \<and> um_find ns' i = Some n' \<and> drained n n' \<and>
         (i = nodeId \<or> eligible fid n)))" for i
  proof (cases "i = nodeId")
    case True
    then have "um_find ns' i = Some (drain_node a n)" using s(5)[of i] n(1) by (auto simp: ns_def um_simps)
    then show ?thesis using True n(1) drained_drain_node[OF a(1,3)] by simp
  next
    case False
    then have "um_find ns i = um_find (nodes m) i" by (simp add: ns_def um_simps)
    then show ?thesis using s(5)[of i] comp(2) by auto
  qed
  show ?thesis
    using r True acc s(1,2,3,4) sum n(5) frame by auto
qed

section \<open>The replay cache\<close>

definition consume_request :: "u64 \<times> u64 \<times> u32 \<times> int \<Rightarrow> manager \<Rightarrow> manager \<times> fluid_result" where
  "consume_request q m = (case q of (nodeId, rid, fid, amount) \<Rightarrow> consumeFluid nodeId rid fid amount m)"

definition remembered :: "nat \<Rightarrow> manager \<Rightarrow> u64 \<times> u64 \<times> u32 \<times> int \<Rightarrow> fluid_result \<Rightarrow> bool" where
  "remembered n m q r \<longleftrightarrow> (case q of (nodeId, rid, fid, amount) \<Rightarrow>
     rid \<noteq> 0 \<and> um_wf (fluid_transactions m) \<and> res_node_id r = nodeId \<and> res_fluid_id r = fid \<and>
     (\<exists>t. um_find (fluid_transactions m) rid = Some t \<and> result t = r \<and> requested_amount t = amount \<and>
        unat (fluid_tick m) + n < unat (expires_at t)))"

definition fresh_request :: "manager \<Rightarrow> u64 \<times> u64 \<times> u32 \<times> int \<Rightarrow> bool" where
  "fresh_request m q \<longleftrightarrow> (case q of (nodeId, rid, fid, amount) \<Rightarrow>
     rid \<noteq> 0 \<and> um_wf (fluid_transactions m) \<and> um_find (fluid_transactions m) rid = None \<and>
     unat (fluid_tick m) + 201 < 2 ^ 64)"

lemma uncached_sel:
  assumes "consumeFluidUncached nodeId rid fid amount m = (m', r)"
  shows "fluid_transactions m' = fluid_transactions m" "fluid_tick m' = fluid_tick m"
    "res_node_id r = nodeId" "res_fluid_id r = fid"
  using assms by (auto simp: consumeFluidUncached_def Let_def split: option.splits if_splits prod.splits)

lemma begin_sel [simp]:
  "fluid_tick (fluid_begin m) = fluid_tick m + 1" "nodes (fluid_begin m) = nodes m"
  "edges (fluid_begin m) = edges m"
  "fluid_transactions (fluid_begin m) = um_erase_if (\<lambda>_ t. expires_at t \<le> fluid_tick m + 1) (fluid_transactions m)"
  by (simp_all add: fluid_begin_def expireFluidTransactions_def)

lemma tick_Suc:
  fixes t :: u64
  assumes "unat t + Suc n < 2 ^ 64"
  shows "unat (t + 1) = Suc (unat t)"
proof -
  have "unat (t + 1) = (unat t + 1) mod 2 ^ 64" by (simp add: unat_word_ariths)
  then show ?thesis using assms by simp
qed

lemma remembered_kept:
  assumes "um_wf (fluid_transactions m)" "um_find (fluid_transactions m) rid = Some t"
    and "unat (fluid_tick m) + Suc n < unat (expires_at t)"
  shows "um_find (fluid_transactions (fluid_begin m)) rid = Some t"
    and "unat (fluid_tick (fluid_begin m)) + n < unat (expires_at t)"
proof -
  have "unat (expires_at t) < 2 ^ 64" using unsigned_less[of "expires_at t"] by simp
  then have tick: "unat (fluid_tick m + 1) = Suc (unat (fluid_tick m))"
    using assms(3) tick_Suc[of "fluid_tick m" n] by simp
  then show "unat (fluid_tick (fluid_begin m)) + n < unat (expires_at t)" using assms(3) by simp
  have "\<not> expires_at t \<le> fluid_tick m + 1" using assms(3) tick by (simp add: word_le_nat_alt)
  then show "um_find (fluid_transactions (fluid_begin m)) rid = Some t"
    using assms(1,2) by (simp add: um_simps)
qed

interpretation consume_rpc: replay_server consume_request nodes remembered fresh_request 199
proof
  fix n m q r m' r' assume live: "remembered (Suc n) m q r" and h: "consume_request q m = (m', r')"
  obtain nodeId rid fid amount where q: "q = (nodeId, rid, fid, amount)" by (metis prod_cases4)
  obtain t where t: "rid \<noteq> 0" "um_wf (fluid_transactions m)" "um_find (fluid_transactions m) rid = Some t"
    "result t = r" "requested_amount t = amount" "unat (fluid_tick m) + Suc n < unat (expires_at t)"
    "res_node_id r = nodeId" "res_fluid_id r = fid"
    using live by (auto simp: remembered_def q)
  show "r' = r \<and> nodes m' = nodes m"
    using h remembered_kept(1)[OF t(2,3,6)] t by (auto simp: consume_request_def q consumeFluid_def Let_def)
next
  fix n m q r and q' :: "u64 \<times> u64 \<times> u32 \<times> int" assume live: "remembered (Suc n) m q r"
  obtain nodeId rid fid amount where q: "q = (nodeId, rid, fid, amount)" by (metis prod_cases4)
  obtain nodeId' rid' fid' amount' where q': "q' = (nodeId', rid', fid', amount')" by (metis prod_cases4)
  obtain t where t: "rid \<noteq> 0" "um_wf (fluid_transactions m)" "um_find (fluid_transactions m) rid = Some t"
    "result t = r" "requested_amount t = amount" "unat (fluid_tick m) + Suc n < unat (expires_at t)"
    "res_node_id r = nodeId" "res_fluid_id r = fid"
    using live by (auto simp: remembered_def q)
  note kept = remembered_kept[OF t(2,3,6)]
  obtain m1 r1 where u: "consumeFluidUncached nodeId' rid' fid' amount' (fluid_begin m) = (m1, r1)" by force
  note sel = uncached_sel[OF u]
  have wf: "um_wf (fluid_transactions (fluid_begin m))" using t(2) by simp
  define m2 where "m2 = fst (consume_request q' m)"
  have tick: "fluid_tick m2 = fluid_tick (fluid_begin m)"
    using sel(2) u
    by (cases "rid' = 0") (simp_all add: m2_def consume_request_def q' consumeFluid_def Let_def split: option.splits)
  have tx: "um_wf (fluid_transactions m2) \<and> um_find (fluid_transactions m2) rid = Some t"
    using kept(1) wf sel(1) u
    by (cases "rid' = 0") (auto simp: m2_def consume_request_def q' consumeFluid_def Let_def um_simps
        simp del: begin_sel(4) split: option.splits)
  show "remembered n (fst (consume_request q' m)) q r"
    using t kept(2) tx tick unfolding m2_def[symmetric] by (simp add: remembered_def q)
next
  fix m q assume adm: "fresh_request m q"
  obtain nodeId rid fid amount where q: "q = (nodeId, rid, fid, amount)" by (metis prod_cases4)
  have h: "rid \<noteq> 0" "um_wf (fluid_transactions m)" "um_find (fluid_transactions m) rid = None"
    "unat (fluid_tick m) + 201 < 2 ^ 64"
    using adm by (auto simp: fresh_request_def q)
  have none: "um_find (fluid_transactions (fluid_begin m)) rid = None" using h(2,3) by (simp add: um_simps)
  obtain m1 r where u: "consumeFluidUncached nodeId rid fid amount (fluid_begin m) = (m1, r)" by force
  note sel = uncached_sel[OF u]
  have tick: "unat (fluid_tick m + 1) = Suc (unat (fluid_tick m))" using h(4) by (intro tick_Suc[of _ 0]) simp
  have "unat (fluid_tick m + 1 + 200) = unat (fluid_tick m + 1) + 200"
  proof -
    have "unat (201 + fluid_tick m) = (unat (201 :: u64) + unat (fluid_tick m)) mod 2 ^ LENGTH(64)"
      by (rule unat_word_ariths(1))
    also have "\<dots> = 201 + unat (fluid_tick m)" using h(4) by simp
    finally show ?thesis using tick by simp
  qed
  then have "unat (fluid_tick m1) + 199 < unat (fluid_tick m1 + kFluidTransactionTtl)"
    unfolding sel(2) kFluidTransactionTtl_def by simp
  then show "remembered 199 (fst (consume_request q m)) q (snd (consume_request q m))"
    using h none sel
    by (simp add: remembered_def consume_request_def q consumeFluid_def Let_def u um_simps del: begin_sel(4))
      (simp add: um_wf_emplace)
qed

section \<open>Properties of consumption\<close>

text \<open>A fluid request that is not a replay takes exactly the smaller of the requested amount and
  what the node and the eligible pipes connected to it offer under their rate limits; what it
  reports as accepted is what leaves the buffers; it touches only nodes connected to the requester,
  never a source and never a pipe that holds another fluid.\<close>

theorem consumeFluidUncached_exact:
  assumes "fluids_ok (nodes m)" "can_consume nodeId fid amount m"
  shows "\<exists>m' r. consumeFluidUncached nodeId rid fid amount m = (m', r) \<and> \<not> blocked r \<and>
    accepted_amount r = min amount (obtainable nodeId fid m) \<and> accepted_amount r + remaining r = amount \<and>
    node_sum fluidBuffer (nodes m') + accepted_amount r = node_sum fluidBuffer (nodes m) \<and> fluids_ok (nodes m') \<and>
    (\<forall>i. getNode i m' = getNode i m \<or> (connected (edge_pairs m) nodeId i \<and>
      (\<exists>n n'. getNode i m = Some n \<and> getNode i m' = Some n' \<and> drained n n' \<and> (i = nodeId \<or> eligible fid n))))"
proof -
  obtain m' r where c: "consumeFluidUncached nodeId rid fid amount m = (m', r)" by force
  have "max 0 amount = amount" using assms(2) by (auto simp: can_consume_def)
  then show ?thesis
    using consumeFluidUncached_spec[OF assms(1) c] assms(2) c unfolding getNode_def by auto
qed

definition tank :: manager where
  "tank = apply_op (SetFluid 2 500 1000 7 False False) (apply_op (SetFluid 1 30 1000 7 False True) two_pipes)"

lemma tank_facts: "fluids_ok (nodes tank)" "can_consume 1 7 100 tank" "fluid_tick tank = 0"
  "map fst (fluid_transactions tank) = []"
  by code_simp+

lemma tank_fresh: "fresh_request tank (1, 77, 7, 100)"
  using tank_facts(3,4) by (simp add: fresh_request_def)

theorem consumeFluidUncached_exact_witness:
  "\<exists>m' r. consumeFluidUncached 1 0 7 100 tank = (m', r) \<and> \<not> blocked r \<and>
    accepted_amount r = min 100 (obtainable 1 7 tank) \<and> accepted_amount r + remaining r = 100 \<and>
    node_sum fluidBuffer (nodes m') + accepted_amount r = node_sum fluidBuffer (nodes tank) \<and> fluids_ok (nodes m') \<and>
    (\<forall>i. getNode i m' = getNode i tank \<or> (connected (edge_pairs tank) 1 i \<and>
      (\<exists>n n'. getNode i tank = Some n \<and> getNode i m' = Some n' \<and> drained n n' \<and> (i = 1 \<or> eligible 7 n))))"
  by (rule consumeFluidUncached_exact[OF tank_facts(1,2)])

text \<open>C9: a consume request with a fresh id may be retried after up to 198 other requests of any kind:
  the retry returns the recorded result and drains nothing.\<close>

theorem consumeFluid_retry:
  assumes "fresh_request m q" "length qs < 199" "consume_request q m = (m1, r)"
  shows "snd (consume_request q (serve consume_request qs m1)) = r \<and>
    nodes (fst (consume_request q (serve consume_request qs m1))) = nodes (serve consume_request qs m1)"
  using assms by (rule consume_rpc.retry)

theorem consumeFluid_retry_witness:
  "snd (consume_request (1, 77, 7, 100) (serve consume_request [(1, 78, 7, 5), (1, 77, 7, 6)]
     (fst (consume_request (1, 77, 7, 100) tank)))) = snd (consume_request (1, 77, 7, 100) tank)"
proof -
  from consumeFluid_retry[OF tank_fresh _ prod.collapse[symmetric], of "[(1, 78, 7, 5), (1, 77, 7, 6)]"]
  show ?thesis by simp
qed

end
