(* ===== verification/PipeFlow.thy ===== *)
theory PipeFlow
  imports PipeFluid
begin

text \<open>
  The distribution of energy and fluid inside one network: \<open>distributeFlow\<close>, \<open>distributeEnergy\<close>,
  \<open>distributeFluid\<close> and \<open>fillFluidPipesFromSources\<close> of \<open>src/apps/pipe_network/PipeNetwork.cpp\<close>.
  Each works on the node table and a table of per-node deltas; \<open>mirror\<close> says that the deltas are
  exactly what happened to the buffers.
\<close>

section \<open>C++ division\<close>

text \<open>Truncating division and its remainder, for a positive divisor.\<close>

definition cdiv :: "int \<Rightarrow> int \<Rightarrow> int" where
  "cdiv a b = (if a < 0 then - (- a div b) else a div b)"

definition cmod :: "int \<Rightarrow> int \<Rightarrow> int" where
  "cmod a b = a - b * cdiv a b"

lemma cdiv_nonneg [simp]: "0 \<le> a \<Longrightarrow> cdiv a b = a div b"
  by (simp add: cdiv_def)

lemma cmod_nonneg [simp]: "0 \<le> a \<Longrightarrow> cmod a b = a mod b"
  by (simp add: cmod_def minus_mult_div_eq_mod)

text \<open>\<open>perSink + (i < static_cast<size_t>(remainder) ? 1 : 0)\<close>\<close>

definition share :: "int \<Rightarrow> nat \<Rightarrow> nat \<Rightarrow> int" where
  "share tot n i = cdiv tot (int n) + (if int i < cmod tot (int n) mod 2 ^ 64 then 1 else 0)"

section \<open>Feeding the sinks\<close>

definition delta :: "(u64, int) umap \<Rightarrow> u64 \<Rightarrow> int" where
  "delta ds i = (case um_find ds i of None \<Rightarrow> 0 | Some d \<Rightarrow> d)"

fun feed ::
  "(int \<Rightarrow> pipe_node \<Rightarrow> pipe_node) \<Rightarrow> (pipe_node \<Rightarrow> int) \<Rightarrow> resource_kind \<Rightarrow> (nat \<Rightarrow> int) \<Rightarrow> nat \<Rightarrow> u64 list \<Rightarrow>
   (u64, pipe_node) umap \<Rightarrow> (u64, int) umap \<Rightarrow> (u64, pipe_node) umap \<times> (u64, int) umap"
where
  "feed put room k shr i [] ns ds = (ns, ds)"
| "feed put room k shr i (snid # ids) ns ds =
     (case um_find ns snid of
        None \<Rightarrow> feed put room k shr (i + 1) ids ns ds
      | Some n \<Rightarrow>
          let give = rate_cap (domains n k) (min (shr i) (room n))
          in feed put room k shr (i + 1) ids (um_modify snid (put give) ns) (um_add snid give ds))"

definition has_role :: "(domain_state \<Rightarrow> bool) \<Rightarrow> resource_kind \<Rightarrow> (u64, pipe_node) umap \<Rightarrow> u64 \<Rightarrow> bool" where
  "has_role r k ns i = (case um_find ns i of None \<Rightarrow> False | Some n \<Rightarrow> r (domains n k))"

section \<open>Energy\<close>

definition put_energy :: "int \<Rightarrow> pipe_node \<Rightarrow> pipe_node" where
  "put_energy a n = n\<lparr>energyBuffer := energyBuffer n + a\<rparr>"

definition energy_room :: "pipe_node \<Rightarrow> int" where
  "energy_room n = energyCapacity n - energyBuffer n"

fun draw_sources ::
  "int \<Rightarrow> int \<Rightarrow> u64 list \<Rightarrow> int \<Rightarrow> (u64, pipe_node) umap \<Rightarrow> (u64, int) umap \<Rightarrow> (u64, pipe_node) umap \<times> (u64, int) umap"
where
  "draw_sources tot cap [] rem ns ds = (ns, ds)"
| "draw_sources tot cap (sid # sids) rem ns ds =
     (case um_find ns sid of
        None \<Rightarrow> draw_sources tot cap sids rem ns ds
      | Some n \<Rightarrow>
          let want = (if sids = [] then rem else cdiv (tot * max 1 (energyCapacity n)) cap);
              amt = rate_cap (domains n EU) (min want (energyBuffer n))
          in draw_sources tot cap sids (rem - amt) (um_modify sid (put_energy (- amt)) ns) (um_add sid (- amt) ds))"

definition source_capacity :: "(u64, pipe_node) umap \<Rightarrow> u64 list \<Rightarrow> int" where
  "source_capacity ns sids = sum_found (\<lambda>n. max 1 (energyCapacity n)) ns sids"

definition distributeFlow ::
  "u64 list \<Rightarrow> int \<Rightarrow> (u64, pipe_node) umap \<Rightarrow> (u64, int) umap \<Rightarrow> (u64, pipe_node) umap \<times> (u64, int) umap"
where
  "distributeFlow ids tot ns ds =
     (if ids = [] \<or> tot = 0 then (ns, ds)
      else
        let sources = filter (has_role is_source EU ns) ids;
            sinks = filter (has_role is_sink EU ns) ids;
            cap = source_capacity ns sources
        in (case (if sources \<noteq> [] \<and> cap > 0 then draw_sources tot cap sources tot ns ds else (ns, ds)) of
              (ns', ds') \<Rightarrow>
                if sinks \<noteq> []
                then feed put_energy energy_room EU (share tot (length sinks)) 0 sinks ns' ds'
                else (ns', ds')))"

definition put_net :: "u64 \<Rightarrow> (pipe_net \<Rightarrow> pipe_net) \<Rightarrow> manager \<Rightarrow> manager" where
  "put_net netId f m = m\<lparr>networks := um_modify netId f (networks m)\<rparr>"

definition distributeEnergy :: "u64 \<Rightarrow> int \<Rightarrow> manager \<Rightarrow> manager \<times> (u64, int) umap" where
  "distributeEnergy netId tickEnergy m =
     (case um_find (networks m) netId of
        None \<Rightarrow> (m, [])
      | Some net \<Rightarrow>
          if tickEnergy = 0 then (m, [])
          else (case distributeFlow (nodeIds net) tickEnergy (nodes m) [] of
                  (ns, ds) \<Rightarrow>
                    (put_net netId (\<lambda>net. net\<lparr>totalEnergy := sum_found energyBuffer ns (nodeIds net),
                        isActive := list_ex (has_role is_sink EU ns) (nodeIds net) \<and> tickEnergy \<noteq> 0\<rparr>)
                       (m\<lparr>nodes := ns\<rparr>), ds)))"

section \<open>Fluid\<close>

definition put_fluid :: "u32 \<Rightarrow> int \<Rightarrow> pipe_node \<Rightarrow> pipe_node" where
  "put_fluid fid a n =
     n\<lparr>fluidBuffer := fluidBuffer n + a,
       fluidId := (if fluidId n = 0 \<and> a > 0 then (if fid \<noteq> 0 then fid else 1) else fluidId n)\<rparr>"

definition fluid_room :: "pipe_node \<Rightarrow> int" where
  "fluid_room n = fluidCapacity n - fluidBuffer n"

definition empty_sink :: "(u64, pipe_node) umap \<Rightarrow> u64 \<Rightarrow> bool" where
  "empty_sink ns i =
     (case um_find ns i of None \<Rightarrow> False
      | Some n \<Rightarrow> is_sink (domains n FLUID) \<and> fluidBuffer n < fluidCapacity n \<and> fluidId n = 0)"

definition distributeFluid :: "u64 \<Rightarrow> int \<Rightarrow> manager \<Rightarrow> manager \<times> (u64, int) umap" where
  "distributeFluid netId tickFluid m0 =
     (let m = fluid_begin m0
      in (case um_find (networks m) netId of
            None \<Rightarrow> (m, [])
          | Some net \<Rightarrow>
              if tickFluid = 0 then (m, [])
              else
                let sinks = filter (empty_sink (nodes m)) (nodeIds net)
                in (case (if sinks \<noteq> []
                          then feed (put_fluid (netFluidId net)) fluid_room FLUID (share tickFluid (length sinks)) 0
                                 sinks (nodes m) []
                          else (nodes m, [])) of
                      (ns, ds) \<Rightarrow>
                        (put_net netId (\<lambda>net. net\<lparr>totalFluid := sum_found fluidBuffer ns (nodeIds net),
                            isActive := list_ex (has_role is_sink FLUID ns) (nodeIds net) \<and> tickFluid \<noteq> 0\<rparr>)
                           (m\<lparr>nodes := ns\<rparr>), ds))))"

definition fill_source :: "pipe_node \<Rightarrow> bool" where
  "fill_source n \<longleftrightarrow> is_source (domains n FLUID) \<and> fluidBuffer n > 0 \<and> fluidCapacity n > 0 \<and> fluidId n \<noteq> 0"

definition fill_pipe :: "pipe_node \<Rightarrow> bool" where
  "fill_pipe n \<longleftrightarrow> fluidCapacity n > 0 \<and> \<not> is_source (domains n FLUID) \<and> \<not> is_sink (domains n FLUID) \<and>
     fluid_room n > 0"

definition found :: "(pipe_node \<Rightarrow> bool) \<Rightarrow> (u64, pipe_node) umap \<Rightarrow> u64 \<Rightarrow> bool" where
  "found p ns i = (case um_find ns i of None \<Rightarrow> False | Some n \<Rightarrow> p n)"

text \<open>\<open>if (fluidId == 0) fluidId = node.fluidId; else if (fluidId != node.fluidId) fluidId = 0;\<close>\<close>

definition source_fluid :: "(u64, pipe_node) umap \<Rightarrow> u64 \<Rightarrow> u32 \<Rightarrow> u32" where
  "source_fluid ns i fid =
     (case um_find ns i of None \<Rightarrow> fid
      | Some n \<Rightarrow> if fid = 0 then fluidId n else if fid \<noteq> fluidId n then 0 else fid)"

fun fill_pipes ::
  "u32 \<Rightarrow> int \<Rightarrow> int \<Rightarrow> u64 list \<Rightarrow> int \<Rightarrow> (u64, pipe_node) umap \<Rightarrow> (u64, int) umap \<Rightarrow> (u64, pipe_node) umap \<times> (u64, int) umap"
where
  "fill_pipes fid toFill room [] rem ns ds = (ns, ds)"
| "fill_pipes fid toFill room (p # ps) rem ns ds =
     (case um_find ns p of
        None \<Rightarrow> fill_pipes fid toFill room ps rem ns ds
      | Some n \<Rightarrow>
          let give = min (if ps = [] then rem else cdiv (toFill * fluid_room n) room) (fluid_room n)
          in if give \<le> 0 then fill_pipes fid toFill room ps rem ns ds
             else fill_pipes fid toFill room ps (rem - give)
                    (um_modify p (\<lambda>n. n\<lparr>fluidBuffer := fluidBuffer n + give,
                       fluidId := (if fluidId n = 0 then fid else fluidId n)\<rparr>) ns) (um_add p give ds))"

fun debit_sources ::
  "int \<Rightarrow> u64 list \<Rightarrow> int \<Rightarrow> int \<Rightarrow> (u64, pipe_node) umap \<Rightarrow> (u64, int) umap \<Rightarrow> (u64, pipe_node) umap \<times> (u64, int) umap"
where
  "debit_sources toFill [] rem avail ns ds = (ns, ds)"
| "debit_sources toFill (s # ss) rem avail ns ds =
     (if rem \<le> 0 then (ns, ds)
      else (case um_find ns s of
              None \<Rightarrow> debit_sources toFill ss rem avail ns ds
            | Some n \<Rightarrow>
                let amt = min (if ss = [] then rem else cdiv (toFill * fluidBuffer n) avail) (fluidBuffer n)
                in if amt \<le> 0 then debit_sources toFill ss rem avail ns ds
                   else debit_sources toFill ss (rem - amt) (avail - fluidBuffer n)
                          (um_modify s (\<lambda>n. n\<lparr>fluidBuffer := fluidBuffer n - amt\<rparr>) ns) (um_add s (- amt) ds)))"

definition fillFluidPipesFromSources :: "u64 \<Rightarrow> manager \<Rightarrow> manager \<times> (u64, int) umap" where
  "fillFluidPipesFromSources netId m =
     (case um_find (networks m) netId of
        None \<Rightarrow> (m, [])
      | Some net \<Rightarrow>
          let ns = nodes m;
              sources = filter (found fill_source ns) (nodeIds net);
              pipes = filter (found fill_pipe ns) (nodeIds net);
              available = sum_found fluidBuffer ns sources;
              room = sum_found fluid_room ns pipes;
              fid = fold (source_fluid ns) sources 0
          in if sources = [] \<or> pipes = [] \<or> available \<le> 0 \<or> room \<le> 0 \<or> fid = 0 then (m, [])
             else
               let toFill = min available room
               in (case fill_pipes fid toFill room pipes toFill ns [] of
                     (ns1, ds1) \<Rightarrow>
                       (case debit_sources toFill sources toFill available ns1 ds1 of
                          (ns2, ds2) \<Rightarrow>
                            (put_net netId (\<lambda>net. net\<lparr>totalFluid := sum_found fluidBuffer ns2 (nodeIds net),
                                netFluidId := fid, isActive := ds2 \<noteq> []\<rparr>) (m\<lparr>nodes := ns2\<rparr>), ds2))))"

section \<open>Deltas mirror the buffers\<close>

definition mirror :: "(pipe_node \<Rightarrow> int) \<Rightarrow> (u64, pipe_node) umap \<Rightarrow> (u64, pipe_node) umap \<Rightarrow> (u64, int) umap \<Rightarrow> bool" where
  "mirror q ns0 ns ds \<longleftrightarrow>
     (\<forall>i. map_option q (um_find ns i) = map_option (\<lambda>n. q n + delta ds i) (um_find ns0 i))"

definition all_nodes :: "(pipe_node \<Rightarrow> bool) \<Rightarrow> (u64, pipe_node) umap \<Rightarrow> bool" where
  "all_nodes P ns \<longleftrightarrow> (\<forall>(i, n) \<in> set ns. P n)"

lemma delta_add: "delta (um_add k a ds) i = delta ds i + (if i = k then a else 0)"
  by (simp add: delta_def um_simps split: option.splits)

lemma mirror_refl: "mirror q ns ns []"
  by (simp add: mirror_def delta_def option.map_id0[unfolded id_def] option.map_comp o_def)

lemma mirror_step:
  assumes "mirror q ns0 ns ds" "um_find ns i = Some n" "q (f n) = q n + a"
  shows "mirror q ns0 (um_modify i f ns) (um_add i a ds)"
  unfolding mirror_def
proof
  fix j
  have j: "map_option q (um_find ns j) = map_option (\<lambda>n. q n + delta ds j) (um_find ns0 j)"
    using assms(1) by (simp add: mirror_def)
  show "map_option q (um_find (um_modify i f ns) j) = map_option (\<lambda>n. q n + delta (um_add i a ds) j) (um_find ns0 j)"
  proof (cases "j = i")
    case True
    then have "map_option (\<lambda>n. q n + delta ds i) (um_find ns0 i) = Some (q n)" using j assms(2) by simp
    then show ?thesis using True assms(2,3) by (auto simp: um_simps delta_add)
  qed (use j in \<open>simp add: um_simps delta_add\<close>)
qed

lemma all_nodesD: "all_nodes P ns \<Longrightarrow> um_find ns i = Some n \<Longrightarrow> P n"
  by (auto simp: all_nodes_def dest: map_of_SomeD)

lemma all_nodes_modify:
  assumes "all_nodes P ns" "\<And>n. um_find ns i = Some n \<Longrightarrow> P (f n)"
  shows "all_nodes P (um_modify i f ns)"
  using assms um_modify_set[of i f ns] by (fastforce simp: all_nodes_def)

lemma sum_found_modify:
  assumes "\<And>n. q (f n) = q n"
  shows "sum_found q (um_modify i f ns) ids = sum_found q ns ids"
  unfolding sum_found_def
  by (intro arg_cong[of _ _ sum_list] map_cong) (auto simp: um_simps assms split: option.splits)

lemma sum_found_away:
  assumes "i \<notin> set ids"
  shows "sum_found q (um_modify i f ns) ids = sum_found q ns ids"
  unfolding sum_found_def using assms
  by (intro arg_cong[of _ _ sum_list] map_cong) (auto simp: um_simps)

lemma sum_found_Cons:
  "sum_found q ns (i # ids) = (case um_find ns i of None \<Rightarrow> 0 | Some n \<Rightarrow> q n) + sum_found q ns ids"
  by (simp add: sum_found_def)

lemma sum_found_nonneg: "(\<And>n. 0 \<le> q n) \<Longrightarrow> 0 \<le> sum_found q ns ids"
  unfolding sum_found_def by (intro sum_list_nonneg) (auto split: option.splits)

lemma feed_mirror:
  assumes "feed put room k shr i ids ns ds = (ns', ds')" "mirror q ns0 ns ds" "\<And>a n. q (put a n) = q n + a"
  shows "mirror q ns0 ns' ds'"
  using assms(1,2)
proof (induction ids arbitrary: i ns ds)
  case (Cons snid ids)
  show ?case
  proof (cases "um_find ns snid")
    case (Some n)
    define g where "g = rate_cap (domains n k) (min (shr i) (room n))"
    have "mirror q ns0 (um_modify snid (put g) ns) (um_add snid g ds)"
      using Cons.prems(2) Some assms(3) by (rule mirror_step)
    from Cons.IH[OF _ this] show ?thesis using Cons.prems(1) Some by (simp add: g_def Let_def)
  qed (use Cons in auto)
qed simp

lemma feed_all_nodes:
  assumes "feed put room k shr i ids ns ds = (ns', ds')" "all_nodes P ns"
    and "\<And>n j. P n \<Longrightarrow> P (put (rate_cap (domains n k) (min (shr j) (room n))) n)"
  shows "all_nodes P ns'"
  using assms(1,2)
proof (induction ids arbitrary: i ns ds)
  case (Cons snid ids)
  show ?case
  proof (cases "um_find ns snid")
    case (Some n)
    define g where "g = rate_cap (domains n k) (min (shr i) (room n))"
    have "P n" by (rule all_nodesD[OF Cons.prems(2) Some])
    then have "all_nodes P (um_modify snid (put g) ns)"
      using Cons.prems(2) Some assms(3)[of n i] by (intro all_nodes_modify) (auto simp: g_def)
    from Cons.IH[OF _ this] show ?thesis using Cons.prems(1) Some by (simp add: g_def Let_def)
  qed (use Cons in auto)
qed simp

lemma feed_total:
  assumes "feed put room k shr i ids ns ds = (ns', ds')" "\<And>j. 0 \<le> shr j" "\<And>a n. q (put a n) = q n + a"
  shows "node_sum q ns' \<le> node_sum q ns + (\<Sum>j < length ids. shr (i + j))"
  using assms(1)
proof (induction ids arbitrary: i ns ds)
  case (Cons snid ids)
  have split: "(\<Sum>j < length (snid # ids). shr (i + j)) = shr i + (\<Sum>j < length ids. shr (i + 1 + j))"
    by (simp add: sum.lessThan_Suc_shift del: sum.lessThan_Suc)
  show ?case
  proof (cases "um_find ns snid")
    case None
    with Cons.prems have "feed put room k shr (i + 1) ids ns ds = (ns', ds')" by simp
    from Cons.IH[OF this] show ?thesis unfolding split using assms(2)[of i] by simp
  next
    case (Some n)
    define g where "g = rate_cap (domains n k) (min (shr i) (room n))"
    have rec: "feed put room k shr (i + 1) ids (um_modify snid (put g) ns) (um_add snid g ds) = (ns', ds')"
      using Cons.prems Some by (simp add: g_def Let_def)
    have "g \<le> shr i" unfolding g_def using rate_cap_le[of "domains n k" "min (shr i) (room n)"] by linarith
    then show ?thesis
      unfolding split using Cons.IH[OF rec] Some by (simp add: node_sum_modify assms(3))
  qed
qed simp

section \<open>Shares\<close>

lemma share_nonneg: "0 \<le> tot \<Longrightarrow> 0 \<le> share tot n i"
  by (cases "n = 0") (simp_all add: share_def pos_imp_zdiv_nonneg_iff)

lemma sum_shares:
  assumes "0 \<le> tot" "0 < n" "n \<le> 2 ^ 64"
  shows "(\<Sum>j < n. share tot n j) = tot"
proof -
  define r where "r = tot mod int n"
  have r: "0 \<le> r" "r < int n" using assms(2) by (simp_all add: r_def)
  have "int n \<le> 2 ^ 64" using assms(3) by (metis of_nat_le_iff of_nat_numeral of_nat_power)
  then have small: "r mod 2 ^ 64 = r" using r by (intro mod_pos_pos_trivial) linarith+
  have "(\<Sum>j < n. share tot n j) = (\<Sum>j < n. tot div int n) + (\<Sum>j < n. if int j < r then 1 else 0)"
    unfolding share_def sum.distrib[symmetric] using assms(1) by (simp only: cdiv_nonneg cmod_nonneg r_def[symmetric] small)
  also have "(\<Sum>j < n. if int j < r then 1 else 0) = (\<Sum>j \<in> {..<nat r}. 1 :: int)"
    using r by (intro sum.mono_neutral_cong_right) (auto simp: nat_less_iff)
  also have "\<dots> = r" using r by simp
  also have "(\<Sum>j < n. tot div int n) = int n * (tot div int n)" by simp
  finally show ?thesis unfolding r_def by simp
qed

section \<open>Drawing from the sources\<close>

lemma source_capacity_put: "source_capacity (um_modify i (put_energy a) ns) ids = source_capacity ns ids"
  unfolding source_capacity_def by (rule sum_found_modify) (simp add: put_energy_def)

definition energy_ok :: "pipe_node \<Rightarrow> bool" where
  "energy_ok n \<longleftrightarrow> 0 \<le> energyBuffer n \<and> energyBuffer n \<le> energyCapacity n"

lemma source_capacity_nonneg: "0 \<le> source_capacity ns ids"
  unfolding source_capacity_def by (rule sum_found_nonneg) simp

text \<open>The remainder stays large enough for the shares still to come.\<close>

lemma draw_sources_step:
  fixes tot cap rem c rest :: int
  assumes "0 \<le> tot" "0 < cap" "tot * (c + rest) \<le> rem * cap" "0 < c" "0 \<le> rest" "0 \<le> rem"
    and "0 \<le> b" "amt = rate_cap d (min (if last_one then rem else cdiv (tot * c) cap) b)" "last_one \<Longrightarrow> rest = 0"
  shows "0 \<le> amt" "amt \<le> b" "0 \<le> rem - amt" "tot * rest \<le> (rem - amt) * cap"
proof -
  define w where "w = (if last_one then rem else tot * c div cap)"
  have tc: "0 \<le> tot * c" using assms(1,4) by simp
  then have amt: "amt = rate_cap d (min w b)" using assms(8) by (simp add: w_def)
  have w: "0 \<le> w" using assms(2,6) tc by (simp add: w_def pos_imp_zdiv_nonneg_iff)
  show "0 \<le> amt" "amt \<le> b"
    using w assms(7) rate_cap_nonneg[of "min w b" d] rate_cap_le[of d "min w b"] unfolding amt by linarith+
  have le: "amt \<le> w" using rate_cap_le[of d "min w b"] unfolding amt by linarith
  have rest: "0 \<le> tot * rest" using assms(1,5) by simp
  show keep: "tot * rest \<le> (rem - amt) * cap"
  proof (cases last_one)
    case True
    then have "amt \<le> rem" using le by (simp add: w_def)
    then show ?thesis using assms(2,9) True by simp
  next
    case False
    have "tot * c div cap * cap \<le> tot * c"
      using div_mult_mod_eq[of "tot * c" cap] pos_mod_sign[OF assms(2), of "tot * c"] by linarith
    then have "w * cap \<le> tot * c" using False by (simp add: w_def)
    moreover have "amt * cap \<le> w * cap" using le assms(2) by simp
    ultimately have "amt * cap \<le> tot * c" by linarith
    then show ?thesis using assms(3) by (simp add: algebra_simps)
  qed
  then have "0 \<le> (rem - amt) * cap" using rest by linarith
  then show "0 \<le> rem - amt" using assms(2) by (simp add: zero_le_mult_iff)
qed

lemma draw_sources_spec:
  assumes "draw_sources tot cap ids rem ns ds = (ns', ds')" "all_nodes energy_ok ns" "0 \<le> tot" "0 < cap"
    "tot * source_capacity ns ids \<le> rem * cap" "0 \<le> rem" "mirror energyBuffer ns0 ns ds"
  shows "all_nodes energy_ok ns' \<and> mirror energyBuffer ns0 ns' ds' \<and>
    node_sum energyBuffer ns' \<le> node_sum energyBuffer ns \<and>
    node_sum energyBuffer ns - node_sum energyBuffer ns' \<le> rem"
  using assms(1,2,5,6,7)
proof (induction ids arbitrary: rem ns ds)
  case (Cons sid ids)
  show ?case
  proof (cases "um_find ns sid")
    case None
    then have "draw_sources tot cap ids rem ns ds = (ns', ds')" using Cons.prems(1) by simp
    moreover have "source_capacity ns (sid # ids) = source_capacity ns ids"
      using None by (simp add: source_capacity_def sum_found_Cons)
    ultimately show ?thesis using Cons by simp
  next
    case (Some n)
    define c where "c = max 1 (energyCapacity n)"
    define rest where "rest = source_capacity ns ids"
    define amt where "amt = rate_cap (domains n EU) (min (if ids = [] then rem else cdiv (tot * c) cap) (energyBuffer n))"
    have caps: "source_capacity ns (sid # ids) = c + rest"
      using Some by (simp add: source_capacity_def sum_found_Cons c_def rest_def)
    have buf: "0 \<le> energyBuffer n" "energyBuffer n \<le> energyCapacity n"
      using all_nodesD[OF Cons.prems(2) Some] by (simp_all add: energy_ok_def)
    have rest0: "rest = 0" if "ids = []" using that by (simp add: rest_def source_capacity_def sum_found_def)
    have rest: "0 \<le> rest" unfolding rest_def by (rule source_capacity_nonneg)
    note step = draw_sources_step[OF assms(3,4) Cons.prems(3)[unfolded caps] _ rest Cons.prems(4) buf(1) amt_def rest0]
    have c: "0 < c" by (simp add: c_def)
    let ?ns = "um_modify sid (put_energy (- amt)) ns" and ?ds = "um_add sid (- amt) ds"
    have rec: "draw_sources tot cap ids (rem - amt) ?ns ?ds = (ns', ds')"
      using Cons.prems(1) Some by (cases "ids = []") (simp_all add: amt_def c_def Let_def)
    have ok: "all_nodes energy_ok ?ns"
      by (rule all_nodes_modify[OF Cons.prems(2)])
        (use Some step(1,2)[OF c] buf in \<open>auto simp: energy_ok_def put_energy_def\<close>)
    have mir: "mirror energyBuffer ns0 ?ns ?ds"
      using Cons.prems(5) Some by (rule mirror_step) (simp add: put_energy_def)
    have sum: "node_sum energyBuffer ?ns = node_sum energyBuffer ns - amt"
      using Some by (simp add: node_sum_modify put_energy_def)
    have room: "tot * source_capacity ?ns ids \<le> (rem - amt) * cap"
      unfolding source_capacity_put using step(4)[OF c] by (simp add: rest_def)
    from Cons.IH[OF rec ok room step(3)[OF c] mir] show ?thesis
      using sum step(1)[OF c] by linarith
  qed
qed simp

lemma energy_given:
  assumes "energy_ok n" "0 \<le> tot"
  shows "0 \<le> rate_cap (domains n EU) (min (share tot k j) (energy_room n))"
    and "rate_cap (domains n EU) (min (share tot k j) (energy_room n)) \<le> energy_room n"
  using assms(1) share_nonneg[OF assms(2), of k j] rate_cap_le[of "domains n EU" "min (share tot k j) (energy_room n)"]
    rate_cap_nonneg[of "min (share tot k j) (energy_room n)" "domains n EU"]
  by (auto simp: energy_ok_def energy_room_def)

lemma feed_energy_ok:
  assumes "feed put_energy energy_room EU (share tot n) i ids ns ds = (ns', ds')" "all_nodes energy_ok ns" "0 \<le> tot"
  shows "all_nodes energy_ok ns'"
proof (rule feed_all_nodes[OF assms(1,2)])
  fix nd j assume ok: "energy_ok nd"
  show "energy_ok (put_energy (rate_cap (domains nd EU) (min (share tot n j) (energy_room nd))) nd)"
    using ok energy_given[OF ok assms(3), of n j] by (auto simp: energy_ok_def energy_room_def put_energy_def)
qed

lemma feed_energy_grows:
  assumes "feed put_energy energy_room EU (share tot n) i ids ns ds = (ns', ds')" "all_nodes energy_ok ns" "0 \<le> tot"
  shows "node_sum energyBuffer ns \<le> node_sum energyBuffer ns'"
  using assms(1,2)
proof (induction ids arbitrary: i ns ds)
  case (Cons snid ids)
  show ?case
  proof (cases "um_find ns snid")
    case (Some nd)
    define g where "g = rate_cap (domains nd EU) (min (share tot n i) (energy_room nd))"
    have ok: "energy_ok nd" by (rule all_nodesD[OF Cons.prems(2) Some])
    have g: "0 \<le> g" "g \<le> energy_room nd"
      using energy_given[OF ok assms(3)] by (simp_all add: g_def)
    have rec: "feed put_energy energy_room EU (share tot n) (i + 1) ids (um_modify snid (put_energy g) ns) (um_add snid g ds) = (ns', ds')"
      using Cons.prems(1) Some by (simp add: g_def Let_def)
    have "all_nodes energy_ok (um_modify snid (put_energy g) ns)"
      by (rule all_nodes_modify[OF Cons.prems(2)])
        (use Some ok g in \<open>auto simp: energy_ok_def energy_room_def put_energy_def\<close>)
    from Cons.IH[OF rec this] show ?thesis using Some g(1) by (simp add: node_sum_modify put_energy_def)
  qed (use Cons in auto)
qed simp

lemma distributeFlow_spec:
  assumes "distributeFlow ids tot ns [] = (ns', ds')" "all_nodes energy_ok ns" "0 \<le> tot" "length ids \<le> 2 ^ 64"
  shows "all_nodes energy_ok ns' \<and> mirror energyBuffer ns ns' ds' \<and>
    node_sum energyBuffer ns - tot \<le> node_sum energyBuffer ns' \<and>
    node_sum energyBuffer ns' \<le> node_sum energyBuffer ns + tot"
proof (cases "ids = [] \<or> tot = 0")
  case True
  then show ?thesis using assms by (auto simp: distributeFlow_def mirror_refl)
next
  case False
  define sources where "sources = filter (has_role is_source EU ns) ids"
  define sinks where "sinks = filter (has_role is_sink EU ns) ids"
  define cap where "cap = source_capacity ns sources"
  obtain ns1 ds1 where d: "(if sources \<noteq> [] \<and> cap > 0 then draw_sources tot cap sources tot ns [] else (ns, [])) = (ns1, ds1)"
    by force
  have one: "all_nodes energy_ok ns1 \<and> mirror energyBuffer ns ns1 ds1 \<and>
      node_sum energyBuffer ns1 \<le> node_sum energyBuffer ns \<and> node_sum energyBuffer ns - node_sum energyBuffer ns1 \<le> tot"
  proof (cases "sources \<noteq> [] \<and> cap > 0")
    case True
    then have "draw_sources tot cap sources tot ns [] = (ns1, ds1)" using d by simp
    from draw_sources_spec[OF this assms(2,3) _ _ assms(3) mirror_refl] True show ?thesis by (simp add: cap_def)
  qed (use d assms in \<open>auto simp: mirror_refl\<close>)
  have flow: "distributeFlow ids tot ns [] =
      (if sinks \<noteq> [] then feed put_energy energy_room EU (share tot (length sinks)) 0 sinks ns1 ds1 else (ns1, ds1))"
    unfolding distributeFlow_def Let_def sources_def[symmetric] sinks_def[symmetric] cap_def[symmetric] d
    using False by simp
  show ?thesis
  proof (cases "sinks = []")
    case True
    then have "(ns', ds') = (ns1, ds1)" using assms(1) flow by simp
    then show ?thesis using one assms(3) by auto
  next
    case more: False
    have f: "feed put_energy energy_room EU (share tot (length sinks)) 0 sinks ns1 ds1 = (ns', ds')"
      using assms(1) flow more by simp
    have "all_nodes energy_ok ns'" using f one assms(3) by (blast intro: feed_energy_ok)
    moreover have "mirror energyBuffer ns ns' ds'"
      by (rule feed_mirror[OF f]) (use one in \<open>simp_all add: put_energy_def\<close>)
    moreover have "node_sum energyBuffer ns' \<le> node_sum energyBuffer ns1 + (\<Sum>j < length sinks. share tot (length sinks) (0 + j))"
      by (rule feed_total[OF f]) (simp_all add: share_nonneg assms(3) put_energy_def)
    moreover have "length sinks \<le> 2 ^ 64"
      using assms(4) length_filter_le[of "has_role is_sink EU ns" ids] unfolding sinks_def by linarith
    then have "(\<Sum>j < length sinks. share tot (length sinks) j) = tot"
      using assms(3) more by (intro sum_shares) auto
    moreover have "node_sum energyBuffer ns1 \<le> node_sum energyBuffer ns'"
      using f one assms(3) by (blast intro: feed_energy_grows)
    ultimately show ?thesis using one by auto
  qed
qed

section \<open>Properties of energy distribution\<close>

text \<open>C34: one tick of energy in a network leaves every buffer between zero and its capacity, the
  returned deltas are exactly the changes of the buffers, and neither more than the tick's amount
  is drawn nor more than that amount is added; the network's total is recomputed.\<close>

theorem distributeEnergy_bounded:
  assumes "all_nodes energy_ok (nodes m)" "0 \<le> tick" "getNetwork netId m = Some net" "length (nodeIds net) \<le> 2 ^ 64"
  shows "\<exists>m' ds. distributeEnergy netId tick m = (m', ds) \<and> all_nodes energy_ok (nodes m') \<and>
    mirror energyBuffer (nodes m) (nodes m') ds \<and>
    \<bar>node_sum energyBuffer (nodes m') - node_sum energyBuffer (nodes m)\<bar> \<le> tick \<and>
    (tick \<noteq> 0 \<longrightarrow> map_option totalEnergy (getNetwork netId m') = Some (sum_found energyBuffer (nodes m') (nodeIds net)))"
proof -
  have net: "um_find (networks m) netId = Some net" using assms(3) by (simp add: getNetwork_def)
  obtain ns ds where f: "distributeFlow (nodeIds net) tick (nodes m) [] = (ns, ds)" by force
  show ?thesis
    using distributeFlow_spec[OF f assms(1,2,4)] assms(1,2) net
    by (cases "tick = 0") (auto simp: distributeEnergy_def f put_net_def getNetwork_def um_simps mirror_refl)
qed

definition grid :: manager where
  "grid = apply_op (SetEnergy 2 0 500 False True) (apply_op (SetEnergy 1 10 500 True False) two_pipes)"

lemma grid_facts:
  "all_nodes energy_ok (nodes grid)" "map_option nodeIds (getNetwork 4 grid) = Some [1, 2]"
  by code_simp+

theorem distributeEnergy_bounded_witness:
  "\<exists>m' ds. distributeEnergy 4 100 grid = (m', ds) \<and> all_nodes energy_ok (nodes m') \<and>
    mirror energyBuffer (nodes grid) (nodes m') ds \<and>
    \<bar>node_sum energyBuffer (nodes m') - node_sum energyBuffer (nodes grid)\<bar> \<le> 100 \<and>
    map_option totalEnergy (getNetwork 4 m') = Some (sum_found energyBuffer (nodes m') [1, 2])"
proof -
  obtain net where net: "getNetwork 4 grid = Some net" "nodeIds net = [1, 2]" using grid_facts(2) by auto
  from distributeEnergy_bounded[OF grid_facts(1) _ net(1), of 100] net(2) show ?thesis by simp
qed

text \<open>The sinks are given the tick's amount whatever the sources could pay: a network whose only
  source holds 10 units fills a sink with 100.\<close>

theorem distributeEnergy_creates:
  "case distributeEnergy 4 100 grid of (m', ds) \<Rightarrow>
     (delta ds 1, delta ds 2) = (- 10, 100) \<and> node_sum energyBuffer (nodes m') = node_sum energyBuffer (nodes grid) + 90"
  by code_simp

section \<open>Filling pipes from sources\<close>

definition fluid_ok :: "pipe_node \<Rightarrow> bool" where
  "fluid_ok n \<longleftrightarrow> 0 \<le> fluidBuffer n \<and> fluidBuffer n \<le> fluidCapacity n"

lemma rate_cap_default: "rate_cap domain_default x = x"
  by (simp add: rate_cap_def domain_default_def)

lemma fill_pipes_away:
  assumes "fill_pipes fid F room ps rem ns ds = (ns', ds')" "i \<notin> set ps"
  shows "um_find ns' i = um_find ns i"
  using assms
  by (induction ps arbitrary: rem ns ds) (auto simp: Let_def um_simps split: option.splits if_splits)

lemma fill_pipes_spec:
  assumes "fill_pipes fid F room ps rem ns ds = (ns', ds')" "all_nodes fluid_ok ns" "0 \<le> F" "0 < room"
    "F * sum_found fluid_room ns ps \<le> rem * room" "0 \<le> rem" "mirror fluidBuffer ns0 ns ds" "distinct ps"
    "\<forall>p \<in> set ps. found (\<lambda>n. 0 < fluid_room n) ns p"
  shows "all_nodes fluid_ok ns' \<and> mirror fluidBuffer ns0 ns' ds' \<and>
    node_sum fluidBuffer ns \<le> node_sum fluidBuffer ns' \<and> node_sum fluidBuffer ns' \<le> node_sum fluidBuffer ns + rem"
  using assms(1,2,5,6,7,8,9)
proof (induction ps arbitrary: rem ns ds)
  case (Cons p ps)
  obtain n where n: "um_find ns p = Some n" "0 < fluid_room n"
    using Cons.prems(7) by (auto simp: found_def split: option.splits)
  define c where "c = fluid_room n"
  define rest where "rest = sum_found fluid_room ns ps"
  define give where "give = min (if ps = [] then rem else cdiv (F * c) room) c"
  have rooms: "sum_found fluid_room ns (p # ps) = c + rest"
    using n(1) by (simp add: sum_found_Cons c_def rest_def)
  have rest: "0 \<le> rest"
    unfolding rest_def sum_found_def using Cons.prems(7)
    by (intro sum_list_nonneg) (auto simp: found_def split: option.splits)
  have rest0: "rest = 0" if "ps = []" using that by (simp add: rest_def sum_found_def)
  have c: "0 < c" using n(2) by (simp add: c_def)
  have give: "give = rate_cap domain_default (min (if ps = [] then rem else cdiv (F * c) room) c)"
    by (simp add: give_def rate_cap_default)
  note step = draw_sources_step[OF assms(3,4) Cons.prems(3)[unfolded rooms] c rest Cons.prems(4) less_imp_le[OF c] give rest0]
  define f where "f = (\<lambda>n :: pipe_node. n\<lparr>fluidBuffer := fluidBuffer n + give, fluidId := (if fluidId n = 0 then fid else fluidId n)\<rparr>)"
  have ok: "fluid_ok n" by (rule all_nodesD[OF Cons.prems(2) n(1)])
  show ?case
  proof (cases "give \<le> 0")
    case True
    then have "give = 0" using step(1) by simp
    have rec: "fill_pipes fid F room ps rem ns ds = (ns', ds')"
      using Cons.prems(1) n(1) True by (cases "ps = []") (simp_all add: give_def c_def Let_def)
    have "F * sum_found fluid_room ns ps \<le> rem * room"
      using step(4) \<open>give = 0\<close> by (simp add: rest_def)
    from Cons.IH[OF rec Cons.prems(2) this Cons.prems(4,5)] Cons.prems(6,7) show ?thesis by simp
  next
    case False
    have rec: "fill_pipes fid F room ps (rem - give) (um_modify p f ns) (um_add p give ds) = (ns', ds')"
      using Cons.prems(1) n(1) False by (cases "ps = []") (simp_all add: give_def c_def Let_def f_def)
    have "all_nodes fluid_ok (um_modify p f ns)"
      by (rule all_nodes_modify[OF Cons.prems(2)])
        (use n(1) ok step(1,2) in \<open>auto simp: fluid_ok_def f_def c_def fluid_room_def\<close>)
    moreover have "F * sum_found fluid_room (um_modify p f ns) ps \<le> (rem - give) * room"
      using step(4) Cons.prems(6) by (simp add: sum_found_away rest_def)
    moreover have "mirror fluidBuffer ns0 (um_modify p f ns) (um_add p give ds)"
      using Cons.prems(5) n(1) by (rule mirror_step) (simp add: f_def)
    moreover have "\<forall>q \<in> set ps. found (\<lambda>n. 0 < fluid_room n) (um_modify p f ns) q"
      using Cons.prems(6,7) by (auto simp: found_def um_simps)
    ultimately have "all_nodes fluid_ok ns' \<and> mirror fluidBuffer ns0 ns' ds' \<and>
        node_sum fluidBuffer (um_modify p f ns) \<le> node_sum fluidBuffer ns' \<and>
        node_sum fluidBuffer ns' \<le> node_sum fluidBuffer (um_modify p f ns) + (rem - give)"
      using Cons.IH[OF rec] step(3) Cons.prems(6) by simp
    moreover have "node_sum fluidBuffer (um_modify p f ns) = node_sum fluidBuffer ns + give"
      using n(1) by (simp add: node_sum_modify f_def)
    ultimately show ?thesis using step(1) by linarith
  qed
qed simp

lemma debit_sources_spec:
  assumes "debit_sources F ss rem avail ns ds = (ns', ds')" "all_nodes fluid_ok ns" "mirror fluidBuffer ns0 ns ds"
  shows "all_nodes fluid_ok ns' \<and> mirror fluidBuffer ns0 ns' ds' \<and> node_sum fluidBuffer ns' \<le> node_sum fluidBuffer ns"
  using assms
proof (induction ss arbitrary: rem avail ns ds)
  case (Cons s ss)
  show ?case
  proof (cases "rem \<le> 0 \<or> um_find ns s = None")
    case True
    then show ?thesis using Cons by (auto split: if_splits)
  next
    case False
    then obtain n where n: "um_find ns s = Some n" "\<not> rem \<le> 0" by auto
    define amt where "amt = min (if ss = [] then rem else cdiv (F * fluidBuffer n) avail) (fluidBuffer n)"
    have le: "amt \<le> fluidBuffer n" by (simp add: amt_def)
    have ok: "fluid_ok n" by (rule all_nodesD[OF Cons.prems(2) n(1)])
    define f where "f = (\<lambda>n :: pipe_node. n\<lparr>fluidBuffer := fluidBuffer n - amt\<rparr>)"
    show ?thesis
    proof (cases "amt \<le> 0")
      case True
      then have "debit_sources F ss rem avail ns ds = (ns', ds')"
        using Cons.prems(1) n by (cases "ss = []") (auto simp: amt_def Let_def split: if_splits)
      then show ?thesis using Cons by simp
    next
      case pos: False
      have rec: "debit_sources F ss (rem - amt) (avail - fluidBuffer n) (um_modify s f ns) (um_add s (- amt) ds) = (ns', ds')"
        using Cons.prems(1) n pos by (cases "ss = []") (simp_all add: amt_def Let_def f_def)
      have "all_nodes fluid_ok (um_modify s f ns)"
        by (rule all_nodes_modify[OF Cons.prems(2)]) (use n(1) ok le pos in \<open>auto simp: fluid_ok_def f_def\<close>)
      moreover have "mirror fluidBuffer ns0 (um_modify s f ns) (um_add s (- amt) ds)"
        using Cons.prems(3) n(1) by (rule mirror_step) (simp add: f_def)
      moreover have "node_sum fluidBuffer (um_modify s f ns) = node_sum fluidBuffer ns - amt"
        using n(1) by (simp add: node_sum_modify f_def)
      ultimately show ?thesis using Cons.IH[OF rec] pos by auto
    qed
  qed
qed simp

lemma debit_one_source:
  assumes "debit_sources F [s] rem avail ns ds = (ns', ds')" "um_find ns s = Some n" "0 < rem" "rem \<le> fluidBuffer n"
  shows "node_sum fluidBuffer ns' = node_sum fluidBuffer ns - rem"
  using assms by (auto simp: Let_def node_sum_modify)

section \<open>Properties of filling\<close>

definition fill_sources :: "pipe_net \<Rightarrow> manager \<Rightarrow> u64 list" where
  "fill_sources net m = filter (found fill_source (nodes m)) (nodeIds net)"

text \<open>Filling the pipes of a network from its sources leaves every buffer between zero and its
  capacity and the returned deltas are exactly the changes of the buffers; with one source no fluid
  is created.\<close>

theorem fill_bounded:
  assumes "all_nodes fluid_ok (nodes m)" "getNetwork netId m = Some net" "distinct (nodeIds net)"
  shows "\<exists>m' ds. fillFluidPipesFromSources netId m = (m', ds) \<and> all_nodes fluid_ok (nodes m') \<and>
    mirror fluidBuffer (nodes m) (nodes m') ds \<and>
    (length (fill_sources net m) = 1 \<longrightarrow> node_sum fluidBuffer (nodes m') \<le> node_sum fluidBuffer (nodes m))"
proof -
  define ns where "ns = nodes m"
  define sources where "sources = filter (found fill_source ns) (nodeIds net)"
  define pipes where "pipes = filter (found fill_pipe ns) (nodeIds net)"
  define available where "available = sum_found fluidBuffer ns sources"
  define room where "room = sum_found fluid_room ns pipes"
  define fid where "fid = fold (source_fluid ns) sources 0"
  define F where "F = min available room"
  have net: "um_find (networks m) netId = Some net" using assms(2) by (simp add: getNetwork_def)
  obtain ns1 ds1 where f: "fill_pipes fid F room pipes F ns [] = (ns1, ds1)" by force
  obtain ns2 ds2 where d: "debit_sources F sources F available ns1 ds1 = (ns2, ds2)" by force
  have run: "fillFluidPipesFromSources netId m =
      (if sources = [] \<or> pipes = [] \<or> available \<le> 0 \<or> room \<le> 0 \<or> fid = 0 then (m, [])
       else (put_net netId (\<lambda>net. net\<lparr>totalFluid := sum_found fluidBuffer ns2 (nodeIds net),
               netFluidId := fid, isActive := ds2 \<noteq> []\<rparr>) (m\<lparr>nodes := ns2\<rparr>), ds2))"
    unfolding fillFluidPipesFromSources_def Let_def net option.case ns_def[symmetric] sources_def[symmetric]
      pipes_def[symmetric] available_def[symmetric] room_def[symmetric] fid_def[symmetric] F_def[symmetric] f
    by (simp add: d)
  show ?thesis
  proof (cases "sources = [] \<or> pipes = [] \<or> available \<le> 0 \<or> room \<le> 0 \<or> fid = 0")
    case True
    then have "fillFluidPipesFromSources netId m = (m, [])" unfolding run by (rule if_P)
    then show ?thesis using assms(1) by (simp add: mirror_refl)
  next
    case go: False
    then have res: "fillFluidPipesFromSources netId m = (put_net netId (\<lambda>net. net\<lparr>totalFluid :=
        sum_found fluidBuffer ns2 (nodeIds net), netFluidId := fid, isActive := ds2 \<noteq> []\<rparr>) (m\<lparr>nodes := ns2\<rparr>), ds2)"
      unfolding run by (rule if_not_P)
    have F: "0 < F" "F \<le> available" using go by (auto simp: F_def)
    have dis: "distinct pipes" using assms(3) by (simp add: pipes_def)
    have rooms: "\<forall>p \<in> set pipes. found (\<lambda>n. 0 < fluid_room n) ns p"
      by (auto simp: pipes_def found_def fill_pipe_def split: option.splits)
    have filled: "all_nodes fluid_ok ns1 \<and> mirror fluidBuffer ns ns1 ds1 \<and>
        node_sum fluidBuffer ns \<le> node_sum fluidBuffer ns1 \<and> node_sum fluidBuffer ns1 \<le> node_sum fluidBuffer ns + F"
      by (rule fill_pipes_spec[OF f _ _ _ _ _ mirror_refl dis rooms])
        (use assms(1) F go in \<open>auto simp: ns_def room_def\<close>)
    have debited: "all_nodes fluid_ok ns2 \<and> mirror fluidBuffer ns ns2 ds2 \<and> node_sum fluidBuffer ns2 \<le> node_sum fluidBuffer ns1"
      by (rule debit_sources_spec[OF d]) (use filled in auto)
    have "node_sum fluidBuffer ns2 \<le> node_sum fluidBuffer ns" if one: "length (fill_sources net m) = 1"
    proof -
      obtain s where s: "sources = [s]"
        using one unfolding fill_sources_def sources_def ns_def by (cases "filter (found fill_source (nodes m)) (nodeIds net)") auto
      then have "s \<in> set sources" by simp
      then have "found fill_source ns s" by (simp add: sources_def)
      then obtain n where n: "um_find ns s = Some n" "fill_source n" by (auto simp: found_def split: option.splits)
      have "s \<notin> set pipes" using n by (auto simp: pipes_def found_def fill_pipe_def fill_source_def)
      then have "um_find ns1 s = Some n" using fill_pipes_away[OF f] n(1) by simp
      moreover have "available = fluidBuffer n" using n(1) by (simp add: available_def s sum_found_def)
      ultimately show ?thesis
        using debit_one_source[OF d[unfolded s]] F filled by simp
    qed
    then show ?thesis using debited res by (simp add: put_net_def ns_def)
  qed
qed

definition boiler :: manager where
  "boiler = apply_op (SetFluid 1 60 100 7 True False) two_pipes"

lemma boiler_facts:
  "all_nodes fluid_ok (nodes boiler)" "map_option nodeIds (getNetwork 4 boiler) = Some [1, 2]"
  "length (filter (found fill_source (nodes boiler)) [1, 2]) = 1"
  by code_simp+

theorem fill_bounded_witness:
  "\<exists>m' ds. fillFluidPipesFromSources 4 boiler = (m', ds) \<and> all_nodes fluid_ok (nodes m') \<and>
    mirror fluidBuffer (nodes boiler) (nodes m') ds \<and> node_sum fluidBuffer (nodes m') \<le> node_sum fluidBuffer (nodes boiler)"
proof -
  obtain net where net: "getNetwork 4 boiler = Some net" "nodeIds net = [1, 2]" using boiler_facts(2) by auto
  then have "length (fill_sources net boiler) = 1" "distinct (nodeIds net)"
    using boiler_facts(3) by (simp_all add: fill_sources_def del: filter.simps)
  then show ?thesis using fill_bounded[OF boiler_facts(1) net(1)] by simp
qed

text \<open>A star of pipes around node 1, for the examples below.\<close>

definition star :: "(i32 \<times> int \<times> int \<times> u32 \<times> bool) list \<Rightarrow> manager" where
  "star spokes = fold (\<lambda>(i, buf, cap, fid, src) m.
       apply_op (SetFluid (ucast i) buf cap fid src False) m) spokes
     (apply_op (AddEdges (map (\<lambda>(i, _). (1, ucast i)) spokes) 0)
       (fold (\<lambda>(i, _) m. apply_op (AddNodeWithId (ucast i) i 64 0 BLOCK_ID_FLUID_PIPE) m) spokes manager_new))"

definition fill_change :: "(i32 \<times> int \<times> int \<times> u32 \<times> bool) list \<Rightarrow> int list" where
  "fill_change spokes =
     (let m = star spokes
      in case map_option snd (find (\<lambda>_. True) (networks m)) of
           None \<Rightarrow> []
         | Some net \<Rightarrow>
             (case fillFluidPipesFromSources (net_id net) m of
                (m', ds) \<Rightarrow>
                  (node_sum fluidBuffer (nodes m') - node_sum fluidBuffer (nodes m)) # map (\<lambda>(i, _). delta ds (ucast i)) spokes))"

text \<open>With several pipes or sources filling does not conserve fluid, although the code's comment says
  that exactly the accepted amount is debited. Three pipes with one unit of room each take one
  unit while the source pays two; four sources of 30 pay 65 for 60; sources of 1, 5 and 5
  pay 9 for 10; and of sources that hold water, lava and water the lava is turned into water.\<close>

theorem fill_not_conserving:
  "fill_change [(1, 2, 10, 7, True), (2, 9, 10, 0, False), (3, 9, 10, 0, False), (4, 9, 10, 0, False)] =
     [- 1, - 2, 0, 0, 1] \<and>
   fill_change [(1, 0, 60, 0, False), (2, 30, 60, 7, True), (3, 30, 60, 7, True), (4, 30, 60, 7, True),
     (5, 30, 60, 7, True)] = [- 5, 60, - 15, - 20, - 30, 0] \<and>
   fill_change [(1, 0, 10, 0, False), (2, 1, 60, 7, True), (3, 5, 60, 7, True), (4, 5, 60, 7, True)] =
     [1, 10, 0, - 4, - 5] \<and>
   fill_change [(1, 0, 90, 0, False), (2, 30, 60, 7, True), (3, 30, 60, 8, True), (4, 30, 60, 7, True)] =
     [0, 90, - 30, - 30, - 30]"
  by code_simp

end
