(* ===== verification/PipeItems.thy ===== *)
theory PipeItems
  imports PipeFlow "HOL-Library.Multiset"
begin

text \<open>
  Item transport in \<open>PipeNetworkManager\<close>: \<open>findNextItemHop\<close>, \<open>moveItemsInNetwork\<close> and
  \<open>tickItemNetworks\<close> of \<open>src/apps/pipe_network/PipeNetwork.cpp\<close>. Both searches are the same
  breadth-first walk with a different stopping test. The items of a manager are the multiset of the
  slots in all buffers; the theorems say where they go.
\<close>

section \<open>The search\<close>

text \<open>The inner loop over the neighbours: \<open>stop\<close> ends the walk at a node, \<open>through\<close> lets it pass.\<close>

fun seek_visit ::
  "(u64, pipe_node) umap \<Rightarrow> (pipe_node \<Rightarrow> bool) \<Rightarrow> (pipe_node \<Rightarrow> bool) \<Rightarrow> u64 list \<Rightarrow> u64 list \<Rightarrow> u64 list \<Rightarrow>
   u64 option \<times> u64 list \<times> u64 list"
where
  "seek_visit ns stop through [] vis q = (None, vis, q)"
| "seek_visit ns stop through (n # nbs) vis q =
     (if n \<in> set vis then seek_visit ns stop through nbs vis q
      else (case um_find ns n of
              None \<Rightarrow> seek_visit ns stop through nbs (n # vis) q
            | Some nd \<Rightarrow>
                if stop nd then (Some n, n # vis, q)
                else if through nd then seek_visit ns stop through nbs (n # vis) (q @ [n])
                else seek_visit ns stop through nbs (n # vis) q))"

lemma seek_visit_props:
  assumes "seek_visit ns stop through nbs vis q = (res, vis', q')"
  shows "\<exists>new. q' = q @ new \<and> distinct new \<and> set new \<inter> set vis = {} \<and> set new \<subseteq> set nbs \<and>
    set vis \<union> set new \<subseteq> set vis' \<and> set vis' \<subseteq> set vis \<union> set nbs \<and>
    (\<forall>r. res = Some r \<longrightarrow> r \<in> set nbs \<and> r \<notin> set vis \<and> (\<exists>nd. um_find ns r = Some nd \<and> stop nd))"
  using assms
proof (induction nbs arbitrary: vis q)
  case (Cons n nbs)
  show ?case
  proof (cases "n \<in> set vis")
    case True
    then have "seek_visit ns stop through nbs vis q = (res, vis', q')" using Cons.prems by simp
    from Cons.IH[OF this] show ?thesis by fastforce
  next
    case out: False
    show ?thesis
    proof (cases "um_find ns n")
      case None
      then have "seek_visit ns stop through nbs (n # vis) q = (res, vis', q')" using Cons.prems out by simp
      from Cons.IH[OF this] obtain new where "q' = q @ new" "distinct new" "set new \<inter> set (n # vis) = {}"
        "set new \<subseteq> set nbs" "set (n # vis) \<union> set new \<subseteq> set vis'" "set vis' \<subseteq> set (n # vis) \<union> set nbs"
        "\<forall>r. res = Some r \<longrightarrow> r \<in> set nbs \<and> r \<notin> set (n # vis) \<and> (\<exists>nd. um_find ns r = Some nd \<and> stop nd)" by blast
      then show ?thesis by (intro exI[of _ new]) auto
    next
      case (Some nd)
      consider "stop nd" | "\<not> stop nd" "through nd" | "\<not> stop nd" "\<not> through nd" by blast
      then show ?thesis
      proof cases
        case 1
        then show ?thesis using Cons.prems out Some by (intro exI[of _ "[]"]) auto
      next
        case 2
        then have "seek_visit ns stop through nbs (n # vis) (q @ [n]) = (res, vis', q')"
          using Cons.prems out Some by simp
        from Cons.IH[OF this] obtain new where "q' = (q @ [n]) @ new" "distinct new" "set new \<inter> set (n # vis) = {}"
          "set new \<subseteq> set nbs" "set (n # vis) \<union> set new \<subseteq> set vis'" "set vis' \<subseteq> set (n # vis) \<union> set nbs"
          "\<forall>r. res = Some r \<longrightarrow> r \<in> set nbs \<and> r \<notin> set (n # vis) \<and> (\<exists>nd. um_find ns r = Some nd \<and> stop nd)" by blast
        then show ?thesis using out by (intro exI[of _ "n # new"]) auto
      next
        case 3
        then have "seek_visit ns stop through nbs (n # vis) q = (res, vis', q')" using Cons.prems out Some by simp
        from Cons.IH[OF this] obtain new where "q' = q @ new" "distinct new" "set new \<inter> set (n # vis) = {}"
          "set new \<subseteq> set nbs" "set (n # vis) \<union> set new \<subseteq> set vis'" "set vis' \<subseteq> set (n # vis) \<union> set nbs"
          "\<forall>r. res = Some r \<longrightarrow> r \<in> set nbs \<and> r \<notin> set (n # vis) \<and> (\<exists>nd. um_find ns r = Some nd \<and> stop nd)" by blast
        then show ?thesis by (intro exI[of _ new]) auto
      qed
    qed
  qed
qed auto

lemma seek_measure:
  assumes "seek_visit ns stop through (adj es c) vis q = (res, vis', q')"
  shows "card (ends es - set vis') + length q' < card (ends es - set vis) + length (c # q)"
proof -
  obtain new where new: "q' = q @ new" "distinct new" "set new \<inter> set vis = {}" "set new \<subseteq> set (adj es c)"
    "set vis \<union> set new \<subseteq> set vis'"
    using seek_visit_props[OF assms] by blast
  have fin: "finite (ends es)" by (simp add: ends_def)
  have sub: "set new \<subseteq> ends es - set vis" using new(3,4) adj_ends[of es c] by auto
  have "ends es - set vis' \<subseteq> (ends es - set vis) - set new" using new(5) by auto
  then have "card (ends es - set vis') \<le> card ((ends es - set vis) - set new)" using fin by (intro card_mono) auto
  moreover have "card ((ends es - set vis) - set new) = card (ends es - set vis) - card (set new)"
    using sub by (simp add: card_Diff_subset)
  moreover have "card (set new) \<le> card (ends es - set vis)" using sub fin by (intro card_mono) auto
  moreover have "card (set new) = length new" using new(2) by (rule distinct_card)
  ultimately show ?thesis using new(1) by simp
qed

text \<open>The queue loop. \<open>accept\<close> is \<open>bestSink != 0\<close> in \<open>moveItemsInNetwork\<close>, where a hit on node 0 does
  not end the walk.\<close>

function seek ::
  "(u64 \<times> u64) list \<Rightarrow> (u64, pipe_node) umap \<Rightarrow> (pipe_node \<Rightarrow> bool) \<Rightarrow> (pipe_node \<Rightarrow> bool) \<Rightarrow> (u64 \<Rightarrow> bool) \<Rightarrow>
   u64 list \<Rightarrow> u64 list \<Rightarrow> u64"
where
  "seek es ns stop through accept [] vis = 0"
| "seek es ns stop through accept (current # q) vis =
     (case seek_visit ns stop through (adj es current) vis q of
        (Some n, vis', q') \<Rightarrow> if accept n then n else seek es ns stop through accept q' vis'
      | (None, vis', q') \<Rightarrow> seek es ns stop through accept q' vis')"
  by pat_completeness auto

termination
  by (relation "measure (\<lambda>(es, ns, stop, through, accept, q, vis). card (ends es - set vis) + length q)")
    (auto dest!: sym[of "(_, _, _)"] seek_measure)

lemma seek_sound:
  assumes "seek es ns stop through accept q vis = r" "r \<noteq> 0" "set q \<subseteq> set vis" "\<forall>c \<in> set q. connected es start c"
  shows "r \<notin> set vis \<and> connected es start r \<and> (\<exists>nd. um_find ns r = Some nd \<and> stop nd)"
  using assms
proof (induction es ns stop through accept q vis rule: seek.induct)
  case (2 es ns stop through accept c q vis)
  obtain res vis' q' where v: "seek_visit ns stop through (adj es c) vis q = (res, vis', q')" by (metis prod_cases3)
  obtain new where new: "q' = q @ new" "set new \<inter> set vis = {}" "set new \<subseteq> set (adj es c)"
    "set vis \<union> set new \<subseteq> set vis'"
    "\<forall>r. res = Some r \<longrightarrow> r \<in> set (adj es c) \<and> r \<notin> set vis \<and> (\<exists>nd. um_find ns r = Some nd \<and> stop nd)"
    using seek_visit_props[OF v] by blast
  have nb: "connected es start n" if "n \<in> set (adj es c)" for n
  proof -
    have "linked es c n" using that set_adj by fastforce
    moreover have "connected es start c" using "2.prems"(4) by simp
    ultimately show ?thesis unfolding connected_def by (rule rtranclp.rtrancl_into_rtrancl[rotated])
  qed
  have q': "set q' \<subseteq> set vis'" "\<forall>c \<in> set q'. connected es start c"
    using new(1,3,4) nb "2.prems"(3,4) by auto
  have rest: "r \<notin> set vis \<and> connected es start r \<and> (\<exists>nd. um_find ns r = Some nd \<and> stop nd)"
    if "seek es ns stop through accept q' vis' = r" "res = None \<or> (\<exists>n. res = Some n \<and> \<not> accept n)"
  proof -
    have "r \<notin> set vis' \<and> connected es start r \<and> (\<exists>nd. um_find ns r = Some nd \<and> stop nd)"
      using "2.IH" v that "2.prems"(2) q' by (cases res) auto
    then show ?thesis using new(4) by auto
  qed
  show ?case
  proof (cases res)
    case (Some n)
    then show ?thesis using rest "2.prems"(1) v new(5) nb by (cases "accept n") auto
  qed (use rest "2.prems"(1) v in auto)
qed auto

section \<open>Moving items\<close>

definition item_room :: "pipe_node \<Rightarrow> bool" where
  "item_room n \<longleftrightarrow> length (itemBuffer n) < unat (itemCapacity n) \<or> itemCapacity n = 0"

definition item_sink :: "pipe_node \<Rightarrow> bool" where
  "item_sink n \<longleftrightarrow> is_sink (domains n ITEM) \<and> item_room n"

definition item_source :: "pipe_node \<Rightarrow> bool" where
  "item_source n \<longleftrightarrow> is_source (domains n ITEM) \<and> itemBuffer n \<noteq> []"

definition findNextItemHop :: "u64 \<Rightarrow> u64 \<Rightarrow> manager \<Rightarrow> u64" where
  "findNextItemHop currentNodeId netId m =
     (if um_find (networks m) netId = None then 0
      else seek (edge_pairs m) (nodes m) (\<lambda>n. itemCapacity n > 0 \<or> is_sink (domains n ITEM)) (\<lambda>_. True) (\<lambda>_. True)
             [currentNodeId] [currentNodeId])"

definition move_one ::
  "(u64 \<times> u64) list \<Rightarrow> u64 \<Rightarrow> (u64, pipe_node) umap \<times> consumed_event list \<Rightarrow> (u64, pipe_node) umap \<times> consumed_event list"
where
  "move_one es srcId st =
     (case st of (ns, consumed) \<Rightarrow>
        (case um_find ns srcId of
           None \<Rightarrow> st
         | Some src \<Rightarrow>
             if itemBuffer src = [] then st
             else
               let best = seek es ns item_sink (\<lambda>n. itemCapacity n > 0) (\<lambda>n. n \<noteq> 0) [srcId] [srcId]
               in if best = 0 then st
                  else
                    let moving = last (itemBuffer src);
                        ns1 = um_modify srcId (\<lambda>n. n\<lparr>itemBuffer := butlast (itemBuffer n)\<rparr>) ns
                    in (case um_find ns1 best of
                          None \<Rightarrow> (ns1, consumed)
                        | Some snk \<Rightarrow>
                            if itemCapacity snk > 0 \<and> length (itemBuffer snk) < unat (itemCapacity snk)
                            then (um_modify best (\<lambda>n. n\<lparr>itemBuffer := itemBuffer n @ [moving]\<rparr>) ns1, consumed)
                            else (ns1, consumed @ [\<lparr>sinkNodeId = best, sourceNodeId = srcId, ev_item = moving,
                                                    ex = nx snk, ey = ny snk, ez = nz snk\<rparr>]))))"

definition moveItemsInNetwork :: "u64 \<Rightarrow> manager \<Rightarrow> manager \<times> consumed_event list" where
  "moveItemsInNetwork netId m =
     (case um_find (networks m) netId of
        None \<Rightarrow> (m, [])
      | Some net \<Rightarrow>
          if itemNodes net = [] then (m, [])
          else
            let sources = filter (found item_source (nodes m)) (itemNodes net);
                sinks = filter (found item_sink (nodes m)) (itemNodes net)
            in if sources = [] \<or> sinks = [] then (m, [])
               else (case fold (move_one (edge_pairs m)) sources (nodes m, []) of
                       (ns, consumed) \<Rightarrow> (m\<lparr>nodes := ns\<rparr>, consumed)))"

definition tick_net :: "u64 \<times> pipe_net \<Rightarrow> manager \<Rightarrow> manager" where
  "tick_net e m =
     (if itemNodes (snd e) = [] then m
      else (case moveItemsInNetwork (fst e) m of
              (m', evs) \<Rightarrow> m'\<lparr>consumedItemEvents := consumedItemEvents m' @ evs\<rparr>))"

definition tickItemNetworks :: "manager \<Rightarrow> manager" where
  "tickItemNetworks m0 =
     (let m = rebuildItemNetworks (m0\<lparr>consumedItemEvents := []\<rparr>)
      in fold tick_net (networks m) m)"

section \<open>Items are conserved\<close>

definition items_in :: "(u64, pipe_node) umap \<Rightarrow> item_slot multiset" where
  "items_in ns = (\<Sum>(_, n) \<in># mset ns. mset (itemBuffer n))"

definition items_out :: "consumed_event list \<Rightarrow> item_slot multiset" where
  "items_out evs = mset (map ev_item evs)"

lemma items_in_modify:
  assumes "um_find ns i = Some n"
  shows "items_in (um_modify i f ns) + mset (itemBuffer n) = items_in ns + mset (itemBuffer (f n))"
proof -
  have "items_in (um_put i (f n) ns) + mset (itemBuffer n) = items_in ns + mset (itemBuffer (f n))"
    using assms by (induction ns) (auto simp: items_in_def ac_simps split: if_splits)
  then show ?thesis using assms by (simp add: um_modify_def)
qed

lemma mset_butlast_last: "xs \<noteq> [] \<Longrightarrow> mset (butlast xs) + {#last xs#} = mset xs"
  by (metis append_butlast_last_id mset.simps mset_append add_mset_add_single)

definition items_fit :: "pipe_node \<Rightarrow> bool" where
  "items_fit n \<longleftrightarrow> length (itemBuffer n) \<le> unat (itemCapacity n)"

lemma move_one_conserves:
  assumes "move_one es s (ns, evs) = (ns', evs')"
  shows "items_in ns' + items_out evs' = items_in ns + items_out evs \<and>
    (all_nodes items_fit ns \<longrightarrow> all_nodes items_fit ns')"
proof (cases "um_find ns s")
  case (Some src)
  define best where "best = seek es ns item_sink (\<lambda>n. itemCapacity n > 0) (\<lambda>n. n \<noteq> 0) [s] [s]"
  show ?thesis
  proof (cases "itemBuffer src = [] \<or> best = 0")
    case True
    then have "move_one es s (ns, evs) = (ns, evs)"
      unfolding move_one_def prod.case Some option.case best_def[symmetric] Let_def by auto
    then show ?thesis using assms by simp
  next
    case go: False
    define moving where "moving = last (itemBuffer src)"
    define ns1 where "ns1 = um_modify s (\<lambda>n. n\<lparr>itemBuffer := butlast (itemBuffer n)\<rparr>) ns"
    have "best \<notin> set [s] \<and> connected es s best \<and> (\<exists>nd. um_find ns best = Some nd \<and> item_sink nd)"
      by (rule seek_sound[OF best_def[symmetric]]) (use go in auto)
    then obtain snk where snk: "best \<noteq> s" "um_find ns1 best = Some snk"
      by (auto simp: ns1_def um_simps)
    have slot: "mset (itemBuffer src) = {#moving#} + mset (butlast (itemBuffer src))"
      using mset_butlast_last[of "itemBuffer src"] go by (simp add: moving_def)
    have "items_in ns1 + mset (itemBuffer src) = items_in ns + mset (butlast (itemBuffer src))"
      using items_in_modify[OF Some, of "\<lambda>n. n\<lparr>itemBuffer := butlast (itemBuffer n)\<rparr>"] by (simp add: ns1_def)
    then have "(items_in ns1 + {#moving#}) + mset (butlast (itemBuffer src)) = items_in ns + mset (butlast (itemBuffer src))"
      unfolding slot add.assoc .
    then have out: "items_in ns1 + {#moving#} = items_in ns" by simp
    have fit1: "all_nodes items_fit ns \<Longrightarrow> all_nodes items_fit ns1"
      unfolding ns1_def by (rule all_nodes_modify) (auto simp: items_fit_def dest: all_nodesD)
    let ?push = "\<lambda>n :: pipe_node. n\<lparr>itemBuffer := itemBuffer n @ [moving]\<rparr>"
    have run: "move_one es s (ns, evs) =
        (if itemCapacity snk > 0 \<and> length (itemBuffer snk) < unat (itemCapacity snk)
         then (um_modify best ?push ns1, evs)
         else (ns1, evs @ [\<lparr>sinkNodeId = best, sourceNodeId = s, ev_item = moving, ex = nx snk, ey = ny snk, ez = nz snk\<rparr>]))"
      unfolding move_one_def prod.case Some option.case best_def[symmetric] Let_def moving_def[symmetric]
        ns1_def[symmetric] snk(2) using go by simp
    show ?thesis
    proof (cases "itemCapacity snk > 0 \<and> length (itemBuffer snk) < unat (itemCapacity snk)")
      case True
      then have eq: "ns' = um_modify best ?push ns1" "evs' = evs" using assms run by auto
      have "items_in ns' + mset (itemBuffer snk) = (items_in ns1 + {#moving#}) + mset (itemBuffer snk)"
        unfolding eq items_in_modify[OF snk(2)] by simp
      then have "items_in ns' = items_in ns" using out by simp
      moreover have "all_nodes items_fit ns'" if "all_nodes items_fit ns"
        unfolding eq by (rule all_nodes_modify[OF fit1[OF that]]) (use True snk in \<open>auto simp: items_fit_def\<close>)
      ultimately show ?thesis using eq(2) by simp
    next
      case False
      then have eq: "ns' = ns1"
        "evs' = evs @ [\<lparr>sinkNodeId = best, sourceNodeId = s, ev_item = moving, ex = nx snk, ey = ny snk, ez = nz snk\<rparr>]"
        using assms run by auto
      have "items_in ns1 + items_out evs' = (items_in ns1 + {#moving#}) + items_out evs"
        unfolding eq(2) by (simp add: items_out_def)
      then show ?thesis using eq(1) fit1 out by simp
    qed
  qed
qed (use assms in \<open>auto simp: move_one_def\<close>)

lemma move_fold_conserves:
  assumes "fold (move_one es) srcs (ns, evs) = (ns', evs')"
  shows "items_in ns' + items_out evs' = items_in ns + items_out evs \<and>
    (all_nodes items_fit ns \<longrightarrow> all_nodes items_fit ns')"
  using assms
proof (induction srcs arbitrary: ns evs)
  case (Cons s srcs)
  obtain ns1 evs1 where one: "move_one es s (ns, evs) = (ns1, evs1)" by force
  with Cons.prems have "fold (move_one es) srcs (ns1, evs1) = (ns', evs')" by simp
  from Cons.IH[OF this] move_one_conserves[OF one] show ?case by auto
qed simp

lemma moveItems_conserves:
  assumes "moveItemsInNetwork netId m = (m', evs)"
  shows "items_in (nodes m') + items_out evs = items_in (nodes m) \<and>
    (all_nodes items_fit (nodes m) \<longrightarrow> all_nodes items_fit (nodes m')) \<and>
    consumedItemEvents m' = consumedItemEvents m"
  using assms move_fold_conserves
  by (fastforce simp: moveItemsInNetwork_def items_out_def Let_def split: option.splits if_splits prod.splits)

lemma tick_net_conserves:
  "items_in (nodes (tick_net e m)) + items_out (consumedItemEvents (tick_net e m)) =
     items_in (nodes m) + items_out (consumedItemEvents m) \<and>
   (all_nodes items_fit (nodes m) \<longrightarrow> all_nodes items_fit (nodes (tick_net e m)))"
proof -
  obtain m' evs where mv: "moveItemsInNetwork (fst e) m = (m', evs)" by force
  note c = moveItems_conserves[OF mv]
  show ?thesis
  proof (cases "itemNodes (snd e) = []")
    case False
    have "items_in (nodes m') + items_out (consumedItemEvents m @ evs) =
        (items_in (nodes m') + items_out evs) + items_out (consumedItemEvents m)"
      by (simp add: items_out_def)
    then show ?thesis using False c by (simp add: tick_net_def mv)
  qed (simp add: tick_net_def)
qed

lemma tick_nets_conserve:
  "items_in (nodes (fold tick_net nets m)) + items_out (consumedItemEvents (fold tick_net nets m)) =
     items_in (nodes m) + items_out (consumedItemEvents m) \<and>
   (all_nodes items_fit (nodes m) \<longrightarrow> all_nodes items_fit (nodes (fold tick_net nets m)))"
  using tick_net_conserves by (induction nets arbitrary: m) (simp, fastforce)

text \<open>C10: an item tick neither creates nor loses an item: the slots in all buffers before the tick are
  those in the buffers after it together with the consumption events it reports; and no buffer
  grows past its capacity.\<close>

theorem tickItemNetworks_conserves:
  "items_in (nodes (tickItemNetworks m)) + items_out (consumedItemEvents (tickItemNetworks m)) = items_in (nodes m) \<and>
   (all_nodes items_fit (nodes m) \<longrightarrow> all_nodes items_fit (nodes (tickItemNetworks m)))"
proof -
  define m1 where "m1 = rebuildItemNetworks (m\<lparr>consumedItemEvents := []\<rparr>)"
  have "nodes m1 = nodes m" "consumedItemEvents m1 = []"
    by (simp_all add: m1_def rebuildItemNetworks_def install_def)
  then show ?thesis
    using tick_nets_conserve[of "networks m1" m1]
    by (simp add: tickItemNetworks_def m1_def[symmetric] items_out_def Let_def)
qed

definition conveyor :: manager where
  "conveyor = fold apply_op [SetItemProps 1 4 True False, SetItemProps 2 4 False True, AddItem 1 77 5, AddItem 1 78 1] two_pipes"

lemma conveyor_facts: "all_nodes items_fit (nodes conveyor)"
  by code_simp

theorem tickItemNetworks_conserves_witness:
  "all_nodes items_fit (nodes (tickItemNetworks conveyor)) \<and>
   items_in (nodes (tickItemNetworks conveyor)) + items_out (consumedItemEvents (tickItemNetworks conveyor)) =
     items_in (nodes conveyor)"
  using tickItemNetworks_conserves[of conveyor] conveyor_facts by blast

text \<open>\<open>findNextItemHop\<close> ends, and a hop it returns is a node other than the current one, connected to
  it, that can hold items or is an item sink.\<close>

theorem findNextItemHop_sound:
  assumes "findNextItemHop c netId m = h" "h \<noteq> 0"
  shows "h \<noteq> c \<and> connected (edge_pairs m) c h \<and>
    (\<exists>n. getNode h m = Some n \<and> (itemCapacity n > 0 \<or> is_sink (domains n ITEM)))"
proof -
  have "seek (edge_pairs m) (nodes m) (\<lambda>n. itemCapacity n > 0 \<or> is_sink (domains n ITEM)) (\<lambda>_. True) (\<lambda>_. True) [c] [c] = h"
    using assms by (auto simp: findNextItemHop_def split: if_splits)
  from seek_sound[OF this assms(2), of c] show ?thesis by (auto simp: getNode_def)
qed

theorem findNextItemHop_sound_witness:
  "findNextItemHop 1 4 conveyor \<noteq> 0 \<and> findNextItemHop 1 4 conveyor \<noteq> 1"
proof -
  have "findNextItemHop 1 4 conveyor \<noteq> 0" by code_simp
  with findNextItemHop_sound[OF refl this] show ?thesis by simp
qed

text \<open>A machine that consumes items directly (item capacity 0, as the comment in the code has it) is
  never served when it is the only sink: it is not among the item nodes, the list of sinks is
  empty, and the item stays where it is.\<close>

theorem machine_sink_starves:
  "let m = fold apply_op [SetItemProps 1 4 True False, SetItemProps 2 0 False True, AddItem 1 77 5] two_pipes;
       t = tickItemNetworks m
   in consumedItemEvents t = [] \<and> map (\<lambda>(i, n). (i, itemBuffer n)) (nodes t) = map (\<lambda>(i, n). (i, itemBuffer n)) (nodes m)"
  by code_simp

end
