(* ===== verification/PipeConsume.thy ===== *)
theory PipeConsume
  imports Prelude
begin

text \<open>
  The tracker of consume requests that wait for a drain of their source owner:
  \<open>src/apps/pipe_network/PipeConsumeTransactions.h\<close>. Ticks are 64-bit words. Every loop over the
  pending map is a map or filter over its entries. The main theorem is that each recorded shortfall is
  completed exactly once, whatever the order of responses, retries, cancellations and expiries.
\<close>

section \<open>Bounds\<close>

definition kPendingConsumeTtlTicks :: u64 where "kPendingConsumeTtlTicks = 50"
definition kDrainRetryBaseBackoffTicks :: u64 where "kDrainRetryBaseBackoffTicks = 2"
definition kDrainRetryBackoffMultiplier :: u64 where "kDrainRetryBackoffMultiplier = 2"
definition kDrainRetryMaxBackoffTicks :: u64 where "kDrainRetryMaxBackoffTicks = 16"
definition kMaxDrainRetries :: u32 where "kMaxDrainRetries = 4"
definition kSourceRejectBaseBackoffTicks :: u64 where "kSourceRejectBaseBackoffTicks = 5"
definition kSourceRejectMaxBackoffTicks :: u64 where "kSourceRejectMaxBackoffTicks = 50"

primrec reject_window :: "nat \<Rightarrow> u64 \<Rightarrow> u64" where
  "reject_window 0 w = w"
| "reject_window (Suc n) w = (if w < kSourceRejectMaxBackoffTicks then reject_window n (w * 2) else w)"

definition sourceRejectBackoffTicks :: "u32 \<Rightarrow> u64" where
  "sourceRejectBackoffTicks consecutive =
     (let window = reject_window (unat consecutive - 1) kSourceRejectBaseBackoffTicks
      in if window > kSourceRejectMaxBackoffTicks then kSourceRejectMaxBackoffTicks else window)"

primrec retry_backoff :: "nat \<Rightarrow> u64 \<Rightarrow> u64" where
  "retry_backoff 0 b = b"
| "retry_backoff (Suc n) b =
     (let b' = b * kDrainRetryBackoffMultiplier
      in if b' \<ge> kDrainRetryMaxBackoffTicks then kDrainRetryMaxBackoffTicks else retry_backoff n b')"

definition drainRetryBackoffTicks :: "u32 \<Rightarrow> u64" where
  "drainRetryBackoffTicks retries = retry_backoff (unat retries - 1) kDrainRetryBaseBackoffTicks"

section \<open>State\<close>

record pending_consume =
  drain_id :: u64
  consume_id :: u64
  sink_node :: u64
  source_node :: u64
  source_owner :: u64
  source_port :: u64
  source_epoch :: u64
  pc_fluid :: u32
  requested :: int
  pipe_accepted :: int
  pc_expires :: u64
  retry_count :: u32
  next_retry_at :: u64
  cancelled :: bool

record drain_apply =
  applied :: bool
  source_accepted :: int
  combined_accepted :: int
  da_remaining :: int
  completed :: "pending_consume option"

record shortfall_decision =
  request_source :: bool
  sd_drain :: u64
  sd_node :: u64
  sd_owner :: u64
  sd_port :: u64
  shortfall :: int

record drain_retry =
  dr_drain :: u64
  dr_node :: u64
  dr_owner :: u64
  dr_port :: u64
  dr_epoch :: u64
  dr_fluid :: u32
  dr_shortfall :: int
  dr_count :: u32

type_synonym source_key = "u64 \<times> u64 \<times> u64"

record source_rejection =
  until_tick :: u64
  consecutive :: u32

record tracker =
  ttl_ticks :: u64
  pending :: "(u64, pending_consume) umap"
  reject_backoff :: "(source_key, source_rejection) umap"

definition tracker_new :: "u64 \<Rightarrow> tracker" where
  "tracker_new ttl = \<lparr>ttl_ticks = ttl, pending = [], reject_backoff = []\<rparr>"

definition drainResponsePortLive :: "pending_consume \<Rightarrow> bool \<Rightarrow> u64 \<Rightarrow> bool" where
  "drainResponsePortLive p port_registered registered_epoch \<longleftrightarrow>
     source_port p = 0 \<or> (port_registered \<and> registered_epoch = source_epoch p)"

section \<open>Operations\<close>

definition sourceInRejectionBackoff :: "source_key \<Rightarrow> u64 \<Rightarrow> tracker \<Rightarrow> bool" where
  "sourceInRejectionBackoff key now t \<longleftrightarrow>
     (case um_find (reject_backoff t) key of None \<Rightarrow> False | Some r \<Rightarrow> now < until_tick r)"

definition noteSourceRejection :: "source_key \<Rightarrow> u64 \<Rightarrow> tracker \<Rightarrow> tracker" where
  "noteSourceRejection key now t =
     (let st = (case um_find (reject_backoff t) key of None \<Rightarrow> \<lparr>until_tick = 0, consecutive = 0\<rparr> | Some r \<Rightarrow> r);
          c = (if consecutive st < 32 then consecutive st + 1 else consecutive st)
      in t\<lparr>reject_backoff := um_put key \<lparr>until_tick = now + sourceRejectBackoffTicks c, consecutive = c\<rparr>
             (reject_backoff t)\<rparr>)"

definition clearSourceRejection :: "source_key \<Rightarrow> tracker \<Rightarrow> tracker" where
  "clearSourceRejection key t = t\<lparr>reject_backoff := um_erase key (reject_backoff t)\<rparr>"

definition clearRejectionBackoffForPort :: "u64 \<Rightarrow> u64 \<Rightarrow> tracker \<Rightarrow> tracker" where
  "clearRejectionBackoffForPort owner port t =
     t\<lparr>reject_backoff := um_erase_if (\<lambda>(_, o', p') _. o' = owner \<and> p' = port) (reject_backoff t)\<rparr>"

definition no_decision :: shortfall_decision where
  "no_decision = \<lparr>request_source = False, sd_drain = 0, sd_node = 0, sd_owner = 0, sd_port = 0, shortfall = 0\<rparr>"

record plan =
  pl_drain :: u64
  pl_consume :: u64
  pl_sink :: u64
  pl_fluid :: u32
  pl_requested :: int
  pl_pipe :: int
  pl_node :: u64
  pl_owner :: u64
  pl_port :: u64
  pl_now :: u64
  pl_epoch :: u64

definition planned_entry :: "plan \<Rightarrow> u64 \<Rightarrow> pending_consume" where
  "planned_entry p ttl =
     \<lparr>drain_id = pl_drain p, consume_id = pl_consume p, sink_node = pl_sink p, source_node = pl_node p,
      source_owner = pl_owner p, source_port = pl_port p, source_epoch = pl_epoch p, pc_fluid = pl_fluid p,
      requested = pl_requested p, pipe_accepted = pl_pipe p, pc_expires = pl_now p + ttl, retry_count = 0,
      next_retry_at = pl_now p + kDrainRetryBaseBackoffTicks, cancelled = False\<rparr>"

definition planShortfall :: "plan \<Rightarrow> tracker \<Rightarrow> tracker \<times> shortfall_decision" where
  "planShortfall p t =
     (let short = pl_requested p - pl_pipe p
      in if short \<le> 0 \<or> pl_node p = 0 \<or> pl_drain p = 0 then (t, no_decision)
         else if sourceInRejectionBackoff (pl_node p, pl_owner p, pl_port p) (pl_now p) t then (t, no_decision)
         else (t\<lparr>pending := um_emplace (pl_drain p) (planned_entry p (ttl_ticks t)) (pending t)\<rparr>,
               \<lparr>request_source = True, sd_drain = pl_drain p, sd_node = pl_node p, sd_owner = pl_owner p,
                sd_port = pl_port p, shortfall = short\<rparr>))"

definition not_applied :: drain_apply where
  "not_applied = \<lparr>applied = False, source_accepted = 0, combined_accepted = 0, da_remaining = 0, completed = None\<rparr>"

definition applyDrainResponse :: "u64 \<Rightarrow> u32 \<Rightarrow> int \<Rightarrow> tracker \<Rightarrow> tracker \<times> drain_apply" where
  "applyDrainResponse did fid amount t =
     (case um_find (pending t) did of
        None \<Rightarrow> (t, not_applied)
      | Some p \<Rightarrow>
          if cancelled p then (t, not_applied)
          else if fid \<noteq> pc_fluid p then (t, not_applied)
          else
            let acc = (if amount < 0 then 0 else amount);
                short = requested p - pipe_accepted p;
                acc = (if acc > short then short else acc)
            in (t\<lparr>pending := um_erase did (pending t)\<rparr>,
                \<lparr>applied = True, source_accepted = acc, combined_accepted = pipe_accepted p + acc,
                 da_remaining = requested p - (pipe_accepted p + acc), completed = Some p\<rparr>))"

definition retry_due :: "u64 \<Rightarrow> pending_consume \<Rightarrow> bool" where
  "retry_due now p \<longleftrightarrow> \<not> cancelled p \<and> retry_count p < kMaxDrainRetries \<and> now \<ge> next_retry_at p \<and> now < pc_expires p"

definition retried :: "u64 \<Rightarrow> pending_consume \<Rightarrow> pending_consume" where
  "retried now p =
     p\<lparr>retry_count := retry_count p + 1, next_retry_at := now + drainRetryBackoffTicks (retry_count p + 1)\<rparr>"

definition collectRetries :: "u64 \<Rightarrow> tracker \<Rightarrow> tracker \<times> drain_retry list" where
  "collectRetries now t =
     (t\<lparr>pending := map (\<lambda>(i, p). (i, if retry_due now p then retried now p else p)) (pending t)\<rparr>,
      map (\<lambda>(_, p). \<lparr>dr_drain = drain_id p, dr_node = source_node p, dr_owner = source_owner p,
                      dr_port = source_port p, dr_epoch = source_epoch p, dr_fluid = pc_fluid p,
                      dr_shortfall = requested p - pipe_accepted p, dr_count = retry_count p + 1\<rparr>)
        (filter (\<lambda>(_, p). retry_due now p) (pending t)))"

text \<open>The loops that mark entries: skip what is cancelled, mark and return what matches.\<close>

definition mark_cancelled :: "(pending_consume \<Rightarrow> bool) \<Rightarrow> tracker \<Rightarrow> tracker \<times> pending_consume list" where
  "mark_cancelled hit t =
     (t\<lparr>pending := map (\<lambda>(i, p). (i, if \<not> cancelled p \<and> hit p then p\<lparr>cancelled := True\<rparr> else p)) (pending t)\<rparr>,
      map (\<lambda>(_, p). p\<lparr>cancelled := True\<rparr>) (filter (\<lambda>(_, p). \<not> cancelled p \<and> hit p) (pending t)))"

definition cancelRequest :: "u64 \<Rightarrow> tracker \<Rightarrow> tracker \<times> pending_consume list" where
  "cancelRequest did t =
     (case um_find (pending t) did of
        None \<Rightarrow> (t, [])
      | Some p \<Rightarrow>
          if cancelled p then (t, [])
          else (t\<lparr>pending := um_put did (p\<lparr>cancelled := True\<rparr>) (pending t)\<rparr>, [p\<lparr>cancelled := True\<rparr>]))"

definition cancelStaleEpoch :: "u64 \<Rightarrow> u64 \<Rightarrow> u64 \<Rightarrow> tracker \<Rightarrow> tracker \<times> pending_consume list" where
  "cancelStaleEpoch owner port current t =
     (if port = 0 then (t, [])
      else mark_cancelled (\<lambda>p. source_owner p = owner \<and> source_port p = port \<and> source_epoch p \<noteq> current) t)"

definition findPending :: "u64 \<Rightarrow> tracker \<Rightarrow> pending_consume option" where
  "findPending did t = um_find (pending t) did"

definition cancelForNode :: "u64 \<Rightarrow> tracker \<Rightarrow> tracker \<times> pending_consume list" where
  "cancelForNode nid t =
     (if nid = 0 then (t, [])
      else (case mark_cancelled (\<lambda>p. source_node p = nid \<or> sink_node p = nid) t of
              (t', out) \<Rightarrow> (t'\<lparr>reject_backoff := um_erase_if (\<lambda>(n, _, _) _. n = nid) (reject_backoff t')\<rparr>, out)))"

definition expire :: "u64 \<Rightarrow> tracker \<Rightarrow> tracker \<times> pending_consume list" where
  "expire now t =
     (t\<lparr>pending := um_erase_if (\<lambda>_ p. pc_expires p \<le> now) (pending t)\<rparr>,
      map snd (filter (\<lambda>(_, p). pc_expires p \<le> now \<and> \<not> cancelled p) (pending t)))"

definition clearForPort :: "u64 \<Rightarrow> u64 \<Rightarrow> tracker \<Rightarrow> tracker \<times> pending_consume list" where
  "clearForPort owner port t =
     (if port = 0 then (t, [])
      else
        let t1 = clearRejectionBackoffForPort owner port t;
            hit = (\<lambda>p. source_port p = port \<and> source_owner p = owner \<and> \<not> cancelled p)
        in (t1\<lparr>pending := um_erase_if (\<lambda>_ p. hit p) (pending t1)\<rparr>, map snd (filter (\<lambda>(_, p). hit p) (pending t1))))"

section \<open>Runs\<close>

datatype consume_op =
    Plan plan
  | Apply u64 u32 int
  | Retries u64
  | CancelRequest u64
  | CancelStaleEpoch u64 u64 u64
  | CancelForNode u64
  | Expire u64
  | ClearForPort u64 u64
  | NoteRejection source_key u64
  | ClearRejection source_key
  | ClearRejectionForPort u64 u64

text \<open>One operation: the new tracker and the requests the caller completes because of it.\<close>

fun consume_step :: "consume_op \<Rightarrow> tracker \<Rightarrow> tracker \<times> pending_consume list" where
  "consume_step (Plan p) t = (fst (planShortfall p t), [])"
| "consume_step (Apply did fid amount) t =
     (case applyDrainResponse did fid amount t of
        (t', r) \<Rightarrow> (t', case completed r of None \<Rightarrow> [] | Some p \<Rightarrow> [p]))"
| "consume_step (Retries now) t = (fst (collectRetries now t), [])"
| "consume_step (CancelRequest did) t = cancelRequest did t"
| "consume_step (CancelStaleEpoch ow pt ep) t = cancelStaleEpoch ow pt ep t"
| "consume_step (CancelForNode nid) t = cancelForNode nid t"
| "consume_step (Expire now) t = expire now t"
| "consume_step (ClearForPort ow pt) t = clearForPort ow pt t"
| "consume_step (NoteRejection key now) t = (noteSourceRejection key now t, [])"
| "consume_step (ClearRejection key) t = (clearSourceRejection key t, [])"
| "consume_step (ClearRejectionForPort ow pt) t = (clearRejectionBackoffForPort ow pt t, [])"

text \<open>Does the operation record a new pending request under this id?\<close>

definition records_id :: "u64 \<Rightarrow> consume_op \<Rightarrow> tracker \<Rightarrow> bool" where
  "records_id i op t \<longleftrightarrow>
     (case op of
        Plan p \<Rightarrow> pl_drain p = i \<and> request_source (snd (planShortfall p t)) \<and> findPending i t = None
      | _ \<Rightarrow> False)"

fun recorded :: "u64 \<Rightarrow> consume_op list \<Rightarrow> tracker \<Rightarrow> nat" where
  "recorded i [] t = 0"
| "recorded i (op # ops) t = (if records_id i op t then 1 else 0) + recorded i ops (fst (consume_step op t))"

fun completions :: "u64 \<Rightarrow> consume_op list \<Rightarrow> tracker \<Rightarrow> nat" where
  "completions i [] t = 0"
| "completions i (op # ops) t =
     count_list (map drain_id (snd (consume_step op t))) i + completions i ops (fst (consume_step op t))"

fun consume_run :: "consume_op list \<Rightarrow> tracker \<Rightarrow> tracker" where
  "consume_run [] t = t"
| "consume_run (op # ops) t = consume_run ops (fst (consume_step op t))"

definition live :: "u64 \<Rightarrow> tracker \<Rightarrow> nat" where
  "live i t = (case um_find (pending t) i of None \<Rightarrow> 0 | Some p \<Rightarrow> if cancelled p then 0 else 1)"

text \<open>Every entry is keyed by its drain id, asks for something, and was republished at most four times.\<close>

definition entry_ok :: "u64 \<Rightarrow> pending_consume \<Rightarrow> bool" where
  "entry_ok i p \<longleftrightarrow> drain_id p = i \<and> pipe_accepted p < requested p \<and> retry_count p \<le> kMaxDrainRetries"

definition pending_ok :: "tracker \<Rightarrow> bool" where
  "pending_ok t \<longleftrightarrow> um_wf (pending t) \<and> (\<forall>(i, p) \<in> set (pending t). entry_ok i p)"

lemma pending_okD: "pending_ok t \<Longrightarrow> um_wf (pending t)"
  "pending_ok t \<Longrightarrow> \<forall>(i, p) \<in> set (pending t). drain_id p = i"
  by (auto simp: pending_ok_def entry_ok_def)

lemma pending_ok_find: "pending_ok t \<Longrightarrow> um_find (pending t) i = Some p \<Longrightarrow> entry_ok i p"
  by (auto simp: pending_ok_def dest: map_of_SomeD)

lemma pending_ok_subset:
  "pending_ok t \<Longrightarrow> set (pending t') \<subseteq> set (pending t) \<Longrightarrow> um_wf (pending t') \<Longrightarrow> pending_ok t'"
  by (auto simp: pending_ok_def)

lemma pending_ok_put:
  "pending_ok t \<Longrightarrow> entry_ok i p \<Longrightarrow> pending t' = um_put i p (pending t) \<Longrightarrow> pending_ok t'"
  using um_put_set[of i p "pending t"] by (auto simp: pending_ok_def)

lemma pending_ok_map:
  assumes "pending_ok t" "\<And>i p. entry_ok i p \<Longrightarrow> entry_ok i (f p)"
    and "pending t' = map (\<lambda>(i, p). (i, f p)) (pending t)"
  shows "pending_ok t'"
  using assms um_wf_map_values[of "\<lambda>_. f" "pending t"] by (auto simp: pending_ok_def)

lemma retried_ok: "entry_ok i p \<Longrightarrow> entry_ok i (if retry_due now p then retried now p else p)"
  by (auto simp: entry_ok_def retry_due_def retried_def inc_le)

section \<open>Exactly once\<close>

text \<open>What an operation may do to the entry of one id: keep its account of live and completed.\<close>

definition balanced :: "u64 \<Rightarrow> nat \<Rightarrow> tracker \<Rightarrow> tracker \<times> pending_consume list \<Rightarrow> bool" where
  "balanced i new t r \<longleftrightarrow> new + live i t = count_list (map drain_id (snd r)) i + live i (fst r)"

lemma balanced_same: "pending t' = pending t \<Longrightarrow> balanced i 0 t (t', [])"
  by (simp add: balanced_def live_def)

lemma count_filter_keyed:
  assumes "um_wf ps" "\<forall>(i, p) \<in> set ps. drain_id p = i" "\<And>p. drain_id (f p) = drain_id p"
  shows "count_list (map drain_id (map (\<lambda>(_, p). f p) (filter (\<lambda>(_, p). hit p) ps))) i =
    (case um_find ps i of None \<Rightarrow> 0 | Some p \<Rightarrow> if hit p then 1 else 0)"
  using assms(1,2)
proof (induction ps)
  case (Cons e ps)
  obtain k p where e: "e = (k, p)" by force
  then have k: "drain_id p = k" "k \<notin> fst ` set ps" using Cons.prems by auto
  have "um_find ps k = None" using k(2) by (simp add: map_of_eq_None_iff)
  then show ?case using Cons k e assms(3) by (auto split: option.splits)
qed simp

lemma mark_cancelled_balanced:
  assumes "pending_ok t"
  shows "balanced i 0 t (mark_cancelled hit t)" "pending_ok (fst (mark_cancelled hit t))"
proof -
  show "balanced i 0 t (mark_cancelled hit t)"
    using count_filter_keyed[OF pending_okD[OF assms], of "\<lambda>p. p\<lparr>cancelled := True\<rparr>" "\<lambda>p. \<not> cancelled p \<and> hit p" i]
    by (auto simp: balanced_def mark_cancelled_def live_def
        um_find_map_values[of "\<lambda>_ p. if \<not> cancelled p \<and> hit p then p\<lparr>cancelled := True\<rparr> else p"]
        split: option.splits)
  show "pending_ok (fst (mark_cancelled hit t))"
    by (rule pending_ok_map[OF assms, of "\<lambda>p. if \<not> cancelled p \<and> hit p then p\<lparr>cancelled := True\<rparr> else p"])
      (auto simp: mark_cancelled_def entry_ok_def)
qed

lemma erase_balanced:
  assumes "pending_ok t" "pending t' = um_erase_if (\<lambda>_ p. gone p) (pending t)"
    and "out = map snd (filter (\<lambda>(_, p). gone p \<and> \<not> cancelled p) (pending t))"
  shows "balanced i 0 t (t', out)" "pending_ok t'"
proof -
  have "out = map (\<lambda>(_, p). id p) (filter (\<lambda>(_, p). gone p \<and> \<not> cancelled p) (pending t))"
    unfolding assms(3) by (simp add: case_prod_unfold)
  then show "balanced i 0 t (t', out)"
    using count_filter_keyed[OF pending_okD[OF assms(1)], of id "\<lambda>p. gone p \<and> \<not> cancelled p" i]
    by (auto simp: balanced_def live_def assms(2) um_find_erase_if[OF pending_okD(1)[OF assms(1)]]
        split: option.splits)
  show "pending_ok t'"
    using pending_ok_subset[OF assms(1), of t'] pending_okD(1)[OF assms(1)]
    by (auto simp: assms(2) um_erase_if_def)
qed

lemma plan_balanced:
  assumes "pending_ok t"
  shows "balanced i (if records_id i (Plan p) t then 1 else 0) t (fst (planShortfall p t), [])"
    and "pending_ok (fst (planShortfall p t))"
proof -
  let ?t' = "t\<lparr>pending := um_emplace (pl_drain p) (planned_entry p (ttl_ticks t)) (pending t)\<rparr>"
  have "planShortfall p t = (t, no_decision) \<or>
    fst (planShortfall p t) = ?t' \<and> request_source (snd (planShortfall p t)) \<and> pl_pipe p < pl_requested p"
    by (simp add: planShortfall_def Let_def)
  then consider (skip) "planShortfall p t = (t, no_decision)"
    | (emit) "fst (planShortfall p t) = ?t'" "request_source (snd (planShortfall p t))" "pl_pipe p < pl_requested p"
    by blast
  then have "balanced i (if records_id i (Plan p) t then 1 else 0) t (fst (planShortfall p t), []) \<and>
    pending_ok (fst (planShortfall p t))"
  proof cases
    case skip
    then show ?thesis
      using assms by (auto simp: records_id_def no_decision_def balanced_def)
  next
    case emit
    have "entry_ok (pl_drain p) (planned_entry p (ttl_ticks t))"
      using emit(3) by (simp add: entry_ok_def planned_entry_def kMaxDrainRetries_def)
    then have "pending_ok ?t'"
      using assms pending_ok_put[OF assms, of "pl_drain p" _ ?t'] by (auto simp: um_emplace_def)
    moreover have "cancelled (planned_entry p (ttl_ticks t)) = False" by (simp add: planned_entry_def)
    ultimately show ?thesis
      using emit(1,2)
      by (auto simp: balanced_def records_id_def findPending_def live_def um_find_emplace split: option.splits)
  qed
  then show "balanced i (if records_id i (Plan p) t then 1 else 0) t (fst (planShortfall p t), [])"
    and "pending_ok (fst (planShortfall p t))" by auto
qed

lemma apply_balanced:
  assumes "pending_ok t"
  shows "balanced i 0 t (consume_step (Apply did fid amount) t)"
    and "pending_ok (fst (consume_step (Apply did fid amount) t))"
proof -
  have "balanced i 0 t (consume_step (Apply did fid amount) t) \<and>
    pending_ok (fst (consume_step (Apply did fid amount) t))"
  proof (cases "\<exists>p. um_find (pending t) did = Some p \<and> \<not> cancelled p \<and> fid = pc_fluid p")
    case False
    then have "applyDrainResponse did fid amount t = (t, not_applied)"
      by (auto simp: applyDrainResponse_def split: option.splits)
    then show ?thesis using assms by (simp add: not_applied_def balanced_def)
  next
    case True
    then obtain p where p: "um_find (pending t) did = Some p" "\<not> cancelled p" "fid = pc_fluid p" by auto
    have step: "consume_step (Apply did fid amount) t = (t\<lparr>pending := um_erase did (pending t)\<rparr>, [p])"
      using p by (simp add: applyDrainResponse_def Let_def)
    have "pending_ok (t\<lparr>pending := um_erase did (pending t)\<rparr>)"
      by (rule pending_ok_subset[OF assms]) (use um_erase_set pending_okD(1)[OF assms] in simp_all)
    then show ?thesis
      unfolding step using p pending_ok_find[OF assms p(1)]
      by (auto simp: balanced_def live_def um_find_erase entry_ok_def)
  qed
  then show "balanced i 0 t (consume_step (Apply did fid amount) t)"
    and "pending_ok (fst (consume_step (Apply did fid amount) t))" by auto
qed

lemma cancelRequest_balanced:
  assumes "pending_ok t"
  shows "balanced i 0 t (cancelRequest did t)" "pending_ok (fst (cancelRequest did t))"
proof -
  have ok: "entry_ok did (p\<lparr>cancelled := True\<rparr>)" if "um_find (pending t) did = Some p" for p
    using pending_ok_find[OF assms that] by (simp add: entry_ok_def)
  show "balanced i 0 t (cancelRequest did t)"
    using ok by (auto simp: balanced_def cancelRequest_def live_def um_find_put entry_ok_def split: option.splits)
  show "pending_ok (fst (cancelRequest did t))"
    using assms ok pending_ok_put[OF assms] by (auto simp: cancelRequest_def split: option.splits)
qed

lemma retries_balanced:
  assumes "pending_ok t"
  shows "balanced i 0 t (fst (collectRetries now t), [])" "pending_ok (fst (collectRetries now t))"
proof -
  let ?f = "\<lambda>p. if retry_due now p then retried now p else p"
  show "balanced i 0 t (fst (collectRetries now t), [])"
    by (auto simp: balanced_def collectRetries_def live_def um_find_map_values[of "\<lambda>_. ?f"] retried_def
        split: option.splits)
  show "pending_ok (fst (collectRetries now t))"
    by (rule pending_ok_map[OF assms, of ?f], erule retried_ok) (simp add: collectRetries_def)
qed

lemma clearForPort_balanced:
  assumes "pending_ok t"
  shows "balanced i 0 t (clearForPort ow pt t)" "pending_ok (fst (clearForPort ow pt t))"
proof -
  let ?hit = "\<lambda>p. source_port p = pt \<and> source_owner p = ow \<and> \<not> cancelled p"
  have eq: "pending (clearRejectionBackoffForPort ow pt t) = pending t"
    by (simp add: clearRejectionBackoffForPort_def)
  have "balanced i 0 t (clearForPort ow pt t) \<and> pending_ok (fst (clearForPort ow pt t))" if "pt \<noteq> 0"
    using that erase_balanced[OF assms, where gone = ?hit, OF _ refl]
    by (simp add: clearForPort_def Let_def eq conj_ac cong: conj_cong)
  then show "balanced i 0 t (clearForPort ow pt t)" "pending_ok (fst (clearForPort ow pt t))"
    using assms by (cases "pt = 0"; simp add: clearForPort_def balanced_def)+
qed

lemma step_balanced:
  assumes "pending_ok t"
  shows "balanced i (if records_id i op t then 1 else 0) t (consume_step op t) \<and>
    pending_ok (fst (consume_step op t))"
proof (cases op)
  case (Plan p)
  then show ?thesis using plan_balanced[OF assms] by simp
next
  case (CancelForNode nid)
  obtain t' out where mc: "mark_cancelled (\<lambda>p. source_node p = nid \<or> sink_node p = nid) t = (t', out)" by force
  then show ?thesis
    using CancelForNode assms mark_cancelled_balanced[OF assms, where hit = "\<lambda>p. source_node p = nid \<or> sink_node p = nid"]
    by (auto simp: cancelForNode_def records_id_def balanced_def live_def pending_ok_def)
next
  case (CancelStaleEpoch ow pt ep)
  then show ?thesis
    using assms mark_cancelled_balanced[OF assms,
        where hit = "\<lambda>p. source_owner p = ow \<and> source_port p = pt \<and> source_epoch p \<noteq> ep"]
    by (simp add: cancelStaleEpoch_def records_id_def balanced_def)
next
  case (Expire now)
  then show ?thesis
    using erase_balanced[OF assms, where gone = "\<lambda>p. pc_expires p \<le> now", OF _ refl]
    by (simp add: expire_def records_id_def)
next
  case (NoteRejection k now)
  then show ?thesis using assms
    by (auto simp: noteSourceRejection_def Let_def records_id_def balanced_def live_def pending_ok_def)
next
  case (ClearRejection k)
  then show ?thesis using assms
    by (auto simp: clearSourceRejection_def records_id_def balanced_def live_def pending_ok_def)
next
  case (ClearRejectionForPort ow pt)
  then show ?thesis using assms
    by (auto simp: clearRejectionBackoffForPort_def records_id_def balanced_def live_def pending_ok_def)
next
  case (Apply did fid amount)
  then show ?thesis using apply_balanced[OF assms, where did = did and fid = fid and amount = amount]
    by (simp add: records_id_def del: consume_step.simps)
next
  case (Retries now)
  then show ?thesis using retries_balanced[OF assms, where now = now] by (simp add: records_id_def)
next
  case (CancelRequest did)
  then show ?thesis using cancelRequest_balanced[OF assms, where did = did] by (simp add: records_id_def)
next
  case (ClearForPort ow pt)
  then show ?thesis using clearForPort_balanced[OF assms, where ow = ow and pt = pt] by (simp add: records_id_def)
qed

lemma run_balanced:
  "pending_ok t \<Longrightarrow> recorded i ops t + live i t = completions i ops t + live i (consume_run ops t)"
proof (induction ops arbitrary: t)
  case (Cons op ops)
  have "pending_ok (fst (consume_step op t))" using step_balanced[OF Cons.prems] by blast
  from Cons.IH[OF this] show ?case using step_balanced[OF Cons.prems, of i op]
    unfolding balanced_def recorded.simps completions.simps consume_run.simps by linarith
qed simp

lemma run_pending_ok: "pending_ok t \<Longrightarrow> pending_ok (consume_run ops t)"
  by (induction ops arbitrary: t) (simp_all add: step_balanced)

lemma tracker_new_ok: "pending_ok (tracker_new ttl)"
  by (simp add: pending_ok_def tracker_new_def)

section \<open>Properties\<close>

definition demo_plan :: plan where
  "demo_plan = \<lparr>pl_drain = 7, pl_consume = 3, pl_sink = 1, pl_fluid = 9, pl_requested = 100, pl_pipe = 40,
     pl_node = 2, pl_owner = 5, pl_port = 1, pl_now = 10, pl_epoch = 1\<rparr>"

text \<open>C11: however plans, responses, replays, retries, cancellations, port and node removals and expiries
  are interleaved, each recorded shortfall is completed exactly once: the number of times a drain id was
  recorded is the number of times it was handed back for completion, plus one if it is still live.\<close>

theorem consume_exactly_once:
  "recorded i ops (tracker_new ttl) =
     completions i ops (tracker_new ttl) + live i (consume_run ops (tracker_new ttl))"
  using run_balanced[OF tracker_new_ok, of i ops ttl] by (simp add: live_def tracker_new_def)

lemma step_ttl: "ttl_ticks (fst (consume_step op t)) = ttl_ticks t"
  by (cases op) (auto simp: planShortfall_def Let_def applyDrainResponse_def collectRetries_def cancelRequest_def
      cancelStaleEpoch_def mark_cancelled_def cancelForNode_def expire_def clearForPort_def
      clearRejectionBackoffForPort_def noteSourceRejection_def clearSourceRejection_def split: option.splits)

fun planned_by :: "u64 \<Rightarrow> consume_op \<Rightarrow> bool" where
  "planned_by T (Plan p) = (pl_now p \<le> T)"
| "planned_by T op = True"

definition due_by :: "u64 \<Rightarrow> tracker \<Rightarrow> bool" where
  "due_by D t \<longleftrightarrow> (\<forall>(i, p) \<in> set (pending t). pc_expires p \<le> D)"

lemma due_by_map: "due_by D t \<Longrightarrow> pc_expires \<circ> f = pc_expires \<Longrightarrow>
    pending t' = map (\<lambda>(i, p). (i, f p)) (pending t) \<Longrightarrow> due_by D t'"
  by (fastforce simp: due_by_def fun_eq_iff)

lemma due_by_subset: "due_by D t \<Longrightarrow> set (pending t') \<subseteq> set (pending t) \<Longrightarrow> due_by D t'"
  by (auto simp: due_by_def)

lemma due_by_put: "due_by D t \<Longrightarrow> pc_expires p \<le> D \<Longrightarrow> pending t' = um_put i p (pending t) \<Longrightarrow> due_by D t'"
  using um_put_set[of i p "pending t"] by (auto simp: due_by_def)

lemma mark_due: "due_by D t \<Longrightarrow> due_by D (fst (mark_cancelled hit t))"
  by (rule due_by_map[of _ _ "\<lambda>p. if \<not> cancelled p \<and> hit p then p\<lparr>cancelled := True\<rparr> else p"])
    (auto simp: mark_cancelled_def fun_eq_iff)

lemma step_due:
  assumes "due_by (T + ttl_ticks t) t" "planned_by T op" "unat T + unat (ttl_ticks t) < 2 ^ 64"
  shows "due_by (T + ttl_ticks t) (fst (consume_step op t))"
proof (cases op)
  case (Plan p)
  have "pl_now p + ttl_ticks t \<le> T + ttl_ticks t"
    using assms(2,3) Plan by (simp add: word_le_nat_alt unat_word_ariths)
  then have "due_by (T + ttl_ticks t) (t\<lparr>pending := um_emplace (pl_drain p) (planned_entry p (ttl_ticks t)) (pending t)\<rparr>)"
    using assms(1) due_by_put[OF assms(1), of "planned_entry p (ttl_ticks t)" _ "pl_drain p"]
    by (simp add: um_emplace_def planned_entry_def)
  then show ?thesis using Plan assms(1) by (simp add: planShortfall_def Let_def)
next
  case (Apply did fid amount)
  have "due_by (T + ttl_ticks t) (t\<lparr>pending := um_erase did (pending t)\<rparr>)"
    by (rule due_by_subset[OF assms(1)]) (simp add: um_erase_set)
  then show ?thesis
    using assms(1) Apply by (simp add: applyDrainResponse_def Let_def split: option.splits)
next
  case (Retries now)
  show ?thesis
    by (rule due_by_map[OF assms(1), of "\<lambda>p. if retry_due now p then retried now p else p"])
      (auto simp: Retries collectRetries_def retried_def fun_eq_iff)
next
  case (CancelRequest did)
  then show ?thesis using assms(1)
    by (auto simp: cancelRequest_def due_by_def dest!: map_of_SomeD subsetD[OF um_put_set] split: option.splits)
next
  case (CancelStaleEpoch ow pt ep)
  then show ?thesis using assms(1) mark_due by (simp add: cancelStaleEpoch_def)
next
  case (CancelForNode nid)
  obtain t' out where mc: "mark_cancelled (\<lambda>p. source_node p = nid \<or> sink_node p = nid) t = (t', out)" by force
  then have "due_by (T + ttl_ticks t) t'" using mark_due[OF assms(1)] by (metis fst_conv)
  then show ?thesis using CancelForNode assms(1) mc by (auto simp: cancelForNode_def due_by_def)
next
  case (Expire now)
  then show ?thesis using assms(1) by (auto simp: expire_def due_by_def um_erase_if_def)
next
  case (ClearForPort ow pt)
  then show ?thesis using assms(1)
    by (auto simp: clearForPort_def clearRejectionBackoffForPort_def Let_def due_by_def um_erase_if_def)
qed (use assms(1) in \<open>auto simp: noteSourceRejection_def Let_def clearSourceRejection_def
  clearRejectionBackoffForPort_def due_by_def\<close>)

lemma run_due:
  assumes "due_by (T + ttl_ticks t) t" "list_all (planned_by T) ops" "unat T + unat (ttl_ticks t) < 2 ^ 64"
  shows "due_by (T + ttl_ticks t) (consume_run ops t)"
  using assms
proof (induction ops arbitrary: t)
  case (Cons op ops)
  then show ?case using step_due[of T t op] Cons.IH[of "fst (consume_step op t)"] by (simp add: step_ttl)
qed simp

lemma recorded_append: "recorded i (ops @ ops') t = recorded i ops t + recorded i ops' (consume_run ops t)"
  by (induction ops arbitrary: t) auto

lemma consume_run_append: "consume_run (ops @ ops') t = consume_run ops' (consume_run ops t)"
  by (induction ops arbitrary: t) auto

text \<open>C22: no consumer waits past the deadline. If every shortfall was planned by tick \<open>T\<close>, then after one
  expiry pass at tick \<open>T + ttl\<close> every recorded shortfall has been completed, whatever answers were lost.\<close>

theorem consume_all_completed:
  assumes "list_all (planned_by T) ops" "unat T + unat ttl < 2 ^ 64"
  shows "recorded i ops (tracker_new ttl) = completions i (ops @ [Expire (T + ttl)]) (tracker_new ttl)"
proof -
  let ?t = "consume_run ops (tracker_new ttl)"
  have "due_by (T + ttl) ?t"
    using run_due[of T "tracker_new ttl" ops] assms by (simp add: tracker_new_def due_by_def)
  then have "live i (fst (expire (T + ttl) ?t)) = 0"
    by (auto simp: live_def expire_def due_by_def um_erase_if_def split: option.splits dest!: map_of_SomeD)
  then have "live i (consume_run (ops @ [Expire (T + ttl)]) (tracker_new ttl)) = 0"
    by (simp add: consume_run_append)
  then show ?thesis
    using run_balanced[OF tracker_new_ok, of i "ops @ [Expire (T + ttl)]" ttl]
    by (simp add: recorded_append records_id_def live_def tracker_new_def)
qed

theorem consume_all_completed_witness:
  "recorded 7 [Plan demo_plan, Retries 12] (tracker_new 50) =
     completions 7 [Plan demo_plan, Retries 12, Expire 60] (tracker_new 50) \<and>
   recorded 7 [Plan demo_plan, Retries 12] (tracker_new 50) = 1"
proof (rule conjI)
  show "recorded 7 [Plan demo_plan, Retries 12] (tracker_new 50) =
     completions 7 [Plan demo_plan, Retries 12, Expire 60] (tracker_new 50)"
    using consume_all_completed[of 10 "[Plan demo_plan, Retries 12]" 50 7]
    by (simp add: demo_plan_def del: recorded.simps completions.simps)
  show "recorded 7 [Plan demo_plan, Retries 12] (tracker_new 50) = 1"
    by (simp add: demo_plan_def records_id_def planShortfall_def tracker_new_def sourceInRejectionBackoff_def
        findPending_def)
qed

text \<open>An applied drain response completes the recorded request of that id and fluid, credits the
  answer clamped to the open shortfall, so pipe part and source part never exceed the request, leaves no
  negative remainder, was published at most five times in all, and a replay of the response is ignored.\<close>

theorem applied_response_clamped:
  assumes "applyDrainResponse did fid amount (consume_run ops (tracker_new ttl)) = (t', r)" "applied r"
  shows "\<exists>p. completed r = Some p \<and> drain_id p = did \<and> pc_fluid p = fid \<and> \<not> cancelled p \<and>
    retry_count p \<le> kMaxDrainRetries \<and>
    source_accepted r = max 0 (min amount (requested p - pipe_accepted p)) \<and>
    combined_accepted r = pipe_accepted p + source_accepted r \<and>
    da_remaining r = requested p - combined_accepted r \<and> 0 \<le> da_remaining r \<and>
    \<not> applied (snd (applyDrainResponse did fid' amount' t'))"
proof -
  let ?t = "consume_run ops (tracker_new ttl)"
  obtain p where p: "um_find (pending ?t) did = Some p" "\<not> cancelled p" "fid = pc_fluid p"
    using assms by (fastforce simp: applyDrainResponse_def not_applied_def split: option.splits if_splits)
  have "entry_ok did p" using pending_ok_find[OF run_pending_ok[OF tracker_new_ok] p(1)] .
  moreover have "t' = ?t\<lparr>pending := um_erase did (pending ?t)\<rparr>"
    using assms(1) p by (simp add: applyDrainResponse_def Let_def)
  ultimately show ?thesis
    using assms(1) p
    by (auto simp: applyDrainResponse_def Let_def entry_ok_def um_find_erase not_applied_def)
qed

theorem applied_response_clamped_witness:
  "\<exists>t' r. applyDrainResponse 7 9 500 (consume_run [Plan demo_plan] (tracker_new 50)) = (t', r) \<and>
     source_accepted r = 60 \<and> da_remaining r = 0 \<and> \<not> applied (snd (applyDrainResponse 7 9 500 t'))"
proof -
  obtain t' r where r: "applyDrainResponse 7 9 500 (consume_run [Plan demo_plan] (tracker_new 50)) = (t', r)"
    by force
  then have "applied r" "completed r = Some (planned_entry demo_plan 50)"
    by (auto simp: demo_plan_def planned_entry_def applyDrainResponse_def planShortfall_def tracker_new_def
        sourceInRejectionBackoff_def um_emplace_def)
  then show ?thesis
    using r applied_response_clamped[OF r, of 9 500] by (simp add: planned_entry_def demo_plan_def)
qed

lemma reject_window_stop: "\<not> w < kSourceRejectMaxBackoffTicks \<Longrightarrow> reject_window m w = w"
  by (cases m) auto

lemma loops_numeral:
  "reject_window (numeral k) w =
     (if w < kSourceRejectMaxBackoffTicks then reject_window (pred_numeral k) (w * 2) else w)"
  "retry_backoff (numeral k) b =
     (let b' = b * kDrainRetryBackoffMultiplier
      in if b' \<ge> kDrainRetryMaxBackoffTicks then kDrainRetryMaxBackoffTicks else retry_backoff (pred_numeral k) b')"
  by (simp_all add: numeral_eq_Suc)

lemma at_least_four: "4 \<le> n \<Longrightarrow> \<exists>m. n = Suc (Suc (Suc (Suc m)))" for n :: nat
  by presburger

text \<open>The two backoff schedules in closed form: the cooldown of a rejecting source is 5, 10, 20, 40
  and then 50 ticks, the spacing of retries 2, 4, 8 and then 16 ticks; the loops never overflow.\<close>

theorem backoff_schedules:
  "sourceRejectBackoffTicks n =
     (if n \<le> 1 then 5 else if n = 2 then 10 else if n = 3 then 20 else if n = 4 then 40 else 50) \<and>
   drainRetryBackoffTicks n = (if n \<le> 1 then 2 else if n = 2 then 4 else if n = 3 then 8 else 16)"
proof -
  have eq: "n = of_nat k" if "unat n = k" for k using that by auto
  have "unat n = 0 \<or> unat n = 1 \<or> unat n = 2 \<or> unat n = 3 \<or> unat n = 4 \<or> 4 < unat n" by linarith
  then consider "n = 0" | "n = 1" | "n = 2" | "n = 3" | "n = 4" | (big) "4 < unat n"
    using eq[of 0] eq[of 1] eq[of 2] eq[of 3] eq[of 4] by fastforce
  then show ?thesis
  proof cases
    case big
    then have "4 \<le> unat n - 1" by linarith
    then obtain m where "unat n - 1 = Suc (Suc (Suc (Suc m)))" using at_least_four by blast
    moreover have "reject_window m 80 = 80"
      by (rule reject_window_stop) (simp add: kSourceRejectMaxBackoffTicks_def)
    ultimately show ?thesis using big
      by (auto simp: sourceRejectBackoffTicks_def drainRetryBackoffTicks_def Let_def word_less_nat_alt word_le_nat_alt
          kSourceRejectBaseBackoffTicks_def kSourceRejectMaxBackoffTicks_def kDrainRetryBaseBackoffTicks_def
          kDrainRetryMaxBackoffTicks_def kDrainRetryBackoffMultiplier_def)
  qed (simp_all add: sourceRejectBackoffTicks_def drainRetryBackoffTicks_def Let_def loops_numeral word_le_nat_alt
      kSourceRejectBaseBackoffTicks_def kSourceRejectMaxBackoffTicks_def kDrainRetryBaseBackoffTicks_def
      kDrainRetryMaxBackoffTicks_def kDrainRetryBackoffMultiplier_def)
qed

end
