(* ===== verification/CableGraph.thy ===== *)
theory CableGraph
  imports Coords ItemId Flood
begin

text \<open>
  The cable graph of \<open>src/apps/pipe_network/CableGraph.{h,cpp}\<close> with \<open>CableTypes.h\<close>, \<open>CableLoss.h\<close> and
  \<open>CableOverheat.h\<close>: nodes, the position index, the connected components, path search, the packet
  tick and the overheating of nodes. Every \<open>float\<close> of these files holds an integer (the losses of
  \<open>CABLE_DEFS\<close>, voltages, temperatures in steps of 50, 1 and 2), so a float is an \<^typ>\<open>int\<close> and an
  arithmetic result is rounded by \<open>fl\<close> to 24 significant bits, ties to even. \<open>m_nodes.at\<close> on a missing
  node throws; such an outcome is \<open>None\<close>.
\<close>

unbundle bit_operations_syntax

section \<open>Single precision on integers\<close>

function excess_bits :: "int \<Rightarrow> nat" where
  "excess_bits a = (if a < 2 ^ 24 then 0 else Suc (excess_bits (a div 2)))"
  by auto
termination
  by (relation "measure nat") auto

declare excess_bits.simps [simp del]

definition fl :: "int \<Rightarrow> int" where
  "fl x =
     (let e = excess_bits \<bar>x\<bar>;
          q = \<bar>x\<bar> div 2 ^ e;
          r = \<bar>x\<bar> mod 2 ^ e;
          q' = (if 2 * r > 2 ^ e \<or> (2 * r = 2 ^ e \<and> odd q) then q + 1 else q)
      in sgn x * (q' * 2 ^ e))"

definition cableEnergyLoss :: "int \<Rightarrow> int \<Rightarrow> int" where
  "cableEnergyLoss distance loss = fl (distance * loss)"

definition effectiveVoltage :: "int \<Rightarrow> int \<Rightarrow> int \<Rightarrow> int" where
  "effectiveVoltage distance loss volt = max 0 (fl (volt - cableEnergyLoss distance loss))"

section \<open>Cable definitions\<close>

record cable_def =
  def_block :: u16
  def_tier :: u8
  def_name :: string
  def_loss :: int
  def_max_voltage :: u32
  def_ampacity :: u32

definition cable_def_of :: "string \<Rightarrow> u8 \<Rightarrow> string \<Rightarrow> int \<Rightarrow> u32 \<Rightarrow> u32 \<Rightarrow> cable_def" where
  "cable_def_of s t nm loss volts amps =
     \<lparr>def_block = pack s, def_tier = t, def_name = nm, def_loss = loss, def_max_voltage = volts, def_ampacity = amps\<rparr>"

definition CABLE_DEFS :: "cable_def list" where
  "CABLE_DEFS =
     [cable_def_of ''1111:01:0'' 1 ''cable_tin'' 0x05f5e100 0x20 0x20,
      cable_def_of ''1111:01:1'' 1 ''cable_copper'' 0x03f5e100 0x20 0x40,
      cable_def_of ''1111:01:2'' 2 ''cable_gold'' 0x02f5e100 0x80 0x80,
      cable_def_of ''1111:01:3'' 2 ''cable_aluminium'' 0x02f5e100 0x80 0x100,
      cable_def_of ''1111:01:4'' 3 ''cable_tungsten'' 0x01f5e100 0x200 0x200,
      cable_def_of ''1111:01:5'' 4 ''cable_platinum'' 0x00f5e100 0x800 0x400]"

definition getCableDef :: "u16 \<Rightarrow> cable_def option" where
  "getCableDef b = find (\<lambda>d. def_block d = b) CABLE_DEFS"

definition isCableBlock :: "u16 \<Rightarrow> bool" where
  "isCableBlock b \<longleftrightarrow> getCableDef b \<noteq> None"

section \<open>State\<close>

record energy_packet =
  voltage :: u32
  ampCount :: u8
  sourceId :: u64
  targetId :: u64
  tickIssued :: u8

record exploded_node =
  ex_node :: u64
  ex_x :: i32
  ex_y :: i32
  ex_z :: i32
  ex_temp :: int

record cable_node =
  cn_id :: u64
  cn_x :: i32
  cn_y :: i32
  cn_z :: i32
  tier :: u8
  maxVoltage :: u32
  ampacity :: u32
  packetsThisTick :: u32
  temperature :: int
  lossPerBlock :: int
  cn_block :: u16
  maxSeenVoltage :: u32
  packetsIn :: "energy_packet list"
  packetsOut :: "energy_packet list"
  cn_meta :: u8

record cables =
  cnodes :: "(u64, cable_node) umap"
  posToNode :: "(u64, u64) umap"
  cableNetworks :: "u64 list list"
  generatorToCable :: "(u64, u64) umap"
  machineToCable :: "(u64, u64) umap"
  explodedThisTick :: "exploded_node list"

definition cables_new :: cables where
  "cables_new = \<lparr>cnodes = [], posToNode = [], cableNetworks = [], generatorToCable = [], machineToCable = [],
     explodedThisTick = []\<rparr>"

section \<open>Neighbours\<close>

definition cable_offsets :: "(nat \<times> i32 \<times> i32 \<times> i32) list" where
  "cable_offsets = [(0, 1, 0, 0), (1, -1, 0, 0), (2, 0, 1, 0), (3, 0, -1, 0), (4, 0, 0, 1), (5, 0, 0, -1)]"

text \<open>The mask of the open faces: 0 stands for all six.\<close>

definition open_faces :: "u8 \<Rightarrow> u32" where
  "open_faces m = (if m = 0 then 0x3F else ucast m)"

definition neighbour :: "cables \<Rightarrow> cable_node \<Rightarrow> nat \<times> i32 \<times> i32 \<times> i32 \<Rightarrow> u64 option" where
  "neighbour g n off =
     (case off of (f, dx, dy, dz) \<Rightarrow>
        (case um_find (posToNode g) (packPos (cn_x n + dx) (cn_y n + dy) (cn_z n + dz)) of
           None \<Rightarrow> None
         | Some i \<Rightarrow>
             (case um_find (cnodes g) i of
                None \<Rightarrow> None
              | Some nb \<Rightarrow>
                  if (open_faces (cn_meta n) AND push_bit f 1) = 0 \<or>
                     (open_faces (cn_meta nb) AND push_bit (f XOR 1) 1) = 0
                  then None else Some i)))"

definition neighbours :: "cables \<Rightarrow> cable_node \<Rightarrow> u64 list" where
  "neighbours g n = List.map_filter (neighbour g n) cable_offsets"

definition node_neighbours :: "cables \<Rightarrow> u64 \<Rightarrow> u64 list" where
  "node_neighbours g i = (case um_find (cnodes g) i of None \<Rightarrow> [] | Some n \<Rightarrow> neighbours g n)"

lemma neighbour_found: "neighbour g n off = Some j \<Longrightarrow> um_find (cnodes g) j \<noteq> None"
  by (auto simp: neighbour_def split: option.splits prod.splits if_splits)

lemma set_map_filter_Some: "y \<in> set (List.map_filter f xs) \<longleftrightarrow> (\<exists>x \<in> set xs. f x = Some y)"
  by (induction xs) (auto simp: List.map_filter_simps split: option.splits)

lemma node_neighbours_nodes: "set (node_neighbours g i) \<subseteq> fst ` set (cnodes g)"
proof
  fix j assume "j \<in> set (node_neighbours g i)"
  then have "um_find (cnodes g) j \<noteq> None"
    using neighbour_found by (fastforce simp: node_neighbours_def neighbours_def set_map_filter_Some split: option.splits)
  then show "j \<in> fst ` set (cnodes g)" by (simp add: map_of_eq_None_iff)
qed

section \<open>Components\<close>

text \<open>What a visit of neighbours adds, bounded by the node table.\<close>

lemma visit_measure:
  assumes "visit nbs vis q = (vis', q')" "set nbs \<subseteq> U" "finite U"
  shows "card (U - set vis') + length q' \<le> card (U - set vis) + length q"
proof -
  obtain new where new: "q' = q @ new" "set vis' = set vis \<union> set new" "distinct new"
    "set new \<inter> set vis = {}" "set new \<subseteq> set nbs" using visit_props[OF assms(1)] by metis
  have sub: "set new \<subseteq> U - set vis" using new(4,5) assms(2) by auto
  have "U - set vis' = (U - set vis) - set new" using new(2) by auto
  then have "card (U - set vis') = card (U - set vis) - card (set new)" using sub by (simp add: card_Diff_subset)
  moreover have "card (set new) \<le> card (U - set vis)" using sub assms(3) by (intro card_mono) auto
  moreover have "card (set new) = length new" using new(3) by (rule distinct_card)
  ultimately show ?thesis using new(1) by simp
qed

function cable_bfs :: "cables \<Rightarrow> u64 list \<Rightarrow> u64 list \<Rightarrow> u64 list \<Rightarrow> u64 list \<times> u64 list" where
  "cable_bfs g [] visited component = (visited, component)"
| "cable_bfs g (current # q) visited component =
     (case visit (node_neighbours g current) visited q of
        (visited', q') \<Rightarrow> cable_bfs g q' visited' (component @ [current]))"
  by pat_completeness auto

termination
proof (relation "measure (\<lambda>(g, q, vis, _). card (fst ` set (cnodes g) - set vis) + length q)")
  fix g c q vis and component :: "u64 list" and vis' q'
  assume "(vis', q') = visit (node_neighbours g c) vis q"
  from visit_measure[OF this[symmetric] node_neighbours_nodes]
  show "((g, q', vis', component @ [c]), g, c # q, vis, component) \<in>
      measure (\<lambda>(g, q, vis, _). card (fst ` set (cnodes g) - set vis) + length q)" by simp
qed simp

definition rebuild_from :: "cables \<Rightarrow> u64 \<Rightarrow> u64 list \<times> u64 list list \<Rightarrow> u64 list \<times> u64 list list" where
  "rebuild_from g nodeId st =
     (case st of (visited, nets) \<Rightarrow>
        if nodeId \<in> set visited then st
        else (case cable_bfs g [nodeId] (nodeId # visited) [] of
                (visited', component) \<Rightarrow> (visited', if component \<noteq> [] then nets @ [component] else nets)))"

definition rebuildGraph :: "cables \<Rightarrow> cables" where
  "rebuildGraph g = g\<lparr>cableNetworks := snd (fold (rebuild_from g) (map fst (cnodes g)) ([], []))\<rparr>"

section \<open>Nodes, generators, machines\<close>

definition addCableNode :: "u64 \<Rightarrow> cable_def \<Rightarrow> i32 \<Rightarrow> i32 \<Rightarrow> i32 \<Rightarrow> u8 \<Rightarrow> cables \<Rightarrow> cables" where
  "addCableNode nodeId d x y z mt g =
     g\<lparr>cnodes := um_put nodeId
         \<lparr>cn_id = nodeId, cn_x = x, cn_y = y, cn_z = z, tier = def_tier d, maxVoltage = def_max_voltage d,
          ampacity = def_ampacity d, packetsThisTick = 0, temperature = 0, lossPerBlock = def_loss d,
          cn_block = def_block d, maxSeenVoltage = 0, packetsIn = [], packetsOut = [], cn_meta = mt\<rparr> (cnodes g),
       posToNode := um_put (packPos x y z) nodeId (posToNode g)\<rparr>"

definition cmodify :: "u64 \<Rightarrow> (cable_node \<Rightarrow> cable_node) \<Rightarrow> cables \<Rightarrow> cables" where
  "cmodify i f g = (case um_find (cnodes g) i of None \<Rightarrow> g | Some n \<Rightarrow> g\<lparr>cnodes := um_put i (f n) (cnodes g)\<rparr>)"

definition setCableMeta :: "u64 \<Rightarrow> u8 \<Rightarrow> cables \<Rightarrow> cables" where
  "setCableMeta nodeId mt g =
     (case um_find (cnodes g) nodeId of
        None \<Rightarrow> g
      | Some n \<Rightarrow> if cn_meta n = mt then g else rebuildGraph (cmodify nodeId (\<lambda>n. n\<lparr>cn_meta := mt\<rparr>) g))"

definition hasCableNode :: "u64 \<Rightarrow> cables \<Rightarrow> bool" where
  "hasCableNode nodeId g \<longleftrightarrow> um_find (cnodes g) nodeId \<noteq> None"

definition removeCableNode :: "u64 \<Rightarrow> cables \<Rightarrow> cables" where
  "removeCableNode nodeId g =
     (case um_find (cnodes g) nodeId of
        None \<Rightarrow> g
      | Some n \<Rightarrow>
          rebuildGraph (g\<lparr>posToNode := um_erase (packPos (cn_x n) (cn_y n) (cn_z n)) (posToNode g),
            generatorToCable := um_erase (cn_id n) (generatorToCable g),
            machineToCable := um_erase (cn_id n) (machineToCable g),
            cnodes := um_erase nodeId (cnodes g)\<rparr>))"

definition setCableParams :: "u64 \<Rightarrow> cable_def \<Rightarrow> cables \<Rightarrow> cables" where
  "setCableParams nodeId d =
     cmodify nodeId (\<lambda>n. n\<lparr>maxVoltage := def_max_voltage d, ampacity := def_ampacity d, tier := def_tier d\<rparr>)"

fun find_adjacent :: "cables \<Rightarrow> i32 \<Rightarrow> i32 \<Rightarrow> i32 \<Rightarrow> u8 \<Rightarrow> (nat \<times> i32 \<times> i32 \<times> i32) list \<Rightarrow> u64 option" where
  "find_adjacent g x y z t [] = Some 0"
| "find_adjacent g x y z t ((_, dx, dy, dz) # offs) =
     (case um_find (posToNode g) (packPos (x + dx) (y + dy) (z + dz)) of
        None \<Rightarrow> find_adjacent g x y z t offs
      | Some i \<Rightarrow>
          if t = 0 then Some i
          else (case um_find (cnodes g) i of
                  None \<Rightarrow> None
                | Some n \<Rightarrow> if tier n = t then Some i else find_adjacent g x y z t offs))"

definition findAdjacentCable :: "i32 \<Rightarrow> i32 \<Rightarrow> i32 \<Rightarrow> u8 \<Rightarrow> cables \<Rightarrow> u64 option" where
  "findAdjacentCable x y z t g = find_adjacent g x y z t cable_offsets"

definition registerGenerator :: "u64 \<Rightarrow> i32 \<Rightarrow> i32 \<Rightarrow> i32 \<Rightarrow> u8 \<Rightarrow> cables \<Rightarrow> cables option" where
  "registerGenerator gen x y z t g =
     map_option (\<lambda>c. if c \<noteq> 0 then g\<lparr>generatorToCable := um_put gen c (generatorToCable g)\<rparr> else g)
       (findAdjacentCable x y z t g)"

definition registerMachine :: "u64 \<Rightarrow> i32 \<Rightarrow> i32 \<Rightarrow> i32 \<Rightarrow> u8 \<Rightarrow> cables \<Rightarrow> cables option" where
  "registerMachine mach x y z t g =
     map_option (\<lambda>c. if c \<noteq> 0 then g\<lparr>machineToCable := um_put mach c (machineToCable g)\<rparr> else g)
       (findAdjacentCable x y z t g)"

definition unregisterGenerator :: "u64 \<Rightarrow> cables \<Rightarrow> cables" where
  "unregisterGenerator gen g = g\<lparr>generatorToCable := um_erase gen (generatorToCable g)\<rparr>"

definition unregisterMachine :: "u64 \<Rightarrow> cables \<Rightarrow> cables" where
  "unregisterMachine mach g = g\<lparr>machineToCable := um_erase mach (machineToCable g)\<rparr>"

definition isRegisteredGenerator :: "u64 \<Rightarrow> cables \<Rightarrow> bool" where
  "isRegisteredGenerator gen g \<longleftrightarrow> um_find (generatorToCable g) gen \<noteq> None"

section \<open>Paths\<close>

fun path_visit :: "u64 list \<Rightarrow> u64 list \<Rightarrow> u64 list \<Rightarrow> (u64 \<times> u64 list) list \<Rightarrow> u64 list \<times> (u64 \<times> u64 list) list" where
  "path_visit [] cur visited q = (visited, q)"
| "path_visit (n # ns) cur visited q =
     (if n \<in> set visited then path_visit ns cur visited q
      else path_visit ns cur (n # visited) (q @ [(n, cur @ [n])]))"

lemma path_visit_visit:
  "path_visit nbs cur vis q = (vis', q') \<Longrightarrow> visit nbs vis (map fst q) = (vis', map fst q')"
  by (induction nbs arbitrary: vis q) (fastforce split: if_splits)+

function path_bfs :: "cables \<Rightarrow> (u64 \<Rightarrow> bool) \<Rightarrow> (u64 \<times> u64 list) list \<Rightarrow> u64 list \<Rightarrow> u64 list" where
  "path_bfs g goal [] visited = []"
| "path_bfs g goal ((i, path) # q) visited =
     (if goal i then path
      else (case path_visit (node_neighbours g i) path visited q of
              (visited', q') \<Rightarrow> path_bfs g goal q' visited'))"
  by pat_completeness auto

termination
proof (relation "measure (\<lambda>(g, goal, q, vis). card (fst ` set (cnodes g) - set vis) + length q)")
  fix g and goal :: "u64 \<Rightarrow> bool" and i path q vis vis' q'
  assume "(vis', q') = path_visit (node_neighbours g i) path vis q"
  from visit_measure[OF path_visit_visit[OF this[symmetric]] node_neighbours_nodes]
  show "((g, goal, q', vis'), g, goal, (i, path) # q, vis) \<in>
      measure (\<lambda>(g, goal, q, vis). card (fst ` set (cnodes g) - set vis) + length q)" by simp
qed simp

definition findPath :: "u64 \<Rightarrow> u64 \<Rightarrow> cables \<Rightarrow> u64 list" where
  "findPath src dst g =
     (if src = 0 \<or> dst = 0 then [] else path_bfs g (\<lambda>i. i = dst) [(src, [src])] [src])"

text \<open>The search of \<open>tick\<close> for a packet without a target: the nearest cable next to any machine.\<close>

definition machine_adjacent :: "cables \<Rightarrow> u64 \<Rightarrow> bool" where
  "machine_adjacent g i \<longleftrightarrow> um_find (cnodes g) i \<noteq> None \<and> i \<in> snd ` set (machineToCable g)"

definition nearest_machine_path :: "u64 \<Rightarrow> cables \<Rightarrow> u64 list" where
  "nearest_machine_path src g = path_bfs g (machine_adjacent g) [(src, [src])] [src]"

section \<open>The packet tick\<close>

definition injectPacket :: "energy_packet \<Rightarrow> u64 \<Rightarrow> cables \<Rightarrow> cables" where
  "injectPacket p start = cmodify start (\<lambda>n. n\<lparr>packetsIn := packetsIn n @ [p]\<rparr>)"

definition collectPackets :: "u64 \<Rightarrow> cables \<Rightarrow> cables \<times> energy_packet list" where
  "collectPackets mach g =
     (case um_find (machineToCable g) mach of
        None \<Rightarrow> (g, [])
      | Some c \<Rightarrow>
          (case um_find (cnodes g) c of
             None \<Rightarrow> (g, [])
           | Some n \<Rightarrow> (cmodify c (\<lambda>n. n\<lparr>packetsOut := []\<rparr>) g, packetsOut n)))"

fun hops :: "energy_packet \<Rightarrow> u64 \<Rightarrow> u64 list \<Rightarrow> cables \<Rightarrow> cables" where
  "hops p cur [] g = g"
| "hops p cur (nxt # rest) g =
     (case (um_find (cnodes g) cur, um_find (cnodes g) nxt) of
        (Some c, Some n) \<Rightarrow>
          let g1 = (if voltage p > maxSeenVoltage n then cmodify nxt (\<lambda>n. n\<lparr>maxSeenVoltage := voltage p\<rparr>) g else g)
          in if voltage p > maxVoltage n then hops p cur rest g1
             else
               let eff = effectiveVoltage 1 (lossPerBlock c) (fl (uint (voltage p)))
               in if eff \<le> 0 then hops p cur rest g1
                  else
                    let p' = p\<lparr>voltage := word_of_int eff\<rparr>;
                        g2 = cmodify cur (\<lambda>n. n\<lparr>packetsThisTick := packetsThisTick n + 1\<rparr>) g1
                    in if packetsThisTick c + 1 > ampacity c then hops p' cur rest g2
                       else hops p' nxt rest (cmodify nxt (\<lambda>n. n\<lparr>packetsOut := packetsOut n @ [p']\<rparr>) g2)
      | _ \<Rightarrow> hops p cur rest g)"

definition route_packet :: "u64 \<Rightarrow> energy_packet \<Rightarrow> cables \<Rightarrow> cables" where
  "route_packet nodeId p g =
     (let path = (if targetId p = 0 then nearest_machine_path nodeId g
                  else (case um_find (machineToCable g) (targetId p) of
                          None \<Rightarrow> []
                        | Some c \<Rightarrow> findPath nodeId c g))
      in (case path of [] \<Rightarrow> g | first # rest \<Rightarrow> hops p first rest g))"

definition tick_cable :: "u64 \<Rightarrow> cables \<Rightarrow> cables" where
  "tick_cable nodeId g =
     (case um_find (cnodes g) nodeId of
        None \<Rightarrow> g
      | Some n \<Rightarrow> fold (route_packet nodeId) (packetsIn n) (cmodify nodeId (\<lambda>n. n\<lparr>packetsIn := []\<rparr>) g))"

definition OVERHEAT_THRESHOLD :: int where "OVERHEAT_THRESHOLD = 100"
definition HEAT_SPIKE_PER_VOLT_OVER :: int where "HEAT_SPIKE_PER_VOLT_OVER = 50"
definition HEAT_PER_EXTRA_PACKET :: int where "HEAT_PER_EXTRA_PACKET = 1"
definition COOLDOWN_PER_TICK :: int where "COOLDOWN_PER_TICK = 2"

definition calculateOverheat :: "u32 \<Rightarrow> u32 \<Rightarrow> i32 \<Rightarrow> u32 \<Rightarrow> int \<Rightarrow> bool \<times> int" where
  "calculateOverheat volts maxv packets amps temp0 =
     (let t1 = (if volts > maxv then fl (temp0 + fl (fl (uint (volts - maxv)) * HEAT_SPIKE_PER_VOLT_OVER)) else temp0);
          t2 = (if sint packets > sint amps
                then fl (t1 + fl (fl (sint packets - sint amps) * HEAT_PER_EXTRA_PACKET)) else t1);
          t3 = max 0 (fl (t2 - COOLDOWN_PER_TICK))
      in (t3 \<ge> OVERHEAT_THRESHOLD, t3))"

definition node_overheat :: "cable_node \<Rightarrow> bool \<times> int" where
  "node_overheat n = calculateOverheat (maxSeenVoltage n) (maxVoltage n) (packetsThisTick n) (ampacity n) (temperature n)"

definition heat_all :: "cables \<Rightarrow> cables" where
  "heat_all g =
     g\<lparr>cnodes := map (\<lambda>(i, n). (i, n\<lparr>temperature := snd (node_overheat n)\<rparr>)) (cnodes g),
       explodedThisTick := explodedThisTick g @
         map (\<lambda>(i, n). \<lparr>ex_node = cn_id n, ex_x = cn_x n, ex_y = cn_y n, ex_z = cn_z n, ex_temp = snd (node_overheat n)\<rparr>)
           (filter (\<lambda>(i, n). fst (node_overheat n)) (cnodes g))\<rparr>"

definition processOverheat :: "cables \<Rightarrow> cables" where
  "processOverheat g =
     (let g1 = heat_all g in fold (\<lambda>e. removeCableNode (ex_node e)) (explodedThisTick g1) g1)"

definition tick_begin :: "cables \<Rightarrow> cables" where
  "tick_begin g =
     g\<lparr>explodedThisTick := [],
       cnodes := map (\<lambda>(i, n). (i, n\<lparr>packetsThisTick := 0, maxSeenVoltage := 0\<rparr>)) (cnodes g)\<rparr>"

definition tick :: "cables \<Rightarrow> cables" where
  "tick g =
     (let g1 = tick_begin g in processOverheat (fold tick_cable (concat (cableNetworks g1)) g1))"

end
