(* ===== verification/CableProps.thy ===== *)
theory CableProps
  imports CableGraph
begin

text \<open>
  What the cable graph does: the path search finds a path exactly when there is one, the tick leaves no
  node at or above the overheating threshold, and energy packets do not get through cables with the
  losses of \<open>CABLE_DEFS\<close>.
\<close>

section \<open>Rounding\<close>

lemma excess_small: "a < 2 ^ 24 \<Longrightarrow> excess_bits a = 0"
  by (subst excess_bits.simps) simp

lemma excess_large: "2 ^ 24 \<le> a \<Longrightarrow> 2 ^ 23 \<le> a div 2 ^ excess_bits a"
proof (induction a rule: excess_bits.induct)
  case (1 a)
  then have rec: "excess_bits a = Suc (excess_bits (a div 2))" by (subst excess_bits.simps) simp
  show ?case
  proof (cases "2 ^ 24 \<le> a div 2")
    case True
    then have "2 ^ 23 \<le> a div 2 div 2 ^ excess_bits (a div 2)" using 1 by simp
    then show ?thesis unfolding rec by (simp add: zdiv_zmult2_eq)
  next
    case False
    then have "excess_bits (a div 2) = 0" by (intro excess_small) simp
    then show ?thesis unfolding rec using "1.prems" by simp
  qed
qed

lemma fl_small: "\<bar>x\<bar> < 2 ^ 24 \<Longrightarrow> fl x = x"
  by (simp add: fl_def excess_small sgn_mult_abs)

lemma fl_nonpos: "x \<le> 0 \<Longrightarrow> fl x \<le> 0"
  by (cases "x = 0") (auto simp: fl_def Let_def mult_le_0_iff pos_imp_zdiv_nonneg_iff intro!: add_nonneg_nonneg)

lemma fl_ge:
  assumes "c \<le> x" "0 \<le> c" "c < 2 ^ 24"
  shows "c \<le> fl x"
proof (cases "x < 2 ^ 24")
  case True
  then have "fl x = x" using assms by (intro fl_small) simp
  then show ?thesis using assms(1) by simp
next
  case False
  define e where "e = excess_bits \<bar>x\<bar>"
  define q where "q = \<bar>x\<bar> div 2 ^ e"
  have big: "2 ^ 24 \<le> \<bar>x\<bar>" using False by simp
  have "e \<noteq> 0" using excess_bits.simps[of "\<bar>x\<bar>"] big by (simp add: e_def)
  have q: "2 ^ 23 \<le> q" using excess_large[OF big] by (simp add: e_def q_def)
  have "(2 :: int) ^ 24 = 2 ^ 23 * 2 ^ 1" by simp
  also have "\<dots> \<le> q * 2 ^ e"
    using q \<open>e \<noteq> 0\<close> by (intro mult_mono power_increasing) auto
  also have "\<dots> \<le> fl x"
    unfolding fl_def Let_def e_def[symmetric] q_def[symmetric] using False q by auto
  finally show ?thesis using assms(3) by simp
qed

section \<open>Path search\<close>

text \<open>A path of adjacent cables from \<open>a\<close> to \<open>b\<close> that visits no cable twice.\<close>

definition cable_path :: "cables \<Rightarrow> u64 \<Rightarrow> u64 \<Rightarrow> u64 list \<Rightarrow> bool" where
  "cable_path g a b p \<longleftrightarrow> p \<noteq> [] \<and> hd p = a \<and> last p = b \<and> distinct p \<and>
     successively (\<lambda>x y. y \<in> set (node_neighbours g x)) p"

definition cable_reaches :: "cables \<Rightarrow> u64 \<Rightarrow> u64 \<Rightarrow> bool" where
  "cable_reaches g = (\<lambda>x y. y \<in> set (node_neighbours g x))\<^sup>*\<^sup>*"

lemma cable_path_snoc:
  assumes "cable_path g a b p" "c \<in> set (node_neighbours g b)" "c \<notin> set p"
  shows "cable_path g a c (p @ [c])"
  using assms by (auto simp: cable_path_def successively_append_iff)

lemma path_visit_props:
  assumes "path_visit nbs cur vis q = (vis', q')"
  shows "set vis' = set vis \<union> set nbs \<and> set q \<subseteq> set q' \<and>
    set q' \<subseteq> set q \<union> {(n, cur @ [n]) | n. n \<in> set nbs \<and> n \<notin> set vis} \<and> set vis' \<subseteq> set vis \<union> fst ` set q'"
  using assms
proof (induction nbs arbitrary: vis q)
  case (Cons n nbs)
  show ?case
  proof (cases "n \<in> set vis")
    case True
    then have "path_visit nbs cur vis q = (vis', q')" using Cons.prems by simp
    from Cons.IH[OF this] show ?thesis using True by auto
  next
    case False
    then have "path_visit nbs cur (n # vis) (q @ [(n, cur @ [n])]) = (vis', q')" using Cons.prems by simp
    note ih = Cons.IH[OF this]
    then have "(n, cur @ [n]) \<in> set q'" by auto
    then have n: "n \<in> fst ` set q'" by force
    have "set q' \<subseteq> set q \<union> {(m, cur @ [m]) | m. m \<in> set (n # nbs) \<and> m \<notin> set vis}"
    proof
      fix x assume "x \<in> set q'"
      then have "x \<in> set q \<or> x = (n, cur @ [n]) \<or> (\<exists>m. x = (m, cur @ [m]) \<and> m \<in> set nbs \<and> m \<notin> set (n # vis))"
        using ih by auto
      then show "x \<in> set q \<union> {(m, cur @ [m]) | m. m \<in> set (n # nbs) \<and> m \<notin> set vis}" using False by auto
    qed
    then show ?thesis using ih n by auto
  qed
qed simp

lemma path_bfs_spec:
  assumes "\<forall>(i, p) \<in> set q. cable_path g a i p \<and> set p \<subseteq> set vis" "set (map fst q) \<subseteq> set vis"
    "\<forall>v \<in> set vis. v \<in> fst ` set q \<or> (\<not> goal v \<and> set (node_neighbours g v) \<subseteq> set vis)" "a \<in> set vis"
  shows "(\<exists>b. goal b \<and> cable_path g a b (path_bfs g goal q vis)) \<or>
    (path_bfs g goal q vis = [] \<and> (\<forall>b. cable_reaches g a b \<longrightarrow> \<not> goal b))"
  using assms
proof (induction g goal q vis rule: path_bfs.induct)
  case (1 g goal vis)
  have "b \<in> set vis" if "cable_reaches g a b" for b
    using that "1.prems" unfolding cable_reaches_def by (induction rule: rtranclp_induct) auto
  then show ?case using "1.prems" by auto
next
  case (2 g goal i path q vis)
  show ?case
  proof (cases "goal i")
    case True
    then show ?thesis using "2.prems"(1) by auto
  next
    case False
    obtain vis' q' where v: "path_visit (node_neighbours g i) path vis q = (vis', q')" by force
    note pv = path_visit_props[OF v]
    have "\<forall>(j, p) \<in> set q'. cable_path g a j p \<and> set p \<subseteq> set vis'"
    proof safe
      fix j p assume "(j, p) \<in> set q'"
      then consider "(j, p) \<in> set q" | "p = path @ [j]" "j \<in> set (node_neighbours g i)" "j \<notin> set vis" using pv by blast
      then have "cable_path g a j p \<and> set p \<subseteq> set vis'"
      proof cases
        case 1
        then show ?thesis using pv "2.prems"(1) by auto
      next
        case 2
        have "cable_path g a i path" "set path \<subseteq> set vis" using "2.prems"(1) by auto
        then show ?thesis using 2 pv cable_path_snoc[of g a i path j] by auto
      qed
      then show "cable_path g a j p" and "x \<in> set p \<Longrightarrow> x \<in> set vis'" for x by auto
    qed
    moreover have "set (map fst q') \<subseteq> set vis'"
    proof
      fix x assume "x \<in> set (map fst q')"
      then obtain p where "(x, p) \<in> set q'" by auto
      then have "(x, p) \<in> set q \<or> x \<in> set (node_neighbours g i)" using pv by auto
      then show "x \<in> set vis'" using pv "2.prems"(2) by force
    qed
    moreover have "v \<in> fst ` set q' \<or> (\<not> goal v \<and> set (node_neighbours g v) \<subseteq> set vis')" if "v \<in> set vis'" for v
    proof (cases "v \<in> set vis")
      case True
      then consider "v = i" | "v \<in> fst ` set q" | "\<not> goal v" "set (node_neighbours g v) \<subseteq> set vis"
        using "2.prems"(3) by auto
      then show ?thesis using pv False by cases auto
    qed (use pv that in auto)
    moreover have "a \<in> set vis'" using pv "2.prems"(4) by auto
    ultimately show ?thesis using "2.IH"[OF False v[symmetric]] False v by simp
  qed
qed

text \<open>C26: the path search of the cable graph is correct and complete: between two cables it returns a path along open,
  adjacent faces that visits no cable twice if there is one, and the empty path otherwise. The id 0 stands for no
  cable, and a search from or to it returns the empty path.\<close>

theorem findPath_correct:
  "if src \<noteq> 0 \<and> dst \<noteq> 0 \<and> cable_reaches g src dst then cable_path g src dst (findPath src dst g) else findPath src dst g = []"
proof -
  have "(\<exists>b. b = dst \<and> cable_path g src b (path_bfs g (\<lambda>i. i = dst) [(src, [src])] [src])) \<or>
      (path_bfs g (\<lambda>i. i = dst) [(src, [src])] [src] = [] \<and> (\<forall>b. cable_reaches g src b \<longrightarrow> b \<noteq> dst))"
    by (rule path_bfs_spec) (auto simp: cable_path_def)
  moreover have "cable_reaches g src dst" if "cable_path g src dst p" for p
  proof -
    have "cable_reaches g (hd p) (last p)" if "p \<noteq> []" "successively (\<lambda>x y. y \<in> set (node_neighbours g x)) p" for p
      using that unfolding cable_reaches_def
      by (induction p rule: induct_list012) (auto intro: converse_rtranclp_into_rtranclp)
    then show ?thesis using that unfolding cable_path_def by blast
  qed
  ultimately show ?thesis unfolding findPath_def by auto
qed

definition tin_cable :: cable_def where
  "tin_cable = CABLE_DEFS ! 0"

definition cable_line :: "cable_def \<Rightarrow> cables" where
  "cable_line d = rebuildGraph (addCableNode 3 d 2 64 0 0 (addCableNode 2 d 1 64 0 0 (addCableNode 1 d 0 64 0 0 cables_new)))"

section \<open>The tick changes nodes in place\<close>

text \<open>What the routing of packets never changes: the node ids, the indices, the machines.\<close>

definition cable_shape where
  "cable_shape g = (map (\<lambda>(i, n). (i, cn_id n)) (cnodes g), posToNode g, cableNetworks g, generatorToCable g,
     machineToCable g, explodedThisTick g)"

lemma shape_cmodify:
  assumes "\<And>n. cn_id (f n) = cn_id n"
  shows "cable_shape (cmodify i f g) = cable_shape g"
proof (cases "um_find (cnodes g) i")
  case (Some n)
  have "um_find ns i = Some n \<Longrightarrow> map (\<lambda>(i, n). (i, cn_id n)) (um_put i (f n) ns) = map (\<lambda>(i, n). (i, cn_id n)) ns" for ns
    using assms by (induction ns) (auto split: if_splits)
  from this[OF Some] show ?thesis by (simp add: cable_shape_def cmodify_def Some)
qed (simp add: cmodify_def)

lemma cmodify_set:
  assumes "(j, m) \<in> set (cnodes (cmodify i f g))"
  shows "(j, m) \<in> set (cnodes g) \<or> (\<exists>n. (i, n) \<in> set (cnodes g) \<and> j = i \<and> m = f n)"
  using assms um_put_set[of i _ "cnodes g"] by (auto simp: cmodify_def dest: map_of_SomeD split: option.splits)

lemma hops_shape: "cable_shape (hops p cur rest g) = cable_shape g"
  by (induction p cur rest g rule: hops.induct) (auto simp: Let_def shape_cmodify split: option.splits)

lemma route_shape: "cable_shape (route_packet i p g) = cable_shape g"
  by (auto simp: route_packet_def Let_def hops_shape split: list.splits option.splits)

lemma fold_route_shape: "cable_shape (fold (route_packet i) ps g) = cable_shape g"
  by (induction ps arbitrary: g) (simp_all add: route_shape)

lemma tick_cable_shape: "cable_shape (tick_cable i g) = cable_shape g"
  by (simp add: tick_cable_def fold_route_shape shape_cmodify split: option.splits)

lemma tick_cables_shape: "cable_shape (fold tick_cable is g) = cable_shape g"
  by (induction "is" arbitrary: g) (simp_all add: tick_cable_shape)

definition cables_ok :: "cables \<Rightarrow> bool" where
  "cables_ok g \<longleftrightarrow> um_wf (cnodes g) \<and> (\<forall>(i, n) \<in> set (cnodes g). cn_id n = i)"

lemma cables_ok_shape: "cable_shape g = cable_shape h \<Longrightarrow> cables_ok h \<Longrightarrow> cables_ok g"
proof -
  assume eq: "cable_shape g = cable_shape h" and ok: "cables_ok h"
  have m: "map (\<lambda>(i, n). (i, cn_id n)) (cnodes g) = map (\<lambda>(i, n). (i, cn_id n)) (cnodes h)"
    using eq by (simp add: cable_shape_def)
  then have "map fst (map (\<lambda>(i, n). (i, cn_id n)) (cnodes g)) = map fst (map (\<lambda>(i, n). (i, cn_id n)) (cnodes h))"
    by simp
  then have wf: "um_wf (cnodes g)" using ok by (simp add: cables_ok_def um_wf_def case_prod_beta o_def)
  have "cn_id n = i" if "(i, n) \<in> set (cnodes g)" for i n
  proof -
    have "(i, cn_id n) \<in> set (map (\<lambda>(i, n). (i, cn_id n)) (cnodes g))" using that by force
    then show ?thesis unfolding m using ok by (auto simp: cables_ok_def)
  qed
  then show ?thesis using wf by (auto simp: cables_ok_def)
qed

section \<open>Overheating\<close>

lemma remove_nodes: "set (cnodes (removeCableNode i g)) = {(j, n) \<in> set (cnodes g). j \<noteq> i}"
proof (cases "um_find (cnodes g) i")
  case None
  then have "i \<notin> fst ` set (cnodes g)" by (simp add: map_of_eq_None_iff)
  then show ?thesis using None by (force simp: removeCableNode_def)
qed (auto simp: removeCableNode_def rebuildGraph_def AList.delete_eq)

lemma fold_remove_nodes:
  "set (cnodes (fold (\<lambda>e. removeCableNode (ex_node e)) es g)) = {(j, n) \<in> set (cnodes g). j \<notin> ex_node ` set es}"
  by (induction es arbitrary: g) (auto simp: remove_nodes)

lemma remove_exploded: "explodedThisTick (removeCableNode i g) = explodedThisTick g"
  by (simp add: removeCableNode_def rebuildGraph_def split: option.splits)

lemma fold_remove_exploded:
  "explodedThisTick (fold (\<lambda>e. removeCableNode (ex_node e)) es g) = explodedThisTick g"
  by (induction es arbitrary: g) (simp_all add: remove_exploded)

lemma overheat_range: "0 \<le> snd (node_overheat n) \<and> (fst (node_overheat n) \<longleftrightarrow> 100 \<le> snd (node_overheat n))"
  by (simp add: node_overheat_def calculateOverheat_def Let_def OVERHEAT_THRESHOLD_def)

lemma processOverheat_spec:
  assumes ok: "cables_ok g" and none: "explodedThisTick g = []"
  shows "(\<forall>(i, n) \<in> set (cnodes (processOverheat g)). 0 \<le> temperature n \<and> temperature n < 100) \<and>
    (\<forall>i. hasCableNode i g \<longrightarrow>
       (hasCableNode i (processOverheat g) \<longleftrightarrow> i \<notin> ex_node ` set (explodedThisTick (processOverheat g))))"
proof -
  define h where "h = heat_all g"
  have keys: "cn_id n = i" if "(i, n) \<in> set (cnodes g)" for i n using that ok by (auto simp: cables_ok_def)
  have h: "set (cnodes h) = (\<lambda>(i, n). (i, n\<lparr>temperature := snd (node_overheat n)\<rparr>)) ` set (cnodes g)"
    by (simp add: h_def heat_all_def)
  have ex: "ex_node ` set (explodedThisTick h) = {i. \<exists>n. (i, n) \<in> set (cnodes g) \<and> fst (node_overheat n)}"
    using none keys by (force simp: h_def heat_all_def image_iff)
  have res: "set (cnodes (processOverheat g)) = {(j, n) \<in> set (cnodes h). j \<notin> ex_node ` set (explodedThisTick h)}"
    "explodedThisTick (processOverheat g) = explodedThisTick h"
    by (simp_all add: processOverheat_def Let_def h_def[symmetric] fold_remove_nodes fold_remove_exploded)
  have cool: "0 \<le> temperature n \<and> temperature n < 100" if mem: "(i, n) \<in> set (cnodes (processOverheat g))" for i n
  proof -
    obtain m where m: "(i, m) \<in> set (cnodes g)" "n = m\<lparr>temperature := snd (node_overheat m)\<rparr>"
    proof -
      have "(i, n) \<in> set (cnodes h)" using mem by (simp add: res(1))
      then show ?thesis unfolding h by (auto intro: that)
    qed
    have "i \<notin> ex_node ` set (explodedThisTick h)" using mem res(1) by auto
    then have "\<not> fst (node_overheat m)" using m(1) ex by blast
    then show ?thesis using overheat_range[of m] m(2) by simp
  qed
  have "hasCableNode i (processOverheat g) \<longleftrightarrow> i \<notin> ex_node ` set (explodedThisTick h)" if "hasCableNode i g" for i
  proof -
    have "i \<in> fst ` set (cnodes h)" using that by (force simp: hasCableNode_def map_of_eq_None_iff h image_iff)
    then show ?thesis by (force simp: hasCableNode_def map_of_eq_None_iff res(1))
  qed
  then show ?thesis using cool res(2) by auto
qed

text \<open>C6: after a tick of the cable graph no node is at or above the overheating threshold, no temperature
  is negative, and of the nodes present before exactly those reported as exploded are gone.\<close>

theorem tick_never_hot:
  assumes "cables_ok g"
  shows "(\<forall>(i, n) \<in> set (cnodes (tick g)). 0 \<le> temperature n \<and> temperature n < 100) \<and>
    (\<forall>i. hasCableNode i g \<longrightarrow> (hasCableNode i (tick g) \<longleftrightarrow> i \<notin> ex_node ` set (explodedThisTick (tick g))))"
proof -
  define g1 where "g1 = tick_begin g"
  define g2 where "g2 = fold tick_cable (concat (cableNetworks g1)) g1"
  have ok1: "cables_ok g1"
    using assms by (auto simp: cables_ok_def g1_def tick_begin_def um_wf_def case_prod_beta o_def)
  have shape: "cable_shape g2 = cable_shape g1" unfolding g2_def by (rule tick_cables_shape)
  have ok2: "cables_ok g2" using shape ok1 by (rule cables_ok_shape)
  have none: "explodedThisTick g2 = []" using shape by (simp add: cable_shape_def g1_def tick_begin_def)
  have "map fst (map (\<lambda>(i, n). (i, cn_id n)) (cnodes g2)) = map fst (map (\<lambda>(i, n). (i, cn_id n)) (cnodes g1))"
    using shape by (simp add: cable_shape_def)
  then have "map fst (cnodes g2) = map fst (cnodes g)"
    by (simp add: case_prod_beta o_def g1_def tick_begin_def)
  then have "fst ` set (cnodes g2) = fst ` set (cnodes g)" by (metis list.set_map)
  then have "hasCableNode i g2 \<longleftrightarrow> hasCableNode i g" for i by (simp add: hasCableNode_def map_of_eq_None_iff)
  moreover have "tick g = processOverheat g2" by (simp add: tick_def Let_def g1_def g2_def)
  ultimately show ?thesis using processOverheat_spec[OF ok2 none] by simp
qed

definition hot_line :: cables where
  "hot_line = injectPacket \<lparr>voltage = 1000, ampCount = 1, sourceId = 9, targetId = 0, tickIssued = 0\<rparr> 1
     (case registerMachine 50 3 64 0 0 (cable_line tin_cable) of Some g \<Rightarrow> g | None \<Rightarrow> cables_new)"

lemma hot_line_ok: "cables_ok hot_line"
  by code_simp

theorem tick_never_hot_witness:
  "list_all (\<lambda>(i, n). 0 \<le> temperature n \<and> temperature n < 100) (cnodes (tick hot_line)) \<and>
   hasCableNode 1 (tick hot_line) = (1 \<notin> ex_node ` set (explodedThisTick (tick hot_line)))"
proof -
  have "hasCableNode 1 hot_line" by code_simp
  then show ?thesis using tick_never_hot[OF hot_line_ok] by (simp add: list_all_iff)
qed

text \<open>A node at rest that carries at most its ampacity explodes in one tick exactly when it saw a
  voltage at least three volts above its rating; within its rating it cools by two degrees.\<close>

theorem overheat_threshold:
  assumes "sint packets \<le> sint amps"
  shows "(fst (calculateOverheat volts maxv packets amps 0) \<longleftrightarrow> uint volts \<ge> uint maxv + 3) \<and>
    (volts \<le> maxv \<and> 0 \<le> t \<and> t < 100 \<longrightarrow> calculateOverheat volts maxv packets amps t = (False, max 0 (t - 2)))"
proof (intro conjI impI)
  have small: "fl (t - 2) = t - 2" if "0 \<le> t" "t < 100" for t
    using that by (intro fl_small) simp
  show "volts \<le> maxv \<and> 0 \<le> t \<and> t < 100 \<Longrightarrow> calculateOverheat volts maxv packets amps t = (False, max 0 (t - 2))"
    using assms small[of t] leD[of volts maxv] by (auto simp: calculateOverheat_def Let_def COOLDOWN_PER_TICK_def OVERHEAT_THRESHOLD_def not_less)
  define d where "d = uint volts - uint maxv"
  show "fst (calculateOverheat volts maxv packets amps 0) \<longleftrightarrow> uint volts \<ge> uint maxv + 3"
  proof (cases "volts > maxv")
    case False
    then have "uint volts \<le> uint maxv" by (simp add: word_le_def not_less)
    then show ?thesis
      using assms False fl_small[of "- 2"]
      by (simp add: calculateOverheat_def Let_def COOLDOWN_PER_TICK_def OVERHEAT_THRESHOLD_def not_less)
  next
    case True
    then have d: "1 \<le> d" by (simp add: d_def word_less_def)
    have sub: "uint (volts - maxv) = d" using True by (simp add: d_def uint_sub_if' word_less_def)
    define h where "h = fl (fl (fl d * 50))"
    have res: "fst (calculateOverheat volts maxv packets amps 0) \<longleftrightarrow> 100 \<le> max 0 (fl (h - 2))"
      using assms True
      by (simp add: calculateOverheat_def Let_def sub h_def HEAT_SPIKE_PER_VOLT_OVER_def COOLDOWN_PER_TICK_def OVERHEAT_THRESHOLD_def not_less)
    show ?thesis
    proof (cases "3 \<le> d")
      case big: True
      have "3 \<le> fl d" by (rule fl_ge) (use big in simp_all)
      then have "150 \<le> fl (fl d * 50)" by (intro fl_ge) simp_all
      then have "150 \<le> h" unfolding h_def by (rule fl_ge) simp_all
      then have "148 \<le> fl (h - 2)" by (intro fl_ge) simp_all
      then show ?thesis using res big by (simp add: d_def)
    next
      case False
      then have "d = 1 \<or> d = 2" using d by auto
      then have "h = 50 * d" using fl_small[of d] fl_small[of "d * 50"] by (auto simp: h_def)
      then have "fl (h - 2) < 100" using fl_small[of "h - 2"] \<open>d = 1 \<or> d = 2\<close> by auto
      then show ?thesis using res False by (auto simp: d_def)
    qed
  qed
qed

theorem overheat_threshold_witness:
  "fst (calculateOverheat 35 32 1 32 0) \<and> calculateOverheat 32 32 1 32 50 = (False, 48)"
  using overheat_threshold[of 1 32 35 32] overheat_threshold[of 1 32 32 32 50] by simp

section \<open>What gets through\<close>

lemma cmodify_find:
  "um_find (cnodes (cmodify i f g)) j = (if j = i then map_option f (um_find (cnodes g) i) else um_find (cnodes g) j)"
  by (auto simp: cmodify_def um_simps split: option.splits)

definition carries :: "u32 \<Rightarrow> cable_node \<Rightarrow> bool" where
  "carries v n \<longleftrightarrow> v \<le> maxVoltage n \<and> lossPerBlock n = 0 \<and> packetsThisTick n < ampacity n"

lemma effective_lossless:
  assumes "0 < v" "v < 2 ^ 24"
  shows "effectiveVoltage 1 0 (fl v) = v"
  using assms fl_small[of v] fl_small[of 0] by (simp add: effectiveVoltage_def cableEnergyLoss_def)

lemma ampacity_room: "(a :: u32) < b \<Longrightarrow> \<not> a + 1 > b"
  by (metis inc_le linorder_not_less)

lemma cmodify_out:
  assumes "\<And>n. packetsOut (f n) = packetsOut n"
  shows "map_option packetsOut (um_find (cnodes (cmodify j f g)) i) = map_option packetsOut (um_find (cnodes g) i)"
  by (simp add: cmodify_find option.map_comp o_def assms)

lemma hops_out_away:
  "i \<notin> set rest \<Longrightarrow>
   map_option packetsOut (um_find (cnodes (hops p cur rest g)) i) = map_option packetsOut (um_find (cnodes g) i)"
proof (induction p cur rest g rule: hops.induct)
  case (2 p cur nxt rest g)
  have other: "um_find (cnodes (cmodify nxt f h)) i = um_find (cnodes h) i" for f h
    using "2.prems" by (simp add: cmodify_find)
  show ?case
    using 2 by (auto simp: Let_def other cmodify_out split: option.splits)
qed simp

lemma hops_copies:
  assumes "distinct (cur # rest)" "0 < uint (voltage p)" "uint (voltage p) < 2 ^ 24"
    "\<forall>i \<in> set (cur # rest). \<exists>n. um_find (cnodes g) i = Some n \<and> carries (voltage p) n"
    "i \<in> set rest" "um_find (cnodes g) i = Some n"
  shows "\<exists>n'. um_find (cnodes (hops p cur rest g)) i = Some n' \<and> packetsOut n' = packetsOut n @ [p]"
  using assms
proof (induction rest arbitrary: cur g n)
  case (Cons nxt rest)
  obtain c nn where c: "um_find (cnodes g) cur = Some c" "carries (voltage p) c"
    and nn: "um_find (cnodes g) nxt = Some nn" "carries (voltage p) nn" using Cons.prems(4) by auto
  have same: "p\<lparr>voltage := word_of_int (uint (voltage p))\<rparr> = p" by simp
  define g1 where "g1 = (if voltage p > maxSeenVoltage nn then cmodify nxt (\<lambda>n. n\<lparr>maxSeenVoltage := voltage p\<rparr>) g else g)"
  define g2 where "g2 = cmodify cur (\<lambda>n. n\<lparr>packetsThisTick := packetsThisTick n + 1\<rparr>) g1"
  define g3 where "g3 = cmodify nxt (\<lambda>n. n\<lparr>packetsOut := packetsOut n @ [p]\<rparr>) g2"
  have step: "hops p cur (nxt # rest) g = hops p nxt rest g3"
    using c nn ampacity_room[of "packetsThisTick c" "ampacity c"] effective_lossless[OF Cons.prems(2,3)] Cons.prems(2) same
    by (simp add: carries_def Let_def g1_def[symmetric] g2_def[symmetric] g3_def[symmetric] leD)
  have away: "um_find (cnodes g3) j = um_find (cnodes g) j" if "j \<noteq> cur" "j \<noteq> nxt" for j
    using that by (simp add: g3_def g2_def g1_def cmodify_find)
  have here: "\<exists>n3. um_find (cnodes g3) nxt = Some n3 \<and> packetsOut n3 = packetsOut nn @ [p] \<and> carries (voltage p) n3"
    using Cons.prems(1) nn by (auto simp: g3_def g2_def g1_def cmodify_find carries_def)
  show ?case
  proof (cases "i = nxt")
    case True
    have "map_option packetsOut (um_find (cnodes (hops p nxt rest g3)) nxt) = map_option packetsOut (um_find (cnodes g3) nxt)"
      using Cons.prems(1) by (intro hops_out_away) simp
    then show ?thesis using here True Cons.prems(6) nn(1) unfolding step by auto
  next
    case False
    then have "i \<in> set rest" "i \<noteq> cur" using Cons.prems(1,5) by auto
    have all: "\<forall>j \<in> set (nxt # rest). \<exists>n. um_find (cnodes g3) j = Some n \<and> carries (voltage p) n"
    proof
      fix j assume j: "j \<in> set (nxt # rest)"
      show "\<exists>n. um_find (cnodes g3) j = Some n \<and> carries (voltage p) n"
      proof (cases "j = nxt")
        case False
        then have "j \<in> set rest" "j \<noteq> cur" using j Cons.prems(1) by auto
        then show ?thesis using away[of j] False Cons.prems(4) by auto
      qed (use here in auto)
    qed
    show ?thesis unfolding step
      by (rule Cons.IH[OF _ Cons.prems(2,3) all]) (use Cons.prems False \<open>i \<in> set rest\<close> \<open>i \<noteq> cur\<close> away in auto)
  qed
qed simp

text \<open>On a lossless path whose cables carry the packet, every cable after the first receives its own
  copy of the packet, so a machine next to any of them can collect it and the energy is multiplied
  by the length of the path; a packet whose path is a single cable, as between a generator and a
  machine at the same cable, is not delivered at all.\<close>

theorem packet_copied_or_lost:
  assumes "distinct (cur # rest)" "0 < uint (voltage p)" "uint (voltage p) < 2 ^ 24"
    "\<forall>i \<in> set (cur # rest). \<exists>n. um_find (cnodes g) i = Some n \<and> carries (voltage p) n"
  shows "(\<forall>i \<in> set rest. \<exists>n n'. um_find (cnodes g) i = Some n \<and>
      um_find (cnodes (hops p cur rest g)) i = Some n' \<and> packetsOut n' = packetsOut n @ [p]) \<and>
    hops p cur [] g = g"
proof -
  have "\<exists>n n'. um_find (cnodes g) i = Some n \<and> um_find (cnodes (hops p cur rest g)) i = Some n' \<and>
      packetsOut n' = packetsOut n @ [p]" if i: "i \<in> set rest" for i
  proof -
    obtain n where n: "um_find (cnodes g) i = Some n" using assms(4) i by auto
    from hops_copies[OF assms i n] n show ?thesis by blast
  qed
  then show ?thesis by simp
qed

definition silver :: cable_def where
  "silver = \<lparr>def_block = 1, def_tier = 1, def_name = ''superconductor'', def_loss = 0, def_max_voltage = 32, def_ampacity = 4\<rparr>"

definition spark :: energy_packet where
  "spark = \<lparr>voltage = 32, ampCount = 1, sourceId = 9, targetId = 50, tickIssued = 0\<rparr>"

theorem packet_copied_or_lost_witness:
  "(\<exists>n n'. um_find (cnodes (cable_line silver)) 2 = Some n \<and>
     um_find (cnodes (hops spark 1 [2, 3] (cable_line silver))) 2 = Some n' \<and> packetsOut n' = packetsOut n @ [spark]) \<and>
   (\<exists>n n'. um_find (cnodes (cable_line silver)) 3 = Some n \<and>
     um_find (cnodes (hops spark 1 [2, 3] (cable_line silver))) 3 = Some n' \<and> packetsOut n' = packetsOut n @ [spark])"
proof -
  have ok: "\<forall>i \<in> set [1, 2, 3]. \<exists>n. um_find (cnodes (cable_line silver)) i = Some n \<and> carries (voltage spark) n"
    by (simp add: cable_line_def rebuildGraph_def addCableNode_def cables_new_def silver_def spark_def carries_def)
  show ?thesis
    using packet_copied_or_lost[of 1 "[2, 3]" spark "cable_line silver"] ok by (simp add: spark_def)
qed

section \<open>The catalogue\<close>

definition lossy :: "cable_node \<Rightarrow> bool" where
  "lossy n \<longleftrightarrow> uint (maxVoltage n) \<le> 2048 \<and> 2048 \<le> lossPerBlock n \<and> packetsOut n = []"

definition dead :: "cables \<Rightarrow> bool" where
  "dead g \<longleftrightarrow> (\<forall>(i, n) \<in> set (cnodes g). lossy n)"

lemma dead_cmodify:
  assumes "dead g" "\<And>n. lossy n \<Longrightarrow> lossy (f n)"
  shows "dead (cmodify i f g)"
  using assms cmodify_set[of _ _ i f g] unfolding dead_def by fastforce

lemma dead_find: "dead g \<Longrightarrow> um_find (cnodes g) i = Some n \<Longrightarrow> lossy n"
  by (auto simp: dead_def dest: map_of_SomeD)

lemma eff_dead:
  assumes "lossy c" "lossy n" "v \<le> maxVoltage n"
  shows "effectiveVoltage 1 (lossPerBlock c) (fl (uint v)) \<le> 0"
proof -
  have v: "uint v \<le> 2048" using assms(2,3) by (simp add: lossy_def word_le_def)
  then have "fl (uint v) = uint v" by (intro fl_small) simp
  moreover have "2048 \<le> fl (lossPerBlock c)" using assms(1) by (intro fl_ge) (simp_all add: lossy_def)
  ultimately have "fl (fl (uint v) - fl (1 * lossPerBlock c)) \<le> 0" using v by (intro fl_nonpos) simp
  then show ?thesis by (simp add: effectiveVoltage_def cableEnergyLoss_def)
qed

lemma dead_hops: "dead g \<Longrightarrow> dead (hops p cur rest g)"
proof (induction rest arbitrary: g)
  case (Cons nxt rest)
  show ?case
  proof (cases "\<exists>c n. um_find (cnodes g) cur = Some c \<and> um_find (cnodes g) nxt = Some n")
    case True
    then obtain c n where cn: "um_find (cnodes g) cur = Some c" "um_find (cnodes g) nxt = Some n" by blast
    define g1 where "g1 = (if voltage p > maxSeenVoltage n then cmodify nxt (\<lambda>n. n\<lparr>maxSeenVoltage := voltage p\<rparr>) g else g)"
    have "dead g1" using Cons.prems by (auto simp: g1_def lossy_def intro!: dead_cmodify)
    moreover have "hops p cur (nxt # rest) g = hops p cur rest g1"
      using cn eff_dead[of c n "voltage p"] dead_find[OF Cons.prems cn(1)] dead_find[OF Cons.prems cn(2)]
      by (auto simp: Let_def g1_def[symmetric] not_less)
    ultimately show ?thesis using Cons.IH by simp
  next
    case False
    then have "hops p cur (nxt # rest) g = hops p cur rest g" by (auto split: option.splits)
    then show ?thesis using Cons by simp
  qed
qed simp

lemma dead_route: "dead g \<Longrightarrow> dead (route_packet i p g)"
  by (auto simp: route_packet_def Let_def dead_hops split: list.splits option.splits)

lemma dead_routes: "dead g \<Longrightarrow> dead (fold (route_packet i) ps g)"
  by (induction ps arbitrary: g) (simp_all add: dead_route)

lemma dead_tick_cable: "dead g \<Longrightarrow> dead (tick_cable i g)"
  by (auto simp: tick_cable_def lossy_def intro!: dead_routes dead_cmodify split: option.splits)

lemma dead_tick_cables: "dead g \<Longrightarrow> dead (fold tick_cable is g)"
  by (induction "is" arbitrary: g) (simp_all add: dead_tick_cable)

lemma dead_remove: "dead g \<Longrightarrow> dead (removeCableNode i g)"
  by (auto simp: dead_def remove_nodes)

lemma dead_removes: "dead g \<Longrightarrow> dead (fold (\<lambda>e. removeCableNode (ex_node e)) es g)"
  by (induction es arbitrary: g) (simp_all add: dead_remove)

lemma dead_tick: "dead g \<Longrightarrow> dead (tick g)"
proof -
  assume "dead g"
  then have "dead (tick_begin g)" by (auto simp: dead_def tick_begin_def lossy_def)
  then have "dead (fold tick_cable (concat (cableNetworks (tick_begin g))) (tick_begin g))" by (rule dead_tick_cables)
  moreover have "dead h \<Longrightarrow> dead (heat_all h)" for h by (auto simp: dead_def heat_all_def lossy_def)
  ultimately show ?thesis by (simp add: tick_def processOverheat_def Let_def dead_removes)
qed

text \<open>The operations on a graph whose cables come from \<open>CABLE_DEFS\<close>.\<close>

inductive catalogue_reachable :: "cables \<Rightarrow> bool" where
  new: "catalogue_reachable cables_new"
| add: "catalogue_reachable g \<Longrightarrow> d \<in> set CABLE_DEFS \<Longrightarrow> catalogue_reachable (addCableNode i d x y z mt g)"
| rebuild: "catalogue_reachable g \<Longrightarrow> catalogue_reachable (rebuildGraph g)"
| remove: "catalogue_reachable g \<Longrightarrow> catalogue_reachable (removeCableNode i g)"
| set_meta: "catalogue_reachable g \<Longrightarrow> catalogue_reachable (setCableMeta i mt g)"
| set_params: "catalogue_reachable g \<Longrightarrow> d \<in> set CABLE_DEFS \<Longrightarrow> catalogue_reachable (setCableParams i d g)"
| generator: "catalogue_reachable g \<Longrightarrow> registerGenerator e x y z t g = Some g' \<Longrightarrow> catalogue_reachable g'"
| machine: "catalogue_reachable g \<Longrightarrow> registerMachine e x y z t g = Some g' \<Longrightarrow> catalogue_reachable g'"
| inject: "catalogue_reachable g \<Longrightarrow> catalogue_reachable (injectPacket p i g)"
| collect: "catalogue_reachable g \<Longrightarrow> catalogue_reachable (fst (collectPackets e g))"
| tick: "catalogue_reachable g \<Longrightarrow> catalogue_reachable (tick g)"

lemma catalogue_lossy:
  assumes "d \<in> set CABLE_DEFS"
  shows "uint (def_max_voltage d) \<le> 2048 \<and> 2048 \<le> def_loss d"
  using assms by (auto simp: CABLE_DEFS_def cable_def_of_def)

lemma dead_rebuild: "dead (rebuildGraph g) = dead g"
  by (simp add: dead_def rebuildGraph_def)

lemma catalogue_dead: "catalogue_reachable g \<Longrightarrow> dead g"
proof (induction rule: catalogue_reachable.induct)
  case (add g d i x y z mt)
  then show ?case
    using um_put_set catalogue_lossy[OF add(2)] by (fastforce simp: dead_def addCableNode_def lossy_def)
next
  case (set_params g d i)
  then show ?case
    using catalogue_lossy by (auto simp: setCableParams_def lossy_def intro!: dead_cmodify)
next
  case (collect g e)
  then show ?case by (auto simp: collectPackets_def lossy_def intro!: dead_cmodify split: option.splits)
next
  case (generator g e x y z t g')
  then show ?case by (auto simp: registerGenerator_def dead_def split: if_splits)
next
  case (machine g e x y z t g')
  then show ?case by (auto simp: registerMachine_def dead_def split: if_splits)
next
  case (set_meta g i mt)
  then show ?case by (auto simp: setCableMeta_def dead_rebuild lossy_def intro!: dead_cmodify split: option.splits)
next
  case (inject g p i)
  then show ?case by (auto simp: injectPacket_def lossy_def intro!: dead_cmodify)
next
  case new
  show ?case by (simp add: dead_def cables_new_def)
qed (simp_all only: dead_remove dead_tick dead_rebuild)

text \<open>With the cables of \<open>CABLE_DEFS\<close> no energy is ever delivered: their \<open>loss_per_block\<close> is written as
  a hexadecimal integer (16 to 100 million volts per block), so after the first block nothing is
  left of any packet, and \<open>collectPackets\<close> returns the empty list in every reachable state.\<close>

theorem catalogue_delivers_nothing:
  assumes "catalogue_reachable g"
  shows "snd (collectPackets e g) = []"
  using catalogue_dead[OF assms] dead_find by (auto simp: collectPackets_def lossy_def split: option.splits)

theorem catalogue_delivers_nothing_witness:
  "snd (collectPackets 50 (tick (injectPacket spark 1 (cable_line tin_cable)))) = []"
proof (rule catalogue_delivers_nothing)
  have "tin_cable \<in> set CABLE_DEFS" by (simp add: tin_cable_def CABLE_DEFS_def)
  then show "catalogue_reachable (tick (injectPacket spark 1 (cable_line tin_cable)))"
    unfolding cable_line_def
    by (intro catalogue_reachable.tick catalogue_reachable.inject catalogue_reachable.rebuild
        catalogue_reachable.add catalogue_reachable.new)
qed

text \<open>Removing a cable does not unregister the generators connected to it, because the map from
  generators to cables is erased at the cable's own id; the generator keeps pointing at a cable that
  is gone.\<close>

theorem removed_cable_keeps_generator:
  assumes "um_find (generatorToCable g) gen = Some c" "um_find (cnodes g) c = Some n" "cn_id n = c" "gen \<noteq> c"
  shows "um_find (generatorToCable (removeCableNode c g)) gen = Some c \<and> \<not> hasCableNode c (removeCableNode c g)"
  using assms by (simp add: removeCableNode_def rebuildGraph_def hasCableNode_def um_simps)

definition wired :: cables where
  "wired = (case registerGenerator 40 (- 1) 64 0 0 (cable_line tin_cable) of Some g \<Rightarrow> g | None \<Rightarrow> cables_new)"

lemma wired_facts:
  "um_find (generatorToCable wired) 40 = Some 1" "map_option cn_id (um_find (cnodes wired) 1) = Some 1"
  by code_simp+

theorem removed_cable_keeps_generator_witness:
  "isRegisteredGenerator 40 (removeCableNode 1 wired) \<and> \<not> hasCableNode 1 (removeCableNode 1 wired)"
proof -
  obtain n where "um_find (cnodes wired) 1 = Some n" "cn_id n = 1" using wired_facts(2) by auto
  from removed_cable_keeps_generator[OF wired_facts(1) this] show ?thesis by (simp add: isRegisteredGenerator_def)
qed

end
