(* ===== verification/InventoryClick.thy ===== *)
theory InventoryClick
  imports Prelude
begin

text \<open>
  The server-authoritative inventory: the click rule table \<open>src/game/storage/InventoryClick.h\<close>, the
  player store \<open>PlayerInventoryStore.cpp\<close> and the handler \<open>InventoryActionHandler.cpp\<close> that applies a
  click to a copy of the player slots and to the live slots of the open container. A slot pointer is
  the pair of container id and index; a loop over slots is a recursion over their indices.
\<close>

section \<open>Slots and clicks\<close>

record pslot =
  item_id :: u16
  cnt :: u8
  pmeta :: u16

definition no_slot :: pslot where
  "no_slot = \<lparr>item_id = 0, cnt = 0, pmeta = 0\<rparr>"

definition kActionClick :: u8 where "kActionClick = 0"
definition kActionQuickMove :: u8 where "kActionQuickMove = 1"
definition kActionDrop :: u8 where "kActionDrop = 2"
definition kActionDragPlace :: u8 where "kActionDragPlace = 3"
definition kActionPickupAll :: u8 where "kActionPickupAll = 4"
definition kButtonLeft :: u8 where "kButtonLeft = 0"
definition kButtonRight :: u8 where "kButtonRight = 1"
definition kMaxStack :: u8 where "kMaxStack = 64"
definition kHotbarCount :: nat where "kHotbarCount = 10"
definition kInventorySlots :: nat where "kInventorySlots = 40"

lemmas click_consts = kActionClick_def kActionQuickMove_def kActionDrop_def kActionDragPlace_def
  kActionPickupAll_def kButtonLeft_def kButtonRight_def kMaxStack_def kHotbarCount_def kInventorySlots_def

record container_click =
  action_type :: u8
  button :: u8
  mods :: u8
  container_id :: u8
  slot :: u16
  click_count :: u8

text \<open>\<open>InventoryRef\<close> together with the cursor: everything a rule may change.\<close>

record inv_ref =
  player :: "pslot list"
  container :: "pslot list option"
  cursor :: pslot

definition SlotAt :: "inv_ref \<Rightarrow> u8 \<Rightarrow> u16 \<Rightarrow> pslot option" where
  "SlotAt iv cid i =
     (if cid = 0 then (if unat i \<ge> kInventorySlots then None else nth_opt (player iv) (unat i))
      else (case container iv of None \<Rightarrow> None | Some ss \<Rightarrow> nth_opt ss (unat i)))"

text \<open>The assignment through the pointer \<open>SlotAt\<close> returned.\<close>

definition put_slot :: "u8 \<Rightarrow> u16 \<Rightarrow> pslot \<Rightarrow> inv_ref \<Rightarrow> inv_ref" where
  "put_slot cid i s iv =
     (if cid = 0 then iv\<lparr>player := (player iv)[unat i := s]\<rparr>
      else iv\<lparr>container := map_option (\<lambda>ss. ss[unat i := s]) (container iv)\<rparr>)"

definition SameStack :: "pslot \<Rightarrow> pslot \<Rightarrow> bool" where
  "SameStack a b \<longleftrightarrow> item_id a \<noteq> 0 \<and> item_id a = item_id b \<and> pmeta a = pmeta b"

definition is_empty :: "pslot \<Rightarrow> bool" where
  "is_empty s \<longleftrightarrow> item_id s = 0 \<or> cnt s = 0"

definition MergeInto :: "pslot \<Rightarrow> pslot \<Rightarrow> pslot \<times> pslot \<times> u8" where
  "MergeInto dst src =
     (let space = kMaxStack - cnt dst;
          moved = min space (cnt src);
          dst' = dst\<lparr>cnt := cnt dst + moved, pmeta := (if item_id dst \<noteq> 0 then pmeta dst else pmeta src)\<rparr>;
          src' = src\<lparr>cnt := cnt src - moved\<rparr>
      in (dst', if cnt src' = 0 then no_slot else src', moved))"

definition take_one :: "pslot \<Rightarrow> pslot" where
  "take_one s = (let s' = s\<lparr>cnt := cnt s - 1\<rparr> in if cnt s' = 0 then no_slot else s')"

section \<open>Rules\<close>

definition right_click :: "pslot \<Rightarrow> pslot \<Rightarrow> (pslot \<times> pslot) option" where
  "right_click tgt cur =
     (if is_empty cur then
        if is_empty tgt then None
        else
          let half = (word_of_int ((uint (cnt tgt) + 1) div 2) :: u8);
              tgt' = tgt\<lparr>cnt := cnt tgt - half\<rparr>
          in Some (if cnt tgt' = 0 then no_slot else tgt', tgt\<lparr>cnt := half\<rparr>)
      else if is_empty tgt then Some (cur\<lparr>cnt := 1\<rparr>, take_one cur)
      else if SameStack tgt cur \<and> cnt tgt < kMaxStack then Some (tgt\<lparr>cnt := cnt tgt + 1\<rparr>, take_one cur)
      else None)"

definition left_click :: "pslot \<Rightarrow> pslot \<Rightarrow> (pslot \<times> pslot) option" where
  "left_click tgt cur =
     (if is_empty cur then (if is_empty tgt then None else Some (no_slot, tgt))
      else if is_empty tgt then Some (cur, no_slot)
      else if SameStack tgt cur \<and> cnt tgt < kMaxStack
        then (case MergeInto tgt cur of (tgt', cur', _) \<Rightarrow> Some (tgt', cur'))
      else Some (cur, tgt))"

definition drag_place :: "pslot \<Rightarrow> pslot \<Rightarrow> (pslot \<times> pslot) option" where
  "drag_place tgt cur =
     (if is_empty tgt then Some (cur\<lparr>cnt := 1\<rparr>, take_one cur)
      else if SameStack tgt cur \<and> cnt tgt < kMaxStack then Some (tgt\<lparr>cnt := cnt tgt + 1\<rparr>, take_one cur)
      else None)"

text \<open>A rule on the target slot and the cursor, applied to the state; \<open>False\<close> when it does nothing.\<close>

definition on_target :: "(pslot \<Rightarrow> pslot \<Rightarrow> (pslot \<times> pslot) option) \<Rightarrow> container_click \<Rightarrow> inv_ref \<Rightarrow> inv_ref \<times> bool" where
  "on_target rule c iv =
     (case SlotAt iv (container_id c) (slot c) of
        None \<Rightarrow> (iv, False)
      | Some tgt \<Rightarrow>
          (case rule tgt (cursor iv) of
             None \<Rightarrow> (iv, False)
           | Some (tgt', cur') \<Rightarrow> (put_slot (container_id c) (slot c) tgt' (iv\<lparr>cursor := cur'\<rparr>), True)))"

definition ApplyClick :: "container_click \<Rightarrow> inv_ref \<Rightarrow> inv_ref \<times> bool" where
  "ApplyClick c = on_target (if button c = kButtonRight then right_click else left_click) c"

definition ApplyDragPlace :: "container_click \<Rightarrow> inv_ref \<Rightarrow> inv_ref \<times> bool" where
  "ApplyDragPlace c iv = (if is_empty (cursor iv) then (iv, False) else on_target drag_place c iv)"

definition ApplyDrop :: "container_click \<Rightarrow> inv_ref \<Rightarrow> inv_ref \<times> bool" where
  "ApplyDrop c iv =
     (if \<not> is_empty (cursor iv) then (iv\<lparr>cursor := no_slot\<rparr>, True)
      else on_target (\<lambda>tgt cur. if is_empty tgt then None else Some (no_slot, cur)) c iv)"

text \<open>The three loops of the quick move: merging onto equal stacks, with the early return of
  \<open>MoveStackToRange\<close> or the \<open>break\<close> of the container loops, and filling the first empty slot.\<close>

fun range_merge :: "nat list \<Rightarrow> pslot list \<Rightarrow> pslot \<Rightarrow> pslot list \<times> pslot \<times> nat option" where
  "range_merge [] ds stack = (ds, stack, None)"
| "range_merge (i # is) ds stack =
     (if SameStack (ds ! i) stack \<and> cnt (ds ! i) < kMaxStack
      then (case MergeInto (ds ! i) stack of
              (d, stack', moved) \<Rightarrow>
                if moved = 0 then (ds[i := d], stack', None)
                else if is_empty stack' then (ds[i := d], stack', Some i)
                else range_merge is (ds[i := d]) stack')
      else range_merge is ds stack)"

fun merge_all :: "nat list \<Rightarrow> pslot list \<Rightarrow> pslot \<Rightarrow> pslot list \<times> pslot" where
  "merge_all [] ds stack = (ds, stack)"
| "merge_all (i # is) ds stack =
     (if SameStack (ds ! i) stack \<and> cnt (ds ! i) < kMaxStack
      then (case MergeInto (ds ! i) stack of
              (d, stack', moved) \<Rightarrow>
                if moved > 0 \<and> is_empty stack' then (ds[i := d], stack')
                else merge_all is (ds[i := d]) stack')
      else merge_all is ds stack)"

fun fill_first :: "nat list \<Rightarrow> pslot list \<Rightarrow> pslot \<Rightarrow> pslot list \<times> pslot \<times> nat option" where
  "fill_first [] ds stack = (ds, stack, None)"
| "fill_first (i # is) ds stack =
     (if is_empty (ds ! i) then (ds[i := stack], no_slot, Some i) else fill_first is ds stack)"

definition MoveStackToRange :: "pslot list \<Rightarrow> nat \<Rightarrow> nat \<Rightarrow> nat \<Rightarrow> pslot list \<times> nat option" where
  "MoveStackToRange ps src b e =
     (let stack = ps ! src; idx = filter (\<lambda>i. i \<noteq> src) [b..<e]
      in if is_empty stack then (ps, None)
         else (case range_merge idx (ps[src := no_slot]) stack of
                 (ps1, _, Some i) \<Rightarrow> (ps1, Some i)
               | (ps1, stack1, None) \<Rightarrow>
                   (case fill_first idx ps1 stack1 of
                      (ps2, _, Some i) \<Rightarrow> (ps2, Some i)
                    | (ps2, stack2, None) \<Rightarrow> (ps2[src := stack2], None))))"

text \<open>The move of one stack into a whole slot vector: the new vector and what is left of the stack.\<close>

definition move_into :: "pslot list \<Rightarrow> pslot \<Rightarrow> pslot list \<times> pslot" where
  "move_into ds stack =
     (let idx = [0..<length ds]
      in (case merge_all idx ds stack of
            (ds1, stack1) \<Rightarrow> (case fill_first idx ds1 stack1 of (ds2, stack2, _) \<Rightarrow> (ds2, stack2))))"

definition ApplyQuickMove :: "container_click \<Rightarrow> inv_ref \<Rightarrow> inv_ref \<times> bool" where
  "ApplyQuickMove c iv =
     (case SlotAt iv (container_id c) (slot c) of
        None \<Rightarrow> (iv, False)
      | Some src \<Rightarrow>
          if is_empty src then (iv, False)
          else if container iv \<noteq> None \<and> container iv \<noteq> Some [] then
            let iv1 = put_slot (container_id c) (slot c) no_slot iv
            in if container_id c = 0
               then (case move_into (the (container iv1)) src of
                       (ds, left) \<Rightarrow>
                         let iv2 = iv1\<lparr>container := Some ds\<rparr>
                         in if \<not> is_empty left then (put_slot (container_id c) (slot c) left iv2, False)
                            else (iv2, True))
               else (case move_into (player iv1) src of
                       (ds, left) \<Rightarrow>
                         let iv2 = iv1\<lparr>player := ds\<rparr>
                         in if \<not> is_empty left then (put_slot (container_id c) (slot c) left iv2, False)
                            else (iv2, True))
          else if container_id c \<noteq> 0 then (iv, False)
          else
            (case (if unat (slot c) < kHotbarCount
                   then MoveStackToRange (player iv) (unat (slot c)) kHotbarCount kInventorySlots
                   else MoveStackToRange (player iv) (unat (slot c)) 0 kHotbarCount) of
               (ps, r) \<Rightarrow> (iv\<lparr>player := ps\<rparr>, r \<noteq> None)))"

fun collect :: "pslot list \<Rightarrow> pslot \<Rightarrow> bool \<Rightarrow> pslot list \<times> pslot \<times> bool" where
  "collect [] cur changed = ([], cur, changed)"
| "collect (s # ss) cur changed =
     (case (if \<not> is_empty s \<and> SameStack s cur \<and> cnt cur < kMaxStack
            then (case MergeInto cur s of (cur', s', moved) \<Rightarrow> (s', cur', changed \<or> moved > 0))
            else (s, cur, changed)) of
        (s', cur', changed') \<Rightarrow>
          (case collect ss cur' changed' of (ss', cur'', changed'') \<Rightarrow> (s' # ss', cur'', changed'')))"

definition ApplyPickupAll :: "container_click \<Rightarrow> inv_ref \<Rightarrow> inv_ref \<times> bool" where
  "ApplyPickupAll c iv =
     (if is_empty (cursor iv) then (iv, False)
      else
        (case (case container iv of
                 None \<Rightarrow> (None, cursor iv, False)
               | Some ss \<Rightarrow> (case collect ss (cursor iv) False of (ss', cur', ch) \<Rightarrow> (Some ss', cur', ch))) of
           (con', cur1, ch1) \<Rightarrow>
             (case collect (player iv) cur1 ch1 of
                (ps', cur2, ch2) \<Rightarrow> (\<lparr>player = ps', container = con', cursor = cur2\<rparr>, ch2))))"

definition ApplyContainerClick :: "container_click \<Rightarrow> inv_ref \<Rightarrow> inv_ref \<times> bool" where
  "ApplyContainerClick c iv =
     (if action_type c = kActionClick then ApplyClick c iv
      else if action_type c = kActionQuickMove then ApplyQuickMove c iv
      else if action_type c = kActionDrop then ApplyDrop c iv
      else if action_type c = kActionDragPlace then ApplyDragPlace c iv
      else if action_type c = kActionPickupAll then ApplyPickupAll c iv
      else (iv, False))"

section \<open>The player store\<close>

record inv_store =
  inventories :: "(u64, pslot list) umap"
  cursors :: "(u64, pslot) umap"

definition fresh_slots :: "pslot list" where
  "fresh_slots = replicate kInventorySlots no_slot"

definition getSlots :: "inv_store \<Rightarrow> u64 \<Rightarrow> pslot list" where
  "getSlots st pid = (case um_find (inventories st) pid of Some ss \<Rightarrow> ss | None \<Rightarrow> fresh_slots)"

definition setSlots :: "u64 \<Rightarrow> pslot list \<Rightarrow> inv_store \<Rightarrow> inv_store" where
  "setSlots pid ss st = st\<lparr>inventories := um_put pid ss (inventories st)\<rparr>"

definition getCursor :: "inv_store \<Rightarrow> u64 \<Rightarrow> pslot" where
  "getCursor st pid = (case um_find (cursors st) pid of Some s \<Rightarrow> s | None \<Rightarrow> no_slot)"

definition setCursor :: "u64 \<Rightarrow> pslot \<Rightarrow> inv_store \<Rightarrow> inv_store" where
  "setCursor pid s st = st\<lparr>cursors := um_put pid s (cursors st)\<rparr>"

definition setSlotsAndCursor :: "u64 \<Rightarrow> pslot list \<Rightarrow> pslot \<Rightarrow> inv_store \<Rightarrow> inv_store" where
  "setSlotsAndCursor pid ss s st =
     st\<lparr>inventories := um_put pid ss (inventories st), cursors := um_put pid s (cursors st)\<rparr>"

definition initPlayer :: "u64 \<Rightarrow> inv_store \<Rightarrow> inv_store" where
  "initPlayer pid st = st\<lparr>inventories := um_emplace pid fresh_slots (inventories st)\<rparr>"

definition applyUpdate :: "u64 \<Rightarrow> pslot list \<Rightarrow> inv_store \<Rightarrow> inv_store" where
  "applyUpdate pid ss st =
     (let new = take kInventorySlots ss in setSlots pid (new @ drop (length new) (getSlots st pid)) st)"

text \<open>\<open>giveItem\<close>: the target slot, then a pass that tops up, then a pass over free slots.\<close>

definition top_up :: "u16 \<Rightarrow> pslot \<Rightarrow> int \<Rightarrow> pslot \<times> int" where
  "top_up item s rem =
     (if item_id s = item \<and> cnt s < kMaxStack
      then let room = kMaxStack - cnt s; add = min (word_of_int rem) room
           in (s\<lparr>cnt := cnt s + add\<rparr>, rem - uint add)
      else (s, rem))"

definition take_free :: "u16 \<Rightarrow> pslot \<Rightarrow> int \<Rightarrow> pslot \<times> int" where
  "take_free item s rem =
     (if item_id s = 0
      then let add = min (word_of_int rem) kMaxStack
           in (\<lparr>item_id = item, cnt = add, pmeta = 0\<rparr>, rem - uint add)
      else (s, rem))"

fun give_pass :: "(pslot \<Rightarrow> int \<Rightarrow> pslot \<times> int) \<Rightarrow> pslot list \<Rightarrow> int \<Rightarrow> pslot list \<times> int" where
  "give_pass f [] rem = ([], rem)"
| "give_pass f (s # ss) rem =
     (if rem \<le> 0 then (s # ss, rem)
      else (case f s rem of (s', rem') \<Rightarrow> (case give_pass f ss rem' of (ss', r) \<Rightarrow> (s' # ss', r))))"

definition give_target :: "u16 \<Rightarrow> int \<Rightarrow> pslot list \<Rightarrow> int \<Rightarrow> pslot list \<times> int" where
  "give_target item target ss rem =
     (if 0 \<le> target \<and> target < int kInventorySlots
      then let i = nat target
           in (case (if item_id (ss ! i) = 0 then take_free item (ss ! i) rem else top_up item (ss ! i) rem) of
                 (s', rem') \<Rightarrow> (ss[i := s'], rem'))
      else (ss, rem))"

definition giveItem :: "u64 \<Rightarrow> u16 \<Rightarrow> u8 \<Rightarrow> int \<Rightarrow> inv_store \<Rightarrow> inv_store \<times> bool" where
  "giveItem pid item n target st =
     (if n = 0 then (st, True)
      else (case give_target item target (getSlots st pid) (uint n) of
              (ss1, r1) \<Rightarrow>
                (case (if r1 > 0 then give_pass (top_up item) ss1 r1 else (ss1, r1)) of
                   (ss2, r2) \<Rightarrow>
                     (case (if r2 > 0 then give_pass (take_free item) ss2 r2 else (ss2, r2)) of
                        (ss3, r3) \<Rightarrow> (setSlots pid ss3 st, r3 = 0)))))"

end
