(* ===== verification/InventoryProps.thy ===== *)
theory InventoryProps
  imports InventoryClick
begin

text \<open>
  Items are conserved by the click rules, stacks stay within 64, \<open>giveItem\<close> stores exactly what fits; and
  the handler, which commits the player copy only when a rule reports a change, against live container
  slots. An amount is counted per pair of item id and meta.
\<close>

section \<open>Counting items\<close>

type_synonym item_key = "u16 \<times> u16"

definition units :: "item_key \<Rightarrow> pslot \<Rightarrow> nat" where
  "units k s = (if item_id s \<noteq> 0 \<and> (item_id s, pmeta s) = k then unat (cnt s) else 0)"

definition amount :: "item_key \<Rightarrow> pslot list \<Rightarrow> nat" where
  "amount k ss = sum_list (map (units k) ss)"

definition opt_amount :: "item_key \<Rightarrow> pslot list option \<Rightarrow> nat" where
  "opt_amount k c = (case c of None \<Rightarrow> 0 | Some ss \<Rightarrow> amount k ss)"

definition held :: "item_key \<Rightarrow> inv_ref \<Rightarrow> nat" where
  "held k iv = amount k (player iv) + opt_amount k (container iv) + units k (cursor iv)"

definition small :: "pslot \<Rightarrow> bool" where
  "small s \<longleftrightarrow> cnt s \<le> kMaxStack"

definition all_small :: "inv_ref \<Rightarrow> bool" where
  "all_small iv \<longleftrightarrow> list_all small (player iv) \<and> (case container iv of None \<Rightarrow> True | Some ss \<Rightarrow> list_all small ss) \<and>
     small (cursor iv)"

definition one :: "item_key \<Rightarrow> pslot \<Rightarrow> nat" where
  "one k s = (if (item_id s, pmeta s) = k then 1 else 0)"

lemma units_empty [simp]: "is_empty s \<Longrightarrow> units k s = 0" "units k no_slot = 0"
  by (auto simp: units_def is_empty_def no_slot_def)

lemma is_empty_no_slot [simp]: "is_empty no_slot" "small no_slot"
  by (simp_all add: is_empty_def no_slot_def small_def)

lemma amount_simps [simp]: "amount k [] = 0" "amount k (s # ss) = units k s + amount k ss"
  by (simp_all add: amount_def)

lemma amount_update: "i < length ss \<Longrightarrow> amount k (ss[i := s]) + units k (ss ! i) = amount k ss + units k s"
  by (induction ss arbitrary: i) (auto simp: nth_Cons split: nat.splits)

lemma list_all_update: "list_all P ss \<Longrightarrow> P s \<Longrightarrow> list_all P (ss[i := s])"
  using set_update_subset_insert[of ss i s] by (auto simp: list_all_iff)

lemma list_all_nth': "list_all P ss \<Longrightarrow> i < length ss \<Longrightarrow> P (ss ! i)"
  by (simp add: list_all_length)

section \<open>Rules on one slot and the cursor\<close>

lemma unat_minus_le: "b \<le> a \<Longrightarrow> unat (a - b) = unat a - unat b" for a b :: u8
  by (simp add: unat_sub)

lemma merge_facts:
  assumes "SameStack dst src" "cnt dst < kMaxStack" "MergeInto dst src = (d, s, moved)"
  shows "units k d + units k s = units k dst + units k src" "small d" "small src \<Longrightarrow> small s"
    "item_id d = item_id dst" "moved = 0 \<Longrightarrow> cnt src \<noteq> 0 \<Longrightarrow> False"
proof -
  let ?m = "min (kMaxStack - cnt dst) (cnt src)"
  have d: "d = dst\<lparr>cnt := cnt dst + ?m\<rparr>" and m: "moved = ?m"
    and s: "s = (if cnt src - ?m = 0 then no_slot else src\<lparr>cnt := cnt src - ?m\<rparr>)"
    using assms by (auto simp: MergeInto_def Let_def SameStack_def)
  have lt: "unat (cnt dst) < 64" using assms(2) by (simp add: kMaxStack_def word_less_nat_alt)
  have sp: "unat (kMaxStack - cnt dst) = 64 - unat (cnt dst)"
    using assms(2) by (subst unat_minus_le) (simp_all add: kMaxStack_def)
  have um: "unat ?m = min (64 - unat (cnt dst)) (unat (cnt src))"
    using sp by (simp add: min_def word_le_nat_alt)
  have ud: "unat (cnt dst + ?m) = unat (cnt dst) + unat ?m"
    using lt um by (simp add: unat_word_ariths)
  have us: "unat (cnt src - ?m) = unat (cnt src) - unat ?m"
    by (rule unat_minus_le) simp
  show "units k d + units k s = units k dst + units k src"
    using assms(1) ud us um lt
    by (auto simp: d s units_def SameStack_def no_slot_def unat_eq_0[symmetric] simp del: unat_eq_0)
  show "small d" using ud um lt by (simp add: d small_def kMaxStack_def word_le_nat_alt)
  show "small src \<Longrightarrow> small s" using us by (auto simp: s small_def word_le_nat_alt kMaxStack_def no_slot_def)
  show "item_id d = item_id dst" by (simp add: d)
  show "moved = 0 \<Longrightarrow> cnt src \<noteq> 0 \<Longrightarrow> False"
    using um lt unfolding m by (metis unat_eq_0 unat_0 min_def diff_is_0_eq not_le)
qed

lemma take_one_facts:
  assumes "\<not> is_empty s"
  shows "units k (take_one s) + one k s = units k s" "small s \<Longrightarrow> small (take_one s)"
proof -
  have pos: "0 < unat (cnt s)" using assms by (simp add: is_empty_def unat_gt_0)
  then have "1 \<le> cnt s" by (simp add: word_le_nat_alt)
  then have u: "unat (cnt s - 1) = unat (cnt s) - 1" by (simp add: unat_minus_le)
  show "units k (take_one s) + one k s = units k s"
    using assms pos u
    by (auto simp: take_one_def Let_def units_def one_def is_empty_def no_slot_def unat_eq_0[symmetric] simp del: unat_eq_0)
  show "small s \<Longrightarrow> small (take_one s)"
    using u by (auto simp: take_one_def Let_def small_def word_le_nat_alt kMaxStack_def no_slot_def)
qed

text \<open>What every rule on a target slot and the cursor keeps.\<close>

definition slot_rule :: "(pslot \<Rightarrow> pslot \<Rightarrow> (pslot \<times> pslot) option) \<Rightarrow> pslot \<Rightarrow> bool" where
  "slot_rule rule cur \<longleftrightarrow>
     (\<forall>tgt tgt' cur'. rule tgt cur = Some (tgt', cur') \<longrightarrow>
        (\<forall>k. units k tgt' + units k cur' = units k tgt + units k cur) \<and>
        (small tgt \<longrightarrow> small cur \<longrightarrow> small tgt' \<and> small cur'))"

lemma add_one_facts:
  assumes "SameStack tgt cur" "cnt tgt < kMaxStack"
  shows "units k (tgt\<lparr>cnt := cnt tgt + 1\<rparr>) = units k tgt + one k cur"
    "small (tgt\<lparr>cnt := cnt tgt + 1\<rparr>)"
proof -
  have lt: "unat (cnt tgt) < 64" using assms(2) by (simp add: kMaxStack_def word_less_nat_alt)
  then have "unat (cnt tgt + 1) = unat (cnt tgt) + 1" by (simp add: unat_word_ariths)
  then show "units k (tgt\<lparr>cnt := cnt tgt + 1\<rparr>) = units k tgt + one k cur"
    "small (tgt\<lparr>cnt := cnt tgt + 1\<rparr>)"
    using assms(1) lt by (auto simp: units_def one_def SameStack_def small_def kMaxStack_def word_le_nat_alt)
qed

lemma place_one_facts:
  "\<not> is_empty cur \<Longrightarrow> units k (cur\<lparr>cnt := 1\<rparr>) = one k cur"
  "small (cur\<lparr>cnt := 1\<rparr>)"
  by (auto simp: units_def one_def is_empty_def small_def kMaxStack_def)

lemma drag_place_rule:
  assumes "\<not> is_empty cur"
  shows "slot_rule drag_place cur"
  unfolding slot_rule_def
proof (intro allI impI)
  fix tgt tgt' cur' assume r: "drag_place tgt cur = Some (tgt', cur')"
  then have cur': "cur' = take_one cur"
    and tgt': "is_empty tgt \<and> tgt' = cur\<lparr>cnt := 1\<rparr> \<or>
      SameStack tgt cur \<and> cnt tgt < kMaxStack \<and> tgt' = tgt\<lparr>cnt := cnt tgt + 1\<rparr>"
    by (auto simp: drag_place_def split: if_splits)
  have "units k tgt' = units k tgt + one k cur" for k
    using tgt' add_one_facts(1)[of tgt cur k] place_one_facts(1)[OF assms, of k] by auto
  moreover have "small tgt'" using tgt' add_one_facts(2)[of tgt cur] place_one_facts(2) by auto
  moreover have "units k (take_one cur) + one k cur = units k cur" for k by (rule take_one_facts(1)[OF assms])
  ultimately show "(\<forall>k. units k tgt' + units k cur' = units k tgt + units k cur) \<and>
        (small tgt \<longrightarrow> small cur \<longrightarrow> small tgt' \<and> small cur')"
    using take_one_facts(2)[OF assms] unfolding cur' by (metis add.assoc add.commute)
qed

lemma half_facts:
  assumes "\<not> is_empty tgt"
  defines "half \<equiv> (word_of_int ((uint (cnt tgt) + 1) div 2) :: u8)"
  shows "unat half \<le> unat (cnt tgt)" "unat (cnt tgt - half) = unat (cnt tgt) - unat half"
proof -
  have "0 < uint (cnt tgt)" using assms(1) uint_0_iff[of "cnt tgt"] uint_nonnegative[of "cnt tgt"]
    by (auto simp: is_empty_def less_le)
  moreover have b: "uint (cnt tgt) < 256" using uint_lt2p[of "cnt tgt"] by simp
  ultimately have "uint half = (uint (cnt tgt) + 1) div 2"
    unfolding half_def by (simp add: uint_word_of_int)
  then have "uint half \<le> uint (cnt tgt)" using \<open>0 < uint (cnt tgt)\<close> by simp
  then have le: "half \<le> cnt tgt" by (simp add: word_le_def)
  then show "unat half \<le> unat (cnt tgt)" by (simp add: word_le_nat_alt)
  show "unat (cnt tgt - half) = unat (cnt tgt) - unat half" by (rule unat_minus_le[OF le])
qed

lemma right_click_rule: "slot_rule right_click cur"
proof (cases "is_empty cur")
  case False
  then have "right_click tgt cur = drag_place tgt cur" for tgt by (simp add: right_click_def drag_place_def)
  then show ?thesis using drag_place_rule[OF False] by (simp add: slot_rule_def)
next
  case True
  show ?thesis unfolding slot_rule_def
  proof (intro allI impI)
    fix tgt tgt' cur' assume "right_click tgt cur = Some (tgt', cur')"
    then obtain h where h: "unat h \<le> unat (cnt tgt)" "unat (cnt tgt - h) = unat (cnt tgt) - unat h"
      and cur': "cur' = tgt\<lparr>cnt := h\<rparr>"
      and tgt': "tgt' = (if cnt tgt - h = 0 then no_slot else tgt\<lparr>cnt := cnt tgt - h\<rparr>)"
      using True half_facts[of tgt] by (auto simp: right_click_def Let_def split: if_splits)
    have "unat (cnt tgt) - unat h = 0" if "cnt tgt - h = 0" using h(2) that by simp
    then have "units k tgt' + units k cur' = units k tgt" for k
      using h by (auto simp: units_def cur' tgt' no_slot_def)
    moreover have "small tgt \<longrightarrow> small tgt' \<and> small cur'"
      using h by (auto simp: small_def cur' tgt' no_slot_def word_le_nat_alt kMaxStack_def)
    ultimately show "(\<forall>k. units k tgt' + units k cur' = units k tgt + units k cur) \<and>
        (small tgt \<longrightarrow> small cur \<longrightarrow> small tgt' \<and> small cur')"
      using True by simp
  qed
qed

lemma left_click_rule: "slot_rule left_click cur"
  unfolding slot_rule_def
proof (intro allI impI)
  fix tgt tgt' cur' assume r: "left_click tgt cur = Some (tgt', cur')"
  show "(\<forall>k. units k tgt' + units k cur' = units k tgt + units k cur) \<and>
        (small tgt \<longrightarrow> small cur \<longrightarrow> small tgt' \<and> small cur')"
  proof (cases "\<not> is_empty cur \<and> \<not> is_empty tgt \<and> SameStack tgt cur \<and> cnt tgt < kMaxStack")
    case True
    then obtain m where "MergeInto tgt cur = (tgt', cur', m)"
      using r by (auto simp: left_click_def split: prod.splits)
    then show ?thesis using merge_facts[of tgt cur tgt' cur' m] True by blast
  next
    case False
    then show ?thesis using r by (auto simp: left_click_def split: if_splits)
  qed
qed

section \<open>Rules on the state\<close>

text \<open>A change of the state that keeps every amount and the bound on stacks.\<close>

definition keeps :: "inv_ref \<Rightarrow> inv_ref \<Rightarrow> bool" where
  "keeps iv iv' \<longleftrightarrow> (\<forall>k. held k iv' = held k iv) \<and> (all_small iv \<longrightarrow> all_small iv')"

lemma keeps_refl [simp]: "keeps iv iv"
  by (simp add: keeps_def)

lemma keepsD: "keeps iv iv' \<Longrightarrow> held k iv' = held k iv"
  by (simp add: keeps_def del: split_paired_All)

lemma keeps_small: "keeps iv iv' \<Longrightarrow> all_small iv \<Longrightarrow> all_small iv'"
  by (simp add: keeps_def)

lemma put_slot_facts:
  assumes "SlotAt iv cid i = Some s"
  shows "held k (put_slot cid i x (iv\<lparr>cursor := c\<rparr>)) + units k s + units k (cursor iv) = held k iv + units k x + units k c"
    "all_small iv \<Longrightarrow> small x \<Longrightarrow> small c \<Longrightarrow> all_small (put_slot cid i x (iv\<lparr>cursor := c\<rparr>))"
    "all_small iv \<Longrightarrow> small s"
    "SlotAt (put_slot cid i x (iv\<lparr>cursor := c\<rparr>)) cid i = Some x"
  using assms amount_update[of "unat i" "player iv" k x]
    amount_update[of "unat i" "the (container iv)" k x]
  by (auto simp: SlotAt_def put_slot_def held_def opt_amount_def all_small_def nth_opt_eq_Some list_all_update
      dest: list_all_nth' split: if_splits option.splits)

lemma on_target_keeps:
  assumes "slot_rule rule (cursor iv)"
  shows "keeps iv (fst (on_target rule c iv)) \<and> (\<not> snd (on_target rule c iv) \<longrightarrow> fst (on_target rule c iv) = iv)"
proof (cases "SlotAt iv (container_id c) (slot c)")
  case (Some tgt)
  show ?thesis
  proof (cases "rule tgt (cursor iv)")
    case r: (Some p)
    obtain tgt' cur' where p: "p = (tgt', cur')" by force
    have "units k tgt' + units k cur' = units k tgt + units k (cursor iv)" for k
      using assms r p unfolding slot_rule_def by blast
    then have "held k (put_slot (container_id c) (slot c) tgt' (iv\<lparr>cursor := cur'\<rparr>)) = held k iv" for k
      using put_slot_facts(1)[OF Some, of k tgt' cur'] by (metis add.assoc add.commute add_right_cancel)
    moreover have "all_small iv \<Longrightarrow> small tgt' \<and> small cur'"
      using assms r p put_slot_facts(3)[OF Some] by (fastforce simp: slot_rule_def all_small_def)
    ultimately show ?thesis
      using Some r p put_slot_facts(2)[OF Some] by (simp add: on_target_def keeps_def)
  qed (simp add: on_target_def Some)
qed (simp add: on_target_def)

section \<open>Loops\<close>

lemma merge_step:
  assumes "i < length ds" "SameStack (ds ! i) stack" "cnt (ds ! i) < kMaxStack"
    "MergeInto (ds ! i) stack = (d, stack', moved)"
  shows "amount k (ds[i := d]) + units k stack' = amount k ds + units k stack"
    "list_all small ds \<Longrightarrow> list_all small (ds[i := d])" "small stack \<Longrightarrow> small stack'"
  using merge_facts(1)[OF assms(2-4), of k] merge_facts(2,3)[OF assms(2-4)] amount_update[OF assms(1), of k d] by (auto intro: list_all_update)

lemma range_merge_facts:
  assumes "range_merge idx ds stack = (ds', stack', r)" "\<forall>i \<in> set idx. i < length ds"
  shows "length ds' = length ds \<and> amount k ds' + units k stack' = amount k ds + units k stack \<and>
    (list_all small ds \<longrightarrow> list_all small ds') \<and> (small stack \<longrightarrow> small stack') \<and> (r \<noteq> None \<longrightarrow> is_empty stack') \<and>
    (\<forall>j. j \<notin> set idx \<longrightarrow> ds' ! j = ds ! j)"
  using assms
proof (induction idx ds stack rule: range_merge.induct)
  case (2 i idx ds stack)
  obtain d st m where mg: "MergeInto (ds ! i) stack = (d, st, m)" by (metis prod_cases3)
  have i: "i < length ds" using "2.prems" by simp
  show ?case
  proof (cases "SameStack (ds ! i) stack \<and> cnt (ds ! i) < kMaxStack")
    case True
    note st = merge_step[OF i conjunct1[OF True] conjunct2[OF True] mg]
    show ?thesis
    proof (cases "m = 0 \<or> is_empty st")
      case stop: True
      then have "ds' = ds[i := d] \<and> stack' = st \<and> (r \<noteq> None \<longrightarrow> is_empty st)" using "2.prems"(1) True mg by (auto split: if_splits)
      then show ?thesis using st(1)[of k] st(2,3) by auto
    next
      case False
      then have rec: "range_merge idx (ds[i := d]) st = (ds', stack', r)" using "2.prems"(1) True mg by simp
      have "\<forall>i' \<in> set idx. i' < length (ds[i := d])" using "2.prems"(2) by simp
      from "2.IH"(1)[OF True mg[symmetric] refl _ _ rec this] False st(1)[of k] st(2,3) show ?thesis by auto
    qed
  next
    case False
    then have "range_merge idx ds stack = (ds', stack', r)" using "2.prems"(1) by auto
    from "2.IH"(2)[OF False this] "2.prems"(2) show ?thesis by auto
  qed
qed auto

lemma merge_all_facts:
  assumes "merge_all idx ds stack = (ds', stack')" "\<forall>i \<in> set idx. i < length ds"
  shows "length ds' = length ds \<and> amount k ds' + units k stack' = amount k ds + units k stack \<and>
    (list_all small ds \<longrightarrow> list_all small ds') \<and> (small stack \<longrightarrow> small stack')"
  using assms
proof (induction idx ds stack rule: merge_all.induct)
  case (2 i idx ds stack)
  obtain d st m where mg: "MergeInto (ds ! i) stack = (d, st, m)" by (metis prod_cases3)
  have i: "i < length ds" using "2.prems" by simp
  show ?case
  proof (cases "SameStack (ds ! i) stack \<and> cnt (ds ! i) < kMaxStack")
    case True
    note st = merge_step[OF i conjunct1[OF True] conjunct2[OF True] mg]
    show ?thesis
    proof (cases "m > 0 \<and> is_empty st")
      case stop: True
      then show ?thesis using "2.prems"(1) True mg st(1)[of k] st(2,3) by auto
    next
      case False
      then have rec: "merge_all idx (ds[i := d]) st = (ds', stack')" using "2.prems"(1) True mg by auto
      have "\<forall>i' \<in> set idx. i' < length (ds[i := d])" using "2.prems"(2) by simp
      from "2.IH"(1)[OF True mg[symmetric] refl False rec this] st(1)[of k] st(2,3) show ?thesis by auto
    qed
  next
    case False
    then show ?thesis using "2.IH"(2)[OF False] "2.prems" by auto
  qed
qed auto

lemma fill_first_facts:
  assumes "fill_first idx ds stack = (ds', stack', r)" "\<forall>i \<in> set idx. i < length ds"
  shows "length ds' = length ds \<and> amount k ds' + units k stack' = amount k ds + units k stack \<and>
    (list_all small ds \<and> small stack \<longrightarrow> list_all small ds' \<and> small stack') \<and>
    (if r = None then stack' = stack \<and> ds' = ds else is_empty stack') \<and> (\<forall>j. j \<notin> set idx \<longrightarrow> ds' ! j = ds ! j)"
  using assms
proof (induction idx ds stack rule: fill_first.induct)
  case (2 i idx ds stack)
  then have i: "i < length ds" by simp
  show ?case
    using 2 amount_update[OF i, of k stack] by (cases "is_empty (ds ! i)") (auto intro: list_all_update)
qed auto

lemma move_into_facts:
  assumes "move_into ds stack = (ds', left)"
  shows "amount k ds' + units k left = amount k ds + units k stack"
    "list_all small ds \<Longrightarrow> small stack \<Longrightarrow> list_all small ds' \<and> small left"
proof -
  obtain ds1 st1 where m: "merge_all [0..<length ds] ds stack = (ds1, st1)" by force
  obtain r where f: "fill_first [0..<length ds] ds1 st1 = (ds', left, r)"
    using assms m by (auto simp: move_into_def Let_def split: prod.splits)
  note mf = merge_all_facts[OF m, simplified]
  show "amount k ds' + units k left = amount k ds + units k stack"
    using mf[of k] fill_first_facts[OF f, of k] by simp
  show "list_all small ds \<Longrightarrow> small stack \<Longrightarrow> list_all small ds' \<and> small left"
    using mf fill_first_facts[OF f] by simp
qed

lemma MoveStackToRange_facts:
  assumes "MoveStackToRange ps src b e = (ps', r)" "src < length ps" "e \<le> length ps"
  shows "amount k ps' = amount k ps" "list_all small ps \<Longrightarrow> list_all small ps'"
proof -
  let ?idx = "filter (\<lambda>i. i \<noteq> src) [b..<e]"
  have "amount k ps' = amount k ps \<and> (list_all small ps \<longrightarrow> list_all small ps')"
  proof (cases "is_empty (ps ! src)")
    case False
    obtain ps1 st1 r1 where m: "range_merge ?idx (ps[src := no_slot]) (ps ! src) = (ps1, st1, r1)" by (metis prod_cases3)
    obtain ps2 st2 r2 where f: "fill_first ?idx ps1 st1 = (ps2, st2, r2)" by (metis prod_cases3)
    have "\<forall>i \<in> set ?idx. i < length (ps[src := no_slot])" using assms(3) by auto
    note mf = range_merge_facts[OF m this, of k]
    then have "\<forall>i \<in> set ?idx. i < length ps1" using assms(3) by auto
    note ff = fill_first_facts[OF f this, of k]
    have start: "amount k (ps[src := no_slot]) + units k (ps ! src) = amount k ps"
      using amount_update[OF assms(2), of k no_slot] by simp
    have sm: "list_all small ps \<Longrightarrow> list_all small (ps[src := no_slot]) \<and> small (ps ! src)"
      using list_all_update[of small ps no_slot src] list_all_nth'[OF _ assms(2), of small] by simp
    consider "r1 \<noteq> None" "ps' = ps1" | "r1 = None" "r2 \<noteq> None" "ps' = ps2" | "r1 = None" "r2 = None" "ps' = ps2[src := st2]"
      using assms(1) False m f unfolding MoveStackToRange_def Let_def by (cases r1; cases r2) auto
    then show ?thesis
    proof cases
      case 3
      have "ps2 ! src = no_slot" using mf ff assms(2) by simp
      moreover have "src < length ps2" using mf ff assms(2) by simp
      ultimately have "amount k (ps2[src := st2]) = amount k ps2 + units k st2"
        using amount_update[of src ps2 k st2] by simp
      then show ?thesis using mf ff start sm 3 by (auto intro: list_all_update)
    qed (use mf ff start sm in auto)
  qed (use assms(1) in \<open>simp add: MoveStackToRange_def\<close>)
  then show "amount k ps' = amount k ps" "list_all small ps \<Longrightarrow> list_all small ps'" by auto
qed

section \<open>Quick move, pick up, drop\<close>

lemma slot_of_other:
  "cid \<noteq> 0 \<Longrightarrow> SlotAt (iv\<lparr>player := ps\<rparr>) cid i = SlotAt iv cid i"
  "SlotAt (iv\<lparr>container := c\<rparr>) 0 i = SlotAt iv 0 i"
  by (simp_all add: SlotAt_def)

text \<open>Taking the stack from its slot, moving it elsewhere, and putting back what is left.\<close>

lemma taken_and_moved:
  assumes "SlotAt iv cid i = Some src" "SlotAt iv2 cid i = Some no_slot"
    "iv1 = put_slot cid i no_slot iv"
    "\<And>k. held k iv2 + units k left = held k iv1 + units k src"
    "all_small iv1 \<Longrightarrow> small src \<Longrightarrow> all_small iv2 \<and> small left"
  shows "keeps iv (if \<not> is_empty left then put_slot cid i left iv2 else iv2)"
proof -
  have same: "iv\<lparr>cursor := cursor iv\<rparr> = iv" "iv2\<lparr>cursor := cursor iv2\<rparr> = iv2" by simp_all
  have h1: "held k iv1 + units k src = held k iv" for k
    using put_slot_facts(1)[OF assms(1), of k no_slot "cursor iv"] same(1) by (simp add: assms(3))
  have h2: "held k (put_slot cid i left iv2) = held k iv2 + units k left" for k
    using put_slot_facts(1)[OF assms(2), of k left "cursor iv2"] same(2) by simp
  have "all_small iv1" if "all_small iv"
    using put_slot_facts(2)[OF assms(1) that, of no_slot "cursor iv"] that same(1) by (simp add: assms(3) all_small_def)
  moreover have "small src" if "all_small iv" using put_slot_facts(3)[OF assms(1) that] .
  ultimately have s2: "all_small iv2 \<and> small left" if "all_small iv" using assms(5) that by blast
  have s3: "all_small (put_slot cid i left iv2)" if "all_small iv"
    using put_slot_facts(2)[OF assms(2), of left "cursor iv2"] s2[OF that] same(2) by (simp add: all_small_def)
  have "held k (if \<not> is_empty left then put_slot cid i left iv2 else iv2) = held k iv" for k
    using h1[of k] h2[of k] assms(4)[of k] units_empty(1)[of left k] by (cases "is_empty left") simp_all
  then show ?thesis using s2 s3 by (simp add: keeps_def)
qed

lemma ApplyQuickMove_keeps:
  assumes "length (player iv) = kInventorySlots"
  shows "keeps iv (fst (ApplyQuickMove c iv))"
proof (cases "SlotAt iv (container_id c) (slot c)")
  case (Some src)
  let ?cid = "container_id c" and ?i = "slot c"
  let ?iv1 = "put_slot ?cid ?i no_slot iv"
  show ?thesis
  proof (cases "is_empty src")
    case ne: False
    consider (into) "container iv \<noteq> None" "container iv \<noteq> Some []" "?cid = 0"
      | (outof) "container iv \<noteq> None" "container iv \<noteq> Some []" "?cid \<noteq> 0"
      | (local) "container iv = None \<or> container iv = Some []" by metis
    then show ?thesis
    proof cases
      case into
      then obtain ss where ss: "container iv = Some ss" by auto
      obtain ds left where m: "move_into ss src = (ds, left)" by force
      have c1: "container ?iv1 = Some ss" using into(3) ss by (simp add: put_slot_def)
      have res: "fst (ApplyQuickMove c iv) =
          (if \<not> is_empty left then put_slot ?cid ?i left (?iv1\<lparr>container := Some ds\<rparr>) else ?iv1\<lparr>container := Some ds\<rparr>)"
        using Some ne into m c1 by (simp add: ApplyQuickMove_def Let_def)
      have at: "SlotAt (?iv1\<lparr>container := Some ds\<rparr>) ?cid ?i = Some no_slot"
        using put_slot_facts(4)[OF Some, of no_slot "cursor iv"] into(3) by (simp add: slot_of_other)
      show ?thesis unfolding res
        by (rule taken_and_moved[OF Some at refl])
          (use move_into_facts[OF m] c1 in \<open>auto simp: held_def opt_amount_def all_small_def\<close>)
    next
      case outof
      obtain ds left where m: "move_into (player ?iv1) src = (ds, left)" by force
      have res: "fst (ApplyQuickMove c iv) =
          (if \<not> is_empty left then put_slot ?cid ?i left (?iv1\<lparr>player := ds\<rparr>) else ?iv1\<lparr>player := ds\<rparr>)"
        using Some ne outof m by (simp add: ApplyQuickMove_def Let_def)
      have at: "SlotAt (?iv1\<lparr>player := ds\<rparr>) ?cid ?i = Some no_slot"
        using put_slot_facts(4)[OF Some, of no_slot "cursor iv"] outof(3) by (simp add: slot_of_other)
      show ?thesis unfolding res
        by (rule taken_and_moved[OF Some at refl])
          (use move_into_facts[OF m] in \<open>auto simp: held_def all_small_def\<close>)
    next
      case local
      show ?thesis
      proof (cases "?cid = 0")
        case True
        obtain ps r where mv: "(if unat ?i < kHotbarCount
            then MoveStackToRange (player iv) (unat ?i) kHotbarCount kInventorySlots
            else MoveStackToRange (player iv) (unat ?i) 0 kHotbarCount) = (ps, r)" by force
        have i: "unat ?i < length (player iv)" using Some True assms by (auto simp: SlotAt_def split: if_splits)
        obtain b e where "MoveStackToRange (player iv) (unat ?i) b e = (ps, r)" "e \<le> length (player iv)"
          using mv assms by (auto simp: kHotbarCount_def kInventorySlots_def split: if_splits)
        note f = MoveStackToRange_facts[OF this(1) i this(2)]
        have "fst (ApplyQuickMove c iv) = iv\<lparr>player := ps\<rparr>"
          using Some ne local True mv by (auto simp: ApplyQuickMove_def)
        then show ?thesis using f by (simp add: keeps_def held_def all_small_def)
      qed (use Some ne local in \<open>auto simp: ApplyQuickMove_def\<close>)
    qed
  qed (simp add: ApplyQuickMove_def Some)
qed (simp add: ApplyQuickMove_def)

lemma collect_facts:
  assumes "collect ss cur ch = (ss', cur', ch')"
  shows "amount k ss' + units k cur' = amount k ss + units k cur \<and>
    (list_all small ss \<and> small cur \<longrightarrow> list_all small ss' \<and> small cur') \<and>
    (\<not> ch' \<longrightarrow> \<not> ch \<and> ss' = ss \<and> cur' = cur)"
  using assms
proof (induction ss arbitrary: cur ch ss' cur' ch')
  case (Cons s ss)
  define go where "go \<longleftrightarrow> \<not> is_empty s \<and> SameStack s cur \<and> cnt cur < kMaxStack"
  obtain c1 s1 m where mg: "MergeInto cur s = (c1, s1, m)" by (metis prod_cases3)
  obtain s2 c2 ch2 where st: "(if go then (s1, c1, ch \<or> m > 0) else (s, cur, ch)) = (s2, c2, ch2)" by (metis prod_cases3)
  obtain ss2 where rec: "collect ss c2 ch2 = (ss2, cur', ch')" and ss': "ss' = s2 # ss2"
    using Cons.prems st mg by (auto simp: go_def split: prod.splits if_splits)
  have "units k s2 + units k c2 = units k s + units k cur \<and> (small s \<and> small cur \<longrightarrow> small s2 \<and> small c2) \<and>
    (\<not> ch2 \<longrightarrow> \<not> ch \<and> s2 = s \<and> c2 = cur)"
  proof (cases go)
    case True
    then have "SameStack cur s" "cnt cur < kMaxStack" "cnt s \<noteq> 0" by (auto simp: go_def SameStack_def is_empty_def)
    note f = merge_facts[OF this(1,2) mg]
    have "m > 0" using f(5) \<open>cnt s \<noteq> 0\<close> word_gt_0 by blast
    then show ?thesis using st True f(1)[of k] f(2,3) by auto
  qed (use st in auto)
  then show ?case using Cons.IH[OF rec] ss' by auto
qed auto

lemma ApplyPickupAll_keeps:
  "keeps iv (fst (ApplyPickupAll c iv)) \<and> (\<not> snd (ApplyPickupAll c iv) \<longrightarrow> fst (ApplyPickupAll c iv) = iv)"
proof (cases "is_empty (cursor iv)")
  case False
  obtain con' cur1 ch1 where a: "(case container iv of None \<Rightarrow> (None, cursor iv, False)
      | Some ss \<Rightarrow> (case collect ss (cursor iv) False of (ss', cur', ch) \<Rightarrow> (Some ss', cur', ch))) = (con', cur1, ch1)"
    by (metis prod_cases3)
  obtain ps' cur2 ch2 where b: "collect (player iv) cur1 ch1 = (ps', cur2, ch2)" by (metis prod_cases3)
  have res: "ApplyPickupAll c iv = (\<lparr>player = ps', container = con', cursor = cur2\<rparr>, ch2)"
    using False a b by (simp add: ApplyPickupAll_def)
  have first: "opt_amount k con' + units k cur1 = opt_amount k (container iv) + units k (cursor iv) \<and>
    ((case container iv of None \<Rightarrow> True | Some ss \<Rightarrow> list_all small ss) \<and> small (cursor iv) \<longrightarrow>
      (case con' of None \<Rightarrow> True | Some ss \<Rightarrow> list_all small ss) \<and> small cur1) \<and>
    (\<not> ch1 \<longrightarrow> con' = container iv \<and> cur1 = cursor iv)" for k
    using a collect_facts[of _ "cursor iv" False _ _ _ k]
    by (auto simp: opt_amount_def split: option.splits prod.splits)
  have "held k (fst (\<lparr>player = ps', container = con', cursor = cur2\<rparr>, ch2)) = held k iv" for k
    using first[of k] collect_facts[OF b, of k] by (simp add: held_def)
  then show ?thesis unfolding res using first collect_facts[OF b]
    by (simp add: keeps_def all_small_def)
qed (simp add: ApplyPickupAll_def)

lemma put_slot_less:
  "SlotAt iv cid i = Some s \<Longrightarrow> held k (put_slot cid i no_slot iv) \<le> held k iv"
  using put_slot_facts(1)[of iv cid i s k no_slot "cursor iv"] by simp

lemma ApplyDrop_less:
  "held k (fst (ApplyDrop c iv)) \<le> held k iv \<and> (all_small iv \<longrightarrow> all_small (fst (ApplyDrop c iv))) \<and>
   (\<not> snd (ApplyDrop c iv) \<longrightarrow> fst (ApplyDrop c iv) = iv)"
proof (cases "is_empty (cursor iv)")
  case True
  show ?thesis
  proof (cases "SlotAt iv (container_id c) (slot c)")
    case (Some s)
    then show ?thesis
      using True put_slot_less[OF Some, of k] put_slot_facts(2)[OF Some, of no_slot "cursor iv"]
      by (auto simp: ApplyDrop_def on_target_def all_small_def)
  qed (simp add: ApplyDrop_def on_target_def True)
qed (simp add: ApplyDrop_def held_def all_small_def)

lemma click_facts:
  assumes "length (player iv) = kInventorySlots"
  shows "held k (fst (ApplyContainerClick c iv)) \<le> held k iv \<and>
    (action_type c \<noteq> kActionDrop \<longrightarrow> held k (fst (ApplyContainerClick c iv)) = held k iv) \<and>
    (all_small iv \<longrightarrow> all_small (fst (ApplyContainerClick c iv))) \<and>
    (action_type c \<noteq> kActionQuickMove \<and> \<not> snd (ApplyContainerClick c iv) \<longrightarrow> fst (ApplyContainerClick c iv) = iv)"
proof -
  have rule: "slot_rule (if button c = kButtonRight then right_click else left_click) (cursor iv)"
    using right_click_rule left_click_rule by simp
  have "keeps iv (fst (ApplyClick c iv)) \<and> (\<not> snd (ApplyClick c iv) \<longrightarrow> fst (ApplyClick c iv) = iv)"
    unfolding ApplyClick_def by (rule on_target_keeps[OF rule])
  moreover have "keeps iv (fst (ApplyDragPlace c iv)) \<and>
      (\<not> snd (ApplyDragPlace c iv) \<longrightarrow> fst (ApplyDragPlace c iv) = iv)"
    using on_target_keeps[OF drag_place_rule, of iv c] by (simp add: ApplyDragPlace_def)
  ultimately show ?thesis
    using ApplyQuickMove_keeps[OF assms, of c] ApplyPickupAll_keeps[of iv c] ApplyDrop_less[of k c iv]
    by (auto simp: ApplyContainerClick_def click_consts keepsD keeps_small)
qed

text \<open>C12: a click never creates items. Every action but a drop keeps the amount of each kind of item over
  player, open container and cursor, a drop only removes; stacks of at most 64 stay so; and a rule other
  than the quick move that reports no change has changed nothing.\<close>

theorem click_conserves:
  assumes "length (player iv) = kInventorySlots"
  shows "held k (fst (ApplyContainerClick c iv)) \<le> held k iv \<and>
    (action_type c \<noteq> kActionDrop \<longrightarrow> held k (fst (ApplyContainerClick c iv)) = held k iv) \<and>
    (all_small iv \<longrightarrow> all_small (fst (ApplyContainerClick c iv))) \<and>
    (action_type c \<noteq> kActionQuickMove \<and> \<not> snd (ApplyContainerClick c iv) \<longrightarrow> fst (ApplyContainerClick c iv) = iv)"
  by (rule click_facts[OF assms])

definition demo_inv :: inv_ref where
  "demo_inv = \<lparr>player = (replicate 40 no_slot)[0 := \<lparr>item_id = 5, cnt = 60, pmeta = 0\<rparr>], container = None,
     cursor = \<lparr>item_id = 5, cnt = 10, pmeta = 0\<rparr>\<rparr>"

definition left_on :: "u16 \<Rightarrow> container_click" where
  "left_on i = \<lparr>action_type = kActionClick, button = kButtonLeft, mods = 0, container_id = 0, slot = i, click_count = 0\<rparr>"

theorem click_conserves_witness:
  "held (5, 0) (fst (ApplyContainerClick (left_on 0) demo_inv)) = 70"
proof -
  have "held (5, 0) (fst (ApplyContainerClick (left_on 0) demo_inv)) = held (5, 0) demo_inv"
    using click_conserves[of demo_inv "(5, 0)" "left_on 0"]
    by (simp add: demo_inv_def left_on_def click_consts)
  also have "held (5, 0) demo_inv = 70" by code_simp
  finally show ?thesis .
qed

end
