(* ===== verification/InventoryHandler.thy ===== *)
theory InventoryHandler
  imports InventoryProps
begin

text \<open>
  \<open>InventoryActionHandler::handle\<close> after the message is parsed, and \<open>giveItem\<close>. The open container of a
  player is the slot vector \<open>slotsRef()\<close> resolves to (the session's owned copy, or the live component of
  the machine, so that there always is one): rules change it in place, while the player slots and cursor are copies that are committed
  only when a rule reports a change. Publishing and persisting are the effects the handler returns.
\<close>

section \<open>The handler\<close>

datatype session_kind = Chest | Machine | Workbench

type_synonym pos3 = "i32 \<times> i32 \<times> i32"

text \<open>\<open>s_live\<close> is the \<open>InventoryContainer\<close> of the machine entity, when the link is established and the
  entity exists (\<open>reg->try_get\<close>); \<open>s_own\<close> is the session's own vector.\<close>

record session =
  s_kind :: session_kind
  s_pos :: pos3
  s_type :: u16
  s_own :: "pslot list"
  s_live :: "pslot list option"

definition kChestEntityType :: u16 where "kChestEntityType = 3"

definition isMachine :: "session \<Rightarrow> bool" where
  "isMachine s \<longleftrightarrow> s_kind s = Machine"

definition slotsRef :: "session \<Rightarrow> pslot list" where
  "slotsRef s = (if \<not> isMachine s then s_own s else (case s_live s of None \<Rightarrow> s_own s | Some ss \<Rightarrow> ss))"

text \<open>Assignment of the vector that \<open>slotsRef\<close> points to.\<close>

definition put_ref :: "pslot list \<Rightarrow> session \<Rightarrow> session" where
  "put_ref ss s =
     (if \<not> isMachine s \<or> s_live s = None then s\<lparr>s_own := ss\<rparr> else s\<lparr>s_live := Some ss\<rparr>)"

lemma slotsRef_put_ref [simp]: "slotsRef (put_ref ss s) = ss"
  by (auto simp: slotsRef_def put_ref_def isMachine_def split: option.splits)

lemma slotsRef_own [simp]: "s_kind s \<noteq> Machine \<Longrightarrow> slotsRef s = s_own s"
  by (simp add: slotsRef_def isMachine_def)

record inv_world =
  store :: inv_store
  sessions :: "(u64, session) umap"

datatype inv_effect =
    MachineOutput u16 u16 u8
  | PublishFull
  | SaveGrid pos3 "pslot list"
  | SaveSlots pos3 "pslot list" u16

text \<open>\<open>slots_in\<close> stands for \<open>MachineRegistry::Get\<close>: the number of input slots of a known machine.\<close>

definition quest_candidate :: "(u16 \<Rightarrow> u16 option) \<Rightarrow> container_click \<Rightarrow> session option \<Rightarrow> inv_ref \<Rightarrow> (u16 \<times> u8) option" where
  "quest_candidate slots_in c sess iv =
     (case sess of None \<Rightarrow> None
      | Some s \<Rightarrow>
          if container_id c = 1 \<and> isMachine s \<and> action_type c \<noteq> kActionDrop
          then (case slots_in (s_type s) of None \<Rightarrow> None
                | Some n \<Rightarrow>
                    if slot c \<ge> n \<and> unat (slot c) < kInventorySlots
                    then (case SlotAt iv 1 (slot c) of None \<Rightarrow> None
                          | Some src \<Rightarrow> if item_id src \<noteq> 0 then Some (item_id src, cnt src) else None)
                    else None)
          else None)"

definition handle_effects :: "container_click \<Rightarrow> session option \<Rightarrow> (u16 \<times> u8) option \<Rightarrow> inv_ref \<Rightarrow> inv_effect list" where
  "handle_effects c sess cand iv =
     (case (sess, cand, SlotAt iv 1 (slot c)) of
        (Some s, Some (it, n), Some src) \<Rightarrow>
          if item_id src \<noteq> it \<or> cnt src < n then [MachineOutput (s_type s) it n] else []
      | _ \<Rightarrow> []) @
     (case (sess, container iv) of
        (Some s, Some ss) \<Rightarrow>
          if container_id c = 1
          then [PublishFull,
                if s_kind s = Workbench then SaveGrid (s_pos s) ss
                else SaveSlots (s_pos s) ss (if isMachine s then s_type s else kChestEntityType)]
          else []
      | _ \<Rightarrow> [])"

text \<open>The slots of the open session are changed through the pointer the rules were given.\<close>

definition live_session :: "u64 \<Rightarrow> session option \<Rightarrow> pslot list option \<Rightarrow> inv_world \<Rightarrow> inv_world" where
  "live_session pid sess con w =
     (case sess of None \<Rightarrow> w
      | Some s \<Rightarrow> (case con of None \<Rightarrow> w | Some ss \<Rightarrow> w\<lparr>sessions := um_put pid (put_ref ss s) (sessions w)\<rparr>))"

definition handle :: "(u16 \<Rightarrow> u16 option) \<Rightarrow> u64 \<Rightarrow> container_click \<Rightarrow> inv_world \<Rightarrow> inv_world \<times> inv_effect list" where
  "handle slots_in pid c w =
     (let sess = (if container_id c \<noteq> 0 then um_find (sessions w) pid else None)
      in if pid = 0 \<or> (container_id c \<noteq> 0 \<and> sess = None) then (w, [])
         else
           let iv = \<lparr>player = getSlots (store w) pid,
                     container = (if container_id c = 1 then map_option slotsRef sess else None),
                     cursor = getCursor (store w) pid\<rparr>;
               cand = quest_candidate slots_in c sess iv
           in (case ApplyContainerClick c iv of
                 (iv', changed) \<Rightarrow>
                   let w1 = live_session pid sess (container iv') w
                   in if \<not> changed then (w1, [])
                      else (w1\<lparr>store := setSlotsAndCursor pid (player iv') (cursor iv') (store w)\<rparr>,
                            handle_effects c sess cand iv')))"

section \<open>Conservation by the handler\<close>

definition world_amount :: "item_key \<Rightarrow> u64 \<Rightarrow> inv_world \<Rightarrow> nat" where
  "world_amount k pid w =
     amount k (getSlots (store w) pid) + units k (getCursor (store w) pid) +
     (case um_find (sessions w) pid of None \<Rightarrow> 0 | Some s \<Rightarrow> amount k (slotsRef s))"

text \<open>A container appears after a click exactly when it was there before.\<close>

lemma put_slot_container: "container (put_slot cid i s iv) = None \<longleftrightarrow> container iv = None"
  by (simp add: put_slot_def)

lemma on_target_container: "container (fst (on_target rule c iv)) = None \<longleftrightarrow> container iv = None"
  by (auto simp: on_target_def put_slot_container split: option.splits)

lemma pickup_container: "container (fst (ApplyPickupAll c iv)) = None \<longleftrightarrow> container iv = None"
  by (cases "container iv") (simp_all add: ApplyPickupAll_def split: prod.splits)

lemma click_container:
  "action_type c \<noteq> kActionQuickMove \<Longrightarrow> container (fst (ApplyContainerClick c iv)) = None \<longleftrightarrow> container iv = None"
  by (simp add: ApplyContainerClick_def ApplyClick_def ApplyDragPlace_def ApplyDrop_def on_target_container
      pickup_container)

lemma amount_after_session:
  assumes "sess = um_find (sessions w) pid" "con = None \<longleftrightarrow> sess = None"
  shows "(case um_find (sessions (live_session pid sess con w)) pid of None \<Rightarrow> 0 | Some s \<Rightarrow> amount k (slotsRef s)) =
    opt_amount k con"
  using assms by (auto simp: live_session_def opt_amount_def um_simps split: option.splits)

lemma handle_facts:
  assumes "length (getSlots (store w) pid) = kInventorySlots"
    "action_type c \<noteq> kActionDrop" "action_type c \<noteq> kActionQuickMove"
  shows "world_amount k pid (fst (handle slots_in pid c w)) = world_amount k pid w"
proof -
  define sess where "sess = (if container_id c \<noteq> 0 then um_find (sessions w) pid else None)"
  define iv where "iv = \<lparr>player = getSlots (store w) pid,
    container = (if container_id c = 1 then map_option slotsRef sess else None), cursor = getCursor (store w) pid\<rparr>"
  obtain iv' ch where ap: "ApplyContainerClick c iv = (iv', ch)" by force
  have "length (player iv) = kInventorySlots" using assms(1) by (simp add: iv_def)
  from click_facts[OF this, of k c] have same: "held k iv' = held k iv" and noop: "\<not> ch \<Longrightarrow> iv' = iv"
    using assms(2,3) ap by auto
  have con: "container iv' = None \<longleftrightarrow> container iv = None" using click_container[OF assms(3), of iv] ap by simp
  show ?thesis
  proof (cases "pid = 0 \<or> (container_id c \<noteq> 0 \<and> sess = None)")
    case False
    have h: "fst (handle slots_in pid c w) = (let w1 = live_session pid sess (container iv') w in
        if ch then w1\<lparr>store := setSlotsAndCursor pid (player iv') (cursor iv') (store w)\<rparr> else w1)"
      using False
      unfolding handle_def Let_def sess_def[symmetric] iv_def[symmetric] ap prod.case by auto
    have st: "store (live_session pid s c w) = store w" for s c
      by (simp add: live_session_def split: option.splits)
    have cash: "amount k (getSlots (store (fst (handle slots_in pid c w))) pid) +
        units k (getCursor (store (fst (handle slots_in pid c w))) pid) = amount k (player iv') + units k (cursor iv')"
      using noop unfolding h
      by (auto simp: Let_def st getSlots_def getCursor_def setSlotsAndCursor_def um_simps iv_def)
    have live: "sessions (fst (handle slots_in pid c w)) = sessions (live_session pid sess (container iv') w)"
      unfolding h by (simp add: Let_def)
    show ?thesis
    proof (cases "container_id c = 1")
      case True
      then have "container iv' = None \<longleftrightarrow> um_find (sessions w) pid = None"
        using con by (simp add: iv_def sess_def)
      moreover have "sess = um_find (sessions w) pid" using True by (simp add: sess_def)
      ultimately have "(case um_find (sessions (live_session pid sess (container iv') w)) pid of
          None \<Rightarrow> 0 | Some s \<Rightarrow> amount k (slotsRef s)) = opt_amount k (container iv')"
        by (intro amount_after_session) simp_all
      moreover have "opt_amount k (container iv) = (case um_find (sessions w) pid of None \<Rightarrow> 0 | Some s \<Rightarrow> amount k (slotsRef s))"
        using True by (simp add: iv_def sess_def opt_amount_def split: option.splits)
      moreover have "amount k (player iv) + units k (cursor iv) =
          amount k (getSlots (store w) pid) + units k (getCursor (store w) pid)" by (simp add: iv_def)
      ultimately show ?thesis
        using same cash unfolding world_amount_def live held_def by linarith
    next
      case no: False
      then have "container iv = None" by (simp add: iv_def)
      then have "container iv' = None" using con by simp
      then have "live_session pid sess (container iv') w = w" by (simp add: live_session_def split: option.splits)
      then show ?thesis
        using same cash live \<open>container iv' = None\<close> no
        by (simp add: world_amount_def held_def iv_def opt_amount_def)
    qed
  qed (simp add: handle_def Let_def sess_def)
qed

text \<open>The handler conserves items. A click that is neither a drop nor a quick move keeps, over the
  player, the cursor and the open container, the amount of each kind of item.\<close>

theorem handle_conserves:
  assumes "length (getSlots (store w) pid) = kInventorySlots"
    "action_type c \<noteq> kActionDrop" "action_type c \<noteq> kActionQuickMove"
  shows "world_amount k pid (fst (handle slots_in pid c w)) = world_amount k pid w"
  by (rule handle_facts[OF assms])

definition demo_world :: inv_world where
  "demo_world = \<lparr>store = \<lparr>inventories = [(1, player demo_inv)], cursors = [(1, cursor demo_inv)]\<rparr>,
     sessions = [(1, \<lparr>s_kind = Chest, s_pos = (0, 0, 0), s_type = 3, s_own = [\<lparr>item_id = 5, cnt = 20, pmeta = 0\<rparr>], s_live = None\<rparr>)]\<rparr>"

definition chest_click :: "u8 \<Rightarrow> container_click" where
  "chest_click act = \<lparr>action_type = act, button = kButtonLeft, mods = 0, container_id = 1, slot = 0, click_count = 0\<rparr>"

theorem handle_conserves_witness:
  "world_amount (5, 0) 1 (fst (handle (\<lambda>_. None) 1 (chest_click kActionClick) demo_world)) = 90"
proof -
  have "world_amount (5, 0) 1 (fst (handle (\<lambda>_. None) 1 (chest_click kActionClick) demo_world)) =
      world_amount (5, 0) 1 demo_world"
    by (rule handle_conserves)
      (simp_all add: demo_world_def demo_inv_def getSlots_def chest_click_def click_consts)
  also have "world_amount (5, 0) 1 demo_world = 90" by code_simp
  finally show ?thesis .
qed

text \<open>A player whose slots are all taken, one of them by 50 of the item the chest holds a stack of.\<close>

definition full_world :: inv_world where
  "full_world = \<lparr>store = \<lparr>inventories = [(1, (replicate 40 \<lparr>item_id = 9, cnt = 64, pmeta = 0\<rparr>)[0 := \<lparr>item_id = 5, cnt = 50, pmeta = 0\<rparr>])],
       cursors = []\<rparr>,
     sessions = [(1, \<lparr>s_kind = Chest, s_pos = (0, 0, 0), s_type = 3, s_own = [\<lparr>item_id = 5, cnt = 64, pmeta = 0\<rparr>], s_live = None\<rparr>)]\<rparr>"

text \<open>A quick move out of a container that fits only in part destroys items. The rule merges 14 of
  the 64 items into the player copy, puts 50 back into the live chest slot and reports no change, so the
  handler drops the player copy: the 14 are gone, and nothing is published or saved.\<close>

theorem quick_move_loses_items:
  "world_amount (5, 0) 1 full_world = 114 \<and>
   world_amount (5, 0) 1 (fst (handle (\<lambda>_. None) 1 (chest_click kActionQuickMove) full_world)) = 100 \<and>
   snd (handle (\<lambda>_. None) 1 (chest_click kActionQuickMove) full_world) = []"
  by (intro conjI; code_simp)

section \<open>Giving items\<close>

definition of_item :: "u16 \<Rightarrow> pslot \<Rightarrow> nat" where
  "of_item it s = (if item_id s = it then unat (cnt s) else 0)"

definition space_for :: "u16 \<Rightarrow> pslot \<Rightarrow> nat" where
  "space_for it s = (if item_id s = it then 64 - unat (cnt s) else if item_id s = 0 then 64 else 0)"

definition item_sum :: "u16 \<Rightarrow> pslot list \<Rightarrow> nat" where
  "item_sum it ss = sum_list (map (of_item it) ss)"

definition space_sum :: "u16 \<Rightarrow> pslot list \<Rightarrow> nat" where
  "space_sum it ss = sum_list (map (space_for it) ss)"

lemma sums_simps [simp]:
  "item_sum it [] = 0" "item_sum it (s # ss) = of_item it s + item_sum it ss"
  "space_sum it [] = 0" "space_sum it (s # ss) = space_for it s + space_sum it ss"
  by (simp_all add: item_sum_def space_sum_def)

lemma sums_update:
  "i < length ss \<Longrightarrow> item_sum it (ss[i := s]) + of_item it (ss ! i) = item_sum it ss + of_item it s"
  "i < length ss \<Longrightarrow> space_sum it (ss[i := s]) + space_for it (ss ! i) = space_sum it ss + space_for it s"
  by (induction ss arbitrary: i) (auto simp: nth_Cons split: nat.splits)

text \<open>What one step of a pass does to its slot.\<close>

definition give_step :: "u16 \<Rightarrow> pslot \<Rightarrow> int \<Rightarrow> pslot \<Rightarrow> int \<Rightarrow> bool" where
  "give_step it s rem s' rem' \<longleftrightarrow>
     of_item it s' + space_for it s' = of_item it s + space_for it s \<and>
     int (of_item it s') + rem' = int (of_item it s) + rem \<and> 0 \<le> rem' \<and> rem' \<le> rem \<and>
     (\<forall>j. j \<noteq> it \<and> j \<noteq> 0 \<longrightarrow> of_item j s' = of_item j s)"

lemma narrow_rem: "0 \<le> rem \<Longrightarrow> rem \<le> 255 \<Longrightarrow> uint (word_of_int rem :: u8) = rem"
  by (simp add: uint_word_of_int)

lemma top_up_step:
  assumes "0 < rem" "rem \<le> 255" "it \<noteq> 0" "top_up it s rem = (s', rem')"
  shows "give_step it s rem s' rem' \<and> (0 < rem' \<longrightarrow> item_id s' = it \<longrightarrow> space_for it s' = 0) \<and> item_id s' = item_id s"
proof (cases "item_id s = it \<and> cnt s < kMaxStack")
  case True
  define add where "add = min (word_of_int rem) (kMaxStack - cnt s)"
  have r: "s' = s\<lparr>cnt := cnt s + add\<rparr>" "rem' = rem - uint add"
    using assms(4) True by (auto simp: top_up_def Let_def add_def)
  have lt: "unat (cnt s) < 64" using True by (simp add: kMaxStack_def word_less_nat_alt)
  have room: "uint (kMaxStack - cnt s) = 64 - int (unat (cnt s))"
    using True lt by (subst uint_nat, subst unat_minus_le) (auto simp: kMaxStack_def)
  have add: "uint add = min rem (64 - int (unat (cnt s)))"
    using narrow_rem[of rem] assms(1,2) room by (simp add: add_def min_def word_le_def)
  define a where "a = unat add"
  have ua: "uint add = int a" by (simp add: a_def)
  have a: "int a \<le> rem" "a \<le> 64 - unat (cnt s)" "int a = rem \<or> a = 64 - unat (cnt s)"
    using add lt unfolding ua by linarith+
  then have sum: "unat (cnt s + add) = unat (cnt s) + a" using lt by (simp add: unat_word_ariths a_def[symmetric])
  have "of_item it s = unat (cnt s)" "space_for it s = 64 - unat (cnt s)"
    "of_item it s' = unat (cnt s) + a" "space_for it s' = 64 - (unat (cnt s) + a)" "rem' = rem - int a"
    "item_id s' = item_id s" "\<forall>j. j \<noteq> it \<longrightarrow> of_item j s' = of_item j s"
    using True sum by (auto simp: r ua of_item_def space_for_def)
  then show ?thesis using a lt unfolding give_step_def by auto
next
  case False
  then have "s' = s" "rem' = rem" using assms(4) by (auto simp: top_up_def)
  then show ?thesis using False assms(1) by (auto simp: give_step_def space_for_def kMaxStack_def word_less_nat_alt)
qed

lemma take_free_step:
  assumes "0 < rem" "rem \<le> 255" "it \<noteq> 0" "take_free it s rem = (s', rem')" "item_id s = it \<longrightarrow> space_for it s = 0"
  shows "give_step it s rem s' rem' \<and> (0 < rem' \<longrightarrow> space_for it s' = 0)"
proof (cases "item_id s = 0")
  case True
  define add where "add = min (word_of_int rem) kMaxStack"
  have r: "s' = \<lparr>item_id = it, cnt = add, pmeta = 0\<rparr>" "rem' = rem - uint add"
    using assms(4) True by (auto simp: take_free_def Let_def add_def)
  have add: "uint add = min rem 64"
    using narrow_rem[of rem] assms(1,2) by (simp add: add_def min_def word_le_def kMaxStack_def)
  define a where "a = unat add"
  have ua: "uint add = int a" by (simp add: a_def)
  have a: "int a \<le> rem" "a \<le> 64" "int a = rem \<or> a = 64"
    using add unfolding ua by linarith+
  have "of_item it s = 0" "space_for it s = 64" "of_item it s' = a" "space_for it s' = 64 - a" "rem' = rem - int a"
    "\<forall>j. j \<noteq> it \<and> j \<noteq> 0 \<longrightarrow> of_item j s' = of_item j s"
    using True assms(3) by (auto simp: r ua of_item_def space_for_def a_def[symmetric])
  then show ?thesis using a unfolding give_step_def by auto
next
  case False
  then have "s' = s" "rem' = rem" using assms(4) by (auto simp: take_free_def)
  then show ?thesis using False assms(1,5) by (auto simp: give_step_def space_for_def)
qed

definition gave :: "u16 \<Rightarrow> pslot list \<Rightarrow> int \<Rightarrow> pslot list \<Rightarrow> int \<Rightarrow> bool" where
  "gave it ss rem ss' rem' \<longleftrightarrow>
     length ss' = length ss \<and> item_sum it ss' + space_sum it ss' = item_sum it ss + space_sum it ss \<and>
     int (item_sum it ss') + rem' = int (item_sum it ss) + rem \<and> 0 \<le> rem' \<and> rem' \<le> rem \<and>
     (\<forall>j. j \<noteq> it \<and> j \<noteq> 0 \<longrightarrow> item_sum j ss' = item_sum j ss)"

lemma gave_refl: "0 \<le> rem \<Longrightarrow> gave it ss rem ss rem"
  by (simp add: gave_def)

lemma gave_trans: "gave it ss r ss1 r1 \<Longrightarrow> gave it ss1 r1 ss2 r2 \<Longrightarrow> gave it ss r ss2 r2"
  by (simp add: gave_def)

lemma give_pass_facts:
  assumes step: "\<And>s rem s' rem'. 0 < rem \<Longrightarrow> rem \<le> 255 \<Longrightarrow> P s \<Longrightarrow> f s rem = (s', rem') \<Longrightarrow>
      give_step it s rem s' rem' \<and> (0 < rem' \<longrightarrow> Q s')"
    and "give_pass f ss rem = (ss', rem')" "0 \<le> rem" "rem \<le> 255" "list_all P ss"
  shows "gave it ss rem ss' rem' \<and> (0 < rem' \<longrightarrow> list_all Q ss')"
  using assms(2-)
proof (induction ss arbitrary: rem ss' rem')
  case (Cons s ss)
  show ?case
  proof (cases "rem \<le> 0")
    case False
    obtain s1 r1 where f: "f s rem = (s1, r1)" by force
    obtain ss1 where rec: "give_pass f ss r1 = (ss1, rem')" and ss': "ss' = s1 # ss1"
      using Cons.prems(1) False f by (auto split: prod.splits)
    have st: "give_step it s rem s1 r1 \<and> (0 < r1 \<longrightarrow> Q s1)" using step[OF _ _ _ f] Cons.prems False by simp
    then have "0 \<le> r1" "r1 \<le> 255" using Cons.prems(3) by (auto simp: give_step_def)
    from Cons.IH[OF rec this] Cons.prems(4) st show ?thesis
      by (auto simp: gave_def give_step_def ss')
  qed (use Cons.prems in \<open>simp add: gave_def\<close>)
qed (simp add: gave_def)

lemma give_target_facts:
  assumes "give_target it target ss rem = (ss', rem')" "0 < rem" "rem \<le> 255" "it \<noteq> 0"
    "length ss = kInventorySlots"
  shows "gave it ss rem ss' rem'"
proof (cases "0 \<le> target \<and> target < int kInventorySlots")
  case True
  let ?i = "nat target"
  obtain s1 r1 where st: "(if item_id (ss ! ?i) = 0 then take_free it (ss ! ?i) rem else top_up it (ss ! ?i) rem) = (s1, r1)"
    by force
  have res: "ss' = ss[?i := s1]" "rem' = r1" using assms(1) True st by (auto simp: give_target_def Let_def)
  have st1: "give_step it (ss ! ?i) rem s1 r1"
    using take_free_step[OF assms(2-4), of "ss ! ?i" s1 r1] top_up_step[OF assms(2-4), of "ss ! ?i" s1 r1] st assms(4)
    by (auto split: if_splits)
  have i: "?i < length ss" using True assms(5) by (simp add: kInventorySlots_def nat_less_iff)
  have u: "item_sum j (ss[?i := s1]) + of_item j (ss ! ?i) = item_sum j ss + of_item j s1" for j
    by (rule sums_update(1)[OF i])
  have "item_sum j (ss[?i := s1]) = item_sum j ss" if "j \<noteq> it" "j \<noteq> 0" for j
    using u[of j] st1 that by (simp add: give_step_def)
  then show ?thesis
    using st1 u[of it] sums_update(2)[OF i, of it s1] unfolding res gave_def give_step_def by simp
next
  case False
  then show ?thesis using assms(1,2) by (auto simp: give_target_def gave_refl)
qed

text \<open>\<open>giveItem\<close> stores exactly what fits. The amount of the item grows by the count or, if smaller,
  by the room the player has on stacks of it and in free slots; other items are untouched; and the result
  is true exactly when everything fitted.\<close>

theorem giveItem_exact:
  assumes "it \<noteq> 0" "length (getSlots st pid) = kInventorySlots" "giveItem pid it n target st = (st', ok)"
  shows "item_sum it (getSlots st' pid) =
      item_sum it (getSlots st pid) + min (unat n) (space_sum it (getSlots st pid)) \<and>
    (ok \<longleftrightarrow> unat n \<le> space_sum it (getSlots st pid)) \<and>
    (\<forall>j. j \<noteq> it \<and> j \<noteq> 0 \<longrightarrow> item_sum j (getSlots st' pid) = item_sum j (getSlots st pid))"
proof (cases "n = 0")
  case True
  then show ?thesis using assms(3) by (simp add: giveItem_def)
next
  case False
  let ?ss = "getSlots st pid" and ?r = "uint n"
  have r: "0 < ?r" "?r \<le> 255"
    using False uint_lt2p[of n] uint_0_iff[of n] uint_nonnegative[of n] by (auto simp: less_le)
  obtain ss1 r1 where t: "give_target it target ?ss ?r = (ss1, r1)" by force
  obtain ss2 r2 where p1: "(if r1 > 0 then give_pass (top_up it) ss1 r1 else (ss1, r1)) = (ss2, r2)" by force
  obtain ss3 r3 where p2: "(if r2 > 0 then give_pass (take_free it) ss2 r2 else (ss2, r2)) = (ss3, r3)" by force
  have res: "getSlots st' pid = ss3" "ok \<longleftrightarrow> r3 = 0"
    using assms(3) False t p1 p2 by (auto simp: giveItem_def setSlots_def getSlots_def um_simps split: prod.splits)
  have g1: "gave it ?ss ?r ss1 r1" by (rule give_target_facts[OF t r assms(1,2)])
  then have b1: "0 \<le> r1" "r1 \<le> 255" using r(2) by (auto simp: gave_def)
  have g2: "gave it ss1 r1 ss2 r2 \<and> (0 < r2 \<longrightarrow> list_all (\<lambda>s. item_id s = it \<longrightarrow> space_for it s = 0) ss2)"
  proof (cases "0 < r1")
    case True
    show ?thesis
      by (rule give_pass_facts[where P = "\<lambda>_. True" and f = "top_up it"])
        (use top_up_step assms(1) p1 True b1 in \<open>auto simp: list_all_iff\<close>)
  qed (use p1 b1 gave_refl in auto)
  then have b2: "0 \<le> r2" "r2 \<le> 255" using b1 by (auto simp: gave_def)
  have g3: "gave it ss2 r2 ss3 r3 \<and> (0 < r3 \<longrightarrow> list_all (\<lambda>s. space_for it s = 0) ss3)"
  proof (cases "0 < r2")
    case True
    show ?thesis
      by (rule give_pass_facts[where P = "\<lambda>s. item_id s = it \<longrightarrow> space_for it s = 0" and f = "take_free it"])
        (use take_free_step assms(1) p2 True b2 g2 in auto)
  qed (use p2 b2 gave_refl in auto)
  have g: "gave it ?ss ?r ss3 r3" using g1 g2 g3 gave_trans by blast
  have "list_all (\<lambda>s. space_for it s = 0) ss \<Longrightarrow> space_sum it ss = 0" for ss by (induction ss) auto
  then have "0 < r3 \<Longrightarrow> space_sum it ss3 = 0" using g3 by blast
  moreover have "?r = int (unat n)" by simp
  ultimately show ?thesis
    using g unfolding res gave_def by (cases "r3 = 0") (simp_all add: min_def del: uint_nat of_nat_unat)
qed

theorem giveItem_exact_witness:
  "\<exists>st' ok. giveItem 1 5 100 3 (store demo_world) = (st', ok) \<and> ok \<and> item_sum 5 (getSlots st' 1) = 160"
proof -
  obtain st' ok where g: "giveItem 1 5 100 3 (store demo_world) = (st', ok)" by force
  have "length (getSlots (store demo_world) 1) = kInventorySlots"
    by (simp add: demo_world_def demo_inv_def getSlots_def click_consts)
  from giveItem_exact[OF _ this g] have "item_sum 5 (getSlots st' 1) =
      item_sum 5 (getSlots (store demo_world) 1) + min 100 (space_sum 5 (getSlots (store demo_world) 1)) \<and>
      (ok \<longleftrightarrow> 100 \<le> space_sum 5 (getSlots (store demo_world) 1))" by simp
  moreover have "item_sum 5 (getSlots (store demo_world) 1) = 60"
    "100 \<le> space_sum 5 (getSlots (store demo_world) 1)"
    by code_simp+
  ultimately show ?thesis using g by auto
qed

end
