(* ===== verification/ResourceDrain.thy ===== *)
theory ResourceDrain
  imports Complex_Main PipeFluid
begin

text \<open>
  The owner side of a drain: \<open>src/apps/simcore/Network/ResourceDrainHandler.cpp\<close>. The machine buffers are
  the two components it reads, keyed by the 32-bit entity that \<open>static_cast<entt::entity>(owner_id)\<close>
  yields. A \<open>double\<close> is a rational: below \<open>2 ^ 53\<close> the subtraction of an integral amount not above the
  stored one is exact. Published messages are the output of an operation; parsing and logging are left
  out, and the set \<open>conflict_warned_\<close> is the list of its elements.
\<close>

section \<open>Machine buffers\<close>

record fluid_storage =
  fs_fluid :: u32
  fs_amount :: int
  fs_capacity :: int
  maxInput :: int
  maxOutput :: int

definition isFull :: "fluid_storage \<Rightarrow> bool" where
  "isFull f \<longleftrightarrow> fs_amount f \<ge> fs_capacity f"

definition isEmpty :: "fluid_storage \<Rightarrow> bool" where
  "isEmpty f \<longleftrightarrow> fs_amount f \<le> 0"

definition addFluid :: "int \<Rightarrow> fluid_storage \<Rightarrow> fluid_storage \<times> int" where
  "addFluid amt f =
     (let space = fs_capacity f - fs_amount f;
          acc = (if amt < space then amt else space);
          acc = (if acc < 0 then 0 else acc);
          acc = (if acc > maxInput f then maxInput f else acc)
      in (f\<lparr>fs_amount := fs_amount f + acc\<rparr>, acc))"

definition removeFluid :: "int \<Rightarrow> fluid_storage \<Rightarrow> fluid_storage \<times> int" where
  "removeFluid amt f =
     (let avail = (if fs_amount f < amt then fs_amount f else amt);
          avail = (if avail > maxOutput f then maxOutput f else avail)
      in (f\<lparr>fs_amount := fs_amount f - avail\<rparr>, avail))"

record machine_buffers =
  steam :: "rat option"
  fluid :: "fluid_storage option"

section \<open>State and messages\<close>

record transfer_request =
  rq_id :: u64
  rq_port :: u64
  rq_kind :: resource_kind
  rq_resource :: u32
  rq_amount :: int

record transfer_response =
  rs_id :: u64
  rs_port :: u64
  rs_kind :: resource_kind
  rs_resource :: u32
  rs_accepted :: int

record replay_entry =
  response :: transfer_response
  re_owner :: u64

type_synonym registration_key = "u64 \<times> resource_kind \<times> u64 \<times> u64"

definition registrationKey :: "resource_port \<Rightarrow> registration_key" where
  "registrationKey p = (owner_id p, port_kind p, port_id p, epoch p)"

record drain_handler =
  buffers :: "(u32, machine_buffers) umap"
  steam_id :: u16
  drain_ports :: "(u64, resource_port) umap"
  replay :: "(u64, replay_entry) umap"
  replay_order :: "u64 list"
  conflict_warned :: "registration_key list"
  conflict_warn_order :: "registration_key list"

definition kReplayCacheMaxEntries :: nat where "kReplayCacheMaxEntries = 4096"
definition kConflictWarnMaxEntries :: nat where "kConflictWarnMaxEntries = 1024"

section \<open>Conflict warnings\<close>

fun trim_conflicts :: "registration_key list \<Rightarrow> registration_key list \<Rightarrow> registration_key list \<times> registration_key list" where
  "trim_conflicts warned [] = (warned, [])"
| "trim_conflicts warned (k # ks) =
     (if length (k # ks) > kConflictWarnMaxEntries then trim_conflicts (removeAll k warned) ks else (warned, k # ks))"

definition shouldWarnConflict :: "resource_port \<Rightarrow> drain_handler \<Rightarrow> drain_handler \<times> bool" where
  "shouldWarnConflict p h =
     (let key = registrationKey p
      in if key \<in> set (conflict_warned h) then (h, False)
         else (case trim_conflicts (key # conflict_warned h) (conflict_warn_order h @ [key]) of
                 (w, ord) \<Rightarrow> (h\<lparr>conflict_warned := w, conflict_warn_order := ord\<rparr>, True)))"

definition forget_conflicts :: "(registration_key \<Rightarrow> bool) \<Rightarrow> drain_handler \<Rightarrow> drain_handler" where
  "forget_conflicts p h =
     h\<lparr>conflict_warned := filter (\<lambda>k. \<not> (p k \<and> k \<in> set (conflict_warn_order h))) (conflict_warned h),
       conflict_warn_order := filter (\<lambda>k. \<not> p k) (conflict_warn_order h)\<rparr>"

definition forgetPortConflicts :: "u64 \<Rightarrow> drain_handler \<Rightarrow> drain_handler" where
  "forgetPortConflicts pid = forget_conflicts (\<lambda>(_, _, p, _). p = pid)"

definition forgetOwnerConflicts :: "u64 \<Rightarrow> drain_handler \<Rightarrow> drain_handler" where
  "forgetOwnerConflicts ow = forget_conflicts (\<lambda>(o', _, _, _). o' = ow)"

section \<open>Ports\<close>

definition put_port :: "resource_port \<Rightarrow> drain_handler \<Rightarrow> drain_handler" where
  "put_port p h = h\<lparr>drain_ports := um_put (port_id p) p (drain_ports h)\<rparr>"

text \<open>The second component tells whether the conflict warning is logged.\<close>

definition handlePortRegister :: "resource_port \<Rightarrow> drain_handler \<Rightarrow> drain_handler \<times> bool" where
  "handlePortRegister p h =
     (if port_id p = 0 then (h, False)
      else (case um_find (drain_ports h) (port_id p) of
              None \<Rightarrow> (put_port p h, False)
            | Some old \<Rightarrow>
                if owner_id old = owner_id p \<and> port_kind old = port_kind p \<and> epoch old = epoch p then (put_port p h, False)
                else if epoch p < epoch old then (h, False)
                else if owner_id old \<noteq> owner_id p \<or> port_kind old \<noteq> port_kind p
                  then (case shouldWarnConflict p h of (h', warn) \<Rightarrow> (put_port p h', warn))
                else (put_port p (forgetPortConflicts (port_id p) h), False)))"

definition handlePortRemove :: "registration_key \<Rightarrow> drain_handler \<Rightarrow> drain_handler" where
  "handlePortRemove key h =
     (case key of (ow, k, pid, ep) \<Rightarrow>
        (case um_find (drain_ports h) pid of
           None \<Rightarrow> h
         | Some p \<Rightarrow>
             if owner_id p \<noteq> ow \<or> port_kind p \<noteq> k \<or> epoch p \<noteq> ep then h
             else (let h1 = forgetPortConflicts pid (h\<lparr>drain_ports := um_erase pid (drain_ports h)\<rparr>)
                   in h1\<lparr>replay := um_erase_if (\<lambda>_ e. rs_port (response e) = pid) (replay h1)\<rparr>)))"

text \<open>The keys of the published \<open>ResourcePortRemove\<close> messages are the second component.\<close>

definition removeOwnerPorts :: "u64 \<Rightarrow> drain_handler \<Rightarrow> drain_handler \<times> registration_key list" where
  "removeOwnerPorts ow h =
     (let gone = filter (\<lambda>(_, p). owner_id p = ow) (drain_ports h);
          msgs = map (\<lambda>(_, p). (ow, port_kind p, port_id p, epoch p)) gone;
          h1 = h\<lparr>drain_ports := um_erase_if (\<lambda>_ p. owner_id p = ow) (drain_ports h)\<rparr>
      in if gone = [] then (h1, [])
         else (let h2 = forgetOwnerConflicts ow h1
               in (h2\<lparr>replay := um_erase_if (\<lambda>_ e. re_owner e = ow) (replay h2)\<rparr>, msgs)))"

section \<open>Draining\<close>

definition drainSteamOutput :: "u16 \<Rightarrow> transfer_request \<Rightarrow> int \<Rightarrow> rat \<Rightarrow> rat \<times> int" where
  "drainSteamOutput sid rq limit stored =
     (if sid = 0 \<or> rq_resource rq \<noteq> ucast sid then (stored, 0)
      else
        let available = \<lfloor>max 0 stored\<rfloor>;
            wanted = min (rq_amount rq) limit;
            acc = min wanted available
        in if acc \<le> 0 then (stored, 0) else (stored - of_int acc, acc))"

definition drainFluidStorage :: "transfer_request \<Rightarrow> int \<Rightarrow> fluid_storage \<Rightarrow> fluid_storage \<times> int" where
  "drainFluidStorage rq limit f =
     (if fs_fluid f = 0 \<or> rq_resource rq \<noteq> fs_fluid f then (f, 0) else removeFluid (min (rq_amount rq) limit) f)"

definition drainMachineBuffer :: "resource_port \<Rightarrow> transfer_request \<Rightarrow> drain_handler \<Rightarrow> drain_handler \<times> int" where
  "drainMachineBuffer p rq h =
     (let entity = (ucast (owner_id p) :: u32);
          limit = (if port_rate p > 0 then port_rate p else rq_amount rq)
      in (case um_find (buffers h) entity of
            None \<Rightarrow> (h, 0)
          | Some b \<Rightarrow>
              (case steam b of
                 Some st \<Rightarrow>
                   (case drainSteamOutput (steam_id h) rq limit st of
                      (st', acc) \<Rightarrow> (h\<lparr>buffers := um_put entity (b\<lparr>steam := Some st'\<rparr>) (buffers h)\<rparr>, acc))
               | None \<Rightarrow>
                   (case fluid b of
                      Some f \<Rightarrow>
                        (case drainFluidStorage rq limit f of
                           (f', acc) \<Rightarrow> (h\<lparr>buffers := um_put entity (b\<lparr>fluid := Some f'\<rparr>) (buffers h)\<rparr>, acc))
                    | None \<Rightarrow> (h, 0)))))"

fun evict :: "u64 list \<Rightarrow> (u64, replay_entry) umap \<Rightarrow> (u64, replay_entry) umap \<times> u64 list" where
  "evict [] r = (if length r > kReplayCacheMaxEntries then [] else r, [])"
| "evict (i # is) r =
     (if length r \<le> kReplayCacheMaxEntries then (r, i # is)
      else if um_find r i = None then evict is r
      else evict is (um_erase i r))"

definition cacheResponse :: "u64 \<Rightarrow> replay_entry \<Rightarrow> drain_handler \<Rightarrow> drain_handler" where
  "cacheResponse i e h =
     (if um_find (replay h) i \<noteq> None then h
      else (case evict (replay_order h @ [i]) (um_put i e (replay h)) of
              (r, ord) \<Rightarrow> h\<lparr>replay := r, replay_order := ord\<rparr>))"

definition zero_response :: "transfer_request \<Rightarrow> transfer_response" where
  "zero_response rq =
     \<lparr>rs_id = rq_id rq, rs_port = rq_port rq, rs_kind = rq_kind rq, rs_resource = rq_resource rq, rs_accepted = 0\<rparr>"

definition handleDrainRequest :: "transfer_request \<Rightarrow> drain_handler \<Rightarrow> drain_handler \<times> transfer_response" where
  "handleDrainRequest rq h =
     (if rq_id rq = 0 then (h, zero_response rq)
      else (case um_find (replay h) (rq_id rq) of
              Some e \<Rightarrow> (h, response e)
            | None \<Rightarrow>
                (case um_find (drain_ports h) (rq_port rq) of
                   None \<Rightarrow> (cacheResponse (rq_id rq) \<lparr>response = zero_response rq, re_owner = 0\<rparr> h, zero_response rq)
                 | Some p \<Rightarrow>
                     (case (if role p \<noteq> SOURCE \<or> port_kind p \<noteq> rq_kind rq \<or> rq_amount rq \<le> 0 \<or> rq_kind rq \<noteq> FLUID
                            then (h, 0) else drainMachineBuffer p rq h) of
                        (h1, acc) \<Rightarrow>
                          let rs = (zero_response rq)\<lparr>rs_accepted := acc\<rparr>
                          in (cacheResponse (rq_id rq) \<lparr>response = rs, re_owner = owner_id p\<rparr> h1, rs)))))"

end
