(* ===== verification/DrainProps.thy ===== *)
theory DrainProps
  imports ResourceDrain
begin

text \<open>
  The replay cache of the drain handler as an instance of the interface \<open>replay_server\<close>, and what one
  drain does to the machine buffers.
\<close>

section \<open>Frames\<close>

lemma register_frame:
  "replay (fst (handlePortRegister p h)) = replay h \<and> replay_order (fst (handlePortRegister p h)) = replay_order h \<and>
   buffers (fst (handlePortRegister p h)) = buffers h"
  by (auto simp: handlePortRegister_def put_port_def shouldWarnConflict_def Let_def forgetPortConflicts_def
      forget_conflicts_def split: option.splits prod.splits)

lemma drain_frame:
  "replay (fst (drainMachineBuffer p rq h)) = replay h \<and> replay_order (fst (drainMachineBuffer p rq h)) = replay_order h"
  by (simp add: drainMachineBuffer_def Let_def split: option.splits prod.splits)

section \<open>The replay cache\<close>

definition cache_ok :: "drain_handler \<Rightarrow> bool" where
  "cache_ok h \<longleftrightarrow> um_wf (replay h) \<and> fst ` set (replay h) \<subseteq> set (replay_order h)"

lemma um_length_le:
  assumes "um_wf r" "fst ` set r \<subseteq> set zs"
  shows "length r \<le> length zs"
proof -
  have "length r = card (fst ` set r)"
    using assms(1) distinct_card[of "map fst r"] by (simp add: um_wf_def)
  also have "\<dots> \<le> card (set zs)" using assms(2) by (intro card_mono) auto
  also have "\<dots> \<le> length zs" by (rule card_length)
  finally show ?thesis .
qed

lemma um_erase_keys: "fst ` set (um_erase i r) = fst ` set r - {i}"
  by (auto simp: AList.delete_eq)

text \<open>Eviction works from the front: what is late enough in the order survives.\<close>

lemma evict_facts:
  assumes "um_wf r" "fst ` set r \<subseteq> set (xs @ zs)" "length zs \<le> kReplayCacheMaxEntries" "evict (xs @ zs) r = (r', ord)"
  shows "\<exists>xs'. ord = xs' @ zs \<and> set xs' \<subseteq> set xs \<and> um_wf r' \<and> fst ` set r' \<subseteq> set ord \<and>
    (\<forall>i. i \<notin> set xs \<longrightarrow> um_find r' i = um_find r i)"
  using assms
proof (induction xs arbitrary: r)
  case Nil
  have "length r \<le> kReplayCacheMaxEntries" using um_length_le[of r zs] Nil by simp
  then have "r' = r" "ord = zs" using Nil.prems(4) by (cases zs; simp)+
  then show ?case using Nil by (intro exI[of _ "[]"]) simp
next
  case (Cons x xs)
  show ?case
  proof (cases "length r \<le> kReplayCacheMaxEntries")
    case True
    then have "r' = r" "ord = x # xs @ zs" using Cons.prems(4) by simp_all
    then show ?thesis using Cons.prems by (intro exI[of _ "x # xs"]) simp
  next
    case False
    define r1 where "r1 = (if um_find r x = None then r else um_erase x r)"
    have ev: "evict (xs @ zs) r1 = (r', ord)" using Cons.prems(4) False by (cases "um_find r x") (auto simp: r1_def)
    have "x \<notin> fst ` set r1" by (simp add: r1_def um_erase_keys map_of_eq_None_iff)
    moreover have "fst ` set r1 \<subseteq> fst ` set r" by (auto simp: r1_def um_erase_keys)
    ultimately have sub: "fst ` set r1 \<subseteq> set (xs @ zs)" using Cons.prems(2) by auto
    have wf: "um_wf r1" using Cons.prems(1) by (simp add: r1_def)
    have "um_find r1 i = um_find r i" if "i \<noteq> x" for i using that by (simp add: r1_def um_simps)
    then show ?thesis using Cons.IH[OF wf sub Cons.prems(3) ev] by fastforce
  qed
qed

lemma cacheResponse_facts:
  assumes "cache_ok h" "um_find (replay h) i = None" "replay_order h = xs @ zs" "length zs < kReplayCacheMaxEntries"
  shows "\<exists>xs'. replay_order (cacheResponse i e h) = xs' @ zs @ [i] \<and> set xs' \<subseteq> set xs \<and>
    cache_ok (cacheResponse i e h) \<and> buffers (cacheResponse i e h) = buffers h \<and>
    (\<forall>j. j \<notin> set xs \<longrightarrow> um_find (replay (cacheResponse i e h)) j = (if j = i then Some e else um_find (replay h) j))"
proof -
  obtain r ord where ev: "evict (xs @ zs @ [i]) (um_put i e (replay h)) = (r, ord)" by force
  have "set (um_put i e (replay h)) \<subseteq> insert (i, e) (set (replay h))" by (rule um_put_set)
  then have "fst ` set (um_put i e (replay h)) \<subseteq> set (xs @ zs @ [i])"
    using assms(1,3) by (fastforce simp: cache_ok_def)
  moreover have "um_wf (um_put i e (replay h))" using assms(1) by (auto simp: cache_ok_def)
  moreover have "length (zs @ [i]) \<le> kReplayCacheMaxEntries" using assms(4) by simp
  ultimately obtain xs' where "ord = xs' @ zs @ [i]" "set xs' \<subseteq> set xs" "um_wf r" "fst ` set r \<subseteq> set ord"
    "\<forall>j. j \<notin> set xs \<longrightarrow> um_find r j = um_find (um_put i e (replay h)) j"
    using evict_facts[of "um_put i e (replay h)" xs "zs @ [i]" r ord] ev by auto
  moreover have "cacheResponse i e h = h\<lparr>replay := r, replay_order := ord\<rparr>"
    using assms(2,3) ev by (simp add: cacheResponse_def)
  ultimately show ?thesis by (intro exI[of _ xs']) (simp add: cache_ok_def um_simps)
qed

section \<open>Requests and registrations\<close>

datatype drain_msg = Register resource_port | Drain transfer_request

fun serve_msg :: "drain_msg \<Rightarrow> drain_handler \<Rightarrow> drain_handler \<times> transfer_response option" where
  "serve_msg (Register p) h = (fst (handlePortRegister p h), None)"
| "serve_msg (Drain rq) h = (case handleDrainRequest rq h of (h', rs) \<Rightarrow> (h', Some rs))"

text \<open>A new request: what is cached for it and where it stands in the order.\<close>

lemma fresh_request_step:
  assumes "cache_ok h" "rq_id rq \<noteq> 0" "um_find (replay h) (rq_id rq) = None" "handleDrainRequest rq h = (h', rs)"
    "replay_order h = xs @ zs" "length zs < kReplayCacheMaxEntries"
  shows "\<exists>xs' e. replay_order h' = xs' @ zs @ [rq_id rq] \<and> set xs' \<subseteq> set xs \<and> cache_ok h' \<and> response e = rs \<and>
    (\<forall>j. j \<notin> set xs \<longrightarrow> um_find (replay h') j = (if j = rq_id rq then Some e else um_find (replay h) j))"
proof -
  obtain h1 e where h1: "replay h1 = replay h" "replay_order h1 = replay_order h" and h': "h' = cacheResponse (rq_id rq) e h1"
    and e: "response e = rs"
  proof (cases "um_find (drain_ports h) (rq_port rq)")
    case None
    then have "handleDrainRequest rq h =
        (cacheResponse (rq_id rq) \<lparr>response = zero_response rq, re_owner = 0\<rparr> h, zero_response rq)"
      using assms(2,3) by (simp add: handleDrainRequest_def)
    from trans[OF this[symmetric] assms(4)] have eqs: "h' = cacheResponse (rq_id rq) \<lparr>response = zero_response rq, re_owner = 0\<rparr> h" "rs = zero_response rq"
      by blast+
    show ?thesis
      by (rule that[of h "\<lparr>response = zero_response rq, re_owner = 0\<rparr>"]) (simp_all add: eqs)
  next
    case (Some p)
    obtain h1 acc where d: "(if role p \<noteq> SOURCE \<or> port_kind p \<noteq> rq_kind rq \<or> rq_amount rq \<le> 0 \<or> rq_kind rq \<noteq> FLUID
                            then (h, 0) else drainMachineBuffer p rq h) = (h1, acc)" by force
    then have fr: "replay h1 = replay h" "replay_order h1 = replay_order h"
      using drain_frame[of p rq h] by (auto split: if_splits)
    let ?e = "\<lparr>response = (zero_response rq)\<lparr>rs_accepted := acc\<rparr>, re_owner = owner_id p\<rparr>"
    have "handleDrainRequest rq h = (cacheResponse (rq_id rq) ?e h1, response ?e)"
      using assms(2,3) Some d by (simp add: handleDrainRequest_def Let_def)
    from trans[OF this[symmetric] assms(4)] have eqs: "h' = cacheResponse (rq_id rq) ?e h1" "rs = response ?e"
      by blast+
    show ?thesis by (rule that[of h1 ?e]) (simp_all only: eqs fr)
  qed
  have "cache_ok h1" using assms(1) h1 by (simp add: cache_ok_def)
  from cacheResponse_facts[OF this _ _ assms(6), of "rq_id rq" xs e] show ?thesis
    using assms(3,5) h1 h' e by auto
qed

definition cached :: "nat \<Rightarrow> drain_handler \<Rightarrow> drain_msg \<Rightarrow> transfer_response option \<Rightarrow> bool" where
  "cached n h q r \<longleftrightarrow> n = 0 \<or>
     (\<exists>rq e xs ys. q = Drain rq \<and> rq_id rq \<noteq> 0 \<and> cache_ok h \<and> um_find (replay h) (rq_id rq) = Some e \<and>
        r = Some (response e) \<and> replay_order h = xs @ rq_id rq # ys \<and> rq_id rq \<notin> set xs \<and>
        length ys + n \<le> kReplayCacheMaxEntries)"

definition new_drain :: "drain_handler \<Rightarrow> drain_msg \<Rightarrow> bool" where
  "new_drain h q \<longleftrightarrow> cache_ok h \<and> (\<exists>rq. q = Drain rq \<and> rq_id rq \<noteq> 0 \<and> rq_id rq \<notin> set (replay_order h))"

lemma cached_drain_unchanged:
  assumes "cached (Suc n) h q r"
  shows "serve_msg q h = (h, r)"
  using assms by (auto simp: cached_def handleDrainRequest_def)

lemma cached_ages:
  assumes "cached (Suc n) h q r"
  shows "cached n (fst (serve_msg q' h)) q r"
proof (cases n)
  case (Suc m)
  obtain rq e xs ys where c: "q = Drain rq" "rq_id rq \<noteq> 0" "cache_ok h" "um_find (replay h) (rq_id rq) = Some e"
    "r = Some (response e)" "replay_order h = xs @ rq_id rq # ys" "rq_id rq \<notin> set xs"
    "length ys + Suc n \<le> kReplayCacheMaxEntries"
    using assms by (auto simp: cached_def)
  have older: "cached n h' q r" if "replay h' = replay h" "replay_order h' = replay_order h" for h'
    unfolding cached_def using c that by (fastforce simp: cache_ok_def)
  show ?thesis
  proof (cases q')
    case (Register p)
    then show ?thesis using older register_frame[of p h] by simp
  next
    case (Drain rq')
    obtain h' rs where hd: "handleDrainRequest rq' h = (h', rs)" by force
    show ?thesis
    proof (cases "rq_id rq' = 0 \<or> um_find (replay h) (rq_id rq') \<noteq> None")
      case True
      then have "h' = h" using hd by (cases "rq_id rq' = 0"; cases "um_find (replay h) (rq_id rq')")
          (simp_all add: handleDrainRequest_def)
      then show ?thesis using Drain hd older by simp
    next
      case False
      have "length (rq_id rq # ys) < kReplayCacheMaxEntries" using c(8) Suc by simp
      then obtain xs' where "replay_order h' = xs' @ (rq_id rq # ys) @ [rq_id rq']" "set xs' \<subseteq> set xs" "cache_ok h'"
        "\<forall>j. j \<notin> set xs \<and> j \<noteq> rq_id rq' \<longrightarrow> um_find (replay h') j = um_find (replay h) j"
        using fresh_request_step[OF c(3) _ _ hd c(6)] False by fastforce
      moreover have "rq_id rq \<noteq> rq_id rq'" using False c(4) by auto
      ultimately have "cached n h' q r"
        unfolding cached_def using c by (intro disjI2 exI[of _ rq] exI[of _ e] exI[of _ xs'] exI[of _ "ys @ [rq_id rq']"]) auto
      then show ?thesis using Drain hd by simp
    qed
  qed
qed (simp add: cached_def)

interpretation drain_rpc: replay_server serve_msg buffers cached new_drain kReplayCacheMaxEntries
proof
  fix n h q r h' r' assume "cached (Suc n) h q r" "serve_msg q h = (h', r')"
  then show "r' = r \<and> buffers h' = buffers h" using cached_drain_unchanged by fastforce
next
  fix n h q r q' assume "cached (Suc n) h q r"
  then show "cached n (fst (serve_msg q' h)) q r" by (rule cached_ages)
next
  fix h q assume "new_drain h q"
  then obtain rq where q: "q = Drain rq" "rq_id rq \<noteq> 0" "rq_id rq \<notin> set (replay_order h)" "cache_ok h"
    by (auto simp: new_drain_def)
  obtain h' rs where hd: "handleDrainRequest rq h = (h', rs)" by force
  have none: "um_find (replay h) (rq_id rq) = None" using q(3,4) by (auto simp: cache_ok_def map_of_eq_None_iff)
  have "replay_order h = replay_order h @ []" by simp
  from fresh_request_step[OF q(4,2) none hd this] obtain xs' e where
    "replay_order h' = xs' @ [rq_id rq]" "set xs' \<subseteq> set (replay_order h)" "cache_ok h'" "response e = rs"
    "um_find (replay h') (rq_id rq) = Some e"
    using q(3) by (auto simp: kReplayCacheMaxEntries_def)
  then have "cached kReplayCacheMaxEntries h' q (Some rs)"
    unfolding cached_def using q by (intro disjI2 exI[of _ rq] exI[of _ e] exI[of _ xs'] exI[of _ "[]"]) auto
  then show "cached kReplayCacheMaxEntries (fst (serve_msg q h)) q (snd (serve_msg q h))"
    using q(1) hd by simp
qed

section \<open>One drain\<close>

definition level :: "drain_handler \<Rightarrow> u32 \<Rightarrow> rat" where
  "level h en =
     (case um_find (buffers h) en of None \<Rightarrow> 0
      | Some b \<Rightarrow> (case steam b of None \<Rightarrow> 0 | Some s \<Rightarrow> s) +
                   (case fluid b of None \<Rightarrow> 0 | Some f \<Rightarrow> of_int (fs_amount f)))"

definition buffers_ok :: "drain_handler \<Rightarrow> bool" where
  "buffers_ok h \<longleftrightarrow>
     (\<forall>(en, b) \<in> set (buffers h). (case steam b of None \<Rightarrow> True | Some s \<Rightarrow> 0 \<le> s) \<and>
        (case fluid b of None \<Rightarrow> True | Some f \<Rightarrow> 0 \<le> fs_amount f \<and> 0 \<le> maxOutput f))"

text \<open>C13: exactly once. A drain request with an unused id, sent again after fewer than 4096 further drain
  requests and port registrations, is answered with the recorded response and debits no machine buffer.\<close>

theorem drain_replayed:
  assumes "cache_ok h" "rq_id rq \<noteq> 0" "rq_id rq \<notin> set (replay_order h)" "length msgs < 4096"
    and "handleDrainRequest rq h = (h1, rs)"
  shows "handleDrainRequest rq (serve serve_msg msgs h1) = (serve serve_msg msgs h1, rs)"
proof -
  have adm: "new_drain h (Drain rq)" using assms(1-3) by (simp add: new_drain_def)
  have step: "serve_msg (Drain rq) h = (h1, Some rs)" using assms(5) by simp
  have "cached kReplayCacheMaxEntries h1 (Drain rq) (Some rs)"
    using drain_rpc.records[OF adm] step by simp
  moreover obtain d where "kReplayCacheMaxEntries = length msgs + Suc d"
    using assms(4) less_iff_Suc_add[of "length msgs" 4096] by (auto simp: kReplayCacheMaxEntries_def)
  ultimately have "cached (Suc d) (serve serve_msg msgs h1) (Drain rq) (Some rs)"
    using drain_rpc.live_run by metis
  from cached_drain_unchanged[OF this] show ?thesis by (simp split: prod.splits)
qed

definition boiler_handler :: drain_handler where
  "boiler_handler = \<lparr>buffers = [(4, \<lparr>steam = Some 500, fluid = None\<rparr>)], steam_id = 9,
     drain_ports = [(1, \<lparr>port_id = 1, owner_id = 4, port_kind = FLUID, role = SOURCE, px = 0, py = 64, pz = 0,
       policy = ALL_FACES, port_face_mask = 63, port_capacity = 1000, port_rate = 200, epoch = 1\<rparr>)],
     replay = [], replay_order = [], conflict_warned = [], conflict_warn_order = []\<rparr>"

definition steam_request :: transfer_request where
  "steam_request = \<lparr>rq_id = 77, rq_port = 1, rq_kind = FLUID, rq_resource = 9, rq_amount = 300\<rparr>"

lemma boiler_handler_facts: "cache_ok boiler_handler" "buffers_ok boiler_handler"
  by (simp_all add: boiler_handler_def cache_ok_def buffers_ok_def)

theorem drain_replayed_witness:
  "\<exists>h1 rs. handleDrainRequest steam_request boiler_handler = (h1, rs) \<and>
     handleDrainRequest steam_request (serve serve_msg [Drain (steam_request\<lparr>rq_id := 78\<rparr>)] h1) =
       (serve serve_msg [Drain (steam_request\<lparr>rq_id := 78\<rparr>)] h1, rs)"
proof -
  obtain h1 rs where h: "handleDrainRequest steam_request boiler_handler = (h1, rs)" by force
  from drain_replayed[OF boiler_handler_facts(1) _ _ _ h, of "[Drain (steam_request\<lparr>rq_id := 78\<rparr>)]"] h show ?thesis
    by (simp add: steam_request_def boiler_handler_def)
qed

lemma removeFluid_facts:
  assumes "0 \<le> fs_amount f" "0 \<le> maxOutput f" "0 < amt" "removeFluid amt f = (f', acc)"
  shows "0 \<le> acc \<and> acc \<le> amt \<and> fs_amount f' = fs_amount f - acc \<and> 0 \<le> fs_amount f'"
  using assms by (auto simp: removeFluid_def Let_def split: if_splits)

lemma drainSteam_facts:
  assumes "0 \<le> st" "0 < rq_amount rq" "0 < limit" "drainSteamOutput sid rq limit st = (st', acc)"
  shows "0 \<le> acc \<and> acc \<le> min (rq_amount rq) limit \<and> st' = st - of_int acc \<and> 0 \<le> st'"
proof -
  have "of_int \<lfloor>st\<rfloor> \<le> st" by (rule of_int_floor_le)
  moreover have "0 \<le> \<lfloor>st\<rfloor>" using assms(1) by simp
  ultimately show ?thesis using assms
    by (auto simp: drainSteamOutput_def Let_def max_def min_def split: if_splits)
      (linarith+)?
qed

lemma drainBuffer_facts:
  assumes "drainMachineBuffer p rq h = (h', acc)" "buffers_ok h" "0 < rq_amount rq"
  shows "0 \<le> acc \<and> acc \<le> rq_amount rq \<and> (0 < port_rate p \<longrightarrow> acc \<le> port_rate p) \<and>
    (\<forall>en. level h' en = level h en - (if en = ucast (owner_id p) then of_int acc else 0) \<and>
      (0 \<le> level h en \<longrightarrow> 0 \<le> level h' en))"
proof -
  define en where "en = (ucast (owner_id p) :: u32)"
  define limit where "limit = (if port_rate p > 0 then port_rate p else rq_amount rq)"
  have lim: "0 < limit" using assms(3) by (simp add: limit_def)
  show ?thesis
  proof (cases "um_find (buffers h) en")
    case None
    then have "h' = h" "acc = 0" using assms(1) by (simp_all add: drainMachineBuffer_def Let_def en_def)
    then show ?thesis using assms(3) by simp
  next
    case (Some b)
    have ok: "(case steam b of None \<Rightarrow> True | Some s \<Rightarrow> 0 \<le> s) \<and>
        (case fluid b of None \<Rightarrow> True | Some f \<Rightarrow> 0 \<le> fs_amount f \<and> 0 \<le> maxOutput f)"
      using assms(2) Some by (auto simp: buffers_ok_def dest!: map_of_SomeD)
    have upd: "level (h\<lparr>buffers := um_put en b' (buffers h)\<rparr>) j = (if j = en then
        (case steam b' of None \<Rightarrow> 0 | Some s \<Rightarrow> s) + (case fluid b' of None \<Rightarrow> 0 | Some f \<Rightarrow> of_int (fs_amount f))
        else level h j)" for b' j
      by (simp add: level_def um_simps)
    have here: "level h en = (case steam b of None \<Rightarrow> 0 | Some s \<Rightarrow> s) +
        (case fluid b of None \<Rightarrow> 0 | Some f \<Rightarrow> of_int (fs_amount f))" using Some by (simp add: level_def)
    consider (st) st where "steam b = Some st" | (fl) f where "steam b = None" "fluid b = Some f"
      | (no) "steam b = None" "fluid b = None" by (cases "steam b"; cases "fluid b") auto
    then show ?thesis
    proof cases
      case st
      obtain st' a where d: "drainSteamOutput (steam_id h) rq limit st = (st', a)" by force
      have r: "h' = h\<lparr>buffers := um_put en (b\<lparr>steam := Some st'\<rparr>) (buffers h)\<rparr>" "acc = a"
        using assms(1) Some st d by (simp_all add: drainMachineBuffer_def Let_def en_def limit_def)
      have f: "0 \<le> a \<and> a \<le> min (rq_amount rq) limit \<and> st' = st - of_int a \<and> 0 \<le> st'"
        using drainSteam_facts[OF _ assms(3) lim d] ok st by simp
      have nn: "(0 :: rat) \<le> (case fluid b of None \<Rightarrow> 0 | Some f \<Rightarrow> of_int (fs_amount f))"
        using ok by (auto split: option.splits)
      show ?thesis unfolding r using f nn here st upd
        by (auto simp: en_def[symmetric] limit_def split: if_splits)
    next
      case fl
      obtain f' a where d: "drainFluidStorage rq limit f = (f', a)" by force
      have r: "h' = h\<lparr>buffers := um_put en (b\<lparr>fluid := Some f'\<rparr>) (buffers h)\<rparr>" "acc = a"
        using assms(1) Some fl d by (simp_all add: drainMachineBuffer_def Let_def en_def limit_def)
      have "0 < min (rq_amount rq) limit" using assms(3) lim by simp
      then have f: "0 \<le> a \<and> a \<le> min (rq_amount rq) limit \<and> fs_amount f' = fs_amount f - a \<and> 0 \<le> fs_amount f'"
        using removeFluid_facts[of f "min (rq_amount rq) limit" f' a] d ok fl assms(3)
        by (auto simp: drainFluidStorage_def split: if_splits)
      show ?thesis unfolding r using f here fl upd
        by (auto simp: en_def[symmetric] limit_def split: if_splits)
    next
      case no
      then have "h' = h" "acc = 0" using assms(1) Some by (simp_all add: drainMachineBuffer_def Let_def en_def)
      then show ?thesis using assms(3) by simp
    qed
  qed
qed

lemma cacheResponse_buffers [simp]: "buffers (cacheResponse i e h) = buffers h"
  by (simp add: cacheResponse_def split: prod.splits)

lemma level_cong: "buffers h' = buffers h \<Longrightarrow> level h' en = level h en"
  by (simp add: level_def)

lemma rejected:
  "rq_id rq = 0 \<Longrightarrow> handleDrainRequest rq h = (h, zero_response rq)"
  "rq_id rq \<noteq> 0 \<Longrightarrow> um_find (replay h) (rq_id rq) = None \<Longrightarrow> um_find (drain_ports h) (rq_port rq) = None \<Longrightarrow>
     handleDrainRequest rq h = (cacheResponse (rq_id rq) \<lparr>response = zero_response rq, re_owner = 0\<rparr> h, zero_response rq)"
  by (simp_all add: handleDrainRequest_def)

text \<open>The answer to a new request is the amount debited. Exactly one entity loses what the response
  accepts and no buffer becomes negative; something is accepted only at a registered fluid source port,
  and never more than the request or the rate of the port.\<close>

theorem drain_debits:
  assumes "buffers_ok h" "um_find (replay h) (rq_id rq) = None" "handleDrainRequest rq h = (h', rs)"
  shows "0 \<le> rs_accepted rs \<and>
    (\<exists>en. \<forall>j. level h' j = level h j - (if j = en then of_int (rs_accepted rs) else 0) \<and>
      (0 \<le> level h j \<longrightarrow> 0 \<le> level h' j)) \<and>
    (rs_accepted rs > 0 \<longrightarrow> rs_accepted rs \<le> rq_amount rq \<and>
      (\<exists>p. um_find (drain_ports h) (rq_port rq) = Some p \<and> role p = SOURCE \<and> port_kind p = FLUID \<and>
        (0 < port_rate p \<longrightarrow> rs_accepted rs \<le> port_rate p)))"
proof (cases "rq_id rq = 0 \<or> um_find (drain_ports h) (rq_port rq) = None")
  case True
  have "buffers (fst (handleDrainRequest rq h)) = buffers h" "rs_accepted (snd (handleDrainRequest rq h)) = 0"
    using rejected(1)[of rq h] rejected(2)[OF _ assms(2)] True
    by (cases "rq_id rq = 0"; simp add: zero_response_def)+
  then have b: "buffers h' = buffers h" "rs_accepted rs = 0" unfolding assms(3) by simp_all
  show ?thesis by (simp add: b(2) level_cong[OF b(1)])
next
  case False
  then obtain p where p: "um_find (drain_ports h) (rq_port rq) = Some p" by auto
  define bad where "bad \<longleftrightarrow> role p \<noteq> SOURCE \<or> port_kind p \<noteq> rq_kind rq \<or> rq_amount rq \<le> 0 \<or> rq_kind rq \<noteq> FLUID"
  obtain h1 acc where d: "(if bad then (h, 0) else drainMachineBuffer p rq h) = (h1, acc)" by force
  have "handleDrainRequest rq h =
      (cacheResponse (rq_id rq) \<lparr>response = (zero_response rq)\<lparr>rs_accepted := acc\<rparr>, re_owner = owner_id p\<rparr> h1,
       (zero_response rq)\<lparr>rs_accepted := acc\<rparr>)"
    using assms(2) False p d[unfolded bad_def] by (simp add: handleDrainRequest_def Let_def)
  from trans[OF this[symmetric] assms(3)] have acc: "rs_accepted rs = acc" and same: "buffers h' = buffers h1"
    by auto
  show ?thesis
  proof (cases bad)
    case False
    then have "0 < rq_amount rq" "drainMachineBuffer p rq h = (h1, acc)" using d by (auto simp: bad_def)
    note f = drainBuffer_facts[OF this(2) assms(1) this(1)]
    have "\<forall>j. level h' j = level h j - (if j = ucast (owner_id p) then of_int (rs_accepted rs) else 0) \<and>
        (0 \<le> level h j \<longrightarrow> 0 \<le> level h' j)"
      using f unfolding acc level_cong[OF same] by blast
    then have "\<exists>en. \<forall>j. level h' j = level h j - (if j = en then of_int (rs_accepted rs) else 0) \<and>
        (0 \<le> level h j \<longrightarrow> 0 \<le> level h' j)" by (rule exI)
    moreover have "role p = SOURCE \<and> port_kind p = FLUID" using False by (auto simp: bad_def)
    ultimately show ?thesis using f p unfolding acc by blast
  next
    case True
    then have "h1 = h" "acc = 0" using d by auto
    then show ?thesis using acc level_cong[OF same] by simp
  qed
qed

theorem drain_debits_witness:
  "rs_accepted (snd (handleDrainRequest steam_request boiler_handler)) = 200 \<and>
   (\<exists>en. level (fst (handleDrainRequest steam_request boiler_handler)) en = level boiler_handler en - 200)"
proof -
  have acc: "rs_accepted (snd (handleDrainRequest steam_request boiler_handler)) = 200"
    by (simp add: handleDrainRequest_def steam_request_def boiler_handler_def drainMachineBuffer_def
        drainSteamOutput_def zero_response_def Let_def)
  have "um_find (replay boiler_handler) (rq_id steam_request) = None" by (simp add: boiler_handler_def)
  note dd = drain_debits[OF boiler_handler_facts(2) this prod.collapse[symmetric], unfolded acc]
  from conjunct1[OF conjunct2[OF dd]] obtain en where
    "\<forall>j. level (fst (handleDrainRequest steam_request boiler_handler)) j =
       level boiler_handler j - (if j = en then of_int 200 else 0) \<and>
       (0 \<le> level boiler_handler j \<longrightarrow> 0 \<le> level (fst (handleDrainRequest steam_request boiler_handler)) j)"
    by (rule exE)
  from conjunct1[OF spec[OF this, of en]]
  have "level (fst (handleDrainRequest steam_request boiler_handler)) en = level boiler_handler en - 200"
    by (simp only: if_True simp_thms of_int_numeral)
  then show ?thesis using acc by blast
qed

end
