(* ===== verification/QuestCore.thy ===== *)
theory QuestCore
  imports Complex_Main ItemId
begin

text \<open>
  Quest definitions, their loaders and the dependency graph: \<open>src/game/quests/QuestTypes.h\<close>,
  \<open>QuestData.cpp\<close>, \<open>QuestGraph.cpp\<close>, and the item table \<open>src/game/recipes/ItemRegistry.cpp\<close> that
  resolves ids. A file is the list of its lines, \<open>None\<close> when it cannot be opened; a JSON document is the
  list of its entries as the JSON library decodes them.
\<close>

section \<open>Reading cells\<close>

text \<open>A string stream is its unread part and whether it is still good. \<open>std::getline\<close> on a stream that is
  not good leaves the string as it was; the last component is the stream's truth value after the call.\<close>

fun getline :: "char \<Rightarrow> string \<times> bool \<Rightarrow> string \<Rightarrow> (string \<times> bool) \<times> string \<times> bool" where
  "getline d (s, good) old =
     (if \<not> good then ((s, False), old, False)
      else if d \<in> set s then ((tl (dropWhile (\<lambda>c. c \<noteq> d) s), True), takeWhile (\<lambda>c. c \<noteq> d) s, True)
      else (([], False), s, s \<noteq> []))"

definition is_space :: "char \<Rightarrow> bool" where
  "is_space c \<longleftrightarrow> of_char c = (32 :: nat) \<or> (9 \<le> (of_char c :: nat) \<and> (of_char c :: nat) \<le> 13)"

fun digits_value :: "string \<Rightarrow> int \<Rightarrow> int" where
  "digits_value [] n = n"
| "digits_value (c # s) n = digits_value s (10 * n + (of_char c - 48))"

text \<open>The sign and the leading digits after white space, as \<open>strtoul\<close> and \<open>strtol\<close> read them.\<close>

definition scan_number :: "string \<Rightarrow> (bool \<times> int) option" where
  "scan_number s =
     (let t = dropWhile is_space s;
          neg = (t \<noteq> [] \<and> hd t = CHR ''-'');
          u = (if t \<noteq> [] \<and> (hd t = CHR ''-'' \<or> hd t = CHR ''+'') then tl t else t);
          ds = takeWhile is_digit u
      in if ds = [] then None else Some (neg, digits_value ds 0))"

definition stoul :: "string \<Rightarrow> u64 option" where
  "stoul s =
     (case scan_number s of
        None \<Rightarrow> None
      | Some (neg, n) \<Rightarrow> if n \<ge> 2 ^ 64 then None else Some (word_of_int (if neg then - n else n)))"

definition stoi :: "string \<Rightarrow> int option" where
  "stoi s =
     (case scan_number s of
        None \<Rightarrow> None
      | Some (neg, n) \<Rightarrow>
          let i = (if neg then - n else n) in if i < - (2 ^ 31) \<or> i \<ge> 2 ^ 31 then None else Some i)"

definition parseUint :: "string \<Rightarrow> u64" where
  "parseUint s = (if s = [] then 0 else case stoul s of Some n \<Rightarrow> n | None \<Rightarrow> 0)"

section \<open>Quest types\<close>

datatype quest_status = LOCKED | AVAILABLE | IN_PROGRESS | COMPLETED

datatype era = VAGRANT | APPRENTICE | EXPERT | ADMINISTRATOR | ENERGY_JUNIOR | ENERGY_MIDDLE | ENERGY_SENIOR

definition all_eras :: "era list" where
  "all_eras = [VAGRANT, APPRENTICE, EXPERT, ADMINISTRATOR, ENERGY_JUNIOR, ENERGY_MIDDLE, ENERGY_SENIOR]"

fun EraLabel :: "era \<Rightarrow> string" where
  "EraLabel VAGRANT = ''Vagrant''"
| "EraLabel APPRENTICE = ''Apprentice''"
| "EraLabel EXPERT = ''Expert''"
| "EraLabel ADMINISTRATOR = ''Administrator''"
| "EraLabel ENERGY_JUNIOR = ''Energy Junior''"
| "EraLabel ENERGY_MIDDLE = ''Energy Middle''"
| "EraLabel ENERGY_SENIOR = ''Energy Senior''"

definition EraFromString :: "string \<Rightarrow> era" where
  "EraFromString s =
     (if s = ''vagrant'' then VAGRANT
      else if s = ''apprentice'' then APPRENTICE
      else if s = ''expert'' then EXPERT
      else if s = ''administrator'' then ADMINISTRATOR
      else if s = ''energy_junior'' then ENERGY_JUNIOR
      else if s = ''energy_middle'' then ENERGY_MIDDLE
      else if s = ''energy_senior'' then ENERGY_SENIOR
      else VAGRANT)"

datatype detection = CRAFT | BLOCK_PLACED | TOOL_CHARGED | SIDE_CONFIGURED | EXCHANGE | INVENTORY | MACHINE

definition DetectFromString :: "string \<Rightarrow> detection" where
  "DetectFromString s =
     (if s = ''craft'' then CRAFT
      else if s = ''block_placed'' then BLOCK_PLACED
      else if s = ''tool_charged'' then TOOL_CHARGED
      else if s = ''side_configured'' then SIDE_CONFIGURED
      else if s = ''exchange'' then EXCHANGE
      else if s = ''inventory'' then INVENTORY
      else if s = ''machine'' then MACHINE
      else CRAFT)"

record quest_requirement =
  req_kind :: detection
  req_item :: string
  req_count :: u16
  req_consume :: bool
  req_machine :: string

record quest_def =
  quest_id :: u32
  title :: string
  description :: string
  quest_era :: era
  quest_section :: string
  prerequisites :: "u32 list"
  detectType :: detection
  detectTarget :: string
  rewardItemId :: u16
  rewardCount :: u8
  costItemId :: u16
  costCount :: u8
  cooldownSecs :: u16
  targetCount :: u16
  autoComplete :: bool
  requirements :: "quest_requirement list"

definition default_quest :: quest_def where
  "default_quest =
     \<lparr>quest_id = 0, title = [], description = [], quest_era = VAGRANT, quest_section = [], prerequisites = [],
      detectType = CRAFT, detectTarget = [], rewardItemId = 0, rewardCount = 0, costItemId = 0, costCount = 0,
      cooldownSecs = 0, targetCount = 0, autoComplete = True, requirements = []\<rparr>"

datatype reward_type = ITEM | EXPERIENCE | SPECIAL

record reward_entry =
  rw_type :: reward_type
  rw_item :: string
  rw_count :: u16
  rw_value :: rat

record quest_reward =
  all_of :: "reward_entry list"
  choiceOf :: "reward_entry list"

section \<open>Quest data\<close>

record quest_data =
  quests :: "quest_def list"
  idIndex :: "(u32, nat) umap"
  children_of :: "(u32, u32 list) umap"
  reward_table :: "(u32, quest_reward) umap"

definition empty_quests :: quest_data where
  "empty_quests = \<lparr>quests = [], idIndex = [], children_of = [], reward_table = []\<rparr>"

text \<open>\<open>graph[prereq].push_back(id)\<close>\<close>

definition push_child :: "u32 \<Rightarrow> u32 \<Rightarrow> (u32, u32 list) umap \<Rightarrow> (u32, u32 list) umap" where
  "push_child i p g = um_put p ((case um_find g p of Some cs \<Rightarrow> cs | None \<Rightarrow> []) @ [i]) g"

definition buildGraph :: "quest_data \<Rightarrow> quest_data" where
  "buildGraph d = d\<lparr>children_of := fold (\<lambda>q. fold (push_child (quest_id q)) (prerequisites q)) (quests d) []\<rparr>"

text \<open>One line of the table: nine cells, of which the numeric ones share the variable \<open>cell\<close>.\<close>

definition parse_quest :: "string \<Rightarrow> quest_def" where
  "parse_quest line =
     (case getline (CHR '','') (line, True) [] of (s1, idc, _) \<Rightarrow>
      case getline (CHR '','') s1 [] of (s2, ti, _) \<Rightarrow>
      case getline (CHR '','') s2 [] of (s3, de, _) \<Rightarrow>
      case getline (CHR '','') s3 idc of (s4, er, _) \<Rightarrow>
      case getline (CHR '','') s4 [] of (s5, sec, _) \<Rightarrow>
      case getline (CHR '','') s5 er of (s6, ci, _) \<Rightarrow>
      case getline (CHR '','') s6 ci of (s7, cc, _) \<Rightarrow>
      case getline (CHR '','') s7 cc of (s8, cd, _) \<Rightarrow>
      case getline (CHR '','') s8 cd of (_, tc, _) \<Rightarrow>
        default_quest\<lparr>quest_id := ucast (parseUint idc), title := ti, description := de,
          quest_era := EraFromString er, quest_section := sec, costItemId := pack ci,
          costCount := ucast (parseUint cc), cooldownSecs := ucast (parseUint cd),
          targetCount := ucast (parseUint tc)\<rparr>)"

definition add_quest :: "quest_def \<Rightarrow> quest_data \<Rightarrow> quest_data" where
  "add_quest q d =
     d\<lparr>idIndex := um_put (quest_id q) (length (quests d)) (idIndex d), quests := quests d @ [q]\<rparr>"

definition LoadCSV :: "string list option \<Rightarrow> quest_data \<Rightarrow> quest_data \<times> bool" where
  "LoadCSV file d =
     (case file of
        None \<Rightarrow> (d, False)
      | Some ls \<Rightarrow>
          (buildGraph
             (fold (\<lambda>line d. if line = [] then d else add_quest (parse_quest line) d) (tl ls)
                (d\<lparr>quests := [], idIndex := []\<rparr>)), True))"

definition GetQuest :: "quest_data \<Rightarrow> u32 \<Rightarrow> quest_def option" where
  "GetQuest d i = map_option (\<lambda>j. quests d ! j) (um_find (idIndex d) i)"

definition GetPrerequisites :: "quest_data \<Rightarrow> u32 \<Rightarrow> u32 list" where
  "GetPrerequisites d i = (case GetQuest d i of Some q \<Rightarrow> prerequisites q | None \<Rightarrow> [])"

definition GetChildren :: "quest_data \<Rightarrow> u32 \<Rightarrow> u32 list" where
  "GetChildren d i = (case um_find (children_of d) i of Some cs \<Rightarrow> cs | None \<Rightarrow> [])"

definition GetEraQuests :: "quest_data \<Rightarrow> era \<Rightarrow> quest_def list" where
  "GetEraQuests d e = filter (\<lambda>q. quest_era q = e) (quests d)"

definition GetSectionQuests :: "quest_data \<Rightarrow> string \<Rightarrow> quest_def list" where
  "GetSectionQuests d sec = filter (\<lambda>q. quest_section q = sec) (quests d)"

definition GetRootQuests :: "quest_data \<Rightarrow> u32 list" where
  "GetRootQuests d = map quest_id (filter (\<lambda>q. prerequisites q = []) (quests d))"

definition SectionsForEra :: "quest_data \<Rightarrow> era \<Rightarrow> string list" where
  "SectionsForEra d e =
     fold (\<lambda>q r. if quest_era q = e \<and> quest_section q \<notin> set r then r @ [quest_section q] else r) (quests d) []"

definition BuildQuestEraMap :: "quest_data \<Rightarrow> (u32, era) umap" where
  "BuildQuestEraMap d =
     fold (\<lambda>q m. if detectType q = EXCHANGE then m else um_put (quest_id q) (quest_era q) m) (quests d) []"

record section_info =
  si_name :: string
  si_label :: string
  si_quests :: "u32 list"

record era_info =
  ei_name :: string
  ei_label :: string
  ei_sections :: "section_info list"

definition toupper :: "char \<Rightarrow> char" where
  "toupper c = (if 97 \<le> (of_char c :: nat) \<and> (of_char c :: nat) \<le> 122 then char_of ((of_char c :: nat) - 32) else c)"

fun into_section :: "quest_def \<Rightarrow> section_info list \<Rightarrow> section_info list" where
  "into_section q [] =
     [\<lparr>si_name = quest_section q,
       si_label = (case quest_section q of [] \<Rightarrow> [] | c # s \<Rightarrow> toupper c # s), si_quests = [quest_id q]\<rparr>]"
| "into_section q (si # sis) =
     (if si_name si = quest_section q then si\<lparr>si_quests := si_quests si @ [quest_id q]\<rparr> # sis
      else si # into_section q sis)"

definition BuildEraStructure :: "quest_data \<Rightarrow> era_info list" where
  "BuildEraStructure d =
     filter (\<lambda>ei. ei_sections ei \<noteq> [])
       (map (\<lambda>e. \<lparr>ei_name = EraLabel e, ei_label = EraLabel e,
                 ei_sections = fold into_section (GetEraQuests d e) []\<rparr>) all_eras)"

section \<open>JSON loaders\<close>

text \<open>An entry of \<open>quest_graph.json\<close>: its id and the unsigned numbers of its \<open>prereqs\<close> array.\<close>

type_synonym graph_entry = "u32 \<times> u32 list"

definition set_prereqs :: "u32 \<Rightarrow> u32 list \<Rightarrow> quest_data \<Rightarrow> quest_data" where
  "set_prereqs i ps d =
     (case um_find (idIndex d) i of
        None \<Rightarrow> d
      | Some j \<Rightarrow> d\<lparr>quests := (quests d)[j := (quests d ! j)\<lparr>prerequisites := ps\<rparr>]\<rparr>)"

fun load_entries :: "graph_entry list \<Rightarrow> quest_data \<Rightarrow> (u32, u32 list) umap \<Rightarrow> quest_data \<times> (u32, u32 list) umap" where
  "load_entries [] d g = (d, g)"
| "load_entries ((i, ps) # es) d g =
     (if um_find (idIndex d) i = None then load_entries es d g
      else load_entries es (set_prereqs i ps d) (fold (push_child i) ps g))"

definition LoadGraph :: "graph_entry list option \<Rightarrow> quest_data \<Rightarrow> quest_data \<times> bool" where
  "LoadGraph doc d =
     (case doc of
        None \<Rightarrow> (d, False)
      | Some es \<Rightarrow> (case load_entries es d [] of (d', g) \<Rightarrow> (d'\<lparr>children_of := g\<rparr>, True)))"

definition parseKind :: "string \<Rightarrow> detection" where
  "parseKind k =
     (if k = ''craft'' then CRAFT
      else if k = ''obtain'' then INVENTORY
      else if k = ''place'' then BLOCK_PLACED
      else if k = ''machine'' then MACHINE
      else if k = ''side_configured'' then SIDE_CONFIGURED
      else if k = ''exchange'' then EXCHANGE
      else CRAFT)"

record raw_requirement =
  raw_kind :: string
  raw_item :: string
  raw_count :: u32
  raw_consume :: bool
  raw_machine :: string

definition requirement :: "raw_requirement \<Rightarrow> quest_requirement" where
  "requirement r =
     \<lparr>req_kind = parseKind (raw_kind r), req_item = raw_item r, req_count = ucast (raw_count r),
      req_consume = raw_consume r, req_machine = raw_machine r\<rparr>"

text \<open>An entry of \<open>quest_requirements.json\<close>: its key, \<open>auto_complete\<close> when it is a boolean, and the
  \<open>requirements\<close> array when there is one. Reading \<open>front()\<close> of an empty array is undefined: \<open>None\<close>.\<close>

type_synonym requirement_entry = "string \<times> bool option \<times> raw_requirement list option"

definition merge_requirements :: "requirement_entry \<Rightarrow> quest_data \<Rightarrow> quest_data option" where
  "merge_requirements e d =
     (case e of (key, auto, reqs) \<Rightarrow>
        (case stoul key of
           None \<Rightarrow> Some d
         | Some n \<Rightarrow>
             (case um_find (idIndex d) (ucast n) of
                None \<Rightarrow> Some d
              | Some j \<Rightarrow>
                  let q = quests d ! j;
                      q1 = (case auto of Some b \<Rightarrow> q\<lparr>autoComplete := b\<rparr> | None \<Rightarrow> q)
                  in (case reqs of
                        None \<Rightarrow> Some (d\<lparr>quests := (quests d)[j := q1]\<rparr>)
                      | Some [] \<Rightarrow> None
                      | Some (r # rs) \<Rightarrow>
                          let p = requirement r;
                              q2 = q1\<lparr>requirements := map requirement (r # rs), detectType := req_kind p,
                                     detectTarget := req_item p, targetCount := req_count p\<rparr>
                          in Some (d\<lparr>quests := (quests d)[j := q2]\<rparr>)))))"

fun merge_entries :: "requirement_entry list \<Rightarrow> quest_data \<Rightarrow> quest_data option" where
  "merge_entries [] d = Some d"
| "merge_entries (e # es) d = (case merge_requirements e d of None \<Rightarrow> None | Some d' \<Rightarrow> merge_entries es d')"

definition LoadRequirementsJSON :: "requirement_entry list option \<Rightarrow> quest_data \<Rightarrow> (quest_data \<times> bool) option" where
  "LoadRequirementsJSON doc d =
     (case doc of
        None \<Rightarrow> Some (d, False)
      | Some es \<Rightarrow> map_option (\<lambda>d'. (d', True)) (merge_entries es d))"

text \<open>An entry of \<open>quest_rewards.json\<close>: its key, the \<open>rewards\<close> array and the \<open>choice_of\<close> array when
  they are arrays. The amount is the decoded one after its conversion to \<open>float\<close>.\<close>

record raw_reward =
  raw_rw_type :: string
  raw_rw_item :: string
  raw_rw_count :: u32
  raw_rw_value :: rat

definition parseType :: "string \<Rightarrow> reward_type" where
  "parseType t = (if t = ''experience'' then EXPERIENCE else if t = ''special'' then SPECIAL else ITEM)"

definition parseEntry :: "raw_reward \<Rightarrow> reward_entry" where
  "parseEntry e =
     \<lparr>rw_type = parseType (raw_rw_type e), rw_item = raw_rw_item e, rw_count = ucast (raw_rw_count e),
      rw_value = raw_rw_value e\<rparr>"

definition put_reward :: "string \<times> raw_reward list option \<times> raw_reward list option \<Rightarrow> quest_data \<Rightarrow> quest_data" where
  "put_reward e d =
     (case e of (key, rs, cs) \<Rightarrow>
        (case stoul key of
           None \<Rightarrow> d
         | Some n \<Rightarrow>
             let qr = (case rs of
                         Some es \<Rightarrow> \<lparr>all_of = map parseEntry es, choiceOf = []\<rparr>
                       | None \<Rightarrow> (case cs of Some es \<Rightarrow> \<lparr>all_of = [], choiceOf = map parseEntry es\<rparr>
                                  | None \<Rightarrow> \<lparr>all_of = [], choiceOf = []\<rparr>))
             in d\<lparr>reward_table := um_put (ucast n) qr (reward_table d)\<rparr>))"

definition LoadRewardsJSON ::
  "(string \<times> raw_reward list option \<times> raw_reward list option) list option \<Rightarrow> quest_data \<Rightarrow> quest_data \<times> bool" where
  "LoadRewardsJSON doc d =
     (case doc of None \<Rightarrow> (d, False) | Some es \<Rightarrow> (fold put_reward es (d\<lparr>reward_table := []\<rparr>), True))"

definition GetReward :: "quest_data \<Rightarrow> u32 \<Rightarrow> quest_reward option" where
  "GetReward d i = um_find (reward_table d) i"

section \<open>The dependency graph\<close>

record quest_graph =
  children :: "(u32, u32 list) umap"
  prereqs :: "(u32, u32 list) umap"

type_synonym quest_progress = "(u32, quest_status) umap"

text \<open>\<open>QuestGraph::Init\<close> and the map the main program builds for it.\<close>

definition Init :: "(u32, u32 list) umap \<Rightarrow> (u32, u32 list) umap \<Rightarrow> quest_graph" where
  "Init g ps = \<lparr>children = g, prereqs = ps\<rparr>"

definition prereqsMap :: "quest_data \<Rightarrow> (u32, u32 list) umap" where
  "prereqsMap d = fold (\<lambda>q. um_put (quest_id q) (prerequisites q)) (quests d) []"

definition completed_in :: "quest_progress \<Rightarrow> u32 \<Rightarrow> bool" where
  "completed_in cur i \<longleftrightarrow> um_find cur i = Some COMPLETED"

definition CanComplete :: "quest_graph \<Rightarrow> u32 \<Rightarrow> quest_progress \<Rightarrow> bool" where
  "CanComplete g i cur =
     (case um_find (prereqs g) i of None \<Rightarrow> True | Some ps \<Rightarrow> list_all (completed_in cur) ps)"

definition NewlyAvailable :: "quest_graph \<Rightarrow> quest_progress \<Rightarrow> u32 list" where
  "NewlyAvailable g cur = map fst (filter (\<lambda>(i, st). st = LOCKED \<and> CanComplete g i cur) cur)"

definition GetUnlocked :: "quest_graph \<Rightarrow> quest_progress \<Rightarrow> u32 list" where
  "GetUnlocked g cur =
     map fst (filter (\<lambda>(i, st). (st = LOCKED \<or> st = AVAILABLE) \<and> CanComplete g i cur \<and> st = LOCKED) cur)"

definition IsEraComplete :: "era \<Rightarrow> quest_progress \<Rightarrow> (u32, era) umap \<Rightarrow> bool" where
  "IsEraComplete e cur eras = list_all (\<lambda>(i, e'). e' \<noteq> e \<or> completed_in cur i) eras"

definition LockedByPrereqs :: "quest_graph \<Rightarrow> u32 \<Rightarrow> quest_progress \<Rightarrow> u32 list" where
  "LockedByPrereqs g i cur =
     (case um_find (prereqs g) i of None \<Rightarrow> [] | Some ps \<Rightarrow> filter (\<lambda>p. \<not> completed_in cur p) ps)"

section \<open>The item registry\<close>

record item_definition =
  it_id :: u16
  it_name :: string
  hierarchicalId :: string
  max_stack_size :: u8
  default_meta :: u16

record item_registry =
  itemsById :: "(u16, item_definition) umap"
  itemsByName :: "(string, u16) umap"
  loaded :: bool

definition registry_new :: item_registry where
  "registry_new = \<lparr>itemsById = [], itemsByName = [], loaded = False\<rparr>"

definition parseCSVLine :: "string \<Rightarrow> (string \<times> string \<times> string \<times> string) option" where
  "parseCSVLine line =
     (case getline (CHR '','') (line, True) [] of (s1, a, ok1) \<Rightarrow>
      if \<not> ok1 then None else
      case getline (CHR '','') s1 a of (s2, b, ok2) \<Rightarrow>
      if \<not> ok2 then None else
      case getline (CHR '','') s2 b of (s3, c, ok3) \<Rightarrow>
      if \<not> ok3 then None else
      case getline (CHR '','') s3 c of (_, e, ok4) \<Rightarrow>
      if \<not> ok4 then None else Some (a, b, c, e))"

definition blank :: "char \<Rightarrow> bool" where
  "blank c \<longleftrightarrow> (of_char c :: nat) \<in> {32, 9, 13, 10}"

definition trim :: "string \<Rightarrow> string" where
  "trim s = rev (dropWhile blank (rev (dropWhile blank s)))"

definition contains_text :: "string \<Rightarrow> string \<Rightarrow> bool" where
  "contains_text p s \<longleftrightarrow> list_ex (\<lambda>i. take (length p) (drop i s) = p) [0..<Suc (length s)]"

definition or_default :: "string \<Rightarrow> int \<Rightarrow> int" where
  "or_default s v = (if s = [] then v else case stoi s of Some n \<Rightarrow> n | None \<Rightarrow> v)"

definition put_item :: "item_definition \<Rightarrow> item_registry \<Rightarrow> item_registry" where
  "put_item def r =
     r\<lparr>itemsById := um_put (it_id def) def (itemsById r), itemsByName := um_put (it_name def) (it_id def) (itemsByName r)\<rparr>"

definition read_item :: "nat \<Rightarrow> string \<Rightarrow> item_definition option" where
  "read_item lineNum raw =
     (if raw = [] \<or> hd raw = CHR ''#'' then None
      else if trim raw = [] then None
      else if lineNum = 1 \<and> contains_text ''int,name'' (trim raw) then None
      else (case parseCSVLine (trim raw) of
              None \<Rightarrow> None
            | Some (idStr, nameStr, stackStr, metaStr) \<Rightarrow>
                if pack idStr = 0 \<and> idStr \<noteq> ''0'' \<and> idStr \<noteq> ''0:0:0'' then None
                else Some \<lparr>it_id = pack idStr, it_name = nameStr, hierarchicalId = idStr,
                           max_stack_size = word_of_int (or_default stackStr 64),
                           default_meta = word_of_int (or_default metaStr 0)\<rparr>))"

fun read_items :: "nat \<Rightarrow> string list \<Rightarrow> item_registry \<Rightarrow> nat \<Rightarrow> item_registry \<times> nat" where
  "read_items lineNum [] r n = (r, n)"
| "read_items lineNum (l # ls) r n =
     (case read_item (Suc lineNum) l of
        None \<Rightarrow> read_items (Suc lineNum) ls r n
      | Some def \<Rightarrow> read_items (Suc lineNum) ls (put_item def r) (Suc n))"

definition loadFromCSV :: "string list option \<Rightarrow> item_registry \<Rightarrow> item_registry \<times> bool" where
  "loadFromCSV file r =
     (if loaded r then (r, True)
      else (case file of
              None \<Rightarrow> (r, False)
            | Some ls \<Rightarrow> (case read_items 0 ls r 0 of (r', n) \<Rightarrow> (r'\<lparr>loaded := 0 < n\<rparr>, 0 < n))))"

text \<open>The rows of the item table, when the database could be read.\<close>

definition loadFromSQLite :: "(int \<times> string \<times> int \<times> int) list option \<Rightarrow> item_registry \<Rightarrow> item_registry \<times> bool" where
  "loadFromSQLite rows r =
     (case rows of
        None \<Rightarrow> (r, False)
      | Some rs \<Rightarrow>
          (fold (\<lambda>(i, n, st, mt). put_item \<lparr>it_id = word_of_int i, it_name = n, hierarchicalId = [],
              max_stack_size = word_of_int st, default_meta = word_of_int mt\<rparr>) rs r, rs \<noteq> []))"

definition getItem :: "item_registry \<Rightarrow> u16 \<Rightarrow> item_definition option" where
  "getItem r i = um_find (itemsById r) i"

definition getItemByName :: "item_registry \<Rightarrow> string \<Rightarrow> item_definition option" where
  "getItemByName r n = (case um_find (itemsByName r) n of Some i \<Rightarrow> um_find (itemsById r) i | None \<Rightarrow> None)"

definition hasName :: "item_registry \<Rightarrow> string \<Rightarrow> bool" where
  "hasName r n = um_contains (itemsByName r) n"

definition nameToId :: "item_registry \<Rightarrow> string \<Rightarrow> u16" where
  "nameToId r n = (case um_find (itemsByName r) n of Some i \<Rightarrow> i | None \<Rightarrow> 0)"

definition idToName :: "item_registry \<Rightarrow> u16 \<Rightarrow> string" where
  "idToName r i = (case um_find (itemsById r) i of Some d \<Rightarrow> it_name d | None \<Rightarrow> [])"

definition idToHierarchical :: "item_registry \<Rightarrow> u16 \<Rightarrow> string" where
  "idToHierarchical r i = (case um_find (itemsById r) i of Some d \<Rightarrow> hierarchicalId d | None \<Rightarrow> [])"

definition getMaxStackSize :: "item_registry \<Rightarrow> u16 \<Rightarrow> u8" where
  "getMaxStackSize r i = (case um_find (itemsById r) i of Some d \<Rightarrow> max_stack_size d | None \<Rightarrow> 64)"

definition isValid :: "item_registry \<Rightarrow> u16 \<Rightarrow> bool" where
  "isValid r i = um_contains (itemsById r) i"

definition item_count :: "item_registry \<Rightarrow> nat" where
  "item_count r = length (itemsById r)"

end
