(* ===== verification/QuestManager.thy ===== *)
theory QuestManager
  imports QuestCore
begin

text \<open>
  \<open>src/game/quests/QuestManager.cpp\<close>: the progress of every player and the operations that change it.
  The quest data, the graph and the item registry are read only here; they are the environment. The
  published messages are the output of an operation, without the time stamp. \<open>loadProgress\<close> starts at
  the decoded message. The rewards of a completed quest travel with its message: \<open>distributeRewards\<close>
  only logs.
\<close>

section \<open>State and messages\<close>

record quest_env =
  qdata :: quest_data
  qgraph :: quest_graph
  items :: item_registry

record quest_state =
  progress :: "(u64, quest_progress) umap"
  completedEras :: "(u64, era list) umap"
  questEraMap :: "(u32, era) umap"

definition quests_new :: quest_state where
  "quests_new = \<lparr>progress = [], completedEras = [], questEraMap = []\<rparr>"

datatype quest_msg =
    QuestCompleted u64 u32
  | ProgressUpdated u64 "(u32 \<times> quest_status \<times> u8) list"
  | QuestUnlocked u64 "u32 list"
  | EraTransition u64 era era

text \<open>\<open>progress_[player]\<close> creates the entry and is a reference to it.\<close>

definition progress_of :: "quest_state \<Rightarrow> u64 \<Rightarrow> quest_progress" where
  "progress_of w pid = (case um_find (progress w) pid of Some p \<Rightarrow> p | None \<Rightarrow> [])"

definition touch :: "u64 \<Rightarrow> quest_state \<Rightarrow> quest_state" where
  "touch pid w = w\<lparr>progress := um_emplace pid [] (progress w)\<rparr>"

definition put_progress :: "u64 \<Rightarrow> quest_progress \<Rightarrow> quest_state \<Rightarrow> quest_state" where
  "put_progress pid p w = w\<lparr>progress := um_put pid p (progress w)\<rparr>"

definition eras_of :: "quest_state \<Rightarrow> u64 \<Rightarrow> era list" where
  "eras_of w pid = (case um_find (completedEras w) pid of Some es \<Rightarrow> es | None \<Rightarrow> [])"

section \<open>Messages\<close>

definition publishQuestProgressSnapshot :: "u64 \<Rightarrow> quest_state \<Rightarrow> quest_msg list" where
  "publishQuestProgressSnapshot pid w =
     (if progress_of w pid = [] then []
      else [ProgressUpdated pid (map (\<lambda>(i, st). (i, st, if st = COMPLETED then 100 else 0)) (progress_of w pid))])"

definition publishQuestUnlocked :: "u64 \<Rightarrow> u32 list \<Rightarrow> quest_msg list" where
  "publishQuestUnlocked pid ids = (if ids = [] then [] else [QuestUnlocked pid ids])"

fun next_era :: "era \<Rightarrow> era" where
  "next_era VAGRANT = APPRENTICE"
| "next_era APPRENTICE = EXPERT"
| "next_era EXPERT = ADMINISTRATOR"
| "next_era ADMINISTRATOR = ENERGY_JUNIOR"
| "next_era ENERGY_JUNIOR = ENERGY_MIDDLE"
| "next_era ENERGY_MIDDLE = ENERGY_SENIOR"
| "next_era ENERGY_SENIOR = ENERGY_SENIOR"

section \<open>Operations\<close>

definition era_map :: "quest_env \<Rightarrow> quest_state \<Rightarrow> quest_state" where
  "era_map env w =
     (if questEraMap w = [] then w\<lparr>questEraMap := BuildQuestEraMap (qdata env)\<rparr> else w)"

definition maybePublishEraTransition :: "quest_env \<Rightarrow> u64 \<Rightarrow> u32 \<Rightarrow> quest_state \<Rightarrow> quest_state \<times> quest_msg list" where
  "maybePublishEraTransition env pid q w =
     (case GetQuest (qdata env) q of
        None \<Rightarrow> (w, [])
      | Some d \<Rightarrow>
          let w1 = (touch pid w)\<lparr>completedEras := um_emplace pid [] (completedEras w)\<rparr>
          in if quest_era d \<in> set (eras_of w1 pid) then (w1, [])
             else
               let w2 = era_map env w1
               in if \<not> IsEraComplete (quest_era d) (progress_of w2 pid) (questEraMap w2) then (w2, [])
                  else (w2\<lparr>completedEras := um_put pid (quest_era d # eras_of w2 pid) (completedEras w2)\<rparr>,
                        [EraTransition pid (quest_era d) (next_era (quest_era d))]))"

definition rebuildCompletedEras :: "quest_env \<Rightarrow> u64 \<Rightarrow> quest_state \<Rightarrow> quest_state" where
  "rebuildCompletedEras env pid w =
     (let w1 = era_map env w
      in w1\<lparr>completedEras :=
           um_put pid (filter (\<lambda>e. IsEraComplete e (progress_of w1 pid) (questEraMap w1)) all_eras) (completedEras w1)\<rparr>)"

definition unlockNewlyAvailable :: "quest_env \<Rightarrow> u64 \<Rightarrow> quest_state \<Rightarrow> quest_state \<times> quest_msg list" where
  "unlockNewlyAvailable env pid w =
     (let ids = NewlyAvailable (qgraph env) (progress_of w pid)
      in if ids = [] then (w, [])
         else (put_progress pid (fold (\<lambda>i. um_put i AVAILABLE) ids (progress_of w pid)) w,
               map (\<lambda>i. ProgressUpdated pid [(i, AVAILABLE, 0)]) ids @ publishQuestUnlocked pid ids))"

definition completeQuestInternal :: "quest_env \<Rightarrow> u64 \<Rightarrow> u32 \<Rightarrow> quest_state \<Rightarrow> quest_state \<times> quest_msg list \<times> bool" where
  "completeQuestInternal env pid q w =
     (let p = um_emplace q LOCKED (progress_of w pid)
      in if um_find p q = Some COMPLETED then (put_progress pid p w, [], False)
         else
           let w2 = put_progress pid (um_put q COMPLETED p) w
           in (case maybePublishEraTransition env pid q w2 of
                 (w3, era_msgs) \<Rightarrow>
                   (case unlockNewlyAvailable env pid w3 of
                      (w4, msgs) \<Rightarrow>
                        (w4, [QuestCompleted pid q, ProgressUpdated pid [(q, COMPLETED, 100)]] @ era_msgs @ msgs, True))))"

definition completeQuest :: "quest_env \<Rightarrow> u64 \<Rightarrow> u32 \<Rightarrow> quest_state \<Rightarrow> quest_state \<times> quest_msg list \<times> bool" where
  "completeQuest env pid q w =
     (case find (\<lambda>d. quest_id d = q) (quests (qdata env)) of
        Some d \<Rightarrow>
          if detectType d = EXCHANGE then (w, [], False)
          else (let w1 = touch pid w
                in if um_find (progress_of w1 pid) q \<noteq> Some AVAILABLE then (w1, [], False)
                   else if \<not> CanComplete (qgraph env) q (progress_of w1 pid) then (w1, [], False)
                   else completeQuestInternal env pid q w1)
      | None \<Rightarrow>
          (let w1 = touch pid w
           in if um_find (progress_of w1 pid) q \<noteq> Some AVAILABLE then (w1, [], False)
              else if \<not> CanComplete (qgraph env) q (progress_of w1 pid) then (w1, [], False)
              else completeQuestInternal env pid q w1))"

definition seed_quest :: "quest_data \<Rightarrow> quest_def \<Rightarrow> quest_progress \<times> u32 list \<Rightarrow> quest_progress \<times> u32 list" where
  "seed_quest d q s =
     (case s of (p, auto) \<Rightarrow>
        if um_find p (quest_id q) \<noteq> None then (p, auto)
        else if GetPrerequisites d (quest_id q) = [] then (um_put (quest_id q) AVAILABLE p, auto @ [quest_id q])
        else (um_put (quest_id q) LOCKED p, auto))"

definition onPlayerJoined :: "quest_env \<Rightarrow> u64 \<Rightarrow> quest_state \<Rightarrow> quest_state \<times> quest_msg list" where
  "onPlayerJoined env pid w =
     (case fold (seed_quest (qdata env)) (quests (qdata env)) (progress_of w pid, []) of
        (p, auto) \<Rightarrow>
          (case unlockNewlyAvailable env pid (put_progress pid p w) of
             (w', msgs) \<Rightarrow> (w', publishQuestUnlocked pid auto @ msgs)))"

definition handleQuestMet :: "quest_env \<Rightarrow> u64 \<Rightarrow> quest_def \<Rightarrow> quest_state \<Rightarrow> quest_state \<times> quest_msg list \<times> bool" where
  "handleQuestMet env pid q w =
     (if autoComplete q then completeQuestInternal env pid (quest_id q) (touch pid w)
      else
        let w1 = touch pid w
        in (case um_find (progress_of w1 pid) (quest_id q) of
              Some COMPLETED \<Rightarrow> (w1, [], False)
            | Some AVAILABLE \<Rightarrow> (w1, [], False)
            | Some IN_PROGRESS \<Rightarrow> (w1, [], False)
            | _ \<Rightarrow> (put_progress pid (um_put (quest_id q) AVAILABLE (progress_of w1 pid)) w1,
                    [ProgressUpdated pid [(quest_id q, AVAILABLE, 0)]], True)))"

section \<open>Detection\<close>

text \<open>The loop all detection handlers share: skip what does not match, skip what is not completable.\<close>

fun detect_loop :: "(quest_def \<Rightarrow> bool) \<Rightarrow> quest_env \<Rightarrow> u64 \<Rightarrow> quest_def list \<Rightarrow> quest_state \<Rightarrow> quest_state \<times> quest_msg list" where
  "detect_loop hit env pid [] w = (w, [])"
| "detect_loop hit env pid (q # qs) w =
     (if \<not> hit q then detect_loop hit env pid qs w
      else if \<not> CanComplete (qgraph env) (quest_id q) (progress_of w pid) then detect_loop hit env pid qs (touch pid w)
      else (case handleQuestMet env pid q (touch pid w) of
              (w1, msgs, _) \<Rightarrow> (case detect_loop hit env pid qs w1 of (w2, msgs') \<Rightarrow> (w2, msgs @ msgs'))))"

definition checkCraftCompletion :: "quest_env \<Rightarrow> u64 \<Rightarrow> u16 \<Rightarrow> u8 \<Rightarrow> quest_state \<Rightarrow> quest_state \<times> quest_msg list" where
  "checkCraftCompletion env pid item n w =
     (if n < 1 then (w, [])
      else detect_loop (\<lambda>q. detectType q = CRAFT \<and> detectTarget q = idToHierarchical (items env) item)
             env pid (quests (qdata env)) (touch pid w))"

definition checkBlockAction :: "quest_env \<Rightarrow> u64 \<Rightarrow> u16 \<Rightarrow> quest_state \<Rightarrow> quest_state \<times> quest_msg list" where
  "checkBlockAction env pid block w =
     detect_loop (\<lambda>q. detectType q = BLOCK_PLACED \<and> detectTarget q = idToHierarchical (items env) block)
       env pid (quests (qdata env)) (touch pid w)"

definition checkToolCharged :: "quest_env \<Rightarrow> u64 \<Rightarrow> u16 \<Rightarrow> quest_state \<Rightarrow> quest_state \<times> quest_msg list" where
  "checkToolCharged env pid item w =
     detect_loop (\<lambda>q. detectType q = TOOL_CHARGED \<and> detectTarget q = idToHierarchical (items env) item)
       env pid (quests (qdata env)) (touch pid w)"

definition checkSideConfigured :: "quest_env \<Rightarrow> u64 \<Rightarrow> u16 \<Rightarrow> quest_state \<Rightarrow> quest_state \<times> quest_msg list" where
  "checkSideConfigured env pid mach w =
     (if mach = 0 then (w, [])
      else detect_loop (\<lambda>q. detectType q = SIDE_CONFIGURED \<and> detectTarget q = idToHierarchical (items env) mach)
             env pid (quests (qdata env)) (touch pid w))"

definition checkMachineOutput :: "quest_env \<Rightarrow> u64 \<Rightarrow> u16 \<Rightarrow> u16 \<Rightarrow> u8 \<Rightarrow> quest_state \<Rightarrow> quest_state \<times> quest_msg list" where
  "checkMachineOutput env pid mach item n w =
     (if n < 1 then (w, [])
      else detect_loop
             (\<lambda>q. detectType q = MACHINE \<and> detectTarget q = idToHierarchical (items env) item \<and>
                (case requirements q of [] \<Rightarrow> True | r # _ \<Rightarrow> req_machine r = idToHierarchical (items env) mach))
             env pid (quests (qdata env)) w)"

text \<open>The slots of the snapshot: item and count.\<close>

definition add_held :: "item_registry \<Rightarrow> u16 \<times> u8 \<Rightarrow> (string, u32) umap \<Rightarrow> (string, u32) umap" where
  "add_held r s held =
     (case s of (item, n) \<Rightarrow>
        if item = 0 \<or> n = 0 then held
        else let h = idToHierarchical r item
             in if h = [] then held
                else um_put h ((case um_find held h of Some k \<Rightarrow> k | None \<Rightarrow> 0) + ucast n) held)"

definition checkInventory :: "quest_env \<Rightarrow> u64 \<Rightarrow> (u16 \<times> u8) list \<Rightarrow> quest_state \<Rightarrow> quest_state \<times> quest_msg list" where
  "checkInventory env pid slots w =
     (let held = fold (add_held (items env)) slots []
      in detect_loop
           (\<lambda>q. detectType q = INVENTORY \<and>
              (if targetCount q > 0 then ucast (targetCount q) else 1) \<le>
                (case um_find held (detectTarget q) of Some k \<Rightarrow> k | None \<Rightarrow> (0 :: u32)))
           env pid (quests (qdata env)) (touch pid w))"

section \<open>Restoring progress\<close>

definition status_of_u8 :: "u8 \<Rightarrow> quest_status" where
  "status_of_u8 b =
     (if b = 1 then AVAILABLE else if b = 2 then IN_PROGRESS else if b = 3 then COMPLETED else LOCKED)"

text \<open>The message holds a player id, which is only compared for a warning, and optional entries of
  quest id, status and percentage.\<close>

definition loadProgress ::
  "quest_env \<Rightarrow> u64 \<Rightarrow> u64 \<times> (u32 \<times> u8 \<times> u8) list option \<Rightarrow> quest_state \<Rightarrow> quest_state \<times> quest_msg list" where
  "loadProgress env pid msg w =
     (case msg of (resp_player, entries) \<Rightarrow>
        let es = (case entries of Some es \<Rightarrow> es | None \<Rightarrow> []);
            w1 = put_progress pid (fold (\<lambda>(i, st, _). um_put i (status_of_u8 st)) es (progress_of w pid)) w
        in if es = [] then (rebuildCompletedEras env pid w1, [])
           else (case unlockNewlyAvailable env pid w1 of
                   (w2, msgs) \<Rightarrow> (rebuildCompletedEras env pid w2, publishQuestProgressSnapshot pid w1 @ msgs)))"

end
