(* ===== verification/QuestProps.thy ===== *)
theory QuestProps
  imports QuestManager
begin

text \<open>
  The quest book as it is started and run: the environment the main program builds, sequences of
  operations, and what holds after any of them. Every operation is shown to be an \<open>evolves\<close> step, which
  states at once what it keeps (well-formed maps, settled and supported progress, sound eras) and which
  messages it publishes; runs inherit this by induction.
\<close>

section \<open>Starting and running\<close>

definition questbook ::
  "string list option \<Rightarrow> graph_entry list option \<Rightarrow> requirement_entry list option \<Rightarrow> item_registry \<Rightarrow> quest_env option" where
  "questbook csv gr reqs reg =
     (case LoadRequirementsJSON reqs (fst (LoadGraph gr (fst (LoadCSV csv empty_quests)))) of
        None \<Rightarrow> None
      | Some (d, _) \<Rightarrow> Some \<lparr>qdata = d, qgraph = Init (children_of d) (prereqsMap d), items = reg\<rparr>)"

datatype quest_op =
    Join u64
  | Craft u64 u16 u8
  | PlaceBlock u64 u16
  | ChargeTool u64 u16
  | ConfigureSide u64 u16
  | TakeOutput u64 u16 u16 u8
  | OpenBook u64 "(u16 \<times> u8) list"
  | Complete u64 u32
  | Load u64 "u64 \<times> (u32 \<times> u8 \<times> u8) list option"

fun quest_step :: "quest_env \<Rightarrow> quest_op \<Rightarrow> quest_state \<Rightarrow> quest_state \<times> quest_msg list" where
  "quest_step env (Join p) w = onPlayerJoined env p w"
| "quest_step env (Craft p i n) w = checkCraftCompletion env p i n w"
| "quest_step env (PlaceBlock p b) w = checkBlockAction env p b w"
| "quest_step env (ChargeTool p i) w = checkToolCharged env p i w"
| "quest_step env (ConfigureSide p k) w = checkSideConfigured env p k w"
| "quest_step env (TakeOutput p k i n) w = checkMachineOutput env p k i n w"
| "quest_step env (OpenBook p ss) w = checkInventory env p ss w"
| "quest_step env (Complete p q) w = (case completeQuest env p q w of (w', ms, _) \<Rightarrow> (w', ms))"
| "quest_step env (Load p msg) w = loadProgress env p msg w"

fun quest_run :: "quest_env \<Rightarrow> quest_op list \<Rightarrow> quest_state \<Rightarrow> quest_state \<times> quest_msg list" where
  "quest_run env [] w = (w, [])"
| "quest_run env (op # ops) w =
     (case quest_step env op w of (w1, ms) \<Rightarrow> (case quest_run env ops w1 of (w2, ms') \<Rightarrow> (w2, ms @ ms')))"

definition load_free :: "quest_op list \<Rightarrow> bool" where
  "load_free = list_all (\<lambda>op. case op of Load _ _ \<Rightarrow> False | _ \<Rightarrow> True)"

section \<open>Progress of one player\<close>

definition supported :: "quest_graph \<Rightarrow> quest_progress \<Rightarrow> bool" where
  "supported g p \<longleftrightarrow> (\<forall>i. um_find p i = None \<or> um_find p i = Some LOCKED \<or> CanComplete g i p)"

definition settled :: "quest_graph \<Rightarrow> quest_progress \<Rightarrow> bool" where
  "settled g p \<longleftrightarrow> (\<forall>i. um_find p i = Some LOCKED \<longrightarrow> \<not> CanComplete g i p)"

lemma CanComplete_mono:
  "CanComplete g i p \<Longrightarrow> (\<And>j. completed_in p j \<Longrightarrow> completed_in p' j) \<Longrightarrow> CanComplete g i p'"
  by (auto simp: CanComplete_def list_all_iff split: option.splits)

lemma CanComplete_cong:
  "(\<And>j. completed_in p j = completed_in p' j) \<Longrightarrow> CanComplete g i p = CanComplete g i p'"
  by (metis CanComplete_mono)

lemma completed_put: "completed_in (um_put q st p) i \<longleftrightarrow> (if i = q then st = COMPLETED else completed_in p i)"
  by (simp add: completed_in_def um_simps)

lemma newly_set:
  "um_wf p \<Longrightarrow> set (NewlyAvailable g p) = {i. um_find p i = Some LOCKED \<and> CanComplete g i p}"
  by (force simp: NewlyAvailable_def um_find_in_set[symmetric])

lemma find_fold_put_const: "um_find (fold (\<lambda>i. um_put i st) ids p) k = (if k \<in> set ids then Some st else um_find p k)"
  by (induction ids arbitrary: p) (auto simp: um_simps)

lemma wf_fold_put_const: "um_wf p \<Longrightarrow> um_wf (fold (\<lambda>i. um_put i st) ids p)"
  by (induction ids arbitrary: p) auto

lemma unlocked_progress:
  fixes g :: quest_graph
  assumes "um_wf p"
  defines "p' \<equiv> fold (\<lambda>i. um_put i AVAILABLE) (NewlyAvailable g p) p"
  shows "um_wf p'" "completed_in p' i = completed_in p i" "settled g p'" "supported g p \<Longrightarrow> supported g p'"
proof -
  have find: "um_find p' k = (if um_find p k = Some LOCKED \<and> CanComplete g k p then Some AVAILABLE else um_find p k)" for k
    unfolding p'_def by (simp add: find_fold_put_const newly_set[OF assms(1)])
  show "um_wf p'" unfolding p'_def by (rule wf_fold_put_const[OF assms(1)])
  show same: "completed_in p' i = completed_in p i" for i by (simp add: completed_in_def find)
  have can: "CanComplete g k p' = CanComplete g k p" for k by (rule CanComplete_cong) (rule same)
  show "settled g p'" by (simp add: settled_def can find)
  show "supported g p \<Longrightarrow> supported g p'" by (auto simp: supported_def can find)
qed

text \<open>A quest that is completable becomes available or completed.\<close>

lemma raised_progress:
  assumes "CanComplete g q p" "\<not> completed_in p q" "st \<noteq> LOCKED"
  defines "p' \<equiv> um_put q st p"
  shows "supported g p \<Longrightarrow> supported g p'" "completed_in p i \<Longrightarrow> completed_in p' i"
proof -
  show mono: "completed_in p i \<Longrightarrow> completed_in p' i" for i
    using assms(2) by (auto simp: p'_def completed_put)
  then have "CanComplete g i p \<Longrightarrow> CanComplete g i p'" for i by (metis CanComplete_mono)
  then show "supported g p \<Longrightarrow> supported g p'"
    using assms(1) by (simp add: supported_def p'_def um_simps) blast
qed

lemma available_settled:
  assumes "settled g p" "\<not> completed_in p q"
  shows "settled g (um_put q AVAILABLE p)"
proof -
  have "CanComplete g i (um_put q AVAILABLE p) = CanComplete g i p" for i
    by (rule CanComplete_cong) (use assms(2) in \<open>simp add: completed_put\<close>)
  then show ?thesis using assms(1) by (auto simp: settled_def um_simps)
qed

section \<open>Steps\<close>

fun fired :: "quest_state \<Rightarrow> quest_msg \<Rightarrow> bool" where
  "fired w (QuestCompleted x q) = completed_in (progress_of w x) q"
| "fired w (EraTransition x e e') = (e \<in> set (eras_of w x) \<and> e' = next_era e)"
| "fired w _ = False"

fun tracked :: "quest_msg \<Rightarrow> bool" where
  "tracked (QuestCompleted _ _) = True"
| "tracked (EraTransition _ _ _) = True"
| "tracked _ = False"

definition quests_wf :: "quest_env \<Rightarrow> quest_state \<Rightarrow> bool" where
  "quests_wf env w \<longleftrightarrow>
     (\<forall>x. um_wf (progress_of w x)) \<and> questEraMap w \<in> {[], BuildQuestEraMap (qdata env)}"

definition eras_sound :: "quest_env \<Rightarrow> quest_state \<Rightarrow> bool" where
  "eras_sound env w \<longleftrightarrow>
     (\<forall>x. list_all (\<lambda>e. IsEraComplete e (progress_of w x) (BuildQuestEraMap (qdata env))) (eras_of w x))"

definition keeps_progress :: "quest_env \<Rightarrow> quest_state \<Rightarrow> quest_state \<Rightarrow> bool" where
  "keeps_progress env w w' \<longleftrightarrow>
     (\<forall>x. (settled (qgraph env) (progress_of w x) \<longrightarrow> settled (qgraph env) (progress_of w' x)) \<and>
          (supported (qgraph env) (progress_of w x) \<longrightarrow> supported (qgraph env) (progress_of w' x)))"

definition fires :: "quest_state \<Rightarrow> quest_msg list \<Rightarrow> quest_state \<Rightarrow> bool" where
  "fires w ms w' \<longleftrightarrow>
     (\<forall>m. tracked m \<longrightarrow> (fired w m \<longrightarrow> fired w' m) \<and> count_list ms m = of_bool (fired w' m \<and> \<not> fired w m))"

definition evolves :: "quest_env \<Rightarrow> quest_state \<Rightarrow> quest_msg list \<Rightarrow> quest_state \<Rightarrow> bool" where
  "evolves env w ms w' \<longleftrightarrow>
     (quests_wf env w \<longrightarrow>
        quests_wf env w' \<and> fires w ms w' \<and> keeps_progress env w w' \<and> (eras_sound env w \<longrightarrow> eras_sound env w'))"

lemma evolves_refl: "evolves env w [] w"
  by (simp add: evolves_def fires_def keeps_progress_def)

lemma fires_trans:
  assumes "fires w ms w1" "fires w1 ms' w2"
  shows "fires w (ms @ ms') w2"
proof -
  have "(fired w m \<longrightarrow> fired w2 m) \<and> count_list (ms @ ms') m = of_bool (fired w2 m \<and> \<not> fired w m)" if "tracked m" for m
  proof -
    have "(fired w m \<longrightarrow> fired w1 m) \<and> count_list ms m = of_bool (fired w1 m \<and> \<not> fired w m)"
      "(fired w1 m \<longrightarrow> fired w2 m) \<and> count_list ms' m = of_bool (fired w2 m \<and> \<not> fired w1 m)"
      using assms that by (auto simp: fires_def)
    then show ?thesis by (cases "fired w m"; cases "fired w1 m"; cases "fired w2 m") simp_all
  qed
  then show ?thesis by (simp add: fires_def)
qed

lemma evolves_trans: "evolves env w ms w1 \<Longrightarrow> evolves env w1 ms' w2 \<Longrightarrow> evolves env w (ms @ ms') w2"
  unfolding evolves_def keeps_progress_def using fires_trans by blast

text \<open>A step that replaces the progress of one player and may complete one quest.\<close>

lemma progress_of_put [simp]: "progress_of (put_progress pid p w) x = (if x = pid then p else progress_of w x)"
  by (simp add: progress_of_def put_progress_def um_simps)

lemma eras_of_put [simp]: "eras_of (put_progress pid p w) x = eras_of w x"
  by (simp add: eras_of_def put_progress_def)

lemma questEraMap_put [simp]: "questEraMap (put_progress pid p w) = questEraMap w"
  by (simp add: put_progress_def)

lemma touch_sel [simp]:
  "progress_of (touch pid w) x = progress_of w x" "eras_of (touch pid w) x = eras_of w x"
  "questEraMap (touch pid w) = questEraMap w"
  by (simp_all add: progress_of_def touch_def eras_of_def um_simps split: option.splits)

lemma IsEraComplete_mono:
  "IsEraComplete e p m \<Longrightarrow> (\<And>i. completed_in p i \<Longrightarrow> completed_in p' i) \<Longrightarrow> IsEraComplete e p' m"
  by (auto simp: IsEraComplete_def list_all_iff)

lemma eras_sound_mono:
  assumes "eras_sound env w" "\<And>x. eras_of w' x = eras_of w x"
    "\<And>x i. completed_in (progress_of w x) i \<Longrightarrow> completed_in (progress_of w' x) i"
  shows "eras_sound env w'"
  unfolding eras_sound_def
proof
  fix x
  have "list_all (\<lambda>e. IsEraComplete e (progress_of w x) (BuildQuestEraMap (qdata env))) (eras_of w x)"
    using assms(1) by (simp add: eras_sound_def)
  then show "list_all (\<lambda>e. IsEraComplete e (progress_of w' x) (BuildQuestEraMap (qdata env))) (eras_of w' x)"
    unfolding assms(2) by (rule list.pred_mono_strong) (blast intro: IsEraComplete_mono assms(3))
qed

lemma evolves_touch: "evolves env w [] (touch pid w)"
  unfolding evolves_def
proof (intro impI conjI)
  have "fired (touch pid w) m = fired w m" for m by (cases m) simp_all
  then show "fires w [] (touch pid w)" by (simp add: fires_def)
qed (simp_all add: quests_wf_def keeps_progress_def eras_sound_def)

text \<open>A change of one player's progress that completes nothing new.\<close>

lemma evolves_quiet:
  assumes "um_wf (progress_of w pid) \<Longrightarrow> um_wf p'"
    "um_wf (progress_of w pid) \<Longrightarrow> (\<And>i. completed_in p' i = completed_in (progress_of w pid) i)"
    "um_wf (progress_of w pid) \<Longrightarrow> settled (qgraph env) (progress_of w pid) \<Longrightarrow> settled (qgraph env) p'"
    "um_wf (progress_of w pid) \<Longrightarrow> supported (qgraph env) (progress_of w pid) \<Longrightarrow> supported (qgraph env) p'"
    "\<And>m. tracked m \<Longrightarrow> m \<notin> set ms"
  shows "evolves env w ms (put_progress pid p' w)"
  unfolding evolves_def
proof
  assume wf: "quests_wf env w"
  then have wfp: "um_wf (progress_of w pid)" by (simp add: quests_wf_def)
  have same: "completed_in (progress_of (put_progress pid p' w) x) i = completed_in (progress_of w x) i" for x i
    using assms(2)[OF wfp] by simp
  have "fired (put_progress pid p' w) m = fired w m" for m by (cases m) (simp_all only: fired.simps same eras_of_put)
  then have "fires w ms (put_progress pid p' w)"
    using assms(5) by (auto simp: fires_def count_list_0_iff)
  moreover have "eras_sound env w \<longrightarrow> eras_sound env (put_progress pid p' w)"
    using eras_sound_mono[of env w "put_progress pid p' w"] same by auto
  ultimately show "quests_wf env (put_progress pid p' w) \<and> fires w ms (put_progress pid p' w) \<and>
      keeps_progress env w (put_progress pid p' w) \<and> (eras_sound env w \<longrightarrow> eras_sound env (put_progress pid p' w))"
    using wf assms(1,3,4)[OF wfp] by (simp add: quests_wf_def keeps_progress_def)
qed

lemma evolves_unlock:
  assumes "unlockNewlyAvailable env pid w = (w', ms)"
  shows "evolves env w ms w'"
proof (cases "NewlyAvailable (qgraph env) (progress_of w pid) = []")
  case True
  then show ?thesis using assms evolves_refl by (simp add: unlockNewlyAvailable_def)
next
  case False
  let ?ids = "NewlyAvailable (qgraph env) (progress_of w pid)"
  have w': "w' = put_progress pid (fold (\<lambda>i. um_put i AVAILABLE) ?ids (progress_of w pid)) w"
    and ms: "ms = map (\<lambda>i. ProgressUpdated pid [(i, AVAILABLE, 0)]) ?ids @ publishQuestUnlocked pid ?ids"
    using assms False by (auto simp: unlockNewlyAvailable_def Let_def)
  have "m \<notin> set ms" if "tracked m" for m
    using that by (auto simp: ms publishQuestUnlocked_def)
  then show ?thesis
    unfolding w' by (intro evolves_quiet unlocked_progress) auto
qed

lemma unlock_settles:
  assumes "unlockNewlyAvailable env pid w = (w', ms)" "um_wf (progress_of w pid)"
  shows "settled (qgraph env) (progress_of w' pid)"
proof (cases "NewlyAvailable (qgraph env) (progress_of w pid) = []")
  case True
  then have "{i. um_find (progress_of w pid) i = Some LOCKED \<and> CanComplete (qgraph env) i (progress_of w pid)} = {}"
    using newly_set[OF assms(2), of "qgraph env"] by simp
  then show ?thesis using assms(1) True by (auto simp: unlockNewlyAvailable_def settled_def)
next
  case False
  then show ?thesis
    using assms(1) unlocked_progress(3)[OF assms(2), of "qgraph env"] by (auto simp: unlockNewlyAvailable_def Let_def)
qed

lemma era_map_sel [simp]:
  "progress_of (era_map env w) x = progress_of w x" "eras_of (era_map env w) x = eras_of w x"
  by (simp_all add: era_map_def progress_of_def eras_of_def)

lemma era_map_build: "quests_wf env w \<Longrightarrow> questEraMap (era_map env w) = BuildQuestEraMap (qdata env)"
  by (auto simp: era_map_def quests_wf_def)

text \<open>Steps that leave the progress and the eras of everybody.\<close>

lemma evolves_same:
  assumes "\<And>x. progress_of w' x = progress_of w x" "\<And>x. eras_of w' x = eras_of w x"
    "quests_wf env w \<Longrightarrow> questEraMap w' \<in> {[], BuildQuestEraMap (qdata env)}"
  shows "evolves env w [] w'"
proof -
  have "fired w' m = fired w m" for m by (cases m) (simp_all add: assms(1,2))
  then show ?thesis
    using assms by (auto simp: evolves_def fires_def keeps_progress_def quests_wf_def eras_sound_def)
qed

lemma evolves_era:
  assumes "maybePublishEraTransition env pid q w = (w', ms)"
  shows "evolves env w ms w' \<and> (\<forall>x. progress_of w' x = progress_of w x)"
proof (cases "GetQuest (qdata env) q")
  case None
  then show ?thesis using assms evolves_refl by (simp add: maybePublishEraTransition_def)
next
  case (Some d)
  define w1 where "w1 = (touch pid w)\<lparr>completedEras := um_emplace pid [] (completedEras w)\<rparr>"
  define w2 where "w2 = era_map env w1"
  define w3 where "w3 = w2\<lparr>completedEras := um_put pid (quest_era d # eras_of w2 pid) (completedEras w2)\<rparr>"
  have w1: "progress_of w1 x = progress_of w x" "eras_of w1 x = eras_of w x" "questEraMap w1 = questEraMap w" for x
    by (simp_all add: w1_def progress_of_def touch_def eras_of_def um_simps split: option.splits)
  have w2: "progress_of w2 x = progress_of w x" "eras_of w2 x = eras_of w x" for x
    by (simp_all add: w2_def w1)
  have w3: "progress_of w3 x = progress_of w x" "eras_of w3 x = (if x = pid then quest_era d # eras_of w pid else eras_of w x)"
    "questEraMap w3 = questEraMap w2" for x
    by (auto simp: w3_def progress_of_def eras_of_def um_simps w2[unfolded progress_of_def eras_of_def])
  have e1: "evolves env w [] w1" by (rule evolves_same) (use w1 in \<open>auto simp: quests_wf_def\<close>)
  have map2: "questEraMap w2 = BuildQuestEraMap (qdata env)" if "quests_wf env w"
    using era_map_build[of env w1] that w1 by (simp add: w2_def quests_wf_def)
  have e2: "evolves env w [] w2" by (rule evolves_same) (use w2 map2 in auto)
  consider (seen) "quest_era d \<in> set (eras_of w pid)" "w' = w1" "ms = []"
    | (waits) "w' = w2" "ms = []"
    | (reached) "quest_era d \<notin> set (eras_of w pid)" "IsEraComplete (quest_era d) (progress_of w2 pid) (questEraMap w2)"
        "w' = w3" "ms = [EraTransition pid (quest_era d) (next_era (quest_era d))]"
    using assms Some
    unfolding maybePublishEraTransition_def Let_def option.case w1_def[symmetric] w2_def[symmetric] w3_def[symmetric]
      w1(2)
    by (auto simp: w3_def split: if_splits)
  then show ?thesis
  proof cases
    case seen
    then show ?thesis using e1 w1 by simp
  next
    case waits
    then show ?thesis using e2 w2 by simp
  next
    case reached
    have "evolves env w ms w'"
      unfolding evolves_def
    proof
      assume wf: "quests_wf env w"
      have "(fired w m \<longrightarrow> fired w' m) \<and> count_list ms m = of_bool (fired w' m \<and> \<not> fired w m)" for m
        by (cases m) (use reached(1) in \<open>auto simp: reached(3,4) w3\<close>)
      then have "fires w ms w'" by (simp add: fires_def)
      moreover have "eras_sound env w \<longrightarrow> eras_sound env w'"
        using reached(2) by (simp add: reached(3) eras_sound_def w3 w2 map2[OF wf])
      ultimately show "quests_wf env w' \<and> fires w ms w' \<and> keeps_progress env w w' \<and> (eras_sound env w \<longrightarrow> eras_sound env w')"
        using wf map2[OF wf] by (simp add: reached(3) quests_wf_def keeps_progress_def w3)
    qed
    then show ?thesis by (simp add: reached(3) w3)
  qed
qed

text \<open>Completing a quest whose prerequisites are met.\<close>

lemma evolves_complete:
  assumes "completeQuestInternal env pid q w = (w', ms, ok)" "CanComplete (qgraph env) q (progress_of w pid)"
  shows "evolves env w ms w'"
proof (cases "completed_in (progress_of w pid) q")
  case True
  then have "um_emplace q LOCKED (progress_of w pid) = progress_of w pid"
    by (simp add: um_emplace_def completed_in_def)
  then have "w' = put_progress pid (progress_of w pid) w" "ms = []"
    using assms(1) True by (auto simp: completeQuestInternal_def completed_in_def Let_def)
  then show ?thesis by (simp add: evolves_quiet)
next
  case False
  define p where "p = progress_of w pid"
  define w2 where "w2 = put_progress pid (um_put q COMPLETED (um_emplace q LOCKED p)) w"
  define ms0 where "ms0 = [QuestCompleted pid q, ProgressUpdated pid [(q, COMPLETED, 100)]]"
  obtain w3 me where era: "maybePublishEraTransition env pid q w2 = (w3, me)" by force
  obtain w4 mu where un: "unlockNewlyAvailable env pid w3 = (w4, mu)" by force
  have res: "w' = w4" "ms = ms0 @ me @ mu"
    using assms(1) False era un
    unfolding completeQuestInternal_def Let_def p_def[symmetric] w2_def[symmetric] ms0_def
    by (auto simp: completed_in_def um_simps p_def split: if_splits)
  have find: "um_find (um_put q COMPLETED (um_emplace q LOCKED p)) i = um_find (um_put q COMPLETED p) i" for i
    by (simp add: um_simps)
  have same: "completed_in (um_put q COMPLETED (um_emplace q LOCKED p)) = completed_in (um_put q COMPLETED p)"
    by (rule ext) (simp add: completed_in_def find)
  have ev3: "evolves env w2 me w3" "progress_of w3 x = progress_of w2 x" for x
    using evolves_era[OF era] by simp_all
  have ev4: "evolves env w3 mu w4" by (rule evolves_unlock[OF un])
  show ?thesis
    unfolding evolves_def res
  proof
    assume wf: "quests_wf env w"
    then have "um_wf p" by (simp add: quests_wf_def p_def)
    then have wf2: "quests_wf env w2" using wf by (simp add: quests_wf_def w2_def)
    have now: "completed_in (progress_of w2 x) i \<longleftrightarrow> completed_in (progress_of w x) i \<or> (x = pid \<and> i = q)" for x i
      by (auto simp: w2_def completed_in_def find um_simps p_def)
    have eras2: "eras_of w2 x = eras_of w x" for x by (simp add: w2_def)
    have "(fired w m \<longrightarrow> fired w2 m) \<and> count_list ms0 m = of_bool (fired w2 m \<and> \<not> fired w m)" if "tracked m" for m
      using False that by (cases m) (auto simp: ms0_def now eras2)
    then have f2: "fires w ms0 w2" by (simp add: fires_def)
    have sup2: "supported (qgraph env) (progress_of w x) \<longrightarrow> supported (qgraph env) (progress_of w2 x)" for x
    proof (cases "x = pid")
      case True
      have "supported (qgraph env) (progress_of w2 pid) = supported (qgraph env) (um_put q COMPLETED p)"
        unfolding supported_def CanComplete_def w2_def progress_of_put find by (simp add: same find cong: option.case_cong)
      then show ?thesis
        using raised_progress(1)[OF assms(2) False, of COMPLETED] True by (simp add: p_def)
    qed (simp add: w2_def)
    have set2: "settled (qgraph env) (progress_of w x) \<longrightarrow> settled (qgraph env) (progress_of w4 x)" for x
    proof (cases "x = pid")
      case True
      have "um_wf (progress_of w3 pid)" using wf2 ev3(2) by (simp add: quests_wf_def)
      then show ?thesis using unlock_settles[OF un] True by simp
    next
      case False
      then have "progress_of w3 x = progress_of w x" by (simp add: ev3(2) w2_def)
      moreover have "quests_wf env w3" using ev3(1) wf2 by (simp add: evolves_def)
      ultimately show ?thesis using ev4 by (auto simp: evolves_def keeps_progress_def)
    qed
    have e: "evolves env w2 (me @ mu) w4" using evolves_trans[OF ev3(1) ev4] .
    have "eras_sound env w \<longrightarrow> eras_sound env w2" using eras_sound_mono[of env w w2] eras2 now by blast
    with e f2 sup2 set2 wf2 fires_trans[OF f2, of "me @ mu" w4]
    show "quests_wf env w4 \<and> fires w (ms0 @ me @ mu) w4 \<and> keeps_progress env w w4 \<and> (eras_sound env w \<longrightarrow> eras_sound env w4)"
      by (auto simp: evolves_def keeps_progress_def)
  qed
qed

lemma evolves_met:
  assumes "handleQuestMet env pid q w = (w', ms, ok)" "CanComplete (qgraph env) (quest_id q) (progress_of w pid)"
  shows "evolves env w ms w'"
proof (cases "autoComplete q")
  case True
  then have "evolves env (touch pid w) ms w'"
    using assms by (intro evolves_complete[of _ _ "quest_id q" _ _ _ ok]) (simp_all add: handleQuestMet_def)
  from evolves_trans[OF evolves_touch this] show ?thesis by simp
next
  case False
  let ?p = "progress_of w pid" and ?i = "quest_id q"
  consider (stays) "w' = touch pid w" "ms = []"
    | (raised) "um_find ?p ?i \<noteq> Some COMPLETED" "w' = put_progress pid (um_put ?i AVAILABLE ?p) (touch pid w)"
        "ms = [ProgressUpdated pid [(?i, AVAILABLE, 0)]]"
    using assms(1) False
    by (cases "um_find ?p ?i"; cases "the (um_find ?p ?i)") (simp_all add: handleQuestMet_def Let_def)
  then show ?thesis
  proof cases
    case raised
    then have no: "\<not> completed_in ?p ?i" by (simp add: completed_in_def)
    have same: "completed_in (um_put ?i AVAILABLE ?p) i = completed_in ?p i" for i
      using no by (auto simp: completed_put)
    have "evolves env (touch pid w) ms w'"
      unfolding raised(2)
      by (rule evolves_quiet)
        (use assms(2) no raised(3) raised_progress(1)[of "qgraph env" ?i ?p AVAILABLE] available_settled[of "qgraph env" ?p ?i] same
          in \<open>auto\<close>)
    from evolves_trans[OF evolves_touch this] show ?thesis by simp
  qed (simp add: evolves_touch)
qed

lemma evolves_detect: "detect_loop hit env pid qs w = (w', ms) \<Longrightarrow> evolves env w ms w'"
proof (induction qs arbitrary: w w' ms)
  case Nil
  then show ?case using evolves_refl by simp
next
  case (Cons q qs)
  consider (miss) "\<not> hit q" | (unmet) "hit q" "\<not> CanComplete (qgraph env) (quest_id q) (progress_of w pid)"
    | (met) "hit q" "CanComplete (qgraph env) (quest_id q) (progress_of w pid)" by blast
  then show ?case
  proof cases
    case miss
    then show ?thesis using Cons by simp
  next
    case unmet
    then have "evolves env (touch pid w) ms w'" using Cons by simp
    from evolves_trans[OF evolves_touch this] show ?thesis by simp
  next
    case met
    obtain w1 m1 ok where h: "handleQuestMet env pid q (touch pid w) = (w1, m1, ok)" by (metis prod_cases3)
    obtain w2 m2 where d: "detect_loop hit env pid qs w1 = (w2, m2)" by force
    have res: "w' = w2" "ms = m1 @ m2" using Cons.prems met h d by simp_all
    have "evolves env (touch pid w) m1 w1" by (rule evolves_met[OF h]) (use met in simp)
    from evolves_trans[OF evolves_touch this] evolves_trans[OF _ Cons.IH[OF d]] show ?thesis by (simp add: res)
  qed
qed

lemma evolves_detect_touched: "detect_loop hit env pid qs (touch pid w) = (w', ms) \<Longrightarrow> evolves env w ms w'"
  using evolves_trans[OF evolves_touch evolves_detect] by fastforce

lemma evolves_completeQuest:
  assumes "completeQuest env pid q w = (w', ms, ok)"
  shows "evolves env w ms w'"
proof -
  consider (refused) "w' = w \<or> w' = touch pid w" "ms = []"
    | (accepted) "CanComplete (qgraph env) q (progress_of w pid)" "completeQuestInternal env pid q (touch pid w) = (w', ms, ok)"
    using assms by (auto simp: completeQuest_def Let_def split: option.splits if_splits)
  then show ?thesis
  proof cases
    case refused
    then show ?thesis using evolves_refl evolves_touch by blast
  next
    case accepted
    then have "evolves env (touch pid w) ms w'" by (intro evolves_complete) auto
    from evolves_trans[OF evolves_touch this] show ?thesis by simp
  qed
qed

text \<open>A change of one player's progress that completes nothing and is followed by the reconciliation.\<close>

lemma evolves_reconciled:
  assumes un: "unlockNewlyAvailable env pid (put_progress pid p' w) = (w', ms)"
    and wfp: "um_wf (progress_of w pid) \<Longrightarrow> um_wf p'"
    and same: "\<And>i. completed_in p' i = completed_in (progress_of w pid) i"
    and sup: "supported (qgraph env) (progress_of w pid) \<Longrightarrow> supported (qgraph env) p'"
    and quiet: "\<And>m. tracked m \<Longrightarrow> m \<notin> set ms0"
  shows "evolves env w (ms0 @ ms) w'"
  unfolding evolves_def
proof
  define w1 where "w1 = put_progress pid p' w"
  have un: "unlockNewlyAvailable env pid w1 = (w', ms)" using un by (simp add: w1_def)
  have ev: "evolves env w1 ms w'" by (rule evolves_unlock[OF un])
  assume wf: "quests_wf env w"
  then have wf1: "quests_wf env w1" using wfp by (simp add: quests_wf_def w1_def)
  have c: "completed_in (progress_of w1 x) i = completed_in (progress_of w x) i" for x i
    using same by (simp add: w1_def)
  have e: "eras_of w1 x = eras_of w x" for x by (simp add: w1_def)
  have "fired w1 m = fired w m" for m by (cases m) (simp_all only: fired.simps c e)
  then have f: "fires w ms0 w1" using quiet by (auto simp: fires_def count_list_0_iff)
  have "settled (qgraph env) (progress_of w x) \<longrightarrow> settled (qgraph env) (progress_of w' x)" for x
  proof (cases "x = pid")
    case True
    have "um_wf (progress_of w1 pid)" using wf1 by (simp add: quests_wf_def)
    then show ?thesis using unlock_settles[OF un] True by simp
  next
    case False
    then show ?thesis using ev wf1 by (auto simp: evolves_def keeps_progress_def w1_def)
  qed
  moreover have "supported (qgraph env) (progress_of w x) \<longrightarrow> supported (qgraph env) (progress_of w1 x)" for x
    using sup by (simp add: w1_def)
  moreover have "eras_sound env w \<longrightarrow> eras_sound env w1" using eras_sound_mono[of env w w1] e c by blast
  ultimately show "quests_wf env w' \<and> fires w (ms0 @ ms) w' \<and> keeps_progress env w w' \<and> (eras_sound env w \<longrightarrow> eras_sound env w')"
    using ev wf1 fires_trans[OF f, of ms w'] by (auto simp: evolves_def keeps_progress_def)
qed

definition seeded :: "quest_data \<Rightarrow> quest_progress \<Rightarrow> quest_progress \<Rightarrow> bool" where
  "seeded d p p' \<longleftrightarrow>
     (um_wf p \<longrightarrow> um_wf p') \<and>
     (\<forall>i. um_find p' i = um_find p i \<or> (um_find p i = None \<and> um_find p' i = Some LOCKED) \<or>
          (um_find p i = None \<and> um_find p' i = Some AVAILABLE \<and> GetPrerequisites d i = []))"

lemma seed_fold: "seeded d p (fst s) \<Longrightarrow> seeded d p (fst (fold (seed_quest d) qs s))"
proof (induction qs arbitrary: s)
  case (Cons q qs)
  obtain p1 a where s: "s = (p1, a)" by force
  have wf: "um_wf p \<Longrightarrow> um_wf p1" and look: "\<And>i. um_find p1 i = um_find p i \<or> (um_find p i = None \<and> um_find p1 i = Some LOCKED) \<or>
      (um_find p i = None \<and> um_find p1 i = Some AVAILABLE \<and> GetPrerequisites d i = [])"
    using Cons.prems by (auto simp: s seeded_def)
  have "seeded d p (fst (seed_quest d q s))"
    unfolding seeded_def
  proof (intro conjI allI impI)
    fix i
    show "um_find (fst (seed_quest d q s)) i = um_find p i \<or>
        (um_find p i = None \<and> um_find (fst (seed_quest d q s)) i = Some LOCKED) \<or>
        (um_find p i = None \<and> um_find (fst (seed_quest d q s)) i = Some AVAILABLE \<and> GetPrerequisites d i = [])"
      using look[of i] look[of "quest_id q"] by (auto simp: s seed_quest_def um_simps)
  qed (use wf in \<open>auto simp: s seed_quest_def\<close>)
  then show ?case by (simp add: Cons.IH)
qed simp

definition roots_free :: "quest_env \<Rightarrow> bool" where
  "roots_free env \<longleftrightarrow> (\<forall>i p. GetPrerequisites (qdata env) i = [] \<longrightarrow> CanComplete (qgraph env) i p)"

lemma evolves_join:
  assumes "onPlayerJoined env pid w = (w', ms)" "roots_free env"
  shows "evolves env w ms w'"
proof -
  let ?p = "progress_of w pid"
  obtain p' auto_ids where f: "fold (seed_quest (qdata env)) (quests (qdata env)) (?p, []) = (p', auto_ids)" by force
  obtain w1 m1 where un: "unlockNewlyAvailable env pid (put_progress pid p' w) = (w1, m1)" by force
  have res: "w' = w1" "ms = publishQuestUnlocked pid auto_ids @ m1"
    using assms(1) f un by (simp_all add: onPlayerJoined_def)
  have "seeded (qdata env) ?p p'"
    using seed_fold[of "qdata env" ?p "(?p, [])" "quests (qdata env)"] f by (simp add: seeded_def)
  then have wf: "um_wf ?p \<Longrightarrow> um_wf p'" and look: "\<And>i. um_find p' i = um_find ?p i \<or> (um_find ?p i = None \<and> um_find p' i = Some LOCKED) \<or>
      (um_find ?p i = None \<and> um_find p' i = Some AVAILABLE \<and> GetPrerequisites (qdata env) i = [])"
    by (auto simp: seeded_def)
  have same: "completed_in p' i = completed_in ?p i" for i
    using look[of i] by (auto simp: completed_in_def)
  have "supported (qgraph env) p'" if "supported (qgraph env) ?p"
    unfolding supported_def
  proof
    fix i
    have "CanComplete (qgraph env) i p' = CanComplete (qgraph env) i ?p" by (rule CanComplete_cong) (rule same)
    then show "um_find p' i = None \<or> um_find p' i = Some LOCKED \<or> CanComplete (qgraph env) i p'"
      using look[of i] that[unfolded supported_def, rule_format, of i] assms(2) by (auto simp: roots_free_def)
  qed
  then show ?thesis
    unfolding res by (intro evolves_reconciled[OF un wf same]) (auto simp: publishQuestUnlocked_def)
qed

lemma evolves_step:
  assumes "quest_step env op w = (w', ms)" "roots_free env" "load_free [op]"
  shows "evolves env w ms w'"
proof (cases op)
  case (Complete p q)
  then show ?thesis using assms(1) by (auto split: prod.splits dest: evolves_completeQuest)
next
  case (Load p msg)
  then show ?thesis using assms(3) by (simp add: load_free_def)
qed (use assms in \<open>auto simp: checkCraftCompletion_def checkBlockAction_def checkToolCharged_def checkSideConfigured_def
    checkMachineOutput_def checkInventory_def Let_def split: if_splits
    intro: evolves_refl evolves_detect_touched evolves_detect evolves_join\<close>)

lemma evolves_run:
  "quest_run env ops w = (w', ms) \<Longrightarrow> roots_free env \<Longrightarrow> load_free ops \<Longrightarrow> evolves env w ms w'"
proof (induction ops arbitrary: w w' ms)
  case Nil
  then show ?case using evolves_refl by simp
next
  case (Cons op ops)
  obtain w1 m1 where s: "quest_step env op w = (w1, m1)" by force
  obtain w2 m2 where r: "quest_run env ops w1 = (w2, m2)" by force
  have "evolves env w m1 w1" by (rule evolves_step[OF s]) (use Cons.prems in \<open>auto simp: load_free_def\<close>)
  moreover have "evolves env w1 m2 w2" by (rule Cons.IH[OF r]) (use Cons.prems in \<open>auto simp: load_free_def\<close>)
  ultimately show ?case using evolves_trans Cons.prems(1) s r by fastforce
qed

section \<open>The environment the main program builds\<close>

definition index_map :: "u32 list \<Rightarrow> (nat \<Rightarrow> 'a) \<Rightarrow> (u32, 'a) umap" where
  "index_map ids h = fold (\<lambda>j. um_put (ids ! j) (h j)) [0..<length ids] []"

definition index_ok :: "quest_data \<Rightarrow> bool" where
  "index_ok d \<longleftrightarrow> (\<forall>i. um_find (idIndex d) i = um_find (index_map (map quest_id (quests d)) (\<lambda>j. j)) i)"

lemma index_map_snoc:
  "um_find (index_map (ids @ [x]) h) = (um_find (index_map ids h))(x \<mapsto> h (length ids))"
proof -
  have "fold (\<lambda>j. um_put ((ids @ [x]) ! j) (h j)) [0..<length ids] [] = fold (\<lambda>j. um_put (ids ! j) (h j)) [0..<length ids] []"
    by (rule fold_cong) (auto simp: nth_append)
  then show ?thesis by (simp add: index_map_def um_simps)
qed

lemma index_map_cong: "(\<And>j. j < length ids \<Longrightarrow> h j = h' j) \<Longrightarrow> index_map ids h = index_map ids h'"
  unfolding index_map_def by (rule fold_cong) auto

lemma index_map_option: "um_find (index_map ids h) i = map_option h (um_find (index_map ids (\<lambda>j. j)) i)"
proof (induction ids rule: rev_induct)
  case Nil
  then show ?case by (simp add: index_map_def)
qed (simp add: index_map_snoc)

lemma prereqsMap_index: "um_find (prereqsMap d) i = map_option (\<lambda>j. prerequisites (quests d ! j)) (um_find (index_map (map quest_id (quests d)) (\<lambda>j. j)) i)"
proof -
  have "fold (\<lambda>q. um_put (quest_id q) (prerequisites q)) qs [] = index_map (map quest_id qs) (\<lambda>j. prerequisites (qs ! j))"
    for qs :: "quest_def list"
  proof (induction qs rule: rev_induct)
    case (snoc q qs)
    have "fold (\<lambda>j. um_put (map quest_id (qs @ [q]) ! j) (prerequisites ((qs @ [q]) ! j))) [0..<length qs] [] =
        fold (\<lambda>j. um_put (map quest_id qs ! j) (prerequisites (qs ! j))) [0..<length qs] []"
      by (rule fold_cong) (auto simp: nth_append)
    then show ?case using snoc by (simp add: index_map_def nth_append)
  qed (simp add: index_map_def)
  then show ?thesis unfolding prereqsMap_def by (simp only: index_map_option[where h = "\<lambda>j. prerequisites (quests d ! j)"])
qed

lemma index_ok_prereqs:
  assumes "index_ok d"
  shows "um_find (prereqsMap d) i = map_option prerequisites (GetQuest d i)"
  using assms by (simp add: prereqsMap_index GetQuest_def index_ok_def option.map_comp o_def)

definition same_ids :: "quest_data \<Rightarrow> quest_data \<Rightarrow> bool" where
  "same_ids d d' \<longleftrightarrow> idIndex d' = idIndex d \<and> map quest_id (quests d') = map quest_id (quests d)"

lemma same_ids_index: "same_ids d d' \<Longrightarrow> index_ok d \<Longrightarrow> index_ok d'"
  by (simp add: same_ids_def index_ok_def)

lemma same_ids_refl [simp]: "same_ids d d"
  by (simp add: same_ids_def)

lemma same_ids_trans: "same_ids d d1 \<Longrightarrow> same_ids d1 d2 \<Longrightarrow> same_ids d d2"
  by (simp add: same_ids_def)

lemma same_ids_update: "quest_id q = quest_id (quests d ! j) \<Longrightarrow> same_ids d (d\<lparr>quests := (quests d)[j := q]\<rparr>)"
  by (cases "j < length (quests d)") (simp_all add: same_ids_def map_update list_update_same_conv list_update_beyond)

lemma same_ids_LoadGraph: "same_ids d (fst (LoadGraph gr d))"
proof -
  have "same_ids d (fst (load_entries es d g))" for es g
  proof (induction es d g rule: load_entries.induct)
    case (2 i ps es d g)
    have "same_ids d (set_prereqs i ps d)"
      using same_ids_update by (auto simp: set_prereqs_def split: option.splits)
    then show ?case using 2 by (auto intro: same_ids_trans)
  qed (simp add: same_ids_def)
  then have "same_ids d (fst (load_entries es d []))" for es .
  then show ?thesis
    by (cases gr) (simp_all add: LoadGraph_def same_ids_def case_prod_unfold)
qed

lemma same_ids_requirements: "LoadRequirementsJSON reqs d = Some (d', ok) \<Longrightarrow> same_ids d d'"
proof -
  have one: "merge_requirements e d = Some d' \<Longrightarrow> same_ids d d'" for e d d'
  proof -
    assume m: "merge_requirements e d = Some d'"
    have "\<exists>j q. d' = d \<or> (d' = d\<lparr>quests := (quests d)[j := q]\<rparr> \<and> quest_id q = quest_id (quests d ! j))"
      using m by (force simp: merge_requirements_def Let_def split: prod.splits option.splits list.splits)
    then show ?thesis using same_ids_update by auto
  qed
  have "merge_entries es d = Some d' \<Longrightarrow> same_ids d d'" for es d d'
  proof (induction es d arbitrary: d' rule: merge_entries.induct)
    case (2 e es d)
    then show ?case by (auto split: option.splits intro: same_ids_trans one)
  qed (simp add: same_ids_def)
  then show "LoadRequirementsJSON reqs d = Some (d', ok) \<Longrightarrow> same_ids d d'"
    by (auto simp: LoadRequirementsJSON_def split: option.splits)
qed

lemma index_ok_LoadCSV: "index_ok (fst (LoadCSV csv empty_quests))"
proof -
  have add: "index_ok (add_quest q d)" if "index_ok d" for q d
    using that by (simp add: index_ok_def add_quest_def um_simps index_map_snoc)
  have "index_ok (fold (\<lambda>line d. if line = [] then d else add_quest (parse_quest line) d) ls d)" if "index_ok d" for ls d
    using that by (induction ls arbitrary: d) (auto intro: add)
  then show ?thesis
    by (auto simp: LoadCSV_def buildGraph_def index_ok_def index_map_def empty_quests_def split: option.splits)
qed

lemma questbook_prereqs:
  assumes "questbook csv gr reqs reg = Some env"
  shows "um_find (prereqs (qgraph env)) i = map_option prerequisites (GetQuest (qdata env) i)" "roots_free env"
proof -
  define d0 where "d0 = fst (LoadGraph gr (fst (LoadCSV csv empty_quests)))"
  obtain d ok where d: "LoadRequirementsJSON reqs d0 = Some (d, ok)" "qdata env = d"
    using assms unfolding questbook_def d0_def[symmetric] by (auto split: option.splits)
  have "index_ok d0" unfolding d0_def by (rule same_ids_index[OF same_ids_LoadGraph index_ok_LoadCSV])
  then have "index_ok (qdata env)" using same_ids_index[OF same_ids_requirements[OF d(1)]] d(2) by simp
  then show eq: "um_find (prereqs (qgraph env)) i = map_option prerequisites (GetQuest (qdata env) i)" for i
    using assms index_ok_prereqs by (auto simp: questbook_def Init_def split: option.splits)
  show "roots_free env"
    by (auto simp: roots_free_def GetPrerequisites_def CanComplete_def eq split: option.splits)
qed

lemma CanComplete_questbook:
  assumes "questbook csv gr reqs reg = Some env"
  shows "CanComplete (qgraph env) i p \<longleftrightarrow> list_all (completed_in p) (GetPrerequisites (qdata env) i)"
  using questbook_prereqs(1)[OF assms, of i] by (auto simp: CanComplete_def GetPrerequisites_def split: option.splits)

end
