(* ===== verification/ChestSessions.thy ===== *)
theory ChestSessions
  imports InventoryHandler
begin

text \<open>
  Opening, loading, using and closing a chest: \<open>ContainerSessionRegistry\<close>, \<open>ChestOpenHandler.cpp\<close>,
  \<open>ChestCloseHandler.cpp\<close> and the slot cache of \<open>ChestStateManager.cpp\<close>. A load that misses the cache is
  answered later by the entity store: the waiting callbacks are part of the state and an answer with the
  decoded slots is a step of its own. What is written to the entity store mirrors the cache.
\<close>

section \<open>State\<close>

type_synonym container_key = "pos3 \<times> u16"

record chest_world =
  world :: inv_world
  cached_slots :: "(container_key, pslot list) umap"
  waiting :: "(u64 \<times> pos3) list"

definition open_session :: "u64 \<Rightarrow> session \<Rightarrow> inv_world \<Rightarrow> inv_world" where
  "open_session pid s w = w\<lparr>sessions := um_put pid s (sessions w)\<rparr>"

definition find_session :: "u64 \<Rightarrow> inv_world \<Rightarrow> session option" where
  "find_session pid w = um_find (sessions w) pid"

definition close_session :: "u64 \<Rightarrow> inv_world \<Rightarrow> inv_world" where
  "close_session pid w = w\<lparr>sessions := um_erase pid (sessions w)\<rparr>"

definition forEachOpenAt :: "pos3 \<Rightarrow> inv_world \<Rightarrow> (u64 \<times> session) list" where
  "forEachOpenAt p w = filter (\<lambda>(_, s). s_pos s = p) (sessions w)"

section \<open>Slot cache\<close>

definition saveSlots :: "pos3 \<Rightarrow> u16 \<Rightarrow> pslot list \<Rightarrow> chest_world \<Rightarrow> chest_world" where
  "saveSlots p ty ss w = w\<lparr>cached_slots := um_put (p, ty) ss (cached_slots w)\<rparr>"

definition clearSlots :: "pos3 \<Rightarrow> u16 \<Rightarrow> chest_world \<Rightarrow> chest_world" where
  "clearSlots p ty w = w\<lparr>cached_slots := um_erase (p, ty) (cached_slots w)\<rparr>"

text \<open>The callback of the open handler: it fills whatever session the player has by then.\<close>

definition fill_session :: "u64 \<Rightarrow> pslot list \<Rightarrow> inv_world \<Rightarrow> inv_world" where
  "fill_session pid ss w =
     (case find_session pid w of
        None \<Rightarrow> w
      | Some s \<Rightarrow>
          if ss = [] then w
          else (let n = min (length ss) (length (s_own s))
                in open_session pid (s\<lparr>s_own := take n ss @ drop n (s_own s)\<rparr>) w))"

definition loadSlots :: "u64 \<Rightarrow> pos3 \<Rightarrow> chest_world \<Rightarrow> chest_world" where
  "loadSlots pid p w =
     (case um_find (cached_slots w) (p, kChestEntityType) of
        Some ss \<Rightarrow> w\<lparr>world := fill_session pid ss (world w)\<rparr>
      | None \<Rightarrow> w\<lparr>waiting := waiting w @ [(pid, p)]\<rparr>)"

definition store_reply :: "nat \<Rightarrow> pslot list \<Rightarrow> chest_world \<Rightarrow> chest_world" where
  "store_reply i ss w =
     (case nth_opt (waiting w) i of
        None \<Rightarrow> w
      | Some (pid, p) \<Rightarrow>
          let w1 = saveSlots p kChestEntityType ss w
          in w1\<lparr>world := fill_session pid ss (world w1), waiting := take i (waiting w) @ drop (Suc i) (waiting w)\<rparr>)"

section \<open>Handlers\<close>

definition chest_session :: "pos3 \<Rightarrow> session" where
  "chest_session p =
     \<lparr>s_kind = Chest, s_pos = p, s_type = kChestEntityType, s_own = replicate 27 no_slot, s_live = None\<rparr>"

definition chest_open :: "u64 \<Rightarrow> pos3 \<Rightarrow> chest_world \<Rightarrow> chest_world" where
  "chest_open pid p w =
     (if pid = 0 then w
      else loadSlots pid p (w\<lparr>world := open_session pid (chest_session p) (world w)\<rparr>))"

definition chest_close :: "u64 \<Rightarrow> pos3 \<Rightarrow> chest_world \<Rightarrow> chest_world" where
  "chest_close pid p w =
     (if pid = 0 then w
      else (case find_session pid (world w) of
              None \<Rightarrow> w
            | Some s \<Rightarrow>
                let w1 = saveSlots p kChestEntityType (s_own s) w
                in w1\<lparr>world := close_session pid (world w1)\<rparr>))"

fun save_effect :: "inv_effect \<Rightarrow> chest_world \<Rightarrow> chest_world" where
  "save_effect (SaveSlots p ss ty) w = saveSlots p ty ss w"
| "save_effect _ w = w"

definition click_chest :: "(u16 \<Rightarrow> u16 option) \<Rightarrow> u64 \<Rightarrow> container_click \<Rightarrow> chest_world \<Rightarrow> chest_world" where
  "click_chest slots_in pid c w =
     (case handle slots_in pid c (world w) of (iw, effects) \<Rightarrow> fold save_effect effects (w\<lparr>world := iw\<rparr>))"

section \<open>What a click keeps\<close>

lemma move_into_length: "length (fst (move_into ds stack)) = length ds"
proof -
  obtain ds1 st1 where m: "merge_all [0..<length ds] ds stack = (ds1, st1)" by force
  obtain ds2 st2 r where f: "fill_first [0..<length ds] ds1 st1 = (ds2, st2, r)" by (metis prod_cases3)
  have "length ds1 = length ds" using merge_all_facts[OF m] by auto
  moreover then have "length ds2 = length ds1" using fill_first_facts[OF f] by auto
  ultimately show ?thesis using m f by (simp add: move_into_def)
qed

lemma MoveStackToRange_length:
  assumes "src < length ps" "e \<le> length ps"
  shows "length (fst (MoveStackToRange ps src b e)) = length ps"
proof (cases "is_empty (ps ! src)")
  case False
  let ?idx = "filter (\<lambda>i. i \<noteq> src) [b..<e]"
  obtain p1 s1 r1 where a: "range_merge ?idx (ps[src := no_slot]) (ps ! src) = (p1, s1, r1)" by (metis prod_cases3)
  obtain p2 s2 r2 where f: "fill_first ?idx p1 s1 = (p2, s2, r2)" by (metis prod_cases3)
  have "length p1 = length ps" using range_merge_facts[OF a] assms by auto
  moreover then have "length p2 = length p1" using fill_first_facts[OF f] assms by auto
  ultimately show ?thesis
    using False a f by (cases r1; cases r2) (simp_all add: MoveStackToRange_def Let_def)
qed (simp add: MoveStackToRange_def)

lemma collect_length: "length (fst (collect ss cur ch)) = length ss"
  by (induction ss arbitrary: cur ch) (simp_all add: case_prod_unfold)

definition shape_of :: "inv_ref \<Rightarrow> nat \<times> nat option" where
  "shape_of iv = (length (player iv), map_option length (container iv))"

lemma shape_put_slot [simp]: "shape_of (put_slot cid i s iv) = shape_of iv"
  by (simp add: put_slot_def shape_of_def option.map_comp o_def)

lemma shape_on_target: "shape_of (fst (on_target rule c iv)) = shape_of iv"
  by (auto simp: on_target_def split: option.splits) (simp_all add: shape_of_def)

lemma shape_quick_move:
  assumes "length (player iv) = kInventorySlots"
  shows "shape_of (fst (ApplyQuickMove c iv)) = shape_of iv"
proof (cases "SlotAt iv (container_id c) (slot c)")
  case (Some src)
  let ?cid = "container_id c" and ?i = "slot c"
  let ?iv1 = "put_slot ?cid ?i no_slot iv"
  have s1: "length (player ?iv1) = length (player iv)" "map_option length (container ?iv1) = map_option length (container iv)"
    using shape_put_slot[of ?cid ?i no_slot iv] by (simp_all only: shape_of_def prod.inject)
  consider (none) "is_empty src" | (closed) "\<not> is_empty src" "container iv = None \<or> container iv = Some []"
    | (both) ss where "\<not> is_empty src" "container iv = Some ss" "ss \<noteq> []"
    by (cases "container iv") auto
  then show ?thesis
  proof cases
    case none
    then show ?thesis using Some by (simp add: ApplyQuickMove_def)
  next
    case closed
    have lt: "unat ?i < length (player iv)" if "?cid = 0"
      using Some assms that by (auto simp: SlotAt_def split: if_splits)
    have "fst (ApplyQuickMove c iv) \<in> {iv, iv\<lparr>player := fst (MoveStackToRange (player iv) (unat ?i) 10 40)\<rparr>,
        iv\<lparr>player := fst (MoveStackToRange (player iv) (unat ?i) 0 10)\<rparr>} \<and> (?cid \<noteq> 0 \<longrightarrow> fst (ApplyQuickMove c iv) = iv)"
      using Some closed assms
      by (auto simp: ApplyQuickMove_def case_prod_unfold kHotbarCount_def kInventorySlots_def)
    then show ?thesis
      using MoveStackToRange_length[OF lt, of 40 10] MoveStackToRange_length[OF lt, of 10 0] assms
      by (cases "?cid = 0") (auto simp: shape_of_def kInventorySlots_def)
  next
    case both
    then obtain ss1 where c1: "container ?iv1 = Some ss1" using s1(2) by auto
    define ivc where "ivc = ?iv1\<lparr>container := Some (fst (move_into ss1 src))\<rparr>"
    define ivp where "ivp = ?iv1\<lparr>player := fst (move_into (player ?iv1) src)\<rparr>"
    have "shape_of ivc = shape_of iv" "shape_of ivp = shape_of iv"
      using s1 c1 by (simp_all add: ivc_def ivp_def shape_of_def move_into_length)
    moreover have "\<exists>l. fst (ApplyQuickMove c iv) =
        (let v = (if ?cid = 0 then ivc else ivp) in if is_empty l then v else put_slot ?cid ?i l v)"
      using Some both c1
      by (cases "?cid = 0") (auto simp: ApplyQuickMove_def Let_def case_prod_unfold ivc_def ivp_def)
    ultimately show ?thesis by (auto simp: Let_def)
  qed
qed (simp add: ApplyQuickMove_def)

lemma shape_click:
  assumes "length (player iv) = kInventorySlots"
  shows "shape_of (fst (ApplyContainerClick c iv)) = shape_of iv"
proof -
  have "shape_of (fst (ApplyPickupAll c iv)) = shape_of iv"
    by (simp add: ApplyPickupAll_def shape_of_def case_prod_unfold collect_length split: option.split)
  moreover have "shape_of (fst (ApplyDrop c iv)) = shape_of iv"
    by (simp add: ApplyDrop_def shape_on_target) (simp add: shape_of_def)
  ultimately show ?thesis
    by (simp add: ApplyContainerClick_def ApplyClick_def ApplyDragPlace_def shape_on_target shape_quick_move[OF assms])
qed

end
