(* ===== verification/ChestBook.thy ===== *)
theory ChestBook
  imports ChestSessions
begin

text \<open>
  Runs of the inventory: the well-formedness of everything stored, the conservation of items by a visit
  to a chest, and the runs in which two sessions hold copies of one chest.
\<close>

section \<open>Runs\<close>

datatype inv_op =
    JoinGame u64
  | RestoreSlots u64 "pslot list"
  | GiveItem u64 u16 u8 int
  | ClickSlot u64 container_click
  | OpenChest u64 pos3
  | Reply nat "pslot list"
  | CloseChest u64 pos3
  | BreakChest pos3

definition on_store :: "(inv_store \<Rightarrow> inv_store) \<Rightarrow> chest_world \<Rightarrow> chest_world" where
  "on_store f w = w\<lparr>world := (world w)\<lparr>store := f (store (world w))\<rparr>\<rparr>"

fun inv_step :: "(u16 \<Rightarrow> u16 option) \<Rightarrow> inv_op \<Rightarrow> chest_world \<Rightarrow> chest_world" where
  "inv_step m (JoinGame p) w = on_store (initPlayer p) w"
| "inv_step m (RestoreSlots p ss) w = on_store (applyUpdate p ss) w"
| "inv_step m (GiveItem p i n t) w = on_store (\<lambda>st. fst (giveItem p i n t st)) w"
| "inv_step m (ClickSlot p c) w = click_chest m p c w"
| "inv_step m (OpenChest p q) w = chest_open p q w"
| "inv_step m (Reply i ss) w = store_reply i ss w"
| "inv_step m (CloseChest p q) w = chest_close p q w"
| "inv_step m (BreakChest q) w = clearSlots q kChestEntityType w"

definition inv_run :: "(u16 \<Rightarrow> u16 option) \<Rightarrow> inv_op list \<Rightarrow> chest_world \<Rightarrow> chest_world" where
  "inv_run m ops w = fold (inv_step m) ops w"

definition chests_new :: chest_world where
  "chests_new = \<lparr>world = \<lparr>store = \<lparr>inventories = [], cursors = []\<rparr>, sessions = []\<rparr>, cached_slots = [], waiting = []\<rparr>"

text \<open>Slots that come from outside hold at most a stack.\<close>

fun op_small :: "inv_op \<Rightarrow> bool" where
  "op_small (RestoreSlots _ ss) = list_all small ss"
| "op_small (Reply _ ss) = list_all small ss"
| "op_small _ = True"

section \<open>Well-formedness\<close>

definition store_ok :: "inv_store \<Rightarrow> bool" where
  "store_ok st \<longleftrightarrow>
     (\<forall>p. length (getSlots st p) = kInventorySlots \<and> list_all small (getSlots st p) \<and> small (getCursor st p))"

definition session_ok :: "session \<Rightarrow> bool" where
  "session_ok s \<longleftrightarrow> list_all small (s_own s) \<and> (case s_live s of None \<Rightarrow> True | Some ss \<Rightarrow> list_all small ss)"

definition sessions_ok :: "inv_world \<Rightarrow> bool" where
  "sessions_ok w \<longleftrightarrow> (\<forall>p. case um_find (sessions w) p of None \<Rightarrow> True | Some s \<Rightarrow> session_ok s)"

definition cache_small :: "chest_world \<Rightarrow> bool" where
  "cache_small w \<longleftrightarrow> (\<forall>k. case um_find (cached_slots w) k of None \<Rightarrow> True | Some ss \<Rightarrow> list_all small ss)"

definition chests_ok :: "chest_world \<Rightarrow> bool" where
  "chests_ok w \<longleftrightarrow> store_ok (store (world w)) \<and> sessions_ok (world w) \<and> cache_small w"

lemma slotsRef_small: "session_ok s \<Longrightarrow> list_all small (slotsRef s)"
  by (auto simp: session_ok_def slotsRef_def split: option.splits)

lemma put_ref_ok: "session_ok s \<Longrightarrow> list_all small ss \<Longrightarrow> session_ok (put_ref ss s)"
  by (auto simp: session_ok_def put_ref_def)

lemma sessions_ok_put: "sessions_ok w \<Longrightarrow> session_ok s \<Longrightarrow> sessions_ok (w\<lparr>sessions := um_put p s (sessions w)\<rparr>)"
  by (simp add: sessions_ok_def um_simps)

lemma sessions_ok_store [simp]: "sessions_ok (w\<lparr>store := st\<rparr>) = sessions_ok w"
  by (simp add: sessions_ok_def)

lemma cache_small_find: "cache_small w \<Longrightarrow> um_find (cached_slots w) k = Some ss \<Longrightarrow> list_all small ss"
  unfolding cache_small_def by (drule spec[of _ k]) simp

lemma sessions_ok_find: "sessions_ok w \<Longrightarrow> um_find (sessions w) p = Some s \<Longrightarrow> session_ok s"
  unfolding sessions_ok_def by (drule spec[of _ p]) simp

lemma store_ok_put:
  assumes "store_ok st" "length ss = kInventorySlots" "list_all small ss"
  shows "store_ok (setSlots p ss st)"
  using assms by (simp add: store_ok_def setSlots_def getSlots_def getCursor_def um_simps)

lemma store_ok_cursor:
  assumes "store_ok st" "length ss = kInventorySlots" "list_all small ss" "small c"
  shows "store_ok (setSlotsAndCursor p ss c st)"
  using assms by (simp add: store_ok_def setSlotsAndCursor_def getSlots_def getCursor_def um_simps)

lemma fresh_ok [simp]: "length fresh_slots = kInventorySlots" "list_all small fresh_slots"
  by (simp_all add: fresh_slots_def list_all_length)

lemma store_ok_init: "store_ok st \<Longrightarrow> store_ok (initPlayer p st)"
  by (auto simp: store_ok_def initPlayer_def getSlots_def getCursor_def um_simps split: option.splits)

lemma list_all_take_drop: "list_all P xs \<Longrightarrow> list_all P ys \<Longrightarrow> list_all P (take n xs @ drop m ys)"
  by (auto simp: list_all_iff dest: in_set_takeD in_set_dropD)

lemma store_ok_update:
  assumes "store_ok st" "list_all small ss"
  shows "store_ok (applyUpdate p ss st)"
proof -
  have "length (getSlots st p) = kInventorySlots" "list_all small (getSlots st p)" using assms(1) by (simp_all add: store_ok_def)
  then show ?thesis
    unfolding applyUpdate_def Let_def using assms(1,2) by (intro store_ok_put list_all_take_drop) auto
qed

subsection \<open>Giving items\<close>

lemma top_up_small: "small s \<Longrightarrow> small (fst (top_up it s rem))"
proof -
  assume s: "small s"
  have "small (s\<lparr>cnt := cnt s + min (word_of_int rem) (kMaxStack - cnt s)\<rparr>)" if "cnt s < kMaxStack"
  proof -
    let ?a = "min (word_of_int rem) (kMaxStack - cnt s)"
    have "unat (kMaxStack - cnt s) = unat kMaxStack - unat (cnt s)" using that by (intro unat_minus_le) simp
    moreover have "unat (cnt s) < 64" "unat kMaxStack = 64" using that by (simp_all add: kMaxStack_def word_less_nat_alt)
    ultimately have "unat (kMaxStack - cnt s) = 64 - unat (cnt s)" "unat (cnt s) < 64" by simp_all
    moreover have "unat ?a \<le> unat (kMaxStack - cnt s)" by (metis min.cobounded2 word_le_nat_alt)
    ultimately have "unat (cnt s) + unat ?a \<le> 64" by linarith
    then have "unat (cnt s + ?a) = unat (cnt s) + unat ?a" by (simp add: unat_word_ariths)
    with \<open>unat (cnt s) + unat ?a \<le> 64\<close> show ?thesis by (simp add: small_def kMaxStack_def word_le_nat_alt)
  qed
  with s show ?thesis by (simp add: top_up_def Let_def)
qed

lemma take_free_small: "small s \<Longrightarrow> small (fst (take_free it s rem))"
  by (simp add: take_free_def Let_def small_def)

lemma give_pass_small:
  assumes "\<And>s rem. small s \<Longrightarrow> small (fst (f s rem))" "list_all small ss"
  shows "list_all small (fst (give_pass f ss rem)) \<and> length (fst (give_pass f ss rem)) = length ss"
  using assms(2)
proof (induction ss arbitrary: rem)
  case (Cons s ss)
  then show ?case using assms(1)[of s rem] by (simp add: case_prod_unfold)
qed simp

lemma give_target_small:
  assumes "list_all small ss" "length ss = kInventorySlots"
  shows "list_all small (fst (give_target it t ss rem)) \<and> length (fst (give_target it t ss rem)) = length ss"
proof (cases "0 \<le> t \<and> t < int kInventorySlots")
  case True
  then have "small (ss ! nat t)" using list_all_nth'[OF assms(1), of "nat t"] assms(2) by (simp add: nat_less_iff)
  then have "small (fst (if item_id (ss ! nat t) = 0 then take_free it (ss ! nat t) rem else top_up it (ss ! nat t) rem))"
    using top_up_small take_free_small by simp
  then have "list_all small (ss[nat t := fst (if item_id (ss ! nat t) = 0 then take_free it (ss ! nat t) rem else top_up it (ss ! nat t) rem)])"
    by (rule list_all_update[OF assms(1)])
  then show ?thesis
    using True by (simp add: give_target_def case_prod_unfold Let_def)
qed (use assms in \<open>auto simp: give_target_def\<close>)

lemma store_ok_give: "store_ok st \<Longrightarrow> store_ok (fst (giveItem p it n t st))"
proof -
  assume ok: "store_ok st"
  define s1 where "s1 = give_target it t (getSlots st p) (uint n)"
  define s2 where "s2 = (if snd s1 > 0 then give_pass (top_up it) (fst s1) (snd s1) else s1)"
  define s3 where "s3 = (if snd s2 > 0 then give_pass (take_free it) (fst s2) (snd s2) else s2)"
  have "list_all small (fst s1) \<and> length (fst s1) = kInventorySlots"
    using give_target_small[of "getSlots st p"] ok by (simp add: s1_def store_ok_def)
  then have "list_all small (fst s2) \<and> length (fst s2) = kInventorySlots"
    using give_pass_small[OF top_up_small] by (simp add: s2_def)
  then have "list_all small (fst s3) \<and> length (fst s3) = kInventorySlots"
    using give_pass_small[OF take_free_small] by (simp add: s3_def)
  moreover have "fst (giveItem p it n t st) = (if n = 0 then st else setSlots p (fst s3) st)"
    by (simp add: giveItem_def s1_def s2_def s3_def case_prod_unfold)
  ultimately show ?thesis using ok store_ok_put by simp
qed

subsection \<open>Clicks\<close>

text \<open>What handling a click does, in terms of the rule applied to the slots and the cursor.\<close>

fun saves_only :: "(pslot list \<Rightarrow> bool) \<Rightarrow> inv_effect \<Rightarrow> bool" where
  "saves_only P (SaveSlots _ ss _) = P ss"
| "saves_only P _ = True"

lemma handle_result:
  fixes m :: "u16 \<Rightarrow> u16 option" and pid :: u64 and c :: container_click and w :: inv_world
  defines "iv \<equiv> \<lparr>player = getSlots (store w) pid,
      container = (if container_id c = 1 then map_option slotsRef (find_session pid w) else None),
      cursor = getCursor (store w) pid\<rparr>"
  defines "r \<equiv> ApplyContainerClick c iv"
  assumes len: "length (getSlots (store w) pid) = kInventorySlots"
  shows "fst (handle m pid c w) \<in> {w,
      (let w1 = live_session pid (find_session pid w) (container (fst r)) w
       in if snd r then w1\<lparr>store := setSlotsAndCursor pid (player (fst r)) (cursor (fst r)) (store w)\<rparr> else w1)}
    \<and> list_all (saves_only (\<lambda>ss. container (fst r) = Some ss)) (snd (handle m pid c w))"
proof -
  define sess where "sess = (if container_id c \<noteq> 0 then um_find (sessions w) pid else None)"
  have iv: "iv = \<lparr>player = getSlots (store w) pid,
      container = (if container_id c = 1 then map_option slotsRef sess else None), cursor = getCursor (store w) pid\<rparr>"
    by (simp add: iv_def sess_def find_session_def)
  obtain iv' ch where r: "ApplyContainerClick c iv = (iv', ch)" by force
  define w1 where "w1 = live_session pid sess (container iv') w"
  have live: "live_session pid (find_session pid w) (container iv') w = w1" if "sess = None \<longrightarrow> container iv' = None"
    using that by (auto simp: w1_def live_session_def sess_def find_session_def split: option.splits)
  have none: "sess = None \<Longrightarrow> container iv = None" by (simp add: iv)
  show ?thesis
  proof (cases "pid = 0 \<or> (container_id c \<noteq> 0 \<and> sess = None)")
    case True
    then show ?thesis by (simp add: handle_def Let_def sess_def)
  next
    case False
    have h: "handle m pid c w = (if \<not> ch then (w1, [])
        else (w1\<lparr>store := setSlotsAndCursor pid (player iv') (cursor iv') (store w)\<rparr>,
          handle_effects c sess (quest_candidate m c sess iv) iv'))"
      unfolding handle_def Let_def sess_def[symmetric] iv[symmetric] if_not_P[OF False] r prod.case w1_def[symmetric] ..
    have "length (player iv) = kInventorySlots" using len by (simp add: iv)
    from shape_click[OF this, of c] have "map_option length (container iv') = map_option length (container iv)"
      using r by (simp add: shape_of_def)
    then have "sess = None \<longrightarrow> container iv' = None" using none by auto
    then have l: "live_session pid (find_session pid w) (container iv') w = w1" by (rule live)
    have "list_all (saves_only (\<lambda>ss. container iv' = Some ss)) (handle_effects c sess q iv')" for q
      by (simp add: handle_effects_def split: option.splits)
    then show ?thesis using l r by (auto simp: h r_def Let_def)
  qed
qed

lemma live_session_ok:
  assumes "sessions_ok w" "find_session pid w = sess" "case con of None \<Rightarrow> True | Some ss \<Rightarrow> list_all small ss"
  shows "sessions_ok (live_session pid sess con w)"
proof (cases "sess = None \<or> con = None")
  case False
  then obtain s ss where s: "sess = Some s" "con = Some ss" by auto
  then have "session_ok s" using sessions_ok_find[OF assms(1)] assms(2) by (simp add: find_session_def)
  then show ?thesis using s assms(1,3) by (simp add: live_session_def sessions_ok_put put_ref_ok)
qed (use assms in \<open>auto simp: live_session_def split: option.splits\<close>)

lemma click_ok:
  assumes "store_ok (store w)" "sessions_ok w"
  shows "store_ok (store (fst (handle m pid c w))) \<and> sessions_ok (fst (handle m pid c w)) \<and>
    list_all (saves_only (list_all small)) (snd (handle m pid c w))"
proof -
  define iv where "iv = \<lparr>player = getSlots (store w) pid,
      container = (if container_id c = 1 then map_option slotsRef (find_session pid w) else None),
      cursor = getCursor (store w) pid\<rparr>"
  obtain iv' ch where r: "ApplyContainerClick c iv = (iv', ch)" by force
  have len: "length (getSlots (store w) pid) = kInventorySlots" using assms(1) by (simp add: store_ok_def)
  then have len': "length (player iv) = kInventorySlots" by (simp add: iv_def)
  have "all_small iv"
    using assms slotsRef_small sessions_ok_find[OF assms(2)]
    by (auto simp: all_small_def iv_def store_ok_def find_session_def split: option.splits)
  then have small': "all_small iv'" using click_facts[OF len', of _ c] r by auto
  have len2: "length (player iv') = kInventorySlots" using shape_click[OF len', of c] len' r by (simp add: shape_of_def)
  note res = handle_result[OF len, of m c, folded iv_def, unfolded r fst_conv snd_conv]
  define w1 where "w1 = live_session pid (find_session pid w) (container iv') w"
  have "sessions_ok w1"
    unfolding w1_def using small' by (intro live_session_ok assms(2)) (auto simp: all_small_def)
  moreover have st: "store w1 = store w" by (auto simp: w1_def live_session_def split: option.splits)
  moreover have "store_ok (setSlotsAndCursor pid (player iv') (cursor iv') (store w))"
    using small' by (intro store_ok_cursor assms(1) len2) (auto simp: all_small_def)
  moreover have "fst (handle m pid c w) \<in> {w, if ch then w1\<lparr>store := setSlotsAndCursor pid (player iv') (cursor iv') (store w)\<rparr> else w1}"
    using res unfolding Let_def w1_def by blast
  ultimately have "store_ok (store (fst (handle m pid c w))) \<and> sessions_ok (fst (handle m pid c w))"
    using assms by (auto split: if_splits)
  moreover have "saves_only (\<lambda>ss. container iv' = Some ss) e \<Longrightarrow> saves_only (list_all small) e" for e
    using small' by (cases e) (auto simp: all_small_def)
  then have "list_all (saves_only (list_all small)) (snd (handle m pid c w))"
    using res by (auto elim!: list.pred_mono_strong)
  ultimately show ?thesis by blast
qed

lemma cache_small_put: "cache_small w \<Longrightarrow> list_all small ss \<Longrightarrow> cache_small (saveSlots p ty ss w)"
  by (simp add: cache_small_def saveSlots_def um_simps)

lemma effects_ok:
  assumes "list_all (saves_only (list_all small)) es" "cache_small w"
  shows "cache_small (fold save_effect es w) \<and> world (fold save_effect es w) = world w"
  using assms
proof (induction es arbitrary: w)
  case (Cons e es)
  have "cache_small (save_effect e w)"
    by (cases e) (use Cons.prems in \<open>simp_all add: cache_small_put\<close>)
  moreover have "world (save_effect e w) = world w" by (cases e) (simp_all add: saveSlots_def)
  ultimately show ?case using Cons.IH[of "save_effect e w"] Cons.prems(1) by simp
qed simp

lemma fill_ok:
  assumes "sessions_ok w" "list_all small ss"
  shows "sessions_ok (fill_session pid ss w)"
proof (cases "find_session pid w")
  case (Some s)
  have "session_ok s" using assms(1) Some sessions_ok_find by (simp add: find_session_def)
  then have "session_ok (s\<lparr>s_own := take n ss @ drop n (s_own s)\<rparr>)" for n
    using assms(2) list_all_take_drop[of small ss "s_own s" n n] by (simp add: session_ok_def)
  then show ?thesis
    using assms(1) Some by (simp add: fill_session_def open_session_def Let_def sessions_ok_put)
qed (use assms in \<open>simp add: fill_session_def\<close>)

lemma world_sels [simp]:
  "store (fill_session pid ss iw) = store iw" "store (open_session pid s iw) = store iw" "store (close_session pid iw) = store iw"
  "world (saveSlots p ty ss w) = world w" "world (clearSlots p ty w) = world w"
  by (simp_all add: fill_session_def open_session_def close_session_def saveSlots_def clearSlots_def Let_def split: option.splits)

lemma inv_step_ok:
  assumes "chests_ok w" "op_small op"
  shows "chests_ok (inv_step m op w)"
proof -
  have st: "store_ok (store (world w))" and se: "sessions_ok (world w)" and ca: "cache_small w"
    using assms(1) by (simp_all add: chests_ok_def)
  have keep: "cache_small (w'\<lparr>world := iw\<rparr>) = cache_small w'" "cache_small (w'\<lparr>waiting := wt\<rparr>) = cache_small w'" for w' iw wt
    by (simp_all add: cache_small_def)
  have stored: "chests_ok (on_store f w)" if "store_ok (f (store (world w)))" for f
    using that se ca by (simp add: chests_ok_def on_store_def keep)
  show ?thesis
  proof (cases op)
    case (ClickSlot p c)
    obtain iw es where h: "handle m p c (world w) = (iw, es)" by force
    have "store_ok (store iw) \<and> sessions_ok iw \<and> list_all (saves_only (list_all small)) es"
      using click_ok[OF st se, of m p c] h by simp
    then show ?thesis
      using effects_ok[of es "w\<lparr>world := iw\<rparr>"] ca ClickSlot h by (simp add: click_chest_def chests_ok_def keep)
  next
    case (OpenChest p q)
    have s1: "sessions_ok (open_session p (chest_session q) (world w))"
      using se by (simp add: open_session_def sessions_ok_put chest_session_def session_ok_def list_all_length)
    have "list_all small ss" if "um_find (cached_slots w) k = Some ss" for k ss
      using cache_small_find[OF ca that] .
    then show ?thesis
      using s1 fill_ok st ca
      by (auto simp: OpenChest chest_open_def loadSlots_def chests_ok_def keep st se split: option.splits)
  next
    case (Reply i ss)
    have "list_all small ss" using assms(2) Reply by simp
    then show ?thesis
      using fill_ok[OF se] cache_small_put[OF ca] st se ca
      by (auto simp: Reply store_reply_def chests_ok_def Let_def cache_small_def split: option.splits prod.splits)
  next
    case (CloseChest p q)
    have "list_all small (s_own s)" if "find_session p (world w) = Some s" for s
      using sessions_ok_find[OF se] that by (auto simp: find_session_def session_ok_def)
    moreover have "sessions_ok (close_session p (world w))"
      using se by (auto simp: sessions_ok_def close_session_def um_simps)
    ultimately show ?thesis
      using st se ca by (auto simp: CloseChest chest_close_def chests_ok_def Let_def keep cache_small_put split: option.splits)
  next
    case (BreakChest q)
    have "cache_small (clearSlots q kChestEntityType w)"
      using ca by (auto simp: cache_small_def clearSlots_def um_simps)
    then show ?thesis using st se by (simp add: BreakChest chests_ok_def)
  qed (use assms(2) st in \<open>auto intro!: stored store_ok_init store_ok_update store_ok_give\<close>)
qed

lemma inv_run_ok:
  "chests_ok w \<Longrightarrow> list_all op_small ops \<Longrightarrow> chests_ok (inv_run m ops w)"
  unfolding inv_run_def by (induction ops arbitrary: w) (auto intro: inv_step_ok)

lemma chests_new_ok: "chests_ok chests_new"
  by (simp add: chests_ok_def chests_new_def store_ok_def getSlots_def getCursor_def sessions_ok_def cache_small_def)

text \<open>C24: the inventory is well formed. After any sequence of joins, restores, grants, clicks and chest
  visits, restored slots holding at most a stack, every player has exactly 40 slots, and no slot, cursor,
  open container or stored chest ever holds more than 64 items.\<close>

theorem inventory_well_formed:
  assumes "list_all op_small ops"
  shows "length (getSlots (store (world (inv_run m ops chests_new))) p) = 40 \<and>
    list_all (\<lambda>s. cnt s \<le> 64) (getSlots (store (world (inv_run m ops chests_new))) p) \<and>
    cnt (getCursor (store (world (inv_run m ops chests_new))) p) \<le> 64 \<and>
    (case find_session p (world (inv_run m ops chests_new)) of None \<Rightarrow> True
     | Some s \<Rightarrow> list_all (\<lambda>s. cnt s \<le> 64) (slotsRef s)) \<and>
    (case um_find (cached_slots (inv_run m ops chests_new)) k of None \<Rightarrow> True
     | Some ss \<Rightarrow> list_all (\<lambda>s. cnt s \<le> 64) ss)"
proof -
  define w where "w = inv_run m ops chests_new"
  have ok: "chests_ok w" unfolding w_def by (rule inv_run_ok[OF chests_new_ok assms])
  have small: "small = (\<lambda>s. cnt s \<le> 64)" by (simp add: small_def kMaxStack_def fun_eq_iff)
  show ?thesis
    using ok slotsRef_small sessions_ok_find[of "world w" p] cache_small_find[of w k]
    unfolding w_def[symmetric] chests_ok_def store_ok_def kInventorySlots_def find_session_def small
    by (auto split: option.splits)
qed

section \<open>A visit to a chest\<close>

definition visit :: "(u16 \<Rightarrow> u16 option) \<Rightarrow> u64 \<Rightarrow> pos3 \<Rightarrow> container_click list \<Rightarrow> chest_world \<Rightarrow> chest_world" where
  "visit m pid p cs w = chest_close pid p (fold (click_chest m pid) cs (chest_open pid p w))"

text \<open>What the player holds together with what the chest at a position has stored.\<close>

definition stored_amount :: "item_key \<Rightarrow> pos3 \<Rightarrow> chest_world \<Rightarrow> nat" where
  "stored_amount k p w = opt_amount k (um_find (cached_slots w) (p, kChestEntityType))"

definition purse :: "item_key \<Rightarrow> u64 \<Rightarrow> chest_world \<Rightarrow> nat" where
  "purse k pid w = amount k (getSlots (store (world w)) pid) + units k (getCursor (store (world w)) pid)"

definition visiting :: "u64 \<Rightarrow> pos3 \<Rightarrow> chest_world \<Rightarrow> bool" where
  "visiting pid p w \<longleftrightarrow> length (getSlots (store (world w)) pid) = kInventorySlots \<and>
     (case find_session pid (world w) of None \<Rightarrow> False | Some s \<Rightarrow> s_kind s = Chest \<and> s_pos s = p)"

lemma effects_world [simp]: "world (fold save_effect es w) = world w"
proof (induction es arbitrary: w)
  case (Cons e es)
  have "world (save_effect e w) = world w" by (cases e) simp_all
  then show ?case by (simp add: Cons)
qed simp

lemma click_visiting:
  assumes "visiting pid p w"
  shows "visiting pid p (click_chest m pid c w)"
proof -
  let ?iw = "world w"
  define iv where "iv = \<lparr>player = getSlots (store ?iw) pid,
      container = (if container_id c = 1 then map_option slotsRef (find_session pid ?iw) else None),
      cursor = getCursor (store ?iw) pid\<rparr>"
  obtain iv' ch where r: "ApplyContainerClick c iv = (iv', ch)" by force
  have len: "length (getSlots (store ?iw) pid) = kInventorySlots" using assms by (simp add: visiting_def)
  then have len': "length (player iv) = kInventorySlots" by (simp add: iv_def)
  have len2: "length (player iv') = kInventorySlots" using shape_click[OF len', of c] len' r by (simp add: shape_of_def)
  obtain s where s: "find_session pid ?iw = Some s" "s_kind s = Chest" "s_pos s = p"
    using assms by (auto simp: visiting_def split: option.splits)
  define w1 where "w1 = live_session pid (find_session pid ?iw) (container iv') ?iw"
  have w1: "\<exists>s'. um_find (sessions w1) pid = Some s' \<and> s_kind s' = Chest \<and> s_pos s' = p" "store w1 = store ?iw"
    using s by (auto simp: w1_def live_session_def um_simps put_ref_def find_session_def split: option.splits)
  have "fst (handle m pid c ?iw) \<in> {?iw, if ch then w1\<lparr>store := setSlotsAndCursor pid (player iv') (cursor iv') (store ?iw)\<rparr> else w1}"
    using handle_result[OF len, of m c, folded iv_def, unfolded r fst_conv snd_conv] unfolding Let_def w1_def by blast
  moreover have "world (click_chest m pid c w) = fst (handle m pid c ?iw)"
    by (simp add: click_chest_def case_prod_unfold)
  ultimately show ?thesis
    using assms w1 len len2
    by (auto simp: visiting_def find_session_def getSlots_def setSlotsAndCursor_def um_simps split: if_splits)
qed

lemma clicks_visiting:
  assumes "visiting pid p w" "list_all (\<lambda>c. action_type c \<noteq> kActionDrop \<and> action_type c \<noteq> kActionQuickMove) cs"
  shows "visiting pid p (fold (click_chest m pid) cs w) \<and>
    world_amount k pid (world (fold (click_chest m pid) cs w)) = world_amount k pid (world w)"
  using assms
proof (induction cs arbitrary: w)
  case (Cons c cs)
  have "world (click_chest m pid c w) = fst (handle m pid c (world w))"
    by (simp add: click_chest_def case_prod_unfold)
  moreover have "length (getSlots (store (world w)) pid) = kInventorySlots" using Cons.prems(1) by (simp add: visiting_def)
  ultimately have "world_amount k pid (world (click_chest m pid c w)) = world_amount k pid (world w)"
    using Cons.prems(2) handle_facts[of "world w" pid c k m] by simp
  then show ?case using Cons.IH[OF click_visiting[OF Cons.prems(1)], of m c] Cons.prems(2) by simp
qed simp

text \<open>C15: a visit to a chest conserves items. Opening a stored chest, clicking any number of times without
  drops and quick moves, and closing it again keeps, over the player and the stored chest, the amount of
  each kind of item.\<close>

theorem visit_conserves:
  assumes "um_find (cached_slots w) (p, kChestEntityType) = Some ss" "length ss \<le> 27" "pid \<noteq> 0"
    "length (getSlots (store (world w)) pid) = kInventorySlots"
    "list_all (\<lambda>c. action_type c \<noteq> kActionDrop \<and> action_type c \<noteq> kActionQuickMove) cs"
  shows "purse k pid (visit m pid p cs w) + stored_amount k p (visit m pid p cs w) =
    purse k pid w + stored_amount k p w"
proof -
  define w1 where "w1 = chest_open pid p w"
  define w2 where "w2 = fold (click_chest m pid) cs w1"
  have drop0: "amount k (drop n (replicate 27 no_slot)) = 0" for n
    by (simp add: amount_def sum_list_replicate)
  have app: "amount k (xs @ ys) = amount k xs + amount k ys" for xs ys by (simp add: amount_def)
  let ?s = "(chest_session p)\<lparr>s_own := ss @ drop (length ss) (replicate 27 no_slot)\<rparr>"
  have "find_session pid (world w1) = Some (if ss = [] then chest_session p else ?s)" "store (world w1) = store (world w)"
    using assms(1-3)
    by (auto simp: w1_def chest_open_def loadSlots_def fill_session_def open_session_def find_session_def um_simps Let_def
        chest_session_def min_def)
  then have v1: "visiting pid p w1" and a1: "world_amount k pid (world w1) = purse k pid w + amount k ss"
    using assms(4) drop0[of 0] drop0
    by (auto simp: visiting_def chest_session_def world_amount_def purse_def find_session_def app)
  have "visiting pid p w2" and a2: "world_amount k pid (world w2) = world_amount k pid (world w1)"
    using clicks_visiting[OF v1 assms(5)] by (simp_all add: w2_def)
  then obtain s where s: "find_session pid (world w2) = Some s" "s_kind s = Chest"
    by (auto simp: visiting_def split: option.splits)
  have "purse k pid (chest_close pid p w2) = purse k pid w2" "stored_amount k p (chest_close pid p w2) = amount k (s_own s)"
    using s assms(3) by (simp_all add: chest_close_def Let_def purse_def stored_amount_def opt_amount_def saveSlots_def um_simps)
  moreover have "world_amount k pid (world w2) = purse k pid w2 + amount k (s_own s)"
    using s by (simp add: world_amount_def purse_def find_session_def)
  ultimately show ?thesis
    using a1 a2 assms(1) by (simp add: visit_def w1_def w2_def stored_amount_def opt_amount_def)
qed

section \<open>Two copies of one chest\<close>

text \<open>A chest at the origin that holds one stack, and nobody there.\<close>

definition lone_chest :: chest_world where
  "lone_chest = saveSlots (0, 0, 0) kChestEntityType [\<lparr>item_id = 5, cnt = 64, pmeta = 0\<rparr>] chests_new"

theorem visit_conserves_witness:
  "purse (5, 0) 1 (visit (\<lambda>_. None) 1 (0, 0, 0) [chest_click kActionClick] lone_chest) +
   stored_amount (5, 0) (0, 0, 0) (visit (\<lambda>_. None) 1 (0, 0, 0) [chest_click kActionClick] lone_chest) = 64"
proof -
  have "um_find (cached_slots lone_chest) ((0, 0, 0), kChestEntityType) = Some [\<lparr>item_id = 5, cnt = 64, pmeta = 0\<rparr>]"
    by (simp add: lone_chest_def saveSlots_def um_simps)
  from visit_conserves[OF this, of 1 "[chest_click kActionClick]" "(5, 0)" "\<lambda>_. None"]
  have "purse (5, 0) 1 (visit (\<lambda>_. None) 1 (0, 0, 0) [chest_click kActionClick] lone_chest) +
      stored_amount (5, 0) (0, 0, 0) (visit (\<lambda>_. None) 1 (0, 0, 0) [chest_click kActionClick] lone_chest) =
      purse (5, 0) 1 lone_chest + stored_amount (5, 0) (0, 0, 0) lone_chest"
    using chests_new_ok
    by (simp add: chest_click_def click_consts chests_ok_def store_ok_def lone_chest_def)
  also have "purse (5, 0) 1 lone_chest + stored_amount (5, 0) (0, 0, 0) lone_chest = 64" by code_simp
  finally show ?thesis .
qed

theorem inventory_well_formed_witness:
  "length (getSlots (store (world (inv_run (\<lambda>_. None) [Reply 0 [no_slot], GiveItem 1 5 200 0] chests_new))) 1) = 40"
  using inventory_well_formed[of "[Reply 0 [no_slot], GiveItem 1 5 200 0]" "\<lambda>_. None" 1 "((0, 0, 0), 3)"] by simp

text \<open>A click of one player leaves what another one holds and sees, and the clicks of a visitor keep the
  stored copy of the chest equal to the session.\<close>

lemma click_other:
  assumes "length (getSlots (store (world w)) pid) = kInventorySlots" "pid \<noteq> other"
  shows "find_session other (world (click_chest m pid c w)) = find_session other (world w) \<and>
    getSlots (store (world (click_chest m pid c w))) other = getSlots (store (world w)) other \<and>
    getCursor (store (world (click_chest m pid c w))) other = getCursor (store (world w)) other"
proof -
  have live: "find_session other (live_session pid se con iw) = find_session other iw"
    "store (live_session pid se con iw) = store iw" for se con iw
    using assms(2) by (auto simp: live_session_def find_session_def um_simps split: option.splits)
  have set: "getSlots (setSlotsAndCursor pid ss cu st) other = getSlots st other"
    "getCursor (setSlotsAndCursor pid ss cu st) other = getCursor st other" for ss cu st
    using assms(2) by (simp_all add: getSlots_def getCursor_def setSlotsAndCursor_def um_simps)
  have sess: "find_session other (iw\<lparr>store := st\<rparr>) = find_session other iw" for iw st by (simp add: find_session_def)
  have "world (click_chest m pid c w) = fst (handle m pid c (world w))"
    by (simp add: click_chest_def case_prod_unfold)
  moreover note handle_result[OF assms(1), of m c, THEN conjunct1, unfolded Let_def]
  ultimately show ?thesis by (elim insertE emptyE) (simp_all add: live set sess split: if_split)
qed

definition session_amount :: "item_key \<Rightarrow> u64 \<Rightarrow> chest_world \<Rightarrow> nat" where
  "session_amount k pid w = opt_amount k (map_option slotsRef (find_session pid (world w)))"

lemma world_split: "world_amount k pid (world w) = purse k pid w + session_amount k pid w"
  by (simp add: world_amount_def purse_def session_amount_def opt_amount_def find_session_def split: option.splits)

lemma click_stored:
  assumes v: "visiting pid p w" and same: "stored_amount k p w = session_amount k pid w"
    and c: "action_type c \<noteq> kActionDrop" "action_type c \<noteq> kActionQuickMove"
  shows "stored_amount k p (click_chest m pid c w) = session_amount k pid (click_chest m pid c w)"
proof -
  let ?iw = "world w"
  obtain s where s: "um_find (sessions ?iw) pid = Some s" "s_kind s = Chest" "s_pos s = p"
    using v by (auto simp: visiting_def find_session_def split: option.splits)
  define sess where "sess = (if container_id c \<noteq> 0 then um_find (sessions ?iw) pid else None)"
  define iv where "iv = \<lparr>player = getSlots (store ?iw) pid,
      container = (if container_id c = 1 then map_option slotsRef sess else None), cursor = getCursor (store ?iw) pid\<rparr>"
  obtain iv' ch where r: "ApplyContainerClick c iv = (iv', ch)" by force
  have "length (player iv) = kInventorySlots" using v by (simp add: iv_def visiting_def)
  from click_facts[OF this, of k c] have noop: "\<not> ch \<Longrightarrow> iv' = iv" using c r by auto
  have con: "container iv' = None \<longleftrightarrow> container iv = None" using click_container[OF c(2), of iv] r by simp
  define w1 where "w1 = live_session pid sess (container iv') ?iw"
  have h: "handle m pid c ?iw = (if pid = 0 then (?iw, []) else if \<not> ch then (w1, [])
      else (w1\<lparr>store := setSlotsAndCursor pid (player iv') (cursor iv') (store ?iw)\<rparr>,
        handle_effects c sess (quest_candidate m c sess iv) iv'))"
    using s by (simp add: handle_def sess_def[symmetric] iv_def[symmetric] r Let_def w1_def)
      (simp add: sess_def)
  have w': "click_chest m pid c w = fold save_effect (snd (handle m pid c ?iw)) (w\<lparr>world := fst (handle m pid c ?iw)\<rparr>)"
    by (simp add: click_chest_def case_prod_unfold)
  show ?thesis
  proof (cases "pid = 0 \<or> container_id c \<noteq> 1")
    case True
    then have none: "container iv' = None \<or> pid = 0" using con by (auto simp: iv_def)
    have "find_session pid (fst (handle m pid c ?iw)) = find_session pid ?iw"
      using none by (auto simp: h w1_def live_session_def find_session_def split: option.splits)
    moreover have "cached_slots (click_chest m pid c w) = cached_slots w"
      using none by (auto simp: w' h handle_effects_def split: option.splits)
    ultimately show ?thesis
      using same by (simp add: session_amount_def stored_amount_def w')
  next
    case False
    then have se: "sess = Some s" and ci: "container iv = Some (slotsRef s)" using s by (simp_all add: sess_def iv_def)
    then obtain ss where ss: "container iv' = Some ss" using con by (cases "container iv'") auto
    have w1: "w1 = ?iw\<lparr>sessions := um_put pid (put_ref ss s) (sessions ?iw)\<rparr>" by (simp add: w1_def live_session_def se ss)
    show ?thesis
    proof (cases ch)
      case True
      then show ?thesis
        using False s ss se
        by (auto simp: w' h w1 handle_effects_def isMachine_def session_amount_def stored_amount_def find_session_def
            opt_amount_def saveSlots_def um_simps split: option.splits)
    next
      case unchanged: False
      then have "ss = slotsRef s" using noop ci ss by simp
      then show ?thesis
        using False unchanged same s
        by (simp add: w' h w1 session_amount_def stored_amount_def find_session_def opt_amount_def um_simps)
    qed
  qed
qed

text \<open>Opening a stored chest gives the player a copy of its content.\<close>

lemma open_facts:
  assumes "um_find (cached_slots w) (p, kChestEntityType) = Some ss" "length ss \<le> 27" "pid \<noteq> 0"
    "length (getSlots (store (world w)) pid) = kInventorySlots"
  shows "visiting pid p (chest_open pid p w)" "session_amount k pid (chest_open pid p w) = amount k ss"
    "store (world (chest_open pid p w)) = store (world w)" "cached_slots (chest_open pid p w) = cached_slots w"
    "other \<noteq> pid \<Longrightarrow> find_session other (world (chest_open pid p w)) = find_session other (world w)"
proof -
  have drop0: "amount k (drop n (replicate 27 no_slot)) = 0" for n
    by (simp add: amount_def sum_list_replicate)
  have app: "amount k (xs @ ys) = amount k xs + amount k ys" for xs ys by (simp add: amount_def)
  let ?s = "(chest_session p)\<lparr>s_own := ss @ drop (length ss) (replicate 27 no_slot)\<rparr>"
  have "find_session pid (world (chest_open pid p w)) = Some (if ss = [] then chest_session p else ?s)"
    and st: "store (world (chest_open pid p w)) = store (world w)" "cached_slots (chest_open pid p w) = cached_slots w"
      "other \<noteq> pid \<Longrightarrow> find_session other (world (chest_open pid p w)) = find_session other (world w)"
    using assms(1-3)
    by (auto simp: chest_open_def loadSlots_def fill_session_def open_session_def find_session_def um_simps Let_def
        chest_session_def min_def)
  then show "visiting pid p (chest_open pid p w)" "session_amount k pid (chest_open pid p w) = amount k ss"
    using assms(4) drop0[of 0] drop0
    by (auto simp: visiting_def chest_session_def session_amount_def opt_amount_def app)
  show "store (world (chest_open pid p w)) = store (world w)" "cached_slots (chest_open pid p w) = cached_slots w"
    "other \<noteq> pid \<Longrightarrow> find_session other (world (chest_open pid p w)) = find_session other (world w)"
    by (fact st)+
qed

lemma close_facts:
  assumes "visiting pid p w" "pid \<noteq> 0"
  shows "purse k other (chest_close pid q w) = purse k other w"
    "stored_amount k r (chest_close pid q w) = (if r = q then session_amount k pid w else stored_amount k r w)"
    "other \<noteq> pid \<Longrightarrow> session_amount k other (chest_close pid q w) = session_amount k other w"
    "other \<noteq> pid \<Longrightarrow> visiting other r w \<Longrightarrow> visiting other r (chest_close pid q w)"
proof -
  obtain s where s: "find_session pid (world w) = Some s" "s_kind s = Chest"
    using assms(1) by (auto simp: visiting_def split: option.splits)
  then show "purse k other (chest_close pid q w) = purse k other w"
    "stored_amount k r (chest_close pid q w) = (if r = q then session_amount k pid w else stored_amount k r w)"
    "other \<noteq> pid \<Longrightarrow> session_amount k other (chest_close pid q w) = session_amount k other w"
    "other \<noteq> pid \<Longrightarrow> visiting other r w \<Longrightarrow> visiting other r (chest_close pid q w)"
    using assms(2)
    by (auto simp: chest_close_def Let_def purse_def stored_amount_def opt_amount_def saveSlots_def um_simps
        session_amount_def visiting_def find_session_def close_session_def)
qed

lemma click_own:
  assumes "visiting pid p w" "action_type c \<noteq> kActionDrop" "action_type c \<noteq> kActionQuickMove"
  shows "visiting pid p (click_chest m pid c w)"
    "purse k pid (click_chest m pid c w) + session_amount k pid (click_chest m pid c w) = purse k pid w + session_amount k pid w"
  using click_visiting[OF assms(1)] clicks_visiting[OF assms(1), of "[c]" m k] assms(2,3) by (simp_all add: world_split)

lemma two_visitors:
  assumes "visiting a p w" "visiting b p w" "a \<noteq> b"
    and "list_all (\<lambda>(pid, c). (pid = a \<or> pid = b) \<and> action_type c \<noteq> kActionDrop \<and> action_type c \<noteq> kActionQuickMove) cs"
  shows "visiting a p (inv_run m (map (\<lambda>(pid, c). ClickSlot pid c) cs) w) \<and>
    visiting b p (inv_run m (map (\<lambda>(pid, c). ClickSlot pid c) cs) w) \<and>
    (\<forall>x \<in> {a, b}. purse k x (inv_run m (map (\<lambda>(pid, c). ClickSlot pid c) cs) w) +
      session_amount k x (inv_run m (map (\<lambda>(pid, c). ClickSlot pid c) cs) w) = purse k x w + session_amount k x w)"
  using assms
proof (induction cs arbitrary: w)
  case (Cons pc cs)
  obtain pid c where pc: "pc = (pid, c)" by (cases pc)
  let ?w = "click_chest m pid c w"
  have step: "visiting x p ?w \<and> purse k x ?w + session_amount k x ?w = purse k x w + session_amount k x w"
    if x: "x \<in> {a, b}" for x
  proof (cases "pid = x")
    case True
    then show ?thesis using click_own(1)[of pid p w c m] click_own(2)[of pid p w c k m] Cons.prems pc x by auto
  next
    case False
    have "visiting pid p w" using Cons.prems pc by auto
    then have "length (getSlots (store (world w)) pid) = kInventorySlots" by (simp add: visiting_def)
    from click_other[OF this False, of m c] show ?thesis
      using Cons.prems x by (auto simp: visiting_def purse_def session_amount_def)
  qed
  have "inv_run m (map (\<lambda>(pid, c). ClickSlot pid c) (pc # cs)) w = inv_run m (map (\<lambda>(pid, c). ClickSlot pid c) cs) ?w"
    by (simp add: inv_run_def pc)
  then show ?case using Cons.IH[of ?w] step Cons.prems(3,4) by simp
qed (simp add: inv_run_def)

lemma opened_twice:
  fixes m :: "u16 \<Rightarrow> u16 option"
  assumes "um_find (cached_slots w) (p, kChestEntityType) = Some ss" "length ss \<le> 27" "a \<noteq> 0" "b \<noteq> 0" "a \<noteq> b"
    and "length (getSlots (store (world w)) a) = kInventorySlots" "length (getSlots (store (world w)) b) = kInventorySlots"
    and "list_all (\<lambda>(pid, c). (pid = a \<or> pid = b) \<and> action_type c \<noteq> kActionDrop \<and> action_type c \<noteq> kActionQuickMove) cs"
  defines "w1 \<equiv> inv_run m (OpenChest a p # OpenChest b p # map (\<lambda>(pid, c). ClickSlot pid c) cs) w"
  defines "w2 \<equiv> inv_run m [CloseChest a p, CloseChest b p] w1"
  shows "purse k a w2 + purse k b w2 + stored_amount k p w2 + session_amount k a w1 =
    purse k a w + purse k b w + 2 * stored_amount k p w"
proof -
  let ?wa = "chest_open a p w" let ?wb = "chest_open b p ?wa"
  note fa = open_facts[OF assms(1-3,6)]
  have cb: "um_find (cached_slots ?wa) (p, kChestEntityType) = Some ss" "length (getSlots (store (world ?wa)) b) = kInventorySlots"
    using fa(3,4) assms(1,7) by simp_all
  note fb = open_facts[OF cb(1) assms(2,4) cb(2)]
  have other: "find_session a (world ?wb) = find_session a (world ?wa)" using fb(5)[of a] assms(5) by simp
  have v: "visiting a p ?wb" "visiting b p ?wb" using fa(1) fb(1,3) other by (auto simp: visiting_def)
  have am: "session_amount k a ?wb = amount k ss" "session_amount k b ?wb = amount k ss"
    "purse k a ?wb = purse k a w" "purse k b ?wb = purse k b w"
    using fa(2)[of k] fb(2)[of k] other fa(3) fb(3) by (simp_all add: session_amount_def purse_def)
  have e: "w1 = inv_run m (map (\<lambda>(pid, c). ClickSlot pid c) cs) ?wb" by (simp add: w1_def inv_run_def)
  note t = two_visitors[OF v assms(5,8), of m k, folded e]
  have v1: "visiting a p w1" "visiting b p w1" using t by simp_all
  have w2: "w2 = chest_close b p (chest_close a p w1)" by (simp add: w2_def inv_run_def)
  note ca = close_facts[OF v1(1) assms(3)]
  have vb: "visiting b p (chest_close a p w1)" using ca(4)[OF _ v1(2)] assms(5) by simp
  note cb = close_facts[OF vb assms(4)]
  have "purse k a w2 = purse k a w1" "purse k b w2 = purse k b w1" "stored_amount k p w2 = session_amount k b w1"
    using ca(1,3) cb(1,2) assms(5) by (simp_all add: w2)
  moreover have "stored_amount k p w = amount k ss" using assms(1) by (simp add: stored_amount_def opt_amount_def)
  ultimately show ?thesis using t am by simp
qed

lemma closed_elsewhere:
  fixes m :: "u16 \<Rightarrow> u16 option"
  assumes "um_find (cached_slots w) (p, kChestEntityType) = Some ss" "length ss \<le> 27" "a \<noteq> 0" "p \<noteq> q"
    and "length (getSlots (store (world w)) a) = kInventorySlots"
    and "list_all (\<lambda>c. action_type c \<noteq> kActionDrop \<and> action_type c \<noteq> kActionQuickMove) ds"
  defines "w3 \<equiv> inv_run m (OpenChest a p # map (ClickSlot a) ds @ [CloseChest a q]) w"
  shows "purse k a w3 + stored_amount k p w3 = purse k a w + stored_amount k p w \<and> stored_amount k q w3 = stored_amount k p w3"
proof -
  let ?wa = "chest_open a p w" let ?wc = "fold (click_chest m a) ds ?wa"
  note fa = open_facts[OF assms(1-3,5)]
  have st: "stored_amount k p w = amount k ss" using assms(1) by (simp add: stored_amount_def opt_amount_def)
  have start: "stored_amount k p ?wa = session_amount k a ?wa" "purse k a ?wa = purse k a w"
    using fa(2)[of k] fa(3,4) st by (simp_all add: stored_amount_def purse_def)
  have "visiting a p (fold (click_chest m a) ds u) \<and>
      stored_amount k p (fold (click_chest m a) ds u) = session_amount k a (fold (click_chest m a) ds u) \<and>
      purse k a (fold (click_chest m a) ds u) + session_amount k a (fold (click_chest m a) ds u) = purse k a u + session_amount k a u"
    if "visiting a p u" "stored_amount k p u = session_amount k a u" for u
    using that assms(6)
  proof (induction ds arbitrary: u)
    case (Cons c ds)
    have c: "action_type c \<noteq> kActionDrop" "action_type c \<noteq> kActionQuickMove" using Cons.prems(3) by simp_all
    note own = click_own(1)[OF Cons.prems(1) c, of m] and st = click_stored[OF Cons.prems(1,2) c, of m]
    show ?case using Cons.IH[OF own st] Cons.prems(3) click_own(2)[OF Cons.prems(1) c, of k m] by simp
  qed simp
  from this[OF fa(1) start(1)] have c: "visiting a p ?wc" "stored_amount k p ?wc = session_amount k a ?wc"
    "purse k a ?wc + session_amount k a ?wc = purse k a w + stored_amount k p w"
    using start fa(2)[of k] st by simp_all
  have click: "(\<lambda>c. inv_step m (ClickSlot a c)) = click_chest m a" by (intro ext) simp
  have w3: "w3 = chest_close a q ?wc" by (simp add: w3_def inv_run_def fold_map comp_def click)
  show ?thesis
    using close_facts(1,2)[OF c(1) assms(3), where k = k and q = q] c(2,3) assms(4) by (simp add: w3)
qed

lemma answered_late:
  fixes m :: "u16 \<Rightarrow> u16 option"
  assumes "length ss \<le> 27" "a \<noteq> 0" "p \<noteq> q"
    and "um_find (cached_slots v) (p, kChestEntityType) = None" "um_find (cached_slots v) (q, kChestEntityType) = None"
  defines "v1 \<equiv> inv_run m [OpenChest a p, OpenChest a q, Reply (length (waiting v)) ss, CloseChest a q] v"
  shows "stored_amount k p v1 = amount k ss \<and> stored_amount k q v1 = amount k ss"
proof -
  have drop0: "amount k (drop n (replicate 27 no_slot)) = 0" for n
    by (simp add: amount_def sum_list_replicate)
  have app: "amount k (xs @ ys) = amount k xs + amount k ys" for xs ys by (simp add: amount_def)
  let ?v = "chest_open a q (chest_open a p v)"
  have v: "find_session a (world ?v) = Some (chest_session q)" "waiting ?v = waiting v @ [(a, p), (a, q)]"
    using assms(2-5)
    by (simp_all add: chest_open_def loadSlots_def open_session_def find_session_def um_simps)
  have "nth_opt (waiting ?v) (length (waiting v)) = Some (a, p)" by (simp add: v(2) nth_opt_def nth_append)
  then have r: "store_reply (length (waiting v)) ss ?v = (saveSlots p kChestEntityType ss ?v)
      \<lparr>world := fill_session a ss (world ?v), waiting := waiting v @ [(a, q)]\<rparr>"
    by (simp add: store_reply_def Let_def v(2))
  have "find_session a (fill_session a ss (world ?v)) = Some (if ss = [] then chest_session q
      else (chest_session q)\<lparr>s_own := ss @ drop (length ss) (replicate 27 no_slot)\<rparr>)"
    using assms(1) v(1) by (auto simp: fill_session_def open_session_def Let_def min_def chest_session_def)
      (simp add: find_session_def um_simps)
  then obtain s where s: "find_session a (fill_session a ss (world ?v)) = Some s" "amount k (s_own s) = amount k ss"
    using drop0[of 0] drop0[of "length ss"] by (simp add: chest_session_def app split: if_splits)
  have "v1 = chest_close a q (store_reply (length (waiting v)) ss ?v)" by (simp add: v1_def inv_run_def)
  then show ?thesis
    using assms(2,3) s by (simp add: r chest_close_def Let_def stored_amount_def saveSlots_def um_simps opt_amount_def)
qed

text \<open>C37: chests duplicate items. Two players who open the same stored chest and click in any order each work
  on an own copy of its content: when both have closed it again, the players and the chest hold together
  what they held before and the whole content of the chest once more, less what the first to close had
  left in the chest. A player who closes with the position of another chest leaves the content of the
  chest where it was and stores it at the other position as well. And the answer to a slow load is
  stored for the chest it was asked for and fills the session of the chest the player has opened since,
  which then stores it too. Clicks are no drops and no quick moves, and a chest has at most 27 slots.\<close>

theorem chests_duplicate:
  assumes "um_find (cached_slots w) (p, kChestEntityType) = Some ss" "length ss \<le> 27" "a \<noteq> 0" "b \<noteq> 0" "a \<noteq> b" "p \<noteq> q"
    and "length (getSlots (store (world w)) a) = kInventorySlots" "length (getSlots (store (world w)) b) = kInventorySlots"
    and "list_all (\<lambda>(pid, c). (pid = a \<or> pid = b) \<and> action_type c \<noteq> kActionDrop \<and> action_type c \<noteq> kActionQuickMove) cs"
    and "list_all (\<lambda>c. action_type c \<noteq> kActionDrop \<and> action_type c \<noteq> kActionQuickMove) ds"
    and "um_find (cached_slots v) (p, kChestEntityType) = None" "um_find (cached_slots v) (q, kChestEntityType) = None"
  shows "(let w1 = inv_run m (OpenChest a p # OpenChest b p # map (\<lambda>(pid, c). ClickSlot pid c) cs) w;
        w2 = inv_run m [CloseChest a p, CloseChest b p] w1
      in purse k a w2 + purse k b w2 + stored_amount k p w2 + session_amount k a w1 =
         purse k a w + purse k b w + 2 * stored_amount k p w) \<and>
    (let w3 = inv_run m (OpenChest a p # map (ClickSlot a) ds @ [CloseChest a q]) w
      in purse k a w3 + stored_amount k p w3 = purse k a w + stored_amount k p w \<and> stored_amount k q w3 = stored_amount k p w3) \<and>
    (let v1 = inv_run m [OpenChest a p, OpenChest a q, Reply (length (waiting v)) ss, CloseChest a q] v
      in stored_amount k p v1 = amount k ss \<and> stored_amount k q v1 = amount k ss)"
proof (intro conjI)
  show "let w1 = inv_run m (OpenChest a p # OpenChest b p # map (\<lambda>(pid, c). ClickSlot pid c) cs) w;
        w2 = inv_run m [CloseChest a p, CloseChest b p] w1
      in purse k a w2 + purse k b w2 + stored_amount k p w2 + session_amount k a w1 =
         purse k a w + purse k b w + 2 * stored_amount k p w"
    using opened_twice[OF assms(1-5,7,8,9), of k m] by (simp add: Let_def)
  show "let w3 = inv_run m (OpenChest a p # map (ClickSlot a) ds @ [CloseChest a q]) w
      in purse k a w3 + stored_amount k p w3 = purse k a w + stored_amount k p w \<and> stored_amount k q w3 = stored_amount k p w3"
    using closed_elsewhere[OF assms(1-3,6,7,10), of k m] by (simp add: Let_def)
  show "let v1 = inv_run m [OpenChest a p, OpenChest a q, Reply (length (waiting v)) ss, CloseChest a q] v
      in stored_amount k p v1 = amount k ss \<and> stored_amount k q v1 = amount k ss"
    using answered_late[OF assms(2,3,6,11,12), of k m] by (simp add: Let_def)
qed

text \<open>A stack of 64 that two players both take, that a close stores twice, and that an answer brings into two chests.\<close>

abbreviation "stack_of_5 \<equiv> \<lparr>item_id = 5, cnt = 64, pmeta = 0\<rparr>"

theorem chests_duplicate_witness:
  "\<exists>w2 w3 v1. purse (5, 0) 1 w2 + purse (5, 0) 2 w2 + stored_amount (5, 0) (0, 0, 0) w2 = 128 \<and>
    stored_amount (5, 0) (0, 0, 0) w3 = 64 \<and> stored_amount (5, 0) (1, 0, 0) w3 = 64 \<and>
    stored_amount (5, 0) (0, 0, 0) v1 = 64 \<and> stored_amount (5, 0) (1, 0, 0) v1 = 64"
proof -
  let ?c = "chest_click kActionClick"
  have st: "um_find (cached_slots lone_chest) ((0, 0, 0), kChestEntityType) = Some [stack_of_5]"
    by (simp add: lone_chest_def saveSlots_def um_simps)
  have len: "length [stack_of_5] \<le> 27" "(1 :: u64) \<noteq> 0" "(2 :: u64) \<noteq> 0" "(1 :: u64) \<noteq> 2" "(0 :: i32, 0 :: i32, 0 :: i32) \<noteq> (1, 0, 0)"
    by simp_all
  have inv: "length (getSlots (store (world lone_chest)) x) = kInventorySlots" for x
    using chests_new_ok by (simp add: chests_ok_def store_ok_def lone_chest_def)
  have cl: "list_all (\<lambda>(pid, c). (pid = 1 \<or> pid = 2) \<and> action_type c \<noteq> kActionDrop \<and> action_type c \<noteq> kActionQuickMove) [(1, ?c), (2, ?c)]"
    "list_all (\<lambda>c. action_type c \<noteq> kActionDrop \<and> action_type c \<noteq> kActionQuickMove) []"
    by (simp_all add: chest_click_def click_consts)
  have none: "um_find (cached_slots chests_new) (q, kChestEntityType) = None" for q by (simp add: chests_new_def)
  note f = chests_duplicate[OF st len inv inv cl none none, where k = "(5, 0)" and m = "\<lambda>_. None", unfolded Let_def]
  let ?w1 = "inv_run (\<lambda>_. None) (OpenChest 1 (0, 0, 0) # OpenChest 2 (0, 0, 0) # map (\<lambda>(pid, c). ClickSlot pid c) [(1, ?c), (2, ?c)]) lone_chest"
  have n: "session_amount (5, 0) 1 ?w1 = 0" "purse (5, 0) 1 lone_chest = 0" "purse (5, 0) 2 lone_chest = 0"
    "stored_amount (5, 0) (0, 0, 0) lone_chest = 64" "amount (5, 0) [stack_of_5] = 64"
    "purse (5, 0) 1 (inv_run (\<lambda>_. None) (OpenChest 1 (0, 0, 0) # map (ClickSlot 1) [] @ [CloseChest 1 (1, 0, 0)]) lone_chest) = 0"
    by code_simp+
  show ?thesis using f unfolding n by (elim conjE) (intro exI conjI; simp)
qed

end
