(* ===== verification/MutableChunk.thy ===== *)
theory MutableChunk
  imports SectionWire
begin

text \<open>
  \<open>MutableChunk\<close> of \<open>src/apps/chunk_store/Storage/cache/MutableChunk.{h,cpp}\<close>: eight sections of
  16 x 16 x 16 blocks make a chunk of 32 x 32 x 32, addressed by chunk-local coordinates. The
  coordinates are \<^typ>\<open>nat\<close>: every caller masks them with 31. \<open>None\<close> is again undefined behaviour of a
  section. \<open>mc_fromWire\<close> returns what the C++ returns and, separately, the chunk it leaves behind,
  because one caller goes on with a chunk that failed to decode.
\<close>

unbundle bit_operations_syntax

type_synonym chunk = "ms list"

definition chunk_new :: chunk where
  "chunk_new = replicate SEC_CNT ms_new"

definition mc_sec :: "nat \<Rightarrow> nat \<Rightarrow> nat \<Rightarrow> nat" where
  "mc_sec x y z = push_bit 2 (drop_bit 4 y) OR push_bit 1 (drop_bit 4 z) OR drop_bit 4 x"

definition mc_li :: "nat \<Rightarrow> nat \<Rightarrow> nat \<Rightarrow> nat" where
  "mc_li x y z = push_bit 8 (y AND 0xF) OR push_bit 4 (z AND 0xF) OR (x AND 0xF)"

definition mc_getBlock :: "chunk \<Rightarrow> nat \<Rightarrow> nat \<Rightarrow> nat \<Rightarrow> u16 option" where
  "mc_getBlock c x y z = Option.bind (nth_opt c (mc_sec x y z)) (\<lambda>s. getBlock s (mc_li x y z))"

definition mc_setBlock :: "nat \<Rightarrow> nat \<Rightarrow> nat \<Rightarrow> u16 \<Rightarrow> chunk \<Rightarrow> chunk option" where
  "mc_setBlock x y z bid c =
     Option.bind (nth_opt c (mc_sec x y z)) (\<lambda>s.
     Option.bind (setBlock (mc_li x y z) bid s) (\<lambda>s'. Some (c[mc_sec x y z := s'])))"

definition mc_getMeta :: "chunk \<Rightarrow> nat \<Rightarrow> nat \<Rightarrow> nat \<Rightarrow> u8 option" where
  "mc_getMeta c x y z = Option.bind (nth_opt c (mc_sec x y z)) (\<lambda>s. getMeta s (mc_li x y z))"

definition mc_setMeta :: "nat \<Rightarrow> nat \<Rightarrow> nat \<Rightarrow> u8 \<Rightarrow> chunk \<Rightarrow> chunk option" where
  "mc_setMeta x y z m c =
     Option.bind (nth_opt c (mc_sec x y z)) (\<lambda>s. Some (c[mc_sec x y z := setMeta (mc_li x y z) m s]))"

definition mc_getMultiblock :: "chunk \<Rightarrow> nat \<Rightarrow> nat \<Rightarrow> nat \<Rightarrow> u32 option" where
  "mc_getMultiblock c x y z = Option.bind (nth_opt c (mc_sec x y z)) (\<lambda>s. getMultiblock s (mc_li x y z))"

definition mc_setMultiblock :: "nat \<Rightarrow> nat \<Rightarrow> nat \<Rightarrow> u32 \<Rightarrow> chunk \<Rightarrow> chunk option" where
  "mc_setMultiblock x y z m c =
     Option.bind (nth_opt c (mc_sec x y z)) (\<lambda>s. Some (c[mc_sec x y z := setMultiblock (mc_li x y z) m s]))"

section \<open>Bulk write\<close>

text \<open>The triple loop that copies one section out of the flat block array: every cell of \<open>local\<close> is
  written, at \<open>localIndex\<close>.\<close>

definition section_cells :: "(nat \<times> nat \<times> nat) list" where
  "section_cells = [(lx, ly, lz). ly \<leftarrow> [0..<SEC_SZ], lz \<leftarrow> [0..<SEC_SZ], lx \<leftarrow> [0..<SEC_SZ]]"

definition section_blocks :: "u16 list \<Rightarrow> nat \<Rightarrow> u16 list" where
  "section_blocks blocks s =
     (let ox = sectionOrigin s 0; oy = sectionOrigin s 2; oz = sectionOrigin s 1
      in foldl (\<lambda>loc (lx, ly, lz). loc[localIndex lx ly lz := blocks ! chunkIndex (ox + lx) (oy + ly) (oz + lz)])
           (replicate SEC_VOL 0) section_cells)"

definition mc_fromBlocks :: "u16 list \<Rightarrow> chunk option" where
  "mc_fromBlocks blocks = those (map (\<lambda>s. fromBlocks (section_blocks blocks s) ms_new) [0..<SEC_CNT])"

section \<open>Wire format\<close>

fun encode_sections :: "ms list \<Rightarrow> u8 list \<Rightarrow> u8 list option" where
  "encode_sections [] buf = Some buf"
| "encode_sections (s # ss) buf = Option.bind (encodeToWire s buf) (encode_sections ss)"

definition mc_encodeToWire :: "chunk \<Rightarrow> u8 list option" where
  "mc_encodeToWire c = encode_sections c (writeU8 (writeU8 (writeU32 [] MAGIC) 2) (of_nat SEC_CNT))"

text \<open>The header checks; \<open>None\<close> is \<open>return false\<close> before any section is touched.\<close>

definition read_header :: "reader \<Rightarrow> reader option" where
  "read_header r =
     Option.bind (readU32 r) (\<lambda>(magic, r).
     if magic \<noteq> MAGIC then None else
     Option.bind (readU8 r) (\<lambda>(ver, r).
     if ver < 1 then None else if ver < 2 then None else
     Option.bind (readU8 r) (\<lambda>(sec_cnt, r).
     if sec_cnt \<noteq> of_nat SEC_CNT then None else Some r)))"

definition mc_fromWire :: "u8 list \<Rightarrow> chunk option" where
  "mc_fromWire data =
     Option.bind (read_header \<lparr>rdata = data, rpos = 0\<rparr>) (\<lambda>r.
       map_option fst (read_many fromWire SEC_CNT r))"

text \<open>What \<open>MutableSection::fromWire\<close> leaves in the section when it returns \<open>false\<close>; \<open>None\<close> where the
  overflow array holds values that were never written.\<close>

definition section_left :: "reader \<Rightarrow> ms option" where
  "section_left r =
     (case readU16 r of None \<Rightarrow> Some ms_new | Some (psz, r) \<Rightarrow>
      if psz = 0 then Some ms_new else
      (case read_many readU16 (unat psz) r of None \<Rightarrow> Some ms_new | Some (pal, r) \<Rightarrow>
      (case readU8 r of None \<Rightarrow> Some ms_new | Some (bpi, r) \<Rightarrow>
      if psz = 1 \<and> pal ! 0 = 0 \<and> bpi = 0 then Some ms_new else
      (case read_blocks pal bpi r of
         Some (s, r) \<Rightarrow> Some s
       | None \<Rightarrow>
           if length pal \<le> 16 \<and> bpi = 4 then
             Some (ms_new\<lparr>sec_type := BITPACK4,
               flat := Some \<lparr>palette = pal, indices = replicate ((SEC_VOL * 4 + 7) div 8 + 1) 0, pal_size = length pal\<rparr>\<rparr>)
           else if length pal \<le> 256 \<and> bpi = 8 then
             Some (ms_new\<lparr>sec_type := FLAT,
               flat := Some \<lparr>palette = pal, indices = replicate (SEC_VOL + 1) 0, pal_size = length pal\<rparr>\<rparr>)
           else None))))"

fun sections_left :: "nat \<Rightarrow> reader \<Rightarrow> chunk option" where
  "sections_left 0 r = Some []"
| "sections_left (Suc n) r =
     (case fromWire r of
        Some (s, r') \<Rightarrow> map_option (Cons s) (sections_left n r')
      | None \<Rightarrow> map_option (\<lambda>s. s # replicate n ms_new) (section_left r))"

text \<open>The chunk after \<open>fromWire\<close> on a fresh one, whether or not it succeeded.\<close>

definition mc_after_fromWire :: "u8 list \<Rightarrow> chunk option" where
  "mc_after_fromWire data =
     (case read_header \<lparr>rdata = data, rpos = 0\<rparr> of
        None \<Rightarrow> Some chunk_new
      | Some r \<Rightarrow> sections_left SEC_CNT r)"

lemma sections_left_ok: "read_many fromWire n r = Some (ss, r') \<Longrightarrow> sections_left n r = Some ss"
  by (induction n arbitrary: r ss) (auto split: option.splits)

lemma mc_after_fromWire_ok: "mc_fromWire data = Some c \<Longrightarrow> mc_after_fromWire data = Some c"
  by (auto simp: mc_fromWire_def mc_after_fromWire_def dest: sections_left_ok split: bind_splits)

section \<open>Addresses\<close>

lemma or_push_add: "b < 2 ^ n \<Longrightarrow> push_bit n a OR b = 2 ^ n * a + (b :: nat)"
proof -
  assume b: "b < 2 ^ n"
  have "take_bit n b = b" using b by (simp add: take_bit_nat_eq_self)
  then have "bit b k \<Longrightarrow> k < n" for k by (metis bit_take_bit_iff)
  then have "push_bit n a AND b = 0"
    by (intro bit_eqI) (force simp: bit_and_iff bit_push_bit_iff)
  then have "push_bit n a + b = push_bit n a OR b" by (rule disjunctive_add_eq_or)
  then show ?thesis by (simp add: push_bit_eq_mult mult.commute)
qed

lemma mc_sec_eq:
  assumes "x < 32" "z < 32"
  shows "mc_sec x y z = 4 * (y div 16) + 2 * (z div 16) + x div 16"
proof -
  have d: "drop_bit 4 (n :: nat) = n div 16" for n by (simp add: drop_bit_eq_div)
  have b: "x div 16 < 2" "z div 16 < 2" using assms by (simp_all add: less_mult_imp_div_less)
  have 1: "push_bit 1 (z div 16) OR x div 16 = 2 * (z div 16) + x div 16"
    using or_push_add[of "x div 16" 1 "z div 16"] b by simp
  have 2: "2 * (z div 16) + x div 16 < 2 ^ 2" using b by simp
  show ?thesis
    unfolding mc_sec_def d or.assoc 1 or_push_add[OF 2] by simp
qed

lemma mc_li_eq: "mc_li x y z = 256 * (y mod 16) + 16 * (z mod 16) + x mod 16"
proof -
  have m: "(n :: nat) AND 0xF = n mod 16" for n
    using take_bit_eq_mask[of 4 n] by (simp add: take_bit_eq_mod mask_eq_exp_minus_1)
  have b: "x mod 16 < 16" "z mod 16 < 16" by simp_all
  have 1: "push_bit 4 (z mod 16) OR x mod 16 = 16 * (z mod 16) + x mod 16"
    using or_push_add[of "x mod 16" 4 "z mod 16"] b by simp
  have 2: "16 * (z mod 16) + x mod 16 < 2 ^ 8" using b by simp
  show ?thesis
    unfolding mc_li_def m or.assoc 1 or_push_add[OF 2] by simp
qed

lemma localIndex_eq: "lz < 16 \<Longrightarrow> lx < 16 \<Longrightarrow> localIndex lx ly lz = 256 * ly + 16 * lz + lx"
  unfolding localIndex_def or.assoc using or_push_add[of lx 4 lz] or_push_add[of "16 * lz + lx" 8 ly] by simp

lemma chunkIndex_eq: "z < 32 \<Longrightarrow> x < 32 \<Longrightarrow> chunkIndex x y z = 1024 * y + 32 * z + x"
  unfolding chunkIndex_def or.assoc using or_push_add[of x 5 z] or_push_add[of "32 * z + x" 10 y] by simp

text \<open>A chunk-local coordinate.\<close>

abbreviation local3 :: "nat \<Rightarrow> nat \<Rightarrow> nat \<Rightarrow> bool" where
  "local3 x y z \<equiv> x < 32 \<and> y < 32 \<and> z < 32"

lemma digits_inj: "m * a + b = m * a' + (b' :: nat) \<Longrightarrow> b < m \<Longrightarrow> b' < m \<Longrightarrow> a = a' \<and> b = b'"
  by (metis add.commute div_mult_self2 div_less mod_less mod_mult_self2 add_0 not_less_zero)

lemma half_lt_2: "(n :: nat) < 32 \<Longrightarrow> n div 16 < 2"
  by (simp add: less_mult_imp_div_less)

lemma mc_address:
  assumes "local3 x y z"
  shows "mc_sec x y z < 8" "mc_li x y z < 4096"
proof -
  have "x div 16 < 2" "y div 16 < 2" "z div 16 < 2" using assms by (auto intro: half_lt_2)
  then show "mc_sec x y z < 8" using assms by (simp add: mc_sec_eq)
  have "x mod 16 < 16" "y mod 16 < 16" "z mod 16 < 16" by simp_all
  then show "mc_li x y z < 4096" by (simp add: mc_li_eq)
qed

lemma mc_address_inj:
  assumes "local3 x y z" "local3 x' y' z'"
  shows "mc_sec x y z = mc_sec x' y' z' \<and> mc_li x y z = mc_li x' y' z' \<longleftrightarrow> x = x' \<and> y = y' \<and> z = z'"
proof
  assume e: "mc_sec x y z = mc_sec x' y' z' \<and> mc_li x y z = mc_li x' y' z'"
  have b: "x div 16 < 2" "y div 16 < 2" "z div 16 < 2" "x' div 16 < 2" "y' div 16 < 2" "z' div 16 < 2"
    using assms by (auto intro: half_lt_2)
  have s: "4 * (y div 16) + (2 * (z div 16) + x div 16) = 4 * (y' div 16) + (2 * (z' div 16) + x' div 16)"
    using e assms by (simp add: mc_sec_eq)
  have s2: "y div 16 = y' div 16 \<and> 2 * (z div 16) + x div 16 = 2 * (z' div 16) + x' div 16"
    by (rule digits_inj[OF s]) (use b in linarith)+
  have s3: "z div 16 = z' div 16 \<and> x div 16 = x' div 16"
    by (rule digits_inj[OF s2[THEN conjunct2]]) (use b in linarith)+
  have m: "n mod 16 < 16" for n :: nat by simp
  have l: "256 * (y mod 16) + (16 * (z mod 16) + x mod 16) = 256 * (y' mod 16) + (16 * (z' mod 16) + x' mod 16)"
    using e by (simp add: mc_li_eq)
  have l2: "y mod 16 = y' mod 16 \<and> 16 * (z mod 16) + x mod 16 = 16 * (z' mod 16) + x' mod 16"
    by (rule digits_inj[OF l]) (use m[of x] m[of z] m[of x'] m[of z'] in linarith)+
  have l3: "z mod 16 = z' mod 16 \<and> x mod 16 = x' mod 16"
    by (rule digits_inj[OF l2[THEN conjunct2]]) simp_all
  show "x = x' \<and> y = y' \<and> z = z'" using s2 s3 l2 l3 by (metis div_mult_mod_eq)
qed simp

section \<open>Chunks behave as arrays of blocks and attributes\<close>

definition chunk_ok :: "chunk \<Rightarrow> bool" where
  "chunk_ok c \<longleftrightarrow> length c = 8 \<and> list_all ms_ok c"

lemma chunk_ok_nth: "chunk_ok c \<Longrightarrow> i < 8 \<Longrightarrow> ms_ok (c ! i) \<and> nth_opt c i = Some (c ! i)"
  by (simp add: chunk_ok_def list_all_length)

lemma chunk_ok_update: "chunk_ok c \<Longrightarrow> ms_ok s \<Longrightarrow> chunk_ok (c[i := s])"
  by (auto simp: chunk_ok_def list_all_iff dest: set_update_subset_insert[THEN subsetD])

lemma chunk_new_ok: "chunk_ok chunk_new"
  by (simp add: chunk_ok_def chunk_new_def SEC_CNT_def ms_new_ok list_all_iff)

definition chunk_safe :: "chunk \<Rightarrow> nat \<Rightarrow> nat \<Rightarrow> nat \<Rightarrow> u16 \<Rightarrow> bool" where
  "chunk_safe c x y z bid \<longleftrightarrow> promotion_safe (c ! mc_sec x y z) bid"

lemma chunk_setBlock_facts:
  assumes "chunk_ok c" "local3 x y z" "chunk_safe c x y z bid"
  obtains c' where "mc_setBlock x y z bid c = Some c'" "chunk_ok c'"
    "\<And>x' y' z'. local3 x' y' z' \<Longrightarrow>
       mc_getBlock c' x' y' z' = (if x' = x \<and> y' = y \<and> z' = z then Some bid else mc_getBlock c x' y' z')"
    "\<And>x' y' z'. local3 x' y' z' \<Longrightarrow> mc_getMeta c' x' y' z' = mc_getMeta c x' y' z' \<and>
       mc_getMultiblock c' x' y' z' = mc_getMultiblock c x' y' z'"
proof -
  let ?s = "c ! mc_sec x y z"
  note a = mc_address[OF assms(2)]
  have n: "ms_ok ?s" "nth_opt c (mc_sec x y z) = Some ?s" using chunk_ok_nth[OF assms(1) a(1)] by auto
  obtain s' where s': "setBlock (mc_li x y z) bid ?s = Some s'" "ms_ok s'" "meta s' = meta ?s" "mb s' = mb ?s"
    "\<forall>lj < 4096. getBlock s' lj = (if lj = mc_li x y z then Some bid else getBlock ?s lj)"
    using setBlock_correct[OF n(1) a(2)] assms(3) by (auto simp: chunk_safe_def)
  have len: "length c = 8" using assms(1) by (simp add: chunk_ok_def)
  let ?c = "c[mc_sec x y z := s']"
  show thesis
  proof (rule that)
    show "mc_setBlock x y z bid c = Some ?c" by (simp add: mc_setBlock_def n(2) s'(1))
    show "chunk_ok ?c" by (rule chunk_ok_update[OF assms(1) s'(2)])
  next
    fix x' y' z' assume p: "local3 x' y' z'"
    note b = mc_address[OF p]
    show "mc_getBlock ?c x' y' z' = (if x' = x \<and> y' = y \<and> z' = z then Some bid else mc_getBlock c x' y' z')"
    proof (cases "mc_sec x' y' z' = mc_sec x y z")
      case True
      then show ?thesis
        using s'(5) b a len mc_address_inj[OF p assms(2)] by (auto simp: mc_getBlock_def)
    next
      case False
      then show ?thesis using b len by (auto simp: mc_getBlock_def nth_opt_def)
    qed
    show "mc_getMeta ?c x' y' z' = mc_getMeta c x' y' z' \<and> mc_getMultiblock ?c x' y' z' = mc_getMultiblock c x' y' z'"
      using b len s'(3,4)
      by (cases "mc_sec x' y' z' = mc_sec x y z")
        (auto simp: mc_getMeta_def mc_getMultiblock_def getMeta_def getMultiblock_def)
  qed
qed

lemma chunk_setMeta_facts:
  assumes "chunk_ok c" "local3 x y z"
  obtains c' where "mc_setMeta x y z m c = Some c'" "chunk_ok c'"
    "\<And>x' y' z'. local3 x' y' z' \<Longrightarrow>
       mc_getMeta c' x' y' z' = (if x' = x \<and> y' = y \<and> z' = z then Some m else mc_getMeta c x' y' z') \<and>
       mc_getBlock c' x' y' z' = mc_getBlock c x' y' z' \<and> mc_getMultiblock c' x' y' z' = mc_getMultiblock c x' y' z'"
proof -
  let ?s = "c ! mc_sec x y z" and ?li = "mc_li x y z"
  note a = mc_address[OF assms(2)]
  have n: "ms_ok ?s" "nth_opt c (mc_sec x y z) = Some ?s" using chunk_ok_nth[OF assms(1) a(1)] by auto
  have len: "length c = 8" using assms(1) by (simp add: chunk_ok_def)
  let ?c = "c[mc_sec x y z := setMeta ?li m ?s]"
  note f = setMeta_correct[OF n(1) a(2), where m = m]
  show thesis
  proof (rule that)
    show "mc_setMeta x y z m c = Some ?c" by (simp add: mc_setMeta_def n(2))
    show "chunk_ok ?c" using f[OF a(2)] chunk_ok_update[OF assms(1)] by blast
  next
    fix x' y' z' assume p: "local3 x' y' z'"
    note b = mc_address[OF p]
    show "mc_getMeta ?c x' y' z' = (if x' = x \<and> y' = y \<and> z' = z then Some m else mc_getMeta c x' y' z') \<and>
      mc_getBlock ?c x' y' z' = mc_getBlock c x' y' z' \<and> mc_getMultiblock ?c x' y' z' = mc_getMultiblock c x' y' z'"
      using f[OF b(2)] b a len mc_address_inj[OF p assms(2)]
      by (cases "mc_sec x' y' z' = mc_sec x y z")
        (auto simp: mc_getMeta_def mc_getMultiblock_def mc_getBlock_def nth_opt_def)
  qed
qed

lemma chunk_setMultiblock_facts:
  assumes "chunk_ok c" "local3 x y z"
  obtains c' where "mc_setMultiblock x y z m c = Some c'" "chunk_ok c'"
    "\<And>x' y' z'. local3 x' y' z' \<Longrightarrow>
       mc_getMultiblock c' x' y' z' = (if x' = x \<and> y' = y \<and> z' = z then Some m else mc_getMultiblock c x' y' z') \<and>
       mc_getBlock c' x' y' z' = mc_getBlock c x' y' z' \<and> mc_getMeta c' x' y' z' = mc_getMeta c x' y' z'"
proof -
  let ?s = "c ! mc_sec x y z" and ?li = "mc_li x y z"
  note a = mc_address[OF assms(2)]
  have n: "ms_ok ?s" "nth_opt c (mc_sec x y z) = Some ?s" using chunk_ok_nth[OF assms(1) a(1)] by auto
  have len: "length c = 8" using assms(1) by (simp add: chunk_ok_def)
  let ?c = "c[mc_sec x y z := setMultiblock ?li m ?s]"
  note f = setMeta_correct[OF n(1) a(2), where k = m]
  show thesis
  proof (rule that)
    show "mc_setMultiblock x y z m c = Some ?c" by (simp add: mc_setMultiblock_def n(2))
    show "chunk_ok ?c" using f[OF a(2)] chunk_ok_update[OF assms(1)] by blast
  next
    fix x' y' z' assume p: "local3 x' y' z'"
    note b = mc_address[OF p]
    show "mc_getMultiblock ?c x' y' z' = (if x' = x \<and> y' = y \<and> z' = z then Some m else mc_getMultiblock c x' y' z') \<and>
      mc_getBlock ?c x' y' z' = mc_getBlock c x' y' z' \<and> mc_getMeta ?c x' y' z' = mc_getMeta c x' y' z'"
      using f[OF b(2)] b a len mc_address_inj[OF p assms(2)]
      by (cases "mc_sec x' y' z' = mc_sec x y z")
        (auto simp: mc_getMeta_def mc_getMultiblock_def mc_getBlock_def nth_opt_def)
  qed
qed

section \<open>A generated chunk reads back the block array\<close>

lemma foldl_writes:
  assumes "\<And>k. k \<in> set ks \<Longrightarrow> f k < length l" "inj_on f (set ks)"
  shows "length (foldl (\<lambda>l k. l[f k := g k]) l ks) = length l \<and>
    (\<forall>k \<in> set ks. foldl (\<lambda>l k. l[f k := g k]) l ks ! f k = g k)"
  using assms
proof (induction ks rule: rev_induct)
  case (snoc k ks)
  have "f k \<noteq> f k' \<or> k = k'" if "k' \<in> set ks" for k'
    using snoc.prems(2) that by (auto simp: inj_on_def)
  moreover have "length (foldl (\<lambda>l k. l[f k := g k]) l ks) = length l \<and>
      (\<forall>k \<in> set ks. foldl (\<lambda>l k. l[f k := g k]) l ks ! f k = g k)"
    using snoc by (auto simp: inj_on_def)
  ultimately show ?case using snoc.prems(1) by (auto simp: nth_list_update)
qed simp

lemma section_cells_props:
  "set section_cells = {(lx, ly, lz). lx < 16 \<and> ly < 16 \<and> lz < 16}"
  by (auto simp: section_cells_def SEC_SZ_def image_iff)

lemma localIndex_inj:
  assumes "localIndex a b c = localIndex a' b' c'" "a < 16" "b < 16" "c < 16" "a' < 16" "b' < 16" "c' < 16"
  shows "a = a' \<and> b = b' \<and> c = c'"
proof -
  have "256 * b + (16 * c + a) = 256 * b' + (16 * c' + a')" using assms by (simp add: localIndex_eq)
  then have 1: "b = b' \<and> 16 * c + a = 16 * c' + a'" by (rule digits_inj) (use assms in linarith)+
  have "c = c' \<and> a = a'" by (rule digits_inj[OF 1[THEN conjunct2]]) (use assms in linarith)+
  with 1 show ?thesis by simp
qed

lemma section_blocks_nth:
  assumes "lx < 16" "ly < 16" "lz < 16"
  shows "length (section_blocks blocks s) = 4096"
    "section_blocks blocks s ! localIndex lx ly lz =
     blocks ! chunkIndex (sectionOrigin s 0 + lx) (sectionOrigin s 2 + ly) (sectionOrigin s 1 + lz)"
proof -
  let ?f = "\<lambda>(lx, ly, lz). localIndex lx ly lz"
  let ?g = "\<lambda>(lx, ly, lz). blocks ! chunkIndex (sectionOrigin s 0 + lx) (sectionOrigin s 2 + ly) (sectionOrigin s 1 + lz)"
  have e: "section_blocks blocks s = foldl (\<lambda>l k. l[?f k := ?g k]) (replicate SEC_VOL 0) section_cells"
    by (simp add: section_blocks_def Let_def case_prod_beta')
  have inj: "inj_on ?f (set section_cells)"
    by (auto simp: inj_on_def section_cells_props dest: localIndex_inj)
  have lt: "?f k < length (replicate SEC_VOL (0 :: u16))" if "k \<in> set section_cells" for k
    using that by (auto simp: section_cells_props localIndex_eq)
  have w: "length (foldl (\<lambda>l k. l[?f k := ?g k]) (replicate SEC_VOL 0) section_cells) = length (replicate SEC_VOL (0 :: u16)) \<and>
      (\<forall>k \<in> set section_cells. foldl (\<lambda>l k. l[?f k := ?g k]) (replicate SEC_VOL 0) section_cells ! ?f k = ?g k)"
    using foldl_writes[where f = ?f and g = ?g, OF lt inj] by blast
  show "length (section_blocks blocks s) = 4096" unfolding e using w by simp
  have "(lx, ly, lz) \<in> set section_cells" using assms by (simp add: section_cells_props)
  then show "section_blocks blocks s ! localIndex lx ly lz =
     blocks ! chunkIndex (sectionOrigin s 0 + lx) (sectionOrigin s 2 + ly) (sectionOrigin s 1 + lz)"
    unfolding e using w by fastforce
qed

lemma those_map: "(\<And>x. x \<in> set xs \<Longrightarrow> f x = Some (g x)) \<Longrightarrow> those (map f xs) = Some (map g xs)"
  by (induction xs) auto

lemma sectionOrigin_sec:
  assumes "local3 x y z"
  shows "sectionOrigin (mc_sec x y z) 0 = 16 * (x div 16)" "sectionOrigin (mc_sec x y z) 1 = 16 * (z div 16)"
    "sectionOrigin (mc_sec x y z) 2 = 16 * (y div 16)"
proof -
  have b: "x div 16 < 2" "y div 16 < 2" "z div 16 < 2" using assms by (auto intro: half_lt_2)
  have d: "sectionOrigin n k = 16 * (n div 2 ^ k mod 2)" for n k
    by (simp add: sectionOrigin_def SEC_SZ_def drop_bit_eq_div and_one_eq)
  show "sectionOrigin (mc_sec x y z) 0 = 16 * (x div 16)" "sectionOrigin (mc_sec x y z) 1 = 16 * (z div 16)"
    "sectionOrigin (mc_sec x y z) 2 = 16 * (y div 16)"
    using assms b by (simp_all add: d mc_sec_eq) (auto simp: less_2_cases_iff)
qed

lemma chunk_fromBlocks_facts:
  assumes "length blocks = 32768"
  obtains c where "mc_fromBlocks blocks = Some c" "chunk_ok c"
    "\<And>x y z. local3 x y z \<Longrightarrow> mc_getBlock c x y z = Some (blocks ! chunkIndex x y z) \<and>
       mc_getMeta c x y z = Some 0 \<and> mc_getMultiblock c x y z = Some 0"
proof -
  define sec where "sec = (\<lambda>s. the (fromBlocks (section_blocks blocks s) ms_new))"
  have f: "fromBlocks (section_blocks blocks s) ms_new = Some (sec s) \<and> ms_ok (sec s) \<and>
      meta (sec s) = sp_empty \<and> mb (sec s) = sp_empty \<and>
      (\<forall>li < 4096. getBlock (sec s) li = Some (section_blocks blocks s ! li))" for s
    using fromBlocks_correct[of "section_blocks blocks s" ms_new] section_blocks_nth(1)[of 0 0 0 blocks s]
    by (force simp: sec_def)
  let ?c = "map sec [0..<8]"
  have len: "length ?c = 8" by simp
  show thesis
  proof (rule that[of ?c])
    show "mc_fromBlocks blocks = Some ?c"
      unfolding mc_fromBlocks_def SEC_CNT_def by (rule those_map) (use f in blast)
    show "chunk_ok ?c" using f by (simp add: chunk_ok_def list_all_iff)
  next
    fix x y z assume p: "local3 x y z"
    note a = mc_address[OF p]
    have nth: "nth_opt ?c (mc_sec x y z) = Some (sec (mc_sec x y z))" using a by (simp add: nth_opt_def)
    have m: "x mod 16 < 16" "y mod 16 < 16" "z mod 16 < 16" by simp_all
    have li: "mc_li x y z = localIndex (x mod 16) (y mod 16) (z mod 16)"
      using m by (simp add: localIndex_eq mc_li_eq)
    have ci: "chunkIndex (sectionOrigin (mc_sec x y z) 0 + x mod 16) (sectionOrigin (mc_sec x y z) 2 + y mod 16)
        (sectionOrigin (mc_sec x y z) 1 + z mod 16) = chunkIndex x y z"
      by (simp only: sectionOrigin_sec[OF p] mult_div_mod_eq)
    have "getBlock (sec (mc_sec x y z)) (mc_li x y z) = Some (blocks ! chunkIndex x y z)"
      using f[of "mc_sec x y z"] a(2) section_blocks_nth(2)[OF m] ci li by metis
    moreover have "getMeta (sec (mc_sec x y z)) (mc_li x y z) = Some 0" "getMultiblock (sec (mc_sec x y z)) (mc_li x y z) = Some 0"
      using f[of "mc_sec x y z"] by (simp_all add: getMeta_def getMultiblock_def sp_get_def sp_empty_def)
    ultimately show "mc_getBlock ?c x y z = Some (blocks ! chunkIndex x y z) \<and>
       mc_getMeta ?c x y z = Some 0 \<and> mc_getMultiblock ?c x y z = Some 0"
      using nth by (simp add: mc_getBlock_def mc_getMeta_def mc_getMultiblock_def)
  qed
qed

section \<open>The wire format of a chunk\<close>

text \<open>What a section is after encoding and decoding: the same blocks and attributes, except that the
  attributes of an air section are dropped.\<close>

definition kept :: "ms \<Rightarrow> ms \<Rightarrow> bool" where
  "kept s s' \<longleftrightarrow> (if sec_type s = AIR then s' = ms_new else same_content s s')"

lemma section_roundtrip:
  assumes "ms_ok s"
  obtains w where "encodeToWire s buf = Some (buf @ w)"
    "\<And>r rest. unread r = w @ rest \<Longrightarrow>
       \<exists>s'. fromWire r = Some (s', advance (length w) r) \<and> ms_ok s' \<and> kept s s'"
proof (cases "sec_type s = AIR")
  case True
  define w where "w = writeU16 [] 1 @ writeU16 [] 0 @ writeU8 [] 0 @ meta_mb_bytes s"
  have e: "encodeToWire s b = Some (b @ w)" for b
    using True by (simp add: encodeToWire_def w_def writeMetaMb_append writeU16_def writeU8_def)
  show thesis
  proof (rule that[OF e])
    fix r rest assume u: "unread r = w @ rest"
    have "w \<noteq> []" by (simp add: w_def writeU16_def)
    then have "rpos r \<le> length (rdata r)" using u by (cases "rpos r \<le> length (rdata r)") (auto simp: unread_def)
    from fromWire_air[OF assms True e[of "[]", simplified] u this]
    show "\<exists>s'. fromWire r = Some (s', advance (length w) r) \<and> ms_ok s' \<and> kept s s'"
      using True ms_new_ok by (simp add: kept_def)
  qed
next
  case False
  obtain w where "encodeToWire s buf = Some (buf @ w)"
    "\<forall>r rest. unread r = w @ rest \<longrightarrow>
      (\<exists>s'. fromWire r = Some (s', advance (length w) r) \<and> ms_ok s' \<and> same_content s s')"
    using fromWire_encodeToWire[OF assms False, of buf] by blast
  then show thesis using that False by (simp add: kept_def)
qed

lemma sections_roundtrip:
  "list_all ms_ok ss \<Longrightarrow>
   \<exists>w. encode_sections ss buf = Some (buf @ w) \<and>
     (\<forall>r rest. unread r = w @ rest \<longrightarrow>
       (\<exists>ss'. read_many fromWire (length ss) r = Some (ss', advance (length w) r) \<and>
         list_all ms_ok ss' \<and> list_all2 kept ss ss'))"
proof (induction ss arbitrary: buf)
  case (Cons s ss)
  obtain w1 where w1: "encodeToWire s buf = Some (buf @ w1)"
    "\<And>r rest. unread r = w1 @ rest \<Longrightarrow> \<exists>s'. fromWire r = Some (s', advance (length w1) r) \<and> ms_ok s' \<and> kept s s'"
    using section_roundtrip[of s buf] Cons.prems by auto
  obtain w2 where w2: "encode_sections ss (buf @ w1) = Some ((buf @ w1) @ w2)"
    "\<And>r rest. unread r = w2 @ rest \<Longrightarrow> \<exists>ss'. read_many fromWire (length ss) r = Some (ss', advance (length w2) r) \<and>
         list_all ms_ok ss' \<and> list_all2 kept ss ss'"
    using Cons.IH[of "buf @ w1"] Cons.prems by auto
  have "\<exists>ss'. read_many fromWire (length (s # ss)) r = Some (ss', advance (length (w1 @ w2)) r) \<and>
         list_all ms_ok ss' \<and> list_all2 kept (s # ss) ss'" if "unread r = (w1 @ w2) @ rest" for r rest
  proof -
    have u: "unread r = w1 @ (w2 @ rest)" using that by simp
    obtain s' where s': "fromWire r = Some (s', advance (length w1) r)" "ms_ok s'" "kept s s'" using w1(2)[OF u] by auto
    obtain ss' where "read_many fromWire (length ss) (advance (length w1) r) = Some (ss', advance (length w2) (advance (length w1) r))"
      "list_all ms_ok ss'" "list_all2 kept ss ss'" using w2(2)[OF unread_advance[OF u]] by auto
    then show ?thesis using s' by (intro exI[of _ "s' # ss'"]) simp
  qed
  then show ?case using w1(1) w2(1) by (intro exI[of _ "w1 @ w2"]) simp
qed simp

lemma chunk_roundtrip_facts:
  assumes "chunk_ok c"
  obtains w c' where "mc_encodeToWire c = Some w" "mc_fromWire w = Some c'" "chunk_ok c'" "list_all2 kept c c'"
proof -
  have len: "length c = SEC_CNT" and ok: "list_all ms_ok c" using assms by (auto simp: chunk_ok_def SEC_CNT_def)
  let ?h = "writeU8 (writeU8 (writeU32 [] MAGIC) 2) (of_nat SEC_CNT)"
  obtain w where w: "encode_sections c ?h = Some (?h @ w)"
    "\<And>r rest. unread r = w @ rest \<Longrightarrow> \<exists>ss'. read_many fromWire (length c) r = Some (ss', advance (length w) r) \<and>
       list_all ms_ok ss' \<and> list_all2 kept c ss'"
    using sections_roundtrip[OF ok, of ?h] by blast
  let ?r = "\<lparr>rdata = ?h @ w, rpos = 0\<rparr>"
  have u1: "unread ?r = writeU32 [] MAGIC @ (writeU8 [] 2 @ writeU8 [] (of_nat SEC_CNT) @ w)"
    by (simp add: unread_def writeU8_def)
  note u2 = unread_advance[OF u1] and r1 = wu32.dec_enc[OF TrueI u1]
  note u3 = unread_advance[OF u2] and r2 = wu8.dec_enc[OF TrueI u2]
  note u4 = unread_advance[OF u3] and r3 = wu8.dec_enc[OF TrueI u3]
  let ?r3 = "advance (length (writeU8 [] (of_nat SEC_CNT))) (advance (length (writeU8 [] (2 :: u8))) (advance (length (writeU32 [] MAGIC)) ?r))"
  have h: "read_header ?r = Some ?r3"
    unfolding read_header_def r1 Option.bind.simps prod.case r2 r3 by simp
  obtain ss' where ss': "read_many fromWire (length c) ?r3 = Some (ss', advance (length w) ?r3)"
    "list_all ms_ok ss'" "list_all2 kept c ss'"
    using w(2)[of ?r3 "[]"] u4 by auto
  show thesis
  proof (rule that)
    show "mc_encodeToWire c = Some (?h @ w)" by (simp add: mc_encodeToWire_def w(1))
    show "mc_fromWire (?h @ w) = Some ss'"
      using ss'(1) by (simp add: mc_fromWire_def h len)
    show "chunk_ok ss'" using ss'(2,3) len by (simp add: chunk_ok_def list_all2_lengthD SEC_CNT_def)
    show "list_all2 kept c ss'" by (rule ss'(3))
  qed
qed

lemma ms_new_reads: "getBlock ms_new li = Some 0" "getMeta ms_new li = Some 0" "getMultiblock ms_new li = Some 0"
  by (simp_all add: getBlock_def getMeta_def getMultiblock_def ms_new_def sp_get_def sp_empty_def)

lemma kept_content:
  assumes "chunk_ok c" "list_all2 kept c c'" "local3 x y z"
  shows "mc_getBlock c' x y z = mc_getBlock c x y z"
    "mc_getMeta c' x y z = (if sec_type (c ! mc_sec x y z) = AIR then Some 0 else mc_getMeta c x y z)"
    "mc_getMultiblock c' x y z = (if sec_type (c ! mc_sec x y z) = AIR then Some 0 else mc_getMultiblock c x y z)"
proof -
  note a = mc_address[OF assms(3)]
  have k: "kept (c ! mc_sec x y z) (c' ! mc_sec x y z)" and l: "length c = 8" "length c' = 8"
    using assms(1,2) a by (auto simp: chunk_ok_def list_all2_conv_all_nth)
  show "mc_getBlock c' x y z = mc_getBlock c x y z"
    using k a l by (auto simp: kept_def mc_getBlock_def same_content_def ms_new_reads split: if_splits)
      (simp add: getBlock_def)
  show "mc_getMeta c' x y z = (if sec_type (c ! mc_sec x y z) = AIR then Some 0 else mc_getMeta c x y z)"
    "mc_getMultiblock c' x y z = (if sec_type (c ! mc_sec x y z) = AIR then Some 0 else mc_getMultiblock c x y z)"
    using k a l
    by (auto simp: kept_def mc_getMeta_def mc_getMultiblock_def same_content_def ms_new_reads)
qed

section \<open>Properties\<close>

text \<open>In a well-formed chunk \<open>setBlock\<close> never reaches undefined behaviour, changes the block at the
  addressed coordinates and at no other coordinates of the 32 x 32 x 32, leaves every meta value and
  multiblock id, and keeps the chunk well formed. Excluded is only the promotion of
  \<open>promotion_safe\<close>.\<close>

theorem chunk_setBlock:
  assumes "chunk_ok c" "local3 x y z" "local3 x' y' z'" "chunk_safe c x y z bid"
  shows "\<exists>c'. mc_setBlock x y z bid c = Some c' \<and> chunk_ok c' \<and>
    mc_getBlock c' x' y' z' = (if x' = x \<and> y' = y \<and> z' = z then Some bid else mc_getBlock c x' y' z') \<and>
    mc_getMeta c' x' y' z' = mc_getMeta c x' y' z' \<and> mc_getMultiblock c' x' y' z' = mc_getMultiblock c x' y' z'"
  by (rule chunk_setBlock_facts[OF assms(1,2,4)]) (use assms(3) in blast)

theorem chunk_setBlock_witness:
  "\<exists>c'. mc_setBlock 17 3 20 77 chunk_new = Some c' \<and> chunk_ok c' \<and>
    mc_getBlock c' 17 3 20 = (if (17 :: nat) = 17 \<and> (3 :: nat) = 3 \<and> (20 :: nat) = 20 then Some 77 else mc_getBlock chunk_new 17 3 20) \<and>
    mc_getMeta c' 17 3 20 = mc_getMeta chunk_new 17 3 20 \<and> mc_getMultiblock c' 17 3 20 = mc_getMultiblock chunk_new 17 3 20"
  by (rule chunk_setBlock[OF chunk_new_ok])
    (simp_all add: chunk_safe_def promotion_safe_def chunk_new_def mc_sec_eq SEC_CNT_def ms_new_def)

text \<open>\<open>setMeta\<close> and \<open>setMultiblock\<close> of a well-formed chunk change the addressed entry of their attribute
  and nothing else: no other entry, no entry of the other attribute, no block.\<close>

theorem chunk_attributes:
  assumes "chunk_ok c" "local3 x y z" "local3 x' y' z'"
  shows "\<exists>c' c''. mc_setMeta x y z m c = Some c' \<and> chunk_ok c' \<and>
    mc_getMeta c' x' y' z' = (if x' = x \<and> y' = y \<and> z' = z then Some m else mc_getMeta c x' y' z') \<and>
    mc_getBlock c' x' y' z' = mc_getBlock c x' y' z' \<and> mc_getMultiblock c' x' y' z' = mc_getMultiblock c x' y' z' \<and>
    mc_setMultiblock x y z k c = Some c'' \<and> chunk_ok c'' \<and>
    mc_getMultiblock c'' x' y' z' = (if x' = x \<and> y' = y \<and> z' = z then Some k else mc_getMultiblock c x' y' z') \<and>
    mc_getBlock c'' x' y' z' = mc_getBlock c x' y' z' \<and> mc_getMeta c'' x' y' z' = mc_getMeta c x' y' z'"
proof -
  obtain c' where 1: "mc_setMeta x y z m c = Some c'" "chunk_ok c'"
    "mc_getMeta c' x' y' z' = (if x' = x \<and> y' = y \<and> z' = z then Some m else mc_getMeta c x' y' z') \<and>
     mc_getBlock c' x' y' z' = mc_getBlock c x' y' z' \<and> mc_getMultiblock c' x' y' z' = mc_getMultiblock c x' y' z'"
    by (rule chunk_setMeta_facts[OF assms(1,2), of m]) (use assms(3) in blast)
  obtain c'' where 2: "mc_setMultiblock x y z k c = Some c''" "chunk_ok c''"
    "mc_getMultiblock c'' x' y' z' = (if x' = x \<and> y' = y \<and> z' = z then Some k else mc_getMultiblock c x' y' z') \<and>
     mc_getBlock c'' x' y' z' = mc_getBlock c x' y' z' \<and> mc_getMeta c'' x' y' z' = mc_getMeta c x' y' z'"
    by (rule chunk_setMultiblock_facts[OF assms(1,2), of k]) (use assms(3) in blast)
  show ?thesis using 1 2 by blast
qed

theorem chunk_attributes_witness:
  "\<exists>c' c''. mc_setMeta 17 3 20 5 chunk_new = Some c' \<and> chunk_ok c' \<and>
    mc_getMeta c' 16 3 20 = (if (16 :: nat) = 17 \<and> (3 :: nat) = 3 \<and> (20 :: nat) = 20 then Some 5 else mc_getMeta chunk_new 16 3 20) \<and>
    mc_getBlock c' 16 3 20 = mc_getBlock chunk_new 16 3 20 \<and> mc_getMultiblock c' 16 3 20 = mc_getMultiblock chunk_new 16 3 20 \<and>
    mc_setMultiblock 17 3 20 70000 chunk_new = Some c'' \<and> chunk_ok c'' \<and>
    mc_getMultiblock c'' 16 3 20 = (if (16 :: nat) = 17 \<and> (3 :: nat) = 3 \<and> (20 :: nat) = 20 then Some 70000 else mc_getMultiblock chunk_new 16 3 20) \<and>
    mc_getBlock c'' 16 3 20 = mc_getBlock chunk_new 16 3 20 \<and> mc_getMeta c'' 16 3 20 = mc_getMeta chunk_new 16 3 20"
  by (rule chunk_attributes[OF chunk_new_ok]) simp_all

text \<open>A generated chunk is stored exactly: \<open>fromBlocks\<close> of any 32768 block ids gives a well-formed chunk
  that reads back, at every coordinate, the id the flat array has at \<open>chunkIndex\<close>, without attributes.\<close>

theorem chunk_fromBlocks:
  assumes "length blocks = 32768" "local3 x y z"
  shows "\<exists>c. mc_fromBlocks blocks = Some c \<and> chunk_ok c \<and> mc_getBlock c x y z = Some (blocks ! chunkIndex x y z) \<and>
    mc_getMeta c x y z = Some 0 \<and> mc_getMultiblock c x y z = Some 0"
  by (rule chunk_fromBlocks_facts[OF assms(1)]) (use assms(2) in blast)

theorem chunk_fromBlocks_witness:
  "\<exists>c. mc_fromBlocks (map of_nat [0..<32768]) = Some c \<and> chunk_ok c \<and>
    mc_getBlock c 1 2 3 = Some (map of_nat [0..<32768] ! chunkIndex 1 2 3) \<and>
    mc_getMeta c 1 2 3 = Some 0 \<and> mc_getMultiblock c 1 2 3 = Some 0"
  by (rule chunk_fromBlocks) simp_all

text \<open>C30: a well-formed chunk survives encoding and decoding: the bytes decode to a well-formed chunk with
  the same block everywhere and the same meta value and multiblock id wherever the section is not
  all air; the attributes of an all-air section are lost.\<close>

theorem chunk_roundtrip:
  assumes "chunk_ok c" "local3 x y z"
  shows "\<exists>w c'. mc_encodeToWire c = Some w \<and> mc_fromWire w = Some c' \<and> chunk_ok c' \<and>
    mc_getBlock c' x y z = mc_getBlock c x y z \<and>
    mc_getMeta c' x y z = (if sec_type (c ! mc_sec x y z) = AIR then Some 0 else mc_getMeta c x y z) \<and>
    mc_getMultiblock c' x y z = (if sec_type (c ! mc_sec x y z) = AIR then Some 0 else mc_getMultiblock c x y z)"
  by (rule chunk_roundtrip_facts[OF assms(1)]) (use kept_content[OF assms(1) _ assms(2)] in blast)

definition sample_chunk :: chunk where
  "sample_chunk = chunk_new[0 := two_block_section]"

lemma sample_chunk_ok: "chunk_ok sample_chunk"
  unfolding sample_chunk_def by (rule chunk_ok_update[OF chunk_new_ok two_block_ok])

theorem chunk_roundtrip_witness:
  "\<exists>w c'. mc_encodeToWire sample_chunk = Some w \<and> mc_fromWire w = Some c' \<and> chunk_ok c' \<and>
    mc_getBlock c' 5 0 0 = mc_getBlock sample_chunk 5 0 0 \<and>
    mc_getMeta c' 5 0 0 = (if sec_type (sample_chunk ! mc_sec 5 0 0) = AIR then Some 0 else mc_getMeta sample_chunk 5 0 0) \<and>
    mc_getMultiblock c' 5 0 0 = (if sec_type (sample_chunk ! mc_sec 5 0 0) = AIR then Some 0 else mc_getMultiblock sample_chunk 5 0 0)"
  by (rule chunk_roundtrip[OF sample_chunk_ok]) simp_all

end
