(* ===== verification/ClockCache.thy ===== *)
theory ClockCache
  imports Prelude "HOL-Library.Multiset"
begin

text \<open>
  The set-associative cache \<open>ClockCache<Value, Capacity>\<close> of
  \<open>src/apps/chunk_store/Storage/cache/ClockCache.h\<close>: sets of four 128-bit slots, each a key and a
  pointer whose top bit is the reference bit, with a clock hand per set. The model is the
  sequential one: every compare-and-swap succeeds, so a loop of the code that reloads after a lost
  race has no second round here. The eviction callback is the list of the values it is called with,
  in order. \<open>None\<close> is a hand outside the set, which the code would use as an index; the invariant
  \<open>clock_ok\<close> excludes it. The number of sets is the length of \<open>cc_sets\<close>.
\<close>

unbundle bit_operations_syntax

section \<open>Slots\<close>

type_synonym slot = "128 word"

definition kAssoc :: nat where "kAssoc = 4"
definition kRefBit :: u64 where "kRefBit = push_bit 63 1"

definition pack_slot :: "u64 \<Rightarrow> u64 \<Rightarrow> slot" where
  "pack_slot key val = push_bit 64 (ucast key) OR ucast (val OR kRefBit)"

definition unpack_key :: "slot \<Rightarrow> u64" where "unpack_key s = ucast (drop_bit 64 s)"
definition unpack_val :: "slot \<Rightarrow> u64" where "unpack_val s = ucast s AND NOT kRefBit"
definition has_ref :: "slot \<Rightarrow> bool" where "has_ref s \<longleftrightarrow> ucast s AND kRefBit \<noteq> 0"
definition set_ref :: "slot \<Rightarrow> slot" where "set_ref s = s OR ucast kRefBit"
definition clear_ref :: "slot \<Rightarrow> slot" where "clear_ref s = s AND NOT (ucast kRefBit)"

definition set_idx :: "nat \<Rightarrow> u64 \<Rightarrow> nat" where
  "set_idx kSets key =
     (let k = key; k = k XOR drop_bit 32 k; k = k XOR drop_bit 16 k; k = k XOR drop_bit 8 k
      in unat (k AND (of_nat kSets - 1)))"

text \<open>\<open>0 - static_cast<uint64_t>(unpack_key(v) == key)\<close>, the masks of the four slots, their union, and
  \<open>__builtin_ctzll\<close>.\<close>

definition match_mask :: "u64 \<Rightarrow> slot \<Rightarrow> u64" where
  "match_mask key s = 0 - of_bool (unpack_key s = key)"

definition any_match :: "u64 \<Rightarrow> slot list \<Rightarrow> u64" where
  "any_match key sl = foldr (OR) (map (match_mask key) sl) 0"

definition masked_value :: "u64 \<Rightarrow> slot list \<Rightarrow> u64" where
  "masked_value key sl = foldr (OR) (map (\<lambda>s. unpack_val s AND match_mask key s) sl) 0"

definition ctz :: "u64 \<Rightarrow> nat" where
  "ctz w = length (takeWhile (\<lambda>i. \<not> bit w i) [0..<64])"

section \<open>Slots hold what was packed\<close>

lemma bit_kRefBit [simp]: "bit kRefBit n \<longleftrightarrow> n = 63"
  unfolding kRefBit_def bit_push_bit_iff bit_1_iff by auto

lemma bit_ucast_ref [simp]: "bit (ucast kRefBit :: slot) n \<longleftrightarrow> n = 63"
  by (auto simp: bit_simps)

lemma unpack_key_pack [simp]: "unpack_key (pack_slot key val) = key"
  by (rule bit_eqI) (auto simp: unpack_key_def pack_slot_def bit_simps dest: bit_imp_le_length)

lemma unpack_val_pack: "\<not> bit val 63 \<Longrightarrow> unpack_val (pack_slot key val) = val"
  by (rule bit_eqI) (auto simp: unpack_val_def pack_slot_def bit_simps)

lemma has_ref_bit: "has_ref s \<longleftrightarrow> bit s 63"
proof
  assume "has_ref s"
  then obtain n where "bit (ucast s AND kRefBit) n" by (auto simp: has_ref_def bit_eq_iff)
  then show "bit s 63" by (auto simp: bit_simps)
next
  assume "bit s 63"
  then have "bit (ucast s AND kRefBit) 63" by (simp add: bit_simps)
  then show "has_ref s" by (auto simp: has_ref_def)
qed

lemma ref_ops [simp]:
  "unpack_key (set_ref s) = unpack_key s" "unpack_val (set_ref s) = unpack_val s"
  "unpack_key (clear_ref s) = unpack_key s" "unpack_val (clear_ref s) = unpack_val s"
  "\<not> has_ref (clear_ref s)" "has_ref (pack_slot k v)"
  by (auto intro!: bit_eqI simp: unpack_key_def unpack_val_def set_ref_def clear_ref_def has_ref_bit pack_slot_def bit_simps)

lemma unpack_zero [simp]: "unpack_key 0 = 0" "unpack_val 0 = 0"
  by (simp_all add: unpack_key_def unpack_val_def)

lemma slot_nonzero: "unpack_key s \<noteq> 0 \<Longrightarrow> s \<noteq> 0"
  by auto

section \<open>The cache\<close>

record clock =
  cc_sets :: "slot list list"
  cc_hands :: "nat list"

definition clock_new :: "nat \<Rightarrow> clock" where
  "clock_new kSets = \<lparr>cc_sets = replicate kSets (replicate kAssoc 0), cc_hands = replicate kSets 0\<rparr>"

definition set_get :: "u64 \<Rightarrow> slot list \<Rightarrow> u64 option \<times> slot list" where
  "set_get key sl =
     (let any = any_match key sl in
      if any = 0 then (None, sl)
      else let idx = ctz any in (Some (masked_value key sl), sl[idx := set_ref (sl ! idx)]))"

definition clock_get :: "u64 \<Rightarrow> clock \<Rightarrow> u64 option \<times> clock" where
  "clock_get key c =
     (let si = set_idx (length (cc_sets c)) key; (r, sl) = set_get key (cc_sets c ! si)
      in (r, c\<lparr>cc_sets := (cc_sets c)[si := sl]\<rparr>))"

text \<open>Pass 3: the first slot from the hand on whose reference bit is clear.\<close>

definition clock_scan :: "slot list \<Rightarrow> nat \<Rightarrow> nat option" where
  "clock_scan sl h = List.find (\<lambda>idx. \<not> has_ref (sl ! idx)) (map (\<lambda>i. (h + i) AND (kAssoc - 1)) [0..<kAssoc])"

lemma filter_update_less:
  assumes "p (xs ! i)" "\<not> p x" "i < length xs"
  shows "length (filter p (xs[i := x])) < length (filter p xs)"
proof -
  have "length (filter p xs) = length (filter p (take i xs @ xs ! i # drop (Suc i) xs))"
    using id_take_nth_drop[OF assms(3)] by simp
  then have "length (filter p xs) = Suc (length (filter p (take i xs)) + length (filter p (drop (Suc i) xs)))"
    using assms(1) by simp
  then show ?thesis using assms(2,3) by (simp add: upd_conv_take_nth_drop)
qed

function set_put :: "u64 \<Rightarrow> slot \<Rightarrow> slot list \<Rightarrow> nat \<Rightarrow> (slot list \<times> nat \<times> u64 list) option" where
  "set_put key desired sl h =
     (let same = any_match key sl in
      if same \<noteq> 0 then
        let idx = ctz same in Some (sl[idx := desired], h, [unpack_val (sl ! idx)])
      else (case index_of 0 sl of
        Some i \<Rightarrow> Some (sl[i := desired], h, [])
      | None \<Rightarrow>
          (case clock_scan sl h of
             Some idx \<Rightarrow> Some (sl[idx := desired], (idx + 1) AND (kAssoc - 1),
                           if unpack_key (sl ! idx) \<noteq> 0 then [unpack_val (sl ! idx)] else [])
           | None \<Rightarrow>
               if h < kAssoc \<and> length sl = kAssoc
               then set_put key desired (sl[h := clear_ref (sl ! h)]) ((h + 1) AND (kAssoc - 1))
               else None)))"
  by pat_completeness auto

termination
proof (relation "measure (\<lambda>(key, desired, sl, h). length (filter has_ref sl))")
  fix key desired sl h same
  assume none: "clock_scan sl h = None" and h: "h < kAssoc \<and> length sl = kAssoc"
  have "h AND (kAssoc - 1) = h"
    using h take_bit_nat_eq_self[of h 2] by (simp add: kAssoc_def take_bit_eq_mask mask_eq_exp_minus_1)
  then have "has_ref (sl ! h)"
    using none by (force simp: clock_scan_def find_None_iff kAssoc_def dest: bspec[of _ _ 0])
  then show "((key, desired, sl[h := clear_ref (sl ! h)], (h + 1) AND (kAssoc - 1)), key, desired, sl, h)
      \<in> measure (\<lambda>(key, desired, sl, h). length (filter has_ref sl))"
    using filter_update_less[of has_ref sl h "clear_ref (sl ! h)"] h by simp
qed simp

definition clock_put :: "u64 \<Rightarrow> u64 \<Rightarrow> clock \<Rightarrow> (clock \<times> u64 list) option" where
  "clock_put key value c =
     (let si = set_idx (length (cc_sets c)) key in
      map_option (\<lambda>(sl, h, ev). (c\<lparr>cc_sets := (cc_sets c)[si := sl], cc_hands := (cc_hands c)[si := h]\<rparr>, ev))
        (set_put key (pack_slot key value) (cc_sets c ! si) (cc_hands c ! si)))"

definition clock_erase :: "u64 \<Rightarrow> clock \<Rightarrow> clock \<times> u64 list" where
  "clock_erase key c =
     (let si = set_idx (length (cc_sets c)) key; sl = cc_sets c ! si; any = any_match key sl in
      if any = 0 then (c, [])
      else let idx = ctz any in (c\<lparr>cc_sets := (cc_sets c)[si := sl[idx := 0]]\<rparr>, [unpack_val (sl ! idx)]))"

definition clear_slot :: "slot \<Rightarrow> slot \<times> u64 list" where
  "clear_slot s = (if unpack_key s = 0 then (s, []) else (0, [unpack_val s]))"

definition clock_clear :: "clock \<Rightarrow> clock \<times> u64 list" where
  "clock_clear c =
     (c\<lparr>cc_sets := map (map (fst \<circ> clear_slot)) (cc_sets c)\<rparr>,
      concat (map (\<lambda>sl. concat (map (snd \<circ> clear_slot) sl)) (cc_sets c)))"

section \<open>The masks\<close>

lemma match_mask_cases: "match_mask key s = (if unpack_key s = key then - 1 else 0)"
  by (simp add: match_mask_def)

lemma any_match_eq: "any_match key sl = (if key \<in> unpack_key ` set sl then - 1 else 0)"
  by (induction sl) (auto simp: any_match_def match_mask_cases)

lemma ctz_all [simp]: "ctz (- 1) = 0"
  by (simp add: ctz_def upt_conv_Cons)

text \<open>The union of the four masks is all zeros or all ones, so the index computed from it is always 0:
  \<open>get\<close>, \<open>put\<close> and \<open>erase\<close> act on slot 0 of the set whichever slot matched.\<close>

lemma ctz_any_match: "any_match key sl \<noteq> 0 \<Longrightarrow> ctz (any_match key sl) = 0"
  by (simp add: any_match_eq split: if_splits)

declare set_put.simps [simp del]

lemma no_match: "key \<notin> unpack_key ` set sl \<Longrightarrow> any_match key sl = 0"
  by (simp add: any_match_eq)

section \<open>The abstract map of a cache\<close>

text \<open>A set is well formed when it has four slots, a slot without a key has no value (a hit
  may leave the reference bit in an empty slot 0), the keys of the other slots
  are distinct and hash to the set, and the hand points into it.\<close>

definition used :: "slot list \<Rightarrow> slot list" where
  "used sl = filter (\<lambda>s. unpack_key s \<noteq> 0) sl"

lemma masked_value_none: "key \<notin> unpack_key ` set sl \<Longrightarrow> masked_value key sl = 0"
  by (induction sl) (auto simp: masked_value_def match_mask_cases)

lemma masked_value_unique:
  assumes "distinct (map unpack_key (used sl))" "s \<in> set sl" "unpack_key s = key" "key \<noteq> 0"
  shows "masked_value key sl = unpack_val s"
  using assms
proof (induction sl)
  case (Cons a sl)
  show ?case
  proof (cases "unpack_key a = key")
    case True
    then have u: "used (a # sl) = a # used sl" using Cons.prems(4) by (simp add: used_def)
    then have "key \<notin> unpack_key ` set (used sl)" using Cons.prems(1) True by auto
    then have n: "key \<notin> unpack_key ` set sl" using Cons.prems(4) by (auto simp: used_def)
    then have "a = s" using Cons.prems(2,3) by auto
    then show ?thesis using masked_value_none[OF n] True by (simp add: masked_value_def match_mask_cases)
  next
    case False
    then have "masked_value key sl = unpack_val s" using Cons by (auto simp: used_def split: if_splits)
    then show ?thesis using False by (simp add: masked_value_def match_mask_cases)
  qed
qed simp

definition set_ok :: "nat \<Rightarrow> nat \<Rightarrow> slot list \<Rightarrow> nat \<Rightarrow> bool" where
  "set_ok kSets si sl h \<longleftrightarrow>
     length sl = kAssoc \<and> h < kAssoc \<and> distinct (map unpack_key (used sl)) \<and>
     list_all (\<lambda>s. if unpack_key s = 0 then unpack_val s = 0 else set_idx kSets (unpack_key s) = si) sl"

definition clock_ok :: "clock \<Rightarrow> bool" where
  "clock_ok c \<longleftrightarrow>
     0 < length (cc_sets c) \<and> length (cc_sets c) < 2 ^ 64 \<and> length (cc_hands c) = length (cc_sets c) \<and>
     (\<forall>si < length (cc_sets c). set_ok (length (cc_sets c)) si (cc_sets c ! si) (cc_hands c ! si))"

definition set_map :: "slot list \<Rightarrow> u64 \<Rightarrow> u64 option" where
  "set_map sl = map_of (map (\<lambda>s. (unpack_key s, unpack_val s)) (used sl))"

definition clock_map :: "clock \<Rightarrow> u64 \<Rightarrow> u64 option" where
  "clock_map c key = set_map (cc_sets c ! set_idx (length (cc_sets c)) key) key"

lemma set_idx_lt:
  assumes "0 < n" "n < 2 ^ 64"
  shows "set_idx n key < n"
proof -
  have "unat (k AND (of_nat n - 1)) < n" for k :: u64
  proof -
    have "k AND (of_nat n - 1) \<le> of_nat n - 1" by (rule word_and_le1)
    then have "unat (k AND (of_nat n - 1)) \<le> unat (of_nat n - 1 :: u64)" by (simp add: word_le_nat_alt)
    also have "unat (of_nat n - 1 :: u64) = n - 1"
    proof -
      have "(of_nat n - 1 :: u64) = of_nat (n - 1)" using assms(1) by (simp add: of_nat_diff)
      then show ?thesis using assms(2) by (simp add: unat_of_nat)
    qed
    finally show ?thesis using assms(1) by simp
  qed
  then show ?thesis by (simp add: set_idx_def Let_def)
qed

lemma set_map_None: "set_map sl key = None \<longleftrightarrow> key \<notin> unpack_key ` set (used sl)"
  by (force simp: set_map_def map_of_eq_None_iff)

lemma set_map_Some:
  assumes "distinct (map unpack_key (used sl))"
  shows "set_map sl key = Some v \<longleftrightarrow> (\<exists>s \<in> set (used sl). unpack_key s = key \<and> unpack_val s = v)"
proof -
  have "distinct (map fst (map (\<lambda>s. (unpack_key s, unpack_val s)) (used sl)))" using assms by (simp add: o_def)
  then show ?thesis unfolding set_map_def by (subst map_of_eq_Some_iff) auto
qed

lemma set_idx_cases: "key \<noteq> 0 \<Longrightarrow> key \<in> unpack_key ` set sl \<longleftrightarrow> key \<in> unpack_key ` set (used sl)"
  by (auto simp: used_def)

section \<open>One set\<close>

lemma option_eq_by_Some: "(\<And>v. x = Some v \<longleftrightarrow> y = Some v) \<Longrightarrow> x = y"
  by (cases x; cases y) auto

lemma hand_lt: "n AND (kAssoc - 1) < kAssoc"
  using take_bit_nat_less_exp[of 2 n] by (simp add: kAssoc_def take_bit_eq_mask mask_eq_exp_minus_1)

lemma used_split:
  assumes "i < length sl"
  shows "used sl = used (take i sl) @ used [sl ! i] @ used (drop (Suc i) sl)"
    "used (sl[i := y]) = used (take i sl) @ used [y] @ used (drop (Suc i) sl)"
proof -
  have "used sl = used (take i sl @ sl ! i # drop (Suc i) sl)" using id_take_nth_drop[OF assms] by simp
  then show "used sl = used (take i sl) @ used [sl ! i] @ used (drop (Suc i) sl)" by (simp add: used_def)
  show "used (sl[i := y]) = used (take i sl) @ used [y] @ used (drop (Suc i) sl)"
    by (simp add: upd_conv_take_nth_drop[OF assms] used_def)
qed

lemma set_keeps:
  assumes "set_ok n si sl h" "i < kAssoc" "h' < kAssoc"
    and y: "unpack_key y = unpack_key (sl ! i)" "unpack_val y = unpack_val (sl ! i)"
  shows "set_ok n si (sl[i := y]) h'" "set_map (sl[i := y]) = set_map sl"
proof -
  have len: "length sl = kAssoc" and all: "list_all (\<lambda>s. if unpack_key s = 0 then unpack_val s = 0 else set_idx n (unpack_key s) = si) sl"
    using assms(1) by (auto simp: set_ok_def)
  have i: "i < length sl" using assms(2) len by simp
  have m: "map f (used (sl[i := y])) = map f (used sl)" if "f y = f (sl ! i)" for f :: "slot \<Rightarrow> 'a"
    unfolding used_split[OF i] using y that by (simp add: used_def)
  show "set_map (sl[i := y]) = set_map sl" unfolding set_map_def by (subst m) (simp_all add: y)
  have "list_all (\<lambda>s. if unpack_key s = 0 then unpack_val s = 0 else set_idx n (unpack_key s) = si) (sl[i := y])"
    using all y i by (auto simp: list_all_length nth_list_update split: if_splits)
  moreover have "map unpack_key (used (sl[i := y])) = map unpack_key (used sl)" by (rule m) (simp add: y)
  ultimately show "set_ok n si (sl[i := y]) h'"
    using assms(1,3) by (simp add: set_ok_def)
qed

lemma set_replace:
  assumes "set_ok n si sl h" "i < kAssoc" "h' < kAssoc" "key \<noteq> 0" "key \<notin> unpack_key ` set sl"
    and y: "unpack_key y = key" "set_idx n key = si"
  shows "set_ok n si (sl[i := y]) h'"
    "set_map (sl[i := y]) = (if unpack_key (sl ! i) = 0 then set_map sl else (set_map sl)(unpack_key (sl ! i) := None))(key \<mapsto> unpack_val y)"
proof -
  let ?A = "used (take i sl)" and ?B = "used (drop (Suc i) sl)" and ?x = "sl ! i"
  have len: "length sl = kAssoc" and d: "distinct (map unpack_key (used sl))"
    and all: "list_all (\<lambda>s. if unpack_key s = 0 then unpack_val s = 0 else set_idx n (unpack_key s) = si) sl"
    using assms(1) by (auto simp: set_ok_def)
  have i: "i < length sl" using assms(2) len by simp
  note sp = used_split[OF i]
  have absent: "key \<notin> unpack_key ` set (used sl)" using assms(5) by (auto simp: used_def)
  have u: "used (sl[i := y]) = ?A @ y # ?B" using sp(2) y assms(4) by (simp add: used_def)
  have d': "distinct (map unpack_key (used (sl[i := y])))"
    using d absent y unfolding u sp(1) by auto
  have "list_all (\<lambda>s. if unpack_key s = 0 then unpack_val s = 0 else set_idx n (unpack_key s) = si) (sl[i := y])"
    using all y assms(4) i by (auto simp: list_all_length nth_list_update)
  then show "set_ok n si (sl[i := y]) h'" using d' len assms(3) by (simp add: set_ok_def)
  have nx: "unpack_key ?x \<noteq> 0 \<Longrightarrow> s \<in> set (?A @ ?B) \<Longrightarrow> unpack_key s \<noteq> unpack_key ?x" for s
    using d unfolding sp(1) by (auto simp: used_def image_iff)
  show "set_map (sl[i := y]) = (if unpack_key ?x = 0 then set_map sl else (set_map sl)(unpack_key ?x := None))(key \<mapsto> unpack_val y)"
  proof (rule ext)
    fix k
    have 1: "set_map (sl[i := y]) k = Some v \<longleftrightarrow> (k = key \<and> v = unpack_val y) \<or> (\<exists>s \<in> set (?A @ ?B). unpack_key s = k \<and> unpack_val s = v)" for v
      unfolding set_map_Some[OF d'] u using y(1) by auto
    have 2: "set_map sl k = Some v \<longleftrightarrow> (\<exists>s \<in> set (?A @ used [?x] @ ?B). unpack_key s = k \<and> unpack_val s = v)" for v
      unfolding set_map_Some[OF d] sp(1) by simp
    have 3: "s \<in> set (?A @ ?B) \<Longrightarrow> unpack_key s \<noteq> key" for s using absent unfolding sp(1) by auto
    have "set_map (sl[i := y]) k = Some v \<longleftrightarrow>
        ((if unpack_key ?x = 0 then set_map sl else (set_map sl)(unpack_key ?x := None))(key \<mapsto> unpack_val y)) k = Some v" for v
    proof (cases "unpack_key ?x = 0")
      case True
      then show ?thesis using 1 2 3 by (auto simp: used_def)
    next
      case False
      then have "used [?x] = [?x]" by (simp add: used_def)
      then show ?thesis using 1 2 3 nx[OF False] False by auto
    qed
    then show "set_map (sl[i := y]) k = ((if unpack_key ?x = 0 then set_map sl else (set_map sl)(unpack_key ?x := None))(key \<mapsto> unpack_val y)) k"
      by (rule option_eq_by_Some)
  qed
qed

lemma find_Some_mem: "List.find P xs = Some x \<Longrightarrow> x \<in> set xs \<and> P x"
  by (auto simp: find_Some_iff)

lemma clock_scan_lt: "clock_scan sl h = Some i \<Longrightarrow> i < kAssoc"
  using hand_lt by (fastforce simp: clock_scan_def dest!: find_Some_mem)

text \<open>What \<open>put\<close> of a key that the set does not hold does: the key is added, at the price of at most one
  other key, whose value is handed to the callback.\<close>

definition put_result :: "(u64 \<Rightarrow> u64 option) \<Rightarrow> u64 \<Rightarrow> u64 \<Rightarrow> u64 list \<Rightarrow> (u64 \<Rightarrow> u64 option) \<Rightarrow> bool" where
  "put_result f key v ev g \<longleftrightarrow>
     (ev = [] \<and> g = f(key \<mapsto> v)) \<or> (\<exists>k w. k \<noteq> key \<and> f k = Some w \<and> ev = [w] \<and> g = f(k := None, key \<mapsto> v))"

lemma set_put_absent:
  assumes "set_ok n si sl h" "key \<noteq> 0" "key \<notin> unpack_key ` set sl" "set_idx n key = si"
    and "unpack_key desired = key"
  shows "\<exists>sl' h' ev. set_put key desired sl h = Some (sl', h', ev) \<and> set_ok n si sl' h' \<and>
    put_result (set_map sl) key (unpack_val desired) ev (set_map sl')"
  using assms
proof (induction key desired sl h rule: set_put.induct)
  case (1 key desired sl h)
  have len: "length sl = kAssoc" and h: "h < kAssoc" using "1.prems"(1) by (auto simp: set_ok_def)
  have any: "any_match key sl = 0" by (rule no_match[OF "1.prems"(3)])
  note unf = set_put.simps[of key desired sl h, unfolded Let_def any, simplified]
  note rep = set_replace[OF "1.prems"(1) _ _ "1.prems"(2,3,5,4)]
  show ?case
  proof (cases "index_of 0 sl")
    case (Some i)
    then have i: "i < kAssoc" "sl ! i = 0" using len index_of_Some by fastforce+
    show ?thesis
      using rep[OF i(1) h] i(2) unf Some by (auto simp: put_result_def)
  next
    case None
    show ?thesis
    proof (cases "clock_scan sl h")
      case (Some i)
      have i: "i < kAssoc" by (rule clock_scan_lt[OF Some])
      note r = rep[OF i hand_lt[of "i + 1"]]
      have "set_map sl (unpack_key (sl ! i)) = Some (unpack_val (sl ! i))" if "unpack_key (sl ! i) \<noteq> 0"
        using "1.prems"(1) i that len nth_mem[of i sl] by (force simp: set_ok_def set_map_Some used_def)
      moreover have "unpack_key (sl ! i) \<noteq> key" using "1.prems"(3) i len by (auto simp: image_iff)
      ultimately have "put_result (set_map sl) key (unpack_val desired)
          (if unpack_key (sl ! i) \<noteq> 0 then [unpack_val (sl ! i)] else []) (set_map (sl[i := desired]))"
        using r(2) by (auto simp: put_result_def)
      then show ?thesis using unf None Some r(1) by simp
    next
      case scan: None
      let ?sl = "sl[h := clear_ref (sl ! h)]" and ?h = "(h + 1) AND (kAssoc - 1)"
      have k: "set_ok n si ?sl ?h" "set_map ?sl = set_map sl"
        using set_keeps[OF "1.prems"(1) h hand_lt[of "h + 1"], of "clear_ref (sl ! h)"] by simp_all
      have a: "key \<notin> unpack_key ` set ?sl"
        using "1.prems"(3) h len by (auto simp: image_iff dest!: set_update_subset_insert[THEN subsetD])
      have "\<exists>sl' h' ev. set_put key desired ?sl ?h = Some (sl', h', ev) \<and> set_ok n si sl' h' \<and>
          put_result (set_map ?sl) key (unpack_val desired) ev (set_map sl')"
        by (rule "1.IH"[OF refl _ None scan]) (use any h len k(1) a "1.prems" in simp_all)
      then show ?thesis using unf None scan h len k(2) by simp
    qed
  qed
qed

lemma set_get_ok:
  assumes "set_ok n si sl h" "key \<noteq> 0"
  shows "fst (set_get key sl) = set_map sl key" "set_ok n si (snd (set_get key sl)) h"
    "set_map (snd (set_get key sl)) = set_map sl"
proof -
  have d: "distinct (map unpack_key (used sl))" and h: "h < kAssoc" using assms(1) by (auto simp: set_ok_def)
  have 1: "fst (set_get key sl) = set_map sl key \<and> set_ok n si (snd (set_get key sl)) h \<and> set_map (snd (set_get key sl)) = set_map sl"
  proof (cases "key \<in> unpack_key ` set sl")
    case True
    then obtain s where s: "s \<in> set sl" "unpack_key s = key" by auto
    have m: "any_match key sl = - 1" using True by (simp add: any_match_eq)
    have "set_map sl key = Some (unpack_val s)" using s assms(2) d by (auto simp: set_map_Some used_def)
    moreover have "set_get key sl = (Some (unpack_val s), sl[0 := set_ref (sl ! 0)])"
      using masked_value_unique[OF d s assms(2)] by (simp add: set_get_def m)
    ultimately show ?thesis
      using set_keeps[OF assms(1) _ h, of 0 "set_ref (sl ! 0)"] by (simp add: kAssoc_def)
  next
    case False
    then have "set_map sl key = None" by (auto simp: set_map_None used_def)
    then show ?thesis using assms(1) False by (simp add: set_get_def no_match)
  qed
  then show "fst (set_get key sl) = set_map sl key" "set_ok n si (snd (set_get key sl)) h"
    "set_map (snd (set_get key sl)) = set_map sl" by auto
qed

section \<open>The whole cache\<close>

lemma clock_okD:
  assumes "clock_ok c"
  shows "set_idx (length (cc_sets c)) key < length (cc_sets c)"
    "set_ok (length (cc_sets c)) (set_idx (length (cc_sets c)) key) (cc_sets c ! set_idx (length (cc_sets c)) key)
       (cc_hands c ! set_idx (length (cc_sets c)) key)"
  using assms set_idx_lt by (auto simp: clock_ok_def)

text \<open>A set replaced by a set with another content changes the map at the keys of that set only.\<close>

lemma clock_update:
  assumes c: "clock_ok c" and si: "si < length (cc_sets c)" and ok: "set_ok (length (cc_sets c)) si sl h"
    and c': "c' = c\<lparr>cc_sets := (cc_sets c)[si := sl], cc_hands := (cc_hands c)[si := h]\<rparr>"
  shows "clock_ok c'" "clock_map c' k = (if set_idx (length (cc_sets c)) k = si then set_map sl k else clock_map c k)"
proof -
  show "clock_ok c'"
    using c ok si by (auto simp: clock_ok_def c' nth_list_update)
  show "clock_map c' k = (if set_idx (length (cc_sets c)) k = si then set_map sl k else clock_map c k)"
    using si by (simp add: clock_map_def c')
qed

lemma set_map_idx: "set_ok n si sl h \<Longrightarrow> set_map sl k = Some v \<Longrightarrow> set_idx n k = si"
  by (auto simp: set_ok_def set_map_Some used_def list_all_iff)

lemma clock_get_facts:
  assumes "clock_ok c" "key \<noteq> 0"
  shows "fst (clock_get key c) = clock_map c key" "clock_ok (snd (clock_get key c))"
    "clock_map (snd (clock_get key c)) = clock_map c"
proof -
  let ?si = "set_idx (length (cc_sets c)) key"
  note d = clock_okD[OF assms(1), where key = key]
  note g = set_get_ok[OF d(2) assms(2)]
  show "fst (clock_get key c) = clock_map c key"
    using g(1) by (simp add: clock_get_def Let_def clock_map_def case_prod_beta)
  have e: "snd (clock_get key c) = c\<lparr>cc_sets := (cc_sets c)[?si := snd (set_get key (cc_sets c ! ?si))],
      cc_hands := (cc_hands c)[?si := cc_hands c ! ?si]\<rparr>"
    by (simp add: clock_get_def Let_def case_prod_beta)
  note u = clock_update[OF assms(1) d(1) g(2) e]
  show "clock_ok (snd (clock_get key c))" by (rule u(1))
  show "clock_map (snd (clock_get key c)) = clock_map c"
    by (rule ext) (simp add: u(2) g(3), simp add: clock_map_def)
qed

lemma clock_put_facts:
  assumes "clock_ok c" "key \<noteq> 0" "clock_map c key = None" "\<not> bit v 63"
  obtains c' ev where "clock_put key v c = Some (c', ev)" "clock_ok c'" "put_result (clock_map c) key v ev (clock_map c')"
proof -
  let ?n = "length (cc_sets c)" let ?si = "set_idx ?n key" let ?sl = "cc_sets c ! ?si"
  note d = clock_okD[OF assms(1), where key = key]
  have abs: "key \<notin> unpack_key ` set ?sl"
    using assms(2,3) by (auto simp: clock_map_def set_map_None used_def)
  obtain sl' h' ev where p: "set_put key (pack_slot key v) ?sl (cc_hands c ! ?si) = Some (sl', h', ev)"
    "set_ok ?n ?si sl' h'" "put_result (set_map ?sl) key v ev (set_map sl')"
    using set_put_absent[OF d(2) assms(2) abs refl, of "pack_slot key v"] assms(4) by (auto simp: unpack_val_pack)
  let ?c = "c\<lparr>cc_sets := (cc_sets c)[?si := sl'], cc_hands := (cc_hands c)[?si := h']\<rparr>"
  note u = clock_update[OF assms(1) d(1) p(2) refl]
  have other: "set_map sl' k = None \<and> set_map ?sl k = None" if "set_idx ?n k \<noteq> ?si" for k
    using set_map_idx[OF p(2), of k] set_map_idx[OF d(2), of k] that
    by (meson not_None_eq)
  have "put_result (clock_map c) key v ev (clock_map ?c)"
  proof (cases "ev = []")
    case True
    then have "set_map sl' = (set_map ?sl)(key \<mapsto> v)" using p(3) by (auto simp: put_result_def)
    then have "clock_map ?c = (clock_map c)(key \<mapsto> v)" by (intro ext) (simp add: u(2), simp add: clock_map_def)
    then show ?thesis using True by (simp add: put_result_def)
  next
    case False
    then obtain k w where k: "k \<noteq> key" "set_map ?sl k = Some w" "ev = [w]" "set_map sl' = (set_map ?sl)(k := None, key \<mapsto> v)"
      using p(3) by (auto simp: put_result_def)
    have ki: "set_idx ?n k = ?si" using other[of k] k(2) by auto
    have "clock_map ?c = (clock_map c)(k := None, key \<mapsto> v)" by (intro ext) (simp add: u(2) k(4) ki, simp add: clock_map_def)
    moreover have "clock_map c k = Some w" by (simp add: clock_map_def ki k(2))
    ultimately show ?thesis using k(1,3) by (auto simp: put_result_def)
  qed
  then show thesis using that[of ?c ev] u(1) p(1) by (simp add: clock_put_def Let_def)
qed

section \<open>No value is lost\<close>

text \<open>Independently of the keys: the values in the slots and the values handed to the callback are together
  the values that were put in. Null values do not count, the callback ignores them. This holds in
  every state with four slots per set, also when a key occurs in several slots.\<close>

definition nonnull :: "u64 list \<Rightarrow> u64 multiset" where
  "nonnull vs = filter_mset (\<lambda>v. v \<noteq> 0) (mset vs)"

lemma nonnull_simps [simp]: "nonnull [] = {#}" "nonnull (v # vs) = (if v = 0 then nonnull vs else add_mset v (nonnull vs))"
  "nonnull (vs @ ws) = nonnull vs + nonnull ws"
  by (simp_all add: nonnull_def)

definition set_shape :: "slot list \<Rightarrow> nat \<Rightarrow> bool" where
  "set_shape sl h \<longleftrightarrow> length sl = kAssoc \<and> h < kAssoc \<and> list_all (\<lambda>s. unpack_key s = 0 \<longrightarrow> unpack_val s = 0) sl"

definition clock_shape :: "clock \<Rightarrow> bool" where
  "clock_shape c \<longleftrightarrow> 0 < length (cc_sets c) \<and> length (cc_sets c) < 2 ^ 64 \<and> length (cc_hands c) = length (cc_sets c) \<and>
     (\<forall>si < length (cc_sets c). set_shape (cc_sets c ! si) (cc_hands c ! si))"

definition held :: "slot list \<Rightarrow> u64 multiset" where
  "held sl = nonnull (map unpack_val sl)"

definition clock_held :: "clock \<Rightarrow> u64 multiset" where
  "clock_held c = nonnull (map unpack_val (concat (cc_sets c)))"

lemma held_update: "i < length sl \<Longrightarrow> held (sl[i := y]) + nonnull [unpack_val (sl ! i)] = held sl + nonnull [unpack_val y]"
proof -
  assume i: "i < length sl"
  have "held sl = held (take i sl @ sl ! i # drop (Suc i) sl)" using id_take_nth_drop[OF i] by simp
  then show ?thesis by (simp add: upd_conv_take_nth_drop[OF i] held_def)
qed

lemma shape_update: "set_shape sl h \<Longrightarrow> h' < kAssoc \<Longrightarrow> (unpack_key y = 0 \<longrightarrow> unpack_val y = 0) \<Longrightarrow> set_shape (sl[i := y]) h'"
  by (auto simp: set_shape_def list_all_iff dest: set_update_subset_insert[THEN subsetD])

lemma shape_nth: "set_shape sl h \<Longrightarrow> i < kAssoc \<Longrightarrow> unpack_key (sl ! i) = 0 \<Longrightarrow> unpack_val (sl ! i) = 0"
  by (simp add: set_shape_def list_all_length)

lemma shape_clear: "set_shape sl h \<Longrightarrow> i < kAssoc \<Longrightarrow> h' < kAssoc \<Longrightarrow> set_shape (sl[i := clear_ref (sl ! i)]) h'"
  by (rule shape_update) (use shape_nth in auto)

lemma set_put_held:
  assumes "set_shape sl h" "unpack_key desired \<noteq> 0"
  shows "\<exists>sl' h' ev. set_put key desired sl h = Some (sl', h', ev) \<and> set_shape sl' h' \<and>
    held sl' + nonnull ev = held sl + nonnull [unpack_val desired]"
  using assms
proof (induction key desired sl h rule: set_put.induct)
  case (1 key desired sl h)
  have len: "length sl = kAssoc" and h: "h < kAssoc" using "1.prems"(1) by (auto simp: set_shape_def)
  note unf = set_put.simps[of key desired sl h, unfolded Let_def]
  have up: "set_shape (sl[i := desired]) h'" if "h' < kAssoc" for i h'
    using shape_update[OF "1.prems"(1) that] "1.prems"(2) by blast
  note hu = held_update[of _ sl desired, unfolded len]
  show ?case
  proof (cases "any_match key sl = 0")
    case False
    have "0 < kAssoc" by (simp add: kAssoc_def)
    then show ?thesis using unf False up[OF h] hu[of 0] by (simp add: ctz_any_match)
  next
    case any: True
    show ?thesis
    proof (cases "index_of 0 sl")
      case (Some i)
      then have "i < kAssoc" "sl ! i = 0" using len index_of_Some by fastforce+
      then show ?thesis using unf any Some up[OF h] hu[of i] by simp
    next
      case None
      show ?thesis
      proof (cases "clock_scan sl h")
        case (Some i)
        have i: "i < kAssoc" by (rule clock_scan_lt[OF Some])
        have ev: "nonnull (if unpack_key (sl ! i) \<noteq> 0 then [unpack_val (sl ! i)] else []) = nonnull [unpack_val (sl ! i)]"
          using shape_nth[OF "1.prems"(1) i] by auto
        have "set_put key desired sl h = Some (sl[i := desired], (i + 1) AND (kAssoc - 1),
            if unpack_key (sl ! i) \<noteq> 0 then [unpack_val (sl ! i)] else [])"
          using unf any None Some by simp
        then show ?thesis using up[OF hand_lt] hu[OF i] ev by metis
      next
        case scan: None
        let ?sl = "sl[h := clear_ref (sl ! h)]" and ?h = "(h + 1) AND (kAssoc - 1)"
        have s: "set_shape ?sl ?h" by (rule shape_clear[OF "1.prems"(1) h hand_lt])
        have hs: "held ?sl = held sl" using held_update[of h sl "clear_ref (sl ! h)"] h len by simp
        have "\<exists>sl' h' ev. set_put key desired ?sl ?h = Some (sl', h', ev) \<and> set_shape sl' h' \<and>
            held sl' + nonnull ev = held ?sl + nonnull [unpack_val desired]"
          by (rule "1.IH"[OF refl _ None scan _ s "1.prems"(2)]) (use any h len in simp_all)
        then show ?thesis using unf any None scan h len hs by simp
      qed
    qed
  qed
qed

lemma clock_shapeD:
  assumes "clock_shape c"
  shows "set_idx (length (cc_sets c)) key < length (cc_sets c)"
    "set_shape (cc_sets c ! set_idx (length (cc_sets c)) key) (cc_hands c ! set_idx (length (cc_sets c)) key)"
  using assms set_idx_lt by (auto simp: clock_shape_def)

lemma clock_held_update:
  assumes "clock_shape c" "si < length (cc_sets c)" "set_shape sl h"
    and c': "c' = c\<lparr>cc_sets := (cc_sets c)[si := sl], cc_hands := (cc_hands c)[si := h]\<rparr>"
  shows "clock_shape c'" "clock_held c' + held (cc_sets c ! si) = clock_held c + held sl"
proof -
  show "clock_shape c'" using assms(1-3) by (auto simp: clock_shape_def c' nth_list_update)
  have "clock_held c = nonnull (map unpack_val (concat (take si (cc_sets c) @ cc_sets c ! si # drop (Suc si) (cc_sets c))))"
    using id_take_nth_drop[OF assms(2)] by (simp add: clock_held_def)
  then show "clock_held c' + held (cc_sets c ! si) = clock_held c + held sl"
    by (simp add: clock_held_def c' upd_conv_take_nth_drop[OF assms(2)] held_def)
qed

lemma exchange: "(a :: 'a multiset) + s = b + s' \<Longrightarrow> s' + e = s + n \<Longrightarrow> a + e = b + n"
proof -
  assume 1: "a + s = b + s'" and 2: "s' + e = s + n"
  have "(a + e) + s = (a + s) + e" by (simp add: ac_simps)
  also have "\<dots> = b + (s' + e)" using 1 by (simp add: ac_simps)
  also have "\<dots> = (b + n) + s" using 2 by (simp add: ac_simps)
  finally show ?thesis by simp
qed

lemma clock_put_held:
  assumes "clock_shape c" "key \<noteq> 0" "\<not> bit v 63"
  obtains c' ev where "clock_put key v c = Some (c', ev)" "clock_shape c'" "clock_held c' + nonnull ev = clock_held c + nonnull [v]"
proof -
  let ?si = "set_idx (length (cc_sets c)) key" let ?sl = "cc_sets c ! ?si"
  note d = clock_shapeD[OF assms(1), where key = key]
  obtain sl' h' ev where p: "set_put key (pack_slot key v) ?sl (cc_hands c ! ?si) = Some (sl', h', ev)" "set_shape sl' h'"
    "held sl' + nonnull ev = held ?sl + nonnull [v]"
    using set_put_held[OF d(2), of "pack_slot key v" key] assms(2,3) by (auto simp: unpack_val_pack)
  note u = clock_held_update[OF assms(1) d(1) p(2) refl]
  let ?c = "c\<lparr>cc_sets := (cc_sets c)[?si := sl'], cc_hands := (cc_hands c)[?si := h']\<rparr>"
  have "clock_held ?c + nonnull ev = clock_held c + nonnull [v]" by (rule exchange[OF u(2) p(3)])
  then show thesis using that[of ?c ev] u(1) p(1) by (simp add: clock_put_def Let_def)
qed

lemma clock_get_held:
  assumes "clock_shape c"
  shows "clock_shape (snd (clock_get key c))" "clock_held (snd (clock_get key c)) = clock_held c"
proof -
  let ?si = "set_idx (length (cc_sets c)) key" let ?sl = "cc_sets c ! ?si"
  note d = clock_shapeD[OF assms(1), where key = key]
  have ne: "?sl \<noteq> []" using d(2) by (auto simp: set_shape_def kAssoc_def)
  have g: "snd (set_get key ?sl) = ?sl \<or> snd (set_get key ?sl) = ?sl[0 := set_ref (?sl ! 0)]"
    by (auto simp: set_get_def Let_def ctz_any_match)
  have "set_shape (?sl[0 := set_ref (?sl ! 0)]) (cc_hands c ! ?si)"
    by (rule shape_update[OF d(2)]) (use d(2) shape_nth[OF d(2), of 0] in \<open>auto simp: set_shape_def kAssoc_def\<close>)
  moreover have "held (?sl[0 := set_ref (?sl ! 0)]) = held ?sl"
    using held_update[of 0 ?sl "set_ref (?sl ! 0)"] ne by simp
  ultimately have s: "set_shape (snd (set_get key ?sl)) (cc_hands c ! ?si)" "held (snd (set_get key ?sl)) = held ?sl"
    using g d(2) by auto
  have e: "snd (clock_get key c) = c\<lparr>cc_sets := (cc_sets c)[?si := snd (set_get key ?sl)],
      cc_hands := (cc_hands c)[?si := cc_hands c ! ?si]\<rparr>"
    by (simp add: clock_get_def Let_def case_prod_beta)
  note u = clock_held_update[OF assms d(1) s(1) e]
  show "clock_shape (snd (clock_get key c))" by (rule u(1))
  show "clock_held (snd (clock_get key c)) = clock_held c" using u(2) s(2) by simp
qed

lemma clock_erase_held:
  assumes "clock_shape c"
  shows "clock_shape (fst (clock_erase key c))"
    "clock_held (fst (clock_erase key c)) + nonnull (snd (clock_erase key c)) = clock_held c"
proof -
  let ?si = "set_idx (length (cc_sets c)) key" let ?sl = "cc_sets c ! ?si"
  note d = clock_shapeD[OF assms(1), where key = key]
  have "clock_shape (fst (clock_erase key c)) \<and>
    clock_held (fst (clock_erase key c)) + nonnull (snd (clock_erase key c)) = clock_held c"
  proof (cases "any_match key ?sl = 0")
    case True
    then show ?thesis using assms by (simp add: clock_erase_def Let_def)
  next
    case False
    have e: "fst (clock_erase key c) = c\<lparr>cc_sets := (cc_sets c)[?si := ?sl[0 := 0]], cc_hands := (cc_hands c)[?si := cc_hands c ! ?si]\<rparr>"
      "snd (clock_erase key c) = [unpack_val (?sl ! 0)]"
      using False by (simp_all add: clock_erase_def Let_def ctz_any_match)
    have s: "set_shape (?sl[0 := 0]) (cc_hands c ! ?si)"
      by (rule shape_update[OF d(2)]) (use d(2) in \<open>auto simp: set_shape_def\<close>)
    have "held (?sl[0 := 0]) + nonnull [unpack_val (?sl ! 0)] = held ?sl"
      using held_update[of 0 ?sl 0] d(2) by (cases "?sl = []") (auto simp: set_shape_def kAssoc_def)
    then have x: "held (?sl[0 := 0]) + nonnull [unpack_val (?sl ! 0)] = held ?sl + {#}" by simp
    note u = clock_held_update[OF assms d(1) s e(1)]
    show ?thesis using u(1) exchange[OF u(2) x] e(2) by simp
  qed
  then show "clock_shape (fst (clock_erase key c))"
    "clock_held (fst (clock_erase key c)) + nonnull (snd (clock_erase key c)) = clock_held c" by auto
qed

lemma clock_clear_held:
  assumes "clock_shape c"
  shows "clock_shape (fst (clock_clear c))" "clock_held (fst (clock_clear c)) = {#}"
    "nonnull (snd (clock_clear c)) = clock_held c"
proof -
  have all: "\<forall>sl \<in> set (cc_sets c). \<forall>s \<in> set sl. unpack_key s = 0 \<longrightarrow> unpack_val s = 0"
  proof
    fix sl assume "sl \<in> set (cc_sets c)"
    then obtain si where "si < length (cc_sets c)" "sl = cc_sets c ! si" by (auto simp: in_set_conv_nth)
    then show "\<forall>s \<in> set sl. unpack_key s = 0 \<longrightarrow> unpack_val s = 0"
      using assms by (simp add: clock_shape_def set_shape_def list_all_iff)
  qed
  have h: "held (map (fst \<circ> clear_slot) sl) = {#} \<and> nonnull (concat (map (snd \<circ> clear_slot) sl)) = held sl"
    if "\<forall>s \<in> set sl. unpack_key s = 0 \<longrightarrow> unpack_val s = 0" for sl
    using that by (induction sl) (auto simp: held_def clear_slot_def)
  have "nonnull (map unpack_val (concat (map (map (fst \<circ> clear_slot)) ss))) = {#} \<and>
      nonnull (concat (map (\<lambda>sl. concat (map (snd \<circ> clear_slot) sl)) ss)) = nonnull (map unpack_val (concat ss))"
    if "\<forall>sl \<in> set ss. \<forall>s \<in> set sl. unpack_key s = 0 \<longrightarrow> unpack_val s = 0" for ss
    using that h[unfolded held_def] by (induction ss) (auto simp: map_concat)
  from this[OF all] show "clock_held (fst (clock_clear c)) = {#}" "nonnull (snd (clock_clear c)) = clock_held c"
    by (simp_all add: clock_clear_def clock_held_def)
  have "set_shape (map (fst \<circ> clear_slot) sl) hd" if "set_shape sl hd" for sl hd
    using that by (auto simp: set_shape_def list_all_iff clear_slot_def)
  then show "clock_shape (fst (clock_clear c))" using assms by (simp add: clock_shape_def clock_clear_def)
qed

section \<open>Properties\<close>

lemma clock_new_ok:
  assumes "0 < n" "n < 2 ^ 64"
  shows "clock_ok (clock_new n)" "clock_shape (clock_new n)" "clock_map (clock_new n) k = None" "clock_held (clock_new n) = {#}"
proof -
  have "set_map (replicate kAssoc 0) k = None" by (simp add: set_map_None used_def)
  then show "clock_map (clock_new n) k = None" using set_idx_lt[OF assms] by (simp add: clock_map_def clock_new_def)
  show "clock_ok (clock_new n)" "clock_shape (clock_new n)"
    using assms by (auto simp: clock_ok_def clock_shape_def set_ok_def set_shape_def clock_new_def used_def list_all_iff kAssoc_def)
  have "nonnull (map unpack_val (concat (replicate m (replicate kAssoc 0)))) = {#}" for m
    by (induction m) (auto simp: kAssoc_def eval_nat_numeral)
  then show "clock_held (clock_new n) = {#}" by (simp add: clock_held_def clock_new_def)
qed

lemma clock_ok_shape: "clock_ok c \<Longrightarrow> clock_shape c"
  by (auto simp: clock_ok_def clock_shape_def set_ok_def set_shape_def list_all_iff split: if_splits)

text \<open>C2: the cache is a map that may forget: a lookup returns what the abstract map holds and changes nothing
  but reference bits; inserting a key that is not cached always succeeds (the clock loop ends), the
  key is found afterwards with its value, and at most one other key is dropped, whose value is the one
  the eviction callback gets. Keys are not 0 and pointers have a clear top bit.\<close>

theorem clock_refines_map:
  assumes "clock_ok c" "key \<noteq> 0" "clock_map c key = None" "\<not> bit v 63" "k \<noteq> 0"
  shows "\<exists>c' ev. clock_put key v c = Some (c', ev) \<and> clock_ok c' \<and> put_result (clock_map c) key v ev (clock_map c') \<and>
    fst (clock_get k c') = clock_map c' k \<and> clock_ok (snd (clock_get k c')) \<and> clock_map (snd (clock_get k c')) = clock_map c'"
  by (rule clock_put_facts[OF assms(1-4)]) (use clock_get_facts[OF _ assms(5)] in blast)

theorem clock_refines_map_witness:
  "\<exists>c' ev. clock_put 5 1000 (clock_new 4) = Some (c', ev) \<and> clock_ok c' \<and>
    put_result (clock_map (clock_new 4)) 5 1000 ev (clock_map c') \<and>
    fst (clock_get 5 c') = clock_map c' 5 \<and> clock_ok (snd (clock_get 5 c')) \<and> clock_map (snd (clock_get 5 c')) = clock_map c'"
  by (rule clock_refines_map) (simp_all add: clock_new_ok)

lemma set_put_present: "key \<in> unpack_key ` set sl \<Longrightarrow> set_put key d sl h = Some (sl[0 := d], h, [unpack_val (sl ! 0)])"
  by (simp add: set_put.simps any_match_eq)

text \<open>C38: the slot index computed from the match masks is always 0. Inserting a key that is cached in
  another slot than the first of its set overwrites the first slot: the key stored there is lost and
  its value, not the replaced one, goes to the callback; the key itself is then in two slots and a
  lookup returns the bitwise or of the old and the new pointer. Erasing such a key removes the key
  of the first slot and keeps the erased one.\<close>

theorem clock_put_hits_wrong_slot:
  assumes "clock_ok c" "key \<noteq> 0" "clock_map c key = Some w" "\<not> bit v 63"
    and k0: "k0 = unpack_key (cc_sets c ! set_idx (length (cc_sets c)) key ! 0)" "k0 \<noteq> 0" "k0 \<noteq> key"
  shows "\<exists>c' w0. clock_put key v c = Some (c', [w0]) \<and> clock_map c k0 = Some w0 \<and>
    fst (clock_get k0 c') = None \<and> fst (clock_get key c') = Some (v OR w) \<and>
    clock_erase key c = (fst (clock_erase key c), [w0]) \<and>
    fst (clock_get k0 (fst (clock_erase key c))) = None \<and> fst (clock_get key (fst (clock_erase key c))) = Some w"
proof -
  let ?n = "length (cc_sets c)" let ?si = "set_idx ?n key" let ?sl = "cc_sets c ! ?si" let ?d = "pack_slot key v"
  note d = clock_okD[OF assms(1), where key = key]
  have len: "length ?sl = kAssoc" and dist: "distinct (map unpack_key (used ?sl))" using d(2) by (auto simp: set_ok_def)
  then obtain s0 tl where sl: "?sl = s0 # tl" by (cases ?sl) (auto simp: kAssoc_def)
  have k0': "unpack_key s0 = k0" using k0(1) sl by simp
  have u: "used ?sl = s0 # used tl" using sl k0' k0(2) by (simp add: used_def)
  have k0i: "set_idx ?n k0 = ?si" using d(2) sl k0' k0(2) by (simp add: set_ok_def)
  have w: "set_map ?sl key = Some w" using assms(3) by (simp add: clock_map_def)
  then obtain s where s: "s \<in> set (used ?sl)" "unpack_key s = key" "unpack_val s = w" using dist by (auto simp: set_map_Some)
  then have st: "s \<in> set tl" using s(1,2) k0' k0(3) unfolding sl by (auto simp: used_def split: if_splits)
  have mtl: "masked_value key tl = w"
    using masked_value_unique[of tl s key] dist st s(2,3) assms(2) unfolding u by simp
  have ptl: "key \<in> unpack_key ` set tl" "k0 \<notin> unpack_key ` set tl"
    using st s(2) dist k0' k0(2) unfolding u by (auto simp: used_def image_iff)
  have present: "key \<in> unpack_key ` set ?sl" using st sl s(2) by auto
  let ?c = "c\<lparr>cc_sets := (cc_sets c)[?si := ?d # tl], cc_hands := (cc_hands c)[?si := cc_hands c ! ?si]\<rparr>"
  have p: "clock_put key v c = Some (?c, [unpack_val s0])"
    using set_put_present[OF present] sl by (simp add: clock_put_def Let_def)
  have m0: "clock_map c k0 = Some (unpack_val s0)"
    by (simp add: clock_map_def k0i set_map_def u k0')
  have g: "fst (clock_get k c') = fst (set_get k (x # tl))"
    if "cc_sets c' = (cc_sets c)[?si := x # tl]" "set_idx ?n k = ?si" for k c' x
    using that d(1) by (simp add: clock_get_def Let_def case_prod_beta)
  have any: "any_match key (x # tl) = - 1" for x using ptl(1) by (simp add: any_match_eq)
  have mv: "masked_value key (x # tl) = (unpack_val x AND match_mask key x) OR w" for x
    using mtl by (simp add: masked_value_def)
  have get_key: "fst (set_get key (?d # tl)) = Some (v OR w)" "fst (set_get key (0 # tl)) = Some w"
    using assms(2,4) by (simp_all add: set_get_def any mv match_mask_cases unpack_val_pack)
  have get_k0: "fst (set_get k0 (?d # tl)) = None" "fst (set_get k0 (0 # tl)) = None"
    using ptl(2) k0(2,3) by (auto simp: set_get_def any_match_eq)
  have e: "clock_erase key c = (c\<lparr>cc_sets := (cc_sets c)[?si := 0 # tl]\<rparr>, [unpack_val s0])"
    using present sl by (simp add: clock_erase_def Let_def any_match_eq)
  show ?thesis
    using p m0 e get_key get_k0 g[of ?c ?d key] g[of ?c ?d k0] k0i
      g[of "c\<lparr>cc_sets := (cc_sets c)[?si := 0 # tl]\<rparr>" 0 key] g[of "c\<lparr>cc_sets := (cc_sets c)[?si := 0 # tl]\<rparr>" 0 k0]
    by simp
qed

definition two_keys :: clock where
  "two_keys = \<lparr>cc_sets = [[pack_slot 5 1024, pack_slot 6 2048, 0, 0]], cc_hands = [0]\<rparr>"

lemma two_keys_ok: "clock_ok two_keys" "clock_map two_keys 6 = Some 2048" "unpack_key (cc_sets two_keys ! 0 ! 0) = 5"
proof -
  have v: "unpack_val (pack_slot 5 1024) = 1024" "unpack_val (pack_slot 6 2048) = 2048" by (simp_all add: unpack_val_pack)
  have i: "set_idx 1 k = 0" for k by (simp add: set_idx_def Let_def)
  show "clock_ok two_keys" "clock_map two_keys 6 = Some 2048" "unpack_key (cc_sets two_keys ! 0 ! 0) = 5"
    using i[of 5] i[of 6] by (simp_all add: two_keys_def clock_ok_def set_ok_def used_def kAssoc_def clock_map_def set_map_def v)
qed

theorem clock_put_hits_wrong_slot_witness:
  "\<exists>c' w0. clock_put 6 4096 two_keys = Some (c', [w0]) \<and> clock_map two_keys 5 = Some w0 \<and>
    fst (clock_get 5 c') = None \<and> fst (clock_get 6 c') = Some (4096 OR 2048) \<and>
    clock_erase 6 two_keys = (fst (clock_erase 6 two_keys), [w0]) \<and>
    fst (clock_get 5 (fst (clock_erase 6 two_keys))) = None \<and> fst (clock_get 6 (fst (clock_erase 6 two_keys))) = Some 2048"
  by (rule clock_put_hits_wrong_slot[OF two_keys_ok(1) _ two_keys_ok(2)])
    (simp_all add: set_idx_def two_keys_ok(3), simp_all add: two_keys_def)

end
