(* ===== verification/ChunkCache.thy ===== *)
theory ChunkCache
  imports ClockCache
begin

text \<open>
  \<open>ChunkCache\<close> of \<open>src/apps/chunk_store/Storage/cache/ChunkCache.h\<close>: the cache of 1024 chunk pointers with
  the pool of recycled chunks, the pin counts and the chunks whose eviction waits for their last
  pin. A chunk pointer is its address. Operations that free chunks return the freed pointers, in
  order; \<open>None\<close> is the undefined behaviour of the cache below. The sets of the C++ are lists without
  duplicates.
\<close>

definition POOL_CAP :: nat where "POOL_CAP = 256"
definition CACHE_CAPACITY :: nat where "CACHE_CAPACITY = 1024"

record chunk_cache =
  cch :: clock
  pool :: "u64 list"
  pinned :: "(u64, int) umap"
  pending_evict :: "u64 list"

definition chunk_cache_new :: chunk_cache where
  "chunk_cache_new = \<lparr>cch = clock_new (CACHE_CAPACITY div kAssoc), pool = [], pinned = [], pending_evict = []\<rparr>"

definition to_pool :: "u64 \<Rightarrow> chunk_cache \<Rightarrow> chunk_cache \<times> u64 list" where
  "to_pool p c = (if length (pool c) < POOL_CAP then (c\<lparr>pool := pool c @ [p]\<rparr>, []) else (c, [p]))"

definition on_evict :: "u64 \<Rightarrow> chunk_cache \<Rightarrow> chunk_cache \<times> u64 list" where
  "on_evict val c =
     (if val = 0 then (c, [])
      else if um_contains (pinned c) val then (c\<lparr>pending_evict := List.insert val (pending_evict c)\<rparr>, [])
      else to_pool val c)"

fun on_evicts :: "u64 list \<Rightarrow> chunk_cache \<Rightarrow> chunk_cache \<times> u64 list" where
  "on_evicts [] c = (c, [])"
| "on_evicts (v # vs) c = (let (c, del) = on_evict v c; (c, del') = on_evicts vs c in (c, del @ del'))"

definition cc_get :: "u64 \<Rightarrow> chunk_cache \<Rightarrow> u64 \<times> chunk_cache" where
  "cc_get key c = (let (r, k) = clock_get key (cch c) in (case r of None \<Rightarrow> 0 | Some p \<Rightarrow> p, c\<lparr>cch := k\<rparr>))"

definition getPinned :: "u64 \<Rightarrow> chunk_cache \<Rightarrow> u64 \<times> chunk_cache" where
  "getPinned key c =
     (let (r, k) = clock_get key (cch c); c = c\<lparr>cch := k\<rparr> in
      case r of None \<Rightarrow> (0, c)
      | Some p \<Rightarrow> (p, c\<lparr>pinned := um_put p ((case um_find (pinned c) p of None \<Rightarrow> 0 | Some n \<Rightarrow> n) + 1) (pinned c)\<rparr>))"

definition releasePinned :: "u64 \<Rightarrow> chunk_cache \<Rightarrow> chunk_cache \<times> u64 list" where
  "releasePinned p c =
     (if p = 0 then (c, [])
      else case um_find (pinned c) p of None \<Rightarrow> (c, [])
      | Some n \<Rightarrow>
          if n - 1 > 0 then (c\<lparr>pinned := um_put p (n - 1) (pinned c)\<rparr>, [])
          else let deferred = p \<in> set (pending_evict c);
                   c = c\<lparr>pinned := um_erase p (pinned c), pending_evict := remove1 p (pending_evict c)\<rparr>
               in if deferred then to_pool p c else (c, []))"

definition cc_put :: "u64 \<Rightarrow> u64 \<Rightarrow> chunk_cache \<Rightarrow> (chunk_cache \<times> u64 list) option" where
  "cc_put key p c = map_option (\<lambda>(k, ev). on_evicts ev (c\<lparr>cch := k\<rparr>)) (clock_put key p (cch c))"

definition cc_erase :: "u64 \<Rightarrow> chunk_cache \<Rightarrow> chunk_cache \<times> u64 list" where
  "cc_erase key c = (let (k, ev) = clock_erase key (cch c) in on_evicts ev (c\<lparr>cch := k\<rparr>))"

definition takeFromPool :: "chunk_cache \<Rightarrow> u64 \<times> chunk_cache" where
  "takeFromPool c = (if pool c = [] then (0, c) else (last (pool c), c\<lparr>pool := butlast (pool c)\<rparr>))"

definition cc_clear :: "chunk_cache \<Rightarrow> chunk_cache \<times> u64 list" where
  "cc_clear c =
     (let (k, ev) = clock_clear (cch c); (c, del) = on_evicts ev (c\<lparr>cch := k\<rparr>)
      in (c\<lparr>pool := []\<rparr>, del @ pool c))"

section \<open>Ownership\<close>

text \<open>The chunks the cache owns: those in its slots, in the pool, and those waiting for a pin.\<close>

definition owned :: "chunk_cache \<Rightarrow> u64 multiset" where
  "owned c = clock_held (cch c) + mset (pool c) + mset (pending_evict c)"

lemma to_pool_owned:
  "owned (fst (to_pool p c)) + mset (snd (to_pool p c)) = add_mset p (owned c)"
  "cch (fst (to_pool p c)) = cch c" "pinned (fst (to_pool p c)) = pinned c"
  "pending_evict (fst (to_pool p c)) = pending_evict c"
  "length (pool c) \<le> POOL_CAP \<Longrightarrow> length (pool (fst (to_pool p c))) \<le> POOL_CAP"
  "snd (to_pool p c) = [] \<or> snd (to_pool p c) = [p]"
  by (auto simp: to_pool_def owned_def)

lemma on_evict_owned:
  assumes "v \<notin> set (pending_evict c)"
  shows "owned (fst (on_evict v c)) + mset (snd (on_evict v c)) = owned c + nonnull [v]"
    "cch (fst (on_evict v c)) = cch c" "pinned (fst (on_evict v c)) = pinned c"
    "set (pending_evict (fst (on_evict v c))) \<subseteq> insert v (set (pending_evict c))"
    "set (pending_evict c) \<subseteq> set (pending_evict (fst (on_evict v c)))"
    "v \<noteq> 0 \<Longrightarrow> um_contains (pinned c) v \<Longrightarrow> v \<in> set (pending_evict (fst (on_evict v c)))"
    "length (pool c) \<le> POOL_CAP \<Longrightarrow> length (pool (fst (on_evict v c))) \<le> POOL_CAP"
    "list_all (\<lambda>p. \<not> um_contains (pinned c) p) (snd (on_evict v c))"
  using assms to_pool_owned[where p = v and c = c] by (auto simp: on_evict_def owned_def)

lemma on_evicts_owned:
  assumes "\<And>p. p \<noteq> 0 \<Longrightarrow> count (nonnull vs) p + count (mset (pending_evict c)) p \<le> 1" "0 \<notin> set (pending_evict c)"
  shows "owned (fst (on_evicts vs c)) + mset (snd (on_evicts vs c)) = owned c + nonnull vs"
    "cch (fst (on_evicts vs c)) = cch c" "pinned (fst (on_evicts vs c)) = pinned c"
    "set (pending_evict c) \<subseteq> set (pending_evict (fst (on_evicts vs c)))"
    "set (pending_evict (fst (on_evicts vs c))) \<subseteq> set (pending_evict c) \<union> set_mset (nonnull vs)"
    "v \<in># nonnull vs \<Longrightarrow> um_contains (pinned c) v \<Longrightarrow> v \<in> set (pending_evict (fst (on_evicts vs c)))"
    "length (pool c) \<le> POOL_CAP \<Longrightarrow> length (pool (fst (on_evicts vs c))) \<le> POOL_CAP"
    "list_all (\<lambda>p. \<not> um_contains (pinned c) p) (snd (on_evicts vs c))"
proof -
  have "owned (fst (on_evicts vs c)) + mset (snd (on_evicts vs c)) = owned c + nonnull vs \<and>
    cch (fst (on_evicts vs c)) = cch c \<and> pinned (fst (on_evicts vs c)) = pinned c \<and>
    set (pending_evict c) \<subseteq> set (pending_evict (fst (on_evicts vs c))) \<and>
    set (pending_evict (fst (on_evicts vs c))) \<subseteq> set (pending_evict c) \<union> set_mset (nonnull vs) \<and>
    (\<forall>v. v \<in># nonnull vs \<longrightarrow> um_contains (pinned c) v \<longrightarrow> v \<in> set (pending_evict (fst (on_evicts vs c)))) \<and>
    (length (pool c) \<le> POOL_CAP \<longrightarrow> length (pool (fst (on_evicts vs c))) \<le> POOL_CAP) \<and>
    list_all (\<lambda>p. \<not> um_contains (pinned c) p) (snd (on_evicts vs c))"
    using assms
  proof (induction vs arbitrary: c)
    case Nil
    then show ?case by (simp add: um_wf_def)
  next
    case (Cons v vs)
    show ?case
    proof (cases "v = 0")
      case True
      then show ?thesis using Cons by (simp add: on_evict_def)
    next
      case False
      have v: "v \<notin> set (pending_evict c)"
      proof
        assume "v \<in> set (pending_evict c)"
        then have "0 < count (mset (pending_evict c)) v" by (simp add: count_greater_zero_iff)
        moreover have "0 < count (nonnull (v # vs)) v" using False by simp
        ultimately show False using Cons.prems(1)[OF False] by linarith
      qed
      note e = on_evict_owned[OF v]
      let ?c = "fst (on_evict v c)"
      have pe: "mset (pending_evict ?c) = (if um_contains (pinned c) v then add_mset v (mset (pending_evict c)) else mset (pending_evict c))"
        using v False to_pool_owned(4)[where p = v and c = c] by (auto simp: on_evict_def)
      have pre: "count (nonnull vs) p + count (mset (pending_evict ?c)) p \<le> 1" if "p \<noteq> 0" for p
      proof -
        have "count (nonnull vs) p + (if v = p then 1 else 0) + count (mset (pending_evict c)) p \<le> 1"
          using Cons.prems(1)[OF that] False by (cases "v = p") auto
        moreover have "count (mset (pending_evict ?c)) p \<le> count (mset (pending_evict c)) p + (if v = p then 1 else 0)"
          unfolding pe by simp
        ultimately show ?thesis by linarith
      qed
      have nz: "0 \<notin> set (pending_evict ?c)" using e(4) False Cons.prems(2) by auto
      note ih = Cons.IH[OF pre nz]
      have s: "on_evicts (v # vs) c = (fst (on_evicts vs ?c), snd (on_evict v c) @ snd (on_evicts vs ?c))"
        by (simp add: case_prod_beta Let_def)
      have o: "owned (fst (on_evicts vs ?c)) + (mset (snd (on_evict v c)) + mset (snd (on_evicts vs ?c))) = owned c + nonnull (v # vs)"
      proof -
        have "owned (fst (on_evicts vs ?c)) + (mset (snd (on_evict v c)) + mset (snd (on_evicts vs ?c))) =
            (owned (fst (on_evicts vs ?c)) + mset (snd (on_evicts vs ?c))) + mset (snd (on_evict v c))" by (simp add: ac_simps)
        also have "\<dots> = (owned ?c + mset (snd (on_evict v c))) + nonnull vs" using ih by (simp add: ac_simps)
        also have "\<dots> = owned c + nonnull [v] + nonnull vs" using e(1) by simp
        finally show ?thesis using False by (simp add: ac_simps)
      qed
      show ?thesis
        unfolding s using ih e o False by auto
    qed
  qed
  then show "owned (fst (on_evicts vs c)) + mset (snd (on_evicts vs c)) = owned c + nonnull vs"
    "cch (fst (on_evicts vs c)) = cch c" "pinned (fst (on_evicts vs c)) = pinned c"
    "set (pending_evict c) \<subseteq> set (pending_evict (fst (on_evicts vs c)))"
    "set (pending_evict (fst (on_evicts vs c))) \<subseteq> set (pending_evict c) \<union> set_mset (nonnull vs)"
    "v \<in># nonnull vs \<Longrightarrow> um_contains (pinned c) v \<Longrightarrow> v \<in> set (pending_evict (fst (on_evicts vs c)))"
    "length (pool c) \<le> POOL_CAP \<Longrightarrow> length (pool (fst (on_evicts vs c))) \<le> POOL_CAP"
    "list_all (\<lambda>p. \<not> um_contains (pinned c) p) (snd (on_evicts vs c))"
    by blast+
qed

section \<open>The invariant\<close>

text \<open>The cache below is well formed, no chunk is owned twice, and every pinned chunk is in the cache or
  waits for its last pin: it is neither in the pool, from where it would be reused, nor freed.\<close>

definition cc_inv :: "chunk_cache \<Rightarrow> bool" where
  "cc_inv c \<longleftrightarrow>
     clock_ok (cch c) \<and> (\<forall>k. k \<noteq> 0 \<longrightarrow> clock_map (cch c) k \<noteq> Some 0) \<and> length (pool c) \<le> POOL_CAP \<and> um_wf (pinned c) \<and>
     (\<forall>p. count (owned c) p \<le> 1) \<and> 0 \<notin># owned c \<and>
     (\<forall>p. um_contains (pinned c) p \<longrightarrow> p \<in># clock_held (cch c) \<or> p \<in> set (pending_evict c))"

lemma clock_map_held:
  assumes "clock_ok c" "clock_map c k = Some v" "v \<noteq> 0"
  shows "v \<in># clock_held c"
proof -
  let ?sl = "cc_sets c ! set_idx (length (cc_sets c)) k"
  note d = clock_okD[OF assms(1), where key = k]
  obtain s where s: "s \<in> set (used ?sl)" "unpack_val s = v"
    using assms(2) d(2) by (auto simp: clock_map_def set_map_Some set_ok_def)
  then have "s \<in> set ?sl" by (simp add: used_def)
  moreover have "?sl \<in> set (cc_sets c)" using d(1) by simp
  ultimately have "v \<in> set (map unpack_val (concat (cc_sets c)))" using s(2) by auto
  then show ?thesis using assms(3) by (simp add: clock_held_def nonnull_def)
qed

lemma count_sum3: "count (a + b + c) p \<le> 1 \<Longrightarrow> p \<in># a \<Longrightarrow> p \<notin># b \<and> p \<notin># c"
  by (auto simp flip: count_greater_zero_iff)

lemma evict_step:
  assumes inv: "cc_inv c" and k: "clock_ok k'" "\<forall>k. k \<noteq> 0 \<longrightarrow> clock_map k' k \<noteq> Some 0"
    and h: "clock_held k' + nonnull ev = clock_held (cch c) + nonnull new"
    and new: "\<And>p. count (nonnull new) p + count (owned c) p \<le> 1"
  shows "cc_inv (fst (on_evicts ev (c\<lparr>cch := k'\<rparr>)))"
    "owned (fst (on_evicts ev (c\<lparr>cch := k'\<rparr>))) + mset (snd (on_evicts ev (c\<lparr>cch := k'\<rparr>))) = owned c + nonnull new"
    "cch (fst (on_evicts ev (c\<lparr>cch := k'\<rparr>))) = k'"
    "list_all (\<lambda>p. \<not> um_contains (pinned c) p) (snd (on_evicts ev (c\<lparr>cch := k'\<rparr>)))"
proof -
  let ?c = "c\<lparr>cch := k'\<rparr>"
  have cnt: "count (clock_held k') p + count (nonnull ev) p = count (clock_held (cch c)) p + count (nonnull new) p" for p
    using h by (metis count_union)
  have nz: "0 \<notin># clock_held x" "0 \<notin># nonnull vs" for x vs by (auto simp: clock_held_def nonnull_def)
  have pre: "count (nonnull ev) p + count (mset (pending_evict ?c)) p \<le> 1" for p
    using new[of p] cnt[of p] by (simp add: owned_def)
  have z: "0 \<notin> set (pending_evict ?c)" using inv by (simp add: cc_inv_def owned_def)
  note e = on_evicts_owned[OF pre z]
  let ?r = "fst (on_evicts ev ?c)"
  have o: "owned ?c + nonnull ev = owned c + nonnull new"
  proof (rule multiset_eqI)
    fix p show "count (owned ?c + nonnull ev) p = count (owned c + nonnull new) p" using cnt[of p] by (simp add: owned_def)
  qed
  show own: "owned ?r + mset (snd (on_evicts ev ?c)) = owned c + nonnull new" using e(1) o by simp
  show cch: "cch ?r = k'" using e(2) by simp
  show "list_all (\<lambda>p. \<not> um_contains (pinned c) p) (snd (on_evicts ev ?c))" using e(8) by simp
  have "count (owned ?r) p \<le> 1" for p
    using new[of p] own by (metis add.commute add_leD1 count_union)
  moreover have "0 \<notin># owned ?r"
  proof -
    have "0 \<notin># owned c + nonnull new" using inv nz by (simp add: cc_inv_def)
    then show ?thesis using own by (metis union_iff)
  qed
  moreover have "p \<in># clock_held k' \<or> p \<in> set (pending_evict ?r)" if "um_contains (pinned ?r) p" for p
  proof -
    have pin: "um_contains (pinned c) p" using that e(3) by simp
    then consider "p \<in># clock_held (cch c)" | "p \<in> set (pending_evict c)" using inv by (auto simp: cc_inv_def)
    then show ?thesis
    proof cases
      case 1
      then have "0 < count (clock_held k') p + count (nonnull ev) p" using cnt[of p] by simp
      then have "p \<in># clock_held k' \<or> p \<in># nonnull ev" by (simp flip: count_greater_zero_iff)
      then show ?thesis using e(6)[of p] pin by auto
    next
      case 2
      then show ?thesis using e(4) by auto
    qed
  qed
  ultimately show "cc_inv ?r"
    using inv k e(3,7) cch by (simp add: cc_inv_def)
qed

lemma cc_put_step:
  assumes "cc_inv c" "key \<noteq> 0" "clock_map (cch c) key = None" "p \<noteq> 0" "\<not> bit p 63" "p \<notin># owned c"
  obtains c' del where "cc_put key p c = Some (c', del)" "cc_inv c'" "owned c' + mset del = add_mset p (owned c)"
    "clock_map (cch c') key = Some p" "list_all (\<lambda>p. \<not> um_contains (pinned c) p) del"
    "\<And>k q. k \<noteq> 0 \<Longrightarrow> k \<noteq> key \<Longrightarrow> clock_map (cch c') k = Some q \<Longrightarrow> clock_map (cch c) k = Some q"
proof -
  have ok: "clock_ok (cch c)" using assms(1) by (simp add: cc_inv_def)
  obtain k' ev where k': "clock_put key p (cch c) = Some (k', ev)" "clock_ok k'" "put_result (clock_map (cch c)) key p ev (clock_map k')"
    by (rule clock_put_facts[OF ok assms(2,3,5)])
  have h: "clock_held k' + nonnull ev = clock_held (cch c) + nonnull [p]"
    by (rule clock_put_held[OF clock_ok_shape[OF ok] assms(2,5)]) (use k'(1) in simp)
  have m: "clock_map k' key = Some p" "\<And>k q. k \<noteq> key \<Longrightarrow> clock_map k' k = Some q \<Longrightarrow> clock_map (cch c) k = Some q"
    using k'(3) by (auto simp: put_result_def split: if_splits)
  have nz: "\<forall>k. k \<noteq> 0 \<longrightarrow> clock_map k' k \<noteq> Some 0"
  proof (intro allI impI)
    fix k :: u64 assume "k \<noteq> 0"
    then have "clock_map (cch c) k \<noteq> Some 0" using assms(1) by (simp add: cc_inv_def)
    then show "clock_map k' k \<noteq> Some 0" using m(1) m(2)[of k 0] assms(4) by (cases "k = key") auto
  qed
  have new: "count (nonnull [p]) q + count (owned c) q \<le> 1" for q
    using assms(1,4,6) by (auto simp: cc_inv_def not_in_iff)
  note e = evict_step[OF assms(1) k'(2) nz h new]
  show thesis
  proof (rule that)
    show "cc_put key p c = Some (fst (on_evicts ev (c\<lparr>cch := k'\<rparr>)), snd (on_evicts ev (c\<lparr>cch := k'\<rparr>)))"
      by (simp add: cc_put_def k'(1))
  qed (use e m assms(4) in simp_all)
qed

lemma clock_erase_facts:
  assumes "clock_ok c"
  shows "clock_ok (fst (clock_erase key c))" "clock_map (fst (clock_erase key c)) k = Some v \<Longrightarrow> clock_map c k = Some v"
proof -
  let ?si = "set_idx (length (cc_sets c)) key" let ?sl = "cc_sets c ! ?si"
  note d = clock_okD[OF assms(1), where key = key]
  have len: "length ?sl = kAssoc" using d(2) by (simp add: set_ok_def)
  then have i: "0 < length ?sl" by (simp add: kAssoc_def)
  have dd: "distinct (map unpack_key (used ?sl))" using d(2) by (simp add: set_ok_def)
  have u: "used (?sl[0 := 0]) = used (drop 1 ?sl)" "used ?sl = used [?sl ! 0] @ used (drop 1 ?sl)"
    using used_split(1)[OF i] used_split(2)[OF i, of 0] by (simp_all add: used_def)
  have d0: "distinct (map unpack_key (used (?sl[0 := 0])))" using dd unfolding u by simp
  have s: "set_ok (length (cc_sets c)) ?si (?sl[0 := 0]) (cc_hands c ! ?si)"
    using d(2) d0 by (auto simp: set_ok_def list_all_iff dest!: set_update_subset_insert[THEN subsetD])
  have m: "set_map (?sl[0 := 0]) k = Some v \<Longrightarrow> set_map ?sl k = Some v" for k v
    unfolding set_map_Some[OF d0] set_map_Some[OF dd] u by auto
  have e: "fst (clock_erase key c) = c \<or>
      fst (clock_erase key c) = c\<lparr>cc_sets := (cc_sets c)[?si := ?sl[0 := 0]], cc_hands := (cc_hands c)[?si := cc_hands c ! ?si]\<rparr>"
    by (simp add: clock_erase_def Let_def ctz_any_match)
  note up = clock_update[OF assms d(1) s refl]
  show "clock_ok (fst (clock_erase key c))" using e up(1) assms by auto
  show "clock_map c k = Some v" if "clock_map (fst (clock_erase key c)) k = Some v"
    using e that up(2)[of k] m by (auto simp: clock_map_def split: if_splits)
qed

lemma clock_clear_facts:
  assumes "clock_ok c" "k \<noteq> 0"
  shows "clock_ok (fst (clock_clear c))" "clock_map (fst (clock_clear c)) k = None"
proof -
  have z: "unpack_key (fst (clear_slot s)) = 0" for s by (simp add: clear_slot_def)
  have u: "used (map (fst \<circ> clear_slot) sl) = []" for sl by (simp add: used_def filter_empty_conv z)
  have "set_ok n si (map (fst \<circ> clear_slot) sl) h" if "set_ok n si sl h" for n si sl h
    using that u[of sl] by (auto simp: set_ok_def list_all_iff clear_slot_def)
  then show "clock_ok (fst (clock_clear c))" using assms(1) by (simp add: clock_ok_def clock_clear_def)
  show "clock_map (fst (clock_clear c)) k = None"
    using clock_okD(1)[OF assms(1), of k] by (simp add: clock_map_def clock_clear_def set_map_None u)
qed

lemma cc_get_step:
  assumes "cc_inv c" "key \<noteq> 0"
  shows "fst (cc_get key c) = (case clock_map (cch c) key of None \<Rightarrow> 0 | Some p \<Rightarrow> p)" "cc_inv (snd (cc_get key c))"
    "owned (snd (cc_get key c)) = owned c" "clock_map (cch (snd (cc_get key c))) = clock_map (cch c)"
    "pinned (snd (cc_get key c)) = pinned c" "pool (snd (cc_get key c)) = pool c"
    "pending_evict (snd (cc_get key c)) = pending_evict c"
proof -
  have ok: "clock_ok (cch c)" using assms(1) by (simp add: cc_inv_def)
  note g = clock_get_facts[OF ok assms(2)] and h = clock_get_held[OF clock_ok_shape[OF ok], of key]
  have s: "snd (cc_get key c) = c\<lparr>cch := snd (clock_get key (cch c))\<rparr>" by (simp add: cc_get_def case_prod_beta)
  show "fst (cc_get key c) = (case clock_map (cch c) key of None \<Rightarrow> 0 | Some p \<Rightarrow> p)"
    using g(1) by (simp add: cc_get_def case_prod_beta)
  show "owned (snd (cc_get key c)) = owned c" using h(2) by (simp add: s owned_def)
  show "cc_inv (snd (cc_get key c))" using assms(1) g h by (simp add: s cc_inv_def owned_def)
  show "clock_map (cch (snd (cc_get key c))) = clock_map (cch c)" "pinned (snd (cc_get key c)) = pinned c"
    "pool (snd (cc_get key c)) = pool c" "pending_evict (snd (cc_get key c)) = pending_evict c"
    using g(3) by (simp_all add: s)
qed

lemma contains_put: "um_contains (um_put k v m) q \<longleftrightarrow> q = k \<or> um_contains m q"
  by (simp add: um_contains_def um_find_put)

lemma contains_erase: "um_contains (um_erase k m) q \<longleftrightarrow> q \<noteq> k \<and> um_contains m q"
  by (simp add: um_contains_def um_find_erase)

lemma getPinned_step:
  assumes "cc_inv c" "key \<noteq> 0"
  shows "fst (getPinned key c) = (case clock_map (cch c) key of None \<Rightarrow> 0 | Some p \<Rightarrow> p)" "cc_inv (snd (getPinned key c))"
    "owned (snd (getPinned key c)) = owned c" "clock_map (cch (snd (getPinned key c))) = clock_map (cch c)"
    "pool (snd (getPinned key c)) = pool c"
proof -
  have ok: "clock_ok (cch c)" using assms(1) by (simp add: cc_inv_def)
  note g = clock_get_facts[OF ok assms(2)] and h = clock_get_held[OF clock_ok_shape[OF ok], of key]
  show "fst (getPinned key c) = (case clock_map (cch c) key of None \<Rightarrow> 0 | Some p \<Rightarrow> p)"
    using g(1) by (auto simp: getPinned_def case_prod_beta Let_def split: option.splits)
  show "owned (snd (getPinned key c)) = owned c"
    using h(2) by (auto simp: getPinned_def case_prod_beta Let_def owned_def split: option.splits)
  show "clock_map (cch (snd (getPinned key c))) = clock_map (cch c)" "pool (snd (getPinned key c)) = pool c"
    using g(3) by (auto simp: getPinned_def case_prod_beta Let_def split: option.splits)
  show "cc_inv (snd (getPinned key c))"
  proof (cases "clock_map (cch c) key")
    case None
    then show ?thesis using assms(1) g h by (simp add: getPinned_def case_prod_beta Let_def cc_inv_def owned_def)
  next
    case (Some p)
    have "p \<noteq> 0" using assms Some by (auto simp: cc_inv_def)
    then have "p \<in># clock_held (cch c)" by (rule clock_map_held[OF ok Some])
    then show ?thesis
      using Some assms(1) g h by (auto simp: getPinned_def case_prod_beta Let_def cc_inv_def owned_def contains_put)
  qed
qed

lemma releasePinned_step:
  assumes "cc_inv c"
  shows "cc_inv (fst (releasePinned p c))" "owned (fst (releasePinned p c)) + mset (snd (releasePinned p c)) = owned c"
    "cch (fst (releasePinned p c)) = cch c"
proof -
  have "cc_inv (fst (releasePinned p c)) \<and> owned (fst (releasePinned p c)) + mset (snd (releasePinned p c)) = owned c \<and>
      cch (fst (releasePinned p c)) = cch c"
  proof (cases "p = 0 \<or> um_find (pinned c) p = None")
    case True
    then show ?thesis using assms by (auto simp: releasePinned_def)
  next
    case False
    then obtain n where p: "p \<noteq> 0" "um_find (pinned c) p = Some n" by auto
    show ?thesis
    proof (cases "n - 1 > 0")
      case True
      then have "releasePinned p c = (c\<lparr>pinned := um_put p (n - 1) (pinned c)\<rparr>, [])" using p by (simp add: releasePinned_def)
      then show ?thesis using assms p(2) by (auto simp: cc_inv_def owned_def contains_put um_contains_def[of "pinned c" p])
    next
      case last: False
      let ?c = "c\<lparr>pinned := um_erase p (pinned c), pending_evict := remove1 p (pending_evict c)\<rparr>"
      have r: "releasePinned p c = (if p \<in> set (pending_evict c) then to_pool p ?c else (?c, []))"
        using p last by (simp add: releasePinned_def Let_def)
      have c1: "count (owned c) q \<le> 1" for q using assms by (simp add: cc_inv_def)
      have pin: "q \<in># clock_held (cch c) \<or> q \<in> set (remove1 p (pending_evict c))" if "um_contains (um_erase p (pinned c)) q" for q
      proof -
        have "q \<noteq> p" "um_contains (pinned c) q" using that by (simp_all add: contains_erase)
        then show ?thesis using assms by (auto simp: cc_inv_def)
      qed
      show ?thesis
      proof (cases "p \<in> set (pending_evict c)")
        case True
        have o: "owned (fst (to_pool p ?c)) + mset (snd (to_pool p ?c)) = owned c"
          using to_pool_owned(1)[of p ?c] True by (simp add: owned_def)
        have "count (owned (fst (to_pool p ?c))) q \<le> 1" "q \<in># owned (fst (to_pool p ?c)) \<Longrightarrow> q \<in># owned c" for q
          using o c1[of q] by (metis add_leD1 count_union, metis union_iff)
        moreover have "length (pool (fst (to_pool p ?c))) \<le> POOL_CAP" using assms by (auto simp: to_pool_def cc_inv_def)
        ultimately have "cc_inv (fst (to_pool p ?c))"
          using assms pin to_pool_owned(2-4)[where p = p and c = ?c] by (auto simp: cc_inv_def)
        then show ?thesis using r True o to_pool_owned(2)[where p = p and c = ?c] by simp
      next
        case False
        then have "owned ?c = owned c" by (simp add: owned_def remove1_idem)
        then have "cc_inv ?c" using assms pin by (auto simp: cc_inv_def)
        then show ?thesis using r False \<open>owned ?c = owned c\<close> by simp
      qed
    qed
  qed
  then show "cc_inv (fst (releasePinned p c))" "owned (fst (releasePinned p c)) + mset (snd (releasePinned p c)) = owned c"
    "cch (fst (releasePinned p c)) = cch c" by auto
qed

lemma takeFromPool_step:
  assumes "cc_inv c"
  shows "cc_inv (snd (takeFromPool c))" "cch (snd (takeFromPool c)) = cch c"
    "owned (snd (takeFromPool c)) + nonnull [fst (takeFromPool c)] = owned c"
    "pool c = [] \<longleftrightarrow> fst (takeFromPool c) = 0"
proof -
  have "cc_inv (snd (takeFromPool c)) \<and> cch (snd (takeFromPool c)) = cch c \<and>
    owned (snd (takeFromPool c)) + nonnull [fst (takeFromPool c)] = owned c \<and> (pool c = [] \<longleftrightarrow> fst (takeFromPool c) = 0)"
  proof (cases "pool c" rule: rev_cases)
    case Nil
    then show ?thesis using assms by (simp add: takeFromPool_def)
  next
    case (snoc xs x)
    have x: "x \<noteq> 0" using assms snoc by (auto simp: cc_inv_def owned_def)
    have o: "owned (c\<lparr>pool := xs\<rparr>) + {#x#} = owned c" using snoc by (simp add: owned_def)
    have "count (owned (c\<lparr>pool := xs\<rparr>)) q \<le> 1" "q \<in># owned (c\<lparr>pool := xs\<rparr>) \<Longrightarrow> q \<in># owned c" for q
    proof -
      have "count (owned c) q = count (owned (c\<lparr>pool := xs\<rparr>)) q + count {#x#} q" unfolding o[symmetric] by simp
      moreover have "count (owned c) q \<le> 1" using assms by (simp add: cc_inv_def)
      ultimately show "count (owned (c\<lparr>pool := xs\<rparr>)) q \<le> 1" by linarith
      show "q \<in># owned (c\<lparr>pool := xs\<rparr>) \<Longrightarrow> q \<in># owned c" unfolding o[symmetric] by simp
    qed
    then have "cc_inv (c\<lparr>pool := xs\<rparr>)" using assms snoc by (auto simp: cc_inv_def)
    then show ?thesis using snoc x o by (simp add: takeFromPool_def)
  qed
  then show "cc_inv (snd (takeFromPool c))" "cch (snd (takeFromPool c)) = cch c"
    "owned (snd (takeFromPool c)) + nonnull [fst (takeFromPool c)] = owned c"
    "pool c = [] \<longleftrightarrow> fst (takeFromPool c) = 0" by auto
qed

section \<open>Runs\<close>

datatype cc_op = CPut u64 u64 | CErase u64 | CGet u64 | CPin u64 | CRelease u64 | CTake | CClear

text \<open>One call: the cache afterwards, the chunks it freed, the chunk it handed back to the caller.\<close>

fun cc_step :: "cc_op \<Rightarrow> chunk_cache \<Rightarrow> (chunk_cache \<times> u64 list \<times> u64 list) option" where
  "cc_step (CPut key p) c = map_option (\<lambda>(c, del). (c, del, [])) (cc_put key p c)"
| "cc_step (CErase key) c = (let (c, del) = cc_erase key c in Some (c, del, []))"
| "cc_step (CGet key) c = Some (snd (cc_get key c), [], [])"
| "cc_step (CPin key) c = Some (snd (getPinned key c), [], [])"
| "cc_step (CRelease p) c = (let (c, del) = releasePinned p c in Some (c, del, []))"
| "cc_step CTake c = (let (p, c) = takeFromPool c in Some (c, [], if p = 0 then [] else [p]))"
| "cc_step CClear c = (let (c, del) = cc_clear c in Some (c, del, []))"

text \<open>The use the callers make of it: keys are not the sentinel 0, a chunk is inserted only under a key that
  was not found, and is a valid pointer the cache does not own already.\<close>

fun cc_admits :: "cc_op \<Rightarrow> chunk_cache \<Rightarrow> bool" where
  "cc_admits (CPut key p) c \<longleftrightarrow>
     key \<noteq> 0 \<and> clock_map (cch c) key = None \<and> p \<noteq> 0 \<and> \<not> bit p 63 \<and> p \<notin># owned c"
| "cc_admits (CErase key) c \<longleftrightarrow> key \<noteq> 0"
| "cc_admits (CGet key) c \<longleftrightarrow> key \<noteq> 0"
| "cc_admits (CPin key) c \<longleftrightarrow> key \<noteq> 0"
| "cc_admits _ c \<longleftrightarrow> True"

fun cc_run :: "cc_op list \<Rightarrow> chunk_cache \<Rightarrow> (chunk_cache \<times> u64 list \<times> u64 list) option" where
  "cc_run [] c = Some (c, [], [])"
| "cc_run (op # ops) c =
     Option.bind (cc_step op c) (\<lambda>(c, del, tk).
     map_option (\<lambda>(c, del', tk'). (c, del @ del', tk @ tk')) (cc_run ops c))"

fun cc_runs_admitted :: "cc_op list \<Rightarrow> chunk_cache \<Rightarrow> bool" where
  "cc_runs_admitted [] c \<longleftrightarrow> True"
| "cc_runs_admitted (op # ops) c \<longleftrightarrow>
     cc_admits op c \<and> (case cc_step op c of None \<Rightarrow> False | Some (c', _) \<Rightarrow> cc_runs_admitted ops c')"

fun inserted :: "cc_op list \<Rightarrow> u64 multiset" where
  "inserted [] = {#}"
| "inserted (CPut key p # ops) = add_mset p (inserted ops)"
| "inserted (_ # ops) = inserted ops"

lemma cc_step_facts:
  assumes "cc_inv c" "cc_admits op c"
  shows "\<exists>c' del tk. cc_step op c = Some (c', del, tk) \<and> cc_inv c' \<and>
    owned c' + mset del + mset tk = owned c + inserted [op]"
proof (cases op)
  case (CPut key p)
  then have a: "key \<noteq> 0" "clock_map (cch c) key = None" "p \<noteq> 0" "\<not> bit p 63" "p \<notin># owned c" using assms(2) by auto
  show ?thesis by (rule cc_put_step[OF assms(1) a]) (use CPut in auto)
next
  case (CErase key)
  have ok: "clock_ok (cch c)" using assms(1) by (simp add: cc_inv_def)
  note h = clock_erase_held[OF clock_ok_shape[OF ok], of key] and f = clock_erase_facts[OF ok, of key]
  have "\<forall>k. k \<noteq> 0 \<longrightarrow> clock_map (fst (clock_erase key (cch c))) k \<noteq> Some 0"
    using f(2) assms(1) by (auto simp: cc_inv_def)
  note e = evict_step[OF assms(1) f(1) this, of "snd (clock_erase key (cch c))" "[]"]
  show ?thesis using e(1,2) h(2) assms(1) CErase
    by (simp add: cc_inv_def cc_erase_def case_prod_beta Let_def)
next
  case (CGet key)
  then show ?thesis using cc_get_step(2,3)[OF assms(1), of key] assms(2) by simp
next
  case (CPin key)
  then show ?thesis using getPinned_step(2,3)[OF assms(1), of key] assms(2) by simp
next
  case (CRelease p)
  then show ?thesis using releasePinned_step(1,2)[OF assms(1), of p] by (simp add: case_prod_beta Let_def)
next
  case CTake
  then show ?thesis using takeFromPool_step(1,3)[OF assms(1)] by (simp add: case_prod_beta Let_def split: if_splits)
next
  case CClear
  have ok: "clock_ok (cch c)" using assms(1) by (simp add: cc_inv_def)
  note h = clock_clear_held[OF clock_ok_shape[OF ok]] and f = clock_clear_facts[OF ok]
  have z: "\<forall>k. k \<noteq> 0 \<longrightarrow> clock_map (fst (clock_clear (cch c))) k \<noteq> Some 0" using f(2) by simp
  let ?e = "on_evicts (snd (clock_clear (cch c))) (c\<lparr>cch := fst (clock_clear (cch c))\<rparr>)"
  note e = evict_step[OF assms(1) f(1)[of 1, simplified] z, of "snd (clock_clear (cch c))" "[]"]
  have i: "cc_inv (fst ?e)" "owned (fst ?e) + mset (snd ?e) = owned c"
    using e(1,2) h assms(1) by (simp_all add: cc_inv_def)
  let ?c = "(fst ?e)\<lparr>pool := []\<rparr>"
  have o: "owned ?c + mset (pool (fst ?e)) = owned (fst ?e)" by (simp add: owned_def)
  have "count (owned ?c) q \<le> 1" "q \<in># owned ?c \<Longrightarrow> q \<in># owned (fst ?e)" for q
  proof -
    have "count (owned (fst ?e)) q = count (owned ?c) q + count (mset (pool (fst ?e))) q" unfolding o[symmetric] by simp
    moreover have "count (owned (fst ?e)) q \<le> 1" using i(1) by (simp add: cc_inv_def)
    ultimately show "count (owned ?c) q \<le> 1" by linarith
    show "q \<in># owned ?c \<Longrightarrow> q \<in># owned (fst ?e)" unfolding o[symmetric] by simp
  qed
  then have inv: "cc_inv ?c" using i(1) by (auto simp: cc_inv_def)
  have "owned ?c + mset (snd ?e @ pool (fst ?e)) = owned c" using i(2) o by (simp add: ac_simps)
  then show ?thesis using inv CClear by (simp add: cc_clear_def case_prod_beta Let_def)
qed

lemma cc_new_inv: "cc_inv chunk_cache_new" "owned chunk_cache_new = {#}"
proof -
  have n: "0 < CACHE_CAPACITY div kAssoc" "CACHE_CAPACITY div kAssoc < 2 ^ 64" by (simp_all add: CACHE_CAPACITY_def kAssoc_def)
  note c = clock_new_ok[OF n]
  show o: "owned chunk_cache_new = {#}" by (simp add: owned_def chunk_cache_new_def c)
  show "cc_inv chunk_cache_new" unfolding cc_inv_def o by (simp add: chunk_cache_new_def c um_contains_def)
qed

lemma cc_run_facts:
  assumes "cc_inv c" "cc_runs_admitted ops c"
  shows "\<exists>c' del tk. cc_run ops c = Some (c', del, tk) \<and> cc_inv c' \<and>
    owned c' + mset del + mset tk = owned c + inserted ops"
  using assms
proof (induction ops arbitrary: c)
  case (Cons op ops)
  have adm: "cc_admits op c" using Cons.prems(2) by simp
  obtain c1 del tk where s: "cc_step op c = Some (c1, del, tk)" "cc_inv c1"
    "owned c1 + mset del + mset tk = owned c + inserted [op]"
    using cc_step_facts[OF Cons.prems(1) adm] by blast
  then obtain c2 del' tk' where r: "cc_run ops c1 = Some (c2, del', tk')" "cc_inv c2"
    "owned c2 + mset del' + mset tk' = owned c1 + inserted ops"
    using Cons.IH[OF s(2)] Cons.prems(2) by auto
  have ins: "inserted (op # ops) = inserted [op] + inserted ops" by (cases op) simp_all
  have "owned c2 + mset (del @ del') + mset (tk @ tk') = (owned c2 + mset del' + mset tk') + (mset del + mset tk)"
    by (simp add: ac_simps)
  also have "\<dots> = (owned c1 + mset del + mset tk) + inserted ops" unfolding r(3) by (simp add: ac_simps)
  also have "\<dots> = owned c + inserted (op # ops)" unfolding s(3) ins by (simp add: ac_simps)
  finally have "owned c2 + mset (del @ del') + mset (tk @ tk') = owned c + inserted (op # ops)" .
  moreover have "cc_run (op # ops) c = Some (c2, del @ del', tk @ tk')" using s(1) r(1) by simp
  ultimately show ?case using r(2) by blast
qed simp

text \<open>C16: after any admitted sequence of inserts, lookups, erasures, pins, releases, pool withdrawals and
  clears, every chunk that was handed to the cache is in exactly one place: cached, pooled, waiting for
  a pin, freed, or given back; none leaks and none is held or freed twice. The pool never exceeds its
  cap, and a pinned chunk is still cached or waits for its last pin.\<close>

theorem chunk_ownership:
  assumes "cc_runs_admitted ops chunk_cache_new"
  shows "\<exists>c del tk. cc_run ops chunk_cache_new = Some (c, del, tk) \<and>
    clock_held (cch c) + mset (pool c) + mset (pending_evict c) + mset del + mset tk = inserted ops \<and>
    count (clock_held (cch c) + mset (pool c) + mset (pending_evict c)) p \<le> 1 \<and> length (pool c) \<le> POOL_CAP \<and>
    list_all (\<lambda>q. q \<in># clock_held (cch c) \<or> q \<in> set (pending_evict c)) (map fst (pinned c))"
proof -
  obtain c del tk where r: "cc_run ops chunk_cache_new = Some (c, del, tk)" "cc_inv c"
    "owned c + mset del + mset tk = inserted ops"
    using cc_run_facts[OF cc_new_inv(1) assms] cc_new_inv(2) by auto
  have "list_all (\<lambda>q. q \<in># clock_held (cch c) \<or> q \<in> set (pending_evict c)) (map fst (pinned c))"
    using r(2) by (auto simp: cc_inv_def list_all_iff um_contains_iff)
  moreover have "count (owned c) p \<le> 1" "length (pool c) \<le> POOL_CAP" using r(2) by (simp_all add: cc_inv_def)
  ultimately show ?thesis using r(1,3) unfolding owned_def by blast
qed

theorem chunk_ownership_witness:
  "\<exists>c del tk. cc_run [CPut 7 64, CPin 7, CErase 7, CRelease 64, CTake] chunk_cache_new = Some (c, del, tk) \<and>
    clock_held (cch c) + mset (pool c) + mset (pending_evict c) + mset del + mset tk =
      inserted [CPut 7 64, CPin 7, CErase 7, CRelease 64, CTake] \<and>
    count (clock_held (cch c) + mset (pool c) + mset (pending_evict c)) 64 \<le> 1 \<and> length (pool c) \<le> POOL_CAP \<and>
    list_all (\<lambda>q. q \<in># clock_held (cch c) \<or> q \<in> set (pending_evict c)) (map fst (pinned c))"
proof -
  have "cc_runs_admitted [CPut 7 64, CPin 7, CErase 7, CRelease 64, CTake] chunk_cache_new"
  proof -
    have n: "0 < CACHE_CAPACITY div kAssoc" "CACHE_CAPACITY div kAssoc < 2 ^ 64" by (simp_all add: CACHE_CAPACITY_def kAssoc_def)
    have a: "cc_admits (CPut 7 64) chunk_cache_new"
      using clock_new_ok(3)[OF n] cc_new_inv(2) by (simp add: chunk_cache_new_def)
    obtain c1 del tk where "cc_step (CPut 7 64) chunk_cache_new = Some (c1, del, tk)"
      using cc_step_facts[OF cc_new_inv(1) a] by blast
    then show ?thesis using a by (auto simp: case_prod_beta Let_def split: option.splits)
  qed
  then show ?thesis by (rule chunk_ownership)
qed

end
