(* ===== verification/LmdbStore.thy ===== *)
theory LmdbStore
  imports Prelude Coords
begin

text \<open>
  \<open>LmdbStore\<close> of \<open>src/apps/chunk_store/Storage/disk/LmdbStore.{h,cpp}\<close>: opening the environment, reading a
  chunk, writing one chunk with one retry after growing the map, and writing a batch in one
  transaction with the fall-backs for a full map. LMDB itself is a parameter, the record \<open>lmdb_api\<close> of
  the calls the code makes over an unknown type of environments; \<open>lmdb_laws\<close> states what the code
  relies on: a transaction sees what was put into it, a successful commit makes exactly that
  durable, and every other call leaves the durable content alone. The log is not modelled.
\<close>

section \<open>The LMDB interface\<close>

type_synonym bytes = "u8 list"

record 'db lmdb_api =
  mdb_env_create :: "'db \<Rightarrow> int \<times> 'db"
  mdb_env_set_maxdbs :: "'db \<Rightarrow> int \<times> 'db"
  mdb_env_set_maxreaders :: "'db \<Rightarrow> int \<times> 'db"
  mdb_env_set_mapsize :: "u64 \<Rightarrow> 'db \<Rightarrow> int \<times> 'db"
  mdb_env_open :: "'db \<Rightarrow> int \<times> 'db"
  mdb_env_info :: "'db \<Rightarrow> int \<times> u64"
  mdb_txn_begin :: "bool \<Rightarrow> 'db \<Rightarrow> int \<times> 'db"
  mdb_dbi_open :: "'db \<Rightarrow> int \<times> 'db"
  mdb_put :: "u64 \<Rightarrow> bytes \<Rightarrow> 'db \<Rightarrow> int \<times> 'db"
  mdb_get :: "u64 \<Rightarrow> 'db \<Rightarrow> int \<times> bytes"
  mdb_txn_commit :: "'db \<Rightarrow> int \<times> 'db"
  mdb_txn_abort :: "'db \<Rightarrow> 'db"
  durable :: "'db \<Rightarrow> u64 \<Rightarrow> bytes option"
  in_txn :: "'db \<Rightarrow> u64 \<Rightarrow> bytes option"

definition MDB_NOTFOUND :: int where "MDB_NOTFOUND = - 30798"
definition MDB_MAP_FULL :: int where "MDB_MAP_FULL = - 30792"

definition lmdb_laws :: "'db lmdb_api \<Rightarrow> bool" where
  "lmdb_laws M \<longleftrightarrow>
     (\<forall>ro db. durable M (snd (mdb_txn_begin M ro db)) = durable M db \<and>
        (fst (mdb_txn_begin M ro db) = 0 \<longrightarrow> in_txn M (snd (mdb_txn_begin M ro db)) = durable M db)) \<and>
     (\<forall>k v db. durable M (snd (mdb_put M k v db)) = durable M db \<and>
        (fst (mdb_put M k v db) = 0 \<longrightarrow> in_txn M (snd (mdb_put M k v db)) = (in_txn M db)(k \<mapsto> v)) \<and>
        (fst (mdb_put M k v db) \<noteq> 0 \<and> fst (mdb_put M k v db) \<noteq> MDB_MAP_FULL \<longrightarrow>
           in_txn M (snd (mdb_put M k v db)) = in_txn M db)) \<and>
     (\<forall>db. durable M (snd (mdb_txn_commit M db)) = (if fst (mdb_txn_commit M db) = 0 then in_txn M db else durable M db)) \<and>
     (\<forall>db. durable M (mdb_txn_abort M db) = durable M db) \<and>
     (\<forall>n db. durable M (snd (mdb_env_set_mapsize M n db)) = durable M db) \<and>
     (\<forall>k db. (fst (mdb_get M k db) = 0 \<longrightarrow> in_txn M db k = Some (snd (mdb_get M k db))) \<and>
        (fst (mdb_get M k db) = MDB_NOTFOUND \<longrightarrow> in_txn M db k = None))"

section \<open>The store\<close>

record 'db lmdb_store =
  lenv :: 'db
  envOpen :: bool
  maxMapSize :: u64

datatype read_error = NotFound | Failed

definition DEFAULT_MAP_SIZE :: u64 where "DEFAULT_MAP_SIZE = 4 * 1024 * 1024 * 1024"

text \<open>\<open>open_env\<close>: every failure closes what was built and leaves the store inert.\<close>

definition open_env :: "'db lmdb_api \<Rightarrow> 'db lmdb_store \<Rightarrow> bool \<times> 'db lmdb_store" where
  "open_env M s =
     (let fail = (\<lambda>db. (False, s\<lparr>lenv := db, envOpen := False\<rparr>)); (rc, db) = mdb_env_create M (lenv s) in
      if rc \<noteq> 0 then fail db else
      let (rc, db) = mdb_env_set_maxdbs M db in if rc \<noteq> 0 then fail db else
      let (rc, db) = mdb_env_set_maxreaders M db in if rc \<noteq> 0 then fail db else
      let (rc, db) = mdb_env_set_mapsize M (min (maxMapSize s) DEFAULT_MAP_SIZE) db in if rc \<noteq> 0 then fail db else
      let (rc, db) = mdb_env_open M db in if rc \<noteq> 0 then fail db else
      let (rc, db) = mdb_txn_begin M False db in if rc \<noteq> 0 then fail db else
      let (rc, db) = mdb_dbi_open M db in if rc \<noteq> 0 then fail (mdb_txn_abort M db) else
      let (rc, db) = mdb_txn_commit M db in if rc \<noteq> 0 then fail db else
      (True, s\<lparr>lenv := db, envOpen := True\<rparr>))"

definition makeKey :: "i32 \<Rightarrow> i32 \<Rightarrow> i32 \<Rightarrow> u64" where
  "makeKey cx cy cz =
     (let x = scast cx + CHUNK_KEY_BIAS; y = scast cy + CHUNK_KEY_BIAS; z = scast cz + CHUNK_KEY_BIAS
      in push_bit 42 x OR push_bit 21 y OR z)"

definition lmdb_HasChunk :: "'db lmdb_api \<Rightarrow> u64 \<Rightarrow> 'db lmdb_store \<Rightarrow> bool \<times> 'db lmdb_store" where
  "lmdb_HasChunk M key s =
     (if \<not> envOpen s then (False, s)
      else let (rc, db) = mdb_txn_begin M True (lenv s) in
        if rc \<noteq> 0 then (False, s\<lparr>lenv := db\<rparr>)
        else let (rc, _) = mdb_get M key db in (rc = 0, s\<lparr>lenv := mdb_txn_abort M db\<rparr>))"

definition readRawBytes :: "'db lmdb_api \<Rightarrow> u64 \<Rightarrow> 'db lmdb_store \<Rightarrow> (read_error + bytes) \<times> 'db lmdb_store" where
  "readRawBytes M key s =
     (if \<not> envOpen s then (Inl Failed, s)
      else let (rc, db) = mdb_txn_begin M True (lenv s) in
        if rc \<noteq> 0 then (Inl Failed, s\<lparr>lenv := db\<rparr>)
        else let (rc, data) = mdb_get M key db; s' = s\<lparr>lenv := mdb_txn_abort M db\<rparr> in
          if rc = MDB_NOTFOUND then (Inl NotFound, s')
          else if rc \<noteq> 0 then (Inl Failed, s')
          else (Inr data, s'))"

definition growMapSize :: "'db lmdb_api \<Rightarrow> 'db lmdb_store \<Rightarrow> bool \<times> 'db lmdb_store" where
  "growMapSize M s =
     (if \<not> envOpen s then (False, s)
      else let (rc, old_size) = mdb_env_info M (lenv s) in
        if rc \<noteq> 0 then (False, s)
        else let new_size = min (old_size * 2) (maxMapSize s) in
          if new_size \<le> old_size then (False, s)
          else let (rc, db) = mdb_env_set_mapsize M new_size (lenv s) in (rc = 0, s\<lparr>lenv := db\<rparr>))"

text \<open>The two attempts of \<open>writeRaw\<close>: \<open>attempts\<close> is the number left.\<close>

fun writeRaw_loop :: "'db lmdb_api \<Rightarrow> nat \<Rightarrow> u64 \<Rightarrow> bytes \<Rightarrow> 'db lmdb_store \<Rightarrow> bool \<times> 'db lmdb_store" where
  "writeRaw_loop M 0 key data s = (False, s)"
| "writeRaw_loop M (Suc attempts) key data s =
     (let (rc, db) = mdb_txn_begin M False (lenv s) in
      if rc \<noteq> 0 then (False, s\<lparr>lenv := db\<rparr>)
      else let (rc, db) = mdb_put M key data db in
        if rc = MDB_MAP_FULL then
          (let (grown, s') = growMapSize M (s\<lparr>lenv := mdb_txn_abort M db\<rparr>)
           in if \<not> grown then (False, s') else writeRaw_loop M attempts key data s')
        else if rc \<noteq> 0 then (False, s\<lparr>lenv := mdb_txn_abort M db\<rparr>)
        else let (rc, db) = mdb_txn_commit M db in (rc = 0, s\<lparr>lenv := db\<rparr>))"

definition writeRaw :: "'db lmdb_api \<Rightarrow> u64 \<Rightarrow> bytes \<Rightarrow> 'db lmdb_store \<Rightarrow> bool \<times> 'db lmdb_store" where
  "writeRaw M key data s = (if \<not> envOpen s then (False, s) else writeRaw_loop M 2 key data s)"

text \<open>The put loop of one round: the number of entries put, and the return code that stopped it (0 at the
  end of the batch).\<close>

fun put_loop :: "'db lmdb_api \<Rightarrow> (u64 \<times> bytes) list \<Rightarrow> 'db \<Rightarrow> nat \<times> int \<times> 'db" where
  "put_loop M [] db = (0, 0, db)"
| "put_loop M ((key, pal) # items) db =
     (let (rc, db) = mdb_put M key pal db in
      if rc \<noteq> 0 then (0, rc, db)
      else let (i, rc, db) = put_loop M items db in (Suc i, rc, db))"

text \<open>The per-chunk loop: \<open>Inl\<close> is the \<open>return false\<close> of the transaction macros, which leaves the batch as it
  was; \<open>Inr\<close> the number of entries written.\<close>

fun persist_loop :: "'db lmdb_api \<Rightarrow> (u64 \<times> bytes) list \<Rightarrow> 'db \<Rightarrow> ('db + nat \<times> 'db)" where
  "persist_loop M [] db = Inr (0, db)"
| "persist_loop M ((key, pal) # items) db =
     (let (rc, db) = mdb_txn_begin M False db in
      if rc \<noteq> 0 then Inl db
      else let (rc, db) = mdb_put M key pal db in
        if rc \<noteq> 0 then Inr (0, mdb_txn_abort M db)
        else let (rc, db) = mdb_txn_commit M db in
          if rc \<noteq> 0 then Inl db
          else (case persist_loop M items db of Inl db \<Rightarrow> Inl db | Inr (n, db) \<Rightarrow> Inr (Suc n, db)))"

definition persistPrefixAndReturnRemainder ::
  "'db lmdb_api \<Rightarrow> (u64 \<times> bytes) list \<Rightarrow> 'db lmdb_store \<Rightarrow> bool \<times> (u64 \<times> bytes) list \<times> 'db lmdb_store" where
  "persistPrefixAndReturnRemainder M items s =
     (case persist_loop M items (lenv s) of
        Inl db \<Rightarrow> (False, items, s\<lparr>lenv := db\<rparr>)
      | Inr (n, db) \<Rightarrow>
          if n = 0 then (False, items, s\<lparr>lenv := db\<rparr>) else (True, drop n items, s\<lparr>lenv := db\<rparr>))"

fun writeBatch_rounds ::
  "'db lmdb_api \<Rightarrow> nat \<Rightarrow> (u64 \<times> bytes) list \<Rightarrow> 'db lmdb_store \<Rightarrow> bool \<times> (u64 \<times> bytes) list \<times> 'db lmdb_store" where
  "writeBatch_rounds M 0 items s = (False, items, s)"
| "writeBatch_rounds M (Suc rounds) items s =
     (let (rc, db) = mdb_txn_begin M False (lenv s) in
      if rc \<noteq> 0 then (False, items, s\<lparr>lenv := db\<rparr>)
      else let (i, rc, db) = put_loop M items db in
        if rc \<noteq> 0 \<and> rc \<noteq> MDB_MAP_FULL then
          (if i > 0 then
             (let (rc, db) = mdb_txn_commit M db
              in if rc \<noteq> 0 then (False, items, s\<lparr>lenv := db\<rparr>) else (False, drop i items, s\<lparr>lenv := db\<rparr>))
           else (False, items, s\<lparr>lenv := mdb_txn_abort M db\<rparr>))
        else if i = length items then
          (let (rc, db) = mdb_txn_commit M db
           in if rc \<noteq> 0 then (False, items, s\<lparr>lenv := db\<rparr>) else (True, [], s\<lparr>lenv := db\<rparr>))
        else
          (let (grown, s') = growMapSize M (s\<lparr>lenv := mdb_txn_abort M db\<rparr>)
           in if \<not> grown then (let (_, items', s'') = persistPrefixAndReturnRemainder M items s' in (False, items', s''))
              else writeBatch_rounds M rounds items s'))"

definition kMaxRounds :: nat where "kMaxRounds = 8"

definition writeBatch ::
  "'db lmdb_api \<Rightarrow> (u64 \<times> bytes) list \<Rightarrow> 'db lmdb_store \<Rightarrow> bool \<times> (u64 \<times> bytes) list \<times> 'db lmdb_store" where
  "writeBatch M items s =
     (if \<not> envOpen s then (False, items, s)
      else if items = [] then (True, [], s)
      else writeBatch_rounds M kMaxRounds items s)"

section \<open>What reaches the disk\<close>

abbreviation disk_of :: "'db lmdb_api \<Rightarrow> 'db lmdb_store \<Rightarrow> u64 \<Rightarrow> bytes option" where
  "disk_of M s \<equiv> durable M (lenv s)"

definition apply_items :: "(u64 \<Rightarrow> bytes option) \<Rightarrow> (u64 \<times> bytes) list \<Rightarrow> (u64 \<Rightarrow> bytes option)" where
  "apply_items m items = foldl (\<lambda>m (k, v). m(k \<mapsto> v)) m items"

lemma apply_items_simps [simp]:
  "apply_items m [] = m" "apply_items m ((k, v) # items) = apply_items (m(k \<mapsto> v)) items"
  "apply_items m (xs @ ys) = apply_items (apply_items m xs) ys"
  by (simp_all add: apply_items_def)

lemma apply_items_map: "apply_items m items = m ++ map_of (rev items)"
  by (induction items arbitrary: m) (auto simp: map_add_def fun_eq_iff split: option.splits)

lemma apply_again: "apply_items (apply_items m xs) xs = apply_items m xs"
proof -
  have "f ++ f = f" for f :: "u64 \<Rightarrow> bytes option" by (rule ext) (simp add: map_add_def split: option.split)
  then show ?thesis by (simp add: apply_items_map flip: map_add_assoc)
qed

lemma laws_simps:
  assumes "lmdb_laws M"
  shows "durable M (snd (mdb_txn_begin M ro db)) = durable M db"
    "fst (mdb_txn_begin M ro db) = 0 \<Longrightarrow> in_txn M (snd (mdb_txn_begin M ro db)) = durable M db"
    "durable M (snd (mdb_put M k v db)) = durable M db"
    "fst (mdb_put M k v db) = 0 \<Longrightarrow> in_txn M (snd (mdb_put M k v db)) = (in_txn M db)(k \<mapsto> v)"
    "fst (mdb_put M k v db) \<noteq> 0 \<Longrightarrow> fst (mdb_put M k v db) \<noteq> MDB_MAP_FULL \<Longrightarrow> in_txn M (snd (mdb_put M k v db)) = in_txn M db"
    "durable M (snd (mdb_txn_commit M db)) = (if fst (mdb_txn_commit M db) = 0 then in_txn M db else durable M db)"
    "durable M (mdb_txn_abort M db) = durable M db"
    "durable M (snd (mdb_env_set_mapsize M n db)) = durable M db"
    "fst (mdb_get M k db) = 0 \<Longrightarrow> in_txn M db k = Some (snd (mdb_get M k db))"
    "fst (mdb_get M k db) = MDB_NOTFOUND \<Longrightarrow> in_txn M db k = None"
  using assms unfolding lmdb_laws_def by blast+

lemma grow_durable:
  assumes "lmdb_laws M"
  shows "disk_of M (snd (growMapSize M s)) = disk_of M s" "envOpen (snd (growMapSize M s)) = envOpen s"
  using laws_simps(8)[OF assms] by (auto simp: growMapSize_def case_prod_beta Let_def)

lemma read_facts:
  assumes "lmdb_laws M"
  shows "disk_of M (snd (readRawBytes M key s)) = disk_of M s" "envOpen (snd (readRawBytes M key s)) = envOpen s"
    "fst (readRawBytes M key s) = Inr data \<Longrightarrow> disk_of M s key = Some data"
    "fst (readRawBytes M key s) = Inl NotFound \<Longrightarrow> disk_of M s key = None"
  using laws_simps(1,7)[OF assms] laws_simps(2)[OF assms, of True "lenv s"]
    laws_simps(9,10)[OF assms, of key "snd (mdb_txn_begin M True (lenv s))"]
  by (auto simp: readRawBytes_def case_prod_beta Let_def split: if_splits)

lemma writeRaw_loop_facts:
  assumes "lmdb_laws M"
  shows "disk_of M (snd (writeRaw_loop M n key data s)) =
      (if fst (writeRaw_loop M n key data s) then (disk_of M s)(key \<mapsto> data) else disk_of M s) \<and>
    envOpen (snd (writeRaw_loop M n key data s)) = envOpen s"
proof (induction n arbitrary: s)
  case (Suc n)
  let ?b = "mdb_txn_begin M False (lenv s)" let ?p = "mdb_put M key data (snd ?b)"
  note l = laws_simps[OF assms]
  show ?case
  proof (cases "fst ?b = 0 \<and> fst ?p = MDB_MAP_FULL")
    case True
    let ?s = "s\<lparr>lenv := mdb_txn_abort M (snd ?p)\<rparr>" let ?g = "growMapSize M ?s"
    have "disk_of M (snd ?g) = disk_of M s" "envOpen (snd ?g) = envOpen s"
      using grow_durable[OF assms, of ?s] l(1,3,7) by simp_all
    moreover have "writeRaw_loop M (Suc n) key data s = (if fst ?g then writeRaw_loop M n key data (snd ?g) else (False, snd ?g))"
      using True by (simp add: case_prod_beta Let_def)
    ultimately show ?thesis using Suc.IH[of "snd ?g"] by simp
  next
    case False
    then show ?thesis
      using l(1,3,7) l(2)[of False "lenv s"] l(4)[of key data "snd ?b"] l(6)[of "snd ?p"]
      by (auto simp: case_prod_beta Let_def)
  qed
qed simp

lemma writeRaw_facts:
  assumes "lmdb_laws M"
  shows "disk_of M (snd (writeRaw M key data s)) = (if fst (writeRaw M key data s) then (disk_of M s)(key \<mapsto> data) else disk_of M s)"
    "envOpen (snd (writeRaw M key data s)) = envOpen s"
  using writeRaw_loop_facts[OF assms, of 2 key data s] by (auto simp: writeRaw_def)

lemma put_loop_facts:
  assumes "lmdb_laws M" "put_loop M items db = (i, rc, db')"
  shows "durable M db' = durable M db \<and> i \<le> length items \<and> (rc = 0 \<longrightarrow> i = length items) \<and> (rc \<noteq> 0 \<longrightarrow> i < length items) \<and>
    (rc \<noteq> MDB_MAP_FULL \<longrightarrow> in_txn M db' = apply_items (in_txn M db) (take i items))"
  using assms(2)
proof (induction items arbitrary: db i)
  case (Cons it items)
  obtain key pal where it: "it = (key, pal)" by (cases it)
  let ?p = "mdb_put M key pal db"
  note l = laws_simps[OF assms(1)]
  show ?case
  proof (cases "fst ?p = 0")
    case True
    obtain j rc' db'' where q: "put_loop M items (snd ?p) = (j, rc', db'')" by (metis prod_cases3)
    then have j: "put_loop M items (snd ?p) = (j, rc, db')" "i = Suc j"
      using Cons.prems True it by (auto simp: case_prod_beta Let_def)
    show ?thesis
      using Cons.IH[OF j(1), unfolded l(3)[of key pal db] l(4)[OF True]] by (simp add: j(2) it del: fun_upd_apply)
  next
    case False
    then have "i = 0" "rc = fst ?p" "db' = snd ?p" using Cons.prems it by (auto simp: case_prod_beta Let_def)
    then show ?thesis using False l(3)[of key pal db] l(5)[OF False] it by auto
  qed
qed auto

lemma persist_loop_facts:
  assumes "lmdb_laws M"
  shows "case persist_loop M items db of
      Inl db' \<Rightarrow> \<exists>n \<le> length items. durable M db' = apply_items (durable M db) (take n items)
    | Inr (n, db') \<Rightarrow> n \<le> length items \<and> durable M db' = apply_items (durable M db) (take n items)"
proof (induction items arbitrary: db)
  case (Cons it items)
  obtain key pal where it: "it = (key, pal)" by (cases it)
  let ?b = "mdb_txn_begin M False db" let ?p = "mdb_put M key pal (snd ?b)" let ?c = "mdb_txn_commit M (snd ?p)"
  note l = laws_simps[OF assms]
  show ?case
  proof (cases "fst ?b = 0 \<and> fst ?p = 0 \<and> fst ?c = 0")
    case True
    have d: "durable M (snd ?c) = (durable M db)(key \<mapsto> pal)" using l(6)[of "snd ?p"] l(4)[of key pal "snd ?b"] l(2)[of False db] True by simp
    have e: "persist_loop M (it # items) db = (case persist_loop M items (snd ?c) of Inl db \<Rightarrow> Inl db | Inr (n, db) \<Rightarrow> Inr (Suc n, db))"
      using True it by (simp add: case_prod_beta Let_def)
    show ?thesis
    proof (cases "persist_loop M items (snd ?c)")
      case (Inl db')
      then obtain n where "n \<le> length items" "durable M db' = apply_items (durable M (snd ?c)) (take n items)"
        using Cons.IH[of "snd ?c"] by auto
      then show ?thesis unfolding e using Inl d it by (auto intro!: exI[of _ "Suc n"])
    next
      case (Inr r)
      then show ?thesis unfolding e using Cons.IH[of "snd ?c"] d it by (cases r) auto
    qed
  next
    case False
    then show ?thesis
      using l(1,3,7) l(6)[of "snd ?p"] it
      by (auto simp: case_prod_beta Let_def intro!: exI[of _ 0])
  qed
qed simp

text \<open>The outcome of a batch: what comes back is a suffix of the batch, and the entries before it (at least)
  are on disk.\<close>

definition batch_outcome :: "(u64 \<Rightarrow> bytes option) \<Rightarrow> (u64 \<times> bytes) list \<Rightarrow> bool \<Rightarrow> (u64 \<times> bytes) list \<Rightarrow> (u64 \<Rightarrow> bytes option) \<Rightarrow> bool" where
  "batch_outcome d items ok items' d' \<longleftrightarrow>
     (\<exists>m n. m \<le> n \<and> n \<le> length items \<and> items' = drop m items \<and> d' = apply_items d (take n items)) \<and> (ok \<longrightarrow> items' = [])"

lemma batch_outcome_same: "batch_outcome d items False items d"
  unfolding batch_outcome_def by (auto intro!: exI[of _ 0])

lemma writeBatch_rounds_facts:
  assumes "lmdb_laws M" "writeBatch_rounds M r items s = (ok, items', s')"
  shows "batch_outcome (disk_of M s) items ok items' (disk_of M s') \<and> envOpen s' = envOpen s"
  using assms(2)
proof (induction r arbitrary: s)
  case 0
  then show ?case using batch_outcome_same by simp
next
  case (Suc r)
  let ?b = "mdb_txn_begin M False (lenv s)"
  note l = laws_simps[OF assms(1)]
  show ?case
  proof (cases "fst ?b = 0")
    case False
    then show ?thesis using Suc.prems l(1)[of False "lenv s"] batch_outcome_same
      by (auto simp: case_prod_beta Let_def)
  next
    case b: True
    obtain i rc db where p: "put_loop M items (snd ?b) = (i, rc, db)" by (metis prod_cases3)
    note pf = put_loop_facts[OF assms(1) p]
    have d: "durable M db = disk_of M s" using pf l(1)[of False "lenv s"] by simp
    have st: "in_txn M db = apply_items (disk_of M s) (take i items)" if "rc \<noteq> MDB_MAP_FULL"
      using pf that l(2)[OF b] by simp
    let ?c = "mdb_txn_commit M db"
    note e = Suc.prems[unfolded writeBatch_rounds.simps(2) case_prod_beta Let_def p fst_conv snd_conv, simplified b, simplified]
    have commit: "batch_outcome (disk_of M s) items (fst ?c = 0 \<and> i = length items) (if fst ?c = 0 then drop i items else items) (durable M (snd ?c))"
      if "rc \<noteq> MDB_MAP_FULL"
    proof (cases "fst ?c = 0")
      case True
      then have "durable M (snd ?c) = apply_items (disk_of M s) (take i items)" using l(6)[of db] st[OF that] by simp
      then show ?thesis using pf True unfolding batch_outcome_def by (auto intro!: exI[of _ i])
    next
      case False
      then show ?thesis using l(6)[of db] d batch_outcome_same by simp
    qed
    show ?thesis
    proof (cases "rc = MDB_MAP_FULL")
      case True
      then have i: "i \<noteq> length items" using pf by (auto simp: MDB_MAP_FULL_def)
      let ?s = "s\<lparr>lenv := mdb_txn_abort M db\<rparr>" let ?g = "growMapSize M ?s"
      have g: "disk_of M (snd ?g) = disk_of M s" "envOpen (snd ?g) = envOpen s"
        using grow_durable[OF assms(1), of ?s] l(7)[of db] d by simp_all
      show ?thesis
      proof (cases "fst ?g")
        case True
        then have "writeBatch_rounds M r items (snd ?g) = (ok, items', s')" using e i \<open>rc = MDB_MAP_FULL\<close> by simp
        from Suc.IH[OF this] show ?thesis by (simp add: g)
      next
        case False
        let ?q = "persistPrefixAndReturnRemainder M items (snd ?g)"
        have q: "ok = False" "items' = fst (snd ?q)" "s' = snd (snd ?q)" using e i False \<open>rc = MDB_MAP_FULL\<close> by auto
        have "batch_outcome (disk_of M s) items False (fst (snd ?q)) (disk_of M (snd (snd ?q))) \<and> envOpen (snd (snd ?q)) = envOpen s"
        proof (cases "persist_loop M items (lenv (snd ?g))")
          case (Inl db')
          then obtain n where "n \<le> length items" "durable M db' = apply_items (disk_of M s) (take n items)"
            using persist_loop_facts[OF assms(1), of items "lenv (snd ?g)"] g by auto
          then have "batch_outcome (disk_of M s) items False items (durable M db')"
            unfolding batch_outcome_def by (intro conjI exI[of _ 0] exI[of _ n]) auto
          then show ?thesis using Inl g by (simp add: persistPrefixAndReturnRemainder_def)
        next
          case (Inr nd)
          obtain n db' where nd: "nd = (n, db')" by (cases nd)
          have "n \<le> length items" "durable M db' = apply_items (disk_of M s) (take n items)"
            using persist_loop_facts[OF assms(1), of items "lenv (snd ?g)"] g Inr nd by auto
          then show ?thesis using Inr nd g unfolding batch_outcome_def persistPrefixAndReturnRemainder_def
            by (auto intro!: exI[of _ n])
        qed
        then show ?thesis using q by simp
      qed
    next
      case False
      show ?thesis
      proof (cases "rc = 0")
        case True
        then have "i = length items" using pf by simp
        then show ?thesis using e commit[OF False] True False by (auto split: if_splits)
      next
        case nz: False
        then have "i \<noteq> length items" using pf by simp
        then show ?thesis
          using e commit[OF False] nz False l(7)[of db] d batch_outcome_same by (auto split: if_splits)
      qed
    qed
  qed
qed

lemma batch_resumes:
  assumes "batch_outcome d items ok items' d'"
  shows "apply_items d' items' = apply_items d items"
proof -
  obtain m n where mn: "m \<le> n" "n \<le> length items" "items' = drop m items" "d' = apply_items d (take n items)"
    using assms by (auto simp: batch_outcome_def)
  define a b c where abc: "a = take m items" "b = take (n - m) (drop m items)" "c = drop n items"
  have n: "take n items = a @ b" unfolding abc using mn(1) by (metis le_add_diff_inverse take_add)
  have m: "drop m items = b @ c" unfolding abc using mn(1) by (metis append_take_drop_id drop_drop le_add_diff_inverse2)
  have i: "items = a @ b @ c" using m append_take_drop_id[of m items] by (simp add: abc(1))
  have "apply_items d' items' = apply_items (apply_items (apply_items (apply_items d a) b) b) c"
    unfolding mn(3,4) m n by simp
  also have "\<dots> = apply_items (apply_items (apply_items d a) b) c" by (simp add: apply_again)
  also have "\<dots> = apply_items d items" by (simp add: i)
  finally show ?thesis .
qed

section \<open>Properties\<close>

text \<open>C17: \<open>writeBatch\<close> never loses a chunk, whichever LMDB call fails in whichever round: what it hands back
  is a suffix of the batch, every entry before it is on disk, writing the rest later gives the same
  store as one successful batch would, and success means that the whole batch is on disk.\<close>

theorem writeBatch_loses_nothing:
  assumes "lmdb_laws M" "writeBatch M items s = (ok, items', s')"
  shows "apply_items (disk_of M s') items' = apply_items (disk_of M s) items \<and>
    batch_outcome (disk_of M s) items ok items' (disk_of M s') \<and>
    (if ok then disk_of M s' = apply_items (disk_of M s) items else True)"
proof -
  have b: "batch_outcome (disk_of M s) items ok items' (disk_of M s')"
    using assms(2) writeBatch_rounds_facts[OF assms(1), of kMaxRounds items s ok items' s'] batch_outcome_same
    by (auto simp: writeBatch_def batch_outcome_def split: if_splits)
  have "items' = []" if ok using b that by (simp add: batch_outcome_def)
  then show ?thesis using b batch_resumes[OF b] by auto
qed

text \<open>A small LMDB for the witness: committed content, transaction content, puts left in the transaction.
  Each transaction has room for one put, and the map does not grow.\<close>

definition tiny_lmdb :: "((u64 \<Rightarrow> bytes option) \<times> (u64 \<Rightarrow> bytes option) \<times> nat) lmdb_api" where
  "tiny_lmdb =
     \<lparr>mdb_env_create = (\<lambda>db. (0, db)), mdb_env_set_maxdbs = (\<lambda>db. (0, db)), mdb_env_set_maxreaders = (\<lambda>db. (0, db)),
      mdb_env_set_mapsize = (\<lambda>n db. (0, db)), mdb_env_open = (\<lambda>db. (0, db)), mdb_env_info = (\<lambda>db. (0, 100)),
      mdb_txn_begin = (\<lambda>ro (d, t, n). (0, (d, d, 1))), mdb_dbi_open = (\<lambda>db. (0, db)),
      mdb_put = (\<lambda>k v (d, t, n). if n = 0 then (MDB_MAP_FULL, (d, t, n)) else (0, (d, t(k \<mapsto> v), n - 1))),
      mdb_get = (\<lambda>k (d, t, n). case t k of None \<Rightarrow> (MDB_NOTFOUND, []) | Some v \<Rightarrow> (0, v)),
      mdb_txn_commit = (\<lambda>(d, t, n). (0, (t, t, 0))), mdb_txn_abort = (\<lambda>(d, t, n). (d, d, 0)),
      durable = (\<lambda>(d, t, n). d), in_txn = (\<lambda>(d, t, n). t)\<rparr>"

lemma tiny_laws: "lmdb_laws tiny_lmdb"
  by (auto simp: lmdb_laws_def tiny_lmdb_def case_prod_beta MDB_NOTFOUND_def MDB_MAP_FULL_def split: option.splits)

definition tiny_store :: "((u64 \<Rightarrow> bytes option) \<times> (u64 \<Rightarrow> bytes option) \<times> nat) lmdb_store" where
  "tiny_store = \<lparr>lenv = (Map.empty, Map.empty, 0), envOpen = True, maxMapSize = 100\<rparr>"

definition tiny_result :: "((u64 \<Rightarrow> bytes option) \<times> (u64 \<Rightarrow> bytes option) \<times> nat) lmdb_store" where
  "tiny_result = tiny_store\<lparr>lenv := ([5 \<mapsto> [1], 6 \<mapsto> [2]], [5 \<mapsto> [1], 6 \<mapsto> [2]], 0)\<rparr>"

theorem writeBatch_loses_nothing_witness:
  "writeBatch tiny_lmdb [(5, [1]), (6, [2])] tiny_store = (False, [], tiny_result) \<and>
   apply_items (disk_of tiny_lmdb tiny_result) [] = apply_items (disk_of tiny_lmdb tiny_store) [(5, [1]), (6, [2])] \<and>
    batch_outcome (disk_of tiny_lmdb tiny_store) [(5, [1]), (6, [2])] False [] (disk_of tiny_lmdb tiny_result) \<and>
    (if False then disk_of tiny_lmdb tiny_result = apply_items (disk_of tiny_lmdb tiny_store) [(5, [1]), (6, [2])] else True)"
proof -
  have w: "writeBatch tiny_lmdb [(5, [1]), (6, [2])] tiny_store = (False, [], tiny_result)"
    by (simp add: writeBatch_def tiny_store_def kMaxRounds_def eval_nat_numeral tiny_lmdb_def MDB_MAP_FULL_def growMapSize_def
        persistPrefixAndReturnRemainder_def tiny_result_def Let_def)
  show ?thesis using w writeBatch_loses_nothing[OF tiny_laws w] by blast
qed

end
