(* ===== verification/ChunkStore.thy ===== *)
theory ChunkStore
  imports MutableChunk ChunkCache LmdbStore
begin

text \<open>
  The chunk store: \<open>ChunkStore.cpp\<close>, \<open>CASHandler.cpp\<close>, \<open>EncodePipeline.cpp\<close> and \<open>disk/FlushPipeline.cpp\<close> of
  \<open>src/apps/chunk_store/Storage\<close>. The five parts are the fields of one record; \<open>cs_heap\<close> is the heap of
  \<open>MutableChunk\<close> objects by address. Each operation is one step of the state: the mutexes of the C++
  make the parts of an operation atomic, and the tasks posted to the I/O pool and the encode threads
  are operations of their own (\<open>load_chunk\<close>, \<open>encode_task\<close>, \<open>flush_palettes\<close>), so that a run is an
  interleaving. \<open>None\<close> is undefined behaviour: a dangling or null pointer, an empty callback list, or a
  section outside its invariant. LMDB and the address chosen by \<open>new\<close> are parameters.
\<close>

unbundle bit_operations_syntax

section \<open>State\<close>

type_synonym cas_change = "u32 \<times> u16 \<times> u8"

record 'db chunk_store =
  cs_cache :: chunk_cache
  cs_heap :: "(u64, chunk) umap"
  cs_lmdb :: "'db lmdb_store"
  cs_palettes :: "(u64, bytes) umap"
  cs_dirty :: "u64 list"
  cs_cas :: "(u64, cas_change list) umap"
  cs_gen_cbs :: "(u64, nat list) umap"
  cs_requests :: "u64 list"
  cs_batch :: "(u64 \<times> bytes) list"

type_synonym allocator = "(u64, chunk) umap \<Rightarrow> u64"

definition deref :: "u64 \<Rightarrow> 'db chunk_store \<Rightarrow> chunk option" where
  "deref p s = (if p = 0 then None else um_find (cs_heap s) p)"

definition free_chunks :: "u64 list \<Rightarrow> 'db chunk_store \<Rightarrow> 'db chunk_store" where
  "free_chunks ps s = s\<lparr>cs_heap := fold um_erase ps (cs_heap s)\<rparr>"

definition new_chunk :: "allocator \<Rightarrow> chunk \<Rightarrow> 'db chunk_store \<Rightarrow> u64 \<times> 'db chunk_store" where
  "new_chunk alloc c s = (let p = alloc (cs_heap s) in (p, s\<lparr>cs_heap := um_put p c (cs_heap s)\<rparr>))"

text \<open>\<open>takeFromPool()\<close>, or \<open>new MutableChunk()\<close> when the pool is empty: a recycled chunk keeps its content.\<close>

definition take_or_new :: "allocator \<Rightarrow> 'db chunk_store \<Rightarrow> u64 \<times> 'db chunk_store" where
  "take_or_new alloc s =
     (let (p, c) = takeFromPool (cs_cache s); s = s\<lparr>cs_cache := c\<rparr>
      in if p = 0 then new_chunk alloc chunk_new s else (p, s))"

definition putCached :: "u64 \<Rightarrow> u64 \<Rightarrow> 'db chunk_store \<Rightarrow> 'db chunk_store option" where
  "putCached key p s = map_option (\<lambda>(c, del). free_chunks del (s\<lparr>cs_cache := c\<rparr>)) (cc_put key p (cs_cache s))"

definition getCached :: "u64 \<Rightarrow> 'db chunk_store \<Rightarrow> u64 \<times> 'db chunk_store" where
  "getCached key s = (let (p, c) = cc_get key (cs_cache s) in (p, s\<lparr>cs_cache := c\<rparr>))"

definition markDirty :: "u64 \<Rightarrow> 'db chunk_store \<Rightarrow> 'db chunk_store" where
  "markDirty key s = s\<lparr>cs_dirty := List.insert key (cs_dirty s)\<rparr>"

definition store_read :: "'db lmdb_api \<Rightarrow> u64 \<Rightarrow> 'db chunk_store \<Rightarrow> (read_error + bytes) \<times> 'db chunk_store" where
  "store_read M key s = (let (r, l) = readRawBytes M key (cs_lmdb s) in (r, s\<lparr>cs_lmdb := l\<rparr>))"

definition store_write :: "'db lmdb_api \<Rightarrow> u64 \<Rightarrow> bytes \<Rightarrow> 'db chunk_store \<Rightarrow> bool \<times> 'db chunk_store" where
  "store_write M key d s = (let (ok, l) = writeRaw M key d (cs_lmdb s) in (ok, s\<lparr>cs_lmdb := l\<rparr>))"

section \<open>Coordinates\<close>

definition chunk_of :: "i32 \<Rightarrow> i32" where "chunk_of x = signed_drop_bit 5 x"
definition local_of :: "i32 \<Rightarrow> nat" where "local_of x = unat (x AND 31)"
definition block_key :: "i32 \<Rightarrow> i32 \<Rightarrow> i32 \<Rightarrow> u64" where
  "block_key x y z = makeKey (chunk_of x) (chunk_of y) (chunk_of z)"

section \<open>Reading\<close>

definition HasChunk :: "'db lmdb_api \<Rightarrow> u64 \<Rightarrow> 'db chunk_store \<Rightarrow> bool \<times> 'db chunk_store" where
  "HasChunk M key s =
     (let (p, s) = getCached key s in
      if p \<noteq> 0 then (True, s)
      else let (b, l) = lmdb_HasChunk M key (cs_lmdb s) in (b, s\<lparr>cs_lmdb := l\<rparr>))"

text \<open>The pointer is 0 for \<open>nullptr\<close>.\<close>

definition GetChunk :: "'db lmdb_api \<Rightarrow> allocator \<Rightarrow> u64 \<Rightarrow> 'db chunk_store \<Rightarrow> (u64 \<times> 'db chunk_store) option" where
  "GetChunk M alloc key s =
     (let (p, s) = getCached key s in
      if p \<noteq> 0 then Some (p, s)
      else let (wire, s) = store_read M key s in
        (case wire of
           Inl Failed \<Rightarrow> Some (0, s)
         | Inl NotFound \<Rightarrow>
             (let (p, s) = take_or_new alloc s in map_option (Pair p) (putCached key p s))
         | Inr w \<Rightarrow>
             (let (p, s) = take_or_new alloc s in
              (case mc_fromWire w of
                 None \<Rightarrow> Some (0, free_chunks [p] s)
               | Some c \<Rightarrow> map_option (Pair p) (putCached key p (s\<lparr>cs_heap := um_put p c (cs_heap s)\<rparr>))))))"

definition read_at :: "'db lmdb_api \<Rightarrow> allocator \<Rightarrow> (chunk \<Rightarrow> nat \<Rightarrow> nat \<Rightarrow> nat \<Rightarrow> 'a::zero option) \<Rightarrow>
    i32 \<Rightarrow> i32 \<Rightarrow> i32 \<Rightarrow> 'db chunk_store \<Rightarrow> ('a \<times> 'db chunk_store) option" where
  "read_at M alloc get x y z s =
     Option.bind (GetChunk M alloc (block_key x y z) s) (\<lambda>(p, s).
       if p = 0 then Some (0, s)
       else Option.bind (deref p s) (\<lambda>c.
            Option.bind (get c (local_of x) (local_of y) (local_of z)) (\<lambda>v. Some (v, s))))"

definition GetBlockAt :: "'db lmdb_api \<Rightarrow> allocator \<Rightarrow> i32 \<Rightarrow> i32 \<Rightarrow> i32 \<Rightarrow> 'db chunk_store \<Rightarrow> (u16 \<times> 'db chunk_store) option" where
  "GetBlockAt M alloc = read_at M alloc mc_getBlock"

definition GetMeta :: "'db lmdb_api \<Rightarrow> allocator \<Rightarrow> i32 \<Rightarrow> i32 \<Rightarrow> i32 \<Rightarrow> 'db chunk_store \<Rightarrow> (u8 \<times> 'db chunk_store) option" where
  "GetMeta M alloc = read_at M alloc mc_getMeta"

definition GetMultiblock :: "'db lmdb_api \<Rightarrow> allocator \<Rightarrow> i32 \<Rightarrow> i32 \<Rightarrow> i32 \<Rightarrow> 'db chunk_store \<Rightarrow> (u32 \<times> 'db chunk_store) option" where
  "GetMultiblock M alloc = read_at M alloc mc_getMultiblock"

section \<open>Writing\<close>

definition edit_chunk :: "i32 \<Rightarrow> i32 \<Rightarrow> i32 \<Rightarrow> u16 \<Rightarrow> u8 \<Rightarrow> chunk \<Rightarrow> chunk option" where
  "edit_chunk x y z bid m c =
     Option.bind (mc_setBlock (local_of x) (local_of y) (local_of z) bid c)
       (mc_setMeta (local_of x) (local_of y) (local_of z) m)"

text \<open>The two lines after every change: drop the encoded copy, mark the chunk dirty.\<close>

definition touched :: "u64 \<Rightarrow> 'db chunk_store \<Rightarrow> 'db chunk_store" where
  "touched key s = markDirty key (s\<lparr>cs_palettes := um_erase key (cs_palettes s)\<rparr>)"

definition store_setBlock ::
  "'db lmdb_api \<Rightarrow> allocator \<Rightarrow> i32 \<Rightarrow> i32 \<Rightarrow> i32 \<Rightarrow> u16 \<Rightarrow> u8 \<Rightarrow> 'db chunk_store \<Rightarrow> (bool \<times> 'db chunk_store) option" where
  "store_setBlock M alloc x y z bid m s =
     (let key = block_key x y z; (p, s) = getCached key s in
      if p = 0 then
        (let (wire, s) = store_read M key s in
         if wire = Inl Failed then Some (False, s)
         else
           Option.bind (case wire of Inr w \<Rightarrow> mc_after_fromWire w | Inl _ \<Rightarrow> Some chunk_new) (\<lambda>loc.
           Option.bind (edit_chunk x y z bid m loc) (\<lambda>loc.
             let (p, c) = takeFromPool (cs_cache s);
                 s = s\<lparr>cs_cache := c\<rparr>;
                 (p, s) = (if p = 0 then new_chunk alloc loc s else (p, s\<lparr>cs_heap := um_put p loc (cs_heap s)\<rparr>))
             in map_option (\<lambda>s. (True, touched key s)) (putCached key p s))))
      else
        Option.bind (deref p s) (\<lambda>c.
        Option.bind (edit_chunk x y z bid m c) (\<lambda>c.
          Some (True, touched key (s\<lparr>cs_heap := um_put p c (cs_heap s)\<rparr>)))))"

text \<open>The request handler's entry point: the chunk coordinate is passed on as if it were the position of the
  block, the position and the multiblock id are not used.\<close>

definition store_SetBlock ::
  "'db lmdb_api \<Rightarrow> allocator \<Rightarrow> chunk_coord \<Rightarrow> i32 \<times> i32 \<times> i32 \<Rightarrow> u16 \<Rightarrow> u8 \<Rightarrow> u32 \<Rightarrow> 'db chunk_store \<Rightarrow>
    (bool \<times> 'db chunk_store) option" where
  "store_SetBlock M alloc coord pos bid m mbId s = store_setBlock M alloc (ccx coord) (ccy coord) (ccz coord) bid m s"

definition SaveChunk :: "'db lmdb_api \<Rightarrow> chunk \<Rightarrow> u64 \<Rightarrow> 'db chunk_store \<Rightarrow> (bool \<times> 'db chunk_store) option" where
  "SaveChunk M c key s = Option.bind (mc_encodeToWire c) (\<lambda>w. Some (store_write M key w s))"

section \<open>Compare and swap\<close>

datatype cas_result = Conflict u16 u8 | CasOk u16 u8

definition cas_index :: "nat \<Rightarrow> nat \<Rightarrow> nat \<Rightarrow> u32" where
  "cas_index lx ly lz = push_bit 10 (of_nat ly) OR push_bit 5 (of_nat lz) OR of_nat lx"

definition queue_change :: "u64 \<Rightarrow> cas_change \<Rightarrow> 'db chunk_store \<Rightarrow> 'db chunk_store" where
  "queue_change key ch s =
     s\<lparr>cs_cas := um_put key ((case um_find (cs_cas s) key of None \<Rightarrow> [] | Some l \<Rightarrow> l) @ [ch]) (cs_cas s)\<rparr>"

definition casBlock ::
  "'db lmdb_api \<Rightarrow> allocator \<Rightarrow> i32 \<Rightarrow> i32 \<Rightarrow> i32 \<Rightarrow> u16 \<Rightarrow> u16 \<Rightarrow> u8 \<Rightarrow> 'db chunk_store \<Rightarrow> (cas_result \<times> 'db chunk_store) option" where
  "casBlock M alloc x y z expected bid m s =
     (let key = block_key x y z; lx = local_of x; ly = local_of y; lz = local_of z;
          change = (cas_index lx ly lz, bid, m); (p, s) = getCached key s in
      if p = 0 then
        (let (wire, s) = store_read M key s in
         case wire of
           Inl _ \<Rightarrow> Some (Conflict 0 0, s)
         | Inr w \<Rightarrow>
             (case mc_fromWire w of
                None \<Rightarrow> Some (Conflict 0 0, s)
              | Some loc \<Rightarrow>
                  Option.bind (mc_getBlock loc lx ly lz) (\<lambda>cur.
                  Option.bind (mc_getMeta loc lx ly lz) (\<lambda>cur_m.
                    if cur \<noteq> expected then Some (Conflict cur cur_m, s)
                    else Option.bind (edit_chunk x y z bid m loc) (\<lambda>loc.
                      let (p, s) = new_chunk alloc loc s
                      in map_option (\<lambda>s. (CasOk bid m, touched key (queue_change key change s))) (putCached key p s))))))
      else
        Option.bind (deref p s) (\<lambda>c.
        Option.bind (mc_getBlock c lx ly lz) (\<lambda>cur.
        Option.bind (mc_getMeta c lx ly lz) (\<lambda>cur_m.
          if cur \<noteq> expected then Some (Conflict cur cur_m, s)
          else Option.bind (edit_chunk x y z bid m c) (\<lambda>c.
            Some (CasOk bid m, touched key (queue_change key change (s\<lparr>cs_heap := um_put p c (cs_heap s)\<rparr>))))))))"

text \<open>How the flush takes the coordinates out of a queued index.\<close>

definition flush_coords :: "u32 \<Rightarrow> nat \<times> nat \<times> nat" where
  "flush_coords idx = (unat (idx AND 0xF), unat (drop_bit 8 idx AND 0xF), unat (drop_bit 4 idx AND 0xF))"

fun apply_changes :: "cas_change list \<Rightarrow> chunk \<Rightarrow> chunk option" where
  "apply_changes [] c = Some c"
| "apply_changes ((idx, bid, m) # chs) c =
     (let (lx, ly, lz) = flush_coords idx in
      Option.bind (mc_setBlock lx ly lz bid c) (\<lambda>c.
      Option.bind (mc_setMeta lx ly lz m c) (apply_changes chs)))"

text \<open>One chunk of the flush; the flag tells whether the key goes to \<open>deferred\<close>.\<close>

definition cas_flush_one :: "'db lmdb_api \<Rightarrow> u64 \<Rightarrow> cas_change list \<Rightarrow> 'db chunk_store \<Rightarrow> (bool \<times> 'db chunk_store) option" where
  "cas_flush_one M key chs s =
     (let (wire, s) = store_read M key s in
      case wire of
        Inl Failed \<Rightarrow> Some (True, s)
      | Inl NotFound \<Rightarrow> Some (False, s)
      | Inr w \<Rightarrow>
          (case mc_fromWire w of
             None \<Rightarrow> Some (False, s)
           | Some c \<Rightarrow>
               Option.bind (apply_changes chs c) (\<lambda>c.
               Option.bind (mc_encodeToWire c) (\<lambda>e.
                 let (ok, s) = store_write M key e s in Some (\<not> ok, s)))))"

fun cas_flush_loop :: "'db lmdb_api \<Rightarrow> (u64 \<times> cas_change list) list \<Rightarrow> 'db chunk_store \<Rightarrow> (u64 list \<times> 'db chunk_store) option" where
  "cas_flush_loop M [] s = Some ([], s)"
| "cas_flush_loop M ((key, chs) # rest) s =
     Option.bind (cas_flush_one M key chs s) (\<lambda>(defer, s).
       map_option (\<lambda>(ds, s). (if defer then key # ds else ds, s)) (cas_flush_loop M rest s))"

definition cas_flush :: "'db lmdb_api \<Rightarrow> 'db chunk_store \<Rightarrow> (nat \<times> 'db chunk_store) option" where
  "cas_flush M s =
     (if cs_cas s = [] then Some (0, s)
      else map_option (\<lambda>(deferred, s').
             (length (cs_cas s) - length deferred, s'\<lparr>cs_cas := fold um_erase deferred (cs_cas s')\<rparr>))
           (cas_flush_loop M (cs_cas s) s))"

definition cas_clear :: "'db chunk_store \<Rightarrow> 'db chunk_store" where
  "cas_clear s = s\<lparr>cs_cas := []\<rparr>"

section \<open>Flushing dirty chunks\<close>

definition getCachedPinned :: "u64 \<Rightarrow> 'db chunk_store \<Rightarrow> u64 \<times> 'db chunk_store" where
  "getCachedPinned key s = (let (p, c) = getPinned key (cs_cache s) in (p, s\<lparr>cs_cache := c\<rparr>))"

definition releaseCachedPinned :: "u64 \<Rightarrow> 'db chunk_store \<Rightarrow> 'db chunk_store" where
  "releaseCachedPinned p s = (let (c, del) = releasePinned p (cs_cache s) in free_chunks del (s\<lparr>cs_cache := c\<rparr>))"

text \<open>One key: whether it was saved.\<close>

definition flush_one :: "'db lmdb_api \<Rightarrow> u64 \<Rightarrow> 'db chunk_store \<Rightarrow> (bool \<times> 'db chunk_store) option" where
  "flush_one M key s =
     (case um_find (cs_palettes s) key of
        Some pal \<Rightarrow> Some (store_write M key pal (s\<lparr>cs_palettes := um_erase key (cs_palettes s)\<rparr>))
      | None \<Rightarrow>
          (let (p, s) = getCachedPinned key s in
           if p = 0 then Some (False, s)
           else Option.bind (deref p s) (\<lambda>c.
                Option.bind (mc_encodeToWire c) (\<lambda>e. Some (store_write M key e (releaseCachedPinned p s))))))"

fun flush_loop :: "'db lmdb_api \<Rightarrow> u64 list \<Rightarrow> 'db chunk_store \<Rightarrow> (nat \<times> 'db chunk_store) option" where
  "flush_loop M [] s = Some (0, s)"
| "flush_loop M (key # keys) s =
     Option.bind (flush_one M key s) (\<lambda>(ok, s).
       map_option (\<lambda>(n, s). (n + of_bool ok, s)) (flush_loop M keys s))"

definition flushDirtyChunks :: "'db lmdb_api \<Rightarrow> 'db chunk_store \<Rightarrow> (bool \<times> 'db chunk_store) option" where
  "flushDirtyChunks M s =
     (if cs_dirty s = [] then Some (False, s)
      else map_option (\<lambda>(saved, s). (saved > 0, s)) (flush_loop M (cs_dirty s) (s\<lparr>cs_dirty := []\<rparr>)))"

section \<open>Asynchronous reads and world generation\<close>

definition takePendingPalette :: "u64 \<Rightarrow> 'db chunk_store \<Rightarrow> bytes option \<times> 'db chunk_store" where
  "takePendingPalette key s =
     (case um_find (cs_palettes s) key of
        None \<Rightarrow> (None, s)
      | Some pal \<Rightarrow> (Some pal, s\<lparr>cs_palettes := um_erase key (cs_palettes s)\<rparr>))"

definition markAsPendingLmdb :: "bytes \<Rightarrow> u64 \<Rightarrow> 'db chunk_store \<Rightarrow> 'db chunk_store" where
  "markAsPendingLmdb pal key s = s\<lparr>cs_palettes := um_emplace key pal (cs_palettes s)\<rparr>"

text \<open>\<open>AsyncGetChunk\<close> up to the post: the palette for the callback on a cache hit, \<open>None\<close> inside when the task
  is posted.\<close>

definition AsyncGetChunk :: "u64 \<Rightarrow> 'db chunk_store \<Rightarrow> (bytes option \<times> 'db chunk_store) option" where
  "AsyncGetChunk key s =
     (let (p, s) = getCachedPinned key s in
      if p = 0 then Some (None, s)
      else let (pal, s) = takePendingPalette key s in
        (case pal of
           Some pal \<Rightarrow> Some (Some pal, releaseCachedPinned p s)
         | None \<Rightarrow>
             Option.bind (deref p s) (\<lambda>c.
             Option.bind (mc_encodeToWire c) (\<lambda>e.
               Some (Some e, markAsPendingLmdb e key (releaseCachedPinned p s))))))"

datatype load_answer = Answer "bytes option" | Waiting

text \<open>The posted task: the answer of the callback \<open>cb\<close>, or its registration for the generated chunk.\<close>

definition load_chunk ::
  "'db lmdb_api \<Rightarrow> allocator \<Rightarrow> u64 \<Rightarrow> nat \<Rightarrow> 'db chunk_store \<Rightarrow> (load_answer \<times> 'db chunk_store) option" where
  "load_chunk M alloc key cb s =
     (let (wire, s) = store_read M key s in
      case wire of
        Inl Failed \<Rightarrow> Some (Answer None, s)
      | Inr w \<Rightarrow>
          (let (p, s) = take_or_new alloc s in
           case mc_fromWire w of
             None \<Rightarrow> Some (Answer None, free_chunks [p] s)
           | Some c \<Rightarrow> map_option (Pair (Answer (Some w))) (putCached key p (s\<lparr>cs_heap := um_put p c (cs_heap s)\<rparr>)))
      | Inl NotFound \<Rightarrow>
          Some (Waiting, s\<lparr>cs_gen_cbs := um_put key ((case um_find (cs_gen_cbs s) key of None \<Rightarrow> [] | Some l \<Rightarrow> l) @ [cb]) (cs_gen_cbs s),
                           cs_requests := cs_requests s @ [key]\<rparr>))"

text \<open>One task of \<open>encodeLoop\<close>: the chunk the generator delivered at \<open>p\<close>; the callbacks that get the palette.\<close>

definition encode_task :: "u64 \<Rightarrow> u64 \<Rightarrow> 'db chunk_store \<Rightarrow> (nat list \<times> bytes \<times> 'db chunk_store) option" where
  "encode_task key p s =
     Option.bind (deref p s) (\<lambda>c.
     Option.bind (mc_encodeToWire c) (\<lambda>pal.
     Option.bind (putCached key p s) (\<lambda>s.
       case um_find (cs_gen_cbs s) key of
         Some (cb # cbs) \<Rightarrow>
           Some (cb # cbs, pal, s\<lparr>cs_batch := cs_batch s @ [(key, pal)], cs_gen_cbs := um_erase key (cs_gen_cbs s)\<rparr>)
       | _ \<Rightarrow> None)))"

text \<open>\<open>flushPalettes\<close>, without the log and its failure counter.\<close>

definition flush_palettes :: "'db lmdb_api \<Rightarrow> 'db chunk_store \<Rightarrow> 'db chunk_store" where
  "flush_palettes M s =
     (if cs_batch s = [] then s
      else let (_, items, l) = writeBatch M (cs_batch s) (cs_lmdb s) in s\<lparr>cs_batch := items, cs_lmdb := l\<rparr>)"

text \<open>\<open>close()\<close>: the pipelines stop with a last flush, then the cache is cleared; the queued CAS changes stay
  unwritten.\<close>

definition store_close :: "'db lmdb_api \<Rightarrow> 'db chunk_store \<Rightarrow> 'db chunk_store option" where
  "store_close M s =
     map_option (\<lambda>(_, s). let (c, del) = cc_clear (cs_cache s) in free_chunks del (s\<lparr>cs_cache := c\<rparr>))
       (flushDirtyChunks M (flush_palettes M s))"

section \<open>Requests\<close>

text \<open>The request handlers of \<open>Network/IoUringChunkStoreService.cpp\<close> after the message is decoded, up to the
  response; \<open>AsyncSetBlock\<close> and \<open>AsyncSaveChunk\<close> run the synchronous operation as a posted task.\<close>

definition handleGetBlock ::
  "'db lmdb_api \<Rightarrow> allocator \<Rightarrow> i32 \<Rightarrow> i32 \<Rightarrow> i32 \<Rightarrow> 'db chunk_store \<Rightarrow> ((u16 \<times> u8 \<times> u32) \<times> 'db chunk_store) option" where
  "handleGetBlock M alloc x y z s =
     Option.bind (GetBlockAt M alloc x y z s) (\<lambda>(b, s).
     Option.bind (GetMeta M alloc x y z s) (\<lambda>(m, s).
     Option.bind (GetMultiblock M alloc x y z s) (\<lambda>(mb, s). Some ((b, m, mb), s))))"

definition handleSetBlock ::
  "'db lmdb_api \<Rightarrow> allocator \<Rightarrow> i32 \<Rightarrow> i32 \<Rightarrow> i32 \<Rightarrow> u16 \<Rightarrow> u8 \<Rightarrow> 'db chunk_store \<Rightarrow> (bool \<times> 'db chunk_store) option" where
  "handleSetBlock M alloc x y z bid m s =
     store_SetBlock M alloc \<lparr>ccx = chunk_of x, ccy = chunk_of y, ccz = chunk_of z\<rparr> (x AND 31, y AND 31, z AND 31) bid m 0 s"

text \<open>A block array of another size is replaced by air.\<close>

definition handleSaveChunk ::
  "'db lmdb_api \<Rightarrow> chunk_coord \<Rightarrow> u16 list \<Rightarrow> 'db chunk_store \<Rightarrow> (bool \<times> 'db chunk_store) option" where
  "handleSaveChunk M c blocks s =
     Option.bind (mc_fromBlocks (if length blocks = SEC_VOL * SEC_CNT then blocks else replicate (SEC_VOL * SEC_CNT) 0)) (\<lambda>chunk.
       SaveChunk M chunk (makeKey (ccx c) (ccy c) (ccz c)) s)"

definition handleSetBlockCAS ::
  "'db lmdb_api \<Rightarrow> allocator \<Rightarrow> i32 \<Rightarrow> i32 \<Rightarrow> i32 \<Rightarrow> u16 \<Rightarrow> u16 \<Rightarrow> u8 \<Rightarrow> 'db chunk_store \<Rightarrow> ((bool \<times> u16 \<times> u8) \<times> 'db chunk_store) option" where
  "handleSetBlockCAS M alloc x y z expected bid m s =
     map_option (\<lambda>(r, s). (case r of CasOk b m \<Rightarrow> (True, b, m) | Conflict b m \<Rightarrow> (False, b, m), s))
       (casBlock M alloc x y z expected bid m s)"

end
