(* ===== verification/ChunkProps.thy ===== *)
theory ChunkProps
  imports ChunkStore
begin

text \<open>
  The chunk store as a map from keys to chunks: \<open>content\<close> is the cached chunk, or what the disk decodes
  to, or an empty chunk. A block that was set is read back and survives a flush; and the runs in which
  edits are lost.
\<close>

section \<open>Well-formed stores\<close>

definition content :: "'db lmdb_api \<Rightarrow> u64 \<Rightarrow> 'db chunk_store \<Rightarrow> chunk option" where
  "content M key s =
     (case clock_map (cch (cs_cache s)) key of
        Some p \<Rightarrow> um_find (cs_heap s) p
      | None \<Rightarrow> (case disk_of M (cs_lmdb s) key of None \<Rightarrow> Some chunk_new | Some d \<Rightarrow> mc_fromWire d))"

definition cs_ok :: "'db chunk_store \<Rightarrow> bool" where
  "cs_ok s \<longleftrightarrow>
     cc_inv (cs_cache s) \<and> um_wf (cs_heap s) \<and>
     (\<forall>p. p \<in># owned (cs_cache s) \<longrightarrow> um_contains (cs_heap s) p \<and> \<not> bit p 63)"

definition fresh_address :: "allocator \<Rightarrow> 'db chunk_store \<Rightarrow> bool" where
  "fresh_address alloc s \<longleftrightarrow>
     \<not> um_contains (cs_heap s) (alloc (cs_heap s)) \<and> alloc (cs_heap s) \<noteq> 0 \<and> \<not> bit (alloc (cs_heap s)) 63"

lemma contains_find: "um_contains m k \<longleftrightarrow> (\<exists>v. um_find m k = Some v)"
  by (auto simp: um_contains_def)

lemma find_fold_erase: "um_find (fold um_erase ks m) k = (if k \<in> set ks then None else um_find m k)"
  by (induction ks arbitrary: m) (auto simp: um_find_erase)

lemma wf_fold_erase: "um_wf m \<Longrightarrow> um_wf (fold um_erase ks m)"
  by (induction ks arbitrary: m) auto

lemma cached_pointer:
  assumes "cs_ok s" "key \<noteq> 0" "clock_map (cch (cs_cache s)) key = Some p"
  shows "p \<noteq> 0" "p \<in># owned (cs_cache s)" "\<exists>c. um_find (cs_heap s) p = Some c"
proof -
  show "p \<noteq> 0" using assms by (auto simp: cs_ok_def cc_inv_def)
  then show o: "p \<in># owned (cs_cache s)"
    using assms clock_map_held by (auto simp: cs_ok_def cc_inv_def owned_def)
  then show "\<exists>c. um_find (cs_heap s) p = Some c" using assms(1) contains_find[of "cs_heap s" p] by (auto simp: cs_ok_def)
qed

lemma getCached_facts:
  assumes "cs_ok s" "key \<noteq> 0"
  obtains s' where "getCached key s = (case clock_map (cch (cs_cache s)) key of None \<Rightarrow> 0 | Some p \<Rightarrow> p, s')"
    "cs_ok s'" "clock_map (cch (cs_cache s')) = clock_map (cch (cs_cache s))" "owned (cs_cache s') = owned (cs_cache s)"
    "s' = s\<lparr>cs_cache := cs_cache s'\<rparr>" "pool (cs_cache s') = pool (cs_cache s)"
proof -
  note g = cc_get_step[of "cs_cache s" key]
  let ?s = "s\<lparr>cs_cache := snd (cc_get key (cs_cache s))\<rparr>"
  have inv: "cc_inv (cs_cache s)" using assms(1) by (simp add: cs_ok_def)
  show thesis
  proof (rule that[of ?s])
    show "getCached key s = (case clock_map (cch (cs_cache s)) key of None \<Rightarrow> 0 | Some p \<Rightarrow> p, ?s)"
      using g(1)[OF inv assms(2)] by (simp add: getCached_def case_prod_beta Let_def)
  qed (use g[OF inv assms(2)] assms(1) in \<open>auto simp: cs_ok_def\<close>)
qed

lemma putCached_facts:
  assumes "cs_ok s" "key \<noteq> 0" "clock_map (cch (cs_cache s)) key = None" "p \<noteq> 0" "\<not> bit p 63" "p \<notin># owned (cs_cache s)"
    and c: "um_find (cs_heap s) p = Some c"
  obtains s' where "putCached key p s = Some s'" "cs_ok s'" "clock_map (cch (cs_cache s')) key = Some p"
    "um_find (cs_heap s') p = Some c" "s' = s\<lparr>cs_cache := cs_cache s', cs_heap := cs_heap s'\<rparr>"
proof -
  have inv: "cc_inv (cs_cache s)" using assms(1) by (simp add: cs_ok_def)
  obtain cc del where p: "cc_put key p (cs_cache s) = Some (cc, del)" "cc_inv cc"
    "owned cc + mset del = add_mset p (owned (cs_cache s))" "clock_map (cch cc) key = Some p"
    by (rule cc_put_step[OF inv assms(2-6)])
  have cnt: "count (owned cc) q + count (mset del) q \<le> 1" for q
  proof -
    have "count (owned cc) q + count (mset del) q = count (add_mset p (owned (cs_cache s))) q"
      by (simp flip: p(3))
    also have "\<dots> \<le> 1" using inv assms(6) by (auto simp: cc_inv_def not_in_iff)
    finally show ?thesis .
  qed
  have disj: "q \<in># owned cc \<Longrightarrow> q \<notin> set del" for q
    using cnt[of q] by (auto simp flip: count_greater_zero_iff set_mset_mset) 
  have po: "p \<in># owned cc" using clock_map_held[OF _ p(4) assms(4)] p(2) by (simp add: cc_inv_def owned_def)
  have sub: "q \<in># owned cc \<Longrightarrow> q = p \<or> q \<in># owned (cs_cache s)" for q
    using p(3) by (metis insert_iff set_mset_add_mset_insert union_iff)
  let ?s = "free_chunks del (s\<lparr>cs_cache := cc\<rparr>)"
  show thesis
  proof (rule that[of ?s])
    show "putCached key p s = Some ?s" by (simp add: putCached_def p(1))
    show "cs_ok ?s"
      unfolding cs_ok_def
    proof (intro conjI allI impI)
      show "cc_inv (cs_cache ?s)" using p(2) by (simp add: free_chunks_def)
      show "um_wf (cs_heap ?s)" using assms(1) wf_fold_erase[of "cs_heap s" del] by (simp add: free_chunks_def cs_ok_def)
      fix q assume q: "q \<in># owned (cs_cache ?s)"
      then have q': "q \<in># owned cc" by (simp add: free_chunks_def)
      have "um_contains (cs_heap s) q \<and> \<not> bit q 63"
        using sub[OF q'] c assms(1,5) by (auto simp: cs_ok_def contains_find)
      then show "um_contains (cs_heap ?s) q" "\<not> bit q 63"
        using disj[OF q'] by (auto simp: free_chunks_def um_contains_def find_fold_erase)
    qed
    show "clock_map (cch (cs_cache ?s)) key = Some p" using p(4) by (simp add: free_chunks_def)
    show "um_find (cs_heap ?s) p = Some c" using disj[OF po] c by (simp add: free_chunks_def find_fold_erase)
    show "?s = s\<lparr>cs_cache := cs_cache ?s, cs_heap := cs_heap ?s\<rparr>" by (simp add: free_chunks_def)
  qed
qed

lemma store_read_facts:
  assumes "lmdb_laws M" "store_read M key s = (wire, s')"
  shows "s' = s\<lparr>cs_lmdb := cs_lmdb s'\<rparr>" "disk_of M (cs_lmdb s') = disk_of M (cs_lmdb s)"
    "wire = Inr d \<Longrightarrow> disk_of M (cs_lmdb s) key = Some d" "wire = Inl NotFound \<Longrightarrow> disk_of M (cs_lmdb s) key = None"
  using assms(2) read_facts[OF assms(1), where key = key and s = "cs_lmdb s"]
  by (auto simp: store_read_def case_prod_beta Let_def)

text \<open>The two ways \<open>setBlock\<close> gets an object for a chunk it has just decoded.\<close>

lemma object_facts:
  assumes "cs_ok s" "fresh_address alloc s"
    and "(let (p, c) = takeFromPool (cs_cache s); s = s\<lparr>cs_cache := c\<rparr>
          in if p = 0 then new_chunk alloc loc s else (p, s\<lparr>cs_heap := um_put p loc (cs_heap s)\<rparr>)) = (p, s')"
  shows "cs_ok s'" "p \<noteq> 0" "\<not> bit p 63" "p \<notin># owned (cs_cache s')" "um_find (cs_heap s') p = Some loc"
    "cch (cs_cache s') = cch (cs_cache s)" "s' = s\<lparr>cs_cache := cs_cache s', cs_heap := cs_heap s'\<rparr>"
proof -
  have inv: "cc_inv (cs_cache s)" using assms(1) by (simp add: cs_ok_def)
  obtain q c where t: "takeFromPool (cs_cache s) = (q, c)" by fastforce
  note tp = takeFromPool_step[OF inv, unfolded t fst_conv snd_conv]
  have own: "r \<in># owned c \<Longrightarrow> r \<in># owned (cs_cache s)" for r
    using tp(3) by (metis union_iff)
  have "cs_ok s' \<and> p \<noteq> 0 \<and> \<not> bit p 63 \<and> p \<notin># owned (cs_cache s') \<and> um_find (cs_heap s') p = Some loc \<and>
    cch (cs_cache s') = cch (cs_cache s) \<and> s' = s\<lparr>cs_cache := cs_cache s', cs_heap := cs_heap s'\<rparr>"
  proof (cases "q = 0")
    case True
    then have e: "p = alloc (cs_heap s)" "s' = s\<lparr>cs_cache := c, cs_heap := um_put p loc (cs_heap s)\<rparr>"
      using assms(3) t by (auto simp: new_chunk_def Let_def)
    have "p \<notin># owned c" using own[of p] assms(1,2) e(1) by (auto simp: cs_ok_def fresh_address_def)
    then show ?thesis
      using e assms(1,2) tp own
      by (auto simp: cs_ok_def fresh_address_def contains_put um_find_put)
  next
    case False
    then have e: "p = q" "s' = s\<lparr>cs_cache := c, cs_heap := um_put q loc (cs_heap s)\<rparr>"
      using assms(3) t by (auto simp: Let_def)
    have o: "owned c + {#q#} = owned (cs_cache s)" using tp(3) False by simp
    then have "q \<in># owned (cs_cache s)" by (metis multi_member_last union_iff)
    moreover have "q \<notin># owned c"
    proof -
      have "count (owned (cs_cache s)) q \<le> 1" using inv by (simp add: cc_inv_def)
      then have "count (owned c) q = 0" unfolding o[symmetric] by simp
      then show ?thesis by (simp add: not_in_iff)
    qed
    ultimately show ?thesis
      using e False assms(1) tp own by (auto simp: cs_ok_def contains_put um_find_put)
  qed
  then show "cs_ok s'" "p \<noteq> 0" "\<not> bit p 63" "p \<notin># owned (cs_cache s')" "um_find (cs_heap s') p = Some loc"
    "cch (cs_cache s') = cch (cs_cache s)" "s' = s\<lparr>cs_cache := cs_cache s', cs_heap := cs_heap s'\<rparr>" by auto
qed

section \<open>Setting a block\<close>

lemma local_lt: "local_of x < 32"
proof -
  have "x AND 31 \<le> 31" by (rule word_and_le1)
  then have "unat (x AND 31) \<le> unat (31 :: i32)" by (simp add: word_le_nat_alt)
  then show ?thesis by (simp add: local_of_def)
qed

lemma edit_chunk_facts:
  assumes "chunk_ok c" "chunk_safe c (local_of x) (local_of y) (local_of z) bid"
  obtains c' where "edit_chunk x y z bid m c = Some c'" "chunk_ok c'"
    "\<And>a b d. local3 a b d \<Longrightarrow> mc_getBlock c' a b d = (if a = local_of x \<and> b = local_of y \<and> d = local_of z then Some bid else mc_getBlock c a b d) \<and>
       mc_getMeta c' a b d = (if a = local_of x \<and> b = local_of y \<and> d = local_of z then Some m else mc_getMeta c a b d) \<and>
       mc_getMultiblock c' a b d = mc_getMultiblock c a b d"
proof -
  have l: "local3 (local_of x) (local_of y) (local_of z)" using local_lt by blast
  obtain c1 where 1: "mc_setBlock (local_of x) (local_of y) (local_of z) bid c = Some c1" "chunk_ok c1"
    "\<And>a b d. local3 a b d \<Longrightarrow> mc_getBlock c1 a b d = (if a = local_of x \<and> b = local_of y \<and> d = local_of z then Some bid else mc_getBlock c a b d)"
    "\<And>a b d. local3 a b d \<Longrightarrow> mc_getMeta c1 a b d = mc_getMeta c a b d \<and> mc_getMultiblock c1 a b d = mc_getMultiblock c a b d"
    by (rule chunk_setBlock_facts[OF assms(1) l assms(2)], rule that; assumption)
  obtain c2 where 2: "mc_setMeta (local_of x) (local_of y) (local_of z) m c1 = Some c2" "chunk_ok c2"
    "\<And>a b d. local3 a b d \<Longrightarrow> mc_getMeta c2 a b d = (if a = local_of x \<and> b = local_of y \<and> d = local_of z then Some m else mc_getMeta c1 a b d) \<and>
       mc_getBlock c2 a b d = mc_getBlock c1 a b d \<and> mc_getMultiblock c2 a b d = mc_getMultiblock c1 a b d"
    by (rule chunk_setMeta_facts[OF 1(2) l, of m]) (rule that; blast)
  show thesis by (rule that[of c2]) (use 1 2 in \<open>simp_all add: edit_chunk_def\<close>)
qed

text \<open>What a successful \<open>setBlock\<close> leaves: the edited chunk under its key, marked dirty, without an encoded copy.\<close>

lemma setBlock_content:
  assumes laws: "lmdb_laws M" and ok: "cs_ok s" and key: "block_key x y z \<noteq> 0" and alloc: "fresh_address alloc s"
    and c: "content M (block_key x y z) s = Some c" "chunk_ok c" "chunk_safe c (local_of x) (local_of y) (local_of z) bid"
  obtains r s' where "store_setBlock M alloc x y z bid m s = Some (r, s')" "cs_ok s'"
    "r \<Longrightarrow> content M (block_key x y z) s' = edit_chunk x y z bid m c"
    "r \<Longrightarrow> \<exists>p. clock_map (cch (cs_cache s')) (block_key x y z) = Some p"
    "r \<Longrightarrow> cs_dirty s' = List.insert (block_key x y z) (cs_dirty s) \<and> um_find (cs_palettes s') (block_key x y z) = None"
    "\<not> r \<Longrightarrow> content M (block_key x y z) s' = Some c \<and> cs_dirty s' = cs_dirty s \<and> cs_heap s' = cs_heap s"
    "disk_of M (cs_lmdb s') = disk_of M (cs_lmdb s)" "envOpen (cs_lmdb s') = envOpen (cs_lmdb s)"
    "\<not> r \<Longrightarrow> fst (readRawBytes M (block_key x y z) (cs_lmdb s)) = Inl Failed"
proof -
  let ?k = "block_key x y z"
  obtain c' where c': "edit_chunk x y z bid m c = Some c'" by (rule edit_chunk_facts[OF c(2,3)])
  obtain s1 where g: "getCached ?k s = (case clock_map (cch (cs_cache s)) ?k of None \<Rightarrow> 0 | Some p \<Rightarrow> p, s1)"
    "cs_ok s1" "clock_map (cch (cs_cache s1)) = clock_map (cch (cs_cache s))" "owned (cs_cache s1) = owned (cs_cache s)"
    "s1 = s\<lparr>cs_cache := cs_cache s1\<rparr>" "pool (cs_cache s1) = pool (cs_cache s)"
    by (rule getCached_facts[OF ok key])
  have f1: "cs_heap s1 = cs_heap s" "cs_lmdb s1 = cs_lmdb s" "cs_dirty s1 = cs_dirty s" "cs_palettes s1 = cs_palettes s"
    by (subst g(5); simp)+
  have al1: "fresh_address alloc s1" using alloc by (simp add: fresh_address_def f1)
  show thesis
  proof (cases "clock_map (cch (cs_cache s)) ?k")
    case (Some p)
    note cp = cached_pointer[OF ok key Some]
    have hp: "um_find (cs_heap s) p = Some c" using c(1) Some by (simp add: content_def)
    let ?s = "touched ?k (s1\<lparr>cs_heap := um_put p c' (cs_heap s1)\<rparr>)"
    have "store_setBlock M alloc x y z bid m s = Some (True, ?s)"
      using Some cp(1) hp c' by (simp add: store_setBlock_def g(1) deref_def f1 Let_def)
    moreover have "cs_ok ?s"
      using g(2) cp(2) by (auto simp: cs_ok_def touched_def markDirty_def contains_put)
    moreover have "content M ?k ?s = Some c'"
      by (simp add: content_def touched_def markDirty_def g(3) Some um_find_put)
    ultimately show thesis
      using that[of True ?s] c' Some g(3) by (simp add: touched_def markDirty_def f1 um_find_erase)
  next
    case None
    obtain wire s2 where r: "store_read M ?k s1 = (wire, s2)" by fastforce
    note rf = store_read_facts[OF laws r]
    have f2: "cs_heap s2 = cs_heap s" "cs_cache s2 = cs_cache s1" "cs_dirty s2 = cs_dirty s" "cs_palettes s2 = cs_palettes s"
      by (subst rf(1); simp add: f1)+
    have env: "envOpen (cs_lmdb s2) = envOpen (cs_lmdb s)" "disk_of M (cs_lmdb s2) = disk_of M (cs_lmdb s)"
      using read_facts(1,2)[OF laws, of ?k "cs_lmdb s1"] r f1(2) by (auto simp: store_read_def case_prod_beta Let_def)
    have ok2: "cs_ok s2" using g(2) by (simp add: cs_ok_def f1 f2)
    show thesis
    proof (cases "wire = Inl Failed")
      case True
      then have "store_setBlock M alloc x y z bid m s = Some (False, s2)"
        using None r by (simp add: store_setBlock_def g(1) Let_def)
      moreover have "content M ?k s2 = Some c"
        using c(1) None env by (simp add: content_def f2 g(3))
      moreover have "fst (readRawBytes M ?k (cs_lmdb s)) = Inl Failed"
        using True r f1(2) by (simp add: store_read_def case_prod_beta Let_def)
      ultimately show thesis using that[of False s2] ok2 env f2 by simp
    next
      case False
      have loc: "(case wire of Inr w \<Rightarrow> mc_after_fromWire w | Inl _ \<Rightarrow> Some chunk_new) = Some c"
      proof (cases wire)
        case (Inl e)
        then have "disk_of M (cs_lmdb s) ?k = None" using False rf(4) f1(2) by (cases e) auto
        then show ?thesis using c(1) None Inl by (simp add: content_def)
      next
        case (Inr w)
        then have "disk_of M (cs_lmdb s) ?k = Some w" using rf(3) f1(2) by simp
        then have "mc_fromWire w = Some c" using c(1) None by (simp add: content_def)
        then show ?thesis using Inr mc_after_fromWire_ok by simp
      qed
      have al2: "fresh_address alloc s2" using alloc by (simp add: fresh_address_def f2)
      obtain p s3 where o: "(let (p, c) = takeFromPool (cs_cache s2); s = s2\<lparr>cs_cache := c\<rparr>
          in if p = 0 then new_chunk alloc c' s else (p, s\<lparr>cs_heap := um_put p c' (cs_heap s)\<rparr>)) = (p, s3)" by fastforce
      note of = object_facts[OF ok2 al2 o]
      have f3: "cs_lmdb s3 = cs_lmdb s2" "cs_dirty s3 = cs_dirty s2" "cs_palettes s3 = cs_palettes s2"
        by (subst of(7); simp)+
      have none: "clock_map (cch (cs_cache s3)) ?k = None" using None of(6) by (simp add: f2 g(3))
      obtain s4 where pt: "putCached ?k p s3 = Some s4" "cs_ok s4" "clock_map (cch (cs_cache s4)) ?k = Some p"
        "um_find (cs_heap s4) p = Some c'" "s4 = s3\<lparr>cs_cache := cs_cache s4, cs_heap := cs_heap s4\<rparr>"
        by (rule putCached_facts[OF of(1) key none of(2,3,4,5)])
      have f4: "cs_lmdb s4 = cs_lmdb s2" "cs_dirty s4 = cs_dirty s" "cs_palettes s4 = cs_palettes s"
        by (subst pt(5); simp add: f3 f2)+
      let ?s = "touched ?k s4"
      have e: "store_setBlock M alloc x y z bid m s = Some (True, ?s)"
        using None r False loc c' o pt(1) unfolding store_setBlock_def
        by (simp add: g(1) Let_def case_prod_beta split: if_splits)
      show thesis
      proof (rule that[OF e])
        show "cs_ok ?s" using pt(2) by (simp add: cs_ok_def touched_def markDirty_def)
        show "content M ?k ?s = edit_chunk x y z bid m c"
          using pt(3,4) c' by (simp add: content_def touched_def markDirty_def)
        show "\<exists>p. clock_map (cch (cs_cache ?s)) ?k = Some p" using pt(3) by (simp add: touched_def markDirty_def)
        show "cs_dirty ?s = List.insert ?k (cs_dirty s) \<and> um_find (cs_palettes ?s) ?k = None"
          by (simp add: touched_def markDirty_def f4 um_find_erase)
        show "disk_of M (cs_lmdb ?s) = disk_of M (cs_lmdb s)" "envOpen (cs_lmdb ?s) = envOpen (cs_lmdb s)"
          using env by (simp_all add: touched_def markDirty_def f4)
      qed simp_all
    qed
  qed
qed

section \<open>Reading a cached block\<close>

lemma read_cached:
  assumes "cs_ok s" "block_key x y z \<noteq> 0" "clock_map (cch (cs_cache s)) (block_key x y z) = Some p"
    and c: "content M (block_key x y z) s = Some c" and v: "get c (local_of x) (local_of y) (local_of z) = Some v"
  shows "\<exists>s'. read_at M alloc get x y z s = Some (v, s')"
proof -
  obtain s1 where g: "getCached (block_key x y z) s = (p, s1)" "s1 = s\<lparr>cs_cache := cs_cache s1\<rparr>"
    by (rule getCached_facts[OF assms(1,2)]) (use assms(3) in auto)
  have h: "cs_heap s1 = cs_heap s" by (subst g(2)) simp
  have "um_find (cs_heap s) p = Some c" using c assms(3) by (simp add: content_def)
  then show ?thesis
    using cached_pointer(1)[OF assms(1-3)] g(1) v by (simp add: read_at_def GetChunk_def deref_def h)
qed

lemma block_defined: "chunk_ok c \<Longrightarrow> local3 a b d \<Longrightarrow> \<exists>v. mc_getBlock c a b d = Some v"
proof -
  assume c: "chunk_ok c" and l: "local3 a b d"
  note a = mc_address[OF l]
  have "ms_ok (c ! mc_sec a b d)" "nth_opt c (mc_sec a b d) = Some (c ! mc_sec a b d)" using chunk_ok_nth[OF c a(1)] by auto
  then show ?thesis using getBlock_blk[of "c ! mc_sec a b d" "mc_li a b d"] a(2) by (auto simp: mc_getBlock_def ms_ok_def)
qed

section \<open>Flushing\<close>

lemma release_facts:
  assumes "cs_ok s"
  shows "cs_ok (releaseCachedPinned q s)" "cch (cs_cache (releaseCachedPinned q s)) = cch (cs_cache s)"
    "p \<in># owned (cs_cache (releaseCachedPinned q s)) \<Longrightarrow> um_find (cs_heap (releaseCachedPinned q s)) p = um_find (cs_heap s) p"
    "cs_lmdb (releaseCachedPinned q s) = cs_lmdb s" "cs_palettes (releaseCachedPinned q s) = cs_palettes s"
    "cs_dirty (releaseCachedPinned q s) = cs_dirty s"
proof -
  have inv: "cc_inv (cs_cache s)" using assms by (simp add: cs_ok_def)
  obtain c del where r: "releasePinned q (cs_cache s) = (c, del)" by fastforce
  note st = releasePinned_step[OF inv, of q, unfolded r fst_conv snd_conv]
  have e: "releaseCachedPinned q s = s\<lparr>cs_cache := c, cs_heap := fold um_erase del (cs_heap s)\<rparr>"
    by (simp add: releaseCachedPinned_def r free_chunks_def)
  have one: "count (owned c) x + count (mset del) x \<le> 1" for x
    using inv by (simp add: cc_inv_def flip: st(2))
  have disj: "x \<in># owned c \<Longrightarrow> x \<notin> set del" for x
    using one[of x] by (auto simp flip: count_greater_zero_iff set_mset_mset)
  have sub: "x \<in># owned c \<Longrightarrow> x \<in># owned (cs_cache s)" for x by (simp flip: st(2))
  show "cs_ok (releaseCachedPinned q s)"
    using assms st(1) disj sub wf_fold_erase[of "cs_heap s" del]
    by (auto simp: cs_ok_def e um_contains_def find_fold_erase)
  show "p \<in># owned (cs_cache (releaseCachedPinned q s)) \<Longrightarrow> um_find (cs_heap (releaseCachedPinned q s)) p = um_find (cs_heap s) p"
    using disj by (simp add: e find_fold_erase)
qed (use releasePinned_step(3)[of "cs_cache s" q] assms in
  \<open>simp_all add: releaseCachedPinned_def free_chunks_def case_prod_beta Let_def cs_ok_def\<close>)

text \<open>The object of a key is found again by the flush, and nothing it does to one key touches another.\<close>

lemma pin_facts:
  assumes "cs_ok s" "key \<noteq> 0"
  obtains cc where "getCachedPinned key s = (case clock_map (cch (cs_cache s)) key of None \<Rightarrow> 0 | Some p \<Rightarrow> p, s\<lparr>cs_cache := cc\<rparr>)"
    "cs_ok (s\<lparr>cs_cache := cc\<rparr>)" "clock_map (cch cc) = clock_map (cch (cs_cache s))"
proof -
  have inv: "cc_inv (cs_cache s)" using assms(1) by (simp add: cs_ok_def)
  note g = getPinned_step[OF inv assms(2)]
  show thesis
    by (rule that[of "snd (getPinned key (cs_cache s))"])
      (use g assms(1) in \<open>auto simp: getCachedPinned_def case_prod_beta Let_def cs_ok_def\<close>)
qed

lemma flush_one_self:
  assumes laws: "lmdb_laws M" and ok: "cs_ok s" and key: "key \<noteq> 0" and pal: "um_find (cs_palettes s) key = None"
    and p: "clock_map (cch (cs_cache s)) key = Some p" and c: "content M key s = Some c" "mc_encodeToWire c = Some w"
  obtains s' where "flush_one M key s = Some (fst (writeRaw M key w (cs_lmdb s)), s')" "cs_ok s'" "cs_dirty s' = cs_dirty s"
    "disk_of M (cs_lmdb s') = (if fst (writeRaw M key w (cs_lmdb s)) then (disk_of M (cs_lmdb s))(key \<mapsto> w) else disk_of M (cs_lmdb s))"
proof -
  obtain cc where g: "getCachedPinned key s = (p, s\<lparr>cs_cache := cc\<rparr>)" "cs_ok (s\<lparr>cs_cache := cc\<rparr>)"
    by (rule pin_facts[OF ok key]) (use p in auto)
  note rel = release_facts[OF g(2), where q = p]
  have hp: "um_find (cs_heap s) p = Some c" using c(1) p by (simp add: content_def)
  obtain okw l where wr: "writeRaw M key w (cs_lmdb s) = (okw, l)" by fastforce
  have "flush_one M key s = Some (okw, (releaseCachedPinned p (s\<lparr>cs_cache := cc\<rparr>))\<lparr>cs_lmdb := l\<rparr>)"
    using pal g(1) cached_pointer(1)[OF ok key p] hp c(2) wr rel(4)
    by (simp add: flush_one_def deref_def store_write_def Let_def)
  then show thesis
    using that wr rel(1,6) writeRaw_facts(1)[OF laws, of key w "cs_lmdb s"] by (simp add: cs_ok_def)
qed

lemma flush_one_other:
  assumes laws: "lmdb_laws M" and ok: "cs_ok s" and key: "key \<noteq> 0" "k \<noteq> 0" "k \<noteq> key"
    and f: "flush_one M k s = Some (b, s')"
  shows "cs_ok s' \<and> clock_map (cch (cs_cache s')) = clock_map (cch (cs_cache s)) \<and> content M key s' = content M key s \<and>
    um_find (cs_palettes s') key = um_find (cs_palettes s) key \<and> disk_of M (cs_lmdb s') key = disk_of M (cs_lmdb s) key"
proof (cases "um_find (cs_palettes s) k")
  case (Some pal)
  then have "s' = s\<lparr>cs_palettes := um_erase k (cs_palettes s), cs_lmdb := snd (writeRaw M k pal (cs_lmdb s))\<rparr>"
    using f by (auto simp: flush_one_def store_write_def case_prod_beta Let_def)
  then show ?thesis
    using ok key writeRaw_facts(1)[OF laws, of k pal "cs_lmdb s"]
    by (auto simp: cs_ok_def um_find_erase content_def cong: option.case_cong)
next
  case None
  obtain cc where g: "getCachedPinned k s = (case clock_map (cch (cs_cache s)) k of None \<Rightarrow> 0 | Some p \<Rightarrow> p, s\<lparr>cs_cache := cc\<rparr>)"
    "cs_ok (s\<lparr>cs_cache := cc\<rparr>)" "clock_map (cch cc) = clock_map (cch (cs_cache s))"
    by (rule pin_facts[OF ok key(2)])
  show ?thesis
  proof (cases "fst (getCachedPinned k s) = 0")
    case True
    then have "s' = s\<lparr>cs_cache := cc\<rparr>" using f None g(1) by (simp add: flush_one_def)
    then show ?thesis using g(2,3) by (simp add: content_def cong: option.case_cong)
  next
    case False
    define q where "q = fst (getCachedPinned k s)"
    let ?r = "releaseCachedPinned q (s\<lparr>cs_cache := cc\<rparr>)"
    note rel = release_facts[OF g(2), where q = q]
    obtain c w where s': "s' = ?r\<lparr>cs_lmdb := snd (writeRaw M k w (cs_lmdb s))\<rparr>"
      using f None False g(1) rel(4)
      by (auto simp: flush_one_def store_write_def case_prod_beta Let_def q_def split: bind_splits)
    have map: "clock_map (cch (cs_cache ?r)) = clock_map (cch (cs_cache s))" using rel(2) g(3) by simp
    have heap: "um_find (cs_heap ?r) p = um_find (cs_heap s) p" if "clock_map (cch (cs_cache s)) key = Some p" for p
      using cached_pointer(2)[OF rel(1) key(1), of p] rel(3)[of p] map that by simp
    have disk: "disk_of M (cs_lmdb s') key = disk_of M (cs_lmdb s) key"
      using writeRaw_facts(1)[OF laws, of k w "cs_lmdb s"] key(3) by (simp add: s')
    have "content M key s' = content M key s"
      using heap map disk by (auto simp: content_def s' split: option.split)
    then show ?thesis using disk map rel(1,5) by (simp add: s' cs_ok_def)
  qed
qed

lemma flush_loop_other:
  assumes "lmdb_laws M" "key \<noteq> 0"
  shows "cs_ok s \<Longrightarrow> 0 \<notin> set ks \<Longrightarrow> key \<notin> set ks \<Longrightarrow> flush_loop M ks s = Some (n, s') \<Longrightarrow>
    cs_ok s' \<and> clock_map (cch (cs_cache s')) = clock_map (cch (cs_cache s)) \<and> content M key s' = content M key s \<and>
    um_find (cs_palettes s') key = um_find (cs_palettes s) key \<and> disk_of M (cs_lmdb s') key = disk_of M (cs_lmdb s) key"
proof (induction ks arbitrary: s n)
  case (Cons k ks)
  obtain b s1 where f: "flush_one M k s = Some (b, s1)" and l: "\<exists>n. flush_loop M ks s1 = Some (n, s')"
    using Cons.prems(4) by (auto split: bind_splits)
  have k: "k \<noteq> 0" "k \<noteq> key" using Cons.prems(2,3) by auto
  note one = flush_one_other[OF assms(1) Cons.prems(1) assms(2) k f]
  obtain n where "flush_loop M ks s1 = Some (n, s')" using l by blast
  then show ?case using Cons.IH[of s1 n] one Cons.prems(2,3) by simp
qed simp

lemma flush_loop_append:
  "flush_loop M (xs @ ys) s =
     Option.bind (flush_loop M xs s) (\<lambda>(n, s). map_option (\<lambda>(k, s). (n + k, s)) (flush_loop M ys s))"
proof (induction xs arbitrary: s)
  case Nil
  then show ?case by (cases "flush_loop M ys s") auto
next
  case (Cons k xs)
  then show ?case
    by (cases "flush_one M k s") (auto split: bind_splits option.splits simp: case_prod_beta' map_option_case)
qed

text \<open>The turn of a cached dirty key in a flush, after the keys before it.\<close>

lemma flush_key:
  assumes laws: "lmdb_laws M" and key: "key \<noteq> 0" and ok: "cs_ok s" and ks: "0 \<notin> set ks" "distinct ks" "key \<in> set ks"
    and pal: "um_find (cs_palettes s) key = None" and p: "\<exists>p. clock_map (cch (cs_cache s)) key = Some p"
    and c: "content M key s = Some c" "mc_encodeToWire c = Some w" and f: "flush_loop M ks s = Some (saved, s2)"
  obtains pre post n t where "ks = pre @ key # post" "flush_loop M pre s = Some (n, t)"
    "disk_of M (cs_lmdb s2) key = (if fst (writeRaw M key w (cs_lmdb t)) then Some w else disk_of M (cs_lmdb s) key)"
    "fst (writeRaw M key w (cs_lmdb t)) \<Longrightarrow> saved > 0"
    "ks = [key] \<Longrightarrow> saved = of_bool (fst (writeRaw M key w (cs_lmdb t)))"
proof -
  obtain pre post where e: "ks = pre @ key # post" using ks(3) by (meson split_list)
  have d: "0 \<notin> set pre" "key \<notin> set pre" "0 \<notin> set post" "key \<notin> set post" using ks(1,2) e by auto
  obtain n t where 1: "flush_loop M pre s = Some (n, t)"
    using f by (auto simp: e flush_loop_append split: bind_splits)
  note a = flush_loop_other[OF laws key ok d(1,2) 1]
  obtain p where pt: "clock_map (cch (cs_cache t)) key = Some p" using p a by auto
  let ?ok = "fst (writeRaw M key w (cs_lmdb t))"
  obtain u where 2: "flush_one M key t = Some (?ok, u)" "cs_ok u"
    "disk_of M (cs_lmdb u) = (if ?ok then (disk_of M (cs_lmdb t))(key \<mapsto> w) else disk_of M (cs_lmdb t))"
    by (rule flush_one_self[OF laws _ key _ pt _ c(2)]) (use a pal c(1) in auto)
  obtain k where 3: "flush_loop M post u = Some (k, s2)" and sv: "saved = n + (k + of_bool ?ok)"
    using f by (auto simp: e flush_loop_append 1 2(1) split: bind_splits)
  note b = flush_loop_other[OF laws key 2(2) d(3,4) 3]
  show thesis
  proof (rule that[OF e 1])
    show "disk_of M (cs_lmdb s2) key = (if ?ok then Some w else disk_of M (cs_lmdb s) key)" using a b 2(3) by simp
    show "saved > 0" if ?ok using that sv by simp
    show "saved = of_bool ?ok" if "ks = [key]"
    proof -
      have "pre = [] \<and> post = []" using that e by (cases pre) auto
      then show ?thesis using sv 1 3 by auto
    qed
  qed
qed

lemma flush_single:
  assumes laws: "lmdb_laws M" and ok: "cs_ok s" and key: "key \<noteq> 0" and d: "cs_dirty s = [key]"
    and pal: "um_find (cs_palettes s) key = None" and p: "clock_map (cch (cs_cache s)) key = Some p"
    and c: "content M key s = Some c" "chunk_ok c"
  obtains saved w c' s' where "flushDirtyChunks M s = Some (saved, s')" "mc_encodeToWire c = Some w" "mc_fromWire w = Some c'"
    "list_all2 kept c c'" "disk_of M (cs_lmdb s') = (if saved then (disk_of M (cs_lmdb s))(key \<mapsto> w) else disk_of M (cs_lmdb s))"
    "cs_dirty s' = []" "saved \<longleftrightarrow> fst (writeRaw M key w (cs_lmdb s))"
proof -
  obtain w c' where w: "mc_encodeToWire c = Some w" "mc_fromWire w = Some c'" "list_all2 kept c c'"
    by (rule chunk_roundtrip_facts[OF c(2)])
  let ?s = "s\<lparr>cs_dirty := []\<rparr>"
  have a: "cs_ok ?s" "um_find (cs_palettes ?s) key = None" "clock_map (cch (cs_cache ?s)) key = Some p"
    "content M key ?s = Some c"
    using ok pal p c(1) by (simp_all add: cs_ok_def content_def)
  obtain s' where f: "flush_one M key ?s = Some (fst (writeRaw M key w (cs_lmdb s)), s')" "cs_dirty s' = []"
    "disk_of M (cs_lmdb s') = (if fst (writeRaw M key w (cs_lmdb s)) then (disk_of M (cs_lmdb s))(key \<mapsto> w) else disk_of M (cs_lmdb s))"
    by (rule flush_one_self[OF laws a(1) key a(2,3,4) w(1)]) simp
  show thesis
    by (rule that[OF _ w]) (use f in \<open>auto simp: flushDirtyChunks_def d\<close>)
qed

section \<open>What set, flush and compare-and-swap do\<close>

lemma setBlock_read_facts:
  assumes "lmdb_laws M" "cs_ok s" "block_key x y z \<noteq> 0" "fresh_address alloc s"
    and "content M (block_key x y z) s = Some c" "chunk_ok c" "chunk_safe c (local_of x) (local_of y) (local_of z) bid"
    and "block_key x' y' z' = block_key x y z"
  shows "\<exists>r s'. store_setBlock M alloc x y z bid m s = Some (r, s') \<and> cs_ok s' \<and> disk_of M (cs_lmdb s') = disk_of M (cs_lmdb s) \<and>
    (if r then \<exists>v w s2 s3. mc_getBlock c (local_of x') (local_of y') (local_of z') = Some w \<and>
         GetBlockAt M alloc x' y' z' s' = Some (v, s2) \<and>
         v = (if local_of x' = local_of x \<and> local_of y' = local_of y \<and> local_of z' = local_of z then bid else w) \<and>
         GetMeta M alloc x y z s' = Some (m, s3)
     else content M (block_key x y z) s' = Some c \<and> cs_heap s' = cs_heap s)"
proof -
  obtain r s' where 1: "store_setBlock M alloc x y z bid m s = Some (r, s')" "cs_ok s'"
    "r \<Longrightarrow> content M (block_key x y z) s' = edit_chunk x y z bid m c"
    "r \<Longrightarrow> \<exists>p. clock_map (cch (cs_cache s')) (block_key x y z) = Some p"
    "r \<Longrightarrow> cs_dirty s' = List.insert (block_key x y z) (cs_dirty s) \<and> um_find (cs_palettes s') (block_key x y z) = None"
    "\<not> r \<Longrightarrow> content M (block_key x y z) s' = Some c \<and> cs_dirty s' = cs_dirty s \<and> cs_heap s' = cs_heap s"
    "disk_of M (cs_lmdb s') = disk_of M (cs_lmdb s)" "envOpen (cs_lmdb s') = envOpen (cs_lmdb s)"
    "\<not> r \<Longrightarrow> fst (readRawBytes M (block_key x y z) (cs_lmdb s)) = Inl Failed"
    by (rule setBlock_content[OF assms(1-7), where m = m], rule that; assumption)
  obtain c' where 2: "edit_chunk x y z bid m c = Some c'" "chunk_ok c'"
    "\<And>a b d. local3 a b d \<Longrightarrow> mc_getBlock c' a b d = (if a = local_of x \<and> b = local_of y \<and> d = local_of z then Some bid else mc_getBlock c a b d) \<and>
       mc_getMeta c' a b d = (if a = local_of x \<and> b = local_of y \<and> d = local_of z then Some m else mc_getMeta c a b d) \<and>
       mc_getMultiblock c' a b d = mc_getMultiblock c a b d"
    by (rule edit_chunk_facts[OF assms(6,7), where m = m], rule that; assumption)
  have l: "local3 (local_of x) (local_of y) (local_of z)" "local3 (local_of x') (local_of y') (local_of z')" using local_lt by blast+
  obtain w where w: "mc_getBlock c (local_of x') (local_of y') (local_of z') = Some w" using block_defined[OF assms(6) l(2)] by blast
  let ?v = "if local_of x' = local_of x \<and> local_of y' = local_of y \<and> local_of z' = local_of z then bid else w"
  have "\<exists>s2. GetBlockAt M alloc x' y' z' s' = Some (?v, s2)" "\<exists>s3. GetMeta M alloc x y z s' = Some (m, s3)" if r: r
  proof -
    obtain p where p: "clock_map (cch (cs_cache s')) (block_key x y z) = Some p" using 1(4)[OF r] by blast
    have c': "content M (block_key x y z) s' = Some c'" using 1(3)[OF r] 2(1) by simp
    have "mc_getBlock c' (local_of x') (local_of y') (local_of z') = Some ?v" using 2(3)[OF l(2)] w by simp
    then show "\<exists>s2. GetBlockAt M alloc x' y' z' s' = Some (?v, s2)"
      using read_cached[of s' x' y' z' p M c' mc_getBlock ?v alloc] 1(2) assms(3,8) p c' by (simp add: GetBlockAt_def)
    have "mc_getMeta c' (local_of x) (local_of y) (local_of z) = Some m" using 2(3)[OF l(1)] by simp
    then show "\<exists>s3. GetMeta M alloc x y z s' = Some (m, s3)"
      using read_cached[OF 1(2) assms(3) p c', of mc_getMeta m alloc] by (simp add: GetMeta_def)
  qed
  then show ?thesis using 1(1,2,6,7) w by (intro exI[of _ r] exI[of _ s']) auto
qed

lemma casBlock_facts:
  assumes laws: "lmdb_laws M" and ok: "cs_ok s" and key: "block_key x y z \<noteq> 0" and alloc: "fresh_address alloc s"
    and c: "content M (block_key x y z) s = Some c" "chunk_ok c" "chunk_safe c (local_of x) (local_of y) (local_of z) bid"
    and reads: "fst (readRawBytes M (block_key x y z) (cs_lmdb s)) \<noteq> Inl Failed"
    and cur: "mc_getBlock c (local_of x) (local_of y) (local_of z) = Some cur" "mc_getMeta c (local_of x) (local_of y) (local_of z) = Some cur_m"
  shows "\<exists>s'. casBlock M alloc x y z expected bid m s =
      Some (if clock_map (cch (cs_cache s)) (block_key x y z) = None \<and> disk_of M (cs_lmdb s) (block_key x y z) = None then Conflict 0 0
            else if cur = expected then CasOk bid m else Conflict cur cur_m, s') \<and> cs_ok s' \<and>
    content M (block_key x y z) s' =
      (if (clock_map (cch (cs_cache s)) (block_key x y z) = None \<and> disk_of M (cs_lmdb s) (block_key x y z) = None) \<or> cur \<noteq> expected
       then Some c else edit_chunk x y z bid m c)"
proof -
  let ?k = "block_key x y z"
  obtain c' where c': "edit_chunk x y z bid m c = Some c'" by (rule edit_chunk_facts[OF c(2,3)])
  obtain s1 where g: "getCached ?k s = (case clock_map (cch (cs_cache s)) ?k of None \<Rightarrow> 0 | Some p \<Rightarrow> p, s1)"
    "cs_ok s1" "clock_map (cch (cs_cache s1)) = clock_map (cch (cs_cache s))" "owned (cs_cache s1) = owned (cs_cache s)"
    "s1 = s\<lparr>cs_cache := cs_cache s1\<rparr>" "pool (cs_cache s1) = pool (cs_cache s)"
    by (rule getCached_facts[OF ok key])
  have f1: "cs_heap s1 = cs_heap s" "cs_lmdb s1 = cs_lmdb s"
    by (subst g(5); simp)+
  have al1: "fresh_address alloc s1" using alloc by (simp add: fresh_address_def f1)
  let ?ch = "(cas_index (local_of x) (local_of y) (local_of z), bid, m)"
  show ?thesis
  proof (cases "clock_map (cch (cs_cache s)) ?k")
    case (Some p)
    note cp = cached_pointer[OF ok key Some]
    have hp: "um_find (cs_heap s) p = Some c" using c(1) Some by (simp add: content_def)
    show ?thesis
    proof (cases "cur = expected")
      case True
      let ?s = "touched ?k (queue_change ?k ?ch (s1\<lparr>cs_heap := um_put p c' (cs_heap s1)\<rparr>))"
      have e: "casBlock M alloc x y z expected bid m s = Some (CasOk bid m, ?s)"
        using Some cp(1) hp c' cur True by (simp add: casBlock_def g(1) deref_def f1 Let_def)
      have "cs_ok ?s"
        using g(2) cp(2) by (auto simp: cs_ok_def touched_def markDirty_def queue_change_def contains_put)
      moreover have "content M ?k ?s = Some c'"
        by (simp add: content_def touched_def markDirty_def queue_change_def g(3) Some um_find_put)
      ultimately show ?thesis using e c' Some True by simp
    next
      case False
      have "casBlock M alloc x y z expected bid m s = Some (Conflict cur cur_m, s1)"
        using Some cp(1) hp cur False by (simp add: casBlock_def g(1) deref_def f1 Let_def)
      moreover have "content M ?k s1 = Some c" using c(1) Some by (simp add: content_def g(3) f1)
      ultimately show ?thesis using g(2) Some False by simp
    qed
  next
    case None
    obtain wire s2 where r: "store_read M ?k s1 = (wire, s2)" by fastforce
    note rf = store_read_facts[OF laws r]
    have f2: "cs_heap s2 = cs_heap s" "cs_cache s2 = cs_cache s1"
      by (subst rf(1); simp add: f1)+
    have env: "disk_of M (cs_lmdb s2) = disk_of M (cs_lmdb s)" using rf(2) f1(2) by simp
    have nf: "wire \<noteq> Inl Failed" using reads r f1(2) by (auto simp: store_read_def case_prod_beta Let_def)
    have ok2: "cs_ok s2" using g(2) by (simp add: cs_ok_def f1 f2)
    have cont2: "content M ?k s2 = Some c" using c(1) None env by (simp add: content_def f2 g(3))
    show ?thesis
    proof (cases wire)
      case (Inl err)
      then have w: "wire = Inl NotFound" using nf by (cases err) auto
      have "disk_of M (cs_lmdb s) ?k = None" using rf(4)[OF w] f1(2) by simp
      moreover have "casBlock M alloc x y z expected bid m s = Some (Conflict 0 0, s2)"
        using None r w by (simp add: casBlock_def g(1) Let_def)
      ultimately show ?thesis using None ok2 cont2 by simp
    next
      case (Inr d)
      have disk: "disk_of M (cs_lmdb s) ?k = Some d" using rf(3)[OF Inr] f1(2) by simp
      then have dec: "mc_fromWire d = Some c" using c(1) None by (simp add: content_def)
      show ?thesis
      proof (cases "cur = expected")
        case False
        have "casBlock M alloc x y z expected bid m s = Some (Conflict cur cur_m, s2)"
          using None r Inr dec cur False by (simp add: casBlock_def g(1) Let_def)
        then show ?thesis using ok2 cont2 disk False by simp
      next
        case True
        let ?p = "alloc (cs_heap s)" let ?s3 = "s2\<lparr>cs_heap := um_put ?p c' (cs_heap s)\<rparr>"
        have nw: "new_chunk alloc c' s2 = (?p, ?s3)" by (simp add: new_chunk_def f2 Let_def)
        have fr: "?p \<noteq> 0" "\<not> bit ?p 63" "?p \<notin># owned (cs_cache ?s3)"
          using alloc ok g(4) by (auto simp: fresh_address_def cs_ok_def f2)
        have ok3: "cs_ok ?s3" using ok2 by (auto simp: cs_ok_def contains_put f2)
        have none: "clock_map (cch (cs_cache ?s3)) ?k = None" using None by (simp add: f2 g(3))
        have hp: "um_find (cs_heap ?s3) ?p = Some c'" by (simp add: um_find_put)
        obtain s4 where pt: "putCached ?k ?p ?s3 = Some s4" "cs_ok s4" "clock_map (cch (cs_cache s4)) ?k = Some ?p"
          "um_find (cs_heap s4) ?p = Some c'" "s4 = ?s3\<lparr>cs_cache := cs_cache s4, cs_heap := cs_heap s4\<rparr>"
          by (rule putCached_facts[OF ok3 key none fr hp])
        let ?s = "touched ?k (queue_change ?k ?ch s4)"
        have "casBlock M alloc x y z expected bid m s = Some (CasOk bid m, ?s)"
          using None r Inr dec cur True c' nw pt(1) by (simp add: casBlock_def g(1) Let_def)
        moreover have "cs_ok ?s" using pt(2) by (simp add: cs_ok_def touched_def markDirty_def queue_change_def)
        moreover have "content M ?k ?s = Some c'"
          using pt(3,4) by (simp add: content_def touched_def markDirty_def queue_change_def)
        ultimately show ?thesis using c' disk True by simp
      qed
    qed
  qed
qed

section \<open>Properties\<close>

text \<open>\<open>setBlock\<close> on the store: it either refuses, only when the disk could not be read, and then changes
  nothing; or the block and its meta value are what a read at the position returns from then on, and
  every other block of the chunk reads as before. Nothing is written to disk.\<close>

theorem setBlock_then_read:
  assumes "lmdb_laws M" "cs_ok s" "block_key x y z \<noteq> 0" "fresh_address alloc s"
    and "content M (block_key x y z) s = Some c" "chunk_ok c" "chunk_safe c (local_of x) (local_of y) (local_of z) bid"
    and "block_key x' y' z' = block_key x y z"
  shows "\<exists>r s'. store_setBlock M alloc x y z bid m s = Some (r, s') \<and> cs_ok s' \<and> disk_of M (cs_lmdb s') = disk_of M (cs_lmdb s) \<and>
    (if r then \<exists>v w s2 s3. mc_getBlock c (local_of x') (local_of y') (local_of z') = Some w \<and>
         GetBlockAt M alloc x' y' z' s' = Some (v, s2) \<and>
         v = (if local_of x' = local_of x \<and> local_of y' = local_of y \<and> local_of z' = local_of z then bid else w) \<and>
         GetMeta M alloc x y z s' = Some (m, s3)
     else content M (block_key x y z) s' = Some c \<and> cs_heap s' = cs_heap s)"
  by (rule setBlock_read_facts[OF assms])

text \<open>C27: a block that was set survives a flush. After a successful \<open>setBlock\<close> on a well-formed store, with
  any other dirty chunks (their keys distinct and not 0), a flush gives the edited chunk its turn: it encodes it to bytes that
  decode to a chunk with that block and every other block as it was, and these bytes are what is on
  disk for its key afterwards, unless LMDB refuses the write in the state the keys before it left; then
  the disk keeps what it had. A flush that wrote it reports success, and one without other dirty chunks
  reports success only then. The edited chunk is well-formed and not in the promotion corner (\<open>chunk_safe\<close>):
  with 256 kinds of block and no air in a byte-per-block section the C++ turns blocks into air.\<close>

theorem setBlock_persists:
  assumes "lmdb_laws M" "cs_ok s" "block_key x y z \<noteq> 0" "fresh_address alloc s"
    and "content M (block_key x y z) s = Some c" "chunk_ok c" "chunk_safe c (local_of x) (local_of y) (local_of z) bid"
    and "0 \<notin> set (cs_dirty s)" "distinct (cs_dirty s)" "local3 a b d"
    and "store_setBlock M alloc x y z bid m s = Some (True, s1)" "flushDirtyChunks M s1 = Some (r, s2)"
  shows "\<exists>pre post n t w c'. cs_dirty s1 = pre @ block_key x y z # post \<and>
    flush_loop M pre (s1\<lparr>cs_dirty := []\<rparr>) = Some (n, t) \<and> mc_fromWire w = Some c' \<and>
    mc_getBlock c' a b d = (if a = local_of x \<and> b = local_of y \<and> d = local_of z then Some bid else mc_getBlock c a b d) \<and>
    disk_of M (cs_lmdb s2) (block_key x y z) =
      (if fst (writeRaw M (block_key x y z) w (cs_lmdb t)) then Some w else disk_of M (cs_lmdb s) (block_key x y z)) \<and>
    (fst (writeRaw M (block_key x y z) w (cs_lmdb t)) \<longrightarrow> r) \<and>
    (cs_dirty s = [] \<longrightarrow> r = fst (writeRaw M (block_key x y z) w (cs_lmdb t)))"
proof -
  let ?k = "block_key x y z"
  obtain r' s' where "store_setBlock M alloc x y z bid m s = Some (r', s')" "cs_ok s'"
    "r' \<Longrightarrow> content M ?k s' = edit_chunk x y z bid m c"
    "r' \<Longrightarrow> \<exists>p. clock_map (cch (cs_cache s')) ?k = Some p"
    "r' \<Longrightarrow> cs_dirty s' = List.insert ?k (cs_dirty s) \<and> um_find (cs_palettes s') ?k = None"
    "\<not> r' \<Longrightarrow> content M ?k s' = Some c \<and> cs_dirty s' = cs_dirty s \<and> cs_heap s' = cs_heap s"
    "disk_of M (cs_lmdb s') = disk_of M (cs_lmdb s)" "envOpen (cs_lmdb s') = envOpen (cs_lmdb s)"
    "\<not> r' \<Longrightarrow> fst (readRawBytes M ?k (cs_lmdb s)) = Inl Failed"
    by (rule setBlock_content[OF assms(1-7), where m = m], rule that; assumption)
  then have 1: "cs_ok s1" "content M ?k s1 = edit_chunk x y z bid m c" "\<exists>p. clock_map (cch (cs_cache s1)) ?k = Some p"
    "cs_dirty s1 = List.insert ?k (cs_dirty s)" "um_find (cs_palettes s1) ?k = None"
    "disk_of M (cs_lmdb s1) = disk_of M (cs_lmdb s)"
    using assms(11) by auto
  obtain c1 where 2: "edit_chunk x y z bid m c = Some c1" "chunk_ok c1"
    "mc_getBlock c1 a b d = (if a = local_of x \<and> b = local_of y \<and> d = local_of z then Some bid else mc_getBlock c a b d)"
    by (rule edit_chunk_facts[OF assms(6,7), of m]) (use assms(10) in auto)
  obtain w c' where w: "mc_encodeToWire c1 = Some w" "mc_fromWire w = Some c'" "list_all2 kept c1 c'"
    by (rule chunk_roundtrip_facts[OF 2(2)])
  obtain saved where fl: "flush_loop M (cs_dirty s1) (s1\<lparr>cs_dirty := []\<rparr>) = Some (saved, s2)" "r = (saved > 0)"
    using assms(12) 1(4) by (auto simp: flushDirtyChunks_def split: if_splits)
  obtain pre post n t where t: "cs_dirty s1 = pre @ ?k # post" "flush_loop M pre (s1\<lparr>cs_dirty := []\<rparr>) = Some (n, t)"
    "disk_of M (cs_lmdb s2) ?k =
      (if fst (writeRaw M ?k w (cs_lmdb t)) then Some w else disk_of M (cs_lmdb (s1\<lparr>cs_dirty := []\<rparr>)) ?k)"
    "fst (writeRaw M ?k w (cs_lmdb t)) \<Longrightarrow> saved > 0"
    "cs_dirty s1 = [?k] \<Longrightarrow> saved = of_bool (fst (writeRaw M ?k w (cs_lmdb t)))"
    by (rule flush_key[OF assms(1,3) _ _ _ _ _ _ _ w(1) fl(1)])
      (use 1 2(1) assms(3,8,9) in \<open>auto simp: cs_ok_def content_def\<close>)
  have alone: "cs_dirty s = [] \<Longrightarrow> saved = of_bool (fst (writeRaw M ?k w (cs_lmdb t)))" using t(5) 1(4) by simp
  show ?thesis
    by (rule exI[of _ pre], rule exI[of _ post], rule exI[of _ n], rule exI[of _ t], rule exI[of _ w], rule exI[of _ c'])
      (use t(1-4) alone fl(2) w(2) 1(6) kept_content(1)[OF 2(2) w(3) assms(10)] 2(3) in simp)
qed

text \<open>C28: \<open>casBlock\<close> is a compare-and-swap on the content of the store: it answers \<open>Ok\<close> exactly when the
  chunk is cached or stored and the block is the expected one, and then the content is the edited chunk;
  otherwise the content is unchanged and the answer carries the current block and meta value, or zeros
  when the chunk is neither cached nor stored (also for an expected 0). A chunk that is stored but not
  cached is loaded and swapped, where the comment in \<open>CASHandler.h\<close> announces an error. The disk can be
  read, and the chunk is well-formed and not in the promotion corner (\<open>chunk_safe\<close>: a byte-per-block
  section without air, which with the new id has 256 kinds of block, and there the C++ destroys blocks).\<close>

theorem casBlock_correct:
  assumes laws: "lmdb_laws M" and ok: "cs_ok s" and key: "block_key x y z \<noteq> 0" and alloc: "fresh_address alloc s"
    and c: "content M (block_key x y z) s = Some c" "chunk_ok c" "chunk_safe c (local_of x) (local_of y) (local_of z) bid"
    and reads: "fst (readRawBytes M (block_key x y z) (cs_lmdb s)) \<noteq> Inl Failed"
    and cur: "mc_getBlock c (local_of x) (local_of y) (local_of z) = Some cur" "mc_getMeta c (local_of x) (local_of y) (local_of z) = Some cur_m"
  shows "\<exists>s'. casBlock M alloc x y z expected bid m s =
      Some (if clock_map (cch (cs_cache s)) (block_key x y z) = None \<and> disk_of M (cs_lmdb s) (block_key x y z) = None then Conflict 0 0
            else if cur = expected then CasOk bid m else Conflict cur cur_m, s') \<and> cs_ok s' \<and>
    content M (block_key x y z) s' =
      (if (clock_map (cch (cs_cache s)) (block_key x y z) = None \<and> disk_of M (cs_lmdb s) (block_key x y z) = None) \<or> cur \<noteq> expected
       then Some c else edit_chunk x y z bid m c)"
  by (rule casBlock_facts[OF assms])

section \<open>Edits that are lost\<close>

text \<open>Edits that never reach the disk. A dirty chunk whose cache slot was taken by another chunk before the
  flush is skipped, and one whose write fails is not retried: in both cases the flush returns
  \<open>false\<close>, the disk is unchanged, and the key is no longer marked dirty.\<close>

theorem flush_forgets_edits:
  assumes "lmdb_laws M" "cs_ok s" "key \<noteq> 0" "cs_dirty s = [key]" "um_find (cs_palettes s) key = None"
    and "content M key s = Some c" "chunk_ok c" "mc_encodeToWire c = Some w"
    and "clock_map (cch (cs_cache s)) key = None \<or> \<not> fst (writeRaw M key w (cs_lmdb s))"
  shows "\<exists>s'. flushDirtyChunks M s = Some (False, s') \<and> disk_of M (cs_lmdb s') = disk_of M (cs_lmdb s) \<and> cs_dirty s' = []"
proof (cases "clock_map (cch (cs_cache s)) key")
  case None
  have inv: "cc_inv (cs_cache s)" using assms(2) by (simp add: cs_ok_def)
  obtain cc where g: "getPinned key (cs_cache s) = (0, cc)"
    using getPinned_step(1)[OF inv assms(3)] None by (cases "getPinned key (cs_cache s)") auto
  then show ?thesis
    using assms(4,5) by (simp add: flushDirtyChunks_def flush_one_def getCachedPinned_def Let_def)
next
  case (Some p)
  obtain saved w' c' s' where "flushDirtyChunks M s = Some (saved, s')" "mc_encodeToWire c = Some w'"
    "disk_of M (cs_lmdb s') = (if saved then (disk_of M (cs_lmdb s))(key \<mapsto> w') else disk_of M (cs_lmdb s))"
    "cs_dirty s' = []" "saved \<longleftrightarrow> fst (writeRaw M key w' (cs_lmdb s))"
    by (rule flush_single[OF assms(1-5) Some assms(6,7)], rule that; assumption)
  then show ?thesis using assms(8,9) Some by auto
qed

lemma flush_coords_index:
  assumes "local3 lx ly lz"
  shows "flush_coords (cas_index lx ly lz) = (lx mod 16, (4 * ly + lz div 8) mod 16, (2 * lz + lx div 16) mod 16)"
proof -
  let ?n = "1024 * ly + 32 * lz + lx"
  have i: "cas_index lx ly lz = of_nat ?n"
    using chunkIndex_eq[of lz lx ly] assms by (simp add: cas_index_def chunkIndex_def push_bit_of_nat flip: of_nat_or_eq)
  have lt: "?n < 2 ^ 32" using assms by simp
  have a: "unat (w AND 0xF) = unat w mod 16" for w :: u32
    using take_bit_eq_mask[of 4 "unat w"] by (simp add: unsigned_and_eq take_bit_eq_mod mask_eq_exp_minus_1)
  have "unat (of_nat k :: u32) = k" if "k < 2 ^ 32" for k using that by (simp add: unat_of_nat)
  note u = this[OF lt]
  have d: "unat (drop_bit k (of_nat ?n :: u32)) = ?n div 2 ^ k" for k
    unfolding unat_drop_bit_eq u by (rule drop_bit_eq_div)
  have dm: "(k * a + b) div k = a" if "b < k" for a b k :: nat using that by simp
  have ex: "?n = 16 * (64 * ly + 2 * lz + lx div 16) + lx mod 16"
    using div_mult_mod_eq[of lx 16] by (simp add: algebra_simps)
  have x: "?n mod 16 = lx mod 16" unfolding ex mod_mult_self4 mod_mod_trivial ..
  have "?n div 16 = 64 * ly + 2 * lz + lx div 16" unfolding ex by (rule dm) simp
  then have z: "?n div 16 mod 16 = (2 * lz + lx div 16) mod 16"
    using mod_mult_self1[of "2 * lz + lx div 16" "4 * ly" 16] by (simp add: ac_simps)
  have ey: "?n = 256 * (4 * ly + lz div 8) + (32 * (lz mod 8) + lx)"
  proof -
    have "1024 * ly + 32 * (8 * q + r) + lx = 256 * (4 * ly + q) + (32 * r + lx)" for q r by simp
    from this[of "lz div 8" "lz mod 8"] show ?thesis by (simp only: mult_div_mod_eq)
  qed
  have "lz mod 8 < 8" by simp
  then have "32 * (lz mod 8) + lx < 256" using assms by linarith
  then have y: "?n div 256 mod 16 = (4 * ly + lz div 8) mod 16" unfolding ey by (simp only: dm)
  show ?thesis
    unfolding flush_coords_def a i u d using x y z by simp
qed

text \<open>The flush of the compare-and-swap queue writes to other blocks than were changed, because it takes
  the queued index apart with 4 bits per coordinate although it was put together with 5, and its
  bookkeeping is inverted: the changes of a chunk that could not be read are dropped from the queue,
  those of a chunk that was written stay.\<close>

theorem cas_flush_misplaces:
  assumes "local3 lx ly lz" "lmdb_laws M" "cs_cas s = [(key, chs)]"
    and "fst (readRawBytes M key (cs_lmdb s)) = Inl Failed"
    and "cs_cas t = [(key, [(cas_index lx ly lz, bid, m)])]" "fst (readRawBytes M key (cs_lmdb t)) = Inr d"
    and "mc_fromWire d = Some c" "chunk_ok c" "chunk_safe c (lx mod 16) ((4 * ly + lz div 8) mod 16) ((2 * lz + lx div 16) mod 16) bid"
  shows "flush_coords (cas_index lx ly lz) = (lx mod 16, (4 * ly + lz div 8) mod 16, (2 * lz + lx div 16) mod 16) \<and>
    (\<exists>s'. cas_flush M s = Some (0, s') \<and> cs_cas s' = [] \<and> disk_of M (cs_lmdb s') = disk_of M (cs_lmdb s)) \<and>
    (\<exists>n t' w c'. cas_flush M t = Some (n, t') \<and>
      cs_cas t' = (if n = 0 then [] else cs_cas t) \<and>
      mc_fromWire w = Some c' \<and> disk_of M (cs_lmdb t') = (if n = 0 then disk_of M (cs_lmdb t) else (disk_of M (cs_lmdb t))(key \<mapsto> w)) \<and>
      mc_getBlock c' (lx mod 16) ((4 * ly + lz div 8) mod 16) ((2 * lz + lx div 16) mod 16) = Some bid)"
proof -
  let ?x = "lx mod 16" and ?y = "(4 * ly + lz div 8) mod 16" and ?z = "(2 * lz + lx div 16) mod 16"
  have coords: "flush_coords (cas_index lx ly lz) = (?x, ?y, ?z)" by (rule flush_coords_index[OF assms(1)])
  have l: "local3 ?x ?y ?z" by auto
  have s: "\<exists>s'. cas_flush M s = Some (0, s') \<and> cs_cas s' = [] \<and> disk_of M (cs_lmdb s') = disk_of M (cs_lmdb s)"
    using assms(3,4) read_facts(1)[OF assms(2), of key "cs_lmdb s"]
    by (simp add: cas_flush_def cas_flush_one_def store_read_def case_prod_beta Let_def)
  obtain c1 where 1: "mc_setBlock ?x ?y ?z bid c = Some c1" "chunk_ok c1" "mc_getBlock c1 ?x ?y ?z = Some bid"
    by (rule chunk_setBlock_facts[OF assms(8) l assms(9)]) (use l in auto)
  obtain c2 where 2: "mc_setMeta ?x ?y ?z m c1 = Some c2" "chunk_ok c2" "mc_getBlock c2 ?x ?y ?z = Some bid"
    by (rule chunk_setMeta_facts[OF 1(2) l, of m]) (use l 1(3) in auto)
  obtain w c' where w: "mc_encodeToWire c2 = Some w" "mc_fromWire w = Some c'" "list_all2 kept c2 c'"
    by (rule chunk_roundtrip_facts[OF 2(2)])
  have b: "mc_getBlock c' ?x ?y ?z = Some bid" using kept_content(1)[OF 2(2) w(3) l] 2(3) by simp
  obtain lm where r: "readRawBytes M key (cs_lmdb t) = (Inr d, lm)" using assms(6) by (cases "readRawBytes M key (cs_lmdb t)") auto
  have dl: "disk_of M lm = disk_of M (cs_lmdb t)" using read_facts(1)[OF assms(2), of key "cs_lmdb t"] r by simp
  obtain okw lw where wr: "writeRaw M key w lm = (okw, lw)" by fastforce
  have dw: "disk_of M lw = (if okw then (disk_of M (cs_lmdb t))(key \<mapsto> w) else disk_of M (cs_lmdb t))"
    using writeRaw_facts(1)[OF assms(2), of key w lm] wr dl by simp
  let ?t = "t\<lparr>cs_lmdb := lw\<rparr>"
  have one: "cas_flush_one M key [(cas_index lx ly lz, bid, m)] t = Some (\<not> okw, ?t)"
    using r assms(7) coords 1(1) 2(1) w(1) wr by (simp add: cas_flush_one_def store_read_def store_write_def)
  then have "cas_flush M t = Some (if okw then 1 else 0, ?t\<lparr>cs_cas := if okw then cs_cas t else []\<rparr>)"
    by (simp add: cas_flush_def assms(5))
  then have "\<exists>n t' w c'. cas_flush M t = Some (n, t') \<and> cs_cas t' = (if n = 0 then [] else cs_cas t) \<and>
      mc_fromWire w = Some c' \<and> disk_of M (cs_lmdb t') = (if n = 0 then disk_of M (cs_lmdb t) else (disk_of M (cs_lmdb t))(key \<mapsto> w)) \<and>
      mc_getBlock c' ?x ?y ?z = Some bid"
    using w(2) b dw by (intro exI[of _ "if okw then 1 else 0"] exI[of _ "?t\<lparr>cs_cas := if okw then cs_cas t else []\<rparr>"] exI[of _ w] exI[of _ c']) simp
  then show ?thesis using coords s by blast
qed

text \<open>What a failed decoding leaves behind: the sections that decode, one that fails, and air.\<close>

lemma sections_left_split:
  "read_many fromWire n r = None \<Longrightarrow> sections_left n r = Some ss \<Longrightarrow>
    \<exists>i r' left. i < n \<and> read_many fromWire i r = Some (take i ss, r') \<and> fromWire r' = None \<and>
      section_left r' = Some left \<and> ss = take i ss @ left # replicate (n - i - 1) ms_new"
proof (induction n arbitrary: r ss)
  case (Suc n)
  show ?case
  proof (cases "fromWire r")
    case None
    then show ?thesis using Suc.prems(2) by (intro exI[of _ 0]) auto
  next
    case (Some q)
    obtain s r1 where q: "q = (s, r1)" by (cases q)
    obtain ss' where ss: "ss = s # ss'" "sections_left n r1 = Some ss'" using Suc.prems(2) Some q by auto
    have "read_many fromWire n r1 = None" using Suc.prems(1) Some q by (auto split: bind_splits option.splits)
    from Suc.IH[OF this ss(2)] obtain i r' left where "i < n" "read_many fromWire i r1 = Some (take i ss', r')"
      "fromWire r' = None" "section_left r' = Some left" "ss' = take i ss' @ left # replicate (n - i - 1) ms_new" by blast
    then show ?thesis using Some q ss(1) by (intro exI[of _ "Suc i"]) auto
  qed
qed simp

text \<open>C39: a stored chunk is lost when it does not decode. When the header of its bytes cannot be read, the
  object the failed decoding leaves is all air; otherwise it is the sections before the first one that
  does not decode, what that one left, and air for all sections after it. The next \<open>setBlock\<close> in the chunk
  ignores the failure: it succeeds on this object, which takes the place of the chunk in the cache and
  is marked dirty, wherever the object and the edit are defined. And a chunk that is not stored is
  answered with the terrain of an evicted chunk when the pool holds one, because a recycled object keeps
  its content.\<close>

theorem lost_and_stale_chunks:
  assumes "lmdb_laws M" "cs_ok s" "block_key x y z \<noteq> 0" "fresh_address alloc s"
    and "clock_map (cch (cs_cache s)) (block_key x y z) = None"
    and "fst (readRawBytes M (block_key x y z) (cs_lmdb s)) = Inr d" "mc_fromWire d = None"
    and "mc_after_fromWire d = Some c" "edit_chunk x y z bid m c = Some c'"
    and "cs_ok t" "clock_map (cch (cs_cache t)) (block_key x y z) = None"
    and "fst (readRawBytes M (block_key x y z) (cs_lmdb t)) = Inl NotFound"
    and "pool (cs_cache t) = ps @ [p]" "um_find (cs_heap t) p = Some old"
    and "mc_getBlock old (local_of x) (local_of y) (local_of z) = Some b"
  shows "(case read_header \<lparr>rdata = d, rpos = 0\<rparr> of None \<Rightarrow> c = chunk_new
      | Some r \<Rightarrow> \<exists>i r' left. i < 8 \<and> read_many fromWire i r = Some (take i c, r') \<and> fromWire r' = None \<and>
          section_left r' = Some left \<and> c = take i c @ left # replicate (7 - i) ms_new) \<and>
    (\<exists>s'. store_setBlock M alloc x y z bid m s = Some (True, s') \<and>
      content M (block_key x y z) s' = Some c' \<and> block_key x y z \<in> set (cs_dirty s')) \<and>
    content M (block_key x y z) t = Some chunk_new \<and> (\<exists>t'. GetBlockAt M alloc x y z t = Some (b, t'))"
proof -
  let ?k = "block_key x y z"
  note c' = assms(9)
  have left: "case read_header \<lparr>rdata = d, rpos = 0\<rparr> of None \<Rightarrow> c = chunk_new
      | Some r \<Rightarrow> \<exists>i r' left. i < 8 \<and> read_many fromWire i r = Some (take i c, r') \<and> fromWire r' = None \<and>
          section_left r' = Some left \<and> c = take i c @ left # replicate (7 - i) ms_new"
  proof (cases "read_header \<lparr>rdata = d, rpos = 0\<rparr>")
    case None
    then show ?thesis using assms(8) by (simp add: mc_after_fromWire_def)
  next
    case (Some r)
    then have "read_many fromWire 8 r = None" "sections_left 8 r = Some c"
      using assms(7,8) by (simp_all add: mc_fromWire_def mc_after_fromWire_def SEC_CNT_def)
    from sections_left_split[OF this] show ?thesis using Some by simp
  qed
  obtain s1 where g: "getCached ?k s = (case clock_map (cch (cs_cache s)) ?k of None \<Rightarrow> 0 | Some p \<Rightarrow> p, s1)"
    "cs_ok s1" "clock_map (cch (cs_cache s1)) = clock_map (cch (cs_cache s))" "owned (cs_cache s1) = owned (cs_cache s)"
    "s1 = s\<lparr>cs_cache := cs_cache s1\<rparr>" "pool (cs_cache s1) = pool (cs_cache s)"
    by (rule getCached_facts[OF assms(2,3)])
  have f1: "cs_heap s1 = cs_heap s" "cs_lmdb s1 = cs_lmdb s" by (subst g(5); simp)+
  obtain s2 where r: "store_read M ?k s1 = (Inr d, s2)" "cs_heap s2 = cs_heap s" "cs_cache s2 = cs_cache s1"
    using assms(6) f1 by (auto simp: store_read_def case_prod_beta Let_def)
  have ok2: "cs_ok s2" "fresh_address alloc s2" using g(2) assms(4) by (simp_all add: cs_ok_def fresh_address_def f1 r)
  obtain p' s3 where o: "(let (p, c) = takeFromPool (cs_cache s2); s = s2\<lparr>cs_cache := c\<rparr>
      in if p = 0 then new_chunk alloc c' s else (p, s\<lparr>cs_heap := um_put p c' (cs_heap s)\<rparr>)) = (p', s3)" by fastforce
  note ob = object_facts[OF ok2 o]
  have none: "clock_map (cch (cs_cache s3)) ?k = None" using assms(5) ob(6) by (simp add: r g(3))
  obtain s4 where pt: "putCached ?k p' s3 = Some s4" "cs_ok s4" "clock_map (cch (cs_cache s4)) ?k = Some p'"
    "um_find (cs_heap s4) p' = Some c'" "s4 = s3\<lparr>cs_cache := cs_cache s4, cs_heap := cs_heap s4\<rparr>"
    by (rule putCached_facts[OF ob(1) assms(3) none ob(2,3,4,5)])
  have "store_setBlock M alloc x y z bid m s = Some (True, touched ?k s4)"
    using assms(5,8) r(1) c' o pt(1) unfolding store_setBlock_def
    by (simp add: g(1) Let_def case_prod_beta split: if_splits)
  moreover have "content M ?k (touched ?k s4) = Some c'"
    using pt(3,4) by (simp add: content_def touched_def markDirty_def)
  moreover have "?k \<in> set (cs_dirty (touched ?k s4))" by (simp add: touched_def markDirty_def)
  ultimately have first: "\<exists>s'. store_setBlock M alloc x y z bid m s = Some (True, s') \<and>
      content M ?k s' = Some c' \<and> ?k \<in> set (cs_dirty s')" by blast
  obtain t1 where h: "getCached ?k t = (case clock_map (cch (cs_cache t)) ?k of None \<Rightarrow> 0 | Some p \<Rightarrow> p, t1)"
    "cs_ok t1" "clock_map (cch (cs_cache t1)) = clock_map (cch (cs_cache t))" "owned (cs_cache t1) = owned (cs_cache t)"
    "t1 = t\<lparr>cs_cache := cs_cache t1\<rparr>" "pool (cs_cache t1) = pool (cs_cache t)"
    by (rule getCached_facts[OF assms(10,3)])
  have h1: "cs_heap t1 = cs_heap t" "cs_lmdb t1 = cs_lmdb t" by (subst h(5); simp)+
  obtain t2 where q: "store_read M ?k t1 = (Inl NotFound, t2)" "cs_heap t2 = cs_heap t" "cs_cache t2 = cs_cache t1"
    using assms(12) h1 by (auto simp: store_read_def case_prod_beta Let_def)
  have po: "p \<in># owned (cs_cache t1)" using assms(13) h(6) by (simp add: owned_def)
  have inv: "cc_inv (cs_cache t1)" using h(2) by (simp add: cs_ok_def)
  then have p0: "p \<noteq> 0" using po by (auto simp: cc_inv_def)
  have tk: "takeFromPool (cs_cache t1) = (p, (cs_cache t1)\<lparr>pool := ps\<rparr>)" using assms(13) h(6) by (simp add: takeFromPool_def)
  note tp = takeFromPool_step[OF inv, unfolded tk fst_conv snd_conv]
  let ?t3 = "t2\<lparr>cs_cache := (cs_cache t1)\<lparr>pool := ps\<rparr>\<rparr>"
  have own: "owned ((cs_cache t1)\<lparr>pool := ps\<rparr>) + {#p#} = owned (cs_cache t1)" using tp(3) p0 by simp
  have "count (owned (cs_cache t1)) p \<le> 1" using inv by (simp add: cc_inv_def)
  then have np: "p \<notin># owned (cs_cache ?t3)" unfolding own[symmetric] by (simp add: not_in_iff)
  have sub: "a \<in># owned (cs_cache ?t3) \<Longrightarrow> a \<in># owned (cs_cache t1)" for a unfolding own[symmetric] by simp
  have ok3: "cs_ok ?t3" using h(2) tp(1) sub by (simp add: cs_ok_def q h1)
  have nb: "\<not> bit p 63" using h(2) po by (simp add: cs_ok_def)
  have hp: "um_find (cs_heap ?t3) p = Some old" using assms(14) by (simp add: q)
  have none3: "clock_map (cch (cs_cache ?t3)) ?k = None" using assms(11) h(3) by simp
  obtain t4 where u: "putCached ?k p ?t3 = Some t4" "um_find (cs_heap t4) p = Some old"
    by (rule putCached_facts[OF ok3 assms(3) none3 p0 nb np hp]) (rule that; assumption)
  have "GetChunk M alloc ?k t = Some (p, t4)"
    using assms(11) h(1) q(1,3) tk p0 u(1) by (simp add: GetChunk_def take_or_new_def Let_def)
  then have second: "GetBlockAt M alloc x y z t = Some (b, t4)"
    using p0 u(2) assms(15) by (simp add: GetBlockAt_def read_at_def deref_def)
  have "disk_of M (cs_lmdb t) ?k = None" by (rule read_facts(4)[OF assms(1,12)])
  then have "content M ?k t = Some chunk_new" using assms(11) by (simp add: content_def)
  then show ?thesis using left first second by blast
qed

text \<open>A request to set a block sets another one: the handler passes the chunk coordinate where the
  position is expected. The block at the chunk coordinate, read as a position, gets the new id; the
  requested block reads as before, and the answer is success.\<close>

theorem set_request_misplaced:
  assumes "lmdb_laws M" "cs_ok s" "block_key (chunk_of x) (chunk_of y) (chunk_of z) \<noteq> 0" "fresh_address alloc s"
    and "content M (block_key (chunk_of x) (chunk_of y) (chunk_of z)) s = Some c" "chunk_ok c"
    and "chunk_safe c (local_of (chunk_of x)) (local_of (chunk_of y)) (local_of (chunk_of z)) bid"
    and "fst (readRawBytes M (block_key (chunk_of x) (chunk_of y) (chunk_of z)) (cs_lmdb s)) \<noteq> Inl Failed"
    and "block_key x y z = block_key (chunk_of x) (chunk_of y) (chunk_of z)"
    and "(local_of x, local_of y, local_of z) \<noteq> (local_of (chunk_of x), local_of (chunk_of y), local_of (chunk_of z))"
  shows "\<exists>s' w s2 s3. handleSetBlock M alloc x y z bid m s = Some (True, s') \<and>
    mc_getBlock c (local_of x) (local_of y) (local_of z) = Some w \<and> GetBlockAt M alloc x y z s' = Some (w, s2) \<and>
    GetBlockAt M alloc (chunk_of x) (chunk_of y) (chunk_of z) s' = Some (bid, s3)"
proof -
  note rd = setBlock_read_facts[OF assms(1-7), where m = m]
  have h: "handleSetBlock M alloc x y z bid m s = store_setBlock M alloc (chunk_of x) (chunk_of y) (chunk_of z) bid m s"
    by (simp add: handleSetBlock_def store_SetBlock_def)
  obtain s' where s': "store_setBlock M alloc (chunk_of x) (chunk_of y) (chunk_of z) bid m s = Some (True, s')"
  proof -
    obtain r s' where "store_setBlock M alloc (chunk_of x) (chunk_of y) (chunk_of z) bid m s = Some (r, s')"
      "\<not> r \<Longrightarrow> fst (readRawBytes M (block_key (chunk_of x) (chunk_of y) (chunk_of z)) (cs_lmdb s)) = Inl Failed"
      by (rule setBlock_content[OF assms(1-7), where m = m], rule that; assumption)
    then show thesis using that assms(8) by (cases r) auto
  qed
  show ?thesis
    using rd[OF assms(9)] rd[OF refl] s' assms(10) h by auto
qed

section \<open>Concrete stores\<close>

definition fresh_store :: "((u64 \<Rightarrow> bytes option) \<times> (u64 \<Rightarrow> bytes option) \<times> nat) chunk_store" where
  "fresh_store = \<lparr>cs_cache = chunk_cache_new, cs_heap = [], cs_lmdb = tiny_store, cs_palettes = [], cs_dirty = [],
     cs_cas = [], cs_gen_cbs = [], cs_requests = [], cs_batch = []\<rparr>"

definition bump_alloc :: allocator where
  "bump_alloc h = of_nat (16 * (length h + 1))"

lemma cache_new_map: "clock_map (cch chunk_cache_new) k = None"
  using clock_new_ok(3)[of "CACHE_CAPACITY div kAssoc"] by (simp add: chunk_cache_new_def CACHE_CAPACITY_def kAssoc_def)

lemma fresh_store_ok: "cs_ok fresh_store" "fresh_address bump_alloc fresh_store" "content tiny_lmdb k fresh_store = Some chunk_new"
  using cc_new_inv cache_new_map
  by (simp_all add: cs_ok_def fresh_store_def fresh_address_def bump_alloc_def um_contains_def content_def tiny_store_def tiny_lmdb_def)

lemma tiny_reads: "disk_of tiny_lmdb s k = None \<Longrightarrow> envOpen s \<Longrightarrow> fst (readRawBytes tiny_lmdb k s) = Inl NotFound"
  by (cases "lenv s") (simp add: readRawBytes_def tiny_lmdb_def Let_def)

lemma fresh_reads: "fst (readRawBytes tiny_lmdb k (cs_lmdb fresh_store)) = Inl NotFound"
  by (rule tiny_reads) (simp_all add: fresh_store_def tiny_store_def tiny_lmdb_def)

lemma new_safe: "chunk_safe chunk_new (local_of x) (local_of y) (local_of z) bid"
  using mc_address(1)[of "local_of x" "local_of y" "local_of z"] local_lt
  by (simp add: chunk_safe_def promotion_safe_def chunk_new_def SEC_CNT_def ms_new_def)

lemma keys_567:
  "block_key 5 6 7 \<noteq> 0" "block_key (chunk_of 5) (chunk_of 6) (chunk_of 7) = block_key 5 6 7" "block_key 5 6 8 = block_key 5 6 7"
  by code_simp+

theorem setBlock_then_read_witness:
  "\<exists>r s'. store_setBlock tiny_lmdb bump_alloc 5 6 7 9 1 fresh_store = Some (r, s') \<and> cs_ok s' \<and>
    disk_of tiny_lmdb (cs_lmdb s') = disk_of tiny_lmdb (cs_lmdb fresh_store) \<and>
    (if r then \<exists>v w s2 s3. mc_getBlock chunk_new (local_of 5) (local_of 6) (local_of 8) = Some w \<and>
         GetBlockAt tiny_lmdb bump_alloc 5 6 8 s' = Some (v, s2) \<and>
         v = (if local_of 5 = local_of 5 \<and> local_of 6 = local_of 6 \<and> local_of 8 = local_of 7 then 9 else w) \<and>
         GetMeta tiny_lmdb bump_alloc 5 6 7 s' = Some (1, s3)
     else content tiny_lmdb (block_key 5 6 7) s' = Some chunk_new \<and> cs_heap s' = cs_heap fresh_store)"
  by (rule setBlock_then_read[OF tiny_laws fresh_store_ok(1) keys_567(1) fresh_store_ok(2,3) chunk_new_ok new_safe keys_567(3)])

lemma fresh_set:
  obtains s1 where "store_setBlock tiny_lmdb bump_alloc 5 6 7 9 1 fresh_store = Some (True, s1)" "cs_ok s1"
    "cs_dirty s1 = [block_key 5 6 7]" "um_find (cs_palettes s1) (block_key 5 6 7) = None"
    "\<exists>p. clock_map (cch (cs_cache s1)) (block_key 5 6 7) = Some p"
    "content tiny_lmdb (block_key 5 6 7) s1 = edit_chunk 5 6 7 9 1 chunk_new" "envOpen (cs_lmdb s1)"
proof -
  obtain r s' where f: "store_setBlock tiny_lmdb bump_alloc 5 6 7 9 1 fresh_store = Some (r, s')" "cs_ok s'"
    "r \<Longrightarrow> content tiny_lmdb (block_key 5 6 7) s' = edit_chunk 5 6 7 9 1 chunk_new"
    "r \<Longrightarrow> \<exists>p. clock_map (cch (cs_cache s')) (block_key 5 6 7) = Some p"
    "r \<Longrightarrow> cs_dirty s' = List.insert (block_key 5 6 7) (cs_dirty fresh_store) \<and> um_find (cs_palettes s') (block_key 5 6 7) = None"
    "envOpen (cs_lmdb s') = envOpen (cs_lmdb fresh_store)"
    "\<not> r \<Longrightarrow> fst (readRawBytes tiny_lmdb (block_key 5 6 7) (cs_lmdb fresh_store)) = Inl Failed"
    by (rule setBlock_content[OF tiny_laws fresh_store_ok(1) keys_567(1) fresh_store_ok(2,3) chunk_new_ok new_safe, where m = 1], rule that; assumption)
  have r using f(7) fresh_reads by (cases r) auto
  show thesis by (rule that[of s']) (use f \<open>r\<close> in \<open>simp_all add: fresh_store_def tiny_store_def\<close>)
qed

lemma tiny_writes: "envOpen s \<Longrightarrow> fst (writeRaw tiny_lmdb k w s)"
  by (cases "lenv s") (simp add: writeRaw_def tiny_lmdb_def Let_def eval_nat_numeral MDB_MAP_FULL_def)

lemma fresh_set_flush:
  obtains s1 s2 where "store_setBlock tiny_lmdb bump_alloc 5 6 7 9 1 fresh_store = Some (True, s1)" "flushDirtyChunks tiny_lmdb s1 = Some (True, s2)"
proof -
  obtain s1 where f: "store_setBlock tiny_lmdb bump_alloc 5 6 7 9 1 fresh_store = Some (True, s1)" "cs_ok s1"
    "cs_dirty s1 = [block_key 5 6 7]" "um_find (cs_palettes s1) (block_key 5 6 7) = None"
    "\<exists>p. clock_map (cch (cs_cache s1)) (block_key 5 6 7) = Some p"
    "content tiny_lmdb (block_key 5 6 7) s1 = edit_chunk 5 6 7 9 1 chunk_new" "envOpen (cs_lmdb s1)"
    by (rule fresh_set)
  obtain c1 where c: "edit_chunk 5 6 7 9 1 chunk_new = Some c1" "chunk_ok c1"
    by (rule edit_chunk_facts[OF chunk_new_ok new_safe, where m = 1], rule that; assumption)
  obtain p where p: "clock_map (cch (cs_cache s1)) (block_key 5 6 7) = Some p" using f(5) by blast
  have cont: "content tiny_lmdb (block_key 5 6 7) s1 = Some c1" using f(6) c(1) by simp
  obtain saved w s' where "flushDirtyChunks tiny_lmdb s1 = Some (saved, s')"
    "saved \<longleftrightarrow> fst (writeRaw tiny_lmdb (block_key 5 6 7) w (cs_lmdb s1))"
    by (rule flush_single[OF tiny_laws f(2) keys_567(1) f(3,4) p cont c(2)], rule that; assumption)
  then show thesis using that[OF f(1)] tiny_writes[OF f(7)] by simp
qed

theorem setBlock_persists_witness:
  "\<exists>s1 s2 n t w c'. store_setBlock tiny_lmdb bump_alloc 5 6 7 9 1 fresh_store = Some (True, s1) \<and>
    flushDirtyChunks tiny_lmdb s1 = Some (True, s2) \<and> flush_loop tiny_lmdb [] (s1\<lparr>cs_dirty := []\<rparr>) = Some (n, t) \<and>
    mc_fromWire w = Some c' \<and> mc_getBlock c' 5 6 7 = Some 9 \<and> disk_of tiny_lmdb (cs_lmdb s2) (block_key 5 6 7) = Some w"
proof -
  obtain s1 s2 where s: "store_setBlock tiny_lmdb bump_alloc 5 6 7 9 1 fresh_store = Some (True, s1)"
    "flushDirtyChunks tiny_lmdb s1 = Some (True, s2)" by (rule fresh_set_flush)
  have d: "0 \<notin> set (cs_dirty fresh_store)" "distinct (cs_dirty fresh_store)" "cs_dirty fresh_store = []"
    by (simp_all add: fresh_store_def)
  have l: "local3 5 6 7" by simp
  have at: "local_of 5 = 5" "local_of 6 = 6" "local_of 7 = 7" by code_simp+
  obtain pre post n t w c' where f: "cs_dirty s1 = pre @ block_key 5 6 7 # post"
    "flush_loop tiny_lmdb pre (s1\<lparr>cs_dirty := []\<rparr>) = Some (n, t)" "mc_fromWire w = Some c'" "mc_getBlock c' 5 6 7 = Some 9"
    "disk_of tiny_lmdb (cs_lmdb s2) (block_key 5 6 7) = Some w"
    using setBlock_persists[OF tiny_laws fresh_store_ok(1) keys_567(1) fresh_store_ok(2,3) chunk_new_ok new_safe d(1,2) l s, unfolded at]
      d(3) by auto
  obtain s1' where "store_setBlock tiny_lmdb bump_alloc 5 6 7 9 1 fresh_store = Some (True, s1')" "cs_dirty s1' = [block_key 5 6 7]"
    by (rule fresh_set)
  then have "pre = []" using s(1) f(1) by (cases pre) auto
  then show ?thesis using s f by blast
qed

theorem set_request_misplaced_witness:
  "\<exists>s' w s2 s3. handleSetBlock tiny_lmdb bump_alloc 5 6 7 9 1 fresh_store = Some (True, s') \<and>
    mc_getBlock chunk_new (local_of 5) (local_of 6) (local_of 7) = Some w \<and> GetBlockAt tiny_lmdb bump_alloc 5 6 7 s' = Some (w, s2) \<and>
    GetBlockAt tiny_lmdb bump_alloc (chunk_of 5) (chunk_of 6) (chunk_of 7) s' = Some (9, s3)"
  by (rule set_request_misplaced[OF tiny_laws fresh_store_ok(1) _ fresh_store_ok(2,3) chunk_new_ok new_safe])
    (simp_all only: keys_567 fresh_reads, code_simp+)

theorem flush_forgets_edits_witness:
  "\<exists>s'. flushDirtyChunks tiny_lmdb (fresh_store\<lparr>cs_dirty := [5]\<rparr>) = Some (False, s') \<and>
    disk_of tiny_lmdb (cs_lmdb s') = disk_of tiny_lmdb (cs_lmdb (fresh_store\<lparr>cs_dirty := [5]\<rparr>)) \<and> cs_dirty s' = []"
proof -
  let ?s = "fresh_store\<lparr>cs_dirty := [5]\<rparr>"
  obtain w where w: "mc_encodeToWire chunk_new = Some w"
    by (rule chunk_roundtrip_facts[OF chunk_new_ok], rule that; assumption)
  have ok: "cs_ok ?s" and cont: "content tiny_lmdb 5 ?s = Some chunk_new"
    using fresh_store_ok(1) fresh_store_ok(3)[of 5] by (simp_all add: cs_ok_def content_def cong: option.case_cong)
  have none: "clock_map (cch (cs_cache ?s)) 5 = None" using cache_new_map by (simp add: fresh_store_def)
  have z: "(5 :: u64) \<noteq> 0" "cs_dirty ?s = [5]" "um_find (cs_palettes ?s) 5 = None" by (simp_all add: fresh_store_def)
  show ?thesis
    by (rule flush_forgets_edits[OF tiny_laws ok z cont chunk_new_ok w]) (use none in blast)
qed

text \<open>Stores whose disk holds one chunk, and one that is not open.\<close>

definition disk_store :: "u64 \<Rightarrow> bytes \<Rightarrow> ((u64 \<Rightarrow> bytes option) \<times> (u64 \<Rightarrow> bytes option) \<times> nat) chunk_store" where
  "disk_store key d = fresh_store\<lparr>cs_lmdb := tiny_store\<lparr>lenv := ([key \<mapsto> d], Map.empty, 0)\<rparr>\<rparr>"

definition closed_store :: "((u64 \<Rightarrow> bytes option) \<times> (u64 \<Rightarrow> bytes option) \<times> nat) chunk_store" where
  "closed_store = fresh_store\<lparr>cs_lmdb := tiny_store\<lparr>envOpen := False\<rparr>\<rparr>"

lemma disk_store_reads: "fst (readRawBytes tiny_lmdb key (cs_lmdb (disk_store key d))) = Inr d"
  by (simp add: readRawBytes_def disk_store_def tiny_store_def tiny_lmdb_def MDB_NOTFOUND_def Let_def)

lemma kept_new: "list_all2 kept chunk_new c \<Longrightarrow> c = chunk_new"
proof -
  assume k: "list_all2 kept chunk_new c"
  then have "length c = 8" by (simp add: chunk_new_def SEC_CNT_def list_all2_lengthD[symmetric])
  moreover have "c ! i = ms_new" if "i < 8" for i
    using list_all2_nthD[OF k, of i] that by (simp add: chunk_new_def SEC_CNT_def kept_def ms_new_def)
  ultimately show ?thesis by (intro nth_equalityI) (simp_all add: chunk_new_def SEC_CNT_def)
qed

text \<open>The swap on a chunk that is stored and not cached.\<close>

theorem casBlock_correct_witness:
  "\<exists>d s'. disk_of tiny_lmdb (cs_lmdb (disk_store (block_key 5 6 7) d)) (block_key 5 6 7) = Some d \<and>
    clock_map (cch (cs_cache (disk_store (block_key 5 6 7) d))) (block_key 5 6 7) = None \<and>
    casBlock tiny_lmdb bump_alloc 5 6 7 0 9 1 (disk_store (block_key 5 6 7) d) = Some (CasOk 9 1, s') \<and> cs_ok s' \<and>
    content tiny_lmdb (block_key 5 6 7) s' = edit_chunk 5 6 7 9 1 chunk_new"
proof -
  let ?k = "block_key 5 6 7"
  obtain d c where d: "mc_fromWire d = Some c" "list_all2 kept chunk_new c"
    by (rule chunk_roundtrip_facts[OF chunk_new_ok], rule that; assumption)
  then have c: "c = chunk_new" by (intro kept_new)
  let ?s = "disk_store ?k d"
  have ok: "cs_ok ?s" "fresh_address bump_alloc ?s"
    using fresh_store_ok(1,2) by (simp_all add: cs_ok_def fresh_address_def disk_store_def)
  have none: "clock_map (cch (cs_cache ?s)) ?k = None" using cache_new_map by (simp add: disk_store_def fresh_store_def)
  have disk: "disk_of tiny_lmdb (cs_lmdb ?s) ?k = Some d" by (rule read_facts(3)[OF tiny_laws disk_store_reads])
  have cont: "content tiny_lmdb ?k ?s = Some chunk_new" using none disk d(1) c by (simp add: content_def)
  have reads: "fst (readRawBytes tiny_lmdb ?k (cs_lmdb ?s)) \<noteq> Inl Failed" using disk_store_reads[of ?k d] by simp
  have a: "mc_sec (local_of 5) (local_of 6) (local_of 7) < 8" by (rule mc_address) (use local_lt in blast)
  have cur: "mc_getBlock chunk_new (local_of 5) (local_of 6) (local_of 7) = Some 0" "mc_getMeta chunk_new (local_of 5) (local_of 6) (local_of 7) = Some 0"
    using a by (simp_all add: mc_getBlock_def mc_getMeta_def chunk_new_def SEC_CNT_def nth_opt_def ms_new_reads)
  show ?thesis
    using casBlock_correct[OF tiny_laws ok(1) keys_567(1) ok(2) cont chunk_new_ok new_safe reads cur, where expected = 0 and bid = 9 and m = 1] none disk
    by (intro exI[of _ d]) simp
qed

theorem cas_flush_misplaces_witness:
  "\<exists>d. flush_coords (cas_index 20 1 9) = (20 mod 16, (4 * 1 + 9 div 8) mod 16, (2 * 9 + 20 div 16) mod 16) \<and>
    (\<exists>s'. cas_flush tiny_lmdb (closed_store\<lparr>cs_cas := [(5, [(7, 8, 9)])]\<rparr>) = Some (0, s') \<and> cs_cas s' = [] \<and>
      disk_of tiny_lmdb (cs_lmdb s') = disk_of tiny_lmdb (cs_lmdb (closed_store\<lparr>cs_cas := [(5, [(7, 8, 9)])]\<rparr>))) \<and>
    (\<exists>n t' w c'. cas_flush tiny_lmdb ((disk_store 5 d)\<lparr>cs_cas := [(5, [(cas_index 20 1 9, 77, 1)])]\<rparr>) = Some (n, t') \<and>
      cs_cas t' = (if n = 0 then [] else cs_cas ((disk_store 5 d)\<lparr>cs_cas := [(5, [(cas_index 20 1 9, 77, 1)])]\<rparr>)) \<and>
      mc_fromWire w = Some c' \<and> disk_of tiny_lmdb (cs_lmdb t') =
        (if n = 0 then disk_of tiny_lmdb (cs_lmdb ((disk_store 5 d)\<lparr>cs_cas := [(5, [(cas_index 20 1 9, 77, 1)])]\<rparr>))
         else (disk_of tiny_lmdb (cs_lmdb ((disk_store 5 d)\<lparr>cs_cas := [(5, [(cas_index 20 1 9, 77, 1)])]\<rparr>)))(5 \<mapsto> w)) \<and>
      mc_getBlock c' (20 mod 16) ((4 * 1 + 9 div 8) mod 16) ((2 * 9 + 20 div 16) mod 16) = Some 77)"
proof -
  obtain d c where d: "mc_fromWire d = Some c" "list_all2 kept chunk_new c"
    by (rule chunk_roundtrip_facts[OF chunk_new_ok], rule that; assumption)
  then have c: "c = chunk_new" by (intro kept_new)
  have safe: "chunk_safe chunk_new (20 mod 16) ((4 * 1 + 9 div 8) mod 16) ((2 * 9 + 20 div 16) mod 16) 77"
    by (simp add: chunk_safe_def promotion_safe_def mc_sec_eq chunk_new_def SEC_CNT_def ms_new_def)
  show ?thesis
    by (rule exI[of _ d], rule cas_flush_misplaces[OF _ tiny_laws])
      (use d(1) c chunk_new_ok safe disk_store_reads[of 5 d] in \<open>simp_all add: closed_store_def readRawBytes_def tiny_store_def\<close>)
qed

text \<open>A header, a first section whose palette size was overwritten by 0, and seven sections of block 9.\<close>

definition corrupt_bytes :: bytes where
  "corrupt_bytes = writeU8 (writeU8 (writeU32 [] MAGIC) 2) 8 @ [0, 0] @ concat (replicate 7 [1, 0, 9, 0, 0, 0, 0, 0, 0])"

lemma corrupt_reads:
  "mc_fromWire corrupt_bytes = None" "mc_after_fromWire corrupt_bytes = Some chunk_new"
  by code_simp+

lemma cache_with_pool: "cc_inv (chunk_cache_new\<lparr>pool := [16]\<rparr>)" "owned (chunk_cache_new\<lparr>pool := [16]\<rparr>) = {#16#}"
proof -
  have "owned (chunk_cache_new\<lparr>pool := [16]\<rparr>) = owned chunk_cache_new + {#16#}" by (simp add: owned_def chunk_cache_new_def)
  then show o: "owned (chunk_cache_new\<lparr>pool := [16]\<rparr>) = {#16#}" using cc_new_inv(2) by simp
  show "cc_inv (chunk_cache_new\<lparr>pool := [16]\<rparr>)"
    using cc_new_inv(1) unfolding cc_inv_def o
    by (simp add: POOL_CAP_def chunk_cache_new_def um_contains_def)
qed

definition pooled_store :: "chunk \<Rightarrow> ((u64 \<Rightarrow> bytes option) \<times> (u64 \<Rightarrow> bytes option) \<times> nat) chunk_store" where
  "pooled_store c = fresh_store\<lparr>cs_cache := chunk_cache_new\<lparr>pool := [16]\<rparr>, cs_heap := [(16, c)]\<rparr>"

theorem lost_and_stale_chunks_witness:
  "\<exists>old. (\<exists>s'. store_setBlock tiny_lmdb bump_alloc 5 6 7 9 1 (disk_store (block_key 5 6 7) corrupt_bytes) = Some (True, s') \<and>
      content tiny_lmdb (block_key 5 6 7) s' = Some old \<and> block_key 5 6 7 \<in> set (cs_dirty s')) \<and>
    content tiny_lmdb (block_key 5 6 7) (pooled_store old) = Some chunk_new \<and>
    (\<exists>t'. GetBlockAt tiny_lmdb bump_alloc 5 6 7 (pooled_store old) = Some (9, t'))"
proof -
  have l: "local3 (local_of 5) (local_of 6) (local_of 7)" using local_lt by blast
  obtain old where o: "edit_chunk 5 6 7 9 1 chunk_new = Some old" "chunk_ok old"
    "\<And>a b d. local3 a b d \<Longrightarrow> mc_getBlock old a b d =
        (if a = local_of 5 \<and> b = local_of 6 \<and> d = local_of 7 then Some 9 else mc_getBlock chunk_new a b d) \<and>
      mc_getMeta old a b d =
        (if a = local_of 5 \<and> b = local_of 6 \<and> d = local_of 7 then Some 1 else mc_getMeta chunk_new a b d) \<and>
      mc_getMultiblock old a b d = mc_getMultiblock chunk_new a b d"
    by (rule edit_chunk_facts[OF chunk_new_ok new_safe, where m = 1], rule that; assumption)
  have old: "mc_getBlock old (local_of 5) (local_of 6) (local_of 7) = Some 9" by (simp add: o(3)[OF l])
  have "\<not> bit (16 :: u64) 63" by code_simp
  then have t: "cs_ok (pooled_store old)" using cache_with_pool by (simp add: cs_ok_def pooled_store_def um_contains_def)
  have s: "cs_ok (disk_store (block_key 5 6 7) corrupt_bytes)" "fresh_address bump_alloc (disk_store (block_key 5 6 7) corrupt_bytes)"
    using fresh_store_ok(1,2) by (simp_all add: cs_ok_def fresh_address_def disk_store_def)
  have c: "clock_map (cch (cs_cache (disk_store (block_key 5 6 7) corrupt_bytes))) (block_key 5 6 7) = None"
    "clock_map (cch (cs_cache (pooled_store old))) (block_key 5 6 7) = None"
    using cache_new_map by (simp_all add: disk_store_def fresh_store_def pooled_store_def chunk_cache_new_def)
  have r: "fst (readRawBytes tiny_lmdb (block_key 5 6 7) (cs_lmdb (pooled_store old))) = Inl NotFound"
    using fresh_reads by (simp add: pooled_store_def)
  have p: "pool (cs_cache (pooled_store old)) = [] @ [16]" "um_find (cs_heap (pooled_store old)) 16 = Some old"
    by (simp_all add: pooled_store_def)
  note st = lost_and_stale_chunks[OF tiny_laws s(1) keys_567(1) s(2) c(1) disk_store_reads corrupt_reads(1,2) o(1) t c(2) r p old]
  show ?thesis using st by blast
qed

end
