(* ===== verification/Recipes.thy ===== *)
theory Recipes
  imports Complex_Main InventoryProps PipeTypes
begin

text \<open>
  Recipes of \<open>src/game/recipes\<close>: the types of \<open>RecipeTypes.h\<close>, matching and crafting
  (\<open>Recipe::matches\<close>, \<open>consumeInputs\<close>, \<open>craft\<close>), the lookups of \<open>RecipeManager.cpp\<close> and the conditions of
  \<open>ConditionEvaluator.cpp\<close>. An \<open>ItemStack\<close> is a \<^typ>\<open>pslot\<close>. Floats are rationals, \<open>None\<close> is NaN: rounding and
  infinities are left out. The display strings of an output are not used by any of these operations and
  are left out.
\<close>

section \<open>Types\<close>

record input_item =
  in_id :: u16
  in_count :: u8
  in_meta :: u16
  in_consume :: bool
  in_replace :: u16
  in_replace_meta :: u16

record output_item =
  out_id :: u16
  out_count :: u8
  out_meta :: u16

record requirement =
  req_kind :: resource_kind
  req_resource :: u32
  req_amount :: u32
  req_tier :: int

record fluid_io =
  fio_id :: u16
  fio_mb :: u32

type_synonym flt = "rat option"

record environment =
  env_temperature :: "(flt \<times> flt) option"
  env_purity :: "flt option"
  env_biomes :: "u16 list"

record machine_conditions =
  mc_energy_min :: "u32 option"
  mc_energy_max :: "u32 option"
  mc_network :: "u32 option"
  mc_facing :: "u8 option"

record special =
  sp_key :: u16
  sp_type :: u8
  sp_int :: int
  sp_float :: flt
  sp_string :: string

record conditions =
  c_environment :: "environment option"
  c_machine :: "machine_conditions option"
  c_special :: "special list"

definition ENERGY_TYPE_ANY :: u8 where "ENERGY_TYPE_ANY = 255"

record recipe =
  r_name :: string
  r_inputs :: "input_item list"
  r_outputs :: "output_item list"
  r_class :: string
  r_min_tier :: int
  r_max_tier :: int
  r_energy_type :: u8
  r_duration :: u32
  r_cost :: rat
  r_conditions :: conditions
  r_requirements :: "requirement list"
  r_fluid_in :: "fluid_io list"
  r_fluid_out :: "fluid_io list"
  r_pattern :: "pslot list option"

definition hasResourceRequirements :: "recipe \<Rightarrow> bool" where
  "hasResourceRequirements r \<longleftrightarrow> r_requirements r \<noteq> []"

definition needsReservation :: "recipe \<Rightarrow> bool" where
  "needsReservation r \<longleftrightarrow> hasResourceRequirements r \<or> r_fluid_in r \<noteq> []"

text \<open>The sum in \<open>uint32_t\<close>: it wraps.\<close>

definition resourceAmountPerTick :: "recipe \<Rightarrow> u32" where
  "resourceAmountPerTick r = foldl (\<lambda>total q. total + req_amount q) 0 (r_requirements r)"

section \<open>Matching\<close>

text \<open>One cell of a positional pattern against its slot.\<close>

definition cell_matches :: "pslot \<Rightarrow> pslot \<Rightarrow> bool" where
  "cell_matches cell s \<longleftrightarrow>
     (if item_id cell = 0 then item_id s = 0
      else item_id s = item_id cell \<and> pmeta s = pmeta cell \<and> cnt s \<ge> cnt cell)"

definition slot_serves :: "input_item \<Rightarrow> pslot \<Rightarrow> bool" where
  "slot_serves q s \<longleftrightarrow> item_id s = in_id q \<and> cnt s \<ge> in_count q \<and> pmeta s = in_meta q"

text \<open>The search for an unused slot; it returns the updated \<open>used\<close> flags.\<close>

fun claim_slot :: "input_item \<Rightarrow> (pslot \<times> bool) list \<Rightarrow> (pslot \<times> bool) list option" where
  "claim_slot q [] = None"
| "claim_slot q ((s, used) # ss) =
     (if \<not> used \<and> slot_serves q s then Some ((s, True) # ss)
      else map_option ((#) (s, used)) (claim_slot q ss))"

fun claim_all :: "input_item list \<Rightarrow> (pslot \<times> bool) list \<Rightarrow> bool" where
  "claim_all [] ss = True"
| "claim_all (q # qs) ss =
     (if in_id q = 0 then claim_all qs ss
      else (case claim_slot q ss of None \<Rightarrow> False | Some ss' \<Rightarrow> claim_all qs ss'))"

definition matches :: "recipe \<Rightarrow> pslot list \<Rightarrow> bool" where
  "matches r items =
     (case r_pattern r of
        Some pat \<Rightarrow> \<not> length items < 9 \<and> list_all (\<lambda>(c, s). cell_matches c s) (zip (take 9 pat) (take 9 items))
      | None \<Rightarrow>
          (let required = length (filter (\<lambda>q. in_id q \<noteq> 0) (r_inputs r));
               available = length (filter (\<lambda>s. item_id s \<noteq> 0 \<and> cnt s > 0) items)
           in \<not> available < required \<and> claim_all (r_inputs r) (map (\<lambda>s. (s, False)) items)))"

section \<open>Crafting\<close>

definition take_from :: "u8 \<Rightarrow> pslot \<Rightarrow> pslot" where
  "take_from n s =
     (let s = s\<lparr>cnt := cnt s - n\<rparr> in if cnt s = 0 then s\<lparr>item_id := 0, pmeta := 0\<rparr> else s)"

fun consume_pattern :: "pslot list \<Rightarrow> pslot list \<Rightarrow> pslot list" where
  "consume_pattern (c # cs) (s # ss) =
     (if item_id c = 0 then s else take_from (min (cnt s) (cnt c)) s) # consume_pattern cs ss"
| "consume_pattern _ ss = ss"

text \<open>The loop of one input over the slots: take as much as needed from every slot with the item.\<close>

fun take_input :: "u16 \<Rightarrow> u16 \<Rightarrow> u8 \<Rightarrow> pslot list \<Rightarrow> pslot list" where
  "take_input i m n [] = []"
| "take_input i m n (s # ss) =
     (if n = 0 then s # ss
      else if item_id s = i \<and> pmeta s = m
      then take_from (min (cnt s) n) s # take_input i m (n - min (cnt s) n) ss
      else s # take_input i m n ss)"

fun replace_first :: "input_item \<Rightarrow> pslot list \<Rightarrow> pslot list" where
  "replace_first q [] = []"
| "replace_first q (s # ss) =
     (if item_id s = in_id q \<and> pmeta s = in_meta q
      then s\<lparr>item_id := in_replace q, pmeta := in_replace_meta q\<rparr> # ss
      else s # replace_first q ss)"

definition consume_input :: "input_item \<Rightarrow> pslot list \<Rightarrow> pslot list" where
  "consume_input q ss =
     (if \<not> in_consume q then (if in_replace q > 0 then replace_first q ss else ss)
      else take_input (in_id q) (in_meta q) (in_count q) ss)"

definition consumeInputs :: "recipe \<Rightarrow> pslot list \<Rightarrow> pslot list" where
  "consumeInputs r items =
     (case r_pattern r of Some pat \<Rightarrow> consume_pattern (take 9 pat) items
      | None \<Rightarrow> fold consume_input (r_inputs r) items)"

text \<open>The two loops that place one output: \<open>None\<close> when no slot takes it.\<close>

fun stack_output :: "output_item \<Rightarrow> pslot list \<Rightarrow> pslot list option" where
  "stack_output q [] = None"
| "stack_output q (s # ss) =
     (if item_id s = out_id q \<and> pmeta s = out_meta q \<and> 64 - cnt s \<ge> out_count q
      then Some (s\<lparr>cnt := cnt s + out_count q\<rparr> # ss)
      else map_option ((#) s) (stack_output q ss))"

fun place_output :: "output_item \<Rightarrow> pslot list \<Rightarrow> pslot list option" where
  "place_output q [] = None"
| "place_output q (s # ss) =
     (if item_id s = 0 then Some (\<lparr>item_id = out_id q, cnt = out_count q, pmeta = out_meta q\<rparr> # ss)
      else map_option ((#) s) (place_output q ss))"

text \<open>An output that finds no slot is dropped with a warning.\<close>

definition add_output :: "output_item \<Rightarrow> pslot list \<Rightarrow> pslot list" where
  "add_output q ss =
     (case stack_output q ss of Some ss' \<Rightarrow> ss'
      | None \<Rightarrow> (case place_output q ss of Some ss' \<Rightarrow> ss' | None \<Rightarrow> ss))"

definition recipe_craft :: "recipe \<Rightarrow> pslot list \<Rightarrow> pslot list" where
  "recipe_craft r items = fold add_output (r_outputs r) (consumeInputs r items)"

section \<open>Conditions\<close>

record machine_state =
  m_temperature :: flt
  m_purity :: flt
  m_energy :: u32
  m_biome :: u16
  m_facing :: u8
  m_networks :: "u32 list"
  m_tags :: "special list"

text \<open>Comparisons with NaN are false.\<close>

definition f_less :: "flt \<Rightarrow> flt \<Rightarrow> bool" where
  "f_less a b = (case (a, b) of (Some x, Some y) \<Rightarrow> x < y | _ \<Rightarrow> False)"

definition checkEnvironment :: "environment \<Rightarrow> machine_state \<Rightarrow> bool" where
  "checkEnvironment e s =
     (\<not> (case env_temperature e of None \<Rightarrow> False
          | Some (lo, hi) \<Rightarrow> m_temperature s = None \<or> f_less (m_temperature s) lo \<or> f_less hi (m_temperature s)) \<and>
      \<not> (case env_purity e of None \<Rightarrow> False
          | Some p \<Rightarrow> m_purity s = None \<or> f_less (m_purity s) p) \<and>
      \<not> (env_biomes e \<noteq> [] \<and> m_biome s \<notin> set (env_biomes e)))"

definition checkMachine :: "machine_conditions \<Rightarrow> machine_state \<Rightarrow> bool" where
  "checkMachine m s =
     (\<not> (case mc_energy_min m of None \<Rightarrow> False | Some e \<Rightarrow> m_energy s < e) \<and>
      \<not> (case mc_energy_max m of None \<Rightarrow> False | Some e \<Rightarrow> m_energy s > e) \<and>
      \<not> (case mc_network m of None \<Rightarrow> False | Some n \<Rightarrow> n \<notin> set (m_networks s)) \<and>
      \<not> (case mc_facing m of None \<Rightarrow> False | Some f \<Rightarrow> m_facing s \<noteq> f))"

text \<open>The constant \<open>0.001f\<close>, exactly.\<close>

definition tag_tolerance :: rat where "tag_tolerance = 8589935 / 8589934592"

definition tag_matches :: "special \<Rightarrow> special \<Rightarrow> bool" where
  "tag_matches q t =
     (if sp_type q \<noteq> sp_type t then False
      else if sp_type q = 0 then sp_int q = sp_int t
      else if sp_type q = 1 then (case (sp_float q, sp_float t) of (Some x, Some y) \<Rightarrow> \<not> \<bar>x - y\<bar> > tag_tolerance | _ \<Rightarrow> False)
      else if sp_type q = 2 then sp_string q = sp_string t
      else False)"

definition checkSpecial :: "special list \<Rightarrow> special list \<Rightarrow> bool" where
  "checkSpecial recipeTags machineTags =
     (let tags = fold (\<lambda>t. um_put (sp_key t) t) machineTags []
      in list_all (\<lambda>q. case um_find tags (sp_key q) of None \<Rightarrow> False | Some t \<Rightarrow> tag_matches q t) recipeTags)"

definition evaluate :: "recipe \<Rightarrow> machine_state \<Rightarrow> bool" where
  "evaluate r s =
     (let c = r_conditions r in
      if c_environment c = None \<and> c_machine c = None \<and> c_special c = [] then True
      else (case c_environment c of None \<Rightarrow> True | Some e \<Rightarrow> checkEnvironment e s) \<and>
           (case c_machine c of None \<Rightarrow> True | Some m \<Rightarrow> checkMachine m s) \<and>
           (c_special c \<noteq> [] \<longrightarrow> checkSpecial (c_special c) (m_tags s)))"

section \<open>The recipe manager\<close>

record recipe_manager =
  recipes :: "(string, recipe) umap"
  recipesByClass :: "(string, string list) umap"
  classByBlockId :: "(u16, string) umap"
  tierByBlockId :: "(u16, int) umap"
  energyInByBlockId :: "(u16, u8) umap"

definition getMachineTier :: "u16 \<Rightarrow> recipe_manager \<Rightarrow> int" where
  "getMachineTier b m = (case um_find (tierByBlockId m) b of Some t \<Rightarrow> t | None \<Rightarrow> 0)"

definition getMachineEnergyIn :: "u16 \<Rightarrow> recipe_manager \<Rightarrow> u8" where
  "getMachineEnergyIn b m = (case um_find (energyInByBlockId m) b of Some e \<Rightarrow> e | None \<Rightarrow> ENERGY_TYPE_ANY)"

definition getMachineClass :: "u16 \<Rightarrow> recipe_manager \<Rightarrow> string" where
  "getMachineClass b m = (case um_find (classByBlockId m) b of Some c \<Rightarrow> c | None \<Rightarrow> [])"

definition registerMachineClass :: "u16 \<Rightarrow> string \<Rightarrow> int \<Rightarrow> u8 \<Rightarrow> recipe_manager \<Rightarrow> recipe_manager" where
  "registerMachineClass b c t e m =
     m\<lparr>classByBlockId := um_put b c (classByBlockId m), tierByBlockId := um_put b t (tierByBlockId m),
       energyInByBlockId := um_put b e (energyInByBlockId m)\<rparr>"

text \<open>The last step of loading a recipe: \<open>recipes_[id] = recipe\<close> and \<open>recipesByClass_[class].push_back(id)\<close>.\<close>

definition store_recipe :: "recipe \<Rightarrow> recipe_manager \<Rightarrow> recipe_manager" where
  "store_recipe r m =
     m\<lparr>recipes := um_put (r_name r) r (recipes m),
       recipesByClass := um_put (r_class r)
         ((case um_find (recipesByClass m) (r_class r) of Some l \<Rightarrow> l | None \<Rightarrow> []) @ [r_name r]) (recipesByClass m)\<rparr>"

definition getRecipeById :: "string \<Rightarrow> recipe_manager \<Rightarrow> recipe option" where
  "getRecipeById n m = um_find (recipes m) n"

text \<open>The filter in the loops over the recipes of a class. \<open>recipes_.at\<close> throws for an unknown id: \<open>None\<close>.\<close>

definition candidate :: "recipe_manager \<Rightarrow> u16 \<Rightarrow> pslot list \<Rightarrow> recipe \<Rightarrow> bool" where
  "candidate m mid items r \<longleftrightarrow>
     r_min_tier r \<le> getMachineTier mid m \<and> getMachineTier mid m \<le> r_max_tier r \<and>
     \<not> (r_energy_type r \<noteq> ENERGY_TYPE_ANY \<and> r_energy_type r \<noteq> getMachineEnergyIn mid m) \<and>
     matches r items"

fun best_loop :: "recipe_manager \<Rightarrow> u16 \<Rightarrow> pslot list \<Rightarrow> string list \<Rightarrow> int \<times> recipe option \<Rightarrow> recipe option option" where
  "best_loop m mid items [] (_, best) = Some best"
| "best_loop m mid items (n # ns) (t, best) =
     (case um_find (recipes m) n of
        None \<Rightarrow> None
      | Some r \<Rightarrow> best_loop m mid items ns
          (if candidate m mid items r \<and> r_min_tier r > t then (r_min_tier r, Some r) else (t, best)))"

definition findRecipeByInputs :: "u16 \<Rightarrow> pslot list \<Rightarrow> recipe_manager \<Rightarrow> recipe option option" where
  "findRecipeByInputs mid items m =
     (case um_find (classByBlockId m) mid of None \<Rightarrow> Some None
      | Some c \<Rightarrow> (case um_find (recipesByClass m) c of None \<Rightarrow> Some None
          | Some ns \<Rightarrow> best_loop m mid items ns (- 1, None)))"

fun candidates_loop :: "recipe_manager \<Rightarrow> u16 \<Rightarrow> pslot list \<Rightarrow> string list \<Rightarrow> recipe list option" where
  "candidates_loop m mid items [] = Some []"
| "candidates_loop m mid items (n # ns) =
     (case um_find (recipes m) n of
        None \<Rightarrow> None
      | Some r \<Rightarrow> map_option (\<lambda>rs. if candidate m mid items r then r # rs else rs) (candidates_loop m mid items ns))"

fun pick_best :: "recipe list \<Rightarrow> int \<times> recipe option \<Rightarrow> recipe option" where
  "pick_best [] (_, best) = best"
| "pick_best (r # rs) (t, best) = pick_best rs (if r_min_tier r > t then (r_min_tier r, Some r) else (t, best))"

text \<open>Nine slots of the request container; a missing slot counts as empty.\<close>

definition convertContainerItems :: "pslot list \<Rightarrow> pslot list" where
  "convertContainerItems c = map (\<lambda>i. if i < length c then c ! i else no_slot) [0..<9]"

definition createContainer :: "pslot list \<Rightarrow> pslot list \<times> nat" where
  "createContainer items =
     (let arr = map (\<lambda>i. if i < min (length items) 9 then items ! i else no_slot) [0..<9]
      in (arr, length (filter (\<lambda>s. item_id s \<noteq> 0) arr)))"

definition checkRecipe :: "pslot list \<Rightarrow> u16 \<Rightarrow> recipe_manager \<Rightarrow> string option" where
  "checkRecipe c mid m =
     (let items = convertContainerItems c in
      case um_find (classByBlockId m) mid of None \<Rightarrow> Some []
      | Some cl \<Rightarrow> (case um_find (recipesByClass m) cl of None \<Rightarrow> Some []
          | Some ns \<Rightarrow> map_option (\<lambda>cs. case pick_best cs (- 1, None) of Some r \<Rightarrow> r_name r | None \<Rightarrow> [])
              (candidates_loop m mid items ns)))"

definition manager_craft :: "string \<Rightarrow> pslot list \<Rightarrow> recipe_manager \<Rightarrow> (pslot list \<times> nat) option" where
  "manager_craft n c m =
     (case um_find (recipes m) n of None \<Rightarrow> None
      | Some r \<Rightarrow> (let items = convertContainerItems c
                  in if \<not> matches r items then None else Some (createContainer (recipe_craft r items))))"

definition evaluateConditions :: "string \<Rightarrow> machine_state \<Rightarrow> recipe_manager \<Rightarrow> bool" where
  "evaluateConditions n s m = (case um_find (recipes m) n of None \<Rightarrow> False | Some r \<Rightarrow> evaluate r s)"

section \<open>Client queries\<close>

definition push_new :: "u16 \<Rightarrow> u16 list \<Rightarrow> u16 list" where
  "push_new i seen = (if i \<noteq> 0 \<and> i \<notin> set seen then seen @ [i] else seen)"

definition collectRecipeItemIds :: "recipe_manager \<Rightarrow> u16 list" where
  "collectRecipeItemIds m =
     fold (\<lambda>(_, r) seen. fold (\<lambda>q. push_new (in_id q)) (r_inputs r) (fold (\<lambda>q. push_new (out_id q)) (r_outputs r) seen))
       (recipes m) []"

definition findRecipesForItem :: "u16 \<Rightarrow> u8 \<Rightarrow> recipe_manager \<Rightarrow> recipe list" where
  "findRecipesForItem i mode m =
     filter (\<lambda>r. ((mode = 0 \<or> mode = 1) \<and> (\<exists>q\<in>set (r_outputs r). out_id q = i)) \<or>
                 ((mode = 0 \<or> mode = 2) \<and> (\<exists>q\<in>set (r_inputs r). in_id q = i))) (map snd (recipes m))"

definition findRecipesForMachine :: "u16 \<Rightarrow> recipe_manager \<Rightarrow> recipe list" where
  "findRecipesForMachine mid m =
     (case um_find (classByBlockId m) mid of None \<Rightarrow> []
      | Some c \<Rightarrow> (case um_find (recipesByClass m) c of None \<Rightarrow> []
          | Some ns \<Rightarrow> List.map_filter (um_find (recipes m)) ns))"

end
