(* ===== verification/RecipeProps.thy ===== *)
theory RecipeProps
  imports Recipes
begin

text \<open>
  A recipe that matches is paid in full: matching finds distinct slots that hold the inputs, so the loops of
  \<open>consumeInputs\<close> never run short, and crafting conserves items up to outputs that find no slot. The two
  recipe lookups agree and return a recipe of the highest tier bound.
\<close>

section \<open>Taking items out of slots\<close>

lemma unat_min_u8: "unat (min a b) = min (unat a) (unat b)" for a b :: u8
  by (simp add: min_def word_le_nat_alt)

lemma units_take_from:
  assumes "n \<le> cnt s"
  shows "units k (take_from n s) + (if item_id s \<noteq> 0 \<and> k = (item_id s, pmeta s) then unat n else 0) = units k s"
  using assms by (auto simp: units_def take_from_def Let_def unat_sub word_le_nat_alt)

lemma amount_take_input:
  "amount k (take_input i m n ss) + (if k = (i, m) \<and> i \<noteq> 0 then min (unat n) (amount k ss) else 0) = amount k ss"
proof (induction ss arbitrary: n)
  case (Cons s ss)
  define t where "t = min (cnt s) n"
  have le: "t \<le> cnt s" "t \<le> n" by (simp_all add: t_def)
  have ut: "unat t = min (unat (cnt s)) (unat n)" by (simp add: t_def unat_min_u8)
  have u: "unat (n - t) = unat n - unat t" using le(2) by (simp add: unat_sub)
  show ?case
  proof (cases "n = 0 \<or> \<not> (item_id s = i \<and> pmeta s = m)")
    case True
    show ?thesis
    proof (cases "n = 0")
      case other: False
      then have e: "take_input i m n (s # ss) = s # take_input i m n ss" and "units (i, m) s = 0"
        using True by (auto simp: units_def)
      then show ?thesis using Cons.IH[of n] by (cases "k = (i, m)") auto
    qed simp
  next
    case False
    then have e: "take_input i m n (s # ss) = take_from t s # take_input i m (n - t) ss" by (simp add: t_def)
    have us: "units k s = (if k = (i, m) \<and> i \<noteq> 0 then unat (cnt s) else 0)"
      using False by (auto simp: units_def)
    show ?thesis
    proof (cases "k = (i, m) \<and> i \<noteq> 0")
      case True
      then show ?thesis
        using Cons.IH[of "n - t"] u ut units_take_from[OF le(1), of k] us False unfolding e by simp
    next
      case other: False
      then show ?thesis
        using Cons.IH[of "n - t"] units_take_from[OF le(1), of k] False unfolding e by auto
    qed
  qed
qed simp

section \<open>What a recipe needs and consumes\<close>

fun needed :: "item_key \<Rightarrow> input_item list \<Rightarrow> nat" where
  "needed k [] = 0"
| "needed k (q # qs) = (if in_id q \<noteq> 0 \<and> (in_id q, in_meta q) = k then unat (in_count q) else 0) + needed k qs"

definition consumed :: "item_key \<Rightarrow> recipe \<Rightarrow> nat" where
  "consumed k r =
     (case r_pattern r of Some pat \<Rightarrow> amount k (take 9 pat) | None \<Rightarrow> needed k (filter in_consume (r_inputs r)))"

text \<open>Inputs that are returned unchanged, or consumed: no container is swapped for another item.\<close>

definition plain_inputs :: "recipe \<Rightarrow> bool" where
  "plain_inputs r \<longleftrightarrow> list_all (\<lambda>q. in_consume q \<or> in_replace q = 0) (r_inputs r)"

fun unclaimed :: "item_key \<Rightarrow> (pslot \<times> bool) list \<Rightarrow> nat" where
  "unclaimed k [] = 0"
| "unclaimed k ((s, used) # ss) = (if used then 0 else units k s) + unclaimed k ss"

lemma unclaimed_fresh: "unclaimed k (map (\<lambda>s. (s, False)) ss) = amount k ss"
  by (induction ss) auto

lemma claim_slot_unclaimed:
  "claim_slot q ss = Some ss' \<Longrightarrow> in_id q \<noteq> 0 \<Longrightarrow> needed k [q] + unclaimed k ss' \<le> unclaimed k ss"
  by (induction q ss arbitrary: ss' rule: claim_slot.induct)
     (auto simp: slot_serves_def units_def word_le_nat_alt split: if_splits)

lemma claim_all_needed: "claim_all qs ss \<Longrightarrow> needed k qs \<le> unclaimed k ss"
proof (induction qs ss rule: claim_all.induct)
  case (2 q qs ss)
  show ?case
  proof (cases "in_id q = 0")
    case True
    then show ?thesis using 2 by simp
  next
    case False
    then obtain ss' where ss: "claim_slot q ss = Some ss'" "claim_all qs ss'"
      using 2(3) by (auto split: option.splits)
    then show ?thesis using claim_slot_unclaimed[OF ss(1) False, of k] 2(2)[OF False ss] by simp
  qed
qed simp

lemma matches_needed: "matches r items \<Longrightarrow> r_pattern r = None \<Longrightarrow> needed k (r_inputs r) \<le> amount k items"
  using claim_all_needed[of "r_inputs r" "map (\<lambda>s. (s, False)) items" k]
  by (simp add: matches_def Let_def unclaimed_fresh)

lemma needed_filter: "needed k (filter p qs) \<le> needed k qs"
  by (induction qs) auto

lemma amount_consume_inputs:
  "\<forall>k. needed k (filter in_consume qs) \<le> amount k ss \<Longrightarrow> list_all (\<lambda>q. in_consume q \<or> in_replace q = 0) qs \<Longrightarrow>
   amount k (fold consume_input qs ss) + needed k (filter in_consume qs) = amount k ss"
proof (induction qs arbitrary: ss)
  case (Cons q qs)
  let ?t = "consume_input q ss"
  have paid: "amount j ?t + needed j (filter in_consume [q]) = amount j ss" for j
    using amount_take_input[of j "in_id q" "in_meta q" "in_count q" ss] Cons.prems(1)[rule_format, of j] Cons.prems(2)
    by (cases "in_consume q") (auto simp: consume_input_def split: if_splits)
  have "needed j (filter in_consume qs) \<le> amount j ?t" for j
    using Cons.prems(1)[rule_format, of j] paid[of j] by (cases "in_consume q") auto
  then show ?case using Cons.IH[of ?t] Cons.prems(2) paid[of k] by (cases "in_consume q") auto
qed simp

lemma amount_consume_pattern:
  "list_all (\<lambda>(c, s). cell_matches c s) (zip cs ss) \<Longrightarrow> length cs \<le> length ss \<Longrightarrow>
   amount k (consume_pattern cs ss) + amount k cs = amount k ss"
proof (induction cs ss rule: consume_pattern.induct)
  case (1 c cs s ss)
  have IH: "amount k (consume_pattern cs ss) + amount k cs = amount k ss" using 1 by simp
  show ?case
  proof (cases "item_id c = 0")
    case True
    then show ?thesis using IH by (simp add: units_def)
  next
    case False
    then have c: "item_id s = item_id c" "pmeta s = pmeta c" "cnt c \<le> cnt s" using 1(2) by (simp_all add: cell_matches_def)
    have "units k c = (if item_id s \<noteq> 0 \<and> k = (item_id s, pmeta s) then unat (cnt c) else 0)"
      using c by (auto simp: units_def)
    then show ?thesis using IH False units_take_from[OF c(3), of k] c(3) by (simp add: min_absorb2)
  qed
qed auto

lemma zip_take: "n \<le> length ys \<Longrightarrow> length xs \<le> n \<Longrightarrow> zip xs (take n ys) = zip xs ys"
  by (rule nth_equalityI) auto

lemma amount_consumeInputs:
  assumes "matches r items" "plain_inputs r"
  shows "amount k (consumeInputs r items) + consumed k r = amount k items"
proof (cases "r_pattern r")
  case None
  have "\<forall>j. needed j (filter in_consume (r_inputs r)) \<le> amount j items"
    using matches_needed[OF assms(1) None] needed_filter order.trans by blast
  then show ?thesis
    using amount_consume_inputs[of "r_inputs r" items k] assms(2) None
    by (simp add: consumeInputs_def consumed_def plain_inputs_def)
next
  case (Some pat)
  have "9 \<le> length items" "list_all (\<lambda>(c, s). cell_matches c s) (zip (take 9 pat) (take 9 items))"
    using assms(1) Some by (simp_all add: matches_def)
  then show ?thesis
    using amount_consume_pattern[of "take 9 pat" items k] zip_take[of 9 items "take 9 pat"] Some
    by (simp add: consumeInputs_def consumed_def)
qed

section \<open>Placing outputs\<close>

definition produced :: "item_key \<Rightarrow> output_item \<Rightarrow> nat" where
  "produced k q = (if out_id q \<noteq> 0 \<and> (out_id q, out_meta q) = k then unat (out_count q) else 0)"

definition slot_empty :: "pslot \<Rightarrow> bool" where
  "slot_empty s \<longleftrightarrow> item_id s = 0"

definition empties :: "pslot list \<Rightarrow> nat" where
  "empties ss = length (filter slot_empty ss)"

text \<open>Stacks of at most 64 and outputs that are real stacks.\<close>

definition real_output :: "output_item \<Rightarrow> bool" where
  "real_output q \<longleftrightarrow> out_id q \<noteq> 0 \<and> out_count q \<le> 64"

lemma stack_units:
  assumes "small s" "64 - cnt s \<ge> out_count q" "item_id s = out_id q" "pmeta s = out_meta q" "out_id q \<noteq> 0"
  shows "units k (s\<lparr>cnt := cnt s + out_count q\<rparr>) = units k s + produced k q" "small (s\<lparr>cnt := cnt s + out_count q\<rparr>)"
proof -
  have s: "unat (cnt s) \<le> 64" using assms(1) by (simp add: small_def kMaxStack_def word_le_nat_alt)
  then have "unat (64 - cnt s) = 64 - unat (cnt s)" by (subst unat_minus_le) (simp_all add: word_le_nat_alt)
  then have le: "unat (cnt s) + unat (out_count q) \<le> 64" using assms(2) s by (simp add: word_le_nat_alt)
  then have u: "unat (cnt s + out_count q) = unat (cnt s) + unat (out_count q)" by (simp add: unat_word_ariths)
  show "units k (s\<lparr>cnt := cnt s + out_count q\<rparr>) = units k s + produced k q"
    using u assms(3,4,5) by (auto simp: units_def produced_def)
  show "small (s\<lparr>cnt := cnt s + out_count q\<rparr>)" using u le by (simp add: small_def kMaxStack_def word_le_nat_alt)
qed

lemma stack_output_facts:
  assumes "stack_output q ss = Some ss'" "list_all small ss" "real_output q"
  shows "amount k ss' = amount k ss + produced k q \<and> list_all small ss' \<and> empties ss' = empties ss"
  using assms
proof (induction q ss arbitrary: ss' rule: stack_output.induct)
  case (2 q s ss)
  show ?case
  proof (cases "item_id s = out_id q \<and> pmeta s = out_meta q \<and> 64 - cnt s \<ge> out_count q")
    case True
    then show ?thesis
      using 2(2,3,4) stack_units(1)[of s q k] stack_units(2)[of s q] by (auto simp: real_output_def empties_def slot_empty_def)
  next
    case False
    then show ?thesis using 2 by (auto simp: empties_def)
  qed
qed simp

lemma place_output_facts:
  assumes "place_output q ss = Some ss'" "list_all small ss" "real_output q"
  shows "amount k ss' = amount k ss + produced k q \<and> list_all small ss' \<and> Suc (empties ss') = empties ss"
  using assms
  by (induction q ss arbitrary: ss' rule: place_output.induct)
     (auto simp: real_output_def units_def produced_def small_def kMaxStack_def empties_def slot_empty_def split: if_splits)

lemma place_output_None: "place_output q ss = None \<longleftrightarrow> empties ss = 0"
  by (induction q ss rule: place_output.induct) (auto simp: empties_def slot_empty_def)

lemma add_output_facts:
  assumes "list_all small ss" "real_output q"
  shows "list_all small (add_output q ss)" "amount k (add_output q ss) \<le> amount k ss + produced k q"
    "Suc n \<le> empties ss \<Longrightarrow> n \<le> empties (add_output q ss) \<and> amount k (add_output q ss) = amount k ss + produced k q"
proof -
  note f = stack_output_facts[OF _ assms, where k = k] place_output_facts[OF _ assms, where k = k]
  show "list_all small (add_output q ss)" "amount k (add_output q ss) \<le> amount k ss + produced k q"
    using f assms(1) by (auto simp: add_output_def split: option.splits)
  show "Suc n \<le> empties ss \<Longrightarrow> n \<le> empties (add_output q ss) \<and> amount k (add_output q ss) = amount k ss + produced k q"
    using f place_output_None[of q ss] by (auto simp: add_output_def split: option.splits)
qed

lemma add_outputs:
  assumes "list_all small ss" "list_all real_output qs"
  shows "list_all small (fold add_output qs ss)"
    "amount k (fold add_output qs ss) \<le> amount k ss + sum_list (map (produced k) qs)"
    "length qs \<le> empties ss \<Longrightarrow> amount k (fold add_output qs ss) = amount k ss + sum_list (map (produced k) qs)"
proof -
  show "list_all small (fold add_output qs ss)"
    "amount k (fold add_output qs ss) \<le> amount k ss + sum_list (map (produced k) qs)"
    "length qs \<le> empties ss \<Longrightarrow> amount k (fold add_output qs ss) = amount k ss + sum_list (map (produced k) qs)"
    using assms
  proof (induction qs arbitrary: ss)
    case (Cons q qs)
    {
      case 1
      then show ?case using Cons.IH(1)[of "add_output q ss"] add_output_facts(1)[of ss q] by simp
    next
      case 2
      then show ?case
        using Cons.IH(2)[of "add_output q ss"] add_output_facts(1)[of ss q] add_output_facts(2)[of ss q k] by simp
    next
      case 3
      then show ?case
        using Cons.IH(3)[of "add_output q ss"] add_output_facts(1)[of ss q] add_output_facts(3)[of ss q "length qs" k] by simp
    }
  qed simp_all
qed

lemma take_from_small: "small s \<Longrightarrow> n \<le> cnt s \<Longrightarrow> small (take_from n s)"
  by (auto simp: take_from_def small_def Let_def word_le_nat_alt unat_sub)

lemma take_input_small: "list_all small ss \<Longrightarrow> list_all small (take_input i m n ss)"
  by (induction i m n ss rule: take_input.induct) (auto simp: take_from_small)

lemma consume_pattern_small: "list_all small ss \<Longrightarrow> list_all small (consume_pattern cs ss)"
  by (induction cs ss rule: consume_pattern.induct) (auto simp: take_from_small)

lemma replace_first_small: "list_all small ss \<Longrightarrow> list_all small (replace_first q ss)"
  by (induction ss) (auto simp: small_def)

lemma consumeInputs_small: "list_all small ss \<Longrightarrow> list_all small (consumeInputs r ss)"
proof -
  have "list_all small ss \<Longrightarrow> list_all small (fold consume_input qs ss)" for qs
    by (induction qs arbitrary: ss) (auto simp: consume_input_def take_input_small replace_first_small)
  then show "list_all small ss \<Longrightarrow> list_all small (consumeInputs r ss)"
    by (auto simp: consumeInputs_def consume_pattern_small split: option.splits)
qed

section \<open>The lookups\<close>

lemma best_loop_candidates:
  "best_loop m mid items ns (t, best) = map_option (\<lambda>cs. pick_best cs (t, best)) (candidates_loop m mid items ns)"
  by (induction ns arbitrary: t best) (auto simp: option.map_comp o_def split: option.splits intro!: option.map_cong)

lemma best_loop_facts:
  assumes "best_loop m mid items ns (t, b) = Some b'"
  shows "(b' = b \<and> (\<forall>n\<in>set ns. \<forall>r. um_find (recipes m) n = Some r \<longrightarrow> candidate m mid items r \<longrightarrow> r_min_tier r \<le> t)) \<or>
    (\<exists>n\<in>set ns. \<exists>r. um_find (recipes m) n = Some r \<and> b' = Some r \<and> candidate m mid items r \<and> t < r_min_tier r \<and>
      (\<forall>n\<in>set ns. \<forall>r'. um_find (recipes m) n = Some r' \<longrightarrow> candidate m mid items r' \<longrightarrow> r_min_tier r' \<le> r_min_tier r))"
  using assms
proof (induction ns arbitrary: t b)
  case (Cons n ns)
  then obtain r where r: "um_find (recipes m) n = Some r" by (auto split: option.splits)
  show ?case
  proof (cases "candidate m mid items r \<and> r_min_tier r > t")
    case True
    then have "best_loop m mid items ns (r_min_tier r, Some r) = Some b'" using Cons.prems r by simp
    from Cons.IH[OF this] show ?thesis using True r by force
  next
    case False
    then have "best_loop m mid items ns (t, b) = Some b'" using Cons.prems r by auto
    from Cons.IH[OF this] show ?thesis using False r by force
  qed
qed simp

section \<open>Properties\<close>

text \<open>C18: crafting conserves items: a recipe that matches is paid exactly, from stacks that are never overdrawn,
  every stack stays within 64, and at most the outputs are added; they all are when at least as many
  slots are empty as there are outputs. Left out are inputs that swap a container for another item.\<close>

theorem craft_conserves:
  assumes "matches r items" "plain_inputs r" "list_all small items" "list_all real_output (r_outputs r)"
  shows "amount k (consumeInputs r items) + consumed k r = amount k items \<and>
    list_all small (recipe_craft r items) \<and>
    amount k (recipe_craft r items) + consumed k r \<le> amount k items + sum_list (map (produced k) (r_outputs r)) \<and>
    (length (r_outputs r) \<le> empties (consumeInputs r items) \<longrightarrow>
      amount k (recipe_craft r items) + consumed k r = amount k items + sum_list (map (produced k) (r_outputs r)))"
  using amount_consumeInputs[OF assms(1,2), of k] add_outputs(1)[OF consumeInputs_small[OF assms(3), of r] assms(4)]
    add_outputs(2,3)[OF consumeInputs_small[OF assms(3), of r] assms(4), of k]
  by (auto simp: recipe_craft_def)

definition no_conditions :: conditions where
  "no_conditions = \<lparr>c_environment = None, c_machine = None, c_special = []\<rparr>"

definition stack_input :: "u16 \<Rightarrow> u8 \<Rightarrow> input_item" where
  "stack_input i n = \<lparr>in_id = i, in_count = n, in_meta = 0, in_consume = True, in_replace = 0, in_replace_meta = 0\<rparr>"

definition stack_of :: "u16 \<Rightarrow> u8 \<Rightarrow> pslot" where
  "stack_of i n = \<lparr>item_id = i, cnt = n, pmeta = 0\<rparr>"

definition simple_recipe :: "string \<Rightarrow> input_item list \<Rightarrow> output_item list \<Rightarrow> recipe" where
  "simple_recipe n ins outs =
     \<lparr>r_name = n, r_inputs = ins, r_outputs = outs, r_class = ''press'', r_min_tier = 0, r_max_tier = 32767,
      r_energy_type = ENERGY_TYPE_ANY, r_duration = 20, r_cost = 8, r_conditions = no_conditions, r_requirements = [],
      r_fluid_in = [], r_fluid_out = [], r_pattern = None\<rparr>"

definition plate_recipe :: recipe where
  "plate_recipe = simple_recipe ''plate'' [stack_input 5 2] [\<lparr>out_id = 7, out_count = 1, out_meta = 0\<rparr>]"

lemmas recipe_examples = no_conditions_def stack_input_def stack_of_def simple_recipe_def plate_recipe_def

theorem craft_conserves_witness:
  "amount (5, 0) (recipe_craft plate_recipe [stack_of 5 3, no_slot]) = 1 \<and>
   amount (7, 0) (recipe_craft plate_recipe [stack_of 5 3, no_slot]) = 1"
proof -
  have "matches plate_recipe [stack_of 5 3, no_slot]" "plain_inputs plate_recipe" "list_all small [stack_of 5 3, no_slot]"
    "list_all real_output (r_outputs plate_recipe)"
    "length (r_outputs plate_recipe) \<le> empties (consumeInputs plate_recipe [stack_of 5 3, no_slot])"
    "consumed (5, 0) plate_recipe = 2" "consumed (7, 0) plate_recipe = 0"
    "sum_list (map (produced (5, 0)) (r_outputs plate_recipe)) = 0" "sum_list (map (produced (7, 0)) (r_outputs plate_recipe)) = 1"
    "amount (5, 0) [stack_of 5 3, no_slot] = 3" "amount (7, 0) [stack_of 5 3, no_slot] = 0"
    by code_simp+
  with craft_conserves[OF this(1-4), of "(5, 0)"] craft_conserves[OF this(1-4), of "(7, 0)"] show ?thesis by simp
qed

text \<open>C32: the two recipe lookups agree: the loop of \<open>checkRecipe\<close>, which collects all candidates and then picks one,
  names the recipe that \<open>findRecipeByInputs\<close> finds in one pass, for every container and every table.\<close>

theorem checkRecipe_agrees:
  "checkRecipe c mid m =
     map_option (case_option [] r_name) (findRecipeByInputs mid (convertContainerItems c) m)"
  by (auto simp: checkRecipe_def findRecipeByInputs_def best_loop_candidates Let_def option.map_comp o_def
      split: option.splits intro!: option.map_cong)

text \<open>The recipe found for a machine is listed for the machine's class, is admitted for its tier and energy, is
  covered by the inputs, and no other such recipe has a higher lower tier bound; when none is found, none
  with a tier bound of 0 or more is admitted.\<close>

theorem findRecipeByInputs_best:
  assumes "findRecipeByInputs mid items m = Some res"
    "um_find (classByBlockId m) mid = Some c" "um_find (recipesByClass m) c = Some ns"
    "n \<in> set ns" "um_find (recipes m) n = Some r'" "candidate m mid items r'"
  shows "case res of None \<Rightarrow> r_min_tier r' < 0
    | Some r \<Rightarrow> r_min_tier r' \<le> r_min_tier r \<and> candidate m mid items r \<and> (\<exists>n\<in>set ns. um_find (recipes m) n = Some r) \<and>
        (r_pattern r = None \<longrightarrow> needed k (r_inputs r) \<le> amount k items)"
proof -
  have l: "best_loop m mid items ns (- 1, None) = Some res" using assms(1-3) by (simp add: findRecipeByInputs_def)
  from best_loop_facts[OF l] show ?thesis
  proof (elim disjE conjE bexE exE)
    assume "res = None" "\<forall>n\<in>set ns. \<forall>r. um_find (recipes m) n = Some r \<longrightarrow> candidate m mid items r \<longrightarrow> r_min_tier r \<le> - 1"
    then show ?thesis using assms(4-6) by force
  next
    fix n' r
    assume "n' \<in> set ns" "um_find (recipes m) n' = Some r" "res = Some r" "candidate m mid items r"
      "\<forall>n\<in>set ns. \<forall>r'. um_find (recipes m) n = Some r' \<longrightarrow> candidate m mid items r' \<longrightarrow> r_min_tier r' \<le> r_min_tier r"
    moreover from this(4) have "r_pattern r = None \<longrightarrow> needed k (r_inputs r) \<le> amount k items"
      by (simp add: candidate_def matches_needed)
    ultimately show ?thesis using assms(4-6) by auto
  qed
qed

definition press_manager :: recipe_manager where
  "press_manager = store_recipe plate_recipe (registerMachineClass 3 ''press'' 1 0
     \<lparr>recipes = [], recipesByClass = [], classByBlockId = [], tierByBlockId = [], energyInByBlockId = []\<rparr>)"

theorem findRecipeByInputs_best_witness:
  "findRecipeByInputs 3 [stack_of 5 3] press_manager = Some (Some plate_recipe) \<and>
   needed (5, 0) (r_inputs plate_recipe) \<le> amount (5, 0) [stack_of 5 3]"
proof -
  have "findRecipeByInputs 3 [stack_of 5 3] press_manager = Some (Some plate_recipe)"
    "um_find (classByBlockId press_manager) 3 = Some ''press''"
    "um_find (recipesByClass press_manager) ''press'' = Some [''plate'']" "''plate'' \<in> set [''plate'']"
    "um_find (recipes press_manager) ''plate'' = Some plate_recipe" "candidate press_manager 3 [stack_of 5 3] plate_recipe"
    by code_simp+
  with findRecipeByInputs_best[OF this, of "(5, 0)"] show ?thesis by (simp add: recipe_examples)
qed

text \<open>Matching takes the first free slot that is large enough and never adds slots up, so whether a recipe
  matches depends on the order of the slots, and a sufficient amount spread over two stacks does not
  match, although the consuming loop would draw from both.\<close>

theorem matching_is_greedy:
  "matches (simple_recipe n [stack_input 5 1, stack_input 5 4] outs) [stack_of 5 1, stack_of 5 4] \<and>
   \<not> matches (simple_recipe n [stack_input 5 1, stack_input 5 4] outs) [stack_of 5 4, stack_of 5 1] \<and>
   \<not> matches (simple_recipe n [stack_input 5 4] outs) [stack_of 5 3, stack_of 5 3] \<and>
   consumeInputs (simple_recipe n [stack_input 5 4] outs) [stack_of 5 3, stack_of 5 3] = [no_slot, stack_of 5 2]"
  by (simp add: recipe_examples matches_def Let_def slot_serves_def consumeInputs_def consume_input_def take_from_def no_slot_def word_le_nat_alt)

end
