(* ===== verification/MachineTypes.thy ===== *)
theory MachineTypes
  imports Recipes ResourceDrain
begin

text \<open>
  The components of a machine entity (\<open>src/engine/sim/components\<close>, \<open>src/game/machines/*Component.h\<close>) and the
  operations the headers define on them: the energy buffer, the reservations of a pending craft and the
  saturating arithmetic of \<open>Saturate.h\<close>. The ECS registry is the map from entities to their components; a
  component that is not attached is \<open>None\<close>. Amounts are \<open>int32_t\<close>, modelled as \<^typ>\<open>int\<close>; a cast from \<open>uint32_t\<close>
  reads the word as signed.
\<close>

section \<open>Energy buffer\<close>

datatype energy_type = ELECTRICITY | HEAT | STEAM | ROTATION

record energy_storage =
  es_capacity :: int
  es_current :: int
  es_maxInput :: int
  es_maxOutput :: int
  es_tier :: int
  es_type :: energy_type

definition addEnergy :: "int \<Rightarrow> energy_storage \<Rightarrow> energy_storage \<times> int" where
  "addEnergy n e =
     (let space = es_capacity e - es_current e;
          a = (if n < space then n else space);
          a = (if a < 0 then 0 else a);
          a = (if a > es_maxInput e then es_maxInput e else a)
      in (e\<lparr>es_current := es_current e + a\<rparr>, a))"

definition produceEnergy :: "int \<Rightarrow> energy_storage \<Rightarrow> energy_storage \<times> int" where
  "produceEnergy n e =
     (let space = es_capacity e - es_current e;
          a = (if n < space then n else space);
          a = (if a < 0 then 0 else a)
      in (e\<lparr>es_current := es_current e + a\<rparr>, a))"

definition consumeEnergy :: "int \<Rightarrow> energy_storage \<Rightarrow> energy_storage \<times> int" where
  "consumeEnergy n e =
     (let a = (if es_current e < n then es_current e else n);
          a = (if a > es_maxOutput e then es_maxOutput e else a)
      in (e\<lparr>es_current := es_current e - a\<rparr>, a))"

definition int32_max :: int where "int32_max = 2147483647"
definition int32_min :: int where "int32_min = - 2147483648"

definition add_sat :: "int \<Rightarrow> int \<Rightarrow> int" where
  "add_sat a b =
     (if b > 0 \<and> a > int32_max - b then int32_max
      else if b < 0 \<and> a < int32_min - b then int32_min else a + b)"

definition sub_sat :: "int \<Rightarrow> int \<Rightarrow> int" where
  "sub_sat a b =
     (if b < 0 \<and> a > int32_max + b then int32_max
      else if b > 0 \<and> a < int32_min + b then int32_min else a - b)"

section \<open>Pending crafts\<close>

record reservation =
  rr_id :: u32
  rr_kind :: resource_kind
  rr_resource :: u32
  rr_required :: int
  rr_accepted :: int
  rr_request :: u64
  rr_epoch :: u64

definition rr_remaining :: "reservation \<Rightarrow> int" where
  "rr_remaining r = max (rr_required r - rr_accepted r) 0"

definition rr_full :: "reservation \<Rightarrow> bool" where
  "rr_full r \<longleftrightarrow> rr_required r > 0 \<and> rr_accepted r \<ge> rr_required r"

definition rr_partial :: "reservation \<Rightarrow> bool" where
  "rr_partial r \<longleftrightarrow> rr_accepted r > 0 \<and> \<not> rr_full r"

definition recordAccepted :: "int \<Rightarrow> reservation \<Rightarrow> reservation" where
  "recordAccepted n r =
     (if n \<le> 0 \<or> rr_required r \<le> 0 then r
      else r\<lparr>rr_accepted := rr_accepted r + min n (rr_remaining r)\<rparr>)"

record pending_craft =
  pc_recipe :: string
  pc_owner :: u64
  pc_entity :: u64
  pc_reqs :: "reservation list"
  pc_request :: u64
  pc_epoch :: u64
  pc_retry :: u32
  pc_expiry :: u64
  pc_next_retry :: u64

text \<open>\<open>findReservationByRequestId\<close>, as the index of the reservation.\<close>

fun find_reservation :: "u64 \<Rightarrow> reservation list \<Rightarrow> nat option" where
  "find_reservation i [] = None"
| "find_reservation i (r # rs) =
     (if rr_request r \<noteq> 0 \<and> rr_request r = i then Some 0 else map_option Suc (find_reservation i rs))"

definition pc_full :: "pending_craft \<Rightarrow> bool" where
  "pc_full c \<longleftrightarrow> pc_reqs c \<noteq> [] \<and> list_all rr_full (pc_reqs c)"

definition pc_required :: "pending_craft \<Rightarrow> int" where
  "pc_required c = foldl (\<lambda>t r. t + max (rr_required r) 0) 0 (pc_reqs c)"

definition pc_accepted :: "pending_craft \<Rightarrow> int" where
  "pc_accepted c = foldl (\<lambda>t r. t + min (max (rr_accepted r) 0) (max (rr_required r) 0)) 0 (pc_reqs c)"

definition pc_remaining :: "pending_craft \<Rightarrow> int" where
  "pc_remaining c = max (pc_required c - pc_accepted c) 0"

definition pc_partial :: "pending_craft \<Rightarrow> bool" where
  "pc_partial c \<longleftrightarrow> \<not> pc_full c \<and> list_ex rr_partial (pc_reqs c)"

definition expired :: "u64 \<Rightarrow> pending_craft \<Rightarrow> bool" where
  "expired now c \<longleftrightarrow> pc_expiry c \<noteq> 0 \<and> now \<ge> pc_expiry c"

definition retryDue :: "u64 \<Rightarrow> pending_craft \<Rightarrow> bool" where
  "retryDue now c \<longleftrightarrow> now \<ge> pc_next_retry c"

record recipe_progress =
  rp_recipe :: string
  rp_remaining :: u32
  rp_processing :: bool
  rp_needs_output :: bool
  rp_pending :: "pending_craft option"

section \<open>Entities\<close>

record machine_component =
  mc_machine :: u16
  mc_x :: u32
  mc_y :: u32
  mc_z :: u32
  mc_external :: bool

record heat_intake =
  hi_stored :: int
  hi_capacity :: int

datatype overheat_state = OH_NONE | OH_WARNING | OH_CRITICAL

record entity =
  e_machine :: "machine_component option"
  e_progress :: "recipe_progress option"
  e_slots :: "pslot list option"
  e_energy :: "energy_storage option"
  e_heat :: "heat_intake option"
  e_overheat :: "overheat_state option"
  e_slow :: "rat option"
  e_fluid :: "fluid_storage option"
  e_facing :: "u8 option"
  e_temperature :: "flt option"
  e_purity :: "flt option"
  e_biome :: "u16 option"
  e_networks :: "u32 list option"
  e_tags :: "special list option"

type_synonym registry = "(u64, entity) umap"

text \<open>A change of an entity's components; an entity that does not exist stays absent.\<close>

definition upd :: "u64 \<Rightarrow> (entity \<Rightarrow> entity) \<Rightarrow> registry \<Rightarrow> registry" where
  "upd i f R = (case um_find R i of None \<Rightarrow> R | Some e \<Rightarrow> um_put i (f e) R)"

definition set_progress :: "u64 \<Rightarrow> recipe_progress \<Rightarrow> registry \<Rightarrow> registry" where
  "set_progress i p = upd i (\<lambda>e. e\<lparr>e_progress := Some p\<rparr>)"

definition set_energy :: "u64 \<Rightarrow> energy_storage \<Rightarrow> registry \<Rightarrow> registry" where
  "set_energy i p = upd i (\<lambda>e. e\<lparr>e_energy := Some p\<rparr>)"

definition progress_of_entity :: "u64 \<Rightarrow> registry \<Rightarrow> recipe_progress option" where
  "progress_of_entity i R = Option.bind (um_find R i) e_progress"

definition energy_of_entity :: "u64 \<Rightarrow> registry \<Rightarrow> energy_storage option" where
  "energy_of_entity i R = Option.bind (um_find R i) e_energy"

text \<open>\<open>stateOf\<close>: the state of one machine that its recipe conditions read.\<close>

definition stateOf :: "u64 \<Rightarrow> registry \<Rightarrow> machine_state" where
  "stateOf i R =
     \<lparr>m_temperature = (case Option.bind (um_find R i) e_temperature of Some t \<Rightarrow> t | None \<Rightarrow> Some 0),
       m_purity = (case Option.bind (um_find R i) e_purity of Some t \<Rightarrow> t | None \<Rightarrow> Some 0),
       m_energy = (case Option.bind (um_find R i) e_energy of Some e \<Rightarrow> word_of_int (es_current e) | None \<Rightarrow> 0),
       m_biome = (case Option.bind (um_find R i) e_biome of Some b \<Rightarrow> b | None \<Rightarrow> 0),
       m_facing = (case Option.bind (um_find R i) e_facing of Some f \<Rightarrow> f | None \<Rightarrow> 0),
       m_networks = (case Option.bind (um_find R i) e_networks of Some n \<Rightarrow> n | None \<Rightarrow> []),
       m_tags = (case Option.bind (um_find R i) e_tags of Some t \<Rightarrow> t | None \<Rightarrow> [])\<rparr>"

section \<open>Lemmas\<close>

lemma upd_find: "um_find (upd i f R) j = (if j = i then map_option f (um_find R i) else um_find R j)"
  by (auto simp: upd_def um_simps split: option.splits)

lemma upd_domain [simp]: "um_contains (upd i f R) j = um_contains R j"
  by (auto simp: um_contains_def upd_find)

lemma energy_buffer_bounds:
  assumes "0 \<le> es_current e" "es_current e \<le> es_capacity e" "0 \<le> es_maxInput e" "0 \<le> es_maxOutput e" "0 \<le> n"
  shows "0 \<le> es_current (fst (addEnergy n e)) \<and> es_current (fst (addEnergy n e)) \<le> es_capacity e"
    and "0 \<le> es_current (fst (produceEnergy n e)) \<and> es_current (fst (produceEnergy n e)) \<le> es_capacity e"
    and "0 \<le> es_current (fst (consumeEnergy n e)) \<and> es_current (fst (consumeEnergy n e)) \<le> es_capacity e"
  using assms by (auto simp: addEnergy_def produceEnergy_def consumeEnergy_def Let_def)

lemma recordAccepted_facts:
  assumes "0 \<le> rr_accepted r" "rr_accepted r \<le> max (rr_required r) 0"
  shows "0 \<le> rr_accepted (recordAccepted a r)" "rr_accepted (recordAccepted a r) \<le> max (rr_required r) 0"
    "rr_required (recordAccepted a r) = rr_required r" "rr_accepted r \<le> rr_accepted (recordAccepted a r)"
  using assms by (auto simp: recordAccepted_def rr_remaining_def)

end
