(* ===== verification/CraftReservation.thy ===== *)
theory CraftReservation
  imports MachineTypes
begin

text \<open>
  \<open>src/apps/simcore/Network/CraftReservationClient.cpp\<close>: the resources of a craft are reserved with one
  request per requirement before its inputs are touched; answers are matched by request id, retried a bounded
  number of times, and credited to the energy buffer of the machine. The publisher is a parameter
  \<open>pub\<close> that says for which request ids it succeeds (none when there is no publisher); a request is
  published by appending it to the log of the client.
\<close>

section \<open>State\<close>

record consume_request =
  cq_id :: u64
  cq_kind :: resource_kind
  cq_resource :: u32
  cq_amount :: int

record outstanding_request =
  or_entity :: u64
  or_requirement :: u32
  or_requested :: int

record reservations =
  next_request_id :: u64
  outstanding :: "(u64, outstanding_request) umap"
  charge_by_entity :: "(u64, nat) umap"
  published :: "consume_request list"

definition reservations_new :: reservations where
  "reservations_new = \<lparr>next_request_id = 1, outstanding = [], charge_by_entity = [], published = []\<rparr>"

definition kMaxRetries :: u32 where "kMaxRetries = 6"
definition kRetryBackoffTicks :: u64 where "kRetryBackoffTicks = 10"
definition kReservationExpiryTicks :: u64 where "kReservationExpiryTicks = 100"

definition mintRequestId :: "reservations \<Rightarrow> u64 \<times> reservations" where
  "mintRequestId s = (next_request_id s, s\<lparr>next_request_id := next_request_id s + 1\<rparr>)"

definition publishConsumeRequest ::
  "(u64 \<Rightarrow> bool) \<Rightarrow> u64 \<Rightarrow> resource_kind \<Rightarrow> u32 \<Rightarrow> int \<Rightarrow> reservations \<Rightarrow> bool \<times> reservations" where
  "publishConsumeRequest pub i k res n s =
     (if pub i then (True, s\<lparr>published := published s @ [\<lparr>cq_id = i, cq_kind = k, cq_resource = res, cq_amount = n\<rparr>]\<rparr>)
      else (False, s))"

text \<open>\<open>outstanding_.emplace\<close>.\<close>

definition expect :: "u64 \<Rightarrow> u64 \<Rightarrow> u32 \<Rightarrow> int \<Rightarrow> reservations \<Rightarrow> reservations" where
  "expect i ent q n s =
     s\<lparr>outstanding := um_emplace i \<lparr>or_entity = ent, or_requirement = q, or_requested = n\<rparr> (outstanding s)\<rparr>"

text \<open>The three steps every request takes: mint an id, publish, and on success expect the answer. The id is 0
  when the publish failed.\<close>

definition request_resource ::
  "(u64 \<Rightarrow> bool) \<Rightarrow> u64 \<Rightarrow> u32 \<Rightarrow> resource_kind \<Rightarrow> u32 \<Rightarrow> int \<Rightarrow> reservations \<Rightarrow> bool \<times> u64 \<times> reservations" where
  "request_resource pub ent q k res n s =
     (let (i, s) = mintRequestId s; (ok, s) = publishConsumeRequest pub i k res n s
      in if ok then (True, i, expect i ent q n s) else (False, 0, s))"

section \<open>Reserving\<close>

text \<open>One requirement, or one fluid input: the reservation, and whether a request went out. A failed publish
  leaves the request id 0.\<close>

definition reserve_one ::
  "(u64 \<Rightarrow> bool) \<Rightarrow> u64 \<Rightarrow> u64 \<Rightarrow> u32 \<Rightarrow> resource_kind \<Rightarrow> u32 \<Rightarrow> u32 \<Rightarrow> reservations \<Rightarrow>
    reservation \<times> bool \<times> reservations" where
  "reserve_one pub ent ep q k res need s =
     (let r = \<lparr>rr_id = q, rr_kind = k, rr_resource = res, rr_required = sint need, rr_accepted = 0,
               rr_request = 0, rr_epoch = ep\<rparr>;
          n = rr_remaining r
      in if n \<le> 0 then (r, False, s)
         else let (ok, i, s) = request_resource pub ent q k res n s in (r\<lparr>rr_request := i\<rparr>, ok, s))"

text \<open>The requirements of a recipe in the order of the two loops, numbered from 1.\<close>

definition recipe_needs :: "recipe \<Rightarrow> (resource_kind \<times> u32 \<times> u32) list" where
  "recipe_needs r =
     map (\<lambda>q. (req_kind q, req_resource q, req_amount q)) (r_requirements r) @
     map (\<lambda>f. (FLUID, ucast (fio_id f), fio_mb f)) (r_fluid_in r)"

fun reserve_loop ::
  "(u64 \<Rightarrow> bool) \<Rightarrow> u64 \<Rightarrow> u64 \<Rightarrow> u32 \<Rightarrow> (resource_kind \<times> u32 \<times> u32) list \<Rightarrow> bool \<times> pending_craft \<times> reservations \<Rightarrow>
    bool \<times> pending_craft \<times> reservations" where
  "reserve_loop pub ent ep q [] acc = acc"
| "reserve_loop pub ent ep q ((k, res, need) # needs) (reqd, c, s) =
     (let q = q + 1; (r, sent, s) = reserve_one pub ent ep q k res need s;
          c = c\<lparr>pc_reqs := pc_reqs c @ [r]\<rparr>;
          c = (if rr_remaining r > 0 \<and> pc_request c = 0 then c\<lparr>pc_request := rr_request r\<rparr> else c)
      in reserve_loop pub ent ep q needs (reqd \<or> sent, c, s))"

definition new_craft :: "u64 \<Rightarrow> recipe \<Rightarrow> u64 \<Rightarrow> pending_craft" where
  "new_craft ent r now =
     \<lparr>pc_recipe = r_name r, pc_owner = ent, pc_entity = ent, pc_reqs = [], pc_request = 0, pc_epoch = now,
      pc_retry = 0, pc_expiry = now + kReservationExpiryTicks, pc_next_retry = now + kRetryBackoffTicks\<rparr>"

definition beginReservation ::
  "(u64 \<Rightarrow> bool) \<Rightarrow> u64 \<Rightarrow> recipe \<Rightarrow> u64 \<Rightarrow> reservations \<times> registry \<Rightarrow> bool \<times> reservations \<times> registry" where
  "beginReservation pub ent r now w =
     (let (s, R) = w in
      case progress_of_entity ent R of
        None \<Rightarrow> (False, s, R)
      | Some p \<Rightarrow>
          if rp_pending p \<noteq> None then (False, s, R)
          else if \<not> needsReservation r then (False, s, R)
          else let (reqd, c, s) = reserve_loop pub ent now 0 (recipe_needs r) (False, new_craft ent r now, s);
                   c = (if \<not> reqd then c\<lparr>pc_next_retry := now\<rparr> else c)
               in (reqd, s, set_progress ent (p\<lparr>rp_pending := Some c\<rparr>) R))"

section \<open>Cancelling and retrying\<close>

definition reserve_cancel :: "u64 \<Rightarrow> reservations \<times> registry \<Rightarrow> reservations \<times> registry" where
  "reserve_cancel ent w =
     (let (s, R) = w;
          s = s\<lparr>charge_by_entity := um_erase ent (charge_by_entity s),
                outstanding := um_erase_if (\<lambda>_ r. or_entity r = ent) (outstanding s)\<rparr>
      in (s, case progress_of_entity ent R of None \<Rightarrow> R | Some p \<Rightarrow> set_progress ent (p\<lparr>rp_pending := None\<rparr>) R))"

text \<open>The retry loop: every reservation that still lacks something is requested again under a fresh id.\<close>

fun retry_loop ::
  "(u64 \<Rightarrow> bool) \<Rightarrow> u64 \<Rightarrow> reservation list \<Rightarrow> reservations \<Rightarrow> reservation list \<times> bool \<times> reservations" where
  "retry_loop pub ent [] s = ([], False, s)"
| "retry_loop pub ent (r # rs) s =
     (if rr_full r \<or> rr_remaining r \<le> 0
      then (let (rs', sent, s') = retry_loop pub ent rs s in (r # rs', sent, s'))
      else
        let (ok, i, s1) = request_resource pub ent (rr_id r) (rr_kind r) (rr_resource r) (rr_remaining r) s;
            (rs', sent, s') = retry_loop pub ent rs s1
        in (r\<lparr>rr_request := i\<rparr> # rs', ok \<or> sent, s'))"

definition tickPending :: "(u64 \<Rightarrow> bool) \<Rightarrow> u64 \<Rightarrow> u64 \<Rightarrow> reservations \<times> registry \<Rightarrow> bool \<times> reservations \<times> registry" where
  "tickPending pub ent now w =
     (let (s, R) = w in
      case progress_of_entity ent R of
        None \<Rightarrow> (False, s, R)
      | Some p \<Rightarrow> (case rp_pending p of
          None \<Rightarrow> (False, s, R)
        | Some c \<Rightarrow>
            if pc_full c then (True, s, R)
            else if expired now c \<or> pc_retry c \<ge> kMaxRetries then (False, reserve_cancel ent (s, R))
            else if \<not> retryDue now c then (True, s, R)
            else let (rs, sent, s) = retry_loop pub ent (pc_reqs c) s;
                     c = c\<lparr>pc_reqs := rs, pc_retry := pc_retry c + 1,
                           pc_next_retry := (if sent then now + kRetryBackoffTicks else now)\<rparr>
                 in (True, s, set_progress ent (p\<lparr>rp_pending := Some c\<rparr>) R)))"

section \<open>Responses and charges\<close>

definition creditBuffer :: "u64 \<Rightarrow> int \<Rightarrow> registry \<Rightarrow> registry" where
  "creditBuffer ent n R =
     (if n \<le> 0 then R
      else case energy_of_entity ent R of None \<Rightarrow> R
        | Some e \<Rightarrow> set_energy ent (e\<lparr>es_current := min (es_current e + n) (es_capacity e)\<rparr>) R)"

definition drop_charge :: "u64 \<Rightarrow> reservations \<Rightarrow> reservations" where
  "drop_charge ent s =
     (case um_find (charge_by_entity s) ent of
        Some n \<Rightarrow> if n > 1 then s\<lparr>charge_by_entity := um_put ent (n - 1) (charge_by_entity s)\<rparr>
                  else s\<lparr>charge_by_entity := um_erase ent (charge_by_entity s)\<rparr>
      | None \<Rightarrow> s\<lparr>charge_by_entity := um_erase ent (charge_by_entity s)\<rparr>)"

text \<open>\<open>onConsumeResponse\<close>: the entity whose craft became fully accepted, if any.\<close>

definition onConsumeResponse ::
  "u64 \<Rightarrow> int \<Rightarrow> reservations \<times> registry \<Rightarrow> u64 option \<times> reservations \<times> registry" where
  "onConsumeResponse i acc w =
     (let (s, R) = w in
      case um_find (outstanding s) i of
        None \<Rightarrow> (None, s, R)
      | Some pend \<Rightarrow>
          let s = s\<lparr>outstanding := um_erase i (outstanding s)\<rparr>;
              n = (if acc > 0 then min acc (or_requested pend) else 0);
              ent = or_entity pend
          in if or_requirement pend = 0 then (None, drop_charge ent s, creditBuffer ent n R)
             else (case progress_of_entity ent R of
                 None \<Rightarrow> (None, s, R)
               | Some p \<Rightarrow> (case rp_pending p of
                   None \<Rightarrow> (None, s, R)
                 | Some c \<Rightarrow> (case find_reservation i (pc_reqs c) of
                     None \<Rightarrow> (None, s, R)
                   | Some j \<Rightarrow>
                       if rr_id (pc_reqs c ! j) \<noteq> or_requirement pend then (None, s, R)
                       else let c = c\<lparr>pc_reqs := (pc_reqs c)[j := recordAccepted n (pc_reqs c ! j)]\<rparr>
                            in (if pc_full c then Some ent else None, s,
                                set_progress ent (p\<lparr>rp_pending := Some c\<rparr>) (creditBuffer ent n R))))))"

definition hasOutstandingCharge :: "u64 \<Rightarrow> reservations \<Rightarrow> bool" where
  "hasOutstandingCharge ent s \<longleftrightarrow> um_contains (charge_by_entity s) ent"

fun charge_loop :: "(u64 \<Rightarrow> bool) \<Rightarrow> u64 \<Rightarrow> requirement list \<Rightarrow> u64 \<times> reservations \<Rightarrow> u64 \<times> reservations" where
  "charge_loop pub ent [] acc = acc"
| "charge_loop pub ent (q # qs) (first, s) =
     (let n = sint (req_amount q) in
      if n \<le> 0 then charge_loop pub ent qs (first, s)
      else let (ok, i, s) = request_resource pub ent 0 (req_kind q) (req_resource q) n s
           in if \<not> ok then charge_loop pub ent qs (first, s)
              else let m = (case um_find (charge_by_entity s) ent of Some m \<Rightarrow> m | None \<Rightarrow> 0);
                       s = s\<lparr>charge_by_entity := um_put ent (m + 1) (charge_by_entity s)\<rparr>
                   in charge_loop pub ent qs (if first = 0 then i else first, s))"

definition beginPerTickCharge :: "(u64 \<Rightarrow> bool) \<Rightarrow> u64 \<Rightarrow> recipe \<Rightarrow> reservations \<Rightarrow> u64 \<times> reservations" where
  "beginPerTickCharge pub ent r s =
     (if \<not> hasResourceRequirements r then (0, s)
      else if hasOutstandingCharge ent s then (0, s)
      else charge_loop pub ent (r_requirements r) (0, s))"

end
