(* ===== verification/ReservationProps.thy ===== *)
theory ReservationProps
  imports CraftReservation
begin

text \<open>
  The reservation protocol over every sequence of its operations: request ids are never reused, an answer is
  counted at most once and never beyond what was asked, reservations stay within their requirement, the
  retry budget bounds the requests, and the charge counter counts the outstanding charges.
\<close>

section \<open>Maps\<close>

lemma put_fresh: "um_find m k = None \<Longrightarrow> um_put k v m = m @ [(k, v)]"
  by (induction m) (auto split: if_splits)

lemma length_filter_erase:
  "um_wf m \<Longrightarrow> um_find m k = Some v \<Longrightarrow>
   length (filter P (um_erase k m)) + (if P (k, v) then 1 else 0) = length (filter P m)"
proof (induction m)
  case (Cons x m)
  obtain k' v' where x: "x = (k', v')" by (cases x)
  show ?case
  proof (cases "k' = k")
    case True
    then have "k \<notin> fst ` set m" using Cons.prems(1) x by simp
    then have "um_erase k m = m" by (simp add: AList.delete_eq) (rule filter_True, force)
    then show ?thesis using True Cons.prems(2) x by simp
  next
    case False
    then show ?thesis using Cons x by auto
  qed
qed simp

section \<open>The invariant of the client\<close>

definition charges :: "u64 \<Rightarrow> (u64, outstanding_request) umap \<Rightarrow> nat" where
  "charges ent m = length (filter (\<lambda>(_, r). or_entity r = ent \<and> or_requirement r = 0) m)"

definition client_ok :: "reservations \<Rightarrow> bool" where
  "client_ok s \<longleftrightarrow>
     um_wf (outstanding s) \<and> um_wf (charge_by_entity s) \<and> next_request_id s \<noteq> 0 \<and>
     (\<forall>i r. um_find (outstanding s) i = Some r \<longrightarrow>
        0 < or_requested r \<and> (\<exists>q\<in>set (published s). cq_id q = i \<and> cq_amount q = or_requested r)) \<and>
     (\<forall>q\<in>set (published s). cq_id q \<noteq> 0 \<and> cq_id q < next_request_id s) \<and> distinct (map cq_id (published s))"

definition charge_ok :: "reservations \<Rightarrow> bool" where
  "charge_ok s \<longleftrightarrow> (\<forall>ent. um_find (charge_by_entity s) ent =
     (if charges ent (outstanding s) = 0 then None else Some (charges ent (outstanding s))))"

text \<open>The identifiers below \<open>n\<close> are still free: no wrap-around.\<close>

definition fits :: "nat \<Rightarrow> reservations \<Rightarrow> bool" where
  "fits n s \<longleftrightarrow> uint (next_request_id s) + int n < 18446744073709551616"

lemma fits_iff: "fits n s \<longleftrightarrow> unat (next_request_id s) + n < 2 ^ 64"
proof -
  have "int (2 ^ 64) = 18446744073709551616" by simp
  then show ?thesis unfolding fits_def uint_nat by (metis of_nat_add of_nat_less_iff)
qed

lemma client_ok_fresh:
  assumes "client_ok s"
  shows "um_find (outstanding s) (next_request_id s) = None"
proof (rule ccontr)
  assume "um_find (outstanding s) (next_request_id s) \<noteq> None"
  then obtain r where "um_find (outstanding s) (next_request_id s) = Some r" by auto
  then obtain q where "q \<in> set (published s)" "cq_id q = next_request_id s" using assms unfolding client_ok_def by blast
  moreover have "cq_id q < next_request_id s" using assms calculation(1) unfolding client_ok_def by blast
  ultimately show False by simp
qed

lemma next_id:
  assumes "fits (Suc n) s"
  shows "unat (next_request_id s + 1) = Suc (unat (next_request_id s))" "next_request_id s < next_request_id s + 1"
    "next_request_id s + 1 \<noteq> 0"
proof -
  show u: "unat (next_request_id s + 1) = Suc (unat (next_request_id s))"
    using assms by (simp add: fits_iff unat_word_ariths)
  then show "next_request_id s < next_request_id s + 1" by (simp add: word_less_nat_alt)
  show "next_request_id s + 1 \<noteq> 0" using u by (metis nat.distinct(1) unat_0)
qed

text \<open>What a request does to the client.\<close>

lemma request_facts:
  assumes "client_ok s" "fits (Suc m) s" "0 < n" "request_resource pub ent q k res n s = (ok, i, s')"
  shows "client_ok s'" "fits m s'" "charge_by_entity s' = charge_by_entity s" "ok \<Longrightarrow> i = next_request_id s"
    "\<not> ok \<Longrightarrow> i = 0 \<and> outstanding s' = outstanding s"
    "ok \<Longrightarrow> outstanding s' = outstanding s @ [(i, \<lparr>or_entity = ent, or_requirement = q, or_requested = n\<rparr>)]"
    "next_request_id s' = next_request_id s + 1"
proof -
  note nx = next_id[OF assms(2)]
  let ?i = "next_request_id s" and ?o = "\<lparr>or_entity = ent, or_requirement = q, or_requested = n\<rparr>"
  let ?q = "\<lparr>cq_id = ?i, cq_kind = k, cq_resource = res, cq_amount = n\<rparr>"
  have le: "x < ?i \<Longrightarrow> x < ?i + 1" for x using nx(2) by order
  have s': "if pub ?i
      then ok \<and> i = ?i \<and> s' = s\<lparr>next_request_id := ?i + 1, published := published s @ [?q],
        outstanding := outstanding s @ [(?i, ?o)]\<rparr>
      else \<not> ok \<and> i = 0 \<and> s' = s\<lparr>next_request_id := ?i + 1\<rparr>"
    using assms(4) put_fresh[OF client_ok_fresh[OF assms(1)]] client_ok_fresh[OF assms(1)]
    by (auto simp: request_resource_def mintRequestId_def publishConsumeRequest_def expect_def um_emplace_def)
  show "charge_by_entity s' = charge_by_entity s" "ok \<Longrightarrow> i = ?i" "\<not> ok \<Longrightarrow> i = 0 \<and> outstanding s' = outstanding s"
    "ok \<Longrightarrow> outstanding s' = outstanding s @ [(i, ?o)]" "next_request_id s' = ?i + 1"
    using s' by (auto split: if_splits)
  show "fits m s'" using s' assms(2) nx(1) by (auto simp: fits_iff split: if_splits)
  have new: "?i \<notin> cq_id ` set (published s)" using assms(1) unfolding client_ok_def by force
  have wf: "um_wf (outstanding s @ [(?i, ?o)])"
    using assms(1) client_ok_fresh[OF assms(1)] by (auto simp: client_ok_def um_wf_def map_of_eq_None_iff)
  show "client_ok s'"
  proof (cases "pub ?i")
    case True
    have fo: "um_find (outstanding s @ [(?i, ?o)]) j = (if j = ?i then Some ?o else um_find (outstanding s) j)" for j
      using client_ok_fresh[OF assms(1)] by (auto simp: map_add_def split: option.splits)
    show ?thesis
      using True s' assms(1,3) new wf nx(2,3) le fo unfolding client_ok_def by (auto split: if_splits)
  next
    case False
    then show ?thesis using s' assms(1) nx(3) le unfolding client_ok_def by auto
  qed
qed

lemma charges_append:
  "charges e (m @ [(i, r)]) = charges e m + (if or_entity r = e \<and> or_requirement r = 0 then 1 else 0)"
  by (simp add: charges_def)

lemma request_charges:
  assumes "client_ok s" "fits (Suc m) s" "0 < n" "request_resource pub ent q k res n s = (ok, i, s')"
  shows "charges e (outstanding s') = charges e (outstanding s) + (if ok \<and> e = ent \<and> q = 0 then 1 else 0)"
  using request_facts(5,6)[OF assms] by (cases ok) (auto simp: charges_append)

section \<open>Loops\<close>

text \<open>A reservation is within its requirement.\<close>

definition rr_ok :: "reservation \<Rightarrow> bool" where
  "rr_ok r \<longleftrightarrow> 0 \<le> rr_accepted r \<and> rr_accepted r \<le> max (rr_required r) 0 \<and> rr_id r \<noteq> 0"

definition keeps :: "reservations \<Rightarrow> reservations \<Rightarrow> bool" where
  "keeps s s' \<longleftrightarrow> client_ok s' \<and> charge_by_entity s' = charge_by_entity s \<and>
     (\<forall>e. charges e (outstanding s') = charges e (outstanding s))"

lemma keeps_charge: "keeps s s' \<Longrightarrow> charge_ok s \<Longrightarrow> charge_ok s'"
  by (simp add: keeps_def charge_ok_def)

lemma keeps_trans: "keeps s t \<Longrightarrow> keeps t u \<Longrightarrow> keeps s u"
  by (simp add: keeps_def)

lemma request_keeps:
  assumes "client_ok s" "fits (Suc m) s" "0 < n" "q \<noteq> 0" "request_resource pub ent q k res n s = (ok, i, s')"
  shows "keeps s s'" "fits m s'"
  using request_facts[OF assms(1-3,5)] request_charges[OF assms(1-3,5)] assms(4) by (auto simp: keeps_def)

lemma reserve_one_facts:
  assumes "client_ok s" "fits (Suc m) s" "q \<noteq> 0" "reserve_one pub ent ep q k res need s = (r, sent, s')"
  shows "keeps s s'" "fits m s'" "rr_ok r" "rr_required r = sint need"
proof -
  let ?r = "\<lparr>rr_id = q, rr_kind = k, rr_resource = res, rr_required = sint need, rr_accepted = 0, rr_request = 0, rr_epoch = ep\<rparr>"
  have "keeps s s' \<and> fits m s' \<and> rr_ok r \<and> rr_required r = sint need"
  proof (cases "rr_remaining ?r \<le> 0")
    case True
    then show ?thesis using assms by (auto simp: reserve_one_def Let_def keeps_def fits_iff rr_ok_def)
  next
    case False
    obtain ok i t where t: "request_resource pub ent q k res (rr_remaining ?r) s = (ok, i, t)" by (metis prod_cases3)
    then have "s' = t" "r = ?r\<lparr>rr_request := i\<rparr>" using False assms(4) by (auto simp: reserve_one_def Let_def)
    then show ?thesis using request_keeps[OF assms(1,2) _ assms(3) t] False assms(3) by (auto simp: rr_ok_def)
  qed
  then show "keeps s s'" "fits m s'" "rr_ok r" "rr_required r = sint need" by auto
qed

lemma reserve_loop_facts:
  assumes "client_ok s" "fits (length needs) s" "unat q + length needs < 2 ^ 32" "list_all rr_ok (pc_reqs c)"
    "reserve_loop pub ent ep q needs (b, c, s) = (b', c', s')"
  shows "keeps s s' \<and> list_all rr_ok (pc_reqs c') \<and> pc_retry c' = pc_retry c \<and> pc_expiry c' = pc_expiry c"
  using assms
proof (induction needs arbitrary: q b c s)
  case Nil
  then show ?case by (auto simp: keeps_def)
next
  case (Cons x needs)
  obtain k res need where x: "x = (k, res, need)" by (metis prod_cases3)
  obtain r sent t where t: "reserve_one pub ent ep (q + 1) k res need s = (r, sent, t)" by (metis prod_cases3)
  have uq: "unat (q + 1) = Suc (unat q)" using Cons.prems(3) by (simp add: unat_word_ariths)
  then have q: "q + 1 \<noteq> 0" by (metis nat.distinct(1) unat_0)
  have rm: "fits (Suc (length needs)) s" using Cons.prems(2) by simp
  note f = reserve_one_facts[OF Cons.prems(1) rm q t]
  define c1 where "c1 = c\<lparr>pc_reqs := pc_reqs c @ [r]\<rparr>"
  define c2 where "c2 = (if rr_remaining r > 0 \<and> pc_request c1 = 0 then c1\<lparr>pc_request := rr_request r\<rparr> else c1)"
  have c2: "pc_reqs c2 = pc_reqs c @ [r]" "pc_retry c2 = pc_retry c" "pc_expiry c2 = pc_expiry c"
    by (simp_all add: c2_def c1_def)
  have run: "reserve_loop pub ent ep (q + 1) needs (b \<or> sent, c2, t) = (b', c', s')"
    using Cons.prems(5) t by (auto simp: x Let_def c1_def c2_def split: if_splits)
  have "client_ok t" using f(1) by (simp add: keeps_def)
  from Cons.IH[OF this f(2) _ _ run] show ?case
    using f(1,3) Cons.prems(3,4) uq c2 keeps_trans[OF f(1)] by simp
qed

lemma retry_loop_facts:
  assumes "client_ok s" "fits (length rs) s" "list_all rr_ok rs" "retry_loop pub ent rs s = (rs', sent, s')"
  shows "keeps s s' \<and> list_all rr_ok rs' \<and> length rs' = length rs"
  using assms
proof (induction rs arbitrary: s rs' sent s')
  case Nil
  then show ?case by (auto simp: keeps_def)
next
  case (Cons r rs)
  show ?case
  proof (cases "rr_full r \<or> rr_remaining r \<le> 0")
    case True
    obtain rs1 b t where t: "retry_loop pub ent rs s = (rs1, b, t)" by (metis prod_cases3)
    have "fits (length rs) s" using Cons.prems(2) by (simp add: fits_iff)
    then show ?thesis using Cons.IH[OF Cons.prems(1) _ _ t] Cons.prems t True by auto
  next
    case False
    obtain ok i s1 where s1: "request_resource pub ent (rr_id r) (rr_kind r) (rr_resource r) (rr_remaining r) s = (ok, i, s1)"
      by (metis prod_cases3)
    obtain rs1 b t where t: "retry_loop pub ent rs s1 = (rs1, b, t)" by (metis prod_cases3)
    have out: "rs' = r\<lparr>rr_request := i\<rparr> # rs1" "s' = t" using Cons.prems(4) False s1 t by auto
    have rm: "fits (Suc (length rs)) s" using Cons.prems(2) by simp
    have rk: "rr_ok r" using Cons.prems(3) by simp
    have k: "keeps s s1" "fits (length rs) s1"
      using request_keeps[OF Cons.prems(1) rm _ _ s1] False rk by (auto simp: rr_ok_def)
    then have "client_ok s1" by (simp add: keeps_def)
    from Cons.IH[OF this k(2) _ t] show ?thesis
      using Cons.prems(3) keeps_trans[OF k(1)] rk by (auto simp: out rr_ok_def)
  qed
qed

lemma charge_loop_facts:
  assumes "client_ok s" "charge_ok s" "fits (length qs) s" "charge_loop pub ent qs (first, s) = (i', s')"
  shows "client_ok s' \<and> charge_ok s'"
  using assms
proof (induction qs arbitrary: s first)
  case Nil
  then show ?case by simp
next
  case (Cons q qs)
  show ?case
  proof (cases "sint (req_amount q) \<le> 0")
    case True
    then show ?thesis using Cons by (simp add: fits_iff)
  next
    case False
    obtain ok i s1 where s1: "request_resource pub ent 0 (req_kind q) (req_resource q) (sint (req_amount q)) s = (ok, i, s1)"
      by (metis prod_cases3)
    have rm: "fits (Suc (length qs)) s" using Cons.prems(3) by simp
    note f = request_facts[OF Cons.prems(1) rm _ s1] and g = request_charges[OF Cons.prems(1) rm _ s1]
    show ?thesis
    proof (cases ok)
      case no: False
      then have "charge_ok s1" using f False Cons.prems(2) by (simp add: charge_ok_def)
      then show ?thesis using Cons.IH[of s1 first] f False no s1 Cons.prems(4) by (simp add: Let_def)
    next
      case True
      define m where "m = (case um_find (charge_by_entity s1) ent of Some m \<Rightarrow> m | None \<Rightarrow> 0)"
      define s2 where "s2 = s1\<lparr>charge_by_entity := um_put ent (m + 1) (charge_by_entity s1)\<rparr>"
      have m: "m = charges ent (outstanding s)"
        using Cons.prems(2) f(3) False by (simp add: m_def charge_ok_def split: option.splits)
      have "client_ok s2" using f(1) False by (simp add: s2_def client_ok_def)
      moreover have "charge_ok s2"
        unfolding charge_ok_def
      proof
        fix e
        show "um_find (charge_by_entity s2) e =
            (if charges e (outstanding s2) = 0 then None else Some (charges e (outstanding s2)))"
          using Cons.prems(2) f(3) g[of e] False True m
          by (auto simp: s2_def charge_ok_def um_simps)
      qed
      moreover have "fits (length qs) s2" using f(2) False by (simp add: s2_def fits_iff)
      moreover have "charge_loop pub ent qs (if first = 0 then i else first, s2) = (i', s')"
        using Cons.prems(4) False True s1 by (simp add: Let_def m_def s2_def)
      ultimately show ?thesis by (rule Cons.IH)
    qed
  qed
qed

section \<open>Operations\<close>

text \<open>Reservations and retry counter of every pending craft.\<close>

definition crafts_ok :: "registry \<Rightarrow> bool" where
  "crafts_ok R \<longleftrightarrow> (\<forall>ent p c. progress_of_entity ent R = Some p \<longrightarrow> rp_pending p = Some c \<longrightarrow>
     list_all rr_ok (pc_reqs c) \<and> pc_retry c \<le> kMaxRetries)"

definition world_ok :: "reservations \<times> registry \<Rightarrow> bool" where
  "world_ok w \<longleftrightarrow> client_ok (fst w) \<and> charge_ok (fst w) \<and> crafts_ok (snd w)"

lemma progress_set_progress:
  "progress_of_entity i (set_progress ent p R) =
     (if i = ent then (if um_contains R ent then Some p else None) else progress_of_entity i R)"
  by (auto simp: progress_of_entity_def set_progress_def upd_find um_contains_def split: option.splits)

lemma progress_set_energy [simp]: "progress_of_entity i (set_energy ent e R) = progress_of_entity i R"
  by (auto simp: progress_of_entity_def set_energy_def upd_find map_option_case split: option.splits)

lemma progress_creditBuffer [simp]: "progress_of_entity i (creditBuffer ent n R) = progress_of_entity i R"
  by (simp add: creditBuffer_def split: option.splits)

lemma progress_contains: "progress_of_entity i R = Some p \<Longrightarrow> um_contains R i"
  by (cases "um_find R i") (auto simp: progress_of_entity_def um_contains_def)

lemma contains_creditBuffer [simp]: "um_contains (creditBuffer ent n R) i = um_contains R i"
  by (simp add: creditBuffer_def set_energy_def split: option.splits)

lemma crafts_ok_set:
  assumes "crafts_ok R" "\<And>c. rp_pending p = Some c \<Longrightarrow> list_all rr_ok (pc_reqs c) \<and> pc_retry c \<le> kMaxRetries"
  shows "crafts_ok (set_progress ent p R)"
  using assms unfolding crafts_ok_def progress_set_progress by (auto split: if_splits)

lemma crafts_okD:
  assumes "crafts_ok R" "progress_of_entity ent R = Some p" "rp_pending p = Some c"
  shows "list_all rr_ok (pc_reqs c)" "pc_retry c \<le> kMaxRetries"
  using assms unfolding crafts_ok_def by blast+

definition op_needs :: "recipe \<Rightarrow> nat" where
  "op_needs r = length (r_requirements r) + length (r_fluid_in r)"

lemma length_recipe_needs [simp]: "length (recipe_needs r) = op_needs r"
  by (simp add: recipe_needs_def op_needs_def)

lemma begin_ok:
  assumes "world_ok (s, R)" "fits (op_needs r) s" "int (op_needs r) < 4294967296"
  shows "world_ok (snd (beginReservation pub ent r now (s, R)))"
proof (cases "progress_of_entity ent R")
  case None
  then show ?thesis using assms by (simp add: beginReservation_def)
next
  case (Some p)
  obtain b c t where l: "reserve_loop pub ent now 0 (recipe_needs r) (False, new_craft ent r now, s) = (b, c, t)"
    by (metis prod_cases3)
  have f: "keeps s t \<and> list_all rr_ok (pc_reqs c) \<and> pc_retry c = pc_retry (new_craft ent r now) \<and>
      pc_expiry c = pc_expiry (new_craft ent r now)"
    by (rule reserve_loop_facts[OF _ _ _ _ l]) (use assms in \<open>simp_all add: world_ok_def new_craft_def\<close>)
  then have "client_ok t" "charge_ok t" using assms(1) keeps_charge by (auto simp: keeps_def world_ok_def)
  moreover have "crafts_ok (set_progress ent (p\<lparr>rp_pending := Some c'\<rparr>) R)"
    if "pc_reqs c' = pc_reqs c" "pc_retry c' = pc_retry c" for c'
    using assms(1) f that by (intro crafts_ok_set) (auto simp: world_ok_def new_craft_def kMaxRetries_def)
  ultimately show ?thesis
    using Some l assms(1) by (simp add: beginReservation_def world_ok_def Let_def)
qed

lemma charges_erase_if: "charges e (um_erase_if (\<lambda>_ r. or_entity r = ent) m) = (if e = ent then 0 else charges e m)"
proof (induction m)
  case (Cons x m)
  then show ?case by (cases x) (auto simp: charges_def um_erase_if_def)
qed (simp add: charges_def um_erase_if_def)

lemma cancel_ok:
  assumes "world_ok (s, R)"
  shows "world_ok (reserve_cancel ent (s, R))"
proof -
  let ?s = "s\<lparr>charge_by_entity := um_erase ent (charge_by_entity s),
    outstanding := um_erase_if (\<lambda>_ r. or_entity r = ent) (outstanding s)\<rparr>"
  have "client_ok ?s"
    using assms unfolding world_ok_def client_ok_def
    by (auto simp: um_find_erase_if split: option.splits if_splits)
  moreover have "charge_ok ?s" using assms by (auto simp: world_ok_def charge_ok_def um_simps charges_erase_if)
  moreover have "crafts_ok (set_progress ent (p\<lparr>rp_pending := None\<rparr>) R)" for p
    using assms by (intro crafts_ok_set) (auto simp: world_ok_def)
  ultimately show ?thesis
    using assms by (simp add: reserve_cancel_def world_ok_def split: option.splits)
qed

lemma tick_ok:
  assumes "world_ok (s, R)"
    "\<And>p c. progress_of_entity ent R = Some p \<Longrightarrow> rp_pending p = Some c \<Longrightarrow> fits (length (pc_reqs c)) s"
  shows "world_ok (snd (tickPending pub ent now (s, R)))"
proof (cases "Option.bind (progress_of_entity ent R) rp_pending")
  case None
  then show ?thesis using assms(1) by (auto simp: tickPending_def split: option.splits Option.bind_splits)
next
  case (Some c)
  then obtain p where p: "progress_of_entity ent R = Some p" "rp_pending p = Some c"
    by (auto split: Option.bind_splits)
  have ok: "client_ok s" "charge_ok s" "crafts_ok R" using assms(1) by (simp_all add: world_ok_def)
  note c = crafts_okD[OF ok(3) p]
  obtain rs sent t where t: "retry_loop pub ent (pc_reqs c) s = (rs, sent, t)" by (metis prod_cases3)
  note f = retry_loop_facts[OF ok(1) assms(2)[OF p] c(1) t]
  have tk: "client_ok t" "charge_ok t" using f ok(2) keeps_charge by (auto simp: keeps_def)
  have "crafts_ok (set_progress ent (p\<lparr>rp_pending := Some c'\<rparr>) R)"
    if "pc_reqs c' = rs" "pc_retry c' = pc_retry c + 1" "pc_retry c < kMaxRetries" for c'
  proof (rule crafts_ok_set[OF ok(3)])
    fix c2
    assume "rp_pending (p\<lparr>rp_pending := Some c'\<rparr>) = Some c2"
    then have "c2 = c'" by simp
    moreover have "pc_retry c + 1 \<le> kMaxRetries" using that(3) by (simp add: kMaxRetries_def inc_le)
    ultimately show "list_all rr_ok (pc_reqs c2) \<and> pc_retry c2 \<le> kMaxRetries" using f that by simp
  qed
  then show ?thesis
    using p t assms(1) tk cancel_ok[OF assms(1), of ent]
    by (auto simp: tickPending_def world_ok_def Let_def not_le)
qed

lemma erase_answer_ok:
  assumes "client_ok s"
  shows "client_ok (s\<lparr>outstanding := um_erase i (outstanding s)\<rparr>)"
  using assms by (auto simp: client_ok_def um_simps)

lemma charges_erase:
  assumes "um_wf m" "um_find m i = Some r"
  shows "charges e (um_erase i m) + (if or_entity r = e \<and> or_requirement r = 0 then 1 else 0) = charges e m"
  using length_filter_erase[OF assms, of "\<lambda>(_, r). or_entity r = e \<and> or_requirement r = 0"] by (simp add: charges_def)

lemma drop_charge_client [simp]:
  "outstanding (drop_charge ent s) = outstanding s" "published (drop_charge ent s) = published s"
  "next_request_id (drop_charge ent s) = next_request_id s"
  by (auto simp: drop_charge_def split: option.splits)

lemma drop_charge_ok:
  assumes "client_ok s" "charge_ok s" "um_find (outstanding s) i = Some r" "or_requirement r = 0"
  defines "s' \<equiv> drop_charge (or_entity r) (s\<lparr>outstanding := um_erase i (outstanding s)\<rparr>)"
  shows "client_ok s'" "charge_ok s'"
proof -
  show "client_ok s'"
    using erase_answer_ok[OF assms(1), of i] unfolding s'_def drop_charge_def client_ok_def
    by (auto split: option.splits)
  have "um_wf (outstanding s)" using assms(1) by (simp add: client_ok_def)
  note e = charges_erase[OF this assms(3)]
  show "charge_ok s'"
    unfolding charge_ok_def
  proof
    fix ent
    have o: "outstanding s' = um_erase i (outstanding s)" by (simp add: s'_def)
    have c: "um_find (charge_by_entity s) k =
      (if charges k (outstanding s) = 0 then None else Some (charges k (outstanding s)))" for k
      using assms(2) by (simp add: charge_ok_def)
    have pos: "charges (or_entity r) (outstanding s) = Suc (charges (or_entity r) (um_erase i (outstanding s)))"
      using e[of "or_entity r"] assms(4) by simp
    show "um_find (charge_by_entity s') ent =
      (if charges ent (outstanding s') = 0 then None else Some (charges ent (outstanding s')))"
      unfolding o using c[of ent] c[of "or_entity r"] e[of ent] pos assms(4)
      by (auto simp: s'_def drop_charge_def um_simps split: if_splits)
  qed
qed

lemma recordAccepted_ok: "rr_ok r \<Longrightarrow> rr_ok (recordAccepted n r)"
  by (auto simp: rr_ok_def recordAccepted_def rr_remaining_def)

lemma response_ok:
  assumes "world_ok (s, R)"
  shows "world_ok (snd (onConsumeResponse i acc (s, R)))"
proof (cases "um_find (outstanding s) i")
  case None
  then show ?thesis using assms by (simp add: onConsumeResponse_def)
next
  case (Some r)
  have ok: "client_ok s" "charge_ok s" "crafts_ok R" using assms by (simp_all add: world_ok_def)
  have cr: "crafts_ok (creditBuffer ent n R)" for ent n using ok(3) by (simp add: crafts_ok_def)
  show ?thesis
  proof (cases "or_requirement r = 0")
    case True
    then show ?thesis
      using drop_charge_ok[OF ok(1,2) Some True] Some cr by (simp add: onConsumeResponse_def world_ok_def Let_def)
  next
    case False
    have wf: "um_wf (outstanding s)" using ok(1) by (simp add: client_ok_def)
    have "charges e (um_erase i (outstanding s)) = charges e (outstanding s)" for e
      using charges_erase[OF wf Some, of e] False by simp
    then have s: "client_ok (s\<lparr>outstanding := um_erase i (outstanding s)\<rparr>)"
      "charge_ok (s\<lparr>outstanding := um_erase i (outstanding s)\<rparr>)"
      using ok erase_answer_ok by (simp_all add: charge_ok_def)
    have "crafts_ok (set_progress ent (p\<lparr>rp_pending := Some (c\<lparr>pc_reqs := (pc_reqs c)[j := recordAccepted n (pc_reqs c ! j)]\<rparr>)\<rparr>)
        (creditBuffer ent n R))"
      if "progress_of_entity ent R = Some p" "rp_pending p = Some c" for ent p c j n
    proof (rule crafts_ok_set[OF cr])
      note c = crafts_okD[OF ok(3) that]
      have "list_all rr_ok ((pc_reqs c)[j := recordAccepted n (pc_reqs c ! j)])"
      proof (cases "j < length (pc_reqs c)")
        case True
        then show ?thesis using c(1) by (intro list_all_update) (auto simp: list_all_length recordAccepted_ok)
      next
        case False
        then show ?thesis using c(1) by (simp add: list_update_beyond)
      qed
      then show "list_all rr_ok (pc_reqs c2) \<and> pc_retry c2 \<le> kMaxRetries"
        if "rp_pending (p\<lparr>rp_pending := Some (c\<lparr>pc_reqs := (pc_reqs c)[j := recordAccepted n (pc_reqs c ! j)]\<rparr>)\<rparr>) = Some c2" for c2
        using that c(2) by auto
    qed
    then show ?thesis
      using Some False s ok(3) by (auto simp: onConsumeResponse_def world_ok_def Let_def split: option.splits)
  qed
qed

lemma charge_op_ok:
  assumes "world_ok (s, R)" "fits (length (r_requirements r)) s"
  shows "world_ok (snd (beginPerTickCharge pub ent r s), R)"
proof -
  obtain i t where t: "charge_loop pub ent (r_requirements r) (0, s) = (i, t)" by fastforce
  show ?thesis
    using assms charge_loop_facts[OF _ _ assms(2) t] t by (auto simp: world_ok_def beginPerTickCharge_def)
qed

section \<open>Runs\<close>

datatype cr_op = Begin u64 recipe u64 | Tick u64 u64 | Respond u64 int | Cancel u64 | Charge u64 recipe

fun cr_step :: "(u64 \<Rightarrow> bool) \<Rightarrow> cr_op \<Rightarrow> reservations \<times> registry \<Rightarrow> reservations \<times> registry" where
  "cr_step pub (Begin ent r now) w = snd (beginReservation pub ent r now w)"
| "cr_step pub (Tick ent now) w = snd (tickPending pub ent now w)"
| "cr_step pub (Respond i acc) w = snd (onConsumeResponse i acc w)"
| "cr_step pub (Cancel ent) w = reserve_cancel ent w"
| "cr_step pub (Charge ent r) w = (snd (beginPerTickCharge pub ent r (fst w)), snd w)"

text \<open>The identifiers do not wrap around: an operation has as many left as it may mint.\<close>

fun cr_room :: "cr_op \<Rightarrow> reservations \<times> registry \<Rightarrow> bool" where
  "cr_room (Begin ent r now) w \<longleftrightarrow> fits (op_needs r) (fst w) \<and> int (op_needs r) < 4294967296"
| "cr_room (Tick ent now) w \<longleftrightarrow>
     (case Option.bind (progress_of_entity ent (snd w)) rp_pending of None \<Rightarrow> True
      | Some c \<Rightarrow> fits (length (pc_reqs c)) (fst w))"
| "cr_room (Charge ent r) w \<longleftrightarrow> fits (length (r_requirements r)) (fst w)"
| "cr_room _ w \<longleftrightarrow> True"

text \<open>The answers an operation takes, with the amount counted.\<close>

fun cr_taken :: "cr_op \<Rightarrow> reservations \<times> registry \<Rightarrow> (u64 \<times> int) list" where
  "cr_taken (Respond i acc) w =
     (case um_find (outstanding (fst w)) i of None \<Rightarrow> []
      | Some r \<Rightarrow> [(i, if acc > 0 then min acc (or_requested r) else 0)])"
| "cr_taken _ w = []"

fun cr_run :: "(u64 \<Rightarrow> bool) \<Rightarrow> cr_op list \<Rightarrow> reservations \<times> registry \<Rightarrow> (u64 \<times> int) list \<times> reservations \<times> registry" where
  "cr_run pub [] w = ([], w)"
| "cr_run pub (op # ops) w = (let (ts, w') = cr_run pub ops (cr_step pub op w) in (cr_taken op w @ ts, w'))"

fun cr_rooms :: "(u64 \<Rightarrow> bool) \<Rightarrow> cr_op list \<Rightarrow> reservations \<times> registry \<Rightarrow> bool" where
  "cr_rooms pub [] w \<longleftrightarrow> True"
| "cr_rooms pub (op # ops) w \<longleftrightarrow> cr_room op w \<and> cr_rooms pub ops (cr_step pub op w)"

lemma step_ok: "world_ok w \<Longrightarrow> cr_room op w \<Longrightarrow> world_ok (cr_step pub op w)"
proof (cases w; cases op)
  fix s R ent now
  assume a: "world_ok w" "cr_room op w" "w = (s, R)" "op = Tick ent now"
  then have "fits (length (pc_reqs c)) s" if "progress_of_entity ent R = Some p" "rp_pending p = Some c" for p c
    using that by simp
  then show "world_ok (cr_step pub op w)" using a tick_ok[of s R ent pub now] by auto
qed (use begin_ok response_ok cancel_ok charge_op_ok in auto)

text \<open>What is published stays published, and an id that is taken stays taken.\<close>

definition later :: "reservations \<Rightarrow> reservations \<Rightarrow> bool" where
  "later s s' \<longleftrightarrow> (\<exists>ps. published s' = published s @ ps) \<and>
     (\<forall>i. um_find (outstanding s) i = None \<longrightarrow> i \<in> cq_id ` set (published s) \<longrightarrow> um_find (outstanding s') i = None)"

lemma later_refl [simp]: "later s s"
  by (simp add: later_def)

lemma later_trans: "later s t \<Longrightarrow> later t u \<Longrightarrow> later s u"
  by (auto simp: later_def)

lemma request_later:
  assumes "client_ok s" "request_resource pub ent q k res n s = (ok, i, s')"
  shows "later s s'"
proof -
  have "next_request_id s \<notin> cq_id ` set (published s)" using assms(1) unfolding client_ok_def by force
  then show ?thesis
    using assms(2) client_ok_fresh[OF assms(1)]
    by (auto simp: request_resource_def mintRequestId_def publishConsumeRequest_def expect_def um_emplace_def
        later_def um_simps image_iff split: if_splits)
qed

lemma reserve_loop_later:
  assumes "client_ok s" "fits (length needs) s" "unat q + length needs < 2 ^ 32"
    "reserve_loop pub ent ep q needs (b, c, s) = (b', c', s')"
  shows "later s s'"
  using assms
proof (induction needs arbitrary: q b c s)
  case (Cons x needs)
  obtain k res need where x: "x = (k, res, need)" by (metis prod_cases3)
  obtain r sent t where t: "reserve_one pub ent ep (q + 1) k res need s = (r, sent, t)" by (metis prod_cases3)
  have uq: "unat (q + 1) = Suc (unat q)" using Cons.prems(3) by (simp add: unat_word_ariths)
  then have q: "q + 1 \<noteq> 0" by (metis nat.distinct(1) unat_0)
  have rm: "fits (Suc (length needs)) s" using Cons.prems(2) by simp
  note f = reserve_one_facts[OF Cons.prems(1) rm q t]
  have "later s t"
    using t request_later[OF Cons.prems(1)] by (auto simp: reserve_one_def Let_def split: if_splits prod.splits)
  moreover obtain c2 where "reserve_loop pub ent ep (q + 1) needs (b \<or> sent, c2, t) = (b', c', s')"
    using Cons.prems(4) t by (auto simp: x Let_def split: if_splits)
  moreover have "client_ok t" using f(1) by (simp add: keeps_def)
  ultimately show ?case using Cons.IH[of t "q + 1"] f(2) uq Cons.prems(3) later_trans by simp
qed simp

lemma retry_loop_later:
  assumes "client_ok s" "fits (length rs) s" "list_all rr_ok rs" "retry_loop pub ent rs s = (rs', sent, s')"
  shows "later s s'"
  using assms
proof (induction rs arbitrary: s rs' sent s')
  case (Cons r rs)
  show ?case
  proof (cases "rr_full r \<or> rr_remaining r \<le> 0")
    case True
    obtain rs1 b t where t: "retry_loop pub ent rs s = (rs1, b, t)" by (metis prod_cases3)
    have "fits (length rs) s" using Cons.prems(2) by (simp add: fits_iff)
    then show ?thesis using Cons.IH[OF Cons.prems(1) _ _ t] Cons.prems t True by auto
  next
    case False
    obtain ok i s1 where s1: "request_resource pub ent (rr_id r) (rr_kind r) (rr_resource r) (rr_remaining r) s = (ok, i, s1)"
      by (metis prod_cases3)
    obtain rs1 b t where t: "retry_loop pub ent rs s1 = (rs1, b, t)" by (metis prod_cases3)
    have rm: "fits (Suc (length rs)) s" using Cons.prems(2) by simp
    have k: "keeps s s1" "fits (length rs) s1"
      using request_keeps[OF Cons.prems(1) rm _ _ s1] False Cons.prems(3) by (auto simp: rr_ok_def)
    then have "client_ok s1" by (simp add: keeps_def)
    from Cons.IH[OF this k(2) _ t] show ?thesis
      using Cons.prems(3,4) False s1 t later_trans[OF request_later[OF Cons.prems(1) s1]] by auto
  qed
qed simp

lemma later_charge [simp]: "later s (t\<lparr>charge_by_entity := c\<rparr>) = later s t"
  by (simp add: later_def)

lemma charge_loop_later:
  assumes "client_ok s" "fits (length qs) s" "charge_loop pub ent qs (first, s) = (i', s')"
  shows "later s s'"
  using assms
proof (induction qs arbitrary: s first)
  case (Cons q qs)
  show ?case
  proof (cases "sint (req_amount q) \<le> 0")
    case True
    then show ?thesis using Cons by (simp add: fits_iff)
  next
    case False
    obtain ok i s1 where s1: "request_resource pub ent 0 (req_kind q) (req_resource q) (sint (req_amount q)) s = (ok, i, s1)"
      by (metis prod_cases3)
    have rm: "fits (Suc (length qs)) s" using Cons.prems(2) by simp
    note f = request_facts[OF Cons.prems(1) rm _ s1] and l = request_later[OF Cons.prems(1) s1]
    show ?thesis
    proof (cases ok)
      case no: False
      then show ?thesis using Cons.IH[of s1 first] f False s1 Cons.prems(3) later_trans[OF l] by (simp add: Let_def)
    next
      case True
      define s2 where "s2 = s1\<lparr>charge_by_entity := um_put ent
        ((case um_find (charge_by_entity s1) ent of Some m \<Rightarrow> m | None \<Rightarrow> 0) + 1) (charge_by_entity s1)\<rparr>"
      have "client_ok s2" "fits (length qs) s2" using f(1,2) False by (simp_all add: s2_def client_ok_def fits_iff)
      moreover have "charge_loop pub ent qs (if first = 0 then i else first, s2) = (i', s')"
        using Cons.prems(3) False True s1 by (simp add: Let_def s2_def)
      moreover have "later s s2" using l by (simp add: s2_def)
      ultimately show ?thesis using Cons.IH later_trans by blast
    qed
  qed
qed simp

lemma later_outstanding:
  "published t = published s \<Longrightarrow> (\<And>i. um_find (outstanding s) i = None \<Longrightarrow> um_find (outstanding t) i = None) \<Longrightarrow> later s t"
  by (simp add: later_def)

lemma cancel_later: "um_wf (outstanding s) \<Longrightarrow> later s (fst (reserve_cancel ent (s, R)))"
  by (rule later_outstanding) (auto simp: reserve_cancel_def um_find_erase_if)

lemma response_later: "later s (fst (snd (onConsumeResponse i acc (s, R))))"
  by (rule later_outstanding)
     (auto simp: onConsumeResponse_def Let_def um_simps split: option.splits)

lemma step_later:
  assumes "world_ok w" "cr_room op w"
  shows "later (fst w) (fst (cr_step pub op w))"
proof -
  obtain s R where w: "w = (s, R)" by (cases w)
  have ok: "client_ok s" "charge_ok s" "crafts_ok R" using assms(1) by (simp_all add: world_ok_def w)
  have wf: "um_wf (outstanding s)" using ok(1) by (simp add: client_ok_def)
  show ?thesis
  proof (cases op)
    case (Begin ent r now)
    obtain b c t where l: "reserve_loop pub ent now 0 (recipe_needs r) (False, new_craft ent r now, s) = (b, c, t)"
      by (metis prod_cases3)
    have "later s t" by (rule reserve_loop_later[OF ok(1) _ _ l]) (use assms(2) Begin w in simp_all)
    then show ?thesis using l Begin w by (auto simp: beginReservation_def Let_def split: option.splits)
  next
    case (Tick ent now)
    show ?thesis
    proof (cases "Option.bind (progress_of_entity ent R) rp_pending")
      case None
      then show ?thesis using Tick w by (auto simp: tickPending_def split: option.splits Option.bind_splits)
    next
      case (Some c)
      then obtain p where p: "progress_of_entity ent R = Some p" "rp_pending p = Some c" by (auto split: Option.bind_splits)
      obtain rs sent t where t: "retry_loop pub ent (pc_reqs c) s = (rs, sent, t)" by (metis prod_cases3)
      have "later s t"
        by (rule retry_loop_later[OF ok(1) _ crafts_okD(1)[OF ok(3) p] t]) (use assms(2) Tick w Some in simp)
      then show ?thesis
        using Tick w p t cancel_later[OF wf] by (auto simp: tickPending_def Let_def)
    qed
  next
    case (Charge ent r)
    obtain i t where t: "charge_loop pub ent (r_requirements r) (0, s) = (i, t)" by fastforce
    have "later s t" by (rule charge_loop_later[OF ok(1) _ t]) (use assms(2) Charge w in simp)
    then show ?thesis using Charge w t by (auto simp: beginPerTickCharge_def)
  qed (use w response_later cancel_later[OF wf] in auto)
qed

lemma taken_distinct: "distinct (map fst (cr_taken op w))"
  by (cases op) (auto split: option.splits)

lemma taken_facts:
  assumes "world_ok w" "t \<in> set (cr_taken op w)"
  shows "um_find (outstanding (fst w)) (fst t) \<noteq> None" "um_find (outstanding (fst (cr_step pub op w))) (fst t) = None"
    "\<exists>q\<in>set (published (fst w)). cq_id q = fst t \<and> 0 \<le> snd t \<and> snd t \<le> cq_amount q"
proof -
  obtain s R where w: "w = (s, R)" by (cases w)
  obtain i acc r where op: "op = Respond i acc" "um_find (outstanding s) i = Some r"
    and t: "t = (i, if acc > 0 then min acc (or_requested r) else 0)"
  proof (cases op)
    case (Respond i acc)
    then show thesis using that[of i acc] assms(2) w by (cases "um_find (outstanding s) i") auto
  qed (use assms(2) w in simp_all)
  show "um_find (outstanding (fst w)) (fst t) \<noteq> None"
    using op t w by simp
  show "um_find (outstanding (fst (cr_step pub op w))) (fst t) = None"
    using op t w by (auto simp: onConsumeResponse_def Let_def um_simps split: option.splits)
  show "\<exists>q\<in>set (published (fst w)). cq_id q = fst t \<and> 0 \<le> snd t \<and> snd t \<le> cq_amount q"
    using assms(1) op t w by (fastforce simp: world_ok_def client_ok_def)
qed

lemma cr_run_facts:
  assumes "world_ok w" "cr_rooms pub ops w" "cr_run pub ops w = (ts, w')"
  shows "world_ok w' \<and> later (fst w) (fst w') \<and> distinct (map fst ts) \<and>
    (\<forall>t\<in>set ts. (fst t \<in> cq_id ` set (published (fst w)) \<longrightarrow> um_find (outstanding (fst w)) (fst t) \<noteq> None) \<and>
      (\<exists>q\<in>set (published (fst w')). cq_id q = fst t \<and> 0 \<le> snd t \<and> snd t \<le> cq_amount q))"
  using assms
proof (induction ops arbitrary: w ts)
  case (Cons op ops)
  let ?v = "cr_step pub op w"
  obtain ts2 where run: "cr_run pub ops ?v = (ts2, w')" and ts: "ts = cr_taken op w @ ts2"
    using Cons.prems(3) by (auto simp: Let_def split: prod.splits)
  have ok: "world_ok ?v" and l: "later (fst w) (fst ?v)"
    using step_ok step_later Cons.prems(1,2) by auto
  have IH: "world_ok w'" "later (fst ?v) (fst w')" "distinct (map fst ts2)"
    "\<And>t. t \<in> set ts2 \<Longrightarrow> fst t \<in> cq_id ` set (published (fst ?v)) \<Longrightarrow> um_find (outstanding (fst ?v)) (fst t) \<noteq> None"
    "\<And>t. t \<in> set ts2 \<Longrightarrow> \<exists>q\<in>set (published (fst w')). cq_id q = fst t \<and> 0 \<le> snd t \<and> snd t \<le> cq_amount q"
    using Cons.IH[OF ok _ run] Cons.prems(2) by auto
  have lw: "later (fst w) (fst w')" using l IH(2) by (rule later_trans)
  have pub: "set (published (fst w)) \<subseteq> set (published (fst ?v))" "set (published (fst w)) \<subseteq> set (published (fst w'))"
    using l lw by (auto simp: later_def)
  have disj: "fst t \<noteq> fst u" if "t \<in> set (cr_taken op w)" "u \<in> set ts2" for t u
  proof
    assume e: "fst t = fst u"
    have "fst t \<in> cq_id ` set (published (fst ?v))" using taken_facts(3)[OF Cons.prems(1) that(1)] pub by force
    then show False using IH(4)[OF that(2)] taken_facts(2)[OF Cons.prems(1) that(1), of pub] e by simp
  qed
  have one: "distinct (map fst (cr_taken op w))"
    by (rule taken_distinct)
  have "distinct (map fst ts)" using one IH(3) disj by (force simp: ts)
  moreover have "um_find (outstanding (fst w)) (fst t) \<noteq> None"
    if "t \<in> set ts2" "fst t \<in> cq_id ` set (published (fst w))" for t
    using IH(4)[OF that(1)] that(2) pub(1) l by (auto simp: later_def)
  moreover have "\<exists>q\<in>set (published (fst w')). cq_id q = fst t \<and> 0 \<le> snd t \<and> snd t \<le> cq_amount q"
    if "t \<in> set (cr_taken op w)" for t
    using taken_facts(3)[OF Cons.prems(1) that] pub(2) by blast
  ultimately show ?case using IH(1,5) lw taken_facts(1)[OF Cons.prems(1)] by (auto simp: ts)
qed simp

section \<open>Settling\<close>

definition expires_at :: "u64 \<Rightarrow> u64 \<Rightarrow> registry \<Rightarrow> bool" where
  "expires_at ent t R \<longleftrightarrow>
     (case Option.bind (progress_of_entity ent R) rp_pending of None \<Rightarrow> True | Some c \<Rightarrow> pc_expiry c = t)"

lemma expires_at_iff:
  "expires_at ent t R \<longleftrightarrow>
     (\<forall>p c. progress_of_entity ent R = Some p \<longrightarrow> rp_pending p = Some c \<longrightarrow> pc_expiry c = t)"
  by (auto simp: expires_at_def split: option.splits Option.bind_splits)

lemma expires_at_set:
  "expires_at ent t R \<Longrightarrow> (i = ent \<Longrightarrow> (\<And>c. rp_pending p = Some c \<Longrightarrow> pc_expiry c = t)) \<Longrightarrow>
   expires_at ent t (set_progress i p R)"
  by (auto simp: expires_at_iff progress_set_progress split: if_splits)

lemma expires_at_credit [simp]: "expires_at ent t (creditBuffer i n R) = expires_at ent t R"
  by (simp add: expires_at_iff)

lemma reserve_loop_expiry: "reserve_loop pub ent ep q needs (b, c, s) = (b', c', s') \<Longrightarrow> pc_expiry c' = pc_expiry c"
proof (induction needs arbitrary: q b c s)
  case (Cons x needs)
  obtain k res need where x: "x = (k, res, need)" by (metis prod_cases3)
  show ?case using Cons.IH Cons.prems by (fastforce simp: x Let_def split: prod.splits if_splits)
qed simp

fun not_begun :: "u64 \<Rightarrow> cr_op \<Rightarrow> bool" where
  "not_begun ent (Begin e r now) \<longleftrightarrow> e \<noteq> ent"
| "not_begun ent _ \<longleftrightarrow> True"

lemma step_expires:
  assumes "expires_at ent t (snd w)" "not_begun ent op"
  shows "expires_at ent t (snd (cr_step pub op w))"
proof -
  obtain s R where w: "w = (s, R)" by (cases w)
  have R: "expires_at ent t R" using assms(1) w by simp
  have c: "expires_at ent t (snd (reserve_cancel e (s, R)))" for e
    using R by (auto simp: reserve_cancel_def intro!: expires_at_set split: option.splits)
  show ?thesis
  proof (cases op)
    case (Begin e r now)
    then show ?thesis
      using R assms(2) w by (auto simp: beginReservation_def Let_def intro!: expires_at_set split: option.splits prod.splits)
  next
    case (Tick e now)
    then show ?thesis
      using R c w by (auto simp: tickPending_def Let_def expires_at_iff[of ent t R] intro!: expires_at_set split: option.splits prod.splits)
  next
    case (Respond i acc)
    then show ?thesis
      using R w by (auto simp: onConsumeResponse_def Let_def expires_at_iff[of ent t R] intro!: expires_at_set split: option.splits)
  next
    case (Charge e r)
    then show ?thesis using R w by simp
  qed (use c w in simp)
qed

lemma run_expires:
  "expires_at ent t (snd w) \<Longrightarrow> list_all (not_begun ent) ops \<Longrightarrow> expires_at ent t (snd (snd (cr_run pub ops w)))"
proof (induction ops arbitrary: w)
  case (Cons op ops)
  obtain ts v where v: "cr_run pub ops (cr_step pub op w) = (ts, v)" by (rule prod.exhaust)
  show ?case using Cons.IH[of "cr_step pub op w"] step_expires[of ent t w op pub] Cons.prems v by simp
qed simp

lemma begin_expires:
  assumes "Option.bind (progress_of_entity ent R) rp_pending = None"
  shows "expires_at ent (now + kReservationExpiryTicks) (snd (cr_step pub (Begin ent r now) (s, R)))"
proof -
  have R: "expires_at ent (now + kReservationExpiryTicks) R" using assms by (simp add: expires_at_def)
  show ?thesis
    using R reserve_loop_expiry[of pub ent now 0 "recipe_needs r" False "new_craft ent r now" s]
    by (auto simp: beginReservation_def Let_def new_craft_def intro!: expires_at_set split: option.splits prod.splits)
qed

lemma tick_settles:
  assumes "expires_at ent t R" "t \<noteq> 0" "t \<le> now"
  shows "case Option.bind (progress_of_entity ent (snd (snd (tickPending pub ent now (s, R))))) rp_pending of
      None \<Rightarrow> True | Some c \<Rightarrow> pc_full c"
proof (cases "Option.bind (progress_of_entity ent R) rp_pending")
  case None
  then show ?thesis by (auto simp: tickPending_def split: option.splits Option.bind_splits)
next
  case (Some c)
  then obtain p where p: "progress_of_entity ent R = Some p" "rp_pending p = Some c" by (auto split: Option.bind_splits)
  then have "expired now c" using assms by (simp add: expires_at_iff expired_def)
  then show ?thesis
    using p progress_contains[OF p(1)] by (auto simp: tickPending_def reserve_cancel_def progress_set_progress)
qed

section \<open>Properties\<close>

text \<open>C19: over every sequence of reservations, retries, answers, cancellations and charges, with any publish
  failures: request ids are never reused; an answer is taken at most once per request and counts between
  zero and what was requested; every reservation holds between zero and its requirement, after at most six
  retries; and a machine counts as having an outstanding charge exactly while the answer to one of its
  charge requests is missing.\<close>

theorem answers_counted_once:
  assumes "crafts_ok R" "cr_rooms pub ops (reservations_new, R)" "cr_run pub ops (reservations_new, R) = (ts, s', R')"
  shows "distinct (map fst ts) \<and> distinct (map cq_id (published s')) \<and>
    list_all (\<lambda>(i, n). list_ex (\<lambda>q. cq_id q = i \<and> 0 \<le> n \<and> n \<le> cq_amount q) (published s')) ts \<and>
    crafts_ok R' \<and>
    (hasOutstandingCharge ent s' \<longleftrightarrow> list_ex (\<lambda>(_, r). or_entity r = ent \<and> or_requirement r = 0) (outstanding s'))"
proof -
  have "world_ok (reservations_new, R)"
    using assms(1) by (simp add: world_ok_def client_ok_def charge_ok_def charges_def reservations_new_def)
  from cr_run_facts[OF this assms(2,3)] have f: "client_ok s'" "charge_ok s'" "crafts_ok R'" "distinct (map fst ts)"
    "\<forall>t\<in>set ts. \<exists>q\<in>set (published s'). cq_id q = fst t \<and> 0 \<le> snd t \<and> snd t \<le> cq_amount q"
    by (auto simp: world_ok_def)
  have "hasOutstandingCharge ent s' \<longleftrightarrow> charges ent (outstanding s') \<noteq> 0"
    using f(2) by (simp add: hasOutstandingCharge_def um_contains_def charge_ok_def)
  also have "\<dots> \<longleftrightarrow> list_ex (\<lambda>(_, r). or_entity r = ent \<and> or_requirement r = 0) (outstanding s')"
    by (auto simp: charges_def filter_empty_conv list_ex_iff)
  finally show ?thesis using f by (fastforce simp: client_ok_def list_all_iff list_ex_iff)
qed

definition idle_entity :: entity where
  "idle_entity =
     \<lparr>e_machine = None,
      e_progress = Some \<lparr>rp_recipe = [], rp_remaining = 0, rp_processing = False, rp_needs_output = False, rp_pending = None\<rparr>,
      e_slots = None,
      e_energy = Some \<lparr>es_capacity = 1000, es_current = 0, es_maxInput = 32, es_maxOutput = 32, es_tier = 1, es_type = ELECTRICITY\<rparr>,
      e_heat = None, e_overheat = None, e_slow = None, e_fluid = None, e_facing = None, e_temperature = None,
      e_purity = None, e_biome = None, e_networks = None, e_tags = None\<rparr>"

definition wet_recipe :: recipe where
  "wet_recipe =
     \<lparr>r_name = ''wash'', r_inputs = [], r_outputs = [], r_class = ''washer'', r_min_tier = 0, r_max_tier = 32767,
      r_energy_type = ENERGY_TYPE_ANY, r_duration = 20, r_cost = 0,
      r_conditions = \<lparr>c_environment = None, c_machine = None, c_special = []\<rparr>,
      r_requirements = [\<lparr>req_kind = EU, req_resource = 0, req_amount = 32, req_tier = 1\<rparr>],
      r_fluid_in = [\<lparr>fio_id = 9, fio_mb = 500\<rparr>], r_fluid_out = [], r_pattern = None\<rparr>"

definition wet_ops :: "cr_op list" where
  "wet_ops = [Begin 5 wet_recipe 0, Respond 1 20, Respond 1 20, Respond 2 900, Tick 5 10, Respond 3 12, Charge 5 wet_recipe]"

definition wet_result :: "(u64 \<times> int) list \<times> reservations \<times> registry" where
  "wet_result = cr_run (\<lambda>_. True) wet_ops (reservations_new, [(5, idle_entity)])"

lemma idle_crafts_ok: "crafts_ok [(5, idle_entity)]"
  by (auto simp: crafts_ok_def progress_of_entity_def idle_entity_def)

theorem answers_counted_once_witness:
  "fst wet_result = [(1, 20), (2, 500), (3, 12)] \<and> distinct (map fst (fst wet_result)) \<and>
   distinct (map cq_id (published (fst (snd wet_result)))) \<and> hasOutstandingCharge 5 (fst (snd wet_result))"
proof -
  have r: "cr_rooms (\<lambda>_. True) wet_ops (reservations_new, [(5, idle_entity)])" by code_simp
  have w: "cr_run (\<lambda>_. True) wet_ops (reservations_new, [(5, idle_entity)]) =
    (fst wet_result, fst (snd wet_result), snd (snd wet_result))" by (simp add: wet_result_def)
  have "fst wet_result = [(1, 20), (2, 500), (3, 12)]"
    "list_ex (\<lambda>(_, r). or_entity r = 5 \<and> or_requirement r = 0) (outstanding (fst (snd wet_result)))" by code_simp+
  then show ?thesis using answers_counted_once[OF idle_crafts_ok r w, of 5] by simp
qed

text \<open>A pending craft does not hang: whatever answers, charges and retries follow its reservation at tick
  \<open>t\<close>, the first \<open>tickPending\<close> at \<open>t + 100\<close> or later leaves the machine either without a pending craft or with
  one that is fully accepted and ready to start.\<close>

theorem pending_craft_settles:
  assumes "Option.bind (progress_of_entity ent R) rp_pending = None" "list_all (not_begun ent) ops"
    "t + 100 \<noteq> 0" "t + 100 \<le> now" "snd (cr_run pub ops (cr_step pub (Begin ent r t) (s, R))) = (s', R')"
  shows "case Option.bind (progress_of_entity ent (snd (snd (tickPending pub ent now (s', R'))))) rp_pending of
      None \<Rightarrow> True | Some c \<Rightarrow> pc_full c"
  using tick_settles[OF _ assms(3,4), of ent R' pub s'] assms(5)
    run_expires[OF begin_expires[OF assms(1), of t pub r s] assms(2), of pub]
  by (simp add: kReservationExpiryTicks_def)

theorem pending_craft_settles_witness:
  "case Option.bind (progress_of_entity 5 (snd (snd (tickPending (\<lambda>_. True) 5 100
      (snd (cr_run (\<lambda>_. True) [Tick 5 10, Respond 1 20, Tick 5 20] (cr_step (\<lambda>_. True) (Begin 5 wet_recipe 0)
        (reservations_new, [(5, idle_entity)])))))))) rp_pending of None \<Rightarrow> True | Some c \<Rightarrow> pc_full c"
proof -
  have "Option.bind (progress_of_entity 5 [(5, idle_entity)]) rp_pending = None"
    by (simp add: progress_of_entity_def idle_entity_def)
  from pending_craft_settles[OF this, of "[Tick 5 10, Respond 1 20, Tick 5 20]" 0 100 "\<lambda>_. True" wet_recipe reservations_new]
  show ?thesis by (simp add: prod_eq_iff)
qed

text \<open>Answers that go wrong. The late answer to a request that was repeated meanwhile is taken from the
  outstanding requests and changes nothing else, although the owner has already given the resource away;
  and the answer to a reserved fluid input is added to the energy buffer of the machine as if it were
  energy, cut off at its capacity.\<close>

theorem answers_misused:
  assumes "um_find (outstanding s) i = Some pend" "or_requirement pend \<noteq> 0"
    "progress_of_entity (or_entity pend) R = Some p" "rp_pending p = Some c"
  shows "(find_reservation i (pc_reqs c) = None \<longrightarrow>
      onConsumeResponse i acc (s, R) = (None, s\<lparr>outstanding := um_erase i (outstanding s)\<rparr>, R)) \<and>
    (find_reservation i (pc_reqs c) = Some j \<and> rr_id (pc_reqs c ! j) = or_requirement pend \<and> 0 < acc \<and>
        0 < or_requested pend \<and> energy_of_entity (or_entity pend) R = Some e \<longrightarrow>
      energy_of_entity (or_entity pend) (snd (snd (onConsumeResponse i acc (s, R)))) =
        Some (e\<lparr>es_current := min (es_current e + min acc (or_requested pend)) (es_capacity e)\<rparr>))"
proof -
  have "energy_of_entity k (set_progress k q (set_energy k e' R)) = Some e'" if "energy_of_entity k R = Some e" for k q e'
    using that by (auto simp: energy_of_entity_def set_progress_def set_energy_def upd_find split: Option.bind_splits)
  then show ?thesis using assms by (auto simp: onConsumeResponse_def creditBuffer_def Let_def)
qed

definition late_world :: "reservations \<times> registry" where
  "late_world = snd (cr_run (\<lambda>_. True) [Begin 5 wet_recipe 0, Tick 5 10] (reservations_new, [(5, idle_entity)]))"

definition late_pending :: pending_craft where
  "late_pending = the (Option.bind (progress_of_entity 5 (snd late_world)) rp_pending)"

theorem answers_misused_witness:
  "snd (snd (onConsumeResponse 1 32 late_world)) = snd late_world \<and>
   map_option es_current (energy_of_entity 5 (snd (snd (onConsumeResponse 4 500 late_world)))) = Some 500"
proof -
  obtain s R where w: "late_world = (s, R)" by (cases late_world)
  have f: "um_find (outstanding (fst late_world)) 1 = Some \<lparr>or_entity = 5, or_requirement = 1, or_requested = 32\<rparr>"
    "um_find (outstanding (fst late_world)) 4 = Some \<lparr>or_entity = 5, or_requirement = 2, or_requested = 500\<rparr>"
    "find_reservation 1 (pc_reqs late_pending) = None" "find_reservation 4 (pc_reqs late_pending) = Some 1"
    "rr_id (pc_reqs late_pending ! 1) = 2"
    "energy_of_entity 5 (snd late_world) = Some \<lparr>es_capacity = 1000, es_current = 0, es_maxInput = 32, es_maxOutput = 32,
       es_tier = 1, es_type = ELECTRICITY\<rparr>"
    by code_simp+
  have "\<not> Option.is_none (Option.bind (progress_of_entity 5 (snd late_world)) rp_pending)" by code_simp
  then obtain p where p: "progress_of_entity 5 (snd late_world) = Some p" "rp_pending p = Some late_pending"
    by (auto simp: late_pending_def Option.is_none_def split: Option.bind_splits)
  note g = f[unfolded w fst_conv snd_conv] and q = p[unfolded w snd_conv]
  define a b where "a = \<lparr>or_entity = (5 :: u64), or_requirement = (1 :: u32), or_requested = 32\<rparr>"
    and "b = \<lparr>or_entity = (5 :: u64), or_requirement = (2 :: u32), or_requested = 500\<rparr>"
  have a: "um_find (outstanding s) 1 = Some a" "or_requirement a \<noteq> 0" "progress_of_entity (or_entity a) R = Some p"
    and b: "um_find (outstanding s) 4 = Some b" "or_requirement b \<noteq> 0" "progress_of_entity (or_entity b) R = Some p"
    using g(1,2) q(1) by (simp_all add: a_def b_def)
  have "snd (snd (onConsumeResponse 1 32 (s, R))) = R"
    using answers_misused[OF a q(2), of 32] g(3) by simp
  moreover have "map_option es_current (energy_of_entity 5 (snd (snd (onConsumeResponse 4 500 (s, R))))) = Some 500"
    using answers_misused[OF b q(2), of 500 1] g(4,5,6) by (simp add: b_def)
  ultimately show ?thesis by (simp add: w)
qed

text \<open>Nothing but an answer, a cancellation or the retry of the machine's own pending craft touches its charge
  counter.\<close>

fun silent_op :: "u64 \<Rightarrow> cr_op \<Rightarrow> bool" where
  "silent_op ent (Respond i acc) \<longleftrightarrow> False"
| "silent_op ent (Cancel e) \<longleftrightarrow> e \<noteq> ent"
| "silent_op ent (Tick e now) \<longleftrightarrow> e \<noteq> ent"
| "silent_op ent _ \<longleftrightarrow> True"

lemma request_charge_map: "request_resource pub ent q k res n s = (ok, i, s') \<Longrightarrow> charge_by_entity s' = charge_by_entity s"
  by (auto simp: request_resource_def mintRequestId_def publishConsumeRequest_def expect_def split: if_splits)

lemma reserve_loop_charge_map:
  "reserve_loop pub ent ep q needs (b, c, s) = (b', c', s') \<Longrightarrow> charge_by_entity s' = charge_by_entity s"
proof (induction needs arbitrary: q b c s)
  case (Cons x needs)
  obtain k res need where x: "x = (k, res, need)" by (metis prod_cases3)
  obtain r sent t where t: "reserve_one pub ent ep (q + 1) k res need s = (r, sent, t)" by (metis prod_cases3)
  then have "charge_by_entity t = charge_by_entity s"
    by (auto simp: reserve_one_def Let_def split: if_splits prod.splits dest: request_charge_map)
  then show ?case using Cons.IH Cons.prems t by (fastforce simp: x Let_def split: if_splits)
qed simp

lemma retry_loop_charge_map:
  "retry_loop pub ent rs s = (rs', sent, s') \<Longrightarrow> charge_by_entity s' = charge_by_entity s"
  by (induction rs arbitrary: s rs' sent s')
     (auto simp: Let_def split: if_splits prod.splits dest!: request_charge_map)

lemma charge_loop_grows:
  "charge_loop pub e qs (first, s) = (i', s') \<Longrightarrow> um_contains (charge_by_entity s) ent \<Longrightarrow>
   um_contains (charge_by_entity s') ent"
proof (induction qs arbitrary: first s)
  case (Cons q qs)
  obtain ok i t where t: "request_resource pub e 0 (req_kind q) (req_resource q) (sint (req_amount q)) s = (ok, i, t)"
    by (metis prod_cases3)
  have put: "um_contains (um_put e m c) ent" if "um_contains c ent" for m c
    using that by (simp add: um_contains_def um_simps)
  have c: "um_contains (charge_by_entity t) ent" using Cons.prems(2) request_charge_map[OF t] by simp
  show ?case
  proof (cases "sint (req_amount q) \<le> 0 \<or> \<not> ok")
    case True
    then show ?thesis using Cons.IH[OF _ Cons.prems(2)] Cons.IH[OF _ c] Cons.prems(1) t by (auto simp: Let_def split: if_splits)
  next
    case False
    define m where "m = (case um_find (charge_by_entity t) e of Some m \<Rightarrow> m | None \<Rightarrow> 0) + 1"
    have "um_contains (charge_by_entity (t\<lparr>charge_by_entity := um_put e m (charge_by_entity t)\<rparr>)) ent"
      using put[OF c] by simp
    from Cons.IH[OF _ this] show ?thesis using False Cons.prems(1) t by (simp add: Let_def m_def)
  qed
qed simp

lemma step_keeps_charge:
  assumes "hasOutstandingCharge ent (fst w)" "silent_op ent op"
  shows "hasOutstandingCharge ent (fst (cr_step pub op w))"
proof -
  obtain s R where w: "w = (s, R)" by (cases w)
  have h: "um_contains (charge_by_entity s) ent" using assms(1) w by (simp add: hasOutstandingCharge_def)
  have c: "um_contains (um_erase e (charge_by_entity s)) ent" if "e \<noteq> ent" for e
    using h that by (simp add: um_contains_def um_simps)
  show ?thesis
  proof (cases op)
    case (Begin e r now)
    then show ?thesis using h w reserve_loop_charge_map
      by (fastforce simp: beginReservation_def hasOutstandingCharge_def Let_def split: option.splits prod.splits)
  next
    case (Tick e now)
    then show ?thesis using h w c assms(2) retry_loop_charge_map
      by (fastforce simp: tickPending_def reserve_cancel_def hasOutstandingCharge_def Let_def split: option.splits prod.splits)
  next
    case (Charge e r)
    then show ?thesis using h w charge_loop_grows[of pub e "r_requirements r" 0 s _ _ ent]
      by (cases "charge_loop pub e (r_requirements r) (0, s)") (auto simp: beginPerTickCharge_def hasOutstandingCharge_def)
  qed (use assms(2) h w c in \<open>auto simp: reserve_cancel_def hasOutstandingCharge_def\<close>)
qed

text \<open>A charge whose answer is lost stalls its machine for good: as long as no answer and no cancellation
  comes, no further charge is sent for the machine, however many operations follow.\<close>

theorem lost_charge_stalls:
  assumes "hasOutstandingCharge ent s" "list_all (silent_op ent) ops" "snd (cr_run pub ops (s, R)) = (s', R')"
  shows "beginPerTickCharge pub ent r s' = (0, s')"
proof -
  have "hasOutstandingCharge ent (fst (snd (cr_run pub ops w)))" if "hasOutstandingCharge ent (fst w)" for w
    using that assms(2)
  proof (induction ops arbitrary: w)
    case (Cons op ops)
    obtain ts v where v: "cr_run pub ops (cr_step pub op w) = (ts, v)" by (rule prod.exhaust)
    show ?case using Cons.IH[of "cr_step pub op w"] step_keeps_charge[of ent w op pub] Cons.prems v by simp
  qed simp
  from this[of "(s, R)"] show ?thesis using assms(1,3) by (simp add: beginPerTickCharge_def)
qed

theorem lost_charge_stalls_witness:
  "beginPerTickCharge (\<lambda>_. True) 5 wet_recipe
     (fst (snd (cr_run (\<lambda>_. True) [Charge 5 wet_recipe, Begin 5 wet_recipe 3]
       (cr_step (\<lambda>_. True) (Charge 5 wet_recipe) (reservations_new, [(5, idle_entity)]))))) =
   (0, fst (snd (cr_run (\<lambda>_. True) [Charge 5 wet_recipe, Begin 5 wet_recipe 3]
       (cr_step (\<lambda>_. True) (Charge 5 wet_recipe) (reservations_new, [(5, idle_entity)])))))"
proof -
  obtain s R where w: "cr_step (\<lambda>_. True) (Charge 5 wet_recipe) (reservations_new, [(5, idle_entity)]) = (s, R)"
    by (rule prod.exhaust)
  have "hasOutstandingCharge 5 (fst (cr_step (\<lambda>_. True) (Charge 5 wet_recipe) (reservations_new, [(5, idle_entity)])))"
    by code_simp
  then have "hasOutstandingCharge 5 s" by (simp only: w fst_conv)
  from lost_charge_stalls[OF this, of "[Charge 5 wet_recipe, Begin 5 wet_recipe 3]" "\<lambda>_. True" R]
  show ?thesis unfolding w by (simp add: prod_eq_iff del: cr_run.simps)
qed

end
