(* ===== verification/MachineSystem.thy ===== *)
theory MachineSystem
  imports CraftReservation
begin

text \<open>
  The machine update of \<open>src/game/machines/MachineSystem.cpp\<close>: one tick is four passes over the machines
  (publish, start recipes, top up steam, advance recipes), next to the two answers of the pipe network. A
  pass is a fold of its loop body over the view; services that may be null are flags of the environment, and
  messages are appended to an output log. The progress and ratio floats of a message and the diagnostics are left
  out.
\<close>

section \<open>State\<close>

datatype machine_msg =
    BlockUpdate u64 u16 "u8 list" int int
  | EnergyNode u64 int int energy_type
  | EnergyRequest u64 energy_type int
  | FluidNode u64 u16 int int
  | FluidRequest u64 u16 int
  | ItemNode u64 "(u16 \<times> u8) list"
  | WindowUpdate u32 u32 u32

record machine_env =
  v_recipes :: recipe_manager
  v_slots :: "u16 \<Rightarrow> (nat \<times> nat) option"
  v_pipe :: bool
  v_item :: bool
  v_fluid :: bool
  v_reserve :: bool
  v_windows :: bool
  v_steam :: u16
  v_pub :: "u64 \<Rightarrow> bool"

record machine_world =
  w_reg :: registry
  w_res :: reservations
  w_pend :: "(u64, int) umap"
  w_pendf :: "(u64, int) umap"
  w_hash :: "(u64, u64) umap"
  w_counter :: int
  w_startup :: int
  w_total :: u64
  w_out :: "machine_msg list"

definition kForcePublishInterval :: int where "kForcePublishInterval = 10"
definition kSteamFillQuantum :: int where "kSteamFillQuantum = 1000"

definition machine_world_new :: "registry \<Rightarrow> machine_world" where
  "machine_world_new R =
     \<lparr>w_reg = R, w_res = reservations_new, w_pend = [], w_pendf = [], w_hash = [], w_counter = 0, w_startup = 3,
      w_total = 0, w_out = []\<rparr>"

definition emit :: "machine_msg list \<Rightarrow> machine_world \<Rightarrow> machine_world" where
  "emit ms w = w\<lparr>w_out := w_out w @ ms\<rparr>"

text \<open>The four components of the view, of one entity and of the registry.\<close>

definition parts :: "u64 \<Rightarrow> registry \<Rightarrow> (machine_component \<times> recipe_progress \<times> pslot list \<times> energy_storage) option" where
  "parts i R =
     (case um_find R i of None \<Rightarrow> None
      | Some e \<Rightarrow> (case (e_machine e, e_progress e, e_slots e, e_energy e) of
          (Some m, Some p, Some ss, Some en) \<Rightarrow> Some (m, p, ss, en) | _ \<Rightarrow> None))"

definition view :: "registry \<Rightarrow> u64 list" where
  "view R = map fst (filter (\<lambda>(i, _). parts i R \<noteq> None) R)"

definition set_slots :: "u64 \<Rightarrow> pslot list \<Rightarrow> registry \<Rightarrow> registry" where
  "set_slots i ss = upd i (\<lambda>e. e\<lparr>e_slots := Some ss\<rparr>)"

definition on_reg :: "(registry \<Rightarrow> registry) \<Rightarrow> machine_world \<Rightarrow> machine_world" where
  "on_reg f w = w\<lparr>w_reg := f (w_reg w)\<rparr>"

definition publishInventoryIfOpen :: "machine_env \<Rightarrow> machine_component \<Rightarrow> machine_world \<Rightarrow> machine_world" where
  "publishInventoryIfOpen env m w =
     (if \<not> v_windows env then w else emit [WindowUpdate (mc_x m) (mc_y m) (mc_z m)] w)"

section \<open>Pass 0: publishing\<close>

definition packInventory :: "pslot list \<Rightarrow> u8 list" where
  "packInventory ss =
     concat (map (\<lambda>s. [ucast (item_id s), ucast (drop_bit 8 (item_id s)), cnt s, ucast (pmeta s), ucast (drop_bit 8 (pmeta s))]) ss)"

definition fnv1a :: "u8 list \<Rightarrow> u64" where
  "fnv1a bs = foldl (\<lambda>h b. (h XOR ucast b) * 1099511628211) 1469598103934665603 bs"

definition publish_state :: "machine_env \<Rightarrow> bool \<Rightarrow> u64 \<Rightarrow> machine_world \<Rightarrow> machine_world" where
  "publish_state env force i w =
     (case parts i (w_reg w) of None \<Rightarrow> w
      | Some (m, p, ss, en) \<Rightarrow>
          let bytes = packInventory ss; h = fnv1a bytes
          in if \<not> force \<and> um_find (w_hash w) i = Some h then w
             else emit [BlockUpdate i (mc_machine m) bytes (es_current en) (es_capacity en)]
                    (w\<lparr>w_hash := um_put i h (w_hash w)\<rparr>))"

section \<open>Pass 1: starting recipes\<close>

text \<open>The lookup throws for a class list that names an unknown recipe, which no loader produces.\<close>

definition find_recipe :: "machine_env \<Rightarrow> u16 \<Rightarrow> pslot list \<Rightarrow> recipe option" where
  "find_recipe env mid items = Option.bind (findRecipeByInputs mid items (v_recipes env)) (\<lambda>r. r)"

text \<open>The two loops that take the inputs out of the first slots: \<open>consume\<close> and \<open>replace\<close> are not looked at.\<close>

definition consume_start :: "nat \<Rightarrow> input_item list \<Rightarrow> pslot list \<Rightarrow> pslot list" where
  "consume_start n qs ss =
     fold (\<lambda>q ss. if in_id q = 0 then ss else take_input (in_id q) (in_meta q) (in_count q) (take n ss) @ drop n ss) qs ss"

definition start_progress :: "recipe \<Rightarrow> recipe_progress \<Rightarrow> recipe_progress" where
  "start_progress r p = p\<lparr>rp_recipe := r_name r, rp_remaining := r_duration r, rp_processing := True\<rparr>"

definition commitPendingCraft :: "machine_env \<Rightarrow> u64 \<Rightarrow> machine_world \<Rightarrow> machine_world" where
  "commitPendingCraft env i w =
     (case um_find (w_reg w) i of None \<Rightarrow> w
      | Some e \<Rightarrow> (case (e_machine e, e_progress e, e_slots e) of
          (Some m, Some p, Some ss) \<Rightarrow>
            (case rp_pending p of None \<Rightarrow> w
             | Some c \<Rightarrow>
                 if \<not> pc_full c then w
                 else (case getRecipeById (pc_recipe c) (v_recipes env) of
                     None \<Rightarrow>
                       if v_reserve env
                       then (let (s, R) = reserve_cancel i (w_res w, w_reg w) in w\<lparr>w_res := s, w_reg := R\<rparr>) else w
                   | Some r \<Rightarrow>
                       let n = (case v_slots env (mc_machine m) of None \<Rightarrow> length ss | Some (si, _) \<Rightarrow> min (length ss) si);
                           p' = (start_progress r p)\<lparr>rp_pending := None\<rparr>
                       in publishInventoryIfOpen env m
                            (on_reg (set_progress i p' \<circ> set_slots i (consume_start n (r_inputs r) ss)) w)))
        | _ \<Rightarrow> w))"

definition tickOrchestratedStart :: "machine_env \<Rightarrow> u64 \<Rightarrow> recipe \<Rightarrow> machine_world \<Rightarrow> machine_world" where
  "tickOrchestratedStart env i r w =
     (let stale = (case Option.bind (progress_of_entity i (w_reg w)) rp_pending of
             None \<Rightarrow> False | Some c \<Rightarrow> pc_recipe c \<noteq> r_name r);
          w = (if stale then (let (s, R) = reserve_cancel i (w_res w, w_reg w) in w\<lparr>w_res := s, w_reg := R\<rparr>) else w)
      in if Option.bind (progress_of_entity i (w_reg w)) rp_pending = None
         then (let (_, s, R) = beginReservation (v_pub env) i r (w_total w) (w_res w, w_reg w)
               in w\<lparr>w_res := s, w_reg := R\<rparr>)
         else (let (alive, s, R) = tickPending (v_pub env) i (w_total w) (w_res w, w_reg w);
                   w = w\<lparr>w_res := s, w_reg := R\<rparr>
               in if \<not> alive then w
                  else (case Option.bind (progress_of_entity i R) rp_pending of
                      Some c \<Rightarrow> if pc_full c then commitPendingCraft env i w else w
                    | None \<Rightarrow> w)))"

definition start_recipe :: "machine_env \<Rightarrow> u64 \<Rightarrow> machine_world \<Rightarrow> machine_world" where
  "start_recipe env i w =
     (case parts i (w_reg w) of None \<Rightarrow> w
      | Some (m, p, ss, en) \<Rightarrow>
          if mc_external m then w
          else if rp_recipe p \<noteq> [] then w
          else if (case Option.bind (um_find (w_reg w) i) e_overheat of None \<Rightarrow> False | Some s \<Rightarrow> s \<noteq> OH_NONE) then w
          else
            let (si, so) = (case v_slots env (mc_machine m) of Some x \<Rightarrow> x | None \<Rightarrow> (length ss, 0)) in
            if rp_needs_output p \<and> \<not> list_all (\<lambda>s. item_id s = 0) (take (min (si + so) (length ss) - si) (drop si ss)) then w
            else
              let p = p\<lparr>rp_needs_output := False\<rparr>; w = on_reg (set_progress i p) w in
              (case find_recipe env (mc_machine m) (take si ss) of
                 None \<Rightarrow> w
               | Some r \<Rightarrow>
                   if \<not> evaluateConditions (r_name r) (stateOf i (w_reg w)) (v_recipes env) then w
                   else if v_reserve env \<and> needsReservation r then tickOrchestratedStart env i r w
                   else on_reg (set_progress i (start_progress r p))
                          (publishInventoryIfOpen env m (on_reg (set_slots i (consume_start si (r_inputs r) ss)) w))))"

section \<open>Pass 1.5: steam top-up\<close>

definition steam_topup :: "machine_env \<Rightarrow> u64 \<Rightarrow> machine_world \<Rightarrow> machine_world" where
  "steam_topup env i w =
     (case parts i (w_reg w) of None \<Rightarrow> w
      | Some (m, p, ss, en) \<Rightarrow>
          if mc_external m \<or> rp_recipe p \<noteq> [] \<or> es_type en \<noteq> STEAM \<or> v_steam env = 0 \<or>
             es_current en \<ge> es_capacity en \<or> um_contains (w_pendf w) i then w
          else
            let n = min (es_capacity en - es_current en) kSteamFillQuantum in
            if n \<le> 0 then w
            else if v_fluid env
            then emit [FluidNode i (v_steam env) (es_current en) (es_capacity en), FluidRequest i (v_steam env) n]
                   (w\<lparr>w_pendf := um_put i n (w_pendf w)\<rparr>)
            else w)"

section \<open>Pass 2: advancing recipes\<close>

text \<open>A C++ conversion of a float to an integer drops the fraction.\<close>

definition trunc :: "rat \<Rightarrow> int" where
  "trunc q = (if 0 \<le> q then \<lfloor>q\<rfloor> else \<lceil>q\<rceil>)"

definition orchestrated :: "machine_env \<Rightarrow> recipe \<Rightarrow> bool" where
  "orchestrated env r \<longleftrightarrow> v_reserve env \<and> hasResourceRequirements r"

definition per_tick_cost :: "machine_env \<Rightarrow> recipe \<Rightarrow> int" where
  "per_tick_cost env r = (if orchestrated env r then sint (resourceAmountPerTick r) else trunc (r_cost r))"

text \<open>The overheat control: whether the machine runs in this tick, and its slow-down counter.\<close>

definition overheat_gate :: "overheat_state option \<Rightarrow> rat option \<Rightarrow> bool \<times> rat option" where
  "overheat_gate oh slow =
     (case oh of
        None \<Rightarrow> (True, None)
      | Some OH_CRITICAL \<Rightarrow> (False, slow)
      | Some OH_NONE \<Rightarrow> (True, slow)
      | Some OH_WARNING \<Rightarrow>
          (let a = (case slow of None \<Rightarrow> 0 | Some a \<Rightarrow> a) + 1 in if a < 2 then (False, Some a) else (True, Some 0)))"

definition request_energy :: "machine_env \<Rightarrow> u64 \<Rightarrow> recipe \<Rightarrow> energy_storage \<Rightarrow> machine_world \<Rightarrow> machine_world" where
  "request_energy env i r en w =
     (let n = trunc (r_cost r) in
      if orchestrated env r then
        (if hasOutstandingCharge i (w_res w) then w
         else w\<lparr>w_res := snd (beginPerTickCharge (v_pub env) i r (w_res w))\<rparr>)
      else (case es_type en of
          HEAT \<Rightarrow>
            if um_contains (w_pend w) i then w
            else (if v_pipe env then emit [EnergyRequest i HEAT n] else id) (w\<lparr>w_pend := um_put i n (w_pend w)\<rparr>)
        | STEAM \<Rightarrow>
            if v_steam env = 0 \<or> um_contains (w_pendf w) i then w
            else (if v_fluid env
                  then emit [FluidNode i (v_steam env) (es_current en) (es_capacity en), FluidRequest i (v_steam env) n] else id)
                 (w\<lparr>w_pendf := um_put i n (w_pendf w)\<rparr>)
        | t \<Rightarrow>
            if um_contains (w_pend w) i then w
            else (if v_pipe env then emit [EnergyNode i (es_current en) (es_capacity en) t, EnergyRequest i t n] else id)
                 (w\<lparr>w_pend := um_put i n (w_pend w)\<rparr>)))"

fun stack_into :: "output_item \<Rightarrow> u8 \<Rightarrow> pslot list \<Rightarrow> u8 \<times> pslot list" where
  "stack_into q n [] = (n, [])"
| "stack_into q n (s # ss) =
     (if n = 0 then (n, s # ss)
      else if item_id s = out_id q \<and> pmeta s = out_meta q \<and> cnt s < 64
      then (let a = min n (64 - cnt s); (n', ss') = stack_into q (n - a) ss in (n', s\<lparr>cnt := cnt s + a\<rparr> # ss'))
      else (let (n', ss') = stack_into q n ss in (n', s # ss')))"

fun fill_into :: "output_item \<Rightarrow> u8 \<Rightarrow> pslot list \<Rightarrow> u8 \<times> pslot list" where
  "fill_into q n [] = (n, [])"
| "fill_into q n (s # ss) =
     (if n = 0 then (n, s # ss)
      else if item_id s = 0 then (0, \<lparr>item_id = out_id q, cnt = n, pmeta = out_meta q\<rparr> # ss)
      else (let (n', ss') = fill_into q n ss in (n', s # ss')))"

text \<open>One output into the slots from \<open>si\<close> up to \<open>si + so\<close>; what does not fit is dropped.\<close>

definition store_output :: "nat \<Rightarrow> nat \<Rightarrow> output_item \<Rightarrow> pslot list \<Rightarrow> pslot list" where
  "store_output si so q ss =
     (if out_count q = 0 then ss
      else
        let k = min (si + so) (length ss) - si;
            (n, mid) = stack_into q (out_count q) (take k (drop si ss));
            (n, mid) = fill_into q n mid
        in take si ss @ mid @ drop (si + k) ss)"

definition credit_fluids :: "fluid_io list \<Rightarrow> fluid_storage option \<Rightarrow> fluid_storage option" where
  "credit_fluids outs f =
     (if outs = [] then f
      else
        let total = foldl (\<lambda>t q. t + sint (fio_mb q)) 0 outs;
            f = (case f of Some f \<Rightarrow> f
                 | None \<Rightarrow> \<lparr>fs_fluid = ucast (fio_id (hd outs)), fs_amount = 0, fs_capacity = total, maxInput = total, maxOutput = total\<rparr>)
        in Some (foldl (\<lambda>f q. if fs_fluid f \<noteq> ucast (fio_id q) then f else fst (addFluid (sint (fio_mb q)) f)) f outs))"

definition pushOutputToPipe :: "machine_env \<Rightarrow> u64 \<Rightarrow> nat \<Rightarrow> pslot list \<Rightarrow> machine_world \<Rightarrow> machine_world" where
  "pushOutputToPipe env i si ss w =
     (let items = map (\<lambda>s. (item_id s, cnt s)) (filter (\<lambda>s. item_id s \<noteq> 0 \<and> cnt s > 0) (drop si ss))
      in if \<not> v_item env \<or> items = [] then w else emit [ItemNode i items] w)"

definition finish_recipe :: "machine_env \<Rightarrow> u64 \<Rightarrow> machine_component \<Rightarrow> recipe \<Rightarrow> recipe_progress \<Rightarrow> pslot list \<Rightarrow> machine_world \<Rightarrow> machine_world" where
  "finish_recipe env i m r p ss w =
     (let (si, so) = (case v_slots env (mc_machine m) of Some x \<Rightarrow> x | None \<Rightarrow> (0, length ss));
          ss' = fold (store_output si so) (r_outputs r) ss;
          p' = p\<lparr>rp_processing := False, rp_needs_output := True, rp_recipe := []\<rparr>
      in publishInventoryIfOpen env m
           (pushOutputToPipe env i si ss'
             (on_reg (set_progress i p' \<circ> upd i (\<lambda>e. e\<lparr>e_fluid := credit_fluids (r_fluid_out r) (e_fluid e)\<rparr>) \<circ> set_slots i ss') w)))"

definition publish_progress :: "machine_env \<Rightarrow> u64 \<Rightarrow> machine_world \<Rightarrow> machine_world" where
  "publish_progress env i w =
     (case parts i (w_reg w) of None \<Rightarrow> w
      | Some (m, p, ss, en) \<Rightarrow> emit [BlockUpdate i (mc_machine m) (packInventory ss) (es_current en) (es_capacity en)] w)"

definition advance_recipe :: "machine_env \<Rightarrow> u64 \<Rightarrow> machine_world \<Rightarrow> machine_world" where
  "advance_recipe env i w =
     (case parts i (w_reg w) of None \<Rightarrow> w
      | Some (m, p, ss, en) \<Rightarrow>
          if mc_external m \<or> rp_recipe p = [] then w
          else
            let (runs, slow) = overheat_gate (Option.bind (um_find (w_reg w) i) e_overheat) (Option.bind (um_find (w_reg w) i) e_slow);
                w = on_reg (upd i (\<lambda>e. e\<lparr>e_slow := slow\<rparr>)) w
            in if \<not> runs then w
               else (case getRecipeById (rp_recipe p) (v_recipes env) of
                   None \<Rightarrow> on_reg (set_progress i (p\<lparr>rp_processing := False, rp_needs_output := False, rp_recipe := []\<rparr>)) w
                 | Some r \<Rightarrow>
                     if es_current en < per_tick_cost env r then request_energy env i r en w
                     else
                       let en' = en\<lparr>es_current := sub_sat (es_current en) (per_tick_cost env r)\<rparr>;
                           p' = p\<lparr>rp_remaining := rp_remaining p - 1\<rparr>;
                           w = on_reg (set_progress i p' \<circ> set_energy i en') w;
                           w = (if v_pipe env then emit [EnergyNode i (es_current en') (es_capacity en) (es_type en)] w else w);
                           w = (if rp_remaining p' = 0 then finish_recipe env i m r p' ss w else w)
                       in publish_progress env i w))"

section \<open>The tick\<close>

definition machine_tick :: "machine_env \<Rightarrow> machine_world \<Rightarrow> machine_world" where
  "machine_tick env w =
     (let c = w_counter w + 1;
          force = (c \<ge> kForcePublishInterval \<or> w_startup w > 0);
          w = w\<lparr>w_total := w_total w + 1, w_counter := (if c \<ge> kForcePublishInterval then 0 else c),
                w_startup := (if w_startup w > 0 then w_startup w - 1 else w_startup w)\<rparr>;
          w = fold (publish_state env force) (view (w_reg w)) w;
          w = fold (start_recipe env) (view (w_reg w)) w;
          w = fold (steam_topup env) (view (w_reg w)) w
      in fold (advance_recipe env) (view (w_reg w)) w)"

section \<open>Answers of the pipe network\<close>

definition receive_energy :: "int \<Rightarrow> entity \<Rightarrow> entity" where
  "receive_energy n e =
     (case e_energy e of None \<Rightarrow> e
      | Some en \<Rightarrow>
          let en' = en\<lparr>es_current := min (add_sat (es_current en) n) (es_capacity en)\<rparr>
          in e\<lparr>e_energy := Some en',
               e_heat := (if es_type en = HEAT then map_option (\<lambda>h. h\<lparr>hi_stored := es_current en'\<rparr>) (e_heat e) else e_heat e)\<rparr>)"

definition complete_entity :: "u64 \<Rightarrow> registry \<Rightarrow> bool" where
  "complete_entity i R =
     (case um_find R i of None \<Rightarrow> False
      | Some e \<Rightarrow> e_machine e \<noteq> None \<and> e_progress e \<noteq> None \<and> e_energy e \<noteq> None)"

text \<open>\<open>static_cast<entt::entity>\<close> keeps 32 bits.\<close>

definition entity_of :: "u64 \<Rightarrow> u64" where
  "entity_of n = ucast (ucast n :: u32)"

definition machine_onConsumeResponse :: "u64 \<Rightarrow> int \<Rightarrow> machine_world \<Rightarrow> machine_world" where
  "machine_onConsumeResponse node n w =
     (if n \<le> 0 then (if node \<noteq> 0 then w\<lparr>w_pend := um_erase node (w_pend w)\<rparr> else w)
      else if node \<noteq> 0 then
        (let w' = w\<lparr>w_pend := um_erase node (w_pend w)\<rparr>
         in if complete_entity (entity_of node) (w_reg w) then on_reg (upd (entity_of node) (receive_energy n)) w' else w')
      else (case w_pend w of
          [] \<Rightarrow> w
        | (oldest, _) # _ \<Rightarrow>
            let w' = w\<lparr>w_pend := um_erase oldest (w_pend w)\<rparr>
            in if complete_entity (entity_of oldest) (w_reg w) then on_reg (upd (entity_of oldest) (receive_energy n)) w' else w'))"

definition receive_steam :: "int \<Rightarrow> entity \<Rightarrow> entity" where
  "receive_steam n e =
     e\<lparr>e_energy := map_option (\<lambda>en. en\<lparr>es_current := min (add_sat (es_current en) n) (es_capacity en)\<rparr>) (e_energy e)\<rparr>"

definition onFluidConsumeResponse :: "int \<Rightarrow> machine_world \<Rightarrow> machine_world" where
  "onFluidConsumeResponse n w =
     (case w_pendf w of
        [] \<Rightarrow> w
      | (oldest, _) # _ \<Rightarrow>
          let w' = w\<lparr>w_pendf := um_erase oldest (w_pendf w)\<rparr>
          in if n \<le> 0 then w'
             else if complete_entity (entity_of oldest) (w_reg w) then on_reg (upd (entity_of oldest) (receive_steam n)) w' else w')"

end
