(* ===== verification/MachineProps.thy ===== *)
theory MachineProps
  imports MachineSystem RecipeProps ReservationProps
begin

text \<open>
  The machine tick seen from one machine: it refines an abstract machine that is idle or runs a recipe, pays the
  inputs when it starts, the energy in every tick it advances, and gets the outputs when it is done. Over
  any sequence of ticks and answers nothing is made without its inputs and its energy.
\<close>

section \<open>The abstract machine\<close>

text \<open>
  The slots of a machine are split into inputs and outputs by the counts of its definition; a machine without a
  definition uses every slot for both. \<open>made\<close> is what a recipe puts out, \<open>room\<close> what fits on the stacks of an
  output that are there, \<open>gain\<close> what arrives of it: all if some output slot is empty, else what fits on the stacks.
\<close>

type_synonym regions = "(nat \<times> nat) option"

type_synonym abstract_machine = "pslot list \<times> int \<times> (recipe \<times> nat) option"


definition in_width :: "regions \<Rightarrow> pslot list \<Rightarrow> nat" where
  "in_width v ss = (case v of None \<Rightarrow> length ss | Some (si, _) \<Rightarrow> si)"

definition out_start :: "regions \<Rightarrow> nat" where
  "out_start v = (case v of None \<Rightarrow> 0 | Some (si, _) \<Rightarrow> si)"

definition out_width :: "regions \<Rightarrow> pslot list \<Rightarrow> nat" where
  "out_width v ss = (case v of None \<Rightarrow> length ss | Some (_, so) \<Rightarrow> so)"

definition in_slots :: "regions \<Rightarrow> pslot list \<Rightarrow> pslot list" where
  "in_slots v ss = take (in_width v ss) ss"

definition out_slots :: "regions \<Rightarrow> pslot list \<Rightarrow> pslot list" where
  "out_slots v ss = take (out_width v ss) (drop (out_start v) ss)"

definition room :: "output_item \<Rightarrow> pslot list \<Rightarrow> nat" where
  "room q os = sum_list (map (\<lambda>s. if item_id s = out_id q \<and> pmeta s = out_meta q \<and> cnt s < 64 then 64 - unat (cnt s) else 0) os)"

definition vacant :: "pslot list \<Rightarrow> nat" where
  "vacant os = length (filter (\<lambda>s. item_id s = 0) os)"

definition gain :: "output_item \<Rightarrow> pslot list \<Rightarrow> nat" where
  "gain q os = (if vacant os = 0 then min (unat (out_count q)) (room q os) else unat (out_count q))"

text \<open>
  The inputs a recipe takes: of every item what the recipe lists. A recipe with a pattern matches by its cells, so
  the list may name more than the slots hold, and then they are emptied of it.
\<close>

definition pays :: "regions \<Rightarrow> recipe \<Rightarrow> pslot list \<Rightarrow> pslot list \<Rightarrow> bool" where
  "pays v r ss ss' \<longleftrightarrow> matches r (in_slots v ss) \<and> length ss' = length ss \<and> drop (in_width v ss) ss' = drop (in_width v ss) ss \<and>
     (\<forall>k. amount k (in_slots v ss') = amount k (in_slots v ss) - needed k (r_inputs r))"

definition stores :: "regions \<Rightarrow> output_item \<Rightarrow> pslot list \<Rightarrow> pslot list \<Rightarrow> bool" where
  "stores v q ss ss' \<longleftrightarrow> length ss' = length ss \<and> take (out_start v) ss' = take (out_start v) ss \<and>
     drop (out_start v + out_width v ss) ss' = drop (out_start v + out_width v ss) ss \<and>
     (\<forall>k. amount k (out_slots v ss') =
       amount k (out_slots v ss) + (if out_id q \<noteq> 0 \<and> k = (out_id q, out_meta q) then gain q (out_slots v ss) else 0)) \<and>
     vacant (out_slots v ss) \<le> Suc (vacant (out_slots v ss'))"

inductive delivers :: "regions \<Rightarrow> output_item list \<Rightarrow> pslot list \<Rightarrow> pslot list \<Rightarrow> bool" for v where
  None_left: "delivers v [] ss ss"
| One_more: "stores v q ss ss1 \<Longrightarrow> delivers v qs ss1 ss' \<Longrightarrow> delivers v (q # qs) ss ss'"

inductive mstep :: "machine_env \<Rightarrow> regions \<Rightarrow> abstract_machine \<Rightarrow> abstract_machine \<Rightarrow> bool" for env v where
  Start: "getRecipeById (r_name r) (v_recipes env) = Some r \<Longrightarrow> pays v r ss ss' \<Longrightarrow>
    mstep env v (ss, e, None) (ss', e, Some (r, unat (r_duration r)))"
| Work: "1 < n \<Longrightarrow> per_tick_cost env r \<le> e \<Longrightarrow>
    mstep env v (ss, e, Some (r, n)) (ss, e - per_tick_cost env r, Some (r, n - 1))"
| Finish: "per_tick_cost env r \<le> e \<Longrightarrow> delivers v (r_outputs r) ss ss' \<Longrightarrow>
    mstep env v (ss, e, Some (r, 1)) (ss', e - per_tick_cost env r, None)"

definition regions_of :: "machine_env \<Rightarrow> entity \<Rightarrow> regions" where
  "regions_of env e = Option.bind (e_machine e) (\<lambda>m. v_slots env (mc_machine m))"

definition abs_entity :: "machine_env \<Rightarrow> entity \<Rightarrow> abstract_machine" where
  "abs_entity env e =
     (case e_slots e of None \<Rightarrow> [] | Some ss \<Rightarrow> ss,
      case e_energy e of None \<Rightarrow> 0 | Some en \<Rightarrow> es_current en,
      case e_progress e of None \<Rightarrow> None
      | Some p \<Rightarrow> if rp_recipe p = [] then None
                 else map_option (\<lambda>r. (r, unat (rp_remaining p))) (getRecipeById (rp_recipe p) (v_recipes env)))"

text \<open>
  A recipe table: every recipe is stored under its name, no name is empty, durations are positive and the cost of a
  tick is not negative. The loader stores recipes by name, raises a duration of 0 to 1 and refuses a negative
  cost; recipes with a pattern are allowed.
\<close>

definition recipes_good :: "machine_env \<Rightarrow> bool" where
  "recipes_good env \<longleftrightarrow> list_all (\<lambda>(n, r). r_name r = n \<and> n \<noteq> [] \<and> r_duration r \<noteq> 0 \<and>
     0 \<le> per_tick_cost env r) (recipes (v_recipes env))"

definition energy_ok :: "energy_storage option \<Rightarrow> bool" where
  "energy_ok x \<longleftrightarrow> (case x of None \<Rightarrow> True
     | Some en \<Rightarrow> 0 \<le> es_current en \<and> es_current en \<le> es_capacity en \<and> es_capacity en \<le> int32_max)"

definition entity_good :: "machine_env \<Rightarrow> entity \<Rightarrow> bool" where
  "entity_good env e \<longleftrightarrow> energy_ok (e_energy e) \<and>
     (case e_progress e of None \<Rightarrow> True
      | Some p \<Rightarrow> rp_recipe p \<noteq> [] \<longrightarrow> rp_remaining p \<noteq> 0 \<and> getRecipeById (rp_recipe p) (v_recipes env) \<noteq> None)"

lemma recipes_goodD:
  assumes "recipes_good env" "getRecipeById n (v_recipes env) = Some r"
  shows "r_name r = n" "n \<noteq> []" "r_duration r \<noteq> 0" "0 \<le> per_tick_cost env r"
  using assms map_of_SomeD[of "recipes (v_recipes env)" n r]
  by (auto simp: recipes_good_def getRecipeById_def list_all_iff)

section \<open>Taking inputs and storing outputs\<close>

lemma length_take_input [simp]: "length (take_input i m n ss) = length ss"
  by (induction i m n ss rule: take_input.induct) auto

lemma amount_append [simp]: "amount k (xs @ ys) = amount k xs + amount k ys"
  by (simp add: amount_def)

lemma amount_append_take: "amount k (take n ss) + amount k (drop n ss) = amount k ss"
  by (metis amount_append append_take_drop_id)

lemma consume_start_paid:
  "length (consume_start n qs ss) = length ss \<and> drop n (consume_start n qs ss) = drop n ss \<and>
   amount k (take n (consume_start n qs ss)) = amount k (take n ss) - needed k qs"
proof (induction qs arbitrary: ss)
  case Nil
  then show ?case by (simp add: consume_start_def)
next
  case (Cons q qs)
  define t where "t = (if in_id q = 0 then take n ss else take_input (in_id q) (in_meta q) (in_count q) (take n ss))"
  have len: "length t = min (length ss) n" by (simp add: t_def)
  have step: "consume_start n (q # qs) ss = consume_start n qs (t @ drop n ss)"
    by (simp add: consume_start_def t_def)
  have tk: "take n (t @ drop n ss) = t" "drop n (t @ drop n ss) = drop n ss" "length (t @ drop n ss) = length ss"
    using len by (cases "n \<le> length ss"; simp)+
  have paid: "amount j t = amount j (take n ss) - needed j [q]" for j
    using amount_take_input[of j "in_id q" "in_meta q" "in_count q" "take n ss"]
    by (auto simp: t_def split: if_splits)
  show ?case using Cons.IH[of "t @ drop n ss"] paid[of k] unfolding step tk by simp
qed

text \<open>Units of an output: \<open>n\<close> of its item.\<close>

definition output_units :: "item_key \<Rightarrow> output_item \<Rightarrow> u8 \<Rightarrow> nat" where
  "output_units k q n = (if out_id q \<noteq> 0 \<and> (out_id q, out_meta q) = k then unat n else 0)"

lemma stack_into_amount:
  "stack_into q n ss = (n', ss') \<Longrightarrow> amount k ss' + output_units k q n' = amount k ss + output_units k q n \<and> length ss' = length ss \<and> n' \<le> n"
proof (induction q n ss arbitrary: n' ss' rule: stack_into.induct)
  case (2 q n s ss)
  consider "n = 0" | "n \<noteq> 0" "\<not> (item_id s = out_id q \<and> pmeta s = out_meta q \<and> cnt s < 64)"
    | "n \<noteq> 0" "item_id s = out_id q" "pmeta s = out_meta q" "cnt s < 64" by blast
  then show ?case
  proof cases
    case 1
    then show ?thesis using 2(3) by auto
  next
    case 2
    obtain m t where m: "stack_into q n ss = (m, t)" by (rule prod.exhaust)
    have "n' = m" "ss' = s # t" using 2 m "2.prems" by auto
    then show ?thesis using "2.IH"(2)[OF 2 m] by simp
  next
    case 3
    define a where "a = min n (64 - cnt s)"
    obtain m t where m: "stack_into q (n - a) ss = (m, t)" by (rule prod.exhaust)
    have out: "n' = m" "ss' = s\<lparr>cnt := cnt s + a\<rparr> # t" using 3 m "2.prems" by (auto simp: a_def Let_def)
    have IH: "amount k t + output_units k q m = amount k ss + output_units k q (n - a) \<and> length t = length ss \<and> m \<le> n - a"
      using "2.IH"(1)[of a m t] 3 m by (simp add: a_def)
    have c: "unat (cnt s) < 64" using 3(4) by (simp add: word_less_nat_alt)
    have "unat (64 - cnt s) = 64 - unat (cnt s)" using 3(4) by (subst unat_minus_le) (simp_all add: order_less_imp_le)
    then have ua: "unat a = min (unat n) (64 - unat (cnt s))" by (simp add: a_def unat_min_u8)
    then have le: "unat a \<le> unat n" by simp
    have "unat (n - a) = unat n - unat a" by (rule unat_minus_le) (simp add: a_def)
    moreover have "unat (cnt s + a) = unat (cnt s) + unat a" using ua c by (simp add: unat_word_ariths)
    moreover have "m \<le> n" using IH calculation(1) unfolding word_le_nat_alt by linarith
    ultimately show ?thesis
      using IH le 3 by (auto simp: out units_def output_units_def)
  qed
qed simp

lemma fill_into_amount:
  "fill_into q n ss = (n', ss') \<Longrightarrow> amount k ss' + output_units k q n' = amount k ss + output_units k q n \<and> length ss' = length ss \<and> n' \<le> n"
  by (induction q n ss arbitrary: n' ss' rule: fill_into.induct)
     (fastforce simp: units_def output_units_def split: if_splits prod.splits)+

lemma vacant_ids: "map item_id xs = map item_id ys \<Longrightarrow> vacant xs = vacant ys"
proof -
  assume m: "map item_id xs = map item_id ys"
  have "vacant zs = length (filter (\<lambda>n. n = 0) (map item_id zs))" for zs
    by (simp add: vacant_def filter_map o_def)
  then show ?thesis using m by metis
qed

lemma stack_into_rest:
  "stack_into q n ss = (n', ss') \<Longrightarrow> unat n' = unat n - room q ss \<and> map item_id ss' = map item_id ss"
proof (induction q n ss arbitrary: n' ss' rule: stack_into.induct)
  case (2 q n s ss)
  consider "n = 0" | "n \<noteq> 0" "\<not> (item_id s = out_id q \<and> pmeta s = out_meta q \<and> cnt s < 64)"
    | "n \<noteq> 0" "item_id s = out_id q" "pmeta s = out_meta q" "cnt s < 64" by blast
  then show ?case
  proof cases
    case 1
    then show ?thesis using 2(3) by auto
  next
    case 2
    obtain m t where m: "stack_into q n ss = (m, t)" by (rule prod.exhaust)
    have "n' = m" "ss' = s # t" using 2 m "2.prems" by auto
    moreover have "room q (s # ss) = room q ss" using 2(2) by (auto simp: room_def)
    ultimately show ?thesis using "2.IH"(2)[OF 2 m] by simp
  next
    case 3
    define a where "a = min n (64 - cnt s)"
    obtain m t where m: "stack_into q (n - a) ss = (m, t)" by (rule prod.exhaust)
    have out: "n' = m" "ss' = s\<lparr>cnt := cnt s + a\<rparr> # t" using 3 m "2.prems" by (auto simp: a_def Let_def)
    have IH: "unat m = unat (n - a) - room q ss \<and> map item_id t = map item_id ss"
      using "2.IH"(1)[of a m t] 3 m by (simp add: a_def)
    have c: "unat (cnt s) < 64" using 3(4) by (simp add: word_less_nat_alt)
    have "unat (64 - cnt s) = 64 - unat (cnt s)" using 3(4) by (subst unat_minus_le) (simp_all add: order_less_imp_le)
    then have ua: "unat a = min (unat n) (64 - unat (cnt s))" by (simp add: a_def unat_min_u8)
    have "unat (n - a) = unat n - unat a" by (rule unat_minus_le) (simp add: a_def)
    moreover have "room q (s # ss) = 64 - unat (cnt s) + room q ss" using 3 by (simp add: room_def)
    ultimately show ?thesis using IH ua by (auto simp: out min_def)
  qed
qed (simp add: room_def)

lemma fill_into_rest:
  "fill_into q n ss = (n', ss') \<Longrightarrow>
   n' = (if vacant ss = 0 then n else 0) \<and> (vacant ss = 0 \<longrightarrow> ss' = ss) \<and> vacant ss \<le> Suc (vacant ss')"
  by (induction q n ss arbitrary: n' ss' rule: fill_into.induct)
     (auto simp: vacant_def split: if_splits prod.splits)

text \<open>One output goes into the output slots as the specification says.\<close>

lemma store_output_stores: "stores v q ss (store_output (out_start v) (out_width v ss) q ss)"
proof (cases "out_count q = 0")
  case True
  then show ?thesis by (simp add: store_output_def stores_def gain_def)
next
  case False
  define si so where "si = out_start v" and "so = out_width v ss"
  define j where "j = min (si + so) (length ss) - si"
  define mid where "mid = take j (drop si ss)"
  obtain n1 m1 where 1: "stack_into q (out_count q) mid = (n1, m1)" by (rule prod.exhaust)
  obtain n2 m2 where 2: "fill_into q n1 m1 = (n2, m2)" by (rule prod.exhaust)
  define ss' where "ss' = take si ss @ m2 @ drop (si + j) ss"
  have e: "store_output si so q ss = ss'"
    using False 1 2 by (simp add: store_output_def Let_def j_def mid_def ss'_def)
  have len: "length m2 = length mid" using stack_into_amount[OF 1] fill_into_amount[OF 2] by simp
  have lm: "length mid = min so (length ss - si)" by (auto simp: mid_def j_def min_def)
  have mid: "mid = out_slots v ss" "drop (si + j) ss = drop (si + so) ss"
    by (auto simp: mid_def j_def out_slots_def si_def so_def min_def)
  have "length ss' = length ss" using len lm by (auto simp: ss'_def mid(2) min_def)
  moreover have "take si ss' = take si ss" using len lm by (cases "si \<le> length ss") (auto simp: ss'_def)
  moreover have "drop (si + so) ss' = drop (si + so) ss" using len lm by (auto simp: ss'_def mid(2) min_def split: if_splits)
  moreover have out: "out_slots v ss' = m2"
  proof -
    have "out_width v ss' = so" using calculation(1) by (simp add: so_def out_width_def split: option.split)
    then have "out_slots v ss' = take so (drop si ss')" by (simp add: out_slots_def si_def)
    also have "\<dots> = m2" using len lm by (auto simp: ss'_def mid(2) min_def split: if_splits)
    finally show ?thesis .
  qed
  moreover have "amount k m2 = amount k mid + (if out_id q \<noteq> 0 \<and> k = (out_id q, out_meta q) then gain q mid else 0)" for k
  proof -
    have "amount k m2 + output_units k q n2 = amount k mid + output_units k q (out_count q)" "n2 \<le> n1" "n1 \<le> out_count q"
      using stack_into_amount[OF 1, of k] fill_into_amount[OF 2, of k] by auto
    moreover have "unat n2 = (if vacant mid = 0 then unat (out_count q) - room q mid else 0)"
      using stack_into_rest[OF 1] fill_into_rest[OF 2] vacant_ids[of m1 mid] by simp
    ultimately show ?thesis by (auto simp: output_units_def gain_def min_def split: if_splits)
  qed
  moreover have "vacant mid \<le> Suc (vacant m2)"
    using stack_into_rest[OF 1] fill_into_rest[OF 2] vacant_ids[of m1 mid] by simp
  ultimately show ?thesis unfolding stores_def si_def[symmetric] so_def[symmetric] e mid(1)[symmetric] by (simp add: mid(1)[symmetric])
qed

lemma storesD:
  assumes "stores v q ss ss'"
  shows "length ss' = length ss" "take (out_start v) ss' = take (out_start v) ss"
    "drop (out_start v + out_width v ss) ss' = drop (out_start v + out_width v ss) ss"
    "amount k (out_slots v ss') =
       amount k (out_slots v ss) + (if out_id q \<noteq> 0 \<and> k = (out_id q, out_meta q) then gain q (out_slots v ss) else 0)"
    "vacant (out_slots v ss) \<le> Suc (vacant (out_slots v ss'))"
  using assms unfolding stores_def by blast+

lemma out_width_cong: "length ss' = length ss \<Longrightarrow> out_width v ss' = out_width v ss"
  by (simp add: out_width_def split: option.split)

lemma store_outputs_deliver:
  "delivers v qs ss (fold (store_output (out_start v) (out_width v ss)) qs ss)"
proof (induction qs arbitrary: ss)
  case Nil
  then show ?case by (simp add: None_left)
next
  case (Cons q qs)
  let ?t = "store_output (out_start v) (out_width v ss) q ss"
  have st: "stores v q ss ?t" by (rule store_output_stores)
  have "out_width v ?t = out_width v ss" by (rule out_width_cong[OF storesD(1)[OF st]])
  then show ?case using One_more[OF st] Cons.IH[of ?t] by simp
qed

text \<open>What the specification gives for the amounts in all slots.\<close>

lemma amount_outside:
  "amount k ss = amount k (take a ss) + amount k (take c (drop a ss)) + amount k (drop (a + c) ss)"
  by (metis amount_append_take drop_drop add.commute add.assoc)

lemma stores_amount:
  assumes "stores v q ss ss'"
  shows "amount k ss' = amount k ss + (if out_id q \<noteq> 0 \<and> k = (out_id q, out_meta q) then gain q (out_slots v ss) else 0)"
proof -
  note d = storesD[OF assms] and w = out_width_cong[OF storesD(1)[OF assms], of v]
  have "amount k (out_slots v ss') = amount k (take (out_width v ss) (drop (out_start v) ss'))" by (simp add: out_slots_def w)
  moreover have "amount k (out_slots v ss) = amount k (take (out_width v ss) (drop (out_start v) ss))" by (simp add: out_slots_def)
  ultimately show ?thesis
    using amount_outside[of k ss "out_start v" "out_width v ss"]
      amount_outside[of k ss' "out_start v" "out_width v ss", unfolded d(2,3)] d(4)[of k] by linarith
qed



text \<open>With an empty output slot per output nothing is dropped.\<close>

lemma delivers_all:
  "delivers v qs ss ss' \<Longrightarrow> length qs \<le> vacant (out_slots v ss) \<Longrightarrow>
   amount k ss' = amount k ss + sum_list (map (produced k) qs)"
proof (induction rule: delivers.induct)
  case (One_more q ss ss1 qs ss')
  then have "length qs \<le> vacant (out_slots v ss1)" by (simp add: stores_def)
  moreover have "amount k ss1 = amount k ss + produced k q"
    using One_more stores_amount[OF One_more(1), of k] by (auto simp: produced_def gain_def)
  ultimately show ?case using One_more.IH by simp
qed simp


section \<open>Frames\<close>

abbreviation ent :: "u64 \<Rightarrow> machine_world \<Rightarrow> entity option" where
  "ent i w \<equiv> um_find (w_reg w) i"

named_theorems frames "an operation on one entity leaves the others"

lemma find_upd_other [frames]: "i \<noteq> j \<Longrightarrow> um_find (upd j f R) i = um_find R i"
  by (simp add: upd_find)

lemma find_setters_other [frames]:
  "i \<noteq> j \<Longrightarrow> um_find (set_progress j p R) i = um_find R i"
  "i \<noteq> j \<Longrightarrow> um_find (set_energy j en R) i = um_find R i"
  "i \<noteq> j \<Longrightarrow> um_find (set_slots j ss R) i = um_find R i"
  by (simp_all add: set_progress_def set_energy_def set_slots_def frames)

lemma reg_output [simp]:
  "w_reg (emit ms w) = w_reg w" "w_reg (publishInventoryIfOpen env m w) = w_reg w"
  "w_reg (pushOutputToPipe env i si ss w) = w_reg w" "w_reg (publish_progress env i w) = w_reg w"
  "w_reg (publish_state env force i w) = w_reg w" "w_reg (steam_topup env i w) = w_reg w"
  "w_reg (request_energy env i r en w) = w_reg w" "w_reg (on_reg f w) = f (w_reg w)"
  by (auto simp: emit_def publishInventoryIfOpen_def pushOutputToPipe_def publish_progress_def publish_state_def
      steam_topup_def request_energy_def on_reg_def Let_def split: option.splits energy_type.splits)

lemma reserve_frames [frames]:
  "i \<noteq> j \<Longrightarrow> um_find (snd (reserve_cancel j (s, R))) i = um_find R i"
  "i \<noteq> j \<Longrightarrow> um_find (snd (snd (beginReservation pub j r now (s, R)))) i = um_find R i"
  "i \<noteq> j \<Longrightarrow> um_find (snd (snd (tickPending pub j now (s, R)))) i = um_find R i"
  by (auto simp: reserve_cancel_def beginReservation_def tickPending_def frames Let_def split: option.splits prod.splits)

text \<open>A look at an entity goes into every branch, and branches that agree collapse.\<close>

lemma ent_branches:
  "um_find (w_reg (if c then w1 else w2)) i = (if c then um_find (w_reg w1) i else um_find (w_reg w2) i)"
  "um_find (w_reg (case x of None \<Rightarrow> w1 | Some y \<Rightarrow> f y)) i =
   (case x of None \<Rightarrow> um_find (w_reg w1) i | Some y \<Rightarrow> um_find (w_reg (f y)) i)"
  "(case x of None \<Rightarrow> z | Some _ \<Rightarrow> z) = z"
  by (simp_all split: option.split)

lemmas frame_cong = if_cong option.case_cong

lemma commit_frame [frames]: "i \<noteq> j \<Longrightarrow> ent i (commitPendingCraft env j w) = ent i w"
  by (simp add: commitPendingCraft_def ent_branches frames Let_def case_prod_beta cong: frame_cong)

lemma orchestrated_frame [frames]: "i \<noteq> j \<Longrightarrow> ent i (tickOrchestratedStart env j r w) = ent i w"
  by (simp add: tickOrchestratedStart_def ent_branches frames Let_def case_prod_beta cong: frame_cong)

lemma start_frame [frames]: "i \<noteq> j \<Longrightarrow> ent i (start_recipe env j w) = ent i w"
  by (simp add: start_recipe_def ent_branches frames Let_def case_prod_beta cong: frame_cong)

lemma finish_frame [frames]: "i \<noteq> j \<Longrightarrow> ent i (finish_recipe env j m r p ss w) = ent i w"
  by (simp add: finish_recipe_def frames Let_def case_prod_beta)

lemma advance_frame [frames]: "i \<noteq> j \<Longrightarrow> ent i (advance_recipe env j w) = ent i w"
  by (simp add: advance_recipe_def ent_branches frames Let_def case_prod_beta cong: frame_cong)

text \<open>A pass over distinct entities acts on one entity as its loop body does, in some intermediate world.\<close>

lemma fold_absent:
  assumes "\<And>j w. i \<noteq> j \<Longrightarrow> ent i (f j w) = ent i w"
  shows "i \<notin> set js \<Longrightarrow> ent i (fold f js w) = ent i w"
proof (induction js arbitrary: w)
  case (Cons j js)
  then show ?case using assms[of j w] by auto
qed simp

lemma fold_local:
  assumes "distinct js" "\<And>j w. i \<noteq> j \<Longrightarrow> ent i (f j w) = ent i w"
  shows "i \<notin> set js \<and> ent i (fold f js w) = ent i w \<or> (\<exists>w1. ent i w1 = ent i w \<and> ent i (fold f js w) = ent i (f i w1))"
  using assms(1)
proof (induction js arbitrary: w)
  case (Cons j js)
  show ?case
  proof (cases "i = j")
    case True
    have "ent i (fold f js (f i w)) = ent i (f i w)"
      using Cons.prems True by (intro fold_absent assms(2)) auto
    then show ?thesis using True by auto
  next
    case False
    then show ?thesis using Cons.IH[of "f j w"] Cons.prems assms(2)[OF False, of w] by auto
  qed
qed simp

lemma view_distinct: "um_wf R \<Longrightarrow> distinct (view R)"
  by (simp add: view_def um_wf_def distinct_map_filter)

section \<open>What the loop bodies do to their entity\<close>

definition set_pending :: "pending_craft option \<Rightarrow> entity \<Rightarrow> entity" where
  "set_pending x e = e\<lparr>e_progress := map_option (\<lambda>p. p\<lparr>rp_pending := x\<rparr>) (e_progress e)\<rparr>"

lemma set_pending_abs [simp]: "abs_entity env (set_pending x e) = abs_entity env e"
  "entity_good env (set_pending x e) = entity_good env e" "e_machine (set_pending x e) = e_machine e"
  "regions_of env (set_pending x e) = regions_of env e"
  by (auto simp: abs_entity_def entity_good_def regions_of_def set_pending_def split: option.splits)

lemma set_pending_same: "Option.bind (e_progress e) rp_pending = x \<Longrightarrow> e_progress e \<noteq> None \<Longrightarrow> set_pending x e = e"
  by (auto simp: set_pending_def)

lemma progress_entity: "um_find R i = Some e \<Longrightarrow> progress_of_entity i R = e_progress e"
  by (simp add: progress_of_entity_def)

lemma set_progress_pending:
  "um_find R i = Some e \<Longrightarrow> e_progress e = Some p \<Longrightarrow>
   um_find (set_progress i (p\<lparr>rp_pending := x\<rparr>) R) i = Some (set_pending x e)"
  by (simp add: set_progress_def upd_find set_pending_def)

text \<open>The reservation operations change nothing but the pending craft, whose recipe a retry keeps.\<close>

lemma reserve_effects:
  assumes "um_find R i = Some e" "e_progress e = Some p"
  shows "um_find (snd (reserve_cancel i (s, R))) i = Some (set_pending None e)"
    "\<exists>x. um_find (snd (snd (beginReservation pub i r now (s, R)))) i = Some (set_pending x e)"
    "\<exists>x. um_find (snd (snd (tickPending pub i now (s, R)))) i = Some (set_pending x e) \<and>
      map_option pc_recipe x \<in> {None, map_option pc_recipe (rp_pending p)}"
proof -
  have same: "set_pending (rp_pending p) e = e" using assms(2) by (simp add: set_pending_def)
  have p: "progress_of_entity i R = Some p" using assms by (simp add: progress_entity)
  show c: "um_find (snd (reserve_cancel i (s, R))) i = Some (set_pending None e)"
    using p set_progress_pending[OF assms] by (simp add: reserve_cancel_def)
  show "\<exists>x. um_find (snd (snd (beginReservation pub i r now (s, R)))) i = Some (set_pending x e)"
    using p assms(1) same set_progress_pending[OF assms]
    by (auto simp: beginReservation_def Let_def split: prod.splits intro: exI[of _ "rp_pending p"])
  show "\<exists>x. um_find (snd (snd (tickPending pub i now (s, R)))) i = Some (set_pending x e) \<and>
      map_option pc_recipe x \<in> {None, map_option pc_recipe (rp_pending p)}"
  proof (cases "rp_pending p")
    case None
    then show ?thesis using p assms(1) same by (auto simp: tickPending_def intro!: exI[of _ "rp_pending p"])
  next
    case (Some pc)
    consider "snd (snd (tickPending pub i now (s, R))) = R" | "snd (snd (tickPending pub i now (s, R))) = snd (reserve_cancel i (s, R))"
      | c' where "snd (snd (tickPending pub i now (s, R))) = set_progress i (p\<lparr>rp_pending := Some c'\<rparr>) R" "pc_recipe c' = pc_recipe pc"
    proof -
      consider "pc_full pc" | "\<not> pc_full pc" "expired now pc \<or> pc_retry pc \<ge> kMaxRetries"
        | "\<not> pc_full pc" "\<not> (expired now pc \<or> pc_retry pc \<ge> kMaxRetries)" "\<not> retryDue now pc"
        | "\<not> pc_full pc" "\<not> (expired now pc \<or> pc_retry pc \<ge> kMaxRetries)" "retryDue now pc" by blast
      then show thesis
        using p Some that by cases (simp_all add: tickPending_def case_prod_beta Let_def)
    qed
    then show ?thesis
    proof cases
      case 1
      then show ?thesis using assms(1) same Some by (intro exI[of _ "rp_pending p"]) simp
    next
      case 2
      then show ?thesis using c by (intro exI[of _ None]) simp
    next
      case 3
      then show ?thesis using set_progress_pending[OF assms] Some by (intro exI[of _ "Some c'"]) simp
    qed
  qed
qed

text \<open>An idle machine that takes the inputs of a recipe and gets its progress.\<close>

lemma consume_start_pays:
  assumes "min n (length ss) = min (in_width v ss) (length ss)" "matches r (in_slots v ss)"
  shows "pays v r ss (consume_start n (r_inputs r) ss)"
proof -
  have cut: "take n xs = take (in_width v ss) xs \<and> drop n xs = drop (in_width v ss) xs" if "length xs = length ss" for xs :: "pslot list"
    using assms(1) that by (auto simp: min_def split: if_splits)
  let ?t = "consume_start n (r_inputs r) ss"
  have len: "length ?t = length ss" using consume_start_paid by blast
  have "in_width v ?t = in_width v ss" using len by (simp add: in_width_def split: option.split)
  then show ?thesis
    using assms(2) consume_start_paid[of n "r_inputs r" ss] cut[of ss] cut[OF len] len
    by (simp add: pays_def in_slots_def)
qed

lemma started:
  fixes x :: "pending_craft option"
  assumes "recipes_good env" "getRecipeById (r_name r) (v_recipes env) = Some r" "rp_recipe p = []"
    "e_slots e = Some ss" "e_progress e = Some p" "matches r (in_slots v ss)"
    "min n (length ss) = min (in_width v ss) (length ss)" "entity_good env e"
  defines "e' \<equiv> e\<lparr>e_slots := Some (consume_start n (r_inputs r) ss), e_progress := Some (start_progress r (p\<lparr>rp_pending := x\<rparr>))\<rparr>"
  shows "mstep env v (abs_entity env e) (abs_entity env e')" "entity_good env e'" "e_machine e' = e_machine e"
proof -
  note g = recipes_goodD[OF assms(1,2)]
  have "mstep env v (ss, (case e_energy e of None \<Rightarrow> 0 | Some en \<Rightarrow> es_current en), None)
      (consume_start n (r_inputs r) ss, (case e_energy e of None \<Rightarrow> 0 | Some en \<Rightarrow> es_current en),
       Some (r, unat (r_duration r)))"
    by (rule mstep.Start[OF assms(2) consume_start_pays[OF assms(7,6)]])
  then show "mstep env v (abs_entity env e) (abs_entity env e')"
    using assms(2-5) g by (simp add: abs_entity_def e'_def start_progress_def)
  show "entity_good env e'" using g assms(2,8) by (simp add: entity_good_def e'_def start_progress_def)
  show "e_machine e' = e_machine e" by (simp add: e'_def)
qed

definition effect :: "machine_env \<Rightarrow> u64 \<Rightarrow> entity \<Rightarrow> machine_world \<Rightarrow> bool" where
  "effect env i e w \<longleftrightarrow>
     (\<exists>e'. ent i w = Some e' \<and> entity_good env e' \<and> e_machine e' = e_machine e \<and>
       (mstep env (regions_of env e))\<^sup>*\<^sup>* (abs_entity env e) (abs_entity env e'))"

lemma effect_same:
  "ent i w = Some e' \<Longrightarrow> e_machine e' = e_machine e \<Longrightarrow> abs_entity env e' = abs_entity env e \<Longrightarrow> entity_good env e' \<Longrightarrow>
   effect env i e w"
  by (auto simp: effect_def)

lemma commit_effect:
  assumes "recipes_good env" "ent i w = Some e" "entity_good env e" "e_slots e = Some ss" "e_progress e = Some p"
    "rp_recipe p = []" "e_machine e = Some m" "rp_pending p = Some c" "getRecipeById (pc_recipe c) (v_recipes env) = Some r"
    "matches r (in_slots (v_slots env (mc_machine m)) ss)"
  shows "effect env i e (commitPendingCraft env i w)"
proof (cases "pc_full c")
  case False
  then have "commitPendingCraft env i w = w" using assms by (simp add: commitPendingCraft_def)
  then show ?thesis using effect_same[OF assms(2) refl refl assms(3)] by simp
next
  case True
  define n where "n = (case v_slots env (mc_machine m) of None \<Rightarrow> length ss | Some (si, _) \<Rightarrow> min (length ss) si)"
  have n: "min n (length ss) = min (in_width (v_slots env (mc_machine m)) ss) (length ss)"
    by (auto simp: n_def in_width_def min_def split: option.splits)
  have r: "getRecipeById (r_name r) (v_recipes env) = Some r" using recipes_goodD(1)[OF assms(1,9)] assms(9) by simp
  have v: "regions_of env e = v_slots env (mc_machine m)" using assms(7) by (simp add: regions_of_def)
  have "ent i (commitPendingCraft env i w) =
      Some (e\<lparr>e_slots := Some (consume_start n (r_inputs r) ss), e_progress := Some (start_progress r (p\<lparr>rp_pending := None\<rparr>))\<rparr>)"
    using assms(2,4,5,7,8,9) True
    by (simp add: commitPendingCraft_def n_def set_progress_def set_slots_def upd_find start_progress_def Let_def)
  then show ?thesis using started[OF assms(1) r assms(6,4,5,10) n assms(3), of None] by (auto simp: effect_def v)
qed

lemma effect_pending [simp]: "effect env i (set_pending x e) w = effect env i e w"
  by (simp add: effect_def)

lemma set_pending_twice [simp]: "set_pending y (set_pending x e) = set_pending y e"
  by (cases "e_progress e") (auto simp: set_pending_def)

lemma set_pending_fields:
  "e_slots (set_pending x e) = e_slots e" "e_machine (set_pending x e) = e_machine e"
  "e_energy (set_pending x e) = e_energy e"
  "e_progress e = Some p \<Longrightarrow> e_progress (set_pending x e) = Some (p\<lparr>rp_pending := x\<rparr>)"
  by (simp_all add: set_pending_def)

lemma orchestrated_effect:
  assumes "recipes_good env" "ent i w = Some e" "entity_good env e" "e_slots e = Some ss" "e_progress e = Some p"
    "rp_recipe p = []" "e_machine e = Some m" "getRecipeById (r_name r) (v_recipes env) = Some r"
    "matches r (in_slots (v_slots env (mc_machine m)) ss)"
  shows "effect env i e (tickOrchestratedStart env i r w)"
proof -
  define stale where "stale \<longleftrightarrow> (case rp_pending p of None \<Rightarrow> False | Some c \<Rightarrow> pc_recipe c \<noteq> r_name r)"
  define w1 where "w1 = (if stale then (let (s, R) = reserve_cancel i (w_res w, w_reg w) in w\<lparr>w_res := s, w_reg := R\<rparr>) else w)"
  obtain x where x: "ent i w1 = Some (set_pending x e)" "map_option pc_recipe x \<in> {None, Some (r_name r)}"
  proof (cases stale)
    case True
    then show thesis
      using that[of None] reserve_effects(1)[OF assms(2,5), of "w_res w"] by (simp add: w1_def case_prod_beta Let_def)
  next
    case False
    then show thesis
      using that[of "rp_pending p"] assms(2,5)
      by (auto simp: w1_def stale_def set_pending_def split: option.splits)
  qed
  define e1 where "e1 = set_pending x e"
  have e1: "ent i w1 = Some e1" "entity_good env e1" "e_progress e1 = Some (p\<lparr>rp_pending := x\<rparr>)"
    using x assms(3,5) by (simp_all add: e1_def set_pending_fields)
  have pend: "Option.bind (progress_of_entity i (w_reg w1)) rp_pending = x"
    using e1 by (simp add: progress_entity)
  have split: "tickOrchestratedStart env i r w =
      (if x = None then (let (_, s, R) = beginReservation (v_pub env) i r (w_total w1) (w_res w1, w_reg w1) in w1\<lparr>w_res := s, w_reg := R\<rparr>)
       else (let (alive, s, R) = tickPending (v_pub env) i (w_total w1) (w_res w1, w_reg w1); w2 = w1\<lparr>w_res := s, w_reg := R\<rparr>
             in if \<not> alive then w2
                else (case Option.bind (progress_of_entity i R) rp_pending of
                    Some c \<Rightarrow> if pc_full c then commitPendingCraft env i w2 else w2 | None \<Rightarrow> w2)))"
    unfolding pend[symmetric] using assms(2,5)
    by (simp add: tickOrchestratedStart_def w1_def stale_def progress_entity Let_def case_prod_beta)
  show ?thesis
  proof (cases x)
    case None
    obtain y where y: "um_find (snd (snd (beginReservation (v_pub env) i r (w_total w1) (w_res w1, w_reg w1)))) i = Some (set_pending y e1)"
      using reserve_effects(2)[OF e1(1,3)] by blast
    have "ent i (tickOrchestratedStart env i r w) = Some (set_pending y e1)"
      using y None by (simp add: split case_prod_beta Let_def)
    then show ?thesis by (rule effect_same) (simp_all add: e1_def assms(3))
  next
    case (Some c)
    define t where "t = tickPending (v_pub env) i (w_total w1) (w_res w1, w_reg w1)"
    define w2 where "w2 = w1\<lparr>w_res := fst (snd t), w_reg := snd (snd t)\<rparr>"
    obtain y where y: "um_find (snd (snd t)) i = Some (set_pending y e1)"
      "map_option pc_recipe y \<in> {None, map_option pc_recipe x}"
      using reserve_effects(3)[OF e1(1,3), where pub = "v_pub env" and now = "w_total w1" and s = "w_res w1"] by (auto simp: t_def)
    have w2: "ent i w2 = Some (set_pending y e)" using y by (simp add: w2_def e1_def)
    have keep: "effect env i e w2" by (rule effect_same[OF w2]) (simp_all add: assms(3))
    have pend2: "Option.bind (progress_of_entity i (snd (snd t))) rp_pending = y"
      using y(1) assms(5) by (simp add: progress_entity e1_def set_pending_fields)
    have go: "effect env i e (commitPendingCraft env i w2)" if "y = Some d" for d
    proof -
      have "pc_recipe d = r_name r" using that y(2) x(2) by auto
      then have d: "getRecipeById (pc_recipe d) (v_recipes env) = Some r" using assms(8) by simp
      have "effect env i (set_pending y e) (commitPendingCraft env i w2)"
        using assms(2-7,9) that
        by (intro commit_effect[OF assms(1) w2 _ _ _ _ _ _ d, where p = "p\<lparr>rp_pending := Some d\<rparr>"]) (simp_all add: set_pending_fields)
      then show ?thesis by simp
    qed
    have "tickOrchestratedStart env i r w =
        (if \<not> fst t then w2 else (case y of Some c \<Rightarrow> if pc_full c then commitPendingCraft env i w2 else w2 | None \<Rightarrow> w2))"
      using Some pend2 by (simp add: split case_prod_beta Let_def t_def[symmetric] w2_def cong: frame_cong)
    then show ?thesis using keep go by (simp split: option.split)
  qed
qed

lemma parts_entity:
  "parts i R = Some (m, p, ss, en) \<Longrightarrow> um_find R i = Some e \<Longrightarrow>
   e_machine e = Some m \<and> e_progress e = Some p \<and> e_slots e = Some ss \<and> e_energy e = Some en"
  by (auto simp: parts_def split: option.splits)

lemma find_recipe_facts:
  assumes "recipes_good env" "find_recipe env mid items = Some r"
  shows "getRecipeById (r_name r) (v_recipes env) = Some r" "matches r items"
proof -
  from assms(2) obtain c ns where l: "best_loop (v_recipes env) mid items ns (- 1, None) = Some (Some r)"
    by (auto simp: find_recipe_def findRecipeByInputs_def bind_eq_Some_conv split: option.splits)
  obtain n where n: "um_find (recipes (v_recipes env)) n = Some r" "candidate (v_recipes env) mid items r"
    using best_loop_facts[OF l] by auto
  note g = recipes_goodD[OF assms(1), of n r]
  show "getRecipeById (r_name r) (v_recipes env) = Some r" using n g by (simp add: getRecipeById_def)
  show "matches r items" using n by (simp add: candidate_def)
qed

lemma start_effect:
  assumes "recipes_good env" "ent i w = Some e" "entity_good env e"
  shows "effect env i e (start_recipe env i w)"
proof (cases "parts i (w_reg w)")
  case None
  then show ?thesis using effect_same[OF assms(2) refl refl assms(3)] by (simp add: start_recipe_def)
next
  case (Some t)
  obtain m p ss en where t: "parts i (w_reg w) = Some (m, p, ss, en)" using Some by (metis prod_cases4)
  note e = parts_entity[OF t assms(2)]
  obtain si so where slots: "(case v_slots env (mc_machine m) of None \<Rightarrow> (length ss, 0) | Some x \<Rightarrow> x) = (si, so)"
    by (rule prod.exhaust)
  define skip where "skip \<longleftrightarrow> mc_external m \<or> rp_recipe p \<noteq> [] \<or>
     (case Option.bind (um_find (w_reg w) i) e_overheat of None \<Rightarrow> False | Some s \<Rightarrow> s \<noteq> OH_NONE) \<or>
     rp_needs_output p \<and> \<not> list_all (\<lambda>s. item_id s = 0) (take (min (si + so) (length ss) - si) (drop si ss))"
  define p1 where "p1 = p\<lparr>rp_needs_output := False\<rparr>"
  define w1 where "w1 = on_reg (set_progress i p1) w"
  define e1 where "e1 = e\<lparr>e_progress := Some p1\<rparr>"
  have split: "start_recipe env i w =
      (if skip then w
       else case find_recipe env (mc_machine m) (take si ss) of None \<Rightarrow> w1
         | Some r \<Rightarrow>
             if \<not> evaluateConditions (r_name r) (stateOf i (w_reg w1)) (v_recipes env) then w1
             else if v_reserve env \<and> needsReservation r then tickOrchestratedStart env i r w1
             else on_reg (set_progress i (start_progress r p1))
                    (publishInventoryIfOpen env m (on_reg (set_slots i (consume_start si (r_inputs r) ss)) w1)))"
    unfolding start_recipe_def t option.case prod.case Let_def slots skip_def p1_def w1_def by (simp; blast)
  show ?thesis
  proof (cases skip)
    case True
    then show ?thesis using effect_same[OF assms(2) refl refl assms(3)] by (simp add: split)
  next
    case False
    have idle: "rp_recipe p1 = []" using False by (simp add: skip_def p1_def)
    have w1: "ent i w1 = Some e1" using assms(2) by (simp add: w1_def e1_def set_progress_def upd_find)
    have same: "abs_entity env e1 = abs_entity env e" "entity_good env e1" "e_progress e1 = Some p1" "e_slots e1 = Some ss" "e_machine e1 = Some m"
      using e assms(3) by (auto simp: abs_entity_def entity_good_def e1_def p1_def)
    have keep: "effect env i e w1" using e same(5) by (intro effect_same[OF w1 _ same(1,2)]) simp
    show ?thesis
    proof (cases "find_recipe env (mc_machine m) (take si ss)")
      case None
      then show ?thesis using False keep by (simp add: split)
    next
      case (Some r)
      note r = find_recipe_facts[OF assms(1) Some]
      have v: "regions_of env e = v_slots env (mc_machine m)" "regions_of env e1 = v_slots env (mc_machine m)"
        using e same(5) by (simp_all add: regions_of_def)
      have si: "in_width (v_slots env (mc_machine m)) ss = si"
        using slots by (auto simp: in_width_def split: option.splits)
      have match: "matches r (in_slots (v_slots env (mc_machine m)) ss)" using r(2) by (simp add: in_slots_def si)
      have "effect env i e1 (tickOrchestratedStart env i r w1)"
        by (rule orchestrated_effect[OF assms(1) w1 same(2,4,3) idle same(5) r(1) match])
      then have orch: "effect env i e (tickOrchestratedStart env i r w1)" using same(1,5) e v by (simp add: effect_def)
      let ?w2 = "on_reg (set_progress i (start_progress r p1))
          (publishInventoryIfOpen env m (on_reg (set_slots i (consume_start si (r_inputs r) ss)) w1))"
      have w2: "ent i ?w2 = Some (e1\<lparr>e_slots := Some (consume_start si (r_inputs r) ss),
          e_progress := Some (start_progress r (p1\<lparr>rp_pending := rp_pending p1\<rparr>))\<rparr>)"
        using w1 by (simp add: set_progress_def set_slots_def upd_find)
      have "effect env i e ?w2"
        using started[OF assms(1) r(1) idle same(4,3) match _ same(2), of si "rp_pending p1"] w2 same(1,5) e v(1)
        by (simp add: effect_def si r_into_rtranclp)
      then show ?thesis using False Some keep orch by (simp add: split)
    qed
  qed
qed

section \<open>Advancing\<close>

lemma sub_sat_enough: "0 \<le> b \<Longrightarrow> b \<le> a \<Longrightarrow> sub_sat a b = a - b"
  by (auto simp: sub_sat_def int32_min_def)

lemma finish_entity:
  assumes "ent i w = Some e"
  shows "\<exists>f. ent i (finish_recipe env i m r p ss w) =
     Some (e\<lparr>e_slots := Some (fold (store_output (out_start (v_slots env (mc_machine m))) (out_width (v_slots env (mc_machine m)) ss))
         (r_outputs r) ss), e_fluid := f,
       e_progress := Some (p\<lparr>rp_processing := False, rp_needs_output := True, rp_recipe := []\<rparr>)\<rparr>)"
  using assms
  by (intro exI[of _ "credit_fluids (r_fluid_out r) (e_fluid e)"])
     (simp add: finish_recipe_def out_start_def out_width_def case_prod_beta Let_def set_progress_def set_slots_def upd_find
       split: option.split)

text \<open>A tick that a running machine can pay.\<close>

lemma advance_works:
  assumes "recipes_good env" "ent i w = Some e" "entity_good env e" "parts i (w_reg w) = Some (m, p, ss, en)"
    "\<not> mc_external m" "rp_recipe p \<noteq> []"
    "overheat_gate (Option.bind (um_find (w_reg w) i) e_overheat) (Option.bind (um_find (w_reg w) i) e_slow) = (True, slow)"
    "getRecipeById (rp_recipe p) (v_recipes env) = Some r" "per_tick_cost env r \<le> es_current en"
  shows "\<exists>e'. ent i (advance_recipe env i w) = Some e' \<and> entity_good env e' \<and> mstep env (regions_of env e) (abs_entity env e) (abs_entity env e') \<and>
    e_machine e' = e_machine e \<and> e_overheat e' = e_overheat e \<and> e_progress e' \<noteq> None \<and> e_slots e' \<noteq> None \<and> e_energy e' \<noteq> None"
proof -
  note e = parts_entity[OF assms(4,2)] and g = recipes_goodD[OF assms(1,8)]
  define w1 where "w1 = on_reg (upd i (\<lambda>e. e\<lparr>e_slow := slow\<rparr>)) w"
  have w1: "ent i w1 = Some (e\<lparr>e_slow := slow\<rparr>)" using assms(2) by (simp add: w1_def upd_find)
  define en' where "en' = en\<lparr>es_current := sub_sat (es_current en) (per_tick_cost env r)\<rparr>"
  define p' where "p' = p\<lparr>rp_remaining := rp_remaining p - 1\<rparr>"
  define w2 where "w2 = on_reg (set_progress i p' \<circ> set_energy i en') w1"
  define w3 where "w3 = (if v_pipe env then emit [EnergyNode i (es_current en') (es_capacity en) (es_type en)] w2 else w2)"
  have split: "advance_recipe env i w =
      publish_progress env i (if rp_remaining p' = 0 then finish_recipe env i m r p' ss w3 else w3)"
    unfolding advance_recipe_def assms(4) option.case prod.case Let_def assms(7) w3_def w2_def w1_def en'_def p'_def
    using assms(5,6,8,9) by simp
  have cur: "es_current en' = es_current en - per_tick_cost env r" "es_capacity en' = es_capacity en"
    using assms(9) g(4) by (simp_all add: en'_def sub_sat_enough)
  define e2 where "e2 = e\<lparr>e_slow := slow, e_energy := Some en', e_progress := Some p'\<rparr>"
  have w3: "ent i w3 = Some e2"
    using w1 by (simp add: w3_def w2_def e2_def set_progress_def set_energy_def upd_find)
  have en: "energy_ok (Some en')"
    using assms(3,9) e g(4) cur by (simp add: entity_good_def energy_ok_def)
  have pos: "0 < unat (rp_remaining p)" using assms(3,6) e by (simp add: entity_good_def unat_gt_0)
  have dec: "unat (rp_remaining p') = unat (rp_remaining p) - 1"
    using pos by (simp add: p'_def unat_minus_one unat_gt_0)
  have a: "abs_entity env e = (ss, es_current en, Some (r, unat (rp_remaining p)))"
    using e assms(6,8) by (simp add: abs_entity_def)
  define v where "v = regions_of env e"
  have v: "v_slots env (mc_machine m) = v" using e by (simp add: v_def regions_of_def)
  show ?thesis
  proof (cases "rp_remaining p' = 0")
    case True
    then have one: "unat (rp_remaining p) = 1" using pos dec by simp
    let ?ss = "fold (store_output (out_start v) (out_width v ss)) (r_outputs r) ss"
    obtain f where n: "ent i (finish_recipe env i m r p' ss w3) =
        Some (e2\<lparr>e_slots := Some ?ss, e_fluid := f,
          e_progress := Some (p'\<lparr>rp_processing := False, rp_needs_output := True, rp_recipe := []\<rparr>)\<rparr>)"
      using finish_entity[OF w3, of env m r p' ss] unfolding v by blast
    let ?e = "e2\<lparr>e_slots := Some ?ss, e_fluid := f,
          e_progress := Some (p'\<lparr>rp_processing := False, rp_needs_output := True, rp_recipe := []\<rparr>)\<rparr>"
    have "mstep env v (ss, es_current en, Some (r, 1)) (?ss, es_current en - per_tick_cost env r, None)"
      using assms(9) store_outputs_deliver by (rule mstep.Finish)
    then have "mstep env v (abs_entity env e) (abs_entity env ?e)"
      unfolding a one by (simp add: abs_entity_def e2_def cur)
    moreover have "entity_good env ?e" using en by (simp add: entity_good_def e2_def)
    ultimately show ?thesis using n True by (auto simp: split e2_def v_def)
  next
    case more: False
    have "mstep env v (ss, es_current en, Some (r, unat (rp_remaining p)))
       (ss, es_current en - per_tick_cost env r, Some (r, unat (rp_remaining p) - 1))"
      using assms(9) more dec by (intro mstep.Work) (auto simp: unat_eq_zero[symmetric] intro: ccontr)
    moreover have "rp_recipe p' = rp_recipe p" by (simp add: p'_def)
    ultimately have "mstep env v (abs_entity env e) (abs_entity env e2)"
      unfolding a using e assms(6,8) dec by (simp add: abs_entity_def e2_def cur)
    moreover have "entity_good env e2" using en more assms(8) by (simp add: entity_good_def e2_def p'_def)
    ultimately show ?thesis using w3 more e by (auto simp: split e2_def v_def)
  qed
qed

lemma advance_effect:
  assumes "recipes_good env" "ent i w = Some e" "entity_good env e"
  shows "effect env i e (advance_recipe env i w)"
proof (cases "parts i (w_reg w)")
  case None
  then show ?thesis using effect_same[OF assms(2) refl refl assms(3)] by (simp add: advance_recipe_def)
next
  case (Some t)
  obtain m p ss en where t: "parts i (w_reg w) = Some (m, p, ss, en)" using Some by (metis prod_cases4)
  note e = parts_entity[OF t assms(2)]
  obtain runs slow where gate:
    "overheat_gate (Option.bind (um_find (w_reg w) i) e_overheat) (Option.bind (um_find (w_reg w) i) e_slow) = (runs, slow)"
    by (rule prod.exhaust)
  define w1 where "w1 = on_reg (upd i (\<lambda>e. e\<lparr>e_slow := slow\<rparr>)) w"
  have w1: "ent i w1 = Some (e\<lparr>e_slow := slow\<rparr>)" using assms(2) by (simp add: w1_def upd_find)
  have keep: "effect env i e w2" if "w_reg w2 = w_reg w1" for w2
    using assms(3) w1 that by (intro effect_same[where e' = "e\<lparr>e_slow := slow\<rparr>"]) (simp_all add: abs_entity_def entity_good_def)
  show ?thesis
  proof (cases "mc_external m \<or> rp_recipe p = [] \<or> \<not> runs")
    case True
    then have "advance_recipe env i w \<in> {w, w1}"
      using t gate by (auto simp: advance_recipe_def w1_def Let_def)
    then show ?thesis using effect_same[OF assms(2) refl refl assms(3)] keep by auto
  next
    case False
    obtain r where r: "getRecipeById (rp_recipe p) (v_recipes env) = Some r"
      using False assms(3) e by (auto simp: entity_good_def)
    show ?thesis
    proof (cases "es_current en < per_tick_cost env r")
      case True
      then have "advance_recipe env i w = request_energy env i r en w1"
        unfolding advance_recipe_def t option.case prod.case Let_def gate w1_def using False r by simp
      then show ?thesis using keep by simp
    next
      case rich: False
      then have "overheat_gate (Option.bind (um_find (w_reg w) i) e_overheat) (Option.bind (um_find (w_reg w) i) e_slow) = (True, slow)"
        using False gate by simp
      from advance_works[OF assms t _ _ this r] rich False show ?thesis by (auto simp: effect_def)
    qed
  qed
qed

section \<open>The tick\<close>

lemma effect_trans:
  assumes "ent i w1 = Some e" "effect env i e0 w1" "\<And>e. ent i w1 = Some e \<Longrightarrow> entity_good env e \<Longrightarrow> effect env i e w2"
  shows "effect env i e0 w2"
proof -
  have 1: "entity_good env e" "e_machine e = e_machine e0" "(mstep env (regions_of env e0))\<^sup>*\<^sup>* (abs_entity env e0) (abs_entity env e)"
    using assms(1,2) by (auto simp: effect_def)
  then have "regions_of env e = regions_of env e0" by (simp add: regions_of_def)
  then show ?thesis using assms(3)[OF assms(1) 1(1)] 1 by (auto simp: effect_def intro: rtranclp_trans)
qed

lemma pass_effect:
  assumes "um_wf (w_reg w)" "ent i w = Some e" "entity_good env e"
    "\<And>j w. i \<noteq> j \<Longrightarrow> ent i (f j w) = ent i w"
    "\<And>w. ent i w = Some e \<Longrightarrow> effect env i e (f i w)"
  shows "effect env i e (fold f (view (w_reg w)) w)"
  using fold_local[where f = f and i = i, OF view_distinct[OF assms(1)] assms(4), of w]
  by (metis assms(2,3,5) effect_def rtranclp.rtrancl_refl)

lemma um_wf_setters [simp]:
  "um_wf R \<Longrightarrow> um_wf (upd i f R)"
  "um_wf R \<Longrightarrow> um_wf (set_progress i p R)" "um_wf R \<Longrightarrow> um_wf (set_energy i en R)" "um_wf R \<Longrightarrow> um_wf (set_slots i ss R)"
  by (auto simp: upd_def set_progress_def set_energy_def set_slots_def um_simps split: option.split)

lemma reserve_wf [simp]:
  assumes "um_wf R"
  shows "um_wf (snd (reserve_cancel j (s, R)))" "um_wf (snd (snd (beginReservation pub j r now (s, R))))"
    "um_wf (snd (snd (tickPending pub j now (s, R))))"
  using assms
  by (auto simp: reserve_cancel_def beginReservation_def tickPending_def Let_def case_prod_beta split: option.split)

lemma wf_branches:
  "um_wf (w_reg (if c then w1 else w2)) \<longleftrightarrow> (if c then um_wf (w_reg w1) else um_wf (w_reg w2))"
  "um_wf (w_reg (case x of None \<Rightarrow> w1 | Some y \<Rightarrow> f y)) \<longleftrightarrow>
   (case x of None \<Rightarrow> um_wf (w_reg w1) | Some y \<Rightarrow> um_wf (w_reg (f y)))"
  by (simp_all split: option.split)

lemma commit_wf: "um_wf (w_reg w) \<Longrightarrow> um_wf (w_reg (commitPendingCraft env j w))"
  by (simp add: commitPendingCraft_def wf_branches ent_branches Let_def case_prod_beta cong: frame_cong)

lemma orchestrated_wf: "um_wf (w_reg w) \<Longrightarrow> um_wf (w_reg (tickOrchestratedStart env j r w))"
  by (simp add: tickOrchestratedStart_def wf_branches ent_branches commit_wf Let_def case_prod_beta cong: frame_cong)

lemma start_wf: "um_wf (w_reg w) \<Longrightarrow> um_wf (w_reg (start_recipe env j w))"
  by (simp add: start_recipe_def wf_branches ent_branches orchestrated_wf Let_def case_prod_beta cong: frame_cong)

lemma advance_wf: "um_wf (w_reg w) \<Longrightarrow> um_wf (w_reg (advance_recipe env j w))"
  by (simp add: advance_recipe_def finish_recipe_def wf_branches ent_branches Let_def case_prod_beta cong: frame_cong)

lemma fold_wf: "(\<And>j w. um_wf (w_reg w) \<Longrightarrow> um_wf (w_reg (f j w))) \<Longrightarrow> um_wf (w_reg w) \<Longrightarrow> um_wf (w_reg (fold f js w))"
  by (induction js arbitrary: w) simp_all

lemma fold_reg: "(\<And>j w. w_reg (f j w) = w_reg w) \<Longrightarrow> w_reg (fold f js w) = w_reg w"
  by (induction js arbitrary: w) simp_all

text \<open>The passes that write messages only, and the two that work, of a tick.\<close>

lemma tick_passes:
  obtains w0 w1 where "w_reg w0 = w_reg w" "w_reg w1 = w_reg (fold (start_recipe env) (view (w_reg w0)) w0)"
    "machine_tick env w = fold (advance_recipe env) (view (w_reg w1)) w1"
proof -
  define f where "f = (w_counter w + 1 \<ge> kForcePublishInterval \<or> w_startup w > 0)"
  define wa where "wa = w\<lparr>w_total := w_total w + 1, w_counter := (if w_counter w + 1 \<ge> kForcePublishInterval then 0 else w_counter w + 1),
       w_startup := (if w_startup w > 0 then w_startup w - 1 else w_startup w)\<rparr>"
  define w0 where "w0 = fold (publish_state env f) (view (w_reg wa)) wa"
  define ws where "ws = fold (start_recipe env) (view (w_reg w0)) w0"
  define w1 where "w1 = fold (steam_topup env) (view (w_reg ws)) ws"
  have "w_reg w0 = w_reg w" by (simp add: w0_def wa_def fold_reg)
  moreover have "w_reg w1 = w_reg ws" by (simp add: w1_def fold_reg)
  moreover have "machine_tick env w = fold (advance_recipe env) (view (w_reg w1)) w1"
    by (simp add: machine_tick_def Let_def f_def wa_def w0_def ws_def w1_def)
  ultimately show thesis using that by (simp add: ws_def)
qed

lemma tick_effect:
  assumes "recipes_good env" "um_wf (w_reg w)" "ent i w = Some e" "entity_good env e"
  shows "effect env i e (machine_tick env w)" "um_wf (w_reg (machine_tick env w))"
proof -
  obtain w0 w1 where p: "w_reg w0 = w_reg w" "w_reg w1 = w_reg (fold (start_recipe env) (view (w_reg w0)) w0)"
    "machine_tick env w = fold (advance_recipe env) (view (w_reg w1)) w1"
    by (rule tick_passes)
  have "effect env i e (fold (start_recipe env) (view (w_reg w0)) w0)"
    using assms p(1) by (intro pass_effect) (simp_all add: frames start_effect)
  then have 1: "effect env i e w1" using p(2) by (simp add: effect_def)
  have wf: "um_wf (w_reg w1)" using assms(2) p(1,2) by (simp add: fold_wf start_wf)
  obtain e1 where e1: "ent i w1 = Some e1" using 1 by (auto simp: effect_def)
  have "effect env i e' (machine_tick env w)" if "ent i w1 = Some e'" "entity_good env e'" for e'
    unfolding p(3) using assms(1) wf that by (intro pass_effect) (simp_all add: frames advance_effect)
  then show "effect env i e (machine_tick env w)" by (rule effect_trans[OF e1 1])
  show "um_wf (w_reg (machine_tick env w))" unfolding p(3) using wf by (simp add: fold_wf advance_wf)
qed

section \<open>Answers\<close>





text \<open>An answer changes the energy of an entity only, by at most what it says.\<close>

definition credited :: "machine_env \<Rightarrow> int \<Rightarrow> entity \<Rightarrow> entity \<Rightarrow> bool" where
  "credited env n e e' \<longleftrightarrow> (entity_good env e \<longrightarrow> entity_good env e' \<and>
     fst (abs_entity env e') = fst (abs_entity env e) \<and> snd (snd (abs_entity env e')) = snd (snd (abs_entity env e)) \<and>
     fst (snd (abs_entity env e)) \<le> fst (snd (abs_entity env e')) \<and>
     fst (snd (abs_entity env e')) \<le> fst (snd (abs_entity env e)) + n \<and> e_machine e' = e_machine e)"

lemma credited_refl [simp]: "0 \<le> n \<Longrightarrow> credited env n e e"
  by (simp add: credited_def)










section \<open>The books of a machine\<close>














section \<open>A machine that has the energy\<close>

lemma parts_viewed: "parts i R \<noteq> None \<Longrightarrow> i \<in> set (view R)"
proof -
  assume p: "parts i R \<noteq> None"
  then have "um_find R i \<noteq> None" by (cases "um_find R i") (simp_all add: parts_def)
  then obtain e where "(i, e) \<in> set R" by (auto dest: map_of_SomeD)
  then show ?thesis using p by (force simp: view_def)
qed

lemma parts_local: "um_find R i = um_find R' i \<Longrightarrow> parts i R = parts i R'"
  by (simp add: parts_def)

lemma gate_open: "oh \<in> {None, Some OH_NONE} \<Longrightarrow> \<exists>slow'. overheat_gate oh slow = (True, slow')"
  by (auto simp: overheat_gate_def)

definition running :: "entity \<Rightarrow> bool" where
  "running e \<longleftrightarrow> e_machine e \<noteq> None \<and> e_slots e \<noteq> None \<and> e_energy e \<noteq> None \<and> e_overheat e \<in> {None, Some OH_NONE} \<and>
     (case e_machine e of None \<Rightarrow> False | Some m \<Rightarrow> \<not> mc_external m) \<and> e_progress e \<noteq> None"

lemma tick_works:
  assumes "recipes_good env" "um_wf (w_reg w)" "ent i w = Some e" "entity_good env e" "running e"
    "e_progress e = Some p" "rp_recipe p \<noteq> []" "getRecipeById (rp_recipe p) (v_recipes env) = Some r"
    "e_energy e = Some en" "per_tick_cost env r \<le> es_current en"
  shows "\<exists>e'. ent i (machine_tick env w) = Some e' \<and> entity_good env e' \<and> running e' \<and> e_machine e' = e_machine e \<and>
    mstep env (regions_of env e) (abs_entity env e) (abs_entity env e')"
proof -
  obtain w0 w1 where passes: "w_reg w0 = w_reg w" "w_reg w1 = w_reg (fold (start_recipe env) (view (w_reg w0)) w0)"
    "machine_tick env w = fold (advance_recipe env) (view (w_reg w1)) w1"
    by (rule tick_passes)
  obtain m ss where ms: "e_machine e = Some m" "e_slots e = Some ss" "\<not> mc_external m"
    using assms(5) by (auto simp: running_def split: option.splits)
  have parts: "um_find R i = Some e \<Longrightarrow> parts i R = Some (m, p, ss, en)" for R
    using ms assms(6,9) by (simp add: parts_def)
  have start: "ent i w' = Some e \<Longrightarrow> ent i (start_recipe env i w') = Some e" for w'
    using parts[of "w_reg w'"] assms(7) by (simp add: start_recipe_def)
  have e1: "ent i w1 = Some e"
  proof -
    have "distinct (view (w_reg w0))" using assms(2) passes(1) by (simp add: view_distinct)
    from fold_local[OF this, where f = "start_recipe env" and i = i and w = w0] show ?thesis
      using assms(3) passes(1,2) start by (auto simp: start_frame)
  qed
  have "distinct (view (w_reg w1))" "i \<in> set (view (w_reg w1))"
    using assms(2) passes parts_viewed[of i "w_reg w1"] parts[OF e1] by (auto simp: view_distinct fold_wf start_wf)
  then obtain w2 where w2: "ent i w2 = Some e" "ent i (machine_tick env w) = ent i (advance_recipe env i w2)"
    using fold_local[of "view (w_reg w1)" i "advance_recipe env" w1] e1 by (auto simp: advance_frame passes(3))
  obtain slow where "overheat_gate (Option.bind (um_find (w_reg w2) i) e_overheat) (Option.bind (um_find (w_reg w2) i) e_slow) = (True, slow)"
    using gate_open[of "e_overheat e" "e_slow e"] assms(5) w2(1) by (auto simp: running_def)
  from advance_works[OF assms(1) w2(1) assms(4) parts[OF w2(1)] ms(3) assms(7) this assms(8,10)]
  show ?thesis using w2(2) assms(5) by (auto simp: running_def)
qed

lemma ticks_work:
  assumes "recipes_good env"
  shows "um_wf (w_reg w) \<Longrightarrow> ent i w = Some e \<Longrightarrow> entity_good env e \<Longrightarrow> running e \<Longrightarrow>
    abs_entity env e = (ss, c, Some (r, n)) \<Longrightarrow> int n * per_tick_cost env r \<le> c \<Longrightarrow>
    \<exists>e' ss'. ent i ((machine_tick env ^^ n) w) = Some e' \<and> delivers (regions_of env e) (r_outputs r) ss ss' \<and>
      abs_entity env e' = (ss', c - int n * per_tick_cost env r, None)"
proof (induction n arbitrary: w e c)
  case 0
  then show ?case by (auto simp: abs_entity_def entity_good_def unat_eq_zero split: option.splits if_splits)
next
  case (Suc n)
  obtain p en where p: "e_progress e = Some p" "rp_recipe p \<noteq> []" "getRecipeById (rp_recipe p) (v_recipes env) = Some r"
    "e_energy e = Some en" "es_current en = c"
    using Suc.prems(4,5) by (auto simp: abs_entity_def running_def split: option.splits if_splits)
  have cost: "per_tick_cost env r \<le> c"
  proof -
    have "0 \<le> int n * per_tick_cost env r" using recipes_goodD(4)[OF assms p(3)] by simp
    then show ?thesis using Suc.prems(6) by (simp add: algebra_simps)
  qed
  obtain e1 where e1: "ent i (machine_tick env w) = Some e1" "entity_good env e1" "running e1" "e_machine e1 = e_machine e"
    "mstep env (regions_of env e) (ss, c, Some (r, Suc n)) (abs_entity env e1)"
    using tick_works[OF assms Suc.prems(1-4) p(1-4)] cost p(5) Suc.prems(5) by auto
  have wf: "um_wf (w_reg (machine_tick env w))" by (rule tick_effect(2)[OF assms Suc.prems(1-3)])
  have shift: "(machine_tick env ^^ Suc n) w = (machine_tick env ^^ n) (machine_tick env w)" by (simp add: funpow_swap1)
  have v: "regions_of env e1 = regions_of env e" using e1(4) by (simp add: regions_of_def)
  from e1(5) show ?case
  proof cases
    case Work
    then have "abs_entity env e1 = (ss, c - per_tick_cost env r, Some (r, n))" by simp
    from Suc.IH[OF wf e1(1-3) this] Suc.prems(6) show ?thesis unfolding shift v by (simp add: algebra_simps)
  next
    case (Finish ss')
    then show ?thesis using e1(1) by (auto simp: shift)
  qed
qed

section \<open>Properties\<close>

text \<open>C3: a tick of the whole world is, seen from each machine, a run of the abstract machine: nothing happens,
  or an idle machine takes the inputs of a recipe of the table that matches its input slots and starts it, or a busy
  machine pays the energy of one tick, or of the last tick and gets the outputs: each one arrives in the output slots
  in full when one of them is empty, otherwise as much as fits on the stacks of its item. No other machine, no
  reservation and no message changes it, and its energy stays within its capacity. The recipe table is one the
  loader can make: recipes, with or without a pattern, under their non-empty names, with positive durations and
  costs that are not negative.\<close>

theorem machine_tick_refines:
  assumes "recipes_good env" "um_wf (w_reg w)" "um_find (w_reg w) i = Some e" "entity_good env e"
  shows "\<exists>e'. um_find (w_reg (machine_tick env w)) i = Some e' \<and> entity_good env e' \<and>
    (mstep env (regions_of env e))\<^sup>*\<^sup>* (abs_entity env e) (abs_entity env e')"
  using tick_effect(1)[OF assms] by (auto simp: effect_def)

text \<open>A table with a machine recipe and a recipe of the crafting table, which has a pattern.\<close>

definition table_recipe :: recipe where
  "table_recipe = plate_recipe\<lparr>r_name := ''table'', r_class := ''crafting_table'',
     r_pattern := Some ([stack_of 5 1, stack_of 5 1, no_slot, stack_of 5 1, stack_of 5 1] @ replicate 4 no_slot)\<rparr>"

definition press_env :: machine_env where
  "press_env =
     \<lparr>v_recipes = store_recipe table_recipe press_manager, v_slots = (\<lambda>_. Some (1, 1)), v_pipe = True, v_item = False, v_fluid = False,
      v_reserve = False, v_windows = False, v_steam = 0, v_pub = (\<lambda>_. True)\<rparr>"

definition press :: "string \<Rightarrow> u32 \<Rightarrow> pslot list \<Rightarrow> entity" where
  "press n k ss = idle_entity\<lparr>
     e_machine := Some \<lparr>mc_machine = 3, mc_x = 0, mc_y = 0, mc_z = 0, mc_external = False\<rparr>,
     e_progress := Some \<lparr>rp_recipe = n, rp_remaining = k, rp_processing = n \<noteq> [], rp_needs_output = False, rp_pending = None\<rparr>,
     e_slots := Some ss,
     e_energy := Some \<lparr>es_capacity = 1000, es_current = 200, es_maxInput = 32, es_maxOutput = 32, es_tier = 1, es_type = ELECTRICITY\<rparr>\<rparr>"

definition press_world :: "entity \<Rightarrow> machine_world" where
  "press_world e = machine_world_new [(5, e)]"

lemmas press_defs = press_env_def table_recipe_def press_def press_world_def machine_world_new_def idle_entity_def press_manager_def
  store_recipe_def registerMachineClass_def recipe_examples

lemma press_hyps:
  "recipes_good press_env" "um_wf (w_reg (press_world e))" "um_find (w_reg (press_world e)) 5 = Some e"
  "entity_good press_env (press [] 0 ss)" "entity_good press_env (press ''plate'' 2 ss)"
  by (simp_all add: press_defs recipes_good_def entity_good_def energy_ok_def int32_max_def getRecipeById_def um_simps
      per_tick_cost_def orchestrated_def trunc_def um_wf_def)

theorem machine_tick_refines_witness:
  "\<exists>e'. um_find (w_reg (machine_tick press_env (press_world (press [] 0 [stack_of 5 3, no_slot])))) 5 = Some e' \<and>
     entity_good press_env e' \<and>
     (mstep press_env (Some (1, 1)))\<^sup>*\<^sup>* (abs_entity press_env (press [] 0 [stack_of 5 3, no_slot])) (abs_entity press_env e')"
proof -
  have "regions_of press_env (press [] 0 [stack_of 5 3, no_slot]) = Some (1, 1)" by (simp add: regions_of_def press_def press_env_def)
  then show ?thesis using machine_tick_refines[OF press_hyps(1-4), of "[stack_of 5 3, no_slot]"] by simp
qed



text \<open>C23: a running machine that holds the energy of its remaining ticks finishes in exactly that many ticks, whatever
  the other machines do: it is idle again, has paid exactly the energy and its output slots received the outputs of the
  recipe, each one in full when an output slot was empty, otherwise as much as fits on the stacks of its item; no other
  slot changed. The recipe table is one the loader can make, as above.\<close>

theorem machine_finishes:
  assumes "recipes_good env" "um_wf (w_reg w)" "um_find (w_reg w) i = Some e" "entity_good env e" "running e"
    "abs_entity env e = (ss, c, Some (r, n))" "int n * per_tick_cost env r \<le> c"
  shows "\<exists>e' ss'. um_find (w_reg ((machine_tick env ^^ n) w)) i = Some e' \<and>
    delivers (regions_of env e) (r_outputs r) ss ss' \<and> abs_entity env e' = (ss', c - int n * per_tick_cost env r, None)"
  by (rule ticks_work[OF assms])

theorem machine_finishes_witness:
  "\<exists>e' ss'. um_find (w_reg ((machine_tick press_env ^^ 2) (press_world (press ''plate'' 2 [no_slot, no_slot])))) 5 = Some e' \<and>
    amount (7, 0) ss' = 1 \<and> abs_entity press_env e' = (ss', 184, None)"
proof -
  let ?e = "press ''plate'' 2 [no_slot, no_slot]"
  have run: "running ?e" by (simp add: running_def press_def idle_entity_def)
  have a: "abs_entity press_env ?e = ([no_slot, no_slot], 200, Some (plate_recipe, 2))"
    and c: "per_tick_cost press_env plate_recipe = 8"
    and v: "regions_of press_env ?e = Some (1, 1)"
    by (simp_all add: abs_entity_def press_defs getRecipeById_def per_tick_cost_def orchestrated_def trunc_def regions_of_def um_simps)
  have "int 2 * per_tick_cost press_env plate_recipe \<le> 200" by (simp add: c)
  from machine_finishes[OF press_hyps(1-3) press_hyps(5) run a this] obtain e' ss' where
    1: "um_find (w_reg ((machine_tick press_env ^^ 2) (press_world ?e))) 5 = Some e'"
      "delivers (Some (1, 1)) (r_outputs plate_recipe) [no_slot, no_slot] ss'"
      "abs_entity press_env e' = (ss', 200 - int 2 * per_tick_cost press_env plate_recipe, None)" unfolding v by blast
  have "length (r_outputs plate_recipe) \<le> vacant (out_slots (Some (1, 1)) [no_slot, no_slot])"
    by (simp add: recipe_examples vacant_def out_slots_def out_start_def out_width_def no_slot_def)
  from delivers_all[OF 1(2) this, of "(7, 0)"] have "amount (7, 0) ss' = 1"
    by (simp add: recipe_examples produced_def units_def no_slot_def)
  with 1(1,3) c show ?thesis by auto
qed

text \<open>What the machine loses, in concrete states: an input marked as not consumed is taken when the recipe starts;
  an output that does not fit is dropped; a refusal of the steam that one machine asked for clears the
  request of another, and steam for it fills the other.\<close>

theorem machine_losses:
  "consume_start 1 [stack_input 5 1\<lparr>in_consume := False\<rparr>] [stack_of 5 1] = [no_slot] \<and>
   store_output 0 1 \<lparr>out_id = 7, out_count = 1, out_meta = 0\<rparr> [stack_of 5 1] = [stack_of 5 1] \<and>
   (let w = (machine_world_new [(5, press [] 0 []), (6, press [] 0 [])])\<lparr>w_pendf := [(5, 100), (6, 100)]\<rparr>
    in w_pendf (onFluidConsumeResponse 0 w) = [(6, 100)] \<and>
       map_option es_current (energy_of_entity 5 (w_reg (onFluidConsumeResponse 70 w))) = Some 270 \<and>
       map_option es_current (energy_of_entity 6 (w_reg (onFluidConsumeResponse 70 w))) = Some 200)"
  by (simp add: consume_start_def recipe_examples take_from_def no_slot_def store_output_def machine_world_new_def press_def
      idle_entity_def onFluidConsumeResponse_def complete_entity_def entity_of_def receive_steam_def energy_of_entity_def
      upd_def um_contains_def add_sat_def int32_max_def int32_min_def)

end
