(* ===== verification/PlantTypes.thy ===== *)
theory PlantTypes
  imports MachineSystem PipeFlow
begin

text \<open>
  The entities the dedicated machine systems work on: the components of \<open>src/engine/sim/components\<close> and
  \<open>src/game/machines/*Component.h\<close> that the recipe machines do not have, the table of machine definitions
  (\<open>src/engine/sim/MachineRegistry.h\<close>) and the messages a system publishes. A view of the registry is the
  association list of the entities, in view order; one tick of a system is a sweep over it, whose body changes
  the visited entity and the state of the system. The locale \<open>sound_sweep\<close> says what a body has to promise for
  a property of single entities to hold after any number of ticks.
\<close>

section \<open>Components\<close>

record steam_output =
  so_stored :: rat
  so_capacity :: rat

record turbine =
  tb_item :: u16
  tb_steam :: int
  tb_steam_capacity :: int
  tb_max_input :: int
  tb_eu_per_steam :: int
  tb_eu :: int
  tb_eu_capacity :: int
  tb_max_output :: int
  tb_pending :: bool

record rotare =
  ro_spinning :: bool
  ro_remaining :: int
  ro_per_tick :: int

record transformer =
  tf_in :: u8
  tf_out :: u8
  tf_up :: bool
  tf_buffer :: int
  tf_maxInput :: int
  tf_maxOutput :: int

record battery_buffer =
  bb_capacity :: u32
  bb_stored :: int
  bb_tier :: u8
  bb_maxInput :: int
  bb_chargeRate :: int
  bb_slots :: u8

record block =
  b_id :: u16
  b_meta :: u8
  b_mb :: u32

type_synonym world_pos = "u32 \<times> u32 \<times> u32"

text \<open>
  \<open>p_mb\<close> is \<open>MachineComponent::mb_id\<close>, \<open>p_instance\<close> its \<open>machine_instance_id\<close>, \<open>p_critical\<close> the counter
  \<open>ticks_at_critical\<close> of the overheat component, \<open>p_slot_count\<close> the field \<open>slot_count\<close> and \<open>p_kind\<close> the field
  \<open>entity_type\<close> of the inventory container.
\<close>

record plant = entity +
  p_pos :: "world_pos option"
  p_block :: "block option"
  p_mb :: u32
  p_instance :: u64
  p_critical :: u32
  p_slot_count :: u16
  p_kind :: u16
  p_steam :: "steam_output option"
  p_turbine :: "turbine option"
  p_rotare :: "rotare option"
  p_transformer :: "transformer option"
  p_battery :: "battery_buffer option"

type_synonym plants = "(u64, plant) umap"

definition no_plant :: plant where
  "no_plant =
     \<lparr>e_machine = None, e_progress = None, e_slots = None, e_energy = None, e_heat = None, e_overheat = None,
      e_slow = None, e_fluid = None, e_facing = None, e_temperature = None, e_purity = None, e_biome = None,
      e_networks = None, e_tags = None, p_pos = None, p_block = None, p_mb = 0, p_instance = 0, p_critical = 0,
      p_slot_count = 0, p_kind = 0, p_steam = None, p_turbine = None, p_rotare = None, p_transformer = None,
      p_battery = None\<rparr>"

definition mc_pos :: "machine_component \<Rightarrow> world_pos" where
  "mc_pos m = (mc_x m, mc_y m, mc_z m)"

text \<open>\<open>findEntityAt\<close>: the first entity of the view at a position.\<close>

definition plant_at :: "world_pos \<Rightarrow> plants \<Rightarrow> (u64 \<times> plant) option" where
  "plant_at q R = find (\<lambda>(i, p). p_pos p = Some q) R"

section \<open>Machine definitions\<close>

record machine_info =
  mi_id :: u16
  mi_name :: string
  mi_class :: string
  mi_in :: "energy_type option"
  mi_out :: "energy_type option"
  mi_tier :: int
  mi_slots_in :: int
  mi_slots_out :: int
  mi_capacity :: int
  mi_maxInput :: int
  mi_maxOutput :: int
  mi_interact :: bool

type_synonym machine_table = "(u16, machine_info) umap"

definition mt_Register :: "machine_info \<Rightarrow> machine_table \<Rightarrow> machine_table" where
  "mt_Register i t = um_put (mi_id i) i t"

definition mt_Get :: "machine_table \<Rightarrow> u16 \<Rightarrow> machine_info option" where
  "mt_Get t b = um_find t b"

definition IsMachine :: "machine_table \<Rightarrow> u16 \<Rightarrow> bool" where
  "IsMachine t b \<longleftrightarrow> um_contains t b"

definition IsHeatSource :: "machine_table \<Rightarrow> u16 \<Rightarrow> bool" where
  "IsHeatSource t b \<longleftrightarrow> (case um_find t b of None \<Rightarrow> False | Some i \<Rightarrow> mi_out i = Some HEAT)"

definition IsHeatSink :: "machine_table \<Rightarrow> u16 \<Rightarrow> bool" where
  "IsHeatSink t b \<longleftrightarrow> (case um_find t b of None \<Rightarrow> False | Some i \<Rightarrow> mi_in i = Some HEAT)"

section \<open>Messages\<close>

text \<open>
  \<open>PowerNode\<close>/\<open>LiquidNode\<close> are the node updates of the pipe clients (node, position, buffer, limits, tier, type or
  fluid, source, sink), \<open>PowerAsk\<close>/\<open>LiquidAsk\<close> their requests, \<open>StateNote\<close> is \<open>publishBlockEntityUpdate\<close> without
  the hatch list, \<open>BlockCleared\<close> the block change event to air.
\<close>

datatype plant_msg =
    PowerNode u64 world_pos int int int int int energy_type bool bool
  | LiquidNode u64 world_pos u32 int int int int int bool bool
  | PowerAsk u64 world_pos energy_type int
  | LiquidAsk u64 world_pos u32 int
  | StateNote world_pos u16 "u8 list" "rat option" u32 energy_type u32 int rat rat rat
  | BlockCleared world_pos

record plant_env =
  pe_pipe :: bool
  pe_fluid :: bool
  pe_events :: bool
  pe_steam :: u16
  pe_table :: machine_table

definition energy_node :: "u64 \<Rightarrow> world_pos \<Rightarrow> energy_storage \<Rightarrow> bool \<Rightarrow> bool \<Rightarrow> plant_msg" where
  "energy_node i q e src snk =
     PowerNode i q (es_current e) (es_capacity e) (es_maxInput e) (es_maxOutput e) (es_tier e) (es_type e) src snk"

definition hi_ratio :: "heat_intake \<Rightarrow> rat" where
  "hi_ratio h = (if hi_capacity h > 0 then of_int (hi_stored h) / of_int (hi_capacity h) else 0)"

section \<open>Sweeps\<close>

fun sweep :: "(u64 \<Rightarrow> plant \<Rightarrow> 's \<Rightarrow> plant \<times> 's \<times> plant_msg list) \<Rightarrow> plants \<Rightarrow> 's \<Rightarrow> plants \<times> 's \<times> plant_msg list" where
  "sweep f [] s = ([], s, [])"
| "sweep f ((i, p) # R) s =
     (case f i p s of (p', s', ms) \<Rightarrow>
      case sweep f R s' of (R', s'', ms') \<Rightarrow> ((i, p') # R', s'', ms @ ms'))"

text \<open>A body that does not match the entity leaves it alone.\<close>

definition skip :: "plant \<Rightarrow> 's \<Rightarrow> plant \<times> 's \<times> plant_msg list" where
  "skip p s = (p, s, [])"

lemma skip_simps [simp]: "fst (skip p s) = p" "fst (snd (skip p s)) = s" "snd (snd (skip p s)) = []"
  by (simp_all add: skip_def)

lemma sweep_keys [simp]: "map fst (fst (sweep f R s)) = map fst R"
  by (induction R arbitrary: s) (auto split: prod.splits, metis fst_conv)

lemma sweep_wf [simp]: "um_wf (fst (sweep f R s)) = um_wf R"
  by (simp add: um_wf_def)

text \<open>
  A body keeps a property of entities if it holds for what it returns whenever it held for the visited entity and
  the state of the system satisfied its own invariant.
\<close>

locale sound_sweep =
  fixes body :: "u64 \<Rightarrow> plant \<Rightarrow> 's \<Rightarrow> plant \<times> 's \<times> plant_msg list"
    and sound :: "plant \<Rightarrow> bool" and good :: "'s \<Rightarrow> bool"
  assumes body_sound: "sound p \<Longrightarrow> good s \<Longrightarrow> sound (fst (body i p s))"
    and body_good: "sound p \<Longrightarrow> good s \<Longrightarrow> good (fst (snd (body i p s)))"

context sound_sweep begin

lemma sweep_sound:
  "\<lbrakk>list_all (sound \<circ> snd) R; good s\<rbrakk> \<Longrightarrow>
   list_all (sound \<circ> snd) (fst (sweep body R s)) \<and> good (fst (snd (sweep body R s)))"
proof (induction R arbitrary: s)
  case Nil
  then show ?case by simp
next
  case (Cons a R)
  obtain i p where a: "a = (i, p)" by (cases a)
  obtain p' s' ms where b: "body i p s = (p', s', ms)" by (cases "body i p s")
  have "sound p'" "good s'"
    using Cons.prems body_sound[of p s i] body_good[of p s i] by (simp_all add: a b)
  moreover obtain R' s'' ms' where r: "sweep body R s' = (R', s'', ms')" by (cases "sweep body R s'")
  ultimately show ?case using Cons.IH[of s'] Cons.prems by (simp add: a b r)
qed

end

end
