(* ===== verification/PowerSources.thy ===== *)
theory PowerSources
  imports PlantTypes
begin

text \<open>
  The systems that make power: \<open>src/game/machines/GeneratorSystem.cpp\<close>, \<open>RotareGeneratorSystem.cpp\<close>,
  \<open>SteamTurbineSystem.cpp\<close>, \<open>TransformerSystem.cpp\<close> and \<open>src/game/mining/CreativeGeneratorSystem.cpp\<close>,
  \<open>CreativeFluidSystem.cpp\<close>. Each tick is a sweep over the entities with the components of its view. Energy is
  \<open>int32_t\<close> read as \<^typ>\<open>int\<close>; no log line is modelled.
\<close>

section \<open>Fuel generators\<close>

definition kGeneratorMachineId_Coal :: u16 where "kGeneratorMachineId_Coal = pack ''1110:000:2''"
definition kGeneratorMachineId_Steam :: u16 where "kGeneratorMachineId_Steam = pack ''1110:011:0''"

definition generatorFuelValues :: "(u16, int) umap" where
  "generatorFuelValues = [(pack ''0:11110:2'', 8000), (pack ''0:10:00:0'', 2000), (pack ''0:11110:0'', 500)]"

definition isGenerator :: "u16 \<Rightarrow> bool" where
  "isGenerator b \<longleftrightarrow> b = kGeneratorMachineId_Coal \<or> b = kGeneratorMachineId_Steam"

text \<open>The loop over the slots that burns one item of the first slot holding fuel.\<close>

fun burn_first :: "pslot list \<Rightarrow> (pslot list \<times> u16 \<times> int) option" where
  "burn_first [] = None"
| "burn_first (s # ss) =
     (case (if cnt s = 0 then None else um_find generatorFuelValues (item_id s)) of
        Some v \<Rightarrow> Some (s\<lparr>cnt := cnt s - 1\<rparr> # ss, item_id s, v)
      | None \<Rightarrow> map_option (\<lambda>(ss', i, v). (s # ss', i, v)) (burn_first ss))"

type_synonym burning = "(u64, int) umap \<times> (u64, u16) umap"

definition steam_nodes :: "plant_env \<Rightarrow> u64 \<Rightarrow> machine_component \<Rightarrow> energy_storage \<Rightarrow> plant_msg list" where
  "steam_nodes env i m e =
     (if pe_pipe env then [energy_node i (mc_pos m) e True False] else []) @
     (if pe_fluid env
      then [LiquidNode i (mc_pos m) (ucast (pe_steam env)) (es_current e) (es_capacity e) 0 (es_maxOutput e) (es_tier e) True False]
      else [])"

text \<open>The progress of the burning item is read through a reference into the map, which is gone once it was erased.\<close>

definition burn_progress :: "pslot list \<Rightarrow> int option \<Rightarrow> rat option" where
  "burn_progress ss r =
     (case um_find generatorFuelValues (if ss = [] then 0 else item_id (hd ss)) of
        None \<Rightarrow> Some 0
      | Some v \<Rightarrow> if v > 0 then map_option (\<lambda>r. 1 - of_int r / of_int v) r else Some 0)"

definition generator_note ::
  "plant_env \<Rightarrow> plant \<Rightarrow> machine_component \<Rightarrow> pslot list \<Rightarrow> energy_storage \<Rightarrow> rat option \<Rightarrow> plant_msg" where
  "generator_note env p m ss e pct =
     StateNote (mc_pos m) (mc_machine m) (packInventory ss) pct (word_of_int (es_current e)) (es_type e)
       (word_of_int (es_capacity e))
       (case mt_Get (pe_table env) (mc_machine m) of Some x \<Rightarrow> mi_slots_in x | None \<Rightarrow> int (unat (p_slot_count p)))
       (case e_heat p of Some h \<Rightarrow> hi_ratio h | None \<Rightarrow> 0)
       (case p_steam p of Some s \<Rightarrow> so_stored s | None \<Rightarrow> -1)
       (case p_steam p of Some s \<Rightarrow> so_capacity s | None \<Rightarrow> -1)"

text \<open>The part of the tick after a fuel item is burning: \<open>r\<close> is the energy left in it.\<close>

definition generator_burn ::
  "plant_env \<Rightarrow> u64 \<Rightarrow> plant \<Rightarrow> machine_component \<Rightarrow> pslot list \<Rightarrow> energy_storage \<Rightarrow> int \<Rightarrow> burning \<Rightarrow>
   plant \<times> burning \<times> plant_msg list" where
  "generator_burn env i p m ss e r st =
     (case produceEnergy (min (es_maxOutput e) r) e of (e', got) \<Rightarrow>
        let r' = r - got;
            nodes = (if es_type e' = STEAM then steam_nodes env i m e'
                     else if pe_pipe env \<and> (es_type e' = HEAT \<or> es_type e' = ELECTRICITY)
                     then [energy_node i (mc_pos m) e' True False] else []);
            st' = (if r' \<le> 0 then (um_erase i (fst st), um_erase i (snd st)) else (um_put i r' (fst st), snd st));
            pct = burn_progress ss (if r' \<le> 0 then None else Some r')
        in (p\<lparr>e_slots := Some ss, e_energy := Some e'\<rparr>, st', nodes @ [generator_note env p m ss e' pct]))"

definition generator_body :: "plant_env \<Rightarrow> u64 \<Rightarrow> plant \<Rightarrow> burning \<Rightarrow> plant \<times> burning \<times> plant_msg list" where
  "generator_body env i p st =
     (case (e_machine p, e_slots p, e_energy p) of
        (Some m, Some ss, Some e) \<Rightarrow>
          if \<not> isGenerator (mc_machine m) \<or> (es_type e = STEAM \<and> pe_steam env = 0) then skip p st
          else
            let pre = (if es_type e = STEAM then steam_nodes env i m e else [])
            in if es_capacity e \<le> 0 \<or> es_maxOutput e \<le> 0 \<or> es_current e \<ge> es_capacity e then (p, st, pre)
               else
                 let st = (um_emplace i 0 (fst st), snd st);
                     r = (case um_find (fst st) i of Some r \<Rightarrow> r | None \<Rightarrow> 0)
                 in if r > 0 then (case generator_burn env i p m ss e r st of (p', st', ms) \<Rightarrow> (p', st', pre @ ms))
                    else (case burn_first ss of
                        None \<Rightarrow> (p, st, pre)
                      | Some (ss', f, v) \<Rightarrow>
                          (case generator_burn env i p m ss' e v (um_put i v (fst st), um_put i f (snd st)) of
                             (p', st', ms) \<Rightarrow> (p', st', pre @ ms)))
      | _ \<Rightarrow> skip p st)"

definition generator_tick :: "plant_env \<Rightarrow> plants \<Rightarrow> burning \<Rightarrow> plants \<times> burning \<times> plant_msg list" where
  "generator_tick env R st = sweep (generator_body env) R st"

section \<open>Creative sources\<close>

definition kCreativeGeneratorBlockId :: u16 where "kCreativeGeneratorBlockId = pack ''1110:100:0''"

definition creative_body :: "plant_env \<Rightarrow> int \<Rightarrow> u64 \<Rightarrow> plant \<Rightarrow> unit \<Rightarrow> plant \<times> unit \<times> plant_msg list" where
  "creative_body env per_tick i p st =
     (case (e_machine p, e_energy p) of
        (Some m, Some e) \<Rightarrow>
          if mc_machine m \<noteq> kCreativeGeneratorBlockId \<or> es_current e \<ge> es_capacity e then skip p st
          else
            let space = es_capacity e - es_current e; a = (if per_tick < space then per_tick else space)
            in if a \<le> 0 then skip p st
               else
                 let e' = e\<lparr>es_current := es_current e + a\<rparr>
                 in (p\<lparr>e_energy := Some e'\<rparr>, st,
                     (if pe_pipe env then [energy_node i (mc_pos m) e' True False] else []) @
                     [StateNote (mc_pos m) (mc_machine m) [] (Some 1) (word_of_int (es_current e')) (es_type e') 0 (-1) 0 (-1) (-1)])
      | _ \<Rightarrow> skip p st)"

definition kCreativeOilGeneratorBlockId :: u16 where "kCreativeOilGeneratorBlockId = pack ''1110:100:15''"
definition kCreativeWaterGeneratorBlockId :: u16 where "kCreativeWaterGeneratorBlockId = pack ''1110:100:16''"
definition kOilFluidId :: u32 where "kOilFluidId = ucast (pack ''1111:11:58'')"
definition kWaterFluidId :: u32 where "kWaterFluidId = ucast (pack ''1111:11:0'')"
definition kDefaultFluidCapacity :: int where "kDefaultFluidCapacity = 1000000"
definition kDefaultFluidMaxOutput :: int where "kDefaultFluidMaxOutput = 100000"
definition kDefaultTier :: int where "kDefaultTier = 10"
definition kDefaultFluidPerTick :: int where "kDefaultFluidPerTick = 100000"

definition kCreativeFluidSources :: "(u16 \<times> u32) list" where
  "kCreativeFluidSources =
     [(kCreativeOilGeneratorBlockId, kOilFluidId), (kCreativeWaterGeneratorBlockId, kWaterFluidId)]"

definition fluidForBlock :: "u16 \<Rightarrow> u32" where
  "fluidForBlock b = (case um_find kCreativeFluidSources b of Some f \<Rightarrow> f | None \<Rightarrow> 0)"

definition creative_fluid_body :: "plant_env \<Rightarrow> int \<Rightarrow> u64 \<Rightarrow> plant \<Rightarrow> unit \<Rightarrow> plant \<times> unit \<times> plant_msg list" where
  "creative_fluid_body env per_tick i p st =
     (case e_machine p of
        None \<Rightarrow> skip p st
      | Some m \<Rightarrow>
          let fid = fluidForBlock (mc_machine m)
          in if fid = 0 then skip p st
             else
               let f = (case e_fluid p of
                     Some f \<Rightarrow> f
                   | None \<Rightarrow> \<lparr>fs_fluid = fid, fs_amount = 0, fs_capacity = kDefaultFluidCapacity, maxInput = 0,
                                maxOutput = kDefaultFluidMaxOutput\<rparr>)
               in if fs_fluid f \<noteq> 0 \<and> fs_fluid f \<noteq> fid then (p\<lparr>e_fluid := Some f\<rparr>, st, [])
                  else
                    let space = fs_capacity f - fs_amount f;
                        a = max (if per_tick < space then per_tick else space) 0;
                        f' = f\<lparr>fs_fluid := fid, fs_amount := fs_amount f + a\<rparr>
                    in (p\<lparr>e_fluid := Some f'\<rparr>, st,
                        (if pe_fluid env
                         then [LiquidNode i (mc_pos m) fid (fs_amount f') (fs_capacity f') (maxInput f') (maxOutput f')
                                 kDefaultTier True False] else []) @
                        (if pe_events env
                         then [StateNote (mc_pos m) (mc_machine m) [] (Some 1) (word_of_int (fs_amount f')) ELECTRICITY 0 (-1) 0 (-1) (-1)]
                         else [])))"

section \<open>The rotary generator\<close>

definition kRotareGeneratorBlockId :: u16 where "kRotareGeneratorBlockId = pack ''1110:100:1''"
definition kSpinDurationTicks :: int where "kSpinDurationTicks = 100"
definition kEnergyPerTick :: int where "kEnergyPerTick = 32"

definition rotare_body :: "plant_env \<Rightarrow> u64 \<Rightarrow> plant \<Rightarrow> unit \<Rightarrow> plant \<times> unit \<times> plant_msg list" where
  "rotare_body env i p st =
     (case (e_machine p, e_energy p, p_rotare p) of
        (Some m, Some e, Some r) \<Rightarrow>
          if mc_machine m \<noteq> kRotareGeneratorBlockId \<or> \<not> ro_spinning r then skip p st
          else
            let space = es_capacity e - es_current e; a = (if ro_per_tick r < space then ro_per_tick r else space)
            in if ro_remaining r \<le> 0 \<or> a \<le> 0 then (p\<lparr>p_rotare := Some (r\<lparr>ro_spinning := False\<rparr>)\<rparr>, st, [])
               else
                 let e' = e\<lparr>es_current := es_current e + a\<rparr>; n = ro_remaining r - 1;
                     r' = r\<lparr>ro_remaining := n, ro_spinning := n > 0\<rparr>
                 in (p\<lparr>e_energy := Some e', p_rotare := Some r'\<rparr>, st,
                     (if pe_pipe env then [energy_node i (mc_pos m) e' True False] else []) @
                     [StateNote (mc_pos m) (mc_machine m) [] (Some (of_int n / of_int kSpinDurationTicks))
                        (word_of_int (es_current e')) (es_type e') (word_of_int (es_capacity e')) (-1) 0 (-1) (-1)])
      | _ \<Rightarrow> skip p st)"

definition rotare_activate :: "u64 \<Rightarrow> plants \<Rightarrow> plants" where
  "rotare_activate i R =
     (case um_find R i of None \<Rightarrow> R
      | Some p \<Rightarrow>
          (case p_rotare p of
             Some r \<Rightarrow> if ro_spinning r then R
                       else um_put i (p\<lparr>p_rotare := Some \<lparr>ro_spinning = True, ro_remaining = kSpinDurationTicks, ro_per_tick = kEnergyPerTick\<rparr>\<rparr>) R
           | None \<Rightarrow> um_put i (p\<lparr>p_rotare := Some \<lparr>ro_spinning = True, ro_remaining = kSpinDurationTicks, ro_per_tick = kEnergyPerTick\<rparr>\<rparr>) R))"

text \<open>The click handler of \<open>registerRotareInteraction\<close>.\<close>

definition rotare_click :: "world_pos \<Rightarrow> plants \<Rightarrow> plants \<times> bool" where
  "rotare_click q R =
     (case plant_at q R of None \<Rightarrow> (R, False)
      | Some (i, p) \<Rightarrow>
          (case (e_machine p, e_energy p) of
             (Some m, Some e) \<Rightarrow>
               if mc_machine m \<noteq> kRotareGeneratorBlockId then (R, False) else (rotare_activate i R, True)
           | _ \<Rightarrow> (R, False)))"

section \<open>The steam turbine\<close>

definition turbineBlockId :: u16 where "turbineBlockId = pack ''1110:010:44''"

text \<open>The state of the system is the entity whose request is waiting for an answer.\<close>

definition turbine_convert :: "turbine \<Rightarrow> turbine" where
  "turbine_convert t =
     (let eu_space = tb_eu_capacity t - tb_eu t;
          use = min (min (tb_steam t) (tb_max_output t)) (cdiv eu_space (max 1 (tb_eu_per_steam t)))
      in if use > 0
         then t\<lparr>tb_steam := tb_steam t - use, tb_eu := tb_eu t + use * tb_eu_per_steam t\<rparr> else t)"

definition turbine_body :: "plant_env \<Rightarrow> u64 \<Rightarrow> plant \<Rightarrow> u64 option \<Rightarrow> plant \<times> u64 option \<times> plant_msg list" where
  "turbine_body env i p pending =
     (case (e_machine p, p_turbine p) of
        (Some m, Some t) \<Rightarrow>
          if mc_machine m \<noteq> turbineBlockId then skip p pending
          else
            let t = (if tb_item t = 0 then t\<lparr>tb_item := pe_steam env\<rparr> else t);
                q = mc_pos m;
                want = min (tb_max_input t) (tb_steam_capacity t - tb_steam t);
                ask = pe_fluid env \<and> tb_item t \<noteq> 0 \<and> tb_steam t < tb_steam_capacity t \<and> \<not> tb_pending t \<and> want > 0;
                ms1 = (if pe_fluid env \<and> tb_item t \<noteq> 0
                       then [LiquidNode i q (ucast (tb_item t)) (tb_steam t) (tb_steam_capacity t) 0 (tb_max_input t) 0 False True]
                       else []) @
                      (if ask then [LiquidAsk i q (ucast (tb_item t)) want] else []);
                t' = turbine_convert (if ask then t\<lparr>tb_pending := True\<rparr> else t);
                ms2 = (if pe_pipe env
                       then [PowerNode i q (tb_eu t') (tb_eu_capacity t') 0 (tb_max_output t') 0 ELECTRICITY True False] else []) @
                      (if pe_events env
                       then [StateNote q (mc_machine m) [] (Some 1) (word_of_int (tb_eu t')) ELECTRICITY (word_of_int (tb_eu_capacity t'))
                               0 0 (of_int (tb_steam t')) (of_int (tb_steam_capacity t'))] else [])
            in (p\<lparr>p_turbine := Some t'\<rparr>, if ask then Some i else pending, ms1 @ ms2)
      | _ \<Rightarrow> skip p pending)"

definition turbine_response :: "int \<Rightarrow> plants \<Rightarrow> u64 option \<Rightarrow> plants \<times> u64 option" where
  "turbine_response consumed R pending =
     (case pending of None \<Rightarrow> (R, None)
      | Some i \<Rightarrow>
          (case um_find R i of None \<Rightarrow> (R, None)
           | Some p \<Rightarrow>
               (case p_turbine p of None \<Rightarrow> (R, None)
                | Some t \<Rightarrow>
                    (let t = t\<lparr>tb_pending := False\<rparr>;
                         t = (if consumed > 0 then t\<lparr>tb_steam := min (tb_steam_capacity t) (tb_steam t + consumed)\<rparr> else t)
                     in (um_put i (p\<lparr>p_turbine := Some t\<rparr>) R, None)))))"

section \<open>Transformers\<close>

definition tierVoltage :: "u8 \<Rightarrow> int" where
  "tierVoltage t = 4 ^ unat t * 8"

definition isTransformer :: "u16 \<Rightarrow> bool" where
  "isTransformer b \<longleftrightarrow> b = pack ''1110:110:0'' \<or> b = pack ''1110:110:1''"

definition transformer_nodes ::
  "plant_env \<Rightarrow> u64 \<Rightarrow> world_pos \<Rightarrow> transformer \<Rightarrow> energy_storage \<Rightarrow> int \<Rightarrow> plant_msg list" where
  "transformer_nodes env i q t e sent =
     (if pe_pipe env
      then [PowerNode i q (es_current e) (es_capacity e) (es_maxInput e) (es_maxOutput e) (int (unat (tf_in t))) (es_type e) False True,
            PowerNode (i OR 0x100000000) q sent (tf_maxOutput t * 4) 0 (tf_maxOutput t) (int (unat (tf_out t))) (es_type e) True False]
      else [])"

text \<open>A step up to a tier below the input tier has the ratio 0, by which the C++ divides: undefined there, while
  \<open>cdiv\<close> by 0 is 0 here. No code of the repository but its tests creates a transformer.\<close>

definition transformer_body :: "plant_env \<Rightarrow> u64 \<Rightarrow> plant \<Rightarrow> unit \<Rightarrow> plant \<times> unit \<times> plant_msg list" where
  "transformer_body env i p st =
     (case (p_block p, p_pos p, p_transformer p, e_energy p) of
        (Some b, Some q, Some t, Some e) \<Rightarrow>
          if \<not> isTransformer (b_id b) then skip p st
          else
            let vin = tierVoltage (tf_in t); vout = tierVoltage (tf_out t);
                packets = cdiv (min (es_current e) (tf_maxInput t)) vin
            in if tf_up t
               then if packets > 0 \<and> tf_buffer t < tf_maxOutput t * 4
                    then let e' = e\<lparr>es_current := es_current e - packets * vin\<rparr>;
                             buf = tf_buffer t + cdiv packets (cdiv vout vin) * vout;
                             sent = cdiv buf vout * vout;
                             t' = t\<lparr>tf_buffer := (if buf \<ge> vout then buf - sent else buf)\<rparr>
                         in (p\<lparr>e_energy := Some e', p_transformer := Some t'\<rparr>, st,
                             if buf \<ge> vout then transformer_nodes env i q t' e' sent else [])
                    else skip p st
               else if packets > 0
                    then let add = min (packets * vin) (es_capacity e - es_current e);
                             e' = e\<lparr>es_current := es_current e + add\<rparr>
                         in (p\<lparr>e_energy := Some e'\<rparr>, st, transformer_nodes env i q t e' add)
                    else skip p st
      | _ \<Rightarrow> skip p st)"

end
