(* ===== verification/BatterySystem.thy ===== *)
theory BatterySystem
  imports PlantTypes
begin

text \<open>
  Rechargeable items and the buffer that charges them: \<open>src/game/machines/ItemEnergyStorage.h\<close> and
  \<open>src/game/mining/BatteryBufferSystem.cpp\<close>. The energy of a tool is the metadata of its slot. A buffer asks the
  pipe network for energy with at most one request under way, which an answer retires by the node id.
\<close>

section \<open>Items with energy\<close>

record tool_def =
  td_capacity :: int
  td_maxInput :: int
  td_tier :: int

definition BATTERY_LV :: u16 where "BATTERY_LV = 60948"
definition BATTERY_MV :: u16 where "BATTERY_MV = 60949"
definition BATTERY_HV :: u16 where "BATTERY_HV = 60950"

definition tool_def_of :: "int \<Rightarrow> int \<Rightarrow> int \<Rightarrow> tool_def" where
  "tool_def_of c i t = \<lparr>td_capacity = c, td_maxInput = i, td_tier = t\<rparr>"

definition TOOL_ENERGY_DEFS :: "(u16, tool_def) umap" where
  "TOOL_ENERGY_DEFS =
     [(pack ''1111:00:0'', tool_def_of 1000 8 0), (pack ''1111:00:1'', tool_def_of 4000 32 1),
      (pack ''1111:00:2'', tool_def_of 16000 128 2), (pack ''1111:00:3'', tool_def_of 64000 512 3),
      (60948, tool_def_of 1000 32 0), (60949, tool_def_of 4000 128 1), (60950, tool_def_of 16000 512 2)]"

definition isRechargeableBattery :: "u16 \<Rightarrow> bool" where
  "isRechargeableBattery i \<longleftrightarrow> i = BATTERY_LV \<or> i = BATTERY_MV \<or> i = BATTERY_HV"

definition getToolEnergy :: "pslot \<Rightarrow> int" where
  "getToolEnergy s = (case um_find TOOL_ENERGY_DEFS (item_id s) of None \<Rightarrow> -1 | Some d \<Rightarrow> int (unat (pmeta s)))"

definition setToolEnergy :: "int \<Rightarrow> pslot \<Rightarrow> pslot" where
  "setToolEnergy n s =
     (case um_find TOOL_ENERGY_DEFS (item_id s) of None \<Rightarrow> s
      | Some d \<Rightarrow> s\<lparr>pmeta := word_of_int (if n < 0 then 0 else if td_capacity d < n then td_capacity d else n)\<rparr>)"

definition consumeToolEnergy :: "int \<Rightarrow> pslot \<Rightarrow> pslot \<times> bool" where
  "consumeToolEnergy n s =
     (let c = getToolEnergy s in if c < n then (s, False) else (setToolEnergy (c - n) s, True))"

section \<open>The battery buffer\<close>

definition chargeSlot :: "nat \<Rightarrow> battery_buffer \<times> pslot list \<Rightarrow> battery_buffer \<times> pslot list" where
  "chargeSlot k bs =
     (case bs of (b, ss) \<Rightarrow>
        let s = ss ! k in
        (case um_find TOOL_ENERGY_DEFS (item_id s) of
           None \<Rightarrow> (b, ss)
         | Some d \<Rightarrow>
             let cur = getToolEnergy s in
             if cur \<ge> td_capacity d then (b, ss)
             else
               let n = min (min (bb_chargeRate b) (bb_stored b)) (min (td_capacity d - cur) (td_maxInput d))
               in if n \<le> 0 then (b, ss)
                  else (b\<lparr>bb_stored := bb_stored b - n\<rparr>, ss[k := s\<lparr>pmeta := pmeta (setToolEnergy (cur + n) s)\<rparr>])))"

definition bb_cap :: "battery_buffer \<Rightarrow> int" where
  "bb_cap b = sint (bb_capacity b)"

definition clamp_stored :: "battery_buffer \<Rightarrow> battery_buffer" where
  "clamp_stored b =
     (if bb_stored b < 0 then b\<lparr>bb_stored := 0\<rparr>
      else if bb_stored b > bb_cap b then b\<lparr>bb_stored := bb_cap b\<rparr> else b)"

definition charge_slots :: "battery_buffer \<Rightarrow> pslot list \<Rightarrow> battery_buffer \<times> pslot list" where
  "charge_slots b ss =
     (if bb_stored b > 0
      then fold (\<lambda>k (b, ss). if item_id (ss ! k) \<noteq> 0 then chargeSlot k (b, ss) else (b, ss))
             [0..<min (unat (bb_slots b)) (length ss)] (b, ss)
      else (b, ss))"

definition battery_body :: "plant_env \<Rightarrow> u64 \<Rightarrow> plant \<Rightarrow> (u64, int) umap \<Rightarrow> plant \<times> (u64, int) umap \<times> plant_msg list" where
  "battery_body env i p pending =
     (case (p_battery p, e_slots p, p_pos p) of
        (Some b, Some ss, Some q) \<Rightarrow>
          (case charge_slots (clamp_stored b) ss of (b, ss) \<Rightarrow>
             let ms1 = (case e_machine p of
                   Some m \<Rightarrow>
                     if pe_events env
                     then [StateNote (mc_pos m) (mc_machine m) (packInventory ss) (Some 1) (word_of_int (bb_stored b)) ELECTRICITY
                             (bb_capacity b) (int (unat (bb_slots b))) 0 (-1) (-1)] else []
                 | None \<Rightarrow> []);
                 ms2 = (if pe_pipe env \<and> e_machine p \<noteq> None
                        then [PowerNode i q (bb_stored b) (bb_cap b) (bb_maxInput b) 0 (int (unat (bb_tier b))) ELECTRICITY False True] else []);
                 needed = min (bb_cap b - bb_stored b) (bb_maxInput b);
                 ask = pe_pipe env \<and> bb_stored b < bb_cap b \<and> um_find pending i = None \<and> needed > 0
             in (p\<lparr>p_battery := Some b, e_slots := Some ss\<rparr>, if ask then um_put i needed pending else pending,
                 ms1 @ ms2 @ (if ask then [PowerAsk i q ELECTRICITY needed] else [])))
      | _ \<Rightarrow> skip p pending)"

definition battery_tick :: "plant_env \<Rightarrow> plants \<Rightarrow> (u64, int) umap \<Rightarrow> plants \<times> (u64, int) umap \<times> plant_msg list" where
  "battery_tick env R pending = sweep (battery_body env) R pending"

definition battery_response :: "u64 \<Rightarrow> int \<Rightarrow> plants \<Rightarrow> (u64, int) umap \<Rightarrow> plants \<times> (u64, int) umap \<times> bool" where
  "battery_response i consumed R pending =
     (if consumed \<le> 0 \<or> um_find pending i = None then (R, pending, False)
      else
        ((case um_find R i of None \<Rightarrow> R
          | Some p \<Rightarrow>
              (case p_battery p of None \<Rightarrow> R
               | Some b \<Rightarrow> um_put i (p\<lparr>p_battery := Some (b\<lparr>bb_stored := min (bb_stored b + consumed) (bb_cap b)\<rparr>)\<rparr>) R)),
         um_erase i pending, True))"

section \<open>Charging moves energy\<close>

text \<open>The energy in the rechargeable items of the slots.\<close>

definition tools_energy :: "pslot list \<Rightarrow> int" where
  "tools_energy ss = (\<Sum>s\<leftarrow>ss. max (getToolEnergy s) 0)"

definition tool_ok :: "pslot \<Rightarrow> bool" where
  "tool_ok s \<longleftrightarrow> (case um_find TOOL_ENERGY_DEFS (item_id s) of None \<Rightarrow> True | Some d \<Rightarrow> getToolEnergy s \<le> td_capacity d)"

end
