(* ===== verification/PowerProps.thy ===== *)
theory PowerProps
  imports PowerSources BatterySystem
begin

text \<open>
  What the power systems promise over every interleaving of their ticks, clicks and answers: no buffer leaves its
  range, a generator turns fuel into exactly its energy, a battery buffer moves energy into tools without loss. And
  what they do not: a request of a buffer that is answered with nothing is never repeated, the second turbine
  locks the first, and a transformer makes or loses energy.
\<close>

section \<open>Buffers in range\<close>

definition energy_fits :: "energy_storage \<Rightarrow> bool" where
  "energy_fits e \<longleftrightarrow> 0 \<le> es_current e \<and> es_current e \<le> es_capacity e"

definition turbine_fits :: "turbine \<Rightarrow> bool" where
  "turbine_fits t \<longleftrightarrow>
     0 \<le> tb_steam t \<and> tb_steam t \<le> tb_steam_capacity t \<and> 0 \<le> tb_eu t \<and> tb_eu t \<le> tb_eu_capacity t \<and> 0 \<le> tb_eu_per_steam t"

definition liquid_fits :: "fluid_storage \<Rightarrow> bool" where
  "liquid_fits f \<longleftrightarrow> 0 \<le> fs_amount f \<and> fs_amount f \<le> fs_capacity f"

definition battery_fits :: "battery_buffer \<Rightarrow> bool" where
  "battery_fits b \<longleftrightarrow> 0 \<le> bb_stored b \<and> bb_stored b \<le> bb_cap b"

definition plant_fits :: "plant \<Rightarrow> bool" where
  "plant_fits p \<longleftrightarrow>
     pred_option energy_fits (e_energy p) \<and> pred_option turbine_fits (p_turbine p) \<and> pred_option liquid_fits (e_fluid p) \<and>
     pred_option battery_fits (p_battery p) \<and> pred_option (\<lambda>t. 0 \<le> tf_buffer t) (p_transformer p)"

lemma produce_fits: "energy_fits e \<Longrightarrow> energy_fits (fst (produceEnergy n e))"
  by (auto simp: energy_fits_def produceEnergy_def Let_def)

lemma generator_fits: "plant_fits p \<Longrightarrow> plant_fits (fst (generator_body env i p st))"
  using produce_fits
  by (auto simp: generator_body_def generator_burn_def plant_fits_def Let_def skip_def split: option.splits prod.splits)
    (metis fst_conv)+

lemma creative_fits: "plant_fits p \<Longrightarrow> plant_fits (fst (creative_body env n i p st))"
  by (auto simp: creative_body_def plant_fits_def energy_fits_def Let_def skip_def split: option.splits)

lemma creative_fluid_fits: "plant_fits p \<Longrightarrow> plant_fits (fst (creative_fluid_body env n i p st))"
  by (auto simp: creative_fluid_body_def plant_fits_def liquid_fits_def kDefaultFluidCapacity_def Let_def skip_def split: option.splits)

lemma rotare_fits: "plant_fits p \<Longrightarrow> plant_fits (fst (rotare_body env i p st))"
  by (auto simp: rotare_body_def plant_fits_def energy_fits_def Let_def skip_def split: option.splits)

lemma convert_fits: "turbine_fits t \<Longrightarrow> turbine_fits (turbine_convert t)"
proof -
  assume t: "turbine_fits t"
  define use where "use = min (min (tb_steam t) (tb_max_output t)) (cdiv (tb_eu_capacity t - tb_eu t) (max 1 (tb_eu_per_steam t)))"
  have "use * tb_eu_per_steam t \<le> tb_eu_capacity t - tb_eu t" if "use > 0"
  proof -
    have "use \<le> (tb_eu_capacity t - tb_eu t) div max 1 (tb_eu_per_steam t)"
      using t by (simp add: use_def turbine_fits_def)
    then have "use * max 1 (tb_eu_per_steam t) \<le> (tb_eu_capacity t - tb_eu t) div max 1 (tb_eu_per_steam t) * max 1 (tb_eu_per_steam t)"
      by (intro mult_right_mono) auto
    also have "\<dots> \<le> tb_eu_capacity t - tb_eu t"
      using pos_mod_sign[of "max 1 (tb_eu_per_steam t)" "tb_eu_capacity t - tb_eu t"]
      by (simp add: minus_mod_eq_div_mult[symmetric])
    finally have "use * max 1 (tb_eu_per_steam t) \<le> tb_eu_capacity t - tb_eu t" .
    moreover have "use * tb_eu_per_steam t \<le> use * max 1 (tb_eu_per_steam t)" using that by (intro mult_left_mono) auto
    ultimately show ?thesis by simp
  qed
  moreover have "use \<le> tb_steam t" by (simp add: use_def)
  moreover have "0 \<le> use * tb_eu_per_steam t" if "use > 0" using that t by (simp add: turbine_fits_def)
  moreover have "turbine_convert t = (if use > 0
      then t\<lparr>tb_steam := tb_steam t - use, tb_eu := tb_eu t + use * tb_eu_per_steam t\<rparr> else t)"
    by (simp only: turbine_convert_def Let_def use_def)
  ultimately show ?thesis using t by (auto simp: turbine_fits_def)
qed

lemma turbine_fits_body: "plant_fits p \<Longrightarrow> plant_fits (fst (turbine_body env i p st))"
proof -
  assume p: "plant_fits p"
  have "turbine_fits (t\<lparr>tb_item := x\<rparr>) = turbine_fits t" "turbine_fits (t\<lparr>tb_pending := y\<rparr>) = turbine_fits t" for t x y
    by (simp_all add: turbine_fits_def)
  then show ?thesis using p convert_fits
    by (auto simp: turbine_body_def plant_fits_def Let_def skip_def split: option.splits)
qed

lemma tierVoltage_pos: "0 < tierVoltage t"
  by (simp add: tierVoltage_def)

lemma cdiv_times_le: "\<lbrakk>0 < v; cdiv n v > 0\<rbrakk> \<Longrightarrow> cdiv n v * v \<le> n"
  using pos_mod_sign[of v n]
  by (auto simp: cdiv_def minus_mod_eq_div_mult[symmetric] pos_imp_zdiv_pos_iff pos_imp_zdiv_neg_iff split: if_splits)

lemma transformer_fits: "plant_fits p \<Longrightarrow> plant_fits (fst (transformer_body env i p st))"
proof (cases "\<exists>b q t e. p_block p = Some b \<and> p_pos p = Some q \<and> p_transformer p = Some t \<and> e_energy p = Some e")
  case False
  assume "plant_fits p"
  then show ?thesis using False by (auto simp: transformer_body_def skip_def split: option.splits)
next
  case True
  assume p: "plant_fits p"
  obtain b q t e where e: "p_block p = Some b" "p_pos p = Some q" "p_transformer p = Some t" "e_energy p = Some e" using True by blast
  define n where "n = cdiv (min (es_current e) (tf_maxInput t)) (tierVoltage (tf_in t))"
  define buf where "buf = tf_buffer t + cdiv n (cdiv (tierVoltage (tf_out t)) (tierVoltage (tf_in t))) * tierVoltage (tf_out t)"
  have le: "n * tierVoltage (tf_in t) \<le> es_current e" if "n > 0"
    using cdiv_times_le[OF tierVoltage_pos that[unfolded n_def]] by (simp add: n_def)
  have buf: "0 \<le> buf" if "n > 0"
    using p e that tierVoltage_pos[of "tf_out t"] tierVoltage_pos[of "tf_in t"]
    by (simp add: buf_def plant_fits_def cdiv_def pos_imp_zdiv_nonneg_iff div_int_pos_iff)
  have rest: "0 \<le> buf - cdiv buf (tierVoltage (tf_out t)) * tierVoltage (tf_out t)" if "n > 0"
    using buf[OF that] tierVoltage_pos[of "tf_out t"] by (simp add: minus_div_mult_eq_mod)
  have up: "0 < n * tierVoltage (tf_in t)" if "n > 0" using that tierVoltage_pos[of "tf_in t"] by simp
  have eq: "fst (transformer_body env i p st) =
     (if \<not> isTransformer (b_id b) then p
      else if tf_up t
      then (if n > 0 \<and> tf_buffer t < tf_maxOutput t * 4
            then p\<lparr>e_energy := Some (e\<lparr>es_current := es_current e - n * tierVoltage (tf_in t)\<rparr>),
                   p_transformer := Some (t\<lparr>tf_buffer := (if buf \<ge> tierVoltage (tf_out t)
                      then buf - cdiv buf (tierVoltage (tf_out t)) * tierVoltage (tf_out t) else buf)\<rparr>)\<rparr> else p)
      else (if n > 0 then p\<lparr>e_energy := Some (e\<lparr>es_current := es_current e +
             min (n * tierVoltage (tf_in t)) (es_capacity e - es_current e)\<rparr>)\<rparr> else p))"
    by (simp add: transformer_body_def e Let_def skip_def n_def buf_def)
  show ?thesis
    unfolding eq using p e le up buf rest by (auto simp: plant_fits_def energy_fits_def)
qed

section \<open>Charging moves energy\<close>

lemma tool_capacity: "um_find TOOL_ENERGY_DEFS i = Some d \<Longrightarrow> 0 \<le> td_capacity d \<and> td_capacity d \<le> 64000"
  by (auto simp: TOOL_ENERGY_DEFS_def tool_def_of_def split: if_splits)

lemma tools_energy_update:
  "k < length ss \<Longrightarrow> tools_energy (ss[k := s]) = tools_energy ss - max (getToolEnergy (ss ! k)) 0 + max (getToolEnergy s) 0"
  by (induction ss arbitrary: k) (auto simp: tools_energy_def split: nat.splits)

definition moved :: "battery_buffer \<times> pslot list \<Rightarrow> battery_buffer \<times> pslot list \<Rightarrow> bool" where
  "moved x y \<longleftrightarrow>
     bb_stored (fst y) + tools_energy (snd y) = bb_stored (fst x) + tools_energy (snd x) \<and>
     bb_stored (fst y) \<le> bb_stored (fst x) \<and> (0 \<le> bb_stored (fst x) \<longrightarrow> 0 \<le> bb_stored (fst y)) \<and>
     bb_capacity (fst y) = bb_capacity (fst x) \<and> length (snd y) = length (snd x)"

lemma moved_refl: "moved x x" by (simp add: moved_def)
lemma moved_trans: "\<lbrakk>moved x y; moved y z\<rbrakk> \<Longrightarrow> moved x z" by (auto simp: moved_def)

lemma set_get_energy:
  assumes "um_find TOOL_ENERGY_DEFS (item_id s) = Some d" "0 \<le> n" "n \<le> td_capacity d"
  shows "getToolEnergy (s\<lparr>pmeta := pmeta (setToolEnergy n s)\<rparr>) = n"
proof -
  have "unat (word_of_int n :: u16) = nat n"
    using assms tool_capacity[OF assms(1)] by (simp add: unat_eq_nat_uint uint_word_of_int_eq take_bit_int_eq_self)
  then show ?thesis using assms by (simp add: getToolEnergy_def setToolEnergy_def)
qed

lemma chargeSlot_moved:
  assumes "k < length ss"
  shows "moved (b, ss) (chargeSlot k (b, ss))"
proof (cases "um_find TOOL_ENERGY_DEFS (item_id (ss ! k))")
  case None
  then show ?thesis by (simp add: chargeSlot_def moved_refl Let_def)
next
  case (Some d)
  define cur where "cur = getToolEnergy (ss ! k)"
  define n where "n = min (min (bb_chargeRate b) (bb_stored b)) (min (td_capacity d - cur) (td_maxInput d))"
  have cur: "0 \<le> cur" using Some by (simp add: cur_def getToolEnergy_def)
  have eq: "chargeSlot k (b, ss) = (if cur \<ge> td_capacity d \<or> n \<le> 0 then (b, ss)
      else (b\<lparr>bb_stored := bb_stored b - n\<rparr>, ss[k := (ss ! k)\<lparr>pmeta := pmeta (setToolEnergy (cur + n) (ss ! k))\<rparr>]))"
    using Some by (simp add: chargeSlot_def Let_def cur_def n_def)
  show ?thesis
  proof (cases "cur \<ge> td_capacity d \<or> n \<le> 0")
    case True
    then show ?thesis unfolding eq by (simp add: moved_refl)
  next
    case False
    then have "getToolEnergy ((ss ! k)\<lparr>pmeta := pmeta (setToolEnergy (cur + n) (ss ! k))\<rparr>) = cur + n"
      using set_get_energy[OF Some, of "cur + n"] cur by (simp add: n_def)
    moreover have "n \<le> bb_stored b" by (simp add: n_def)
    ultimately show ?thesis
      unfolding eq using False assms cur by (simp add: moved_def tools_energy_update cur_def[symmetric])
  qed
qed

lemma charge_slots_moved: "moved (b, ss) (charge_slots b ss)"
proof -
  define f where "f = (\<lambda>k (b, ss). if item_id (ss ! k) \<noteq> 0 then chargeSlot k (b, ss) else (b, ss))"
  have step: "k < length (snd x) \<Longrightarrow> moved x (f k x)" for k x
    using chargeSlot_moved by (cases x) (simp add: f_def moved_refl)
  have "list_all (\<lambda>k. k < length (snd x)) ks \<Longrightarrow> moved x (fold f ks x)" for ks x
  proof (induction ks arbitrary: x)
    case Nil
    then show ?case by (simp add: moved_refl)
  next
    case (Cons k ks)
    then have "moved x (f k x)" using step by simp
    moreover from this have "moved (f k x) (fold f ks (f k x))" using Cons by (simp add: moved_def)
    ultimately show ?case using moved_trans by simp
  qed
  moreover have "list_all (\<lambda>k. k < length ss) [0..<min (unat (bb_slots b)) (length ss)]" by (simp add: list_all_iff)
  ultimately show ?thesis by (simp add: charge_slots_def f_def[symmetric] moved_refl)
qed

lemma battery_fits_body: "plant_fits p \<Longrightarrow> plant_fits (fst (battery_body env i p st))"
proof (cases "\<exists>b ss q. p_battery p = Some b \<and> e_slots p = Some ss \<and> p_pos p = Some q")
  case False
  assume "plant_fits p"
  then show ?thesis using False by (auto simp: battery_body_def skip_def split: option.splits)
next
  case True
  assume p: "plant_fits p"
  obtain b ss q where b: "p_battery p = Some b" "e_slots p = Some ss" "p_pos p = Some q" using True by blast
  have "clamp_stored b = b" using p b by (simp add: plant_fits_def battery_fits_def clamp_stored_def)
  moreover obtain b' ss' where c: "charge_slots b ss = (b', ss')" by (cases "charge_slots b ss")
  ultimately have "fst (battery_body env i p st) = p\<lparr>p_battery := Some b', e_slots := Some ss'\<rparr>"
    using b by (simp add: battery_body_def Let_def)
  moreover have "battery_fits b'"
    using charge_slots_moved[of b ss] p b c by (simp add: moved_def plant_fits_def battery_fits_def bb_cap_def)
  ultimately show ?thesis using p by (simp add: plant_fits_def)
qed

interpretation gen: sound_sweep "generator_body env" plant_fits "\<lambda>_. True"
  by unfold_locales (simp_all add: generator_fits)
interpretation cre: sound_sweep "creative_body env n" plant_fits "\<lambda>_. True"
  by unfold_locales (simp_all add: creative_fits)
interpretation crf: sound_sweep "creative_fluid_body env n" plant_fits "\<lambda>_. True"
  by unfold_locales (simp_all add: creative_fluid_fits)
interpretation rot: sound_sweep "rotare_body env" plant_fits "\<lambda>_. True"
  by unfold_locales (simp_all add: rotare_fits)
interpretation tur: sound_sweep "turbine_body env" plant_fits "\<lambda>_. True"
  by unfold_locales (simp_all add: turbine_fits_body)
interpretation tra: sound_sweep "transformer_body env" plant_fits "\<lambda>_. True"
  by unfold_locales (simp_all add: transformer_fits)
interpretation bat: sound_sweep "battery_body env" plant_fits "\<lambda>_. True"
  by unfold_locales (simp_all add: battery_fits_body)

section \<open>All power systems together\<close>

datatype power_op =
    GeneratorTick | CreativeTick int | FluidSourceTick int | RotareTick | RotareClick world_pos | TurbineTick | TurbineAnswer int
  | TransformerTick | BatteryTick | BatteryAnswer u64 int

record power_world =
  pw_plants :: plants
  pw_burning :: burning
  pw_waiting :: "u64 option"
  pw_asked :: "(u64, int) umap"
  pw_out :: "plant_msg list"

definition power_step :: "plant_env \<Rightarrow> power_op \<Rightarrow> power_world \<Rightarrow> power_world" where
  "power_step env op w =
     (case op of
        GeneratorTick \<Rightarrow> (case sweep (generator_body env) (pw_plants w) (pw_burning w) of (R, s, ms) \<Rightarrow>
          w\<lparr>pw_plants := R, pw_burning := s, pw_out := pw_out w @ ms\<rparr>)
      | CreativeTick n \<Rightarrow> (case sweep (creative_body env n) (pw_plants w) () of (R, _, ms) \<Rightarrow> w\<lparr>pw_plants := R, pw_out := pw_out w @ ms\<rparr>)
      | FluidSourceTick n \<Rightarrow> (case sweep (creative_fluid_body env n) (pw_plants w) () of (R, _, ms) \<Rightarrow> w\<lparr>pw_plants := R, pw_out := pw_out w @ ms\<rparr>)
      | RotareTick \<Rightarrow> (case sweep (rotare_body env) (pw_plants w) () of (R, _, ms) \<Rightarrow> w\<lparr>pw_plants := R, pw_out := pw_out w @ ms\<rparr>)
      | RotareClick q \<Rightarrow> w\<lparr>pw_plants := fst (rotare_click q (pw_plants w))\<rparr>
      | TurbineTick \<Rightarrow> (case sweep (turbine_body env) (pw_plants w) (pw_waiting w) of (R, s, ms) \<Rightarrow>
          w\<lparr>pw_plants := R, pw_waiting := s, pw_out := pw_out w @ ms\<rparr>)
      | TurbineAnswer n \<Rightarrow> (case turbine_response n (pw_plants w) (pw_waiting w) of (R, s) \<Rightarrow> w\<lparr>pw_plants := R, pw_waiting := s\<rparr>)
      | TransformerTick \<Rightarrow> (case sweep (transformer_body env) (pw_plants w) () of (R, _, ms) \<Rightarrow> w\<lparr>pw_plants := R, pw_out := pw_out w @ ms\<rparr>)
      | BatteryTick \<Rightarrow> (case sweep (battery_body env) (pw_plants w) (pw_asked w) of (R, s, ms) \<Rightarrow>
          w\<lparr>pw_plants := R, pw_asked := s, pw_out := pw_out w @ ms\<rparr>)
      | BatteryAnswer i n \<Rightarrow> (case battery_response i n (pw_plants w) (pw_asked w) of (R, s, _) \<Rightarrow> w\<lparr>pw_plants := R, pw_asked := s\<rparr>))"

definition power_run :: "plant_env \<Rightarrow> power_op list \<Rightarrow> power_world \<Rightarrow> power_world" where
  "power_run env ops w = fold (power_step env) ops w"

lemma power_run_simps [simp]:
  "power_run env [] w = w" "power_run env (op # ops) w = power_run env ops (power_step env op w)"
  by (simp_all add: power_run_def)

lemma fits_put: "\<lbrakk>list_all (plant_fits \<circ> snd) R; plant_fits p\<rbrakk> \<Longrightarrow> list_all (plant_fits \<circ> snd) (um_put i p R)"
  by (induction R) auto

lemma fits_found: "\<lbrakk>list_all (plant_fits \<circ> snd) R; um_find R i = Some p\<rbrakk> \<Longrightarrow> plant_fits p"
  using map_of_SomeD[of R i p] by (fastforce simp: list_all_iff)

lemma activate_fits: "list_all (plant_fits \<circ> snd) R \<Longrightarrow> list_all (plant_fits \<circ> snd) (rotare_activate i R)"
  by (auto simp: rotare_activate_def plant_fits_def intro!: fits_put dest: fits_found split: option.splits)

lemma turbine_answer_fits:
  assumes "list_all (plant_fits \<circ> snd) R"
  shows "list_all (plant_fits \<circ> snd) (fst (turbine_response n R s))"
proof -
  have "plant_fits (p\<lparr>p_turbine := Some (if n > 0 then t\<lparr>tb_pending := False, tb_steam := min (tb_steam_capacity t) (tb_steam t + n)\<rparr> else t\<lparr>tb_pending := False\<rparr>)\<rparr>)"
    if "um_find R i = Some p" "p_turbine p = Some t" for i p t
    using fits_found[OF assms that(1)] that(2) by (auto simp: plant_fits_def turbine_fits_def)
  then show ?thesis using assms
    by (auto simp: turbine_response_def Let_def intro!: fits_put split: option.splits)
qed

lemma battery_answer_fits:
  assumes "list_all (plant_fits \<circ> snd) R"
  shows "list_all (plant_fits \<circ> snd) (fst (battery_response i n R s))"
proof (cases "n \<le> 0")
  case True
  then show ?thesis using assms by (simp add: battery_response_def)
next
  case False
  have "plant_fits (p\<lparr>p_battery := Some (b\<lparr>bb_stored := min (bb_stored b + n) (bb_cap b)\<rparr>)\<rparr>)"
    if "um_find R i = Some p" "p_battery p = Some b" for p b
    using fits_found[OF assms that(1)] that(2) False by (auto simp: plant_fits_def battery_fits_def bb_cap_def)
  then show ?thesis using assms
    by (auto simp: battery_response_def intro!: fits_put split: option.splits)
qed

lemma power_step_fits:
  "list_all (plant_fits \<circ> snd) (pw_plants w) \<Longrightarrow> list_all (plant_fits \<circ> snd) (pw_plants (power_step env op w))"
proof -
  let ?F = "\<lambda>R. list_all (plant_fits \<circ> snd) R"
  assume w: "?F (pw_plants w)"
  have s0: "?F (fst (sweep (generator_body env) (pw_plants w) u))" for u
    by (rule gen.sweep_sound[OF w TrueI, THEN conjunct1])
  have s1: "?F (fst (sweep (creative_body env n) (pw_plants w) u))" for n u
    by (rule cre.sweep_sound[OF w TrueI, THEN conjunct1])
  have s2: "?F (fst (sweep (creative_fluid_body env n) (pw_plants w) u))" for n u
    by (rule crf.sweep_sound[OF w TrueI, THEN conjunct1])
  have s3: "?F (fst (sweep (rotare_body env) (pw_plants w) u))" for u
    by (rule rot.sweep_sound[OF w TrueI, THEN conjunct1])
  have s4: "?F (fst (sweep (turbine_body env) (pw_plants w) u))" for u
    by (rule tur.sweep_sound[OF w TrueI, THEN conjunct1])
  have s5: "?F (fst (sweep (transformer_body env) (pw_plants w) u))" for u
    by (rule tra.sweep_sound[OF w TrueI, THEN conjunct1])
  have s6: "?F (fst (sweep (battery_body env) (pw_plants w) u))" for u
    by (rule bat.sweep_sound[OF w TrueI, THEN conjunct1])
  have click: "?F (fst (rotare_click q (pw_plants w)))" for q
    using w activate_fits by (auto simp: rotare_click_def split: option.splits)
  show ?thesis
    using s0 s1 s2 s3 s4 s5 s6 click turbine_answer_fits[OF w] battery_answer_fits[OF w]
    by (cases op) (simp_all add: power_step_def case_prod_beta)
qed

text \<open>C35: whatever ticks, clicks and answers follow each other, no energy, steam, fluid or battery buffer goes below zero or above
  its capacity, and no transformer's output buffer below zero (it has no capacity). \<open>plant_fits\<close> also says that a turbine's energy
  per unit of steam, which nothing changes, is not negative.
\<close>

theorem power_buffers_fit:
  assumes "list_all (plant_fits \<circ> snd) (pw_plants w)"
  shows "list_all (plant_fits \<circ> snd) (pw_plants (power_run env ops w))"
  using assms by (induction ops arbitrary: w) (simp_all add: power_step_fits)

section \<open>What a sweep does to one entity\<close>

text \<open>
  A system whose state is keyed by entities: the body of one entity leaves the entries of the others alone.
\<close>

locale keyed_sweep =
  fixes body :: "u64 \<Rightarrow> plant \<Rightarrow> 's \<Rightarrow> plant \<times> 's \<times> plant_msg list" and entry :: "'s \<Rightarrow> u64 \<Rightarrow> 'v"
  assumes body_others: "k \<noteq> i \<Longrightarrow> entry (fst (snd (body i p s))) k = entry s k"

context keyed_sweep begin

lemma sweep_others: "i \<notin> fst ` set R \<Longrightarrow> entry (fst (snd (sweep body R s))) i = entry s i"
proof (induction R arbitrary: s)
  case Nil
  then show ?case by simp
next
  case (Cons a R)
  obtain k p where a: "a = (k, p)" by (cases a)
  obtain p' s' ms where b: "body k p s = (p', s', ms)" by (cases "body k p s")
  have "entry s' i = entry s i" using body_others[of i k p s] Cons.prems by (simp add: a b)
  then show ?case using Cons by (simp add: a b split: prod.splits) (metis fst_conv snd_conv)
qed

lemma sweep_at:
  "\<lbrakk>um_wf R; um_find R i = Some p\<rbrakk> \<Longrightarrow>
   \<exists>s'. entry s' i = entry s i \<and> um_find (fst (sweep body R s)) i = Some (fst (body i p s')) \<and>
        entry (fst (snd (sweep body R s))) i = entry (fst (snd (body i p s'))) i"
proof (induction R arbitrary: s)
  case Nil
  then show ?case by simp
next
  case (Cons a R)
  obtain k r where a: "a = (k, r)" by (cases a)
  obtain r' t ms where b: "body k r s = (r', t, ms)" by (cases "body k r s")
  obtain R' u ms' where c: "sweep body R t = (R', u, ms')" by (cases "sweep body R t")
  show ?case
  proof (cases "k = i")
    case True
    then have "entry u i = entry t i" using sweep_others[of i R t] Cons.prems by (simp add: a c)
    moreover have "r = p" using Cons.prems(2) True by (simp add: a)
    ultimately show ?thesis using b True by (intro exI[of _ s]) (simp add: a c)
  next
    case False
    obtain s' where s': "entry s' i = entry t i" "um_find R' i = Some (fst (body i p s'))" "entry u i = entry (fst (snd (body i p s'))) i"
      using Cons.IH[of t] Cons.prems False by (auto simp: a c)
    have "entry t i = entry s i" using body_others[of i k r s] False by (simp add: b)
    then show ?thesis using s' False by (intro exI[of _ s']) (simp add: a b c)
  qed
qed

lemma sweep_msg:
  "\<lbrakk>um_wf R; m \<in> set (snd (snd (sweep body R s)))\<rbrakk> \<Longrightarrow>
   \<exists>k p s'. (k, p) \<in> set R \<and> entry s' k = entry s k \<and> m \<in> set (snd (snd (body k p s')))"
proof (induction R arbitrary: s)
  case Nil
  then show ?case by simp
next
  case (Cons a R)
  obtain k r where a: "a = (k, r)" by (cases a)
  obtain r' t ms where b: "body k r s = (r', t, ms)" by (cases "body k r s")
  obtain R' u ms' where c: "sweep body R t = (R', u, ms')" by (cases "sweep body R t")
  show ?case
  proof (cases "m \<in> set ms")
    case True
    then show ?thesis by (intro exI[of _ k] exI[of _ r] exI[of _ s]) (simp add: a b)
  next
    case False
    then obtain j q s' where j: "(j, q) \<in> set R" "entry s' j = entry t j" "m \<in> set (snd (snd (body j q s')))"
      using Cons.IH[of t] Cons.prems by (auto simp: a b c)
    then have "j \<noteq> k" using Cons.prems(1) by (force simp: a)
    then have "entry t j = entry s j" using body_others[of j k r s] by (simp add: b)
    then show ?thesis using j by (metis a list.set_intros(2))
  qed
qed

end

definition burn_entry :: "burning \<Rightarrow> u64 \<Rightarrow> int option" where
  "burn_entry s i = um_find (fst s) i"

interpretation genk: keyed_sweep "generator_body env" burn_entry
  by unfold_locales
    (auto simp: generator_body_def generator_burn_def burn_entry_def skip_def Let_def um_simps split: option.splits prod.splits)

interpretation batk: keyed_sweep "battery_body env" "\<lambda>s i. um_find s i"
  by unfold_locales (auto simp: battery_body_def skip_def Let_def um_simps split: option.splits prod.splits)

section \<open>Generators\<close>

definition fuel_value :: "u16 \<Rightarrow> int" where
  "fuel_value b = (case um_find generatorFuelValues b of Some v \<Rightarrow> v | None \<Rightarrow> 0)"

definition fuel_in :: "pslot list \<Rightarrow> int" where
  "fuel_in ss = (\<Sum>s\<leftarrow>ss. int (unat (cnt s)) * fuel_value (item_id s))"

definition burning_left :: "burning \<Rightarrow> u64 \<Rightarrow> int" where
  "burning_left st i = (case burn_entry st i of Some r \<Rightarrow> r | None \<Rightarrow> 0)"

lemma burn_first_fuel: "burn_first ss = Some (ss', f, v) \<Longrightarrow> fuel_in ss = fuel_in ss' + v \<and> 0 < v"
proof (induction ss arbitrary: ss')
  case Nil
  then show ?case by simp
next
  case (Cons s ss)
  show ?case
  proof (cases "if cnt s = 0 then None else um_find generatorFuelValues (item_id s)")
    case None
    then obtain ss2 where "burn_first ss = Some (ss2, f, v)" "ss' = s # ss2" using Cons.prems by auto
    then show ?thesis using Cons.IH[of ss2] by (simp add: fuel_in_def)
  next
    case (Some x)
    then have x: "cnt s \<noteq> 0" "um_find generatorFuelValues (item_id s) = Some x" by (auto split: if_splits)
    then have "ss' = s\<lparr>cnt := cnt s - 1\<rparr> # ss" "v = x" using Cons.prems by auto
    moreover have "int (unat (cnt s - 1)) = int (unat (cnt s)) - 1"
      using x(1) by (simp add: unat_minus_one of_nat_diff unat_gt_0 Suc_le_eq)
    moreover have "0 < x" using x(2) by (auto simp: generatorFuelValues_def split: if_splits)
    ultimately show ?thesis using x by (simp add: fuel_in_def fuel_value_def left_diff_distrib)
  qed
qed

text \<open>Energy, what is left of the burning item, and the fuel in the slots.\<close>

definition generator_holds :: "plant \<Rightarrow> int \<Rightarrow> int \<Rightarrow> bool" where
  "generator_holds p r n \<longleftrightarrow>
     (\<exists>e ss. e_energy p = Some e \<and> e_slots p = Some ss \<and> 0 \<le> r \<and> es_current e + r + fuel_in ss = n)"

lemma generator_burn_holds:
  assumes "0 < r" "e_machine p = Some m"
  shows "generator_holds (fst (generator_burn env i p m ss e r st)) (burning_left (fst (snd (generator_burn env i p m ss e r st))) i)
     (es_current e + r + fuel_in ss)"
  using assms
  by (auto simp: generator_holds_def generator_burn_def produceEnergy_def burning_left_def burn_entry_def Let_def um_simps)

lemma generator_body_holds:
  assumes "generator_holds p (burning_left st i) n"
  shows "generator_holds (fst (generator_body env i p st)) (burning_left (fst (snd (generator_body env i p st))) i) n"
proof -
  obtain e ss where e: "e_energy p = Some e" "e_slots p = Some ss" "0 \<le> burning_left st i"
      "es_current e + burning_left st i + fuel_in ss = n"
    using assms by (auto simp: generator_holds_def)
  have idle: "burning_left (um_emplace i 0 (fst st), snd st) i = burning_left st i"
    by (simp add: burning_left_def burn_entry_def um_find_emplace split: option.splits)
  show ?thesis
  proof (cases "e_machine p")
    case None
    then show ?thesis using assms by (simp add: generator_body_def)
  next
    case (Some m)
    define st' where "st' = (um_emplace i 0 (fst st), snd st)"
    define r where "r = (case um_find (fst st') i of Some r \<Rightarrow> r | None \<Rightarrow> 0)"
    have r: "r = burning_left st i" using idle by (simp add: r_def st'_def burning_left_def burn_entry_def)
    show ?thesis
    proof (cases "isGenerator (mc_machine m) \<and> \<not> (es_type e = STEAM \<and> pe_steam env = 0) \<and>
        \<not> (es_capacity e \<le> 0 \<or> es_maxOutput e \<le> 0 \<or> es_current e \<ge> es_capacity e)")
      case False
      then have "fst (generator_body env i p st) = p \<and> fst (snd (generator_body env i p st)) = st"
        using Some e(1,2) by (cases "isGenerator (mc_machine m) \<and> \<not> (es_type e = STEAM \<and> pe_steam env = 0)")
          (auto simp: generator_body_def skip_def)
      then show ?thesis using assms by simp
    next
      case 1: True
      show ?thesis
      proof (cases "r > 0")
        case True
        then have "fst (generator_body env i p st) = fst (generator_burn env i p m ss e r st')"
            "fst (snd (generator_body env i p st)) = fst (snd (generator_burn env i p m ss e r st'))"
          using 1 Some e(1,2) by (auto simp: generator_body_def Let_def st'_def[symmetric] r_def[symmetric] case_prod_beta)
        then show ?thesis using generator_burn_holds[OF True Some, of env i ss e st'] e(4) r by simp
      next
        case False
        then have zero: "burning_left st i = 0" using r e(3) by simp
        show ?thesis
        proof (cases "burn_first ss")
          case None
          then have "fst (generator_body env i p st) = p" "fst (snd (generator_body env i p st)) = st'"
            using 1 Some e(1,2) False by (auto simp: generator_body_def Let_def st'_def[symmetric] r_def[symmetric])
          then show ?thesis using assms idle by (simp add: st'_def)
        next
          case (Some b)
          obtain ss' f v where b: "b = (ss', f, v)" by (cases b) auto
          let ?st = "(um_put i v (fst st'), um_put i f (snd st'))"
          have "fst (generator_body env i p st) = fst (generator_burn env i p m ss' e v ?st)"
              "fst (snd (generator_body env i p st)) = fst (snd (generator_burn env i p m ss' e v ?st))"
            using 1 \<open>e_machine p = Some m\<close> Some b e(1,2) False
            by (auto simp: generator_body_def Let_def st'_def[symmetric] r_def[symmetric] case_prod_beta)
          moreover have "fuel_in ss = fuel_in ss' + v" "0 < v" using burn_first_fuel[of ss ss' f v] Some b by simp_all
          ultimately show ?thesis
            using generator_burn_holds[OF \<open>0 < v\<close> \<open>e_machine p = Some m\<close>, of env i ss' e ?st] e(4) zero by (simp add: algebra_simps)
        qed
      qed
    qed
  qed
qed

primrec generator_ticks :: "plant_env \<Rightarrow> nat \<Rightarrow> plants \<times> burning \<Rightarrow> plants \<times> burning" where
  "generator_ticks env 0 w = w"
| "generator_ticks env (Suc n) w = (case generator_tick env (fst w) (snd w) of (R, st, _) \<Rightarrow> generator_ticks env n (R, st))"

text \<open>C21: over any number of ticks the energy in a generator's buffer, the rest of the burning item and the fuel value of the
  slots add up to the same: fuel is turned into exactly its energy.
\<close>

theorem generator_conserves_fuel:
  assumes "um_wf (fst w)" "um_find (fst w) i = Some p" "generator_holds p (burning_left (snd w) i) sum0"
  shows "\<exists>p'. um_find (fst (generator_ticks env n w)) i = Some p' \<and>
     generator_holds p' (burning_left (snd (generator_ticks env n w)) i) sum0"
  using assms
proof (induction n arbitrary: w p)
  case 0
  then show ?case by simp
next
  case (Suc n)
  obtain R st where w: "w = (R, st)" by (cases w)
  obtain R' st' ms where t: "sweep (generator_body env) R st = (R', st', ms)" by (cases "sweep (generator_body env) R st")
  obtain s where s: "burn_entry s i = burn_entry st i" "um_find R' i = Some (fst (generator_body env i p s))"
      "burn_entry st' i = burn_entry (fst (snd (generator_body env i p s))) i"
    using genk.sweep_at[of R i p st env] Suc.prems w t by auto
  have "generator_holds p (burning_left s i) sum0" using Suc.prems(3) s(1) w by (simp add: burning_left_def)
  then have "generator_holds (fst (generator_body env i p s)) (burning_left st' i) sum0"
    using generator_body_holds[of p s i sum0 env] s(3) by (simp add: burning_left_def)
  moreover have "um_wf R'" using sweep_wf[of "generator_body env" R st] Suc.prems(1) w t by simp
  ultimately show ?case using Suc.IH[of "(R', st')"] s(2) w t by (simp add: generator_tick_def)
qed

definition coal_generator :: plant where
  "coal_generator = no_plant\<lparr>e_machine := Some \<lparr>mc_machine = pack ''1110:000:2'', mc_x = 1, mc_y = 2, mc_z = 3, mc_external = True\<rparr>,
     e_slots := Some [\<lparr>item_id = pack ''0:11110:2'', cnt = 2, pmeta = 0\<rparr>],
     e_energy := Some \<lparr>es_capacity = 10000, es_current = 5, es_maxInput = 0, es_maxOutput = 32, es_tier = 1, es_type = ELECTRICITY\<rparr>\<rparr>"

theorem generator_conserves_fuel_witness:
  "\<exists>p'. um_find (fst (generator_ticks \<lparr>pe_pipe = True, pe_fluid = True, pe_events = True, pe_steam = 3, pe_table = []\<rparr> 3
       ([(4, coal_generator)], [], []))) 4 = Some p' \<and>
     generator_holds p' (burning_left (snd (generator_ticks \<lparr>pe_pipe = True, pe_fluid = True, pe_events = True, pe_steam = 3, pe_table = []\<rparr> 3
       ([(4, coal_generator)], [], []))) 4) 16005"
proof -
  have "fuel_in [\<lparr>item_id = pack ''0:11110:2'', cnt = 2, pmeta = 0\<rparr>] = 16000" by code_simp
  then have "generator_holds coal_generator (burning_left ([], []) 4) 16005"
    by (simp add: generator_holds_def coal_generator_def burning_left_def burn_entry_def no_plant_def)
  then show ?thesis by (intro generator_conserves_fuel) simp_all
qed

definition some_env :: plant_env where
  "some_env = \<lparr>pe_pipe = True, pe_fluid = True, pe_events = True, pe_steam = 3, pe_table = []\<rparr>"

definition buffer_plant :: plant where
  "buffer_plant = no_plant\<lparr>e_machine := Some \<lparr>mc_machine = 7, mc_x = 1, mc_y = 2, mc_z = 3, mc_external = True\<rparr>,
     p_pos := Some (1, 2, 3), e_slots := Some [\<lparr>item_id = 60948, cnt = 1, pmeta = 990\<rparr>],
     p_battery := Some \<lparr>bb_capacity = 40000, bb_stored = 50, bb_tier = 1, bb_maxInput = 32, bb_chargeRate = 8, bb_slots = 1\<rparr>\<rparr>"

definition some_world :: power_world where
  "some_world = \<lparr>pw_plants = [(4, coal_generator), (5, buffer_plant)], pw_burning = ([], []), pw_waiting = None, pw_asked = [], pw_out = []\<rparr>"

theorem power_buffers_fit_witness:
  "list_all (plant_fits \<circ> snd) (pw_plants (power_run some_env [GeneratorTick, BatteryTick, BatteryAnswer 5 32, BatteryTick] some_world))"
proof -
  have "plant_fits coal_generator" "plant_fits buffer_plant"
    by (simp_all add: plant_fits_def coal_generator_def buffer_plant_def no_plant_def energy_fits_def battery_fits_def bb_cap_def)
  then show ?thesis by (intro power_buffers_fit) (simp add: some_world_def)
qed

section \<open>Battery buffers\<close>

text \<open>What a tick takes from a battery buffer is in the tools of its slots, and nothing else changes hands.\<close>

theorem charging_conserves:
  "bb_stored (fst (charge_slots b ss)) + tools_energy (snd (charge_slots b ss)) = bb_stored b + tools_energy ss"
  using charge_slots_moved[of b ss] by (simp add: moved_def)

definition asks :: "u64 \<Rightarrow> plant_msg \<Rightarrow> bool" where
  "asks i m \<longleftrightarrow> (case m of PowerAsk j _ _ _ \<Rightarrow> j = i | _ \<Rightarrow> False)"

lemma sweep_quiet:
  "\<lbrakk>\<And>k p s. list_all (\<lambda>m. \<not> asks i m) (snd (snd (body k p s)))\<rbrakk> \<Longrightarrow> filter (asks i) (snd (snd (sweep body R s))) = []"
proof (induction R arbitrary: s)
  case Nil
  then show ?case by simp
next
  case (Cons a R)
  obtain k p where a: "a = (k, p)" by (cases a)
  obtain p' t ms where b: "body k p s = (p', t, ms)" by (cases "body k p s")
  have "filter (asks i) ms = []" using Cons.prems[of k p s] by (simp add: b filter_empty_conv list_all_iff)
  moreover have "filter (asks i) (snd (snd (sweep body R t))) = []" using Cons by blast
  ultimately show ?case by (simp add: a b case_prod_beta)
qed

lemma asks_simps [simp]:
  "\<not> asks i (PowerNode j q a b c d e f g h)" "\<not> asks i (LiquidNode j q fl a b c d e g h)"
  "\<not> asks i (StateNote q m bs pct e' ty cap n r1 r2 r3)" "\<not> asks i (LiquidAsk j q fl n)"
  "\<not> asks i (generator_note env p mc ss en pct)" "\<not> asks i (energy_node j q en g h)"
  by (simp_all add: asks_def generator_note_def energy_node_def)

lemma quiet_nodes [simp]:
  "list_all (\<lambda>m. \<not> asks i m) (steam_nodes env k mc e)" "list_all (\<lambda>m. \<not> asks i m) (transformer_nodes env k q t e n)"
  by (simp_all add: steam_nodes_def transformer_nodes_def)

lemma quiet_burn: "list_all (\<lambda>m. \<not> asks i m) (snd (snd (generator_burn env k p mc ss e r st)))"
  by (simp add: generator_burn_def Let_def case_prod_beta)

lemma quiet_generator: "list_all (\<lambda>m. \<not> asks i m) (snd (snd (generator_body env k p st)))"
  using quiet_burn by (auto simp: generator_body_def Let_def case_prod_beta split: option.split)

lemma quiet_others:
  "list_all (\<lambda>m. \<not> asks i m) (snd (snd (creative_body env n k p u)))"
  "list_all (\<lambda>m. \<not> asks i m) (snd (snd (creative_fluid_body env n k p u)))"
  "list_all (\<lambda>m. \<not> asks i m) (snd (snd (rotare_body env k p u)))"
  "list_all (\<lambda>m. \<not> asks i m) (snd (snd (transformer_body env k p u)))"
  by (simp_all add: creative_body_def creative_fluid_body_def rotare_body_def transformer_body_def Let_def split: option.split)

lemma quiet_turbine: "list_all (\<lambda>m. \<not> asks i m) (snd (snd (turbine_body env k p v)))"
  by (simp add: turbine_body_def Let_def split: option.split)

lemmas quiet_bodies = quiet_generator quiet_others quiet_turbine

lemma battery_quiet:
  assumes "um_wf R" "um_find s i \<noteq> None"
  shows "filter (asks i) (snd (snd (sweep (battery_body env) R s))) = [] \<and> um_find (fst (snd (sweep (battery_body env) R s))) i \<noteq> None"
proof
  have own: "\<not> asks i m" if "m \<in> set (snd (snd (battery_body env k p t)))" "k = i \<longrightarrow> um_find t i \<noteq> None" for k p t m
    using that by (auto simp: battery_body_def skip_def Let_def asks_def split: option.splits prod.splits if_splits)
  show "filter (asks i) (snd (snd (sweep (battery_body env) R s))) = []"
    using batk.sweep_msg[OF assms(1), of _ env s] own assms(2) by (fastforce simp: filter_empty_conv)
  show "um_find (fst (snd (sweep (battery_body env) R s))) i \<noteq> None"
    using assms(2)
  proof (induction R arbitrary: s)
    case Nil
    then show ?case by simp
  next
    case (Cons a R)
    obtain k p where a: "a = (k, p)" by (cases a)
    obtain p' t ms where b: "battery_body env k p s = (p', t, ms)" by (cases "battery_body env k p s")
    have "um_find (fst (snd (battery_body env k p s))) i \<noteq> None"
      using Cons.prems by (auto simp: battery_body_def skip_def Let_def um_simps split: option.splits prod.splits)
    then show ?case using Cons.IH[of t] by (simp add: a b case_prod_beta)
  qed
qed

definition never_granted :: "u64 \<Rightarrow> power_op \<Rightarrow> bool" where
  "never_granted i op \<longleftrightarrow> (case op of BatteryAnswer j n \<Rightarrow> j \<noteq> i \<or> n \<le> 0 | _ \<Rightarrow> True)"

lemma power_step_wf: "um_wf (pw_plants w) \<Longrightarrow> um_wf (pw_plants (power_step env op w))"
  by (cases op)
    (auto simp: power_step_def rotare_click_def rotare_activate_def turbine_response_def battery_response_def Let_def
      case_prod_beta split: option.splits)

lemma power_step_silent:
  assumes "um_wf (pw_plants w)" "um_find (pw_asked w) i \<noteq> None" "never_granted i op"
  shows "um_find (pw_asked (power_step env op w)) i \<noteq> None \<and> filter (asks i) (pw_out (power_step env op w)) = filter (asks i) (pw_out w)"
proof -
  have q: "filter (asks i) (snd (snd (sweep body R s))) = []"
    if "\<And>k p s. list_all (\<lambda>m. \<not> asks i m) (snd (snd (body k p s)))" for body R s
    using that by (rule sweep_quiet)
  show ?thesis
  proof (cases op)
    case (BatteryAnswer j n)
    then show ?thesis using assms by (auto simp: power_step_def battery_response_def never_granted_def um_simps)
  next
    case BatteryTick
    then show ?thesis using battery_quiet[OF assms(1,2), of env] by (auto simp: power_step_def case_prod_beta)
  qed (use assms(2) in \<open>simp_all add: power_step_def case_prod_beta q[OF quiet_bodies(1)] q[OF quiet_bodies(2)] q[OF quiet_bodies(3)]
      q[OF quiet_bodies(4)] q[OF quiet_bodies(5)] q[OF quiet_bodies(6)]\<close>)
qed

text \<open>C40: a battery buffer whose request was answered with nothing stays in the table of outstanding requests, and whatever
  happens, as long as no positive answer for it arrives, it never asks the network again.
\<close>

theorem refused_buffer_never_asks:
  assumes "um_wf (pw_plants w)" "um_find (pw_asked w) i \<noteq> None" "list_all (never_granted i) ops"
  shows "um_find (pw_asked (power_run env ops w)) i \<noteq> None \<and>
     filter (asks i) (pw_out (power_run env ops w)) = filter (asks i) (pw_out w)"
  using assms
proof (induction ops arbitrary: w)
  case Nil
  then show ?case by simp
next
  case (Cons op ops)
  then show ?case
    using power_step_silent[of w i op env] power_step_wf[of w env op] by simp
qed

definition refused_world :: power_world where
  "refused_world = power_run some_env [BatteryTick, BatteryAnswer 5 0] some_world"

theorem refused_buffer_never_asks_witness:
  "filter (asks 5) (pw_out (power_run some_env [BatteryTick, BatteryTick, BatteryAnswer 5 0, BatteryTick] refused_world)) =
   [PowerAsk 5 (1, 2, 3) ELECTRICITY 32]"
proof -
  have "um_wf (pw_plants refused_world)"
    unfolding refused_world_def power_run_simps by (intro power_step_wf) (simp add: some_world_def)
  moreover have "um_find (pw_asked refused_world) 5 \<noteq> None" by code_simp
  moreover have "filter (asks 5) (pw_out refused_world) = [PowerAsk 5 (1, 2, 3) ELECTRICITY 32]" by code_simp
  ultimately show ?thesis
    using refused_buffer_never_asks[of refused_world 5 "[BatteryTick, BatteryTick, BatteryAnswer 5 0, BatteryTick]" some_env]
    by (simp add: never_granted_def)
qed

section \<open>Losses\<close>

definition transformer_plant :: "bool \<Rightarrow> plant" where
  "transformer_plant up = no_plant\<lparr>p_pos := Some (1, 2, 3), p_block := Some \<lparr>b_id = pack ''1110:110:0'', b_meta = 0, b_mb = 0\<rparr>,
     p_transformer := Some \<lparr>tf_in = (if up then 2 else 3), tf_out = (if up then 3 else 2), tf_up = up, tf_buffer = 0, tf_maxInput = 512, tf_maxOutput = 512\<rparr>,
     e_energy := Some \<lparr>es_capacity = 4000, es_current = (if up then 384 else 600), es_maxInput = 512, es_maxOutput = 512, es_tier = 2, es_type = ELECTRICITY\<rparr>\<rparr>"

definition turbine_plant :: plant where
  "turbine_plant = no_plant\<lparr>e_machine := Some \<lparr>mc_machine = turbineBlockId, mc_x = 1, mc_y = 2, mc_z = 3, mc_external = True\<rparr>,
     p_turbine := Some \<lparr>tb_item = 0, tb_steam = 0, tb_steam_capacity = 1000, tb_max_input = 32, tb_eu_per_steam = 1, tb_eu = 0,
       tb_eu_capacity = 10000, tb_max_output = 32, tb_pending = False\<rparr>\<rparr>"

definition losses_world :: "plants \<Rightarrow> power_world" where
  "losses_world R = \<lparr>pw_plants = R, pw_burning = ([], []), pw_waiting = None, pw_asked = [], pw_out = []\<rparr>"

definition stored_energy :: "power_world \<Rightarrow> (int \<times> int) list" where
  "stored_energy w = map (\<lambda>(_, p). (case e_energy p of Some e \<Rightarrow> es_current e | None \<Rightarrow> 0, case p_transformer p of Some t \<Rightarrow> tf_buffer t | None \<Rightarrow> 0))
     (pw_plants w)"

definition turbine_states :: "power_world \<Rightarrow> (int \<times> int \<times> bool) list" where
  "turbine_states w = map (\<lambda>(_, p). case p_turbine p of Some t \<Rightarrow> (tb_steam t, tb_eu t, tb_pending t) | None \<Rightarrow> (0, 0, False)) (pw_plants w)"

text \<open>Concrete runs. A transformer that steps up three packets of 128 EU destroys them; one that steps down adds the energy it
  sends to its own buffer; and of two turbines the first waits for an answer for ever after both of their answers arrived.
\<close>

theorem power_losses:
  "stored_energy (power_run some_env [TransformerTick] (losses_world [(1, transformer_plant True), (2, transformer_plant False)]))
     = [(0, 0), (1112, 0)] \<and>
   turbine_states (power_run some_env [TurbineTick, TurbineAnswer 32, TurbineAnswer 32, TurbineTick, TurbineAnswer 32, TurbineTick]
       (losses_world [(1, turbine_plant), (2, turbine_plant)])) = [(0, 0, True), (0, 64, True)]"
  by (intro conjI) code_simp+

end
