(* ===== verification/Patterns.thy ===== *)
theory Patterns
  imports PlantTypes
begin

text \<open>
  The multiblock patterns of \<open>src/engine/sim/PatternLibrary.{h,cpp}\<close>: layers of expected blocks around a controller,
  their hatches, and the match of a pattern against the world around an anchor. Coordinates are 32-bit words, as in
  the code, so a corner below zero wraps. A lookup is a function from positions to block ids.
\<close>

section \<open>Blocks and hatches\<close>

definition ANY_BLOCK :: u16 where "ANY_BLOCK = 0xFFFF"
definition EBF_CONTROLLER_BLOCK_ID :: u16 where "EBF_CONTROLLER_BLOCK_ID = pack ''1110:010:47''"
definition HBF_CONTROLLER_BLOCK_ID :: u16 where "HBF_CONTROLLER_BLOCK_ID = pack ''1110:010:48''"
definition BLAST_CASING_BLOCK_ID :: u16 where "BLAST_CASING_BLOCK_ID = pack ''1110:111:5''"
definition KANHAL_COIL_BLOCK_ID :: u16 where "KANHAL_COIL_BLOCK_ID = pack ''1110:111:6''"
definition NICHROME_COIL_BLOCK_ID :: u16 where "NICHROME_COIL_BLOCK_ID = pack ''1110:111:7''"
definition TUNGSTENSTEEL_COIL_BLOCK_ID :: u16 where "TUNGSTENSTEEL_COIL_BLOCK_ID = pack ''1110:111:8''"
definition LEGACY_EBF_CONTROLLER_BLOCK_ID :: u16 where "LEGACY_EBF_CONTROLLER_BLOCK_ID = 1003"
definition LEGACY_HBF_CONTROLLER_BLOCK_ID :: u16 where "LEGACY_HBF_CONTROLLER_BLOCK_ID = 1009"
definition LEGACY_BLAST_CASING_BLOCK_ID :: u16 where "LEGACY_BLAST_CASING_BLOCK_ID = 1001"
definition LEGACY_KANHAL_COIL_BLOCK_ID :: u16 where "LEGACY_KANHAL_COIL_BLOCK_ID = 1002"

lemmas pattern_ids = ANY_BLOCK_def EBF_CONTROLLER_BLOCK_ID_def HBF_CONTROLLER_BLOCK_ID_def BLAST_CASING_BLOCK_ID_def
  KANHAL_COIL_BLOCK_ID_def NICHROME_COIL_BLOCK_ID_def TUNGSTENSTEEL_COIL_BLOCK_ID_def LEGACY_EBF_CONTROLLER_BLOCK_ID_def
  LEGACY_HBF_CONTROLLER_BLOCK_ID_def LEGACY_BLAST_CASING_BLOCK_ID_def LEGACY_KANHAL_COIL_BLOCK_ID_def

datatype hatch_type = H_NONE | H_ITEM_IN | H_ITEM_OUT | H_FLUID_IN | H_FLUID_OUT | H_ENERGY | H_MUFFLER

definition HATCH_BLOCK_ITEM_IN :: u16 where "HATCH_BLOCK_ITEM_IN = pack ''1110:111:10''"
definition HATCH_BLOCK_ITEM_OUT :: u16 where "HATCH_BLOCK_ITEM_OUT = pack ''1110:111:11''"
definition HATCH_BLOCK_ENERGY_IN :: u16 where "HATCH_BLOCK_ENERGY_IN = pack ''1110:111:14''"
definition HATCH_BLOCK_FLUID_IN :: u16 where "HATCH_BLOCK_FLUID_IN = pack ''1110:101:2''"
definition HATCH_BLOCK_FLUID_OUT :: u16 where "HATCH_BLOCK_FLUID_OUT = pack ''1110:101:3''"

definition hatchBlockIdToType :: "u16 \<Rightarrow> hatch_type" where
  "hatchBlockIdToType b =
     (if b = HATCH_BLOCK_ITEM_IN then H_ITEM_IN else if b = HATCH_BLOCK_ITEM_OUT then H_ITEM_OUT
      else if b = HATCH_BLOCK_ENERGY_IN then H_ENERGY else if b = HATCH_BLOCK_FLUID_IN then H_FLUID_IN
      else if b = HATCH_BLOCK_FLUID_OUT then H_FLUID_OUT else H_NONE)"

record hatch_def =
  hd_off :: world_pos
  hd_type :: hatch_type

record pattern =
  pat_id :: u32
  pat_name :: string
  pat_controller :: u16
  pat_size :: "u8 \<times> u8 \<times> u8"
  pat_layers :: "u16 list list list"
  pat_hatches :: "hatch_def list"
  pat_off :: world_pos

type_synonym patterns = "(u32, pattern) umap"
type_synonym lookup = "world_pos \<Rightarrow> u16"

definition pos_add :: "world_pos \<Rightarrow> world_pos \<Rightarrow> world_pos" where
  "pos_add a b = (case (a, b) of ((x, y, z), (u, v, w)) \<Rightarrow> (x + u, y + v, z + w))"

definition pos_sub :: "world_pos \<Rightarrow> world_pos \<Rightarrow> world_pos" where
  "pos_sub a b = (case (a, b) of ((x, y, z), (u, v, w)) \<Rightarrow> (x - u, y - v, z - w))"

text \<open>\<open>mbPack\<close> of the engine and \<open>xyz\<close> of the library: ten bits of each coordinate.\<close>

definition mbPack :: "world_pos \<Rightarrow> u32" where
  "mbPack q = (case q of (x, y, z) \<Rightarrow>
     (x AND 0x3FF) OR push_bit 10 (y AND 0x3FF) OR push_bit 20 (z AND 0x3FF))"

definition equivalentBlock :: "u16 \<Rightarrow> u16 \<Rightarrow> bool" where
  "equivalentBlock expected actual \<longleftrightarrow>
     (expected = BLAST_CASING_BLOCK_ID \<and> actual = LEGACY_BLAST_CASING_BLOCK_ID) \<or>
     (expected = KANHAL_COIL_BLOCK_ID \<and> actual = LEGACY_KANHAL_COIL_BLOCK_ID) \<or>
     (expected = EBF_CONTROLLER_BLOCK_ID \<and> actual = LEGACY_EBF_CONTROLLER_BLOCK_ID) \<or>
     (expected = HBF_CONTROLLER_BLOCK_ID \<and> actual = LEGACY_HBF_CONTROLLER_BLOCK_ID) \<or>
     expected = actual"

section \<open>The patterns\<close>

definition hatch :: "int \<Rightarrow> int \<Rightarrow> int \<Rightarrow> hatch_type \<Rightarrow> hatch_def" where
  "hatch x y z t = \<lparr>hd_off = (word_of_int x, word_of_int y, word_of_int z), hd_type = t\<rparr>"

definition makeBlastPattern :: "string \<Rightarrow> u32 \<Rightarrow> u16 \<Rightarrow> u16 \<Rightarrow> pattern" where
  "makeBlastPattern name i ctrl coil =
     (let c = BLAST_CASING_BLOCK_ID; a = ANY_BLOCK
      in \<lparr>pat_id = i, pat_name = name, pat_controller = ctrl, pat_size = (3, 4, 3),
          pat_layers = [[[c, c, c], [c, c, c], [c, c, c]], [[c, a, c], [a, coil, a], [c, a, c]],
                        [[c, a, c], [a, coil, a], [c, a, c]], [[c, c, c], [c, ctrl, c], [c, c, c]]],
          pat_hatches = [hatch (-1) (-2) 0 H_ITEM_IN, hatch 1 (-2) 0 H_ITEM_OUT, hatch 1 3 2 H_MUFFLER, hatch 1 3 3 H_ENERGY],
          pat_off = (1, 3, 1)\<rparr>)"

definition makeLargeBoilerPattern :: pattern where
  "makeLargeBoilerPattern =
     (let c = 1001; a = ANY_BLOCK
      in \<lparr>pat_id = 2, pat_name = ''large_boiler'', pat_controller = 1005, pat_size = (3, 4, 3),
          pat_layers = [[[c, c, c], [c, 1004, c], [c, c, c]], [[c, a, c], [a, a, a], [c, a, c]],
                        [[c, a, c], [a, a, a], [c, a, c]], [[c, c, c], [c, 1005, c], [c, c, c]]],
          pat_hatches = [hatch 0 1 1 H_FLUID_IN, hatch 2 1 1 H_FLUID_OUT], pat_off = (1, 3, 1)\<rparr>)"

definition makeLCRPattern :: pattern where
  "makeLCRPattern =
     (let c = 1001; a = ANY_BLOCK
      in \<lparr>pat_id = 3, pat_name = ''lcr'', pat_controller = 1006, pat_size = (3, 3, 3),
          pat_layers = [[[c, c, c], [c, c, c], [c, c, c]], [[c, a, c], [a, a, a], [c, a, c]],
                        [[c, c, c], [c, 1006, c], [c, c, c]]],
          pat_hatches = [hatch (-1) (-1) 0 H_ITEM_IN, hatch 1 (-1) 0 H_ITEM_OUT, hatch 0 1 1 H_FLUID_IN,
                         hatch 2 1 1 H_FLUID_OUT, hatch 1 2 2 H_ENERGY], pat_off = (1, 2, 1)\<rparr>)"

definition makeEBFPattern :: pattern where
  "makeEBFPattern = makeBlastPattern ''ebf'' 1 EBF_CONTROLLER_BLOCK_ID KANHAL_COIL_BLOCK_ID"

definition makeHBFPattern :: pattern where
  "makeHBFPattern = makeBlastPattern ''hbf'' 4 HBF_CONTROLLER_BLOCK_ID KANHAL_COIL_BLOCK_ID"

definition addPattern :: "pattern \<Rightarrow> patterns \<Rightarrow> patterns" where
  "addPattern p ps = um_put (pat_id p) p ps"

definition getPattern :: "u32 \<Rightarrow> patterns \<Rightarrow> pattern option" where
  "getPattern i ps = um_find ps i"

definition pattern_registry :: patterns where
  "pattern_registry =
     addPattern makeHBFPattern (addPattern makeLCRPattern (addPattern makeLargeBoilerPattern (addPattern makeEBFPattern [])))"

definition isControllerBlock :: "patterns \<Rightarrow> u16 \<Rightarrow> bool" where
  "isControllerBlock ps b \<longleftrightarrow>
     list_ex (\<lambda>(_, p). pat_controller p = b) ps \<or> b = LEGACY_EBF_CONTROLLER_BLOCK_ID \<or> b = LEGACY_HBF_CONTROLLER_BLOCK_ID"

section \<open>Matching\<close>

definition anchorToCorner :: "world_pos \<Rightarrow> world_pos \<Rightarrow> world_pos" where
  "anchorToCorner anchor off = pos_sub anchor off"

definition cell_pos :: "world_pos \<Rightarrow> nat \<Rightarrow> nat \<Rightarrow> nat \<Rightarrow> world_pos" where
  "cell_pos corner ly row col = pos_add corner (of_nat col, of_nat ly, of_nat row)"

definition cell_ok :: "u16 \<Rightarrow> u16 \<Rightarrow> bool" where
  "cell_ok expected actual \<longleftrightarrow> expected = ANY_BLOCK \<or> equivalentBlock expected actual"

definition matchLayer :: "u16 list list \<Rightarrow> world_pos \<Rightarrow> nat \<Rightarrow> lookup \<Rightarrow> bool" where
  "matchLayer rows corner ly look =
     list_all (\<lambda>(row, cells). list_all (\<lambda>(col, e). cell_ok e (look (cell_pos corner ly row col))) (enumerate 0 cells))
       (enumerate 0 rows)"

definition collectBlocks :: "pattern \<Rightarrow> world_pos \<Rightarrow> u32 list" where
  "collectBlocks p corner =
     concat (map (\<lambda>(ly, rows). concat (map (\<lambda>(row, cells). map (\<lambda>(col, _). mbPack (cell_pos corner ly row col)) (enumerate 0 cells))
       (enumerate 0 rows))) (enumerate 0 (pat_layers p)))"

record match_result =
  mr_pattern :: u32
  mr_controller :: world_pos
  mr_blocks :: "u32 list"

text \<open>A result that is not \<open>matched\<close> is \<open>None\<close>.\<close>

definition matchById :: "patterns \<Rightarrow> u32 \<Rightarrow> world_pos \<Rightarrow> lookup \<Rightarrow> match_result option" where
  "matchById ps i anchor look =
     (case getPattern i ps of None \<Rightarrow> None
      | Some p \<Rightarrow>
          let corner = anchorToCorner anchor (pat_off p)
          in if list_all (\<lambda>(ly, rows). matchLayer rows corner ly look) (enumerate 0 (pat_layers p))
             then Some \<lparr>mr_pattern = pat_id p, mr_controller = anchor, mr_blocks = collectBlocks p corner\<rparr>
             else None)"

fun first_match :: "patterns \<Rightarrow> u32 list \<Rightarrow> world_pos \<Rightarrow> lookup \<Rightarrow> match_result option" where
  "first_match ps [] anchor look = None"
| "first_match ps (i # is) anchor look =
     (case matchById ps i anchor look of Some r \<Rightarrow> Some r | None \<Rightarrow> first_match ps is anchor look)"

definition matchAll :: "patterns \<Rightarrow> world_pos \<Rightarrow> lookup \<Rightarrow> match_result option" where
  "matchAll ps anchor look = first_match ps (map fst ps) anchor look"

definition getBlockAtOffset :: "pattern \<Rightarrow> world_pos \<Rightarrow> world_pos \<Rightarrow> lookup \<Rightarrow> u16" where
  "getBlockAtOffset p anchor off look = look (pos_add (anchorToCorner anchor (pat_off p)) off)"

record hatch_result =
  hr_pos :: world_pos
  hr_type :: hatch_type
  hr_present :: bool
  hr_tier :: u8

definition find_hatch :: "world_pos \<Rightarrow> lookup \<Rightarrow> hatch_def \<Rightarrow> hatch_result" where
  "find_hatch ctrl look h =
     (let q = pos_add ctrl (hd_off h); d = hatchBlockIdToType (look q)
      in if d \<noteq> H_NONE then \<lparr>hr_pos = q, hr_type = d, hr_present = True, hr_tier = 0\<rparr>
         else if hd_type h = H_ENERGY \<or> hd_type h = H_MUFFLER
         then \<lparr>hr_pos = q, hr_type = hd_type h, hr_present = False, hr_tier = 0\<rparr>
         else \<lparr>hr_pos = q, hr_type = H_NONE, hr_present = False, hr_tier = 0\<rparr>)"

definition findHatches :: "world_pos \<Rightarrow> pattern \<Rightarrow> lookup \<Rightarrow> hatch_result list" where
  "findHatches ctrl p look = map (find_hatch ctrl look) (pat_hatches p)"

section \<open>A match is the pattern in the world\<close>

text \<open>The cells of a pattern: offset from the corner and the expected block.\<close>

definition pattern_cells :: "pattern \<Rightarrow> (nat \<times> nat \<times> nat \<times> u16) list" where
  "pattern_cells p =
     concat (map (\<lambda>(ly, rows). concat (map (\<lambda>(row, cells). map (\<lambda>(col, e). (ly, row, col, e)) (enumerate 0 cells))
       (enumerate 0 rows))) (enumerate 0 (pat_layers p)))"

definition built :: "pattern \<Rightarrow> world_pos \<Rightarrow> lookup \<Rightarrow> bool" where
  "built p anchor look \<longleftrightarrow>
     list_all (\<lambda>(ly, row, col, e). cell_ok e (look (cell_pos (anchorToCorner anchor (pat_off p)) ly row col))) (pattern_cells p)"

lemma collectBlocks_cells:
  "collectBlocks p corner = map (\<lambda>(ly, row, col, _). mbPack (cell_pos corner ly row col)) (pattern_cells p)"
  by (simp add: collectBlocks_def pattern_cells_def map_concat o_def split_def)

lemma list_all_concat_map: "list_all P (concat (map f xs)) \<longleftrightarrow> list_all (\<lambda>x. list_all P (f x)) xs"
  by (induction xs) auto

lemma matchById_some:
  "matchById ps i anchor look = Some r \<longleftrightarrow>
   (\<exists>p. getPattern i ps = Some p \<and> built p anchor look \<and>
        r = \<lparr>mr_pattern = pat_id p, mr_controller = anchor,
             mr_blocks = map (\<lambda>(ly, row, col, _). mbPack (cell_pos (anchorToCorner anchor (pat_off p)) ly row col)) (pattern_cells p)\<rparr>)"
  by (auto simp: matchById_def Let_def built_def pattern_cells_def matchLayer_def list_all_concat_map list.pred_map
      o_def split_def collectBlocks_cells split: option.splits if_splits)

lemma first_match_some:
  "first_match ps is anchor look = Some r \<Longrightarrow> \<exists>i\<in>set is. matchById ps i anchor look = Some r"
  by (induction "is") (auto split: option.splits)

lemma first_match_none:
  "first_match ps is anchor look = None \<longleftrightarrow> (\<forall>i\<in>set is. matchById ps i anchor look = None)"
  by (induction "is") (auto split: option.splits)

end
