(* ===== verification/Engine.thy ===== *)
theory Engine
  imports Patterns
begin

text \<open>
  The simulation engine of \<open>src/engine/sim/SimulationEngine.{h,cpp}\<close>: the mirror of the world's machine blocks as
  entities, the multiblock controllers and their hatches, and the saved state of a multiblock. The entity a
  registry creates is a parameter (\<open>alloc\<close>); a new entity is first in the views, which run in reverse creation
  order. The callbacks of the engine, which the main program sets, are messages of a log. A saved state is the record
  of the fields of its FlatBuffers table.
\<close>

section \<open>State\<close>

record hatch_slot =
  hs_type :: hatch_type
  hs_pos :: world_pos
  hs_start :: u16
  hs_end :: u16
  hs_side :: u8
  hs_tier :: u8
  hs_present :: bool

record controller =
  ct_id :: u64
  ct_pos :: world_pos
  ct_pattern :: u32
  ct_blocks :: "u32 list"
  ct_hatches :: "hatch_slot list"

record saved_state =
  sv_id :: u64
  sv_pos :: world_pos
  sv_pattern :: u32
  sv_blocks :: "u32 list"
  sv_heat :: int
  sv_progress :: u32
  sv_ticks :: u32
  sv_recipe :: string
  sv_slots :: "pslot list option"

datatype engine_msg =
    MachineCreated world_pos u16
  | MultiblockCreated u64 world_pos u16
  | MultiblockDestroyed u64
  | MultiblockSave u64 saved_state
  | OwnerRemoved u64

record engine =
  en_plants :: plants
  en_controllers :: "(u64, controller) umap"
  en_next :: u64
  en_table :: "machine_table option"
  en_patterns :: patterns
  en_log :: "engine_msg list"

definition engine_new :: "machine_table option \<Rightarrow> engine" where
  "engine_new t = \<lparr>en_plants = [], en_controllers = [], en_next = 1, en_table = t, en_patterns = pattern_registry, en_log = []\<rparr>"

definition logs :: "engine_msg list \<Rightarrow> engine \<Rightarrow> engine" where
  "logs ms E = E\<lparr>en_log := en_log E @ ms\<rparr>"

definition put_plant :: "u64 \<Rightarrow> plant \<Rightarrow> engine \<Rightarrow> engine" where
  "put_plant i p E = E\<lparr>en_plants := um_put i p (en_plants E)\<rparr>"

definition findEntityAt :: "world_pos \<Rightarrow> engine \<Rightarrow> (u64 \<times> plant) option" where
  "findEntityAt q E = plant_at q (en_plants E)"

section \<open>Controllers\<close>

definition on_blocks :: "(u32 list \<Rightarrow> u32 list) \<Rightarrow> u64 \<Rightarrow> engine \<Rightarrow> engine" where
  "on_blocks f k E =
     (case um_find (en_controllers E) k of None \<Rightarrow> E
      | Some c \<Rightarrow> E\<lparr>en_controllers := um_put k (c\<lparr>ct_blocks := f (ct_blocks c)\<rparr>) (en_controllers E)\<rparr>)"

definition removeBlockFromController :: "u32 \<Rightarrow> world_pos \<Rightarrow> engine \<Rightarrow> engine" where
  "removeBlockFromController mb q E = on_blocks (filter (\<lambda>b. b \<noteq> mbPack q)) (ucast mb) E"

definition findControllerAt :: "world_pos \<Rightarrow> engine \<Rightarrow> (u64 \<times> controller) option" where
  "findControllerAt q E = find (\<lambda>(_, c). mbPack q \<in> set (ct_blocks c)) (en_controllers E)"

definition isMultiblockBlockAt :: "world_pos \<Rightarrow> engine \<Rightarrow> bool" where
  "isMultiblockBlockAt q E \<longleftrightarrow> list_ex (\<lambda>(_, c). mbPack q \<in> set (ct_blocks c)) (en_controllers E)"

definition collectControllerContents :: "controller \<Rightarrow> engine \<Rightarrow> pslot list" where
  "collectControllerContents c E =
     (case findEntityAt (ct_pos c) E of None \<Rightarrow> []
      | Some (_, p) \<Rightarrow> (case e_slots p of None \<Rightarrow> [] | Some ss \<Rightarrow> filter (\<lambda>s. item_id s \<noteq> 0) ss))"

definition registerController :: "u64 \<Rightarrow> world_pos \<Rightarrow> u32 \<Rightarrow> u32 list \<Rightarrow> engine \<Rightarrow> engine" where
  "registerController k q pid bs E =
     E\<lparr>en_controllers := um_emplace k \<lparr>ct_id = k, ct_pos = q, ct_pattern = pid, ct_blocks = bs, ct_hatches = []\<rparr> (en_controllers E)\<rparr>"

definition isControllerActive :: "u64 \<Rightarrow> engine \<Rightarrow> bool" where
  "isControllerActive k E \<longleftrightarrow> um_contains (en_controllers E) k"

definition getController :: "u64 \<Rightarrow> engine \<Rightarrow> controller" where
  "getController k E =
     (case um_find (en_controllers E) k of Some c \<Rightarrow> c
      | None \<Rightarrow> \<lparr>ct_id = 0, ct_pos = (0, 0, 0), ct_pattern = 0, ct_blocks = [], ct_hatches = []\<rparr>)"

definition unregisterController :: "u64 \<Rightarrow> engine \<Rightarrow> engine" where
  "unregisterController k E = E\<lparr>en_controllers := um_erase k (en_controllers E)\<rparr>"

section \<open>Saving\<close>

definition saved_of :: "controller \<Rightarrow> plant option \<Rightarrow> saved_state" where
  "saved_of c p =
     (let prog = Option.bind p e_progress;
          ticks = (case prog of Some r \<Rightarrow> rp_remaining r | None \<Rightarrow> 0);
          ss = (case Option.bind p e_slots of Some ss \<Rightarrow> ss | None \<Rightarrow> [])
      in \<lparr>sv_id = ct_id c, sv_pos = ct_pos c, sv_pattern = ct_pattern c, sv_blocks = ct_blocks c,
          sv_heat = (case Option.bind p e_heat of Some h \<Rightarrow> hi_stored h | None \<Rightarrow> 0),
          sv_progress = ticks, sv_ticks = ticks, sv_recipe = (case prog of Some r \<Rightarrow> rp_recipe r | None \<Rightarrow> []),
          sv_slots = (if ss = [] then None else Some ss)\<rparr>)"

definition serializeMultiblock :: "u64 \<Rightarrow> engine \<Rightarrow> saved_state option" where
  "serializeMultiblock k E =
     map_option (\<lambda>c. saved_of c (map_option snd (findEntityAt (ct_pos c) E))) (um_find (en_controllers E) k)"

definition restore_plant :: "saved_state \<Rightarrow> plant \<Rightarrow> plant" where
  "restore_plant s p =
     p\<lparr>e_heat := map_option (\<lambda>h. h\<lparr>hi_stored := sv_heat s\<rparr>) (e_heat p),
       e_progress := map_option (\<lambda>r. r\<lparr>rp_recipe := sv_recipe s, rp_remaining := sv_ticks s,
           rp_processing := sv_recipe s \<noteq> [], rp_pending := None\<rparr>) (e_progress p),
       e_slots := (case (e_slots p, sv_slots s) of (Some _, Some ss) \<Rightarrow> Some ss | (o', _) \<Rightarrow> o'),
       p_slot_count := (case (e_slots p, sv_slots s) of (Some _, Some ss) \<Rightarrow> of_nat (length ss) | _ \<Rightarrow> p_slot_count p)\<rparr>"

definition deserializeMultiblock :: "u64 \<Rightarrow> saved_state option \<Rightarrow> engine \<Rightarrow> engine" where
  "deserializeMultiblock k s E =
     (case (s, um_find (en_controllers E) k) of
        (Some s, Some c) \<Rightarrow>
          (case findEntityAt (ct_pos c) E of None \<Rightarrow> E | Some (i, p) \<Rightarrow> put_plant i (restore_plant s p) E)
      | _ \<Rightarrow> E)"

section \<open>Hatches\<close>

definition kSlotsPerHatch :: "hatch_type \<Rightarrow> u16" where
  "kSlotsPerHatch t = (if t = H_ITEM_IN \<or> t = H_ITEM_OUT then 4 else 0)"

definition hasItemSlots :: "hatch_slot \<Rightarrow> bool" where
  "hasItemSlots h \<longleftrightarrow> kSlotsPerHatch (hs_type h) > 0"

fun assign_offsets :: "u16 \<Rightarrow> hatch_slot list \<Rightarrow> hatch_slot list" where
  "assign_offsets off [] = []"
| "assign_offsets off (h # hs) =
     (if hasItemSlots h
      then h\<lparr>hs_start := off, hs_end := off + kSlotsPerHatch (hs_type h)\<rparr> # assign_offsets (off + kSlotsPerHatch (hs_type h)) hs
      else h # assign_offsets off hs)"

definition hatch_slot_of :: "hatch_result \<Rightarrow> hatch_slot" where
  "hatch_slot_of r = \<lparr>hs_type = hr_type r, hs_pos = hr_pos r, hs_start = 0, hs_end = 0, hs_side = 5, hs_tier = hr_tier r, hs_present = hr_present r\<rparr>"

text \<open>The hatches of a new controller: filled in pattern order, then reordered with the item hatches first.\<close>

definition layout_hatches :: "hatch_result list \<Rightarrow> hatch_slot list" where
  "layout_hatches rs =
     (let hs = assign_offsets 0 (map hatch_slot_of rs)
      in assign_offsets 0 (filter hasItemSlots hs @ filter (\<lambda>h. \<not> hasItemSlots h) hs))"

definition resize :: "nat \<Rightarrow> pslot list \<Rightarrow> pslot list" where
  "resize n ss = take n ss @ replicate (n - length ss) no_slot"

definition assignHatchSlots :: "controller \<Rightarrow> plant \<Rightarrow> plant" where
  "assignHatchSlots c p =
     (case e_slots p of None \<Rightarrow> p
      | Some ss \<Rightarrow>
          let n = unat (p_slot_count p) + unat (\<Sum>h\<leftarrow>ct_hatches c. kSlotsPerHatch (hs_type h))
          in if n = unat (p_slot_count p) then p else p\<lparr>p_slot_count := of_nat n, e_slots := Some (resize n ss)\<rparr>)"

definition slot_range :: "hatch_type \<Rightarrow> controller \<Rightarrow> nat \<times> nat" where
  "slot_range t c =
     (case find (\<lambda>h. hs_type h = t) (ct_hatches c) of None \<Rightarrow> (0, 0) | Some h \<Rightarrow> (unat (hs_start h), unat (hs_end h)))"

definition getInputSlotRange :: "controller \<Rightarrow> nat \<times> nat" where
  "getInputSlotRange c = slot_range H_ITEM_IN c"

definition getOutputSlotRange :: "controller \<Rightarrow> nat \<times> nat" where
  "getOutputSlotRange c = slot_range H_ITEM_OUT c"

section \<open>Block changes\<close>

definition isInfraBlock :: "u16 \<Rightarrow> bool" where
  "isInfraBlock b \<longleftrightarrow> isPipe b \<or> isCable b \<or> b = pack ''1110:110:0'' \<or> b = pack ''1110:110:1''"

definition isMachineBlock :: "machine_table option \<Rightarrow> u16 \<Rightarrow> bool" where
  "isMachineBlock t b \<longleftrightarrow> \<not> isInfraBlock b \<and> (case t of None \<Rightarrow> False | Some t \<Rightarrow> IsMachine t b)"

definition defaultMachineSlotCount :: "machine_table option \<Rightarrow> u16 \<Rightarrow> u32" where
  "defaultMachineSlotCount t b =
     (case Option.bind t (\<lambda>t. mt_Get t b) of None \<Rightarrow> 0 | Some i \<Rightarrow> word_of_int (mi_slots_in i + mi_slots_out i))"

definition strip_machine :: "plant \<Rightarrow> plant" where
  "strip_machine p =
     p\<lparr>e_machine := None, p_mb := 0, p_instance := 0, e_progress := None, e_slots := None, p_slot_count := 0, p_kind := 0,
       e_energy := None\<rparr>"

definition destroyController :: "u64 \<Rightarrow> engine \<Rightarrow> engine" where
  "destroyController k E =
     (case um_find (en_controllers E) k of None \<Rightarrow> E
      | Some c \<Rightarrow>
          let E = logs (case serializeMultiblock k E of None \<Rightarrow> [] | Some s \<Rightarrow> [MultiblockSave k s]) E;
              E = (case findEntityAt (ct_pos c) E of None \<Rightarrow> E
                   | Some (i, p) \<Rightarrow> logs [OwnerRemoved i] (put_plant i ((strip_machine p)\<lparr>e_heat := None\<rparr>) E))
          in logs [MultiblockDestroyed k] (unregisterController k E))"

text \<open>What happens to the controller a cleared block belonged to.\<close>

definition dissociate :: "world_pos \<Rightarrow> plant \<Rightarrow> engine \<Rightarrow> engine" where
  "dissociate q p E =
     (let mb = (case p_block p of Some b \<Rightarrow> b_mb b | None \<Rightarrow> 0);
          mb = (if mb = 0 then (case findControllerAt q E of Some (k, _) \<Rightarrow> ucast k | None \<Rightarrow> 0) else mb)
      in if mb = 0 then E
         else (case um_find (en_controllers E) (ucast mb) of None \<Rightarrow> E
               | Some c \<Rightarrow> if ct_pos c = q then destroyController (ucast mb) E else removeBlockFromController mb q E))"

definition block_cleared :: "world_pos \<Rightarrow> engine \<Rightarrow> engine" where
  "block_cleared q E =
     (case findEntityAt q E of None \<Rightarrow> E
      | Some (i, p) \<Rightarrow>
          let E = dissociate q p E
          in (case um_find (en_plants E) i of None \<Rightarrow> E
              | Some p \<Rightarrow>
                  let p' = p\<lparr>p_block := None\<rparr>
                  in if e_machine p' = None then put_plant i p' E
                     else logs [OwnerRemoved i] (put_plant i (strip_machine p') E)))"

definition default_type :: "machine_info option \<Rightarrow> energy_type" where
  "default_type i =
     (case i of None \<Rightarrow> ELECTRICITY
      | Some x \<Rightarrow> (case mi_in x of Some t \<Rightarrow> t | None \<Rightarrow> (case mi_out x of Some t \<Rightarrow> t | None \<Rightarrow> ELECTRICITY)))"

definition battery_of :: "machine_info \<Rightarrow> battery_buffer" where
  "battery_of x =
     \<lparr>bb_capacity = word_of_int (max 0 (mi_capacity x)), bb_stored = 0, bb_tier = word_of_int (max 0 (mi_tier x)),
      bb_maxInput = max 0 (mi_maxInput x), bb_chargeRate = max 1 (cdiv (mi_maxInput x) 4),
      bb_slots = word_of_int (max 1 (mi_slots_in x))\<rparr>"

definition own_system :: "string list" where
  "own_system = [''generator'', ''boiler'', ''steam_turbine'', ''battery_buffer'']"

text \<open>The components a block that became a machine gets.\<close>

definition create_machine :: "machine_table option \<Rightarrow> u16 \<Rightarrow> u32 \<Rightarrow> world_pos \<Rightarrow> u64 \<Rightarrow> plant \<Rightarrow> plant" where
  "create_machine t b mb q inst p =
     (let info = Option.bind t (\<lambda>t. mt_Get t b);
          n = (ucast (defaultMachineSlotCount t b) :: u16);
          ext = (mb \<noteq> 0 \<or> (case info of None \<Rightarrow> False | Some x \<Rightarrow> mi_class x \<in> set own_system));
          en = (case info of
              None \<Rightarrow> \<lparr>es_capacity = 10000, es_current = 0, es_maxInput = 32, es_maxOutput = 32, es_tier = 1, es_type = ELECTRICITY\<rparr>
            | Some x \<Rightarrow> \<lparr>es_capacity = mi_capacity x, es_current = 0, es_maxInput = mi_maxInput x, es_maxOutput = mi_maxOutput x,
                es_tier = mi_tier x, es_type = default_type info\<rparr>)
      in p\<lparr>e_machine := Some \<lparr>mc_machine = b, mc_x = fst q, mc_y = fst (snd q), mc_z = snd (snd q), mc_external = ext\<rparr>,
           p_mb := mb, p_instance := inst,
           e_progress := Some \<lparr>rp_recipe = [], rp_remaining = 0, rp_processing = False, rp_needs_output = False, rp_pending = None\<rparr>,
           p_kind := (if mb \<noteq> 0 then 2 else 1), p_slot_count := n, e_slots := Some (replicate (unat n) no_slot),
           e_energy := Some en,
           e_heat := (if es_type en = HEAT then Some \<lparr>hi_stored = 0, hi_capacity = 1000\<rparr> else e_heat p),
           p_steam := (case info of Some x \<Rightarrow> if mi_out x = Some STEAM then Some \<lparr>so_stored = 0, so_capacity = 1000\<rparr> else p_steam p
                       | None \<Rightarrow> p_steam p),
           p_battery := (case info of Some x \<Rightarrow> if mi_class x = ''battery_buffer'' then Some (battery_of x) else p_battery p
                         | None \<Rightarrow> p_battery p)\<rparr>)"

text \<open>The block lookup of the pattern match: the first entity with a block at the position.\<close>

definition engine_lookup :: "engine \<Rightarrow> lookup" where
  "engine_lookup E q =
     (case find (\<lambda>(_, p). p_pos p = Some q \<and> p_block p \<noteq> None) (en_plants E) of
        Some (_, p) \<Rightarrow> (case p_block p of Some b \<Rightarrow> b_id b | None \<Rightarrow> 0)
      | None \<Rightarrow> 0)"

definition set_external :: "bool \<Rightarrow> plant \<Rightarrow> plant" where
  "set_external x p = p\<lparr>e_machine := map_option (\<lambda>m. m\<lparr>mc_external := x\<rparr>) (e_machine p)\<rparr>"

definition set_mb :: "u32 \<Rightarrow> plant \<Rightarrow> plant" where
  "set_mb mb p = p\<lparr>p_mb := mb, p_block := map_option (\<lambda>b. b\<lparr>b_mb := mb\<rparr>) (p_block p)\<rparr>"

definition form_multiblock :: "u64 \<Rightarrow> world_pos \<Rightarrow> engine \<Rightarrow> engine" where
  "form_multiblock i q E =
     (case matchAll (en_patterns E) q (engine_lookup E) of None \<Rightarrow> E
      | Some r \<Rightarrow>
          let k = en_next E;
              E1 = registerController k q (mr_pattern r) (mr_blocks r) (E\<lparr>en_next := k + 1\<rparr>);
              E2 = E1\<lparr>en_plants := map (\<lambda>(j, p). (j, if j = i then set_mb (ucast k) (set_external True p) else p)) (en_plants E1)\<rparr>;
              E3 = logs [MultiblockCreated k q (ucast (mr_pattern r))] E2
          in (case getPattern (mr_pattern r) (en_patterns E) of
                None \<Rightarrow> E3
              | Some pat \<Rightarrow>
                  if pat_hatches pat = [] then E3
                  else
                    let hs = layout_hatches (findHatches q pat (engine_lookup E3));
                        c = (getController k E3)\<lparr>ct_hatches := hs\<rparr>;
                        E4 = E3\<lparr>en_controllers := um_put k c (en_controllers E3)\<rparr>
                    in E4\<lparr>en_plants := map (\<lambda>(j, p). (j, if j = i then assignHatchSlots c p else p)) (en_plants E4)\<rparr>))"

text \<open>The update of a machine block that stays a machine.\<close>

definition machine_external :: "u16 \<Rightarrow> u32 \<Rightarrow> world_pos \<Rightarrow> engine \<Rightarrow> bool" where
  "machine_external b mb q E \<longleftrightarrow>
     mb \<noteq> 0 \<or> (isControllerBlock (en_patterns E) b \<and> list_ex (\<lambda>(_, c). ct_pos c = q) (en_controllers E))"

definition update_machine :: "u64 \<Rightarrow> plant \<Rightarrow> machine_component \<Rightarrow> u16 \<Rightarrow> u32 \<Rightarrow> world_pos \<Rightarrow> engine \<Rightarrow> engine" where
  "update_machine i p m b mb q E =
     (let ext = machine_external b mb q E;
          m' = m\<lparr>mc_machine := b, mc_x := fst q, mc_y := fst (snd q), mc_z := snd (snd q), mc_external := ext\<rparr>
      in logs (if mc_external m \<noteq> ext \<and> ext then [MachineCreated q b] else [])
           (put_plant i (p\<lparr>e_machine := Some m', p_mb := mb\<rparr>) E))"

definition place_at :: "u64 \<Rightarrow> plant \<Rightarrow> world_pos \<Rightarrow> u16 \<Rightarrow> u8 \<Rightarrow> u32 \<Rightarrow> engine \<Rightarrow> engine" where
  "place_at i p q b meta mb E =
     (let old = p_block p;
          mb' = (case old of Some ob \<Rightarrow> if b_mb ob \<noteq> 0 \<and> mb = 0 \<and> b_id ob = b then b_mb ob else mb | None \<Rightarrow> mb);
          E = (case old of
              Some ob \<Rightarrow> if b_mb ob \<noteq> 0 \<and> \<not> (mb = 0 \<and> b_id ob = b) \<and> b_mb ob \<noteq> mb
                         then removeBlockFromController (b_mb ob) q E else E
            | None \<Rightarrow> E);
          p = p\<lparr>p_block := Some \<lparr>b_id = b, b_meta = meta, b_mb = mb'\<rparr>\<rparr>;
          E = (if mb \<noteq> 0 then removeBlockFromController mb q E else E);
          machine = isMachineBlock (en_table E) b
      in (case e_machine p of
            Some m \<Rightarrow>
              if \<not> machine then logs [OwnerRemoved i] (put_plant i (strip_machine p) E)
              else update_machine i p m b mb q E
          | None \<Rightarrow>
              if \<not> machine then put_plant i p E
              else
                let E = logs [MachineCreated q b]
                      (put_plant i (create_machine (en_table E) b mb q (en_next E) p) (E\<lparr>en_next := en_next E + 1\<rparr>))
                in if mb = 0 \<and> isControllerBlock (en_patterns E) b then form_multiblock i q E else E))"

definition block_set :: "(plants \<Rightarrow> u64) \<Rightarrow> world_pos \<Rightarrow> u16 \<Rightarrow> u8 \<Rightarrow> u32 \<Rightarrow> engine \<Rightarrow> engine" where
  "block_set alloc q b meta mb E =
     (case findEntityAt q E of
        Some (i, p) \<Rightarrow> place_at i p q b meta mb E
      | None \<Rightarrow>
          let i = alloc (en_plants E); p = no_plant\<lparr>p_pos := Some q\<rparr>
          in place_at i p q b meta mb (E\<lparr>en_plants := (i, p) # en_plants E\<rparr>))"

definition onBlockChanged :: "(plants \<Rightarrow> u64) \<Rightarrow> world_pos \<Rightarrow> u16 \<Rightarrow> u8 \<Rightarrow> u32 \<Rightarrow> engine \<Rightarrow> engine" where
  "onBlockChanged alloc q b meta mb E = (if b = 0 then block_cleared q E else block_set alloc q b meta mb E)"

section \<open>The electrolyser\<close>

definition ELECTROLYSER_PATTERN :: "(int \<times> int \<times> int) list" where
  "ELECTROLYSER_PATTERN =
     concat (map (\<lambda>z. concat (map (\<lambda>x. map (\<lambda>y. (x, y, z)) [-1, 0, 1]) [-1, 0])) [-1, 0, 1, 2])"

definition electrolyser_pos :: "world_pos \<Rightarrow> int \<times> int \<times> int \<Rightarrow> world_pos" where
  "electrolyser_pos a d = (case d of (x, y, z) \<Rightarrow> pos_add a (word_of_int x, word_of_int y, word_of_int z))"

definition electrolyser_cell :: "world_pos \<Rightarrow> engine \<Rightarrow> int \<times> int \<times> int \<Rightarrow> bool" where
  "electrolyser_cell a E d \<longleftrightarrow>
     (case (a, d) of ((ax, ay, az), (x, y, z)) \<Rightarrow> 0 \<le> sint ax + x \<and> 0 \<le> sint ay + y \<and> 0 \<le> sint az + z) \<and>
     (case find (\<lambda>(_, p). p_pos p = Some (electrolyser_pos a d) \<and> p_block p \<noteq> None) (en_plants E) of
        Some (_, p) \<Rightarrow> (case p_block p of Some b \<Rightarrow> b_id b = pack ''0:0:1'' | None \<Rightarrow> False)
      | None \<Rightarrow> False)"

definition matchElectrolyser :: "world_pos \<Rightarrow> u64 \<Rightarrow> engine \<Rightarrow> engine \<times> u64" where
  "matchElectrolyser a k E =
     (if list_all (electrolyser_cell a E) ELECTROLYSER_PATTERN
      then (registerController k a 0 (map (\<lambda>d. mbPack (electrolyser_pos a d)) ELECTROLYSER_PATTERN) E, k)
      else (E, 0))"

end
