(* ===== verification/EngineProps.thy ===== *)
theory EngineProps
  imports Engine
begin

text \<open>
  What the engine promises: over every run its entities mirror the blocks of the world, one entity per position,
  with the machine components all present or all absent; a formed multiblock is the pattern in the world and the slot
  ranges of its hatches are disjoint and inside the inventory; a saved multiblock is restored as it was. And what it
  does not: a block that replaces a machine keeps components of the old one.
\<close>

section \<open>Entities and positions\<close>

definition positions :: "plants \<Rightarrow> world_pos option list" where
  "positions R = map (p_pos \<circ> snd) R"

lemma plant_at_some: "plant_at q R = Some (i, p) \<Longrightarrow> (i, p) \<in> set R \<and> p_pos p = Some q"
  by (auto simp: plant_at_def find_Some_iff in_set_conv_nth)

lemma plant_at_other:
  "i \<notin> fst ` set R \<Longrightarrow> map_option (\<lambda>(j, r). (j, if j = i then p' else r)) (plant_at q R) = plant_at q R"
  by (cases "plant_at q R") (auto dest!: plant_at_some, force)

lemma plant_at_put:
  "\<lbrakk>um_wf R; um_find R i = Some p; p_pos p' = p_pos p\<rbrakk> \<Longrightarrow>
   plant_at q (um_put i p' R) = map_option (\<lambda>(j, r). (j, if j = i then p' else r)) (plant_at q R)"
proof (induction R)
  case Nil
  then show ?case by simp
next
  case (Cons a R)
  obtain j r where a: "a = (j, r)" by (cases a)
  show ?case
  proof (cases "j = i")
    case True
    then show ?thesis using Cons.prems a plant_at_other[of i R p' q] by (auto simp: plant_at_def)
  next
    case False
    then show ?thesis using Cons a by (auto simp: plant_at_def)
  qed
qed

lemma plant_at_find: "\<lbrakk>um_wf R; plant_at q R = Some (i, p)\<rbrakk> \<Longrightarrow> um_find R i = Some p \<and> p_pos p = Some q"
  using plant_at_some[of q R i p] um_find_in_set[of R i p] by simp

lemma plant_at_none: "plant_at q R = None \<longleftrightarrow> Some q \<notin> set (positions R)"
  by (induction R) (auto simp: plant_at_def positions_def)

lemma positions_put:
  "\<lbrakk>um_wf R; um_find R i = Some p; p_pos p' = p_pos p\<rbrakk> \<Longrightarrow> positions (um_put i p' R) = positions R"
  by (induction R) (auto simp: positions_def split: if_splits)

text \<open>Mapping one entity is putting its image.\<close>

lemma map_is_put:
  "\<lbrakk>um_wf R; um_find R i = Some p\<rbrakk> \<Longrightarrow> map (\<lambda>(j, r). (j, if j = i then f r else r)) R = um_put i (f p) R"
proof (induction R)
  case Nil
  then show ?case by simp
next
  case (Cons a R)
  obtain j r where a: "a = (j, r)" by (cases a)
  show ?case
  proof (cases "j = i")
    case True
    have "map (\<lambda>(j, r). (j, if j = i then f r else r)) R = R"
      using Cons.prems(1) a True by (intro map_idI) (auto, force)
    then show ?thesis using Cons.prems(2) a True by simp
  next
    case False
    then show ?thesis using Cons a by simp
  qed
qed

definition machine_whole :: "machine_table option \<Rightarrow> plant \<Rightarrow> bool" where
  "machine_whole t p \<longleftrightarrow>
     p_pos p \<noteq> None \<and>
     (case e_machine p of
        None \<Rightarrow> e_progress p = None \<and> e_slots p = None \<and> e_energy p = None
      | Some m \<Rightarrow> e_progress p \<noteq> None \<and> e_energy p \<noteq> None \<and>
          (case e_slots p of None \<Rightarrow> False | Some ss \<Rightarrow> p_slot_count p = of_nat (length ss)) \<and> p_pos p = Some (mc_pos m) \<and>
          isMachineBlock t (mc_machine m) \<and> map_option b_id (p_block p) = Some (mc_machine m))"

definition engine_ok :: "engine \<Rightarrow> bool" where
  "engine_ok E \<longleftrightarrow>
     um_wf (en_plants E) \<and> distinct (positions (en_plants E)) \<and> list_all (machine_whole (en_table E) \<circ> snd) (en_plants E)"

lemma engine_ok_new: "engine_ok (engine_new t)"
  by (simp add: engine_ok_def engine_new_def positions_def)

lemma list_all_put: "\<lbrakk>list_all (P \<circ> snd) R; P v\<rbrakk> \<Longrightarrow> list_all (P \<circ> snd) (um_put k v R)"
  by (induction R) auto

text \<open>An entity is updated at its position.\<close>

definition put_ok :: "u64 \<Rightarrow> plant \<Rightarrow> engine \<Rightarrow> engine \<Rightarrow> bool" where
  "put_ok i p' E E' \<longleftrightarrow>
     (\<exists>p. um_find (en_plants E) i = Some p \<and> p_pos p' = p_pos p) \<and> machine_whole (en_table E) p' \<and>
     en_plants E' = um_put i p' (en_plants E) \<and> en_table E' = en_table E"

lemma put_ok_engine_ok: "\<lbrakk>engine_ok E; put_ok i p' E E'\<rbrakk> \<Longrightarrow> engine_ok E'"
  by (auto simp: engine_ok_def put_ok_def positions_put list_all_put)

text \<open>The blocks an engine mirrors.\<close>

definition block_id_of :: "plant \<Rightarrow> u16" where
  "block_id_of p = (case p_block p of Some b \<Rightarrow> b_id b | None \<Rightarrow> 0)"

lemma engine_lookup_at:
  assumes "distinct (positions (en_plants E))"
  shows "engine_lookup E q = (case plant_at q (en_plants E) of None \<Rightarrow> 0 | Some (_, p) \<Rightarrow> block_id_of p)"
proof -
  have "(case find (\<lambda>(_, p). p_pos p = Some q \<and> p_block p \<noteq> None) R of
           Some (_, p) \<Rightarrow> (case p_block p of Some b \<Rightarrow> b_id b | None \<Rightarrow> 0) | None \<Rightarrow> 0)
        = (case plant_at q R of None \<Rightarrow> 0 | Some (_, p) \<Rightarrow> block_id_of p)"
    if "distinct (positions R)" for R
    using that
  proof (induction R)
    case Nil
    then show ?case by (simp add: plant_at_def)
  next
    case (Cons a R)
    obtain j r where a: "a = (j, r)" by (cases a)
    show ?case
    proof (cases "p_pos r = Some q")
      case True
      then have no: "Some q \<notin> set (positions R)" using Cons.prems a by (auto simp: positions_def)
      then have "find (\<lambda>(_, p). p_pos p = Some q \<and> p_block p \<noteq> None) R = None"
        by (fastforce simp: find_None_iff positions_def image_iff)
      then show ?thesis using True a by (auto simp: plant_at_def block_id_of_def)
    next
      case False
      then show ?thesis using Cons a by (simp add: plant_at_def positions_def)
    qed
  qed
  then show ?thesis using assms by (simp add: engine_lookup_def)
qed

lemma put_ok_lookup:
  assumes "engine_ok E" "put_ok i p' E E'" "plant_at q (en_plants E) = Some (i, p)"
  shows "engine_lookup E' = (engine_lookup E)(q := block_id_of p')"
proof
  fix q'
  have ok: "engine_ok E'" using assms(1,2) by (rule put_ok_engine_ok)
  have p: "um_find (en_plants E) i = Some p" "p_pos p = Some q"
    using plant_at_find[OF _ assms(3)] assms(1) by (simp_all add: engine_ok_def)
  have "plant_at q' (en_plants E') = map_option (\<lambda>(j, r). (j, if j = i then p' else r)) (plant_at q' (en_plants E))"
    using assms(1,2) plant_at_put[OF _ p(1), of p' q'] p by (auto simp: put_ok_def engine_ok_def)
  moreover have "j \<noteq> i" if "q' \<noteq> q" "plant_at q' (en_plants E) = Some (j, r)" for j r
    using plant_at_find[OF _ that(2)] p that(1) assms(1) by (auto simp: engine_ok_def)
  ultimately show "engine_lookup E' q' = ((engine_lookup E)(q := block_id_of p')) q'"
    using assms(1,3) ok by (cases "plant_at q' (en_plants E)") (auto simp: engine_lookup_at engine_ok_def)
qed

section \<open>Each operation\<close>

lemma engine_frame [simp]:
  "en_plants (logs ms E) = en_plants E" "en_table (logs ms E) = en_table E"
  "en_patterns (logs ms E) = en_patterns E" "en_controllers (logs ms E) = en_controllers E"
  "en_plants (removeBlockFromController mb q E) = en_plants E" "en_table (removeBlockFromController mb q E) = en_table E"
  "en_patterns (removeBlockFromController mb q E) = en_patterns E"
  "en_plants (unregisterController k E) = en_plants E" "en_table (unregisterController k E) = en_table E"
  "en_plants (registerController k q pid bs E) = en_plants E" "en_table (registerController k q pid bs E) = en_table E"
  "en_patterns (registerController k q pid bs E) = en_patterns E"
  "en_plants (put_plant i p E) = um_put i p (en_plants E)" "en_table (put_plant i p E) = en_table E"
  "en_patterns (put_plant i p E) = en_patterns E"
  by (simp_all add: logs_def removeBlockFromController_def on_blocks_def unregisterController_def registerController_def
      put_plant_def split: option.splits)

lemma strip_whole: "p_pos p \<noteq> None \<Longrightarrow> machine_whole t (strip_machine p)"
  by (simp add: machine_whole_def strip_machine_def)

lemma strip_simps [simp]:
  "p_pos (strip_machine p) = p_pos p" "p_block (strip_machine p) = p_block p" "e_machine (strip_machine p) = None"
  by (simp_all add: strip_machine_def)

lemma dissociate_plants:
  assumes "findEntityAt q E = Some (i, p)"
  shows "en_table (dissociate q p E) = en_table E \<and>
     (en_plants (dissociate q p E) = en_plants E \<or>
      en_plants (dissociate q p E) = um_put i ((strip_machine p)\<lparr>e_heat := None\<rparr>) (en_plants E))"
  using assms
  by (auto simp: dissociate_def destroyController_def Let_def findEntityAt_def
      split: option.splits if_splits)

lemma block_cleared_ok:
  assumes "engine_ok E"
  shows "engine_ok (block_cleared q E) \<and> en_table (block_cleared q E) = en_table E \<and>
     engine_lookup (block_cleared q E) = (engine_lookup E)(q := 0)"
proof (cases "findEntityAt q E")
  case None
  then have "engine_lookup E q = 0" using assms by (simp add: engine_lookup_at engine_ok_def findEntityAt_def)
  then show ?thesis using None assms by (auto simp: block_cleared_def)
next
  case (Some ip)
  obtain i p where ip: "ip = (i, p)" by (cases ip)
  let ?E = "dissociate q p E"
  have at: "plant_at q (en_plants E) = Some (i, p)" using Some ip by (simp add: findEntityAt_def)
  have f: "um_find (en_plants E) i = Some p" "p_pos p = Some q"
    using plant_at_find[OF _ at] assms by (simp_all add: engine_ok_def)
  obtain r where r: "um_find (en_plants ?E) i = Some r" "p_pos r = Some q"
    "e_machine r = None \<Longrightarrow> machine_whole (en_table E) (r\<lparr>p_block := None\<rparr>)"
    and pl: "\<And>v. um_put i v (en_plants ?E) = um_put i v (en_plants E)"
  proof -
    have whole: "machine_whole (en_table E) p"
      using assms f(1) map_of_SomeD[OF f(1)] by (fastforce simp: engine_ok_def list_all_iff)
    have twice: "um_put i v (um_put i w R) = um_put i v R" for v w and R :: plants
      by (induction R) auto
    from dissociate_plants[OF Some[unfolded ip]] consider
        "en_plants ?E = en_plants E" | "en_plants ?E = um_put i ((strip_machine p)\<lparr>e_heat := None\<rparr>) (en_plants E)" by blast
    then show thesis
    proof cases
      case 1
      then show thesis using f whole by (intro that[of p]) (simp_all add: machine_whole_def)
    next
      case 2
      then show thesis using f strip_whole[of p]
        by (intro that[of "(strip_machine p)\<lparr>e_heat := None\<rparr>"]) (simp_all add: um_simps twice machine_whole_def strip_machine_def)
    qed
  qed
  have tab: "en_table ?E = en_table E" using dissociate_plants[OF Some[unfolded ip]] by simp
  define r' where "r' = (if e_machine r = None then r\<lparr>p_block := None\<rparr> else strip_machine (r\<lparr>p_block := None\<rparr>))"
  have put: "put_ok i r' E (block_cleared q E)"
    using Some ip r f pl tab strip_whole[of "r\<lparr>p_block := None\<rparr>" "en_table E"]
    by (auto simp: put_ok_def block_cleared_def Let_def r'_def)
  have "block_id_of r' = 0" by (simp add: r'_def block_id_of_def)
  then show ?thesis using put_ok_engine_ok[OF assms put] put_ok_lookup[OF assms put at] put by (simp add: put_ok_def)
qed

text \<open>A formed multiblock changes only the anchor's entity, and keeps it whole.\<close>

definition keeps_whole :: "(plant \<Rightarrow> plant) \<Rightarrow> bool" where
  "keeps_whole f \<longleftrightarrow> (\<forall>p. p_pos (f p) = p_pos p \<and> block_id_of (f p) = block_id_of p \<and> (p_block (f p) = None \<longleftrightarrow> p_block p = None) \<and>
     (\<forall>t. machine_whole t p \<longrightarrow> machine_whole t (f p)))"

lemma keeps_whole_comp: "\<lbrakk>keeps_whole f; keeps_whole g\<rbrakk> \<Longrightarrow> keeps_whole (g \<circ> f)"
  by (simp add: keeps_whole_def)

lemma length_resize [simp]: "length (resize n ss) = n"
  by (simp add: resize_def)

lemma keeps_whole_steps:
  "keeps_whole (\<lambda>p. p)" "keeps_whole (set_external x)" "keeps_whole (set_mb mb)" "keeps_whole (assignHatchSlots c)"
  by (auto simp: keeps_whole_def set_external_def set_mb_def assignHatchSlots_def Let_def machine_whole_def block_id_of_def
      mc_pos_def split: option.splits)

definition mapped :: "u64 \<Rightarrow> engine \<Rightarrow> engine \<Rightarrow> bool" where
  "mapped i E E' \<longleftrightarrow>
     (\<exists>f. keeps_whole f \<and> en_plants E' = map (\<lambda>(j, p). (j, if j = i then f p else p)) (en_plants E)) \<and>
     en_table E' = en_table E \<and> en_patterns E' = en_patterns E"

lemma form_multiblock_mapped: "mapped i E (form_multiblock i q E)"
proof (cases "matchAll (en_patterns E) q (engine_lookup E)")
  case None
  have id: "map (\<lambda>(j, p). (j, if j = i then (\<lambda>p. p) p else p)) R = R" for R :: plants
    by (simp add: split_def)
  show ?thesis using None keeps_whole_steps(1) id[of "en_plants E"]
    unfolding mapped_def by (auto simp: form_multiblock_def intro!: exI[of _ "\<lambda>p. p"])
next
  case (Some r)
  let ?k = "en_next E"
  define E1 where "E1 = registerController ?k q (mr_pattern r) (mr_blocks r) (E\<lparr>en_next := ?k + 1\<rparr>)"
  define E3 where "E3 = logs [MultiblockCreated ?k q (ucast (mr_pattern r))]
     (E1\<lparr>en_plants := map (\<lambda>(j, p). (j, if j = i then set_mb (ucast ?k) (set_external True p) else p)) (en_plants E1)\<rparr>)"
  have E3: "mapped i E E3"
    unfolding mapped_def E3_def E1_def
    using keeps_whole_comp[OF keeps_whole_steps(2)[of True] keeps_whole_steps(3)[of "ucast ?k"]]
    by (auto simp: o_def intro!: exI[of _ "\<lambda>p. set_mb (ucast ?k) (set_external True p)"])
  show ?thesis
  proof (cases "getPattern (mr_pattern r) (en_patterns E)")
    case None
    then have "form_multiblock i q E = E3" using Some by (simp only: form_multiblock_def Let_def E3_def E1_def option.case)
    then show ?thesis using E3 by simp
  next
    case (Some pat)
    define c where "c = (getController ?k E3)\<lparr>ct_hatches := layout_hatches (findHatches q pat (engine_lookup E3))\<rparr>"
    define E4 where "E4 = E3\<lparr>en_controllers := um_put ?k c (en_controllers E3)\<rparr>"
    have eq: "form_multiblock i q E = (if pat_hatches pat = [] then E3 else
        E4\<lparr>en_plants := map (\<lambda>(j, p). (j, if j = i then assignHatchSlots c p else p)) (en_plants E4)\<rparr>)"
      using Some \<open>matchAll (en_patterns E) q (engine_lookup E) = Some r\<close>
      by (simp only: form_multiblock_def Let_def E4_def c_def E3_def E1_def option.case)
    obtain f where f: "keeps_whole f" "en_plants E3 = map (\<lambda>(j, p). (j, if j = i then f p else p)) (en_plants E)"
      "en_table E3 = en_table E" "en_patterns E3 = en_patterns E"
      using E3 by (auto simp: mapped_def)
    have "mapped i E (E4\<lparr>en_plants := map (\<lambda>(j, p). (j, if j = i then assignHatchSlots c p else p)) (en_plants E4)\<rparr>)"
      unfolding mapped_def
      by (intro conjI exI[of _ "assignHatchSlots c \<circ> f"] keeps_whole_comp keeps_whole_steps(4) f(1))
        (auto simp add: E4_def f(2-4))
    then show ?thesis using eq E3 by simp
  qed
qed

lemma mapped_ok:
  assumes "engine_ok E" "um_find (en_plants E) i = Some p" "plant_at q (en_plants E) = Some (i, p)" "mapped i E E'"
  shows "engine_ok E' \<and> engine_lookup E' = engine_lookup E \<and> en_table E' = en_table E"
proof -
  obtain f where f: "keeps_whole f" "en_plants E' = map (\<lambda>(j, p). (j, if j = i then f p else p)) (en_plants E)" "en_table E' = en_table E"
    using assms(4) by (auto simp: mapped_def)
  have wf: "um_wf (en_plants E)" using assms(1) by (simp add: engine_ok_def)
  have "machine_whole (en_table E) p"
    using assms(1) map_of_SomeD[OF assms(2)] by (fastforce simp: engine_ok_def list_all_iff)
  then have put: "put_ok i (f p) E E'"
    using f assms(2) map_is_put[OF wf assms(2), of f] by (simp add: put_ok_def keeps_whole_def)
  have "engine_lookup E q = block_id_of p"
    using assms(1,3) by (simp add: engine_lookup_at engine_ok_def)
  then have "engine_lookup E' = engine_lookup E"
    using put_ok_lookup[OF assms(1) put assms(3)] f(1) by (auto simp: keeps_whole_def)
  then show ?thesis using put_ok_engine_ok[OF assms(1) put] f(3) by simp
qed

lemma create_machine_facts:
  "isMachineBlock t (b_id ob) \<Longrightarrow> p_pos p = Some q \<Longrightarrow> p_block p = Some ob \<Longrightarrow>
   machine_whole t (create_machine t (b_id ob) mb q n p)"
  "p_pos (create_machine t b mb q n p) = p_pos p" "p_block (create_machine t b mb q n p) = p_block p"
  by (simp_all add: machine_whole_def create_machine_def Let_def mc_pos_def)

lemma place_at_ok:
  assumes "engine_ok E" "plant_at q (en_plants E) = Some (i, p)"
  shows "engine_ok (place_at i p q b meta mb E) \<and> en_table (place_at i p q b meta mb E) = en_table E \<and>
     engine_lookup (place_at i p q b meta mb E) = (engine_lookup E)(q := b)"
proof -
  have f: "um_find (en_plants E) i = Some p" "p_pos p = Some q"
    using plant_at_find[OF _ assms(2)] assms(1) by (simp_all add: engine_ok_def)
  define ob where "ob = \<lparr>b_id = b, b_meta = meta, b_mb = (case p_block p of Some ob \<Rightarrow>
      if b_mb ob \<noteq> 0 \<and> mb = 0 \<and> b_id ob = b then b_mb ob else mb | None \<Rightarrow> mb)\<rparr>"
  define p1 where "p1 = p\<lparr>p_block := Some ob\<rparr>"
  define E1 where "E1 = (case p_block p of
        Some ob \<Rightarrow> if b_mb ob \<noteq> 0 \<and> \<not> (mb = 0 \<and> b_id ob = b) \<and> b_mb ob \<noteq> mb then removeBlockFromController (b_mb ob) q E else E
      | None \<Rightarrow> E)"
  define E2 where "E2 = (if mb \<noteq> 0 then removeBlockFromController mb q E1 else E1)"
  have same: "en_plants E2 = en_plants E" "en_table E2 = en_table E" "en_patterns E2 = en_patterns E"
    by (simp_all add: E2_def E1_def split: option.splits)
  have whole: "machine_whole (en_table E) p"
    using assms(1) map_of_SomeD[OF f(1)] by (fastforce simp: engine_ok_def list_all_iff)
  have one: "put_ok i r E (logs ms (put_plant i r E2\<lparr>en_next := n\<rparr>))" if "p_pos r = Some q" "machine_whole (en_table E) r" for r ms n
    using that f same by (simp add: put_ok_def)
  have done1: "engine_ok E' \<and> en_table E' = en_table E \<and> engine_lookup E' = (engine_lookup E)(q := b)"
    if "put_ok i r E E'" "block_id_of r = b" for r E'
    using put_ok_engine_ok[OF assms(1) that(1)] put_ok_lookup[OF assms(1) that(1) assms(2)] that by (simp add: put_ok_def)
  have eq: "place_at i p q b meta mb E =
     (case e_machine p1 of
        Some m \<Rightarrow>
          if \<not> isMachineBlock (en_table E2) b then logs [OwnerRemoved i] (put_plant i (strip_machine p1) E2)
          else update_machine i p1 m b mb q E2
      | None \<Rightarrow>
          if \<not> isMachineBlock (en_table E2) b then put_plant i p1 E2
          else
            let E = logs [MachineCreated q b]
                  (put_plant i (create_machine (en_table E2) b mb q (en_next E2) p1) (E2\<lparr>en_next := en_next E2 + 1\<rparr>))
            in if mb = 0 \<and> isControllerBlock (en_patterns E) b then form_multiblock i q E else E)"
    by (simp only: place_at_def Let_def E1_def E2_def ob_def p1_def)
  have p1m: "e_machine p1 = e_machine p" by (simp add: p1_def)
  have bid: "block_id_of p1 = b" "block_id_of (strip_machine p1) = b" by (simp_all add: p1_def ob_def block_id_of_def)
  show ?thesis
  proof (cases "isMachineBlock (en_table E) b")
    case False
    show ?thesis
    proof (cases "e_machine p")
      case None
      have "put_ok i p1 E (put_plant i p1 E2)"
        using f same whole None by (simp add: put_ok_def p1_def machine_whole_def)
      moreover have "place_at i p q b meta mb E = put_plant i p1 E2"
        using eq False None same p1m by simp
      ultimately show ?thesis using done1[of p1 "put_plant i p1 E2"] bid by metis
    next
      case (Some m)
      have "put_ok i (strip_machine p1) E (logs [OwnerRemoved i] (put_plant i (strip_machine p1) E2))"
        using f same strip_whole[of p1] by (simp add: put_ok_def p1_def)
      moreover have "place_at i p q b meta mb E = logs [OwnerRemoved i] (put_plant i (strip_machine p1) E2)"
        using eq False Some same p1m by simp
      ultimately show ?thesis using done1[OF _ bid(2)] by metis
    qed
  next
    case True
    show ?thesis
    proof (cases "e_machine p")
      case (Some m)
      define p2 where "p2 = p1\<lparr>e_machine := Some (m\<lparr>mc_machine := b, mc_x := fst q, mc_y := fst (snd q), mc_z := snd (snd q),
         mc_external := machine_external b mb q E2\<rparr>), p_mb := mb\<rparr>"
      have "place_at i p q b meta mb E = update_machine i p1 m b mb q E2"
        using eq True Some same p1m by simp
      moreover have "put_ok i p2 E (update_machine i p1 m b mb q E2)"
        using f same whole Some True
        by (cases "e_slots p") (simp_all add: put_ok_def update_machine_def Let_def p2_def p1_def ob_def machine_whole_def mc_pos_def)
      moreover have "block_id_of p2 = b" by (simp add: p2_def p1_def ob_def block_id_of_def)
      ultimately show ?thesis using done1[of p2 "update_machine i p1 m b mb q E2"] by metis
    next
      case None
      define p2 where "p2 = create_machine (en_table E2) b mb q (en_next E2) p1"
      define E3 where "E3 = logs [MachineCreated q b] (put_plant i p2 (E2\<lparr>en_next := en_next E2 + 1\<rparr>))"
      have eq': "place_at i p q b meta mb E = (if mb = 0 \<and> isControllerBlock (en_patterns E3) b then form_multiblock i q E3 else E3)"
        using eq True None same p1m by (simp add: Let_def E3_def p2_def)
      have "p_pos p2 = Some q" "machine_whole (en_table E) p2" "block_id_of p2 = b"
        using f same True create_machine_facts(1)[of "en_table E" ob p1 q mb "en_next E2"]
        by (simp_all add: p2_def p1_def ob_def create_machine_facts block_id_of_def)
      moreover have "put_ok i p2 E E3" using f same calculation by (simp add: put_ok_def E3_def)
      ultimately have E3: "engine_ok E3 \<and> en_table E3 = en_table E \<and> engine_lookup E3 = (engine_lookup E)(q := b)"
        using done1[of p2 E3] by simp
      have "um_find (en_plants E3) i = Some p2" by (simp add: E3_def um_simps)
      moreover have "plant_at q (en_plants E3) = Some (i, p2)"
        using assms f plant_at_put[of "en_plants E" i p p2 q] same \<open>p_pos p2 = Some q\<close> by (simp add: E3_def engine_ok_def)
      ultimately show ?thesis using eq' E3 mapped_ok[OF _ _ _ form_multiblock_mapped, of E3 i p2 q q] by auto
    qed
  qed
qed

lemma block_set_ok:
  assumes "engine_ok E" "alloc (en_plants E) \<notin> fst ` set (en_plants E)"
  shows "engine_ok (block_set alloc q b meta mb E) \<and> en_table (block_set alloc q b meta mb E) = en_table E \<and>
     engine_lookup (block_set alloc q b meta mb E) = (engine_lookup E)(q := b)"
proof (cases "findEntityAt q E")
  case (Some ip)
  then show ?thesis using place_at_ok[OF assms(1), of q "fst ip" "snd ip"]
    by (cases ip) (simp add: block_set_def findEntityAt_def)
next
  case None
  define i where "i = alloc (en_plants E)"
  define p where "p = no_plant\<lparr>p_pos := Some q\<rparr>"
  define E1 where "E1 = E\<lparr>en_plants := (i, p) # en_plants E\<rparr>"
  have at: "plant_at q (en_plants E) = None" using None by (simp add: findEntityAt_def)
  have ok: "engine_ok E1"
    using assms at by (auto simp: engine_ok_def E1_def p_def no_plant_def machine_whole_def positions_def i_def plant_at_none)
  have p: "plant_at q (en_plants E1) = Some (i, p)" by (simp add: E1_def p_def plant_at_def)
  have "engine_lookup E1 q' = engine_lookup E q'" for q'
    using ok assms(1) at by (cases "q' = q") (simp_all add: engine_lookup_at engine_ok_def E1_def plant_at_def p_def no_plant_def block_id_of_def)
  then have "engine_lookup E1 = engine_lookup E" by blast
  moreover have "block_set alloc q b meta mb E = place_at i p q b meta mb E1"
    using None by (simp add: block_set_def Let_def i_def p_def E1_def)
  ultimately show ?thesis using place_at_ok[OF ok p, of b meta mb] by (simp add: E1_def)
qed

lemma onBlockChanged_ok:
  assumes "engine_ok E" "alloc (en_plants E) \<notin> fst ` set (en_plants E)"
  shows "engine_ok (onBlockChanged alloc q b meta mb E) \<and> en_table (onBlockChanged alloc q b meta mb E) = en_table E \<and>
     engine_lookup (onBlockChanged alloc q b meta mb E) = (engine_lookup E)(q := b)"
  using block_cleared_ok[OF assms(1), of q] block_set_ok[of E alloc q b meta mb] assms by (simp add: onBlockChanged_def)

section \<open>Runs\<close>

text \<open>
  A run of the engine next to the world it is told about: every block change reaches both, and the other operations
  leave the world alone. The allocator has to return an unused entity when a block is placed.
\<close>

inductive engine_run :: "(plants \<Rightarrow> u64) \<Rightarrow> machine_table option \<Rightarrow> engine \<Rightarrow> lookup \<Rightarrow> bool" for alloc t where
  start: "engine_run alloc t (engine_new t) (\<lambda>_. 0)"
| change: "\<lbrakk>engine_run alloc t E w; alloc (en_plants E) \<notin> fst ` set (en_plants E)\<rbrakk> \<Longrightarrow>
     engine_run alloc t (onBlockChanged alloc q b meta mb E) (w(q := b))"
| restored: "engine_run alloc t E w \<Longrightarrow> engine_run alloc t (deserializeMultiblock k s E) w"
| registered: "engine_run alloc t E w \<Longrightarrow> engine_run alloc t (registerController k q pid bs E) w"
| unregistered: "engine_run alloc t E w \<Longrightarrow> engine_run alloc t (unregisterController k E) w"
| electrolyser: "engine_run alloc t E w \<Longrightarrow> engine_run alloc t (fst (matchElectrolyser q k E)) w"

lemma restore_ok:
  assumes "engine_ok E"
  shows "engine_ok (deserializeMultiblock k s E) \<and> en_table (deserializeMultiblock k s E) = en_table E \<and>
     engine_lookup (deserializeMultiblock k s E) = engine_lookup E"
proof (cases "\<exists>c s' i p. s = Some s' \<and> um_find (en_controllers E) k = Some c \<and> findEntityAt (ct_pos c) E = Some (i, p)")
  case False
  then show ?thesis using assms by (auto simp: deserializeMultiblock_def split: option.splits)
next
  case True
  then obtain c s' i p where e: "s = Some s'" "um_find (en_controllers E) k = Some c" "plant_at (ct_pos c) (en_plants E) = Some (i, p)"
    by (auto simp: findEntityAt_def)
  have f: "um_find (en_plants E) i = Some p" using plant_at_find[OF _ e(3)] assms by (simp add: engine_ok_def)
  have "machine_whole (en_table E) p"
    using assms map_of_SomeD[OF f] by (fastforce simp: engine_ok_def list_all_iff)
  then have put: "put_ok i (restore_plant s' p) E (deserializeMultiblock k s E)"
    using e f by (auto simp: put_ok_def deserializeMultiblock_def findEntityAt_def restore_plant_def machine_whole_def split: option.splits)
  have "engine_lookup E (ct_pos c) = block_id_of (restore_plant s' p)"
    using assms e(3) by (simp add: engine_lookup_at engine_ok_def block_id_of_def restore_plant_def)
  then have "engine_lookup (deserializeMultiblock k s E) = engine_lookup E"
    using put_ok_lookup[OF assms put e(3)] fun_upd_triv[of "engine_lookup E" "ct_pos c"] by metis
  then show ?thesis using put_ok_engine_ok[OF assms put] put by (simp add: put_ok_def)
qed

lemma same_plants:
  "\<lbrakk>en_plants E' = en_plants E; en_table E' = en_table E; engine_ok E\<rbrakk> \<Longrightarrow> engine_ok E' \<and> engine_lookup E' = engine_lookup E"
  by (simp add: engine_ok_def engine_lookup_def fun_eq_iff)

lemma engine_run_ok: "engine_run alloc t E w \<Longrightarrow> engine_ok E \<and> en_table E = t \<and> engine_lookup E = w"
proof (induction rule: engine_run.induct)
  case start
  show ?case using engine_ok_new[of t] by (auto simp: engine_lookup_def engine_new_def)
next
  case (change E w q b meta mb)
  then show ?case using onBlockChanged_ok[of E alloc q b meta mb] by simp
next
  case (restored E w k s)
  then show ?case using restore_ok[of E k s] by simp
next
  case (registered E w k q pid bs)
  then show ?case using same_plants[of "registerController k q pid bs E" E] by simp
next
  case (unregistered E w k)
  then show ?case using same_plants[of "unregisterController k E" E] by simp
next
  case (electrolyser E w q k)
  then show ?case using same_plants[of "registerController k q 0 (map (\<lambda>d. mbPack (electrolyser_pos q d)) ELECTROLYSER_PATTERN) E" E]
    by (simp add: matchElectrolyser_def)
qed

definition next_entity :: "plants \<Rightarrow> u64" where
  "next_entity R = of_nat (length R)"

text \<open>C4: over every run of the engine its entities show exactly the blocks of the world it was told about.\<close>

theorem engine_mirrors_world:
  assumes "engine_run alloc t E w"
  shows "engine_lookup E q = w q"
  using engine_run_ok[OF assms] by simp

definition demo_machine :: "u16 \<Rightarrow> string \<Rightarrow> machine_info" where
  "demo_machine b cl = \<lparr>mi_id = b, mi_name = cl, mi_class = cl, mi_in = Some ELECTRICITY, mi_out = None, mi_tier = 1, mi_slots_in = 2,
     mi_slots_out = 1, mi_capacity = 400, mi_maxInput = 32, mi_maxOutput = 0, mi_interact = False\<rparr>"

definition demo_table :: machine_table where
  "demo_table = [(7, demo_machine 7 ''battery_buffer''), (8, demo_machine 8 ''furnace'')]"

definition demo_run :: "engine" where
  "demo_run =
     onBlockChanged next_entity (1, 2, 3) 8 0 0
       (onBlockChanged next_entity (4, 5, 6) 9 0 0 (onBlockChanged next_entity (1, 2, 3) 7 0 0 (engine_new (Some demo_table))))"

lemma demo_fresh:
  "next_entity (en_plants (engine_new (Some demo_table))) \<notin> fst ` set (en_plants (engine_new (Some demo_table)))"
  "next_entity (en_plants (onBlockChanged next_entity (1, 2, 3) 7 0 0 (engine_new (Some demo_table)))) \<notin>
     fst ` set (en_plants (onBlockChanged next_entity (1, 2, 3) 7 0 0 (engine_new (Some demo_table))))"
  "next_entity (en_plants (onBlockChanged next_entity (4, 5, 6) 9 0 0 (onBlockChanged next_entity (1, 2, 3) 7 0 0 (engine_new (Some demo_table))))) \<notin>
     fst ` set (en_plants (onBlockChanged next_entity (4, 5, 6) 9 0 0 (onBlockChanged next_entity (1, 2, 3) 7 0 0 (engine_new (Some demo_table)))))"
  by code_simp+

lemma demo_is_run:
  "engine_run next_entity (Some demo_table) demo_run (((\<lambda>_. 0)((1, 2, 3) := 7))((4, 5, 6) := 9, (1, 2, 3) := 8))"
  unfolding demo_run_def by (intro engine_run.intros demo_fresh)

theorem engine_mirrors_world_witness: "engine_lookup demo_run (1, 2, 3) = 8"
  using engine_mirrors_world[OF demo_is_run, of "(1, 2, 3)"] by simp

text \<open>C25: in every run the entities have distinct ids and distinct positions, and an entity is either no machine and has
  no progress, slots or energy, or a machine with all of them, at the position and for the block it stands for, with
  as many slots as its 16-bit slot count says.\<close>

theorem engine_entities_whole:
  assumes "engine_run alloc t E w"
  shows "distinct (map fst (en_plants E)) \<and> distinct (map (p_pos \<circ> snd) (en_plants E)) \<and>
     list_all (machine_whole t \<circ> snd) (en_plants E)"
  using engine_run_ok[OF assms] by (auto simp: engine_ok_def um_wf_def positions_def)

theorem engine_entities_whole_witness:
  "machine_whole (Some demo_table) (the (um_find (en_plants demo_run) 0)) \<and> e_machine (the (um_find (en_plants demo_run) 0)) \<noteq> None"
proof -
  have at: "um_find (en_plants demo_run) 0 = Some (the (um_find (en_plants demo_run) 0))"
    "e_machine (the (um_find (en_plants demo_run) 0)) \<noteq> None"
    by code_simp+
  have "list_all (machine_whole (Some demo_table) \<circ> snd) (en_plants demo_run)"
    using engine_entities_whole[OF demo_is_run] by blast
  from this[unfolded list_all_iff, rule_format, OF map_of_SomeD[OF at(1)]] at(2) show ?thesis by (simp only: o_apply snd_conv simp_thms)
qed

section \<open>Multiblocks\<close>

definition build :: "(world_pos \<times> u16) list \<Rightarrow> engine \<Rightarrow> engine" where
  "build cs E = fold (\<lambda>(q, b). onBlockChanged next_entity q b 0 0) cs E"

fun fresh_build :: "(world_pos \<times> u16) list \<Rightarrow> engine \<Rightarrow> bool" where
  "fresh_build [] E \<longleftrightarrow> True"
| "fresh_build ((q, b) # cs) E \<longleftrightarrow>
     list_all (\<lambda>(i, _). i \<noteq> next_entity (en_plants E)) (en_plants E) \<and> fresh_build cs (onBlockChanged next_entity q b 0 0 E)"

primrec world_after :: "(world_pos \<times> u16) list \<Rightarrow> lookup \<Rightarrow> lookup" where
  "world_after [] w = w"
| "world_after (c # cs) w = world_after cs (w(fst c := snd c))"

lemma build_is_run:
  "\<lbrakk>engine_run next_entity t E w; fresh_build cs E\<rbrakk> \<Longrightarrow>
   engine_run next_entity t (build cs E) (world_after cs w)"
proof (induction cs arbitrary: E w)
  case Nil
  then show ?case by (simp add: build_def)
next
  case (Cons c cs)
  obtain q b where c: "c = (q, b)" by (cases c)
  have "next_entity (en_plants E) \<notin> fst ` set (en_plants E)"
    using Cons.prems(2) by (force simp: c list_all_iff)
  then have run: "engine_run next_entity t (onBlockChanged next_entity q b 0 0 E) (w(q := b))"
    using Cons.prems(1) by (rule engine_run.change[rotated])
  have "fresh_build cs (onBlockChanged next_entity q b 0 0 E)" using Cons.prems(2) by (simp add: c)
  moreover have "build (c # cs) E = build cs (onBlockChanged next_entity q b 0 0 E)" by (simp add: c build_def)
  moreover have "world_after (c # cs) w = world_after cs (w(q := b))" by (simp only: c world_after.simps fst_conv snd_conv)
  ultimately show ?case using Cons.IH[OF run] by (simp only:)
qed

text \<open>A large chemical reactor around (10, 12, 20), built casing by casing; the table knows its controller.\<close>

definition lcr_cells :: "(world_pos \<times> u16) list" where
  "lcr_cells =
     [((of_nat (9 + x), of_nat (10 + y), of_nat (19 + z)), 1001).
        y \<leftarrow> [0..<3], z \<leftarrow> [0..<3], x \<leftarrow> [0..<3],
        (y = 1 \<longrightarrow> x \<noteq> 1 \<and> z \<noteq> 1) \<and> (y = 2 \<longrightarrow> x \<noteq> 1 \<or> z \<noteq> 1)]"

definition lcr_table :: machine_table where
  "lcr_table = [(1006, demo_machine 1006 ''lcr''), (7, demo_machine 7 ''battery_buffer'')]"

definition lcr_shell :: engine where
  "lcr_shell = build lcr_cells (engine_new (Some lcr_table))"

lemma lcr_shell_run: "engine_run next_entity (Some lcr_table) lcr_shell (world_after lcr_cells (\<lambda>_. 0))"
proof -
  have "fresh_build lcr_cells (engine_new (Some lcr_table))" by code_simp
  then show ?thesis unfolding lcr_shell_def by (rule build_is_run[OF engine_run.start])
qed

lemma run_patterns: "engine_run alloc t E w \<Longrightarrow> en_patterns E = pattern_registry"
proof (induction rule: engine_run.induct)
  case start
  then show ?case by (simp add: engine_new_def)
next
  case (change E w q b meta mb)
  have d: "en_patterns (dissociate q p E) = en_patterns E" for q p E
    by (auto simp: dissociate_def destroyController_def unregisterController_def Let_def split: option.splits)
  have p: "en_patterns (place_at i p q b meta mb E) = en_patterns E" for i p E
    using form_multiblock_mapped by (auto simp: place_at_def update_machine_def Let_def mapped_def split: option.splits)
  show ?case using change
    by (auto simp: onBlockChanged_def block_cleared_def block_set_def p d Let_def split: option.splits)
next
  case (restored E w k s)
  then show ?case by (simp add: deserializeMultiblock_def split: option.splits)
qed (simp_all add: unregisterController_def matchElectrolyser_def)

text \<open>A pattern of the registry is found exactly when one is built.\<close>

lemma matchAll_built:
  assumes "um_wf ps"
  shows "matchAll ps q look \<noteq> None \<longleftrightarrow> list_ex (\<lambda>(_, pat). built pat q look) ps"
proof -
  have "matchById ps i q look \<noteq> None \<longleftrightarrow> built pat q look" if "(i, pat) \<in> set ps" for i pat
    using that assms by (auto simp: matchById_some getPattern_def um_find_in_set)
  then have "(\<exists>x\<in>set ps. matchById ps (fst x) q look \<noteq> None) \<longleftrightarrow> (\<exists>x\<in>set ps. built (snd x) q look)"
    by (metis prod.collapse)
  then show ?thesis by (simp add: matchAll_def first_match_none list_ex_iff case_prod_beta)
qed

lemma form_multiblock_active:
  "isControllerActive k (form_multiblock i q E) \<longleftrightarrow>
     isControllerActive k E \<or> (k = en_next E \<and> matchAll (en_patterns E) q (engine_lookup E) \<noteq> None)"
  by (auto simp: form_multiblock_def isControllerActive_def registerController_def logs_def um_contains_def um_find_put
      um_find_emplace Let_def split: option.splits if_splits)

lemma find_block_map:
  assumes "\<And>j p. p_pos (g j p) = p_pos p" "\<And>j p. (p_block (g j p) = None) = (p_block p = None)"
    "\<And>j p. block_id_of (g j p) = block_id_of p"
  shows "(case find (\<lambda>(_, p). p_pos p = Some q \<and> p_block p \<noteq> None) (map (\<lambda>(j, p). (j, g j p)) R) of
           Some (_, p) \<Rightarrow> block_id_of p | None \<Rightarrow> 0) =
         (case find (\<lambda>(_, p). p_pos p = Some q \<and> p_block p \<noteq> None) R of Some (_, p) \<Rightarrow> block_id_of p | None \<Rightarrow> 0)"
  by (induction R) (simp_all add: assms split_def del: not_None_eq)

lemma form_multiblock_lookup: "engine_lookup (form_multiblock i q E) = engine_lookup E"
proof -
  obtain f where f: "keeps_whole f" "en_plants (form_multiblock i q E) = map (\<lambda>(j, p). (j, if j = i then f p else p)) (en_plants E)"
    using form_multiblock_mapped[of i E q] by (auto simp: mapped_def)
  have bid: "(case p_block p of Some b \<Rightarrow> b_id b | None \<Rightarrow> 0) = block_id_of p" for p by (simp add: block_id_of_def)
  show ?thesis
    using f(1) find_block_map[of "\<lambda>j p. if j = i then f p else p"]
    unfolding engine_lookup_def bid f(2) by (simp add: keeps_whole_def fun_eq_iff)
qed

text \<open>Where nothing was built before, placing a controller block ends in the match.\<close>

definition clear_at :: "world_pos \<Rightarrow> engine \<Rightarrow> bool" where
  "clear_at q E \<longleftrightarrow> (case findEntityAt q E of None \<Rightarrow> True | Some (_, p) \<Rightarrow> e_machine p = None \<and> p_block p = None)"

lemma block_set_forms:
  assumes "engine_ok E" "alloc (en_plants E) \<notin> fst ` set (en_plants E)" "clear_at q E"
    "isMachineBlock (en_table E) b" "isControllerBlock (en_patterns E) b"
  obtains i E3 where "block_set alloc q b meta 0 E = form_multiblock i q E3" "en_next E3 = en_next E + 1"
    "en_controllers E3 = en_controllers E" "en_patterns E3 = en_patterns E"
proof -
  have place: "\<exists>E3. place_at i p q b meta 0 F = form_multiblock i q E3 \<and> en_next E3 = en_next F + 1 \<and>
      en_controllers E3 = en_controllers F \<and> en_patterns E3 = en_patterns F"
    if "e_machine p = None" "p_block p = None" "en_table F = en_table E" "en_patterns F = en_patterns E" for i p F
    using that assms(4,5)
    by (intro exI[of _ "logs [MachineCreated q b] (put_plant i (create_machine (en_table F) b 0 q (en_next F)
          (p\<lparr>p_block := Some \<lparr>b_id = b, b_meta = meta, b_mb = 0\<rparr>\<rparr>)) (F\<lparr>en_next := en_next F + 1\<rparr>))"])
      (simp add: place_at_def Let_def logs_def put_plant_def)
  show thesis
  proof (cases "findEntityAt q E")
    case None
    let ?i = "alloc (en_plants E)" and ?p = "no_plant\<lparr>p_pos := Some q\<rparr>"
    let ?F = "E\<lparr>en_plants := (?i, ?p) # en_plants E\<rparr>"
    obtain E3 where "place_at ?i ?p q b meta 0 ?F = form_multiblock ?i q E3" "en_next E3 = en_next ?F + 1"
        "en_controllers E3 = en_controllers ?F" "en_patterns E3 = en_patterns ?F"
      using place[of ?p ?F ?i] by (auto simp: no_plant_def)
    then show thesis using None by (intro that[of ?i E3]) (simp_all add: block_set_def Let_def)
  next
    case (Some ip)
    obtain E3 where "place_at (fst ip) (snd ip) q b meta 0 E = form_multiblock (fst ip) q E3" "en_next E3 = en_next E + 1"
        "en_controllers E3 = en_controllers E" "en_patterns E3 = en_patterns E"
      using place[of "snd ip" E "fst ip"] assms(3) Some by (auto simp: clear_at_def split: prod.splits)
    then show thesis using Some by (intro that[of "fst ip" E3]) (simp_all add: block_set_def case_prod_beta)
  qed
qed

text \<open>C29: a controller block placed on a free position forms a multiblock, under the next id, exactly when a pattern of
  the library stands around it in the world.
\<close>

theorem multiblock_forms_iff_built:
  assumes "engine_run alloc t E w" "alloc (en_plants E) \<notin> fst ` set (en_plants E)" "clear_at q E"
    and "b \<noteq> 0" "isMachineBlock t b" "isControllerBlock pattern_registry b" "\<not> isControllerActive (en_next E + 1) E"
  shows "isControllerActive (en_next E + 1) (onBlockChanged alloc q b meta 0 E) \<longleftrightarrow>
     list_ex (\<lambda>(_, pat). built pat q (w(q := b))) pattern_registry"
proof -
  have ok: "engine_ok E" "en_table E = t" "engine_lookup E = w" "en_patterns E = pattern_registry"
    using engine_run_ok[OF assms(1)] run_patterns[OF assms(1)] by simp_all
  have pre: "isMachineBlock (en_table E) b" "isControllerBlock (en_patterns E) b" using assms(5,6) ok by simp_all
  obtain i E3 where E3: "block_set alloc q b meta 0 E = form_multiblock i q E3" "en_next E3 = en_next E + 1"
      "en_controllers E3 = en_controllers E" "en_patterns E3 = en_patterns E"
    by (rule block_set_forms[of E alloc q b meta, OF ok(1) assms(2,3) pre])
  have "engine_lookup E3 = w(q := b)"
    using block_set_ok[of E alloc q b meta 0] ok(1,3) assms(2) form_multiblock_lookup[of i q E3] E3(1) by simp
  moreover have "isControllerActive (en_next E + 1) E3 = isControllerActive (en_next E + 1) E"
    by (simp add: isControllerActive_def E3(3))
  moreover have "um_wf pattern_registry" by (simp add: pattern_registry_def addPattern_def)
  ultimately show ?thesis
    using assms(4,7) E3 ok(4) matchAll_built[of pattern_registry q "w(q := b)"]
    by (simp add: onBlockChanged_def form_multiblock_active)
qed

definition shell_ready :: "engine \<Rightarrow> bool" where
  "shell_ready E \<longleftrightarrow>
     en_next E = 1 \<and> list_all (\<lambda>(i, _). i \<noteq> next_entity (en_plants E)) (en_plants E) \<and> clear_at (10, 12, 20) E \<and>
     \<not> isControllerActive 2 E"

theorem multiblock_forms_iff_built_witness:
  "isControllerActive 2 (onBlockChanged next_entity (10, 12, 20) 1006 0 0 lcr_shell)"
proof -
  have ready: "shell_ready lcr_shell" by code_simp
  then have "next_entity (en_plants lcr_shell) \<notin> fst ` set (en_plants lcr_shell)" by (force simp: shell_ready_def list_all_iff)
  moreover have "list_ex (\<lambda>(_, pat). built pat (10, 12, 20) ((world_after lcr_cells (\<lambda>_. 0))((10, 12, 20) := 1006))) pattern_registry"
    by code_simp
  moreover have "isMachineBlock (Some lcr_table) 1006" "isControllerBlock pattern_registry 1006" by code_simp+
  ultimately show ?thesis
    using multiblock_forms_iff_built[OF lcr_shell_run, of "(10, 12, 20)" 1006 0] ready by (simp add: shell_ready_def)
qed

end
