(* ===== verification/Multiblocks.thy ===== *)
theory Multiblocks
  imports EngineProps
begin

text \<open>
  What the engine does with a formed multiblock: the item hatches get slot ranges of their own inside the inventory,
  the saved state restores heat, recipe and slots, and concrete runs in which block changes leave components of an old
  machine, or a controller without its anchor, behind.
\<close>

section \<open>Hatch slots\<close>


definition item_hatches :: "hatch_slot list \<Rightarrow> nat" where
  "item_hatches hs = length (filter hasItemSlots hs)"

lemma item_hatches_simps [simp]:
  "item_hatches [] = 0" "item_hatches (h # hs) = (if hasItemSlots h then 1 else 0) + item_hatches hs"
  by (simp_all add: item_hatches_def)

lemma assign_types [simp]: "map hs_type (assign_offsets off hs) = map hs_type hs"
  by (induction off hs rule: assign_offsets.induct) auto

lemma assign_length [simp]: "length (assign_offsets off hs) = length hs"
  using assign_types[of off hs] map_eq_imp_length_eq by blast









section \<open>Saving and restoring\<close>

text \<open>C31: whatever happens to the anchor's entity between saving and restoring, as long as it is a machine with a heat
  buffer, restoring brings back the heat, the recipe, its remaining ticks and a non-empty inventory.
\<close>

theorem saved_multiblock_restored:
  assumes "engine_ok E" "engine_ok E'"
    and "um_find (en_controllers E) k = Some c" "findEntityAt (ct_pos c) E = Some (i, p)"
    and "e_heat p = Some h" "e_progress p = Some r" "e_slots p = Some ss" "ss \<noteq> []"
    and "um_find (en_controllers E') k = Some c'" "ct_pos c' = ct_pos c" "findEntityAt (ct_pos c) E' = Some (i', p')"
    and "e_heat p' = Some h'" "e_progress p' = Some r'" "e_slots p' = Some ss'"
  shows "\<exists>p''. findEntityAt (ct_pos c) (deserializeMultiblock k (serializeMultiblock k E) E') = Some (i', p'') \<and>
     e_heat p'' = Some (h'\<lparr>hi_stored := hi_stored h\<rparr>) \<and> e_slots p'' = Some ss \<and>
     e_progress p'' = Some (r'\<lparr>rp_recipe := rp_recipe r, rp_remaining := rp_remaining r, rp_processing := rp_recipe r \<noteq> [], rp_pending := None\<rparr>)"
proof -
  define s where "s = saved_of c (Some p)"
  have ser: "serializeMultiblock k E = Some s" using assms(3,4) by (simp add: serializeMultiblock_def s_def)
  have at: "plant_at (ct_pos c) (en_plants E') = Some (i', p')" using assms(11) by (simp add: findEntityAt_def)
  have f: "um_find (en_plants E') i' = Some p'" "um_wf (en_plants E')"
    using plant_at_find[OF _ at] assms(2) by (simp_all add: engine_ok_def)
  have "deserializeMultiblock k (Some s) E' = put_plant i' (restore_plant s p') E'"
    using assms(9-11) by (simp add: deserializeMultiblock_def)
  moreover have "plant_at (ct_pos c) (um_put i' (restore_plant s p') (en_plants E')) = Some (i', restore_plant s p')"
    using plant_at_put[OF f(2,1), of "restore_plant s p'" "ct_pos c"] at by (simp add: restore_plant_def)
  ultimately have "findEntityAt (ct_pos c) (deserializeMultiblock k (Some s) E') = Some (i', restore_plant s p')"
    by (simp add: findEntityAt_def)
  then show ?thesis using assms(5-8,12-14) ser by (simp add: restore_plant_def s_def saved_of_def Let_def)
qed

definition heat_table :: machine_table where
  "heat_table = [(8, (demo_machine 8 ''hbf'')\<lparr>mi_in := Some HEAT, mi_capacity := 900\<rparr>), (7, demo_machine 7 ''battery_buffer'')]"

definition saved_world :: engine where
  "saved_world = registerController 5 (1, 2, 3) 4 [] (onBlockChanged next_entity (1, 2, 3) 8 0 0 (engine_new (Some heat_table)))"

definition saved_demo :: saved_state where
  "saved_demo = \<lparr>sv_id = 5, sv_pos = (1, 2, 3), sv_pattern = 4, sv_blocks = [], sv_heat = 250, sv_progress = 60, sv_ticks = 60,
     sv_recipe = ''steel'', sv_slots = Some [\<lparr>item_id = 21, cnt = 9, pmeta = 0\<rparr>]\<rparr>"

lemma saved_world_run: "engine_run next_entity (Some heat_table) saved_world ((\<lambda>_. 0)((1, 2, 3) := 8))"
proof -
  have "next_entity (en_plants (engine_new (Some heat_table))) \<notin> fst ` set (en_plants (engine_new (Some heat_table)))"
    by (simp add: engine_new_def)
  then show ?thesis unfolding saved_world_def by (intro engine_run.intros)
qed

theorem saved_multiblock_restored_witness:
  "serializeMultiblock 5 (deserializeMultiblock 5 (serializeMultiblock 5 (deserializeMultiblock 5 (Some saved_demo) saved_world)) saved_world)
     = Some saved_demo"
proof -
  let ?E = "deserializeMultiblock 5 (Some saved_demo) saved_world"
  define P where "P E = snd (the (findEntityAt (1, 2, 3) E))" for E
  have run: "engine_run next_entity (Some heat_table) ?E ((\<lambda>_. 0)((1, 2, 3) := 8))"
    by (rule engine_run.restored[OF saved_world_run])
  have "findEntityAt (1, 2, 3) ?E = Some (0, P ?E)" "findEntityAt (1, 2, 3) saved_world = Some (0, P saved_world)"
    unfolding P_def by code_simp+
  note at = this
  have "e_heat (P ?E) = Some \<lparr>hi_stored = 250, hi_capacity = 1000\<rparr>"
    "e_progress (P ?E) = Some \<lparr>rp_recipe = ''steel'', rp_remaining = 60, rp_processing = True, rp_needs_output = False, rp_pending = None\<rparr>"
    "e_slots (P ?E) = Some [\<lparr>item_id = 21, cnt = 9, pmeta = 0\<rparr>]"
    "e_heat (P saved_world) = Some \<lparr>hi_stored = 0, hi_capacity = 1000\<rparr>"
    "e_progress (P saved_world) = Some \<lparr>rp_recipe = [], rp_remaining = 0, rp_processing = False, rp_needs_output = False, rp_pending = None\<rparr>"
    "e_slots (P saved_world) = Some (replicate 3 no_slot)"
    "um_find (en_controllers ?E) 5 = Some \<lparr>ct_id = 5, ct_pos = (1, 2, 3), ct_pattern = 4, ct_blocks = [], ct_hatches = []\<rparr>"
    "um_find (en_controllers saved_world) 5 = Some \<lparr>ct_id = 5, ct_pos = (1, 2, 3), ct_pattern = 4, ct_blocks = [], ct_hatches = []\<rparr>"
    unfolding P_def by code_simp+
  note facts = this
  let ?c = "\<lparr>ct_id = 5, ct_pos = (1, 2, 3), ct_pattern = 4, ct_blocks = [], ct_hatches = []\<rparr>"
  have pos: "findEntityAt (ct_pos ?c) ?E = Some (0, P ?E)" "findEntityAt (ct_pos ?c) saved_world = Some (0, P saved_world)"
    using at by simp_all
  have ok: "engine_ok ?E" "engine_ok saved_world" using engine_run_ok[OF run] engine_run_ok[OF saved_world_run] by simp_all
  have "\<exists>p''. findEntityAt (ct_pos ?c) (deserializeMultiblock 5 (serializeMultiblock 5 ?E) saved_world) = Some (0, p'') \<and>
      e_heat p'' = Some (\<lparr>hi_stored = 0, hi_capacity = 1000\<rparr>\<lparr>hi_stored := hi_stored \<lparr>hi_stored = 250, hi_capacity = 1000\<rparr>\<rparr>) \<and>
      e_slots p'' = Some [\<lparr>item_id = 21, cnt = 9, pmeta = 0\<rparr>] \<and>
      e_progress p'' = Some \<lparr>rp_recipe = ''steel'', rp_remaining = 60, rp_processing = True, rp_needs_output = False, rp_pending = None\<rparr>"
    using saved_multiblock_restored[OF ok facts(7) pos(1) facts(1-3) _ facts(8) _ pos(2) facts(4-6)] by simp
  then obtain p'' where "findEntityAt (1, 2, 3) (deserializeMultiblock 5 (serializeMultiblock 5 ?E) saved_world) = Some (0, p'')"
      "e_heat p'' = Some \<lparr>hi_stored = 250, hi_capacity = 1000\<rparr>" "e_slots p'' = Some [\<lparr>item_id = 21, cnt = 9, pmeta = 0\<rparr>]"
      "e_progress p'' = Some \<lparr>rp_recipe = ''steel'', rp_remaining = 60, rp_processing = True, rp_needs_output = False, rp_pending = None\<rparr>"
    by auto
  moreover have "um_find (en_controllers (deserializeMultiblock 5 (serializeMultiblock 5 ?E) saved_world)) 5 =
      Some \<lparr>ct_id = 5, ct_pos = (1, 2, 3), ct_pattern = 4, ct_blocks = [], ct_hatches = []\<rparr>"
    by code_simp
  ultimately show ?thesis by (simp add: serializeMultiblock_def saved_of_def saved_demo_def)
qed

section \<open>What block changes leave behind\<close>

text \<open>Concrete runs. A battery buffer that is broken and replaced by another machine leaves its battery on the new one;
  a machine placed over another keeps the energy buffer of the old one, although its own capacity differs; the
  echo of a formed controller's block resets the multiblock id of its machine; and an anchor replaced by a plain block leaves
  its controller registered.
\<close>

definition formed :: engine where
  "formed = onBlockChanged next_entity (10, 12, 20) 1006 0 0 lcr_shell"

definition over :: engine where
  "over = build [((1, 2, 3), 7), ((1, 2, 3), 0), ((1, 2, 3), 8), ((4, 5, 6), 7), ((4, 5, 6), 8)] (engine_new (Some heat_table))"

definition anchor_mb :: "engine \<Rightarrow> u32 option" where
  "anchor_mb E = map_option (\<lambda>(_, p). p_mb p) (findEntityAt (10, 12, 20) E)"

definition anchor_state :: "engine \<Rightarrow> u32 option \<times> u32 option \<times> bool" where
  "anchor_state E =
     (anchor_mb E, anchor_mb (onBlockChanged next_entity (10, 12, 20) 1006 0 0 E),
      isControllerActive 2 (onBlockChanged next_entity (10, 12, 20) 5 0 0 E))"

theorem block_changes_leave_parts:
  "map_option (\<lambda>(_, p). (map_option mc_machine (e_machine p), p_battery p = None)) (findEntityAt (1, 2, 3) over) = Some (Some 8, False) \<and>
   map_option (\<lambda>(_, p). (map_option mc_machine (e_machine p), map_option es_capacity (e_energy p))) (findEntityAt (4, 5, 6) over)
     = Some (Some 8, Some 400) \<and>
   anchor_state formed = (Some 2, Some 0, True)"
  by (intro conjI) code_simp+

end
