(* ===== verification/Spec2Isabelle.thy ===== *)
theory Spec2Isabelle
  imports Prelude Coords OpenHashMap SectionCodec SparseMap MutableSection SectionBlocks SectionWire ItemId Flood PipeTypes PipeTopology PipeRebuild PipeOps PipePorts PipeFluid
    PipeFlow PipeItems PipeConsume CableGraph CableProps InventoryClick InventoryProps InventoryHandler ResourceDrain DrainProps
    QuestCore QuestManager QuestProps QuestBook ChestSessions ChestBook
    MutableChunk ClockCache ChunkCache LmdbStore ChunkStore ChunkProps
    Recipes RecipeProps MachineTypes CraftReservation ReservationProps MachineSystem MachineProps
    PlantTypes PowerSources BatterySystem PowerProps Patterns Engine EngineProps Multiblocks
begin

text \<open>
  This library verifies the server side of the GTNH platform: the services under src/apps and the game and
  engine code they link, written in C++. The root theory imports every other theory and holds this overview.

  How the program is put together. Services talk through a message router with FlatBuffers messages. The
  chunk store owns the blocks of the world; the pipe network owns the pipes and cables and moves fluid,
  energy and items through them; simcore runs the machines, the inventories, the chests and the quests and
  owns the buffers of the machines. Three protocols join them. A machine that starts a recipe asks the pipe
  network for what its own buffers lack (craft reservations); the network, when a pipe falls short, drains
  the owner of the source by a request with retries (consume transactions); the owner answers such a drain
  at most once per request id (resource drain). Each service handles its messages on one thread, so a run is
  a sequence of handler calls, and that is what the theorems quantify over.

  Conventions. A struct is a record, a class its data as a record with one definition per method, in the
  order of the source. Integers that can wrap or are packed are words of their width; counts whose range the
  code checks are int or nat. A std::unordered_map is an association list (Prelude), whose order stands for
  the iteration order, since some handlers depend on it. Floats and doubles are rationals, except in the
  cable graph, where they hold integers and results are rounded to 24 significant bits. Exceptions, early
  returns and failed calls are branches that return None or a value of an error type. Code outside the
  sources (LMDB, the allocator, the publisher, the block and machine tables that are loaded from data files)
  is a parameter, with its documented laws as hypotheses that a concrete instance is shown to satisfy.

  Chunk store (src/apps/chunk_store, src/engine/registry).
  Coords has the packed 64-bit keys of Coords.h. OpenHashMap is the linear-probing table of OpenHashMap.h with
  backward-shift deletion; it refines a finite map. SectionCodec, MutableSection, SparseMap, SectionBlocks and
  SectionWire model SectionCodec.cpp and MutableSection.cpp: the palette, the three representations of 4096
  blocks, the sparse attributes and the wire format with its decoder. MutableChunk is MutableChunk.cpp: eight
  sections, block access and the wire format of a chunk. ClockCache and ChunkCache are ClockCache.h and
  ChunkCache.h: the set-associative cache with clock eviction, and the pool of chunk objects with pins.
  LmdbStore is disk/LmdbStore.cpp. ChunkStore is ChunkStore.cpp with CASHandler.cpp, the encode and flush
  pipelines and the request handlers. ChunkProps states what the service promises: a block that was set is what
  every later read returns, a flush writes it with its chunk, compare-and-swap is atomic on the content; and
  where it does not: states in which a chunk is lost, stale or written to a wrong place. Edits are stated outside
  the corner (chunk_safe) in which the palette of a section overflows and the code loses blocks.
  setBlock is a partial_function, because the repacking loop retries, and its lemmas prove that it returns on
  every well-formed section. The insertion loop of the clock cache has a measure, the reference bits still
  set. The lock-free cache is modelled one operation at a time, in which every compare-and-swap succeeds at
  once; races are outside.

  Pipe network (src/apps/pipe_network, src/common, src/engine/registry/ItemId.h).
  PipeTypes, PipeTopology and Flood hold the data of PipeNetwork.h, the port registry, nodes and edges and the
  breadth-first search. PipeRebuild proves that the networks are the connected components, PipeOps gathers the
  operations as steps, PipePorts the port registry as the join of its ports. PipeFluid, PipeFlow and PipeItems
  are the consume, distribution and transport functions of PipeNetwork.cpp: amounts are exact, buffers stay in
  range, items are conserved, a repeated request is answered from the replay cache. PipeConsume is the tracker
  of PipeConsumeTransactions.h: the four retries and the expiry after fifty ticks are the constants of the
  source, and its loops over a map are folds over the entries in iteration order. CableGraph and CableProps are
  CableGraph.cpp: path search, packets with loss, heat and explosions. ItemId has the 16-bit item ids and the
  block id tests of PipeBlockIds.h.

  Machines and recipes (src/game/machines, src/game/recipes, src/engine/sim, src/apps/simcore).
  Recipes and RecipeProps are the matching, lookup and crafting functions of RecipeManager.cpp: a recipe that
  matches is paid in full. MachineTypes holds the components of a machine entity, the registry (a map from
  entities to records of optional components) and the messages. CraftReservation and ReservationProps are
  CraftReservationClient.cpp and the protocol of its requests and answers. MachineSystem is one tick of
  MachineSystem.cpp, four passes over all machines; MachineProps shows that a tick refines an abstract machine
  that is idle or runs a recipe, that nothing is made without its inputs and its energy, and that a powered
  machine finishes and its outputs arrive. The recipe table is any the loader makes, patterned recipes included.

  Plants and multiblocks (src/game/machines, src/game/mining, src/engine/sim).
  PlantTypes extends the machine entity by the components of the power systems and has the machine table and
  the sweep of a system over the entities of its view. PowerSources are the fuel, creative and rotare
  generators, the steam turbine and the transformer, BatterySystem the battery buffers with the tools they
  charge. PowerProps runs them together: every buffer stays in range, fuel becomes energy without loss, and
  the concrete runs in which a transformer makes energy or a buffer and a turbine wait for ever. Patterns is
  PatternLibrary.cpp, Engine is SimulationEngine.cpp, whose main operation is onBlockChanged. EngineProps shows
  that the engine mirrors the blocks of the world, that its entities are whole, and that a multiblock forms
  exactly when a pattern is built; Multiblocks the slot ranges of hatches and the saved states. The allocation
  of entity ids is a parameter that returns an unused id; the order of the entities is the order of the list.

  Inventories, chests, drains, quests (src/game/storage, src/game/quests, src/apps/simcore/Network).
  InventoryClick, InventoryHandler and InventoryProps are the click rules, the player store and the action
  handler: items are conserved and stacks stay within 64. ChestSessions and ChestBook are the sessions of
  opened chests: one visit conserves, two sessions of one chest duplicate its content. ResourceDrain and DrainProps are the owner side of a drain. QuestCore, QuestManager, QuestProps
  and QuestBook are the quest data, its dependency graph, the progress of the players and the runs of them.

  Interfaces. The locale keyed_store says what a lookup returns after an insert and an erase; the association
  list and the hash table provide it. wire_codec says that a reader takes back what the writer wrote;
  the integer, attribute and multiblock codecs provide it, and the round trips of sections and chunks rest on
  it. replay_server says that a server remembers the answers of the last requests; the pipe network and the
  drain handler provide it with their own cache sizes, and the two retry properties are its lemma.

  Not modelled. Sockets, io_uring and connection threads of the gateway (results of system calls are only
  forwarded); the router (a Go program); the client with its rendering, camera and windows (OpenGL and ImGui
  calls over floats); world generation (noise over floats, vendored library); the entity state store (SQLite
  and LMDB behind a message service; its answers are the steps of the chest model); parsing and publishing of
  FlatBuffers messages and logging everywhere; the YAML loader of recipes; the heat solver of the pipe network
  (an iteration over floats whose result depends on rounding).
  The systems of simcore that compute heat with floats (boilers, coolant, explosions, adjacency transfer), the
  drill, whose block lookups are asynchronous, the blast furnace and chemical reactor, which repeat the steps
  of the machine system on the hatch ranges, and the request handlers of crafting tables and player actions.
\<close>

end
